(* ===== verification/Prelude.thy ===== *)
theory Prelude
  imports Main "HOL-Library.Word"
begin

text \<open>
  The vocabulary every component shares.

  A \<open>Uint8Array\<close> is a list of 8-bit words, a \<open>bigint\<close> is an \<open>int\<close>, a JavaScript
  string is the list of its UTF-16 code units, a call that may throw returns
  \<open>js_error + 'a\<close>. \<open>be_val\<close> reads a byte list as a big-endian number and
  \<open>be_bytes\<close> writes the shortest such list; \<open>to_hex\<close> is the language's
  \<open>toString(16)\<close> and \<open>hex_val\<close> its hexadecimal number parser. The lemmas relate
  the three, and the collections \<open>res_simps\<close> and \<open>js_simps\<close> carry the unfolding of
  error plumbing and of the array primitives to every component.
\<close>

named_theorems res_simps \<open>unfolding of the error monad\<close>
named_theorems js_simps \<open>unfolding of JavaScript array primitives\<close>

type_synonym u8 = "8 word"
type_synonym jsstr = "nat list"

section \<open>Calls that may throw\<close>

text \<open>\<open>Throw\<close> is a plain \<open>Error\<close>, \<open>EvmTrap\<close> the virtual machine's own \<open>EVMError\<close>. \<open>OutOfFuel\<close> is no error of the code: a fuel-bounded recursion of the model returns it
  when its bound is too small, and each such model proves that its bound is enough.\<close>

datatype js_error = Throw string | EvmTrap string | OutOfFuel

type_synonym 'a res = "js_error + 'a"

abbreviation throw :: "string \<Rightarrow> 'a res" where
  "throw msg \<equiv> Inl (Throw msg)"

definition bindE :: "'a res \<Rightarrow> ('a \<Rightarrow> 'b res) \<Rightarrow> 'b res" where
  "bindE r f = (case r of Inl e \<Rightarrow> Inl e | Inr a \<Rightarrow> f a)"

lemma bindE_Inl [simp, res_simps]: "bindE (Inl e) f = Inl e"
  by (simp add: bindE_def)

lemma bindE_Inr [simp, res_simps]: "bindE (Inr a) f = f a"
  by (simp add: bindE_def)

lemma bindE_eq_Inr: "bindE r f = Inr b \<longleftrightarrow> (\<exists>a. r = Inr a \<and> f a = Inr b)"
  by (cases r) auto

lemma bindE_eq_Inl: "bindE r f = Inl e \<longleftrightarrow> r = Inl e \<or> (\<exists>a. r = Inr a \<and> f a = Inl e)"
  by (cases r) auto

lemma bindE_no_fuel:
  "r \<noteq> Inl OutOfFuel \<Longrightarrow> (\<And>a. r = Inr a \<Longrightarrow> f a \<noteq> Inl OutOfFuel) \<Longrightarrow> bindE r f \<noteq> Inl OutOfFuel"
  by (cases r) auto

lemma bindE_assoc: "bindE (bindE r f) g = bindE r (\<lambda>a. bindE (f a) g)"
  by (cases r) auto

lemma bindE_cong [fundef_cong]:
  "r = r' \<Longrightarrow> (\<And>a. r' = Inr a \<Longrightarrow> f a = f' a) \<Longrightarrow> bindE r f = bindE r' f'"
  by (cases r') auto

fun mapE :: "('a \<Rightarrow> 'b res) \<Rightarrow> 'a list \<Rightarrow> 'b list res" where
  "mapE f [] = Inr []"
| "mapE f (x # xs) = bindE (f x) (\<lambda>y. bindE (mapE f xs) (\<lambda>ys. Inr (y # ys)))"

lemma mapE_cong [fundef_cong]:
  "xs = ys \<Longrightarrow> (\<And>x. x \<in> set ys \<Longrightarrow> f x = g x) \<Longrightarrow> mapE f xs = mapE g ys"
proof (induction ys arbitrary: xs)
  case (Cons y ys)
  have "mapE f ys = mapE g ys" by (rule Cons.IH) (auto simp: Cons.prems)
  with Cons.prems show ?case by simp
qed simp

lemma mapE_Inr: "(\<And>x. x \<in> set xs \<Longrightarrow> f x = Inr (g x)) \<Longrightarrow> mapE f xs = Inr (map g xs)"
  by (induction xs) auto

lemma mapE_eq_Inr: "mapE f xs = Inr ys \<longleftrightarrow> list_all2 (\<lambda>x y. f x = Inr y) xs ys"
  by (induction xs arbitrary: ys) (auto simp: bindE_eq_Inr list_all2_Cons1)

section \<open>Array primitives\<close>

text \<open>\<open>a.slice(i, j)\<close> and \<open>a.subarray(i, j)\<close> at non-negative indices clamp to the array.\<close>

definition slice :: "nat \<Rightarrow> nat \<Rightarrow> 'a list \<Rightarrow> 'a list" where
  [js_simps]: "slice i j xs = take (j - i) (drop i xs)"

lemma slice_to_end: "length xs \<le> j \<Longrightarrow> slice i j xs = drop i xs"
  by (simp add: slice_def)

lemma length_slice [simp]: "length (slice i j xs) = min (j - i) (length xs - i)"
  by (simp add: slice_def)

lemma slice_append_mid:
  "i = length as \<Longrightarrow> j = length as + length bs \<Longrightarrow> slice i j (as @ bs @ cs) = bs"
  by (simp add: slice_def)

lemma take_slice_drop: "i \<le> j \<Longrightarrow> take i xs @ slice i j xs @ drop j xs = xs"
  by (metis append_take_drop_id drop_drop le_add_diff_inverse2 slice_def)

text \<open>Reading an index out of range gives \<open>undefined\<close>.\<close>

definition at :: "'a list \<Rightarrow> nat \<Rightarrow> 'a option" where
  [js_simps]: "at xs i = (if i < length xs then Some (xs ! i) else None)"

section \<open>Numbers in base 256\<close>

definition be_val :: "u8 list \<Rightarrow> nat" where
  "be_val bs = foldl (\<lambda>a b. a * 256 + unat b) 0 bs"

fun be_bytes :: "nat \<Rightarrow> u8 list" where
  "be_bytes n = (if n = 0 then [] else be_bytes (n div 256) @ [word_of_nat (n mod 256)])"

declare be_bytes.simps [simp del]

lemma foldl_be: "foldl (\<lambda>a b. a * 256 + unat b) k bs = k * 256 ^ length bs + be_val bs"
proof (induction bs arbitrary: k)
  case Nil
  show ?case by (simp add: be_val_def)
next
  case (Cons b bs)
  show ?case
    using Cons.IH [of "k * 256 + unat b"] Cons.IH [of "unat b"]
    by (simp add: be_val_def algebra_simps)
qed

lemma be_val_Nil [simp]: "be_val [] = 0"
  by (simp add: be_val_def)

lemma be_val_Cons: "be_val (b # bs) = unat b * 256 ^ length bs + be_val bs"
  using foldl_be [of "unat b" bs] by (simp add: be_val_def)

lemma be_val_append: "be_val (as @ bs) = be_val as * 256 ^ length bs + be_val bs"
  using foldl_be [of "be_val as" bs] by (simp add: be_val_def)

lemma be_val_snoc [simp]: "be_val (bs @ [b]) = be_val bs * 256 + unat b"
  by (simp add: be_val_append be_val_Cons)

lemma unat_u8_less [simp]: "unat (b :: u8) < 256"
  using unsigned_less [of b] by simp

lemma unat_u8_of_nat: "n < 256 \<Longrightarrow> unat (word_of_nat n :: u8) = n"
  by (simp add: unat_of_nat)

lemma be_val_less: "be_val bs < 256 ^ length bs"
proof (induction bs rule: rev_induct)
  case (snoc b bs)
  have "be_val bs * 256 + unat b < (be_val bs + 1) * 256"
    using unat_u8_less [of b] by (simp add: distrib_right)
  also have "\<dots> \<le> 256 ^ length bs * 256"
    using snoc.IH by (intro mult_right_mono) auto
  finally show ?case by (simp add: mult.commute)
qed simp

lemma be_bytes_0 [simp]: "be_bytes 0 = []"
  by (simp add: be_bytes.simps)

lemma be_bytes_pos: "0 < n \<Longrightarrow> be_bytes n = be_bytes (n div 256) @ [word_of_nat (n mod 256)]"
  by (simp add: be_bytes.simps [of n])

lemma be_val_be_bytes [simp]: "be_val (be_bytes n) = n"
proof (induction n rule: less_induct)
  case (less n)
  show ?case
  proof (cases "n = 0")
    case False
    with less.IH [of "n div 256"] show ?thesis
      by (simp add: be_bytes_pos unat_u8_of_nat)
  qed simp
qed

lemma be_bytes_Nil_iff [simp]: "be_bytes n = [] \<longleftrightarrow> n = 0"
  by (cases "n = 0") (simp_all add: be_bytes_pos)

lemma hd_be_bytes: "0 < n \<Longrightarrow> hd (be_bytes n) \<noteq> 0"
proof (induction n rule: less_induct)
  case (less n)
  show ?case
  proof (cases "n < 256")
    case True
    with less.prems have "be_bytes n = [word_of_nat n]"
      by (simp add: be_bytes_pos)
    moreover have "unat (word_of_nat n :: u8) \<noteq> 0"
      using True less.prems by (simp add: unat_u8_of_nat)
    ultimately show ?thesis by auto
  next
    case False
    then have "be_bytes (n div 256) \<noteq> []" and "hd (be_bytes (n div 256)) \<noteq> 0"
      using less.IH [of "n div 256"] by (simp_all add: div_greater_zero_iff)
    with less.prems show ?thesis by (simp add: be_bytes_pos [of n])
  qed
qed

lemma be_bytes_be_val: "bs = [] \<or> hd bs \<noteq> 0 \<Longrightarrow> be_bytes (be_val bs) = bs"
proof (induction bs rule: rev_induct)
  case (snoc b bs)
  have b: "unat b < 256" by simp
  have dm: "(be_val bs * 256 + unat b) div 256 = be_val bs"
    "(be_val bs * 256 + unat b) mod 256 = unat b" using b by simp_all
  have pos: "0 < be_val bs * 256 + unat b"
  proof (cases "bs = []")
    case True
    with snoc.prems show ?thesis by (simp add: unat_gt_0)
  next
    case False
    then obtain c cs where "bs = c # cs" by (cases bs) auto
    with snoc.prems show ?thesis by (simp add: be_val_Cons unat_gt_0)
  qed
  have "bs = [] \<or> hd bs \<noteq> 0" using snoc.prems by (cases bs) auto
  then have "be_bytes (be_val bs) = bs" by (rule snoc.IH)
  with pos dm show ?case by (simp add: be_bytes_pos)
qed simp

lemma length_be_bytes_le: "n < 256 ^ k \<Longrightarrow> length (be_bytes n) \<le> k"
proof (induction k arbitrary: n)
  case (Suc k)
  then have "n div 256 < 256 ^ k" by (simp add: less_mult_imp_div_less mult.commute)
  with Suc.IH [of "n div 256"] show ?case
    by (cases "n = 0") (simp_all add: be_bytes_pos)
qed simp

lemma be_bytes_length_lower: "0 < n \<Longrightarrow> 256 ^ (length (be_bytes n) - 1) \<le> n"
proof (induction n rule: less_induct)
  case (less n)
  show ?case
  proof (cases "n < 256")
    case True
    with less.prems show ?thesis by (simp add: be_bytes_pos)
  next
    case False
    then have pos: "0 < n div 256" by (simp add: div_greater_zero_iff)
    with less.IH [of "n div 256"] False
    have "256 ^ (length (be_bytes (n div 256)) - 1) \<le> n div 256" by simp
    then have "256 ^ (length (be_bytes (n div 256)) - 1) * 256 \<le> n"
      using div_times_less_eq_dividend [of n 256] by (meson le_trans mult_le_mono1)
    moreover have "length (be_bytes (n div 256)) \<noteq> 0" using pos by simp
    ultimately show ?thesis
      using less.prems by (simp add: be_bytes_pos [of n] power_eq_if mult.commute)
  qed
qed

end
