(* ===== verification/Hex.thy ===== *)
theory Hex
  imports Prelude
begin

text \<open>
  Hexadecimal numerals of the language: \<open>to_hex\<close> is \<open>Number.toString(16)\<close> and
  \<open>BigInt.toString(16)\<close> on a non-negative integer, \<open>hex_val\<close> the value of a
  digit string, \<open>hex_bytes\<close> the two-digits-per-byte text of a byte list. The
  lemmas of this theory relate the three through the base-256 numbers of the prelude.
  Digits are UTF-16 code units.
\<close>

definition hexdig :: "nat \<Rightarrow> nat" where
  "hexdig d = (if d < 10 then 48 + d else 87 + d)"

definition hexdig_val :: "nat \<Rightarrow> nat option" where
  "hexdig_val c =
     (if 48 \<le> c \<and> c \<le> 57 then Some (c - 48)
      else if 65 \<le> c \<and> c \<le> 70 then Some (c - 55)
      else if 97 \<le> c \<and> c \<le> 102 then Some (c - 87)
      else None)"

lemma hexdig_val_hexdig [simp]: "d < 16 \<Longrightarrow> hexdig_val (hexdig d) = Some d"
  by (simp add: hexdig_def hexdig_val_def)

lemma hexdig_le: "d < 16 \<Longrightarrow> hexdig d \<le> 102"
  by (simp add: hexdig_def)

fun to_hex :: "nat \<Rightarrow> jsstr" where
  "to_hex n = (if n < 16 then [hexdig n] else to_hex (n div 16) @ [hexdig (n mod 16)])"

declare to_hex.simps [simp del]

lemma to_hex_small: "n < 16 \<Longrightarrow> to_hex n = [hexdig n]"
  by (simp add: to_hex.simps)

lemma to_hex_big: "16 \<le> n \<Longrightarrow> to_hex n = to_hex (n div 16) @ [hexdig (n mod 16)]"
  by (simp add: to_hex.simps [of n])

text \<open>The text of a possibly negative integer carries a minus sign.\<close>

definition int_to_hex :: "int \<Rightarrow> jsstr" where
  "int_to_hex i = (if i < 0 then 45 # to_hex (nat (- i)) else to_hex (nat i))"

definition hex_step :: "nat option \<Rightarrow> nat \<Rightarrow> nat option" where
  "hex_step acc c =
     (case acc of None \<Rightarrow> None
      | Some a \<Rightarrow> (case hexdig_val c of None \<Rightarrow> None | Some d \<Rightarrow> Some (a * 16 + d)))"

definition hex_val :: "jsstr \<Rightarrow> nat option" where
  "hex_val s = foldl hex_step (Some 0) s"

definition byte_hex :: "u8 \<Rightarrow> jsstr" where
  "byte_hex b = [hexdig (unat b div 16), hexdig (unat b mod 16)]"

definition hex_bytes :: "u8 list \<Rightarrow> jsstr" where
  "hex_bytes bs = concat (map byte_hex bs)"

lemma hex_bytes_Nil [simp]: "hex_bytes [] = []"
  by (simp add: hex_bytes_def)

lemma hex_bytes_Cons [simp]: "hex_bytes (b # bs) = byte_hex b @ hex_bytes bs"
  by (simp add: hex_bytes_def)

lemma hex_bytes_append [simp]: "hex_bytes (as @ bs) = hex_bytes as @ hex_bytes bs"
  by (simp add: hex_bytes_def)

lemma length_hex_bytes [simp]: "length (hex_bytes bs) = 2 * length bs"
  by (induction bs) (simp_all add: byte_hex_def)

lemma length_byte_hex [simp]: "length (byte_hex b) = 2"
  by (simp add: byte_hex_def)

lemma byte_hex_nonempty [simp]: "byte_hex b \<noteq> []"
  by (simp add: byte_hex_def)

lemma hex_bytes_Nil_iff [simp]: "hex_bytes bs = [] \<longleftrightarrow> bs = []"
  by (cases bs) simp_all

lemma hex_step_byte:
  "hex_step (hex_step (Some k) (hexdig (unat (b :: u8) div 16))) (hexdig (unat b mod 16))
   = Some (k * 256 + unat b)"
proof -
  have "unat b div 16 < 16" using unat_u8_less [of b] by (simp add: less_mult_imp_div_less)
  moreover have "unat b div 16 * 16 + unat b mod 16 = unat b" by simp
  ultimately show ?thesis by (simp add: hex_step_def)
qed

lemma foldl_hex_bytes:
  "foldl hex_step (Some k) (hex_bytes bs) = Some (k * 256 ^ length bs + be_val bs)"
  by (induction bs arbitrary: k)
    (simp_all add: byte_hex_def hex_step_byte be_val_Cons algebra_simps)

lemma hex_val_hex_bytes [simp]: "hex_val (hex_bytes bs) = Some (be_val bs)"
  by (simp add: hex_val_def foldl_hex_bytes)

text \<open>The text of a number, padded to an even length, spells its shortest bytes.\<close>

lemma to_hex_step256:
  assumes "256 \<le> n"
  shows "to_hex n = to_hex (n div 256) @ byte_hex (word_of_nat (n mod 256))"
proof -
  have "n div 16 div 16 = n div 256" by (simp add: div_mult2_eq [symmetric])
  moreover have "n mod 256 div 16 = n div 16 mod 16"
    using mod_mult2_eq [of n 16 16] by simp
  moreover have "n mod 256 mod 16 = n mod 16"
    using mod_mult2_eq [of n 16 16] by simp
  moreover have "16 \<le> n div 16"
    using assms div_le_mono [of 256 n 16] by simp
  ultimately show ?thesis
    using assms to_hex_big [of n] to_hex_big [of "n div 16"]
    by (simp add: byte_hex_def unat_u8_of_nat)
qed

definition pad_even :: "jsstr \<Rightarrow> jsstr" where
  "pad_even s = (if odd (length s) then 48 # s else s)"

lemma pad_even_append_even: "even (length t) \<Longrightarrow> pad_even (s @ t) = pad_even s @ t"
  by (simp add: pad_even_def)

lemma pad_even_to_hex: "pad_even (to_hex n) = hex_bytes (if n = 0 then [0] else be_bytes n)"
proof (induction n rule: less_induct)
  case (less n)
  consider "n = 0" | "0 < n" "n < 16" | "16 \<le> n" "n < 256" | "256 \<le> n" by linarith
  then show ?case
  proof cases
    case 1
    then show ?thesis by (simp add: to_hex_small pad_even_def byte_hex_def hexdig_def)
  next
    case 2
    then show ?thesis
      by (simp add: to_hex_small pad_even_def byte_hex_def be_bytes_pos unat_u8_of_nat hexdig_def)
  next
    case 3
    then have "n div 16 < 16" by (simp add: less_mult_imp_div_less)
    with 3 show ?thesis
      by (simp add: to_hex_big to_hex_small pad_even_def byte_hex_def be_bytes_pos unat_u8_of_nat)
  next
    case 4
    then have pos: "0 < n div 256" by (simp add: div_greater_zero_iff)
    have "pad_even (to_hex n) = pad_even (to_hex (n div 256)) @ byte_hex (word_of_nat (n mod 256))"
      by (simp add: to_hex_step256 [OF 4] pad_even_append_even byte_hex_def)
    with 4 pos less.IH [of "n div 256"] show ?thesis
      by (simp add: be_bytes_pos [of n])
  qed
qed

lemma length_to_hex_pos: "0 < n \<Longrightarrow> to_hex n \<noteq> []"
  by (simp add: to_hex.simps [of n])

text \<open>Digit strings contain hexadecimal digits only.\<close>

lemma hexdig_digit: "d < 16 \<Longrightarrow> hexdig_val (hexdig d) \<noteq> None"
  by simp

lemma to_hex_digits: "c \<in> set (to_hex n) \<Longrightarrow> hexdig_val c \<noteq> None"
proof (induction n rule: less_induct)
  case (less n)
  show ?case
  proof (cases "n < 16")
    case True
    with less.prems show ?thesis by (simp add: to_hex_small)
  next
    case False
    with less.prems less.IH [of "n div 16"] show ?thesis
      by (auto simp: to_hex_big)
  qed
qed

lemma hex_bytes_digits: "c \<in> set (hex_bytes bs) \<Longrightarrow> hexdig_val c \<noteq> None"
proof (induction bs)
  case (Cons b bs)
  have "unat b div 16 < 16" using unat_u8_less [of b] by (simp add: less_mult_imp_div_less)
  with Cons show ?case by (auto simp: byte_hex_def)
qed simp

lemma digit_zero: "hexdig_val 48 = Some 0"
  by (simp add: hexdig_val_def)

lemma pad_even_digits:
  "(\<And>c. c \<in> set s \<Longrightarrow> hexdig_val c \<noteq> None) \<Longrightarrow> c \<in> set (pad_even s) \<Longrightarrow> hexdig_val c \<noteq> None"
  by (fastforce simp: pad_even_def digit_zero split: if_splits)

end
