(* ===== verification/Rlp.thy ===== *)
theory Rlp
  imports Hex
begin

text \<open>
  The RLP codec of \<open>packages/rlp/src\<close>: the helpers of \<open>utils.ts\<close>, \<open>encode\<close> and
  \<open>encodeLength\<close> of \<open>encode.ts\<close>, \<open>decode\<close>, \<open>_decode\<close> and \<open>decodeLength\<close> of
  \<open>decode.ts\<close>. \<open>enc\<close> is the reference encoding of a decoded item; the lemmas show
  that the code's encoder computes it, that the code's decoder inverts it, that the
  decoder accepts canonical encodings only, and that the fuel of the decoder's recursion
  is enough on every input.
\<close>

section \<open>Data\<close>

datatype rlp_input =
    RStr jsstr
  | RNum int
  | RBytes "u8 list"
  | RArr "rlp_input list"
  | RNull

datatype rlp_data = DBytes "u8 list" | DList "rlp_data list"

section \<open>Helpers of utils.ts\<close>

definition rlp_bytesToHex :: "u8 list \<Rightarrow> jsstr" where
  "rlp_bytesToHex bs = concat (map (\<lambda>b. [hexdig (unat b div 16), hexdig (unat b mod 16)]) bs)"

text \<open>\<open>Number.parseInt(s, 16)\<close> reads the longest prefix of digits; with none it is NaN.\<close>

definition rlp_parseHexByte :: "jsstr \<Rightarrow> nat res" where
  "rlp_parseHexByte s =
     (let ds = takeWhile (\<lambda>c. hexdig_val c \<noteq> None) s in
      case ds of [] \<Rightarrow> throw ''Invalid byte sequence''
      | _ # _ \<Rightarrow> (case hex_val ds of None \<Rightarrow> throw ''Invalid byte sequence'' | Some n \<Rightarrow> Inr n))"

definition rlp_asciiToBase16 :: "nat \<Rightarrow> nat option" where
  "rlp_asciiToBase16 char =
     (if 48 \<le> char \<and> char \<le> 57 then Some (char - 48)
      else if 65 \<le> char \<and> char \<le> 70 then Some (char - (65 - 10))
      else if 97 \<le> char \<and> char \<le> 102 then Some (char - (97 - 10))
      else None)"

fun rlp_hex_pairs :: "jsstr \<Rightarrow> u8 list res" where
  "rlp_hex_pairs (c1 # c2 # cs) =
     (case rlp_asciiToBase16 c1 of
        None \<Rightarrow> throw ''hex string expected, got non-hex character''
      | Some n1 \<Rightarrow>
         (case rlp_asciiToBase16 c2 of
            None \<Rightarrow> throw ''hex string expected, got non-hex character''
          | Some n2 \<Rightarrow> bindE (rlp_hex_pairs cs) (\<lambda>bs. Inr (word_of_nat (n1 * 16 + n2) # bs))))"
| "rlp_hex_pairs _ = Inr []"

text \<open>A prefixed string is cut down to its prefix here, as the source does.\<close>

definition rlp_hexToBytes :: "jsstr \<Rightarrow> u8 list res" where
  "rlp_hexToBytes hex0 =
     (let hex = (if slice 0 2 hex0 = [48, 120] then slice 0 2 hex0 else hex0) in
      if odd (length hex)
      then throw ''padded hex string expected, got unpadded hex of length ''
      else rlp_hex_pairs hex)"

text \<open>\<open>TextEncoder\<close>: the UTF-8 bytes of a UTF-16 string, a lone surrogate read as U+FFFD.\<close>

definition utf8_point :: "nat \<Rightarrow> u8 list" where
  "utf8_point c =
     (if c < 128 then [word_of_nat c]
      else if c < 2048 then map word_of_nat [192 + c div 64, 128 + c mod 64]
      else if c < 65536 then
        map word_of_nat [224 + c div 4096, 128 + c div 64 mod 64, 128 + c mod 64]
      else map word_of_nat
        [240 + c div 262144, 128 + c div 4096 mod 64, 128 + c div 64 mod 64, 128 + c mod 64])"

definition high_surrogate :: "nat \<Rightarrow> bool" where
  "high_surrogate c \<longleftrightarrow> 55296 \<le> c \<and> c < 56320"

definition low_surrogate :: "nat \<Rightarrow> bool" where
  "low_surrogate c \<longleftrightarrow> 56320 \<le> c \<and> c < 57344"

fun rlp_utf8ToBytes :: "jsstr \<Rightarrow> u8 list" where
  "rlp_utf8ToBytes [] = []"
| "rlp_utf8ToBytes [c] =
     utf8_point (if high_surrogate c \<or> low_surrogate c then 65533 else c)"
| "rlp_utf8ToBytes (c # d # cs) =
     (if high_surrogate c \<and> low_surrogate d
      then utf8_point (65536 + (c - 55296) * 1024 + (d - 56320)) @ rlp_utf8ToBytes cs
      else utf8_point (if high_surrogate c \<or> low_surrogate c then 65533 else c)
           @ rlp_utf8ToBytes (d # cs))"

definition rlp_numberToHex :: "int \<Rightarrow> jsstr res" where
  "rlp_numberToHex i =
     (if i < 0 then throw ''Invalid integer as argument, must be unsigned!''
      else let hex = int_to_hex i in Inr (if odd (length hex) then 48 # hex else hex))"

definition rlp_padToEven :: "jsstr \<Rightarrow> jsstr" where
  "rlp_padToEven a = (if odd (length a) then 48 # a else a)"

definition rlp_isHexString :: "jsstr \<Rightarrow> bool" where
  "rlp_isHexString str \<longleftrightarrow> 2 \<le> length str \<and> str ! 0 = 48 \<and> str ! 1 = 120"

definition rlp_stripHexPrefix :: "jsstr \<Rightarrow> jsstr" where
  "rlp_stripHexPrefix str = (if rlp_isHexString str then drop 2 str else str)"

fun rlp_toBytes :: "rlp_input \<Rightarrow> u8 list res" where
  "rlp_toBytes (RBytes v) = Inr v"
| "rlp_toBytes (RStr v) =
     (if rlp_isHexString v then rlp_hexToBytes (rlp_padToEven (rlp_stripHexPrefix v))
      else Inr (rlp_utf8ToBytes v))"
| "rlp_toBytes (RNum v) =
     (if v = 0 then Inr [] else bindE (rlp_numberToHex v) rlp_hexToBytes)"
| "rlp_toBytes RNull = Inr []"
| "rlp_toBytes (RArr _) = throw ''toBytes: received unsupported type object''"

definition rlp_safeSlice :: "u8 list \<Rightarrow> nat \<Rightarrow> nat \<Rightarrow> u8 list res" where
  "rlp_safeSlice input s e =
     (if length input < e
      then throw ''invalid RLP (safeSlice): end slice of Uint8Array out-of-bounds''
      else Inr (slice s e input))"

section \<open>encode.ts\<close>

definition rlp_encodeLength :: "nat \<Rightarrow> nat \<Rightarrow> u8 list res" where
  "rlp_encodeLength len offset =
     (if len < 56 then Inr [word_of_nat (len + offset)]
      else bindE (rlp_numberToHex (int len)) (\<lambda>hexLength.
           let lLength = length hexLength div 2 in
           bindE (rlp_numberToHex (int (offset + 55 + lLength))) (\<lambda>firstByte.
           rlp_hexToBytes (firstByte @ hexLength))))"

fun rlp_encode :: "rlp_input \<Rightarrow> u8 list res" where
  "rlp_encode (RArr input) =
     bindE (mapE rlp_encode input) (\<lambda>output.
     bindE (rlp_encodeLength (sum_list (map length output)) 192) (\<lambda>prefix.
     Inr (prefix @ concat output)))"
| "rlp_encode input =
     bindE (rlp_toBytes input) (\<lambda>inputBuf.
     if length inputBuf = 1 \<and> unat (inputBuf ! 0) < 128 then Inr inputBuf
     else bindE (rlp_encodeLength (length inputBuf) 128) (\<lambda>prefix. Inr (prefix @ inputBuf)))"

section \<open>decode.ts\<close>

definition rlp_decodeLength :: "u8 list \<Rightarrow> nat res" where
  "rlp_decodeLength v =
     (if v \<noteq> [] \<and> v ! 0 = 0 then throw ''invalid RLP: extra zeros''
      else rlp_parseHexByte (rlp_bytesToHex v))"

text \<open>
  \<open>rlp_dec\<close> is \<open>_decode\<close> and \<open>rlp_dec_items\<close> its loop over a list payload. Each call
  spends one unit of fuel. On the empty array \<open>input[0]\<close> is undefined, every comparison
  fails and the last branch throws when it parses an empty length.
\<close>

fun rlp_dec :: "nat \<Rightarrow> u8 list \<Rightarrow> (rlp_data \<times> u8 list) res"
and rlp_dec_items :: "nat \<Rightarrow> u8 list \<Rightarrow> rlp_data list res" where
  "rlp_dec 0 input = Inl OutOfFuel"
| "rlp_dec (Suc fuel) input =
     (case input of
        [] \<Rightarrow> throw ''Invalid byte sequence''
      | b # _ \<Rightarrow>
        let firstByte = unat b in
        if firstByte \<le> 127 then Inr (DBytes (slice 0 1 input), drop 1 input)
        else if firstByte \<le> 183 then
          (let len = firstByte - 127 in
           bindE (if firstByte = 128 then Inr [] else rlp_safeSlice input 1 len) (\<lambda>data.
           if len = 2 \<and> unat (data ! 0) < 128
           then throw ''invalid RLP encoding: invalid prefix, single byte < 0x80 are not prefixed''
           else Inr (DBytes data, drop len input)))
        else if firstByte \<le> 191 then
          (let lLength = firstByte - 182 in
           if length input - 1 < lLength
           then throw ''invalid RLP: not enough bytes for string length''
           else bindE (rlp_safeSlice input 1 lLength) (\<lambda>lb.
                bindE (rlp_decodeLength lb) (\<lambda>len.
                if len \<le> 55
                then throw ''invalid RLP: expected string length to be greater than 55''
                else bindE (rlp_safeSlice input lLength (len + lLength)) (\<lambda>data.
                     Inr (DBytes data, drop (len + lLength) input)))))
        else if firstByte \<le> 247 then
          (let len = firstByte - 191 in
           bindE (rlp_safeSlice input 1 len) (\<lambda>inner.
           bindE (rlp_dec_items fuel inner) (\<lambda>decoded.
           Inr (DList decoded, drop len input))))
        else
          (let lLength = firstByte - 246 in
           bindE (rlp_safeSlice input 1 lLength) (\<lambda>lb.
           bindE (rlp_decodeLength lb) (\<lambda>len.
           if len < 56 then throw ''invalid RLP: encoded list too short''
           else let totalLength = lLength + len in
             if length input < totalLength
             then throw ''invalid RLP: total length is larger than the data''
             else bindE (rlp_safeSlice input lLength totalLength) (\<lambda>inner.
                  bindE (rlp_dec_items fuel inner) (\<lambda>decoded.
                  Inr (DList decoded, drop totalLength input)))))))"
| "rlp_dec_items 0 rem = Inl OutOfFuel"
| "rlp_dec_items (Suc fuel) rem =
     (if rem = [] then Inr []
      else bindE (rlp_dec fuel rem) (\<lambda>(d, rem').
           bindE (rlp_dec_items fuel rem') (\<lambda>ds. Inr (d # ds))))"

definition rlp_decode_fuel :: "u8 list \<Rightarrow> nat" where
  "rlp_decode_fuel bs = Suc (2 * length bs)"

definition rlp_has_length_0 :: "rlp_input \<Rightarrow> bool" where
  "rlp_has_length_0 input =
     (case input of RStr s \<Rightarrow> s = [] | RBytes b \<Rightarrow> b = [] | RArr a \<Rightarrow> a = []
      | RNum _ \<Rightarrow> False | RNull \<Rightarrow> True)"

text \<open>With \<open>stream\<close> set the result carries the remainder, except on an empty input.\<close>

datatype rlp_result = Data rlp_data | Decoded rlp_data "u8 list"

definition rlp_decode :: "rlp_input \<Rightarrow> bool \<Rightarrow> rlp_result res" where
  "rlp_decode input stream =
     (if rlp_has_length_0 input then Inr (Data (DBytes []))
      else bindE (rlp_toBytes input) (\<lambda>inputBytes.
           bindE (rlp_dec (rlp_decode_fuel inputBytes) inputBytes) (\<lambda>(d, remainder).
           if stream then Inr (Decoded d remainder)
           else if length remainder \<noteq> 0 then throw ''invalid RLP: remainder must be zero''
           else Inr (Data d))))"

section \<open>The reference encoding\<close>

definition len_prefix :: "nat \<Rightarrow> nat \<Rightarrow> u8 list" where
  "len_prefix n off =
     (if n < 56 then [word_of_nat (n + off)]
      else word_of_nat (off + 55 + length (be_bytes n)) # be_bytes n)"

fun enc :: "rlp_data \<Rightarrow> u8 list" where
  "enc (DBytes bs) =
     (if length bs = 1 \<and> unat (bs ! 0) < 128 then bs else len_prefix (length bs) 128 @ bs)"
| "enc (DList ds) =
     (let p = concat (map enc ds) in len_prefix (length p) 192 @ p)"

text \<open>What an input means once its leaves are turned into bytes.\<close>

fun data_of :: "rlp_input \<Rightarrow> rlp_data res" where
  "data_of (RArr xs) = bindE (mapE data_of xs) (\<lambda>ds. Inr (DList ds))"
| "data_of x = bindE (rlp_toBytes x) (\<lambda>bs. Inr (DBytes bs))"

fun input_of :: "rlp_data \<Rightarrow> rlp_input" where
  "input_of (DBytes bs) = RBytes bs"
| "input_of (DList ds) = RArr (map input_of ds)"

section \<open>Helper lemmas\<close>

lemma rlp_bytesToHex_eq: "rlp_bytesToHex bs = hex_bytes bs"
  by (simp add: rlp_bytesToHex_def hex_bytes_def byte_hex_def [abs_def])

lemma rlp_parseHexByte_hex_bytes:
  "bs \<noteq> [] \<Longrightarrow> rlp_parseHexByte (hex_bytes bs) = Inr (be_val bs)"
proof -
  assume "bs \<noteq> []"
  moreover have "takeWhile (\<lambda>c. hexdig_val c \<noteq> None) (hex_bytes bs) = hex_bytes bs"
    using hex_bytes_digits by (simp add: takeWhile_eq_all_conv)
  moreover have "hex_bytes bs \<noteq> []"
    using \<open>bs \<noteq> []\<close> by (cases bs) (simp_all add: byte_hex_def)
  then obtain c cs where "hex_bytes bs = c # cs" by (cases "hex_bytes bs") auto
  moreover have "hex_val (c # cs) = Some (be_val bs)"
    using \<open>hex_bytes bs = c # cs\<close> hex_val_hex_bytes [of bs] by simp
  ultimately show ?thesis
    unfolding rlp_parseHexByte_def Let_def by simp
qed

lemma rlp_asciiToBase16_eq: "rlp_asciiToBase16 = hexdig_val"
  by (rule ext) (simp add: rlp_asciiToBase16_def hexdig_val_def)

lemma rlp_hex_pairs_hex_bytes: "rlp_hex_pairs (hex_bytes bs) = Inr bs"
proof (induction bs)
  case (Cons b bs)
  have "unat b div 16 < 16" using unat_u8_less [of b] by (simp add: less_mult_imp_div_less)
  with Cons show ?case by (simp add: byte_hex_def rlp_asciiToBase16_eq)
qed simp

lemma hex_bytes_no_prefix: "slice 0 2 (hex_bytes bs) \<noteq> [48, 120]"
proof (cases bs)
  case (Cons b cs)
  have "hexdig (unat b mod 16) \<noteq> 120" using hexdig_le [of "unat b mod 16"] by simp
  with Cons show ?thesis by (simp add: slice_def byte_hex_def)
qed (simp add: slice_def)

lemma rlp_hexToBytes_hex_bytes: "rlp_hexToBytes (hex_bytes bs) = Inr bs"
  using hex_bytes_no_prefix [of bs]
  by (simp add: rlp_hexToBytes_def rlp_hex_pairs_hex_bytes)

lemma rlp_numberToHex_nat:
  "rlp_numberToHex (int n) = Inr (hex_bytes (if n = 0 then [0] else be_bytes n))"
  using pad_even_to_hex [of n]
  by (simp add: rlp_numberToHex_def int_to_hex_def pad_even_def Let_def)

lemma rlp_encodeLength_eq:
  assumes "n < 256 ^ 8" and "off = 128 \<or> off = 192"
  shows "rlp_encodeLength n off = Inr (len_prefix n off)"
proof (cases "n < 56")
  case False
  let ?l = "length (be_bytes n)"
  have l: "?l \<le> 8" by (rule length_be_bytes_le [OF assms(1)])
  have "off + 55 + ?l < 256" using l assms(2) by auto
  then have "be_bytes (off + 55 + ?l) = [word_of_nat (off + 55 + ?l)]"
    by (simp add: be_bytes_pos)
  then have "rlp_numberToHex (int (off + 55 + ?l)) = Inr (hex_bytes [word_of_nat (off + 55 + ?l)])"
    by (simp only: rlp_numberToHex_nat) simp
  moreover have "rlp_numberToHex (int n) = Inr (hex_bytes (be_bytes n))"
    using False by (simp add: rlp_numberToHex_nat)
  moreover have "rlp_hexToBytes (hex_bytes [word_of_nat (off + 55 + ?l)] @ hex_bytes (be_bytes n))
      = Inr (word_of_nat (off + 55 + ?l) # be_bytes n)"
    using rlp_hexToBytes_hex_bytes [of "word_of_nat (off + 55 + ?l) # be_bytes n"] by simp
  ultimately show ?thesis
    using False by (simp add: rlp_encodeLength_def len_prefix_def Let_def)
qed (simp add: rlp_encodeLength_def len_prefix_def)

lemma len_prefix_Cons: "\<exists>b bs. len_prefix n off = b # bs"
  by (simp add: len_prefix_def)

lemma enc_nonempty [simp]: "enc d \<noteq> []"
  by (cases d) (auto simp: len_prefix_def Let_def)

section \<open>The encoder computes the reference encoding\<close>

lemma rlp_encode_leaf:
  assumes "\<And>xs. x \<noteq> RArr xs" and "rlp_encode x = Inr bs" and "length bs < 256 ^ 8"
  shows "\<exists>d. data_of x = Inr d \<and> bs = enc d"
proof -
  have "\<exists>v. rlp_toBytes x = Inr v \<and>
    (if length v = 1 \<and> unat (v ! 0) < 128 then bs = v
     else \<exists>p. rlp_encodeLength (length v) 128 = Inr p \<and> bs = p @ v)"
    using assms(1,2) by (cases x) (auto simp: bindE_eq_Inr simp del: rlp_toBytes.simps split: if_splits)
  then obtain v where v: "rlp_toBytes x = Inr v"
    and c: "if length v = 1 \<and> unat (v ! 0) < 128 then bs = v
     else \<exists>p. rlp_encodeLength (length v) 128 = Inr p \<and> bs = p @ v" by blast
  have "bs = enc (DBytes v)"
  proof (cases "length v = 1 \<and> unat (v ! 0) < 128")
    case True
    with c show ?thesis by simp
  next
    case False
    with c obtain p where p: "rlp_encodeLength (length v) 128 = Inr p" "bs = p @ v" by auto
    moreover have "length v < 256 ^ 8" using p assms(3) by simp
    ultimately show ?thesis using False by (auto simp: rlp_encodeLength_eq)
  qed
  moreover have "data_of x = Inr (DBytes v)"
    using assms(1) v by (cases x) (auto simp del: rlp_toBytes.simps)
  ultimately show ?thesis by blast
qed

lemma rlp_encode_enc:
  "rlp_encode x = Inr bs \<Longrightarrow> length bs < 256 ^ 8 \<Longrightarrow> \<exists>d. data_of x = Inr d \<and> bs = enc d"
proof (induction x arbitrary: bs)
  case (RArr xs)
  from RArr.prems(1) obtain out p where out: "list_all2 (\<lambda>x y. rlp_encode x = Inr y) xs out"
    and p: "rlp_encodeLength (sum_list (map length out)) 192 = Inr p" and bs: "bs = p @ concat out"
    by (auto simp: bindE_eq_Inr mapE_eq_Inr)
  have len: "sum_list (map length out) < 256 ^ 8"
    using RArr.prems(2) bs by (simp add: length_concat)
  have "list_all2 (\<lambda>x d. data_of x = Inr d) xs (map (\<lambda>x. projr (data_of x)) xs) \<and>
        map (\<lambda>x. enc (projr (data_of x))) xs = out"
    using out len RArr.IH
  proof (induction xs out rule: list_all2_induct)
    case (Cons x xs y ys)
    then show ?case by fastforce
  qed simp
  then have "mapE data_of xs = Inr (map (\<lambda>x. projr (data_of x)) xs)"
    and "map enc (map (\<lambda>x. projr (data_of x)) xs) = out"
    by (simp_all add: mapE_eq_Inr comp_def)
  with p bs len show ?case
    by (auto simp: rlp_encodeLength_eq length_concat Let_def comp_def)
qed (rule rlp_encode_leaf; simp; fail)+

lemma rlp_encode_input_of:
  "length (enc d) < 256 ^ 8 \<Longrightarrow> rlp_encode (input_of d) = Inr (enc d)"
proof (induction d)
  case (DBytes bs)
  then show ?case by (auto simp: rlp_encodeLength_eq split: if_splits)
next
  case (DList ds)
  have "length (enc d) < 256 ^ 8" if "d \<in> set ds" for d
  proof -
    have "length (enc d) \<le> sum_list (map length (map enc ds))"
      using that by (intro member_le_sum_list) auto
    with DList.prems show ?thesis by (simp add: Let_def length_concat comp_def)
  qed
  with DList.IH have "mapE rlp_encode (map input_of ds) = Inr (map enc ds)"
    by (simp add: mapE_eq_Inr list_all2_map1 list_all2_map2 list_all2_same)
  then show ?case
    using DList.prems by (simp add: rlp_encodeLength_eq Let_def length_concat comp_def)
qed

section \<open>The decoder inverts the reference encoding\<close>

lemma rlp_safeSlice_mid:
  "i = length as \<Longrightarrow> j = length as + length bs \<Longrightarrow> rlp_safeSlice (as @ bs @ cs) i j = Inr bs"
  by (simp add: rlp_safeSlice_def slice_append_mid)

lemma rlp_safeSlice_Cons:
  "rlp_safeSlice (b # bs @ cs) (Suc 0) (Suc (length bs)) = Inr bs"
  using rlp_safeSlice_mid [of "Suc 0" "[b]" "Suc (length bs)" bs cs] by simp

lemma rlp_decodeLength_be_bytes: "0 < n \<Longrightarrow> rlp_decodeLength (be_bytes n) = Inr n"
  using hd_be_bytes [of n]
  by (simp add: rlp_decodeLength_def rlp_bytesToHex_eq rlp_parseHexByte_hex_bytes hd_conv_nth)

lemma length_be_bytes_pos: "56 \<le> n \<Longrightarrow> 0 < length (be_bytes n)"
  by simp

lemma rlp_dec_long:
  assumes "56 \<le> n" and "n < 256 ^ 8" and "off = 128 \<or> off = 192"
  shows "1 \<le> length (be_bytes n)" "length (be_bytes n) \<le> 8"
    "unat (word_of_nat (off + 55 + length (be_bytes n)) :: u8) = off + 55 + length (be_bytes n)"
proof -
  show 1: "1 \<le> length (be_bytes n)" using assms(1) by (simp add: Suc_le_eq)
  show 2: "length (be_bytes n) \<le> 8" by (rule length_be_bytes_le [OF assms(2)])
  show "unat (word_of_nat (off + 55 + length (be_bytes n)) :: u8) = off + 55 + length (be_bytes n)"
    using 2 assms(3) by (intro unat_u8_of_nat) auto
qed

lemma rlp_dec_DBytes:
  assumes "length (enc (DBytes v)) < 256 ^ 8"
  shows "rlp_dec (Suc f) (enc (DBytes v) @ rest) = Inr (DBytes v, rest)"
proof -
  consider (one) b where "v = [b]" "unat b < 128"
    | (short) "length v < 56" "length v = 1 \<longrightarrow> \<not> unat (v ! 0) < 128"
    | (long) "56 \<le> length v" by (cases v) (auto simp: not_less, force)
  then show ?thesis
  proof cases
    case one
    then show ?thesis by (simp add: slice_def)
  next
    case short
    have "unat (word_of_nat (length v + 128) :: u8) = length v + 128"
      using short by (intro unat_u8_of_nat) simp
    moreover have "rlp_safeSlice (word_of_nat (length v + 128) # v @ rest) 1 (Suc (length v)) = Inr v"
      using rlp_safeSlice_Cons by simp
    moreover have "enc (DBytes v) = word_of_nat (length v + 128) # v"
      using short by (auto simp: len_prefix_def)
    ultimately show ?thesis using short by (auto simp: Let_def simp del: enc.simps)
  next
    case long
    let ?l = "length (be_bytes (length v))"
    let ?b = "word_of_nat (128 + 55 + ?l) :: u8"
    have n: "length v < 256 ^ 8" using assms long by (simp add: len_prefix_def)
    note l = rlp_dec_long [OF long n, of 128]
    have "rlp_safeSlice (?b # be_bytes (length v) @ v @ rest) 1 (Suc ?l) = Inr (be_bytes (length v))"
      using rlp_safeSlice_Cons by simp
    moreover have "rlp_safeSlice (?b # be_bytes (length v) @ v @ rest) (Suc ?l) (length v + Suc ?l) = Inr v"
      using rlp_safeSlice_mid [of "Suc ?l" "?b # be_bytes (length v)" "length v + Suc ?l" v rest] by simp
    moreover have "rlp_decodeLength (be_bytes (length v)) = Inr (length v)"
      using long by (intro rlp_decodeLength_be_bytes) auto
    moreover have "v \<noteq> []" using long by auto
    ultimately show ?thesis using l long by (simp add: len_prefix_def Let_def)
  qed
qed

lemma rlp_dec_DList:
  assumes "length p < 256 ^ 8" and "rlp_dec_items f p = Inr ds"
  shows "rlp_dec (Suc f) (len_prefix (length p) 192 @ p @ rest) = Inr (DList ds, rest)"
proof (cases "length p < 56")
  case True
  have "unat (word_of_nat (length p + 192) :: u8) = length p + 192"
    using True by (intro unat_u8_of_nat) simp
  moreover have "rlp_safeSlice (word_of_nat (length p + 192) # p @ rest) 1 (Suc (length p)) = Inr p"
    using rlp_safeSlice_Cons by simp
  ultimately show ?thesis using True assms by (simp add: len_prefix_def Let_def)
next
  case False
  let ?l = "length (be_bytes (length p))"
  let ?b = "word_of_nat (192 + 55 + ?l) :: u8"
  have long: "56 \<le> length p" using False by simp
  note l = rlp_dec_long [OF long assms(1), of 192]
  have "rlp_safeSlice (?b # be_bytes (length p) @ p @ rest) 1 (Suc ?l) = Inr (be_bytes (length p))"
    using rlp_safeSlice_Cons by simp
  moreover have "rlp_safeSlice (?b # be_bytes (length p) @ p @ rest) (Suc ?l) (Suc ?l + length p) = Inr p"
    using rlp_safeSlice_mid [of "Suc ?l" "?b # be_bytes (length p)" "Suc ?l + length p" p rest] by simp
  moreover have "rlp_decodeLength (be_bytes (length p)) = Inr (length p)"
    using long by (intro rlp_decodeLength_be_bytes) auto
  moreover have "p \<noteq> []" using long by auto
  ultimately show ?thesis using l long assms(2) by (simp add: len_prefix_def Let_def)
qed

lemma rlp_dec_items_enc:
  assumes "\<And>d f rest. d \<in> set ds \<Longrightarrow> length (enc d) < 256 ^ 8 \<Longrightarrow> 2 * length (enc d) \<le> f \<Longrightarrow>
      rlp_dec f (enc d @ rest) = Inr (d, rest)"
    and "length (concat (map enc ds)) < 256 ^ 8"
    and "Suc (2 * length (concat (map enc ds))) \<le> f"
  shows "rlp_dec_items f (concat (map enc ds)) = Inr ds"
  using assms
proof (induction ds arbitrary: f)
  case Nil
  then show ?case by (cases f) auto
next
  case (Cons d ds)
  then obtain g where f: "f = Suc g" by (cases f) auto
  have pos: "0 < length (enc d)" by simp
  have "rlp_dec g (enc d @ concat (map enc ds)) = Inr (d, concat (map enc ds))"
    using Cons.prems f by (intro Cons.prems(1)) auto
  moreover have "rlp_dec_items g (concat (map enc ds)) = Inr ds"
  proof (rule Cons.IH)
    show "length (concat (map enc ds)) < 256 ^ 8" using Cons.prems(2) by simp
    have "Suc (2 * length (enc d) + 2 * length (concat (map enc ds))) \<le> Suc g"
      using Cons.prems(3) f by simp
    with pos show "Suc (2 * length (concat (map enc ds))) \<le> g" by linarith
  qed (use Cons.prems(1) in simp)
  ultimately show ?case by (simp add: f)
qed

lemma rlp_dec_enc:
  "length (enc d) < 256 ^ 8 \<Longrightarrow> 2 * length (enc d) \<le> f \<Longrightarrow> rlp_dec f (enc d @ rest) = Inr (d, rest)"
proof (induction d arbitrary: f rest)
  case (DBytes v)
  have "0 < length (enc (DBytes v))" by (simp del: enc.simps)
  then obtain g where "f = Suc g" using DBytes.prems(2) by (cases f) auto
  with DBytes.prems(1) rlp_dec_DBytes show ?case by blast
next
  case (DList ds)
  let ?p = "concat (map enc ds)"
  have e: "enc (DList ds) = len_prefix (length ?p) 192 @ ?p" by (simp add: Let_def)
  have lp: "0 < length (len_prefix (length ?p) 192)" using len_prefix_Cons by (metis length_0_conv neq0_conv list.distinct(1))
  from e lp DList.prems(2) obtain g where f: "f = Suc g" by (cases f) auto
  have len: "length ?p < 256 ^ 8" using DList.prems(1) e by simp
  have "2 * length (len_prefix (length ?p) 192) + 2 * length ?p \<le> Suc g"
    using DList.prems(2) unfolding e f by (simp add: algebra_simps)
  with lp have "Suc (2 * length ?p) \<le> g" by linarith
  with DList.IH len have "rlp_dec_items g ?p = Inr ds"
    by (intro rlp_dec_items_enc)
  with len show ?case unfolding e f append_assoc by (rule rlp_dec_DList)
qed

section \<open>The decoder accepts canonical encodings only\<close>

lemma rlp_safeSlice_InrD:
  "rlp_safeSlice xs i j = Inr ys \<Longrightarrow> j \<le> length xs \<and> ys = slice i j xs"
  by (auto simp: rlp_safeSlice_def split: if_splits)

lemma rlp_decodeLength_InrD:
  assumes "rlp_decodeLength lb = Inr n"
  shows "lb \<noteq> [] \<and> n = be_val lb \<and> be_bytes n = lb"
proof -
  have ne: "lb \<noteq> []"
    using assms by (auto simp: rlp_decodeLength_def rlp_bytesToHex_def rlp_parseHexByte_def)
  moreover have "hd lb \<noteq> 0"
    using assms ne by (auto simp: rlp_decodeLength_def hd_conv_nth split: if_splits)
  moreover have "n = be_val lb"
    using assms ne
    by (auto simp: rlp_decodeLength_def rlp_bytesToHex_eq rlp_parseHexByte_hex_bytes split: if_splits)
  ultimately show ?thesis by (simp add: be_bytes_be_val)
qed

lemma u8_of_unat: "unat (b :: u8) = k \<Longrightarrow> b = word_of_nat k"
  by auto

lemma enc_DBytes_short:
  assumes "unat b = 127 + len" "0 < len" "len \<le> 56" "len - 1 \<le> length xs"
    and "data = take (len - 1) xs" and "len = 2 \<longrightarrow> \<not> unat (data ! 0) < 128"
  shows "b # xs = enc (DBytes data) @ drop (len - 1) xs"
proof -
  have "length data = len - 1" using assms by simp
  moreover have "b = word_of_nat (length data + 128)"
    using assms calculation by (intro u8_of_unat) simp
  ultimately show ?thesis
    using assms by (auto simp: len_prefix_def simp del: of_nat_add of_nat_diff)
qed

lemma len_prefix_parse:
  assumes "unat b = off + 55 + length lb" and "rlp_decodeLength lb = Inr len" and "56 \<le> len"
  shows "len_prefix len off = b # lb"
proof -
  have "be_bytes len = lb" using rlp_decodeLength_InrD [OF assms(2)] by blast
  with u8_of_unat [OF assms(1)] assms(3) show ?thesis by (simp add: len_prefix_def)
qed

lemma split_long:
  assumes "rlp_safeSlice (b # xs) 1 lLength = Inr lb" and "0 < lLength"
    and "rlp_safeSlice (b # xs) lLength (len + lLength) = Inr data"
  shows "b # xs = (b # lb) @ data @ drop (len + lLength) (b # xs)"
    and "length lb = lLength - 1" and "length data = len"
proof -
  from assms(1,2) have lb: "take lLength (b # xs) = b # lb" and l: "lLength \<le> length (b # xs)"
    by (cases lLength; auto dest!: rlp_safeSlice_InrD simp: slice_def)+
  show "length lb = lLength - 1"
    using arg_cong [OF lb, of length] l assms(2) by simp
  from assms(3) have "data = slice lLength (len + lLength) (b # xs)"
    and "len + lLength \<le> length (b # xs)" by (auto dest: rlp_safeSlice_InrD)
  then show "b # xs = (b # lb) @ data @ drop (len + lLength) (b # xs)" and "length data = len"
    using take_slice_drop [of lLength "len + lLength" "b # xs"] lb by simp_all
qed

lemma rlp_dec_canonical:
  "(\<forall>bs d rest. rlp_dec f bs = Inr (d, rest) \<longrightarrow> bs = enc d @ rest) \<and>
   (\<forall>bs ds. rlp_dec_items f bs = Inr ds \<longrightarrow> bs = concat (map enc ds))"
proof (induction f)
  case (Suc f)
  have items: "bs = concat (map enc ds)" if "rlp_dec_items (Suc f) bs = Inr ds" for bs ds
  proof (cases "bs = []")
    case False
    with that obtain d rest ds' where "rlp_dec f bs = Inr (d, rest)"
      and "rlp_dec_items f rest = Inr ds'" and "ds = d # ds'"
      by (auto simp: bindE_eq_Inr)
    with Suc.IH have "bs = enc d @ rest" and "rest = concat (map enc ds')" by blast+
    with \<open>ds = d # ds'\<close> show ?thesis by simp
  qed (use that in simp)
  have "bs = enc d @ rest" if dec: "rlp_dec (Suc f) bs = Inr (d, rest)" for bs d rest
  proof -
    obtain b xs where bs: "bs = b # xs" using dec by (cases bs) auto
    consider "unat b \<le> 127" | "127 < unat b" "unat b \<le> 183" | "183 < unat b" "unat b \<le> 191"
      | "191 < unat b" "unat b \<le> 247" | "247 < unat b" by linarith
    then show ?thesis
    proof cases
      case 1
      with dec bs show ?thesis by (auto simp: slice_def)
    next
      case 2
      define len where "len = unat b - 127"
      from dec bs 2 obtain data where
        data: "(if unat b = 128 then Inr [] else rlp_safeSlice bs 1 len) = Inr data"
        and nz: "\<not> (len = 2 \<and> unat (data ! 0) < 128)"
        and d: "d = DBytes data" and r: "rest = drop len bs"
        by (auto simp: bindE_eq_Inr Let_def len_def split: if_splits)
      have "len - 1 \<le> length xs \<and> data = take (len - 1) xs"
        using data bs by (cases "unat b = 128") (auto dest!: rlp_safeSlice_InrD simp: slice_def len_def)
      with 2 nz have "b # xs = enc (DBytes data) @ drop (len - 1) xs"
        by (intro enc_DBytes_short) (auto simp: len_def)
      moreover have "drop len (b # xs) = drop (len - 1) xs"
        using 2 by (cases len) (auto simp: len_def)
      ultimately show ?thesis unfolding bs d r by simp
    next
      case 3
      define l where "l = unat b - 182"
      from dec bs 3 obtain lb len data where
        lb: "rlp_safeSlice (b # xs) 1 l = Inr lb" "rlp_decodeLength lb = Inr len" "56 \<le> len"
        and data: "rlp_safeSlice (b # xs) l (len + l) = Inr data"
        and d: "d = DBytes data" and r: "rest = drop (len + l) (b # xs)"
        by (auto simp: bindE_eq_Inr Let_def l_def split: if_splits)
      have l: "0 < l" using 3 by (simp add: l_def)
      note s = split_long [OF lb(1) l data]
      have "unat b = 128 + 55 + length lb" using s(2) 3 by (simp add: l_def)
      from len_prefix_parse [OF this lb(2,3)] s show ?thesis
        using lb(3) unfolding bs d r by (simp add: Let_def)
    next
      case 4
      define len where "len = unat b - 191"
      from dec bs 4 obtain inner ds where inner: "rlp_safeSlice bs 1 len = Inr inner"
        and ds: "rlp_dec_items f inner = Inr ds" and d: "d = DList ds" and r: "rest = drop len bs"
        by (auto simp: bindE_eq_Inr Let_def len_def split: if_splits)
      have in2: "len \<le> length bs" "inner = take (len - 1) xs"
        using inner bs by (auto dest!: rlp_safeSlice_InrD simp: slice_def)
      have len: "length inner = len - 1" "0 < len" "len \<le> 56" using in2 bs 4 by (auto simp: len_def)
      have "b = word_of_nat (length inner + 192)"
        using len 4 by (intro u8_of_unat) (simp add: len_def)
      moreover have "inner = concat (map enc ds)" using Suc.IH ds by blast
      moreover have "length inner < 56" using len by simp
      ultimately have "enc (DList ds) = b # inner"
        by (simp add: Let_def len_prefix_def flip: of_nat_add)
      with in2 len show ?thesis unfolding bs d r by (cases len) auto
    next
      case 5
      define l where "l = unat b - 246"
      from dec bs 5 obtain lb len inner ds where
        lb: "rlp_safeSlice (b # xs) 1 l = Inr lb" "rlp_decodeLength lb = Inr len" "56 \<le> len"
        and inner: "rlp_safeSlice (b # xs) l (len + l) = Inr inner"
        and ds: "rlp_dec_items f inner = Inr ds"
        and d: "d = DList ds" and r: "rest = drop (len + l) (b # xs)"
        by (auto simp: bindE_eq_Inr Let_def l_def add.commute split: if_splits)
      have l: "0 < l" using 5 by (simp add: l_def)
      note s = split_long [OF lb(1) l inner]
      have "unat b = 192 + 55 + length lb" using s(2) 5 by (simp add: l_def)
      moreover have "inner = concat (map enc ds)" using Suc.IH ds by blast
      ultimately show ?thesis
        using len_prefix_parse [of b 192 lb len] lb s unfolding bs d r by (simp add: Let_def)
    qed
  qed
  with items show ?case by blast
qed simp

section \<open>The fuel is enough\<close>

lemma rlp_dec_rest_shorter:
  assumes "rlp_dec f bs = Inr (d, rest)"
  shows "length rest < length bs"
proof -
  have "bs = enc d @ rest" using assms rlp_dec_canonical by blast
  moreover have "0 < length (enc d)" by simp
  ultimately show ?thesis by simp
qed

lemma rlp_slice_shorter:
  "rlp_safeSlice bs i j = Inr ys \<Longrightarrow> 0 < i \<Longrightarrow> bs \<noteq> [] \<Longrightarrow> length ys < length bs"
  by (cases bs) (auto dest!: rlp_safeSlice_InrD)

lemma rlp_no_fuel_safeSlice: "rlp_safeSlice xs i j \<noteq> Inl OutOfFuel"
  by (simp add: rlp_safeSlice_def)

lemma rlp_no_fuel_decodeLength: "rlp_decodeLength xs \<noteq> Inl OutOfFuel"
  by (auto simp: rlp_decodeLength_def rlp_parseHexByte_def Let_def split: list.split option.split)

lemma rlp_dec_fuel_step:
  assumes "\<And>ys. length ys < length bs \<Longrightarrow> rlp_dec_items f ys \<noteq> Inl OutOfFuel"
  shows "rlp_dec (Suc f) bs \<noteq> Inl OutOfFuel"
proof (cases bs)
  case (Cons b xs)
  have inner: "rlp_dec_items f ys \<noteq> Inl OutOfFuel"
    if "rlp_safeSlice bs i j = Inr ys" "0 < i" for i j ys
    using rlp_slice_shorter [OF that] Cons by (intro assms) simp
  show ?thesis
    unfolding rlp_dec.simps Let_def Cons list.case
    by (intro if_split [where P = "\<lambda>r. r \<noteq> Inl OutOfFuel", THEN iffD2] conjI impI
        bindE_no_fuel rlp_no_fuel_safeSlice rlp_no_fuel_decodeLength)
      (use inner Cons in auto)
qed simp

lemma rlp_dec_fuel:
  "(\<forall>bs. 2 * length bs < f \<longrightarrow> rlp_dec f bs \<noteq> Inl OutOfFuel) \<and>
   (\<forall>bs. Suc (2 * length bs) < f \<longrightarrow> rlp_dec_items f bs \<noteq> Inl OutOfFuel)"
proof (induction f)
  case (Suc f)
  have "rlp_dec (Suc f) bs \<noteq> Inl OutOfFuel" if "2 * length bs < Suc f" for bs
  proof (rule rlp_dec_fuel_step)
    fix ys :: "u8 list"
    assume "length ys < length bs"
    then have "Suc (2 * length ys) < f" using that by linarith
    with Suc.IH show "rlp_dec_items f ys \<noteq> Inl OutOfFuel" by blast
  qed
  moreover have "rlp_dec_items (Suc f) bs \<noteq> Inl OutOfFuel" if f: "Suc (2 * length bs) < Suc f" for bs
  proof -
    have "rlp_dec f bs \<noteq> Inl OutOfFuel" using f Suc.IH by simp
    moreover have "rlp_dec_items f rest \<noteq> Inl OutOfFuel" if "rlp_dec f bs = Inr (d, rest)" for d rest
      using rlp_dec_rest_shorter [OF that] f Suc.IH by simp
    ultimately show ?thesis by (auto simp: bindE_eq_Inl split: prod.splits)
  qed
  ultimately show ?case by blast
qed simp

lemma rlp_numberToHex_no_fuel: "rlp_numberToHex i \<noteq> Inl OutOfFuel"
  by (simp add: rlp_numberToHex_def Let_def)

lemma rlp_hexToBytes_no_fuel: "rlp_hexToBytes s \<noteq> Inl OutOfFuel"
proof -
  have "rlp_hex_pairs t \<noteq> Inl OutOfFuel" for t
    by (induction t rule: rlp_hex_pairs.induct) (auto simp: bindE_eq_Inl split: option.splits)
  then show ?thesis by (simp add: rlp_hexToBytes_def Let_def)
qed

lemma rlp_toBytes_no_fuel: "rlp_toBytes x \<noteq> Inl OutOfFuel"
  by (cases x) (auto simp: bindE_eq_Inl rlp_hexToBytes_no_fuel rlp_numberToHex_no_fuel)

lemma rlp_decode_enc:
  "length (enc d) < 256 ^ 8 \<Longrightarrow> rlp_decode (RBytes (enc d)) False = Inr (Data d)"
  using rlp_dec_enc [of d "rlp_decode_fuel (enc d)" "[]"]
  by (simp add: rlp_decode_def rlp_has_length_0_def rlp_decode_fuel_def del: rlp_dec.simps)

lemma rlp_encode_items:
  "length (enc (DList ds)) < 256 ^ 8 \<Longrightarrow>
   rlp_encode (RArr (map input_of ds)) = Inr (enc (DList ds))"
  using rlp_encode_input_of [of "DList ds"] by (simp del: enc.simps)

section \<open>Properties\<close>

declare rlp_dec.simps [simp del] rlp_dec_items.simps [simp del]

text \<open>C26. Round trip. Whatever nested input the encoder accepts (strings, numbers, byte
  arrays, arrays of them) with an encoding below \<open>2 ^ 64\<close> bytes, decoding the encoding gives
  back the input's tree with each leaf turned into its bytes.\<close>

theorem rlp_decode_encode:
  assumes "rlp_encode x = Inr bs" and "length bs < 256 ^ 8"
  shows "\<exists>d. data_of x = Inr d \<and> rlp_decode (RBytes bs) False = Inr (Data d)"
proof -
  obtain d where d: "data_of x = Inr d" "bs = enc d"
    using rlp_encode_enc [OF assms] by blast
  have "rlp_dec (rlp_decode_fuel (enc d)) (enc d) = Inr (d, [])"
    using rlp_dec_enc [of d _ "[]"] assms(2) d by (simp add: rlp_decode_fuel_def)
  with d show ?thesis by (simp add: rlp_decode_def rlp_has_length_0_def)
qed

theorem rlp_decode_encode_witness:
  "rlp_encode (RArr [RStr [99, 97, 116], RNum 1024, RArr [], RNull]) =
     Inr [201, 131, 99, 97, 116, 130, 4, 0, 192, 128] \<and>
   (\<exists>d. data_of (RArr [RStr [99, 97, 116], RNum 1024, RArr [], RNull]) = Inr d \<and>
     rlp_decode (RBytes [201, 131, 99, 97, 116, 130, 4, 0, 192, 128]) False = Inr (Data d))"
proof -
  have e: "rlp_encode (RArr [RStr [99, 97, 116], RNum 1024, RArr [], RNull]) =
     Inr [201, 131, 99, 97, 116, 130, 4, 0, 192, 128]"
    by (simp add: rlp_isHexString_def high_surrogate_def low_surrogate_def utf8_point_def
        rlp_numberToHex_def int_to_hex_def to_hex.simps rlp_hexToBytes_def slice_def
        hexdig_def rlp_asciiToBase16_def rlp_encodeLength_def)
  show ?thesis using e rlp_decode_encode [OF e] by simp
qed

text \<open>C23. Canonical decoding. The decoder's answer on a non-empty byte array (below
  \<open>2 ^ 64\<close> bytes) determines the array: re-encoding the decoded tree gives exactly the bytes
  that were read, so no two byte arrays decode to the same tree.\<close>

theorem rlp_encode_decode:
  assumes "rlp_decode (RBytes bs) False = Inr (Data d)" and "bs \<noteq> []" and "length bs < 256 ^ 8"
  shows "rlp_encode (input_of d) = Inr bs"
proof -
  have "rlp_dec (rlp_decode_fuel bs) bs = Inr (d, [])"
    using assms(1,2)
    by (auto simp: rlp_decode_def rlp_has_length_0_def bindE_eq_Inr split: prod.splits if_splits)
  then have "bs = enc d" using rlp_dec_canonical by fastforce
  with assms(3) show ?thesis by (simp add: rlp_encode_input_of)
qed

theorem rlp_encode_decode_witness:
  "rlp_decode (RBytes [194, 127, 128]) False = Inr (Data (DList [DBytes [127], DBytes []])) \<and>
   rlp_encode (input_of (DList [DBytes [127], DBytes []])) = Inr [194, 127, 128]"
proof -
  have d: "rlp_decode (RBytes [194, 127, 128]) False = Inr (Data (DList [DBytes [127], DBytes []]))"
    by code_simp
  show ?thesis using d rlp_encode_decode [OF d] by simp
qed

text \<open>C32. Stream decoding. In stream mode the decoder succeeds on a byte array (shorter than
  \<open>256 ^ 8\<close>) in exactly two cases: on the empty array, for which it answers a bare empty array, and on
  an array that is the canonical encoding of one item followed by a remainder, for which it answers
  this item and this remainder. On every other array it throws.\<close>

theorem rlp_stream_iff:
  assumes "length bs < 256 ^ 8"
  shows "rlp_decode (RBytes bs) True = Inr x \<longleftrightarrow>
    bs = [] \<and> x = Data (DBytes []) \<or> (\<exists>d r. x = Decoded d r \<and> bs = enc d @ r)"
proof (cases "bs = []")
  case True
  then show ?thesis by (auto simp: rlp_decode_def rlp_has_length_0_def enc_nonempty)
next
  case False
  show ?thesis
  proof
    assume "rlp_decode (RBytes bs) True = Inr x"
    then obtain d r where "rlp_dec (rlp_decode_fuel bs) bs = Inr (d, r)" "x = Decoded d r"
      using False by (auto simp: rlp_decode_def rlp_has_length_0_def bindE_eq_Inr)
    then show "bs = [] \<and> x = Data (DBytes []) \<or> (\<exists>d r. x = Decoded d r \<and> bs = enc d @ r)"
      using rlp_dec_canonical by blast
  next
    assume "bs = [] \<and> x = Data (DBytes []) \<or> (\<exists>d r. x = Decoded d r \<and> bs = enc d @ r)"
    then obtain d r where x: "x = Decoded d r" "bs = enc d @ r" using False by blast
    then have "rlp_dec (rlp_decode_fuel bs) bs = Inr (d, r)"
      using assms rlp_dec_enc [of d "rlp_decode_fuel bs" r] by (simp add: rlp_decode_fuel_def)
    then show "rlp_decode (RBytes bs) True = Inr x"
      using False x(1) by (simp add: rlp_decode_def rlp_has_length_0_def)
  qed
qed

theorem rlp_stream_iff_witness:
  "rlp_decode (RBytes [130, 1, 2, 5]) True = Inr (Decoded (DBytes [1, 2]) [5])
    \<and> rlp_decode (RBytes []) True = Inr (Data (DBytes []))"
proof -
  have "enc (DBytes [1, 2]) @ [5] = [130, 1, 2, 5]" by (simp add: len_prefix_def)
  then show ?thesis
    using rlp_stream_iff [of "[130, 1, 2, 5]"] rlp_stream_iff [of "[]"] by fastforce
qed

text \<open>C35. Termination. The recursion of \<open>_decode\<close> and its payload loop stops on every
  input: the fuel of one unit plus two per byte is never exhausted.\<close>

theorem rlp_decode_terminates: "rlp_decode x stream \<noteq> Inl OutOfFuel"
proof -
  have "rlp_dec (rlp_decode_fuel bs) bs \<noteq> Inl OutOfFuel" for bs
    using rlp_dec_fuel [of "rlp_decode_fuel bs"] by (simp add: rlp_decode_fuel_def)
  then show ?thesis
    by (auto simp: rlp_decode_def bindE_eq_Inl rlp_toBytes_no_fuel split: prod.splits if_splits)
qed

end
