(* ===== verification/Bytes.thy ===== *)
theory Bytes
  imports Rlp
begin

text \<open>
  The byte conversions of \<open>packages/utils/src/bytes.ts\<close> and the string helpers of
  \<open>internal.ts\<close> they call. The two hex codecs of \<open>ethereum-cryptography\<close> and the hash
  are third-party code: they are the fields of the record \<open>lib\<close>, an argument of every
  definition that calls them, and the locale \<open>hex_codec\<close> states what their documentation
  says of the two codecs. The RLP package's own codec satisfies the same contract. Under it
  \<open>bytesToBigInt\<close> reads big-endian numbers and \<open>bigIntToBytes\<close> writes the shortest ones.
\<close>

record lib =
  bytesToUnprefixedHex :: "u8 list \<Rightarrow> jsstr"
  nobleH2B :: "jsstr \<Rightarrow> u8 list res"
  keccak_256 :: "u8 list \<Rightarrow> u8 list"

section \<open>Strings\<close>

text \<open>The regular expression \<open>^0x[0-9A-Fa-f]*$\<close>; \<open>$\<close> has no multiline flag here.\<close>

definition isHexString :: "jsstr \<Rightarrow> bool" where
  "isHexString value \<longleftrightarrow>
     take 2 value = [48, 120] \<and> list_all (\<lambda>c. hexdig_val c \<noteq> None) (drop 2 value)"

definition stripHexPrefix :: "jsstr \<Rightarrow> jsstr" where
  "stripHexPrefix str = (if isHexString str then drop 2 str else str)"

definition padToEven :: "jsstr \<Rightarrow> jsstr" where
  "padToEven value = (if odd (length value) then 48 # value else value)"

section \<open>Conversions\<close>

definition hexToBytes :: "lib \<Rightarrow> jsstr \<Rightarrow> u8 list res" where
  "hexToBytes L hex =
     (if take 2 hex \<noteq> [48, 120] then throw ''input string must be 0x prefixed''
      else nobleH2B L (padToEven (stripHexPrefix hex)))"

definition unprefixedHexToBytes :: "lib \<Rightarrow> jsstr \<Rightarrow> u8 list res" where
  "unprefixedHexToBytes L hex =
     (if take 2 hex = [48, 120] then throw ''input string cannot be 0x prefixed''
      else nobleH2B L (padToEven hex))"

definition bytesToHex :: "lib \<Rightarrow> u8 list \<Rightarrow> jsstr" where
  "bytesToHex L bytes = [48, 120] @ bytesToUnprefixedHex L bytes"

text \<open>\<open>BigInt("0x...")\<close> on a prefixed string.\<close>

definition BigInt_hex :: "jsstr \<Rightarrow> int res" where
  "BigInt_hex s =
     (case hex_val (drop 2 s) of
        None \<Rightarrow> throw ''SyntaxError: Cannot convert string to a BigInt''
      | Some n \<Rightarrow> Inr (int n))"

text \<open>With the default \<open>littleEndian = false\<close>. The numbers below \<open>256 * 256\<close> come from a
  table that maps each index to itself.\<close>

definition bytesToBigInt :: "lib \<Rightarrow> u8 list \<Rightarrow> int res" where
  "bytesToBigInt L bytes =
     (let hex = bytesToHex L bytes in
      if hex = [48, 120] then Inr 0
      else if length hex = 4 then Inr (int (unat (bytes ! 0)))
      else if length hex = 6 then Inr (int (unat (bytes ! 0) * 256 + unat (bytes ! 1)))
      else BigInt_hex hex)"

definition max_safe_integer :: int where
  "max_safe_integer = 2 ^ 53 - 1"

text \<open>\<open>Number(x)\<close> rounds beyond 53 bits, and a rounded value is no safe integer.\<close>

definition bytesToInt :: "lib \<Rightarrow> u8 list \<Rightarrow> int res" where
  "bytesToInt L bytes =
     bindE (bytesToBigInt L bytes) (\<lambda>res.
     if max_safe_integer < \<bar>res\<bar> then throw ''Number exceeds 53 bits'' else Inr res)"

definition intToHex :: "int \<Rightarrow> jsstr res" where
  "intToHex i =
     (if max_safe_integer < \<bar>i\<bar> \<or> i < 0 then throw ''Received an invalid integer type: ''
      else Inr ([48, 120] @ int_to_hex i))"

definition intToBytes :: "lib \<Rightarrow> int \<Rightarrow> u8 list res" where
  "intToBytes L i = bindE (intToHex i) (hexToBytes L)"

definition bigIntToBytes :: "lib \<Rightarrow> int \<Rightarrow> u8 list res" where
  "bigIntToBytes L num = hexToBytes L ([48, 120] @ padToEven (int_to_hex num))"

text \<open>\<open>subarray(-length)\<close> takes the last \<open>length\<close> bytes, and all of them for length 0.\<close>

definition setLength :: "u8 list \<Rightarrow> nat \<Rightarrow> bool \<Rightarrow> u8 list" where
  "setLength msg len right =
     (if right then
        (if length msg < len then msg @ replicate (len - length msg) 0 else slice 0 len msg)
      else
        (if length msg < len then replicate (len - length msg) 0 @ msg
         else if len = 0 then msg else drop (length msg - len) msg))"

definition setLengthLeft :: "u8 list \<Rightarrow> nat \<Rightarrow> u8 list" where
  "setLengthLeft msg len = setLength msg len False"

definition setLengthRight :: "u8 list \<Rightarrow> nat \<Rightarrow> u8 list" where
  "setLengthRight msg len = setLength msg len True"

fun stripZeros :: "u8 list \<Rightarrow> u8 list" where
  "stripZeros [] = []"
| "stripZeros (a # as) = (if a = 0 then stripZeros as else a # as)"

definition unpadBytes :: "u8 list \<Rightarrow> u8 list" where
  "unpadBytes a = stripZeros a"

definition validateNoLeadingZeroes :: "u8 list option list \<Rightarrow> unit res" where
  "validateNoLeadingZeroes values =
     (if \<exists>v \<in> set values. case v of None \<Rightarrow> False | Some b \<Rightarrow> 0 < length b \<and> b ! 0 = 0
      then throw '' cannot have leading zeroes, received: '' else Inr ())"

definition bigIntToUnpaddedBytes :: "lib \<Rightarrow> int \<Rightarrow> u8 list res" where
  "bigIntToUnpaddedBytes L value = bindE (bigIntToBytes L value) (\<lambda>b. Inr (unpadBytes b))"

definition bigIntToAddressBytes :: "lib \<Rightarrow> int \<Rightarrow> bool \<Rightarrow> u8 list res" where
  "bigIntToAddressBytes L value strict =
     bindE (bigIntToBytes L value) (\<lambda>addressBytes.
     if strict \<and> 20 < length addressBytes then throw ''Invalid address bytes length=''
     else Inr (setLengthLeft addressBytes 20))"

definition toUnsigned :: "lib \<Rightarrow> int \<Rightarrow> u8 list res" where
  "toUnsigned L num = bigIntToBytes L (take_bit 256 num)"

definition fromSigned :: "lib \<Rightarrow> u8 list \<Rightarrow> int res" where
  "fromSigned L num = bindE (bytesToBigInt L num) (\<lambda>n. Inr (signed_take_bit 255 n))"

definition compareBytes :: "lib \<Rightarrow> u8 list \<Rightarrow> u8 list \<Rightarrow> int res" where
  "compareBytes L value1 value2 =
     bindE (bytesToBigInt L value1) (\<lambda>v1.
     bindE (bytesToBigInt L value2) (\<lambda>v2.
     Inr (if v2 < v1 then 1 else if v1 < v2 then -1 else 0)))"

section \<open>The contract of a hex codec\<close>

locale hex_codec =
  fixes b2h :: "u8 list \<Rightarrow> jsstr" and h2b :: "jsstr \<Rightarrow> u8 list res"
  assumes b2h_digits: "b2h bs = hex_bytes bs"
    and h2b_digits: "h2b (hex_bytes bs) = Inr bs"
begin

lemma codec_roundtrip: "h2b (b2h bs) = Inr bs"
  by (simp add: b2h_digits h2b_digits)

lemma codec_number: "h2b (pad_even (to_hex n)) = Inr (if n = 0 then [0] else be_bytes n)"
  by (simp only: pad_even_to_hex h2b_digits)

lemma codec_inj: "b2h as = b2h bs \<Longrightarrow> as = bs"
  using codec_roundtrip by (metis sum.inject(2))

end

interpretation rlp_codec: hex_codec rlp_bytesToHex rlp_hexToBytes
  by unfold_locales (simp_all add: rlp_bytesToHex_eq rlp_hexToBytes_hex_bytes)

text \<open>What the code relies on of the third-party functions.\<close>

definition lib_ok :: "lib \<Rightarrow> bool" where
  "lib_ok L \<longleftrightarrow> hex_codec (bytesToUnprefixedHex L) (nobleH2B L) \<and> (\<forall>x. length (keccak_256 L x) = 32)"

text \<open>A concrete instance: the RLP package's own codec and a constant hash.\<close>

definition ref_lib :: lib where
  "ref_lib = \<lparr>bytesToUnprefixedHex = rlp_bytesToHex, nobleH2B = rlp_hexToBytes,
              keccak_256 = (\<lambda>_. replicate 32 0)\<rparr>"

lemma lib_ok_ref [simp]: "lib_ok ref_lib"
  by (simp add: lib_ok_def ref_lib_def rlp_codec.hex_codec_axioms)

section \<open>Lemmas\<close>

lemma lib_okD:
  assumes "lib_ok L"
  shows "bytesToUnprefixedHex L bs = hex_bytes bs" and "nobleH2B L (hex_bytes bs) = Inr bs"
    and "nobleH2B L (pad_even (to_hex n)) = Inr (if n = 0 then [0] else be_bytes n)"
proof -
  have c: "hex_codec (bytesToUnprefixedHex L) (nobleH2B L)" using assms by (simp add: lib_ok_def)
  show "bytesToUnprefixedHex L bs = hex_bytes bs" by (rule hex_codec.b2h_digits [OF c])
  show "nobleH2B L (hex_bytes bs) = Inr bs" by (rule hex_codec.h2b_digits [OF c])
  show "nobleH2B L (pad_even (to_hex n)) = Inr (if n = 0 then [0] else be_bytes n)"
    by (rule hex_codec.codec_number [OF c])
qed

lemma bytesToHex_eq: "lib_ok L \<Longrightarrow> bytesToHex L bs = [48, 120] @ hex_bytes bs"
  by (simp add: bytesToHex_def lib_okD)

lemma bytesToBigInt_eq [simp]: "lib_ok L \<Longrightarrow> bytesToBigInt L bs = Inr (int (be_val bs))"
proof -
  assume L: "lib_ok L"
  consider "bs = []" | a where "bs = [a]" | a b where "bs = [a, b]" | "3 \<le> length bs"
    by (cases bs rule: list.exhaust [case_product list.exhaust]; cases "tl bs"; cases "tl (tl bs)") auto
  then show ?thesis
    using L by cases (auto simp: bytesToBigInt_def Let_def bytesToHex_eq BigInt_hex_def be_val_Cons
        simp flip: hex_bytes_Cons)
qed

lemma hexToBytes_number:
  assumes "lib_ok L"
  shows "hexToBytes L ([48, 120] @ padToEven (to_hex n)) = Inr (if n = 0 then [0] else be_bytes n)"
proof -
  have pe: "padToEven s = pad_even s" for s by (simp add: padToEven_def pad_even_def)
  have digits: "list_all (\<lambda>c. hexdig_val c \<noteq> None) (pad_even (to_hex n))"
    using pad_even_digits [of "to_hex n"] to_hex_digits by (auto simp: list_all_iff)
  have "even (length (pad_even (to_hex n)))" by (simp add: pad_even_def)
  then have "pad_even (pad_even (to_hex n)) = pad_even (to_hex n)"
    by (simp add: pad_even_def [of "pad_even (to_hex n)"])
  with digits assms show ?thesis
    by (simp add: hexToBytes_def stripHexPrefix_def isHexString_def pe lib_okD)
qed

lemma bigIntToBytes_eq:
  "lib_ok L \<Longrightarrow> bigIntToBytes L (int n) = Inr (if n = 0 then [0] else be_bytes n)"
  using hexToBytes_number [of L n] by (simp add: bigIntToBytes_def int_to_hex_def)

lemma be_val_zero_byte [simp]: "be_val [0] = 0"
  by (simp add: be_val_Cons)

lemma be_val_replicate_0 [simp]: "be_val (replicate k 0 @ bs) = be_val bs"
  by (induction k) (simp_all add: be_val_Cons)

lemma be_val_append_zeros [simp]: "be_val (bs @ replicate k 0) = be_val bs * 256 ^ k"
  using be_val_replicate_0 [of k "[]"] by (simp add: be_val_append)

lemma length_setLengthLeft [simp]: "0 < n \<Longrightarrow> length (setLengthLeft b n) = n"
  by (simp add: setLengthLeft_def setLength_def)

lemma length_setLengthRight [simp]: "length (setLengthRight b n) = n"
  by (simp add: setLengthRight_def setLength_def)

lemma be_val_setLengthLeft:
  "length b \<le> n \<Longrightarrow> be_val (setLengthLeft b n) = be_val b"
  by (simp add: setLengthLeft_def setLength_def)

text \<open>A stack word written to 32 bytes and read back.\<close>

definition word_bytes :: "lib \<Rightarrow> int \<Rightarrow> u8 list res" where
  "word_bytes L v = bindE (bigIntToBytes L v) (\<lambda>b. Inr (setLengthLeft b 32))"

lemma word_bytes_eq:
  assumes "lib_ok L" and "0 \<le> v" and "v < 2 ^ 256"
  shows "\<exists>b. word_bytes L v = Inr b \<and> length b = 32 \<and> be_val b = nat v"
proof -
  let ?b = "if nat v = 0 then [0] else be_bytes (nat v)"
  have "nat v < 256 ^ 32" using assms(2,3) by (simp add: nat_less_iff)
  then have "length ?b \<le> 32" using length_be_bytes_le [of "nat v" 32] by simp
  then have "be_val (setLengthLeft ?b 32) = nat v" by (subst be_val_setLengthLeft) simp_all
  with bigIntToBytes_eq [OF assms(1), of "nat v"] assms(2) show ?thesis
    by (simp add: word_bytes_def)
qed

lemma stripZeros_be_bytes: "stripZeros bs = be_bytes (be_val bs)"
proof (induction bs)
  case (Cons a as)
  then show ?case by (simp add: be_val_Cons) (auto simp: be_bytes_be_val simp flip: be_val_Cons)
qed simp

lemma bigIntToUnpaddedBytes_eq:
  "lib_ok L \<Longrightarrow> bigIntToUnpaddedBytes L (int n) = Inr (be_bytes n)"
  by (simp add: bigIntToUnpaddedBytes_def bigIntToBytes_eq unpadBytes_def stripZeros_be_bytes)

lemma toUnsigned_eq:
  "lib_ok L \<Longrightarrow> toUnsigned L v = Inr (let n = nat (take_bit 256 v) in if n = 0 then [0] else be_bytes n)"
  using bigIntToBytes_eq [of L "nat (take_bit 256 v)"] by (simp add: toUnsigned_def Let_def)

section \<open>Properties\<close>

text \<open>Number and byte conversions are inverse. For a non-negative integer \<open>bigIntToBytes\<close>,
  \<open>bigIntToUnpaddedBytes\<close> and left padding to at least the needed length all decode back to it,
  the unpadded form is the one with no leading zero byte, and stripping zeros from any byte array
  gives the unpadded form of its value.\<close>

theorem bigint_bytes_roundtrip:
  assumes "lib_ok L" and "0 \<le> v"
  shows "bindE (bigIntToBytes L v) (bytesToBigInt L) = Inr v
    \<and> bindE (bigIntToUnpaddedBytes L v) (bytesToBigInt L) = Inr v
    \<and> (v < 256 ^ k \<longrightarrow> 0 < k \<longrightarrow> (\<exists>b. bindE (bigIntToBytes L v) (\<lambda>b. Inr (setLengthLeft b k)) = Inr b
        \<and> length b = k \<and> bytesToBigInt L b = Inr v))
    \<and> (\<forall>bs. bytesToBigInt L bs = Inr v \<longrightarrow> bigIntToUnpaddedBytes L v = Inr (unpadBytes bs))
    \<and> bindE (bigIntToUnpaddedBytes L v) (\<lambda>b. validateNoLeadingZeroes [Some b]) = Inr ()"
proof -
  obtain n where v: "v = int n" using assms(2) nonneg_int_cases by blast
  let ?b = "if n = 0 then [0] else be_bytes n"
  have "length ?b \<le> k" if "v < 256 ^ k" "0 < k"
  proof -
    have "n < 256 ^ k" using that(1) v by (metis of_nat_less_iff of_nat_numeral of_nat_power)
    with that(2) show ?thesis using length_be_bytes_le [of n k] by simp
  qed
  then have "be_val (setLengthLeft ?b k) = n" if "v < 256 ^ k" "0 < k"
    using that by (subst be_val_setLengthLeft) simp_all
  moreover have "be_bytes n \<noteq> [] \<Longrightarrow> be_bytes n ! 0 \<noteq> 0"
    using hd_be_bytes [of n] by (cases "n = 0") (simp_all add: hd_conv_nth)
  ultimately show ?thesis
    using bigIntToBytes_eq [OF assms(1), of n] bigIntToUnpaddedBytes_eq [OF assms(1), of n] assms(1) v
    by (auto simp: validateNoLeadingZeroes_def unpadBytes_def stripZeros_be_bytes)
qed

theorem bigint_bytes_roundtrip_witness:
  "bindE (bigIntToBytes ref_lib 258) (bytesToBigInt ref_lib) = Inr 258
   \<and> (\<exists>b. bindE (bigIntToBytes ref_lib 258) (\<lambda>b. Inr (setLengthLeft b 32)) = Inr b
        \<and> length b = 32 \<and> bytesToBigInt ref_lib b = Inr 258)"
  using bigint_bytes_roundtrip [of ref_lib 258 32] by simp

text \<open>C34. Two's complement. \<open>toUnsigned\<close> followed by \<open>fromSigned\<close> gives back every signed 256-bit
  integer, and \<open>compareBytes\<close> orders byte arrays by the numbers they denote.\<close>

theorem signed_roundtrip:
  assumes "lib_ok L" and "- (2 ^ 255) \<le> v" and "v < 2 ^ 255"
  shows "bindE (toUnsigned L v) (fromSigned L) = Inr v
    \<and> compareBytes L a b = Inr (sgn (int (be_val a) - int (be_val b)))"
proof -
  have "signed_take_bit 255 (take_bit 256 v) = v"
    using assms(2,3) by (simp add: signed_take_bit_take_bit signed_take_bit_int_eq_self)
  moreover obtain n where "take_bit 256 v = int n"
    using take_bit_nonnegative [of 256 v] nonneg_int_cases by blast
  ultimately show ?thesis
    using assms(1) by (auto simp: toUnsigned_eq fromSigned_def compareBytes_def Let_def sgn_if)
qed

theorem signed_roundtrip_witness:
  "bindE (toUnsigned ref_lib (-5)) (fromSigned ref_lib) = Inr (-5)
    \<and> compareBytes ref_lib [0, 7] [8] = Inr (sgn (int (be_val [0, 7]) - int (be_val [8])))"
  by (rule signed_roundtrip) simp_all

end
