(* ===== verification/EvmStack.thy ===== *)
theory EvmStack
  imports Prelude
begin

text \<open>
  The operand stack of \<open>packages/evm/src/stack.ts\<close>. The code keeps an array that never
  shrinks and a length; \<open>view\<close> is the live part, top first. The locale \<open>lifo\<close> is the
  contract the opcode handlers rely on; the interpretation \<open>evm\<close> discharges it for the
  code's stack, garbage above the length included.
\<close>

record stack =
  st_store :: "int list"
  st_maxHeight :: nat
  st_len :: nat

definition stack_new :: "nat \<Rightarrow> stack" where
  "stack_new maxHeight = \<lparr>st_store = [], st_maxHeight = maxHeight, st_len = 0\<rparr>"

abbreviation stack_underflow :: "'a res" where
  "stack_underflow \<equiv> Inl (EvmTrap ''stack underflow'')"

abbreviation stack_overflow :: "'a res" where
  "stack_overflow \<equiv> Inl (EvmTrap ''stack overflow'')"

text \<open>\<open>store[i] = v\<close> at an index inside the array or just past its end.\<close>

definition store_set :: "'a list \<Rightarrow> nat \<Rightarrow> 'a \<Rightarrow> 'a list" where
  "store_set xs i v = (if i < length xs then xs[i := v] else xs @ [v])"

definition stack_push :: "int \<Rightarrow> stack \<Rightarrow> stack res" where
  "stack_push value s =
     (if st_maxHeight s \<le> st_len s then stack_overflow
      else Inr (s\<lparr>st_store := store_set (st_store s) (st_len s) value, st_len := Suc (st_len s)\<rparr>))"

definition stack_pop :: "stack \<Rightarrow> (int \<times> stack) res" where
  "stack_pop s =
     (if st_len s < 1 then stack_underflow
      else Inr (st_store s ! (st_len s - 1), s\<lparr>st_len := st_len s - 1\<rparr>))"

definition stack_popN :: "nat \<Rightarrow> stack \<Rightarrow> (int list \<times> stack) res" where
  "stack_popN num s =
     (if st_len s < num then stack_underflow
      else if num = 0 then Inr ([], s)
      else Inr (map (\<lambda>pop. st_store s ! (st_len s - Suc pop)) [0..<num],
                s\<lparr>st_len := st_len s - num\<rparr>))"

text \<open>\<open>peek\<close> walks down from the length and throws as soon as the index is negative.\<close>

fun stack_peek_from :: "stack \<Rightarrow> nat \<Rightarrow> nat \<Rightarrow> int list res" where
  "stack_peek_from s start 0 = Inr []"
| "stack_peek_from s start (Suc num) =
     (if start = 0 then stack_underflow
      else bindE (stack_peek_from s (start - 1) num) (\<lambda>vs. Inr (st_store s ! (start - 1) # vs)))"

definition stack_peek :: "nat \<Rightarrow> stack \<Rightarrow> int list res" where
  "stack_peek num s = stack_peek_from s (st_len s) num"

definition stack_swap :: "nat \<Rightarrow> stack \<Rightarrow> stack res" where
  "stack_swap position s =
     (if st_len s \<le> position then stack_underflow
      else let head = st_len s - 1; i = head - position; c = st_store s; tmp = c ! head in
        Inr (s\<lparr>st_store := (c[head := c ! i])[i := tmp]\<rparr>))"

definition stack_dup :: "nat \<Rightarrow> stack \<Rightarrow> stack res" where
  "stack_dup position s =
     (let len = st_len s in
      if len < position then stack_underflow
      else if st_maxHeight s \<le> len then stack_overflow
      else let i = len - position in
        Inr (s\<lparr>st_store := store_set (st_store s) len (st_store s ! i), st_len := Suc len\<rparr>))"

definition stack_exchange :: "nat \<Rightarrow> nat \<Rightarrow> stack \<Rightarrow> stack res" where
  "stack_exchange swap1 swap2 s =
     (let headIndex = int (st_len s) - 1;
          exchangeIndex1 = headIndex - int swap1;
          exchangeIndex2 = headIndex - int swap2 in
      if exchangeIndex1 < 0 \<or> exchangeIndex2 < 0 then stack_underflow
      else let c = st_store s; i1 = nat exchangeIndex1; i2 = nat exchangeIndex2; cache = c ! i2 in
        Inr (s\<lparr>st_store := (c[i2 := c ! i1])[i1 := cache]\<rparr>))"

definition stack_getStack :: "stack \<Rightarrow> int list" where
  "stack_getStack s = slice 0 (st_len s) (st_store s)"

section \<open>The abstract stack\<close>

definition view :: "stack \<Rightarrow> int list" where
  "view s = rev (take (st_len s) (st_store s))"

definition stack_inv :: "stack \<Rightarrow> bool" where
  "stack_inv s \<longleftrightarrow> st_len s \<le> length (st_store s) \<and> st_len s \<le> st_maxHeight s"

text \<open>What a client may rely on: a bounded last-in first-out store.\<close>

locale lifo =
  fixes inv :: "'s \<Rightarrow> bool" and vw :: "'s \<Rightarrow> 'v list" and cap :: "'s \<Rightarrow> nat"
    and push :: "'v \<Rightarrow> 's \<Rightarrow> 's res" and popN :: "nat \<Rightarrow> 's \<Rightarrow> ('v list \<times> 's) res"
  assumes bounded: "inv s \<Longrightarrow> length (vw s) \<le> cap s"
    and push_room: "inv s \<Longrightarrow> length (vw s) < cap s \<Longrightarrow>
      \<exists>s'. push v s = Inr s' \<and> inv s' \<and> vw s' = v # vw s \<and> cap s' = cap s"
    and push_full: "inv s \<Longrightarrow> length (vw s) = cap s \<Longrightarrow> push v s = stack_overflow"
    and popN_enough: "inv s \<Longrightarrow> n \<le> length (vw s) \<Longrightarrow>
      \<exists>s'. popN n s = Inr (take n (vw s), s') \<and> inv s' \<and> vw s' = drop n (vw s) \<and> cap s' = cap s"
    and popN_short: "inv s \<Longrightarrow> length (vw s) < n \<Longrightarrow> popN n s = stack_underflow"
begin

definition replace :: "nat \<Rightarrow> ('v list \<Rightarrow> 'v) \<Rightarrow> 's \<Rightarrow> 's res" where
  "replace n f s = bindE (popN n s) (\<lambda>(xs, s'). push (f xs) s')"

lemma replace_enough:
  assumes "inv s" and "0 < n" and "n \<le> length (vw s)"
  shows "\<exists>s'. replace n f s = Inr s' \<and> inv s' \<and> cap s' = cap s \<and>
           vw s' = f (take n (vw s)) # drop n (vw s)"
proof -
  obtain s1 where s1: "popN n s = Inr (take n (vw s), s1)" "inv s1"
      "vw s1 = drop n (vw s)" "cap s1 = cap s"
    using popN_enough [OF assms(1,3)] by blast
  have "length (vw s1) < cap s1"
    using s1 bounded [OF assms(1)] assms(2,3) by simp
  with push_room [OF s1(2)] s1 show ?thesis by (auto simp: replace_def)
qed

lemma replace_short:
  "inv s \<Longrightarrow> length (vw s) < n \<Longrightarrow> replace n f s = stack_underflow"
  by (simp add: replace_def popN_short)

end

lemma length_view [simp]: "stack_inv s \<Longrightarrow> length (view s) = st_len s"
  by (simp add: view_def stack_inv_def)

lemma store_nth_view:
  "stack_inv s \<Longrightarrow> i < st_len s \<Longrightarrow> st_store s ! (st_len s - Suc i) = view s ! i"
  by (simp add: view_def stack_inv_def rev_nth)

lemma take_store_set: "n \<le> length xs \<Longrightarrow> take (Suc n) (store_set xs n v) = take n xs @ [v]"
  by (auto simp: store_set_def take_Suc_conv_app_nth)

lemma length_store_set: "n \<le> length xs \<Longrightarrow> Suc n \<le> length (store_set xs n v)"
  by (simp add: store_set_def)

lemma take_view: "stack_inv s \<Longrightarrow> n \<le> st_len s \<Longrightarrow>
   map (\<lambda>i. st_store s ! (st_len s - Suc i)) [0..<n] = take n (view s)"
  by (rule nth_equalityI) (simp_all add: store_nth_view)

lemma drop_view: "stack_inv s \<Longrightarrow> n \<le> st_len s \<Longrightarrow>
   rev (take (st_len s - n) (st_store s)) = drop n (view s)"
  by (simp add: view_def stack_inv_def drop_rev min_absorb2)

interpretation evm: lifo stack_inv view st_maxHeight stack_push stack_popN
proof (unfold_locales, goal_cases)
  case (1 s)
  then show ?case by (simp add: stack_inv_def view_def)
next
  case (2 s v)
  then show ?case
    by (auto simp: stack_push_def stack_inv_def view_def take_store_set length_store_set)
next
  case (3 s v)
  then show ?case by (simp add: stack_push_def)
next
  case (4 s n)
  then have "n \<le> st_len s" by simp
  with 4 show ?case
    by (auto simp: stack_popN_def stack_inv_def take_view drop_view [unfolded view_def]
        view_def [of "st_len_update f s" for f] simp flip: view_def)
next
  case (5 s n)
  then show ?case by (simp add: stack_popN_def)
qed

section \<open>The other operations on the abstract stack\<close>

lemma stack_peek_from_view:
  assumes "stack_inv s"
  shows "start \<le> st_len s \<Longrightarrow> stack_peek_from s start num =
    (if num \<le> start then Inr (take num (drop (st_len s - start) (view s))) else stack_underflow)"
proof (induction num arbitrary: start)
  case (Suc num)
  show ?case
  proof (cases start)
    case (Suc k)
    have nth: "st_store s ! k = view s ! (st_len s - Suc k)"
      using store_nth_view [OF assms, of "st_len s - Suc k"] Suc Suc.prems by simp
    have "drop (st_len s - Suc k) (view s) = view s ! (st_len s - Suc k) # drop (st_len s - k) (view s)"
      using Cons_nth_drop_Suc [of "st_len s - Suc k" "view s"] assms Suc Suc.prems
      by (simp add: Suc_diff_Suc)
    with Suc nth Suc.IH [of k] Suc.prems show ?thesis by simp
  qed simp
qed simp

lemma stack_peek_view:
  "stack_inv s \<Longrightarrow> stack_peek n s =
    (if n \<le> length (view s) then Inr (take n (view s)) else stack_underflow)"
  by (simp add: stack_peek_def stack_peek_from_view)

lemma view_update_store:
  assumes "stack_inv s" and "length xs = length (st_store s)"
    and "\<And>i. i < st_len s \<Longrightarrow> xs ! i = ys ! (st_len s - Suc i)" and "length ys = st_len s"
  shows "view (s\<lparr>st_store := xs\<rparr>) = ys"
  using assms by (intro nth_equalityI) (auto simp: view_def stack_inv_def rev_nth)

lemma stack_swap_view:
  assumes "stack_inv s" and "position < length (view s)"
  shows "\<exists>s'. stack_swap position s = Inr s' \<and> stack_inv s' \<and> st_maxHeight s' = st_maxHeight s \<and>
    view s' = (view s)[0 := view s ! position, position := view s ! 0]"
proof -
  have p: "position < st_len s" "0 < st_len s" using assms by simp_all
  have st: "st_store s ! (st_len s - Suc 0) = view s ! 0"
    "st_store s ! (st_len s - Suc position) = view s ! position"
    using p store_nth_view [OF assms(1)] by auto
  let ?xs = "(st_store s)[st_len s - Suc 0 := st_store s ! (st_len s - Suc position),
      st_len s - Suc position := st_store s ! (st_len s - Suc 0)]"
  have "view (s\<lparr>st_store := ?xs\<rparr>) = (view s)[0 := view s ! position, position := view s ! 0]"
  proof (rule view_update_store [OF assms(1)])
    fix i assume i: "i < st_len s"
    with assms(1) have "i < length (st_store s)" by (simp add: stack_inv_def)
    moreover have "st_store s ! i = view s ! (st_len s - Suc i)"
      using store_nth_view [OF assms(1), of "st_len s - Suc i"] i by simp
    ultimately show "?xs ! i =
        (view s)[0 := view s ! position, position := view s ! 0] ! (st_len s - Suc i)"
      using i p assms(1) st by (auto simp: nth_list_update)
  qed (use assms(1) in simp_all)
  moreover have "stack_swap position s = Inr (s\<lparr>st_store := ?xs\<rparr>)"
    using p by (simp add: stack_swap_def Let_def)
  ultimately show ?thesis using assms(1) by (simp add: stack_inv_def)
qed

lemma stack_swap_short:
  "stack_inv s \<Longrightarrow> length (view s) \<le> position \<Longrightarrow> stack_swap position s = stack_underflow"
  by (simp add: stack_swap_def)

lemma stack_dup_view:
  assumes "stack_inv s" and "0 < position" and "position \<le> length (view s)"
    and "length (view s) < st_maxHeight s"
  shows "\<exists>s'. stack_dup position s = Inr s' \<and> stack_inv s' \<and> st_maxHeight s' = st_maxHeight s \<and>
    view s' = view s ! (position - 1) # view s"
proof -
  have "st_store s ! (st_len s - position) = view s ! (position - 1)"
    using store_nth_view [OF assms(1), of "position - 1"] assms by simp
  with assms show ?thesis
    by (auto simp: stack_dup_def Let_def stack_inv_def view_def take_store_set length_store_set)
qed

lemma stack_exchange_as_swaps:
  assumes "stack_inv s" and "swap1 < length (view s)" and "swap2 < length (view s)"
  shows "\<exists>s'. stack_exchange swap1 swap2 s = Inr s' \<and> stack_inv s' \<and>
    st_maxHeight s' = st_maxHeight s \<and>
    view s' = (view s)[swap2 := view s ! swap1, swap1 := view s ! swap2]"
proof -
  have p: "swap1 < st_len s" "swap2 < st_len s" using assms by simp_all
  let ?a = "st_len s - Suc swap1" and ?b = "st_len s - Suc swap2"
  have ix: "nat (int (st_len s) - 1 - int swap1) = ?a" "nat (int (st_len s) - 1 - int swap2) = ?b"
    using p by linarith+
  let ?xs = "(st_store s)[?b := st_store s ! ?a, ?a := st_store s ! ?b]"
  have "view (s\<lparr>st_store := ?xs\<rparr>) = (view s)[swap2 := view s ! swap1, swap1 := view s ! swap2]"
  proof (rule view_update_store [OF assms(1)])
    fix i assume i: "i < st_len s"
    with assms(1) have "i < length (st_store s)" by (simp add: stack_inv_def)
    moreover have "st_store s ! i = view s ! (st_len s - Suc i)"
      using store_nth_view [OF assms(1), of "st_len s - Suc i"] i by simp
    ultimately show "?xs ! i =
        (view s)[swap2 := view s ! swap1, swap1 := view s ! swap2] ! (st_len s - Suc i)"
      using i p assms(1) store_nth_view [OF assms(1)] by (auto simp: nth_list_update)
  qed (use assms(1) in simp_all)
  moreover have "stack_exchange swap1 swap2 s = Inr (s\<lparr>st_store := ?xs\<rparr>)"
    using p by (simp add: stack_exchange_def Let_def ix)
  ultimately show ?thesis using assms(1) by (simp add: stack_inv_def)
qed

lemma stack_getStack_view: "stack_getStack s = rev (view s)"
  by (simp add: stack_getStack_def view_def slice_def)

section \<open>The operations against a list of words\<close>

definition a_push :: "nat \<Rightarrow> int \<Rightarrow> int list \<Rightarrow> int list res" where
  "a_push h v xs = (if h \<le> length xs then stack_overflow else Inr (v # xs))"

definition a_popN :: "nat \<Rightarrow> int list \<Rightarrow> (int list \<times> int list) res" where
  "a_popN n xs = (if length xs < n then stack_underflow else Inr (take n xs, drop n xs))"

definition a_swap :: "nat \<Rightarrow> nat \<Rightarrow> int list \<Rightarrow> int list res" where
  "a_swap i j xs = (if length xs \<le> max i j then stack_underflow else Inr (xs[j := xs ! i, i := xs ! j]))"

definition a_dup :: "nat \<Rightarrow> nat \<Rightarrow> int list \<Rightarrow> int list res" where
  "a_dup h n xs = (if length xs < n then stack_underflow
     else if h \<le> length xs then stack_overflow else Inr (xs ! (n - 1) # xs))"

text \<open>\<open>sim h r a\<close>: the outcome \<open>r\<close> is the abstract outcome \<open>a\<close>, on a well-formed stack of
  unchanged capacity \<open>h\<close>.\<close>

definition sim :: "nat \<Rightarrow> stack res \<Rightarrow> int list res \<Rightarrow> bool" where
  "sim h r a = (case (r, a) of (Inl e, Inl e') \<Rightarrow> e = e'
     | (Inr s', Inr xs) \<Rightarrow> stack_inv s' \<and> st_maxHeight s' = h \<and> view s' = xs | _ \<Rightarrow> False)"

lemma sim_intros:
  "r = Inl e \<Longrightarrow> a = Inl e \<Longrightarrow> sim h r a"
  "\<exists>s'. r = Inr s' \<and> stack_inv s' \<and> st_maxHeight s' = h \<and> view s' = xs \<Longrightarrow> a = Inr xs \<Longrightarrow> sim h r a"
  by (auto simp: sim_def)

lemma sim_push: "stack_inv s \<Longrightarrow> sim (st_maxHeight s) (stack_push v s) (a_push (st_maxHeight s) v (view s))"
proof (cases "length (view s) < st_maxHeight s")
  case True
  assume "stack_inv s"
  with True evm.push_room [of s v] show ?thesis
    by (intro sim_intros(2)) (auto simp: a_push_def)
next
  case False
  assume s: "stack_inv s"
  with False evm.bounded [of s] have "length (view s) = st_maxHeight s" by simp
  with s evm.push_full [of s v] show ?thesis by (intro sim_intros(1)) (auto simp: a_push_def)
qed

lemma stack_popN_cases:
  "stack_inv s \<Longrightarrow> case stack_popN n s of Inl e \<Rightarrow> a_popN n (view s) = Inl e
     | Inr (xs, s') \<Rightarrow> a_popN n (view s) = Inr (xs, view s') \<and> stack_inv s' \<and>
         st_maxHeight s' = st_maxHeight s"
  using evm.popN_enough [of s n] evm.popN_short [of s n]
  by (cases "length (view s) < n") (auto simp: a_popN_def)

lemma stack_pop_popN:
  "stack_pop s = bindE (stack_popN 1 s) (\<lambda>(xs, s'). Inr (xs ! 0, s'))"
  by (simp add: stack_pop_def stack_popN_def)

lemma sim_swap: "stack_inv s \<Longrightarrow> sim (st_maxHeight s) (stack_swap n s) (a_swap n 0 (view s))"
  using stack_swap_view [of s n] stack_swap_short [of s n]
  by (cases "n < length (view s)") (auto intro: sim_intros simp: a_swap_def)

lemma sim_dup: "stack_inv s \<Longrightarrow> 0 < n \<Longrightarrow>
  sim (st_maxHeight s) (stack_dup n s) (a_dup (st_maxHeight s) n (view s))"
  using stack_dup_view [of s n]
  by (cases "n \<le> length (view s)"; cases "length (view s) < st_maxHeight s")
    (auto intro: sim_intros simp: a_dup_def stack_dup_def Let_def)

lemma sim_exchange: "stack_inv s \<Longrightarrow>
  sim (st_maxHeight s) (stack_exchange i j s) (a_swap i j (view s))"
  using stack_exchange_as_swaps [of s i j]
  by (cases "i < length (view s)"; cases "j < length (view s)")
    (auto intro: sim_intros simp: a_swap_def stack_exchange_def Let_def max_def)

section \<open>Properties\<close>

text \<open>The operand stack, an array that is never shrunk plus a length, refines a list of words
  bounded by the capacity: on every well-formed stack each operation gives the abstract
  operation's outcome (underflow before overflow for DUP, no change on an error) and a
  well-formed stack of the same capacity.\<close>

theorem stack_refines_list:
  assumes "stack_inv s"
  shows "sim (st_maxHeight s) (stack_push v s) (a_push (st_maxHeight s) v (view s))
    \<and> sim (st_maxHeight s) (stack_swap n s) (a_swap n 0 (view s))
    \<and> sim (st_maxHeight s) (stack_exchange i j s) (a_swap i j (view s))
    \<and> sim (st_maxHeight s) (stack_dup (Suc n) s) (a_dup (st_maxHeight s) (Suc n) (view s))
    \<and> (case stack_popN n s of Inl e \<Rightarrow> a_popN n (view s) = Inl e
       | Inr (xs, s') \<Rightarrow> a_popN n (view s) = Inr (xs, view s') \<and> stack_inv s' \<and>
           st_maxHeight s' = st_maxHeight s)
    \<and> stack_pop s = bindE (stack_popN 1 s) (\<lambda>(xs, s'). Inr (xs ! 0, s'))
    \<and> stack_peek n s = bindE (a_popN n (view s)) (\<lambda>(xs, _). Inr xs)
    \<and> stack_getStack s = rev (view s)"
  using assms
  by (intro conjI sim_push sim_swap sim_exchange sim_dup stack_popN_cases stack_pop_popN stack_getStack_view)
    (simp_all add: stack_peek_view a_popN_def)

theorem stack_refines_list_witness:
  "let s = \<lparr>st_store = [10, 20, 30], st_maxHeight = 3, st_len = 2\<rparr> in
   sim 3 (stack_push 5 s) (a_push 3 5 (view s)) \<and> stack_getStack s = rev (view s)"
  using stack_refines_list [of "\<lparr>st_store = [10, 20, 30], st_maxHeight = 3, st_len = 2\<rparr>" 5]
  by (simp add: stack_inv_def)

end
