(* ===== verification/EvmMemory.thy ===== *)
theory EvmMemory
  imports Prelude
begin

text \<open>
  The byte memory of \<open>packages/evm/src/memory.ts\<close>: a buffer that grows by containers of
  8192 bytes. The locale \<open>flat_memory\<close> is what the opcode handlers rely on, an infinite
  zero-initialised byte array whose reads change nothing a client can see; the
  interpretation \<open>mem\<close> shows that the growing buffer provides it.
\<close>

definition mem_ceil :: "nat \<Rightarrow> nat \<Rightarrow> nat" where
  "mem_ceil value ceiling = (let r = value mod ceiling in if r = 0 then value else value + ceiling - r)"

definition CONTAINER_SIZE :: nat where
  "CONTAINER_SIZE = 8192"

record memory =
  mem_store :: "u8 list"

definition memory_new :: memory where
  "memory_new = \<lparr>mem_store = replicate CONTAINER_SIZE 0\<rparr>"

text \<open>\<open>Math.ceil(sizeDiff / CONTAINER_SIZE)\<close> on a positive integer.\<close>

definition memory_extend :: "nat \<Rightarrow> nat \<Rightarrow> memory \<Rightarrow> memory" where
  "memory_extend offset sz m =
     (if sz = 0 then m
      else let newSize = mem_ceil (offset + sz) 32;
               sizeDiff = int newSize - int (length (mem_store m)) in
        if 0 < sizeDiff
        then let expandBy = (nat sizeDiff + CONTAINER_SIZE - 1) div CONTAINER_SIZE * CONTAINER_SIZE in
          m\<lparr>mem_store := mem_store m @ replicate expandBy 0\<rparr>
        else m)"

definition bytes_set :: "u8 list \<Rightarrow> nat \<Rightarrow> u8 list \<Rightarrow> u8 list" where
  "bytes_set xs offset v = take offset xs @ v @ drop (offset + length v) xs"

definition memory_write :: "nat \<Rightarrow> nat \<Rightarrow> u8 list \<Rightarrow> memory \<Rightarrow> memory res" where
  "memory_write offset sz value m =
     (if sz = 0 then Inr m
      else let m' = memory_extend offset sz m in
        if length value \<noteq> sz then throw ''Invalid value size''
        else if length (mem_store m') < offset + sz then throw ''Value exceeds memory capacity''
        else Inr (m'\<lparr>mem_store := bytes_set (mem_store m') offset value\<rparr>))"

text \<open>With \<open>avoidCopy\<close> the answer is the live view, without it a zero-filled copy.\<close>

definition memory_read :: "nat \<Rightarrow> nat \<Rightarrow> bool \<Rightarrow> memory \<Rightarrow> u8 list \<times> memory" where
  "memory_read offset sz avoidCopy m =
     (let m' = memory_extend offset sz m;
          loaded = slice offset (offset + sz) (mem_store m') in
      if avoidCopy then (loaded, m')
      else (bytes_set (replicate sz 0) 0 loaded, m'))"

section \<open>The abstract memory\<close>

definition mem_at :: "memory \<Rightarrow> nat \<Rightarrow> u8" where
  "mem_at m i = (if i < length (mem_store m) then mem_store m ! i else 0)"

locale flat_memory =
  fixes look :: "'m \<Rightarrow> nat \<Rightarrow> u8"
    and wr :: "nat \<Rightarrow> nat \<Rightarrow> u8 list \<Rightarrow> 'm \<Rightarrow> 'm res"
    and rd :: "nat \<Rightarrow> nat \<Rightarrow> bool \<Rightarrow> 'm \<Rightarrow> u8 list \<times> 'm"
  assumes wr_ok: "length v = n \<Longrightarrow> \<exists>m'. wr off n v m = Inr m' \<and>
      look m' = (\<lambda>i. if off \<le> i \<and> i < off + n then v ! (i - off) else look m i)"
    and rd_val: "fst (rd off n c m) = map (look m) [off..<off + n]"
    and rd_look: "look (snd (rd off n c m)) = look m"
begin

lemma rd_length: "length (fst (rd off n c m)) = n"
  by (simp add: rd_val)

lemma rd_after_wr:
  assumes "wr off n v m = Inr m'" and "length v = n"
  shows "fst (rd off n c m') = v"
proof -
  from wr_ok [OF assms(2), of off m] assms(1) have
    "look m' = (\<lambda>i. if off \<le> i \<and> i < off + n then v ! (i - off) else look m i)" by auto
  then show ?thesis
    using assms(2) by (intro nth_equalityI) (simp_all add: rd_val)
qed

lemma rd_disjoint_wr:
  assumes "wr off n v m = Inr m'" and "length v = n" and "off2 + n2 \<le> off \<or> off + n \<le> off2"
  shows "fst (rd off2 n2 c m') = fst (rd off2 n2 c m)"
proof -
  from wr_ok [OF assms(2), of off m] assms(1) have
    "look m' = (\<lambda>i. if off \<le> i \<and> i < off + n then v ! (i - off) else look m i)" by auto
  then show ?thesis
    using assms(3) by (auto simp: rd_val)
qed

text \<open>Copying through a read and a write moves a block, overlapping or not.\<close>

lemma copy_look:
  assumes "rd src n c m = (d, m1)"
  shows "\<exists>m2. wr dst n d m1 = Inr m2 \<and>
    look m2 = (\<lambda>i. if dst \<le> i \<and> i < dst + n then look m (src + (i - dst)) else look m i)"
proof -
  have d: "d = map (look m) [src..<src + n]" and m1: "look m1 = look m"
    using rd_val [of src n c m] rd_look [of src n c m] assms by simp_all
  then obtain m2 where "wr dst n d m1 = Inr m2"
    and "look m2 = (\<lambda>i. if dst \<le> i \<and> i < dst + n then d ! (i - dst) else look m1 i)"
    using wr_ok [of d n dst m1] by auto
  then show ?thesis using d m1 by (intro exI [of _ m2]) (auto simp: fun_eq_iff)
qed

end

lemma mem_ceil_ge: "0 < c \<Longrightarrow> n \<le> mem_ceil n c"
  by (simp add: mem_ceil_def Let_def le_diff_conv2 add_increasing2 less_imp_le)

lemma expand_ge: "0 < c \<Longrightarrow> (n::nat) \<le> (n + c - 1) div c * c"
proof -
  assume c: "0 < c"
  have "(n + c - 1) mod c < c" using c by simp
  moreover have "(n + c - 1) div c * c + (n + c - 1) mod c = n + c - 1" by simp
  ultimately show ?thesis using c by linarith
qed

lemma memory_extend_length: "0 < sz \<Longrightarrow> offset + sz \<le> length (mem_store (memory_extend offset sz m))"
proof -
  assume s: "0 < sz"
  have c: "offset + sz \<le> mem_ceil (offset + sz) 32" by (rule mem_ceil_ge) simp
  show ?thesis
  proof (cases "mem_ceil (offset + sz) 32 \<le> length (mem_store m)")
    case True
    with s c show ?thesis by (simp add: memory_extend_def Let_def)
  next
    case False
    let ?d = "mem_ceil (offset + sz) 32 - length (mem_store m)"
    have "?d \<le> (?d + CONTAINER_SIZE - 1) div CONTAINER_SIZE * CONTAINER_SIZE"
      by (rule expand_ge) (simp add: CONTAINER_SIZE_def)
    with s c False show ?thesis
      by (simp add: memory_extend_def Let_def nat_diff_distrib' flip: of_nat_diff)
  qed
qed

lemma memory_extend_at: "mem_at (memory_extend offset sz m) = mem_at m"
  by (auto simp: memory_extend_def Let_def mem_at_def nth_append fun_eq_iff)

lemma nth_bytes_set:
  "offset + length v \<le> length xs \<Longrightarrow> i < length xs \<Longrightarrow>
   bytes_set xs offset v ! i = (if offset \<le> i \<and> i < offset + length v then v ! (i - offset) else xs ! i)"
  by (auto simp: bytes_set_def nth_append min_def)

lemma length_bytes_set [simp]:
  "offset + length v \<le> length xs \<Longrightarrow> length (bytes_set xs offset v) = length xs"
  by (simp add: bytes_set_def)

lemma bytes_set_Nil_iff [simp]:
  "offset + length v \<le> length xs \<Longrightarrow> bytes_set xs offset v = [] \<longleftrightarrow> xs = []"
  by (metis length_0_conv length_bytes_set)

lemma mem_at_bytes_set:
  assumes "offset + length v \<le> length (mem_store m)"
  shows "mem_at (m\<lparr>mem_store := bytes_set (mem_store m) offset v\<rparr>) =
    (\<lambda>i. if offset \<le> i \<and> i < offset + length v then v ! (i - offset) else mem_at m i)"
  using assms by (auto simp: mem_at_def nth_bytes_set fun_eq_iff)

lemma memory_loaded:
  "slice offset (offset + sz) (mem_store (memory_extend offset sz m)) =
   map (mem_at m) [offset..<offset + sz]"
proof (cases "sz = 0")
  case False
  let ?m = "memory_extend offset sz m"
  have len: "offset + sz \<le> length (mem_store ?m)" using False by (intro memory_extend_length) simp
  show ?thesis
  proof (rule nth_equalityI)
    fix i assume "i < length (slice offset (offset + sz) (mem_store ?m))"
    then have i: "i < sz" using len by simp
    then have "mem_store ?m ! (offset + i) = mem_at m (offset + i)"
      using len memory_extend_at [of offset sz m] by (metis add_less_le_mono mem_at_def nat_add_left_cancel_less order_less_le_trans)
    with i len show "slice offset (offset + sz) (mem_store ?m) ! i =
        map (mem_at m) [offset..<offset + sz] ! i"
      by (simp add: slice_def)
  qed (use len in simp)
qed (simp add: slice_def)

interpretation mem: flat_memory mem_at memory_write memory_read
proof (unfold_locales, goal_cases)
  case (1 v n off m)
  show ?case
  proof (cases "n = 0")
    case True
    then show ?thesis by (auto simp: memory_write_def fun_eq_iff)
  next
    case False
    let ?m = "memory_extend off n m"
    have len: "off + n \<le> length (mem_store ?m)" using False by (intro memory_extend_length) simp
    have "mem_at (?m\<lparr>mem_store := bytes_set (mem_store ?m) off v\<rparr>) =
        (\<lambda>i. if off \<le> i \<and> i < off + n then v ! (i - off) else mem_at m i)"
      using mem_at_bytes_set [of off v ?m, unfolded memory_extend_at] len 1 by simp
    with False len 1 show ?thesis by (simp add: memory_write_def Let_def)
  qed
next
  case (2 off n c m)
  then show ?case by (simp add: memory_read_def Let_def memory_loaded bytes_set_def)
next
  case (3 off n c m)
  then show ?case by (simp add: memory_read_def Let_def memory_extend_at)
qed

text \<open>The buffer never shrinks and its size stays a multiple of the container size.\<close>

definition memory_inv :: "memory \<Rightarrow> bool" where
  "memory_inv m \<longleftrightarrow> CONTAINER_SIZE dvd length (mem_store m) \<and> 0 < length (mem_store m)"

lemma memory_inv_new: "memory_inv memory_new"
  by (simp add: memory_inv_def memory_new_def CONTAINER_SIZE_def)

lemma memory_inv_extend: "memory_inv m \<Longrightarrow> memory_inv (memory_extend offset sz m)"
  by (auto simp: memory_inv_def memory_extend_def Let_def)

lemma memory_inv_write: "memory_inv m \<Longrightarrow> memory_write offset sz v m = Inr m' \<Longrightarrow> memory_inv m'"
  using memory_inv_extend [of m offset sz]
  by (auto simp: memory_write_def memory_inv_def Let_def split: if_splits)

lemma memory_inv_read: "memory_inv m \<Longrightarrow> memory_inv (snd (memory_read offset sz c m))"
  by (simp add: memory_read_def Let_def memory_inv_extend)

section \<open>Properties\<close>

text \<open>Memory is a zero-initialised flat byte array. A write of \<open>n\<close> bytes always succeeds, keeps
  the buffer a whole number of containers, and any later read, wherever it lies and however
  far past the buffer it reaches, returns the written bytes where it overlaps the write and the
  previous contents (zero where nothing was written) elsewhere.\<close>

theorem memory_write_read:
  assumes "memory_inv m" and "length v = n"
  shows "\<exists>m'. memory_write off n v m = Inr m' \<and> memory_inv m' \<and>
    (\<forall>off2 n2 c. fst (memory_read off2 n2 c m') =
       map (\<lambda>i. if off \<le> i \<and> i < off + n then v ! (i - off) else mem_at m i) [off2..<off2 + n2])"
proof -
  from mem.wr_ok [OF assms(2), of off m] obtain m' where m': "memory_write off n v m = Inr m'"
    "mem_at m' = (\<lambda>i. if off \<le> i \<and> i < off + n then v ! (i - off) else mem_at m i)" by blast
  with memory_inv_write [OF assms(1)] show ?thesis by (auto simp: mem.rd_val)
qed

theorem memory_write_read_witness:
  "\<exists>m'. memory_write 8190 4 [1, 2, 3, 4] memory_new = Inr m' \<and> memory_inv m' \<and>
    (\<forall>off2 n2 c. fst (memory_read off2 n2 c m') =
       map (\<lambda>i. if 8190 \<le> i \<and> i < 8190 + 4 then [1, 2, 3, 4] ! (i - 8190) else mem_at memory_new i)
         [off2..<off2 + n2])"
  by (rule memory_write_read) (simp_all add: memory_inv_new)

text \<open>Copying inside memory (the read of MCOPY followed by its write, with or without the
  avoided copy) moves the block as if through a separate buffer, also when the two ranges overlap
  and also when either reaches past the current buffer.\<close>

theorem memory_copy_block:
  assumes "memory_read src n c m = (d, m1)"
  shows "\<exists>m2. memory_write dst n d m1 = Inr m2 \<and>
    mem_at m2 = (\<lambda>i. if dst \<le> i \<and> i < dst + n then mem_at m (src + (i - dst)) else mem_at m i)"
  using assms by (rule mem.copy_look)

theorem memory_copy_block_witness:
  "\<exists>m2. memory_write 1 3 (fst (memory_read 0 3 True memory_new)) (snd (memory_read 0 3 True memory_new)) = Inr m2 \<and>
    mem_at m2 = (\<lambda>i. if 1 \<le> i \<and> i < 1 + 3 then mem_at memory_new (0 + (i - 1)) else mem_at memory_new i)"
  by (rule memory_copy_block) (rule surjective_pairing)

end
