(* ===== verification/EvmUtil.thy ===== *)
theory EvmUtil
  imports Bytes "HOL-Library.Signed_Division"
begin

unbundle bit_operations_syntax

text \<open>
  The arithmetic helpers of \<open>packages/evm/src/opcodes/util.ts\<close>. A \<open>bigint\<close> is an \<open>int\<close>;
  \<open>/\<close> and \<open>%\<close> truncate towards zero (\<open>sdiv\<close>, \<open>smod\<close>), \<open>BigInt.asUintN(256, a)\<close> is
  \<open>take_bit 256\<close> and \<open>BigInt.asIntN(256, a)\<close> is \<open>signed_take_bit 255\<close>. The lemmas
  relate them to mathematical integers and to 256-bit words.
\<close>

type_synonym u256 = "256 word"

definition TWO_POW256 :: int where
  "TWO_POW256 = 115792089237316195423570985008687907853269984665640564039457584007913129639936"

definition MAX_INTEGER_BIGINT :: int where
  "MAX_INTEGER_BIGINT = 115792089237316195423570985008687907853269984665640564039457584007913129639935"

lemma TWO_POW256_eq: "TWO_POW256 = 2 ^ 256"
  by (simp add: TWO_POW256_def)

lemma MAX_INTEGER_eq: "MAX_INTEGER_BIGINT = 2 ^ 256 - 1"
  by (simp add: MAX_INTEGER_BIGINT_def)

definition ev_mod :: "int \<Rightarrow> int \<Rightarrow> int" where
  "ev_mod a b = (let r = a smod b in if r < 0 then b + r else r)"

definition fromTwos :: "int \<Rightarrow> int" where
  "fromTwos a = signed_take_bit 255 a"

definition toTwos :: "int \<Rightarrow> int" where
  "toTwos a = take_bit 256 a"

definition ev_abs :: "int \<Rightarrow> int" where
  "ev_abs a = (if 0 < a then a else a * -1)"

lemma nat_sdiv_2_less: "0 < exp \<Longrightarrow> nat ((exp::int) sdiv 2) < nat exp"
  by (simp add: signed_divide_int_def)

lemma sdiv_2_less: "0 < exp \<Longrightarrow> (exp::int) sdiv 2 < exp"
  by (simp add: signed_divide_int_def)

function exponentiation_loop :: "int \<Rightarrow> int \<Rightarrow> int \<Rightarrow> int" where
  "exponentiation_loop t bas exp =
     (if 0 < exp
      then exponentiation_loop
             (if exp smod 2 \<noteq> 0 then (t * bas) smod TWO_POW256 else t)
             ((bas * bas) smod TWO_POW256) (exp sdiv 2)
      else t)"
  by pat_completeness auto
termination
  by (relation "measure (\<lambda>(t, bas, exp). nat exp)") (auto simp: sdiv_2_less)

declare exponentiation_loop.simps [simp del]

definition exponentiation :: "int \<Rightarrow> int \<Rightarrow> int" where
  "exponentiation bas exp = exponentiation_loop 1 bas exp"

definition MASK_160 :: int where
  "MASK_160 = push_bit 160 1 - 1"

text \<open>\<open>createAddressFromBigInt\<close> of \<open>utils/src/address.ts\<close>; an address is its 20 bytes.\<close>

definition createAddressFromBigInt :: "lib \<Rightarrow> int \<Rightarrow> u8 list res" where
  "createAddressFromBigInt L value =
     bindE (bigIntToBytes L value) (\<lambda>bytes.
     if 20 < length bytes then throw ''Invalid address, too long: ''
     else Inr (setLengthLeft bytes 20))"

definition createAddressFromStackBigInt :: "lib \<Rightarrow> int \<Rightarrow> u8 list res" where
  "createAddressFromStackBigInt L value =
     (let maskedValue = value AND MASK_160 in createAddressFromBigInt L maskedValue)"

definition setLengthLeftStorage :: "u8 list \<Rightarrow> u8 list" where
  "setLengthLeftStorage value =
     (if value = replicate (length value) 0 then [] else setLengthLeft value 32)"

definition divCeil :: "int \<Rightarrow> int \<Rightarrow> int" where
  "divCeil a b =
     (let d = a sdiv b; modulus = ev_mod a b in
      if modulus = 0 then d else if d < 0 then d - 1 else d + 1)"

definition getDataSlice :: "u8 list \<Rightarrow> int \<Rightarrow> int \<Rightarrow> u8 list" where
  "getDataSlice data offset len =
     (let n = int (length data);
          off = (if n < offset then n else offset);
          e0 = off + len;
          e = (if n < e0 then n else e0) in
      setLengthRight (slice (nat off) (nat e) data) (nat len))"

section \<open>Lemmas\<close>

lemma smod_nonneg: "0 \<le> a \<Longrightarrow> 0 < b \<Longrightarrow> (a::int) smod b = a mod b"
  by (simp add: signed_modulo_int_def signed_divide_int_def minus_div_mult_eq_mod sgn_if)

lemma sdiv_nonneg: "0 \<le> a \<Longrightarrow> 0 < b \<Longrightarrow> (a::int) sdiv b = a div b"
  by (simp add: signed_divide_int_def sgn_if)

lemma smod_neg: "a < 0 \<Longrightarrow> 0 < b \<Longrightarrow> (a::int) smod b = - ((- a) mod b)"
  by (simp add: signed_modulo_int_def signed_divide_int_def sgn_if)

text \<open>The code's remainder, repaired when negative, is the mathematical modulus.\<close>

lemma ev_mod_eq: "0 < b \<Longrightarrow> ev_mod a b = a mod b"
proof (cases "0 \<le> a")
  case True
  assume "0 < b"
  with True show ?thesis by (simp add: ev_mod_def smod_nonneg Let_def pos_mod_sign [THEN leD])
next
  case False
  assume b: "0 < b"
  then have s: "a smod b = - ((- a) mod b)" using False by (simp add: smod_neg)
  show ?thesis
  proof (cases "(- a) mod b = 0")
    case True
    then have "a mod b = 0" by (simp add: mod_eq_0_iff_dvd)
    with True s show ?thesis by (simp add: ev_mod_def Let_def)
  next
    case False
    then have "a mod b = b - (- a) mod b"
      using zmod_zminus1_eq_if [of "- a" b] by simp
    moreover have "0 < (- a) mod b" using False b by (simp add: order_less_le)
    ultimately show ?thesis using s by (simp add: ev_mod_def Let_def)
  qed
qed

lemma exponentiation_loop_eq:
  "0 \<le> exp \<Longrightarrow> 0 \<le> t \<Longrightarrow> 0 \<le> bas \<Longrightarrow> t < TWO_POW256 \<Longrightarrow>
   exponentiation_loop t bas exp = t * bas ^ nat exp mod TWO_POW256"
proof (induction t bas exp rule: exponentiation_loop.induct)
  case (1 t bas exp)
  have N: "0 < TWO_POW256" by (simp add: TWO_POW256_def)
  show ?case
  proof (cases "0 < exp")
    case False
    then have "exp = 0" using "1.prems" by simp
    with "1.prems" show ?thesis by (simp add: exponentiation_loop.simps [of t bas 0])
  next
    case True
    let ?t = "if exp smod 2 \<noteq> 0 then (t * bas) smod TWO_POW256 else t"
    let ?b = "(bas * bas) smod TWO_POW256"
    have half: "exp sdiv 2 = exp div 2" "exp smod 2 = exp mod 2"
      using True by (simp_all add: sdiv_nonneg smod_nonneg)
    have b: "?b = bas * bas mod TWO_POW256" using "1.prems" N by (simp add: smod_nonneg)
    have t: "?t = (if exp mod 2 \<noteq> 0 then t * bas mod TWO_POW256 else t)"
      using "1.prems" N half by (simp add: smod_nonneg)
    have IH: "exponentiation_loop ?t ?b (exp sdiv 2) = ?t * ?b ^ nat (exp div 2) mod TWO_POW256"
    proof -
      have "exponentiation_loop ?t ?b (exp sdiv 2) = ?t * ?b ^ nat (exp sdiv 2) mod TWO_POW256"
      proof (rule "1.IH" [OF True])
        show "0 \<le> exp sdiv 2" using True half by simp
        show "0 \<le> ?t" "?t < TWO_POW256" unfolding t using "1.prems" N by simp_all
        show "0 \<le> ?b" unfolding b using N by simp
      qed
      then show ?thesis using half by simp
    qed
    have e: "nat exp = 2 * nat (exp div 2) + nat (exp mod 2)"
    proof -
      have "0 \<le> exp div 2" "0 \<le> exp mod 2" using True by simp_all
      then have "nat (2 * (exp div 2) + exp mod 2) = 2 * nat (exp div 2) + nat (exp mod 2)"
        by linarith
      then show ?thesis by simp
    qed
    have pw: "?b ^ nat (exp div 2) mod TWO_POW256 = bas ^ (2 * nat (exp div 2)) mod TWO_POW256"
      unfolding b by (simp add: power_mod power_mult power2_eq_square)
    have "?t * ?b ^ nat (exp div 2) mod TWO_POW256 = ?t * bas ^ (2 * nat (exp div 2)) mod TWO_POW256"
      using pw by (metis mod_mult_right_eq)
    also have "\<dots> = t * bas ^ nat exp mod TWO_POW256"
    proof (cases "exp mod 2 = 0")
      case True
      then show ?thesis using t e by simp
    next
      case False
      then have m: "exp mod 2 = 1" by presburger
      then have "?t = t * bas mod TWO_POW256" using t by simp
      then show ?thesis using e m by (simp add: mod_mult_left_eq mult.assoc mult.left_commute mult.commute)
    qed
    finally show ?thesis using True IH by (simp add: exponentiation_loop.simps [of t bas exp])
  qed
qed

lemma exponentiation_eq:
  "0 \<le> bas \<Longrightarrow> 0 \<le> exp \<Longrightarrow> exponentiation bas exp = bas ^ nat exp mod TWO_POW256"
  by (simp add: exponentiation_def exponentiation_loop_eq TWO_POW256_def)

lemma divCeil_eq: "0 \<le> a \<Longrightarrow> 0 < b \<Longrightarrow> divCeil a b = (a + b - 1) div b"
proof -
  assume a: "0 \<le> a" and b: "0 < b"
  have d: "0 \<le> a div b" using a b by (simp add: pos_imp_zdiv_nonneg_iff)
  show ?thesis
  proof (cases "a mod b = 0")
    case True
    then obtain k where "a = b * k" by (auto simp: mod_eq_0_iff_dvd)
    moreover have "(b * k + (b - 1)) div b = k" using b by (subst div_mult_self4) simp_all
    ultimately show ?thesis
      using a b True by (simp add: divCeil_def Let_def sdiv_nonneg ev_mod_eq add_diff_eq)
  next
    case False
    have "a mod b < b" using b by simp
    moreover have "0 < a mod b" using False b by (simp add: order_less_le)
    ultimately have m: "0 < a mod b" "a mod b < b" by simp_all
    have "(a mod b + b - 1) div b = 1" using b m
      by (intro int_div_pos_eq [where r = "a mod b - 1"]) auto
    moreover have "a + b - 1 = a div b * b + (a mod b + b - 1)" by simp
    ultimately have "(a + b - 1) div b = a div b + 1" using b by (metis div_mult_self3 order_less_irrefl add.commute)
    with a b d False show ?thesis by (simp add: divCeil_def Let_def sdiv_nonneg ev_mod_eq)
  qed
qed

text \<open>A stack word read as an address: its low 160 bits in twenty bytes.\<close>

lemma stack_address_eq:
  assumes "lib_ok L" "0 \<le> v"
  shows "\<exists>a. createAddressFromStackBigInt L v = Inr a \<and> length a = 20 \<and> be_val a = nat (v mod 2 ^ 160)"
proof -
  define n where "n = nat (v mod 2 ^ 160)"
  have "MASK_160 = mask 160" by (simp add: MASK_160_def mask_eq_exp_minus_1 push_bit_eq_mult)
  then have "v AND MASK_160 = v mod 2 ^ 160" by (metis take_bit_eq_mask take_bit_eq_mod)
  then have m: "v AND MASK_160 = int n" by (simp add: n_def)
  have "v mod 2 ^ 160 < 2 ^ 160" by simp
  then have "n < 256 ^ 20" unfolding n_def by (simp add: nat_less_iff)
  then have "length (if n = 0 then [0] else be_bytes n :: u8 list) \<le> 20" using length_be_bytes_le [of n 20] by simp
  then have "\<exists>a. createAddressFromStackBigInt L v = Inr a \<and> length a = 20 \<and> be_val a = n"
    using assms(1) by (auto simp: createAddressFromStackBigInt_def Let_def m createAddressFromBigInt_def
      bigIntToBytes_eq be_val_setLengthLeft split: if_splits)
  then show ?thesis unfolding n_def .
qed

end
