(* ===== verification/EvmAlu.thy ===== *)
theory EvmAlu
  imports EvmUtil EvmStack
begin

text \<open>
  The arithmetic, comparison and bit opcodes of \<open>packages/evm/src/opcodes/functions.ts\<close>
  (0x01 to 0x1e). Each handler pops its operands, computes on unbounded \<open>bigint\<close>s and pushes
  one result; here it is a function of the operand stack alone. \<open>alu n f\<close> is the common
  shape, \<open>replace\<close> of the stack contract. The theorems show that on 256-bit operands every
  handler computes the machine-word operation, and stays within 256 bits.
\<close>

type_synonym alu_op = "stack \<Rightarrow> stack res"

definition alu :: "nat \<Rightarrow> (int list \<Rightarrow> int) \<Rightarrow> alu_op" where
  "alu n f s = bindE (stack_popN n s) (\<lambda>(xs, s'). stack_push (f xs) s')"

lemma alu_replace: "alu n f = evm.replace n f"
  by (simp add: alu_def [abs_def] evm.replace_def [abs_def])

abbreviation bool_int :: "bool \<Rightarrow> int" where
  "bool_int b \<equiv> if b then 1 else 0"

section \<open>Arithmetic\<close>

definition op_ADD :: alu_op where
  "op_ADD = alu 2 (\<lambda>xs. let a = xs ! 0; b = xs ! 1 in ev_mod (a + b) TWO_POW256)"

definition op_MUL :: alu_op where
  "op_MUL = alu 2 (\<lambda>xs. let a = xs ! 0; b = xs ! 1 in ev_mod (a * b) TWO_POW256)"

definition op_SUB :: alu_op where
  "op_SUB = alu 2 (\<lambda>xs. let a = xs ! 0; b = xs ! 1 in ev_mod (a - b) TWO_POW256)"

definition op_DIV :: alu_op where
  "op_DIV = alu 2 (\<lambda>xs. let a = xs ! 0; b = xs ! 1 in
     if b = 0 then 0 else ev_mod (a sdiv b) TWO_POW256)"

definition op_SDIV :: alu_op where
  "op_SDIV = alu 2 (\<lambda>xs. let a = xs ! 0; b = xs ! 1 in
     if b = 0 then 0 else toTwos (fromTwos a sdiv fromTwos b))"

definition op_MOD :: alu_op where
  "op_MOD = alu 2 (\<lambda>xs. let a = xs ! 0; b = xs ! 1 in if b = 0 then b else ev_mod a b)"

definition op_SMOD :: alu_op where
  "op_SMOD = alu 2 (\<lambda>xs. let a = xs ! 0; b = xs ! 1;
     r = (if b = 0 then b else fromTwos a smod fromTwos b) in toTwos r)"

definition op_ADDMOD :: alu_op where
  "op_ADDMOD = alu 3 (\<lambda>xs. let a = xs ! 0; b = xs ! 1; c = xs ! 2 in
     if c = 0 then 0 else ev_mod (a + b) c)"

definition op_MULMOD :: alu_op where
  "op_MULMOD = alu 3 (\<lambda>xs. let a = xs ! 0; b = xs ! 1; c = xs ! 2 in
     if c = 0 then 0 else ev_mod (a * b) c)"

text \<open>Each early return of the source pushes and stops; the constants are powers of two.\<close>

definition op_EXP :: alu_op where
  "op_EXP s =
     bindE (stack_popN 2 s) (\<lambda>(xs, s'). let bas = xs ! 0; exponent = xs ! 1 in
     if bas = 2 \<and> exponent = 96 then stack_push 79228162514264337593543950336 s'
     else if bas = 2 \<and> exponent = 160
       then stack_push 1461501637330902918203684832716283019655932542976 s'
     else if bas = 2 \<and> exponent = 224
       then stack_push 26959946667150639794667015087019630673637144422540572481103610249216 s'
     else if exponent = 0 then stack_push 1 s'
     else if bas = 0 then stack_push bas s'
     else stack_push (exponentiation bas exponent) s')"

definition op_SIGNEXTEND :: alu_op where
  "op_SIGNEXTEND = alu 2 (\<lambda>xs. let k = xs ! 0; val = xs ! 1 in
     if k < 31 then
       let signBit = k * 8 + 7; mask = push_bit (nat signBit) 1 - 1 in
       if drop_bit (nat signBit) val AND 1 \<noteq> 0 then val OR take_bit 256 (NOT mask) else val AND mask
     else val)"

section \<open>Comparison\<close>

definition op_LT :: alu_op where
  "op_LT = alu 2 (\<lambda>xs. let a = xs ! 0; b = xs ! 1 in bool_int (a < b))"

definition op_GT :: alu_op where
  "op_GT = alu 2 (\<lambda>xs. let a = xs ! 0; b = xs ! 1 in bool_int (b < a))"

definition op_SLT :: alu_op where
  "op_SLT = alu 2 (\<lambda>xs. let a = xs ! 0; b = xs ! 1 in bool_int (fromTwos a < fromTwos b))"

definition op_SGT :: alu_op where
  "op_SGT = alu 2 (\<lambda>xs. let a = xs ! 0; b = xs ! 1 in bool_int (fromTwos b < fromTwos a))"

definition op_EQ :: alu_op where
  "op_EQ = alu 2 (\<lambda>xs. let a = xs ! 0; b = xs ! 1 in bool_int (a = b))"

definition op_ISZERO :: alu_op where
  "op_ISZERO s = bindE (stack_pop s) (\<lambda>(a, s'). stack_push (bool_int (a = 0)) s')"

section \<open>Bits\<close>

definition op_AND :: alu_op where
  "op_AND = alu 2 (\<lambda>xs. let a = xs ! 0; b = xs ! 1 in a AND b)"

definition op_OR :: alu_op where
  "op_OR = alu 2 (\<lambda>xs. let a = xs ! 0; b = xs ! 1 in a OR b)"

definition op_XOR :: alu_op where
  "op_XOR = alu 2 (\<lambda>xs. let a = xs ! 0; b = xs ! 1 in a XOR b)"

definition op_NOT :: alu_op where
  "op_NOT s = bindE (stack_pop s) (\<lambda>(a, s'). stack_push (take_bit 256 (NOT a)) s')"

text \<open>\<open>x >> n\<close> on \<open>bigint\<close>s shifts left when the count is negative.\<close>

definition big_shr :: "int \<Rightarrow> int \<Rightarrow> int" where
  "big_shr x n = (if 0 \<le> n then drop_bit (nat n) x else push_bit (nat (- n)) x)"

definition big_shl :: "int \<Rightarrow> int \<Rightarrow> int" where
  "big_shl x n = big_shr x (- n)"

definition op_BYTE :: alu_op where
  "op_BYTE = alu 2 (\<lambda>xs. let pos = xs ! 0; w = xs ! 1 in
     if 32 < pos then 0 else big_shr w ((31 - pos) * 8) AND 255)"

definition op_SHL :: alu_op where
  "op_SHL = alu 2 (\<lambda>xs. let a = xs ! 0; b = xs ! 1 in
     if 256 < a then 0 else big_shl b a AND MAX_INTEGER_BIGINT)"

definition op_SHR :: alu_op where
  "op_SHR = alu 2 (\<lambda>xs. let a = xs ! 0; b = xs ! 1 in
     if 256 < a then 0 else big_shr b a)"

definition op_SAR :: alu_op where
  "op_SAR = alu 2 (\<lambda>xs. let a = xs ! 0; b = xs ! 1;
     bComp = signed_take_bit 255 b; isSigned = bComp < 0 in
     if 256 < a then (if isSigned then MAX_INTEGER_BIGINT else 0)
     else let c = big_shr b a in
       if isSigned then
         let shiftedOutWidth = 255 - a;
             mask = big_shl (big_shr MAX_INTEGER_BIGINT shiftedOutWidth) shiftedOutWidth in
         c OR mask
       else c)"

text \<open>The length of \<open>x.toString(2)\<close> for positive \<open>x\<close>.\<close>

fun bin_length :: "nat \<Rightarrow> nat" where
  "bin_length n = (if n < 2 then 1 else Suc (bin_length (n div 2)))"

declare bin_length.simps [simp del]

definition op_CLZ :: alu_op where
  "op_CLZ s = bindE (stack_pop s) (\<lambda>(x, s').
     if x = 0 then stack_push 256 s'
     else let leadingZeros = 256 - int (bin_length (nat x)) in stack_push leadingZeros s')"

section \<open>What it means to compute a word function\<close>

definition computes :: "alu_op \<Rightarrow> nat \<Rightarrow> (u256 list \<Rightarrow> u256) \<Rightarrow> bool" where
  "computes op n g \<longleftrightarrow>
     (\<forall>s ws rest. stack_inv s \<and> length ws = n \<and> view s = map uint ws @ rest \<longrightarrow>
        (\<exists>s'. op s = Inr s' \<and> stack_inv s' \<and> st_maxHeight s' = st_maxHeight s \<and>
              view s' = uint (g ws) # rest)) \<and>
     (\<forall>s. stack_inv s \<and> length (view s) < n \<longrightarrow> op s = stack_underflow)"

lemma computes_alu:
  assumes "\<And>ws. length ws = n \<Longrightarrow> f (map uint ws) = uint (g ws)" and "0 < n"
  shows "computes (alu n f) n g"
  unfolding computes_def
proof (intro conjI allI impI)
  fix s and ws :: "u256 list" and rest
  assume s: "stack_inv s \<and> length ws = n \<and> view s = map uint ws @ rest"
  then have "n \<le> length (view s)" "take n (view s) = map uint ws" "drop n (view s) = rest"
    by (simp_all del: length_view)
  with evm.replace_enough [of s n f] s assms show "\<exists>s'. alu n f s = Inr s' \<and> stack_inv s' \<and>
      st_maxHeight s' = st_maxHeight s \<and> view s' = uint (g ws) # rest"
    unfolding alu_replace by (simp del: length_view)
next
  fix s
  assume "stack_inv s \<and> length (view s) < n"
  then show "alu n f s = stack_underflow"
    unfolding alu_replace using evm.replace_short by blast
qed

lemma computes_alu2:
  assumes "\<And>a b. f [uint a, uint b] = uint (g [a, b])"
  shows "computes (alu 2 f) 2 g"
proof (rule computes_alu)
  fix ws :: "u256 list"
  assume "length ws = 2"
  then obtain a b where "ws = [a, b]" by (auto simp: numeral_2_eq_2 length_Suc_conv)
  with assms show "f (map uint ws) = uint (g ws)" by simp
qed simp

lemma computes_alu3:
  assumes "\<And>a b c. f [uint a, uint b, uint c] = uint (g [a, b, c])"
  shows "computes (alu 3 f) 3 g"
proof (rule computes_alu)
  fix ws :: "u256 list"
  assume "length ws = 3"
  then obtain a b c where "ws = [a, b, c]" by (auto simp: numeral_3_eq_3 length_Suc_conv)
  with assms show "f (map uint ws) = uint (g ws)" by simp
qed simp

text \<open>A pop of one operand followed by a push is the same shape.\<close>

lemma pop_as_popN: "bindE (stack_pop s) (\<lambda>(a, s'). stack_push (f a) s') = alu 1 (\<lambda>xs. f (xs ! 0)) s"
  by (simp add: alu_def stack_pop_def stack_popN_def)

lemma computes_alu1:
  assumes "\<And>a. f (uint a) = uint (g [a])"
  shows "computes (\<lambda>s. bindE (stack_pop s) (\<lambda>(a, s'). stack_push (f a) s')) 1 g"
  unfolding pop_as_popN
proof (rule computes_alu)
  fix ws :: "u256 list"
  assume "length ws = 1"
  then obtain a where "ws = [a]" by (auto simp: length_Suc_conv)
  with assms show "f (map uint ws ! 0) = uint (g ws)" by simp
qed simp

section \<open>Word facts\<close>

lemma uint_lt_256 [simp]: "uint (a :: u256) < 2 ^ 256"
  using unsigned_less [of a, where ?'a = int] by simp

lemma uint_of_int_mod: "uint (word_of_int i :: u256) = i mod TWO_POW256"
  by (simp add: unsigned_of_int take_bit_eq_mod TWO_POW256_eq)

lemma TWO_POW256_pos [simp]: "0 < TWO_POW256"
  by (simp add: TWO_POW256_eq)

lemma fromTwos_uint: "fromTwos (uint (a :: u256)) = sint a"
  by (simp add: fromTwos_def sint_uint)

lemma toTwos_eq: "toTwos i = uint (word_of_int i :: u256)"
  by (simp add: toTwos_def unsigned_of_int)

lemma uint_eq_0: "uint (a :: u256) = 0 \<longleftrightarrow> a = 0"
  by (simp add: uint_0_iff)

lemma uint_mod_256: "uint (a :: u256) mod TWO_POW256 = uint a"
  unfolding TWO_POW256_eq by (rule mod_pos_pos_trivial [OF unsigned_greater_eq uint_lt_256])

lemma uint_int_unat: "uint (a :: u256) = int (unat a)"
  by simp

lemma unat_large: "256 < uint (a :: u256) \<Longrightarrow> 256 \<le> unat a"
  unfolding uint_int_unat by linarith

lemma take_256_uint: "take_bit 256 (uint (a :: u256)) = uint a"
  using uint_mod_256 [of a] by (simp add: take_bit_eq_mod TWO_POW256_eq)

lemma and_MAX: "i AND MAX_INTEGER_BIGINT = take_bit 256 i"
  by (simp add: MAX_INTEGER_eq take_bit_eq_mask mask_eq_exp_minus_1)

lemma nat_uint_shift: "uint (a :: u256) < 32 \<Longrightarrow> nat ((31 - uint a) * 8) = 8 * (31 - unat a)"
  unfolding uint_int_unat by (simp add: nat_mult_distrib nat_diff_distrib)

section \<open>Arithmetic theorems\<close>

lemma op_ADD_word: "computes op_ADD 2 (\<lambda>ws. ws ! 0 + ws ! 1)"
  unfolding op_ADD_def
  by (rule computes_alu2) (simp add: ev_mod_eq uint_word_ariths TWO_POW256_eq)

lemma op_MUL_word: "computes op_MUL 2 (\<lambda>ws. ws ! 0 * ws ! 1)"
  unfolding op_MUL_def
  by (rule computes_alu2) (simp add: ev_mod_eq uint_word_ariths TWO_POW256_eq)

lemma op_SUB_word: "computes op_SUB 2 (\<lambda>ws. ws ! 0 - ws ! 1)"
  unfolding op_SUB_def
  by (rule computes_alu2) (simp add: ev_mod_eq uint_word_ariths TWO_POW256_eq)

lemma op_DIV_word: "computes op_DIV 2 (\<lambda>ws. ws ! 0 div ws ! 1)"
  unfolding op_DIV_def
proof (rule computes_alu2, goal_cases)
  case (1 a b)
  show ?case
  proof (cases "b = 0")
    case False
    then have "0 < uint b" using uint_eq_0 [of b] by (simp add: order_less_le)
    then have "uint a sdiv uint b = uint (a div b)" by (simp add: sdiv_nonneg uint_div_distrib)
    with False show ?thesis by (simp add: uint_eq_0 ev_mod_eq uint_mod_256)
  qed simp
qed

lemma op_MOD_word: "computes op_MOD 2 (\<lambda>ws. if ws ! 1 = 0 then 0 else ws ! 0 mod ws ! 1)"
  unfolding op_MOD_def
proof (rule computes_alu2, goal_cases)
  case (1 a b)
  show ?case
  proof (cases "b = 0")
    case False
    then have "0 < uint b" using uint_eq_0 [of b] by (simp add: order_less_le)
    with False show ?thesis by (simp add: uint_eq_0 ev_mod_eq uint_mod_distrib)
  qed simp
qed

lemma op_SDIV_word: "computes op_SDIV 2 (\<lambda>ws. word_of_int (sint (ws ! 0) sdiv sint (ws ! 1)))"
  unfolding op_SDIV_def
  by (rule computes_alu2) (simp add: uint_eq_0 fromTwos_uint toTwos_eq)

lemma op_SMOD_word:
  "computes op_SMOD 2 (\<lambda>ws. if ws ! 1 = 0 then 0 else word_of_int (sint (ws ! 0) smod sint (ws ! 1)))"
  unfolding op_SMOD_def
  by (rule computes_alu2) (simp add: uint_eq_0 fromTwos_uint toTwos_eq)

lemma uint_mod_word:
  assumes "0 \<le> i" and "c \<noteq> (0 :: u256)"
  shows "ev_mod i (uint c) = uint (word_of_int (i mod uint c) :: u256)"
proof -
  have c: "0 < uint c" using assms(2) uint_eq_0 [of c] by (simp add: order_less_le)
  then have "0 \<le> i mod uint c" "i mod uint c < uint c" by simp_all
  then have "0 \<le> i mod uint c" "i mod uint c < 2 ^ 256" using uint_lt_256 [of c] by linarith+
  with c show ?thesis by (simp add: ev_mod_eq uint_of_int_mod TWO_POW256_eq)
qed

lemma op_ADDMOD_word: "computes op_ADDMOD 3
   (\<lambda>ws. if ws ! 2 = 0 then 0 else word_of_int ((uint (ws ! 0) + uint (ws ! 1)) mod uint (ws ! 2)))"
  unfolding op_ADDMOD_def
  by (rule computes_alu3) (simp add: uint_eq_0 uint_mod_word)

lemma op_MULMOD_word: "computes op_MULMOD 3
   (\<lambda>ws. if ws ! 2 = 0 then 0 else word_of_int (uint (ws ! 0) * uint (ws ! 1) mod uint (ws ! 2)))"
  unfolding op_MULMOD_def
  by (rule computes_alu3) (simp add: uint_eq_0 uint_mod_word)

lemma op_EXP_alu: "op_EXP = alu 2 (\<lambda>xs. if xs ! 0 = 2 \<and> xs ! 1 = 96 then 2 ^ 96
    else if xs ! 0 = 2 \<and> xs ! 1 = 160 then 2 ^ 160 else if xs ! 0 = 2 \<and> xs ! 1 = 224 then 2 ^ 224
    else if xs ! 1 = 0 then 1 else if xs ! 0 = 0 then 0 else exponentiation (xs ! 0) (xs ! 1))"
  by (rule ext) (simp add: op_EXP_def alu_def Let_def if_distrib [of "\<lambda>v. stack_push v s" for s] cong: if_cong)

lemma uint_power_256: "uint ((a :: u256) ^ n) = uint a ^ n mod TWO_POW256"
  by (induction n) (simp_all add: uint_word_ariths TWO_POW256_eq mod_mult_right_eq)

lemma op_EXP_word: "computes op_EXP 2 (\<lambda>ws. ws ! 0 ^ unat (ws ! 1))"
  unfolding op_EXP_alu
proof (rule computes_alu2)
  fix a b :: u256
  have u: "nat (uint b) = unat b" by simp
  have two: "uint a ^ unat b mod TWO_POW256 = 2 ^ k" if "uint a = 2" "uint b = int k" "k < 256" for k
  proof -
    have "unat b = k" using that(2) by (metis nat_int u)
    moreover have "(2::int) ^ k < 2 ^ 256" using that(3) by (rule power_strict_increasing) simp
    ultimately show ?thesis using that(1) by (simp add: TWO_POW256_eq)
  qed
  have z: "unat b \<noteq> 0" if "uint b \<noteq> 0" using that by (simp add: uint_eq_0 unat_eq_zero)
  show "(if [uint a, uint b] ! 0 = 2 \<and> [uint a, uint b] ! 1 = 96 then 2 ^ 96
    else if [uint a, uint b] ! 0 = 2 \<and> [uint a, uint b] ! 1 = 160 then 2 ^ 160
    else if [uint a, uint b] ! 0 = 2 \<and> [uint a, uint b] ! 1 = 224 then 2 ^ 224
    else if [uint a, uint b] ! 1 = 0 then 1 else if [uint a, uint b] ! 0 = 0 then 0
    else exponentiation ([uint a, uint b] ! 0) ([uint a, uint b] ! 1)) =
    uint ([a, b] ! 0 ^ unat ([a, b] ! 1))"
    using two [of 96] two [of 160] two [of 224] z
    by (simp add: uint_power_256 exponentiation_eq uint_eq_0 TWO_POW256_eq power_0_left)
qed

section \<open>Comparison and bit theorems\<close>

lemma uint_bool [simp]: "uint (if P then 1 else 0 :: u256) = bool_int P"
  by simp

lemma op_LT_word: "computes op_LT 2 (\<lambda>ws. if ws ! 0 < ws ! 1 then 1 else 0)"
  unfolding op_LT_def by (rule computes_alu2) (simp add: word_less_def)

lemma op_GT_word: "computes op_GT 2 (\<lambda>ws. if ws ! 1 < ws ! 0 then 1 else 0)"
  unfolding op_GT_def by (rule computes_alu2) (simp add: word_less_def)

lemma op_SLT_word: "computes op_SLT 2 (\<lambda>ws. if sint (ws ! 0) < sint (ws ! 1) then 1 else 0)"
  unfolding op_SLT_def by (rule computes_alu2) (simp add: fromTwos_uint)

lemma op_SGT_word: "computes op_SGT 2 (\<lambda>ws. if sint (ws ! 1) < sint (ws ! 0) then 1 else 0)"
  unfolding op_SGT_def by (rule computes_alu2) (simp add: fromTwos_uint)

lemma op_EQ_word: "computes op_EQ 2 (\<lambda>ws. if ws ! 0 = ws ! 1 then 1 else 0)"
  unfolding op_EQ_def by (rule computes_alu2) (simp add: word_uint_eq_iff)

lemma op_ISZERO_word: "computes op_ISZERO 1 (\<lambda>ws. if ws ! 0 = 0 then 1 else 0)"
  unfolding op_ISZERO_def [abs_def] by (rule computes_alu1) (simp add: uint_eq_0)

lemma op_AND_word: "computes op_AND 2 (\<lambda>ws. ws ! 0 AND ws ! 1)"
  unfolding op_AND_def by (rule computes_alu2) (simp add: unsigned_and_eq)

lemma op_OR_word: "computes op_OR 2 (\<lambda>ws. ws ! 0 OR ws ! 1)"
  unfolding op_OR_def by (rule computes_alu2) (simp add: unsigned_or_eq)

lemma op_XOR_word: "computes op_XOR 2 (\<lambda>ws. ws ! 0 XOR ws ! 1)"
  unfolding op_XOR_def by (rule computes_alu2) (simp add: unsigned_xor_eq)

lemma op_NOT_word: "computes op_NOT 1 (\<lambda>ws. NOT (ws ! 0))"
  unfolding op_NOT_def [abs_def] by (rule computes_alu1) (simp add: unsigned_not_eq)

lemma op_SHL_word: "computes op_SHL 2 (\<lambda>ws. push_bit (unat (ws ! 0)) (ws ! 1))"
  unfolding op_SHL_def
proof (rule computes_alu2, goal_cases)
  case (1 a b)
  have big: "take_bit 256 (push_bit (unat a) (uint b)) = 0" if "256 < uint a"
    using unat_large [OF that] by (intro bit_eqI) (simp add: bit_simps)
  have "big_shl (uint b) (uint a) = push_bit (unat a) (uint b)"
    by (cases "uint a = 0") (simp_all add: big_shl_def big_shr_def uint_eq_0 order_less_le)
  with big show ?case by (simp add: unsigned_push_bit_eq and_MAX Let_def)
qed

lemma op_SHR_word: "computes op_SHR 2 (\<lambda>ws. drop_bit (unat (ws ! 0)) (ws ! 1))"
  unfolding op_SHR_def
proof (rule computes_alu2, goal_cases)
  case (1 a b)
  have "drop_bit (unat a) (uint b) = 0" if "256 < uint a"
  proof -
    have "drop_bit (unat a) (take_bit 256 (uint b)) = 0"
      using unat_large [OF that] by (intro bit_eqI) (simp add: bit_simps)
    then show ?thesis by (simp add: take_256_uint)
  qed
  then show ?case by (simp add: Let_def big_shr_def unsigned_drop_bit_eq take_256_uint)
qed

lemma op_BYTE_word: "computes op_BYTE 2
   (\<lambda>ws. if ws ! 0 < 32 then drop_bit (8 * (31 - unat (ws ! 0))) (ws ! 1) AND 255 else 0)"
  unfolding op_BYTE_def
proof (rule computes_alu2, goal_cases)
  case (1 a b)
  consider "uint a < 32" | "uint a = 32" | "32 < uint a" by linarith
  then show ?case
  proof cases
    case 1
    then have "nat ((31 - uint a) * 8) = 8 * (31 - unat a)" by (rule nat_uint_shift)
    with 1 show ?thesis
      by (simp add: big_shr_def word_less_def unsigned_and_eq unsigned_drop_bit_eq take_256_uint)
  next
    case 2
    have "(255::int) = mask 8" by (simp add: mask_eq_exp_minus_1)
    then have "push_bit 8 (uint b) AND 255 = take_bit 8 (push_bit 8 (uint b))"
      by (simp only: take_bit_eq_mask)
    then have "push_bit 8 (uint b) AND 255 = 0" by (simp add: take_bit_push_bit)
    with 2 show ?thesis by (simp add: big_shr_def word_less_def)
  next
    case 3
    then show ?thesis by (simp add: word_less_def)
  qed
qed


lemma bit_uint: "bit (uint (b :: u256)) n \<longleftrightarrow> bit b n"
  by (simp add: bit_simps)

lemma drop_and_1: "drop_bit n (i :: int) AND 1 \<noteq> 0 \<longleftrightarrow> bit i n"
  by (simp add: and_one_eq bit_iff_odd_drop_bit odd_iff_mod_2_eq_one)

lemma op_SIGNEXTEND_word: "computes op_SIGNEXTEND 2
   (\<lambda>ws. if ws ! 0 < 31 then signed_take_bit (8 * unat (ws ! 0) + 7) (ws ! 1) else ws ! 1)"
  unfolding op_SIGNEXTEND_def
proof (rule computes_alu2, goal_cases)
  case (1 a b)
  show ?case
  proof (cases "uint a < 31")
    case True
    define n where "n = 8 * unat a + 7"
    have n: "nat (uint a * 8 + 7) = n" "n < 256" using True unfolding n_def uint_int_unat by linarith+
    have "uint (signed_take_bit n b) =
      (if bit b n then uint b OR take_bit 256 (NOT (mask n)) else uint b AND mask n)"
    proof (rule bit_eqI)
      fix m
      show "bit (uint (signed_take_bit n b)) m =
        bit (if bit b n then uint b OR take_bit 256 (NOT (mask n)) else uint b AND mask n) m"
        using n(2) bit_imp_le_length [of b m]
        by (auto simp: bit_uint bit_signed_take_bit_iff bit_or_iff bit_and_iff bit_take_bit_iff bit_not_iff
            bit_mask_iff min_def bit_simps)
    qed
    with True n show ?thesis
      by (simp add: word_less_def mask_eq_exp_minus_1 drop_and_1 bit_uint n_def [symmetric])
  next
    case False
    then show ?thesis by (simp add: word_less_def)
  qed
qed

lemma signed_take_bit_uint: "signed_take_bit 255 (uint (b :: u256)) = sint b"
  by (simp add: sint_uint)

lemma sint_neg_iff: "sint (b :: u256) < 0 \<longleftrightarrow> bit b 255"
  using bit_last_iff [of b] by simp

lemma bit_MAX: "bit MAX_INTEGER_BIGINT m \<longleftrightarrow> m < 256"
proof -
  have "MAX_INTEGER_BIGINT = mask 256" by (simp add: MAX_INTEGER_eq mask_eq_exp_minus_1)
  then have "bit MAX_INTEGER_BIGINT m \<longleftrightarrow> bit (mask 256 :: int) m" by (rule arg_cong)
  also have "\<dots> \<longleftrightarrow> m < 256" unfolding bit_mask_iff by simp
  finally show ?thesis .
qed

lemma bit_u256: "bit (b :: u256) m \<Longrightarrow> m < 256"
  using bit_imp_le_length by force

text \<open>The two shifts of the all-ones word leave the high bits the arithmetic shift fills.\<close>

lemma sar_mask_bit:
  assumes "n \<le> 256"
  shows "bit (big_shl (big_shr MAX_INTEGER_BIGINT (255 - int n)) (255 - int n)) m \<longleftrightarrow>
    m < 256 \<and> 255 \<le> n + m"
proof (cases "n = 256")
  case True
  then show ?thesis
    by (auto simp: big_shl_def big_shr_def bit_MAX bit_simps bit_double_iff mult.commute [of MAX_INTEGER_BIGINT])
next
  case False
  with assms have "nat (255 - int n) = 255 - n" "n \<le> 255" by linarith+
  then show ?thesis by (auto simp: big_shl_def big_shr_def bit_MAX bit_simps)
qed

lemma op_SAR_word: "computes op_SAR 2 (\<lambda>ws. signed_drop_bit (unat (ws ! 0)) (ws ! 1))"
  unfolding op_SAR_def
proof (rule computes_alu2, goal_cases)
  case (1 a b)
  show ?case
  proof (cases "256 < uint a")
    case True
    have "uint (signed_drop_bit (unat a) b) = (if bit b 255 then MAX_INTEGER_BIGINT else 0)"
      using unat_large [OF True]
      by (intro bit_eqI) (auto simp: bit_uint bit_signed_drop_bit_iff bit_MAX dest: bit_u256)
    with True show ?thesis by (simp add: signed_take_bit_uint sint_neg_iff Let_def)
  next
    case False
    then have n: "unat a \<le> 256" unfolding uint_int_unat by linarith
    have "uint (signed_drop_bit (unat a) b) =
      (if bit b 255 then drop_bit (unat a) (uint b) OR
         big_shl (big_shr MAX_INTEGER_BIGINT (255 - int (unat a))) (255 - int (unat a))
       else drop_bit (unat a) (uint b))"
    proof (rule bit_eqI)
      fix m
      show "bit (uint (signed_drop_bit (unat a) b)) m = bit (if bit b 255
        then drop_bit (unat a) (uint b) OR
          big_shl (big_shr MAX_INTEGER_BIGINT (255 - int (unat a))) (255 - int (unat a))
        else drop_bit (unat a) (uint b)) m"
        using n
        by (cases "unat a + m = 255")
          (auto simp: bit_uint bit_signed_drop_bit_iff bit_or_iff bit_drop_bit_eq
            sar_mask_bit [OF n, folded uint_int_unat] dest: bit_u256)
    qed
    with False show ?thesis
      by (simp add: signed_take_bit_uint sint_neg_iff Let_def big_shr_def [of "uint b"])
  qed
qed

lemma bin_length_bounds: "0 < n \<Longrightarrow> 2 ^ (bin_length n - 1) \<le> n \<and> n < 2 ^ bin_length n \<and> 0 < bin_length n"
proof (induction n rule: bin_length.induct)
  case (1 n)
  show ?case
  proof (cases "n < 2")
    case True
    with "1.prems" show ?thesis by (simp add: bin_length.simps [of n])
  next
    case False
    then have "0 < n div 2" by (simp add: div_greater_zero_iff)
    with "1.IH" False have IH: "2 ^ (bin_length (n div 2) - 1) \<le> n div 2"
      "n div 2 < 2 ^ bin_length (n div 2)" "0 < bin_length (n div 2)" by blast+
    then obtain k where "bin_length (n div 2) = Suc k" by (cases "bin_length (n div 2)") auto
    moreover have "2 * (n div 2) \<le> n" "n < 2 * (n div 2) + 2" by linarith+
    ultimately show ?thesis using IH False by (simp add: bin_length.simps [of n])
  qed
qed

text \<open>A positive number has \<open>k\<close> binary digits exactly when it lies in \<open>[2^(k-1), 2^k)\<close>.\<close>

lemma bin_length_eq: "0 < n \<Longrightarrow> n < 2 ^ k \<Longrightarrow> 2 ^ (k - 1) \<le> n \<Longrightarrow> bin_length n = k"
proof -
  assume n: "0 < n" "n < 2 ^ k" "2 ^ (k - 1) \<le> n"
  have "\<not> bin_length n < k"
  proof
    assume "bin_length n < k"
    then have "(2::nat) ^ bin_length n \<le> 2 ^ (k - 1)" by simp
    with bin_length_bounds [OF n(1)] n(3) show False by linarith
  qed
  moreover have "\<not> k < bin_length n"
  proof
    assume "k < bin_length n"
    then have "(2::nat) ^ k \<le> 2 ^ (bin_length n - 1)" by simp
    with bin_length_bounds [OF n(1)] n(2) show False by linarith
  qed
  ultimately show ?thesis by simp
qed

lemma bit_nat_ge_exp: "bit (n :: nat) k \<Longrightarrow> 2 ^ k \<le> n"
  by (metis bit_iff_odd div_less even_zero not_le_imp_less)

lemma takeWhile_upt:
  "length (takeWhile P [0..<N]) \<le> N \<and> (\<forall>i < length (takeWhile P [0..<N]). P i) \<and>
   (length (takeWhile P [0..<N]) < N \<longrightarrow> \<not> P (length (takeWhile P [0..<N])))"
proof (induction N)
  case (Suc N)
  show ?case
  proof (cases "\<forall>i \<in> set [0..<N]. P i")
    case True
    then have "takeWhile P [0..<Suc N] = [0..<N] @ takeWhile P [N]" by (simp add: takeWhile_append)
    with True show ?thesis by (auto simp: less_Suc_eq)
  next
    case False
    then have "takeWhile P [0..<Suc N] = takeWhile P [0..<N]" by (auto simp: takeWhile_append)
    moreover have "length (takeWhile P [0..<N]) \<noteq> N" using Suc.IH False by auto
    ultimately show ?thesis using Suc.IH by auto
  qed
qed simp

definition clz_of :: "nat \<Rightarrow> u256 \<Rightarrow> nat" where
  "clz_of N w = length (takeWhile (\<lambda>i. \<not> bit w (N - 1 - i)) [0..<N])"

abbreviation clz256 :: "u256 \<Rightarrow> nat" where
  "clz256 \<equiv> clz_of 256"

lemma clz_zeros: "i < clz256 w \<Longrightarrow> \<not> bit w (255 - i)"
  using takeWhile_upt [of "\<lambda>i. \<not> bit w (256 - 1 - i)" 256] by (simp add: clz_of_def)

lemma clz_one: "clz256 w < 256 \<Longrightarrow> bit w (255 - clz256 w)"
  using takeWhile_upt [of "\<lambda>i. \<not> bit w (256 - 1 - i)" 256] by (simp add: clz_of_def)

lemma clz_le: "clz256 w \<le> 256"
  using takeWhile_upt [of "\<lambda>i. \<not> bit w (256 - 1 - i)" 256] by (simp add: clz_of_def)

lemma clz256_0: "clz256 0 = 256"
  using clz_one [of 0] clz_le [of 0] by (auto simp: order_le_less)

lemma clz256_nonzero:
  assumes "w \<noteq> 0"
  shows "clz256 w < 256" and "2 ^ (255 - clz256 w) \<le> unat w" and "unat w < 2 ^ (256 - clz256 w)"
proof -
  define k where "k = clz256 w"
  have zeros: "\<not> bit w n" if "256 \<le> n + k" "n < 256" for n
    using clz_zeros [of "255 - n" w] that by (auto simp: k_def)
  show k: "clz256 w < 256"
  proof (rule ccontr)
    assume "\<not> clz256 w < 256"
    then have "w = 0" using zeros by (intro bit_word_eqI) (simp add: k_def)
    with assms show False by simp
  qed
  have "take_bit (256 - k) w = w"
  proof (rule bit_word_eqI)
    fix n assume "n < LENGTH(256)"
    with zeros [of n] show "bit (take_bit (256 - k) w) n = bit w n"
      by (cases "256 \<le> n + k") (auto simp: bit_take_bit_iff)
  qed
  then have "unat w = take_bit (256 - k) (unat w)" by (metis unsigned_take_bit_eq)
  then show "unat w < 2 ^ (256 - clz256 w)" by (metis k_def take_bit_nat_less_exp)
  have "bit (unat w) (255 - k)" using clz_one [of w] k by (simp add: k_def bit_simps)
  then show "2 ^ (255 - clz256 w) \<le> unat w" unfolding k_def by (rule bit_nat_ge_exp)
qed

lemma op_CLZ_word: "computes op_CLZ 1 (\<lambda>ws. of_nat (clz256 (ws ! 0)))"
proof -
  have alu: "op_CLZ s = bindE (stack_pop s) (\<lambda>(x, s').
      stack_push (if x = 0 then 256 else 256 - int (bin_length (nat x))) s')" for s
    by (simp add: op_CLZ_def Let_def if_distrib [of "\<lambda>v. stack_push v _"] cong: if_cong)
  have key: "(if uint a = 0 then 256 else 256 - int (bin_length (nat (uint a)))) = uint (of_nat (clz256 a) :: u256)"
    for a :: u256
  proof (cases "a = 0")
    case False
    then have "0 < unat a" by (simp add: unat_gt_0)
    then have "bin_length (unat a) = 256 - clz256 a"
      using clz256_nonzero [OF False] by (intro bin_length_eq) simp_all
    with clz256_nonzero(1) [OF False] show ?thesis
      using False by (simp add: uint_eq_0 unsigned_of_nat take_bit_nat_eq_self)
  qed (simp add: clz256_0)
  show ?thesis unfolding alu [abs_def] by (rule computes_alu1) (simp add: key)
qed

section \<open>Properties\<close>

text \<open>C14. The arithmetic opcodes compute on 256-bit words: ADD, MUL, SUB and EXP wrap around,
  DIV, MOD, SDIV and SMOD give zero on a zero divisor (signed division truncates towards zero),
  ADDMOD and MULMOD use the unbounded intermediate result, SIGNEXTEND extends byte \<open>k\<close>. Each
  takes its operands from the top of the stack, pushes exactly one word, leaves the rest, and
  on a shorter stack traps with an underflow.\<close>

theorem arithmetic_opcodes:
  "computes op_ADD 2 (\<lambda>ws. ws ! 0 + ws ! 1)
   \<and> computes op_MUL 2 (\<lambda>ws. ws ! 0 * ws ! 1)
   \<and> computes op_SUB 2 (\<lambda>ws. ws ! 0 - ws ! 1)
   \<and> computes op_DIV 2 (\<lambda>ws. ws ! 0 div ws ! 1)
   \<and> computes op_SDIV 2 (\<lambda>ws. word_of_int (sint (ws ! 0) sdiv sint (ws ! 1)))
   \<and> computes op_MOD 2 (\<lambda>ws. if ws ! 1 = 0 then 0 else ws ! 0 mod ws ! 1)
   \<and> computes op_SMOD 2
        (\<lambda>ws. if ws ! 1 = 0 then 0 else word_of_int (sint (ws ! 0) smod sint (ws ! 1)))
   \<and> computes op_ADDMOD 3 (\<lambda>ws. if ws ! 2 = 0 then 0
        else word_of_int ((uint (ws ! 0) + uint (ws ! 1)) mod uint (ws ! 2)))
   \<and> computes op_MULMOD 3 (\<lambda>ws. if ws ! 2 = 0 then 0
        else word_of_int (uint (ws ! 0) * uint (ws ! 1) mod uint (ws ! 2)))
   \<and> computes op_EXP 2 (\<lambda>ws. ws ! 0 ^ unat (ws ! 1))
   \<and> computes op_SIGNEXTEND 2
        (\<lambda>ws. if ws ! 0 < 31 then signed_take_bit (8 * unat (ws ! 0) + 7) (ws ! 1) else ws ! 1)"
  by (intro conjI op_ADD_word op_MUL_word op_SUB_word op_DIV_word op_SDIV_word op_MOD_word
      op_SMOD_word op_ADDMOD_word op_MULMOD_word op_EXP_word op_SIGNEXTEND_word)

text \<open>C15. The comparison and bit opcodes compute on 256-bit words: unsigned and two's-complement
  comparisons give 0 or 1, the shifts are the logical and arithmetic shifts (a count of 256 or
  more gives zero, or all ones for SAR of a negative word), BYTE selects a byte from the most
  significant end, CLZ counts leading zeros. On a shorter stack each traps with an underflow.\<close>

theorem comparison_and_bit_opcodes:
  "computes op_LT 2 (\<lambda>ws. if ws ! 0 < ws ! 1 then 1 else 0)
   \<and> computes op_GT 2 (\<lambda>ws. if ws ! 1 < ws ! 0 then 1 else 0)
   \<and> computes op_SLT 2 (\<lambda>ws. if sint (ws ! 0) < sint (ws ! 1) then 1 else 0)
   \<and> computes op_SGT 2 (\<lambda>ws. if sint (ws ! 1) < sint (ws ! 0) then 1 else 0)
   \<and> computes op_EQ 2 (\<lambda>ws. if ws ! 0 = ws ! 1 then 1 else 0)
   \<and> computes op_ISZERO 1 (\<lambda>ws. if ws ! 0 = 0 then 1 else 0)
   \<and> computes op_AND 2 (\<lambda>ws. ws ! 0 AND ws ! 1)
   \<and> computes op_OR 2 (\<lambda>ws. ws ! 0 OR ws ! 1)
   \<and> computes op_XOR 2 (\<lambda>ws. ws ! 0 XOR ws ! 1)
   \<and> computes op_NOT 1 (\<lambda>ws. NOT (ws ! 0))
   \<and> computes op_BYTE 2
        (\<lambda>ws. if ws ! 0 < 32 then drop_bit (8 * (31 - unat (ws ! 0))) (ws ! 1) AND 255 else 0)
   \<and> computes op_SHL 2 (\<lambda>ws. push_bit (unat (ws ! 0)) (ws ! 1))
   \<and> computes op_SHR 2 (\<lambda>ws. drop_bit (unat (ws ! 0)) (ws ! 1))
   \<and> computes op_SAR 2 (\<lambda>ws. signed_drop_bit (unat (ws ! 0)) (ws ! 1))
   \<and> computes op_CLZ 1 (\<lambda>ws. of_nat (clz256 (ws ! 0)))"
  by (intro conjI op_LT_word op_GT_word op_SLT_word op_SGT_word op_EQ_word op_ISZERO_word op_AND_word
      op_OR_word op_XOR_word op_NOT_word op_BYTE_word op_SHL_word op_SHR_word op_SAR_word op_CLZ_word)

end
