(* ===== verification/Checkpoints.thy ===== *)
theory Checkpoints
  imports Prelude
begin

text \<open>
  The contract of a store with nested checkpoints, shared by the transient storage, the
  warm-address journal and the trie's checkpoint database: \<open>cur\<close> is what a client can read,
  \<open>saved\<close> the contents at the open checkpoints, latest first. From the three laws the locale
  proves once that a whole call tree of the virtual machine, in which every call opens a
  checkpoint and commits or reverts it at its end, runs as its abstract counterpart: a reverted
  call leaves no trace, a committed one keeps its effects for its caller.
\<close>

datatype 'o trace = Op 'o | Call "'o trace list" bool

fun run_abs :: "('o \<Rightarrow> 'v \<Rightarrow> 'v res) \<Rightarrow> 'o trace \<Rightarrow> 'v \<Rightarrow> 'v res"
  and runs_abs :: "('o \<Rightarrow> 'v \<Rightarrow> 'v res) \<Rightarrow> 'o trace list \<Rightarrow> 'v \<Rightarrow> 'v res" where
  "run_abs f (Op x) v = f x v"
| "run_abs f (Call ts success) v = bindE (runs_abs f ts v) (\<lambda>v'. Inr (if success then v' else v))"
| "runs_abs f [] v = Inr v"
| "runs_abs f (t # ts) v = bindE (run_abs f t v) (runs_abs f ts)"

fun run_trace :: "('o \<Rightarrow> 's \<Rightarrow> 's res) \<Rightarrow> ('s \<Rightarrow> 's) \<Rightarrow> ('s \<Rightarrow> 's res) \<Rightarrow> ('s \<Rightarrow> 's res) \<Rightarrow>
    'o trace \<Rightarrow> 's \<Rightarrow> 's res"
  and run_traces :: "('o \<Rightarrow> 's \<Rightarrow> 's res) \<Rightarrow> ('s \<Rightarrow> 's) \<Rightarrow> ('s \<Rightarrow> 's res) \<Rightarrow> ('s \<Rightarrow> 's res) \<Rightarrow>
    'o trace list \<Rightarrow> 's \<Rightarrow> 's res" where
  "run_trace f c k r (Op x) s = f x s"
| "run_trace f c k r (Call ts success) s =
     bindE (run_traces f c k r ts (c s)) (if success then k else r)"
| "run_traces f c k r [] s = Inr s"
| "run_traces f c k r (t # ts) s = bindE (run_trace f c k r t s) (run_traces f c k r ts)"

definition refines :: "('s \<Rightarrow> bool) \<Rightarrow> ('s \<Rightarrow> 'v) \<Rightarrow> ('s \<Rightarrow> 'v list) \<Rightarrow> 's res \<Rightarrow> 'v res \<Rightarrow> 'v list \<Rightarrow> bool" where
  "refines I cur saved r a stk = (case (r, a) of (Inl e, Inl e') \<Rightarrow> e = e'
     | (Inr s', Inr v) \<Rightarrow> I s' \<and> cur s' = v \<and> saved s' = stk | _ \<Rightarrow> False)"

lemma refines_Inl [simp]: "refines I cur saved (Inl e) a stk \<longleftrightarrow> a = Inl e"
  by (cases a) (auto simp: refines_def)

lemma refines_Inr [simp]:
  "refines I cur saved (Inr s) a stk \<longleftrightarrow> I s \<and> saved s = stk \<and> a = Inr (cur s)"
  by (cases a) (auto simp: refines_def)

lemma refines_bind:
  assumes "refines I cur saved r a stk"
    and "\<And>s. I s \<Longrightarrow> saved s = stk \<Longrightarrow> refines I cur saved (f s) (g (cur s)) stk'"
  shows "refines I cur saved (bindE r f) (bindE a g) stk'"
  using assms by (cases r) auto

locale checkpointed =
  fixes I :: "'s \<Rightarrow> bool" and cur :: "'s \<Rightarrow> 'v" and saved :: "'s \<Rightarrow> 'v list"
    and chk :: "'s \<Rightarrow> 's" and com :: "'s \<Rightarrow> 's res" and rvt :: "'s \<Rightarrow> 's res"
    and act :: "'o \<Rightarrow> 's \<Rightarrow> 's res" and aact :: "'o \<Rightarrow> 'v \<Rightarrow> 'v res"
  assumes chk_law: "I s \<Longrightarrow> I (chk s) \<and> cur (chk s) = cur s \<and> saved (chk s) = cur s # saved s"
    and com_law: "I s \<Longrightarrow> saved s = v # vs \<Longrightarrow>
      \<exists>s'. com s = Inr s' \<and> I s' \<and> cur s' = cur s \<and> saved s' = vs"
    and rvt_law: "I s \<Longrightarrow> saved s = v # vs \<Longrightarrow>
      \<exists>s'. rvt s = Inr s' \<and> I s' \<and> cur s' = v \<and> saved s' = vs"
    and act_law: "I s \<Longrightarrow> refines I cur saved (act x s) (aact x (cur s)) (saved s)"
begin

lemma runs_from_run:
  assumes "\<And>t s. t \<in> set ts \<Longrightarrow> I s \<Longrightarrow>
      refines I cur saved (run_trace act chk com rvt t s) (run_abs aact t (cur s)) (saved s)"
    and "I s"
  shows "refines I cur saved (run_traces act chk com rvt ts s) (runs_abs aact ts (cur s)) (saved s)"
  using assms
proof (induction ts arbitrary: s)
  case (Cons t ts)
  have "refines I cur saved (run_trace act chk com rvt t s) (run_abs aact t (cur s)) (saved s)"
    using Cons.prems by simp
  then show ?case
    unfolding run_traces.simps runs_abs.simps
  proof (rule refines_bind)
    fix s1 assume "I s1" "saved s1 = saved s"
    with Cons.IH [of s1] Cons.prems(1)
    show "refines I cur saved (run_traces act chk com rvt ts s1) (runs_abs aact ts (cur s1)) (saved s)"
      by auto
  qed
qed simp

lemma run_refines:
  "I s \<Longrightarrow> refines I cur saved (run_trace act chk com rvt t s) (run_abs aact t (cur s)) (saved s)"
proof (induction t arbitrary: s)
  case (Op x)
  then show ?case by (simp add: act_law)
next
  case (Call ts success)
  then have c: "I (chk s)" "cur (chk s) = cur s" "saved (chk s) = cur s # saved s"
    using chk_law by auto
  have r: "refines I cur saved (run_traces act chk com rvt ts (chk s))
      (runs_abs aact ts (cur s)) (cur s # saved s)"
    using runs_from_run [OF Call.IH c(1)] c by simp
  show ?case
    unfolding run_trace.simps run_abs.simps
  proof (rule refines_bind [OF r])
    fix s1 assume "I s1" "saved s1 = cur s # saved s"
    with com_law [of s1] rvt_law [of s1]
    show "refines I cur saved ((if success then com else rvt) s1)
        (Inr (if success then cur s1 else cur s)) (saved s)"
      by auto
  qed
qed

lemma reverted_call:
  assumes "I s" and "run_trace act chk com rvt (Call ts False) s = Inr s'"
  shows "I s' \<and> cur s' = cur s \<and> saved s' = saved s"
  using run_refines [OF assms(1), of "Call ts False"] assms(2)
  by (auto simp: bindE_eq_Inr)

end

end
