(* ===== verification/TransientStorage.thy ===== *)
theory TransientStorage
  imports Bytes Checkpoints
begin

text \<open>
  EIP-1153 transient storage, \<open>packages/evm/src/transientStorage.ts\<close>: nested maps from address
  and slot (both hex strings) to a value, a journal of overwritten values, and the journal
  lengths at the open checkpoints. The contents a client can read (\<open>ts_look\<close>, zero where nothing
  is stored) and their snapshots satisfy the contract of \<open>Checkpoints\<close>.
\<close>

type_synonym ts_map = "jsstr \<Rightarrow> (jsstr \<Rightarrow> u8 list option) option"

record ts_mod =
  tm_addr :: jsstr
  tm_key :: jsstr
  tm_prev :: "u8 list"

record tstore =
  ts_storage :: ts_map
  ts_journal :: "ts_mod list"
  ts_indices :: "nat list"

definition ts_new :: tstore where
  "ts_new = \<lparr>ts_storage = (\<lambda>_. None), ts_journal = [], ts_indices = [0]\<rparr>"

definition ts_get :: "lib \<Rightarrow> u8 list \<Rightarrow> u8 list \<Rightarrow> tstore \<Rightarrow> u8 list" where
  "ts_get L addr key s =
     (case ts_storage s (bytesToHex L addr) of
        None \<Rightarrow> replicate 32 0
      | Some m \<Rightarrow> (case m (bytesToHex L key) of None \<Rightarrow> replicate 32 0 | Some value \<Rightarrow> value))"

definition ts_put :: "lib \<Rightarrow> u8 list \<Rightarrow> u8 list \<Rightarrow> u8 list \<Rightarrow> tstore \<Rightarrow> tstore res" where
  "ts_put L addr key value s =
     (if length key \<noteq> 32 then throw ''Transient storage key must be 32 bytes long''
      else if 32 < length value then throw ''Transient storage value cannot be longer than 32 bytes''
      else
        let addrString = bytesToHex L addr;
            m = (case ts_storage s addrString of None \<Rightarrow> (\<lambda>_. None) | Some m \<Rightarrow> m);
            keyStr = bytesToHex L key;
            prevValue = (case m keyStr of None \<Rightarrow> replicate 32 0 | Some v \<Rightarrow> v) in
        Inr (s\<lparr>ts_journal := ts_journal s @ [\<lparr>tm_addr = addrString, tm_key = keyStr, tm_prev = prevValue\<rparr>],
               ts_storage := (ts_storage s)(addrString := Some (m(keyStr := Some value)))\<rparr>))"

definition ts_commit :: "tstore \<Rightarrow> tstore res" where
  "ts_commit s =
     (if length (ts_indices s) = 0 then throw ''Nothing to commit''
      else Inr (s\<lparr>ts_indices := butlast (ts_indices s)\<rparr>))"

definition ts_checkpoint :: "tstore \<Rightarrow> tstore" where
  "ts_checkpoint s = s\<lparr>ts_indices := ts_indices s @ [length (ts_journal s)]\<rparr>"

text \<open>The loop of \<open>revert\<close> over the recent modifications, latest first. An address without
  a map would be a \<open>TypeError\<close>.\<close>

fun ts_undo :: "ts_mod list \<Rightarrow> ts_map \<Rightarrow> ts_map res" where
  "ts_undo [] st = Inr st"
| "ts_undo (d # ds) st =
     (case st (tm_addr d) of
        None \<Rightarrow> throw ''TypeError''
      | Some m \<Rightarrow> ts_undo ds (st(tm_addr d := Some (m(tm_key d := Some (tm_prev d))))))"

definition ts_revert :: "tstore \<Rightarrow> tstore res" where
  "ts_revert s =
     (if ts_indices s = [] then throw ''Nothing to revert''
      else
        let lastCheckpoint = last (ts_indices s) in
        bindE (ts_undo (rev (drop lastCheckpoint (ts_journal s))) (ts_storage s)) (\<lambda>st.
        Inr (s\<lparr>ts_storage := st, ts_indices := butlast (ts_indices s),
               ts_journal := take lastCheckpoint (ts_journal s)\<rparr>)))"

definition ts_toJSON :: "lib \<Rightarrow> tstore \<Rightarrow> jsstr \<Rightarrow> (jsstr \<Rightarrow> jsstr option) option" where
  "ts_toJSON L s = (\<lambda>a. map_option (\<lambda>m k. map_option (bytesToHex L) (m k)) (ts_storage s a))"

definition ts_clear :: "tstore \<Rightarrow> tstore" where
  "ts_clear s = s\<lparr>ts_storage := (\<lambda>_. None), ts_journal := []\<rparr>"

section \<open>Contents and snapshots\<close>

type_synonym ts_view = "jsstr \<Rightarrow> jsstr \<Rightarrow> u8 list"

definition look_map :: "ts_map \<Rightarrow> ts_view" where
  "look_map st a k = (case st a of None \<Rightarrow> replicate 32 0
     | Some m \<Rightarrow> (case m k of None \<Rightarrow> replicate 32 0 | Some v \<Rightarrow> v))"

definition ts_look :: "tstore \<Rightarrow> ts_view" where
  "ts_look s = look_map (ts_storage s)"

definition view_set :: "ts_view \<Rightarrow> jsstr \<Rightarrow> jsstr \<Rightarrow> u8 list \<Rightarrow> ts_view" where
  "view_set v a k x = v(a := (v a)(k := x))"

definition undo_view :: "ts_mod list \<Rightarrow> ts_view \<Rightarrow> ts_view" where
  "undo_view j v = foldr (\<lambda>d v. view_set v (tm_addr d) (tm_key d) (tm_prev d)) j v"

definition ts_saved :: "tstore \<Rightarrow> ts_view list" where
  "ts_saved s = map (\<lambda>i. undo_view (drop i (ts_journal s)) (ts_look s)) (rev (ts_indices s))"

definition ts_inv :: "tstore \<Rightarrow> bool" where
  "ts_inv s \<longleftrightarrow> sorted (ts_indices s) \<and> (\<forall>i \<in> set (ts_indices s). i \<le> length (ts_journal s)) \<and>
     (\<forall>d \<in> set (ts_journal s). ts_storage s (tm_addr d) \<noteq> None)"

text \<open>The abstract effect of a \<open>put\<close>.\<close>

definition ts_aput :: "lib \<Rightarrow> u8 list \<times> u8 list \<times> u8 list \<Rightarrow> ts_view \<Rightarrow> ts_view res" where
  "ts_aput L = (\<lambda>(addr, key, value) v.
     if length key \<noteq> 32 then throw ''Transient storage key must be 32 bytes long''
     else if 32 < length value then throw ''Transient storage value cannot be longer than 32 bytes''
     else Inr (view_set v (bytesToHex L addr) (bytesToHex L key) value))"

abbreviation ts_act :: "lib \<Rightarrow> u8 list \<times> u8 list \<times> u8 list \<Rightarrow> tstore \<Rightarrow> tstore res" where
  "ts_act L \<equiv> (\<lambda>(addr, key, value). ts_put L addr key value)"

lemma ts_get_look: "ts_get L addr key s = ts_look s (bytesToHex L addr) (bytesToHex L key)"
  by (simp add: ts_get_def ts_look_def look_map_def)

lemma look_map_upd:
  "look_map (st(a := Some ((case st a of None \<Rightarrow> (\<lambda>_. None) | Some m \<Rightarrow> m)(k := Some x))))
   = view_set (look_map st) a k x"
  by (auto simp: look_map_def view_set_def fun_eq_iff split: option.splits)

lemma view_set_back: "view_set (view_set v a k x) a k (v a k) = v"
  by (auto simp: view_set_def fun_eq_iff)

lemma undo_view_append: "undo_view (j1 @ j2) v = undo_view j1 (undo_view j2 v)"
  by (simp add: undo_view_def)

lemma undo_view_Nil [simp]: "undo_view [] v = v"
  by (simp add: undo_view_def)

lemma ts_undo_view:
  "(\<forall>d \<in> set ds. st (tm_addr d) \<noteq> None) \<Longrightarrow>
   \<exists>st'. ts_undo ds st = Inr st' \<and> look_map st' = undo_view (rev ds) (look_map st) \<and>
     (\<forall>a. st a \<noteq> None \<longrightarrow> st' a \<noteq> None)"
proof (induction ds arbitrary: st)
  case (Cons d ds)
  then obtain m where m: "st (tm_addr d) = Some m" by auto
  let ?st = "st(tm_addr d := Some (m(tm_key d := Some (tm_prev d))))"
  have "\<forall>d \<in> set ds. ?st (tm_addr d) \<noteq> None" using Cons.prems by auto
  from Cons.IH [OF this] obtain st' where st': "ts_undo ds ?st = Inr st'"
    "look_map st' = undo_view (rev ds) (look_map ?st)" "\<forall>a. ?st a \<noteq> None \<longrightarrow> st' a \<noteq> None" by blast
  have "look_map ?st = view_set (look_map st) (tm_addr d) (tm_key d) (tm_prev d)"
    using look_map_upd [of st "tm_addr d"] m by simp
  with st' m show ?case
    by (auto simp: undo_view_def split: if_splits)
qed (simp add: undo_view_def)

lemma ts_put_refines:
  assumes "ts_inv s"
  shows "refines ts_inv ts_look ts_saved (ts_act L x s) (ts_aput L x (ts_look s)) (ts_saved s)"
proof -
  obtain addr key val where x: "x = (addr, key, val)" by (cases x)
  show ?thesis
  proof (cases "length key \<noteq> 32 \<or> 32 < length val")
    case True
    with x show ?thesis by (auto simp: ts_put_def ts_aput_def)
  next
    case False
    let ?a = "bytesToHex L addr" and ?k = "bytesToHex L key"
    define s' where "s' = s\<lparr>ts_journal := ts_journal s @
        [\<lparr>tm_addr = ?a, tm_key = ?k, tm_prev = ts_look s ?a ?k\<rparr>],
      ts_storage := (ts_storage s)(?a := Some ((case ts_storage s ?a of None \<Rightarrow> (\<lambda>_. None)
          | Some m \<Rightarrow> m)(?k := Some val)))\<rparr>"
    from False x have s': "ts_act L x s = Inr s'"
      "ts_journal s' = ts_journal s @ [\<lparr>tm_addr = ?a, tm_key = ?k, tm_prev = ts_look s ?a ?k\<rparr>]"
      "ts_storage s' = (ts_storage s)(?a := Some ((case ts_storage s ?a of None \<Rightarrow> (\<lambda>_. None)
          | Some m \<Rightarrow> m)(?k := Some val)))"
      "ts_indices s' = ts_indices s"
      by (cases "ts_storage s ?a"; simp add: ts_put_def Let_def ts_look_def look_map_def s'_def)+
    have v: "ts_look s' = view_set (ts_look s) ?a ?k val"
      unfolding ts_look_def s'(3) by (rule look_map_upd)
    have "ts_saved s' = ts_saved s"
      using assms s'(2,4)
      by (auto simp: ts_saved_def ts_inv_def undo_view_append v view_set_back undo_view_def)
    moreover have "ts_inv s'"
      using assms s'(2-4) by (auto simp: ts_inv_def)
    ultimately show ?thesis using s'(1) v False x by (simp add: ts_aput_def)
  qed
qed

interpretation tstore: checkpointed ts_inv ts_look ts_saved ts_checkpoint ts_commit ts_revert
  "ts_act L" "ts_aput L" for L
proof (unfold_locales, goal_cases)
  case (1 s)
  then show ?case
    by (auto simp: ts_checkpoint_def ts_inv_def ts_look_def ts_saved_def sorted_append)
next
  case (2 s v vs)
  then obtain js i where "ts_indices s = js @ [i]"
    by (cases "ts_indices s" rule: rev_exhaust) (auto simp: ts_saved_def)
  with 2 show ?case by (auto simp: ts_commit_def ts_inv_def ts_look_def ts_saved_def sorted_append)
next
  case (3 s v vs)
  then obtain js i where i: "ts_indices s = js @ [i]"
    by (cases "ts_indices s" rule: rev_exhaust) (auto simp: ts_saved_def)
  let ?d = "drop i (ts_journal s)"
  have "\<forall>d \<in> set (rev ?d). ts_storage s (tm_addr d) \<noteq> None"
    using 3 by (auto simp: ts_inv_def dest: in_set_dropD)
  from ts_undo_view [OF this] obtain st where st: "ts_undo (rev ?d) (ts_storage s) = Inr st"
    "look_map st = undo_view ?d (ts_look s)" "\<forall>a. ts_storage s a \<noteq> None \<longrightarrow> st a \<noteq> None"
    by (auto simp: ts_look_def)
  have split: "undo_view (drop j (take i (ts_journal s))) (undo_view ?d (ts_look s))
      = undo_view (drop j (ts_journal s)) (ts_look s)" if "j \<in> set js" for j
  proof -
    have "j \<le> i" "i \<le> length (ts_journal s)" using 3 i that by (auto simp: ts_inv_def sorted_append)
    then have "drop j (ts_journal s) = drop j (take i (ts_journal s)) @ drop i (ts_journal s)"
      by (metis append_take_drop_id drop_append length_take min.absorb2 diff_is_0_eq drop_0)
    then show ?thesis by (simp add: undo_view_append)
  qed
  from 3 i st split show ?case
    by (auto simp: ts_revert_def ts_inv_def ts_look_def ts_saved_def sorted_append Let_def
        dest: in_set_takeD)
next
  case (4 s x)
  then show ?case by (rule ts_put_refines)
qed

section \<open>Properties\<close>

text \<open>C22. Nested calls. Run any call tree against the transient storage, each call opening a
  checkpoint on entry and committing or reverting it at its end: the outcome is that of the same
  tree over a plain map from address and slot to value in which a reverted call is undone
  entirely and a committed one kept, the first rejected \<open>put\<close> ends the run with its error, and
  the checkpoints open before the run are intact after it.\<close>

theorem transient_storage_calls:
  assumes "ts_inv s"
  shows "refines ts_inv ts_look ts_saved
     (run_trace (ts_act L) ts_checkpoint ts_commit ts_revert t s)
     (run_abs (ts_aput L) t (ts_look s)) (ts_saved s)"
  using assms by (rule tstore.run_refines)

theorem transient_storage_calls_witness:
  "refines ts_inv ts_look ts_saved
     (run_trace (ts_act ref_lib) ts_checkpoint ts_commit ts_revert
        (Call [Op ([1], replicate 32 0, [7]), Call [Op ([1], replicate 32 0, [8])] False] True) ts_new)
     (run_abs (ts_aput ref_lib)
        (Call [Op ([1], replicate 32 0, [7]), Call [Op ([1], replicate 32 0, [8])] False] True)
        (ts_look ts_new)) (ts_saved ts_new)"
  by (rule transient_storage_calls) (simp add: ts_inv_def ts_new_def)

text \<open>A value put is read back under its own address and slot, and no other entry changes:
  the hex strings the maps are keyed by distinguish all addresses and all slots.\<close>

theorem transient_put_get:
  assumes "lib_ok L" and "ts_put L addr key v s = Inr s'"
  shows "ts_get L addr2 key2 s' = (if addr2 = addr \<and> key2 = key then v else ts_get L addr2 key2 s)"
proof -
  have inj: "bytesToHex L x = bytesToHex L y \<longleftrightarrow> x = y" for x y
    using assms(1) by (metis bytesToHex_eq append_same_eq lib_okD(2) sum.inject(2) same_append_eq)
  show ?thesis
    using assms(2)
    by (cases "ts_storage s (bytesToHex L addr)")
      (auto simp: ts_put_def ts_get_def Let_def inj split: if_splits)
qed

theorem transient_put_get_witness:
  "\<exists>s'. ts_put ref_lib [1] (replicate 32 5) [9] ts_new = Inr s' \<and>
     ts_get ref_lib [1] (replicate 32 5) s' = [9]"
proof -
  obtain s' where s': "ts_put ref_lib [1] (replicate 32 5) [9] ts_new = Inr s'"
    by (auto simp: ts_put_def Let_def)
  from transient_put_get [OF lib_ok_ref s', of "[1]" "replicate 32 5"] s' show ?thesis by simp
qed

end
