(* ===== verification/CheckpointDB.thy ===== *)
theory CheckpointDB
  imports Bytes Checkpoints "HOL-Library.AList"
begin

text \<open>
  The key-value stores under the trie: the in-memory database of \<open>packages/utils/src/mapDB.ts\<close>
  and the checkpointing wrapper of \<open>packages/merkel-trie/src/db/checkpointDB.ts\<close>. A JavaScript
  \<open>Map\<close> is an association list in insertion order (\<open>AList.update\<close> sets a key in place or
  appends it). The LRU cache is a third-party class, here the parameter \<open>lru\<close>; without a
  cache (the default) the wrapper satisfies the contract of \<open>Checkpoints\<close>.
\<close>

section \<open>The in-memory database\<close>

datatype db_key = KBytes "u8 list" | KStr jsstr

datatype db_value = VStr jsstr | VBytes "u8 list"

datatype db_op = DbDel db_key | DbPut db_key db_value

type_synonym mapdb = "(jsstr \<times> db_value) list"

definition mdb_key :: "lib \<Rightarrow> db_key \<Rightarrow> jsstr" where
  "mdb_key L key = (case key of KBytes b \<Rightarrow> bytesToUnprefixedHex L b | KStr s \<Rightarrow> s)"

definition mdb_get :: "lib \<Rightarrow> db_key \<Rightarrow> mapdb \<Rightarrow> db_value option" where
  "mdb_get L key d = map_of d (mdb_key L key)"

definition mdb_put :: "lib \<Rightarrow> db_key \<Rightarrow> db_value \<Rightarrow> mapdb \<Rightarrow> mapdb" where
  "mdb_put L key v d = AList.update (mdb_key L key) v d"

definition mdb_del :: "lib \<Rightarrow> db_key \<Rightarrow> mapdb \<Rightarrow> mapdb" where
  "mdb_del L key d = AList.delete (mdb_key L key) d"

fun mdb_batch :: "lib \<Rightarrow> db_op list \<Rightarrow> mapdb \<Rightarrow> mapdb" where
  "mdb_batch L [] d = d"
| "mdb_batch L (DbDel k # ops) d = mdb_batch L ops (mdb_del L k d)"
| "mdb_batch L (DbPut k v # ops) d = mdb_batch L ops (mdb_put L k v d)"

section \<open>The checkpointing wrapper\<close>

text \<open>What the code uses of an \<open>LRUCache\<close>. A lookup and a write may change its recency order.\<close>

record 'c lru =
  lru_get :: "jsstr \<Rightarrow> 'c \<Rightarrow> u8 list option \<times> 'c"
  lru_set :: "jsstr \<Rightarrow> u8 list option \<Rightarrow> 'c \<Rightarrow> 'c"
  lru_count :: "'c \<Rightarrow> nat"

type_synonym kv_map = "(jsstr \<times> u8 list option) list"

record cp =
  cp_root :: "u8 list"
  cp_map :: kv_map

record db_stats =
  cache_reads :: nat
  cache_hits :: nat
  cache_writes :: nat
  db_reads :: nat
  db_hits :: nat
  db_writes :: nat

definition zero_stats :: db_stats where
  "zero_stats = \<lparr>cache_reads = 0, cache_hits = 0, cache_writes = 0, db_reads = 0, db_hits = 0, db_writes = 0\<rparr>"

record 'c ckdb =
  ck_checkpoints :: "cp list"
  ck_db :: mapdb
  ck_bytes :: bool
  ck_cache :: "'c option"
  ck_stats :: db_stats

definition ck_new :: "mapdb \<Rightarrow> bool \<Rightarrow> 'c option \<Rightarrow> 'c ckdb" where
  "ck_new d bytesEncoding cache =
     \<lparr>ck_checkpoints = [], ck_db = d, ck_bytes = bytesEncoding, ck_cache = cache, ck_stats = zero_stats\<rparr>"

definition ck_setCheckpoints :: "cp list \<Rightarrow> 'c ckdb \<Rightarrow> 'c ckdb" where
  "ck_setCheckpoints cps s =
     s\<lparr>ck_checkpoints := map (\<lambda>c. \<lparr>cp_root = cp_root c, cp_map = cp_map c\<rparr>) cps\<rparr>"

definition ck_hasCheckpoints :: "'c ckdb \<Rightarrow> bool" where
  "ck_hasCheckpoints s \<longleftrightarrow> 0 < length (ck_checkpoints s)"

definition ck_checkpoint :: "u8 list \<Rightarrow> 'c ckdb \<Rightarrow> 'c ckdb" where
  "ck_checkpoint root s = s\<lparr>ck_checkpoints := ck_checkpoints s @ [\<lparr>cp_root = root, cp_map = []\<rparr>]\<rparr>"

text \<open>\<open>this.checkpoints[this.checkpoints.length - 1].keyValueMap.set(key, value)\<close>\<close>

definition cps_set :: "jsstr \<Rightarrow> u8 list option \<Rightarrow> cp list \<Rightarrow> cp list" where
  "cps_set k v cps = butlast cps @ [(last cps)\<lparr>cp_map := AList.update k v (cp_map (last cps))\<rparr>]"

definition ck_put :: "lib \<Rightarrow> 'c lru \<Rightarrow> u8 list \<Rightarrow> u8 list \<Rightarrow> 'c ckdb \<Rightarrow> 'c ckdb" where
  "ck_put L C key v s =
     (let keyHex = bytesToUnprefixedHex L key in
      if ck_hasCheckpoints s
      then s\<lparr>ck_checkpoints := cps_set keyHex (Some v) (ck_checkpoints s)\<rparr>
      else
        let valuePut = (if ck_bytes s then VBytes v else VStr (bytesToUnprefixedHex L v));
            s1 = s\<lparr>ck_db := mdb_put L (KStr keyHex) valuePut (ck_db s),
                   ck_stats := (ck_stats s)\<lparr>db_writes := db_writes (ck_stats s) + 1\<rparr>\<rparr> in
        case ck_cache s of None \<Rightarrow> s1
        | Some c \<Rightarrow> s1\<lparr>ck_cache := Some (lru_set C keyHex (Some v) c),
                     ck_stats := (ck_stats s1)\<lparr>cache_writes := cache_writes (ck_stats s1) + 1\<rparr>\<rparr>)"

definition ck_del :: "lib \<Rightarrow> 'c lru \<Rightarrow> u8 list \<Rightarrow> 'c ckdb \<Rightarrow> 'c ckdb" where
  "ck_del L C key s =
     (let keyHex = bytesToUnprefixedHex L key in
      if ck_hasCheckpoints s
      then s\<lparr>ck_checkpoints := cps_set keyHex None (ck_checkpoints s)\<rparr>
      else
        let s1 = s\<lparr>ck_db := mdb_del L (KStr keyHex) (ck_db s),
                   ck_stats := (ck_stats s)\<lparr>db_writes := db_writes (ck_stats s) + 1\<rparr>\<rparr> in
        case ck_cache s of None \<Rightarrow> s1
        | Some c \<Rightarrow> s1\<lparr>ck_cache := Some (lru_set C keyHex None c),
                     ck_stats := (ck_stats s1)\<lparr>cache_writes := cache_writes (ck_stats s1) + 1\<rparr>\<rparr>)"

text \<open>A batch operation of the wrapper: \<open>(key, Some value)\<close> puts, \<open>(key, None)\<close> deletes.\<close>

type_synonym batch_op = "u8 list \<times> u8 list option"

definition ck_batch :: "lib \<Rightarrow> 'c lru \<Rightarrow> batch_op list \<Rightarrow> 'c ckdb \<Rightarrow> 'c ckdb" where
  "ck_batch L C opStack s =
     (if ck_hasCheckpoints s
      then fold (\<lambda>(key, val) s. case val of Some v \<Rightarrow> ck_put L C key v s | None \<Rightarrow> ck_del L C key s) opStack s
      else
        let convertedOps = map (\<lambda>(key, val). let k = KStr (bytesToUnprefixedHex L key) in
              case val of None \<Rightarrow> DbDel k
              | Some v \<Rightarrow> DbPut k (if ck_bytes s then VBytes v else VStr (bytesToUnprefixedHex L v))) opStack in
        s\<lparr>ck_db := mdb_batch L convertedOps (ck_db s),
          ck_stats := (ck_stats s)\<lparr>db_writes := db_writes (ck_stats s) + length opStack\<rparr>\<rparr>)"

definition ck_commit :: "lib \<Rightarrow> 'c lru \<Rightarrow> 'c ckdb \<Rightarrow> 'c ckdb res" where
  "ck_commit L C s =
     (if ck_checkpoints s = [] then throw ''TypeError''
      else
        let kv = cp_map (last (ck_checkpoints s));
            s1 = s\<lparr>ck_checkpoints := butlast (ck_checkpoints s)\<rparr> in
        if \<not> ck_hasCheckpoints s1
        then bindE (mapE (\<lambda>(key, val). bindE (unprefixedHexToBytes L key) (\<lambda>k. Inr (k, val))) kv)
               (\<lambda>batchOp. Inr (ck_batch L C batchOp s1))
        else Inr (s1\<lparr>ck_checkpoints := fold (\<lambda>(key, val). cps_set key val) kv (ck_checkpoints s1)\<rparr>))"

definition ck_revert :: "'c ckdb \<Rightarrow> (u8 list \<times> 'c ckdb) res" where
  "ck_revert s =
     (if ck_checkpoints s = [] then throw ''TypeError''
      else Inr (cp_root (last (ck_checkpoints s)), s\<lparr>ck_checkpoints := butlast (ck_checkpoints s)\<rparr>))"

text \<open>The loop over the checkpoints, latest first.\<close>

fun cps_find :: "jsstr \<Rightarrow> cp list \<Rightarrow> u8 list option option" where
  "cps_find k [] = None"
| "cps_find k (c # cs) = (case map_of (cp_map c) k of Some v \<Rightarrow> Some v | None \<Rightarrow> cps_find k cs)"

definition db_decode :: "lib \<Rightarrow> db_value option \<Rightarrow> u8 list option res" where
  "db_decode L v = (case v of None \<Rightarrow> Inr None | Some (VBytes b) \<Rightarrow> Inr (Some b)
     | Some (VStr h) \<Rightarrow> bindE (unprefixedHexToBytes L h) (\<lambda>b. Inr (Some b)))"

definition ck_get_below :: "lib \<Rightarrow> 'c lru \<Rightarrow> jsstr \<Rightarrow> 'c ckdb \<Rightarrow> (u8 list option \<times> 'c ckdb) res" where
  "ck_get_below L C keyHex s =
     (case cps_find keyHex (rev (ck_checkpoints s)) of
        Some v \<Rightarrow> Inr (v, s)
      | None \<Rightarrow>
          let val = mdb_get L (KStr keyHex) (ck_db s);
              st = (ck_stats s)\<lparr>db_reads := db_reads (ck_stats s) + 1\<rparr>;
              st = (if val \<noteq> None then st\<lparr>db_hits := db_hits st + 1\<rparr> else st) in
          bindE (db_decode L val) (\<lambda>returnValue.
            let s1 = s\<lparr>ck_stats := st, ck_cache := map_option (lru_set C keyHex returnValue) (ck_cache s)\<rparr> in
            Inr (returnValue, if ck_hasCheckpoints s1
              then s1\<lparr>ck_checkpoints := cps_set keyHex returnValue (ck_checkpoints s1)\<rparr> else s1)))"

definition ck_get :: "lib \<Rightarrow> 'c lru \<Rightarrow> u8 list \<Rightarrow> 'c ckdb \<Rightarrow> (u8 list option \<times> 'c ckdb) res" where
  "ck_get L C key s =
     (let keyHex = bytesToUnprefixedHex L key in
      case ck_cache s of
        None \<Rightarrow> ck_get_below L C keyHex s
      | Some c \<Rightarrow>
          let (val, c') = lru_get C keyHex c;
              s1 = s\<lparr>ck_cache := Some c', ck_stats := (ck_stats s)\<lparr>cache_reads := cache_reads (ck_stats s) + 1\<rparr>\<rparr> in
          if val \<noteq> None
          then Inr (val, s1\<lparr>ck_stats := (ck_stats s1)\<lparr>cache_hits := cache_hits (ck_stats s1) + 1\<rparr>\<rparr>)
          else ck_get_below L C keyHex s1)"

definition ck_stats_op :: "'c lru \<Rightarrow> bool \<Rightarrow> 'c ckdb \<Rightarrow> (db_stats \<times> nat) \<times> 'c ckdb" where
  "ck_stats_op C reset s =
     ((ck_stats s, case ck_cache s of None \<Rightarrow> 0 | Some c \<Rightarrow> lru_count C c),
      if reset then s\<lparr>ck_stats := zero_stats\<rparr> else s)"

definition ck_shallowCopy :: "'c option \<Rightarrow> 'c ckdb \<Rightarrow> 'c ckdb" where
  "ck_shallowCopy emptyCache s = ck_new (ck_db s) (ck_bytes s) emptyCache"

section \<open>Contents and snapshots\<close>

type_synonym kv_view = "jsstr \<Rightarrow> u8 list option"

definition disk :: "lib \<Rightarrow> mapdb \<Rightarrow> kv_view" where
  "disk L d k = (case db_decode L (map_of d k) of Inr v \<Rightarrow> v | Inl _ \<Rightarrow> None)"

text \<open>The contents at a list of checkpoints, latest first.\<close>

fun look_at :: "lib \<Rightarrow> mapdb \<Rightarrow> cp list \<Rightarrow> kv_view" where
  "look_at L d [] = disk L d"
| "look_at L d (c # cs) = (\<lambda>k. case map_of (cp_map c) k of Some v \<Rightarrow> v | None \<Rightarrow> look_at L d cs k)"

fun lowers :: "lib \<Rightarrow> mapdb \<Rightarrow> cp list \<Rightarrow> kv_view list" where
  "lowers L d [] = []"
| "lowers L d (c # cs) = look_at L d cs # lowers L d cs"

definition ck_look :: "lib \<Rightarrow> 'c ckdb \<Rightarrow> kv_view" where
  "ck_look L s = look_at L (ck_db s) (rev (ck_checkpoints s))"

definition ck_saved :: "lib \<Rightarrow> 'c ckdb \<Rightarrow> kv_view list" where
  "ck_saved L s = lowers L (ck_db s) (rev (ck_checkpoints s))"

definition good_map :: "kv_map \<Rightarrow> bool" where
  "good_map kv \<longleftrightarrow> distinct (map fst kv) \<and> fst ` set kv \<subseteq> range hex_bytes"

definition good_value :: "db_value \<Rightarrow> bool" where
  "good_value v = (case v of VBytes _ \<Rightarrow> True | VStr h \<Rightarrow> h \<in> range hex_bytes)"

definition ck_inv :: "'c ckdb \<Rightarrow> bool" where
  "ck_inv s \<longleftrightarrow> ck_cache s = None \<and> (\<forall>v \<in> ran (map_of (ck_db s)). good_value v) \<and>
     (\<forall>c \<in> set (ck_checkpoints s). good_map (cp_map c))"

definition upds :: "(jsstr \<times> u8 list option) list \<Rightarrow> kv_view \<Rightarrow> kv_view" where
  "upds kv f = fold (\<lambda>(k, v) f. f(k := v)) kv f"

lemma upds_distinct:
  "distinct (map fst kv) \<Longrightarrow> upds kv f = (\<lambda>k. case map_of kv k of Some v \<Rightarrow> v | None \<Rightarrow> f k)"
proof (induction kv arbitrary: f)
  case (Cons x kv)
  have "map_of kv (fst x) = None" using Cons.prems by (simp add: map_of_eq_None_iff image_image)
  with Cons show ?case
    by (cases x) (auto simp: upds_def fun_eq_iff split: option.splits)
qed (simp add: upds_def)

lemma unprefixed_hex_bytes [simp]:
  assumes "lib_ok L"
  shows "unprefixedHexToBytes L (hex_bytes b) = Inr b"
proof -
  have "120 \<notin> set (hex_bytes b)" using hex_bytes_digits [of 120 b] by (auto simp: hexdig_val_def)
  then have "take 2 (hex_bytes b) \<noteq> [48, 120]"
    by (metis in_set_takeD list.set_intros(1) list.set_intros(2))
  with assms show ?thesis by (simp add: unprefixedHexToBytes_def padToEven_def lib_okD)
qed

lemma disk_put: "good_value v \<Longrightarrow> lib_ok L \<Longrightarrow>
  disk L (mdb_put L (KStr k) v d) = (disk L d)(k := (case v of VBytes b \<Rightarrow> Some b
     | VStr h \<Rightarrow> (case unprefixedHexToBytes L h of Inr b \<Rightarrow> Some b | Inl _ \<Rightarrow> None)))"
  by (auto simp: disk_def mdb_put_def mdb_key_def update_conv' db_decode_def good_value_def fun_eq_iff
      split: db_value.splits)

lemma disk_del: "disk L (mdb_del L (KStr k) d) = (disk L d)(k := None)"
  by (auto simp: disk_def mdb_del_def mdb_key_def delete_conv' db_decode_def fun_eq_iff)

lemma cps_find_look: "(case cps_find k cs of Some v \<Rightarrow> v | None \<Rightarrow> disk L d k) = look_at L d cs k"
  by (induction cs) (auto split: option.splits)

lemma rev_cps_set: "cs \<noteq> [] \<Longrightarrow>
  rev (cps_set k v cs) = (hd (rev cs))\<lparr>cp_map := AList.update k v (cp_map (hd (rev cs)))\<rparr> # tl (rev cs)"
  by (cases cs rule: rev_exhaust) (auto simp: cps_set_def)

lemma look_cps_set: "cs \<noteq> [] \<Longrightarrow>
  look_at L d (rev (cps_set k v cs)) = (look_at L d (rev cs))(k := v) \<and>
  lowers L d (rev (cps_set k v cs)) = lowers L d (rev cs)"
  by (cases cs rule: rev_exhaust) (auto simp: rev_cps_set update_conv' fun_eq_iff)

lemma good_map_update: "good_map kv \<Longrightarrow> k \<in> range hex_bytes \<Longrightarrow> good_map (AList.update k v kv)"
  by (auto simp: good_map_def distinct_update dom_update)

lemma cps_set_good: "cs \<noteq> [] \<Longrightarrow> \<forall>c \<in> set cs. good_map (cp_map c) \<Longrightarrow> k \<in> range hex_bytes \<Longrightarrow>
  \<forall>c \<in> set (cps_set k v cs). good_map (cp_map c)"
  by (cases cs rule: rev_exhaust) (auto simp: cps_set_def good_map_update)

lemma cps_set_nonempty [simp]: "cps_set k v cs \<noteq> []"
  by (simp add: cps_set_def)

lemma fold_cps_set:
  "cs \<noteq> [] \<Longrightarrow> \<forall>c \<in> set cs. good_map (cp_map c) \<Longrightarrow> fst ` set kv \<subseteq> range hex_bytes \<Longrightarrow>
   look_at L d (rev (fold (\<lambda>(k, v). cps_set k v) kv cs)) = upds kv (look_at L d (rev cs)) \<and>
   lowers L d (rev (fold (\<lambda>(k, v). cps_set k v) kv cs)) = lowers L d (rev cs) \<and>
   (\<forall>c \<in> set (fold (\<lambda>(k, v). cps_set k v) kv cs). good_map (cp_map c))"
proof (induction kv arbitrary: cs)
  case (Cons x kv)
  obtain k v where x: "x = (k, v)" by (cases x)
  with Cons.prems have "k \<in> range hex_bytes" by auto
  with Cons.prems have "\<forall>c \<in> set (cps_set k v cs). good_map (cp_map c)" by (intro cps_set_good) auto
  with Cons.IH [of "cps_set k v cs"] Cons.prems look_cps_set [of cs L d k v] x
  show ?case by (simp add: upds_def fun_upd_def)
qed (simp add: upds_def)

section \<open>Every operation against the contents\<close>

datatype ck_op = CkPut "u8 list" "u8 list" | CkDel "u8 list" | CkGet "u8 list" | CkBatch "batch_op list"

definition ck_act :: "lib \<Rightarrow> 'c lru \<Rightarrow> ck_op \<Rightarrow> 'c ckdb \<Rightarrow> 'c ckdb res" where
  "ck_act L C x s = (case x of CkPut k v \<Rightarrow> Inr (ck_put L C k v s) | CkDel k \<Rightarrow> Inr (ck_del L C k s)
     | CkGet k \<Rightarrow> bindE (ck_get L C k s) (\<lambda>(_, s'). Inr s') | CkBatch ops \<Rightarrow> Inr (ck_batch L C ops s))"

definition ck_aact :: "lib \<Rightarrow> ck_op \<Rightarrow> kv_view \<Rightarrow> kv_view res" where
  "ck_aact L x f = Inr (case x of CkPut k v \<Rightarrow> f(bytesToUnprefixedHex L k := Some v)
     | CkDel k \<Rightarrow> f(bytesToUnprefixedHex L k := None) | CkGet k \<Rightarrow> f
     | CkBatch ops \<Rightarrow> upds (map (\<lambda>(k, v). (bytesToUnprefixedHex L k, v)) ops) f)"

abbreviation ck_ok :: "lib \<Rightarrow> 'c ckdb res \<Rightarrow> kv_view \<Rightarrow> kv_view list \<Rightarrow> bool" where
  "ck_ok L r f stk \<equiv> refines ck_inv (ck_look L) (ck_saved L) r (Inr f) stk"

lemma key_hex [simp]: "lib_ok L \<Longrightarrow> bytesToUnprefixedHex L k \<in> range hex_bytes"
  by (simp add: lib_okD)

lemma ck_set_top:
  assumes "ck_inv s" and "ck_checkpoints s \<noteq> []" and "k \<in> range hex_bytes"
  shows "ck_ok L (Inr (s\<lparr>ck_checkpoints := cps_set k v (ck_checkpoints s)\<rparr>)) ((ck_look L s)(k := v)) (ck_saved L s)"
  using assms cps_set_good [of "ck_checkpoints s" k v] look_cps_set [of "ck_checkpoints s" L "ck_db s" k v]
  by (simp add: ck_inv_def ck_look_def ck_saved_def)

lemma ran_update: "ran (map_of (AList.update k v d)) \<subseteq> insert v (ran (map_of d))"
  by (auto simp: update_conv' ran_def)

lemma ran_delete: "ran (map_of (AList.delete k d)) \<subseteq> ran (map_of d)"
  by (auto simp: delete_conv' ran_def)

lemma mdb_put_good: "good_value v \<Longrightarrow> \<forall>v \<in> ran (map_of d). good_value v \<Longrightarrow>
  \<forall>v \<in> ran (map_of (mdb_put L k v d)). good_value v"
  using ran_update [of "mdb_key L k" v d] by (auto simp: mdb_put_def)

lemma mdb_del_good: "\<forall>v \<in> ran (map_of d). good_value v \<Longrightarrow>
  \<forall>v \<in> ran (map_of (mdb_del L k d)). good_value v"
  using ran_delete [of "mdb_key L k" d] by (auto simp: mdb_del_def)

abbreviation enc_value :: "lib \<Rightarrow> bool \<Rightarrow> u8 list \<Rightarrow> db_value" where
  "enc_value L asBytes v \<equiv> if asBytes then VBytes v else VStr (bytesToUnprefixedHex L v)"

lemma good_enc: "lib_ok L \<Longrightarrow> good_value (enc_value L e v)"
  by (simp add: good_value_def)

lemma disk_put_enc: "lib_ok L \<Longrightarrow>
  disk L (mdb_put L (KStr k) (enc_value L e v) d) = (disk L d)(k := Some v)"
  by (cases e) (simp_all add: disk_put good_value_def lib_okD)

lemma ck_put_ok:
  assumes "lib_ok L" and "ck_inv s"
  shows "ck_ok L (Inr (ck_put L C k v s)) ((ck_look L s)(bytesToUnprefixedHex L k := Some v)) (ck_saved L s)"
proof (cases "ck_checkpoints s = []")
  case True
  with assms show ?thesis
    using mdb_put_good [OF good_enc [OF assms(1), of "ck_bytes s" v], of "ck_db s" L]
    by (simp add: ck_put_def ck_hasCheckpoints_def ck_inv_def ck_look_def ck_saved_def Let_def
        disk_put_enc del: fun_upd_apply)
next
  case False
  with ck_set_top [OF assms(2) False, where k = "bytesToUnprefixedHex L k" and L = L and v = "Some v"] assms(1)
  show ?thesis by (simp add: ck_put_def ck_hasCheckpoints_def)
qed

lemma ck_del_ok:
  assumes "lib_ok L" and "ck_inv s"
  shows "ck_ok L (Inr (ck_del L C k s)) ((ck_look L s)(bytesToUnprefixedHex L k := None)) (ck_saved L s)"
proof (cases "ck_checkpoints s = []")
  case True
  with assms show ?thesis
    using mdb_del_good [of "ck_db s" L]
    by (simp add: ck_del_def ck_hasCheckpoints_def ck_inv_def ck_look_def ck_saved_def Let_def
        disk_del del: fun_upd_apply)
next
  case False
  with ck_set_top [OF assms(2) False, where k = "bytesToUnprefixedHex L k" and L = L and v = None] assms(1)
  show ?thesis by (simp add: ck_del_def ck_hasCheckpoints_def)
qed

lemma mdb_batch_disk:
  assumes "lib_ok L"
  shows "\<forall>v \<in> ran (map_of d). good_value v \<Longrightarrow>
    disk L (mdb_batch L (map (\<lambda>(key, val). let k = KStr (bytesToUnprefixedHex L key) in
        case val of None \<Rightarrow> DbDel k | Some v \<Rightarrow> DbPut k (enc_value L e v)) ops) d)
      = upds (map (\<lambda>(k, v). (bytesToUnprefixedHex L k, v)) ops) (disk L d) \<and>
    (\<forall>v \<in> ran (map_of (mdb_batch L (map (\<lambda>(key, val). let k = KStr (bytesToUnprefixedHex L key) in
        case val of None \<Rightarrow> DbDel k | Some v \<Rightarrow> DbPut k (enc_value L e v)) ops) d)). good_value v)"
proof (induction ops arbitrary: d)
  case (Cons x ops)
  obtain k v where x: "x = (k, v)" by (cases x)
  show ?case
  proof (cases v)
    case None
    with x Cons.IH [OF mdb_del_good [OF Cons.prems]] show ?thesis
      by (simp add: Let_def upds_def disk_del del: if_split)
  next
    case (Some w)
    with x Cons.IH [OF mdb_put_good [OF good_enc [OF assms] Cons.prems]] show ?thesis
      by (simp add: Let_def upds_def disk_put_enc [OF assms] del: if_split)
  qed
qed (simp add: upds_def)

lemma ck_batch_ok:
  assumes "lib_ok L" and "ck_inv s"
  shows "ck_ok L (Inr (ck_batch L C ops s))
    (upds (map (\<lambda>(k, v). (bytesToUnprefixedHex L k, v)) ops) (ck_look L s)) (ck_saved L s)"
proof (cases "ck_checkpoints s = []")
  case True
  with assms mdb_batch_disk [OF assms(1), of "ck_db s" "ck_bytes s" ops] show ?thesis
    by (simp add: ck_batch_def ck_hasCheckpoints_def ck_inv_def ck_look_def ck_saved_def del: if_split)
next
  case False
  have "ck_ok L (Inr (fold (\<lambda>(key, val) s. case val of Some v \<Rightarrow> ck_put L C key v s | None \<Rightarrow> ck_del L C key s) ops s))
    (upds (map (\<lambda>(k, v). (bytesToUnprefixedHex L k, v)) ops) (ck_look L s)) (ck_saved L s)"
    using assms(2)
  proof (induction ops arbitrary: s)
    case (Cons x ops)
    obtain k v where x: "x = (k, v)" by (cases x)
    show ?case
    proof (cases v)
      case None
      with x ck_del_ok [OF assms(1) Cons.prems, of C k] Cons.IH [of "ck_del L C k s"] show ?thesis
        by (simp add: upds_def)
    next
      case (Some w)
      with x ck_put_ok [OF assms(1) Cons.prems, of C k w] Cons.IH [of "ck_put L C k w s"] show ?thesis
        by (simp add: upds_def)
    qed
  qed (simp add: upds_def)
  with False show ?thesis by (simp add: ck_batch_def ck_hasCheckpoints_def)
qed

lemma ck_get_ok:
  assumes "lib_ok L" and "ck_inv s"
  shows "\<exists>s'. ck_get L C k s = Inr (ck_look L s (bytesToUnprefixedHex L k), s') \<and>
    ck_ok L (Inr s') (ck_look L s) (ck_saved L s)"
proof -
  let ?k = "bytesToUnprefixedHex L k"
  have c: "ck_cache s = None" using assms(2) by (simp add: ck_inv_def)
  show ?thesis
  proof (cases "cps_find ?k (rev (ck_checkpoints s))")
    case (Some v)
    with assms(2) cps_find_look [of L "ck_db s" ?k "rev (ck_checkpoints s)"] c show ?thesis
      by (simp add: ck_get_def ck_get_below_def ck_look_def)
  next
    case None
    let ?v = "map_of (ck_db s) ?k"
    have "db_decode L ?v = Inr (disk L (ck_db s) ?k)"
    proof (cases ?v)
      case (Some w)
      then have "good_value w" using assms(2) by (auto simp: ck_inv_def ran_def)
      with Some assms(1) show ?thesis
        by (auto simp: disk_def db_decode_def good_value_def split: db_value.splits)
    qed (simp add: disk_def db_decode_def)
    moreover have look: "disk L (ck_db s) ?k = ck_look L s ?k"
      using None cps_find_look [of L "ck_db s" ?k "rev (ck_checkpoints s)"] by (simp add: ck_look_def)
    ultimately have dec: "db_decode L (mdb_get L (KStr ?k) (ck_db s)) = Inr (ck_look L s ?k)"
      by (simp add: mdb_get_def mdb_key_def)
    define st where "st = (let st = (ck_stats s)\<lparr>db_reads := db_reads (ck_stats s) + 1\<rparr> in
      if mdb_get L (KStr ?k) (ck_db s) \<noteq> None then st\<lparr>db_hits := db_hits st + 1\<rparr> else st)"
    define s1 where "s1 = s\<lparr>ck_stats := st, ck_cache := map_option (lru_set C ?k (ck_look L s ?k)) (ck_cache s)\<rparr>"
    have s1: "ck_inv s1" "ck_checkpoints s1 = ck_checkpoints s" "ck_db s1 = ck_db s"
      using assms(2) by (simp_all add: s1_def ck_inv_def)
    have g: "ck_get L C k s = Inr (ck_look L s ?k, if ck_hasCheckpoints s1
         then s1\<lparr>ck_checkpoints := cps_set ?k (ck_look L s ?k) (ck_checkpoints s1)\<rparr> else s1)"
      using None c dec by (simp add: ck_get_def ck_get_below_def Let_def s1_def st_def)
    have eq: "ck_look L s1 = ck_look L s" "ck_saved L s1 = ck_saved L s"
      using s1 by (simp_all add: ck_look_def ck_saved_def)
    show ?thesis
    proof (cases "ck_checkpoints s1 = []")
      case True
      with s1 g eq show ?thesis by (simp add: ck_hasCheckpoints_def)
    next
      case False
      with ck_set_top [OF s1(1) False, where k = ?k and L = L and v = "ck_look L s ?k"] s1 g eq assms(1) show ?thesis
        by (simp add: ck_hasCheckpoints_def)
    qed
  qed
qed

lemma ck_act_ok:
  assumes "lib_ok L" and "ck_inv s"
  shows "refines ck_inv (ck_look L) (ck_saved L) (ck_act L C x s) (ck_aact L x (ck_look L s)) (ck_saved L s)"
proof (cases x)
  case (CkGet k)
  with ck_get_ok [OF assms, of C k] show ?thesis by (auto simp: ck_act_def ck_aact_def)
next
  case (CkPut k v)
  with ck_put_ok [OF assms] show ?thesis by (simp add: ck_act_def ck_aact_def)
next
  case (CkDel k)
  with ck_del_ok [OF assms] show ?thesis by (simp add: ck_act_def ck_aact_def)
next
  case (CkBatch ops)
  with ck_batch_ok [OF assms] show ?thesis by (simp add: ck_act_def ck_aact_def)
qed

lemma keys_back:
  assumes "lib_ok L" and "fst ` set kv \<subseteq> range hex_bytes"
  shows "\<exists>ops. mapE (\<lambda>(key, val). bindE (unprefixedHexToBytes L key) (\<lambda>k. Inr (k, val))) kv = Inr ops \<and>
    map (\<lambda>(k, v). (bytesToUnprefixedHex L k, v)) ops = kv"
  using assms(2)
proof (induction kv)
  case (Cons x kv)
  then obtain b v where "x = (hex_bytes b, v)" by (cases x) auto
  with Cons show ?case using assms(1) by (auto simp: lib_okD)
qed simp

lemma ck_commit_ok:
  assumes "lib_ok L" and "ck_inv s" and "ck_checkpoints s \<noteq> []"
  shows "ck_ok L (ck_commit L C s) (ck_look L s) (tl (ck_saved L s))"
proof -
  obtain cs c where cs: "ck_checkpoints s = cs @ [c]"
    using assms(3) by (cases "ck_checkpoints s" rule: rev_exhaust) auto
  define s1 where "s1 = s\<lparr>ck_checkpoints := cs\<rparr>"
  have s1: "ck_inv s1" using assms(2) cs by (simp add: s1_def ck_inv_def)
  have kv: "distinct (map fst (cp_map c))" "fst ` set (cp_map c) \<subseteq> range hex_bytes"
    using assms(2) cs by (simp_all add: ck_inv_def good_map_def)
  have look: "ck_look L s = upds (cp_map c) (ck_look L s1)" "tl (ck_saved L s) = ck_saved L s1"
    using cs kv(1) by (simp_all add: ck_look_def ck_saved_def s1_def upds_distinct)
  show ?thesis
  proof (cases "cs = []")
    case True
    from keys_back [OF assms(1) kv(2)] obtain ops
      where ops: "mapE (\<lambda>(key, val). bindE (unprefixedHexToBytes L key) (\<lambda>k. Inr (k, val))) (cp_map c) = Inr ops"
        "map (\<lambda>(k, v). (bytesToUnprefixedHex L k, v)) ops = cp_map c" by blast
    have "ck_commit L C s = Inr (ck_batch L C ops s1)"
      using cs True ops(1) by (simp add: ck_commit_def Let_def ck_hasCheckpoints_def s1_def)
    with ck_batch_ok [OF assms(1) s1, of C ops] ops(2) look show ?thesis by simp
  next
    case False
    have "ck_commit L C s = Inr (s1\<lparr>ck_checkpoints := fold (\<lambda>(key, val). cps_set key val) (cp_map c) cs\<rparr>)"
      using cs False by (simp add: ck_commit_def Let_def ck_hasCheckpoints_def s1_def)
    moreover have "\<forall>c \<in> set cs. good_map (cp_map c)" using s1 by (simp add: s1_def ck_inv_def)
    ultimately show ?thesis
      using fold_cps_set [OF False _ kv(2), of L "ck_db s"] s1 look
      by (simp add: ck_inv_def ck_look_def ck_saved_def s1_def)
  qed
qed

definition ck_rvt :: "'c ckdb \<Rightarrow> 'c ckdb res" where
  "ck_rvt s = bindE (ck_revert s) (\<lambda>(_, s'). Inr s')"

lemma ck_checkpointed:
  assumes "lib_ok L"
  shows "checkpointed ck_inv (ck_look L) (ck_saved L) (ck_checkpoint root) (ck_commit L C) ck_rvt
    (ck_act L C) (ck_aact L)"
proof (unfold_locales, goal_cases)
  case (1 s)
  then show ?case
    by (simp add: ck_checkpoint_def ck_inv_def ck_look_def ck_saved_def good_map_def)
next
  case (2 s v vs)
  then have "ck_checkpoints s \<noteq> []" by (auto simp: ck_saved_def)
  from ck_commit_ok [OF assms 2(1) this, of C] 2(2) show ?case
    by (cases "ck_commit L C s") auto
next
  case (3 s v vs)
  then obtain cs c where "ck_checkpoints s = cs @ [c]"
    by (cases "ck_checkpoints s" rule: rev_exhaust) (auto simp: ck_saved_def)
  with 3 show ?case
    by (auto simp: ck_rvt_def ck_revert_def ck_inv_def ck_look_def ck_saved_def)
next
  case (4 s x)
  then show ?case by (rule ck_act_ok [OF assms])
qed

interpretation refdb: checkpointed ck_inv "ck_look ref_lib" "ck_saved ref_lib" "ck_checkpoint root"
  "ck_commit ref_lib C" ck_rvt "ck_act ref_lib C" "ck_aact ref_lib" for root and C :: "'c lru"
  by (rule ck_checkpointed) simp

section \<open>Properties\<close>

text \<open>C36. Without a cache the checkpointing database is a plain map under nested calls. Any call
  tree of puts, deletes, reads and batches, each call opening a checkpoint that is committed or
  reverted at its end, has the contents of the same tree over one map: reverted calls leave no
  trace, committed ones are merged into their caller and, at the outermost level, written to the
  database; and every read returns the current contents.\<close>

theorem checkpoint_db_calls:
  assumes "lib_ok L" and "ck_inv s"
  shows "refines ck_inv (ck_look L) (ck_saved L)
      (run_trace (ck_act L C) (ck_checkpoint root) (ck_commit L C) ck_rvt t s)
      (run_abs (ck_aact L) t (ck_look L s)) (ck_saved L s)
    \<and> (\<exists>s'. ck_get L C k s = Inr (ck_look L s (bytesToUnprefixedHex L k), s') \<and> ck_look L s' = ck_look L s)"
proof -
  have "refines ck_inv (ck_look L) (ck_saved L)
      (run_trace (ck_act L C) (ck_checkpoint root) (ck_commit L C) ck_rvt t s)
      (run_abs (ck_aact L) t (ck_look L s)) (ck_saved L s)"
    by (rule checkpointed.run_refines [OF ck_checkpointed [OF assms(1)] assms(2)])
  with ck_get_ok [OF assms, of C k] show ?thesis by auto
qed

text \<open>A cache that keeps everything.\<close>

definition map_lru :: "(jsstr \<Rightarrow> u8 list option) lru" where
  "map_lru = \<lparr>lru_get = (\<lambda>k c. (c k, c)), lru_set = (\<lambda>k v c. c(k := v)), lru_count = (\<lambda>c. 0)\<rparr>"

definition ck_empty :: "(jsstr \<Rightarrow> u8 list option) ckdb" where
  "ck_empty = ck_new [] False None"

theorem checkpoint_db_calls_witness:
  "refines ck_inv (ck_look ref_lib) (ck_saved ref_lib)
      (run_trace (ck_act ref_lib map_lru) (ck_checkpoint [0]) (ck_commit ref_lib map_lru) ck_rvt
        (Call [Op (CkPut [1] [2]), Call [Op (CkDel [1])] False] True) ck_empty)
      (run_abs (ck_aact ref_lib) (Call [Op (CkPut [1] [2]), Call [Op (CkDel [1])] False] True)
        (ck_look ref_lib ck_empty)) (ck_saved ref_lib ck_empty)
    \<and> (\<exists>s'. ck_get ref_lib map_lru [1] ck_empty
         = Inr (ck_look ref_lib ck_empty (bytesToUnprefixedHex ref_lib [1]), s')
         \<and> ck_look ref_lib s' = ck_look ref_lib ck_empty)"
  by (rule checkpoint_db_calls) (simp_all add: ck_empty_def ck_inv_def ck_new_def)

text \<open>C37. With a cache it is not: the cache is asked before the open checkpoints, and a \<open>put\<close>
  under a checkpoint does not reach it. For every database without open checkpoints and every cache that
  remembers the last value set, after a \<open>put\<close> of a key, a checkpoint and a \<open>put\<close> of another value for
  the key, whatever else was put under the checkpoint in between, the contents hold the second value and
  \<open>get\<close> answers the first one.\<close>

theorem checkpoint_db_stale_cache:
  assumes "\<And>k x c. fst (lru_get C k (lru_set C k (Some x) c)) = Some x"
    and "ck_checkpoints s = []" and "ck_cache s = Some c"
    and "t = fold (\<lambda>(k, x). ck_put L C k x) puts (ck_checkpoint root (ck_put L C key v s))"
  shows "ck_look L (ck_put L C key v' t) (bytesToUnprefixedHex L key) = Some v'
    \<and> (\<exists>s'. ck_get L C key (ck_put L C key v' t) = Inr (Some v, s'))"
proof -
  let ?k = "bytesToUnprefixedHex L key"
  have inner: "ck_hasCheckpoints (ck_put L C k x u) \<and> ck_cache (ck_put L C k x u) = ck_cache u"
    if "ck_hasCheckpoints u" for k x u
    using that by (simp add: ck_put_def ck_hasCheckpoints_def cps_set_def)
  have "ck_hasCheckpoints (fold (\<lambda>(k, x). ck_put L C k x) puts u) \<and>
      ck_cache (fold (\<lambda>(k, x). ck_put L C k x) puts u) = ck_cache u" if "ck_hasCheckpoints u" for u
    using that by (induction puts arbitrary: u) (auto simp: inner)
  moreover have "ck_hasCheckpoints (ck_checkpoint root (ck_put L C key v s))"
    "ck_cache (ck_checkpoint root (ck_put L C key v s)) = Some (lru_set C ?k (Some v) c)"
    using assms(2,3) by (simp_all add: ck_put_def ck_checkpoint_def ck_hasCheckpoints_def Let_def)
  ultimately have t: "ck_hasCheckpoints t" "ck_cache t = Some (lru_set C ?k (Some v) c)" using assms(4) by auto
  have "ck_look L (ck_put L C key v' t) ?k = Some v'"
    using t(1) by (simp add: ck_put_def ck_look_def cps_set_def Let_def update_conv')
  moreover have "\<exists>s'. ck_get L C key (ck_put L C key v' t) = Inr (Some v, s')"
    using t(2) inner [OF t(1), of key v'] assms(1) [of ?k v c]
    by (cases "lru_get C ?k (lru_set C ?k (Some v) c)") (simp add: ck_get_def Let_def)
  ultimately show ?thesis by blast
qed

theorem checkpoint_db_stale_cache_witness:
  "let s0 = ck_new [] False (Some (\<lambda>_. None));
       s2 = ck_put ref_lib map_lru [7] [2] (ck_put ref_lib map_lru [8] [3] (ck_checkpoint [0] (ck_put ref_lib map_lru [7] [1] s0))) in
   ck_look ref_lib s2 (bytesToUnprefixedHex ref_lib [7]) = Some [2]
   \<and> (\<exists>s3. ck_get ref_lib map_lru [7] s2 = Inr (Some [1], s3))"
  using checkpoint_db_stale_cache [of map_lru "ck_new [] False (Some (\<lambda>_. None))" "\<lambda>_. None"
      "ck_put ref_lib map_lru [8] [3] (ck_checkpoint [0] (ck_put ref_lib map_lru [7] [1] (ck_new [] False (Some (\<lambda>_. None)))))"
      ref_lib "[([8], [3])]" "[0]" "[7]" "[1]" "[2]"]
  by (simp add: map_lru_def ck_new_def Let_def)

end
