(* ===== verification/Account.thy ===== *)
theory Account
  imports Bytes
begin

text \<open>
  Accounts and addresses: \<open>packages/utils/src/account.ts\<close> and \<open>address.ts\<close>. A field that is
  not loaded (\<open>null\<close>) is \<open>None\<close>; a constructor argument also distinguishes \<open>undefined\<close>, which
  selects the default. The lemmas relate the RLP forms of an account to its fields and the slim
  form of the snap protocol to the full one.
\<close>

section \<open>Conversion of loosely typed values\<close>

datatype js_like = LNull | LUndef | LBytes "u8 list" | LStr jsstr | LNum int | LBig int

definition toBytes :: "lib \<Rightarrow> js_like \<Rightarrow> u8 list res" where
  "toBytes L v = (case v of
       LNull \<Rightarrow> Inr []
     | LUndef \<Rightarrow> Inr []
     | LBytes b \<Rightarrow> Inr b
     | LStr s \<Rightarrow> if \<not> isHexString s then throw ''Cannot convert string to Uint8Array.'' else hexToBytes L s
     | LNum i \<Rightarrow> intToBytes L i
     | LBig i \<Rightarrow>
         if i < 0 then throw ''Cannot convert negative bigint to Uint8Array.''
         else let n = int_to_hex i; n = (if odd (length n) then 48 # n else n) in
           unprefixedHexToBytes L n)"

definition intToUnpaddedBytes :: "lib \<Rightarrow> int \<Rightarrow> u8 list res" where
  "intToUnpaddedBytes L v = bindE (intToBytes L v) (\<lambda>b. Inr (unpadBytes b))"

section \<open>Accounts\<close>

definition KECCAK256_NULL :: "u8 list" where
  "KECCAK256_NULL = [0xc5, 0xd2, 0x46, 0x01, 0x86, 0xf7, 0x23, 0x3c, 0x92, 0x7e, 0x7d, 0xb2, 0xdc, 0xc7, 0x03, 0xc0,
     0xe5, 0x00, 0xb6, 0x53, 0xca, 0x82, 0x27, 0x3b, 0x7b, 0xfa, 0xd8, 0x04, 0x5d, 0x85, 0xa4, 0x70]"

definition KECCAK256_RLP :: "u8 list" where
  "KECCAK256_RLP = [0x56, 0xe8, 0x1f, 0x17, 0x1b, 0xcc, 0x55, 0xa6, 0xff, 0x83, 0x45, 0xe6, 0x92, 0xc0, 0xf8, 0x6e,
     0x5b, 0x48, 0xe0, 0x1b, 0x99, 0x6c, 0xad, 0xc0, 0x01, 0x62, 0x2f, 0xb5, 0xe3, 0x63, 0xb4, 0x21]"

record account =
  ac_nonce :: "int option"
  ac_balance :: "int option"
  ac_storageRoot :: "u8 list option"
  ac_codeHash :: "u8 list option"
  ac_codeSize :: "int option"
  ac_version :: "int option"

datatype 'a arg = Undef | Null | Val 'a

definition arg_or :: "'a \<Rightarrow> 'a arg \<Rightarrow> 'a option" where
  "arg_or d a = (case a of Undef \<Rightarrow> Some d | Null \<Rightarrow> None | Val x \<Rightarrow> Some x)"

text \<open>The getters throw on a field that is not loaded.\<close>

definition loaded :: "string \<Rightarrow> 'a option \<Rightarrow> 'a res" where
  "loaded field x = (case x of None \<Rightarrow> throw (field @ ''=null not loaded'') | Some v \<Rightarrow> Inr v)"

definition account_isContract :: "account \<Rightarrow> bool res" where
  "account_isContract a =
     (if ac_codeHash a = None \<and> ac_codeSize a = None
      then throw ''Insufficient data as codeHash=null and codeSize=null''
      else Inr ((ac_codeHash a \<noteq> None \<and> ac_codeHash a \<noteq> Some KECCAK256_NULL) \<or>
                (ac_codeSize a \<noteq> None \<and> ac_codeSize a \<noteq> Some 0)))"

definition account_validate :: "account \<Rightarrow> unit res" where
  "account_validate a =
     (if \<exists>n. ac_nonce a = Some n \<and> n < 0 then throw ''nonce must be greater than zero''
      else if \<exists>b. ac_balance a = Some b \<and> b < 0 then throw ''balance must be greater than zero''
      else if \<exists>r. ac_storageRoot a = Some r \<and> length r \<noteq> 32 then throw ''storageRoot must have a length of 32''
      else if \<exists>h. ac_codeHash a = Some h \<and> length h \<noteq> 32 then throw ''codeHash must have a length of 32''
      else if \<exists>c. ac_codeSize a = Some c \<and> c < 0 then throw ''codeSize must be greater than zero''
      else Inr ())"

text \<open>While the constructor asks \<open>isContract\<close>, the code size is still \<open>null\<close>.\<close>

definition account_new :: "int arg \<Rightarrow> int arg \<Rightarrow> u8 list arg \<Rightarrow> u8 list arg \<Rightarrow> int arg \<Rightarrow> int arg \<Rightarrow> account res" where
  "account_new nonce balance storageRoot codeHash codeSize version =
     (let a = \<lparr>ac_nonce = arg_or 0 nonce, ac_balance = arg_or 0 balance,
               ac_storageRoot = arg_or KECCAK256_RLP storageRoot,
               ac_codeHash = arg_or KECCAK256_NULL codeHash, ac_codeSize = None, ac_version = None\<rparr>;
          sz = arg_or 0 codeSize in
      bindE (if sz = None \<and> ac_codeHash a \<noteq> None
             then bindE (account_isContract a) (\<lambda>c. Inr (if \<not> c then Some 0 else sz))
             else Inr sz) (\<lambda>sz.
      let a' = a\<lparr>ac_codeSize := sz, ac_version := arg_or 0 version\<rparr> in
      bindE (account_validate a') (\<lambda>_. Inr a')))"

definition account_raw :: "lib \<Rightarrow> account \<Rightarrow> u8 list list res" where
  "account_raw L a =
     bindE (bindE (loaded ''nonce'' (ac_nonce a)) (bigIntToUnpaddedBytes L)) (\<lambda>n.
     bindE (bindE (loaded ''balance'' (ac_balance a)) (bigIntToUnpaddedBytes L)) (\<lambda>b.
     bindE (loaded ''storageRoot'' (ac_storageRoot a)) (\<lambda>r.
     bindE (loaded ''codeHash'' (ac_codeHash a)) (\<lambda>h. Inr [n, b, r, h]))))"

definition account_serialize :: "lib \<Rightarrow> account \<Rightarrow> u8 list res" where
  "account_serialize L a = bindE (account_raw L a) (\<lambda>r. rlp_encode (RArr (map RBytes r)))"

definition partial_item :: "u8 list \<Rightarrow> u8 list \<Rightarrow> ('a \<Rightarrow> u8 list res) \<Rightarrow> 'a option \<Rightarrow> rlp_input res" where
  "partial_item zeroEncoded oneEncoded f x = (case x of
       None \<Rightarrow> Inr (RArr [RBytes zeroEncoded])
     | Some v \<Rightarrow> bindE (f v) (\<lambda>b. Inr (RArr [RBytes oneEncoded, RBytes b])))"

definition account_serializeWithPartialInfo :: "lib \<Rightarrow> account \<Rightarrow> u8 list res" where
  "account_serializeWithPartialInfo L a =
     bindE (intToUnpaddedBytes L 0) (\<lambda>z.
     bindE (intToUnpaddedBytes L 1) (\<lambda>e.
     bindE (partial_item z e (bigIntToUnpaddedBytes L) (ac_nonce a)) (\<lambda>p1.
     bindE (partial_item z e (bigIntToUnpaddedBytes L) (ac_balance a)) (\<lambda>p2.
     bindE (partial_item z e Inr (ac_storageRoot a)) (\<lambda>p3.
     bindE (partial_item z e Inr (ac_codeHash a)) (\<lambda>p4.
     bindE (partial_item z e (intToUnpaddedBytes L) (ac_codeSize a)) (\<lambda>p5.
     bindE (partial_item z e (intToUnpaddedBytes L) (ac_version a)) (\<lambda>p6.
     rlp_encode (RArr [p1, p2, p3, p4, p5, p6])))))))))"

definition account_isEmpty :: "account \<Rightarrow> bool res" where
  "account_isEmpty a =
     (if ac_balance a \<noteq> None \<and> ac_balance a \<noteq> Some 0 then Inr False
      else bindE (if ac_nonce a = None
                  then bindE (loaded ''nonce'' (ac_nonce a)) (\<lambda>n. Inr (n \<noteq> 0)) else Inr False) (\<lambda>nonceTest.
      if nonceTest then Inr False
      else if ac_codeHash a \<noteq> None \<and> ac_codeHash a \<noteq> Some KECCAK256_NULL then Inr False
      else bindE (loaded ''balance'' (ac_balance a)) (\<lambda>b.
           if b \<noteq> 0 then Inr False
           else bindE (loaded ''nonce'' (ac_nonce a)) (\<lambda>n.
             if n \<noteq> 0 then Inr False
             else bindE (loaded ''codeHash'' (ac_codeHash a)) (\<lambda>h. Inr (h = KECCAK256_NULL))))))"

definition opt_arg :: "('a \<Rightarrow> 'b res) \<Rightarrow> 'a option \<Rightarrow> 'b arg res" where
  "opt_arg f x = (case x of None \<Rightarrow> Inr Undef | Some v \<Rightarrow> bindE (f v) (\<lambda>y. Inr (Val y)))"

definition like_opt :: "js_like \<Rightarrow> js_like option" where
  "like_opt v = (if v = LUndef then None else Some v)"

definition createAccount :: "lib \<Rightarrow> js_like \<Rightarrow> js_like \<Rightarrow> js_like \<Rightarrow> js_like \<Rightarrow> account res" where
  "createAccount L nonce balance storageRoot codeHash =
     (if nonce = LNull \<or> balance = LNull \<or> storageRoot = LNull \<or> codeHash = LNull
      then throw ''Partial fields not supported in fromAccountData''
      else
        bindE (opt_arg (\<lambda>v. bindE (toBytes L v) (bytesToBigInt L)) (like_opt nonce)) (\<lambda>n.
        bindE (opt_arg (\<lambda>v. bindE (toBytes L v) (bytesToBigInt L)) (like_opt balance)) (\<lambda>b.
        bindE (opt_arg (toBytes L) (like_opt storageRoot)) (\<lambda>r.
        bindE (opt_arg (toBytes L) (like_opt codeHash)) (\<lambda>h.
        account_new n b r h Undef Undef)))))"

text \<open>Destructuring a short array gives \<open>undefined\<close>: a missing nonce or balance is a
  \<open>TypeError\<close> of the conversion, a missing root or hash selects the default.\<close>

definition createAccountFromBytesArray :: "lib \<Rightarrow> u8 list list \<Rightarrow> account res" where
  "createAccountFromBytesArray L values =
     (let arg = (\<lambda>i. case at values i of None \<Rightarrow> Undef | Some b \<Rightarrow> Val b);
          big = (\<lambda>i. case at values i of None \<Rightarrow> throw ''TypeError'' | Some b \<Rightarrow> bytesToBigInt L b) in
      bindE (big 0) (\<lambda>n.
      bindE (big 1) (\<lambda>b.
      account_new (Val n) (Val b) (arg 2) (arg 3) Undef Undef)))"

text \<open>The cast \<open>as Uint8Array[]\<close> of the source is checked here: a nested list in the place of
  a field is a \<open>TypeError\<close>.\<close>

fun as_bytes :: "rlp_data \<Rightarrow> u8 list res" where
  "as_bytes (DBytes b) = Inr b"
| "as_bytes (DList _) = throw ''TypeError''"

definition createAccountFromRLP :: "lib \<Rightarrow> u8 list \<Rightarrow> account res" where
  "createAccountFromRLP L serialized =
     bindE (rlp_decode (RBytes serialized) False) (\<lambda>values.
     case values of
       Data (DList ds) \<Rightarrow> bindE (mapE as_bytes ds) (createAccountFromBytesArray L)
     | _ \<Rightarrow> throw ''Invalid serialized account input. Must be array'')"

definition createPartialAccount ::
    "lib \<Rightarrow> js_like \<Rightarrow> js_like \<Rightarrow> js_like \<Rightarrow> js_like \<Rightarrow> js_like \<Rightarrow> js_like \<Rightarrow> account res" where
  "createPartialAccount L nonce balance storageRoot codeHash codeSize version =
     (if nonce = LNull \<and> balance = LNull \<and> storageRoot = LNull \<and> codeHash = LNull \<and>
         codeSize = LNull \<and> version = LNull
      then throw ''All partial fields null''
      else
        bindE (bindE (toBytes L nonce) (bytesToBigInt L)) (\<lambda>n.
        bindE (bindE (toBytes L balance) (bytesToBigInt L)) (\<lambda>b.
        bindE (toBytes L storageRoot) (\<lambda>r.
        bindE (toBytes L codeHash) (\<lambda>h.
        bindE (bindE (toBytes L codeSize) (bytesToInt L)) (\<lambda>sz.
        bindE (bindE (toBytes L version) (bytesToInt L)) (\<lambda>v.
        account_new (Val n) (Val b) (Val r) (Val h) (Val sz) (Val v))))))))"

definition handleNullIndicator :: "lib \<Rightarrow> rlp_data list \<Rightarrow> u8 list option res" where
  "handleNullIndicator L values = (case at values 0 of
       None \<Rightarrow> Inr None
     | Some v0 \<Rightarrow>
         bindE (bindE (as_bytes v0) (bytesToInt L)) (\<lambda>nullIndicator.
         if nullIndicator = 0 then Inr None
         else if 1 < nullIndicator then throw ''Invalid isNullIndicator=''
         else if length values < 2 then throw ''Invalid values length=''
         else bindE (as_bytes (values ! 1)) (\<lambda>b. Inr (Some b))))"

fun as_list :: "rlp_data \<Rightarrow> rlp_data list res" where
  "as_list (DList ds) = Inr ds"
| "as_list (DBytes _) = throw ''Invalid partial encoding. Each item must be an array''"

text \<open>A seventh and later item is decoded and ignored; a missing one is \<open>undefined\<close>, whose
  conversion throws.\<close>

definition createPartialAccountFromRLP :: "lib \<Rightarrow> u8 list \<Rightarrow> account res" where
  "createPartialAccountFromRLP L serialized =
     bindE (rlp_decode (RBytes serialized) False) (\<lambda>values.
     case values of
       Data (DList ds) \<Rightarrow>
         bindE (mapE as_list ds) (\<lambda>items.
         bindE (mapE (handleNullIndicator L) items) (\<lambda>raws.
         if length raws < 6 then throw ''TypeError''
         else
           let field = (\<lambda>i. case raws ! i of None \<Rightarrow> LNull | Some b \<Rightarrow> LBytes b);
               num = (\<lambda>conv mk i. case raws ! i of None \<Rightarrow> Inr LNull
                       | Some b \<Rightarrow> bindE (conv b) (\<lambda>n. Inr (mk n))) in
           bindE (num (bytesToBigInt L) LBig 0) (\<lambda>nonce.
           bindE (num (bytesToBigInt L) LBig 1) (\<lambda>balance.
           bindE (num (bytesToInt L) LNum 4) (\<lambda>codeSize.
           bindE (num (bytesToInt L) LNum 5) (\<lambda>version.
           createPartialAccount L nonce balance (field 2) (field 3) codeSize version))))))
     | _ \<Rightarrow> throw ''Invalid serialized account input. Must be array'')"

section \<open>Slim accounts\<close>

definition accountBodyFromSlim :: "u8 list \<times> u8 list \<times> u8 list \<times> u8 list \<Rightarrow> u8 list list" where
  "accountBodyFromSlim = (\<lambda>(nonce, balance, storageRoot, codeHash).
     [nonce, balance, if length storageRoot = 0 then KECCAK256_RLP else storageRoot,
      if length codeHash = 0 then KECCAK256_NULL else codeHash])"

definition accountBodyToSlim :: "u8 list \<times> u8 list \<times> u8 list \<times> u8 list \<Rightarrow> u8 list list" where
  "accountBodyToSlim = (\<lambda>(nonce, balance, storageRoot, codeHash).
     [nonce, balance, if storageRoot = KECCAK256_RLP then [] else storageRoot,
      if codeHash = KECCAK256_NULL then [] else codeHash])"

definition accountBodyToRLP :: "u8 list \<times> u8 list \<times> u8 list \<times> u8 list \<Rightarrow> bool \<Rightarrow> u8 list res" where
  "accountBodyToRLP body couldBeSlim =
     rlp_encode (RArr (map RBytes (if couldBeSlim then accountBodyFromSlim body
       else (case body of (a, b, c, d) \<Rightarrow> [a, b, c, d]))))"

section \<open>Addresses\<close>

definition address_new :: "u8 list \<Rightarrow> u8 list res" where
  "address_new bytes = (if length bytes \<noteq> 20 then throw ''Invalid address length'' else Inr bytes)"

definition address_isZero :: "u8 list \<Rightarrow> bool" where
  "address_isZero bytes \<longleftrightarrow> bytes = replicate 20 0"

definition isPrecompileOrSystemAddress :: "lib \<Rightarrow> u8 list \<Rightarrow> bool res" where
  "isPrecompileOrSystemAddress L bytes =
     bindE (bytesToBigInt L bytes) (\<lambda>address. Inr (0 \<le> address \<and> address \<le> 0xffff))"

definition isValidAddress :: "jsstr \<Rightarrow> bool" where
  "isValidAddress s \<longleftrightarrow> take 2 s = [48, 120] \<and> length s = 42 \<and>
     list_all (\<lambda>c. hexdig_val c \<noteq> None) (drop 2 s)"

definition to_lower :: "nat \<Rightarrow> nat" where
  "to_lower c = (if 65 \<le> c \<and> c \<le> 90 then c + 32 else c)"

definition to_upper :: "nat \<Rightarrow> nat" where
  "to_upper c = (if 97 \<le> c \<and> c \<le> 122 then c - 32 else c)"

fun to_dec :: "nat \<Rightarrow> jsstr" where
  "to_dec n = (if n < 10 then [48 + n] else to_dec (n div 10) @ [48 + n mod 10])"

declare to_dec.simps [simp del]

text \<open>\<open>parseInt(undefined, 16)\<close>, past the end of the hash, is \<open>NaN\<close> and keeps the character.\<close>

definition toChecksumAddress :: "lib \<Rightarrow> jsstr \<Rightarrow> js_like option \<Rightarrow> jsstr res" where
  "toChecksumAddress L hexAddress eip1191ChainId =
     (if \<not> isHexString hexAddress then throw ''This method only supports 0x-prefixed hex strings''
      else
        let address = map to_lower (stripHexPrefix hexAddress) in
        bindE (case eip1191ChainId of None \<Rightarrow> Inr []
          | Some c \<Rightarrow> bindE (bindE (toBytes L c) (bytesToBigInt L))
              (\<lambda>chainId. Inr (to_dec (nat chainId) @ [48, 120]))) (\<lambda>prefix.
        let hash = bytesToUnprefixedHex L (keccak_256 L (rlp_utf8ToBytes (prefix @ address)));
            up = (\<lambda>i. case at hash i of None \<Rightarrow> False
                    | Some c \<Rightarrow> (case hexdig_val c of None \<Rightarrow> False | Some d \<Rightarrow> 8 \<le> d)) in
        Inr ([48, 120] @ map (\<lambda>i. if up i then to_upper (address ! i) else address ! i) [0..<length address])))"

definition isValidChecksumAddress :: "lib \<Rightarrow> jsstr \<Rightarrow> js_like option \<Rightarrow> bool res" where
  "isValidChecksumAddress L hexAddress eip1191ChainId =
     (if \<not> isValidAddress hexAddress then Inr False
      else bindE (toChecksumAddress L hexAddress eip1191ChainId) (\<lambda>c. Inr (c = hexAddress)))"

definition last_20 :: "u8 list \<Rightarrow> u8 list" where
  "last_20 b = drop (length b - 20) b"

definition generateAddress :: "lib \<Rightarrow> u8 list \<Rightarrow> u8 list \<Rightarrow> u8 list res" where
  "generateAddress L from nonce =
     bindE (bytesToBigInt L nonce) (\<lambda>n.
     bindE (rlp_encode (RArr [RBytes from, RBytes (if n = 0 then [] else nonce)])) (\<lambda>e.
     Inr (last_20 (keccak_256 L e))))"

definition generateAddress2 :: "lib \<Rightarrow> u8 list \<Rightarrow> u8 list \<Rightarrow> u8 list \<Rightarrow> u8 list res" where
  "generateAddress2 L from salt initCode =
     (if length from \<noteq> 20 then throw ''Expected from to be of length 20''
      else if length salt \<noteq> 32 then throw ''Expected salt to be of length 32''
      else bindE (hexToBytes L [48, 120, 102, 102]) (\<lambda>ff.
           Inr (last_20 (keccak_256 L (ff @ from @ salt @ keccak_256 L initCode)))))"

definition createContractAddress :: "lib \<Rightarrow> u8 list \<Rightarrow> int \<Rightarrow> u8 list res" where
  "createContractAddress L from nonce =
     bindE (bindE (bigIntToBytes L nonce) (generateAddress L from)) address_new"

definition createContractAddress2 :: "lib \<Rightarrow> u8 list \<Rightarrow> u8 list \<Rightarrow> u8 list \<Rightarrow> u8 list res" where
  "createContractAddress2 L from salt initCode = bindE (generateAddress2 L from salt initCode) address_new"

definition zeroAddress :: "lib \<Rightarrow> jsstr" where
  "zeroAddress L = bytesToHex L (replicate 20 0)"

definition isZeroAddress :: "lib \<Rightarrow> jsstr \<Rightarrow> bool" where
  "isZeroAddress L hexAddress \<longleftrightarrow> zeroAddress L = hexAddress"

section \<open>Lemmas\<close>

lemma length_len_prefix: "n < 256 ^ 8 \<Longrightarrow> length (len_prefix n off) \<le> 9"
  using length_be_bytes_le [of n 8] by (simp add: len_prefix_def)

lemma length_enc_bytes: "length bs < 256 ^ 8 \<Longrightarrow> length (enc (DBytes bs)) \<le> length bs + 9"
  using length_len_prefix [of "length bs" 128] by simp

lemma length_be_256: "n < 2 ^ 256 \<Longrightarrow> length (be_bytes n) \<le> 32"
  by (rule length_be_bytes_le) simp

lemma intToUnpaddedBytes_eq:
  assumes "lib_ok L" and "int n \<le> max_safe_integer"
  shows "intToUnpaddedBytes L (int n) = Inr (be_bytes n)"
proof -
  have n: "take 2 ([48, 120] @ to_hex n) = [48, 120]" by simp
  have d: "list_all (\<lambda>c. hexdig_val c \<noteq> None) (to_hex n)"
    using to_hex_digits by (simp add: list_all_iff)
  have pe: "padToEven s = pad_even s" for s by (simp add: padToEven_def pad_even_def)
  have "hexToBytes L ([48, 120] @ to_hex n) = Inr (if n = 0 then [0] else be_bytes n)"
    using d assms(1) by (simp add: hexToBytes_def stripHexPrefix_def isHexString_def pe lib_okD)
  with assms(2) show ?thesis
    by (simp add: intToUnpaddedBytes_def intToBytes_def intToHex_def int_to_hex_def unpadBytes_def
        stripZeros_be_bytes)
qed

text \<open>Fields within the consensus limits.\<close>

definition word_opt :: "int option \<Rightarrow> bool" where
  "word_opt x = (case x of None \<Rightarrow> True | Some v \<Rightarrow> 0 \<le> v \<and> v < 2 ^ 256)"

definition hash_opt :: "u8 list option \<Rightarrow> bool" where
  "hash_opt x = (case x of None \<Rightarrow> True | Some v \<Rightarrow> length v = 32)"

lemma bigIntToUnpadded_word:
  assumes "lib_ok L" and "0 \<le> v" and "v < 2 ^ 256"
  shows "bigIntToUnpaddedBytes L v = Inr (be_bytes (nat v)) \<and> length (be_bytes (nat v)) \<le> 32"
proof -
  have "nat v < 2 ^ 256" using assms(2,3) by (simp add: nat_less_iff)
  then show ?thesis
    using bigIntToUnpaddedBytes_eq [OF assms(1), of "nat v"] assms(2) length_be_256 by simp
qed

lemma serialize_eq:
  assumes "lib_ok L" and "0 \<le> n" and "n < 2 ^ 256" and "0 \<le> b" and "b < 2 ^ 256"
    and "length r = 32" and "length h = 32"
    and "ds = map DBytes [be_bytes (nat n), be_bytes (nat b), r, h]"
  shows "rlp_encode (RArr (map RBytes [be_bytes (nat n), be_bytes (nat b), r, h])) = Inr (enc (DList ds))
    \<and> rlp_decode (RBytes (enc (DList ds))) False = Inr (Data (DList ds))"
proof -
  have l: "length (be_bytes (nat n)) \<le> 32" "length (be_bytes (nat b)) \<le> 32"
    using bigIntToUnpadded_word [OF assms(1)] assms(2-5) by blast+
  then have "length (concat (map enc ds)) \<le> 164"
    using length_enc_bytes [of "be_bytes (nat n)"] length_enc_bytes [of "be_bytes (nat b)"]
      length_enc_bytes [of r] length_enc_bytes [of h] assms(6-8)
    by (simp del: enc.simps)
  moreover from this have "length (len_prefix (length (concat (map enc ds))) 192) \<le> 9"
    by (intro length_len_prefix) simp
  ultimately have "length (enc (DList ds)) < 256 ^ 8" by (simp add: Let_def)
  with rlp_encode_items [of ds] rlp_decode_enc [of "DList ds"] assms(8) show ?thesis
    by (simp del: enc.simps)
qed

section \<open>Properties\<close>

text \<open>C39. RLP round trip of accounts. A loaded account within the consensus limits serialises, and
  creating an account from the bytes gives one with the same nonce, balance, storage root and code
  hash; code size and version are not encoded and come back as 0. An account in which any of the four
  encoded fields is not loaded does not serialise; when it is the only one, the error names it.\<close>

theorem account_rlp_roundtrip:
  assumes "lib_ok L" and "0 \<le> n" and "n < 2 ^ 256" and "0 \<le> b" and "b < 2 ^ 256"
    and "length r = 32" and "length h = 32"
    and "ac_nonce a = Some n" and "ac_balance a = Some b" and "ac_storageRoot a = Some r"
    and "ac_codeHash a = Some h"
  shows "\<exists>bs. account_serialize L a = Inr bs \<and> createAccountFromRLP L bs =
      Inr (a\<lparr>ac_codeSize := Some 0, ac_version := Some 0\<rparr>)
    \<and> account_serialize L (a\<lparr>ac_nonce := None\<rparr>) = throw ''nonce=null not loaded''
    \<and> account_serialize L (a\<lparr>ac_balance := None\<rparr>) = throw ''balance=null not loaded''
    \<and> account_serialize L (a\<lparr>ac_storageRoot := None\<rparr>) = throw ''storageRoot=null not loaded''
    \<and> account_serialize L (a\<lparr>ac_codeHash := None\<rparr>) = throw ''codeHash=null not loaded''
    \<and> (\<forall>x. None \<in> {ac_nonce x, ac_balance x} \<or> None \<in> {ac_storageRoot x, ac_codeHash x} \<longrightarrow>
        (\<exists>e. account_serialize L x = Inl e))"
proof -
  let ?ds = "map DBytes [be_bytes (nat n), be_bytes (nat b), r, h]"
  have raw: "account_raw L a = Inr [be_bytes (nat n), be_bytes (nat b), r, h]"
    using bigIntToUnpadded_word [OF assms(1)] assms(2-5,8-11)
    by (simp add: account_raw_def loaded_def)
  have s: "account_serialize L a = Inr (enc (DList ?ds))"
    using raw serialize_eq [OF assms(1-7) refl] by (simp add: account_serialize_def del: enc.simps)
  have d: "createAccountFromRLP L (enc (DList ?ds)) = createAccountFromBytesArray L
      [be_bytes (nat n), be_bytes (nat b), r, h]"
    using serialize_eq [OF assms(1-7) refl] by (simp add: createAccountFromRLP_def del: enc.simps)
  have c: "createAccountFromBytesArray L [be_bytes (nat n), be_bytes (nat b), r, h] =
      Inr (a\<lparr>ac_codeSize := Some 0, ac_version := Some 0\<rparr>)"
    using assms by (cases a)
      (simp add: createAccountFromBytesArray_def at_def account_new_def arg_or_def account_validate_def Let_def)
  have x: "account_serialize L (a\<lparr>ac_nonce := None\<rparr>) = throw ''nonce=null not loaded''"
    "account_serialize L (a\<lparr>ac_balance := None\<rparr>) = throw ''balance=null not loaded''"
    "account_serialize L (a\<lparr>ac_storageRoot := None\<rparr>) = throw ''storageRoot=null not loaded''"
    "account_serialize L (a\<lparr>ac_codeHash := None\<rparr>) = throw ''codeHash=null not loaded''"
    using bigIntToUnpadded_word [OF assms(1)] assms(2-5,8-11)
    by (simp_all add: account_serialize_def account_raw_def loaded_def)
  have y: "\<exists>e. account_serialize L x = Inl e"
    if "None \<in> {ac_nonce x, ac_balance x} \<or> None \<in> {ac_storageRoot x, ac_codeHash x}" for x
  proof (cases "account_serialize L x")
    case (Inr bs)
    then show ?thesis
      using that by (auto simp: account_serialize_def account_raw_def loaded_def bindE_eq_Inr split: option.splits)
  qed simp
  show ?thesis
    using s d c x y by (simp del: enc.simps)
qed

theorem account_rlp_roundtrip_witness:
  "let a = \<lparr>ac_nonce = Some 3, ac_balance = Some 1000, ac_storageRoot = Some KECCAK256_RLP,
     ac_codeHash = Some KECCAK256_NULL, ac_codeSize = Some 0, ac_version = Some 0\<rparr> in
   (\<exists>bs. account_serialize ref_lib a = Inr bs \<and> createAccountFromRLP ref_lib bs = Inr a)
   \<and> account_serialize ref_lib (a\<lparr>ac_codeHash := None\<rparr>) = throw ''codeHash=null not loaded''"
proof -
  have l: "length KECCAK256_RLP = 32" "length KECCAK256_NULL = 32" by (simp_all add: KECCAK256_RLP_def KECCAK256_NULL_def)
  show ?thesis
  unfolding Let_def
  using account_rlp_roundtrip [of ref_lib 3 1000 KECCAK256_RLP KECCAK256_NULL
      "\<lparr>ac_nonce = Some 3, ac_balance = Some 1000, ac_storageRoot = Some KECCAK256_RLP,
        ac_codeHash = Some KECCAK256_NULL, ac_codeSize = Some 0, ac_version = Some 0\<rparr>"]
    l by auto
qed

text \<open>Partial accounts do not survive. \<open>createPartialAccount\<close> is documented to retain \<open>null\<close>
  for fields that are not available, but it converts each \<open>null\<close> to an empty byte array first:
  a missing nonce, balance, code size or version becomes zero, and a missing storage root or code
  hash makes the constructor throw. And \<open>isEmpty\<close>, meant to decide partial accounts without
  their nonce, throws on each of them whose balance is zero or missing.\<close>

theorem partial_account_nulls:
  assumes "lib_ok L"
  shows "(sr \<noteq> LNull \<or> ch \<noteq> LNull \<longrightarrow> createPartialAccount L LNull LNull sr ch LNull LNull =
        bindE (toBytes L sr) (\<lambda>r. bindE (toBytes L ch) (\<lambda>h.
          account_new (Val 0) (Val 0) (Val r) (Val h) (Val 0) (Val 0))))
    \<and> createPartialAccount L (LBig 1) (LBig 2) LNull (LBytes KECCAK256_NULL) (LNum 0) (LNum 0)
        = throw ''storageRoot must have a length of 32''
    \<and> (ac_nonce a = None \<and> (ac_balance a = None \<or> ac_balance a = Some 0) \<longrightarrow>
        account_isEmpty a = throw ''nonce=null not loaded'')"
proof (intro conjI impI)
  assume "sr \<noteq> LNull \<or> ch \<noteq> LNull"
  then show "createPartialAccount L LNull LNull sr ch LNull LNull =
        bindE (toBytes L sr) (\<lambda>r. bindE (toBytes L ch) (\<lambda>h.
          account_new (Val 0) (Val 0) (Val r) (Val h) (Val 0) (Val 0)))"
    using assms by (auto simp: createPartialAccount_def toBytes_def bytesToInt_def max_safe_integer_def)
next
  have n: "unprefixedHexToBytes L [48, 49] = Inr [1]" "unprefixedHexToBytes L [48, 50] = Inr [2]"
    using lib_okD(2) [OF assms, of "[1]"] lib_okD(2) [OF assms, of "[2]"]
    by (simp_all add: unprefixedHexToBytes_def padToEven_def byte_hex_def hexdig_def)
  have i: "intToBytes L 0 = Inr [0]"
    using hexToBytes_number [OF assms, of 0]
    by (simp add: intToBytes_def intToHex_def int_to_hex_def max_safe_integer_def to_hex_small
        hexdig_def padToEven_def hexToBytes_def stripHexPrefix_def isHexString_def hexdig_val_def)
  show "createPartialAccount L (LBig 1) (LBig 2) LNull (LBytes KECCAK256_NULL) (LNum 0) (LNum 0)
        = throw ''storageRoot must have a length of 32''"
    using assms n i
    by (simp add: createPartialAccount_def toBytes_def int_to_hex_def to_hex_small hexdig_def
        bytesToInt_def max_safe_integer_def account_new_def arg_or_def account_validate_def Let_def)
next
  assume "ac_nonce a = None \<and> (ac_balance a = None \<or> ac_balance a = Some 0)"
  then show "account_isEmpty a = throw ''nonce=null not loaded''"
    by (auto simp: account_isEmpty_def loaded_def)
qed

theorem partial_account_nulls_witness:
  "createPartialAccount ref_lib (LBig 1) (LBig 2) LNull (LBytes KECCAK256_NULL) (LNum 0) (LNum 0)
     = throw ''storageRoot must have a length of 32''
   \<and> createPartialAccount ref_lib LNull LNull (LBytes KECCAK256_RLP) (LBytes KECCAK256_NULL) LNull LNull
     = bindE (toBytes ref_lib (LBytes KECCAK256_RLP)) (\<lambda>r. bindE (toBytes ref_lib (LBytes KECCAK256_NULL)) (\<lambda>h.
          account_new (Val 0) (Val 0) (Val r) (Val h) (Val 0) (Val 0)))
   \<and> account_isEmpty \<lparr>ac_nonce = None, ac_balance = Some 0, ac_storageRoot = None,
       ac_codeHash = Some KECCAK256_RLP, ac_codeSize = None, ac_version = None\<rparr>
     = throw ''nonce=null not loaded''"
  using partial_account_nulls [OF lib_ok_ref, of "LBytes KECCAK256_RLP" "LBytes KECCAK256_NULL"
      "\<lparr>ac_nonce = None, ac_balance = Some 0, ac_storageRoot = None,
       ac_codeHash = Some KECCAK256_RLP, ac_codeSize = None, ac_version = None\<rparr>"]
  by simp

section \<open>Checksummed addresses\<close>

lemma hexdig_val_lower: "hexdig_val c \<noteq> None \<Longrightarrow> hexdig_val (to_lower c) = hexdig_val c"
  by (auto simp: hexdig_val_def to_lower_def split: if_splits)

lemma hexdig_val_upper: "hexdig_val c \<noteq> None \<Longrightarrow> hexdig_val (to_upper c) = hexdig_val c"
  by (auto simp: hexdig_val_def to_upper_def split: if_splits)

lemma lower_idem: "to_lower (to_lower c) = to_lower c"
  by (simp add: to_lower_def)

lemma lower_upper: "to_lower (to_upper (to_lower c)) = to_lower c" if "hexdig_val c \<noteq> None"
  using that by (auto simp: hexdig_val_def to_lower_def to_upper_def split: if_splits)

text \<open>Checksums. For a syntactically valid address (and no chain id) the checksummed form
  exists, differs from it in the case of letters only, is itself a valid address, passes
  \<open>isValidChecksumAddress\<close>, and is the only string with those letters that does.\<close>

theorem checksum_address:
  assumes "isValidAddress s"
  shows "\<exists>c. toChecksumAddress L s None = Inr c \<and> isValidAddress c
    \<and> map to_lower (drop 2 c) = map to_lower (drop 2 s)
    \<and> isValidChecksumAddress L c None = Inr True
    \<and> (\<forall>c'. map to_lower (drop 2 c') = map to_lower (drop 2 s) \<longrightarrow> isValidChecksumAddress L c' None = Inr True
          \<longrightarrow> c' = c)"
proof -
  define lo where "lo = map to_lower (drop 2 s)"
  have s: "isHexString s" "length lo = 40" "\<And>i. i < 40 \<Longrightarrow> hexdig_val (lo ! i) \<noteq> None"
    using assms by (auto simp: isValidAddress_def isHexString_def lo_def list_all_length hexdig_val_lower)
  define up where "up = (\<lambda>i. case at (bytesToUnprefixedHex L (keccak_256 L (rlp_utf8ToBytes lo))) i of
      None \<Rightarrow> False | Some c \<Rightarrow> (case hexdig_val c of None \<Rightarrow> False | Some d \<Rightarrow> 8 \<le> d))"
  define ck where "ck = map (\<lambda>i. if up i then to_upper (lo ! i) else lo ! i) [0..<length lo]"
  have form: "toChecksumAddress L x None = Inr ([48, 120] @ ck)"
    if "isHexString x" "map to_lower (drop 2 x) = lo" for x
    using that by (simp add: toChecksumAddress_def stripHexPrefix_def ck_def up_def Let_def)
  have lo_ck: "map to_lower ck = lo"
  proof (rule nth_equalityI)
    fix i assume "i < length (map to_lower ck)"
    then have i: "i < 40" "lo ! i = to_lower (s ! (2 + i))" "hexdig_val (s ! (2 + i)) \<noteq> None"
      using s(2) assms by (auto simp: ck_def lo_def isValidAddress_def list_all_length)
    then show "map to_lower ck ! i = lo ! i"
      using s(2) by (simp add: ck_def lower_idem lower_upper)
  qed (simp add: ck_def)
  have len: "length ck = 40" using s(2) by (simp add: ck_def)
  have dig: "list_all (\<lambda>c. hexdig_val c \<noteq> None) ck"
    using s by (simp add: ck_def list_all_length hexdig_val_upper)
  have v: "isValidAddress ([48, 120] @ ck)" "isHexString ([48, 120] @ ck)"
    using len dig by (simp_all add: isValidAddress_def isHexString_def)
  have ok: "isValidChecksumAddress L ([48, 120] @ ck) None = Inr True"
    using form [OF v(2)] v(1) lo_ck by (simp add: isValidChecksumAddress_def)
  have uniq: "c' = [48, 120] @ ck"
    if "map to_lower (drop 2 c') = lo" "isValidChecksumAddress L c' None = Inr True" for c'
  proof -
    have "isValidAddress c'" using that(2) by (auto simp: isValidChecksumAddress_def split: if_splits)
    then have "isHexString c'" by (simp add: isValidAddress_def isHexString_def)
    from form [OF this that(1)] that(2) show ?thesis
      by (auto simp: isValidChecksumAddress_def split: if_splits)
  qed
  from form [OF s(1)] v(1) lo_ck ok uniq show ?thesis by (auto simp: lo_def)
qed

theorem checksum_address_witness:
  "\<exists>c. toChecksumAddress ref_lib ([48, 120] @ replicate 40 97) None = Inr c
     \<and> isValidChecksumAddress ref_lib c None = Inr True"
  using checksum_address [of "[48, 120] @ replicate 40 97" ref_lib]
  by (auto simp: isValidAddress_def hexdig_val_def list_all_iff)

text \<open>Expanding the slim form of an account body gives back the body, for every
  body whose root and code hash are present, whether or not they are the two empty hashes.\<close>

theorem slim_roundtrip:
  assumes "r \<noteq> []" and "h \<noteq> []"
  shows "\<exists>r' h'. accountBodyToSlim (n, b, r, h) = [n, b, r', h'] \<and>
    accountBodyFromSlim (n, b, r', h') = [n, b, r, h] \<and> accountBodyFromSlim (n, b, r, h) = [n, b, r, h]"
  using assms by (auto simp: accountBodyToSlim_def accountBodyFromSlim_def KECCAK256_RLP_def KECCAK256_NULL_def)

theorem slim_roundtrip_witness:
  "\<exists>r' h'. accountBodyToSlim ([1], [2], KECCAK256_RLP, [3]) = [[1], [2], r', h'] \<and>
    accountBodyFromSlim ([1], [2], r', h') = [[1], [2], KECCAK256_RLP, [3]]"
  using slim_roundtrip [of KECCAK256_RLP "[3]" "[1]" "[2]"] by (auto simp: KECCAK256_RLP_def)

end
