(* ===== verification/SimpleState.thy ===== *)
theory SimpleState
  imports Account Checkpoints
begin

text \<open>
  The default state manager of the virtual machine, \<open>packages/state-manager/src/simpleStateManager.ts\<close>,
  with \<open>modifyAccountFields\<close> of \<open>util.ts\<close> and the original-storage cache of
  \<open>cache/originalStorageCache.ts\<close>. Each of its three stacks holds one map per open checkpoint.
  A stored \<open>undefined\<close> is \<open>Some None\<close>; reading it is the same as reading a missing key. The
  manager satisfies the contract of \<open>Checkpoints\<close>.
\<close>

record account_fields =
  af_nonce :: "int option"
  af_balance :: "int option"
  af_storageRoot :: "u8 list option"
  af_codeHash :: "u8 list option"
  af_codeSize :: "int option"

definition default_account :: account where
  "default_account = \<lparr>ac_nonce = Some 0, ac_balance = Some 0, ac_storageRoot = Some KECCAK256_RLP,
     ac_codeHash = Some KECCAK256_NULL, ac_codeSize = Some 0, ac_version = Some 0\<rparr>"

lemma default_account_new: "account_new Undef Undef Undef Undef Undef Undef = Inr default_account"
  by (simp add: account_new_def arg_or_def account_validate_def default_account_def Let_def
      KECCAK256_RLP_def KECCAK256_NULL_def)

text \<open>\<open>accountFields.x ?? account.x\<close>: the getter is called only without a new value.\<close>

definition new_or :: "string \<Rightarrow> 'a option \<Rightarrow> 'a option \<Rightarrow> 'a res" where
  "new_or field x old = (case x of Some v \<Rightarrow> Inr v | None \<Rightarrow> loaded field old)"

definition modify_fields :: "account_fields \<Rightarrow> account \<Rightarrow> account res" where
  "modify_fields f a =
     bindE (new_or ''nonce'' (af_nonce f) (ac_nonce a)) (\<lambda>n.
     bindE (new_or ''balance'' (af_balance f) (ac_balance a)) (\<lambda>b.
     bindE (new_or ''storageRoot'' (af_storageRoot f) (ac_storageRoot a)) (\<lambda>r.
     bindE (new_or ''codeHash'' (af_codeHash f) (ac_codeHash a)) (\<lambda>h.
     bindE (new_or ''codeSize'' (af_codeSize f) (ac_codeSize a)) (\<lambda>c.
     Inr (a\<lparr>ac_nonce := Some n, ac_balance := Some b, ac_storageRoot := Some r,
            ac_codeHash := Some h, ac_codeSize := Some c\<rparr>))))))"

type_synonym 'v smap = "jsstr \<Rightarrow> 'v option"

record simple_state =
  ss_accounts :: "account option smap list"
  ss_codes :: "u8 list smap list"
  ss_storages :: "u8 list smap list"
  ss_original :: "u8 list smap smap"

definition top :: "'v smap list \<Rightarrow> 'v smap" where
  "top st = (if st = [] then (\<lambda>_. None) else last st)"

definition set_top :: "'v smap list \<Rightarrow> jsstr \<Rightarrow> 'v \<Rightarrow> 'v smap list res" where
  "set_top st k v = (if st = [] then throw ''TypeError'' else Inr (butlast st @ [(last st)(k := Some v)]))"

definition ss_checkpoint :: "simple_state \<Rightarrow> simple_state" where
  "ss_checkpoint s = s\<lparr>ss_accounts := ss_accounts s @ [top (ss_accounts s)],
     ss_codes := ss_codes s @ [top (ss_codes s)], ss_storages := ss_storages s @ [top (ss_storages s)]\<rparr>"

definition ss_new :: simple_state where
  "ss_new = ss_checkpoint \<lparr>ss_accounts = [], ss_codes = [], ss_storages = [], ss_original = (\<lambda>_. None)\<rparr>"

text \<open>With no frame at all the source throws; the stacks are non-empty in every state it builds.\<close>

definition ss_getAccount :: "lib \<Rightarrow> u8 list \<Rightarrow> simple_state \<Rightarrow> account option" where
  "ss_getAccount L address s = Option.bind (top (ss_accounts s) (bytesToHex L address)) id"

definition ss_putAccount :: "lib \<Rightarrow> u8 list \<Rightarrow> account option \<Rightarrow> simple_state \<Rightarrow> simple_state res" where
  "ss_putAccount L address acc s =
     bindE (set_top (ss_accounts s) (bytesToHex L address) acc) (\<lambda>st. Inr (s\<lparr>ss_accounts := st\<rparr>))"

definition ss_deleteAccount :: "lib \<Rightarrow> u8 list \<Rightarrow> simple_state \<Rightarrow> simple_state res" where
  "ss_deleteAccount L address s =
     bindE (set_top (ss_accounts s) (bytesToHex L address) None) (\<lambda>st. Inr (s\<lparr>ss_accounts := st\<rparr>))"

definition ss_modifyAccountFields :: "lib \<Rightarrow> u8 list \<Rightarrow> account_fields \<Rightarrow> simple_state \<Rightarrow> simple_state res" where
  "ss_modifyAccountFields L address f s =
     (let acc = (case ss_getAccount L address s of None \<Rightarrow> default_account | Some a \<Rightarrow> a) in
      bindE (modify_fields f acc) (\<lambda>a. ss_putAccount L address (Some a) s))"

definition ss_getCode :: "lib \<Rightarrow> u8 list \<Rightarrow> simple_state \<Rightarrow> u8 list" where
  "ss_getCode L address s = (case top (ss_codes s) (bytesToHex L address) of None \<Rightarrow> [] | Some c \<Rightarrow> c)"

definition ss_putCode :: "lib \<Rightarrow> u8 list \<Rightarrow> u8 list \<Rightarrow> simple_state \<Rightarrow> simple_state res" where
  "ss_putCode L address val s =
     bindE (set_top (ss_codes s) (bytesToHex L address) val) (\<lambda>st.
     let s1 = s\<lparr>ss_codes := st\<rparr> in
     bindE (if ss_getAccount L address s1 = None
            then ss_putAccount L address (Some default_account) s1 else Inr s1) (\<lambda>s2.
     ss_modifyAccountFields L address
       \<lparr>af_nonce = None, af_balance = None, af_storageRoot = None,
        af_codeHash = Some (keccak_256 L val), af_codeSize = None\<rparr> s2))"

definition ss_getCodeSize :: "lib \<Rightarrow> u8 list \<Rightarrow> simple_state \<Rightarrow> nat" where
  "ss_getCodeSize L address s = length (ss_getCode L address s)"

definition storage_key :: "lib \<Rightarrow> u8 list \<Rightarrow> u8 list \<Rightarrow> jsstr" where
  "storage_key L address key = bytesToHex L address @ [95] @ bytesToHex L key"

definition ss_getStorage :: "lib \<Rightarrow> u8 list \<Rightarrow> u8 list \<Rightarrow> simple_state \<Rightarrow> u8 list" where
  "ss_getStorage L address key s =
     (case top (ss_storages s) (storage_key L address key) of None \<Rightarrow> [] | Some v \<Rightarrow> v)"

definition ss_putStorage :: "lib \<Rightarrow> u8 list \<Rightarrow> u8 list \<Rightarrow> u8 list \<Rightarrow> simple_state \<Rightarrow> simple_state res" where
  "ss_putStorage L address key val s =
     bindE (set_top (ss_storages s) (storage_key L address key) val) (\<lambda>st. Inr (s\<lparr>ss_storages := st\<rparr>))"

text \<open>\<open>splice(-2, 1)\<close> removes the last but one element, or the only one.\<close>

definition splice_m2 :: "'a list \<Rightarrow> 'a list" where
  "splice_m2 xs = (if length xs \<le> 1 then [] else take (length xs - 2) xs @ [last xs])"

definition ss_commit :: "simple_state \<Rightarrow> simple_state res" where
  "ss_commit s = Inr (s\<lparr>ss_accounts := splice_m2 (ss_accounts s),
     ss_codes := splice_m2 (ss_codes s), ss_storages := splice_m2 (ss_storages s)\<rparr>)"

definition ss_revert :: "simple_state \<Rightarrow> simple_state res" where
  "ss_revert s = Inr (s\<lparr>ss_accounts := butlast (ss_accounts s),
     ss_codes := butlast (ss_codes s), ss_storages := butlast (ss_storages s)\<rparr>)"

definition ss_shallowCopy :: "simple_state \<Rightarrow> simple_state" where
  "ss_shallowCopy s = ss_new\<lparr>ss_accounts := ss_accounts ss_new @ ss_accounts s,
     ss_codes := ss_codes ss_new @ ss_codes s, ss_storages := ss_storages ss_new @ ss_storages s\<rparr>"

section \<open>The original-storage cache\<close>

definition os_put :: "lib \<Rightarrow> u8 list \<Rightarrow> u8 list \<Rightarrow> u8 list \<Rightarrow> u8 list smap smap \<Rightarrow> u8 list smap smap" where
  "os_put L address key val m =
     (let a = bytesToUnprefixedHex L address; k = bytesToUnprefixedHex L key;
          inner = (case m a of None \<Rightarrow> (\<lambda>_. None) | Some i \<Rightarrow> i) in
      m(a := Some (if inner k = None then inner(k := Some val) else inner)))"

definition os_get :: "lib \<Rightarrow> (u8 list \<Rightarrow> u8 list \<Rightarrow> u8 list) \<Rightarrow> u8 list \<Rightarrow> u8 list \<Rightarrow> u8 list smap smap \<Rightarrow>
    u8 list \<times> u8 list smap smap" where
  "os_get L getStorage address key m =
     (case Option.bind (m (bytesToUnprefixedHex L address)) (\<lambda>i. i (bytesToUnprefixedHex L key)) of
        Some v \<Rightarrow> (v, m)
      | None \<Rightarrow> let v = getStorage address key in (v, os_put L address key v m))"

definition os_clear :: "u8 list smap smap \<Rightarrow> u8 list smap smap" where
  "os_clear m = (\<lambda>_. None)"

definition ss_getOriginal :: "lib \<Rightarrow> u8 list \<Rightarrow> u8 list \<Rightarrow> simple_state \<Rightarrow> u8 list \<times> simple_state" where
  "ss_getOriginal L address key s =
     (let (v, m) = os_get L (\<lambda>a k. ss_getStorage L a k s) address key (ss_original s) in
      (v, s\<lparr>ss_original := m\<rparr>))"

section \<open>Contents\<close>

datatype ss_op = SsPut "u8 list" "account option" | SsDel "u8 list"
  | SsCode "u8 list" "u8 list" | SsStore "u8 list" "u8 list" "u8 list"

type_synonym ss_view = "account option smap \<times> u8 list smap \<times> u8 list smap"

definition ss_act :: "lib \<Rightarrow> ss_op \<Rightarrow> simple_state \<Rightarrow> simple_state res" where
  "ss_act L x s = (case x of SsPut a acc \<Rightarrow> ss_putAccount L a acc s | SsDel a \<Rightarrow> ss_deleteAccount L a s
     | SsCode a c \<Rightarrow> ss_putCode L a c s | SsStore a k v \<Rightarrow> ss_putStorage L a k v s)"

definition ss_aact :: "lib \<Rightarrow> ss_op \<Rightarrow> ss_view \<Rightarrow> ss_view res" where
  "ss_aact L x = (\<lambda>(A, C, S). case x of
       SsPut a acc \<Rightarrow> Inr (A(bytesToHex L a := Some acc), C, S)
     | SsDel a \<Rightarrow> Inr (A(bytesToHex L a := Some None), C, S)
     | SsCode a c \<Rightarrow>
         bindE (modify_fields
           \<lparr>af_nonce = None, af_balance = None, af_storageRoot = None,
            af_codeHash = Some (keccak_256 L c), af_codeSize = None\<rparr>
           (case Option.bind (A (bytesToHex L a)) id of None \<Rightarrow> default_account | Some acc \<Rightarrow> acc)) (\<lambda>acc.
         Inr (A(bytesToHex L a := Some (Some acc)), C(bytesToHex L a := Some c), S))
     | SsStore a k v \<Rightarrow> Inr (A, C, S(storage_key L a k := Some v)))"

definition ss_inv :: "simple_state \<Rightarrow> bool" where
  "ss_inv s \<longleftrightarrow> ss_accounts s \<noteq> [] \<and> length (ss_codes s) = length (ss_accounts s) \<and>
     length (ss_storages s) = length (ss_accounts s)"

definition ss_cur :: "simple_state \<Rightarrow> ss_view" where
  "ss_cur s = (top (ss_accounts s), top (ss_codes s), top (ss_storages s))"

definition ss_saved :: "simple_state \<Rightarrow> ss_view list" where
  "ss_saved s = zip (rev (butlast (ss_accounts s)))
     (zip (rev (butlast (ss_codes s))) (rev (butlast (ss_storages s))))"

lemma ss_inv_frames:
  "ss_inv s \<longleftrightarrow> (\<exists>as a cs c ts t. ss_accounts s = as @ [a] \<and> ss_codes s = cs @ [c] \<and>
     ss_storages s = ts @ [t] \<and> length cs = length as \<and> length ts = length as)"
proof
  assume i: "ss_inv s"
  then obtain as a where a: "ss_accounts s = as @ [a]"
    by (cases "ss_accounts s" rule: rev_exhaust) (auto simp: ss_inv_def)
  with i obtain cs c where c: "ss_codes s = cs @ [c]"
    by (cases "ss_codes s" rule: rev_exhaust) (auto simp: ss_inv_def)
  with i a obtain ts t where "ss_storages s = ts @ [t]"
    by (cases "ss_storages s" rule: rev_exhaust) (auto simp: ss_inv_def)
  with i a c show "\<exists>as a cs c ts t. ss_accounts s = as @ [a] \<and> ss_codes s = cs @ [c] \<and>
     ss_storages s = ts @ [t] \<and> length cs = length as \<and> length ts = length as"
    by (auto simp: ss_inv_def)
qed (auto simp: ss_inv_def)

lemma splice_m2_snoc [simp]: "splice_m2 (xs @ [y, z]) = xs @ [z]"
  by (simp add: splice_m2_def)

lemma ss_act_refines:
  assumes "ss_inv s"
  shows "refines ss_inv ss_cur ss_saved (ss_act L x s) (ss_aact L x (ss_cur s)) (ss_saved s)"
proof -
  from assms obtain as a cs c ts t where f: "ss_accounts s = as @ [a]" "ss_codes s = cs @ [c]"
    "ss_storages s = ts @ [t]" "length cs = length as" "length ts = length as"
    unfolding ss_inv_frames by blast
  show ?thesis
  proof (cases x)
    case (SsCode b code)
    show ?thesis
    proof (cases "Option.bind (a (bytesToHex L b)) id")
      case None
      with SsCode f show ?thesis
        by (simp add: ss_act_def ss_aact_def ss_putCode_def set_top_def ss_getAccount_def top_def
            ss_putAccount_def ss_modifyAccountFields_def ss_cur_def ss_saved_def ss_inv_def
            modify_fields_def new_or_def loaded_def default_account_def)
    next
      case (Some acc)
      let ?m = "modify_fields \<lparr>af_nonce = None, af_balance = None, af_storageRoot = None,
            af_codeHash = Some (keccak_256 L code), af_codeSize = None\<rparr> acc"
      from Some SsCode f show ?thesis
        by (cases ?m) (simp_all add: ss_act_def ss_aact_def ss_putCode_def set_top_def ss_getAccount_def top_def
            ss_putAccount_def ss_modifyAccountFields_def ss_cur_def ss_saved_def ss_inv_def)
    qed
  qed (use f in \<open>simp_all add: ss_act_def ss_aact_def ss_putAccount_def ss_deleteAccount_def
        ss_putStorage_def set_top_def top_def ss_cur_def ss_saved_def ss_inv_def\<close>)
qed

lemma ss_frames2:
  assumes "ss_inv s" and "ss_saved s = v # vs"
  shows "\<exists>as a' a cs c' c ts t' t. ss_accounts s = as @ [a', a] \<and> ss_codes s = cs @ [c', c] \<and>
     ss_storages s = ts @ [t', t] \<and> length cs = length as \<and> length ts = length as"
proof -
  from assms(1) obtain as a cs c ts t where f: "ss_accounts s = as @ [a]" "ss_codes s = cs @ [c]"
    "ss_storages s = ts @ [t]" "length cs = length as" "length ts = length as"
    unfolding ss_inv_frames by blast
  with assms(2) have "as \<noteq> []" "cs \<noteq> []" "ts \<noteq> []" by (auto simp: ss_saved_def)
  then show ?thesis
    using f by (cases as rule: rev_exhaust; cases cs rule: rev_exhaust; cases ts rule: rev_exhaust) auto
qed

interpretation simple: checkpointed ss_inv ss_cur ss_saved ss_checkpoint ss_commit ss_revert
  "ss_act L" "ss_aact L" for L
proof (unfold_locales, goal_cases)
  case (1 s)
  then show ?case
    unfolding ss_inv_frames by (auto simp: ss_checkpoint_def ss_cur_def ss_saved_def top_def)
next
  case (2 s v vs)
  then show ?case
    using ss_frames2 [OF 2]
    by (auto simp: ss_commit_def ss_inv_def ss_cur_def ss_saved_def top_def butlast_append)
next
  case (3 s v vs)
  then show ?case
    using ss_frames2 [OF 3]
    by (auto simp: ss_revert_def ss_inv_def ss_cur_def ss_saved_def top_def butlast_append)
next
  case (4 s x)
  then show ?case by (rule ss_act_refines)
qed

section \<open>Properties\<close>

text \<open>C38. The state manager under nested calls. Any call tree of account, code and storage writes,
  each call checkpointed and committed or reverted at its end, leaves the contents of the same tree
  over one triple of maps in which reverted calls are undone; storing code also creates the
  account and sets its code hash; the snapshots of the callers are intact.\<close>

theorem simple_state_calls:
  assumes "ss_inv s"
  shows "refines ss_inv ss_cur ss_saved
      (run_trace (ss_act L) ss_checkpoint ss_commit ss_revert t s)
      (run_abs (ss_aact L) t (ss_cur s)) (ss_saved s)"
  using assms by (rule simple.run_refines)

theorem simple_state_calls_witness:
  "refines ss_inv ss_cur ss_saved
      (run_trace (ss_act ref_lib) ss_checkpoint ss_commit ss_revert
        (Call [Op (SsStore [1] [2] [3]), Call [Op (SsDel [1])] False] True) ss_new)
      (run_abs (ss_aact ref_lib) (Call [Op (SsStore [1] [2] [3]), Call [Op (SsDel [1])] False] True)
        (ss_cur ss_new)) (ss_saved ss_new)"
  by (rule simple_state_calls) (simp add: ss_inv_def ss_new_def ss_checkpoint_def)

text \<open>The original storage value is the one of the first read. After \<open>originalStorageCache.get\<close>
  has read a slot, no later write to storage, commit or revert changes its answer for that slot,
  until the cache is cleared; every other slot is still read from the current storage.\<close>

theorem original_storage_frozen:
  assumes "lib_ok L" and "ss_original s = (\<lambda>_. None)" and "ss_getOriginal L a k s = (v, s1)"
    and "ss_original s2 = ss_original s1"
  shows "v = ss_getStorage L a k s \<and> fst (ss_getOriginal L a k s2) = v
    \<and> (a' \<noteq> a \<or> k' \<noteq> k \<longrightarrow> fst (ss_getOriginal L a' k' s2) = ss_getStorage L a' k' s2)"
proof -
  have inj: "bytesToUnprefixedHex L x = bytesToUnprefixedHex L y \<longleftrightarrow> x = y" for x y
    using assms(1) by (metis lib_okD(1,2) sum.inject(2))
  show ?thesis
    using assms(2-4)
    by (auto simp: ss_getOriginal_def os_get_def os_put_def Let_def inj split: prod.splits if_splits)
qed

theorem original_storage_frozen_witness:
  "\<exists>v s1. ss_getOriginal ref_lib [1] [2] ss_new = (v, s1) \<and> v = ss_getStorage ref_lib [1] [2] ss_new \<and>
     fst (ss_getOriginal ref_lib [1] [2] s1) = v"
proof -
  obtain v s1 where g: "ss_getOriginal ref_lib [1] [2] ss_new = (v, s1)" by fastforce
  have "ss_original ss_new = (\<lambda>_. None)" by (simp add: ss_new_def ss_checkpoint_def)
  from original_storage_frozen [OF lib_ok_ref this g refl] g show ?thesis by blast
qed

end
