(* ===== verification/Journal.thy ===== *)
theory Journal
  imports SimpleState
begin

text \<open>
  The journal of warm and touched addresses, \<open>packages/evm/src/journal.ts\<close>. It wraps a state
  manager: the type parameter \<open>'m\<close> and the record \<open>smgr\<close> of its operations. A \<open>Set\<close> of strings
  whose order the code uses (\<open>touched\<close>) is a list without repetition, the others are sets. The
  snapshots of the journal are computed from its diff list; with a state manager that keeps the
  contract of \<open>Checkpoints\<close> the journal keeps it too, and the interpretation is on the simple
  state manager.
\<close>

record 'm smgr =
  sm_checkpoint :: "'m \<Rightarrow> 'm"
  sm_commit :: "'m \<Rightarrow> 'm res"
  sm_revert :: "'m \<Rightarrow> 'm res"
  sm_putAccount :: "u8 list \<Rightarrow> account option \<Rightarrow> 'm \<Rightarrow> 'm res"
  sm_deleteAccount :: "u8 list \<Rightarrow> 'm \<Rightarrow> 'm res"
  sm_getAccount :: "u8 list \<Rightarrow> 'm \<Rightarrow> (account option \<times> 'm) res"
  sm_getAppliedKey :: "(u8 list \<Rightarrow> u8 list) option"

record jdiff =
  jd_addrs :: "jsstr set"
  jd_slots :: "jsstr \<Rightarrow> jsstr set option"
  jd_touched :: "jsstr set"

definition empty_diff :: jdiff where
  "empty_diff = \<lparr>jd_addrs = {}, jd_slots = (\<lambda>_. None), jd_touched = {}\<rparr>"

type_synonym warm_map = "jsstr \<Rightarrow> jsstr set option"

record 'm journal =
  jn_sm :: 'm
  jn_journal :: warm_map
  jn_always :: warm_map
  jn_touched :: "jsstr list"
  jn_diff :: "(int \<times> jdiff) list"
  jn_height :: int
  jn_accessList :: "warm_map option"
  jn_preimages :: "(jsstr \<Rightarrow> u8 list option) option"

definition RIPEMD160_ADDRESS_STRING :: jsstr where
  "RIPEMD160_ADDRESS_STRING = replicate 39 48 @ [51]"

definition jn_cleanJournal :: "'m journal \<Rightarrow> 'm journal" where
  "jn_cleanJournal s = s\<lparr>jn_height := 0, jn_journal := (\<lambda>_. None), jn_always := (\<lambda>_. None),
     jn_touched := [], jn_diff := [(0, empty_diff)]\<rparr>"

definition jn_new :: "'m \<Rightarrow> 'm journal" where
  "jn_new m = jn_cleanJournal \<lparr>jn_sm = m, jn_journal = (\<lambda>_. None), jn_always = (\<lambda>_. None),
     jn_touched = [], jn_diff = [], jn_height = 0, jn_accessList = None, jn_preimages = None\<rparr>"

definition jn_startReportingAccessList :: "'m journal \<Rightarrow> 'm journal" where
  "jn_startReportingAccessList s = s\<lparr>jn_accessList := Some (\<lambda>_. None)\<rparr>"

definition jn_startReportingPreimages :: "'m journal \<Rightarrow> 'm journal" where
  "jn_startReportingPreimages s = s\<lparr>jn_preimages := Some (\<lambda>_. None)\<rparr>"

text \<open>Change of the last diff, \<open>this.journalDiff[this.journalDiff.length - 1][1]\<close>.\<close>

definition upd_last :: "(jdiff \<Rightarrow> jdiff) \<Rightarrow> (int \<times> jdiff) list \<Rightarrow> (int \<times> jdiff) list" where
  "upd_last f ds = butlast ds @ [(fst (last ds), f (snd (last ds)))]"

definition jn_touchAccount :: "lib \<Rightarrow> 'm smgr \<Rightarrow> jsstr \<Rightarrow> 'm journal \<Rightarrow> 'm journal res" where
  "jn_touchAccount L M address s =
     bindE (case jn_preimages s of
         None \<Rightarrow> Inr s
       | Some p \<Rightarrow>
           bindE (unprefixedHexToBytes L address) (\<lambda>bytesAddress.
           case sm_getAppliedKey M of
             None \<Rightarrow> throw ''touchAccount: stateManager.getAppliedKey can not be undefined if preimage storing is enabled''
           | Some f \<Rightarrow> Inr (s\<lparr>jn_preimages := Some (p(bytesToHex L (f bytesAddress) := Some bytesAddress))\<rparr>))) (\<lambda>s.
     Inr (if address \<in> set (jn_touched s) then s
          else s\<lparr>jn_touched := jn_touched s @ [address],
                 jn_diff := upd_last (\<lambda>d. d\<lparr>jd_touched := insert address (jd_touched d)\<rparr>) (jn_diff s)\<rparr>))"

definition jn_touchAddress :: "lib \<Rightarrow> 'm smgr \<Rightarrow> u8 list \<Rightarrow> 'm journal \<Rightarrow> 'm journal res" where
  "jn_touchAddress L M address s = jn_touchAccount L M (drop 2 (bytesToHex L address)) s"

definition jn_putAccount :: "lib \<Rightarrow> 'm smgr \<Rightarrow> u8 list \<Rightarrow> account option \<Rightarrow> 'm journal \<Rightarrow> 'm journal res" where
  "jn_putAccount L M address acc s =
     bindE (jn_touchAddress L M address s) (\<lambda>s.
     bindE (sm_putAccount M address acc (jn_sm s)) (\<lambda>m. Inr (s\<lparr>jn_sm := m\<rparr>)))"

definition jn_deleteAccount :: "lib \<Rightarrow> 'm smgr \<Rightarrow> u8 list \<Rightarrow> 'm journal \<Rightarrow> 'm journal res" where
  "jn_deleteAccount L M address s =
     bindE (jn_touchAddress L M address s) (\<lambda>s.
     bindE (sm_deleteAccount M address (jn_sm s)) (\<lambda>m. Inr (s\<lparr>jn_sm := m\<rparr>)))"

definition jn_commit :: "'m smgr \<Rightarrow> 'm journal \<Rightarrow> 'm journal res" where
  "jn_commit M s =
     (let s = s\<lparr>jn_height := jn_height s - 1\<rparr>;
          s = s\<lparr>jn_diff := jn_diff s @ [(jn_height s, empty_diff)]\<rparr> in
      bindE (sm_commit M (jn_sm s)) (\<lambda>m. Inr (s\<lparr>jn_sm := m\<rparr>)))"

definition jn_checkpoint :: "'m smgr \<Rightarrow> 'm journal \<Rightarrow> 'm journal" where
  "jn_checkpoint M s =
     (let s = s\<lparr>jn_height := jn_height s + 1\<rparr>;
          s = s\<lparr>jn_diff := jn_diff s @ [(jn_height s, empty_diff)]\<rparr> in
      s\<lparr>jn_sm := sm_checkpoint M (jn_sm s)\<rparr>)"

definition undo_journal :: "jdiff \<Rightarrow> warm_map \<Rightarrow> warm_map" where
  "undo_journal d j = (\<lambda>a.
     if a \<in> jd_addrs d then None
     else case j a of None \<Rightarrow> None
       | Some slots \<Rightarrow> (case jd_slots d a of None \<Rightarrow> Some slots | Some delSlots \<Rightarrow> Some (slots - delSlots)))"

definition undo_touched :: "jdiff \<Rightarrow> jsstr list \<Rightarrow> jsstr list" where
  "undo_touched d ts = filter (\<lambda>a. \<not> (a \<in> jd_touched d \<and> a \<noteq> RIPEMD160_ADDRESS_STRING)) ts"

text \<open>The loop of \<open>revert\<close> over the diffs, latest first. It answers the diffs kept, latest
  first: those from the first one below the journal height, or the very first diff when there
  is none.\<close>

fun revert_loop :: "int \<Rightarrow> (int \<times> jdiff) list \<Rightarrow> warm_map \<Rightarrow> jsstr list \<Rightarrow>
    (int \<times> jdiff) list \<times> warm_map \<times> jsstr list" where
  "revert_loop H [] j ts = ([], j, ts)"
| "revert_loop H (e # es) j ts =
     (if fst e < H then (e # es, j, ts)
      else let j' = undo_journal (snd e) j; ts' = undo_touched (snd e) ts in
        if es = [] then ([e], j', ts') else revert_loop H es j' ts')"

definition jn_revert :: "'m smgr \<Rightarrow> 'm journal \<Rightarrow> 'm journal res" where
  "jn_revert M s =
     (let (kept, j, ts) = revert_loop (jn_height s) (rev (jn_diff s)) (jn_journal s) (jn_touched s);
          s = s\<lparr>jn_journal := j, jn_touched := ts, jn_diff := rev kept, jn_height := jn_height s - 1\<rparr> in
      bindE (sm_revert M (jn_sm s)) (\<lambda>m. Inr (s\<lparr>jn_sm := m\<rparr>)))"

text \<open>\<open>gteSpurious\<close> is the hardfork test of the chain configuration. The loop runs over the
  touched addresses; deleting an account touches an address that is already there.\<close>

fun jn_cleanup_loop :: "lib \<Rightarrow> 'm smgr \<Rightarrow> jsstr list \<Rightarrow> 'm journal \<Rightarrow> 'm journal res" where
  "jn_cleanup_loop L M [] s = Inr s"
| "jn_cleanup_loop L M (addressHex # as) s =
     bindE (bindE (hexToBytes L ([48, 120] @ addressHex)) address_new) (\<lambda>address.
     bindE (sm_getAccount M address (jn_sm s)) (\<lambda>(acc, m).
     let s = s\<lparr>jn_sm := m\<rparr> in
     bindE (case acc of None \<Rightarrow> Inr True | Some a \<Rightarrow> account_isEmpty a) (\<lambda>empty.
     bindE (if empty then jn_deleteAccount L M address s else Inr s) (jn_cleanup_loop L M as))))"

definition jn_cleanup :: "lib \<Rightarrow> 'm smgr \<Rightarrow> bool \<Rightarrow> 'm journal \<Rightarrow> 'm journal res" where
  "jn_cleanup L M gteSpurious s =
     bindE (if gteSpurious then jn_cleanup_loop L M (jn_touched s) s else Inr s) (\<lambda>s.
     Inr ((jn_cleanJournal s)\<lparr>jn_accessList := None, jn_preimages := None\<rparr>))"

definition add_key :: "jsstr \<Rightarrow> warm_map \<Rightarrow> warm_map" where
  "add_key a m = (if m a = None then m(a := Some {}) else m)"

definition jn_addAlwaysWarmAddress :: "jsstr \<Rightarrow> bool \<Rightarrow> 'm journal \<Rightarrow> 'm journal" where
  "jn_addAlwaysWarmAddress addressStr addToAccessList s =
     (let address = stripHexPrefix addressStr;
          s = s\<lparr>jn_always := add_key address (jn_always s)\<rparr> in
      if addToAccessList then s\<lparr>jn_accessList := map_option (add_key address) (jn_accessList s)\<rparr> else s)"

definition add_slot :: "jsstr \<Rightarrow> jsstr \<Rightarrow> warm_map \<Rightarrow> warm_map" where
  "add_slot a k m = m(a := map_option (insert k) (m a))"

definition jn_addAlwaysWarmSlot :: "jsstr \<Rightarrow> jsstr \<Rightarrow> bool \<Rightarrow> 'm journal \<Rightarrow> 'm journal" where
  "jn_addAlwaysWarmSlot addressStr slotStr addToAccessList s =
     (let address = stripHexPrefix addressStr;
          s = jn_addAlwaysWarmAddress address addToAccessList s;
          slot = stripHexPrefix slotStr;
          s = s\<lparr>jn_always := add_slot address slot (jn_always s)\<rparr> in
      if addToAccessList then s\<lparr>jn_accessList := map_option (add_slot address slot) (jn_accessList s)\<rparr> else s)"

definition jn_isWarmedAddress :: "lib \<Rightarrow> u8 list \<Rightarrow> 'm journal \<Rightarrow> bool" where
  "jn_isWarmedAddress L address s =
     (let addressHex = bytesToUnprefixedHex L address in
      jn_journal s addressHex \<noteq> None \<or> jn_always s addressHex \<noteq> None)"

definition jn_addWarmedAddress :: "lib \<Rightarrow> u8 list \<Rightarrow> 'm journal \<Rightarrow> 'm journal" where
  "jn_addWarmedAddress L addressArr s =
     (let address = bytesToUnprefixedHex L addressArr;
          s = (if jn_journal s address = None
               then s\<lparr>jn_journal := (jn_journal s)(address := Some {}),
                      jn_diff := upd_last (\<lambda>d. d\<lparr>jd_addrs := insert address (jd_addrs d)\<rparr>) (jn_diff s)\<rparr>
               else s) in
      s\<lparr>jn_accessList := map_option (add_key address) (jn_accessList s)\<rparr>)"

definition jn_isWarmedStorage :: "lib \<Rightarrow> u8 list \<Rightarrow> u8 list \<Rightarrow> 'm journal \<Rightarrow> bool" where
  "jn_isWarmedStorage L address slot s =
     (let addressHex = bytesToUnprefixedHex L address; slotHex = bytesToUnprefixedHex L slot;
          always = (case jn_always s addressHex of None \<Rightarrow> False | Some ss \<Rightarrow> slotHex \<in> ss) in
      case jn_journal s addressHex of
        None \<Rightarrow> always
      | Some slots \<Rightarrow> if slotHex \<in> slots then True else always)"

text \<open>An access list that was started after the address became warm has no entry for it: a
  \<open>TypeError\<close>.\<close>

definition jn_addWarmedStorage :: "lib \<Rightarrow> u8 list \<Rightarrow> u8 list \<Rightarrow> 'm journal \<Rightarrow> 'm journal res" where
  "jn_addWarmedStorage L address slot s =
     (let addressHex = bytesToUnprefixedHex L address;
          s = (if jn_journal s addressHex = None then jn_addWarmedAddress L address s else s);
          slots = the (jn_journal s addressHex);
          slotStr = bytesToUnprefixedHex L slot;
          s = (if slotStr \<notin> slots
               then s\<lparr>jn_journal := (jn_journal s)(addressHex := Some (insert slotStr slots)),
                      jn_diff := upd_last (\<lambda>d. d\<lparr>jd_slots := (jd_slots d)(addressHex :=
                          Some (insert slotStr (case jd_slots d addressHex of None \<Rightarrow> {} | Some x \<Rightarrow> x)))\<rparr>)
                        (jn_diff s)\<rparr>
               else s) in
      case jn_accessList s of
        None \<Rightarrow> Inr s
      | Some al \<Rightarrow>
          if al addressHex = None then throw ''TypeError''
          else Inr (s\<lparr>jn_accessList := Some (add_slot addressHex slotStr al)\<rparr>))"

section \<open>Contents and snapshots\<close>

text \<open>The precompile RIPEMD160 stays touched through a revert, so it is left out.\<close>

abbreviation touched_view :: "jsstr list \<Rightarrow> jsstr set" where
  "touched_view ts \<equiv> set ts - {RIPEMD160_ADDRESS_STRING}"

fun jn_snaps :: "nat \<Rightarrow> (int \<times> jdiff) list \<Rightarrow> warm_map \<Rightarrow> jsstr list \<Rightarrow> (warm_map \<times> jsstr set) list" where
  "jn_snaps 0 es j ts = []"
| "jn_snaps (Suc h) es j ts = (case revert_loop (int (Suc h)) es j ts of
     (es', j', ts') \<Rightarrow> (j', touched_view ts') # jn_snaps h es' j' ts')"

text \<open>Heights change by one from a diff to the next, and the first diff has height zero.\<close>

fun steps :: "(int \<times> jdiff) list \<Rightarrow> bool" where
  "steps [] = False"
| "steps [e] = (fst e = 0)"
| "steps (e # f # es) = (\<bar>fst e - fst f\<bar> = 1 \<and> steps (f # es))"

type_synonym 'v jn_view = "(warm_map \<times> jsstr set) \<times> 'v"

definition jn_cur :: "('m \<Rightarrow> 'v) \<Rightarrow> 'm journal \<Rightarrow> 'v jn_view" where
  "jn_cur scur s = ((jn_journal s, touched_view (jn_touched s)), scur (jn_sm s))"

definition jn_saved :: "('m \<Rightarrow> 'v list) \<Rightarrow> 'm journal \<Rightarrow> 'v jn_view list" where
  "jn_saved ssaved s =
     zip (jn_snaps (nat (jn_height s)) (rev (jn_diff s)) (jn_journal s) (jn_touched s)) (ssaved (jn_sm s))"

definition jn_inv :: "('m \<Rightarrow> bool) \<Rightarrow> ('m \<Rightarrow> 'v list) \<Rightarrow> 'm journal \<Rightarrow> bool" where
  "jn_inv SI ssaved s \<longleftrightarrow> SI (jn_sm s) \<and> jn_height s = int (length (ssaved (jn_sm s))) \<and>
     steps (rev (jn_diff s)) \<and> fst (last (jn_diff s)) = jn_height s \<and>
     jn_preimages s = None \<and> jn_accessList s = None"

datatype sm_op = SmPut "u8 list" "account option" | SmDel "u8 list"

definition sm_act :: "'m smgr \<Rightarrow> sm_op \<Rightarrow> 'm \<Rightarrow> 'm res" where
  "sm_act M x m = (case x of SmPut a acc \<Rightarrow> sm_putAccount M a acc m | SmDel a \<Rightarrow> sm_deleteAccount M a m)"

datatype jn_op = JnWarmAddress "u8 list" | JnWarmStorage "u8 list" "u8 list" | JnState sm_op

fun sm_op_address :: "sm_op \<Rightarrow> u8 list" where
  "sm_op_address (SmPut a _) = a"
| "sm_op_address (SmDel a) = a"

definition jn_act :: "lib \<Rightarrow> 'm smgr \<Rightarrow> jn_op \<Rightarrow> 'm journal \<Rightarrow> 'm journal res" where
  "jn_act L M x s = (case x of
       JnWarmAddress a \<Rightarrow> Inr (jn_addWarmedAddress L a s)
     | JnWarmStorage a k \<Rightarrow> jn_addWarmedStorage L a k s
     | JnState (SmPut a acc) \<Rightarrow> jn_putAccount L M a acc s
     | JnState (SmDel a) \<Rightarrow> jn_deleteAccount L M a s)"

definition jn_aact :: "lib \<Rightarrow> (sm_op \<Rightarrow> 'v \<Rightarrow> 'v res) \<Rightarrow> jn_op \<Rightarrow> 'v jn_view \<Rightarrow> 'v jn_view res" where
  "jn_aact L saact x = (\<lambda>((j, T), v). case x of
       JnWarmAddress a \<Rightarrow> Inr ((add_key (bytesToUnprefixedHex L a) j, T), v)
     | JnWarmStorage a k \<Rightarrow> Inr ((add_slot (bytesToUnprefixedHex L a) (bytesToUnprefixedHex L k)
         (add_key (bytesToUnprefixedHex L a) j), T), v)
     | JnState y \<Rightarrow> bindE (saact y v) (\<lambda>v'.
         Inr ((j, insert (bytesToUnprefixedHex L (sm_op_address y)) T - {RIPEMD160_ADDRESS_STRING}), v')))"

section \<open>The revert loop\<close>

lemma undo_empty [simp]: "undo_journal empty_diff j = j" "undo_touched empty_diff ts = ts"
  by (auto simp: undo_journal_def undo_touched_def empty_diff_def fun_eq_iff split: option.splits)

lemma steps_last: "steps es \<Longrightarrow> es \<noteq> [] \<and> fst (last es) = 0"
  by (induction es rule: steps.induct) auto

lemma steps_Cons: "steps (e # es) \<Longrightarrow> fst e \<noteq> 0 \<Longrightarrow> es \<noteq> [] \<and> steps es \<and> \<bar>fst e - fst (hd es)\<bar> = 1"
  by (cases es) auto

lemma revert_loop_top:
  assumes "steps es" and "1 \<le> H" and "H \<le> fst (hd es)"
  shows "\<exists>es' j' ts'. revert_loop H es j ts = (es', j', ts') \<and> steps es' \<and> fst (hd es') = H - 1"
  using assms
proof (induction es arbitrary: j ts)
  case (Cons e es)
  then have c: "es \<noteq> []" "steps es" "\<bar>fst e - fst (hd es)\<bar> = 1" using steps_Cons [of e es] by auto
  show ?case
  proof (cases "H \<le> fst (hd es)")
    case True
    with Cons.IH [OF c(2) Cons.prems(2)] Cons.prems(3) c(1) show ?thesis by (simp add: Let_def)
  next
    case False
    with c(3) Cons.prems have "fst (hd es) = H - 1" by simp
    moreover from this have "revert_loop H es j ts = (es, j, ts)" for j ts
      using c(1) by (cases es) auto
    ultimately show ?thesis using c Cons.prems by (simp add: Let_def)
  qed
qed simp

lemma revert_loop_compose:
  assumes "steps es" and "1 \<le> K" and "K \<le> H"
  shows "(case revert_loop H es j ts of (es', j', ts') \<Rightarrow> revert_loop K es' j' ts') = revert_loop K es j ts"
  using assms
proof (induction es arbitrary: j ts)
  case (Cons e es)
  show ?case
  proof (cases "fst e < H")
    case False
    then have "es \<noteq> []" "steps es" using steps_Cons [of e es] Cons.prems by auto
    with False Cons show ?thesis by (simp add: Let_def)
  qed simp
qed simp

lemma undo_touched_view:
  "touched_view ts = touched_view us \<Longrightarrow> touched_view (undo_touched d ts) = touched_view (undo_touched d us)"
  by (auto simp: undo_touched_def)

lemma revert_loop_view:
  "touched_view ts = touched_view us \<Longrightarrow> revert_loop H es j ts = (es', j', ts') \<Longrightarrow>
   \<exists>us'. revert_loop H es j us = (es', j', us') \<and> touched_view ts' = touched_view us'"
proof (induction H es j ts arbitrary: us rule: revert_loop.induct)
  case (2 H e es j ts)
  show ?case
  proof (cases "fst e < H")
    case True
    with 2 show ?thesis by auto
  next
    case False
    have v: "touched_view (undo_touched (snd e) ts) = touched_view (undo_touched (snd e) us)"
      using 2(2) by (rule undo_touched_view)
    show ?thesis
    proof (cases "es = []")
      case True
      with False v 2(3) show ?thesis by (auto simp: Let_def)
    next
      case ne: False
      with False v 2 show ?thesis by (auto simp: Let_def)
    qed
  qed
qed auto

lemma jn_snaps_view:
  "touched_view ts = touched_view us \<Longrightarrow> jn_snaps h es j ts = jn_snaps h es j us"
proof (induction h arbitrary: es j ts us)
  case (Suc h)
  obtain es' j' ts' where r: "revert_loop (int (Suc h)) es j ts = (es', j', ts')" by (metis prod_cases3)
  from revert_loop_view [OF Suc.prems this] obtain us' where
    "revert_loop (int (Suc h)) es j us = (es', j', us')" "touched_view ts' = touched_view us'" by blast
  with r Suc.IH [of ts' us' es' j'] show ?case by simp
qed simp

text \<open>A change recorded in the latest diff is invisible to every snapshot.\<close>

lemma jn_snaps_recorded:
  assumes "steps ((int h, d) # es)" and "undo_journal d' j' = undo_journal d j"
    and "touched_view (undo_touched d' ts') = touched_view (undo_touched d ts)"
  shows "jn_snaps h ((int h, d') # es) j' ts' = jn_snaps h ((int h, d) # es) j ts"
proof (cases h)
  case (Suc g)
  then have ne: "es \<noteq> []" using steps_Cons [OF assms(1)] by simp
  have one: "jn_snaps (Suc g) ((int (Suc g), d) # es) j ts =
      jn_snaps (Suc g) es (undo_journal d j) (undo_touched d ts)" for d j ts
    using ne by (simp add: Let_def)
  show ?thesis
    unfolding Suc one assms(2) by (rule jn_snaps_view [OF assms(3)])
qed simp

lemma jn_snaps_push:
  assumes "steps es" and "fst (hd es) = int h"
  shows "jn_snaps (Suc h) ((int (Suc h), empty_diff) # es) j ts = (j, touched_view ts) # jn_snaps h es j ts"
proof -
  have "revert_loop (int (Suc h)) es j ts = (es, j, ts)"
    using assms by (cases es) auto
  moreover have "es \<noteq> []" using steps_last [OF assms(1)] by simp
  ultimately show ?thesis by (simp add: Let_def)
qed

lemma jn_snaps_commit:
  assumes "steps es" and "fst (hd es) = int (Suc h)"
  shows "jn_snaps h ((int h, empty_diff) # es) j ts = tl (jn_snaps (Suc h) es j ts)"
proof (cases h)
  case (Suc g)
  obtain es' j' ts' where r: "revert_loop (int (Suc h)) es j ts = (es', j', ts')" by (metis prod_cases3)
  have "es \<noteq> []" using steps_last [OF assms(1)] by simp
  then have "jn_snaps h ((int h, empty_diff) # es) j ts = jn_snaps h es j ts"
    using Suc by (simp add: Let_def)
  moreover have "revert_loop (int h) es' j' ts' = revert_loop (int h) es j ts"
    using revert_loop_compose [OF assms(1), of "int h" "int (Suc h)" j ts] r Suc by simp
  then have "jn_snaps h es' j' ts' = jn_snaps h es j ts" using Suc by simp
  ultimately show ?thesis using r by simp
qed (cases "revert_loop (int (Suc h)) es j ts", simp)

lemma level_down: "int (Suc k) - 1 = int k"
  by simp

lemma length_jn_snaps [simp]: "length (jn_snaps h es j ts) = h"
  by (induction h arbitrary: es j ts) (auto split: prod.splits)

lemma rev_upd_last: "ds \<noteq> [] \<Longrightarrow> rev (upd_last f ds) = (fst (hd (rev ds)), f (snd (hd (rev ds)))) # tl (rev ds)"
  by (cases ds rule: rev_exhaust) (auto simp: upd_last_def)

lemma steps_upd: "steps ((h, d) # es) \<Longrightarrow> steps ((h, d') # es)"
  by (cases es) auto

text \<open>A change of the journal together with its record in the latest diff.\<close>

lemma jn_record:
  assumes "jn_inv SI ssaved s" and "s' = s\<lparr>jn_journal := j', jn_touched := ts', jn_diff := upd_last f (jn_diff s)\<rparr>"
    and "\<And>d. undo_journal (f d) j' = undo_journal d (jn_journal s)"
    and "\<And>d. touched_view (undo_touched (f d) ts') = touched_view (undo_touched d (jn_touched s))"
  shows "jn_inv SI ssaved s' \<and> jn_saved ssaved s' = jn_saved ssaved s"
proof -
  have ne: "jn_diff s \<noteq> []" using assms(1) steps_last by (auto simp: jn_inv_def)
  then obtain ds h d where ds: "jn_diff s = ds @ [(h, d)]" by (metis rev_exhaust surj_pair)
  let ?h = "length (ssaved (jn_sm s))"
  have h: "h = int ?h" "jn_height s = int ?h" "steps ((int ?h, d) # rev ds)"
    using assms(1) ds by (auto simp: jn_inv_def)
  have u: "jn_diff s' = ds @ [(h, f d)]" using assms(2) ds by (simp add: upd_last_def)
  have "jn_snaps ?h (rev (jn_diff s')) j' ts' = jn_snaps ?h (rev (jn_diff s)) (jn_journal s) (jn_touched s)"
    using jn_snaps_recorded [OF h(3) assms(3) assms(4)] u ds h(1) by simp
  moreover have "steps (rev (jn_diff s'))" using u h(1,3) steps_upd by auto
  ultimately show ?thesis
    using assms(1,2) ds u h(2) by (simp add: jn_inv_def jn_saved_def)
qed

lemma jn_touch:
  assumes "jn_inv SI ssaved s"
  shows "\<exists>s'. jn_touchAccount L M a s = Inr s' \<and> jn_inv SI ssaved s' \<and> jn_saved ssaved s' = jn_saved ssaved s \<and>
    jn_journal s' = jn_journal s \<and> jn_sm s' = jn_sm s \<and>
    touched_view (jn_touched s') = insert a (touched_view (jn_touched s)) - {RIPEMD160_ADDRESS_STRING}"
proof (cases "a \<in> set (jn_touched s)")
  case True
  with assms show ?thesis by (auto simp: jn_touchAccount_def jn_inv_def)
next
  case False
  let ?f = "\<lambda>d. d\<lparr>jd_touched := insert a (jd_touched d)\<rparr>"
  let ?s = "s\<lparr>jn_touched := jn_touched s @ [a], jn_diff := upd_last ?f (jn_diff s)\<rparr>"
  have "jn_inv SI ssaved ?s \<and> jn_saved ssaved ?s = jn_saved ssaved s"
    using False by (intro jn_record [OF assms, where j' = "jn_journal s" and ts' = "jn_touched s @ [a]" and f = ?f])
      (auto simp: undo_journal_def undo_touched_def fun_eq_iff split: option.splits)
  with assms False show ?thesis by (auto simp: jn_touchAccount_def jn_inv_def)
qed

lemma jn_warm_address:
  assumes "jn_inv SI ssaved s"
  shows "jn_inv SI ssaved (jn_addWarmedAddress L a s) \<and>
    jn_saved ssaved (jn_addWarmedAddress L a s) = jn_saved ssaved s \<and>
    jn_journal (jn_addWarmedAddress L a s) = add_key (bytesToUnprefixedHex L a) (jn_journal s) \<and>
    jn_touched (jn_addWarmedAddress L a s) = jn_touched s \<and> jn_sm (jn_addWarmedAddress L a s) = jn_sm s"
proof (cases "jn_journal s (bytesToUnprefixedHex L a) = None")
  case True
  let ?a = "bytesToUnprefixedHex L a"
  let ?f = "\<lambda>d. d\<lparr>jd_addrs := insert ?a (jd_addrs d)\<rparr>"
  let ?s = "s\<lparr>jn_journal := (jn_journal s)(?a := Some {}), jn_diff := upd_last ?f (jn_diff s)\<rparr>"
  have "jn_inv SI ssaved ?s \<and> jn_saved ssaved ?s = jn_saved ssaved s"
    using True by (intro jn_record [OF assms, where j' = "(jn_journal s)(?a := Some {})" and ts' = "jn_touched s" and f = ?f])
      (auto simp: undo_journal_def undo_touched_def fun_eq_iff split: option.splits)
  moreover have "jn_addWarmedAddress L a s = ?s"
    using True assms by (simp add: jn_addWarmedAddress_def jn_inv_def Let_def)
  ultimately show ?thesis using True by (simp add: add_key_def)
next
  case False
  then have "jn_addWarmedAddress L a s = s"
    using assms by (cases s) (auto simp: jn_addWarmedAddress_def jn_inv_def Let_def)
  with False assms show ?thesis by (auto simp: add_key_def)
qed

lemma jn_warm_storage:
  assumes "jn_inv SI ssaved s"
  shows "\<exists>s'. jn_addWarmedStorage L a k s = Inr s' \<and> jn_inv SI ssaved s' \<and>
    jn_saved ssaved s' = jn_saved ssaved s \<and>
    jn_journal s' = add_slot (bytesToUnprefixedHex L a) (bytesToUnprefixedHex L k)
      (add_key (bytesToUnprefixedHex L a) (jn_journal s)) \<and>
    jn_touched s' = jn_touched s \<and> jn_sm s' = jn_sm s"
proof -
  let ?a = "bytesToUnprefixedHex L a" and ?k = "bytesToUnprefixedHex L k"
  define s1 where "s1 = (if jn_journal s ?a = None then jn_addWarmedAddress L a s else s)"
  have s1: "jn_inv SI ssaved s1" "jn_saved ssaved s1 = jn_saved ssaved s"
    "jn_journal s1 = add_key ?a (jn_journal s)" "jn_touched s1 = jn_touched s" "jn_sm s1 = jn_sm s"
    using assms jn_warm_address [OF assms, of L a] by (auto simp: s1_def add_key_def)
  obtain S where S: "jn_journal s1 ?a = Some S" using s1(3) by (cases "jn_journal s ?a") (auto simp: add_key_def)
  let ?f = "\<lambda>d. d\<lparr>jd_slots := (jd_slots d)(?a :=
      Some (insert ?k (case jd_slots d ?a of None \<Rightarrow> {} | Some x \<Rightarrow> x)))\<rparr>"
  let ?s = "s1\<lparr>jn_journal := (jn_journal s1)(?a := Some (insert ?k S)), jn_diff := upd_last ?f (jn_diff s1)\<rparr>"
  show ?thesis
  proof (cases "?k \<in> S")
    case True
    then have "jn_addWarmedStorage L a k s = Inr s1"
      using S s1(1) by (simp add: jn_addWarmedStorage_def s1_def [symmetric] jn_inv_def Let_def)
    with s1 S True show ?thesis by (auto simp: add_slot_def insert_absorb fun_eq_iff)
  next
    case False
    have "jn_inv SI ssaved ?s \<and> jn_saved ssaved ?s = jn_saved ssaved s1"
      using False S
      by (intro jn_record [OF s1(1), where j' = "(jn_journal s1)(?a := Some (insert ?k S))"
            and ts' = "jn_touched s1" and f = ?f])
        (auto simp: undo_journal_def undo_touched_def fun_eq_iff split: option.splits)
    moreover have "jn_addWarmedStorage L a k s = Inr ?s"
      using S False s1(1) by (simp add: jn_addWarmedStorage_def s1_def [symmetric] jn_inv_def Let_def)
    ultimately show ?thesis using s1 S by (auto simp: add_slot_def fun_eq_iff)
  qed
qed

section \<open>The contract\<close>

locale managed_state = sm: checkpointed SI scur ssaved "sm_checkpoint M" "sm_commit M" "sm_revert M"
    "sm_act M" saact
  for SI :: "'m \<Rightarrow> bool" and scur :: "'m \<Rightarrow> 'v" and ssaved :: "'m \<Rightarrow> 'v list"
    and M :: "'m smgr" and saact :: "sm_op \<Rightarrow> 'v \<Rightarrow> 'v res" +
  fixes L :: lib
begin

lemma jn_state_refines:
  assumes "jn_inv SI ssaved s"
  shows "refines (jn_inv SI ssaved) (jn_cur scur) (jn_saved ssaved)
    (bindE (jn_touchAddress L M (sm_op_address y) s) (\<lambda>s. bindE (sm_act M y (jn_sm s)) (\<lambda>m. Inr (s\<lparr>jn_sm := m\<rparr>))))
    (jn_aact L saact (JnState y) (jn_cur scur s)) (jn_saved ssaved s)"
proof -
  have str: "drop 2 (bytesToHex L b) = bytesToUnprefixedHex L b" for b by (simp add: bytesToHex_def)
  from jn_touch [OF assms, of L M "bytesToUnprefixedHex L (sm_op_address y)"] obtain s' where
    s': "jn_touchAddress L M (sm_op_address y) s = Inr s'" "jn_inv SI ssaved s'"
      "jn_saved ssaved s' = jn_saved ssaved s" "jn_journal s' = jn_journal s" "jn_sm s' = jn_sm s"
      "touched_view (jn_touched s') = insert (bytesToUnprefixedHex L (sm_op_address y))
         (touched_view (jn_touched s)) - {RIPEMD160_ADDRESS_STRING}"
    by (auto simp: jn_touchAddress_def str)
  have "refines SI scur ssaved (sm_act M y (jn_sm s')) (saact y (scur (jn_sm s'))) (ssaved (jn_sm s'))"
    using sm.act_law s'(2) by (simp add: jn_inv_def)
  with s' show ?thesis
    by (cases "sm_act M y (jn_sm s')")
      (auto simp: jn_aact_def jn_cur_def jn_inv_def jn_saved_def)
qed

lemma jn_act_refines:
  assumes "jn_inv SI ssaved s"
  shows "refines (jn_inv SI ssaved) (jn_cur scur) (jn_saved ssaved) (jn_act L M x s)
    (jn_aact L saact x (jn_cur scur s)) (jn_saved ssaved s)"
proof (cases x)
  case (JnWarmAddress a)
  with jn_warm_address [OF assms, of L a] show ?thesis by (simp add: jn_act_def jn_aact_def jn_cur_def)
next
  case (JnWarmStorage a k)
  with jn_warm_storage [OF assms, of L a k] show ?thesis by (auto simp: jn_act_def jn_aact_def jn_cur_def)
next
  case (JnState y)
  with jn_state_refines [OF assms, of y] show ?thesis
    by (cases y) (simp_all add: jn_act_def jn_putAccount_def jn_deleteAccount_def sm_act_def)
qed

lemma jn_chk_law:
  assumes "jn_inv SI ssaved s"
  shows "jn_inv SI ssaved (jn_checkpoint M s) \<and> jn_cur scur (jn_checkpoint M s) = jn_cur scur s \<and>
    jn_saved ssaved (jn_checkpoint M s) = jn_cur scur s # jn_saved ssaved s"
proof -
  obtain ds d where ds: "jn_diff s = ds @ [(jn_height s, d)]"
    using assms steps_last [of "rev (jn_diff s)"]
    by (metis append_butlast_last_id jn_inv_def prod.collapse rev_is_Nil_conv)
  let ?h = "length (ssaved (jn_sm s))"
  have h1: "jn_height s = int ?h" "steps (rev (jn_diff s))" using assms by (simp_all add: jn_inv_def)
  then have h: "jn_height s = int ?h" "steps (rev (jn_diff s))" "fst (hd (rev (jn_diff s))) = int ?h"
    using ds by simp_all
  have sm: "SI (sm_checkpoint M (jn_sm s))" "scur (sm_checkpoint M (jn_sm s)) = scur (jn_sm s)"
    "ssaved (sm_checkpoint M (jn_sm s)) = scur (jn_sm s) # ssaved (jn_sm s)"
    using sm.chk_law assms by (auto simp: jn_inv_def)
  have st: "steps ((int (Suc ?h), empty_diff) # rev (jn_diff s))" using h ds by (simp add: add.commute)
  have sn: "jn_snaps (Suc ?h) ((int (Suc ?h), empty_diff) # rev (jn_diff s)) (jn_journal s) (jn_touched s) =
      (jn_journal s, touched_view (jn_touched s)) # jn_snaps ?h (rev (jn_diff s)) (jn_journal s) (jn_touched s)"
    by (rule jn_snaps_push [OF h(2,3)])
  have H: "1 + int ?h = int (Suc ?h)" "int ?h + 1 = int (Suc ?h)" by simp_all
  show ?thesis
    using assms sm st sn h(1)
    by (simp add: jn_checkpoint_def jn_inv_def jn_cur_def jn_saved_def Let_def H nat_int del: of_nat_Suc jn_snaps.simps)
qed

lemma jn_levels:
  assumes "jn_inv SI ssaved s" and "jn_saved ssaved s = v # vs"
  shows "\<exists>w ws h. ssaved (jn_sm s) = w # ws \<and> h = length ws \<and> jn_height s = int (Suc h) \<and> snd v = w \<and>
    steps (rev (jn_diff s)) \<and> fst (hd (rev (jn_diff s))) = int (Suc h)"
proof -
  obtain w ws where w: "ssaved (jn_sm s) = w # ws"
    using assms(2) by (cases "ssaved (jn_sm s)") (auto simp: jn_saved_def)
  have "jn_diff s \<noteq> []" using assms(1) steps_last by (auto simp: jn_inv_def)
  with w assms show ?thesis
    by (cases "jn_snaps (nat (jn_height s)) (rev (jn_diff s)) (jn_journal s) (jn_touched s)")
      (auto simp: jn_inv_def jn_saved_def hd_rev simp del: of_nat_Suc)
qed

lemma jn_com_law:
  assumes "jn_inv SI ssaved s" and "jn_saved ssaved s = v # vs"
  shows "\<exists>s'. jn_commit M s = Inr s' \<and> jn_inv SI ssaved s' \<and> jn_cur scur s' = jn_cur scur s \<and>
    jn_saved ssaved s' = vs"
proof -
  from jn_levels [OF assms] obtain w ws h where l: "ssaved (jn_sm s) = w # ws" "h = length ws"
    "jn_height s = int (Suc h)" "steps (rev (jn_diff s))" "fst (hd (rev (jn_diff s))) = int (Suc h)"
    by blast
  from sm.com_law [of "jn_sm s" w ws] assms(1) l(1) obtain m where
    m: "sm_commit M (jn_sm s) = Inr m" "SI m" "scur m = scur (jn_sm s)" "ssaved m = ws"
    by (auto simp: jn_inv_def)
  have "steps ((int h, empty_diff) # rev (jn_diff s))"
    using l(4,5) by (cases "rev (jn_diff s)") auto
  with l m assms jn_snaps_commit [OF l(4,5), of "jn_journal s" "jn_touched s"] show ?thesis
    by (cases "jn_snaps (Suc h) (rev (jn_diff s)) (jn_journal s) (jn_touched s)")
      (auto simp: jn_commit_def jn_inv_def jn_cur_def jn_saved_def Let_def level_down simp del: of_nat_Suc jn_snaps.simps)
qed

lemma jn_rvt_law:
  assumes "jn_inv SI ssaved s" and "jn_saved ssaved s = v # vs"
  shows "\<exists>s'. jn_revert M s = Inr s' \<and> jn_inv SI ssaved s' \<and> jn_cur scur s' = v \<and> jn_saved ssaved s' = vs"
proof -
  from jn_levels [OF assms] obtain w ws h where l: "ssaved (jn_sm s) = w # ws" "h = length ws"
    "jn_height s = int (Suc h)" "steps (rev (jn_diff s))" "fst (hd (rev (jn_diff s))) = int (Suc h)"
    by blast
  from sm.rvt_law [of "jn_sm s" w ws] assms(1) l(1) obtain m where
    m: "sm_revert M (jn_sm s) = Inr m" "SI m" "scur m = w" "ssaved m = ws"
    by (auto simp: jn_inv_def)
  from revert_loop_top [OF l(4), of "int (Suc h)" "jn_journal s" "jn_touched s"] l(5) obtain es j ts where
    r: "revert_loop (int (Suc h)) (rev (jn_diff s)) (jn_journal s) (jn_touched s) = (es, j, ts)"
      "steps es" "fst (hd es) = int h" by auto
  have "es \<noteq> []" using steps_last [OF r(2)] by simp
  then have "fst (last (rev es)) = int h" using r(3) by (simp add: last_rev)
  with l m r assms show ?thesis
    by (auto simp: jn_revert_def jn_inv_def jn_cur_def jn_saved_def Let_def level_down simp del: of_nat_Suc)
qed

end

sublocale managed_state \<subseteq> jn: checkpointed "jn_inv SI ssaved" "jn_cur scur" "jn_saved ssaved"
  "jn_checkpoint M" "jn_commit M" "jn_revert M" "jn_act L M" "jn_aact L saact"
  using jn_chk_law jn_com_law jn_rvt_law jn_act_refines by unfold_locales blast+

section \<open>Over the simple state manager\<close>

definition simple_mgr :: "lib \<Rightarrow> simple_state smgr" where
  "simple_mgr L = \<lparr>sm_checkpoint = ss_checkpoint, sm_commit = ss_commit, sm_revert = ss_revert,
     sm_putAccount = ss_putAccount L, sm_deleteAccount = ss_deleteAccount L,
     sm_getAccount = (\<lambda>a s. Inr (ss_getAccount L a s, s)), sm_getAppliedKey = None\<rparr>"

fun ss_of_sm :: "sm_op \<Rightarrow> ss_op" where
  "ss_of_sm (SmPut a acc) = SsPut a acc"
| "ss_of_sm (SmDel a) = SsDel a"

lemma sm_act_simple: "sm_act (simple_mgr L) x s = ss_act L (ss_of_sm x) s"
  by (cases x) (simp_all add: sm_act_def simple_mgr_def ss_act_def)

interpretation simple_jn: managed_state ss_inv ss_cur ss_saved "simple_mgr L" "\<lambda>x. ss_aact L (ss_of_sm x)" L
  for L
  by (unfold_locales, unfold sm_act_simple)
    (simp_all add: simple_mgr_def simple.chk_law simple.com_law simple.rvt_law simple.act_law)

section \<open>Properties\<close>

text \<open>C5. Warm and touched addresses under nested calls. Over the simple state manager, run any call
  tree of warm-address, warm-slot and account operations, each call checkpointed and committed or
  reverted at its end: the warm addresses and slots, the touched addresses (RIPEMD160 apart, which
  stays touched by design) and the state are those of the same tree in which reverted calls are
  undone. In particular the diffs of committed inner calls are undone with the call around them.\<close>

theorem journal_calls:
  assumes "jn_inv ss_inv ss_saved s"
  shows "refines (jn_inv ss_inv ss_saved) (jn_cur ss_cur) (jn_saved ss_saved)
      (run_trace (jn_act L (simple_mgr L)) (jn_checkpoint (simple_mgr L)) (jn_commit (simple_mgr L))
        (jn_revert (simple_mgr L)) t s)
      (run_abs (jn_aact L (\<lambda>x. ss_aact L (ss_of_sm x))) t (jn_cur ss_cur s)) (jn_saved ss_saved s)"
  using assms by (rule simple_jn.jn.run_refines)

theorem journal_calls_witness:
  "refines (jn_inv ss_inv ss_saved) (jn_cur ss_cur) (jn_saved ss_saved)
      (run_trace (jn_act ref_lib (simple_mgr ref_lib)) (jn_checkpoint (simple_mgr ref_lib))
        (jn_commit (simple_mgr ref_lib)) (jn_revert (simple_mgr ref_lib))
        (Call [Op (JnWarmStorage [1] [2]), Call [Op (JnState (SmDel [3]))] True] False) (jn_new ss_new))
      (run_abs (jn_aact ref_lib (\<lambda>x. ss_aact ref_lib (ss_of_sm x)))
        (Call [Op (JnWarmStorage [1] [2]), Call [Op (JnState (SmDel [3]))] True] False)
        (jn_cur ss_cur (jn_new ss_new))) (jn_saved ss_saved (jn_new ss_new))"
  by (rule journal_calls)
    (simp add: jn_inv_def jn_new_def jn_cleanJournal_def ss_inv_def ss_new_def ss_checkpoint_def ss_saved_def)

lemma warmth_laws:
  assumes "lib_ok L" and "jn_accessList s = None"
  shows "(jn_isWarmedAddress L b (jn_addWarmedAddress L a s) \<longleftrightarrow> b = a \<or> jn_isWarmedAddress L b s)
    \<and> (\<exists>s'. jn_addWarmedStorage L a k s = Inr s'
        \<and> (\<forall>b l. jn_isWarmedStorage L b l s' \<longleftrightarrow> b = a \<and> l = k \<or> jn_isWarmedStorage L b l s)
        \<and> (\<forall>b. jn_isWarmedAddress L b s' \<longleftrightarrow> b = a \<or> jn_isWarmedAddress L b s))
    \<and> jn_isWarmedAddress L a (jn_addAlwaysWarmAddress (bytesToHex L a) f s)"
proof -
  have inj: "bytesToUnprefixedHex L x = bytesToUnprefixedHex L y \<longleftrightarrow> x = y" for x y
    using assms(1) by (metis lib_okD(1,2) sum.inject(2))
  have strip: "stripHexPrefix (bytesToHex L a) = bytesToUnprefixedHex L a"
    using assms(1) hex_bytes_digits
    by (simp add: bytesToHex_def stripHexPrefix_def isHexString_def lib_okD list_all_iff)
  have 1: "jn_isWarmedAddress L b (jn_addWarmedAddress L a s) \<longleftrightarrow> b = a \<or> jn_isWarmedAddress L b s" for b
    by (auto simp: jn_isWarmedAddress_def jn_addWarmedAddress_def Let_def inj)
  have 2: "\<exists>s'. jn_addWarmedStorage L a k s = Inr s'
        \<and> (\<forall>b l. jn_isWarmedStorage L b l s' \<longleftrightarrow> b = a \<and> l = k \<or> jn_isWarmedStorage L b l s)
        \<and> (\<forall>b. jn_isWarmedAddress L b s' \<longleftrightarrow> b = a \<or> jn_isWarmedAddress L b s)"
    using assms(2)
    by (auto simp: jn_isWarmedAddress_def jn_isWarmedStorage_def jn_addWarmedStorage_def
        jn_addWarmedAddress_def Let_def inj split: option.splits)
  have 3: "jn_isWarmedAddress L a (jn_addAlwaysWarmAddress (bytesToHex L a) f s)"
    by (auto simp: jn_isWarmedAddress_def jn_addAlwaysWarmAddress_def strip add_key_def Let_def)
  show ?thesis using 1 2 3 by blast
qed

text \<open>Warmth. Without an access-list report, making an address warm makes exactly that address
  warm, making a slot warm makes exactly that slot and its address warm, and an address or slot
  marked always warm is warm whatever the journal holds.\<close>

theorem journal_warmth:
  assumes "lib_ok L" and "jn_accessList s = None"
  shows "(jn_isWarmedAddress L b (jn_addWarmedAddress L a s) \<longleftrightarrow> b = a \<or> jn_isWarmedAddress L b s)
    \<and> (\<exists>s'. jn_addWarmedStorage L a k s = Inr s'
        \<and> (\<forall>b l. jn_isWarmedStorage L b l s' \<longleftrightarrow> b = a \<and> l = k \<or> jn_isWarmedStorage L b l s)
        \<and> (\<forall>b. jn_isWarmedAddress L b s' \<longleftrightarrow> b = a \<or> jn_isWarmedAddress L b s))
    \<and> jn_isWarmedAddress L a (jn_addAlwaysWarmAddress (bytesToHex L a) f s)"
  using assms by (rule warmth_laws)

theorem journal_warmth_witness:
  "jn_isWarmedAddress ref_lib [1] (jn_addWarmedAddress ref_lib [1] (jn_new ss_new))
   \<and> jn_isWarmedAddress ref_lib [2] (jn_addAlwaysWarmAddress (bytesToHex ref_lib [2]) False (jn_new ss_new))"
  using journal_warmth [OF lib_ok_ref, of "jn_new ss_new" "[1]" "[1]"]
    journal_warmth [OF lib_ok_ref, of "jn_new ss_new" "[1]" "[2]"]
  by (simp add: jn_new_def jn_cleanJournal_def)

end
