(* ===== verification/Effects.thy ===== *)
theory Effects
  imports Prelude
begin

text \<open>
  Computations over a state that may throw, as methods of an object are: they answer a value or an
  error together with the state they leave, which a caller still reads after an error. \<open>preserves E P m\<close>
  states that \<open>m\<close>, started where \<open>P\<close> holds, ends where \<open>P\<close> holds unless it fails with an error and
  a state in \<open>E\<close>; \<open>keeps p m\<close>, that it leaves the observation \<open>p\<close> as it is whatever its outcome;
  \<open>hoare E P m Q\<close> gives the result its own condition. The rules in \<open>pres\<close> build such facts up along the
  structure of a computation.
\<close>

section \<open>Computations over a state\<close>

type_synonym ('s, 'a) stm = "'s \<Rightarrow> 'a res \<times> 's"

definition retS :: "'a \<Rightarrow> ('s, 'a) stm" where
  "retS a s = (Inr a, s)"

definition failS :: "js_error \<Rightarrow> ('s, 'a) stm" where
  "failS e s = (Inl e, s)"

definition bindS :: "('s, 'a) stm \<Rightarrow> ('a \<Rightarrow> ('s, 'b) stm) \<Rightarrow> ('s, 'b) stm" where
  "bindS m f s = (case m s of (Inl e, s') \<Rightarrow> (Inl e, s') | (Inr a, s') \<Rightarrow> f a s')"

definition getS :: "('s \<Rightarrow> 'a) \<Rightarrow> ('s, 'a) stm" where
  "getS f s = (Inr (f s), s)"

definition modS :: "('s \<Rightarrow> 's) \<Rightarrow> ('s, unit) stm" where
  "modS f s = (Inr (), f s)"

definition liftS :: "'a res \<Rightarrow> ('s, 'a) stm" where
  "liftS r s = (r, s)"

abbreviation thenS :: "('s, 'a) stm \<Rightarrow> ('s, 'b) stm \<Rightarrow> ('s, 'b) stm" where
  "thenS m n \<equiv> bindS m (\<lambda>_. n)"

definition whenS :: "bool \<Rightarrow> ('s, unit) stm \<Rightarrow> ('s, unit) stm" where
  "whenS b m = (if b then m else retS ())"

abbreviation trap :: "string \<Rightarrow> ('s, 'a) stm" where
  "trap err \<equiv> failS (EvmTrap err)"

named_theorems stm_simps \<open>unfolding of stateful computations\<close>

lemmas stm_base [stm_simps] = retS_def failS_def getS_def modS_def liftS_def

lemma bindS_ret [simp]: "bindS (retS a) f = f a"
  by (rule ext) (simp add: bindS_def retS_def)

lemma bindS_fail [simp]: "bindS (failS e) f = failS e"
  by (rule ext) (simp add: bindS_def failS_def)

lemma bindS_lift: "bindS (liftS (Inr a)) f = f a" "bindS (liftS (Inl e)) f = failS e"
  by (simp_all add: fun_eq_iff bindS_def liftS_def failS_def)

lemma bindS_assoc: "bindS (bindS m f) g = bindS m (\<lambda>a. bindS (f a) g)"
  by (rule ext) (simp add: bindS_def split: prod.splits sum.splits)

lemma bindS_run: "m s = (Inr a, s') \<Longrightarrow> bindS m f s = f a s'"
  by (simp add: bindS_def)

lemma bindS_err: "m s = (Inl e, s') \<Longrightarrow> bindS m f s = (Inl e, s')"
  by (simp add: bindS_def)

lemma bindS_eq: "bindS m f s = (case m s of (Inl e, s') \<Rightarrow> (Inl e, s') | (Inr a, s') \<Rightarrow> f a s')"
  by (simp add: bindS_def)

lemma bindS_Inr: "bindS m f s = (Inr b, s') \<longleftrightarrow> (\<exists>a s1. m s = (Inr a, s1) \<and> f a s1 = (Inr b, s'))"
  by (auto simp: bindS_def split: prod.splits sum.splits)

lemma retS_Inr [simp]: "retS a s = (Inr b, s') \<longleftrightarrow> b = a \<and> s' = s"
  by (auto simp: retS_def)

lemma failS_Inr [simp]: "failS e s \<noteq> (Inr b, s')"
  by (simp add: failS_def)

lemma getS_Inr [simp]: "getS f s = (Inr b, s') \<longleftrightarrow> b = f s \<and> s' = s"
  by (auto simp: getS_def)

lemma modS_Inr [simp]: "modS f s = (Inr b, s') \<longleftrightarrow> s' = f s"
  by (auto simp: modS_def)

section \<open>Invariants\<close>

definition preserves :: "(js_error \<Rightarrow> 's \<Rightarrow> bool) \<Rightarrow> ('s \<Rightarrow> bool) \<Rightarrow> ('s, 'a) stm \<Rightarrow> bool" where
  "preserves E P m \<longleftrightarrow> (\<forall>s. P s \<longrightarrow> (case m s of (r, s') \<Rightarrow> P s' \<or> (case r of Inl e \<Rightarrow> E e s' | Inr _ \<Rightarrow> False)))"

abbreviation keeps :: "('s \<Rightarrow> 'p) \<Rightarrow> ('s, 'a) stm \<Rightarrow> bool" where
  "keeps p m \<equiv> (\<forall>v. preserves (\<lambda>_ _. False) (\<lambda>s. p s = v) m)"

named_theorems pres \<open>composition of invariants\<close>

lemma preservesI:
  "(\<And>s r s'. P s \<Longrightarrow> m s = (r, s') \<Longrightarrow> P s') \<Longrightarrow> preserves E P m"
  by (auto simp: preserves_def split: prod.split sum.split)

lemma preserves_Inr: "preserves E P m \<Longrightarrow> P s \<Longrightarrow> m s = (Inr a, s') \<Longrightarrow> P s'"
  by (auto simp: preserves_def split: prod.splits)

lemma preserves_Inl: "preserves E P m \<Longrightarrow> P s \<Longrightarrow> m s = (Inl e, s') \<Longrightarrow> P s' \<or> E e s'"
  by (auto simp: preserves_def split: prod.splits)

lemma preserves_mono: "preserves E P m \<Longrightarrow> (\<And>e s. E e s \<Longrightarrow> F e s) \<Longrightarrow> preserves F P m"
  unfolding preserves_def by (fastforce split: prod.splits sum.splits)

lemma keepsD: "keeps p m \<Longrightarrow> m s = (r, s') \<Longrightarrow> p s' = p s"
  by (auto simp: preserves_def split: prod.splits sum.splits)

lemma presD: "(\<And>v. preserves (\<lambda>_ _. False) (\<lambda>s. p s = v) m) \<Longrightarrow> m s = (r, s') \<Longrightarrow> p s' = p s"
  by (rule keepsD) blast+

lemma keeps_end: "keeps p m \<Longrightarrow> p (snd (m s)) = p s"
  by (rule keepsD [OF _ surjective_pairing])

lemma keeps_of:
  assumes "keeps q m" "\<And>s s'. q s' = q s \<Longrightarrow> p s' = p s"
  shows "keeps p m"
proof (intro allI preservesI)
  fix v s r s' assume "p s = v" "m s = (r, s')"
  with keepsD [OF assms(1) this(2)] assms(2) show "p s' = v" by blast
qed

lemma pres_bind [pres]:
  assumes "preserves E P m" "\<And>a. preserves E P (f a)"
  shows "preserves E P (bindS m f)"
  unfolding preserves_def bindS_def
proof (intro allI impI)
  fix s assume "P s"
  obtain r s' where m: "m s = (r, s')" by fastforce
  show "case (case m s of (Inl e, s') \<Rightarrow> (Inl e, s') | (Inr a, s') \<Rightarrow> f a s') of
    (r, s') \<Rightarrow> P s' \<or> (case r of Inl e \<Rightarrow> E e s' | Inr _ \<Rightarrow> False)"
  proof (cases r)
    case (Inl e)
    with preserves_Inl [OF assms(1) \<open>P s\<close>] m show ?thesis by auto
  next
    case (Inr a)
    with preserves_Inr [OF assms(1) \<open>P s\<close>] m have "P s'" by simp
    with assms(2) [of a] m Inr show ?thesis by (auto simp: preserves_def split: prod.splits)
  qed
qed

lemma pres_base [pres]:
  "preserves E P (retS a)" "preserves E P (failS e)" "preserves E P (getS f)" "preserves E P (liftS r)"
  by (auto intro!: preservesI simp: retS_def failS_def getS_def liftS_def)

lemma pres_mod: "(\<And>s. P s \<Longrightarrow> P (f s)) \<Longrightarrow> preserves E P (modS f)"
  by (auto intro!: preservesI simp: modS_def)

lemma pres_if [pres]: "(b \<Longrightarrow> preserves E P m) \<Longrightarrow> (\<not> b \<Longrightarrow> preserves E P n) \<Longrightarrow> preserves E P (if b then m else n)"
  by simp

lemma pres_let [pres]: "(\<And>x. preserves E P (f x)) \<Longrightarrow> preserves E P (Let a f)"
  by simp

lemma pres_option [pres]:
  "preserves E P m \<Longrightarrow> (\<And>a. preserves E P (f a)) \<Longrightarrow> preserves E P (case x of None \<Rightarrow> m | Some a \<Rightarrow> f a)"
  by (cases x) simp_all

lemma pres_sum [pres]:
  "(\<And>a. preserves E P (f a)) \<Longrightarrow> (\<And>a. preserves E P (g a)) \<Longrightarrow>
   preserves E P (case x of Inl a \<Rightarrow> f a | Inr a \<Rightarrow> g a)"
  by (cases x) simp_all

lemma pres_prod [pres]: "(\<And>a b. preserves E P (f a b)) \<Longrightarrow> preserves E P (case x of (a, b) \<Rightarrow> f a b)"
  by (cases x) simp

lemma pres_when [pres]: "(b \<Longrightarrow> preserves E P m) \<Longrightarrow> preserves E P (whenS b m)"
  by (simp add: whenS_def pres_base)

section \<open>Triples\<close>

text \<open>Where an invariant is broken and restored: what holds before, after success, and after an error.\<close>

definition hoare :: "(js_error \<Rightarrow> 's \<Rightarrow> bool) \<Rightarrow> ('s \<Rightarrow> bool) \<Rightarrow> ('s, 'a) stm \<Rightarrow> ('a \<Rightarrow> 's \<Rightarrow> bool) \<Rightarrow> bool" where
  "hoare E P m Q \<longleftrightarrow> (\<forall>s. P s \<longrightarrow> (case m s of (Inr a, s') \<Rightarrow> Q a s' | (Inl e, s') \<Rightarrow> E e s'))"

lemma hoareI: "(\<And>s a s'. P s \<Longrightarrow> m s = (Inr a, s') \<Longrightarrow> Q a s') \<Longrightarrow> (\<And>s e s'. P s \<Longrightarrow> m s = (Inl e, s') \<Longrightarrow> E e s') \<Longrightarrow>
    hoare E P m Q"
  by (auto simp: hoare_def split: prod.splits sum.splits)

lemma hoare_Inr: "hoare E P m Q \<Longrightarrow> P s \<Longrightarrow> m s = (Inr a, s') \<Longrightarrow> Q a s'"
  by (fastforce simp: hoare_def)

lemma hoare_Inl: "hoare E P m Q \<Longrightarrow> P s \<Longrightarrow> m s = (Inl e, s') \<Longrightarrow> E e s'"
  by (fastforce simp: hoare_def)

lemma hoare_bind:
  assumes "hoare E P m Q" "\<And>a. hoare E (Q a) (f a) R"
  shows "hoare E P (bindS m f) R"
proof (rule hoareI)
  fix s b s' assume s: "P s" "bindS m f s = (Inr b, s')"
  then obtain a s1 where "m s = (Inr a, s1)" "f a s1 = (Inr b, s')" by (auto simp: bindS_Inr)
  then show "R b s'" using hoare_Inr [OF assms(1) s(1)] hoare_Inr [OF assms(2)] by blast
next
  fix s e s' assume s: "P s" "bindS m f s = (Inl e, s')"
  then consider "m s = (Inl e, s')" | a s1 where "m s = (Inr a, s1)" "f a s1 = (Inl e, s')"
    by (auto simp: bindS_def split: prod.splits sum.splits)
  then show "E e s'"
    by cases (use hoare_Inl [OF assms(1) s(1)] hoare_Inr [OF assms(1) s(1)] hoare_Inl [OF assms(2)] in blast)+
qed

lemma hoare_pre: "hoare E P m Q \<Longrightarrow> (\<And>s. P' s \<Longrightarrow> P s) \<Longrightarrow> hoare E P' m Q"
  by (simp add: hoare_def)

lemma hoare_post: "hoare E P m Q \<Longrightarrow> (\<And>a s. Q a s \<Longrightarrow> R a s) \<Longrightarrow> hoare E P m R"
  by (fastforce simp: hoare_def split: prod.splits sum.splits)

lemma hoare_error: "hoare E P m Q \<Longrightarrow> (\<And>e s. E e s \<Longrightarrow> F e s) \<Longrightarrow> hoare F P m Q"
  by (fastforce simp: hoare_def split: prod.splits sum.splits)

lemma hoare_ret: "(\<And>s. P s \<Longrightarrow> Q a s) \<Longrightarrow> hoare E P (retS a) Q"
  by (simp add: hoare_def retS_def)

lemma hoare_if: "(b \<Longrightarrow> hoare E P m Q) \<Longrightarrow> (\<not> b \<Longrightarrow> hoare E P n Q) \<Longrightarrow> hoare E P (if b then m else n) Q"
  by simp

lemma hoare_assume: "(\<And>s. P s \<Longrightarrow> b) \<Longrightarrow> (b \<Longrightarrow> hoare E P m Q) \<Longrightarrow> hoare E P m Q"
  by (fastforce simp: hoare_def)

lemma preserves_hoare: "preserves E P m \<Longrightarrow> hoare (\<lambda>e s. P s \<or> E e s) P m (\<lambda>_. P)"
  by (auto intro!: hoareI dest: preserves_Inl preserves_Inr)

lemma hoare_preserves: "hoare (\<lambda>e s. P s \<or> E e s) P m (\<lambda>_. P) \<Longrightarrow> preserves E P m"
  by (fastforce simp: hoare_def preserves_def split: prod.splits sum.splits)

end
