(* ===== verification/EvmState.thy ===== *)
theory EvmState
  imports EvmAlu EvmMemory Journal TransientStorage Effects
begin

text \<open>
  The run state of the interpreter, \<open>RunState\<close>, \<open>Env\<close> and \<open>RunResult\<close> of
  \<open>packages/evm/src/interpreter.ts\<close>, and the methods of \<open>Interpreter\<close> the opcode handlers
  call. A handler is a computation of type \<open>ev\<close>: it takes the run state and answers a value or
  an error together with the run state it leaves, which the caller still reads after an error.

  The record \<open>host\<close> holds what the interpreter is given from outside: the chain configuration,
  the state manager (its operations on an abstract state \<open>'m\<close>), block hashes, the precompiled
  contracts (address and data and gas limit to gas used, output and error), the parser of EOF
  containers, the block and transaction of the call, and the access witness of stateless execution
  (operations on an abstract \<open>'w\<close>; without a witness they answer 0 and change nothing).
\<close>

section \<open>The environment\<close>

record block_env =
  bl_number :: int
  bl_coinbase :: "u8 list"
  bl_timestamp :: int
  bl_difficulty :: int
  bl_prevRandao :: "u8 list"
  bl_gasLimit :: int
  bl_baseFeePerGas :: "int option"
  bl_blobGasPrice :: "int option"

record eof_type =
  et_inputs :: int
  et_outputs :: int
  et_maxStackHeight :: int

text \<open>What the handlers read of a parsed container, and the return stack of the functions.\<close>

record eof_env =
  eo_data :: "u8 list"
  eo_types :: "eof_type list"
  eo_containers :: "u8 list list"
  eo_codePosition :: "nat \<Rightarrow> int res"
  eo_returnStack :: "int list"

record env =
  en_address :: "u8 list"
  en_caller :: "u8 list"
  en_callData :: "u8 list"
  en_callValue :: int
  en_code :: "u8 list"
  en_isStatic :: bool
  en_isCreate :: bool
  en_depth :: nat
  en_gasPrice :: int
  en_origin :: "u8 list"
  en_block :: block_env
  en_contract :: account
  en_codeAddress :: "u8 list"
  en_gasRefund :: int
  en_eof :: "eof_env option"
  en_blobVersionedHashes :: "jsstr list"
  en_createdAddresses :: "jsstr set"
  en_chargeCodeAccesses :: bool

record log_entry =
  lg_address :: "u8 list"
  lg_topics :: "u8 list list"
  lg_data :: "u8 list"

record ('m, 'w) rs =
  rs_pc :: int
  rs_opCode :: nat
  rs_memory :: memory
  rs_memoryWordCount :: int
  rs_highestMemCost :: int
  rs_stack :: stack
  rs_code :: "u8 list"
  rs_shouldDoJumpAnalysis :: bool
  rs_validJumps :: "nat list"
  rs_cachedPushes :: "nat \<Rightarrow> int option"
  rs_env :: env
  rs_messageGasLimit :: "int option"
  rs_gasRefund :: int
  rs_gasLeft :: int
  rs_returnBytes :: "u8 list"
  rs_logs :: "log_entry list"
  rs_returnValue :: "u8 list option"
  rs_selfdestruct :: "jsstr set"
  rs_journal :: "'m journal"
  rs_transient :: tstore
  rs_witness :: 'w

type_synonym ('m, 'w, 'a) ev = "(('m, 'w) rs, 'a) stm"

record 'w witness_ops =
  wo_readAccountBasicData :: "u8 list \<Rightarrow> 'w \<Rightarrow> int \<times> 'w"
  wo_writeAccountBasicData :: "u8 list \<Rightarrow> 'w \<Rightarrow> int \<times> 'w"
  wo_readAccountCodeHash :: "u8 list \<Rightarrow> 'w \<Rightarrow> int \<times> 'w"
  wo_readAccountCodeChunks :: "u8 list \<Rightarrow> int \<Rightarrow> int \<Rightarrow> 'w \<Rightarrow> int \<times> 'w"
  wo_readAccountStorage :: "u8 list \<Rightarrow> int \<Rightarrow> 'w \<Rightarrow> int \<times> 'w"
  wo_writeAccountStorage :: "u8 list \<Rightarrow> int \<Rightarrow> 'w \<Rightarrow> int \<times> 'w"
  wo_readAccountHeader :: "u8 list \<Rightarrow> 'w \<Rightarrow> int \<times> 'w"
  wo_writeAccountHeader :: "u8 list \<Rightarrow> 'w \<Rightarrow> int \<times> 'w"
  wo_writeAccountCodeChunks :: "u8 list \<Rightarrow> int \<Rightarrow> int \<Rightarrow> 'w \<Rightarrow> int \<times> 'w"
  wo_commit :: "'w \<Rightarrow> 'w"
  wo_revert :: "'w \<Rightarrow> 'w"

record ('m, 'w) host =
  ho_lib :: lib
  ho_param :: "string \<Rightarrow> int"
  ho_eip :: "nat \<Rightarrow> bool"
  ho_gteHardfork :: "string \<Rightarrow> bool"
  ho_hardfork :: string
  ho_chainId :: int
  ho_isClique :: bool
  ho_cliqueSigner :: "block_env \<Rightarrow> u8 list"
  ho_smgr :: "'m smgr"
  ho_getCode :: "u8 list \<Rightarrow> 'm \<Rightarrow> (u8 list \<times> 'm) res"
  ho_getStorage :: "u8 list \<Rightarrow> u8 list \<Rightarrow> 'm \<Rightarrow> (u8 list \<times> 'm) res"
  ho_putStorage :: "u8 list \<Rightarrow> u8 list \<Rightarrow> u8 list \<Rightarrow> 'm \<Rightarrow> 'm res"
  ho_originalStorage :: "u8 list \<Rightarrow> u8 list \<Rightarrow> 'm \<Rightarrow> (u8 list \<times> 'm) res"
  ho_modifyAccountFields :: "u8 list \<Rightarrow> account_fields \<Rightarrow> 'm \<Rightarrow> 'm res"
  ho_blockHash :: "int \<Rightarrow> u8 list res"
  ho_clearStorage :: "u8 list \<Rightarrow> 'm \<Rightarrow> 'm res"
  ho_putCode :: "u8 list \<Rightarrow> u8 list \<Rightarrow> 'm \<Rightarrow> 'm res"
  ho_chunkPresent :: "u8 list \<Rightarrow> int \<Rightarrow> 'm \<Rightarrow> bool"
  ho_isPrecompile :: "u8 list \<Rightarrow> bool"
  ho_runPrecompile :: "u8 list \<Rightarrow> u8 list \<Rightarrow> int \<Rightarrow> int \<times> u8 list \<times> string option"
  ho_parseEOF :: "u8 list \<Rightarrow> bool \<Rightarrow> (eof_env \<times> u8 list option) res"
  ho_validateEOF :: "u8 list \<Rightarrow> unit res"
  ho_parseInit :: "u8 list \<Rightarrow> (nat \<times> nat \<times> nat) res"
  ho_allowUnlimitedContractSize :: bool
  ho_allowUnlimitedInitCodeSize :: bool
  ho_txGasPrice :: int
  ho_txOrigin :: "u8 list"
  ho_block :: block_env
  ho_witness :: "'w witness_ops"

section \<open>Access to the parts of the run state\<close>

text \<open>An operation on a part that fails leaves the whole state unchanged.\<close>

definition on_stack :: "(stack \<Rightarrow> ('a \<times> stack) res) \<Rightarrow> ('m, 'w, 'a) ev" where
  "on_stack f s = (case f (rs_stack s) of Inl e \<Rightarrow> (Inl e, s) | Inr (a, st) \<Rightarrow> (Inr a, s\<lparr>rs_stack := st\<rparr>))"

definition on_stack_u :: "(stack \<Rightarrow> stack res) \<Rightarrow> ('m, 'w, unit) ev" where
  "on_stack_u f = on_stack (\<lambda>st. bindE (f st) (\<lambda>st'. Inr ((), st')))"

definition s_push :: "int \<Rightarrow> ('m, 'w, unit) ev" where
  "s_push v = on_stack_u (stack_push v)"

definition s_pop :: "('m, 'w, int) ev" where
  "s_pop = on_stack stack_pop"

definition s_popN :: "nat \<Rightarrow> ('m, 'w, int list) ev" where
  "s_popN n = on_stack (stack_popN n)"

definition s_peek :: "nat \<Rightarrow> ('m, 'w, int list) ev" where
  "s_peek n = on_stack (\<lambda>st. bindE (stack_peek n st) (\<lambda>xs. Inr (xs, st)))"

definition m_read :: "int \<Rightarrow> int \<Rightarrow> bool \<Rightarrow> ('m, 'w, u8 list) ev" where
  "m_read off len avoidCopy s =
     (let (d, m) = memory_read (nat off) (nat len) avoidCopy (rs_memory s) in (Inr d, s\<lparr>rs_memory := m\<rparr>))"

definition m_write :: "int \<Rightarrow> int \<Rightarrow> u8 list \<Rightarrow> ('m, 'w, unit) ev" where
  "m_write off len d s =
     (case memory_write (nat off) (nat len) d (rs_memory s) of
        Inl e \<Rightarrow> (Inl e, s) | Inr m \<Rightarrow> (Inr (), s\<lparr>rs_memory := m\<rparr>))"

definition m_extend :: "int \<Rightarrow> int \<Rightarrow> ('m, 'w, unit) ev" where
  "m_extend off len = modS (\<lambda>s. s\<lparr>rs_memory := memory_extend (nat off) (nat len) (rs_memory s)\<rparr>)"

definition on_mgr :: "('m \<Rightarrow> ('a \<times> 'm) res) \<Rightarrow> ('m, 'w, 'a) ev" where
  "on_mgr f s = (case f (jn_sm (rs_journal s)) of Inl e \<Rightarrow> (Inl e, s)
     | Inr (a, m) \<Rightarrow> (Inr a, s\<lparr>rs_journal := (rs_journal s)\<lparr>jn_sm := m\<rparr>\<rparr>))"

definition on_mgr_u :: "('m \<Rightarrow> 'm res) \<Rightarrow> ('m, 'w, unit) ev" where
  "on_mgr_u f = on_mgr (\<lambda>m. bindE (f m) (\<lambda>m'. Inr ((), m')))"

definition on_journal :: "('m journal \<Rightarrow> 'm journal res) \<Rightarrow> ('m, 'w, unit) ev" where
  "on_journal f s = (case f (rs_journal s) of Inl e \<Rightarrow> (Inl e, s) | Inr j \<Rightarrow> (Inr (), s\<lparr>rs_journal := j\<rparr>))"

definition on_witness :: "('w \<Rightarrow> 'a \<times> 'w) \<Rightarrow> ('m, 'w, 'a) ev" where
  "on_witness f s = (let (a, w) = f (rs_witness s) in (Inr a, s\<lparr>rs_witness := w\<rparr>))"

definition add_pc :: "int \<Rightarrow> ('m, 'w, unit) ev" where
  "add_pc k = modS (\<lambda>s. s\<lparr>rs_pc := rs_pc s + k\<rparr>)"

definition set_pc :: "int \<Rightarrow> ('m, 'w, unit) ev" where
  "set_pc k = modS (\<lambda>s. s\<lparr>rs_pc := k\<rparr>)"

definition bigE :: "('m, 'w) host \<Rightarrow> u8 list \<Rightarrow> ('m, 'w, int) ev" where
  "bigE H b = liftS (bytesToBigInt (ho_lib H) b)"

section \<open>Methods of the interpreter\<close>

definition useGas :: "int \<Rightarrow> ('m, 'w, unit) ev" where
  "useGas amount s =
     (let s = s\<lparr>rs_gasLeft := rs_gasLeft s - amount\<rparr> in
      if rs_gasLeft s < 0 then trap ''out of gas'' (s\<lparr>rs_gasLeft := 0\<rparr>) else (Inr (), s))"

definition refundGas :: "int \<Rightarrow> ('m, 'w, unit) ev" where
  "refundGas amount = modS (\<lambda>s. s\<lparr>rs_gasRefund := rs_gasRefund s + amount\<rparr>)"

definition subRefund :: "int \<Rightarrow> ('m, 'w, unit) ev" where
  "subRefund amount s =
     (let s = s\<lparr>rs_gasRefund := rs_gasRefund s - amount\<rparr> in
      if rs_gasRefund s < 0 then trap ''refund exhausted'' (s\<lparr>rs_gasRefund := 0\<rparr>) else (Inr (), s))"

definition addStipend :: "int \<Rightarrow> ('m, 'w, unit) ev" where
  "addStipend amount = modS (\<lambda>s. s\<lparr>rs_gasLeft := rs_gasLeft s + amount\<rparr>)"

definition getAccountS :: "('m, 'w) host \<Rightarrow> u8 list \<Rightarrow> ('m, 'w, account option) ev" where
  "getAccountS H address = on_mgr (sm_getAccount (ho_smgr H) address)"

definition getExternalBalance :: "('m, 'w) host \<Rightarrow> u8 list \<Rightarrow> ('m, 'w, int) ev" where
  "getExternalBalance H address =
     bindS (getS rs_env) (\<lambda>en.
     if address = en_address en then liftS (loaded ''balance'' (ac_balance (en_contract en)))
     else bindS (getAccountS H address) (\<lambda>acc.
       let acc = (case acc of None \<Rightarrow> default_account | Some a \<Rightarrow> a) in
       liftS (loaded ''balance'' (ac_balance acc))))"

definition storageStore :: "('m, 'w) host \<Rightarrow> u8 list \<Rightarrow> u8 list \<Rightarrow> ('m, 'w, unit) ev" where
  "storageStore H key v =
     bindS (getS (en_address \<circ> rs_env)) (\<lambda>address.
     thenS (on_mgr_u (ho_putStorage H address key v))
     (bindS (getAccountS H address) (\<lambda>acc.
      case acc of
        None \<Rightarrow> failS (Throw ''could not read account while persisting memory'')
      | Some a \<Rightarrow> modS (\<lambda>s. s\<lparr>rs_env := (rs_env s)\<lparr>en_contract := a\<rparr>\<rparr>))))"

definition storageLoad :: "('m, 'w) host \<Rightarrow> u8 list \<Rightarrow> bool \<Rightarrow> ('m, 'w, u8 list) ev" where
  "storageLoad H key original =
     bindS (getS (en_address \<circ> rs_env)) (\<lambda>address.
     if original then on_mgr (ho_originalStorage H address key) else on_mgr (ho_getStorage H address key))"

definition transientStorageStore :: "('m, 'w) host \<Rightarrow> u8 list \<Rightarrow> u8 list \<Rightarrow> ('m, 'w, unit) ev" where
  "transientStorageStore H key v s =
     (case ts_put (ho_lib H) (en_address (rs_env s)) key v (rs_transient s) of
        Inl e \<Rightarrow> (Inl e, s) | Inr t \<Rightarrow> (Inr (), s\<lparr>rs_transient := t\<rparr>))"

definition transientStorageLoad :: "('m, 'w) host \<Rightarrow> u8 list \<Rightarrow> ('m, 'w, u8 list) ev" where
  "transientStorageLoad H key = getS (\<lambda>s. ts_get (ho_lib H) (en_address (rs_env s)) key (rs_transient s))"

definition finish :: "u8 list \<Rightarrow> ('m, 'w, unit) ev" where
  "finish returnData = thenS (modS (\<lambda>s. s\<lparr>rs_returnValue := Some returnData\<rparr>)) (trap ''stop'')"

definition revert_run :: "u8 list \<Rightarrow> ('m, 'w, unit) ev" where
  "revert_run returnData = thenS (modS (\<lambda>s. s\<lparr>rs_returnValue := Some returnData\<rparr>)) (trap ''revert'')"

definition getBlockCoinbase :: "('m, 'w) host \<Rightarrow> ('m, 'w, int) ev" where
  "getBlockCoinbase H =
     bindS (getS (en_block \<circ> rs_env)) (\<lambda>b.
     bigE H (if ho_isClique H then ho_cliqueSigner H b else bl_coinbase b))"

definition getBlockBaseFee :: "('m, 'w, int) ev" where
  "getBlockBaseFee = bindS (getS (bl_baseFeePerGas \<circ> en_block \<circ> rs_env)) (\<lambda>f.
     case f of None \<Rightarrow> failS (Throw ''Block has no Base Fee'') | Some v \<Rightarrow> retS v)"

definition getBlobBaseFee :: "('m, 'w, int) ev" where
  "getBlobBaseFee = bindS (getS (bl_blobGasPrice \<circ> en_block \<circ> rs_env)) (\<lambda>f.
     case f of None \<Rightarrow> failS (Throw ''Block has no Blob Base Fee'') | Some v \<Rightarrow> retS v)"

definition logS :: "u8 list \<Rightarrow> int \<Rightarrow> u8 list list \<Rightarrow> ('m, 'w, unit) ev" where
  "logS data numberOfTopics topics =
     (if numberOfTopics < 0 \<or> 4 < numberOfTopics then trap ''value out of range''
      else if int (length topics) \<noteq> numberOfTopics then trap ''internal error''
      else modS (\<lambda>s. s\<lparr>rs_logs := rs_logs s @
             [\<lparr>lg_address = en_address (rs_env s), lg_topics = topics, lg_data = data\<rparr>]\<rparr>))"

text \<open>\<open>_selfDestruct\<close>. The balances are read through the getters.\<close>

definition selfDestruct :: "('m, 'w) host \<Rightarrow> u8 list \<Rightarrow> ('m, 'w, unit) ev" where
  "selfDestruct H toAddress =
     bindS (getS id) (\<lambda>s0.
     let self = en_address (rs_env s0); selfHex = bytesToHex (ho_lib H) self;
         toSelf = (toAddress = self) in
     thenS (whenS (selfHex \<notin> rs_selfdestruct s0) (refundGas (ho_param H ''selfdestructRefundGas'')))
     (thenS (modS (\<lambda>s. s\<lparr>rs_selfdestruct := insert selfHex (rs_selfdestruct s)\<rparr>))
     (thenS (whenS (\<not> toSelf)
        (bindS (getAccountS H toAddress) (\<lambda>acc.
         let toAccount = (case acc of None \<Rightarrow> default_account | Some a \<Rightarrow> a) in
         bindS (liftS (loaded ''balance'' (ac_balance toAccount))) (\<lambda>b1.
         bindS (liftS (loaded ''balance'' (ac_balance (en_contract (rs_env s0))))) (\<lambda>b2.
         on_journal (jn_putAccount (ho_lib H) (ho_smgr H) toAddress
           (Some (toAccount\<lparr>ac_balance := Some (b1 + b2)\<rparr>))))))))
     (thenS (whenS (\<not> ho_eip H 6780 \<or> selfHex \<in> en_createdAddresses (rs_env s0) \<or> \<not> toSelf)
        (on_mgr_u (ho_modifyAccountFields H self
          \<lparr>af_nonce = None, af_balance = Some 0, af_storageRoot = None, af_codeHash = None, af_codeSize = None\<rparr>)))
     (trap ''stop'')))))"

section \<open>Access-witness shorthands\<close>

abbreviation stateless :: "('m, 'w) host \<Rightarrow> bool" where
  "stateless H \<equiv> ho_eip H 6800 \<or> ho_eip H 7864"

end
