(* ===== verification/EvmGas.thy ===== *)
theory EvmGas
  imports EvmState
begin

text \<open>
  Gas: the helpers \<open>subMemUsage\<close>, \<open>maxCallGas\<close> and \<open>updateSstoreGas\<close> of
  \<open>packages/evm/src/opcodes/util.ts\<close>, the SSTORE rules of \<open>EIP1283.ts\<close> and \<open>EIP2200.ts\<close>, the
  warm and cold access rules of \<open>EIP2929.ts\<close>, and the dynamic gas handlers of \<open>gas.ts\<close>. A handler
  takes the gas charged so far and answers the new amount; some also grow the memory size, warm
  addresses and slots, change the refund or set the gas limit of a message.
\<close>

section \<open>Helpers\<close>

definition maxCallGas :: "('m, 'w) host \<Rightarrow> int \<Rightarrow> int \<Rightarrow> int" where
  "maxCallGas H gasLimit gasLeft =
     (if ho_gteHardfork H ''tangerineWhistle''
      then let gasAllowed = gasLeft - gasLeft sdiv 64 in
        if gasAllowed < gasLimit then gasAllowed else gasLimit
      else gasLimit)"

definition subMemUsage :: "('m, 'w) host \<Rightarrow> int \<Rightarrow> int \<Rightarrow> ('m, 'w, int) ev" where
  "subMemUsage H offset len s =
     (if len = 0 then (Inr 0, s)
      else
        let newMemoryWordCount = divCeil (offset + len) 32 in
        if newMemoryWordCount \<le> rs_memoryWordCount s then (Inr 0, s)
        else
          let words = newMemoryWordCount;
              fee = ho_param H ''memoryGas'';
              quadCoefficient = ho_param H ''quadCoefficientDivGas'';
              cost = words * fee + (words * words) sdiv quadCoefficient;
              (cost, s) = (if rs_highestMemCost s < cost
                 then (cost - rs_highestMemCost s, s\<lparr>rs_highestMemCost := cost\<rparr>) else (cost, s)) in
          (Inr cost, s\<lparr>rs_memoryWordCount := newMemoryWordCount\<rparr>))"

definition updateSstoreGas :: "('m, 'w) host \<Rightarrow> u8 list \<Rightarrow> u8 list \<Rightarrow> ('m, 'w, int) ev" where
  "updateSstoreGas H currentStorage val =
     (if (length val = 0 \<and> length currentStorage = 0) \<or> (0 < length val \<and> 0 < length currentStorage)
      then retS (ho_param H ''sstoreResetGas'')
      else if length val = 0 \<and> 0 < length currentStorage
      then thenS (refundGas (ho_param H ''sstoreRefundGas'')) (retS (ho_param H ''sstoreResetGas''))
      else retS (ho_param H ''sstoreSetGas''))"

section \<open>EIP-1283\<close>

definition updateSstoreGasEIP1283 ::
    "('m, 'w) host \<Rightarrow> u8 list \<Rightarrow> u8 list \<Rightarrow> u8 list \<Rightarrow> ('m, 'w, int) ev" where
  "updateSstoreGasEIP1283 H currentStorage originalStorage val =
     (if currentStorage = val then retS (ho_param H ''netSstoreNoopGas'')
      else if originalStorage = currentStorage then
        (if length originalStorage = 0 then retS (ho_param H ''netSstoreInitGas'')
         else thenS (whenS (length val = 0) (refundGas (ho_param H ''netSstoreClearRefundGas'')))
              (retS (ho_param H ''netSstoreCleanGas'')))
      else
        thenS (whenS (length originalStorage \<noteq> 0)
          (if length currentStorage = 0 then subRefund (ho_param H ''netSstoreClearRefundGas'')
           else whenS (length val = 0) (refundGas (ho_param H ''netSstoreClearRefundGas''))))
        (thenS (whenS (originalStorage = val)
          (if length originalStorage = 0 then refundGas (ho_param H ''netSstoreResetClearRefundGas'')
           else refundGas (ho_param H ''netSstoreResetRefundGas'')))
        (retS (ho_param H ''netSstoreDirtyGas''))))"

section \<open>EIP-2929\<close>

definition accessAddressEIP2929 ::
    "('m, 'w) host \<Rightarrow> u8 list \<Rightarrow> bool \<Rightarrow> bool \<Rightarrow> ('m, 'w, int) ev" where
  "accessAddressEIP2929 H address chargeGas isSelfdestruct =
     (if \<not> ho_eip H 2929 then retS 0
      else bindS (getS (\<lambda>s. jn_isWarmedAddress (ho_lib H) address (rs_journal s))) (\<lambda>warm.
        if \<not> warm
        then thenS (on_journal (\<lambda>j. Inr (jn_addWarmedAddress (ho_lib H) address j)))
          (if chargeGas \<and> \<not> ho_eip H 7864 then retS (ho_param H ''coldaccountaccessGas'')
           else if chargeGas \<and> ho_eip H 7864 then retS (ho_param H ''warmstoragereadGas'')
           else retS 0)
        else if chargeGas \<and> \<not> isSelfdestruct then retS (ho_param H ''warmstoragereadGas'')
        else retS 0))"

definition accessStorageEIP2929 ::
    "('m, 'w) host \<Rightarrow> u8 list \<Rightarrow> bool \<Rightarrow> bool \<Rightarrow> ('m, 'w, int) ev" where
  "accessStorageEIP2929 H key isSstore chargeGas =
     (if \<not> ho_eip H 2929 then retS 0
      else bindS (getS (en_address \<circ> rs_env)) (\<lambda>address.
        bindS (getS (\<lambda>s. \<not> jn_isWarmedStorage (ho_lib H) address key (rs_journal s))) (\<lambda>slotIsCold.
        if slotIsCold
        then thenS (on_journal (jn_addWarmedStorage (ho_lib H) address key))
          (if chargeGas \<and> \<not> stateless H then retS (ho_param H ''coldsloadGas'') else retS 0)
        else if chargeGas \<and> (\<not> isSstore \<or> stateless H) then retS (ho_param H ''warmstoragereadGas'')
        else retS 0)))"

definition adjustSstoreGasEIP2929 ::
    "('m, 'w) host \<Rightarrow> u8 list \<Rightarrow> int \<Rightarrow> string \<Rightarrow> ('m, 'w, int) ev" where
  "adjustSstoreGasEIP2929 H key defaultCost costName =
     (if \<not> ho_eip H 2929 then retS defaultCost
      else bindS (getS (\<lambda>s. jn_isWarmedStorage (ho_lib H) (en_address (rs_env s)) key (rs_journal s))) (\<lambda>warm.
        let warmRead = ho_param H ''warmstoragereadGas''; coldSload = ho_param H ''coldsloadGas'' in
        if warm then
          if costName = ''noop'' then retS warmRead
          else if costName = ''initRefund'' then retS (ho_param H ''sstoreInitEIP2200Gas'' - warmRead)
          else if costName = ''cleanRefund'' then retS (ho_param H ''sstoreResetGas'' - coldSload - warmRead)
          else retS defaultCost
        else retS defaultCost))"

section \<open>EIP-2200\<close>

definition updateSstoreGasEIP2200 ::
    "('m, 'w) host \<Rightarrow> u8 list \<Rightarrow> u8 list \<Rightarrow> u8 list \<Rightarrow> u8 list \<Rightarrow> ('m, 'w, int) ev" where
  "updateSstoreGasEIP2200 H currentStorage originalStorage val key =
     bindS (getS rs_gasLeft) (\<lambda>gasLeft.
     if gasLeft \<le> ho_param H ''sstoreSentryEIP2200Gas'' then trap ''out of gas''
     else if currentStorage = val
     then adjustSstoreGasEIP2929 H key (ho_param H ''sstoreNoopEIP2200Gas'') ''noop''
     else if originalStorage = currentStorage then
       (if length originalStorage = 0 then retS (ho_param H ''sstoreInitEIP2200Gas'')
        else thenS (whenS (length val = 0) (refundGas (ho_param H ''sstoreClearRefundEIP2200Gas'')))
             (retS (ho_param H ''sstoreCleanEIP2200Gas'')))
     else
       thenS (whenS (0 < length originalStorage)
         (if length currentStorage = 0 then subRefund (ho_param H ''sstoreClearRefundEIP2200Gas'')
          else whenS (length val = 0) (refundGas (ho_param H ''sstoreClearRefundEIP2200Gas''))))
       (thenS (whenS (originalStorage = val)
         (if length originalStorage = 0
          then bindS (adjustSstoreGasEIP2929 H key (ho_param H ''sstoreInitRefundEIP2200Gas'') ''initRefund'') refundGas
          else bindS (adjustSstoreGasEIP2929 H key (ho_param H ''sstoreCleanRefundEIP2200Gas'') ''cleanRefund'') refundGas))
       (retS (ho_param H ''sstoreDirtyEIP2200Gas''))))"

section \<open>Dynamic gas\<close>

type_synonym ('m, 'w) gas_handler = "int \<Rightarrow> ('m, 'w, int) ev"

definition DELEGATION_7702_FLAG :: "u8 list" where
  "DELEGATION_7702_FLAG = [0xef, 0x01, 0x00]"

definition addrE :: "('m, 'w) host \<Rightarrow> int \<Rightarrow> ('m, 'w, u8 list) ev" where
  "addrE H v = liftS (createAddressFromStackBigInt (ho_lib H) v)"

definition wordE :: "('m, 'w) host \<Rightarrow> int \<Rightarrow> ('m, 'w, u8 list) ev" where
  "wordE H v = liftS (word_bytes (ho_lib H) v)"

text \<open>\<open>gas += subMemUsage(...)\<close>\<close>

definition mem_gas :: "('m, 'w) host \<Rightarrow> int \<Rightarrow> int \<Rightarrow> int \<Rightarrow> ('m, 'w, int) ev" where
  "mem_gas H offset len gas = bindS (subMemUsage H offset len) (\<lambda>c. retS (gas + c))"

definition access_gas :: "('m, 'w) host \<Rightarrow> u8 list \<Rightarrow> bool \<Rightarrow> bool \<Rightarrow> int \<Rightarrow> ('m, 'w, int) ev" where
  "access_gas H address charge selfdestruct gas =
     (if ho_eip H 2929
      then bindS (accessAddressEIP2929 H address charge selfdestruct) (\<lambda>c. retS (gas + c)) else retS gas)"

text \<open>The access witness charges first; when it charged anything, EIP-2929 does not.\<close>

definition witness_gas ::
    "bool \<Rightarrow> ('w \<Rightarrow> int \<times> 'w) \<Rightarrow> int \<Rightarrow> ('m, 'w, int \<times> bool) ev" where
  "witness_gas cond f gas =
     (if cond then bindS (on_witness f) (\<lambda>coldAccessGas. retS (gas + coldAccessGas, coldAccessGas = 0))
      else retS (gas, True))"

definition not_system :: "('m, 'w) host \<Rightarrow> u8 list \<Rightarrow> ('m, 'w, bool) ev" where
  "not_system H address =
     (if stateless H \<and> \<not> ho_isPrecompile H address
      then bindS (addrE H (ho_param H ''systemAddress'')) (\<lambda>a. retS (address \<noteq> a)) else retS False)"

definition copy_gas :: "('m, 'w) host \<Rightarrow> int \<Rightarrow> int \<Rightarrow> int" where
  "copy_gas H dataLength gas =
     (if dataLength \<noteq> 0 then gas + ho_param H ''copyGas'' * divCeil dataLength 32 else gas)"

definition eip7702GasCost :: "('m, 'w) host \<Rightarrow> u8 list \<Rightarrow> bool \<Rightarrow> ('m, 'w, int) ev" where
  "eip7702GasCost H address charge2929Gas =
     bindS (on_mgr (ho_getCode H address)) (\<lambda>code.
     if slice 0 3 code = DELEGATION_7702_FLAG
     then accessAddressEIP2929 H (slice 3 24 code) charge2929Gas False
     else retS 0)"

definition gas_EXP :: "('m, 'w) host \<Rightarrow> ('m, 'w) gas_handler" where
  "gas_EXP H gas =
     bindS (s_peek 2) (\<lambda>xs. let exponent = xs ! 1 in
     if exponent = 0 then retS gas
     else
       let byteLength = (bin_length (nat exponent) + 7) div 8 in
       if byteLength < 1 \<or> 32 < byteLength then trap ''value out of range''
       else retS (gas + int byteLength * ho_param H ''expByteGas''))"

definition gas_KECCAK256 :: "('m, 'w) host \<Rightarrow> ('m, 'w) gas_handler" where
  "gas_KECCAK256 H gas =
     bindS (s_peek 2) (\<lambda>xs.
     bindS (mem_gas H (xs ! 0) (xs ! 1) gas) (\<lambda>gas.
     retS (gas + ho_param H ''keccak256WordGas'' * divCeil (xs ! 1) 32)))"

definition gas_BALANCE :: "('m, 'w) host \<Rightarrow> ('m, 'w) gas_handler" where
  "gas_BALANCE H gas =
     bindS (s_peek 1) (\<lambda>xs.
     bindS (addrE H (xs ! 0)) (\<lambda>address.
     bindS (witness_gas (stateless H) (wo_readAccountBasicData (ho_witness H) address) gas) (\<lambda>(gas, charge).
     access_gas H address charge False gas)))"

definition gas_CALLDATACOPY :: "('m, 'w) host \<Rightarrow> ('m, 'w) gas_handler" where
  "gas_CALLDATACOPY H gas =
     bindS (s_peek 3) (\<lambda>xs.
     bindS (mem_gas H (xs ! 0) (xs ! 2) gas) (\<lambda>gas. retS (copy_gas H (xs ! 2) gas)))"

definition gas_CODECOPY :: "('m, 'w) host \<Rightarrow> ('m, 'w) gas_handler" where
  "gas_CODECOPY H gas =
     bindS (s_peek 3) (\<lambda>xs. let codeOffset = xs ! 1; dataLength = xs ! 2 in
     bindS (mem_gas H (xs ! 0) dataLength gas) (\<lambda>gas.
     bindS (getS rs_env) (\<lambda>en.
     let gas = copy_gas H dataLength gas in
     if dataLength \<noteq> 0 \<and> stateless H \<and> en_chargeCodeAccesses en
     then let codeEnd = min (codeOffset + dataLength) (int (length (en_code en))) in
       bindS (on_witness (wo_readAccountCodeChunks (ho_witness H) (en_address en) codeOffset codeEnd)) (\<lambda>c.
       retS (gas + c))
     else retS gas)))"

definition gas_EXTCODESIZE :: "('m, 'w) host \<Rightarrow> ('m, 'w) gas_handler" where
  "gas_EXTCODESIZE H gas =
     bindS (s_peek 1) (\<lambda>xs.
     bindS (addrE H (xs ! 0)) (\<lambda>address.
     bindS (not_system H address) (\<lambda>cond.
     bindS (witness_gas cond (wo_readAccountBasicData (ho_witness H) address) gas) (\<lambda>(gas, charge).
     access_gas H address charge False gas))))"

definition gas_EXTCODECOPY :: "('m, 'w) host \<Rightarrow> ('m, 'w) gas_handler" where
  "gas_EXTCODECOPY H gas =
     bindS (s_peek 4) (\<lambda>xs. let codeOffset = xs ! 2; dataLength = xs ! 3 in
     bindS (addrE H (xs ! 0)) (\<lambda>address.
     bindS (mem_gas H (xs ! 1) dataLength gas) (\<lambda>gas.
     bindS (not_system H address) (\<lambda>cond.
     bindS (witness_gas cond (wo_readAccountBasicData (ho_witness H) address) gas) (\<lambda>(gas, charge).
     bindS (access_gas H address charge False gas) (\<lambda>gas.
     let gas = copy_gas H dataLength gas in
     if dataLength \<noteq> 0 \<and> stateless H
     then bindS (on_mgr (ho_getCode H address)) (\<lambda>code.
       let codeEnd = min (codeOffset + dataLength) (int (length code)) in
       bindS (on_witness (wo_readAccountCodeChunks (ho_witness H) address codeOffset codeEnd)) (\<lambda>c.
       retS (gas + c)))
     else retS gas))))))"

definition gas_RETURNDATACOPY :: "('m, 'w) host \<Rightarrow> ('m, 'w) gas_handler" where
  "gas_RETURNDATACOPY H gas =
     bindS (s_peek 3) (\<lambda>xs.
     bindS (getS id) (\<lambda>s.
     if int (length (rs_returnBytes s)) < xs ! 1 + xs ! 2 \<and> en_eof (rs_env s) = None
     then trap ''out of gas''
     else bindS (mem_gas H (xs ! 0) (xs ! 2) gas) (\<lambda>gas. retS (copy_gas H (xs ! 2) gas))))"

definition gas_EXTCODEHASH :: "('m, 'w) host \<Rightarrow> ('m, 'w) gas_handler" where
  "gas_EXTCODEHASH H gas =
     bindS (s_peek 1) (\<lambda>xs.
     bindS (addrE H (xs ! 0)) (\<lambda>address.
     bindS (not_system H address) (\<lambda>cond.
     bindS (witness_gas cond (wo_readAccountCodeHash (ho_witness H) address) gas) (\<lambda>(gas, charge).
     access_gas H address charge False gas))))"

definition gas_MLOAD :: "('m, 'w) host \<Rightarrow> ('m, 'w) gas_handler" where
  "gas_MLOAD H gas = bindS (s_peek 1) (\<lambda>xs. mem_gas H (xs ! 0) 32 gas)"

definition gas_MSTORE :: "('m, 'w) host \<Rightarrow> ('m, 'w) gas_handler" where
  "gas_MSTORE H gas = bindS (s_peek 1) (\<lambda>xs. mem_gas H (xs ! 0) 32 gas)"

definition gas_MSTORE8 :: "('m, 'w) host \<Rightarrow> ('m, 'w) gas_handler" where
  "gas_MSTORE8 H gas = bindS (s_peek 1) (\<lambda>xs. mem_gas H (xs ! 0) 1 gas)"

definition gas_SLOAD :: "('m, 'w) host \<Rightarrow> ('m, 'w) gas_handler" where
  "gas_SLOAD H gas =
     bindS (s_peek 1) (\<lambda>xs. let key = xs ! 0 in
     bindS (wordE H key) (\<lambda>keyBuf.
     bindS (getS (en_address \<circ> rs_env)) (\<lambda>address.
     bindS (witness_gas (stateless H) (wo_readAccountStorage (ho_witness H) address key) gas) (\<lambda>(gas, charge).
     if ho_eip H 2929
     then bindS (accessStorageEIP2929 H keyBuf False charge) (\<lambda>c. retS (gas + c))
     else retS gas))))"

text \<open>The shortest byte form of a value to store, empty for zero.\<close>

definition stored_value :: "('m, 'w) host \<Rightarrow> int \<Rightarrow> ('m, 'w, u8 list) ev" where
  "stored_value H val = (if val = 0 then retS [] else liftS (bigIntToBytes (ho_lib H) val))"

definition gas_SSTORE :: "('m, 'w) host \<Rightarrow> ('m, 'w) gas_handler" where
  "gas_SSTORE H gas =
     bindS (getS rs_env) (\<lambda>en.
     if en_isStatic en then trap ''static state change''
     else
       bindS (s_peek 2) (\<lambda>xs. let key = xs ! 0; val = xs ! 1 in
       bindS (wordE H key) (\<lambda>keyBytes.
       bindS (stored_value H val) (\<lambda>v.
       bindS (storageLoad H keyBytes False) (\<lambda>cur.
       bindS (storageLoad H keyBytes True) (\<lambda>orig.
       let currentStorage = setLengthLeftStorage cur; originalStorage = setLengthLeftStorage orig in
       bindS (if ho_hardfork H = ''constantinople''
              then updateSstoreGasEIP1283 H currentStorage originalStorage (setLengthLeftStorage v)
              else if ho_gteHardfork H ''istanbul''
              then (if \<not> stateless H
                    then updateSstoreGasEIP2200 H currentStorage originalStorage (setLengthLeftStorage v) keyBytes
                    else retS 0)
              else updateSstoreGas H currentStorage (setLengthLeftStorage v)) (\<lambda>c.
       bindS (witness_gas (stateless H) (wo_writeAccountStorage (ho_witness H) (en_address en) key) (gas + c))
         (\<lambda>(gas, charge).
       if ho_eip H 2929
       then bindS (accessStorageEIP2929 H keyBytes True charge) (\<lambda>c. retS (gas + c))
       else retS gas))))))))"

definition gas_MCOPY :: "('m, 'w) host \<Rightarrow> ('m, 'w) gas_handler" where
  "gas_MCOPY H gas =
     bindS (s_peek 3) (\<lambda>xs. let dst = xs ! 0; src = xs ! 1; len = xs ! 2;
       gas = gas + 3 * ((len + 31) sdiv 32) in
     bindS (mem_gas H src len gas) (mem_gas H dst len))"

definition gas_LOG :: "('m, 'w) host \<Rightarrow> ('m, 'w) gas_handler" where
  "gas_LOG H gas =
     bindS (getS id) (\<lambda>s.
     if en_isStatic (rs_env s) then trap ''static state change''
     else
       bindS (s_peek 2) (\<lambda>xs. let topicsCount = int (rs_opCode s) - 0xa0 in
       if topicsCount < 0 \<or> 4 < topicsCount then trap ''value out of range''
       else bindS (mem_gas H (xs ! 0) (xs ! 1) gas) (\<lambda>gas.
         retS (gas + (ho_param H ''logTopicGas'' * topicsCount + xs ! 1 * ho_param H ''logDataGas'')))))"

definition need_eof :: "('m, 'w, eof_env) ev" where
  "need_eof = bindS (getS (en_eof \<circ> rs_env)) (\<lambda>e. case e of None \<Rightarrow> trap ''invalid opcode'' | Some eo \<Rightarrow> retS eo)"

definition gas_DATACOPY :: "('m, 'w) host \<Rightarrow> ('m, 'w) gas_handler" where
  "gas_DATACOPY H gas =
     thenS need_eof
     (bindS (s_peek 3) (\<lambda>xs.
      bindS (mem_gas H (xs ! 0) (xs ! 2) gas) (\<lambda>gas. retS (copy_gas H (xs ! 2) gas))))"

definition set_messageGas :: "int \<Rightarrow> ('m, 'w, unit) ev" where
  "set_messageGas g = modS (\<lambda>s. s\<lparr>rs_messageGasLimit := Some g\<rparr>)"

text \<open>\<open>containerSections[containerIndex]\<close> out of range is \<open>undefined\<close>, whose length is a
  \<open>TypeError\<close>.\<close>

definition container_at :: "eof_env \<Rightarrow> u8 list \<Rightarrow> int \<Rightarrow> ('m, 'w, u8 list) ev" where
  "container_at eo code pc =
     (case at code (nat pc) of None \<Rightarrow> failS (Throw ''TypeError'')
      | Some b \<Rightarrow> (case at (eo_containers eo) (unat b) of None \<Rightarrow> failS (Throw ''TypeError'') | Some c \<Rightarrow> retS c))"

definition gas_EOFCREATE :: "('m, 'w) host \<Rightarrow> ('m, 'w) gas_handler" where
  "gas_EOFCREATE H gas =
     bindS need_eof (\<lambda>eo.
     bindS (getS id) (\<lambda>s.
     bindS (s_peek 4) (\<lambda>xs.
     bindS (mem_gas H (xs ! 2) (xs ! 3) gas) (\<lambda>gas.
     bindS (container_at eo (en_code (rs_env s)) (rs_pc s + 1)) (\<lambda>container.
     let gas = gas + ho_param H ''keccak256WordGas'' * divCeil (int (length container)) 32;
         gasLeft = rs_gasLeft s - gas in
     thenS (set_messageGas (maxCallGas H gasLeft gasLeft)) (retS gas))))))"

definition gas_RETURNCONTRACT :: "('m, 'w) host \<Rightarrow> ('m, 'w) gas_handler" where
  "gas_RETURNCONTRACT H gas = bindS (s_peek 2) (\<lambda>xs. mem_gas H (xs ! 0) (xs ! 1) gas)"

definition initcode_gas :: "('m, 'w) host \<Rightarrow> int \<Rightarrow> int \<Rightarrow> int" where
  "initcode_gas H len gas =
     (if ho_eip H 3860 then gas + ((len + 31) sdiv 32) * ho_param H ''initCodeWordGas'' else gas)"

definition gas_CREATE :: "('m, 'w) host \<Rightarrow> ('m, 'w) gas_handler" where
  "gas_CREATE H gas =
     bindS (getS rs_env) (\<lambda>en.
     if en_isStatic en then trap ''static state change''
     else
       bindS (s_peek 3) (\<lambda>xs.
       bindS (access_gas H (en_address en) False False gas) (\<lambda>gas.
       bindS (mem_gas H (xs ! 1) (xs ! 2) (initcode_gas H (xs ! 2) gas)) (\<lambda>gas.
       bindS (getS rs_gasLeft) (\<lambda>left. let gasLimit = left - gas in
       thenS (set_messageGas (maxCallGas H gasLimit gasLimit)) (retS gas))))))"

definition gas_CREATE2 :: "('m, 'w) host \<Rightarrow> ('m, 'w) gas_handler" where
  "gas_CREATE2 H gas =
     bindS (getS rs_env) (\<lambda>en.
     if en_isStatic en then trap ''static state change''
     else
       bindS (s_peek 4) (\<lambda>xs.
       bindS (mem_gas H (xs ! 1) (xs ! 2) gas) (\<lambda>gas.
       bindS (access_gas H (en_address en) False False gas) (\<lambda>gas.
       let gas = initcode_gas H (xs ! 2) gas + ho_param H ''keccak256WordGas'' * divCeil (xs ! 2) 32 in
       bindS (getS rs_gasLeft) (\<lambda>left. let gasLimit = left - gas in
       thenS (set_messageGas (maxCallGas H gasLimit gasLimit)) (retS gas))))))"

section \<open>Gas of calls\<close>

definition delegation_gas :: "('m, 'w) host \<Rightarrow> u8 list \<Rightarrow> bool \<Rightarrow> int \<Rightarrow> ('m, 'w, int) ev" where
  "delegation_gas H address charge gas =
     (if ho_eip H 7702 then bindS (eip7702GasCost H address charge) (\<lambda>c. retS (gas + c)) else retS gas)"

definition isEmptyS :: "account option \<Rightarrow> ('m, 'w, bool) ev" where
  "isEmptyS acc = (case acc of None \<Rightarrow> retS True | Some a \<Rightarrow> liftS (account_isEmpty a))"

definition gas_CALL :: "('m, 'w) host \<Rightarrow> ('m, 'w) gas_handler" where
  "gas_CALL H gas =
     bindS (s_peek 7) (\<lambda>xs. let currentGasLimit = xs ! 0; val = xs ! 2 in
     bindS (addrE H (xs ! 1)) (\<lambda>toAddress.
     bindS (getS rs_env) (\<lambda>en.
     if en_isStatic en \<and> val \<noteq> 0 then trap ''static state change''
     else
       bindS (mem_gas H (xs ! 3) (xs ! 4) gas) (\<lambda>gas.
       bindS (mem_gas H (xs ! 5) (xs ! 6) gas) (\<lambda>gas.
       bindS (if stateless H \<and> \<not> ho_isPrecompile H toAddress
              then bindS (on_witness (wo_readAccountBasicData (ho_witness H) toAddress)) (\<lambda>coldAccessGas.
                bindS (if val \<noteq> 0
                       then bindS (on_witness (wo_writeAccountBasicData (ho_witness H) (en_address en))) (\<lambda>c1.
                            bindS (on_witness (wo_writeAccountBasicData (ho_witness H) toAddress)) (\<lambda>c2.
                            retS (gas + c1 + c2)))
                       else retS gas) (\<lambda>gas.
                retS (gas + coldAccessGas, coldAccessGas = 0)))
              else retS (gas, True)) (\<lambda>(gas, charge).
       bindS (access_gas H toAddress charge False gas) (\<lambda>gas.
       bindS (delegation_gas H toAddress charge gas) (\<lambda>gas.
       let gas = (if val \<noteq> 0 \<and> \<not> ho_eip H 6800 \<and> \<not> ho_eip H 7864
                  then gas + ho_param H ''callValueTransferGas'' else gas) in
       bindS (getAccountS H toAddress) (\<lambda>acc.
       bindS (if ho_gteHardfork H ''spuriousDragon''
              then bindS (isEmptyS acc) (\<lambda>dead.
                retS (if dead \<and> val \<noteq> 0 then gas + ho_param H ''callNewAccountGas'' else gas))
              else retS (if acc = None then gas + ho_param H ''callNewAccountGas'' else gas)) (\<lambda>gas.
       bindS (getS rs_gasLeft) (\<lambda>left.
       let gasLimit = maxCallGas H currentGasLimit (left - gas) in
       if left - gas < gasLimit then trap ''out of gas''
       else if left < gas then trap ''out of gas''
       else thenS (set_messageGas gasLimit) (retS gas))))))))))))"

definition gas_CALLCODE :: "('m, 'w) host \<Rightarrow> ('m, 'w) gas_handler" where
  "gas_CALLCODE H gas =
     bindS (s_peek 7) (\<lambda>xs. let currentGasLimit = xs ! 0; val = xs ! 2 in
     bindS (addrE H (xs ! 1)) (\<lambda>toAddress.
     bindS (mem_gas H (xs ! 3) (xs ! 4) gas) (\<lambda>gas.
     bindS (mem_gas H (xs ! 5) (xs ! 6) gas) (\<lambda>gas.
     bindS (witness_gas (stateless H \<and> \<not> ho_isPrecompile H toAddress)
       (wo_readAccountBasicData (ho_witness H) toAddress) gas) (\<lambda>(gas, charge).
     bindS (access_gas H toAddress charge False gas) (\<lambda>gas.
     bindS (delegation_gas H toAddress charge gas) (\<lambda>gas.
     let gas = (if val \<noteq> 0 then gas + ho_param H ''callValueTransferGas'' else gas) in
     bindS (getS rs_gasLeft) (\<lambda>left.
     let gasLimit = maxCallGas H currentGasLimit (left - gas) in
     if left - gas < gasLimit then trap ''out of gas''
     else thenS (set_messageGas gasLimit) (retS gas)))))))))"

definition gas_RETURN :: "('m, 'w) host \<Rightarrow> ('m, 'w) gas_handler" where
  "gas_RETURN H gas = bindS (s_peek 2) (\<lambda>xs. mem_gas H (xs ! 0) (xs ! 1) gas)"

definition gas_DELEGATECALL :: "('m, 'w) host \<Rightarrow> ('m, 'w) gas_handler" where
  "gas_DELEGATECALL H gas =
     bindS (s_peek 6) (\<lambda>xs. let currentGasLimit = xs ! 0 in
     bindS (addrE H (xs ! 1)) (\<lambda>toAddress.
     bindS (mem_gas H (xs ! 2) (xs ! 3) gas) (\<lambda>gas.
     bindS (mem_gas H (xs ! 4) (xs ! 5) gas) (\<lambda>gas.
     bindS (witness_gas (stateless H \<and> \<not> ho_isPrecompile H toAddress)
       (wo_readAccountBasicData (ho_witness H) toAddress) gas) (\<lambda>(gas, charge).
     bindS (access_gas H toAddress charge False gas) (\<lambda>gas.
     bindS (delegation_gas H toAddress charge gas) (\<lambda>gas.
     bindS (getS rs_gasLeft) (\<lambda>left.
     let gasLimit = maxCallGas H currentGasLimit (left - gas) in
     if left - gas < gasLimit then trap ''out of gas''
     else thenS (set_messageGas gasLimit) (retS gas)))))))))"

definition gas_STATICCALL :: "('m, 'w) host \<Rightarrow> ('m, 'w) gas_handler" where
  "gas_STATICCALL H gas =
     bindS (s_peek 6) (\<lambda>xs. let currentGasLimit = xs ! 0 in
     bindS (mem_gas H (xs ! 2) (xs ! 3) gas) (\<lambda>gas.
     bindS (mem_gas H (xs ! 4) (xs ! 5) gas) (\<lambda>gas.
     bindS (addrE H (xs ! 1)) (\<lambda>toAddress.
     bindS (witness_gas (stateless H \<and> \<not> ho_isPrecompile H toAddress)
       (wo_readAccountBasicData (ho_witness H) toAddress) gas) (\<lambda>(gas, charge).
     bindS (access_gas H toAddress charge False gas) (\<lambda>gas.
     bindS (delegation_gas H toAddress charge gas) (\<lambda>gas.
     bindS (getS rs_gasLeft) (\<lambda>left.
     thenS (set_messageGas (maxCallGas H currentGasLimit (left - gas))) (retS gas)))))))))"

definition EXTCALL_TARGET_MAX :: int where
  "EXTCALL_TARGET_MAX = 2 ^ (8 * 20) - 1"

text \<open>The gas limit of the three EOF calls; \<open>-1\<close> tells the handler to push 1 without a call.\<close>

definition ext_gasLimit :: "('m, 'w) host \<Rightarrow> int \<Rightarrow> bool \<Rightarrow> int" where
  "ext_gasLimit H currentGasAvailable blocked =
     (let reducedGas = currentGasAvailable sdiv 64;
          gasLimit = (if reducedGas < ho_param H ''minRetainedGas''
            then currentGasAvailable - ho_param H ''minRetainedGas'' else currentGasAvailable - reducedGas) in
      if blocked \<or> gasLimit < ho_param H ''minCalleeGas'' then -1 else gasLimit)"

definition gas_EXTCALL :: "('m, 'w) host \<Rightarrow> ('m, 'w) gas_handler" where
  "gas_EXTCALL H gas =
     thenS need_eof
     (bindS (s_peek 4) (\<lambda>xs. let toAddr = xs ! 0; val = xs ! 3 in
      bindS (getS rs_env) (\<lambda>en.
      if en_isStatic en \<and> val \<noteq> 0 then trap ''static state change''
      else
        let gas = (if 0 < val then gas + ho_param H ''callValueTransferGas'' else gas) in
        if EXTCALL_TARGET_MAX < toAddr then trap ''invalid extcall target: address > 20 bytes''
        else
          bindS (mem_gas H (xs ! 1) (xs ! 2) gas) (\<lambda>gas.
          bindS (addrE H toAddr) (\<lambda>toAddress.
          bindS (accessAddressEIP2929 H toAddress True False) (\<lambda>c.
          bindS (if 0 < val
                 then bindS (getAccountS H toAddress) (\<lambda>acc.
                   bindS (isEmptyS acc) (\<lambda>dead.
                   retS (if dead then gas + c + ho_param H ''callNewAccountGas'' else gas + c)))
                 else retS (gas + c)) (\<lambda>gas.
          bindS (getS rs_gasLeft) (\<lambda>left.
          bindS (if int (en_depth en) < ho_param H ''stackLimit''
                 then bindS (liftS (loaded ''balance'' (ac_balance (en_contract en)))) (\<lambda>b. retS (b < val))
                 else retS True) (\<lambda>blocked.
          thenS (set_messageGas (ext_gasLimit H (left - gas) blocked)) (retS gas))))))))))"

definition gas_EXTDELEGATECALL :: "('m, 'w) host \<Rightarrow> ('m, 'w) gas_handler" where
  "gas_EXTDELEGATECALL H gas =
     thenS need_eof
     (bindS (s_peek 3) (\<lambda>xs. let toAddr = xs ! 0 in
      if EXTCALL_TARGET_MAX < toAddr then trap ''invalid extcall target: address > 20 bytes''
      else
        bindS (mem_gas H (xs ! 1) (xs ! 2) gas) (\<lambda>gas.
        bindS (addrE H toAddr) (\<lambda>toAddress.
        bindS (accessAddressEIP2929 H toAddress True False) (\<lambda>c.
        bindS (getS id) (\<lambda>s.
        thenS (set_messageGas (ext_gasLimit H (rs_gasLeft s - (gas + c))
            (ho_param H ''stackLimit'' \<le> int (en_depth (rs_env s))))) (retS (gas + c))))))))"

definition gas_EXTSTATICCALL :: "('m, 'w) host \<Rightarrow> ('m, 'w) gas_handler" where
  "gas_EXTSTATICCALL H gas = gas_EXTDELEGATECALL H gas"

definition gas_REVERT :: "('m, 'w) host \<Rightarrow> ('m, 'w) gas_handler" where
  "gas_REVERT H gas = bindS (s_peek 2) (\<lambda>xs. mem_gas H (xs ! 0) (xs ! 1) gas)"

definition gas_SELFDESTRUCT :: "('m, 'w) host \<Rightarrow> ('m, 'w) gas_handler" where
  "gas_SELFDESTRUCT H gas =
     bindS (getS rs_env) (\<lambda>en.
     if en_isStatic en then trap ''static state change''
     else
       bindS (s_peek 1) (\<lambda>xs.
       bindS (addrE H (xs ! 0)) (\<lambda>toAddress. let contractAddress = en_address en in
       bindS (getExternalBalance H contractAddress) (\<lambda>balance.
       bindS (if ho_gteHardfork H ''spuriousDragon''
              then (if 0 < balance
                    then bindS (getAccountS H toAddress) isEmptyS else retS False)
              else if ho_gteHardfork H ''tangerineWhistle''
              then bindS (getAccountS H toAddress) (\<lambda>acc. retS (acc = None))
              else retS False) (\<lambda>deductGas.
       let gas = (if deductGas then gas + ho_param H ''callNewAccountGas'' else gas); W = ho_witness H in
       bindS (if stateless H \<and> en_chargeCodeAccesses en
              then
                bindS (on_witness (wo_readAccountBasicData W contractAddress)) (\<lambda>c1.
                bindS (if 0 < balance then on_witness (wo_writeAccountBasicData W contractAddress) else retS 0) (\<lambda>c2.
                bindS (on_witness (wo_readAccountBasicData W toAddress)) (\<lambda>c3.
                bindS (if 0 < balance then on_witness (wo_writeAccountBasicData W toAddress) else retS 0) (\<lambda>c4.
                retS (gas + c1 + c2 + (c3 + c4), c3 + c4 = 0)))))
              else retS (gas, True)) (\<lambda>(gas, charge).
       access_gas H toAddress charge True gas))))))"

text \<open>The table \<open>dynamicGasHandlers\<close>.\<close>

definition dynamicGasHandlers :: "('m, 'w) host \<Rightarrow> nat \<Rightarrow> ('m, 'w) gas_handler option" where
  "dynamicGasHandlers H op =
     map_of [(0x0a, gas_EXP H), (0x20, gas_KECCAK256 H), (0x31, gas_BALANCE H), (0x37, gas_CALLDATACOPY H),
       (0x39, gas_CODECOPY H), (0x3b, gas_EXTCODESIZE H), (0x3c, gas_EXTCODECOPY H), (0x3e, gas_RETURNDATACOPY H),
       (0x3f, gas_EXTCODEHASH H), (0x51, gas_MLOAD H), (0x52, gas_MSTORE H), (0x53, gas_MSTORE8 H),
       (0x54, gas_SLOAD H), (0x55, gas_SSTORE H), (0x5e, gas_MCOPY H), (0xa0, gas_LOG H), (0xa1, gas_LOG H),
       (0xa2, gas_LOG H), (0xa3, gas_LOG H), (0xa4, gas_LOG H), (0xd3, gas_DATACOPY H), (0xec, gas_EOFCREATE H),
       (0xee, gas_RETURNCONTRACT H), (0xf0, gas_CREATE H), (0xf1, gas_CALL H), (0xf2, gas_CALLCODE H),
       (0xf3, gas_RETURN H), (0xf4, gas_DELEGATECALL H), (0xf5, gas_CREATE2 H), (0xf8, gas_EXTCALL H),
       (0xf9, gas_EXTDELEGATECALL H), (0xfa, gas_STATICCALL H), (0xfb, gas_EXTSTATICCALL H),
       (0xfd, gas_REVERT H), (0xff, gas_SELFDESTRUCT H)] op"

end
