(* ===== verification/EvmRef.thy ===== *)
theory EvmRef
  imports EvmGas
begin

text \<open>
  A reference instance of the run state and of the host, used by the witnesses: the simple state
  manager and the reference byte library, an access witness that charges nothing, and the Berlin
  and London values of \<open>packages/evm/src/params.ts\<close> for the parameters the gas functions read.
\<close>

definition ref_params :: "(string \<times> int) list" where
  "ref_params =
     [(''memoryGas'', 3), (''quadCoefficientDivGas'', 512), (''copyGas'', 3), (''expByteGas'', 50),
      (''keccak256WordGas'', 6), (''logTopicGas'', 375), (''logDataGas'', 8), (''callValueTransferGas'', 9000),
      (''callNewAccountGas'', 25000), (''callStipendGas'', 2300), (''sstoreSetGas'', 20000), (''sstoreResetGas'', 5000),
      (''sstoreRefundGas'', 15000), (''netSstoreNoopGas'', 200), (''netSstoreInitGas'', 20000),
      (''netSstoreCleanGas'', 5000), (''netSstoreDirtyGas'', 200), (''netSstoreClearRefundGas'', 15000),
      (''netSstoreResetRefundGas'', 4800), (''netSstoreResetClearRefundGas'', 19800),
      (''sstoreSentryEIP2200Gas'', 2300), (''sstoreNoopEIP2200Gas'', 100), (''sstoreDirtyEIP2200Gas'', 100),
      (''sstoreInitEIP2200Gas'', 20000), (''sstoreInitRefundEIP2200Gas'', 19900), (''sstoreCleanEIP2200Gas'', 2900),
      (''sstoreCleanRefundEIP2200Gas'', 4900), (''sstoreClearRefundEIP2200Gas'', 4800), (''coldsloadGas'', 2100),
      (''coldaccountaccessGas'', 2600), (''warmstoragereadGas'', 100), (''selfdestructRefundGas'', 0),
      (''stackLimit'', 1024), (''initCodeWordGas'', 2), (''maxInitCodeSize'', 49152), (''minRetainedGas'', 5000),
      (''minCalleeGas'', 2300)]"

definition ref_param :: "string \<Rightarrow> int" where
  "ref_param name = (case map_of ref_params name of None \<Rightarrow> 0 | Some v \<Rightarrow> v)"

definition ref_witness_ops :: "unit witness_ops" where
  "ref_witness_ops =
     \<lparr>wo_readAccountBasicData = (\<lambda>_ w. (0, w)), wo_writeAccountBasicData = (\<lambda>_ w. (0, w)),
      wo_readAccountCodeHash = (\<lambda>_ w. (0, w)), wo_readAccountCodeChunks = (\<lambda>_ _ _ w. (0, w)),
      wo_readAccountStorage = (\<lambda>_ _ w. (0, w)), wo_writeAccountStorage = (\<lambda>_ _ w. (0, w)),
      wo_readAccountHeader = (\<lambda>_ w. (0, w)), wo_writeAccountHeader = (\<lambda>_ w. (0, w)),
      wo_writeAccountCodeChunks = (\<lambda>_ _ _ w. (0, w)),
      wo_commit = id, wo_revert = id\<rparr>"

definition ref_block :: block_env where
  "ref_block =
     \<lparr>bl_number = 300, bl_coinbase = replicate 20 0, bl_timestamp = 1, bl_difficulty = 0,
      bl_prevRandao = replicate 32 0, bl_gasLimit = 30000000, bl_baseFeePerGas = Some 7, bl_blobGasPrice = Some 1\<rparr>"

definition ref_host :: "(simple_state, unit) host" where
  "ref_host =
     \<lparr>ho_lib = ref_lib, ho_param = ref_param, ho_eip = (\<lambda>n. n \<in> {1153, 2200, 2929, 3529, 3855, 3860, 5656}),
      ho_gteHardfork = (\<lambda>_. True), ho_hardfork = ''cancun'', ho_chainId = 1, ho_isClique = False,
      ho_cliqueSigner = (\<lambda>_. []), ho_smgr = simple_mgr ref_lib,
      ho_getCode = (\<lambda>a m. Inr (ss_getCode ref_lib a m, m)),
      ho_getStorage = (\<lambda>a k m. Inr (ss_getStorage ref_lib a k m, m)),
      ho_putStorage = ss_putStorage ref_lib,
      ho_originalStorage = (\<lambda>a k m. Inr (ss_getOriginal ref_lib a k m)),
      ho_modifyAccountFields = ss_modifyAccountFields ref_lib,
      ho_blockHash = (\<lambda>n. Inr (replicate 32 0)),
      ho_clearStorage = (\<lambda>_. Inr), ho_putCode = ss_putCode ref_lib, ho_chunkPresent = (\<lambda>_ _ _. True),
      ho_isPrecompile = (\<lambda>_. False), ho_runPrecompile = (\<lambda>_ _ _. (0, [], None)),
      ho_parseEOF = (\<lambda>_ _. throw ''EOF''), ho_validateEOF = (\<lambda>_. throw ''EOF''), ho_parseInit = (\<lambda>_. throw ''EOF''),
      ho_allowUnlimitedContractSize = False, ho_allowUnlimitedInitCodeSize = False,
      ho_txGasPrice = 1, ho_txOrigin = replicate 20 0, ho_block = ref_block, ho_witness = ref_witness_ops\<rparr>"

definition ref_env :: env where
  "ref_env =
     \<lparr>en_address = replicate 19 0 @ [1], en_caller = replicate 20 0, en_callData = [], en_callValue = 0,
      en_code = [], en_isStatic = False, en_isCreate = False, en_depth = 0, en_gasPrice = 1,
      en_origin = replicate 20 0, en_block = ref_block, en_contract = default_account,
      en_codeAddress = replicate 20 0, en_gasRefund = 0, en_eof = None, en_blobVersionedHashes = [],
      en_createdAddresses = {}, en_chargeCodeAccesses = False\<rparr>"

definition ref_rs :: "(simple_state, unit) rs" where
  "ref_rs =
     \<lparr>rs_pc = 0, rs_opCode = 254, rs_memory = memory_new, rs_memoryWordCount = 0, rs_highestMemCost = 0,
      rs_stack = stack_new 1024, rs_code = [], rs_shouldDoJumpAnalysis = True, rs_validJumps = [],
      rs_cachedPushes = (\<lambda>_. None), rs_env = ref_env, rs_messageGasLimit = None, rs_gasRefund = 0,
      rs_gasLeft = 100000, rs_returnBytes = [], rs_logs = [], rs_returnValue = None, rs_selfdestruct = {},
      rs_journal = jn_new ss_new, rs_transient = ts_new, rs_witness = ()\<rparr>"

lemma ref_host_sel [simp]:
  "ho_lib ref_host = ref_lib" "ho_param ref_host = ref_param" "ho_gteHardfork ref_host h"
  "ho_eip ref_host n \<longleftrightarrow> n \<in> {1153, 2200, 2929, 3529, 3855, 3860, 5656}"
  "ho_smgr ref_host = simple_mgr ref_lib" "ho_hardfork ref_host = ''cancun''"
  "\<not> ho_isPrecompile ref_host a" "ho_witness ref_host = ref_witness_ops"
  "ho_getCode ref_host a m = Inr (ss_getCode ref_lib a m, m)"
  "ho_getStorage ref_host a k m = Inr (ss_getStorage ref_lib a k m, m)"
  "ho_putStorage ref_host = ss_putStorage ref_lib"
  by (simp_all add: ref_host_def)

lemma ref_rs_sel [simp]:
  "rs_gasLeft ref_rs = 100000" "rs_gasRefund ref_rs = 0" "rs_env ref_rs = ref_env" "rs_pc ref_rs = 0"
  "rs_memoryWordCount ref_rs = 0" "rs_highestMemCost ref_rs = 0" "rs_journal ref_rs = jn_new ss_new"
  "rs_transient ref_rs = ts_new" "rs_stack ref_rs = stack_new 1024" "rs_logs ref_rs = []"
  "rs_selfdestruct ref_rs = {}" "rs_code ref_rs = []" "rs_memory ref_rs = memory_new"
  by (simp_all add: ref_rs_def)

lemmas ref_param_eval = ref_param_def ref_params_def

end
