(* ===== verification/Preserve.thy ===== *)
theory Preserve
  imports EvmGas
begin

text \<open>
  Invariants of the interpreter's computations: which parts of the run state an access to the stack,
  the journal, the state manager or the witness can change, and the reads that handlers and gas
  handlers share.
\<close>

text \<open>An operation that updates one part of the state.\<close>

lemma pres_stack: "(\<And>s st. P s \<Longrightarrow> P (s\<lparr>rs_stack := st\<rparr>)) \<Longrightarrow> preserves E P (on_stack f)"
  by (rule preservesI) (auto simp: on_stack_def split: sum.splits)

lemma pres_mgr:
  "(\<And>s a m. P s \<Longrightarrow> f (jn_sm (rs_journal s)) = Inr (a, m) \<Longrightarrow> P (s\<lparr>rs_journal := (rs_journal s)\<lparr>jn_sm := m\<rparr>\<rparr>)) \<Longrightarrow>
   preserves E P (on_mgr f)"
  by (rule preservesI) (auto simp: on_mgr_def split: sum.splits)

lemma pres_journal:
  "(\<And>s j. P s \<Longrightarrow> f (rs_journal s) = Inr j \<Longrightarrow> P (s\<lparr>rs_journal := j\<rparr>)) \<Longrightarrow> preserves E P (on_journal f)"
  by (rule preservesI) (auto simp: on_journal_def split: sum.splits)

lemma pres_witness: "(\<And>s w. P s \<Longrightarrow> P (s\<lparr>rs_witness := w\<rparr>)) \<Longrightarrow> preserves E P (on_witness f)"
  by (rule preservesI) (auto simp: on_witness_def split: prod.splits)

lemma pres_peek [pres]: "preserves E P (s_peek n)"
proof -
  have "s\<lparr>rs_stack := rs_stack s\<rparr> = s" for s :: "('m, 'w) rs" by simp
  then show ?thesis
    by (intro preservesI) (auto simp: s_peek_def on_stack_def bindE_def split: sum.splits)
qed

section \<open>Reads of the state\<close>

text \<open>The reads of the state manager that handlers and gas handlers make.\<close>

locale reading =
  fixes E :: "js_error \<Rightarrow> ('m, 'w) rs \<Rightarrow> bool" and H :: "('m, 'w) host" and P :: "('m, 'w) rs \<Rightarrow> bool"
  assumes reads_account: "preserves E P (on_mgr (sm_getAccount (ho_smgr H) a))"
    and reads_code: "preserves E P (on_mgr (ho_getCode H a))"
    and reads_storage: "preserves E P (on_mgr (ho_getStorage H a k))"
begin

lemma pres_data [pres]:
  "preserves E P (addrE H v)" "preserves E P (wordE H v)" "preserves E P (bigE H b)" "preserves E P (stored_value H v)"
  "preserves E P need_eof" "preserves E P (container_at eo cs q)" "preserves E P (isEmptyS acc)"
  unfolding addrE_def wordE_def bigE_def stored_value_def need_eof_def container_at_def isEmptyS_def
  by (intro pres)+

lemma pres_reads [pres]:
  "preserves E P (getAccountS H a)" "preserves E P (getExternalBalance H a)" "preserves E P (storageLoad H k False)"
  unfolding getAccountS_def getExternalBalance_def storageLoad_def
  by (simp_all, (intro pres reads_account reads_storage)+)

end

end
