(* ===== verification/GasFrame.thy ===== *)
theory GasFrame
  imports EvmRef Preserve
begin

text \<open>
  What the dynamic gas handlers may change: the memory size, the refund, the message gas limit, the
  warm addresses and slots, the access witness and what reading the state changes. The locale
  \<open>pricing\<close> proves it for every invariant that does not see these; \<open>machine\<close>, the part of the run
  state they leave alone, is an interpretation. Warm and cold charges and the gas limits of calls
  follow.
\<close>

section \<open>Frames\<close>

locale pricing = reading +
  assumes reads_original: "preserves E P (on_mgr (ho_originalStorage H a k))"
    and ign_wordCount: "P s \<Longrightarrow> P (s\<lparr>rs_memoryWordCount := wc\<rparr>)"
    and ign_memCost: "P s \<Longrightarrow> P (s\<lparr>rs_highestMemCost := mc\<rparr>)"
    and ign_refund: "P s \<Longrightarrow> P (s\<lparr>rs_gasRefund := r\<rparr>)"
    and ign_messageGas: "P s \<Longrightarrow> P (s\<lparr>rs_messageGasLimit := mg\<rparr>)"
    and ign_witness: "P s \<Longrightarrow> P (s\<lparr>rs_witness := w\<rparr>)"
    and warms_address: "P s \<Longrightarrow> P (s\<lparr>rs_journal := jn_addWarmedAddress (ho_lib H) a (rs_journal s)\<rparr>)"
    and warms_storage: "P s \<Longrightarrow> jn_addWarmedStorage (ho_lib H) a k (rs_journal s) = Inr j \<Longrightarrow>
      P (s\<lparr>rs_journal := j\<rparr>)"
begin

lemma pres_pricing [pres]:
  "preserves E P (on_witness h)" "preserves E P (refundGas g)" "preserves E P (subRefund g)"
  "preserves E P (set_messageGas g)" "preserves E P (subMemUsage H off len)" "preserves E P (storageLoad H k b)"
  "preserves E P (on_journal (\<lambda>j. Inr (jn_addWarmedAddress (ho_lib H) a j)))"
  "preserves E P (on_journal (jn_addWarmedStorage (ho_lib H) a k))"
proof -
  have w: "P s \<Longrightarrow> P (s\<lparr>rs_highestMemCost := mc, rs_memoryWordCount := wc\<rparr>)" for s mc wc
    by (simp add: ign_wordCount ign_memCost)
  show "preserves E P (on_witness h)" by (rule pres_witness) (rule ign_witness)
  show "preserves E P (refundGas g)" unfolding refundGas_def by (rule pres_mod) (rule ign_refund)
  show "preserves E P (subRefund g)"
    by (rule preservesI) (auto simp: subRefund_def Let_def failS_def ign_refund split: if_splits)
  show "preserves E P (set_messageGas g)" unfolding set_messageGas_def by (rule pres_mod) (rule ign_messageGas)
  show "preserves E P (subMemUsage H off len)"
    by (rule preservesI) (auto simp: subMemUsage_def Let_def w ign_wordCount split: if_splits)
  show "preserves E P (storageLoad H k b)"
    unfolding storageLoad_def by (intro pres reads_storage reads_original)
  show "preserves E P (on_journal (\<lambda>j. Inr (jn_addWarmedAddress (ho_lib H) a j)))"
    by (rule pres_journal) (auto simp: warms_address)
  show "preserves E P (on_journal (jn_addWarmedStorage (ho_lib H) a k))"
    by (rule pres_journal) (rule warms_storage)
qed

lemmas gas_defs =
  mem_gas_def access_gas_def witness_gas_def not_system_def
  accessAddressEIP2929_def accessStorageEIP2929_def adjustSstoreGasEIP2929_def updateSstoreGas_def
  updateSstoreGasEIP1283_def updateSstoreGasEIP2200_def eip7702GasCost_def delegation_gas_def

lemma pres_gas_helpers [pres]:
  "preserves E P (mem_gas H off len g)" "preserves E P (access_gas H a c sd g)"
  "preserves E P (witness_gas b f g)" "preserves E P (not_system H a)"
  "preserves E P (accessAddressEIP2929 H a c sd)" "preserves E P (accessStorageEIP2929 H k ss c)"
  "preserves E P (delegation_gas H a c g)"
  unfolding gas_defs by (intro pres reads_code)+

lemma pres_sstore [pres]:
  "preserves E P (updateSstoreGas H c v)" "preserves E P (updateSstoreGasEIP1283 H c orig v)"
  "preserves E P (updateSstoreGasEIP2200 H c orig v k)"
  unfolding gas_defs by (intro pres)+

lemma pres_gas_calls:
  "preserves E P (gas_CREATE H g)" "preserves E P (gas_CREATE2 H g)" "preserves E P (gas_EOFCREATE H g)"
  "preserves E P (gas_CALL H g)" "preserves E P (gas_CALLCODE H g)" "preserves E P (gas_DELEGATECALL H g)"
  "preserves E P (gas_STATICCALL H g)" "preserves E P (gas_EXTCALL H g)" "preserves E P (gas_EXTDELEGATECALL H g)"
  "preserves E P (gas_EXTSTATICCALL H g)" "preserves E P (gas_SELFDESTRUCT H g)"
  unfolding gas_CREATE_def gas_CREATE2_def gas_EOFCREATE_def gas_CALL_def gas_CALLCODE_def gas_DELEGATECALL_def
    gas_STATICCALL_def gas_EXTCALL_def gas_EXTDELEGATECALL_def gas_EXTSTATICCALL_def gas_SELFDESTRUCT_def
  by (intro pres)+

lemma pres_gas_rest:
  "preserves E P (gas_EXP H g)" "preserves E P (gas_KECCAK256 H g)" "preserves E P (gas_BALANCE H g)"
  "preserves E P (gas_CALLDATACOPY H g)" "preserves E P (gas_CODECOPY H g)" "preserves E P (gas_EXTCODESIZE H g)"
  "preserves E P (gas_EXTCODECOPY H g)" "preserves E P (gas_RETURNDATACOPY H g)" "preserves E P (gas_EXTCODEHASH H g)"
  "preserves E P (gas_MLOAD H g)" "preserves E P (gas_MSTORE H g)" "preserves E P (gas_MSTORE8 H g)"
  "preserves E P (gas_SLOAD H g)" "preserves E P (gas_SSTORE H g)" "preserves E P (gas_MCOPY H g)"
  "preserves E P (gas_LOG H g)" "preserves E P (gas_DATACOPY H g)" "preserves E P (gas_RETURNCONTRACT H g)"
  "preserves E P (gas_RETURN H g)" "preserves E P (gas_REVERT H g)"
  unfolding gas_EXP_def gas_KECCAK256_def gas_BALANCE_def gas_CALLDATACOPY_def gas_CODECOPY_def gas_EXTCODESIZE_def
    gas_EXTCODECOPY_def gas_RETURNDATACOPY_def gas_EXTCODEHASH_def gas_MLOAD_def gas_MSTORE_def gas_MSTORE8_def
    gas_SLOAD_def gas_SSTORE_def gas_MCOPY_def gas_LOG_def gas_DATACOPY_def gas_RETURNCONTRACT_def
    gas_RETURN_def gas_REVERT_def
  by (intro pres reads_code)+

lemma pres_gas_table:
  assumes "dynamicGasHandlers H op = Some f"
  shows "preserves E P (f g)"
  using map_of_SomeD [OF assms [unfolded dynamicGasHandlers_def]]
  unfolding list.set insert_iff prod.inject empty_iff
  by (elim disjE conjE) (simp_all only: pres_gas_calls pres_gas_rest)

end

text \<open>The part of the run state that gas computation leaves alone: all but the memory size, the
  refund, the message gas limit, the journal and the access witness.\<close>

definition machine where
  "machine s = (rs_pc s, rs_opCode s, rs_memory s, rs_stack s, rs_code s, rs_shouldDoJumpAnalysis s,
     rs_validJumps s, rs_cachedPushes s,
     rs_env s, rs_gasLeft s, rs_returnBytes s, rs_logs s, rs_returnValue s, rs_selfdestruct s, rs_transient s)"

lemma machine_ignores:
  "machine (s\<lparr>rs_memoryWordCount := wc\<rparr>) = machine s" "machine (s\<lparr>rs_highestMemCost := mc\<rparr>) = machine s"
  "machine (s\<lparr>rs_gasRefund := r\<rparr>) = machine s" "machine (s\<lparr>rs_messageGasLimit := mg\<rparr>) = machine s"
  "machine (s\<lparr>rs_witness := w\<rparr>) = machine s" "machine (s\<lparr>rs_journal := j\<rparr>) = machine s"
  by (simp_all add: machine_def)

interpretation machine: pricing "\<lambda>_ _. False" H "\<lambda>s. machine s = v" for H :: "('m, 'w) host" and v
  by unfold_locales (simp_all only: machine_ignores, (rule pres_mgr, simp only: machine_ignores)+)

lemma keeps_table: "dynamicGasHandlers H op = Some f \<Longrightarrow> keeps machine (f g)"
  by (blast intro: machine.pres_gas_table)

lemma keeps_gas_calls:
  "keeps machine (gas_CALL H g)" "keeps machine (gas_CALLCODE H g)" "keeps machine (gas_DELEGATECALL H g)"
  by (simp_all add: machine.pres_gas_calls)

text \<open>C31. Computing dynamic gas does not execute the opcode. Whatever handler the table gives for an
  opcode and whatever it answers, the program counter, stack, memory contents, code, gas left,
  environment, transient storage, logs, return data, return value and self-destruct set are those
  it started with. Running a handler before its opcode therefore cannot disturb it.\<close>

theorem dynamic_gas_frame:
  assumes "dynamicGasHandlers H op = Some f"
  shows "machine (snd (f g s)) = machine s"
  by (rule keeps_end [OF keeps_table [OF assms]])

theorem dynamic_gas_frame_witness:
  "machine (snd (gas_SSTORE ref_host 0 ref_rs)) = machine ref_rs"
  using dynamic_gas_frame [where H = ref_host and op = "0x55" and f = "gas_SSTORE ref_host" and g = 0 and s = ref_rs]
  by (simp add: dynamicGasHandlers_def)

section \<open>The gas a call may pass on\<close>

definition call_budget :: "('m, 'w) host \<Rightarrow> int \<Rightarrow> int \<Rightarrow> int \<Rightarrow> bool" where
  "call_budget H requested left l \<longleftrightarrow>
     l \<le> requested \<and> l \<le> left \<and> (l = requested \<or> l = left - left sdiv 64)
     \<and> (ho_gteHardfork H ''tangerineWhistle'' \<longrightarrow> left sdiv 64 \<le> left - l)"

lemma maxCallGas_budget:
  "maxCallGas H r left \<le> left \<Longrightarrow> call_budget H r left (maxCallGas H r left)"
  unfolding call_budget_def maxCallGas_def Let_def by (simp split: if_split)

text \<open>A computation that ends by checking a limit against the gas left and recording it.\<close>

definition records :: "('m, 'w) host \<Rightarrow> int \<Rightarrow> ('m, 'w, int) ev \<Rightarrow> bool" where
  "records H r m \<longleftrightarrow> (\<forall>s g s'. m s = (Inr g, s') \<longrightarrow>
     (\<exists>l. rs_messageGasLimit s' = Some l \<and> call_budget H r (rs_gasLeft s' - g) l))"

named_theorems records \<open>computations that record the gas of a call\<close>

lemma records_bind [records]: "(\<And>a. records H r (f a)) \<Longrightarrow> records H r (bindS m f)"
  unfolding records_def bindS_Inr by blast

lemma records_prod [records]: "(\<And>a b. records H r (f a b)) \<Longrightarrow> records H r (case x of (a, b) \<Rightarrow> f a b)"
  by (cases x) simp

lemma records_let [records]: "(\<And>x. records H r (f x)) \<Longrightarrow> records H r (Let a f)"
  by simp

lemma records_trap [records]: "records H r (trap e)"
  by (simp add: records_def failS_def)

lemma records_trap_if [records]: "records H r m \<Longrightarrow> records H r (if b then trap e else m)"
  by (simp add: records_trap)

lemma records_end [records]:
  "records H r (bindS (getS rs_gasLeft) (\<lambda>left. let l = maxCallGas H r (left - g) in
     if left - g < l then trap e else thenS (set_messageGas l) (retS g)))"
  by (auto simp: records_def bindS_def getS_def set_messageGas_def modS_def retS_def failS_def Let_def
      intro!: maxCallGas_budget split: if_splits)

lemma records_end_call [records]:
  "records H r (bindS (getS rs_gasLeft) (\<lambda>left. let l = maxCallGas H r (left - g) in
     if left - g < l then trap e else if left < g then trap e' else thenS (set_messageGas l) (retS g)))"
  by (auto simp: records_def bindS_def getS_def set_messageGas_def modS_def retS_def failS_def Let_def
      intro!: maxCallGas_budget split: if_splits)

lemma records_peek:
  assumes "\<And>xs. records H (xs ! 0) (f xs)" "keeps machine (bindS (s_peek n) f)"
    and "bindS (s_peek n) f s = (Inr g, s')"
  shows "\<exists>xs l. stack_peek n (rs_stack s) = Inr xs \<and> rs_messageGasLimit s' = Some l
    \<and> call_budget H (xs ! 0) (rs_gasLeft s - g) l"
proof -
  from assms(3) obtain xs s1 where xs: "stack_peek n (rs_stack s) = Inr xs" and f: "f xs s1 = (Inr g, s')"
    by (auto simp: bindS_Inr s_peek_def on_stack_def bindE_eq_Inr split: sum.splits)
  have "rs_gasLeft s' = rs_gasLeft s" using keepsD [OF assms(2,3)] by (simp add: machine_def)
  moreover from assms(1) [of xs] f obtain l where
    "rs_messageGasLimit s' = Some l" "call_budget H (xs ! 0) (rs_gasLeft s' - g) l"
    unfolding records_def by blast
  ultimately show ?thesis using xs by auto
qed

text \<open>C30. The gas passed to a call. When the gas handler of CALL, CALLCODE or DELEGATECALL
  succeeds, the recorded limit of the callee is at most what the caller asked for and at most the
  gas left after the charge; it is the request, or all of it but one sixty-fourth, and from Tangerine
  Whistle on the caller keeps at least that sixty-fourth. A limit beyond the gas left never survives.\<close>

theorem call_gas_budget:
  assumes "(h, n) \<in> {(gas_CALL H, 7), (gas_CALLCODE H, 7), (gas_DELEGATECALL H, 6)}"
    and "h g0 s = (Inr g, s')"
  shows "\<exists>xs l. stack_peek n (rs_stack s) = Inr xs \<and> rs_messageGasLimit s' = Some l
    \<and> call_budget H (xs ! 0) (rs_gasLeft s - g) l"
proof -
  from assms(1) consider "h = gas_CALL H" "n = 7" | "h = gas_CALLCODE H" "n = 7" | "h = gas_DELEGATECALL H" "n = 6"
    by blast
  then show ?thesis
  proof cases
    case 1
    with assms(2) have r: "gas_CALL H g0 s = (Inr g, s')" by simp
    show ?thesis unfolding 1
      by (rule records_peek [OF _ keeps_gas_calls(1) [of H g0, unfolded gas_CALL_def] r [unfolded gas_CALL_def]])
        (unfold Let_def [where s = "_ ! _"], intro records)
  next
    case 2
    with assms(2) have r: "gas_CALLCODE H g0 s = (Inr g, s')" by simp
    show ?thesis unfolding 2
      by (rule records_peek [OF _ keeps_gas_calls(2) [of H g0, unfolded gas_CALLCODE_def] r [unfolded gas_CALLCODE_def]])
        (unfold Let_def [where s = "_ ! _"], intro records)
  next
    case 3
    with assms(2) have r: "gas_DELEGATECALL H g0 s = (Inr g, s')" by simp
    show ?thesis unfolding 3
      by (rule records_peek [OF _ keeps_gas_calls(3) [of H g0, unfolded gas_DELEGATECALL_def]
            r [unfolded gas_DELEGATECALL_def]])
        (unfold Let_def [where s = "_ ! _"], intro records)
  qed
qed

definition call_rs :: "(simple_state, unit) rs" where
  "call_rs = ref_rs\<lparr>rs_stack := \<lparr>st_store = [0, 0, 0, 0, 0, 5, 90000], st_maxHeight = 1024, st_len = 7\<rparr>\<rparr>"

text \<open>A host before Berlin, where access costs nothing extra.\<close>

definition old_host :: "(simple_state, unit) host" where
  "old_host = ref_host\<lparr>ho_eip := (\<lambda>_. False)\<rparr>"

theorem call_gas_budget_witness:
  "\<exists>l. rs_messageGasLimit (snd (gas_CALLCODE old_host 700 call_rs)) = Some l
    \<and> call_budget old_host 90000 99300 l"
proof -
  obtain a where a: "createAddressFromStackBigInt ref_lib 5 = Inr a"
    using stack_address_eq [OF lib_ok_ref, of 5] by auto
  have m: "maxCallGas old_host 90000 99300 = 90000"
    by (simp add: maxCallGas_def old_host_def sdiv_nonneg)
  have peek: "stack_peek 7 (rs_stack call_rs) = Inr [90000, 5, 0, 0, 0, 0, 0]"
    by (simp add: call_rs_def stack_peek_def eval_nat_numeral)
  have "\<exists>s'. gas_CALLCODE old_host 700 call_rs = (Inr 700, s')"
    using peek a
    by (simp add: gas_CALLCODE_def bindS_def s_peek_def on_stack_def addrE_def liftS_def mem_gas_def subMemUsage_def
        witness_gas_def access_gas_def delegation_gas_def retS_def getS_def set_messageGas_def modS_def
        old_host_def)
      (simp add: call_rs_def Let_def m [unfolded old_host_def] set_messageGas_def modS_def bindS_def retS_def)
  then obtain s' where r: "gas_CALLCODE old_host 700 call_rs = (Inr 700, s')" by blast
  have "rs_gasLeft call_rs - 700 = 99300" by (simp add: call_rs_def)
  then show ?thesis
    using call_gas_budget [of "gas_CALLCODE old_host" 7 old_host 700 call_rs 700 s'] r peek by auto
qed

section \<open>Warm and cold access\<close>

fun sumS :: "('m, 'w, int) ev list \<Rightarrow> ('m, 'w, int) ev" where
  "sumS [] = retS 0"
| "sumS (m # ms) = bindS m (\<lambda>c. bindS (sumS ms) (\<lambda>d. retS (c + d)))"

definition cold_addresses :: "('m, 'w) host \<Rightarrow> u8 list set \<Rightarrow> ('m, 'w) rs \<Rightarrow> u8 list set" where
  "cold_addresses H A s = {a \<in> A. \<not> jn_isWarmedAddress (ho_lib H) a (rs_journal s)}"

definition cold_slots :: "('m, 'w) host \<Rightarrow> u8 list set \<Rightarrow> ('m, 'w) rs \<Rightarrow> u8 list set" where
  "cold_slots H K s = {k \<in> K. \<not> jn_isWarmedStorage (ho_lib H) (en_address (rs_env s)) k (rs_journal s)}"

definition berlin :: "('m, 'w) host \<Rightarrow> bool" where
  "berlin H \<longleftrightarrow> lib_ok (ho_lib H) \<and> ho_eip H 2929 \<and> \<not> ho_eip H 6800 \<and> \<not> ho_eip H 7864"

lemma access_address_step:
  assumes "berlin H" "jn_accessList (rs_journal s) = None"
  shows "\<exists>j. accessAddressEIP2929 H a True False s
      = (Inr (if a \<in> cold_addresses H {a} s then ho_param H ''coldaccountaccessGas'' else ho_param H ''warmstoragereadGas''),
         s\<lparr>rs_journal := j\<rparr>)
    \<and> jn_accessList j = None
    \<and> (\<forall>b. jn_isWarmedAddress (ho_lib H) b j \<longleftrightarrow> b = a \<or> jn_isWarmedAddress (ho_lib H) b (rs_journal s))"
proof (cases "jn_isWarmedAddress (ho_lib H) a (rs_journal s)")
  case True
  have "s\<lparr>rs_journal := rs_journal s\<rparr> = s" by simp
  with True assms show ?thesis
    by (intro exI [of _ "rs_journal s"])
      (auto simp: accessAddressEIP2929_def berlin_def cold_addresses_def bindS_def getS_def retS_def)
next
  case False
  let ?j = "jn_addWarmedAddress (ho_lib H) a (rs_journal s)"
  have "jn_accessList ?j = None" using assms(2) by (simp add: jn_addWarmedAddress_def Let_def)
  moreover have "\<forall>b. jn_isWarmedAddress (ho_lib H) b ?j \<longleftrightarrow> b = a \<or> jn_isWarmedAddress (ho_lib H) b (rs_journal s)"
    using warmth_laws [of "ho_lib H" "rs_journal s"] assms by (auto simp: berlin_def)
  ultimately show ?thesis
    using False assms
    by (intro exI [of _ ?j])
      (simp add: accessAddressEIP2929_def berlin_def cold_addresses_def bindS_def getS_def retS_def on_journal_def)
qed

lemma access_storage_step:
  assumes "berlin H" "jn_accessList (rs_journal s) = None"
  shows "\<exists>j. accessStorageEIP2929 H k False True s
      = (Inr (if k \<in> cold_slots H {k} s then ho_param H ''coldsloadGas'' else ho_param H ''warmstoragereadGas''),
         s\<lparr>rs_journal := j\<rparr>)
    \<and> jn_accessList j = None
    \<and> (\<forall>l. jn_isWarmedStorage (ho_lib H) (en_address (rs_env s)) l j
        \<longleftrightarrow> l = k \<or> jn_isWarmedStorage (ho_lib H) (en_address (rs_env s)) l (rs_journal s))"
proof (cases "jn_isWarmedStorage (ho_lib H) (en_address (rs_env s)) k (rs_journal s)")
  case True
  have "s\<lparr>rs_journal := rs_journal s\<rparr> = s" by simp
  with True assms show ?thesis
    by (intro exI [of _ "rs_journal s"])
      (auto simp: accessStorageEIP2929_def berlin_def cold_slots_def bindS_def getS_def retS_def)
next
  case False
  obtain j where j: "jn_addWarmedStorage (ho_lib H) (en_address (rs_env s)) k (rs_journal s) = Inr j"
    "\<forall>b l. jn_isWarmedStorage (ho_lib H) b l j \<longleftrightarrow>
       b = en_address (rs_env s) \<and> l = k \<or> jn_isWarmedStorage (ho_lib H) b l (rs_journal s)"
    using warmth_laws [of "ho_lib H" "rs_journal s"] assms unfolding berlin_def by blast
  have "jn_accessList j = None"
    using j(1) assms(2) by (auto simp: jn_addWarmedStorage_def jn_addWarmedAddress_def Let_def split: if_splits)
  with False assms j show ?thesis
    by (intro exI [of _ j])
      (simp add: accessStorageEIP2929_def berlin_def cold_slots_def bindS_def getS_def retS_def on_journal_def)
qed

text \<open>The sum over a list in which each new element is cold once.\<close>

lemma card_cold:
  "card {x \<in> set (a # as). \<not> W x} =
     (if W a then 0 else 1) + card {x \<in> set as. \<not> (x = a \<or> W x)}"
proof -
  have fin: "finite {x \<in> set as. \<not> (x = a \<or> W x)}" by simp
  have "{x \<in> set (a # as). \<not> W x} = (if W a then {} else {a}) \<union> {x \<in> set as. \<not> (x = a \<or> W x)}" by auto
  then show ?thesis using fin by (simp add: card_insert_if)
qed

lemma charged_once:
  assumes step: "\<And>s a. P s \<Longrightarrow> \<exists>s'. f a s = (Inr (if W s a then w else c), s') \<and> P s'
      \<and> (\<forall>b. W s' b \<longleftrightarrow> b = a \<or> W s b)" and "P s"
  shows "\<exists>s'. sumS (map f as) s = (Inr (c * int (card {a \<in> set as. \<not> W s a})
      + w * (int (length as) - int (card {a \<in> set as. \<not> W s a}))), s') \<and> P s'"
  using assms(2)
proof (induction as arbitrary: s)
  case Nil
  then show ?case by (simp add: retS_def)
next
  case (Cons a as)
  obtain s1 where 1: "f a s = (Inr (if W s a then w else c), s1)" "P s1" "\<And>b. W s1 b \<longleftrightarrow> b = a \<or> W s b"
    using step [OF Cons.prems] by blast
  obtain s2 where 2: "sumS (map f as) s1 = (Inr (c * int (card {x \<in> set as. \<not> W s1 x})
      + w * (int (length as) - int (card {x \<in> set as. \<not> W s1 x}))), s2)" "P s2"
    using Cons.IH [OF 1(2)] by blast
  have k: "card {x \<in> set (a # as). \<not> W s x} = (if W s a then 0 else 1) + card {x \<in> set as. \<not> W s1 x}"
    unfolding 1(3) by (rule card_cold)
  show ?case unfolding k
    using 1(1) 2 by (simp add: bindS_def retS_def algebra_simps)
qed

text \<open>Each address and each slot pays its cold price once. Under the Berlin rules, a sequence of
  account accesses pays the cold price once for every distinct address that was cold at the start
  and the warm price for every other access; the same holds for a sequence of reads of slots of the
  executing contract, with the cold SLOAD price.\<close>

theorem access_charged_once:
  assumes "berlin H" "jn_accessList (rs_journal s) = None"
  shows "fst (sumS (map (\<lambda>a. accessAddressEIP2929 H a True False) as) s) =
      Inr (ho_param H ''coldaccountaccessGas'' * int (card (cold_addresses H (set as) s))
        + ho_param H ''warmstoragereadGas'' * (int (length as) - int (card (cold_addresses H (set as) s))))
    \<and> fst (sumS (map (\<lambda>k. accessStorageEIP2929 H k False True) ks) s) =
      Inr (ho_param H ''coldsloadGas'' * int (card (cold_slots H (set ks) s))
        + ho_param H ''warmstoragereadGas'' * (int (length ks) - int (card (cold_slots H (set ks) s))))"
proof -
  have 1: "\<exists>s'. accessAddressEIP2929 H a True False s =
      (Inr (if jn_isWarmedAddress (ho_lib H) a (rs_journal s) then ho_param H ''warmstoragereadGas''
            else ho_param H ''coldaccountaccessGas''), s') \<and> jn_accessList (rs_journal s') = None
      \<and> (\<forall>b. jn_isWarmedAddress (ho_lib H) b (rs_journal s') \<longleftrightarrow> b = a \<or> jn_isWarmedAddress (ho_lib H) b (rs_journal s))"
    if "jn_accessList (rs_journal s) = None" for s :: "('a, 'b) rs" and a
    using access_address_step [OF assms(1) that, of a] by (fastforce simp: cold_addresses_def)
  define e where "e = en_address (rs_env s)"
  have 2: "\<exists>s'. accessStorageEIP2929 H k False True s =
      (Inr (if jn_isWarmedStorage (ho_lib H) e k (rs_journal s) then ho_param H ''warmstoragereadGas''
            else ho_param H ''coldsloadGas''), s') \<and> (jn_accessList (rs_journal s') = None \<and> en_address (rs_env s') = e)
      \<and> (\<forall>l. jn_isWarmedStorage (ho_lib H) e l (rs_journal s') \<longleftrightarrow> l = k \<or> jn_isWarmedStorage (ho_lib H) e l (rs_journal s))"
    if "jn_accessList (rs_journal s) = None \<and> en_address (rs_env s) = e" for s :: "('a, 'b) rs" and k
    using access_storage_step [OF assms(1), of s k] that by (fastforce simp: cold_slots_def)
  have A: "\<exists>s'. sumS (map (\<lambda>a. accessAddressEIP2929 H a True False) as) s =
      (Inr (ho_param H ''coldaccountaccessGas'' * int (card (cold_addresses H (set as) s))
        + ho_param H ''warmstoragereadGas'' * (int (length as) - int (card (cold_addresses H (set as) s)))), s')
      \<and> jn_accessList (rs_journal s') = None"
    unfolding cold_addresses_def
    by (rule charged_once [where P = "\<lambda>s. jn_accessList (rs_journal s) = None"
        and W = "\<lambda>s a. jn_isWarmedAddress (ho_lib H) a (rs_journal s)"]) (fact 1, fact assms(2))
  have K: "\<exists>s'. sumS (map (\<lambda>k. accessStorageEIP2929 H k False True) ks) s =
      (Inr (ho_param H ''coldsloadGas'' * int (card (cold_slots H (set ks) s))
        + ho_param H ''warmstoragereadGas'' * (int (length ks) - int (card (cold_slots H (set ks) s)))), s')
      \<and> (jn_accessList (rs_journal s') = None \<and> en_address (rs_env s') = e)"
    unfolding cold_slots_def e_def [symmetric]
    by (rule charged_once [where P = "\<lambda>s. jn_accessList (rs_journal s) = None \<and> en_address (rs_env s) = e"
        and W = "\<lambda>s k. jn_isWarmedStorage (ho_lib H) e k (rs_journal s)"])
      (fact 2, simp only: assms(2) e_def)
  from A K show ?thesis by (elim exE conjE) (simp only: fst_conv)
qed

theorem access_charged_once_witness:
  "fst (sumS (map (\<lambda>a. accessAddressEIP2929 ref_host a True False) [[1], [2], [1]]) ref_rs) = Inr 5300"
proof -
  have "cold_addresses ref_host (set [[1], [2], [1]]) ref_rs = {[1], [2]}"
    by (auto simp: cold_addresses_def jn_isWarmedAddress_def jn_new_def jn_cleanJournal_def)
  then show ?thesis
    using access_charged_once [of ref_host ref_rs "[[1], [2], [1]]" "[]"]
    by (simp del: sumS.simps add: berlin_def ref_param_eval jn_new_def jn_cleanJournal_def)
qed

end
