(* ===== verification/EvmOps.thy ===== *)
theory EvmOps
  imports EvmGas
begin

text \<open>
  The opcode handlers of \<open>packages/evm/src/opcodes/functions.ts\<close> that use more than the stack, apart
  from calls and creates: hashing, the environment, blocks, memory, storage, jumps, pushes, logs,
  the data and control-flow opcodes of EOF code, RETURN, REVERT and SELFDESTRUCT. Each handler is a
  computation over the run state. \<open>Number(x)\<close> on a memory offset keeps \<open>x\<close>: larger offsets than a
  double holds have run out of gas before.
\<close>

type_synonym ('m, 'w) op_handler = "('m, 'w, unit) ev"

section \<open>Helpers\<close>

definition EOFBYTES :: "u8 list" where
  "EOFBYTES = [0xef, 0x00]"

definition isEOF :: "u8 list \<Rightarrow> bool" where
  "isEOF code \<longleftrightarrow> EOFBYTES = slice 0 2 code"

definition describeLocation :: "('m, 'w) host \<Rightarrow> ('m, 'w) rs \<Rightarrow> string" where
  "describeLocation H s =
     (let L = ho_lib H;
          hash = bytesToHex L (keccak_256 L (en_code (rs_env s)));
          address = bytesToHex L (en_address (rs_env s));
          pc = rs_pc s - 1 in
      map char_of (hash @ [47] @ address @ [58] @ to_dec (nat pc)))"

definition jumpIsValid :: "('m, 'w) rs \<Rightarrow> int \<Rightarrow> bool" where
  "jumpIsValid s dest \<longleftrightarrow> 0 \<le> dest \<and> at (rs_validJumps s) (nat dest) = Some 1"

definition push_bytes :: "('m, 'w) host \<Rightarrow> u8 list \<Rightarrow> ('m, 'w, unit) ev" where
  "push_bytes H b = bindS (bigE H b) s_push"

text \<open>Reading memory when the length is not zero, an empty array otherwise.\<close>

definition m_data :: "int \<Rightarrow> int \<Rightarrow> bool \<Rightarrow> ('m, 'w, u8 list) ev" where
  "m_data off len avoidCopy = (if len \<noteq> 0 then m_read off len avoidCopy else retS [])"

text \<open>Copying a slice of \<open>data\<close>, padded with zeros, to memory.\<close>

definition copy_to_memory :: "u8 list \<Rightarrow> int \<Rightarrow> int \<Rightarrow> int \<Rightarrow> ('m, 'w, unit) ev" where
  "copy_to_memory data memOffset dataOffset dataLength =
     whenS (dataLength \<noteq> 0) (m_write memOffset dataLength (getDataSlice data dataOffset dataLength))"

text \<open>A word of \<open>data\<close> at \<open>pos\<close>, padded with zeros on the right.\<close>

definition load_word :: "('m, 'w) host \<Rightarrow> u8 list \<Rightarrow> int \<Rightarrow> ('m, 'w, unit) ev" where
  "load_word H data pos =
     (if int (length data) < pos then s_push 0
      else
        let i = nat pos;
            loaded = slice i (i + 32) data;
            loaded = (if loaded \<noteq> [] then loaded else [0]) in
        bindS (bigE H loaded) (\<lambda>r.
        s_push (if length loaded < 32 then push_bit (8 * (32 - length loaded)) r else r)))"

section \<open>Hashing and environment\<close>

definition op_KECCAK256 :: "('m, 'w) host \<Rightarrow> ('m, 'w) op_handler" where
  "op_KECCAK256 H =
     bindS (s_popN 2) (\<lambda>xs.
     bindS (m_data (xs ! 0) (xs ! 1) False) (\<lambda>data.
     push_bytes H (keccak_256 (ho_lib H) data)))"

definition op_ADDRESS :: "('m, 'w) host \<Rightarrow> ('m, 'w) op_handler" where
  "op_ADDRESS H = bindS (getS (en_address \<circ> rs_env)) (push_bytes H)"

definition op_BALANCE :: "('m, 'w) host \<Rightarrow> ('m, 'w) op_handler" where
  "op_BALANCE H =
     bindS s_pop (\<lambda>a. bindS (addrE H a) (\<lambda>address. bindS (getExternalBalance H address) s_push))"

definition op_ORIGIN :: "('m, 'w) host \<Rightarrow> ('m, 'w) op_handler" where
  "op_ORIGIN H = bindS (getS (en_origin \<circ> rs_env)) (push_bytes H)"

definition op_CALLER :: "('m, 'w) host \<Rightarrow> ('m, 'w) op_handler" where
  "op_CALLER H = bindS (getS (en_caller \<circ> rs_env)) (push_bytes H)"

definition op_CALLVALUE :: "('m, 'w) op_handler" where
  "op_CALLVALUE = bindS (getS (en_callValue \<circ> rs_env)) s_push"

definition op_CALLDATALOAD :: "('m, 'w) host \<Rightarrow> ('m, 'w) op_handler" where
  "op_CALLDATALOAD H = bindS s_pop (\<lambda>pos. bindS (getS (en_callData \<circ> rs_env)) (\<lambda>d. load_word H d pos))"

definition op_CALLDATASIZE :: "('m, 'w) op_handler" where
  "op_CALLDATASIZE = bindS (getS (length \<circ> en_callData \<circ> rs_env)) (\<lambda>n. s_push (int n))"

definition op_CALLDATACOPY :: "('m, 'w) op_handler" where
  "op_CALLDATACOPY =
     bindS (s_popN 3) (\<lambda>xs. bindS (getS (en_callData \<circ> rs_env)) (\<lambda>d. copy_to_memory d (xs ! 0) (xs ! 1) (xs ! 2)))"

definition op_CODESIZE :: "('m, 'w) op_handler" where
  "op_CODESIZE = bindS (getS (length \<circ> en_code \<circ> rs_env)) (\<lambda>n. s_push (int n))"

definition op_CODECOPY :: "('m, 'w) op_handler" where
  "op_CODECOPY =
     bindS (s_popN 3) (\<lambda>xs. bindS (getS (en_code \<circ> rs_env)) (\<lambda>d. copy_to_memory d (xs ! 0) (xs ! 1) (xs ! 2)))"

definition op_GASPRICE :: "('m, 'w) op_handler" where
  "op_GASPRICE = bindS (getS (en_gasPrice \<circ> rs_env)) s_push"

definition op_EXTCODESIZE :: "('m, 'w) host \<Rightarrow> ('m, 'w) op_handler" where
  "op_EXTCODESIZE H =
     bindS s_pop (\<lambda>a. bindS (addrE H a) (\<lambda>address.
     bindS (on_mgr (ho_getCode H address)) (\<lambda>code.
     if isEOF code then s_push (int (length EOFBYTES)) else s_push (int (length code)))))"

definition op_EXTCODECOPY :: "('m, 'w) host \<Rightarrow> ('m, 'w) op_handler" where
  "op_EXTCODECOPY H =
     bindS (s_popN 4) (\<lambda>xs.
     if xs ! 3 \<noteq> 0
     then bindS (addrE H (xs ! 0)) (\<lambda>address.
       bindS (on_mgr (ho_getCode H address)) (\<lambda>code.
       let code = (if isEOF code then EOFBYTES else code) in
       copy_to_memory code (xs ! 1) (xs ! 2) (xs ! 3)))
     else retS ())"

definition op_EXTCODEHASH :: "('m, 'w) host \<Rightarrow> ('m, 'w) op_handler" where
  "op_EXTCODEHASH H =
     bindS s_pop (\<lambda>a. bindS (addrE H a) (\<lambda>address.
     bindS (on_mgr (ho_getCode H address)) (\<lambda>code.
     if isEOF code then push_bytes H (keccak_256 (ho_lib H) EOFBYTES)
     else bindS (getAccountS H address) (\<lambda>acc.
       bindS (isEmptyS acc) (\<lambda>empty.
       if empty then s_push 0
       else bindS (liftS (loaded ''codeHash'' (ac_codeHash (the acc)))) (push_bytes H))))))"

definition op_RETURNDATASIZE :: "('m, 'w) op_handler" where
  "op_RETURNDATASIZE = bindS (getS (length \<circ> rs_returnBytes)) (\<lambda>n. s_push (int n))"

definition op_RETURNDATACOPY :: "('m, 'w) op_handler" where
  "op_RETURNDATACOPY =
     bindS (s_popN 3) (\<lambda>xs. bindS (getS rs_returnBytes) (\<lambda>d. copy_to_memory d (xs ! 0) (xs ! 1) (xs ! 2)))"

section \<open>Blocks\<close>

definition bigIntToAddressBytes :: "lib \<Rightarrow> int \<Rightarrow> u8 list res" where
  "bigIntToAddressBytes L v =
     bindE (bigIntToBytes L v) (\<lambda>addressBytes.
     if 20 < length addressBytes then throw ''Invalid address bytes length''
     else Inr (setLengthLeft addressBytes 20))"

definition op_BLOCKHASH :: "('m, 'w) host \<Rightarrow> ('m, 'w) op_handler" where
  "op_BLOCKHASH H =
     bindS s_pop (\<lambda>number.
     bindS (getS (bl_number \<circ> en_block \<circ> rs_env)) (\<lambda>current.
     let diff = current - number in
     if ho_eip H 7709 then
       if current \<le> number then s_push 0
       else if 256 < diff \<or> diff \<le> 0 then s_push 0
       else
         bindS (liftS (bigIntToAddressBytes (ho_lib H) (ho_param H ''historyStorageAddress''))) (\<lambda>history.
         bindS (wordE H (number smod ho_param H ''historyServeWindow'')) (\<lambda>key.
         thenS (whenS (stateless H)
           (bindS (on_witness (wo_readAccountStorage (ho_witness H) history number)) useGas))
         (bindS (on_mgr (ho_getStorage H history key)) (push_bytes H))))
     else if 256 < diff \<or> diff \<le> 0 then s_push 0
     else bindS (liftS (ho_blockHash H number)) (push_bytes H)))"

definition op_COINBASE :: "('m, 'w) host \<Rightarrow> ('m, 'w) op_handler" where
  "op_COINBASE H = bindS (getBlockCoinbase H) s_push"

definition op_TIMESTAMP :: "('m, 'w) op_handler" where
  "op_TIMESTAMP = bindS (getS (bl_timestamp \<circ> en_block \<circ> rs_env)) s_push"

definition op_NUMBER :: "('m, 'w) op_handler" where
  "op_NUMBER = bindS (getS (bl_number \<circ> en_block \<circ> rs_env)) s_push"

definition op_DIFFICULTY :: "('m, 'w) host \<Rightarrow> ('m, 'w) op_handler" where
  "op_DIFFICULTY H =
     (if ho_eip H 4399 then bindS (getS (bl_prevRandao \<circ> en_block \<circ> rs_env)) (push_bytes H)
      else bindS (getS (bl_difficulty \<circ> en_block \<circ> rs_env)) s_push)"

definition op_GASLIMIT :: "('m, 'w) op_handler" where
  "op_GASLIMIT = bindS (getS (bl_gasLimit \<circ> en_block \<circ> rs_env)) s_push"

definition op_CHAINID :: "('m, 'w) host \<Rightarrow> ('m, 'w) op_handler" where
  "op_CHAINID H = s_push (ho_chainId H)"

definition op_SELFBALANCE :: "('m, 'w) op_handler" where
  "op_SELFBALANCE =
     bindS (getS (en_contract \<circ> rs_env)) (\<lambda>c. bindS (liftS (loaded ''balance'' (ac_balance c))) s_push)"

definition op_BASEFEE :: "('m, 'w) op_handler" where
  "op_BASEFEE = bindS getBlockBaseFee s_push"

definition op_BLOBHASH :: "('m, 'w) op_handler" where
  "op_BLOBHASH =
     bindS s_pop (\<lambda>index. bindS (getS (en_blobVersionedHashes \<circ> rs_env)) (\<lambda>hashes.
     if index < int (length hashes)
     then bindS (liftS (BigInt_hex (hashes ! nat index))) s_push else s_push 0))"

definition op_BLOBBASEFEE :: "('m, 'w) op_handler" where
  "op_BLOBBASEFEE = bindS getBlobBaseFee s_push"

section \<open>Memory, storage and control flow\<close>

definition op_POP :: "('m, 'w) op_handler" where
  "op_POP = bindS s_pop (\<lambda>_. retS ())"

definition op_MLOAD :: "('m, 'w) host \<Rightarrow> ('m, 'w) op_handler" where
  "op_MLOAD H = bindS s_pop (\<lambda>pos. bindS (m_read pos 32 True) (push_bytes H))"

definition op_MSTORE :: "('m, 'w) host \<Rightarrow> ('m, 'w) op_handler" where
  "op_MSTORE H = bindS (s_popN 2) (\<lambda>xs. bindS (wordE H (xs ! 1)) (m_write (xs ! 0) 32))"

definition op_MSTORE8 :: "('m, 'w) host \<Rightarrow> ('m, 'w) op_handler" where
  "op_MSTORE8 H =
     bindS (s_popN 2) (\<lambda>xs. bindS (liftS (bigIntToBytes (ho_lib H) (xs ! 1 AND 255))) (m_write (xs ! 0) 1))"

definition push_stored :: "('m, 'w) host \<Rightarrow> u8 list \<Rightarrow> ('m, 'w, unit) ev" where
  "push_stored H v = (if v \<noteq> [] then push_bytes H v else s_push 0)"

definition op_SLOAD :: "('m, 'w) host \<Rightarrow> ('m, 'w) op_handler" where
  "op_SLOAD H =
     bindS s_pop (\<lambda>key. bindS (wordE H key) (\<lambda>keyBuf. bindS (storageLoad H keyBuf False) (push_stored H)))"

definition op_SSTORE :: "('m, 'w) host \<Rightarrow> ('m, 'w) op_handler" where
  "op_SSTORE H =
     bindS (s_popN 2) (\<lambda>xs.
     bindS (wordE H (xs ! 0)) (\<lambda>keyBuf. bindS (stored_value H (xs ! 1)) (storageStore H keyBuf)))"

definition jump_to :: "('m, 'w) host \<Rightarrow> int \<Rightarrow> ('m, 'w, unit) ev" where
  "jump_to H dest =
     bindS (getS id) (\<lambda>s.
     if int (length (en_code (rs_env s))) < dest then trap (''invalid JUMP at '' @ describeLocation H s)
     else if \<not> jumpIsValid s dest then trap (''invalid JUMP at '' @ describeLocation H s)
     else set_pc dest)"

definition op_JUMP :: "('m, 'w) host \<Rightarrow> ('m, 'w) op_handler" where
  "op_JUMP H = bindS s_pop (jump_to H)"

definition op_JUMPI :: "('m, 'w) host \<Rightarrow> ('m, 'w) op_handler" where
  "op_JUMPI H = bindS (s_popN 2) (\<lambda>xs. whenS (xs ! 1 \<noteq> 0) (jump_to H (xs ! 0)))"

definition op_PC :: "('m, 'w) op_handler" where
  "op_PC = bindS (getS rs_pc) (\<lambda>pc. s_push (pc - 1))"

definition op_MSIZE :: "('m, 'w) op_handler" where
  "op_MSIZE = bindS (getS rs_memoryWordCount) (\<lambda>w. s_push (w * 32))"

definition op_GAS :: "('m, 'w) op_handler" where
  "op_GAS = bindS (getS rs_gasLeft) s_push"

definition op_JUMPDEST :: "('m, 'w) op_handler" where
  "op_JUMPDEST = retS ()"

definition op_TLOAD :: "('m, 'w) host \<Rightarrow> ('m, 'w) op_handler" where
  "op_TLOAD H =
     bindS s_pop (\<lambda>key. bindS (wordE H key) (\<lambda>keyBuf. bindS (transientStorageLoad H keyBuf) (push_stored H)))"

definition op_TSTORE :: "('m, 'w) host \<Rightarrow> ('m, 'w) op_handler" where
  "op_TSTORE H =
     bindS (getS rs_env) (\<lambda>en.
     if en_isStatic en then trap ''static state change''
     else
       bindS (s_popN 2) (\<lambda>xs.
       bindS (wordE H (xs ! 0)) (\<lambda>keyBuf. bindS (stored_value H (xs ! 1)) (transientStorageStore H keyBuf))))"

definition op_MCOPY :: "('m, 'w) op_handler" where
  "op_MCOPY =
     bindS (s_popN 3) (\<lambda>xs. bindS (m_read (xs ! 1) (xs ! 2) True) (m_write (xs ! 0) (xs ! 2)))"

definition op_PUSH0 :: "('m, 'w) op_handler" where
  "op_PUSH0 = s_push 0"

text \<open>The bytes of a push, padded with zeros where the code ends. An entry missing from
  \<open>cachedPushes\<close> would push \<open>undefined\<close>, which the model turns into an error.\<close>

definition push_data :: "u8 list \<Rightarrow> int \<Rightarrow> nat \<Rightarrow> u8 list" where
  "push_data code pc n =
     (let loadedBytes = slice (nat pc) (nat pc + n) code in
      if length loadedBytes < n then setLengthRight loadedBytes n else loadedBytes)"

definition op_PUSH :: "('m, 'w) host \<Rightarrow> ('m, 'w) op_handler" where
  "op_PUSH H =
     bindS (getS id) (\<lambda>s0. let numToPush = rs_opCode s0 - 0x5f in
     thenS (whenS (stateless H \<and> en_chargeCodeAccesses (rs_env s0))
       (let len = int (length (rs_code s0));
            startOffset = min len (rs_pc s0 + 1);
            endOffset = min len (startOffset + int numToPush - 1) in
        bindS (on_witness (wo_readAccountCodeChunks (ho_witness H) (en_address (rs_env s0)) startOffset endOffset)) useGas))
     (bindS (getS id) (\<lambda>s.
      if \<not> rs_shouldDoJumpAnalysis s
      then thenS (case rs_cachedPushes s (nat (rs_pc s)) of
             None \<Rightarrow> failS (Throw ''undefined'') | Some v \<Rightarrow> s_push v) (add_pc (int numToPush))
      else
        thenS (add_pc (int numToPush)) (push_bytes H (push_data (rs_code s) (rs_pc s) numToPush)))))"

definition op_DUP :: "('m, 'w) op_handler" where
  "op_DUP = bindS (getS rs_opCode) (\<lambda>op. on_stack_u (stack_dup (op - 0x7f)))"

definition op_SWAP :: "('m, 'w) op_handler" where
  "op_SWAP = bindS (getS rs_opCode) (\<lambda>op. on_stack_u (stack_swap (op - 0x8f)))"

definition op_LOG :: "('m, 'w) host \<Rightarrow> ('m, 'w) op_handler" where
  "op_LOG H =
     bindS (s_popN 2) (\<lambda>xs.
     bindS (getS rs_opCode) (\<lambda>op. let topicsCount = op - 0xa0 in
     bindS (s_popN topicsCount) (\<lambda>topics.
     bindS (liftS (mapE (word_bytes (ho_lib H)) topics)) (\<lambda>topicsBuf.
     bindS (m_data (xs ! 0) (xs ! 1) False) (\<lambda>mem.
     logS mem (int topicsCount) topicsBuf)))))"

section \<open>EOF code\<close>

definition op_DATALOAD :: "('m, 'w) host \<Rightarrow> ('m, 'w) op_handler" where
  "op_DATALOAD H = bindS need_eof (\<lambda>eo. bindS s_pop (load_word H (eo_data eo)))"

text \<open>The immediate operand after the opcode, \<open>n\<close> bytes at the program counter.\<close>

definition immediate :: "nat \<Rightarrow> ('m, 'w, u8 list) ev" where
  "immediate n = getS (\<lambda>s. slice (nat (rs_pc s)) (nat (rs_pc s) + n) (rs_code s))"

definition op_DATALOADN :: "('m, 'w) host \<Rightarrow> ('m, 'w) op_handler" where
  "op_DATALOADN H =
     bindS need_eof (\<lambda>eo. bindS (immediate 2) (\<lambda>b. bindS (bigE H b) (\<lambda>toLoad.
     thenS (push_bytes H (slice (nat toLoad) (nat toLoad + 32) (eo_data eo))) (add_pc 2))))"

definition op_DATASIZE :: "('m, 'w) op_handler" where
  "op_DATASIZE = bindS need_eof (\<lambda>eo. s_push (int (length (eo_data eo))))"

definition op_DATACOPY :: "('m, 'w) op_handler" where
  "op_DATACOPY =
     bindS need_eof (\<lambda>eo. bindS (s_popN 3) (\<lambda>xs. copy_to_memory (eo_data eo) (xs ! 0) (xs ! 1) (xs ! 2)))"

text \<open>\<open>new DataView(code.buffer).getInt16(i)\<close>, for code that starts its own buffer.\<close>

definition getInt16 :: "u8 list \<Rightarrow> int \<Rightarrow> int res" where
  "getInt16 code i =
     (if i < 0 \<or> int (length code) < i + 2 then throw ''RangeError''
      else Inr (signed_take_bit 15 (int (be_val (slice (nat i) (nat i + 2) code)))))"

definition op_RJUMP :: "('m, 'w) op_handler" where
  "op_RJUMP =
     thenS need_eof (bindS (getS id) (\<lambda>s.
     bindS (liftS (getInt16 (en_code (rs_env s)) (rs_pc s))) (\<lambda>d. add_pc (2 + d))))"

definition op_RJUMPI :: "('m, 'w) op_handler" where
  "op_RJUMPI =
     thenS need_eof (bindS s_pop (\<lambda>cond.
     thenS (whenS (0 < cond) (bindS (getS id) (\<lambda>s.
       bindS (liftS (getInt16 (en_code (rs_env s)) (rs_pc s))) add_pc)))
     (add_pc 2)))"

text \<open>Validated code has its jump table inside the code; an index out of range would make the
  program counter \<open>NaN\<close>.\<close>

definition op_RJUMPV :: "('m, 'w) op_handler" where
  "op_RJUMPV =
     thenS need_eof (bindS (getS id) (\<lambda>s. let code = en_code (rs_env s) in
     case at code (nat (rs_pc s)) of
       None \<Rightarrow> failS (Throw ''NaN'')
     | Some b \<Rightarrow>
        let jumptableEntries = uint b; jumptableSize = (jumptableEntries + 1) * 2 in
        thenS (add_pc 1) (bindS s_pop (\<lambda>jumptableCase.
        if jumptableCase \<le> jumptableEntries
        then bindS (getS rs_pc) (\<lambda>pc.
          bindS (liftS (getInt16 code (pc + jumptableCase * 2))) (\<lambda>d. add_pc (jumptableSize + d)))
        else add_pc jumptableSize))))"

text \<open>The part CALLF and JUMPF share: the section operand and the stack check.\<close>

definition section_target :: "('m, 'w) host \<Rightarrow> eof_env \<Rightarrow> ('m, 'w, nat) ev" where
  "section_target H eo =
     bindS (immediate 2) (\<lambda>b. bindS (liftS (bytesToInt (ho_lib H) b)) (\<lambda>sectionTarget.
     bindS (getS (st_len \<circ> rs_stack)) (\<lambda>stackItems.
     case at (eo_types eo) (nat sectionTarget) of
       None \<Rightarrow> failS (Throw ''TypeError'')
     | Some ty \<Rightarrow>
        if 1024 - et_maxStackHeight ty + et_inputs ty < int stackItems then trap ''Stack overflow''
        else retS (nat sectionTarget))))"

definition set_returnStack :: "int list \<Rightarrow> ('m, 'w, unit) ev" where
  "set_returnStack xs = modS (\<lambda>s. s\<lparr>rs_env := (rs_env s)\<lparr>en_eof :=
     map_option (\<lambda>eo. eo\<lparr>eo_returnStack := xs\<rparr>) (en_eof (rs_env s))\<rparr>\<rparr>)"

definition op_CALLF :: "('m, 'w) host \<Rightarrow> ('m, 'w) op_handler" where
  "op_CALLF H =
     bindS need_eof (\<lambda>eo. bindS (section_target H eo) (\<lambda>t.
     if 1024 \<le> length (eo_returnStack eo) then trap ''Return stack overflow''
     else
       thenS (bindS (getS rs_pc) (\<lambda>pc. set_returnStack (eo_returnStack eo @ [pc + 2])))
       (bindS (liftS (eo_codePosition eo t)) set_pc)))"

definition op_RETF :: "('m, 'w) op_handler" where
  "op_RETF =
     bindS need_eof (\<lambda>eo.
     if eo_returnStack eo = [] then trap ''Trying to return to undefined function''
     else thenS (set_returnStack (butlast (eo_returnStack eo))) (set_pc (last (eo_returnStack eo))))"

definition op_JUMPF :: "('m, 'w) host \<Rightarrow> ('m, 'w) op_handler" where
  "op_JUMPF H =
     bindS need_eof (\<lambda>eo. bindS (section_target H eo) (\<lambda>t. bindS (liftS (eo_codePosition eo t)) set_pc))"

definition op_DUPN :: "('m, 'w) host \<Rightarrow> ('m, 'w) op_handler" where
  "op_DUPN H =
     thenS need_eof (bindS (immediate 1) (\<lambda>b. bindS (bigE H b) (\<lambda>v.
     thenS (on_stack_u (stack_dup (nat v + 1))) (add_pc 1))))"

definition op_SWAPN :: "('m, 'w) host \<Rightarrow> ('m, 'w) op_handler" where
  "op_SWAPN H =
     thenS need_eof (bindS (immediate 1) (\<lambda>b. bindS (bigE H b) (\<lambda>v.
     thenS (on_stack_u (stack_swap (nat v + 1))) (add_pc 1))))"

definition op_EXCHANGE :: "('m, 'w) host \<Rightarrow> ('m, 'w) op_handler" where
  "op_EXCHANGE H =
     thenS need_eof (bindS (immediate 1) (\<lambda>b. bindS (bigE H b) (\<lambda>v.
     let n = nat (drop_bit 4 v) + 1; m = nat (v AND 0x0f) + 1 in
     thenS (on_stack_u (stack_exchange n (n + m))) (add_pc 1))))"

definition op_RETURNDATALOAD :: "('m, 'w) host \<Rightarrow> ('m, 'w) op_handler" where
  "op_RETURNDATALOAD H =
     thenS need_eof (bindS s_pop (\<lambda>pos. bindS (getS rs_returnBytes) (\<lambda>d. load_word H d pos)))"

text \<open>RETURNCONTRACT writes the new size of the data section into the container. \<open>ho_parseInit\<close>
  answers the data size of the header, the length of the data section and the position of the size.\<close>

definition op_RETURNCONTRACT :: "('m, 'w) host \<Rightarrow> ('m, 'w) op_handler" where
  "op_RETURNCONTRACT H =
     bindS need_eof (\<lambda>eo.
     bindS (getS id) (\<lambda>s.
     bindS (container_at eo (en_code (rs_env s)) (rs_pc s)) (\<lambda>containerCode.
     bindS (liftS (ho_parseInit H containerCode)) (\<lambda>(originalDataSize, preDeploy, dataSizePtr).
     bindS (s_popN 2) (\<lambda>xs.
     bindS (m_data (xs ! 0) (xs ! 1) False) (\<lambda>auxData.
     let actualSectionSize = int preDeploy + xs ! 1 in
     if actualSectionSize < int originalDataSize then trap ''invalid RETURNCONTRACT: data size lower than expected''
     else if 0xffff < actualSectionSize then trap ''out of gas''
     else
       bindS (liftS (bigIntToBytes (ho_lib H) actualSectionSize)) (\<lambda>b.
       let newSize = setLengthLeft b 2;
           containerCode = containerCode[dataSizePtr := newSize ! 0, dataSizePtr + 1 := newSize ! 1] in
       finish (containerCode @ auxData))))))))"

section \<open>Ending execution\<close>

definition op_STOP :: "('m, 'w) op_handler" where
  "op_STOP = trap ''stop''"

definition op_RETURN :: "('m, 'w) op_handler" where
  "op_RETURN = bindS (s_popN 2) (\<lambda>xs. bindS (m_data (xs ! 0) (xs ! 1) False) finish)"

definition op_REVERT :: "('m, 'w) op_handler" where
  "op_REVERT = bindS (s_popN 2) (\<lambda>xs. bindS (m_data (xs ! 0) (xs ! 1) False) revert_run)"

definition op_SELFDESTRUCT :: "('m, 'w) host \<Rightarrow> ('m, 'w) op_handler" where
  "op_SELFDESTRUCT H = bindS s_pop (\<lambda>a. bindS (addrE H a) (selfDestruct H))"

end
