(* ===== verification/EvmCalls.thy ===== *)
theory EvmCalls
  imports EvmOps
begin

text \<open>
  Messages and the calls an interpreter makes: \<open>message.ts\<close>, the call and create methods of
  \<open>interpreter.ts\<close> and the handlers of the call and create opcodes of \<open>functions.ts\<close>. The method
  \<open>EVM.runCall\<close> they end in is the argument \<open>rc\<close> here; \<open>EvmRun\<close> ties the knot.

  A message and its callee share two \<open>Set\<close> objects, the addresses to self-destruct and the created
  addresses. A result carries their contents at return.
\<close>

section \<open>Messages and results\<close>

datatype mcode = Bytecode "u8 list" | Precompile "u8 list"

record message =
  mg_to :: "u8 list option"
  mg_value :: int
  mg_caller :: "u8 list"
  mg_gasLimit :: int
  mg_data :: "u8 list"
  mg_eofCallData :: "u8 list option"
  mg_isCreate :: bool
  mg_depth :: nat
  mg_code :: "mcode option"
  mg_codeAddress :: "u8 list option"
  mg_isStatic :: bool
  mg_salt :: "u8 list option"
  mg_chargeCodeAccesses :: bool
  mg_selfdestruct :: "jsstr set"
  mg_createdAddresses :: "jsstr set"
  mg_delegatecall :: bool
  mg_gasRefund :: int
  mg_blobVersionedHashes :: "jsstr list"

record exec_result =
  er_returnValue :: "u8 list"
  er_executionGasUsed :: int
  er_exceptionError :: "string option"
  er_gasRefund :: "int option"
  er_logs :: "log_entry list option"
  er_selfdestruct :: "jsstr set"
  er_createdAddresses :: "jsstr set"

record evm_result =
  ev_createdAddress :: "u8 list option"
  ev_exec :: exec_result
  ev_msgSelfdestruct :: "jsstr set"
  ev_msgCreated :: "jsstr set"

record ('m, 'w) world =
  wd_journal :: "'m journal"
  wd_transient :: tstore
  wd_witness :: 'w

type_synonym ('m, 'w, 'a) wev = "(('m, 'w) world, 'a) stm"
type_synonym ('m, 'w) runner = "message \<Rightarrow> ('m, 'w, evm_result) wev"

text \<open>The constructor of \<open>Message\<close>, with its defaults.\<close>

definition default_message :: message where
  "default_message =
     \<lparr>mg_to = None, mg_value = 0, mg_caller = replicate 20 0, mg_gasLimit = 0, mg_data = [],
      mg_eofCallData = None, mg_isCreate = False, mg_depth = 0, mg_code = None, mg_codeAddress = None,
      mg_isStatic = False, mg_salt = None, mg_chargeCodeAccesses = False, mg_selfdestruct = {},
      mg_createdAddresses = {}, mg_delegatecall = False, mg_gasRefund = 0, mg_blobVersionedHashes = []\<rparr>"

definition message_new :: "message \<Rightarrow> message res" where
  "message_new m =
     (if mg_value m < 0 then throw ''value field cannot be negative'' else Inr m)"

definition codeAddress :: "message \<Rightarrow> u8 list res" where
  "codeAddress m = (case (case mg_codeAddress m of None \<Rightarrow> mg_to m | Some a \<Rightarrow> Some a) of
     None \<Rightarrow> throw ''Missing codeAddress'' | Some a \<Rightarrow> Inr a)"

section \<open>The world inside a run state\<close>

definition world_of :: "('m, 'w) rs \<Rightarrow> ('m, 'w) world" where
  "world_of s = \<lparr>wd_journal = rs_journal s, wd_transient = rs_transient s, wd_witness = rs_witness s\<rparr>"

definition set_world :: "('m, 'w) world \<Rightarrow> ('m, 'w) rs \<Rightarrow> ('m, 'w) rs" where
  "set_world w s = s\<lparr>rs_journal := wd_journal w, rs_transient := wd_transient w, rs_witness := wd_witness w\<rparr>"

definition on_world :: "('m, 'w, 'a) wev \<Rightarrow> ('m, 'w, 'a) ev" where
  "on_world f s = (let (r, w) = f (world_of s) in (r, set_world w s))"

section \<open>Calls of the interpreter\<close>

definition writeCallOutput :: "int \<Rightarrow> int \<Rightarrow> ('m, 'w, unit) ev" where
  "writeCallOutput outOffset outLength =
     bindS (getS rs_returnBytes) (\<lambda>returnData.
     whenS (0 < length returnData)
       (let dataLength = (if int (length returnData) < outLength then int (length returnData) else outLength);
            data = getDataSlice returnData 0 dataLength in
        thenS (m_extend outOffset dataLength) (m_write outOffset dataLength data)))"

definition getReturnCode :: "evm_result \<Rightarrow> bool \<Rightarrow> ('m, 'w, int) ev" where
  "getReturnCode results isEOFCreate =
     bindS (getS rs_env) (\<lambda>en.
     retS (let err = er_exceptionError (ev_exec results) in
       if en_eof en = None \<or> isEOFCreate then (if err \<noteq> None then 0 else 1)
       else case err of Some e \<Rightarrow> if e = ''revert'' then 1 else 2 | None \<Rightarrow> 0))"

definition set_returnBytes :: "u8 list \<Rightarrow> ('m, 'w, unit) ev" where
  "set_returnBytes b = modS (\<lambda>s. s\<lparr>rs_returnBytes := b\<rparr>)"

definition append_logs :: "log_entry list option \<Rightarrow> ('m, 'w, unit) ev" where
  "append_logs ls = (case ls of None \<Rightarrow> retS () | Some l \<Rightarrow> modS (\<lambda>s. s\<lparr>rs_logs := rs_logs s @ l\<rparr>))"

text \<open>Copying the callee's sets to the result, and reading the contract again.\<close>

definition adopt_callee :: "('m, 'w) host \<Rightarrow> evm_result \<Rightarrow> ('m, 'w, unit) ev" where
  "adopt_callee H results =
     thenS (modS (\<lambda>s. s\<lparr>rs_selfdestruct := rs_selfdestruct s \<union> ev_msgSelfdestruct results\<rparr>))
     (thenS (whenS (ho_eip H 6780) (modS (\<lambda>s. s\<lparr>rs_env := (rs_env s)\<lparr>en_createdAddresses :=
         en_createdAddresses (rs_env s) \<union> ev_msgCreated results\<rparr>\<rparr>)))
     (bindS (getS (en_address \<circ> rs_env)) (\<lambda>address.
      bindS (getAccountS H address) (\<lambda>acc.
      case acc of None \<Rightarrow> failS (Throw ''could not read contract account'')
      | Some a \<Rightarrow> modS (\<lambda>s. s\<lparr>rs_env := (rs_env s)\<lparr>en_contract := a\<rparr>,
          rs_gasRefund := (case er_gasRefund (ev_exec results) of None \<Rightarrow> 0 | Some g \<Rightarrow> g)\<rparr>)))))"

text \<open>The contract's balance against a value, read only when the depth allows the call.\<close>

definition call_blocked :: "('m, 'w) host \<Rightarrow> bool \<Rightarrow> int \<Rightarrow> ('m, 'w, bool) ev" where
  "call_blocked H checkBalance val =
     bindS (getS rs_env) (\<lambda>en.
     if ho_param H ''stackLimit'' \<le> int (en_depth en) then retS True
     else if checkBalance
     then bindS (liftS (loaded ''balance'' (ac_balance (en_contract en)))) (\<lambda>b. retS (b < val))
     else retS False)"

definition baseCall :: "('m, 'w) host \<Rightarrow> ('m, 'w) runner \<Rightarrow> message \<Rightarrow> ('m, 'w, int) ev" where
  "baseCall H rc m =
     bindS (getS id) (\<lambda>s0.
     bindS (liftS (message_new m)) (\<lambda>m.
     let msg = m\<lparr>mg_selfdestruct := rs_selfdestruct s0, mg_gasRefund := rs_gasRefund s0,
           mg_createdAddresses := (if ho_eip H 6780 then en_createdAddresses (rs_env s0) else {})\<rparr> in
     thenS (set_returnBytes [])
     (bindS (call_blocked H (\<not> mg_delegatecall msg) (mg_value msg)) (\<lambda>blocked.
     if blocked then retS 0
     else
       bindS (on_world (rc msg)) (\<lambda>results. let r = ev_exec results in
       thenS (append_logs (er_logs r))
       (thenS (useGas (er_executionGasUsed r))
       (thenS (whenS (er_exceptionError r = None \<or> er_exceptionError r = Some ''revert'')
                 (set_returnBytes (er_returnValue r)))
       (thenS (whenS (er_exceptionError r = None) (adopt_callee H results))
       (getReturnCode results False)))))))))"

definition call_message :: "env \<Rightarrow> int \<Rightarrow> u8 list \<Rightarrow> int \<Rightarrow> u8 list \<Rightarrow> message" where
  "call_message en gasLimit address val data = default_message\<lparr>
     mg_caller := en_address en, mg_gasLimit := gasLimit, mg_to := Some address, mg_value := val, mg_data := data,
     mg_isStatic := en_isStatic en, mg_depth := en_depth en + 1,
     mg_blobVersionedHashes := en_blobVersionedHashes en\<rparr>"

definition ev_call :: "('m, 'w) host \<Rightarrow> ('m, 'w) runner \<Rightarrow> int \<Rightarrow> u8 list \<Rightarrow> int \<Rightarrow> u8 list \<Rightarrow> ('m, 'w, int) ev" where
  "ev_call H rc gasLimit address val data =
     bindS (getS rs_env) (\<lambda>en. baseCall H rc (call_message en gasLimit address val data))"

definition ev_callCode :: "('m, 'w) host \<Rightarrow> ('m, 'w) runner \<Rightarrow> int \<Rightarrow> u8 list \<Rightarrow> int \<Rightarrow> u8 list \<Rightarrow> ('m, 'w, int) ev" where
  "ev_callCode H rc gasLimit address val data =
     bindS (getS rs_env) (\<lambda>en. baseCall H rc ((call_message en gasLimit (en_address en) val data)
       \<lparr>mg_codeAddress := Some address\<rparr>))"

definition ev_callStatic :: "('m, 'w) host \<Rightarrow> ('m, 'w) runner \<Rightarrow> int \<Rightarrow> u8 list \<Rightarrow> int \<Rightarrow> u8 list \<Rightarrow> ('m, 'w, int) ev" where
  "ev_callStatic H rc gasLimit address val data =
     bindS (getS rs_env) (\<lambda>en. baseCall H rc ((call_message en gasLimit address val data)\<lparr>mg_isStatic := True\<rparr>))"

definition ev_callDelegate :: "('m, 'w) host \<Rightarrow> ('m, 'w) runner \<Rightarrow> int \<Rightarrow> u8 list \<Rightarrow> int \<Rightarrow> u8 list \<Rightarrow> ('m, 'w, int) ev" where
  "ev_callDelegate H rc gasLimit address val data =
     bindS (getS rs_env) (\<lambda>en. baseCall H rc ((call_message en gasLimit (en_address en) val data)
       \<lparr>mg_caller := en_caller en, mg_codeAddress := Some address, mg_delegatecall := True\<rparr>))"

definition MAX_UINT64 :: int where
  "MAX_UINT64 = 2 ^ 64 - 1"

definition ev_create :: "('m, 'w) host \<Rightarrow> ('m, 'w) runner \<Rightarrow> int \<Rightarrow> int \<Rightarrow> u8 list \<Rightarrow> u8 list option \<Rightarrow> u8 list option
    \<Rightarrow> ('m, 'w, int) ev" where
  "ev_create H rc gasLimit val codeToRun salt eofCallData =
     bindS (getS id) (\<lambda>s0. let en = rs_env s0 in
     thenS (set_returnBytes [])
     (bindS (call_blocked H True val) (\<lambda>blocked.
     if blocked then retS 0
     else
       bindS (liftS (loaded ''nonce'' (ac_nonce (en_contract en)))) (\<lambda>nonce.
       if MAX_UINT64 \<le> nonce then retS 0
       else
         let contract = (en_contract en)\<lparr>ac_nonce := Some (nonce + 1)\<rparr> in
         thenS (modS (\<lambda>s. s\<lparr>rs_env := (rs_env s)\<lparr>en_contract := contract\<rparr>\<rparr>))
         (thenS (on_journal (jn_putAccount (ho_lib H) (ho_smgr H) (en_address en) (Some contract)))
         (if ho_eip H 3860 \<and> ho_param H ''maxInitCodeSize'' < int (length codeToRun)
             \<and> \<not> ho_allowUnlimitedInitCodeSize H
          then retS 0
          else
            bindS (liftS (message_new (default_message\<lparr>mg_caller := en_address en, mg_gasLimit := gasLimit,
              mg_value := val, mg_data := codeToRun, mg_eofCallData := eofCallData, mg_salt := salt,
              mg_depth := en_depth en + 1, mg_selfdestruct := rs_selfdestruct s0, mg_gasRefund := rs_gasRefund s0,
              mg_blobVersionedHashes := en_blobVersionedHashes en,
              mg_createdAddresses := (if ho_eip H 6780 then en_createdAddresses en else {})\<rparr>))) (\<lambda>msg.
            bindS (on_world (rc msg)) (\<lambda>results. let r = ev_exec results; err = er_exceptionError r in
            thenS (append_logs (er_logs r))
            (thenS (useGas (er_executionGasUsed r))
            (thenS (whenS (err = Some ''revert'') (set_returnBytes (er_returnValue r)))
            (if err = None \<or> err = Some ''code store out of gas''
             then thenS (adopt_callee H results)
               (case ev_createdAddress results of Some a \<Rightarrow> bigE H a | None \<Rightarrow> getReturnCode results True)
             else getReturnCode results True)))))))))))"

section \<open>Handlers of call and create opcodes\<close>

text \<open>Taking the message gas limit that the gas handler recorded; it is \<open>undefined\<close> when no gas
  handler ran, which would make the sums below throw.\<close>

definition take_messageGas :: "('m, 'w, int) ev" where
  "take_messageGas =
     bindS (getS rs_messageGasLimit) (\<lambda>g.
     thenS (modS (\<lambda>s. s\<lparr>rs_messageGasLimit := None\<rparr>))
       (case g of None \<Rightarrow> failS (Throw ''TypeError'') | Some v \<Rightarrow> retS v))"

definition initcode_check :: "('m, 'w) host \<Rightarrow> int \<Rightarrow> ('m, 'w, unit) ev" where
  "initcode_check H len =
     whenS (ho_eip H 3860 \<and> ho_param H ''maxInitCodeSize'' < len \<and> \<not> ho_allowUnlimitedInitCodeSize H)
       (trap ''initcode exceeds max initcode size'')"

definition op_CREATE :: "('m, 'w) host \<Rightarrow> ('m, 'w) runner \<Rightarrow> ('m, 'w) op_handler" where
  "op_CREATE H rc =
     bindS (s_popN 3) (\<lambda>xs.
     thenS (initcode_check H (xs ! 2))
     (bindS take_messageGas (\<lambda>gasLimit.
      bindS (m_data (xs ! 1) (xs ! 2) True) (\<lambda>data.
      if isEOF data then s_push 0
      else bindS (ev_create H rc gasLimit (xs ! 0) data None None) s_push))))"

definition op_CREATE2 :: "('m, 'w) host \<Rightarrow> ('m, 'w) runner \<Rightarrow> ('m, 'w) op_handler" where
  "op_CREATE2 H rc =
     bindS (getS rs_env) (\<lambda>en.
     if en_isStatic en then trap ''static state change''
     else
       bindS (s_popN 4) (\<lambda>xs.
       thenS (initcode_check H (xs ! 2))
       (bindS take_messageGas (\<lambda>gasLimit.
        bindS (m_data (xs ! 1) (xs ! 2) True) (\<lambda>data.
        if isEOF data then s_push 0
        else bindS (wordE H (xs ! 3)) (\<lambda>salt.
          bindS (ev_create H rc gasLimit (xs ! 0) data (Some salt) None) s_push))))))"

definition op_EOFCREATE :: "('m, 'w) host \<Rightarrow> ('m, 'w) runner \<Rightarrow> ('m, 'w) op_handler" where
  "op_EOFCREATE H rc =
     bindS need_eof (\<lambda>eo.
     bindS (getS id) (\<lambda>s.
     if en_isStatic (rs_env s) then trap ''static state change''
     else
       bindS (container_at eo (en_code (rs_env s)) (rs_pc s)) (\<lambda>containerCode.
       bindS (s_popN 4) (\<lambda>xs.
       bindS take_messageGas (\<lambda>gasLimit.
       bindS (m_data (xs ! 2) (xs ! 3) True) (\<lambda>data.
       thenS (add_pc 1)
       (bindS (wordE H (xs ! 1)) (\<lambda>salt.
        bindS (ev_create H rc gasLimit (xs ! 0) containerCode (Some salt) (Some data)) s_push))))))))"

definition stipend :: "('m, 'w) host \<Rightarrow> int \<Rightarrow> int \<Rightarrow> ('m, 'w, int) ev" where
  "stipend H val gasLimit =
     (if val \<noteq> 0
      then let callStipend = ho_param H ''callStipendGas'' in
        thenS (addStipend callStipend) (retS (gasLimit + callStipend))
      else retS gasLimit)"

definition op_CALL :: "('m, 'w) host \<Rightarrow> ('m, 'w) runner \<Rightarrow> ('m, 'w) op_handler" where
  "op_CALL H rc =
     bindS (s_popN 7) (\<lambda>xs.
     bindS (addrE H (xs ! 1)) (\<lambda>toAddress.
     bindS (m_data (xs ! 3) (xs ! 4) True) (\<lambda>data.
     bindS take_messageGas (\<lambda>g.
     bindS (stipend H (xs ! 2) g) (\<lambda>gasLimit.
     bindS (ev_call H rc gasLimit toAddress (xs ! 2) data) (\<lambda>ret.
     thenS (writeCallOutput (xs ! 5) (xs ! 6)) (s_push ret)))))))"

definition op_CALLCODE :: "('m, 'w) host \<Rightarrow> ('m, 'w) runner \<Rightarrow> ('m, 'w) op_handler" where
  "op_CALLCODE H rc =
     bindS (s_popN 7) (\<lambda>xs.
     bindS (addrE H (xs ! 1)) (\<lambda>toAddress.
     bindS take_messageGas (\<lambda>g.
     bindS (stipend H (xs ! 2) g) (\<lambda>gasLimit.
     bindS (m_data (xs ! 3) (xs ! 4) True) (\<lambda>data.
     bindS (ev_callCode H rc gasLimit toAddress (xs ! 2) data) (\<lambda>ret.
     thenS (writeCallOutput (xs ! 5) (xs ! 6)) (s_push ret)))))))"

definition op_DELEGATECALL :: "('m, 'w) host \<Rightarrow> ('m, 'w) runner \<Rightarrow> ('m, 'w) op_handler" where
  "op_DELEGATECALL H rc =
     bindS (getS (en_callValue \<circ> rs_env)) (\<lambda>val.
     bindS (s_popN 6) (\<lambda>xs.
     bindS (addrE H (xs ! 1)) (\<lambda>toAddress.
     bindS (m_data (xs ! 2) (xs ! 3) True) (\<lambda>data.
     bindS take_messageGas (\<lambda>gasLimit.
     bindS (ev_callDelegate H rc gasLimit toAddress val data) (\<lambda>ret.
     thenS (writeCallOutput (xs ! 4) (xs ! 5)) (s_push ret)))))))"

definition op_STATICCALL :: "('m, 'w) host \<Rightarrow> ('m, 'w) runner \<Rightarrow> ('m, 'w) op_handler" where
  "op_STATICCALL H rc =
     bindS (s_popN 6) (\<lambda>xs.
     bindS (addrE H (xs ! 1)) (\<lambda>toAddress.
     bindS take_messageGas (\<lambda>gasLimit.
     bindS (m_data (xs ! 2) (xs ! 3) True) (\<lambda>data.
     bindS (ev_callStatic H rc gasLimit toAddress 0 data) (\<lambda>ret.
     thenS (writeCallOutput (xs ! 4) (xs ! 5)) (s_push ret))))))"

text \<open>The gas handler of an EOF call records \<open>-1\<close> for a call that must not be made.\<close>

definition light_failure :: "('m, 'w, unit) ev" where
  "light_failure = thenS (s_push 1) (set_returnBytes [])"

definition op_EXTCALL :: "('m, 'w) host \<Rightarrow> ('m, 'w) runner \<Rightarrow> ('m, 'w) op_handler" where
  "op_EXTCALL H rc =
     thenS need_eof (bindS (s_popN 4) (\<lambda>xs.
     bindS take_messageGas (\<lambda>gasLimit.
     if gasLimit = -1 then light_failure
     else
       bindS (addrE H (xs ! 0)) (\<lambda>toAddress.
       bindS (m_data (xs ! 1) (xs ! 2) True) (\<lambda>data.
       bindS (ev_call H rc gasLimit toAddress (xs ! 3) data) s_push)))))"

definition op_EXTDELEGATECALL :: "('m, 'w) host \<Rightarrow> ('m, 'w) runner \<Rightarrow> ('m, 'w) op_handler" where
  "op_EXTDELEGATECALL H rc =
     thenS need_eof (bindS (getS (en_callValue \<circ> rs_env)) (\<lambda>val.
     bindS (s_popN 3) (\<lambda>xs.
     bindS take_messageGas (\<lambda>gasLimit.
     if gasLimit = -1 then light_failure
     else
       bindS (addrE H (xs ! 0)) (\<lambda>toAddress.
       bindS (on_mgr (ho_getCode H toAddress)) (\<lambda>code.
       if \<not> isEOF code then light_failure
       else
         bindS (m_data (xs ! 1) (xs ! 2) True) (\<lambda>data.
         bindS (ev_callDelegate H rc gasLimit toAddress val data) s_push)))))))"

definition op_EXTSTATICCALL :: "('m, 'w) host \<Rightarrow> ('m, 'w) runner \<Rightarrow> ('m, 'w) op_handler" where
  "op_EXTSTATICCALL H rc =
     thenS need_eof (bindS (s_popN 3) (\<lambda>xs.
     bindS take_messageGas (\<lambda>gasLimit.
     if gasLimit = -1 then light_failure
     else
       bindS (addrE H (xs ! 0)) (\<lambda>toAddress.
       bindS (m_data (xs ! 1) (xs ! 2) True) (\<lambda>data.
       bindS (ev_callStatic H rc gasLimit toAddress 0 data) s_push)))))"

section \<open>The handler table\<close>

definition handler_table :: "('m, 'w) host \<Rightarrow> ('m, 'w) runner \<Rightarrow> (nat \<times> ('m, 'w) op_handler) list" where
  "handler_table H rc =
       [(0x00, op_STOP), (0x01, on_stack_u op_ADD), (0x02, on_stack_u op_MUL), (0x03, on_stack_u op_SUB),
        (0x04, on_stack_u op_DIV), (0x05, on_stack_u op_SDIV), (0x06, on_stack_u op_MOD),
        (0x07, on_stack_u op_SMOD), (0x08, on_stack_u op_ADDMOD), (0x09, on_stack_u op_MULMOD),
        (0x0a, on_stack_u op_EXP), (0x0b, on_stack_u op_SIGNEXTEND), (0x10, on_stack_u op_LT),
        (0x11, on_stack_u op_GT), (0x12, on_stack_u op_SLT), (0x13, on_stack_u op_SGT), (0x14, on_stack_u op_EQ),
        (0x15, on_stack_u op_ISZERO), (0x16, on_stack_u op_AND), (0x17, on_stack_u op_OR),
        (0x18, on_stack_u op_XOR), (0x19, on_stack_u op_NOT), (0x1a, on_stack_u op_BYTE),
        (0x1b, on_stack_u op_SHL), (0x1c, on_stack_u op_SHR), (0x1d, on_stack_u op_SAR),
        (0x1e, on_stack_u op_CLZ), (0x20, op_KECCAK256 H), (0x30, op_ADDRESS H), (0x31, op_BALANCE H),
        (0x32, op_ORIGIN H), (0x33, op_CALLER H), (0x34, op_CALLVALUE), (0x35, op_CALLDATALOAD H),
        (0x36, op_CALLDATASIZE), (0x37, op_CALLDATACOPY), (0x38, op_CODESIZE), (0x39, op_CODECOPY),
        (0x3a, op_GASPRICE), (0x3b, op_EXTCODESIZE H), (0x3c, op_EXTCODECOPY H), (0x3d, op_RETURNDATASIZE),
        (0x3e, op_RETURNDATACOPY), (0x3f, op_EXTCODEHASH H), (0x40, op_BLOCKHASH H), (0x41, op_COINBASE H),
        (0x42, op_TIMESTAMP), (0x43, op_NUMBER), (0x44, op_DIFFICULTY H), (0x45, op_GASLIMIT),
        (0x46, op_CHAINID H), (0x47, op_SELFBALANCE), (0x48, op_BASEFEE), (0x49, op_BLOBHASH),
        (0x4a, op_BLOBBASEFEE), (0x50, op_POP), (0x51, op_MLOAD H), (0x52, op_MSTORE H), (0x53, op_MSTORE8 H),
        (0x54, op_SLOAD H), (0x55, op_SSTORE H), (0x56, op_JUMP H), (0x57, op_JUMPI H), (0x58, op_PC),
        (0x59, op_MSIZE), (0x5a, op_GAS), (0x5b, op_JUMPDEST), (0x5c, op_TLOAD H), (0x5d, op_TSTORE H),
        (0x5e, op_MCOPY), (0x5f, op_PUSH0), (0xd0, op_DATALOAD H), (0xd1, op_DATALOADN H), (0xd2, op_DATASIZE),
        (0xd3, op_DATACOPY), (0xe0, op_RJUMP), (0xe1, op_RJUMPI), (0xe2, op_RJUMPV), (0xe3, op_CALLF H),
        (0xe4, op_RETF), (0xe5, op_JUMPF H), (0xe6, op_DUPN H), (0xe7, op_SWAPN H), (0xe8, op_EXCHANGE H),
        (0xec, op_EOFCREATE H rc), (0xee, op_RETURNCONTRACT H), (0xf0, op_CREATE H rc), (0xf1, op_CALL H rc),
        (0xf2, op_CALLCODE H rc), (0xf3, op_RETURN), (0xf4, op_DELEGATECALL H rc), (0xf5, op_CREATE2 H rc),
        (0xf7, op_RETURNDATALOAD H), (0xf8, op_EXTCALL H rc), (0xf9, op_EXTDELEGATECALL H rc),
        (0xfa, op_STATICCALL H rc), (0xfb, op_EXTSTATICCALL H rc), (0xfd, op_REVERT), (0xff, op_SELFDESTRUCT H)]"

definition handlers :: "('m, 'w) host \<Rightarrow> ('m, 'w) runner \<Rightarrow> nat \<Rightarrow> ('m, 'w) op_handler option" where
  "handlers H rc op =
     (if 0x60 \<le> op \<and> op \<le> 0x7f then Some (op_PUSH H)
      else if 0x80 \<le> op \<and> op \<le> 0x8f then Some op_DUP
      else if 0x90 \<le> op \<and> op \<le> 0x9f then Some op_SWAP
      else if 0xa0 \<le> op \<and> op \<le> 0xa4 then Some (op_LOG H)
      else map_of (handler_table H rc) op)"

end
