(* ===== verification/EvmLoop.thy ===== *)
theory EvmLoop
  imports EvmCalls
begin

text \<open>
  The interpreter loop: the opcode table of \<open>packages/evm/src/opcodes/codes.ts\<close> for a hardfork, the
  jump analysis, \<open>runStep\<close> and the loop of \<open>Interpreter.run\<close>. The loop may run for ever only when
  opcodes are free, so it has a fuel argument.
  Profiling and step events are left out, and custom opcodes are not set.
\<close>

section \<open>The opcode table\<close>

record opcode_entry =
  oe_name :: string
  oe_isAsync :: bool
  oe_dynamicGas :: bool

definition defaultOp :: "string \<Rightarrow> opcode_entry" where
  "defaultOp name = \<lparr>oe_name = name, oe_isAsync = False, oe_dynamicGas = False\<rparr>"

definition dynamicGasOp :: "string \<Rightarrow> opcode_entry" where
  "dynamicGasOp name = \<lparr>oe_name = name, oe_isAsync = False, oe_dynamicGas = True\<rparr>"

definition asyncOp :: "string \<Rightarrow> opcode_entry" where
  "asyncOp name = \<lparr>oe_name = name, oe_isAsync = True, oe_dynamicGas = False\<rparr>"

definition asyncAndDynamicGasOp :: "string \<Rightarrow> opcode_entry" where
  "asyncAndDynamicGasOp name = \<lparr>oe_name = name, oe_isAsync = True, oe_dynamicGas = True\<rparr>"

definition base_opcodes :: "(nat \<times> opcode_entry) list" where
  "base_opcodes =
     [(0x00, defaultOp ''STOP''), (0x01, defaultOp ''ADD''), (0x02, defaultOp ''MUL''), (0x03, defaultOp ''SUB''),
      (0x04, defaultOp ''DIV''), (0x05, defaultOp ''SDIV''), (0x06, defaultOp ''MOD''), (0x07, defaultOp ''SMOD''),
      (0x08, defaultOp ''ADDMOD''), (0x09, defaultOp ''MULMOD''), (0x0a, dynamicGasOp ''EXP''),
      (0x0b, defaultOp ''SIGNEXTEND''), (0x10, defaultOp ''LT''), (0x11, defaultOp ''GT''), (0x12, defaultOp ''SLT''),
      (0x13, defaultOp ''SGT''), (0x14, defaultOp ''EQ''), (0x15, defaultOp ''ISZERO''), (0x16, defaultOp ''AND''),
      (0x17, defaultOp ''OR''), (0x18, defaultOp ''XOR''), (0x19, defaultOp ''NOT''), (0x1a, defaultOp ''BYTE''),
      (0x20, dynamicGasOp ''KECCAK256''), (0x30, asyncOp ''ADDRESS''), (0x31, asyncAndDynamicGasOp ''BALANCE''),
      (0x32, asyncOp ''ORIGIN''), (0x33, asyncOp ''CALLER''), (0x34, asyncOp ''CALLVALUE''),
      (0x35, asyncOp ''CALLDATALOAD''), (0x36, asyncOp ''CALLDATASIZE''),
      (0x37, asyncAndDynamicGasOp ''CALLDATACOPY''), (0x38, defaultOp ''CODESIZE''), (0x39, dynamicGasOp ''CODECOPY''),
      (0x3a, defaultOp ''GASPRICE''), (0x3b, asyncAndDynamicGasOp ''EXTCODESIZE''),
      (0x3c, asyncAndDynamicGasOp ''EXTCODECOPY''), (0x40, asyncOp ''BLOCKHASH''), (0x41, asyncOp ''COINBASE''),
      (0x42, asyncOp ''TIMESTAMP''), (0x43, asyncOp ''NUMBER''), (0x44, asyncOp ''DIFFICULTY''),
      (0x45, asyncOp ''GASLIMIT''), (0x50, defaultOp ''POP''), (0x51, dynamicGasOp ''MLOAD''),
      (0x52, dynamicGasOp ''MSTORE''), (0x53, dynamicGasOp ''MSTORE8''), (0x54, asyncAndDynamicGasOp ''SLOAD''),
      (0x55, asyncAndDynamicGasOp ''SSTORE''), (0x56, defaultOp ''JUMP''), (0x57, defaultOp ''JUMPI''),
      (0x58, defaultOp ''PC''), (0x59, defaultOp ''MSIZE''), (0x5a, defaultOp ''GAS''), (0x5b, defaultOp ''JUMPDEST'')]
     @ map (\<lambda>c. (c, defaultOp ''PUSH'')) [0x60..<0x80]
     @ map (\<lambda>c. (c, defaultOp ''DUP'')) [0x80..<0x90]
     @ map (\<lambda>c. (c, defaultOp ''SWAP'')) [0x90..<0xa0]
     @ map (\<lambda>c. (c, dynamicGasOp ''LOG'')) [0xa0..<0xa5]
     @ [(0xf0, asyncAndDynamicGasOp ''CREATE''), (0xf1, asyncAndDynamicGasOp ''CALL''),
        (0xf2, asyncAndDynamicGasOp ''CALLCODE''), (0xf3, dynamicGasOp ''RETURN''), (0xfe, defaultOp ''INVALID''),
        (0xff, asyncAndDynamicGasOp ''SELFDESTRUCT'')]"

definition hardforkOpcodes :: "(string \<times> (nat \<times> opcode_entry) list) list" where
  "hardforkOpcodes =
     [(''homestead'', [(0xf4, asyncAndDynamicGasOp ''DELEGATECALL'')]),
      (''tangerineWhistle'',
        [(0x54, asyncAndDynamicGasOp ''SLOAD''), (0xf1, asyncAndDynamicGasOp ''CALL''),
         (0xf2, asyncAndDynamicGasOp ''CALLCODE''), (0x3b, asyncAndDynamicGasOp ''EXTCODESIZE''),
         (0x3c, asyncAndDynamicGasOp ''EXTCODECOPY''), (0xf4, asyncAndDynamicGasOp ''DELEGATECALL''),
         (0xff, asyncAndDynamicGasOp ''SELFDESTRUCT''), (0x31, asyncAndDynamicGasOp ''BALANCE'')]),
      (''byzantium'',
        [(0xfd, dynamicGasOp ''REVERT''), (0xfa, asyncAndDynamicGasOp ''STATICCALL''),
         (0x3d, asyncOp ''RETURNDATASIZE''), (0x3e, asyncAndDynamicGasOp ''RETURNDATACOPY'')]),
      (''constantinople'',
        [(0x1b, defaultOp ''SHL''), (0x1c, defaultOp ''SHR''), (0x1d, defaultOp ''SAR''),
         (0x3f, asyncAndDynamicGasOp ''EXTCODEHASH''), (0xf5, asyncAndDynamicGasOp ''CREATE2'')]),
      (''istanbul'', [(0x46, defaultOp ''CHAINID''), (0x47, defaultOp ''SELFBALANCE'')]),
      (''paris'', [(0x44, asyncOp ''PREVRANDAO'')])]"

definition eipOpcodes :: "(nat \<times> (nat \<times> opcode_entry) list) list" where
  "eipOpcodes =
     [(663, [(0xe6, defaultOp ''DUPN''), (0xe7, defaultOp ''SWAPN''), (0xe8, defaultOp ''EXCHANGE'')]),
      (1153, [(0x5c, defaultOp ''TLOAD''), (0x5d, defaultOp ''TSTORE'')]),
      (3198, [(0x48, defaultOp ''BASEFEE'')]),
      (3855, [(0x5f, defaultOp ''PUSH0'')]),
      (4200, [(0xe0, defaultOp ''RJUMP''), (0xe1, defaultOp ''RJUMPI''), (0xe2, defaultOp ''RJUMPV'')]),
      (4750, [(0xe3, defaultOp ''CALLF''), (0xe4, defaultOp ''RETF'')]),
      (4844, [(0x49, defaultOp ''BLOBHASH'')]),
      (5656, [(0x5e, dynamicGasOp ''MCOPY'')]),
      (6206, [(0xe5, defaultOp ''JUMPF'')]),
      (7069, [(0xf7, defaultOp ''RETURNDATALOAD''), (0xf8, asyncAndDynamicGasOp ''EXTCALL''),
              (0xf9, asyncAndDynamicGasOp ''EXTDELEGATECALL''), (0xfb, asyncAndDynamicGasOp ''EXTSTATICCALL'')]),
      (7480, [(0xd0, defaultOp ''DATALOAD''), (0xd1, defaultOp ''DATALOADN''), (0xd2, defaultOp ''DATASIZE''),
              (0xd3, dynamicGasOp ''DATACOPY'')]),
      (7516, [(0x4a, defaultOp ''BLOBBASEFEE'')]),
      (7620, [(0xec, asyncAndDynamicGasOp ''EOFCREATE''), (0xee, asyncAndDynamicGasOp ''RETURNCONTRACT'')]),
      (7939, [(0x1e, defaultOp ''CLZ'')])]"

text \<open>\<open>{ ...opcodeBuilder, ...entries }\<close>: later entries win.\<close>

definition opcodeBuilder :: "('m, 'w) host \<Rightarrow> nat \<Rightarrow> opcode_entry option" where
  "opcodeBuilder H = foldl (++) (map_of base_opcodes)
     (map (\<lambda>(fork, es). map_of es) (filter (\<lambda>(fork, es). ho_gteHardfork H fork) hardforkOpcodes)
      @ map (\<lambda>(eip, es). map_of es) (filter (\<lambda>(eip, es). ho_eip H eip) eipOpcodes))"

definition lower_name :: "string \<Rightarrow> string" where
  "lower_name = map (\<lambda>c. char_of (to_lower (of_char c)))"

text \<open>\<open>getFullname\<close>, the name with its index.\<close>

definition getFullname :: "nat \<Rightarrow> string \<Rightarrow> string" where
  "getFullname code name =
     (let num = (\<lambda>k. map char_of (to_dec (code - k))) in
      if name = ''LOG'' then name @ num 0xa0
      else if name = ''PUSH'' then name @ num 0x5f
      else if name = ''DUP'' then name @ num 0x7f
      else if name = ''SWAP'' then name @ num 0x8f
      else name)"

record opcode =
  oc_code :: nat
  oc_name :: string
  oc_fullName :: string
  oc_fee :: int
  oc_isAsync :: bool
  oc_dynamicGas :: bool
  oc_isInvalid :: bool

definition opcode_new :: "nat \<Rightarrow> opcode_entry \<Rightarrow> int \<Rightarrow> opcode" where
  "opcode_new code e fee =
     \<lparr>oc_code = code, oc_name = oe_name e, oc_fullName = getFullname code (oe_name e), oc_fee = fee,
      oc_isAsync = oe_isAsync e, oc_dynamicGas = oe_dynamicGas e, oc_isInvalid = (oe_name e = ''INVALID'')\<rparr>"

text \<open>\<open>opcodeMap\<close>: an opcode without an entry has the entry of INVALID, code \<open>0xfe\<close> included.\<close>

definition lookupOpInfo :: "('m, 'w) host \<Rightarrow> nat \<Rightarrow> opcode" where
  "lookupOpInfo H op =
     (let info = (\<lambda>code e. opcode_new code e (ho_param H (lower_name (oe_name e) @ ''Gas''))) in
      case opcodeBuilder H op of
        Some e \<Rightarrow> info op e
      | None \<Rightarrow> info 0xfe (defaultOp ''INVALID''))"

section \<open>Jump analysis\<close>

record jump_table =
  jt_jumps :: "nat list"
  jt_pushes :: "nat \<Rightarrow> int option"
  jt_opcodes :: "nat \<Rightarrow> opcode option"

function jump_scan :: "('m, 'w) host \<Rightarrow> u8 list \<Rightarrow> nat \<Rightarrow> jump_table \<Rightarrow> jump_table res" where
  "jump_scan H code i t =
     (if length code \<le> i then Inr t
      else
        let opcode = unat (code ! i);
            t = t\<lparr>jt_opcodes := (jt_opcodes t)(i \<mapsto> lookupOpInfo H opcode)\<rparr> in
        if opcode \<le> 0x7f then
          if 0x60 \<le> opcode then
            let bytesToPush = opcode - 0x5f;
                pushBytes = slice (i + 1) (i + opcode - 0x5e) code;
                pushBytes = (if length pushBytes < bytesToPush then setLengthRight pushBytes bytesToPush else pushBytes) in
            bindE (bytesToBigInt (ho_lib H) pushBytes) (\<lambda>push.
            jump_scan H code (i + bytesToPush + 1) (t\<lparr>jt_pushes := (jt_pushes t)(i + 1 \<mapsto> push)\<rparr>))
          else if opcode = 0x5b then jump_scan H code (i + 1) (t\<lparr>jt_jumps := (jt_jumps t)[i := 1]\<rparr>)
          else jump_scan H code (i + 1) t
        else jump_scan H code (i + 1) t)"
  by pat_completeness auto
termination by (relation "measure (\<lambda>(H, code, i, t). length code - i)") auto

declare jump_scan.simps [simp del]

definition getValidJumpDestinations :: "('m, 'w) host \<Rightarrow> u8 list \<Rightarrow> jump_table res" where
  "getValidJumpDestinations H code =
     jump_scan H code 0 \<lparr>jt_jumps = replicate (length code) 0, jt_pushes = (\<lambda>_. None), jt_opcodes = (\<lambda>_. None)\<rparr>"

section \<open>One step\<close>

definition step_gas :: "('m, 'w) host \<Rightarrow> opcode \<Rightarrow> ('m, 'w, int) ev" where
  "step_gas H info =
     bindS (if oc_dynamicGas info
            then (case dynamicGasHandlers H (oc_code info) of
                    None \<Rightarrow> failS (Throw ''TypeError'') | Some f \<Rightarrow> f (oc_fee info))
            else retS (oc_fee info)) (\<lambda>gas.
     bindS (getS id) (\<lambda>s.
     if stateless H \<and> en_chargeCodeAccesses (rs_env s)
     then bindS (on_witness (wo_readAccountCodeChunks (ho_witness H) (en_address (rs_env s)) (rs_pc s) (rs_pc s))) (\<lambda>c.
       retS (gas + c))
     else retS gas))"

definition runStep :: "('m, 'w) host \<Rightarrow> ('m, 'w) runner \<Rightarrow> opcode \<Rightarrow> ('m, 'w, unit) ev" where
  "runStep H rc info =
     bindS (step_gas H info) (\<lambda>gas.
     if oc_isInvalid info then trap ''invalid opcode''
     else
       thenS (useGas gas)
       (thenS (add_pc 1)
       (thenS (case handlers H rc (oc_code info) of None \<Rightarrow> failS (Throw ''TypeError'') | Some f \<Rightarrow> f)
       (on_witness (\<lambda>w. ((), wo_commit (ho_witness H) w))))))"

section \<open>The loop\<close>

text \<open>The local variable \<open>cachedOpcodes\<close>, with \<open>doJumpAnalysis\<close> when there is none yet.\<close>

type_synonym cached = "(nat \<Rightarrow> opcode option) option"

definition analysed :: "('m, 'w) host \<Rightarrow> ('m, 'w, cached) ev" where
  "analysed H =
     bindS (getS rs_code) (\<lambda>code.
     bindS (liftS (getValidJumpDestinations H code)) (\<lambda>t.
     thenS (modS (\<lambda>s. s\<lparr>rs_validJumps := jt_jumps t, rs_cachedPushes := jt_pushes t, rs_shouldDoJumpAnalysis := False\<rparr>))
       (retS (Some (jt_opcodes t)))))"

text \<open>The opcode at the program counter, and the opcodes cached from here on.\<close>

definition fetch :: "('m, 'w) host \<Rightarrow> cached \<Rightarrow> ('m, 'w, opcode \<times> cached) ev" where
  "fetch H cached =
     bindS (getS id) (\<lambda>s.
     if rs_pc s < 0 then failS (Throw ''TypeError'')
     else case cached of
       None \<Rightarrow>
         let opCode = unat (rs_code s ! nat (rs_pc s)) in
         bindS (if opCode = 0x56 \<or> opCode = 0x57 \<or> opCode = 0x5e then analysed H else retS None) (\<lambda>cached.
         thenS (modS (\<lambda>s. s\<lparr>rs_opCode := opCode\<rparr>)) (retS (lookupOpInfo H opCode, cached)))
     | Some t \<Rightarrow> (case t (nat (rs_pc s)) of
         None \<Rightarrow> failS (Throw ''TypeError'')
       | Some info \<Rightarrow> thenS (modS (\<lambda>s. s\<lparr>rs_opCode := oc_code info\<rparr>)) (retS (info, cached))))"

definition check_chunk :: "('m, 'w) host \<Rightarrow> ('m, 'w, unit) ev" where
  "check_chunk H =
     bindS (getS id) (\<lambda>s.
     whenS (rs_opCode s = 0xfe \<and> ho_eip H 7864 \<and> en_chargeCodeAccesses (rs_env s)
         \<and> \<not> ho_chunkPresent H (en_address (rs_env s)) (rs_pc s) (jn_sm (rs_journal s)))
       (failS (Throw ''Invalid witness with missing codeChunk'')))"

text \<open>The \<open>catch\<close> of the loop: an error of the virtual machine ends the run, \<open>stop\<close> without an
  exception; any other error is thrown again. \<open>Inl\<close> continues, \<open>Inr\<close> is the exception at the end.\<close>

definition catch_step :: "('m, 'w) host \<Rightarrow> ('m, 'w, unit) ev \<Rightarrow> ('m, 'w, unit + string option) ev" where
  "catch_step H m s =
     (case m s of
        (Inr _, s') \<Rightarrow> (Inr (Inl ()), s')
      | (Inl e, s') \<Rightarrow>
          let s' = s'\<lparr>rs_witness := wo_revert (ho_witness H) (rs_witness s')\<rparr> in
          (case e of
             EvmTrap err \<Rightarrow> (Inr (Inr (if err = ''stop'' then None else Some err)), s')
           | _ \<Rightarrow> (Inl e, s')))"

fun run_loop :: "nat \<Rightarrow> ('m, 'w) host \<Rightarrow> ('m, 'w) runner \<Rightarrow> cached \<Rightarrow> ('m, 'w, string option) ev" where
  "run_loop 0 H rc cached = failS OutOfFuel"
| "run_loop (Suc n) H rc cached =
     bindS (getS id) (\<lambda>s.
     if rs_pc s < int (length (rs_code s)) then
       bindS (fetch H cached) (\<lambda>(info, cached).
       thenS (check_chunk H)
       (bindS (catch_step H (runStep H rc info)) (\<lambda>r.
        case r of Inl _ \<Rightarrow> run_loop n H rc cached | Inr err \<Rightarrow> retS err)))
     else retS None)"

end
