(* ===== verification/EvmRun.thy ===== *)
theory EvmRun
  imports EvmLoop
begin

text \<open>
  \<open>EVM\<close> of \<open>packages/evm/src/evm.ts\<close>: loading code, moving the value, running a message call or a
  contract creation, and \<open>runCall\<close>, which puts a checkpoint around each. The computations work on the
  \<open>world\<close>, the journal with its state manager, transient storage and the access witness.

  \<open>runCall\<close> and the interpreter call each other. The recursion takes fuel: a call with fuel \<open>n + 1\<close>
  runs its loop for at most \<open>n + 2\<close> rounds and its own calls with fuel \<open>n\<close>. Step and message events, profiling and debug output are left out.
\<close>

section \<open>Access to the world\<close>

definition w_mgr :: "('m \<Rightarrow> ('a \<times> 'm) res) \<Rightarrow> ('m, 'w, 'a) wev" where
  "w_mgr f s = (case f (jn_sm (wd_journal s)) of Inl e \<Rightarrow> (Inl e, s)
     | Inr (a, m) \<Rightarrow> (Inr a, s\<lparr>wd_journal := (wd_journal s)\<lparr>jn_sm := m\<rparr>\<rparr>))"

definition w_mgr_u :: "('m \<Rightarrow> 'm res) \<Rightarrow> ('m, 'w, unit) wev" where
  "w_mgr_u f = w_mgr (\<lambda>m. bindE (f m) (\<lambda>m'. Inr ((), m')))"

definition w_journal :: "('m journal \<Rightarrow> 'm journal res) \<Rightarrow> ('m, 'w, unit) wev" where
  "w_journal f s = (case f (wd_journal s) of Inl e \<Rightarrow> (Inl e, s) | Inr j \<Rightarrow> (Inr (), s\<lparr>wd_journal := j\<rparr>))"

definition w_transient :: "(tstore \<Rightarrow> tstore res) \<Rightarrow> ('m, 'w, unit) wev" where
  "w_transient f s = (case f (wd_transient s) of Inl e \<Rightarrow> (Inl e, s) | Inr t \<Rightarrow> (Inr (), s\<lparr>wd_transient := t\<rparr>))"

definition w_witness :: "('w \<Rightarrow> 'a \<times> 'w) \<Rightarrow> ('m, 'w, 'a) wev" where
  "w_witness f s = (let (a, w) = f (wd_witness s) in (Inr a, s\<lparr>wd_witness := w\<rparr>))"

definition w_commit :: "('m, 'w) host \<Rightarrow> ('m, 'w, unit) wev" where
  "w_commit H = w_witness (\<lambda>w. ((), wo_commit (ho_witness H) w))"

definition w_revert :: "('m, 'w) host \<Rightarrow> ('m, 'w, unit) wev" where
  "w_revert H = w_witness (\<lambda>w. ((), wo_revert (ho_witness H) w))"

definition w_account :: "('m, 'w) host \<Rightarrow> u8 list \<Rightarrow> ('m, 'w, account) wev" where
  "w_account H address =
     bindS (w_mgr (sm_getAccount (ho_smgr H) address)) (\<lambda>acc.
     retS (case acc of None \<Rightarrow> default_account | Some a \<Rightarrow> a))"

definition w_putAccount :: "('m, 'w) host \<Rightarrow> u8 list \<Rightarrow> account \<Rightarrow> ('m, 'w, unit) wev" where
  "w_putAccount H address a = w_journal (jn_putAccount (ho_lib H) (ho_smgr H) address (Some a))"

section \<open>Results\<close>

definition error_result :: "string \<Rightarrow> int \<Rightarrow> exec_result" where
  "error_result err gasUsed =
     \<lparr>er_returnValue = [], er_executionGasUsed = gasUsed, er_exceptionError = Some err, er_gasRefund = None,
      er_logs = None, er_selfdestruct = {}, er_createdAddresses = {}\<rparr>"

definition OOGResult :: "int \<Rightarrow> exec_result" where
  "OOGResult gasLimit = error_result ''out of gas'' gasLimit"

definition COOGResult :: "int \<Rightarrow> exec_result" where
  "COOGResult gasUsedCreateCode = error_result ''code store out of gas'' gasUsedCreateCode"

definition INVALID_BYTECODE_RESULT :: "int \<Rightarrow> exec_result" where
  "INVALID_BYTECODE_RESULT gasLimit = error_result ''invalid bytecode deployed'' gasLimit"

definition CodesizeExceedsMaximumError :: "int \<Rightarrow> exec_result" where
  "CodesizeExceedsMaximumError gasUsed = error_result ''code size to deposit exceeds maximum code size'' gasUsed"

text \<open>\<open>{ ...result, ...errorResult }\<close>\<close>

definition merge_result :: "exec_result \<Rightarrow> exec_result \<Rightarrow> exec_result" where
  "merge_result r e = r\<lparr>er_returnValue := er_returnValue e, er_executionGasUsed := er_executionGasUsed e,
     er_exceptionError := er_exceptionError e\<rparr>"

text \<open>A result that leaves the sets of the message as they are.\<close>

definition plain_result :: "message \<Rightarrow> u8 list option \<Rightarrow> exec_result \<Rightarrow> evm_result" where
  "plain_result m created r =
     \<lparr>ev_createdAddress = created, ev_exec = r, ev_msgSelfdestruct = mg_selfdestruct m,
      ev_msgCreated = mg_createdAddresses m\<rparr>"

text \<open>An exception that is not the virtual machine's own has no \<open>error\<close> text.\<close>

definition error_name :: "js_error \<Rightarrow> string" where
  "error_name e = (case e of EvmTrap err \<Rightarrow> err | _ \<Rightarrow> ''undefined'')"

definition tryW :: "('m, 'w, unit) wev \<Rightarrow> ('m, 'w, string option) wev" where
  "tryW m s = (case m s of (Inr _, s') \<Rightarrow> (Inr None, s') | (Inl e, s') \<Rightarrow> (Inr (Some (error_name e)), s'))"

section \<open>Value and code\<close>

definition reduceSenderBalance :: "('m, 'w) host \<Rightarrow> account \<Rightarrow> message \<Rightarrow> ('m, 'w, unit) wev" where
  "reduceSenderBalance H account message =
     bindS (liftS (loaded ''balance'' (ac_balance account))) (\<lambda>b.
     let balance = b - mg_value message in
     if balance < 0 then trap ''insufficient balance''
     else w_putAccount H (mg_caller message) (account\<lparr>ac_balance := Some balance\<rparr>))"

definition addToBalance :: "('m, 'w) host \<Rightarrow> u8 list \<Rightarrow> account \<Rightarrow> message \<Rightarrow> ('m, 'w, unit) wev" where
  "addToBalance H to toAccount message =
     bindS (liftS (loaded ''balance'' (ac_balance toAccount))) (\<lambda>b.
     let newBalance = b + mg_value message in
     if MAX_INTEGER_BIGINT < newBalance then trap ''value overflow''
     else w_putAccount H to (toAccount\<lparr>ac_balance := Some newBalance\<rparr>))"

definition loadCode :: "('m, 'w) host \<Rightarrow> message \<Rightarrow> ('m, 'w, message) wev" where
  "loadCode H message =
     (if mg_code message \<noteq> None then retS message
      else
        bindS (liftS (codeAddress message)) (\<lambda>address.
        if ho_isPrecompile H address then retS (message\<lparr>mg_code := Some (Precompile address)\<rparr>)
        else
          bindS (w_mgr (ho_getCode H address)) (\<lambda>code.
          bindS (if ho_eip H 7702 \<and> slice 0 3 code = DELEGATION_7702_FLAG
                 then bindS (liftS (address_new (slice 3 24 code))) (\<lambda>target.
                   bindS (w_mgr (ho_getCode H target)) (\<lambda>code.
                   thenS (whenS (mg_depth message = 0)
                     (w_journal (\<lambda>j. Inr (jn_addAlwaysWarmAddress (bytesToHex (ho_lib H) target) False j))))
                   (retS code)))
                 else retS code) (\<lambda>code.
          retS (message\<lparr>mg_code := Some (Bytecode code), mg_chargeCodeAccesses := True\<rparr>)))))"

definition generateMessageAddress :: "('m, 'w) host \<Rightarrow> message \<Rightarrow> ('m, 'w, u8 list) wev" where
  "generateMessageAddress H message =
     bindS (case mg_salt message of
         Some salt \<Rightarrow> (case mg_code message of
             Some (Bytecode code) \<Rightarrow> liftS (generateAddress2 (ho_lib H) (mg_caller message) salt code)
           | _ \<Rightarrow> failS (Throw ''TypeError''))
       | None \<Rightarrow>
           bindS (w_account H (mg_caller message)) (\<lambda>acc.
           bindS (liftS (loaded ''nonce'' (ac_nonce acc))) (\<lambda>nonce.
           let newNonce = nonce - 1 in
           bindS (liftS (bigIntToBytes (ho_lib H) newNonce)) (\<lambda>b.
           liftS (generateAddress (ho_lib H) (mg_caller message) b))))) (\<lambda>addr.
     liftS (address_new addr))"

section \<open>Running the interpreter\<close>

text \<open>\<open>Interpreter.run\<close> up to its loop: EOF containers are set up and, in a creating transaction,
  validated; every failure there ends the run with an exception.\<close>

definition FORMAT :: u8 where "FORMAT = 0xef"
definition MAGIC :: u8 where "MAGIC = 0"
definition VERSION :: u8 where "VERSION = 1"

definition setupEOF :: "('m, 'w) host \<Rightarrow> bool \<Rightarrow> ('m, 'w, unit) ev" where
  "setupEOF H isTxCreate =
     bindS (getS rs_code) (\<lambda>code.
     bindS (liftS (ho_parseEOF H code isTxCreate)) (\<lambda>(eo, txCallData).
     thenS (modS (\<lambda>s. s\<lparr>rs_env := (rs_env s)\<lparr>en_eof := Some (eo\<lparr>eo_returnStack := []\<rparr>),
         en_callData := (case txCallData of None \<Rightarrow> en_callData (rs_env s) | Some d \<Rightarrow> d)\<rparr>\<rparr>))
     (bindS (liftS (eo_codePosition eo 0)) set_pc)))"

definition tryS :: "('s, unit) stm \<Rightarrow> ('s, bool) stm" where
  "tryS m s = (case m s of (Inr _, s') \<Rightarrow> (Inr True, s') | (Inl e, s') \<Rightarrow> (Inr False, s'))"

definition interpreter_run :: "nat \<Rightarrow> ('m, 'w) host \<Rightarrow> ('m, 'w) runner \<Rightarrow> u8 list \<Rightarrow> ('m, 'w, string option) ev" where
  "interpreter_run n H rc code =
     (let loop =
        bindS (getS id) (\<lambda>s.
        if rs_pc s \<noteq> 0 \<and> (rs_pc s < 0 \<or> int (length (rs_code s)) \<le> rs_pc s)
        then failS (Throw ''Internal error: program counter not in range'')
        else run_loop n H rc None);
          setCode = modS (\<lambda>s. s\<lparr>rs_code := code\<rparr>) in
      if \<not> ho_eip H 3540 \<or> at code 0 \<noteq> Some FORMAT then thenS setCode loop
      else if at code 1 \<noteq> Some MAGIC then retS (Some ''invalid bytecode deployed'')
      else if at code 2 \<noteq> Some VERSION then retS (Some ''invalid EOF format'')
      else
        thenS setCode
        (bindS (getS rs_env) (\<lambda>en. let isTxCreate = (en_isCreate en \<and> en_depth en = 0) in
        bindS (tryS (setupEOF H isTxCreate)) (\<lambda>ok.
        if \<not> ok then retS (Some ''invalid EOF format'')
        else if isTxCreate \<and> (case ho_validateEOF H code of Inl _ \<Rightarrow> True | Inr _ \<Rightarrow> False)
        then retS (Some ''invalid EOF format'')
        else loop))))"

definition rs_new :: "env \<Rightarrow> int \<Rightarrow> jsstr set \<Rightarrow> ('m, 'w) world \<Rightarrow> ('m, 'w) rs" where
  "rs_new en gasLeft selfdestruct w =
     \<lparr>rs_pc = 0, rs_opCode = 0xfe, rs_memory = memory_new, rs_memoryWordCount = 0, rs_highestMemCost = 0,
      rs_stack = stack_new 1024, rs_code = [], rs_shouldDoJumpAnalysis = True, rs_validJumps = [],
      rs_cachedPushes = (\<lambda>_. None), rs_env = en, rs_messageGasLimit = None, rs_gasRefund = en_gasRefund en,
      rs_gasLeft = gasLeft, rs_returnBytes = [], rs_logs = [], rs_returnValue = None,
      rs_selfdestruct = selfdestruct, rs_journal = wd_journal w, rs_transient = wd_transient w,
      rs_witness = wd_witness w\<rparr>"

definition message_env :: "('m, 'w) host \<Rightarrow> message \<Rightarrow> u8 list \<Rightarrow> account \<Rightarrow> env" where
  "message_env H message code contract =
     \<lparr>en_address = (case mg_to message of None \<Rightarrow> replicate 20 0 | Some a \<Rightarrow> a), en_caller = mg_caller message,
      en_callData = mg_data message, en_callValue = mg_value message, en_code = code,
      en_isStatic = mg_isStatic message, en_isCreate = mg_isCreate message, en_depth = mg_depth message,
      en_gasPrice = ho_txGasPrice H, en_origin = ho_txOrigin H, en_block = ho_block H, en_contract = contract,
      en_codeAddress = (case mg_codeAddress message of
          None \<Rightarrow> (case mg_to message of None \<Rightarrow> replicate 20 0 | Some a \<Rightarrow> a) | Some a \<Rightarrow> a),
      en_gasRefund = mg_gasRefund message, en_eof = None, en_blobVersionedHashes = mg_blobVersionedHashes message,
      en_createdAddresses = mg_createdAddresses message, en_chargeCodeAccesses = mg_chargeCodeAccesses message\<rparr>"

text \<open>The result of \<open>runInterpreter\<close> from the state and the exception the run ends with.\<close>

definition run_result :: "message \<Rightarrow> string option \<Rightarrow> ('m, 'w) rs \<Rightarrow> evm_result" where
  "run_result message err s =
     \<lparr>ev_createdAddress = None,
      ev_exec =
       \<lparr>er_returnValue = (case rs_returnValue s of None \<Rightarrow> [] | Some v \<Rightarrow> v),
        er_executionGasUsed =
          (if err \<noteq> None \<and> err \<noteq> Some ''revert'' \<and> err \<noteq> Some ''invalid EOF format''
           then mg_gasLimit message else mg_gasLimit message - rs_gasLeft s),
        er_exceptionError = err, er_gasRefund = Some (rs_gasRefund s),
        er_logs = Some (if err \<noteq> None then [] else rs_logs s),
        er_selfdestruct = (if err \<noteq> None then {} else rs_selfdestruct s),
        er_createdAddresses = (if err \<noteq> None then {} else en_createdAddresses (rs_env s))\<rparr>,
      ev_msgSelfdestruct = rs_selfdestruct s,
      ev_msgCreated = en_createdAddresses (rs_env s)\<rparr>"

definition runInterpreter :: "nat \<Rightarrow> ('m, 'w) host \<Rightarrow> ('m, 'w) runner \<Rightarrow> u8 list \<Rightarrow> message \<Rightarrow> ('m, 'w, evm_result) wev" where
  "runInterpreter n H rc code message =
     bindS (w_account H (case mg_to message of None \<Rightarrow> replicate 20 0 | Some a \<Rightarrow> a)) (\<lambda>contract w.
     case interpreter_run n H rc code
            (rs_new (message_env H message code contract) (mg_gasLimit message) (mg_selfdestruct message) w) of
       (Inl e, s) \<Rightarrow> (Inl e, world_of s)
     | (Inr err, s) \<Rightarrow> thenS (w_commit H) (retS (run_result message err s)) (world_of s))"

section \<open>Message calls\<close>

text \<open>Charging an access to the gas limit of the message: out of gas ends the call, otherwise the
  witness commits and \<open>k\<close> goes on with what is left.\<close>

definition charge_access :: "('m, 'w) host \<Rightarrow> message \<Rightarrow> u8 list option \<Rightarrow> int \<Rightarrow> int
    \<Rightarrow> (int \<Rightarrow> ('m, 'w, evm_result) wev) \<Rightarrow> ('m, 'w, evm_result) wev" where
  "charge_access H message created gasLimit c k =
     (if gasLimit - c < 0
      then thenS (w_revert H) (retS (plain_result message created (OOGResult (mg_gasLimit message))))
      else thenS (w_commit H) (k (gasLimit - c)))"

definition call_access :: "('m, 'w) host \<Rightarrow> message \<Rightarrow> u8 list \<Rightarrow> ('m, 'w, int) wev" where
  "call_access H message to =
     (let W = ho_witness H; sendsValue = (mg_value message \<noteq> 0) in
      thenS (whenS (mg_depth message = 0)
        (thenS (bindS (w_witness (wo_readAccountHeader W (mg_caller message))) (\<lambda>_. retS ()))
        (thenS (bindS (w_witness (wo_readAccountCodeHash W to)) (\<lambda>_. retS ()))
        (bindS (w_witness (if sendsValue then wo_writeAccountBasicData W to else wo_readAccountBasicData W to))
          (\<lambda>_. retS ())))))
      (bindS (w_witness (wo_readAccountBasicData W to)) (\<lambda>c1.
       bindS (if sendsValue then w_witness (wo_writeAccountBasicData W to) else retS 0) (\<lambda>c2.
       retS (c1 + c2)))))"

definition clear_transient :: "('m, 'w) host \<Rightarrow> message \<Rightarrow> ('m, 'w, unit) wev" where
  "clear_transient H message =
     whenS (mg_depth message = 0 \<and> ho_eip H 1153) (w_transient (\<lambda>t. Inr (ts_clear t)))"

definition precompile_result :: "('m, 'w) host \<Rightarrow> message \<Rightarrow> u8 list \<Rightarrow> int \<Rightarrow> exec_result" where
  "precompile_result H message address gasLimit =
     (case ho_runPrecompile H address (mg_data message) gasLimit of (used, out, err) \<Rightarrow>
        \<lparr>er_returnValue = out, er_executionGasUsed = used, er_exceptionError = err,
         er_gasRefund = Some (mg_gasRefund message), er_logs = None, er_selfdestruct = {}, er_createdAddresses = {}\<rparr>)"

definition add_gasUsed :: "int \<Rightarrow> evm_result \<Rightarrow> evm_result" where
  "add_gasUsed c r = r\<lparr>ev_exec := (ev_exec r)\<lparr>er_executionGasUsed := er_executionGasUsed (ev_exec r) + c\<rparr>\<rparr>"

text \<open>From loading the code to the end of the call.\<close>

definition call_code :: "nat \<Rightarrow> ('m, 'w) host \<Rightarrow> ('m, 'w) runner \<Rightarrow> message \<Rightarrow> string option \<Rightarrow> int \<Rightarrow> ('m, 'w, evm_result) wev" where
  "call_code n H rc message err gasLimit =
     bindS (loadCode H message) (\<lambda>message.
     let used = mg_gasLimit message - gasLimit;
         exit = retS (plain_result message None
           \<lparr>er_returnValue = [], er_executionGasUsed = used, er_exceptionError = err,
            er_gasRefund = Some (mg_gasRefund message), er_logs = None, er_selfdestruct = {}, er_createdAddresses = {}\<rparr>) in
     if mg_code message = Some (Bytecode []) \<or> err \<noteq> None then exit
     else
       bindS (case mg_code message of
           Some (Precompile address) \<Rightarrow> retS (plain_result message None (precompile_result H message address gasLimit))
         | Some (Bytecode code) \<Rightarrow> runInterpreter n H rc code (message\<lparr>mg_gasLimit := gasLimit\<rparr>)
         | None \<Rightarrow> failS (Throw ''TypeError'')) (\<lambda>result.
       thenS (clear_transient H message)
       (retS (add_gasUsed used result))))"

definition executeCall :: "nat \<Rightarrow> ('m, 'w) host \<Rightarrow> ('m, 'w) runner \<Rightarrow> u8 list \<Rightarrow> message \<Rightarrow> ('m, 'w, evm_result) wev" where
  "executeCall n H rc to message =
     (let body = (\<lambda>gasLimit.
        bindS (w_account H (mg_caller message)) (\<lambda>account.
        bindS (if mg_delegatecall message then retS None else tryW (reduceSenderBalance H account message)) (\<lambda>err.
        bindS (w_mgr (sm_getAccount (ho_smgr H) to)) (\<lambda>acc.
        let transfer = (\<lambda>toAccount gasLimit.
          bindS (if mg_delegatecall message then retS None else tryW (addToBalance H to toAccount message)) (\<lambda>err2.
          call_code n H rc message (if err2 = None then err else err2) gasLimit)) in
        case acc of
          Some toAccount \<Rightarrow> transfer toAccount gasLimit
        | None \<Rightarrow>
            if stateless H
            then bindS (w_witness (wo_readAccountHeader (ho_witness H) to)) (\<lambda>c.
              charge_access H message None gasLimit c (transfer default_account))
            else transfer default_account gasLimit)))) in
      if ho_eip H 7864
      then bindS (call_access H message to) (\<lambda>c. charge_access H message None (mg_gasLimit message) c body)
      else body (mg_gasLimit message))"

section \<open>Contract creation\<close>

text \<open>The price of the deployed code and the checks on it: the result, and whether it is the
  code-deposit failure of Frontier.\<close>

definition deposit_result :: "('m, 'w) host \<Rightarrow> message \<Rightarrow> u8 list \<Rightarrow> exec_result \<Rightarrow> exec_result \<times> bool \<times> bool" where
  "deposit_result H message code r =
     (let ok = (er_exceptionError r = None); limit = mg_gasLimit message;
          returnFee = (if ok \<and> \<not> ho_eip H 6800
            then int (length (er_returnValue r)) * ho_param H ''createDataGas'' else 0);
          totalGas = er_executionGasUsed r + returnFee;
          allowedCodeSize = \<not> (ok \<and> ho_gteHardfork H ''spuriousDragon''
            \<and> ho_param H ''maxCodeSize'' < int (length (er_returnValue r))) in
      if totalGas \<le> limit \<and> (ho_allowUnlimitedContractSize H \<or> allowedCodeSize)
      then
        if ho_eip H 3541 \<and> at (er_returnValue r) 0 = Some FORMAT
        then
          if \<not> ho_eip H 3540 then (merge_result r (INVALID_BYTECODE_RESULT limit), False, False)
          else if \<not> isEOF code then (merge_result r (INVALID_BYTECODE_RESULT limit), False, False)
          else (r\<lparr>er_executionGasUsed := totalGas\<rparr>, False, False)
        else (r\<lparr>er_executionGasUsed := totalGas\<rparr>, False, False)
      else if ho_gteHardfork H ''homestead''
      then
        if \<not> allowedCodeSize then (merge_result r (CodesizeExceedsMaximumError limit), False, False)
        else (merge_result r (OOGResult limit), False, True)
      else if totalGas - returnFee \<le> limit
      then (merge_result r (COOGResult (totalGas - returnFee)), True, True)
      else (merge_result r (OOGResult limit), False, True))"

definition set_exec :: "exec_result \<Rightarrow> evm_result \<Rightarrow> evm_result" where
  "set_exec e r = r\<lparr>ev_exec := e\<rparr>"

text \<open>From the end of the init code to the result; \<open>oog\<close> tells that the deposit reverted the
  access witness.\<close>

definition create_finish :: "('m, 'w) host \<Rightarrow> message \<Rightarrow> u8 list \<Rightarrow> u8 list \<Rightarrow> evm_result \<Rightarrow> ('m, 'w, evm_result) wev" where
  "create_finish H message code to result =
     (let (r, codestoreOOG, oog) = deposit_result H message code (ev_exec result); W = ho_witness H;
          limit = mg_gasLimit message; gasLimit = limit - er_executionGasUsed r in
      thenS (whenS oog (w_revert H))
      (bindS (if er_exceptionError r = None \<and> stateless H
              then bindS (w_witness (wo_writeAccountHeader W to)) (\<lambda>c.
                if gasLimit - c < 0
                then thenS (w_revert H) (retS (merge_result r (OOGResult limit), gasLimit - c))
                else retS (r\<lparr>er_executionGasUsed := er_executionGasUsed r + c\<rparr>, gasLimit - c))
              else retS (r, gasLimit)) (\<lambda>(r, gasLimit).
       bindS (if er_exceptionError r = None \<and> er_returnValue r \<noteq> []
              then
                bindS (if stateless H
                  then bindS (w_witness (wo_writeAccountCodeChunks W to 0 (int (length (er_returnValue r)) - 1))) (\<lambda>c.
                    if gasLimit - c < 0
                    then thenS (w_revert H) (retS (merge_result r (OOGResult limit)))
                    else thenS (w_commit H) (retS (r\<lparr>er_executionGasUsed := er_executionGasUsed r + c\<rparr>)))
                  else retS r) (\<lambda>r.
                thenS (w_mgr_u (ho_putCode H to (er_returnValue r))) (retS r))
              else
                thenS (whenS (codestoreOOG \<and> \<not> ho_gteHardfork H ''homestead'')
                  (bindS (w_account H to) (w_putAccount H to)))
                (retS r)) (\<lambda>r.
       thenS (clear_transient H message)
       (retS (set_exec r (result\<lparr>ev_createdAddress := Some to\<rparr>)))))))"

text \<open>From the value transfer on, the account of the new contract being \<open>toAccount\<close>.\<close>

definition create_run :: "nat \<Rightarrow> ('m, 'w) host \<Rightarrow> ('m, 'w) runner \<Rightarrow> message \<Rightarrow> u8 list \<Rightarrow> u8 list \<Rightarrow> int \<Rightarrow> account
    \<Rightarrow> ('m, 'w, evm_result) wev" where
  "create_run n H rc message code to gasLimit toAccount =
     bindS (tryW (addToBalance H to toAccount message)) (\<lambda>err.
     if code = [] \<or> err \<noteq> None
     then
       let exit = (\<lambda>gasLimit. retS (plain_result message (Some to)
         \<lparr>er_returnValue = [], er_executionGasUsed = mg_gasLimit message - gasLimit, er_exceptionError = err,
          er_gasRefund = Some (mg_gasRefund message), er_logs = None, er_selfdestruct = {}, er_createdAddresses = {}\<rparr>)) in
       if stateless H
       then bindS (w_witness (wo_writeAccountHeader (ho_witness H) to)) (\<lambda>c.
         charge_access H message None gasLimit c exit)
       else exit gasLimit
     else
       bindS (runInterpreter n H rc code (message\<lparr>mg_gasLimit := gasLimit, mg_isCreate := True\<rparr>)) (\<lambda>result.
       create_finish H message code to (add_gasUsed (mg_gasLimit message - gasLimit) result)))"

definition collides :: "account \<Rightarrow> bool res" where
  "collides a =
     bindE (loaded ''nonce'' (ac_nonce a)) (\<lambda>nonce.
     if 0 < nonce then Inr True
     else
       bindE (loaded ''codeHash'' (ac_codeHash a)) (\<lambda>codeHash.
       if codeHash \<noteq> KECCAK256_NULL then Inr True
       else bindE (loaded ''storageRoot'' (ac_storageRoot a)) (\<lambda>root. Inr (root \<noteq> KECCAK256_RLP))))"

definition executeCreate :: "nat \<Rightarrow> ('m, 'w) host \<Rightarrow> ('m, 'w) runner \<Rightarrow> message \<Rightarrow> ('m, 'w, evm_result) wev" where
  "executeCreate n H rc message =
     (let W = ho_witness H; limit = mg_gasLimit message in
      thenS (whenS (stateless H \<and> mg_depth message = 0)
        (bindS (w_witness (wo_readAccountHeader W (mg_caller message))) (\<lambda>_. retS ())))
      (bindS (w_account H (mg_caller message)) (\<lambda>account.
      thenS (reduceSenderBalance H account message)
      (if ho_eip H 3860 \<and> ho_param H ''maxInitCodeSize'' < int (length (mg_data message))
          \<and> \<not> ho_allowUnlimitedInitCodeSize H
       then retS (plain_result message (mg_to message) (error_result ''initcode exceeds max initcode size'' limit))
       else
         let code = mg_data message;
             message = message\<lparr>mg_code := Some (Bytecode code),
               mg_data := (case mg_eofCallData message of None \<Rightarrow> [] | Some d \<Rightarrow> d)\<rparr> in
         bindS (generateMessageAddress H message) (\<lambda>to.
         let message = message\<lparr>mg_to := Some to, mg_createdAddresses :=
               (if ho_eip H 6780 then insert (bytesToHex (ho_lib H) to) (mg_createdAddresses message)
                else mg_createdAddresses message)\<rparr> in
         bindS (w_account H to) (\<lambda>toAccount.
         bindS (if stateless H
                then bindS (w_witness (wo_writeAccountBasicData W to)) (\<lambda>c1.
                     bindS (w_witness (wo_readAccountCodeHash W to)) (\<lambda>c2. retS (c1 + c2)))
                else retS 0) (\<lambda>c.
         let gasLimit = limit - c in
         if stateless H \<and> gasLimit < 0 then retS (plain_result message None (OOGResult limit))
         else
           thenS (whenS (stateless H) (w_commit H))
           (bindS (liftS (collides toAccount)) (\<lambda>collision.
           if collision
           then retS (plain_result message (Some to) (error_result ''create collision'' limit))
           else
             thenS (w_putAccount H to toAccount)
             (thenS (w_mgr_u (ho_clearStorage H to))
             (bindS (w_account H to) (\<lambda>toAccount.
             bindS (liftS (loaded ''nonce'' (ac_nonce toAccount))) (\<lambda>nonce.
             create_run n H rc message code to gasLimit
               (if ho_gteHardfork H ''spuriousDragon'' then toAccount\<lparr>ac_nonce := Some (nonce + 1)\<rparr>
                else toAccount))))))))))))))"

section \<open>Calls with a checkpoint\<close>

text \<open>The bookkeeping of \<open>runCall\<close> once the message has run.\<close>

definition settle_result :: "evm_result \<Rightarrow> evm_result" where
  "settle_result result =
     (let r = ev_exec result; err = er_exceptionError r in
      if err \<noteq> None \<and> err \<noteq> Some ''code store out of gas''
      then set_exec (r\<lparr>er_selfdestruct := {}, er_createdAddresses := {}, er_gasRefund := Some 0\<rparr>) result
      else result)"

definition failed :: "('m, 'w) host \<Rightarrow> evm_result \<Rightarrow> bool" where
  "failed H result \<longleftrightarrow> er_exceptionError (ev_exec result) \<noteq> None
     \<and> \<not> (ho_hardfork H = ''chainstart'' \<and> er_exceptionError (ev_exec result) = Some ''code store out of gas'')"

definition finish_call :: "('m, 'w) host \<Rightarrow> evm_result \<Rightarrow> ('m, 'w, evm_result) wev" where
  "finish_call H result =
     (if failed H result
      then
        thenS (w_journal (jn_revert (ho_smgr H)))
        (thenS (whenS (ho_eip H 1153) (w_transient ts_revert))
        (thenS (w_commit H)
        (retS (set_exec ((ev_exec result)\<lparr>er_logs := Some []\<rparr>) result))))
      else
        thenS (w_journal (jn_commit (ho_smgr H)))
        (thenS (whenS (ho_eip H 1153) (w_transient ts_commit))
        (thenS (w_commit H) (retS result))))"

text \<open>What comes before the checkpoint: the nonce of the sender of a transaction, and the warm
  address of a new contract.\<close>

definition begin_call :: "('m, 'w) host \<Rightarrow> message \<Rightarrow> ('m, 'w, message) wev" where
  "begin_call H message =
     thenS (whenS (mg_depth message = 0)
       (bindS (w_account H (mg_caller message)) (\<lambda>acc.
        bindS (liftS (loaded ''nonce'' (ac_nonce acc))) (\<lambda>nonce.
        w_putAccount H (mg_caller message) (acc\<lparr>ac_nonce := Some (nonce + 1)\<rparr>)))))
     (if mg_to message = None \<and> ho_eip H 2929
      then
        let message = message\<lparr>mg_code := Some (Bytecode (mg_data message))\<rparr> in
        bindS (generateMessageAddress H message) (\<lambda>a.
        thenS (w_journal (\<lambda>j. Inr (jn_addWarmedAddress (ho_lib H) a j))) (retS message))
      else retS message)"

definition run_message :: "nat \<Rightarrow> ('m, 'w) host \<Rightarrow> ('m, 'w) runner \<Rightarrow> message \<Rightarrow> ('m, 'w, evm_result) wev" where
  "run_message n H rc message =
     bindS (begin_call H message) (\<lambda>message.
     thenS (w_journal (\<lambda>j. Inr (jn_checkpoint (ho_smgr H) j)))
     (thenS (whenS (ho_eip H 1153) (w_transient (\<lambda>t. Inr (ts_checkpoint t))))
     (bindS (case mg_to message of
         Some to \<Rightarrow> executeCall n H rc to message | None \<Rightarrow> executeCreate n H rc message) (\<lambda>result.
      finish_call H (settle_result result)))))"

fun runCall :: "nat \<Rightarrow> ('m, 'w) host \<Rightarrow> message \<Rightarrow> ('m, 'w, evm_result) wev" where
  "runCall 0 H message = failS OutOfFuel"
| "runCall (Suc n) H message = run_message (n + 2) H (runCall n H) message"

end
