(* ===== verification/EvmFrame.thy ===== *)
theory EvmFrame
  imports GasFrame EvmLoop
begin

text \<open>
  What the opcode handlers may change. Four locales state what an observation of the run state does
  not see: the stack, the memory and reads of the state (\<open>quiet\<close>), the program counter
  (\<open>jumping\<close>), gas and the witness (\<open>charging\<close>), writes (\<open>writing\<close>). In each the handlers that do
  no more than that keep the observation. \<open>flow\<close>, the control part of a run of legacy code, and
  \<open>rs_gasLeft\<close> are interpretations.
\<close>

lemma pres_world: "(\<And>s w. P s \<Longrightarrow> P (set_world w s)) \<Longrightarrow> preserves E P (on_world f)"
  by (rule preservesI) (auto simp: on_world_def split: prod.splits)

section \<open>Reads\<close>

locale quiet = reading +
  assumes ign_stack: "P s \<Longrightarrow> P (s\<lparr>rs_stack := st\<rparr>)"
    and ign_memory: "P s \<Longrightarrow> P (s\<lparr>rs_memory := me\<rparr>)"
    and ign_result: "P s \<Longrightarrow> P (s\<lparr>rs_returnValue := rv\<rparr>)"
begin

lemma pres_stack_ops [pres]:
  "preserves E P (on_stack f)" "preserves E P (on_stack_u g)" "preserves E P (s_push v)" "preserves E P s_pop"
  "preserves E P (s_popN n)"
  unfolding on_stack_u_def s_push_def s_pop_def s_popN_def by (rule pres_stack, rule ign_stack, assumption)+

lemma pres_memory [pres]:
  "preserves E P (m_read off len c)" "preserves E P (m_write off len d)" "preserves E P (m_extend off len)"
  by (auto intro!: preservesI simp: m_read_def m_write_def m_extend_def modS_def ign_memory
      split: sum.splits prod.splits)

lemma pres_end [pres]: "preserves E P (finish d)" "preserves E P (revert_run d)"
  unfolding finish_def revert_run_def by (assumption | intro pres pres_mod ign_result)+

lemma pres_transfer [pres]:
  "preserves E P (push_bytes H b)" "preserves E P (m_data off len c)" "preserves E P (copy_to_memory d mo dof len)"
  "preserves E P (load_word H d pos)" "preserves E P (push_stored H b)" "preserves E P (immediate n)"
  "preserves E P (transientStorageLoad H k)"
  unfolding push_bytes_def m_data_def copy_to_memory_def load_word_def push_stored_def immediate_def
    transientStorageLoad_def
  by (intro pres)+

lemma pres_block [pres]:
  "preserves E P (getBlockCoinbase H)" "preserves E P getBlockBaseFee" "preserves E P getBlobBaseFee"
  unfolding getBlockCoinbase_def getBlockBaseFee_def getBlobBaseFee_def by (intro pres)+

lemma pres_environment [pres]:
  "preserves E P (op_KECCAK256 H)" "preserves E P (op_ADDRESS H)" "preserves E P (op_BALANCE H)" "preserves E P (op_ORIGIN H)"
  "preserves E P (op_CALLER H)" "preserves E P op_CALLVALUE" "preserves E P (op_CALLDATALOAD H)" "preserves E P op_CALLDATASIZE"
  "preserves E P op_CALLDATACOPY" "preserves E P op_CODESIZE" "preserves E P op_CODECOPY" "preserves E P op_GASPRICE"
  "preserves E P (op_EXTCODESIZE H)" "preserves E P (op_EXTCODECOPY H)" "preserves E P (op_EXTCODEHASH H)"
  "preserves E P op_RETURNDATASIZE" "preserves E P op_RETURNDATACOPY"
  unfolding op_KECCAK256_def op_ADDRESS_def op_BALANCE_def op_ORIGIN_def op_CALLER_def op_CALLVALUE_def
    op_CALLDATALOAD_def op_CALLDATASIZE_def op_CALLDATACOPY_def op_CODESIZE_def op_CODECOPY_def op_GASPRICE_def
    op_EXTCODESIZE_def op_EXTCODECOPY_def op_EXTCODEHASH_def op_RETURNDATASIZE_def op_RETURNDATACOPY_def
  by (intro pres reads_code)+

lemma pres_blocks [pres]:
  "preserves E P (op_COINBASE H)" "preserves E P op_TIMESTAMP" "preserves E P op_NUMBER" "preserves E P (op_DIFFICULTY H)"
  "preserves E P op_GASLIMIT" "preserves E P (op_CHAINID H)" "preserves E P op_SELFBALANCE" "preserves E P op_BASEFEE"
  "preserves E P op_BLOBHASH" "preserves E P op_BLOBBASEFEE"
  unfolding op_COINBASE_def op_TIMESTAMP_def op_NUMBER_def op_DIFFICULTY_def op_GASLIMIT_def op_CHAINID_def
    op_SELFBALANCE_def op_BASEFEE_def op_BLOBHASH_def op_BLOBBASEFEE_def
  by (intro pres)+

lemma pres_memory_ops [pres]:
  "preserves E P op_POP" "preserves E P (op_MLOAD H)" "preserves E P (op_MSTORE H)" "preserves E P (op_MSTORE8 H)" "preserves E P (op_SLOAD H)"
  "preserves E P op_PC" "preserves E P op_MSIZE" "preserves E P op_GAS" "preserves E P op_JUMPDEST" "preserves E P (op_TLOAD H)"
  "preserves E P op_MCOPY" "preserves E P op_PUSH0" "preserves E P op_DUP" "preserves E P op_SWAP"
  unfolding op_POP_def op_MLOAD_def op_MSTORE_def op_MSTORE8_def op_SLOAD_def op_PC_def op_MSIZE_def op_GAS_def
    op_JUMPDEST_def op_TLOAD_def op_MCOPY_def op_PUSH0_def op_DUP_def op_SWAP_def
  by (intro pres)+

lemma pres_eof_reads [pres]:
  "preserves E P (op_DATALOAD H)" "preserves E P op_DATASIZE" "preserves E P op_DATACOPY" "preserves E P (op_RETURNDATALOAD H)"
  "preserves E P (op_RETURNCONTRACT H)" "preserves E P op_STOP" "preserves E P op_RETURN" "preserves E P op_REVERT"
  unfolding op_DATALOAD_def op_DATASIZE_def op_DATACOPY_def op_RETURNDATALOAD_def op_RETURNCONTRACT_def
    op_STOP_def op_RETURN_def op_REVERT_def
  by (intro pres)+

end

text \<open>The opcodes whose handler does more than read: those that jump, write or call, and BLOCKHASH,
  which pays for a state read in stateless execution.\<close>

definition jump_ops :: "nat set" where
  "jump_ops = {0x56, 0x57, 0xd1, 0xe0, 0xe1, 0xe2, 0xe3, 0xe4, 0xe5, 0xe6, 0xe7, 0xe8}"

definition write_ops :: "nat set" where
  "write_ops = {0x55, 0x5d, 0xff} \<union> {0xa0..0xa4}"

definition call_ops :: "nat set" where
  "call_ops = {0xec, 0xf0, 0xf1, 0xf2, 0xf4, 0xf5, 0xf8, 0xf9, 0xfa, 0xfb}"

section \<open>Jumps, charges, writes and calls\<close>

locale jumping = quiet +
  assumes ign_pc: "P s \<Longrightarrow> P (s\<lparr>rs_pc := pc\<rparr>)"
    and ign_returnStack: "P s \<Longrightarrow> P (s\<lparr>rs_env := (rs_env s)\<lparr>en_eof :=
      map_option (\<lambda>eo. eo\<lparr>eo_returnStack := xs\<rparr>) (en_eof (rs_env s))\<rparr>\<rparr>)"
begin

lemma pres_pc [pres]: "preserves E P (add_pc k)" "preserves E P (set_pc k)" "preserves E P (set_returnStack xs)"
  unfolding add_pc_def set_pc_def set_returnStack_def by (assumption | intro pres_mod ign_pc ign_returnStack)+

lemma pres_jumps [pres]:
  "preserves E P (op_JUMP H)" "preserves E P (op_JUMPI H)" "preserves E P (op_DATALOADN H)" "preserves E P op_RJUMP" "preserves E P op_RJUMPI"
  "preserves E P op_RJUMPV" "preserves E P (op_CALLF H)" "preserves E P op_RETF" "preserves E P (op_JUMPF H)" "preserves E P (op_DUPN H)"
  "preserves E P (op_SWAPN H)" "preserves E P (op_EXCHANGE H)"
  unfolding op_JUMP_def op_JUMPI_def jump_to_def op_DATALOADN_def op_RJUMP_def op_RJUMPI_def op_RJUMPV_def
    op_CALLF_def op_RETF_def op_JUMPF_def op_DUPN_def op_SWAPN_def op_EXCHANGE_def section_target_def
  by (intro pres)+

end

locale charging = quiet +
  assumes ign_gas: "P s \<Longrightarrow> P (s\<lparr>rs_gasLeft := g\<rparr>)"
    and spends_witness: "P s \<Longrightarrow> P (s\<lparr>rs_witness := w\<rparr>)"
begin

lemma pres_charge [pres]: "preserves E P (useGas g)" "preserves E P (addStipend g)" "preserves E P (on_witness f)"
  by (auto intro!: preservesI simp: useGas_def addStipend_def on_witness_def failS_def modS_def Let_def
      ign_gas spends_witness split: prod.splits if_splits)

lemma pres_BLOCKHASH [pres]: "preserves E P (op_BLOCKHASH H)"
  unfolding op_BLOCKHASH_def by (intro pres reads_storage)

end

locale writing = quiet +
  assumes stores: "preserves E P (storageStore H k v)"
    and destructs: "preserves E P (selfDestruct H a)"
    and puts_transient: "P s \<Longrightarrow> ts_put (ho_lib H) a k v (rs_transient s) = Inr t \<Longrightarrow> P (s\<lparr>rs_transient := t\<rparr>)"
    and ign_logs: "P s \<Longrightarrow> P (s\<lparr>rs_logs := ls\<rparr>)"
begin

lemma pres_put_transient [pres]: "preserves E P (transientStorageStore H k v)"
  by (rule preservesI) (auto simp: transientStorageStore_def puts_transient split: sum.splits)

lemma pres_log [pres]: "preserves E P (logS d n ts)"
  unfolding logS_def by (assumption | intro pres pres_mod ign_logs)+

lemma pres_writes [pres]:
  "preserves E P (op_SSTORE H)" "preserves E P (op_TSTORE H)" "preserves E P (op_LOG H)" "preserves E P (op_SELFDESTRUCT H)"
  unfolding op_SSTORE_def op_TSTORE_def op_LOG_def op_SELFDESTRUCT_def
  by (intro pres stores destructs)+

end

text \<open>An invariant that does not see the parts that are written at all.\<close>

locale blind_writes = quiet +
  assumes writes_storage: "preserves E P (on_mgr (\<lambda>m. bindE (ho_putStorage H a k v m) (\<lambda>m'. Inr ((), m'))))"
    and writes_fields: "preserves E P (on_mgr (\<lambda>m. bindE (ho_modifyAccountFields H a fs m) (\<lambda>m'. Inr ((), m'))))"
    and writes_journal: "preserves E P (on_journal (jn_putAccount (ho_lib H) (ho_smgr H) a acc))"
    and blind_transient: "P s \<Longrightarrow> ts_put (ho_lib H) a k v (rs_transient s) = Inr t \<Longrightarrow> P (s\<lparr>rs_transient := t\<rparr>)"
    and ign_contract: "P s \<Longrightarrow> P (s\<lparr>rs_env := (rs_env s)\<lparr>en_contract := con\<rparr>\<rparr>)"
    and blind_logs: "P s \<Longrightarrow> P (s\<lparr>rs_logs := ls\<rparr>)"
    and blind_refunds: "P s \<Longrightarrow> P (s\<lparr>rs_gasRefund := r\<rparr>)"
    and ign_selfdestruct: "P s \<Longrightarrow> P (s\<lparr>rs_selfdestruct := sd\<rparr>)"
begin

lemma blind_refund: "preserves E P (refundGas g)"
  unfolding refundGas_def by (rule pres_mod) (rule blind_refunds)

lemma blind_store: "preserves E P (storageStore H k v)"
  unfolding storageStore_def on_mgr_u_def by (assumption | intro pres pres_mod writes_storage ign_contract)+

lemma blind_destruct: "preserves E P (selfDestruct H a)"
  unfolding selfDestruct_def on_mgr_u_def
  by (assumption | intro pres pres_mod blind_refund writes_fields writes_journal ign_selfdestruct)+

end

sublocale blind_writes \<subseteq> writing
  by unfold_locales (simp_all add: blind_store blind_destruct blind_transient blind_logs)

locale calling = charging + writing +
  fixes rc :: "('a, 'b) runner"
  assumes calls_out: "mg_to m \<noteq> None \<Longrightarrow> mg_depth m \<noteq> 0 \<Longrightarrow> preserves E P (baseCall H rc m)"
    and creates: "preserves E P (ev_create H rc g v c salt d)"
    and ign_returnBytes: "P s \<Longrightarrow> P (s\<lparr>rs_returnBytes := rb\<rparr>)"
    and takes_messageGas: "P s \<Longrightarrow> P (s\<lparr>rs_messageGasLimit := mg\<rparr>)"
begin

lemma pres_call_parts [pres]:
  "preserves E P (set_returnBytes b)" "preserves E P take_messageGas" "preserves E P (writeCallOutput off len)"
  "preserves E P (initcode_check H len)" "preserves E P (stipend H v g)"
  unfolding set_returnBytes_def take_messageGas_def writeCallOutput_def initcode_check_def stipend_def
  by (assumption | intro pres pres_mod ign_returnBytes takes_messageGas)+

lemma pres_light [pres]: "preserves E P light_failure"
  unfolding light_failure_def by (intro pres)

lemma pres_ev_calls [pres]:
  "preserves E P (ev_call H rc g a v d)" "preserves E P (ev_callCode H rc g a v d)"
  "preserves E P (ev_callStatic H rc g a v d)" "preserves E P (ev_callDelegate H rc g a v d)"
  unfolding ev_call_def ev_callCode_def ev_callStatic_def ev_callDelegate_def call_message_def
  by (intro pres calls_out; simp)+

lemma pres_calls [pres]:
  "preserves E P (op_CREATE H rc)" "preserves E P (op_CREATE2 H rc)" "preserves E P (op_CALL H rc)"
  "preserves E P (op_CALLCODE H rc)" "preserves E P (op_DELEGATECALL H rc)" "preserves E P (op_STATICCALL H rc)"
  "preserves E P (op_EXTCALL H rc)" "preserves E P (op_EXTDELEGATECALL H rc)" "preserves E P (op_EXTSTATICCALL H rc)"
  unfolding op_CREATE_def op_CREATE2_def op_CALL_def op_CALLCODE_def op_DELEGATECALL_def op_STATICCALL_def
    op_EXTCALL_def op_EXTDELEGATECALL_def op_EXTSTATICCALL_def
  by (intro pres reads_code creates)+

end

locale blind_calls = charging + blind_writes +
  fixes rc :: "('a, 'b) runner"
  assumes blind_returnBytes: "P s \<Longrightarrow> P (s\<lparr>rs_returnBytes := rb\<rparr>)"
    and blind_messageGas: "P s \<Longrightarrow> P (s\<lparr>rs_messageGasLimit := mg\<rparr>)"
    and ign_created: "P s \<Longrightarrow> P (s\<lparr>rs_env := (rs_env s)\<lparr>en_createdAddresses := cr\<rparr>\<rparr>)"
    and ign_callee: "P s \<Longrightarrow> P (s\<lparr>rs_env := (rs_env s)\<lparr>en_contract := con\<rparr>, rs_gasRefund := r\<rparr>)"
    and runs: "preserves E P (on_world (rc msg))"
begin

lemma blind_parts [pres]:
  "preserves E P (set_returnBytes b)" "preserves E P (append_logs ls)" "preserves E P (adopt_callee H res)"
  "preserves E P (call_blocked H c v)" "preserves E P (getReturnCode res e)"
  unfolding set_returnBytes_def append_logs_def adopt_callee_def call_blocked_def getReturnCode_def
  by (assumption | intro pres pres_mod blind_returnBytes ign_created ign_callee blind_logs ign_selfdestruct)+

lemma blind_base: "preserves E P (baseCall H rc m)" and blind_create: "preserves E P (ev_create H rc g v c salt d)"
  unfolding baseCall_def ev_create_def
  by (assumption | intro pres pres_mod runs writes_journal ign_contract)+

end

sublocale blind_calls \<subseteq> calling
  by unfold_locales (simp_all add: blind_base blind_create blind_returnBytes blind_messageGas)

locale driving = jumping + calling
begin

lemma pres_drive [pres]: "preserves E P (op_PUSH H)" "preserves E P (op_EOFCREATE H rc)"
  unfolding op_PUSH_def op_EOFCREATE_def by (intro pres creates)+

end

section \<open>The handler table\<close>

context quiet begin

lemma quiet_handlers:
  assumes "handlers H rc op = Some f"
    and "op \<notin> jump_ops \<union> write_ops \<union> call_ops" "op \<noteq> 0x40" "\<not> (0x60 \<le> op \<and> op \<le> 0x7f)"
  shows "preserves E P f"
proof -
  have t: "list_all (\<lambda>(op, f). op = 0x40 \<or> op \<in> jump_ops \<or> op \<in> write_ops \<or> op \<in> call_ops \<or> preserves E P f)
      (handler_table H rc)"
    unfolding handler_table_def list.pred_inject prod.case jump_ops_def write_ops_def call_ops_def
    by (simp only: pres_stack_ops pres_environment pres_blocks pres_memory_ops pres_eof_reads insert_iff Un_iff
        list.pred_inject(1) simp_thms)
  show ?thesis
  proof (cases "0x80 \<le> op \<and> op \<le> 0x9f")
    case True
    then show ?thesis using assms(1) by (auto simp: handlers_def pres_memory_ops split: if_splits)
  next
    case False
    with assms have "map_of (handler_table H rc) op = Some f"
      by (auto simp: handlers_def write_ops_def split: if_splits)
    from map_of_SomeD [OF this] t assms(2,3) show ?thesis by (auto simp: list_all_iff)
  qed
qed

end

context jumping begin

lemma jumping_handlers:
  assumes "handlers H rc op = Some f" "op \<in> jump_ops"
  shows "preserves E P f"
  using assms by (auto simp: jump_ops_def handlers_def handler_table_def pres_jumps)

end

context writing begin

lemma writing_handlers:
  assumes "handlers H rc op = Some f" "op \<in> write_ops"
  shows "preserves E P f"
  using assms by (auto simp: write_ops_def handlers_def handler_table_def pres_writes split: if_splits)

end

context calling begin

lemma calling_handlers:
  assumes "handlers H rc op = Some f" "op \<in> call_ops" "op \<noteq> 0xec"
  shows "preserves E P f"
  using assms by (auto simp: call_ops_def handlers_def handler_table_def pres_calls)

end

context driving begin

lemma all_handlers:
  assumes "handlers H rc op = Some f"
  shows "preserves E P f"
proof -
  consider (push) "0x60 \<le> op" "op \<le> 0x7f" | (jump) "op \<in> jump_ops" | (store) "op \<in> write_ops"
    | (call) "op \<in> call_ops" | (hash) "op = 0x40"
    | (quiet) "op \<notin> jump_ops \<union> write_ops \<union> call_ops" "op \<noteq> 0x40" "\<not> (0x60 \<le> op \<and> op \<le> 0x7f)"
    by auto
  then show ?thesis
  proof cases
    case push
    then show ?thesis using assms by (auto simp: handlers_def pres_drive)
  next
    case jump
    then show ?thesis by (rule jumping_handlers [OF assms])
  next
    case store
    then show ?thesis by (rule writing_handlers [OF assms])
  next
    case call
    then show ?thesis using assms calling_handlers [OF assms]
      by (cases "op = 0xec") (auto simp: handlers_def handler_table_def pres_drive)
  next
    case hash
    then show ?thesis using assms by (auto simp: handlers_def handler_table_def pres_BLOCKHASH)
  next
    case quiet
    then show ?thesis by (rule quiet_handlers [OF assms])
  qed
qed

end

section \<open>Control flow and gas as observations\<close>

definition flow where
  "flow s = (rs_pc s, rs_opCode s, rs_code s, rs_shouldDoJumpAnalysis s, rs_validJumps s, rs_cachedPushes s,
     en_code (rs_env s), en_eof (rs_env s))"

lemma flow_ignores:
  "flow (s\<lparr>rs_stack := st\<rparr>) = flow s" "flow (s\<lparr>rs_memory := me\<rparr>) = flow s"
  "flow (s\<lparr>rs_returnValue := rv\<rparr>) = flow s" "flow (s\<lparr>rs_gasLeft := g\<rparr>) = flow s"
  "flow (s\<lparr>rs_witness := w\<rparr>) = flow s" "flow (s\<lparr>rs_transient := t\<rparr>) = flow s"
  "flow (s\<lparr>rs_env := (rs_env s)\<lparr>en_contract := con\<rparr>\<rparr>) = flow s" "flow (s\<lparr>rs_logs := ls\<rparr>) = flow s"
  "flow (s\<lparr>rs_gasRefund := r\<rparr>) = flow s" "flow (s\<lparr>rs_selfdestruct := sd\<rparr>) = flow s"
  "flow (s\<lparr>rs_returnBytes := rb\<rparr>) = flow s" "flow (s\<lparr>rs_messageGasLimit := mg\<rparr>) = flow s"
  "flow (s\<lparr>rs_env := (rs_env s)\<lparr>en_createdAddresses := cr\<rparr>\<rparr>) = flow s"
  "flow (s\<lparr>rs_env := (rs_env s)\<lparr>en_contract := con\<rparr>, rs_gasRefund := r\<rparr>) = flow s"
  "flow (s\<lparr>rs_journal := j\<rparr>) = flow s" "flow (set_world wd s) = flow s"
  by (simp_all add: flow_def set_world_def)

interpretation flow: blind_calls "\<lambda>_ _. False" H "\<lambda>s. flow s = v" rc for H :: "('m, 'w) host" and v rc
  by unfold_locales
    (simp_all only: flow_ignores, (rule pres_mgr pres_journal pres_world, simp only: flow_ignores)+)

text \<open>The tables of the jump analysis and the code: no handler changes them.\<close>

definition code_view where
  "code_view s = (rs_opCode s, rs_code s, rs_shouldDoJumpAnalysis s, rs_validJumps s, rs_cachedPushes s,
     en_code (rs_env s), en_eof (rs_env s) = None)"

lemma code_view_ignores:
  "code_view (s\<lparr>rs_stack := st\<rparr>) = code_view s" "code_view (s\<lparr>rs_memory := me\<rparr>) = code_view s"
  "code_view (s\<lparr>rs_returnValue := rv\<rparr>) = code_view s" "code_view (s\<lparr>rs_gasLeft := g\<rparr>) = code_view s"
  "code_view (s\<lparr>rs_witness := w\<rparr>) = code_view s" "code_view (s\<lparr>rs_transient := t\<rparr>) = code_view s"
  "code_view (s\<lparr>rs_env := (rs_env s)\<lparr>en_contract := con\<rparr>\<rparr>) = code_view s"
  "code_view (s\<lparr>rs_logs := ls\<rparr>) = code_view s" "code_view (s\<lparr>rs_pc := pc\<rparr>) = code_view s"
  "code_view (s\<lparr>rs_gasRefund := r\<rparr>) = code_view s" "code_view (s\<lparr>rs_selfdestruct := sd\<rparr>) = code_view s"
  "code_view (s\<lparr>rs_returnBytes := rb\<rparr>) = code_view s" "code_view (s\<lparr>rs_messageGasLimit := mg\<rparr>) = code_view s"
  "code_view (s\<lparr>rs_env := (rs_env s)\<lparr>en_createdAddresses := cr\<rparr>\<rparr>) = code_view s"
  "code_view (s\<lparr>rs_env := (rs_env s)\<lparr>en_contract := con\<rparr>, rs_gasRefund := r\<rparr>) = code_view s"
  "code_view (s\<lparr>rs_env := (rs_env s)\<lparr>en_eof := map_option f (en_eof (rs_env s))\<rparr>\<rparr>) = code_view s"
  "code_view (s\<lparr>rs_journal := j\<rparr>) = code_view s" "code_view (set_world wd s) = code_view s"
  by (simp_all add: code_view_def set_world_def)

locale blind_driving = jumping + blind_calls

sublocale blind_driving \<subseteq> driving
  by unfold_locales

interpretation code_view: blind_driving "\<lambda>_ _. False" H "\<lambda>s. code_view s = v" rc for H :: "('m, 'w) host" and v rc
  by unfold_locales
    (simp_all only: code_view_ignores, (rule pres_mgr pres_journal pres_world, simp only: code_view_ignores)+)

interpretation gas: jumping "\<lambda>_ _. False" H "\<lambda>s. rs_gasLeft s = v" for H :: "('m, 'w) host" and v
  by unfold_locales (simp_all, (rule pres_mgr, simp)+)

interpretation gas: blind_writes "\<lambda>_ _. False" H "\<lambda>s. rs_gasLeft s = v" for H :: "('m, 'w) host" and v
  by unfold_locales (simp_all, (rule pres_mgr pres_journal, simp)+)

lemma dynamic_gas_flow: "dynamicGasHandlers H op = Some f \<Longrightarrow> keeps flow (f g)"
  by (rule keeps_of [OF keeps_table]) (auto simp: machine_def flow_def)

lemma dynamic_gas_left: "dynamicGasHandlers H op = Some f \<Longrightarrow> keeps rs_gasLeft (f g)"
  by (rule keeps_of [OF keeps_table]) (auto simp: machine_def)

context pricing begin

lemma pres_step_gas: "preserves E P (step_gas H info)"
proof -
  have t: "preserves E P (case dynamicGasHandlers H op of None \<Rightarrow> failS e | Some f \<Rightarrow> f g)" for op e g
    by (cases "dynamicGasHandlers H op") (simp_all add: pres_base pres_gas_table)
  show ?thesis unfolding step_gas_def by (intro t pres_bind pres_if pres_base pres_pricing)
qed

end

lemma step_gas_machine: "keeps machine (step_gas H info)"
  using machine.pres_step_gas by blast

lemma step_gas_flow: "keeps flow (step_gas H info)"
  by (rule keeps_of [OF step_gas_machine]) (simp add: machine_def flow_def)

lemma step_gas_left: "keeps rs_gasLeft (step_gas H info)"
  by (rule keeps_of [OF step_gas_machine]) (simp add: machine_def)

end
