(* ===== verification/EvmJumps.thy ===== *)
theory EvmJumps
  imports EvmFrame EvmRun
begin

text \<open>
  Jump analysis and control flow of legacy code. \<open>boundary code\<close> are the positions at which an
  instruction starts when the code is read from its beginning. The analysis finds exactly those, the
  loop, a step relation here, never leaves them, and the caches the analysis fills change nothing.
\<close>

section \<open>Instruction boundaries\<close>

definition push_size :: "u8 \<Rightarrow> nat" where
  "push_size b = (if 0x60 \<le> unat b \<and> unat b \<le> 0x7f then unat b - 0x5f else 0)"

definition next_instr :: "u8 list \<Rightarrow> nat \<Rightarrow> nat" where
  "next_instr code i = i + 1 + push_size (code ! i)"

inductive boundary :: "u8 list \<Rightarrow> nat \<Rightarrow> bool" for code where
  boundary_0: "boundary code 0"
| boundary_next: "boundary code i \<Longrightarrow> i < length code \<Longrightarrow> boundary code (next_instr code i)"

lemma next_instr_gt: "i < next_instr code i"
  by (simp add: next_instr_def)

lemma boundary_after:
  "boundary code j \<Longrightarrow> boundary code i \<Longrightarrow> i < j \<Longrightarrow> next_instr code i \<le> j"
proof (induction j arbitrary: i rule: less_induct)
  case (less j)
  from less.prems(1) show ?case
  proof cases
    case boundary_0
    with less.prems(3) show ?thesis by simp
  next
    case (boundary_next k)
    have "k < j" using boundary_next(1) next_instr_gt by simp
    consider "i < k" | "i = k" | "k < i" by linarith
    then show ?thesis
    proof cases
      case 1
      with less.IH [OF \<open>k < j\<close> boundary_next(2) less.prems(2)] \<open>k < j\<close> show ?thesis by simp
    next
      case 3
      with less.IH [OF less.prems(3) less.prems(2) boundary_next(2)] boundary_next(1) less.prems(3) show ?thesis
        by simp
    qed (simp add: boundary_next(1))
  qed
qed

lemma boundary_gap: "boundary code i \<Longrightarrow> i < j \<Longrightarrow> j < next_instr code i \<Longrightarrow> \<not> boundary code j"
  using boundary_after by fastforce

section \<open>The analysis\<close>

definition pushed :: "u8 list \<Rightarrow> nat \<Rightarrow> int" where
  "pushed code i = int (be_val (push_data code (int (i + 1)) (push_size (code ! i))))"

text \<open>The tables are right up to position \<open>c\<close>.\<close>

definition tables_upto :: "('m, 'w) host \<Rightarrow> u8 list \<Rightarrow> nat \<Rightarrow> jump_table \<Rightarrow> bool" where
  "tables_upto H code c t \<longleftrightarrow>
     length (jt_jumps t) = length code
     \<and> (\<forall>i < length code. jt_jumps t ! i = (if i < c \<and> boundary code i \<and> unat (code ! i) = 0x5b then 1 else 0))
     \<and> (\<forall>i. jt_opcodes t i = (if i < c \<and> boundary code i \<and> i < length code
          then Some (lookupOpInfo H (unat (code ! i))) else None))
     \<and> (\<forall>i. jt_pushes t (Suc i) = (if i < c \<and> boundary code i \<and> i < length code \<and> push_size (code ! i) \<noteq> 0
          then Some (pushed code i) else None))
     \<and> jt_pushes t 0 = None"

lemma boundary_upto:
  "boundary code i \<Longrightarrow> j < next_instr code i \<and> boundary code j \<longleftrightarrow> j = i \<or> j < i \<and> boundary code j"
  using boundary_gap [of code i j] next_instr_gt [of i code] by (cases "j = i"; cases "i < j") auto

lemma tables_step:
  assumes "tables_upto H code i t" "boundary code i" "i < length code"
  shows "tables_upto H code (next_instr code i)
    (t\<lparr>jt_opcodes := (jt_opcodes t)(i \<mapsto> lookupOpInfo H (unat (code ! i))),
       jt_pushes := (if push_size (code ! i) \<noteq> 0 then (jt_pushes t)(Suc i \<mapsto> pushed code i) else jt_pushes t),
       jt_jumps := (if unat (code ! i) = 0x5b then (jt_jumps t)[i := 1] else jt_jumps t)\<rparr>)"
  using assms
  by (auto simp: tables_upto_def boundary_upto nth_list_update conj_assoc [symmetric] simp del: conj_assoc)

lemma jump_scan_ok:
  assumes L: "lib_ok (ho_lib H)"
  shows "boundary code i \<Longrightarrow> tables_upto H code i t \<Longrightarrow>
    \<exists>t' c. jump_scan H code i t = Inr t' \<and> length code \<le> c \<and> tables_upto H code c t'"
proof (induction "length code - i" arbitrary: i t rule: less_induct)
  case less
  let ?op = "unat (code ! i)"
  note scan = jump_scan.simps [of H code i t]
  show ?case
  proof (cases "length code \<le> i")
    case True
    with less.prems show ?thesis by (auto simp: scan)
  next
    case False
    then have i: "i < length code" by simp
    note step = less.hyps [OF diff_less_mono2 [OF next_instr_gt i] boundary_next [OF less.prems(1) i]
        tables_step [OF less.prems(2,1) i]]
    consider (push) "0x60 \<le> ?op" "?op \<le> 0x7f" | (dest) "?op = 0x5b"
      | (other) "?op < 0x60 \<or> 0x7f < ?op" "?op \<noteq> 0x5b" by linarith
    then show ?thesis
    proof cases
      case push
      then have n: "push_size (code ! i) = ?op - 0x5f" "next_instr code i = i + (?op - 0x5f) + 1"
        "i + ?op - 0x5e = i + 1 + (?op - 0x5f)" by (simp_all add: push_size_def next_instr_def)
      have "pushed code i = int (be_val (let d = slice (i + 1) (i + ?op - 0x5e) code in
          if length d < ?op - 0x5f then setLengthRight d (?op - 0x5f) else d))"
        using n by (simp add: pushed_def push_data_def Let_def nat_add_distrib)
      with step push i n L show ?thesis by (simp add: scan Let_def)
    next
      case dest
      then have "push_size (code ! i) = 0" "next_instr code i = i + 1" by (simp_all add: push_size_def next_instr_def)
      with step dest i show ?thesis by (simp add: scan Let_def)
    next
      case other
      then have "push_size (code ! i) = 0" "next_instr code i = i + 1" by (auto simp: push_size_def next_instr_def)
      with step other i show ?thesis by (auto simp: scan Let_def)
    qed
  qed
qed

text \<open>The complete tables.\<close>

definition analysis_ok :: "('m, 'w) host \<Rightarrow> u8 list \<Rightarrow> jump_table \<Rightarrow> bool" where
  "analysis_ok H code t \<longleftrightarrow>
     length (jt_jumps t) = length code
     \<and> (\<forall>i < length code. jt_jumps t ! i = (if boundary code i \<and> code ! i = 0x5b then 1 else 0))
     \<and> (\<forall>i < length code. jt_opcodes t i =
          (if boundary code i then Some (lookupOpInfo H (unat (code ! i))) else None))
     \<and> (\<forall>i < length code. jt_pushes t (Suc i) =
          (if boundary code i \<and> push_size (code ! i) \<noteq> 0 then Some (pushed code i) else None))"

lemma unat_jumpdest: "unat (b :: u8) = 0x5b \<longleftrightarrow> b = 0x5b"
proof -
  have "unat (0x5b :: u8) = 0x5b" by simp
  then show ?thesis by (metis word_unat_eq_iff)
qed

lemma getValidJumpDestinations_ok:
  assumes "lib_ok (ho_lib H)"
  shows "\<exists>t. getValidJumpDestinations H code = Inr t \<and> analysis_ok H code t"
proof -
  have "tables_upto H code 0
    \<lparr>jt_jumps = replicate (length code) 0, jt_pushes = (\<lambda>_. None), jt_opcodes = (\<lambda>_. None)\<rparr>"
    by (simp add: tables_upto_def)
  from jump_scan_ok [OF assms boundary_0 this] obtain t c where
    t: "getValidJumpDestinations H code = Inr t" "length code \<le> c" "tables_upto H code c t"
    unfolding getValidJumpDestinations_def by blast
  then show ?thesis
    by (auto simp: tables_upto_def analysis_ok_def unat_jumpdest)
qed

text \<open>C19. Jump analysis is exact. It ends without an error and marks a position as a jump target if
  and only if the byte there is a JUMPDEST and starts an instruction: one inside the data of a PUSH
  is never marked. A cached push value is there for every PUSH instruction, under the position of its
  data, and for no other position, and is the big-endian number of the data, padded with zero bytes
  where the code ends early.\<close>

theorem jump_analysis_exact:
  assumes "lib_ok (ho_lib H)"
  shows "\<exists>t. getValidJumpDestinations H code = Inr t \<and> length (jt_jumps t) = length code
    \<and> (\<forall>i < length code. jt_jumps t ! i = (if boundary code i \<and> code ! i = 0x5b then 1 else 0))
    \<and> (\<forall>i < length code. jt_pushes t (Suc i) =
          (if boundary code i \<and> push_size (code ! i) \<noteq> 0 then Some (pushed code i) else None))"
  using getValidJumpDestinations_ok [OF assms, of code] unfolding analysis_ok_def by blast

theorem jump_analysis_exact_witness:
  "\<exists>t. getValidJumpDestinations ref_host [0x60, 0x5b, 0x5b] = Inr t \<and> length (jt_jumps t) = 3
    \<and> jt_jumps t ! 1 = 0 \<and> jt_jumps t ! 2 = 1 \<and> jt_pushes t 1 = Some 0x5b"
proof -
  let ?c = "[0x60, 0x5b, 0x5b] :: u8 list"
  have n: "next_instr ?c 0 = 2" by (simp add: next_instr_def push_size_def)
  have 2: "boundary ?c 2" using boundary_next [OF boundary_0, of ?c] by (simp add: n)
  have 1: "\<not> boundary ?c 1" by (rule boundary_gap [OF boundary_0]) (simp_all add: n)
  from jump_analysis_exact [of ref_host ?c] obtain t where
    t: "getValidJumpDestinations ref_host ?c = Inr t" "length (jt_jumps t) = length ?c"
    "\<forall>i < length ?c. jt_jumps t ! i = (if boundary ?c i \<and> ?c ! i = 0x5b then 1 else 0)"
    "\<forall>i < length ?c. jt_pushes t (Suc i) =
          (if boundary ?c i \<and> push_size (?c ! i) \<noteq> 0 then Some (pushed ?c i) else None)" by auto
  have p: "pushed ?c 0 = 0x5b" by (simp add: pushed_def push_data_def push_size_def slice_def be_val_def)
  show ?thesis
    using t(1,2) t(3) [rule_format, of 1] t(3) [rule_format, of 2] t(4) [rule_format, of 0] 1 2 p
    by (simp add: boundary_0 push_size_def)
qed

section \<open>The loop as a step relation\<close>

text \<open>A configuration is the cached opcodes and the run state; one step is one round of the loop that
  goes on.\<close>

inductive loop_step :: "('m, 'w) host \<Rightarrow> ('m, 'w) runner \<Rightarrow> cached \<times> ('m, 'w) rs \<Rightarrow> cached \<times> ('m, 'w) rs \<Rightarrow> bool"
  for H rc where
  round: "rs_pc s < int (length (rs_code s)) \<Longrightarrow> fetch H cached s = (Inr (info, cached'), s1) \<Longrightarrow>
    check_chunk H s1 = (Inr (), s2) \<Longrightarrow> runStep H rc info s2 = (Inr (), s3) \<Longrightarrow>
    loop_step H rc (cached, s) (cached', s3)"

inductive_cases loop_stepE: "loop_step H rc (cached, s) c'"

definition cfg_ok :: "('m, 'w) host \<Rightarrow> u8 list \<Rightarrow> cached \<times> ('m, 'w) rs \<Rightarrow> bool" where
  "cfg_ok H code c \<longleftrightarrow> (case c of (cached, s) \<Rightarrow>
     rs_code s = code \<and> en_code (rs_env s) = code \<and> en_eof (rs_env s) = None
     \<and> 0 \<le> rs_pc s \<and> boundary code (nat (rs_pc s))
     \<and> (case cached of
          None \<Rightarrow> rs_shouldDoJumpAnalysis s \<and> rs_validJumps s = []
        | Some ops \<Rightarrow> \<not> rs_shouldDoJumpAnalysis s
            \<and> (\<exists>t. analysis_ok H code t \<and> ops = jt_opcodes t \<and> rs_validJumps s = jt_jumps t
                \<and> rs_cachedPushes s = jt_pushes t)))"

lemma cfg_ok_view:
  "code_view s' = code_view s \<Longrightarrow> cfg_ok H code (cached, s) \<Longrightarrow> 0 \<le> rs_pc s' \<Longrightarrow> boundary code (nat (rs_pc s')) \<Longrightarrow>
   cfg_ok H code (cached, s')"
  by (auto simp: cfg_ok_def code_view_def split: option.splits)

lemma fetch_ok:
  assumes "lib_ok (ho_lib H)" "cfg_ok H code (cached, s)" "rs_pc s < int (length code)"
  shows "\<exists>cached' s1. fetch H cached s = (Inr (lookupOpInfo H (unat (code ! nat (rs_pc s))), cached'), s1)
    \<and> cfg_ok H code (cached', s1) \<and> rs_pc s1 = rs_pc s
    \<and> rs_opCode s1 \<in> {unat (code ! nat (rs_pc s)), oc_code (lookupOpInfo H (unat (code ! nat (rs_pc s))))}"
proof (cases cached)
  case None
  obtain t where t: "getValidJumpDestinations H code = Inr t" "analysis_ok H code t"
    using getValidJumpDestinations_ok [OF assms(1)] by blast
  with None assms show ?thesis
    by (auto simp: fetch_def analysed_def bindS_def getS_def liftS_def modS_def retS_def cfg_ok_def Let_def)
next
  case (Some ops)
  with assms obtain t where t: "analysis_ok H code t" "ops = jt_opcodes t" by (auto simp: cfg_ok_def)
  have "nat (rs_pc s) < length code" "boundary code (nat (rs_pc s))" using assms by (auto simp: cfg_ok_def)
  with t have "ops (nat (rs_pc s)) = Some (lookupOpInfo H (unat (code ! nat (rs_pc s))))"
    by (simp add: analysis_ok_def)
  with Some assms show ?thesis
    by (auto simp: fetch_def bindS_def getS_def modS_def retS_def cfg_ok_def)
qed

lemma check_chunk_same: "check_chunk H s = (r, s') \<Longrightarrow> s' = s"
  by (auto simp: check_chunk_def bindS_def getS_def whenS_def failS_def retS_def split: if_splits)

text \<open>The opcode of the entry of a byte is the byte, unless the entry is invalid.\<close>

lemma lookup_code: "oc_code (lookupOpInfo H op) = op \<or> oc_isInvalid (lookupOpInfo H op)"
  by (simp add: lookupOpInfo_def opcode_new_def defaultOp_def split: option.split)

section \<open>Where a handler leaves the program counter\<close>

lemma bind_need_eof: "en_eof (rs_env s) = None \<Longrightarrow> bindS need_eof f s = (Inl (EvmTrap ''invalid opcode''), s)"
  by (simp add: need_eof_def bindS_def getS_def failS_def)

text \<open>Outside EOF code these opcodes fail.\<close>

lemma eof_only:
  assumes "en_eof (rs_env s) = None" "op \<in> jump_ops - {0x56, 0x57} \<or> op = 0xec" "handlers H rc op = Some f"
  shows "f s = (Inl (EvmTrap ''invalid opcode''), s)"
  using assms
  by (auto simp: jump_ops_def handlers_def handler_table_def op_DATALOADN_def op_RJUMP_def op_RJUMPI_def
      op_RJUMPV_def op_CALLF_def op_RETF_def op_JUMPF_def op_DUPN_def op_SWAPN_def op_EXCHANGE_def
      op_EOFCREATE_def bind_need_eof)

lemma op_PUSH_pc:
  assumes "op_PUSH H s = (Inr (), s')"
  shows "rs_pc s' = rs_pc s + int (rs_opCode s - 0x5f)"
proof -
  have pc: "rs_pc s2 = rs_pc s1" if "\<And>v. preserves (\<lambda>_ _. False) (\<lambda>s. flow s = v) m" "m s1 = (r, s2)" for m :: "('a, 'b, 'c) ev" and s1 r s2
    using presD [OF that] by (simp add: flow_def)
  have w: "preserves (\<lambda>_ _. False) (\<lambda>s. flow s = v) (whenS b (bindS (on_witness g) useGas) :: ('a, 'b, unit) ev)" for v b and g :: "'b \<Rightarrow> int \<times> 'b"
    by (intro pres flow.pres_charge)
  show ?thesis
    using assms unfolding op_PUSH_def Let_def
    by (auto simp: bindS_Inr add_pc_def split: if_splits option.splits
        dest!: pc [OF w] pc [OF flow.pres_stack_ops(3)] pc [OF flow.pres_transfer(1)])
qed

lemma jump_to_pc:
  "jump_to H dest s = (Inr (), s') \<Longrightarrow> rs_pc s' = dest \<and> 0 \<le> dest \<and> at (rs_validJumps s) (nat dest) = Some 1"
  by (auto simp: jump_to_def bindS_Inr set_pc_def jumpIsValid_def split: if_splits)

lemma jump_pc:
  assumes "op_JUMP H s = (Inr (), s') \<or> op_JUMPI H s = (Inr (), s')"
  shows "rs_pc s' = rs_pc s \<or> 0 \<le> rs_pc s' \<and> at (rs_validJumps s) (nat (rs_pc s')) = Some 1"
proof -
  have st: "rs_pc s2 = rs_pc s1 \<and> rs_validJumps s2 = rs_validJumps s1" if "on_stack g s1 = (r, s2)"
    for g :: "stack \<Rightarrow> ('c \<times> stack) res" and s1 s2 :: "('a, 'b) rs" and r
    using that by (auto simp: on_stack_def split: sum.splits)
  show ?thesis using assms
    by (auto simp: op_JUMP_def op_JUMPI_def s_pop_def s_popN_def bindS_Inr whenS_def
        split: if_splits dest!: st jump_to_pc)
qed

lemma handler_pc:
  assumes "handlers H rc op = Some f" "f s = (Inr (), s')" "en_eof (rs_env s) = None"
  shows "rs_pc s' = rs_pc s + (if 0x60 \<le> op \<and> op \<le> 0x7f then int (rs_opCode s - 0x5f) else 0)
    \<or> 0 \<le> rs_pc s' \<and> at (rs_validJumps s) (nat (rs_pc s')) = Some 1"
proof -
  have pc: "rs_pc s' = rs_pc s" if "\<And>v. preserves (\<lambda>_ _. False) (\<lambda>s. flow s = v) f"
    using presD [OF that assms(2)] by (simp add: flow_def)
  consider (push) "0x60 \<le> op" "op \<le> 0x7f" | (jump) "op \<in> {0x56, 0x57}"
    | (eof) "op \<in> jump_ops - {0x56, 0x57} \<or> op = 0xec"
    | (hash) "op = 0x40" | (store) "op \<in> write_ops" | (call) "op \<in> call_ops" "op \<noteq> 0xec"
    | (quiet) "op \<notin> jump_ops \<union> write_ops \<union> call_ops" "op \<noteq> 0x40" "\<not> (0x60 \<le> op \<and> op \<le> 0x7f)"
    by blast
  then show ?thesis
  proof cases
    case push
    then show ?thesis using assms op_PUSH_pc [of H s s'] by (auto simp: handlers_def)
  next
    case jump
    then show ?thesis using assms jump_pc [of H s s'] by (auto simp: handlers_def handler_table_def)
  next
    case eof
    then show ?thesis using eof_only [OF assms(3) eof assms(1)] assms(2) by simp
  next
    case hash
    then have f: "f = op_BLOCKHASH H" using assms(1) by (simp add: handlers_def handler_table_def)
    show ?thesis using pc [unfolded f, OF flow.pres_BLOCKHASH] hash by simp
  next
    case store
    then show ?thesis using pc [OF flow.writing_handlers [OF assms(1)]] by (auto simp: write_ops_def)
  next
    case call
    then show ?thesis using pc [OF flow.calling_handlers [OF assms(1)]] by (auto simp: call_ops_def)
  next
    case quiet
    then show ?thesis using pc [OF flow.quiet_handlers [OF assms(1)]] by auto
  qed
qed

lemma runStep_parts:
  assumes "runStep H rc info s = (Inr (), s')"
  shows "\<exists>gas f s1 s2 s3. step_gas H info s = (Inr gas, s1) \<and> \<not> oc_isInvalid info \<and> useGas gas s1 = (Inr (), s2)
    \<and> handlers H rc (oc_code info) = Some f \<and> f (s2\<lparr>rs_pc := rs_pc s2 + 1\<rparr>) = (Inr (), s3)
    \<and> s' = s3\<lparr>rs_witness := wo_commit (ho_witness H) (rs_witness s3)\<rparr>"
  using assms by (auto simp: runStep_def bindS_Inr add_pc_def on_witness_def split: if_splits option.splits)

lemma runStep_pc:
  assumes "runStep H rc info s = (Inr (), s')" "en_eof (rs_env s) = None"
  shows "code_view s' = code_view s"
    and "rs_pc s' = rs_pc s + 1 +
        (if 0x60 \<le> oc_code info \<and> oc_code info \<le> 0x7f then int (rs_opCode s - 0x5f) else 0)
      \<or> 0 \<le> rs_pc s' \<and> at (rs_validJumps s) (nat (rs_pc s')) = Some 1"
proof -
  from runStep_parts [OF assms(1)] obtain gas f s1 s2 s3 where
    g: "step_gas H info s = (Inr gas, s1)" "useGas gas s1 = (Inr (), s2)"
      "handlers H rc (oc_code info) = Some f" "f (s2\<lparr>rs_pc := rs_pc s2 + 1\<rparr>) = (Inr (), s3)"
      "s' = s3\<lparr>rs_witness := wo_commit (ho_witness H) (rs_witness s3)\<rparr>" by blast
  have "flow s2 = flow s"
    using keepsD [OF step_gas_flow g(1)] presD [OF flow.pres_charge(1) g(2)] by simp
  then have v: "code_view s2 = code_view s" "rs_pc s2 = rs_pc s" by (auto simp: flow_def code_view_def)
  show "code_view s' = code_view s"
    using presD [OF code_view.all_handlers [OF g(3)] g(4)] v by (simp add: g(5) code_view_ignores)
  have "en_eof (rs_env (s2\<lparr>rs_pc := rs_pc s2 + 1\<rparr>)) = None" "rs_opCode s2 = rs_opCode s" "rs_validJumps s2 = rs_validJumps s"
    using v assms(2) by (simp_all add: code_view_def)
  with handler_pc [OF g(3,4)] v(2) g(5)
  show "rs_pc s' = rs_pc s + 1 +
        (if 0x60 \<le> oc_code info \<and> oc_code info \<le> 0x7f then int (rs_opCode s - 0x5f) else 0)
      \<or> 0 \<le> rs_pc s' \<and> at (rs_validJumps s) (nat (rs_pc s')) = Some 1" by (auto split: if_splits)
qed

lemma valid_jump_boundary:
  assumes "cfg_ok H code (cached, s)" "at (rs_validJumps s) i = Some 1"
  shows "boundary code i"
proof (cases cached)
  case None
  then show ?thesis using assms by (simp add: cfg_ok_def at_def)
next
  case (Some ops)
  with assms(1) obtain t where "analysis_ok H code t" "rs_validJumps s = jt_jumps t" by (auto simp: cfg_ok_def)
  then have t: "length (jt_jumps t) = length code"
    "\<And>i. i < length code \<Longrightarrow> jt_jumps t ! i = (if boundary code i \<and> code ! i = 0x5b then 1 else 0)"
    "rs_validJumps s = jt_jumps t" unfolding analysis_ok_def by blast+
  have "i < length code" "jt_jumps t ! i = 1" using assms(2) t(1,3) by (simp_all add: at_def split: if_splits)
  with t(2) [of i] show ?thesis by (metis zero_neq_one)
qed

lemma step_ok:
  assumes "lib_ok (ho_lib H)" "cfg_ok H code c" "loop_step H rc c c'"
  shows "cfg_ok H code c'"
  using assms(3)
proof cases
  case (round s cached info cached' s1 s2 s3)
  have c: "cfg_ok H code (cached, s)" "rs_pc s < int (length code)"
    using assms(2) round by (auto simp: cfg_ok_def)
  let ?b = "code ! nat (rs_pc s)"
  from fetch_ok [OF assms(1) c] round(4) have
    f: "info = lookupOpInfo H (unat ?b)" "cfg_ok H code (cached', s1)" "rs_pc s1 = rs_pc s"
      "rs_opCode s1 \<in> {unat ?b, oc_code info}" by auto
  have s2: "s2 = s1" using check_chunk_same [OF round(5)] .
  have inv: "\<not> oc_isInvalid info" using runStep_parts [OF round(6)] by blast
  with f lookup_code [of H "unat ?b"] have code: "oc_code info = unat ?b" "rs_opCode s1 = unat ?b" by auto
  have eof: "en_eof (rs_env s1) = None" using f(2) by (simp add: cfg_ok_def)
  have pc: "0 \<le> rs_pc s" "boundary code (nat (rs_pc s))" "nat (rs_pc s) < length code"
    using c by (auto simp: cfg_ok_def)
  note r = runStep_pc [OF round(6) [unfolded s2] eof]
  from r(2) have "0 \<le> rs_pc s3 \<and> boundary code (nat (rs_pc s3))"
  proof
    assume "rs_pc s3 = rs_pc s1 + 1 +
      (if 0x60 \<le> oc_code info \<and> oc_code info \<le> 0x7f then int (rs_opCode s1 - 0x5f) else 0)"
    then have "rs_pc s3 = int (next_instr code (nat (rs_pc s)))"
      using code f(3) pc(1) by (simp add: next_instr_def push_size_def)
    then show ?thesis using boundary_next [OF pc(2,3)] by simp
  qed (use valid_jump_boundary [OF f(2)] in blast)
  then have "cfg_ok H code (cached', s3)" using cfg_ok_view [OF r(1) f(2)] by blast
  then show ?thesis using round(2) by simp
qed

section \<open>Control flow of legacy code\<close>

definition legacy_start :: "u8 list \<Rightarrow> ('m, 'w) rs \<Rightarrow> bool" where
  "legacy_start code s \<longleftrightarrow> rs_pc s = 0 \<and> rs_shouldDoJumpAnalysis s \<and> rs_validJumps s = [] \<and> rs_code s = code
     \<and> en_code (rs_env s) = code \<and> en_eof (rs_env s) = None"

lemma legacy_cfg: "legacy_start code s \<Longrightarrow> cfg_ok H code (None, s)"
  by (simp add: legacy_start_def cfg_ok_def boundary_0)

lemma reachable_ok:
  assumes "lib_ok (ho_lib H)" "(loop_step H rc)\<^sup>*\<^sup>* c c'" "cfg_ok H code c"
  shows "cfg_ok H code c'"
  using assms(2,3) by (induction rule: rtranclp_induct) (auto intro: step_ok [OF assms(1)])

text \<open>A run of the loop is a path of steps.\<close>

lemma run_loop_steps:
  "run_loop n H rc c s = (Inr err, s') \<Longrightarrow> \<exists>c1 s1. (loop_step H rc)\<^sup>*\<^sup>* (c, s) (c1, s1)
     \<and> (int (length (rs_code s1)) \<le> rs_pc s1 \<and> err = None \<and> s' = s1
        \<or> (\<exists>info c2 s2. fetch H c1 s1 = (Inr (info, c2), s2)
             \<and> catch_step H (runStep H rc info) s2 = (Inr (Inr err), s')))"
proof (induction n arbitrary: c s)
  case (Suc n)
  show ?case
  proof (cases "rs_pc s < int (length (rs_code s))")
    case True
    with Suc.prems obtain info c2 s2 s3 r where f: "fetch H c s = (Inr (info, c2), s2)" "check_chunk H s2 = (Inr (), s2)"
      "catch_step H (runStep H rc info) s2 = (Inr r, s3)"
      and k: "(case r of Inl _ \<Rightarrow> run_loop n H rc c2 | Inr err \<Rightarrow> retS err) s3 = (Inr err, s')"
      by (fastforce simp: bindS_Inr dest: check_chunk_same)
    show ?thesis
    proof (cases r)
      case (Inl u)
      then have "runStep H rc info s2 = (Inr (), s3)"
        using f(3) by (auto simp: catch_step_def Let_def split: prod.splits sum.splits js_error.splits)
      from loop_step.round [OF True f(1,2) this] have "loop_step H rc (c, s) (c2, s3)" .
      moreover from Suc.IH [of c2 s3] k Inl obtain c1 s1 where "(loop_step H rc)\<^sup>*\<^sup>* (c2, s3) (c1, s1)"
        "int (length (rs_code s1)) \<le> rs_pc s1 \<and> err = None \<and> s' = s1
        \<or> (\<exists>info c2 s2. fetch H c1 s1 = (Inr (info, c2), s2)
             \<and> catch_step H (runStep H rc info) s2 = (Inr (Inr err), s'))" by auto
      moreover from calculation(1,2) have "(loop_step H rc)\<^sup>*\<^sup>* (c, s) (c1, s1)"
        by (rule converse_rtranclp_into_rtranclp)
      ultimately show ?thesis by blast
    next
      case (Inr e)
      then have "e = err" "s' = s3" using k by auto
      with f Inr show ?thesis by blast
    qed
  next
    case False
    with Suc.prems show ?thesis by (intro exI [of _ c] exI [of _ s]) (auto simp: bindS_Inr)
  qed
qed simp

text \<open>C4. Legacy code never leaves its instructions. In every configuration that the loop reaches
  from the start of legacy code, whatever the host and the callees do, the code is the one it
  started with, the program counter is at the start of an instruction or past the end of the code,
  and inside the code the loop executes the table entry of the byte at the program counter: it
  never executes push data and never finds its cache of opcodes empty.\<close>

theorem legacy_control_flow:
  assumes "lib_ok (ho_lib H)" "legacy_start code s0" "(loop_step H rc)\<^sup>*\<^sup>* (None, s0) (cached, s)"
  shows "rs_code s = code \<and> 0 \<le> rs_pc s \<and> boundary code (nat (rs_pc s))
    \<and> (rs_pc s < int (length code) \<longrightarrow> (\<exists>cached' s1. fetch H cached s
        = (Inr (lookupOpInfo H (unat (code ! nat (rs_pc s))), cached'), s1) \<and> rs_pc s1 = rs_pc s))"
proof -
  have c: "cfg_ok H code (cached, s)" by (rule reachable_ok [OF assms(1,3) legacy_cfg [OF assms(2)]])
  then show ?thesis using fetch_ok [OF assms(1) c] by (auto simp: cfg_ok_def)
qed

text \<open>The cache of push values.\<close>

lemma cached_push:
  assumes "cfg_ok H code (cached, s)" "cached \<noteq> None" "rs_pc s < int (length code)"
    "push_size (code ! nat (rs_pc s)) \<noteq> 0"
  shows "rs_cachedPushes s (nat (rs_pc s + 1)) = Some (pushed code (nat (rs_pc s)))"
proof -
  from assms(1,2) obtain t where t: "analysis_ok H code t" "rs_cachedPushes s = jt_pushes t" by (auto simp: cfg_ok_def)
  have "0 \<le> rs_pc s" "boundary code (nat (rs_pc s))" "nat (rs_pc s) < length code"
    using assms(1,3) by (auto simp: cfg_ok_def)
  moreover have "nat (rs_pc s + 1) = Suc (nat (rs_pc s))" using calculation(1) by simp
  ultimately show ?thesis using t assms(4) unfolding analysis_ok_def by metis
qed

text \<open>Turning the caches off.\<close>

definition uncached :: "('m, 'w) rs \<Rightarrow> ('m, 'w) rs" where
  "uncached s = s\<lparr>rs_shouldDoJumpAnalysis := True\<rparr>"

lemma uncached_charge:
  "(if b then bindS (on_witness f) useGas else retS ()) (uncached s) =
   (case (if b then bindS (on_witness f) useGas else retS ()) s of (r, s') \<Rightarrow> (r, uncached s'))"
  by (simp add: uncached_def bindS_def on_witness_def useGas_def failS_def retS_def Let_def split: prod.splits)

lemma uncached_push: "s_push v (uncached s) = (case s_push v s of (r, s') \<Rightarrow> (r, uncached s'))"
  by (simp add: uncached_def s_push_def on_stack_u_def on_stack_def split: sum.split prod.split)

lemma cached_PUSH:
  assumes "lib_ok (ho_lib H)" "\<not> rs_shouldDoJumpAnalysis s"
    "rs_cachedPushes s (nat (rs_pc s)) = Some (int (be_val (push_data (rs_code s) (rs_pc s) (rs_opCode s - 0x5f))))"
  shows "fst (op_PUSH H (uncached s)) = fst (op_PUSH H s)
    \<and> (fst (op_PUSH H s) = Inr () \<longrightarrow> snd (op_PUSH H (uncached s)) = uncached (snd (op_PUSH H s)))"
proof -
  define charge where "charge = whenS (stateless H \<and> en_chargeCodeAccesses (rs_env s))
    (bindS (on_witness (wo_readAccountCodeChunks (ho_witness H) (en_address (rs_env s))
        (min (int (length (rs_code s))) (rs_pc s + 1))
        (min (int (length (rs_code s))) (min (int (length (rs_code s))) (rs_pc s + 1) + int (rs_opCode s - 0x5f) - 1))))
      (useGas :: int \<Rightarrow> ('a, 'b, unit) ev))"
  define v where "v = int (be_val (push_data (rs_code s) (rs_pc s) (rs_opCode s - 0x5f)))"
  obtain r s1 where c: "charge s = (r, s1)" by fastforce
  have cu: "charge (uncached s) = (r, uncached s1)"
    using uncached_charge [of _ _ s] c unfolding charge_def whenS_def by auto
  have fl: "keeps flow charge" unfolding charge_def by (intro allI pres flow.pres_charge)
  have k: "rs_pc s1 = rs_pc s" "rs_code s1 = rs_code s" "rs_shouldDoJumpAnalysis s1 = rs_shouldDoJumpAnalysis s"
    "rs_cachedPushes s1 = rs_cachedPushes s" using keepsD [OF fl c] by (simp_all add: flow_def)
  obtain r2 s2 where p: "s_push v s1 = (r2, s2)" by fastforce
  have pu: "s_push v ((uncached s1)\<lparr>rs_pc := pc\<rparr>) = (r2, (uncached s2)\<lparr>rs_pc := pc\<rparr>)" for pc
    using p by (auto simp: uncached_def s_push_def on_stack_u_def on_stack_def split: sum.splits prod.splits)
  have pc: "rs_pc s2 = rs_pc s1" using presD [OF flow.pres_stack_ops(3) p] by (simp add: flow_def)
  have 1: "op_PUSH H s = (case r of Inl e \<Rightarrow> (Inl e, s1) | Inr _ \<Rightarrow>
      (case r2 of Inl e \<Rightarrow> (Inl e, s2) | Inr _ \<Rightarrow> (Inr (), s2\<lparr>rs_pc := rs_pc s2 + int (rs_opCode s - 0x5f)\<rparr>)))"
    using assms c k p
    by (simp add: op_PUSH_def charge_def [symmetric] Let_def bindS_def getS_def add_pc_def modS_def v_def
        split: sum.split)
  have 2: "op_PUSH H (uncached s) = (case r of Inl e \<Rightarrow> (Inl e, uncached s1) | Inr _ \<Rightarrow>
      (r2, (uncached s2)\<lparr>rs_pc := rs_pc s1 + int (rs_opCode s - 0x5f)\<rparr>))"
    using assms(1) cu k pu
    by (simp add: op_PUSH_def charge_def [symmetric] Let_def bindS_def getS_def add_pc_def modS_def v_def
        push_bytes_def bigE_def liftS_def uncached_def split: sum.split)
  show ?thesis unfolding 1 2 by (auto simp: pc uncached_def split: sum.split)
qed

text \<open>The cache of push values changes nothing. When the loop has reached a PUSH instruction and its
  gas is paid, the handler reads the value from the cache if the code has been analysed and from the
  code otherwise; both give the same outcome, and the same state when it succeeds.\<close>

theorem push_cache_transparent:
  assumes "lib_ok (ho_lib H)" "legacy_start code s0" "(loop_step H rc)\<^sup>*\<^sup>* (None, s0) (cached, s)"
    and "rs_pc s < int (length code)" "push_size (code ! nat (rs_pc s)) \<noteq> 0"
    and "code_view s' = code_view (s\<lparr>rs_opCode := unat (code ! nat (rs_pc s))\<rparr>)" "rs_pc s' = rs_pc s + 1"
  shows "fst (op_PUSH H (uncached s')) = fst (op_PUSH H s')
    \<and> (fst (op_PUSH H s') = Inr () \<longrightarrow> snd (op_PUSH H (uncached s')) = uncached (snd (op_PUSH H s')))"
proof (cases cached)
  have c: "cfg_ok H code (cached, s)" by (rule reachable_ok [OF assms(1,3) legacy_cfg [OF assms(2)]])
  case None
  then have "uncached s' = s'" "uncached (snd (op_PUSH H s')) = snd (op_PUSH H s')"
    using c assms(6) presD [OF code_view.pres_drive(1) surjective_pairing, of H s']
    by (auto simp: cfg_ok_def uncached_def code_view_def intro!: rs.equality)
  then show ?thesis by simp
next
  have c: "cfg_ok H code (cached, s)" by (rule reachable_ok [OF assms(1,3) legacy_cfg [OF assms(2)]])
  case (Some ops)
  have v: "rs_cachedPushes s (nat (rs_pc s')) = Some (pushed code (nat (rs_pc s)))"
    using cached_push [OF c _ assms(4,5)] Some assms(7) by simp
  have k: "0 \<le> rs_pc s" "rs_code s = code" "\<not> rs_shouldDoJumpAnalysis s" using c Some by (auto simp: cfg_ok_def)
  have "int (nat (rs_pc s) + 1) = rs_pc s'" using k(1) assms(7) by simp
  moreover have "push_size (code ! nat (rs_pc s)) = unat (code ! nat (rs_pc s)) - 0x5f"
    using assms(5) by (simp add: push_size_def split: if_splits)
  ultimately have "pushed code (nat (rs_pc s)) =
      int (be_val (push_data code (rs_pc s') (unat (code ! nat (rs_pc s)) - 0x5f)))"
    by (simp only: pushed_def)
  then show ?thesis
    using assms(6) v k
    by (intro cached_PUSH [OF assms(1)]) (auto simp: code_view_def)
qed

definition legacy_rs :: "u8 list \<Rightarrow> (simple_state, unit) rs" where
  "legacy_rs code = ref_rs\<lparr>rs_code := code, rs_env := (rs_env ref_rs)\<lparr>en_code := code, en_eof := None\<rparr>\<rparr>"

lemma legacy_start_ref: "legacy_start code (legacy_rs code)"
  by (simp add: legacy_start_def legacy_rs_def ref_rs_def)

lemma lib_ok_ref_host: "lib_ok (ho_lib ref_host)"
  by simp

theorem legacy_control_flow_witness:
  "\<exists>cached' s1. fetch ref_host None (legacy_rs [0x56]) = (Inr (lookupOpInfo ref_host 0x56, cached'), s1)"
  using legacy_control_flow [OF lib_ok_ref_host legacy_start_ref rtranclp.rtrancl_refl, of "[0x56]"]
  by (auto simp: legacy_rs_def)

theorem push_cache_transparent_witness:
  "fst (op_PUSH ref_host (uncached ((legacy_rs [0x60, 7])\<lparr>rs_opCode := 0x60, rs_pc := 1\<rparr>)))
    = fst (op_PUSH ref_host ((legacy_rs [0x60, 7])\<lparr>rs_opCode := 0x60, rs_pc := 1\<rparr>))"
  using push_cache_transparent [OF lib_ok_ref_host legacy_start_ref rtranclp.rtrancl_refl, of "[0x60, 7]"
      "(legacy_rs [0x60, 7])\<lparr>rs_opCode := 0x60, rs_pc := 1\<rparr>"]
  by (auto simp: legacy_rs_def push_size_def code_view_def)

end
