(* ===== verification/EvmInvariant.thy ===== *)
theory EvmInvariant
  imports EvmJumps EvmRun
begin

text \<open>
  Message calls are transactions. The locale \<open>evm_state\<close> states what the virtual machine relies on in
  a state manager besides its checkpoints: reads change nothing that can be read, writes keep the
  open checkpoints, and the balance of an account is the one last put. From it follows that every
  message call, with all the calls and creates inside it, closes exactly the checkpoint it opened,
  that a call with an exception leaves the state it found, and that no error of the virtual machine
  escapes from an inner call. The interpretation is on the simple state manager.
\<close>

section \<open>Errors that are thrown\<close>

text \<open>An error that is not the virtual machine's own: the interpreter throws it again.\<close>

definition thrown :: "js_error \<Rightarrow> bool" where
  "thrown e \<longleftrightarrow> (\<forall>x. e \<noteq> EvmTrap x)"

lemma thrown_simps [simp]: "thrown (Throw x)" "thrown OutOfFuel" "\<not> thrown (EvmTrap x)"
  by (simp_all add: thrown_def)

section \<open>The world of a call\<close>

text \<open>What can be read, and the snapshots of the open checkpoints, of the journal with its state and of
  transient storage.\<close>

definition world_cur :: "('m \<Rightarrow> 'v) \<Rightarrow> ('m, 'w) world \<Rightarrow> 'v jn_view \<times> ts_view" where
  "world_cur scur w = (jn_cur scur (wd_journal w), ts_look (wd_transient w))"

definition world_saved :: "('m \<Rightarrow> 'v list) \<Rightarrow> ('m, 'w) world \<Rightarrow> 'v jn_view list \<times> ts_view list \<times> nat list" where
  "world_saved ssaved w = (jn_saved ssaved (wd_journal w), ts_saved (wd_transient w), ts_indices (wd_transient w))"

definition world_ok :: "('m \<Rightarrow> bool) \<Rightarrow> ('m \<Rightarrow> 'v list) \<Rightarrow> ('m, 'w) world \<Rightarrow> bool" where
  "world_ok SI ssaved w \<longleftrightarrow> jn_inv SI ssaved (wd_journal w) \<and> ts_inv (wd_transient w)"

text \<open>No balance is negative.\<close>

definition funded :: "('v \<Rightarrow> u8 list \<Rightarrow> int option) \<Rightarrow> 'v \<Rightarrow> bool" where
  "funded bal q \<longleftrightarrow> (\<forall>a b. bal q a = Some b \<longrightarrow> 0 \<le> b)"

definition solvent_account :: "account \<Rightarrow> bool" where
  "solvent_account acc \<longleftrightarrow> (\<forall>b. ac_balance acc = Some b \<longrightarrow> 0 \<le> b)"

lemma solvent_account_simps [simp]: "solvent_account default_account"
  "solvent_account (acc\<lparr>ac_balance := Some x\<rparr>) \<longleftrightarrow> 0 \<le> x"
  "solvent_account (acc\<lparr>ac_nonce := n\<rparr>) \<longleftrightarrow> solvent_account acc"
  by (auto simp: solvent_account_def default_account_def)

text \<open>A well-formed world with given open checkpoints, no balance in it negative.\<close>

definition world_at where
  "world_at SI scur ssaved bal v w \<longleftrightarrow> world_ok SI ssaved w \<and> world_saved ssaved w = v
     \<and> funded bal (scur (jn_sm (wd_journal w))) \<and> (\<forall>x \<in> set (fst v). funded bal (snd x))"

text \<open>A state manager whose reads and writes are those of the host.\<close>

locale evm_state = managed_state SI scur ssaved M saact L
  for SI :: "'m \<Rightarrow> bool" and scur :: "'m \<Rightarrow> 'v" and ssaved :: "'m \<Rightarrow> 'v list"
    and M :: "'m smgr" and saact :: "sm_op \<Rightarrow> 'v \<Rightarrow> 'v res" and L :: lib +
  fixes H :: "('m, 'w) host" and bal :: "'v \<Rightarrow> u8 list \<Rightarrow> int option"
  assumes host_mgr: "ho_smgr H = M" and host_lib: "ho_lib H = L"
    and account_law: "SI m \<Longrightarrow> sm_getAccount M a m = Inr (acc, m') \<Longrightarrow>
      SI m' \<and> scur m' = scur m \<and> ssaved m' = ssaved m
      \<and> ac_balance (case acc of None \<Rightarrow> default_account | Some x \<Rightarrow> x) = bal (scur m) a"
    and code_law: "SI m \<Longrightarrow> ho_getCode H a m = Inr (c, m') \<Longrightarrow> SI m' \<and> scur m' = scur m \<and> ssaved m' = ssaved m"
    and storage_law: "SI m \<Longrightarrow> ho_getStorage H a k m = Inr (c, m') \<Longrightarrow> SI m' \<and> scur m' = scur m \<and> ssaved m' = ssaved m"
    and original_law: "SI m \<Longrightarrow> ho_originalStorage H a k m = Inr (c, m') \<Longrightarrow>
      SI m' \<and> scur m' = scur m \<and> ssaved m' = ssaved m"
    and put_storage_law: "SI m \<Longrightarrow> ho_putStorage H a k v m = Inr m' \<Longrightarrow> SI m' \<and> ssaved m' = ssaved m \<and> bal (scur m') = bal (scur m)"
    and fields_law: "SI m \<Longrightarrow> ho_modifyAccountFields H a fs m = Inr m' \<Longrightarrow> SI m' \<and> ssaved m' = ssaved m
      \<and> bal (scur m') = (bal (scur m))(a := (case af_balance fs of None \<Rightarrow> bal (scur m) a | Some x \<Rightarrow> Some x))"
    and put_code_law: "SI m \<Longrightarrow> ho_putCode H a c m = Inr m' \<Longrightarrow> SI m' \<and> ssaved m' = ssaved m \<and> bal (scur m') = bal (scur m)"
    and clear_law: "SI m \<Longrightarrow> ho_clearStorage H a m = Inr m' \<Longrightarrow> SI m' \<and> ssaved m' = ssaved m \<and> bal (scur m') = bal (scur m)"
    and put_law: "saact (SmPut a (Some con)) q = Inr q' \<Longrightarrow>
      bal q' b = (if b = a then ac_balance con else bal q b)"
    and calm: "\<And>a m x. sm_getAccount M a m \<noteq> Inl (EvmTrap x)" "\<And>a y m x. sm_putAccount M a y m \<noteq> Inl (EvmTrap x)"
      "\<And>a m x. ho_getCode H a m \<noteq> Inl (EvmTrap x)" "\<And>a c m x. ho_putCode H a c m \<noteq> Inl (EvmTrap x)"
      "\<And>a m x. ho_clearStorage H a m \<noteq> Inl (EvmTrap x)" "\<And>s x. nobleH2B L s \<noteq> Inl (EvmTrap x)"
    and lib_fine: "lib_ok L" and later: "ho_hardfork H \<noteq> ''chainstart''"
begin

abbreviation "W \<equiv> world_at SI scur ssaved bal"

abbreviation "balance w \<equiv> bal (scur (jn_sm (wd_journal w)))"

text \<open>The invariant between the instructions of a run: the world is in order, and the contract's
  balance in the environment is the one in the state.\<close>

definition run_ok :: "'v jn_view list \<times> ts_view list \<times> nat list \<Rightarrow> ('m, 'w) rs \<Rightarrow> bool" where
  "run_ok v s \<longleftrightarrow> W v (world_of s)
     \<and> ac_balance (en_contract (rs_env s)) = balance (world_of s) (en_address (rs_env s))"

text \<open>What an error of the virtual machine leaves: a world in order.\<close>

abbreviation "trapped v \<equiv> (\<lambda>e s. thrown e \<or> W v (world_of s))"

lemma world_at_mgr:
  assumes "W v w" "SI m'" "ssaved m' = ssaved (jn_sm (wd_journal w))" "funded bal (scur m')"
  shows "W v (w\<lparr>wd_journal := (wd_journal w)\<lparr>jn_sm := m'\<rparr>\<rparr>)"
  using assms by (auto simp: world_at_def world_ok_def world_saved_def jn_inv_def jn_saved_def)

lemma world_at_mgr_rs:
  assumes "W v (world_of s)" "SI m'" "ssaved m' = ssaved (jn_sm (rs_journal s))" "funded bal (scur m')"
  shows "W v (world_of (s\<lparr>rs_journal := (rs_journal s)\<lparr>jn_sm := m'\<rparr>\<rparr>))"
  using world_at_mgr [OF assms(1,2)] assms(3,4) by (simp add: world_of_def)

lemma world_SI: "W v w \<Longrightarrow> SI (jn_sm (wd_journal w))"
  by (simp add: world_at_def world_ok_def jn_inv_def)

lemma world_funded: "W v w \<Longrightarrow> funded bal (scur (jn_sm (wd_journal w)))"
  by (simp add: world_at_def)

section \<open>The parts of the world\<close>

text \<open>One write through the journal.\<close>

lemma put_journal:
  assumes "W v w" "jn_putAccount L M a (Some con) (wd_journal w) = Inr j" "solvent_account con"
  shows "W v (w\<lparr>wd_journal := j\<rparr>)"
    and "bal (scur (jn_sm j)) b = (if b = a then ac_balance con else balance w b)"
proof -
  let ?v = "jn_cur scur (wd_journal w)"
  have "jn_inv SI ssaved (wd_journal w)" using assms(1) by (simp add: world_at_def world_ok_def)
  from jn.act_law [OF this, of "JnState (SmPut a (Some con))"] assms(2) have
    j: "jn_inv SI ssaved j" "jn_saved ssaved j = jn_saved ssaved (wd_journal w)"
      "jn_aact L saact (JnState (SmPut a (Some con))) ?v = Inr (jn_cur scur j)"
    by (simp_all add: jn_act_def)
  obtain v' where v': "saact (SmPut a (Some con)) (scur (jn_sm (wd_journal w))) = Inr v'" "scur (jn_sm j) = v'"
    using j(3) by (auto simp: jn_aact_def jn_cur_def bindE_eq_Inr)
  have b: "bal (scur (jn_sm j)) b = (if b = a then ac_balance con else balance w b)" for b
    using put_law [of a con "scur (jn_sm (wd_journal w))" v'] v' by simp
  then have "funded bal (scur (jn_sm j))"
    using assms(3) world_funded [OF assms(1)] by (simp add: funded_def solvent_account_def)
  then show "W v (w\<lparr>wd_journal := j\<rparr>)" using assms(1) j by (auto simp: world_at_def world_ok_def world_saved_def)
  show "bal (scur (jn_sm j)) b = (if b = a then ac_balance con else balance w b)" by (rule b)
qed

lemma warm_journal:
  assumes "W v w"
  shows "W v (w\<lparr>wd_journal := jn_addWarmedAddress L a (wd_journal w)\<rparr>)"
    and "jn_sm (jn_addWarmedAddress L a (wd_journal w)) = jn_sm (wd_journal w)"
  using assms jn_warm_address [of SI ssaved "wd_journal w" L a]
  by (auto simp: world_at_def world_ok_def world_saved_def)

lemma warm_slot_journal:
  assumes "W v w" "jn_addWarmedStorage L a k (wd_journal w) = Inr j"
  shows "W v (w\<lparr>wd_journal := j\<rparr>) \<and> jn_sm j = jn_sm (wd_journal w)"
  using assms jn_warm_storage [of SI ssaved "wd_journal w" L a k]
  by (auto simp: world_at_def world_ok_def world_saved_def)

lemma put_transient:
  assumes "W v w" "ts_put L a k x (wd_transient w) = Inr t"
  shows "W v (w\<lparr>wd_transient := t\<rparr>)"
proof -
  have "ts_inv (wd_transient w)" using assms(1) by (simp add: world_at_def world_ok_def)
  from tstore.act_law [OF this, of L "(a, k, x)"] assms(2) have
    "ts_inv t" "ts_saved t = ts_saved (wd_transient w)" by simp_all
  moreover have "ts_indices t = ts_indices (wd_transient w)"
    using assms(2) by (auto simp: ts_put_def Let_def split: if_splits)
  ultimately show ?thesis using assms(1) by (simp add: world_at_def world_ok_def world_saved_def)
qed

section \<open>The run state between instructions\<close>

lemma run_ok_world: "world_of s' = world_of s \<Longrightarrow> rs_env s' = rs_env s \<Longrightarrow> run_ok v s \<Longrightarrow> run_ok v s'"
  by (simp add: run_ok_def)

lemma run_ok_mgr:
  assumes "run_ok v s" "SI m'" "scur m' = scur (jn_sm (rs_journal s))" "ssaved m' = ssaved (jn_sm (rs_journal s))"
  shows "run_ok v (s\<lparr>rs_journal := (rs_journal s)\<lparr>jn_sm := m'\<rparr>\<rparr>)"
  using assms world_at_mgr_rs [of v s m'] world_funded [of v "world_of s"] by (simp add: run_ok_def world_of_def)

lemma run_SI: "run_ok v s \<Longrightarrow> SI (jn_sm (rs_journal s))"
  using world_SI [of v "world_of s"] by (simp add: run_ok_def world_of_def)

lemma run_read:
  assumes "\<And>m x m'. SI m \<Longrightarrow> f m = Inr (x, m') \<Longrightarrow> SI m' \<and> scur m' = scur m \<and> ssaved m' = ssaved m"
  shows "preserves E (run_ok v) (on_mgr f)"
proof (rule pres_mgr)
  fix s x m' assume "run_ok v s" "f (jn_sm (rs_journal s)) = Inr (x, m')"
  with assms [OF run_SI] run_ok_mgr show "run_ok v (s\<lparr>rs_journal := (rs_journal s)\<lparr>jn_sm := m'\<rparr>\<rparr>)" by blast
qed

lemma run_reads:
  "preserves E (run_ok v) (on_mgr (sm_getAccount (ho_smgr H) a))"
  "preserves E (run_ok v) (on_mgr (ho_getCode H a))"
  "preserves E (run_ok v) (on_mgr (ho_getStorage H a k))"
  "preserves E (run_ok v) (on_mgr (ho_originalStorage H a k))"
  unfolding host_mgr using account_law code_law storage_law original_law by (blast intro: run_read)+

text \<open>Fields of the run state that the invariant does not see.\<close>

lemma world_of_upd:
  "world_of (s\<lparr>rs_memoryWordCount := wc\<rparr>) = world_of s" "world_of (s\<lparr>rs_highestMemCost := mc\<rparr>) = world_of s"
  "world_of (s\<lparr>rs_gasRefund := r\<rparr>) = world_of s" "world_of (s\<lparr>rs_messageGasLimit := mg\<rparr>) = world_of s"
  "world_of (s\<lparr>rs_stack := st\<rparr>) = world_of s" "world_of (s\<lparr>rs_memory := me\<rparr>) = world_of s"
  "world_of (s\<lparr>rs_returnValue := rv\<rparr>) = world_of s" "world_of (s\<lparr>rs_gasLeft := g\<rparr>) = world_of s"
  "world_of (s\<lparr>rs_pc := pc\<rparr>) = world_of s" "world_of (s\<lparr>rs_env := en\<rparr>) = world_of s"
  "world_of (s\<lparr>rs_logs := ls\<rparr>) = world_of s" "world_of (s\<lparr>rs_selfdestruct := sd\<rparr>) = world_of s"
  "world_of (s\<lparr>rs_returnBytes := rb\<rparr>) = world_of s"
  "world_of (s\<lparr>rs_journal := j\<rparr>) = (world_of s)\<lparr>wd_journal := j\<rparr>"
  "world_of (s\<lparr>rs_transient := t\<rparr>) = (world_of s)\<lparr>wd_transient := t\<rparr>"
  "world_of (s\<lparr>rs_witness := w\<rparr>) = (world_of s)\<lparr>wd_witness := w\<rparr>"
  by (simp_all add: world_of_def)

lemma world_at_witness: "W v (w\<lparr>wd_witness := x\<rparr>) \<longleftrightarrow> W v w"
  by (simp add: world_at_def world_ok_def world_saved_def)

lemma world_of_sel [simp]: "wd_journal (world_of s) = rs_journal s" "wd_transient (world_of s) = rs_transient s"
  by (simp_all add: world_of_def)

end

sublocale evm_state \<subseteq> run: pricing "trapped v" H "run_ok v" for v
proof
  fix s a k j
  assume s: "run_ok v s"
  show "run_ok v (s\<lparr>rs_journal := jn_addWarmedAddress (ho_lib H) a (rs_journal s)\<rparr>)"
    using s warm_journal [of v "world_of s" a] by (simp add: run_ok_def world_of_upd host_lib)
  show "jn_addWarmedStorage (ho_lib H) a k (rs_journal s) = Inr j \<Longrightarrow> run_ok v (s\<lparr>rs_journal := j\<rparr>)"
    using s warm_slot_journal [of v "world_of s" a k j] by (simp add: run_ok_def world_of_upd host_lib)
qed (simp_all add: run_reads, simp_all add: run_ok_def world_of_upd world_at_witness)

sublocale evm_state \<subseteq> run: jumping "trapped v" H "run_ok v" for v
  by unfold_locales (simp_all add: run_ok_def world_of_upd)

sublocale evm_state \<subseteq> run: charging "trapped v" H "run_ok v" for v
  by unfold_locales (simp_all add: run_ok_def world_of_upd world_at_witness)

context evm_state begin

text \<open>The world alone.\<close>

definition ended :: "'v jn_view list \<times> ts_view list \<times> nat list \<Rightarrow> ('m, 'w) rs \<Rightarrow> bool" where
  "ended v s \<longleftrightarrow> W v (world_of s)"

lemma ended_mgr:
  assumes "\<And>m x m'. SI m \<Longrightarrow> funded bal (scur m) \<Longrightarrow> f m = Inr (x, m') \<Longrightarrow>
    SI m' \<and> ssaved m' = ssaved m \<and> funded bal (scur m')"
  shows "preserves E (ended v) (on_mgr f)"
proof (rule pres_mgr)
  fix s x m' assume s: "ended v s" "f (jn_sm (rs_journal s)) = Inr (x, m')"
  then have "SI (jn_sm (rs_journal s))" "funded bal (scur (jn_sm (rs_journal s)))"
    using world_SI [of v "world_of s"] world_funded [of v "world_of s"] by (simp_all add: ended_def)
  from assms [OF this s(2)] s(1) show "ended v (s\<lparr>rs_journal := (rs_journal s)\<lparr>jn_sm := m'\<rparr>\<rparr>)"
    unfolding ended_def by (blast intro: world_at_mgr_rs)
qed

lemma ended_reads:
  "preserves E (ended v) (on_mgr (sm_getAccount (ho_smgr H) a))"
  "preserves E (ended v) (on_mgr (ho_getCode H a))"
  "preserves E (ended v) (on_mgr (ho_getStorage H a k))"
  "preserves E (ended v) (on_mgr (ho_originalStorage H a k))"
proof -
  have r: "preserves E (ended v) (on_mgr f)"
    if "\<And>m x m'. SI m \<Longrightarrow> f m = Inr (x, m') \<Longrightarrow> SI m' \<and> scur m' = scur m \<and> ssaved m' = ssaved m"
    for f :: "'m \<Rightarrow> ('x \<times> 'm) res"
    by (rule ended_mgr) (metis that)
  show "preserves E (ended v) (on_mgr (sm_getAccount (ho_smgr H) a))" "preserves E (ended v) (on_mgr (ho_getCode H a))"
    "preserves E (ended v) (on_mgr (ho_getStorage H a k))" "preserves E (ended v) (on_mgr (ho_originalStorage H a k))"
    unfolding host_mgr using account_law code_law storage_law original_law by (blast intro: r)+
qed

lemma ended_writes:
  "preserves E (ended v) (on_mgr_u (ho_putStorage H a k x))"
  "preserves E (ended v) (on_mgr_u (ho_modifyAccountFields H a
     \<lparr>af_nonce = n, af_balance = Some 0, af_storageRoot = r, af_codeHash = h, af_codeSize = c\<rparr>))"
  "solvent_account con \<Longrightarrow> preserves E (ended v) (on_journal (jn_putAccount (ho_lib H) (ho_smgr H) a (Some con)))"
proof -
  show "preserves E (ended v) (on_mgr_u (ho_putStorage H a k x))"
    unfolding on_mgr_u_def using put_storage_law by (intro ended_mgr) (fastforce simp: bindE_eq_Inr funded_def)
  show "preserves E (ended v) (on_mgr_u (ho_modifyAccountFields H a
     \<lparr>af_nonce = n, af_balance = Some 0, af_storageRoot = r, af_codeHash = h, af_codeSize = c\<rparr>))"
    unfolding on_mgr_u_def using fields_law [of _ a]
    by (intro ended_mgr) (auto simp: bindE_eq_Inr funded_def split: if_splits)
  show "preserves E (ended v) (on_journal (jn_putAccount (ho_lib H) (ho_smgr H) a (Some con)))" if "solvent_account con"
    using that by (intro pres_journal) (auto simp: ended_def world_of_upd host_lib host_mgr intro: put_journal)
qed

end

sublocale evm_state \<subseteq> ended: charging "trapped v" H "ended v" for v
  by unfold_locales (simp_all add: ended_reads, simp_all add: ended_def world_of_upd world_at_witness)

context evm_state begin

lemma run_ended: "run_ok v s \<Longrightarrow> ended v s"
  by (simp add: run_ok_def ended_def)

lemma reread:
  assumes "ended v s" "getAccountS H a s = (r, s1)"
  shows "ended v s1 \<and> rs_env s1 = rs_env s
    \<and> (\<forall>acc. r = Inr acc \<longrightarrow> balance (world_of s1) a = ac_balance (case acc of None \<Rightarrow> default_account | Some x \<Rightarrow> x))"
proof -
  have SI: "SI (jn_sm (rs_journal s))" using assms(1) world_SI [of v "world_of s"] by (simp add: ended_def)
  show ?thesis
  proof (cases r)
    case (Inl e)
    with assms show ?thesis by (auto simp: getAccountS_def on_mgr_def split: sum.splits)
  next
    case (Inr acc)
    with assms(2) obtain m' where m: "sm_getAccount M a (jn_sm (rs_journal s)) = Inr (acc, m')"
      "s1 = s\<lparr>rs_journal := (rs_journal s)\<lparr>jn_sm := m'\<rparr>\<rparr>"
      by (auto simp: getAccountS_def on_mgr_def host_mgr split: sum.splits)
    from account_law [OF SI m(1)] have "SI m'" "ssaved m' = ssaved (jn_sm (rs_journal s))"
      "ac_balance (case acc of None \<Rightarrow> default_account | Some x \<Rightarrow> x) = bal (scur m') a" by auto
    with Inr m(2) world_at_mgr_rs [of v s m'] assms(1) world_funded [of v "world_of s"] account_law [OF SI m(1)]
    show ?thesis by (simp add: ended_def)
  qed
qed

text \<open>Reading the contract again puts the environment in order.\<close>

lemma reread_contract:
  assumes "ended v s" "a = en_address (rs_env s)"
    and "bindS (getAccountS H a) (\<lambda>acc. case acc of None \<Rightarrow> failS e
      | Some x \<Rightarrow> modS (\<lambda>s. f (s\<lparr>rs_env := (rs_env s)\<lparr>en_contract := x\<rparr>\<rparr>))) s = (r, s')"
    and "\<And>s. world_of (f s) = world_of s" "\<And>s. rs_env (f s) = rs_env s"
  shows "(case r of Inl _ \<Rightarrow> ended v s' | Inr _ \<Rightarrow> run_ok v s')"
proof -
  obtain q s1 where g: "getAccountS H a s = (q, s1)" by fastforce
  from reread [OF assms(1) g] have s1: "ended v s1" "rs_env s1 = rs_env s"
    "\<And>acc. q = Inr acc \<Longrightarrow> balance (world_of s1) a = ac_balance (case acc of None \<Rightarrow> default_account | Some x \<Rightarrow> x)"
    by auto
  show ?thesis
  proof (cases q)
    case (Inl e')
    with g assms(3) s1(1) show ?thesis by (auto simp: bindS_def)
  next
    case (Inr acc)
    show ?thesis
    proof (cases acc)
      case None
      with g Inr assms(3) s1(1) show ?thesis by (auto simp: bindS_def failS_def)
    next
      case (Some x)
      then have "s' = f (s1\<lparr>rs_env := (rs_env s1)\<lparr>en_contract := x\<rparr>\<rparr>)" "r = Inr ()"
        using g Inr assms(3) by (auto simp: bindS_def modS_def)
      then show ?thesis
        using s1 Inr Some assms(2,4,5) by (simp add: run_ok_def ended_def world_of_upd)
    qed
  qed
qed

lemma run_stores: "preserves (trapped v) (run_ok v) (storageStore H k x)"
  unfolding preserves_def
proof (intro allI impI)
  fix s :: "('m, 'w) rs"
  assume s: "run_ok v s"
  let ?a = "en_address (rs_env s)"
  obtain q s1 where p: "on_mgr_u (ho_putStorage H ?a k x) s = (q, s1)" by fastforce
  have e: "ended v s1"
    using ended_writes(1) [of "\<lambda>_ _. False" v ?a k x] run_ended [OF s] p
    unfolding preserves_def by (cases q) (auto split: prod.splits)
  have env: "rs_env s1 = rs_env s" using p by (auto simp: on_mgr_u_def on_mgr_def split: sum.splits)
  obtain r s' where r: "storageStore H k x s = (r, s')" by fastforce
  show "case storageStore H k x s of (r, s') \<Rightarrow>
      run_ok v s' \<or> (case r of Inl e \<Rightarrow> thrown e \<or> W v (world_of s') | Inr _ \<Rightarrow> False)"
  proof (cases q)
    case (Inl e')
    then have "storageStore H k x s = (Inl e', s1)" using p by (simp add: storageStore_def bindS_def getS_def)
    then show ?thesis using e by (simp add: ended_def)
  next
    case (Inr u)
    then have "bindS (getAccountS H ?a) (\<lambda>acc. case acc of
      None \<Rightarrow> failS (Throw ''could not read account while persisting memory'')
      | Some a \<Rightarrow> modS (\<lambda>s. s\<lparr>rs_env := (rs_env s)\<lparr>en_contract := a\<rparr>\<rparr>)) s1 = (r, s')"
      using r p by (simp add: storageStore_def bindS_def getS_def)
    from reread_contract [where f = "\<lambda>s. s", OF e _ this] env show ?thesis
      unfolding r by (cases r) (simp_all add: ended_def)
  qed
qed

text \<open>How a handler may end in error.\<close>

abbreviation "fails v \<equiv> (\<lambda>e s. thrown e \<or> ended v s)"

lemma run_hoare: "preserves (trapped v) (run_ok v) m \<Longrightarrow> hoare (fails v) (run_ok v) m (\<lambda>_. run_ok v)"
  by (drule preserves_hoare, erule hoare_error) (auto simp: run_ok_def ended_def)

lemma hoare_run: "hoare (fails v) (run_ok v) m (\<lambda>_. run_ok v) \<Longrightarrow> preserves (trapped v) (run_ok v) m"
  by (rule hoare_preserves, erule hoare_error) (auto simp: ended_def)

lemma ended_hoare: "preserves (trapped v) (ended v) m \<Longrightarrow> hoare (fails v) (ended v) m (\<lambda>_. ended v)"
  by (drule preserves_hoare, erule hoare_error) (auto simp: ended_def)

lemma run_solvent: "run_ok v s \<Longrightarrow> solvent_account (en_contract (rs_env s))"
  using world_funded [of v "world_of s"] by (auto simp: run_ok_def solvent_account_def funded_def)

lemma ended_account:
  "hoare (fails v) (ended v) (getAccountS H a)
     (\<lambda>acc s. ended v s \<and> solvent_account (case acc of None \<Rightarrow> default_account | Some x \<Rightarrow> x))"
proof (rule hoareI)
  fix s :: "('m, 'w) rs" and acc s'
  assume "ended v s" "getAccountS H a s = (Inr acc, s')"
  from reread [OF this] world_funded [of v "world_of s'"]
  show "ended v s' \<and> solvent_account (case acc of None \<Rightarrow> default_account | Some x \<Rightarrow> x)"
    by (auto simp: ended_def funded_def solvent_account_def)
next
  fix s :: "('m, 'w) rs" and e s'
  assume "ended v s" "getAccountS H a s = (Inl e, s')"
  from reread [OF this] show "thrown e \<or> ended v s'" by simp
qed

lemma ended_loaded:
  "hoare (fails v) (\<lambda>s. ended v s \<and> solvent_account acc) (liftS (loaded f (ac_balance acc))) (\<lambda>b s. ended v s \<and> 0 \<le> b)"
  by (auto simp: hoare_def liftS_def loaded_def solvent_account_def split: option.splits)

lemma run_destructs: "preserves (trapped v) (run_ok v) (selfDestruct H a)"
proof (rule hoare_run)
  have get: "hoare (fails v) (run_ok v) (getS id) (\<lambda>s0 s. ended v s \<and> solvent_account (en_contract (rs_env s0)))"
    by (rule hoareI) (auto simp: getS_def run_ended run_solvent)
  have m: "hoare (fails v) (ended v) (modS f) (\<lambda>_. ended v)" if "\<And>s. world_of (f s) = world_of s" for f
    using that by (simp add: hoare_def modS_def ended_def)
  have move: "hoare (fails v) (ended v) (bindS (getAccountS H a) (\<lambda>acc.
         bindS (liftS (loaded ''balance'' (ac_balance (case acc of None \<Rightarrow> default_account | Some a \<Rightarrow> a)))) (\<lambda>b1.
         bindS (liftS (loaded ''balance'' (ac_balance con))) (\<lambda>b2.
         on_journal (jn_putAccount (ho_lib H) (ho_smgr H) a
           (Some ((case acc of None \<Rightarrow> default_account | Some a \<Rightarrow> a)\<lparr>ac_balance := Some (b1 + b2)\<rparr>))))))) (\<lambda>_. ended v)"
    if "solvent_account con" for con
  proof (rule hoare_bind [OF ended_account], rule hoare_bind [OF ended_loaded],
      rule hoare_bind [where Q = "\<lambda>b2 s. ended v s \<and> 0 \<le> b1 \<and> 0 \<le> b2" for b1 :: int])
    fix acc :: "account option" and b1 :: int
    show "hoare (fails v) (\<lambda>s. ended v s \<and> 0 \<le> b1) (liftS (loaded ''balance'' (ac_balance con)))
        (\<lambda>b2 s. ended v s \<and> 0 \<le> b1 \<and> 0 \<le> b2)"
      using that by (auto simp: hoare_def liftS_def loaded_def solvent_account_def split: option.splits)
    fix b2
    show "hoare (fails v) (\<lambda>s. ended v s \<and> 0 \<le> b1 \<and> 0 \<le> b2) (on_journal (jn_putAccount (ho_lib H) (ho_smgr H) a
           (Some ((case acc of None \<Rightarrow> default_account | Some a \<Rightarrow> a)\<lparr>ac_balance := Some (b1 + b2)\<rparr>)))) (\<lambda>_. ended v)"
      by (rule hoare_assume [where b = "0 \<le> b1 + b2"], simp,
          rule hoare_pre [OF ended_hoare [OF ended_writes(3)]], simp_all)
  qed
  have w: "hoare (fails v) (ended v) (whenS b n) (\<lambda>_. ended v)" if "hoare (fails v) (ended v) n (\<lambda>_. ended v)" for b n
    using that by (simp add: whenS_def hoare_ret)
  have stop: "hoare (fails v) (ended v) (trap x) (\<lambda>_. run_ok v)" for x
    by (simp add: hoare_def failS_def)
  have refund: "hoare (fails v) (ended v) (refundGas g) (\<lambda>_. ended v)" for g
    unfolding refundGas_def by (rule m) (simp add: world_of_upd)
  have rest: "hoare (fails v) (ended v) (thenS (whenS b1 (refundGas g)) (thenS (modS f) (thenS (whenS b2 n)
      (thenS (whenS b3 (on_mgr_u (ho_modifyAccountFields H c \<lparr>af_nonce = None, af_balance = Some 0,
        af_storageRoot = None, af_codeHash = None, af_codeSize = None\<rparr>))) (trap x))))) (\<lambda>_. run_ok v)"
    if "\<And>s. world_of (f s) = world_of s" "hoare (fails v) (ended v) n (\<lambda>_. ended v)" for b1 b2 b3 g f n c x
    by (rule hoare_bind [OF w [OF refund]] hoare_bind [OF m [OF that(1)]] hoare_bind [OF w [OF that(2)]]
        hoare_bind [OF w [OF ended_hoare [OF ended_writes(2)]]] stop)+
  show "hoare (fails v) (run_ok v) (selfDestruct H a) (\<lambda>_. run_ok v)"
    unfolding selfDestruct_def Let_def
    apply (rule hoare_bind [OF get])
    subgoal for s0
      apply (rule hoare_assume [where b = "solvent_account (en_contract (rs_env s0))"], simp)
      apply (rule hoare_pre [OF rest [OF _ move]], simp_all add: world_of_upd)
      done
    done
qed

end

sublocale evm_state \<subseteq> run: writing "trapped v" H "run_ok v" for v
  by unfold_locales
    (simp_all add: run_stores run_destructs, auto simp: run_ok_def world_of_upd host_lib intro: put_transient)

section \<open>Calls and creates of the interpreter\<close>

context evm_state begin

text \<open>A create whose sender can pay for it.\<close>

definition payable :: "('m, 'w) world \<Rightarrow> message \<Rightarrow> bool" where
  "payable w msg \<longleftrightarrow> (mg_to msg = None \<longrightarrow> (\<forall>b. balance w (mg_caller msg) = Some b \<longrightarrow> mg_value msg \<le> b))"

definition runner_ok :: "('m, 'w) runner \<Rightarrow> bool" where
  "runner_ok rc \<longleftrightarrow> (\<forall>msg w r w' v. W v w \<longrightarrow> mg_depth msg \<noteq> 0 \<longrightarrow> 0 \<le> mg_value msg \<longrightarrow> rc msg w = (r, w') \<longrightarrow>
     (case r of
        Inr res \<Rightarrow> W v w' \<and> (er_exceptionError (ev_exec res) \<noteq> None \<longrightarrow>
          scur (jn_sm (wd_journal w')) = scur (jn_sm (wd_journal w)))
      | Inl e \<Rightarrow> payable w msg \<longrightarrow> thrown e))"

lemma leads_adopt: "hoare (fails v) (ended v) (adopt_callee H res) (\<lambda>_. run_ok v)"
  unfolding hoare_def
proof (intro allI impI)
  fix s :: "('m, 'w) rs"
  assume e: "ended v s"
  let ?u = "\<lambda>s. s\<lparr>rs_gasRefund := (case er_gasRefund (ev_exec res) of None \<Rightarrow> 0 | Some g \<Rightarrow> g)\<rparr>"
  define s2 where "s2 = (let s1 = s\<lparr>rs_selfdestruct := rs_selfdestruct s \<union> ev_msgSelfdestruct res\<rparr> in
    if ho_eip H 6780 then s1\<lparr>rs_env := (rs_env s1)\<lparr>en_createdAddresses :=
      en_createdAddresses (rs_env s1) \<union> ev_msgCreated res\<rparr>\<rparr> else s1)"
  have s2: "ended v s2" "en_address (rs_env s2) = en_address (rs_env s)"
    using e by (simp_all add: s2_def ended_def world_of_upd Let_def)
  obtain r s' where r: "adopt_callee H res s = (r, s')" by fastforce
  have "bindS (getAccountS H (en_address (rs_env s2))) (\<lambda>acc. case acc of
      None \<Rightarrow> failS (Throw ''could not read contract account'')
      | Some a \<Rightarrow> modS (\<lambda>s. ?u (s\<lparr>rs_env := (rs_env s)\<lparr>en_contract := a\<rparr>\<rparr>))) s2 = (r, s')"
    using r by (cases "ho_eip H 6780")
      (simp_all add: adopt_callee_def bindS_def modS_def getS_def whenS_def retS_def s2_def Let_def)
  from reread_contract [where f = ?u, OF s2(1) refl this]
  show "case adopt_callee H res s of (Inr _, s') \<Rightarrow> run_ok v s' | (Inl e, s') \<Rightarrow> thrown e \<or> ended v s'"
    unfolding r by (simp add: world_of_upd split: sum.splits)
qed

lemma run_adopts: "preserves (trapped v) (run_ok v) (adopt_callee H res)"
  by (rule hoare_run, rule hoare_pre [OF leads_adopt]) (rule run_ended)

text \<open>What a callee leaves; when it fails, nothing that the invariant sees.\<close>

definition returned where
  "returned v res s \<longleftrightarrow> ended v s \<and> (er_exceptionError (ev_exec res) \<noteq> None \<longrightarrow> run_ok v s)"

lemma after_runner:
  assumes "runner_ok rc" "mg_depth msg \<noteq> 0" "0 \<le> mg_value msg"
  shows "hoare (fails v) (\<lambda>s. run_ok v s \<and> payable (world_of s) msg) (on_world (rc msg)) (returned v)"
  unfolding hoare_def
proof (intro allI impI)
  fix s :: "('m, 'w) rs"
  assume s: "run_ok v s \<and> payable (world_of s) msg"
  obtain r w' where w: "rc msg (world_of s) = (r, w')" by fastforce
  have f: "on_world (rc msg) s = (r, set_world w' s)" using w by (simp add: on_world_def)
  have u: "world_of (set_world w' s) = w'" "rs_env (set_world w' s) = rs_env s"
    "rs_journal (set_world w' s) = wd_journal w'"
    by (simp_all add: world_of_def set_world_def)
  have W: "W v (world_of s)" using s by (simp add: run_ok_def)
  from assms(1) [unfolded runner_ok_def, rule_format, OF W assms(2,3) w] s u
  show "case on_world (rc msg) s of (Inr res, s') \<Rightarrow> returned v res s' | (Inl e, s') \<Rightarrow> thrown e \<or> ended v s'"
    unfolding f by (cases r) (auto simp: returned_def run_ok_def ended_def)
qed

lemma run_parts [pres]:
  "preserves E (run_ok v) (set_returnBytes b)" "preserves E (run_ok v) (append_logs ls)"
  "preserves E (run_ok v) (call_blocked H c x)" "preserves E (run_ok v) (getReturnCode res e)"
  unfolding set_returnBytes_def append_logs_def call_blocked_def getReturnCode_def
  by (assumption | intro pres pres_mod | simp add: run_ok_def world_of_upd)+

lemma ended_parts [pres]:
  "preserves E (ended v) (set_returnBytes b)" "preserves E (ended v) (append_logs ls)"
  unfolding set_returnBytes_def append_logs_def
  by (assumption | intro pres pres_mod | simp add: ended_def world_of_upd)+

lemma after_return:
  assumes "er_exceptionError (ev_exec res) = None \<Longrightarrow> hoare (fails v) (ended v) m (\<lambda>_. run_ok v)"
    and "preserves (trapped v) (run_ok v) m"
  shows "hoare (fails v) (returned v res) m (\<lambda>_. run_ok v)"
  using assms(1) run_hoare [OF assms(2)]
  by (cases "er_exceptionError (ev_exec res)") (auto simp: returned_def elim: hoare_pre)

lemma ended_calls:
  "hoare (fails v) (ended v) m Q \<Longrightarrow> hoare (fails v) (ended v) (thenS (append_logs ls) (thenS (useGas g) m)) Q"
  by (intro hoare_bind [OF ended_hoare] ended_parts ended.pres_charge)

lemma bind_message_new:
  "bindS (liftS (message_new m)) f = (if mg_value m < 0 then failS (Throw ''value field cannot be negative'') else f m)"
  by (auto simp: message_new_def liftS_def bindS_def failS_def fun_eq_iff)

lemma run_calls_out:
  assumes "runner_ok rc" "mg_depth m \<noteq> 0" "mg_to m \<noteq> None"
  shows "preserves (trapped v) (run_ok v) (baseCall H rc m)"
proof -
  have 1: "preserves (trapped v) (run_ok v) (bindS (on_world (rc msg)) (\<lambda>results.
       thenS (append_logs (er_logs (ev_exec results)))
       (thenS (useGas (er_executionGasUsed (ev_exec results)))
       (thenS (whenS (er_exceptionError (ev_exec results) = None \<or> er_exceptionError (ev_exec results) = Some ''revert'')
                 (set_returnBytes (er_returnValue (ev_exec results))))
       (thenS (whenS (er_exceptionError (ev_exec results) = None) (adopt_callee H results))
       (getReturnCode results False))))))" (is "preserves _ _ (bindS _ ?f)")
    if "mg_depth msg \<noteq> 0" "mg_to msg \<noteq> None" "0 \<le> mg_value msg" for msg
  proof (rule hoare_run, rule hoare_bind, rule hoare_pre [OF after_runner [OF assms(1) that(1,3)]])
    fix res s
    show "run_ok v s \<Longrightarrow> run_ok v s \<and> payable (world_of s) msg" using that(2) by (auto simp: payable_def)
    show "hoare (fails v) (returned v res) (?f res) (\<lambda>_. run_ok v)"
    proof (rule after_return)
      show "preserves (trapped v) (run_ok v) (?f res)" by (intro pres run_parts run.pres_charge run_adopts)
      show "er_exceptionError (ev_exec res) = None \<Longrightarrow> hoare (fails v) (ended v) (?f res) (\<lambda>_. run_ok v)"
        by (simp add: whenS_def)
          (intro ended_calls hoare_bind [OF ended_hoare [OF ended_parts(1)]] hoare_bind [OF leads_adopt]
            run_hoare run_parts)
    qed
  qed
  show ?thesis
    unfolding baseCall_def bind_message_new Let_def
    by (rule pres_bind [OF pres_base(3)] pres_if pres_base(2) pres_bind [OF run_parts(1)]
        pres_bind [OF run_parts(3)] pres_base(1) 1 | simp add: assms(2,3))+
qed

text \<open>A create: the contract can pay for it when the depth and its balance allow the call.\<close>

definition solvent :: "'v jn_view list \<times> ts_view list \<times> nat list \<Rightarrow> u8 list \<Rightarrow> int option \<Rightarrow> ('m, 'w) rs \<Rightarrow> bool" where
  "solvent v a b s \<longleftrightarrow> run_ok v s \<and> en_address (rs_env s) = a \<and> ac_balance (en_contract (rs_env s)) = b"

lemma unblocked:
  "hoare (fails v) (solvent v a b) (call_blocked H True x)
     (\<lambda>blocked s. solvent v a b s \<and> (\<not> blocked \<longrightarrow> (\<exists>y. b = Some y \<and> x \<le> y)))"
  by (rule hoareI)
    (auto simp: call_blocked_def bindS_def getS_def liftS_def retS_def failS_def loaded_def solvent_def
      split: if_splits sum.splits option.splits)

lemma solvent_parts:
  "hoare (fails v) (solvent v a b) (set_returnBytes d) (\<lambda>_. solvent v a b)"
  "ac_balance con = b \<Longrightarrow> hoare (fails v) (solvent v a b)
     (modS (\<lambda>s. s\<lparr>rs_env := (rs_env s)\<lparr>en_contract := con\<rparr>\<rparr>)) (\<lambda>_. solvent v a b)"
  "ac_balance con = b \<Longrightarrow> hoare (fails v) (solvent v a b)
     (on_journal (jn_putAccount (ho_lib H) (ho_smgr H) a (Some con))) (\<lambda>_. solvent v a b)"
proof -
  show "hoare (fails v) (solvent v a b) (set_returnBytes d) (\<lambda>_. solvent v a b)"
    by (rule hoareI) (auto simp: set_returnBytes_def modS_def solvent_def run_ok_def world_of_upd)
  show "hoare (fails v) (solvent v a b)
     (modS (\<lambda>s. s\<lparr>rs_env := (rs_env s)\<lparr>en_contract := con\<rparr>\<rparr>)) (\<lambda>_. solvent v a b)" if "ac_balance con = b"
    using that by (intro hoareI) (auto simp: modS_def solvent_def run_ok_def world_of_upd)
  show "hoare (fails v) (solvent v a b)
     (on_journal (jn_putAccount (ho_lib H) (ho_smgr H) a (Some con))) (\<lambda>_. solvent v a b)" if "ac_balance con = b"
  proof (rule hoareI)
    fix s :: "('m, 'w) rs" and u s'
    assume s: "solvent v a b s" "on_journal (jn_putAccount (ho_lib H) (ho_smgr H) a (Some con)) s = (Inr u, s')"
    then obtain j where j: "jn_putAccount L M a (Some con) (rs_journal s) = Inr j" "s' = s\<lparr>rs_journal := j\<rparr>"
      by (auto simp: on_journal_def host_lib host_mgr split: sum.splits)
    moreover have "solvent_account con"
      using s(1) that run_solvent [of v s] by (auto simp: solvent_def solvent_account_def)
    ultimately show "solvent v a b s'"
      using put_journal [of v "world_of s" a con j] s(1) that by (auto simp: solvent_def run_ok_def world_of_upd)
  next
    fix s :: "('m, 'w) rs" and e s'
    assume "solvent v a b s" "on_journal (jn_putAccount (ho_lib H) (ho_smgr H) a (Some con)) s = (Inl e, s')"
    then show "thrown e \<or> ended v s'"
      by (auto simp: on_journal_def solvent_def dest: run_ended split: sum.splits)
  qed
qed

lemma solvent_run: "hoare (fails v) (run_ok v) m (\<lambda>_. run_ok v) \<Longrightarrow> hoare (fails v) (solvent v a b) m (\<lambda>_. run_ok v)"
  by (erule hoare_pre) (simp add: solvent_def)

lemma hoare_lift: "(\<And>s. P s \<Longrightarrow> ended v s) \<Longrightarrow> hoare (fails v) P (liftS r) (\<lambda>_. P)"
  by (rule hoareI) (auto simp: liftS_def)

lemma run_creates:
  assumes "runner_ok rc"
  shows "preserves (trapped v) (run_ok v) (ev_create H rc g x c salt d)"
proof -
  have 1: "hoare (fails v) (solvent v a b) (bindS (on_world (rc msg)) (\<lambda>results.
            thenS (append_logs (er_logs (ev_exec results)))
            (thenS (useGas (er_executionGasUsed (ev_exec results)))
            (thenS (whenS (er_exceptionError (ev_exec results) = Some ''revert'') (set_returnBytes (er_returnValue (ev_exec results))))
            (if er_exceptionError (ev_exec results) = None \<or> er_exceptionError (ev_exec results) = Some ''code store out of gas''
             then thenS (adopt_callee H results)
               (case ev_createdAddress results of Some a \<Rightarrow> bigE H a | None \<Rightarrow> getReturnCode results True)
             else getReturnCode results True))))) (\<lambda>_. run_ok v)" (is "hoare _ _ (bindS _ ?f) _")
    if "mg_depth msg \<noteq> 0" "mg_caller msg = a" "mg_value msg = x" "b = Some y" "x \<le> y" "0 \<le> x" for msg a b y
  proof (rule hoare_bind, rule hoare_pre [OF after_runner [OF assms that(1)]])
    show "0 \<le> mg_value msg" using that(3,6) by simp
    fix s
    show "solvent v a b s \<Longrightarrow> run_ok v s \<and> payable (world_of s) msg"
      using that(2-5) by (auto simp: payable_def solvent_def run_ok_def)
  next
    fix res
    show "hoare (fails v) (returned v res) (?f res) (\<lambda>_. run_ok v)"
    proof (rule after_return)
      show "preserves (trapped v) (run_ok v) (?f res)"
        by (intro pres run_parts run.pres_charge run.pres_data run_adopts)
      show "er_exceptionError (ev_exec res) = None \<Longrightarrow> hoare (fails v) (ended v) (?f res) (\<lambda>_. run_ok v)"
        by (simp add: whenS_def)
          (intro ended_calls hoare_bind [OF ended_hoare [OF pres_base(1)]] hoare_bind [OF leads_adopt]
            run_hoare pres_option run_parts run.pres_data)
    qed
  qed
  have get: "hoare (fails v) (run_ok v) (getS id)
      (\<lambda>s0. solvent v (en_address (rs_env s0)) (ac_balance (en_contract (rs_env s0))))"
    by (rule hoareI) (auto simp: getS_def solvent_def)
  have stop: "hoare (fails v) (solvent v a b) (retS 0) (\<lambda>_. run_ok v)" for a b
    by (rule hoare_ret) (simp add: solvent_def)
  have nonce: "hoare (fails v) (solvent v a b) (liftS q) (\<lambda>_. solvent v a b)" for a b and q :: "int res"
    by (rule hoare_lift) (simp add: solvent_def run_ended)
  have neg: "hoare (fails v) (solvent v a b) (failS (Throw e)) (\<lambda>_. run_ok v)" for a b e
    by (simp add: hoare_def failS_def)
  show ?thesis
    unfolding ev_create_def Let_def bind_message_new
    apply (rule hoare_run, rule hoare_bind [OF get], rule hoare_bind [OF solvent_parts(1)], rule hoare_bind [OF unblocked])
    subgoal for s0 _ blocked
      apply (rule hoare_if, rule hoare_pre [OF stop], simp)
      apply (rule hoare_assume [where b = "\<exists>y. ac_balance (en_contract (rs_env s0)) = Some y \<and> x \<le> y"], simp)
      apply (rule hoare_pre [where P = "solvent v (en_address (rs_env s0)) (ac_balance (en_contract (rs_env s0)))"])
      apply (rule hoare_bind [OF nonce], rule hoare_if, rule stop)
      apply (rule hoare_bind [OF solvent_parts(2)], simp, rule hoare_bind [OF solvent_parts(3)], simp)
      apply (rule hoare_if, rule stop, rule hoare_if, rule neg)
      apply (elim exE conjE, rule 1)
      apply simp_all
      done
    done
qed

end


locale evm_calls = evm_state SI scur ssaved M saact L H bal
  for SI :: "'m \<Rightarrow> bool" and scur :: "'m \<Rightarrow> 'v" and ssaved :: "'m \<Rightarrow> 'v list"
    and M :: "'m smgr" and saact :: "sm_op \<Rightarrow> 'v \<Rightarrow> 'v res" and L :: lib
    and H :: "('m, 'w) host" and bal :: "'v \<Rightarrow> u8 list \<Rightarrow> int option" +
  fixes rc :: "('m, 'w) runner"
  assumes good_runner: "runner_ok rc"

sublocale evm_calls \<subseteq> run: driving "trapped v" H "run_ok v" rc for v
  by unfold_locales
    (simp_all add: run_calls_out [OF good_runner] run_creates [OF good_runner], simp_all add: run_ok_def world_of_upd)

context evm_calls begin

section \<open>A run\<close>

lemma run_step: "preserves (trapped v) (run_ok v) (runStep H rc info)"
proof -
  have h: "preserves (trapped v) (run_ok v) (case handlers H rc op of None \<Rightarrow> failS e | Some f \<Rightarrow> f)" for op e
    by (cases "handlers H rc op") (simp_all add: pres_base run.all_handlers)
  show ?thesis
    unfolding runStep_def by (intro h pres_bind pres_if pres_base run.pres_step_gas run.pres_charge run.pres_pc)
qed

lemma run_catch:
  "hoare (\<lambda>e _. thrown e) (run_ok v) (catch_step H (runStep H rc info))
     (\<lambda>r s. case r of Inl _ \<Rightarrow> run_ok v s | Inr _ \<Rightarrow> ended v s)"
  unfolding hoare_def
proof (intro allI impI)
  fix s :: "('m, 'w) rs"
  assume s: "run_ok v s"
  obtain r s' where r: "runStep H rc info s = (r, s')" by fastforce
  have u: "ended v (s'\<lparr>rs_witness := w\<rparr>) \<longleftrightarrow> ended v s'" for w
    by (simp add: ended_def world_of_upd world_at_witness)
  show "case catch_step H (runStep H rc info) s of
      (Inr r, s') \<Rightarrow> (case r of Inl _ \<Rightarrow> run_ok v s' | Inr _ \<Rightarrow> ended v s') | (Inl e, s') \<Rightarrow> thrown e"
  proof (cases r)
    case (Inl e)
    with hoare_Inl [OF run_hoare [OF run_step] s] r have "thrown e \<or> ended v s'" by blast
    with r Inl u show ?thesis by (cases e) (auto simp: catch_step_def Let_def)
  next
    case (Inr a)
    with hoare_Inr [OF run_hoare [OF run_step] s] r show ?thesis by (auto simp: catch_step_def)
  qed
qed

lemma run_fetch: "hoare (\<lambda>e _. thrown e) (run_ok v) (fetch H cached) (\<lambda>_. run_ok v)"
proof -
  have k: "run_ok v (s\<lparr>rs_opCode := op\<rparr>) = run_ok v s"
    "run_ok v (s\<lparr>rs_validJumps := j, rs_cachedPushes := p, rs_shouldDoJumpAnalysis := b\<rparr>) = run_ok v s" for s op j p b
    by (simp_all add: run_ok_def world_of_def)
  have "\<exists>t. getValidJumpDestinations H c = Inr t" for c
    using getValidJumpDestinations_ok [of H c] lib_fine host_lib by auto
  then show ?thesis
    by (intro hoareI)
      (auto simp: fetch_def analysed_def bindS_def getS_def liftS_def modS_def retS_def failS_def Let_def k
        split: if_splits option.splits sum.splits prod.splits, (metis Inl_Inr_False sum.distinct(1))+)
qed

lemma run_loop_ends: "hoare (\<lambda>e _. thrown e) (run_ok v) (run_loop n H rc cached) (\<lambda>_. ended v)"
proof (induction n arbitrary: cached)
  case 0
  then show ?case by (simp add: hoare_def failS_def)
next
  case (Suc n)
  have get: "hoare E P (getS id) (\<lambda>_. P)" for E and P :: "('m, 'w) rs \<Rightarrow> bool" by (simp add: hoare_def getS_def)
  have chunk: "hoare (\<lambda>e _. thrown e) (run_ok v) (check_chunk H) (\<lambda>_. run_ok v)"
    by (rule hoareI) (auto simp: check_chunk_def bindS_def getS_def whenS_def failS_def retS_def split: if_splits)
  show ?case
    unfolding run_loop.simps
  proof (intro hoare_bind [OF get] hoare_if)
    fix c1
    show "hoare (\<lambda>e _. thrown e) (run_ok v) (retS None) (\<lambda>_. ended v)" by (rule hoare_ret) (rule run_ended)
    show "hoare (\<lambda>e _. thrown e) (run_ok v) (bindS (fetch H cached) (\<lambda>(info, cached).
       thenS (check_chunk H) (bindS (catch_step H (runStep H rc info)) (\<lambda>r.
        case r of Inl _ \<Rightarrow> run_loop n H rc cached | Inr err \<Rightarrow> retS err)))) (\<lambda>_. ended v)"
    proof (rule hoare_bind [OF run_fetch], clarify, rule hoare_bind [OF chunk], rule hoare_bind [OF run_catch])
      fix cached and r :: "unit + string option"
      show "hoare (\<lambda>e _. thrown e) (\<lambda>s. case r of Inl _ \<Rightarrow> run_ok v s | Inr _ \<Rightarrow> ended v s)
          (case r of Inl _ \<Rightarrow> run_loop n H rc cached | Inr err \<Rightarrow> retS err) (\<lambda>_. ended v)"
        by (cases r) (simp_all add: Suc.IH, simp add: hoare_def retS_def)
    qed
  qed
qed

end

end
