(* ===== verification/EvmAtomic.thy ===== *)
theory EvmAtomic
  imports EvmInvariant
begin

text \<open>
  Message calls are transactions. From the invariant of a run (\<open>EvmInvariant\<close>) follows, by
  induction on the fuel, that every message call, with all the calls and creates inside it, closes
  exactly the checkpoint it opened, that a call with an exception leaves the state it found, and
  that no error of the virtual machine escapes from an inner call. The interpretation is on the
  simple state manager.
\<close>

section \<open>Errors of helpers\<close>

definition harmless :: "'a res \<Rightarrow> bool" where
  "harmless r \<longleftrightarrow> (\<forall>e. r = Inl e \<longrightarrow> thrown e)"

lemma harmless_base: "harmless (Inr a)" "harmless (throw m)"
  by (simp_all add: harmless_def)

lemma harmless_bind: "harmless r \<Longrightarrow> (\<And>a. harmless (f a)) \<Longrightarrow> harmless (bindE r f)"
  by (cases r) (auto simp: harmless_def)

lemma harmless_if: "harmless r \<Longrightarrow> harmless q \<Longrightarrow> harmless (if b then r else q)"
  by simp

lemma harmless_option: "harmless r \<Longrightarrow> (\<And>a. harmless (f a)) \<Longrightarrow> harmless (case x of None \<Rightarrow> r | Some a \<Rightarrow> f a)"
  by (cases x) simp_all

lemma harmless_calm: "harmless r \<Longrightarrow> r \<noteq> Inl (EvmTrap x)"
  by (auto simp: harmless_def)

lemmas harmless = harmless_base harmless_bind harmless_if harmless_option

lemma harmless_loaded: "harmless (loaded f x)"
  unfolding loaded_def by (intro harmless)

lemma harmless_address: "harmless (address_new b)" "harmless (codeAddress m)" "harmless (collides a)"
  unfolding address_new_def codeAddress_def collides_def by (intro harmless harmless_loaded)+

lemma harmless_rlp: "harmless (rlp_encode (RArr [RBytes a, RBytes b]))"
proof -
  have p: "harmless (rlp_hex_pairs h)" for h
    by (induction h rule: rlp_hex_pairs.induct) (auto intro!: harmless simp: option.case_eq_if)
  have h: "harmless (rlp_numberToHex n)" "harmless (rlp_hexToBytes h)" for n h
    unfolding rlp_numberToHex_def rlp_hexToBytes_def Let_def by (intro harmless p)+
  have l: "harmless (rlp_encodeLength n k)" for n k
    unfolding rlp_encodeLength_def Let_def by (intro harmless h)
  show ?thesis
    unfolding rlp_encode.simps rlp_toBytes.simps mapE.simps by (intro harmless l)
qed

context evm_calls begin

lemma harmless_hex: "harmless (hexToBytes L h)"
  using calm(6) by (auto simp: hexToBytes_def harmless_def thrown_def)

lemma harmless_create: "harmless (generateAddress2 L a salt code)" "harmless (bigIntToBytes L n)" "harmless (generateAddress L a b)"
proof -
  have "harmless (bytesToBigInt L x)" for x
    unfolding bytesToBigInt_def BigInt_hex_def Let_def by (intro harmless)
  then show "harmless (generateAddress2 L a salt code)" "harmless (bigIntToBytes L n)" "harmless (generateAddress L a b)"
    unfolding generateAddress2_def bigIntToBytes_def generateAddress_def
    by (intro harmless harmless_hex harmless_rlp)+
qed

section \<open>Steps of a call\<close>

text \<open>The error that leaves a call, when \<open>pay\<close> says that creates can be paid for.\<close>

abbreviation "out \<equiv> (\<lambda>pay (e :: js_error) (w :: ('m, 'w) world). pay \<longrightarrow> thrown e)"

lemma out_lift: "harmless r \<Longrightarrow> hoare (out pay) P (liftS r) (\<lambda>_. P)"
  by (cases r) (auto simp: hoare_def liftS_def harmless_def)

lemma out_base: "hoare (out pay) P (retS a) (\<lambda>_. P)" "hoare (out pay) P (failS (Throw x)) Q"
  by (simp_all add: hoare_def retS_def failS_def)

lemma out_witness: "hoare (out pay) (W v) (w_witness f) (\<lambda>_. W v)" "hoare (out pay) (W v) (w_commit H) (\<lambda>_. W v)"
  "hoare (out pay) (W v) (w_revert H) (\<lambda>_. W v)"
  by (auto simp: hoare_def w_commit_def w_revert_def w_witness_def world_at_witness Let_def split: prod.splits)

lemma out_mgr:
  assumes "\<And>m x m'. SI m \<Longrightarrow> f m = Inr (x, m') \<Longrightarrow> SI m' \<and> ssaved m' = ssaved m \<and> (funded bal (scur m) \<longrightarrow> funded bal (scur m'))"
    and "\<And>m x. f m \<noteq> Inl (EvmTrap x)"
  shows "hoare (out pay) (W v) (w_mgr f) (\<lambda>_. W v)"
proof (rule hoareI)
  fix w :: "('m, 'w) world" and a w' assume w: "W v w" "w_mgr f w = (Inr a, w')"
  then obtain m' where m: "f (jn_sm (wd_journal w)) = Inr (a, m')" "w' = w\<lparr>wd_journal := (wd_journal w)\<lparr>jn_sm := m'\<rparr>\<rparr>"
    by (auto simp: w_mgr_def split: sum.splits)
  from assms(1) [OF world_SI [OF w(1)] m(1)] m(2) w(1) world_funded [OF w(1)] show "W v w'" by (simp add: world_at_mgr)
next
  fix w :: "('m, 'w) world" and e w' assume "w_mgr f w = (Inl e, w')"
  then show "out pay e w'" using assms(2) by (auto simp: w_mgr_def thrown_def split: sum.splits prod.splits)
qed

text \<open>An account that is read has the balance of the state, which is not negative.\<close>

lemma out_loaded:
  "hoare (out pay) (W v) (w_mgr (sm_getAccount (ho_smgr H) a))
     (\<lambda>acc w. W v w \<and> ac_balance (case acc of None \<Rightarrow> default_account | Some x \<Rightarrow> x) = balance w a)"
proof (rule hoareI)
  fix w :: "('m, 'w) world" and acc w' assume w: "W v w" "w_mgr (sm_getAccount (ho_smgr H) a) w = (Inr acc, w')"
  then obtain m' where m: "sm_getAccount M a (jn_sm (wd_journal w)) = Inr (acc, m')"
    "w' = w\<lparr>wd_journal := (wd_journal w)\<lparr>jn_sm := m'\<rparr>\<rparr>"
    by (auto simp: w_mgr_def host_mgr split: sum.splits)
  from account_law [OF world_SI [OF w(1)] m(1)] m(2) w(1) world_funded [OF w(1)]
  show "W v w' \<and> ac_balance (case acc of None \<Rightarrow> default_account | Some x \<Rightarrow> x) = balance w' a"
    by (auto intro: world_at_mgr)
next
  fix w :: "('m, 'w) world" and e w' assume "w_mgr (sm_getAccount (ho_smgr H) a) w = (Inl e, w')"
  then show "out pay e w'"
    using calm(1) by (auto simp: w_mgr_def host_mgr thrown_def split: sum.splits prod.splits)
qed

lemma out_account:
  "hoare (out pay) (W v) (w_account H a) (\<lambda>acc w. W v w \<and> ac_balance acc = balance w a)"
  unfolding w_account_def by (rule hoare_bind [OF out_loaded], rule hoare_ret)

lemma world_solvent: "W v w \<Longrightarrow> ac_balance acc = balance w a \<Longrightarrow> solvent_account acc"
  using world_funded [of v w] by (auto simp: funded_def solvent_account_def)

lemma out_get: "hoare (out pay) (W v) (w_account H a) (\<lambda>acc w. W v w \<and> solvent_account acc)"
  by (rule hoare_post [OF out_account]) (auto dest: world_solvent)

lemma out_find: "hoare (out pay) (W v) (w_mgr (sm_getAccount (ho_smgr H) a))
    (\<lambda>acc w. W v w \<and> (\<forall>x. acc = Some x \<longrightarrow> solvent_account x))"
  by (rule hoare_post [OF out_loaded]) (auto dest: world_solvent)

lemma put_calm:
  assumes "W v w" "jn_putAccount L M a acc (wd_journal w) = Inl e"
  shows "thrown e"
proof -
  have "jn_inv SI ssaved (wd_journal w)" using assms(1) by (simp add: world_at_def world_ok_def)
  from jn_touch [OF this, of L M "bytesToUnprefixedHex L a"] obtain j where
    "jn_touchAddress L M a (wd_journal w) = Inr j"
    by (auto simp: jn_touchAddress_def bytesToHex_def)
  with assms(2) calm(2) show ?thesis by (auto simp: jn_putAccount_def bindE_def thrown_def split: sum.splits)
qed

lemma out_put: "solvent_account acc \<Longrightarrow> hoare (out pay) (W v) (w_putAccount H a acc) (\<lambda>_. W v)"
proof (rule hoareI)
  fix w :: "('m, 'w) world" and u w' assume "solvent_account acc" "W v w" "w_putAccount H a acc w = (Inr u, w')"
  then show "W v w'"
    by (auto simp: w_putAccount_def w_journal_def host_mgr host_lib intro: put_journal(1) split: sum.splits)
next
  fix w :: "('m, 'w) world" and e w' assume "W v w" "w_putAccount H a acc w = (Inl e, w')"
  then show "out pay e w'"
    by (auto simp: w_putAccount_def w_journal_def host_mgr host_lib dest: put_calm split: sum.splits)
qed

lemma out_warm: "hoare (out pay) (W v) (w_journal (\<lambda>j. Inr (jn_addWarmedAddress (ho_lib H) a j))) (\<lambda>_. W v)"
  by (auto simp: hoare_def w_journal_def host_lib intro: warm_journal(1))

lemma out_state:
  "hoare (out pay) (W v) (w_mgr (ho_getCode H a)) (\<lambda>_. W v)"
  "hoare (out pay) (W v) (w_mgr_u (ho_putCode H a c)) (\<lambda>_. W v)"
  "hoare (out pay) (W v) (w_mgr_u (ho_clearStorage H a)) (\<lambda>_. W v)"
proof -
  show "hoare (out pay) (W v) (w_mgr (ho_getCode H a)) (\<lambda>_. W v)"
    by (rule out_mgr) (use calm(3) in \<open>auto dest: code_law\<close>)
  show "hoare (out pay) (W v) (w_mgr_u (ho_putCode H a c)) (\<lambda>_. W v)"
    unfolding w_mgr_u_def using put_code_law calm(4)
    by (intro out_mgr) (auto simp: bindE_eq_Inr funded_def, auto simp: bindE_def split: sum.splits)
  show "hoare (out pay) (W v) (w_mgr_u (ho_clearStorage H a)) (\<lambda>_. W v)"
    unfolding w_mgr_u_def using clear_law calm(5)
    by (intro out_mgr) (auto simp: bindE_eq_Inr funded_def, auto simp: bindE_def split: sum.splits)
qed

lemma always_warm:
  assumes "W v w"
  shows "W v (w\<lparr>wd_journal := jn_addAlwaysWarmAddress a f (wd_journal w)\<rparr>)"
proof -
  let ?j = "jn_addAlwaysWarmAddress a f (wd_journal w)"
  have "jn_inv SI ssaved ?j \<longleftrightarrow> jn_inv SI ssaved (wd_journal w)" "jn_saved ssaved ?j = jn_saved ssaved (wd_journal w)"
    by (auto simp: jn_addAlwaysWarmAddress_def jn_inv_def jn_saved_def Let_def split: option.splits)
  moreover have "jn_sm ?j = jn_sm (wd_journal w)"
    by (simp add: jn_addAlwaysWarmAddress_def Let_def split: option.splits)
  ultimately show ?thesis using assms by (simp add: world_at_def world_ok_def world_saved_def)
qed

text \<open>Steps that keep the open checkpoints.\<close>

definition settled :: "'v jn_view list \<times> ts_view list \<times> nat list \<Rightarrow> bool \<Rightarrow> ('m, 'w, 'a) wev \<Rightarrow> bool" where
  "settled v pay m \<longleftrightarrow> hoare (out pay) (W v) m (\<lambda>_. W v)"

lemma settled_bind: "settled v pay m \<Longrightarrow> (\<And>a. settled v pay (f a)) \<Longrightarrow> settled v pay (bindS m f)"
  unfolding settled_def by (rule hoare_bind)

lemma settled_cases:
  "(b \<Longrightarrow> settled v pay m) \<Longrightarrow> (\<not> b \<Longrightarrow> settled v pay n) \<Longrightarrow> settled v pay (if b then m else n)"
  "(x = None \<Longrightarrow> settled v pay m) \<Longrightarrow> (\<And>a. x = Some a \<Longrightarrow> settled v pay (g a)) \<Longrightarrow> settled v pay (case x of None \<Rightarrow> m | Some a \<Rightarrow> g a)"
  "(\<And>a b. settled v pay (h a b)) \<Longrightarrow> settled v pay (case y of (a, b) \<Rightarrow> h a b)"
  "(\<And>a. settled v pay (k a)) \<Longrightarrow> settled v pay (Let z k)"
  by (cases x; cases y; simp)+

lemma settled_when: "(b \<Longrightarrow> settled v pay m) \<Longrightarrow> settled v pay (whenS b m)"
  by (simp add: whenS_def settled_def out_base)

lemma settled_base: "settled v pay (retS a)" "settled v pay (failS (Throw e))" "harmless r \<Longrightarrow> settled v pay (liftS r)"
  by (simp_all add: settled_def out_base out_lift)

text \<open>Accounts that are read are solvent in what follows.\<close>

lemma settled_account:
  assumes "\<And>acc. solvent_account acc \<Longrightarrow> settled v pay (f acc)"
  shows "settled v pay (bindS (w_account H a) f)"
  unfolding settled_def
proof (rule hoare_bind [OF out_get])
  fix acc
  show "hoare (out pay) (\<lambda>w. W v w \<and> solvent_account acc) (f acc) (\<lambda>_. W v)"
    by (rule hoare_assume [where b = "solvent_account acc"], simp,
        rule hoare_pre [OF assms [unfolded settled_def]], simp_all)
qed

lemma settled_find:
  assumes "\<And>acc. (\<forall>x. acc = Some x \<longrightarrow> solvent_account x) \<Longrightarrow> settled v pay (f acc)"
  shows "settled v pay (bindS (w_mgr (sm_getAccount (ho_smgr H) a)) f)"
  unfolding settled_def
proof (rule hoare_bind [OF out_find])
  fix acc
  show "hoare (out pay) (\<lambda>w. W v w \<and> (\<forall>x. acc = Some x \<longrightarrow> solvent_account x)) (f acc) (\<lambda>_. W v)"
    by (rule hoare_assume [where b = "\<forall>x. acc = Some x \<longrightarrow> solvent_account x"], simp,
        rule hoare_pre [OF assms [unfolded settled_def]], simp_all)
qed

lemmas settled_steps = out_witness out_put out_warm out_state

lemmas settled = settled_account settled_find settled_bind settled_cases settled_when settled_base settled_steps [folded settled_def]
  harmless_loaded harmless_address harmless_create

lemma settled_code: "settled v pay (loadCode H message)"
proof -
  have "settled v pay (w_journal (\<lambda>j. Inr (jn_addAlwaysWarmAddress a f j)))" for a f
    unfolding settled_def by (auto simp: hoare_def w_journal_def intro: always_warm)
  then show ?thesis unfolding loadCode_def by (intro settled)
qed

lemma settled_address: "settled v pay (generateMessageAddress H message)"
  unfolding generateMessageAddress_def host_lib
  by (cases "mg_salt message"; cases "mg_code message") (auto split: mcode.splits intro!: settled)

lemma settled_charge: "(\<And>g. settled v pay (k g)) \<Longrightarrow> settled v pay (charge_access H message created limit c k)"
  unfolding charge_access_def by (intro settled)

lemma settled_access: "settled v pay (call_access H message to)"
  unfolding call_access_def Let_def by (intro settled)

text \<open>Steps whose own errors are caught.\<close>

lemma keep_put: "solvent_account acc \<Longrightarrow> preserves (\<lambda>_ _. False) (W v) (w_putAccount H a acc)"
  by (rule preservesI)
    (auto simp: w_putAccount_def w_journal_def host_mgr host_lib intro: put_journal(1) split: sum.splits)

lemma settled_try: "preserves (\<lambda>_ _. False) (W v) m \<Longrightarrow> settled v pay (tryW m)"
  by (auto simp: settled_def hoare_def preserves_def tryW_def split: prod.splits sum.splits)

lemma keep_transfer:
  "solvent_account acc \<Longrightarrow> preserves (\<lambda>_ _. False) (W v) (reduceSenderBalance H acc message)"
  "solvent_account acc \<Longrightarrow> 0 \<le> mg_value message \<Longrightarrow> preserves (\<lambda>_ _. False) (W v) (addToBalance H to acc message)"
  by (cases "ac_balance acc"; simp add: reduceSenderBalance_def addToBalance_def loaded_def bindS_lift Let_def pres_base;
      intro impI keep_put; simp add: solvent_account_def)+

lemmas settled_transfer = settled_try [OF keep_transfer(1)] settled_try [OF keep_transfer(2)]

text \<open>The end of a transaction clears transient storage, which was empty when it began.\<close>

definition blank :: "'v jn_view list \<times> ts_view list \<times> nat list \<Rightarrow> bool" where
  "blank v \<longleftrightarrow> (\<exists>n. snd v = (replicate n (look_map (\<lambda>_. None)), replicate n 0))"

lemma settled_clear:
  assumes "mg_depth message = 0 \<longrightarrow> blank v"
  shows "settled v pay (clear_transient H message)"
proof -
  have "W v (w\<lparr>wd_transient := ts_clear (wd_transient w)\<rparr>)" if "W v w" "blank v" for w :: "('m, 'w) world"
    using that
    by (auto simp: blank_def world_at_def world_ok_def world_saved_def ts_inv_def ts_saved_def ts_look_def ts_clear_def
        undo_view_def map_replicate_const replicate_add)
  then show ?thesis
    using assms unfolding clear_transient_def settled_def by (auto simp: hoare_def w_transient_def whenS_def retS_def)
qed

section \<open>The interpreter of a call\<close>

lemma run_setup: "preserves (\<lambda>_ _. False) (run_ok v) (setupEOF H b)"
proof -
  have "preserves (\<lambda>_ _. False) (run_ok v) (modS (\<lambda>s. s\<lparr>rs_env := (rs_env s)\<lparr>en_eof := Some eo, en_callData := d s\<rparr>\<rparr>))" for eo d
    by (rule pres_mod) (simp add: run_ok_def world_of_upd)
  moreover have "preserves (\<lambda>_ _. False) (run_ok v) (set_pc k)" for k
    unfolding set_pc_def by (rule pres_mod) (simp add: run_ok_def world_of_upd)
  ultimately show ?thesis unfolding setupEOF_def by (intro pres) auto
qed

lemma run_interprets: "hoare (\<lambda>e _. thrown e) (run_ok v) (interpreter_run n H rc code) (\<lambda>_. ended v)"
proof -
  have get: "hoare E P (getS f) (\<lambda>_. P)" for E and P :: "('m, 'w) rs \<Rightarrow> bool" and f :: "('m, 'w) rs \<Rightarrow> 'x"
    by (simp add: hoare_def getS_def)
  have code: "hoare (\<lambda>e _. thrown e) (run_ok v) (modS (\<lambda>s. s\<lparr>rs_code := code\<rparr>)) (\<lambda>_. run_ok v)"
    by (rule hoareI) (auto simp: modS_def run_ok_def world_of_def)
  have err: "hoare (\<lambda>e _. thrown e) (run_ok v) (retS x) (\<lambda>_. ended v)" for x :: "string option"
    by (rule hoare_ret) (rule run_ended)
  have stray: "hoare (\<lambda>e _. thrown e) (run_ok v) (failS (Throw x)) (\<lambda>_. ended v)" for x
    by (simp add: hoare_def failS_def)
  have eof: "hoare (\<lambda>e _. thrown e) (run_ok v) (tryS (setupEOF H b)) (\<lambda>_. run_ok v)" for b
    using run_setup [of v b] by (auto simp: hoare_def preserves_def tryS_def split: prod.splits sum.splits)
  show ?thesis
    unfolding interpreter_run_def Let_def
    by (intro hoare_if hoare_bind [OF get] hoare_bind [OF code] hoare_bind [OF eof] err stray run_loop_ends)
qed

lemma world_of_new: "world_of (rs_new en g sd w) = w"
  by (simp add: world_of_def rs_new_def)

lemma rs_env_new: "en_contract (rs_env (rs_new (message_env H m code con) g sd w)) = con"
  "en_address (rs_env (rs_new (message_env H m code con) g sd w)) = (case mg_to m of None \<Rightarrow> replicate 20 0 | Some a \<Rightarrow> a)"
  by (simp_all add: rs_new_def message_env_def)

lemma settled_interpreter: "settled v pay (runInterpreter n H rc code message)"
  unfolding settled_def runInterpreter_def
proof (rule hoare_bind [OF out_account])
  let ?to = "case mg_to message of None \<Rightarrow> replicate 20 0 | Some a \<Rightarrow> a"
  fix contract :: account
  let ?run = "\<lambda>w. interpreter_run n H rc code
      (rs_new (message_env H message code contract) (mg_gasLimit message) (mg_selfdestruct message) w)"
  show "hoare (out pay) (\<lambda>w. W v w \<and> ac_balance contract = balance w ?to)
    (\<lambda>w. case ?run w of (Inl e, s) \<Rightarrow> (Inl e, world_of s)
      | (Inr err, s) \<Rightarrow> thenS (w_commit H) (retS (run_result message err s)) (world_of s)) (\<lambda>_. W v)"
    unfolding hoare_def
  proof (intro allI impI)
    fix w :: "('m, 'w) world"
    assume w: "W v w \<and> ac_balance contract = balance w ?to"
    have "run_ok v (rs_new (message_env H message code contract) (mg_gasLimit message) (mg_selfdestruct message) w)"
      using w by (simp add: run_ok_def world_of_new rs_env_new)
    note r = hoare_Inr [OF run_interprets this] hoare_Inl [OF run_interprets this]
    obtain q s where q: "?run w = (q, s)" by fastforce
    show "case (case ?run w of (Inl e, s) \<Rightarrow> (Inl e, world_of s)
      | (Inr err, s) \<Rightarrow> thenS (w_commit H) (retS (run_result message err s)) (world_of s)) of
        (Inr a, s') \<Rightarrow> W v s' | (Inl e, s') \<Rightarrow> out pay e s'"
    proof (cases q)
      case (Inl e)
      with q r(2) show ?thesis by simp
    next
      case (Inr err)
      with q r(1) have "W v (world_of s)" by (auto simp: ended_def)
      then show ?thesis
        using q Inr by (simp add: bindS_def retS_def w_commit_def w_witness_def Let_def world_at_witness split: prod.splits)
    qed
  qed
qed

section \<open>Message calls and creates\<close>

lemma settled_call_code:
  assumes "mg_depth message = 0 \<longrightarrow> blank v"
  shows "settled v pay (call_code n H rc message err gasLimit)"
proof -
  have c: "settled v pay (clear_transient H m)" if "mg_depth m = mg_depth message" for m
    using settled_clear assms that by simp
  have l: "hoare (out pay) (W v) (loadCode H message) (\<lambda>m w. W v w \<and> mg_depth m = mg_depth message)"
  proof (rule hoareI)
    fix w m w' assume w: "W v w" "loadCode H message w = (Inr m, w')"
    from hoare_Inr [OF settled_code [unfolded settled_def] this] have "W v w'" .
    moreover have "mg_depth m = mg_depth message"
      using w(2) by (auto simp: loadCode_def retS_def bindS_Inr split: if_splits)
    ultimately show "W v w' \<and> mg_depth m = mg_depth message" ..
  qed (rule hoare_Inl [OF settled_code [unfolded settled_def]])
  show ?thesis
    unfolding settled_def call_code_def
  proof (rule hoare_bind [OF l])
    fix m
    show "hoare (out pay) (\<lambda>w. W v w \<and> mg_depth m = mg_depth message)
      (let used = mg_gasLimit m - gasLimit;
         exit = retS (plain_result m None
           \<lparr>er_returnValue = [], er_executionGasUsed = used, er_exceptionError = err,
            er_gasRefund = Some (mg_gasRefund m), er_logs = None, er_selfdestruct = {}, er_createdAddresses = {}\<rparr>) in
     if mg_code m = Some (Bytecode []) \<or> err \<noteq> None then exit
     else
       bindS (case mg_code m of
           Some (Precompile address) \<Rightarrow> retS (plain_result m None (precompile_result H m address gasLimit))
         | Some (Bytecode code) \<Rightarrow> runInterpreter n H rc code (m\<lparr>mg_gasLimit := gasLimit\<rparr>)
         | None \<Rightarrow> failS (Throw ''TypeError'')) (\<lambda>result.
       thenS (clear_transient H m)
       (retS (add_gasUsed used result)))) (\<lambda>_. W v)" (is "hoare _ _ ?m _")
    proof (rule hoare_assume)
      assume d: "mg_depth m = mg_depth message"
      have "settled v pay ?m"
        unfolding Let_def
        by (intro settled_bind settled_cases(1) c [OF d] settled_base)
          (auto split: option.splits mcode.splits intro: settled_base settled_interpreter)
      then show "hoare (out pay) (\<lambda>w. W v w \<and> mg_depth m = mg_depth message) ?m (\<lambda>_. W v)"
        unfolding settled_def by (rule hoare_pre) simp
    qed simp
  qed
qed

lemma settled_call:
  assumes "mg_depth message = 0 \<longrightarrow> blank v" "0 \<le> mg_value message"
  shows "settled v pay (executeCall n H rc to message)"
  unfolding executeCall_def Let_def
  by (intro settled settled_call_code [OF assms(1)] settled_transfer settled_charge settled_access) (simp_all add: assms(2))

lemma settled_create_run:
  assumes "mg_depth message = 0 \<longrightarrow> blank v" "0 \<le> mg_value message" "solvent_account acc"
  shows "settled v pay (create_run n H rc message code to gasLimit acc)"
proof -
  have "settled v pay (create_finish H message code to result)" for result
    unfolding create_finish_def Let_def by (intro settled settled_clear [OF assms(1)])
  then show ?thesis
    unfolding create_run_def Let_def
    by (intro settled settled_transfer assms(2,3) settled_charge settled_interpreter)
qed

text \<open>Reading an account changes nothing that can be read.\<close>

lemma out_read:
  "hoare (out pay) (\<lambda>w. W v w \<and> R (scur (jn_sm (wd_journal w)))) (w_account H a)
     (\<lambda>acc w. W v w \<and> R (scur (jn_sm (wd_journal w))) \<and> ac_balance acc = balance w a)"
proof (rule hoareI)
  fix w :: "('m, 'w) world" and acc w'
  assume w: "W v w \<and> R (scur (jn_sm (wd_journal w)))" "w_account H a w = (Inr acc, w')"
  then obtain x m' where m: "sm_getAccount M a (jn_sm (wd_journal w)) = Inr (x, m')" "jn_sm (wd_journal w') = m'"
    by (auto simp: w_account_def bindS_Inr w_mgr_def retS_def host_mgr split: sum.splits)
  have "W v w" using w(1) ..
  from hoare_Inr [OF out_account this w(2)] account_law [OF world_SI [OF this] m(1)] m(2) w(1)
  show "W v w' \<and> R (scur (jn_sm (wd_journal w'))) \<and> ac_balance acc = balance w' a" by simp
next
  fix w :: "('m, 'w) world" and e w'
  assume "W v w \<and> R (scur (jn_sm (wd_journal w)))" "w_account H a w = (Inl e, w')"
  then show "out pay e w'" using hoare_Inl [OF out_account, of v w a e w' pay] by simp
qed

lemma out_reduce:
  "hoare (out pay) (\<lambda>w. W v w \<and> (pay \<longrightarrow> (\<forall>b. ac_balance acc = Some b \<longrightarrow> mg_value message \<le> b)))
     (reduceSenderBalance H acc message) (\<lambda>_. W v)"
proof (cases "ac_balance acc")
  case None
  then show ?thesis
    by (simp add: reduceSenderBalance_def loaded_def hoare_def bindS_def liftS_def)
next
  case (Some b)
  show ?thesis
  proof (cases "b < mg_value message")
    case True
    with Some show ?thesis
      by (simp add: reduceSenderBalance_def loaded_def hoare_def bindS_def liftS_def failS_def)
  next
    case False
    with Some have "reduceSenderBalance H acc message =
        w_putAccount H (mg_caller message) (acc\<lparr>ac_balance := Some (b - mg_value message)\<rparr>)"
      by (simp add: reduceSenderBalance_def loaded_def bindS_def liftS_def fun_eq_iff)
    then show ?thesis by (simp only:) (rule hoare_pre [OF out_put], use False in simp_all)
  qed
qed

lemma settled_create:
  assumes "mg_depth message = 0 \<longrightarrow> blank v" "mg_to message = None" "0 \<le> mg_value message"
  shows "hoare (out pay) (\<lambda>w. W v w \<and> (pay \<longrightarrow> payable w message)) (executeCreate n H rc message) (\<lambda>_. W v)"
proof -
  let ?R = "\<lambda>q. pay \<longrightarrow> (\<forall>b. bal q (mg_caller message) = Some b \<longrightarrow> mg_value message \<le> b)"
  have w: "hoare (out pay) (\<lambda>w. W v w \<and> ?R (scur (jn_sm (wd_journal w))))
      (whenS b (bindS (w_witness f) (\<lambda>_. retS ()))) (\<lambda>_ w. W v w \<and> ?R (scur (jn_sm (wd_journal w))))"
    for b and f :: "'w \<Rightarrow> int \<times> 'w"
    by (auto simp: hoare_def whenS_def bindS_def retS_def w_witness_def Let_def world_at_witness split: prod.splits)
  have fits: "settled v pay (create_run n H rc m code to gasLimit acc)" 
    if "mg_depth m = mg_depth message" "mg_value m = mg_value message" "solvent_account acc" for m code to gasLimit acc
    using settled_create_run assms(1,3) that by simp
  show ?thesis
    unfolding executeCreate_def Let_def
    apply (rule hoare_bind)
     apply (rule hoare_pre [OF w])
     apply (simp add: payable_def assms(2))
    apply (rule hoare_bind [OF out_read], rule hoare_bind, rule hoare_pre [OF out_reduce], force)
    apply (fold settled_def)
    apply (intro settled settled_address fits; simp)
    done
qed

lemma begin_fields:
  assumes "begin_call H message w = (Inr m, w')"
  shows "mg_to m = mg_to message \<and> mg_caller m = mg_caller message \<and> mg_value m = mg_value message
    \<and> mg_depth m = mg_depth message"
  using assms by (auto simp: begin_call_def Let_def bindS_Inr retS_def split: if_splits)

lemma begin_settled: "settled v pay (begin_call H message)"
  unfolding begin_call_def Let_def by (intro settled settled_address) simp

section \<open>The checkpoint of a call\<close>

text \<open>The snapshots once the checkpoint of a call is open.\<close>

definition opened :: "('m, 'w) world \<Rightarrow> 'v jn_view list \<times> ts_view list \<times> nat list \<Rightarrow> 'v jn_view list \<times> ts_view list \<times> nat list" where
  "opened w v = (jn_cur scur (wd_journal w) # fst v,
     if ho_eip H 1153 then (ts_look (wd_transient w) # fst (snd v), snd (snd v) @ [length (ts_journal (wd_transient w))])
     else snd v)"

definition open_call :: "('m, 'w, unit) wev" where
  "open_call = thenS (w_journal (\<lambda>j. Inr (jn_checkpoint (ho_smgr H) j)))
     (whenS (ho_eip H 1153) (w_transient (\<lambda>t. Inr (ts_checkpoint t))))"

lemma open_call_ok:
  assumes "W v w"
  shows "\<exists>w'. open_call w = (Inr (), w') \<and> W (opened w v) w'
    \<and> scur (jn_sm (wd_journal w')) = scur (jn_sm (wd_journal w))"
proof -
  have j: "jn_inv SI ssaved (wd_journal w)" "jn_saved ssaved (wd_journal w) = fst v"
    and t: "ts_inv (wd_transient w)" "ts_saved (wd_transient w) = fst (snd v)" "ts_indices (wd_transient w) = snd (snd v)"
    using assms by (auto simp: world_at_def world_ok_def world_saved_def)
  let ?w = "w\<lparr>wd_journal := jn_checkpoint M (wd_journal w)\<rparr>"
  define w' where "w' = (if ho_eip H 1153 then ?w\<lparr>wd_transient := ts_checkpoint (wd_transient w)\<rparr> else ?w)"
  have cur: "snd (jn_cur scur j) = scur (jn_sm j)" for j by (simp add: jn_cur_def)
  have "open_call w = (Inr (), w')"
    by (simp add: open_call_def w'_def bindS_def w_journal_def w_transient_def whenS_def retS_def host_mgr)
  moreover have "scur (jn_sm (jn_checkpoint M (wd_journal w))) = scur (jn_sm (wd_journal w))"
    using jn.chk_law [OF j(1)] by (simp add: jn_cur_def)
  moreover have "W (opened w v) w'"
    using jn.chk_law [OF j(1)] tstore.chk_law [OF t(1)] j t assms
    by (simp add: w'_def opened_def world_at_def world_ok_def world_saved_def prod_eq_iff cur)
      (simp add: ts_checkpoint_def)
  ultimately show ?thesis by (auto simp: w'_def)
qed

lemma finish_ok:
  assumes "W (opened w v) w1"
  shows "\<exists>w'. finish_call H res w1 = (Inr (if failed H res then set_exec ((ev_exec res)\<lparr>er_logs := Some []\<rparr>) res else res), w')
    \<and> W v w' \<and> (failed H res \<longrightarrow> jn_cur scur (wd_journal w') = jn_cur scur (wd_journal w)
        \<and> (ho_eip H 1153 \<longrightarrow> ts_look (wd_transient w') = ts_look (wd_transient w)))"
proof -
  have j: "jn_inv SI ssaved (wd_journal w1)" "jn_saved ssaved (wd_journal w1) = jn_cur scur (wd_journal w) # fst v"
    and t: "ts_inv (wd_transient w1)"
    and te: "ho_eip H 1153 \<Longrightarrow> ts_saved (wd_transient w1) = ts_look (wd_transient w) # fst (snd v)"
      "ho_eip H 1153 \<Longrightarrow> butlast (ts_indices (wd_transient w1)) = snd (snd v)"
    and tn: "\<not> ho_eip H 1153 \<Longrightarrow> ts_saved (wd_transient w1) = fst (snd v)"
      "\<not> ho_eip H 1153 \<Longrightarrow> ts_indices (wd_transient w1) = snd (snd v)"
    using assms by (cases v; auto simp: world_at_def world_ok_def world_saved_def opened_def split: if_splits)+
  have cur: "snd (jn_cur scur j) = scur (jn_sm j)" for j by (simp add: jn_cur_def)
  have fnd: "funded bal (scur (jn_sm (wd_journal w1)))" "funded bal (scur (jn_sm (wd_journal w)))"
    "\<forall>x \<in> set (fst v). funded bal (snd x)"
    using assms by (auto simp: world_at_def opened_def cur)
  obtain jc where jc: "jn_commit M (wd_journal w1) = Inr jc" "jn_inv SI ssaved jc" "jn_saved ssaved jc = fst v"
    "scur (jn_sm jc) = scur (jn_sm (wd_journal w1))"
    using jn.com_law [OF j] cur by metis
  obtain jr where jr: "jn_revert M (wd_journal w1) = Inr jr" "jn_inv SI ssaved jr" "jn_saved ssaved jr = fst v"
    "jn_cur scur jr = jn_cur scur (wd_journal w)"
    using jn.rvt_law [OF j] by blast
  have tc: "\<exists>t'. ts_commit (wd_transient w1) = Inr t' \<and> ts_inv t' \<and> ts_saved t' = fst (snd v) \<and> ts_indices t' = snd (snd v)"
    if "ho_eip H 1153"
  proof -
    from tstore.com_law [OF t te(1) [OF that]] obtain t' where
      t': "ts_commit (wd_transient w1) = Inr t'" "ts_inv t'" "ts_saved t' = fst (snd v)" by blast
    moreover have "ts_indices t' = butlast (ts_indices (wd_transient w1))"
      using t'(1) by (auto simp: ts_commit_def split: if_splits)
    ultimately show ?thesis using te(2) [OF that] by simp
  qed
  have tr: "\<exists>t'. ts_revert (wd_transient w1) = Inr t' \<and> ts_inv t' \<and> ts_saved t' = fst (snd v) \<and> ts_indices t' = snd (snd v)
      \<and> ts_look t' = ts_look (wd_transient w)" if "ho_eip H 1153"
  proof -
    from tstore.rvt_law [OF t te(1) [OF that]] obtain t' where
      t': "ts_revert (wd_transient w1) = Inr t'" "ts_inv t'" "ts_saved t' = fst (snd v)"
        "ts_look t' = ts_look (wd_transient w)" by blast
    moreover have "ts_indices t' = butlast (ts_indices (wd_transient w1))"
      using t'(1) by (auto simp: ts_revert_def Let_def bindE_eq_Inr split: if_splits)
    ultimately show ?thesis using te(2) [OF that] by simp
  qed
  have jrf: "scur (jn_sm jr) = scur (jn_sm (wd_journal w))" using jr(4) cur by metis
  note steps = fnd jc(4) jrf bindS_def w_journal_def w_transient_def whenS_def retS_def host_mgr w_commit_def w_witness_def
    world_at_def world_ok_def world_saved_def prod_eq_iff
  show ?thesis
  proof (cases "failed H res"; cases "ho_eip H 1153")
    assume f: "failed H res" "ho_eip H 1153"
    from tr [OF f(2)] obtain t' where "ts_revert (wd_transient w1) = Inr t'" "ts_inv t'" "ts_saved t' = fst (snd v)"
      "ts_indices t' = snd (snd v)" "ts_look t' = ts_look (wd_transient w)" by blast
    with f jr show ?thesis by (simp add: finish_call_def steps)
  next
    assume f: "failed H res" "\<not> ho_eip H 1153"
    with jr t tn show ?thesis by (simp add: finish_call_def steps)
  next
    assume f: "\<not> failed H res" "ho_eip H 1153"
    from tc [OF f(2)] obtain t' where "ts_commit (wd_transient w1) = Inr t'" "ts_inv t'" "ts_saved t' = fst (snd v)"
      "ts_indices t' = snd (snd v)" by blast
    with f jc show ?thesis by (simp add: finish_call_def steps)
  next
    assume f: "\<not> failed H res" "\<not> ho_eip H 1153"
    with jc t tn show ?thesis by (simp add: finish_call_def steps)
  qed
qed

lemma run_message_steps:
  "run_message n H rc message = bindS (begin_call H message) (\<lambda>m. thenS open_call
     (bindS (case mg_to m of Some to \<Rightarrow> executeCall n H rc to m | None \<Rightarrow> executeCreate n H rc m)
       (\<lambda>result. finish_call H (settle_result result))))"
  by (simp add: run_message_def open_call_def bindS_def fun_eq_iff split: prod.split sum.split)

lemma begin_transient: "preserves (\<lambda>_ _. False) (\<lambda>w :: ('m, 'w) world. wd_transient w = t) (begin_call H message)"
proof -
  have j: "preserves (\<lambda>_ _. False) (\<lambda>w :: ('m, 'w) world. wd_transient w = t) (w_journal f)" for f
    by (rule preservesI) (auto simp: w_journal_def split: sum.splits)
  have m: "preserves (\<lambda>_ _. False) (\<lambda>w :: ('m, 'w) world. wd_transient w = t) (w_mgr f)" for f :: "'m \<Rightarrow> ('x \<times> 'm) res"
    by (rule preservesI) (auto simp: w_mgr_def split: sum.splits)
  have g: "preserves (\<lambda>_ _. False) (\<lambda>w :: ('m, 'w) world. wd_transient w = t) (generateMessageAddress H message)" for message
    unfolding generateMessageAddress_def w_account_def
    by (cases "mg_salt message"; cases "mg_code message") (auto split: mcode.splits intro!: pres m)
  show ?thesis
    unfolding begin_call_def Let_def w_account_def w_putAccount_def by (intro pres j m g)
qed

lemma blank_opened:
  assumes "W v w" "ts_journal (wd_transient w) = []" "ts_storage (wd_transient w) = (\<lambda>_. None)"
  shows "blank (opened w v)"
proof -
  have i: "ts_indices (wd_transient w) = replicate (length (ts_indices (wd_transient w))) 0"
    using assms(1,2) by (intro replicate_eqI) (auto simp: world_at_def world_ok_def ts_inv_def)
  have "ts_saved (wd_transient w) = replicate (length (ts_indices (wd_transient w))) (look_map (\<lambda>_. None))"
    using assms(2,3) by (simp add: ts_saved_def ts_look_def undo_view_def map_replicate_const)
  moreover have "snd v = (ts_saved (wd_transient w), ts_indices (wd_transient w))"
    using assms(1) by (auto simp: world_at_def world_saved_def)
  moreover have "ts_look (wd_transient w) = look_map (\<lambda>_. None)" using assms(3) by (simp add: ts_look_def)
  moreover define k where "k = length (ts_indices (wd_transient w))"
  ultimately have v: "snd v = (replicate k (look_map (\<lambda>_. None)), replicate k 0)" using i by simp
  show ?thesis
  proof (cases "ho_eip H 1153")
    case True
    then show ?thesis
      using v assms(2,3) unfolding blank_def
      by (intro exI [of _ "Suc k"]) (simp add: opened_def ts_look_def replicate_append_same)
  next
    case False
    then show ?thesis using v by (auto simp: blank_def opened_def)
  qed
qed

lemma settle_exception: "er_exceptionError (ev_exec (settle_result res)) = er_exceptionError (ev_exec res)"
  by (simp add: settle_result_def set_exec_def Let_def)

lemma exec_ok:
  assumes "mg_depth m = 0 \<longrightarrow> blank v" "0 \<le> mg_value m"
  shows "hoare (out pay) (\<lambda>w. W v w \<and> (pay \<longrightarrow> payable w m))
    (case mg_to m of Some to \<Rightarrow> executeCall n H rc to m | None \<Rightarrow> executeCreate n H rc m) (\<lambda>_. W v)"
proof (cases "mg_to m")
  case None
  then show ?thesis using settled_create [OF assms(1) None assms(2)] by simp
next
  case (Some to)
  then show ?thesis by simp (rule hoare_pre [OF settled_call [OF assms, unfolded settled_def]], simp)
qed

text \<open>A message call: where it succeeds and how it ends.\<close>

lemma message_ok:
  assumes "W v w" "0 \<le> mg_value message"
    "mg_depth message = 0 \<longrightarrow> ts_journal (wd_transient w) = [] \<and> ts_storage (wd_transient w) = (\<lambda>_. None)"
    and "run_message n H rc message w = (Inr res, w')"
  shows "\<exists>m w1. begin_call H message w = (Inr m, w1) \<and> W v w' \<and> (failed H res \<longrightarrow>
      jn_cur scur (wd_journal w') = jn_cur scur (wd_journal w1)
      \<and> (ho_eip H 1153 \<longrightarrow> ts_look (wd_transient w') = ts_look (wd_transient w1)))"
proof -
  from assms(4) obtain m w1 w2 w3 result where b: "begin_call H message w = (Inr m, w1)"
    and o: "open_call w1 = (Inr (), w2)"
    and x: "(case mg_to m of Some to \<Rightarrow> executeCall n H rc to m | None \<Rightarrow> executeCreate n H rc m) w2 = (Inr result, w3)"
    and f: "finish_call H (settle_result result) w3 = (Inr res, w')"
    unfolding run_message_steps by (auto simp: bindS_Inr)
  have 1: "W v w1" using hoare_Inr [OF begin_settled [unfolded settled_def] assms(1) b] .
  from open_call_ok [OF 1] o have 2: "W (opened w1 v) w2" by auto
  have "wd_transient w1 = wd_transient w" using preserves_Inr [OF begin_transient refl b] .
  then have bl: "mg_depth m = 0 \<longrightarrow> blank (opened w1 v)"
    using begin_fields [OF b] assms(3) blank_opened [OF 1] by simp
  have "0 \<le> mg_value m" using begin_fields [OF b] assms(2) by simp
  with bl have "W (opened w1 v) w3" using hoare_Inr [OF exec_ok [where pay = False, OF bl], of w2] 2 x by simp
  from finish_ok [OF this, of "settle_result result"] f obtain w'' where
    w'': "w'' = w'" "res = (if failed H (settle_result result)
        then set_exec ((ev_exec (settle_result result))\<lparr>er_logs := Some []\<rparr>) (settle_result result) else settle_result result)"
      "W v w''" "failed H (settle_result result) \<longrightarrow> jn_cur scur (wd_journal w'') = jn_cur scur (wd_journal w1)
        \<and> (ho_eip H 1153 \<longrightarrow> ts_look (wd_transient w'') = ts_look (wd_transient w1))"
    by auto
  have "failed H res = failed H (settle_result result)" using w''(2) by (simp add: failed_def set_exec_def)
  with w'' b show ?thesis by auto
qed

text \<open>Below the first call nothing that can be read changes before the checkpoint.\<close>

lemma begin_reads:
  assumes "mg_depth msg \<noteq> 0"
  shows "hoare (out pay) (\<lambda>w. W v w \<and> R (scur (jn_sm (wd_journal w)))) (begin_call H msg)
    (\<lambda>_ w. W v w \<and> R (scur (jn_sm (wd_journal w))))" (is "hoare _ ?P _ _")
proof -
  have acc: "hoare (out pay) ?P (w_account H a) (\<lambda>_. ?P)" for a
    by (rule hoare_post [OF out_read]) simp
  have warm: "hoare (out pay) ?P (w_journal (\<lambda>j. Inr (jn_addWarmedAddress (ho_lib H) a j))) (\<lambda>_. ?P)" for a
    by (auto simp: hoare_def w_journal_def host_lib warm_journal(2) intro: warm_journal(1))
  have bnd: "hoare (out pay) ?P m (\<lambda>_. ?P) \<Longrightarrow> (\<And>a. hoare (out pay) ?P (f a) (\<lambda>_. ?P)) \<Longrightarrow>
      hoare (out pay) ?P (bindS m f) (\<lambda>_. ?P)" for m :: "('m, 'w, 'x) wev" and f :: "'x \<Rightarrow> ('m, 'w, 'y) wev"
    by (rule hoare_bind)
  have gen: "hoare (out pay) ?P (generateMessageAddress H m) (\<lambda>_. ?P)" for m
    unfolding generateMessageAddress_def host_lib
    by (cases "mg_salt m"; cases "mg_code m")
      (auto simp: Let_def split: mcode.splits
        intro!: bnd acc out_lift out_base(2) harmless_loaded harmless_address harmless_create)
  show ?thesis
    using assms unfolding begin_call_def whenS_def Let_def
    by (simp, intro conjI impI hoare_bind [OF out_base(1)] hoare_bind [OF gen] hoare_bind [OF warm] out_base(1))
qed

lemma message_error:
  assumes "W v w" "mg_depth msg \<noteq> 0" "run_message n H rc msg w = (Inl e, w')" "payable w msg" "0 \<le> mg_value msg"
  shows "thrown e"
proof -
  note b = begin_reads [OF assms(2), where pay = True and v = v and R = "\<lambda>q. q = scur (jn_sm (wd_journal w))"]
  obtain q w1 where q: "begin_call H msg w = (q, w1)" by fastforce
  show ?thesis
  proof (cases q)
    case (Inl e')
    then show ?thesis using hoare_Inl [OF b, of w] q assms(1,3) by (simp add: run_message_steps bindS_def)
  next
    case (Inr m)
    have w1: "W v w1" "scur (jn_sm (wd_journal w1)) = scur (jn_sm (wd_journal w))"
      using hoare_Inr [OF b, of w] q Inr assms(1) by simp_all
    from open_call_ok [OF w1(1)] w1(2) obtain w2 where w2: "open_call w1 = (Inr (), w2)" "W (opened w1 v) w2"
      "scur (jn_sm (wd_journal w2)) = scur (jn_sm (wd_journal w))" by auto
    note m = begin_fields [OF q [unfolded Inr]]
    have "payable w2 m" using assms(4) m w2(3) by (simp add: payable_def)
    moreover have "mg_depth m = 0 \<longrightarrow> blank (opened w1 v)" using m assms(2) by simp
    note x = exec_ok [where pay = True, OF this _, of n]
    have "0 \<le> mg_value m" using m assms(5) by simp
    note x = x [OF this]
    obtain p w3 where p: "(case mg_to m of Some to \<Rightarrow> executeCall n H rc to m | None \<Rightarrow> executeCreate n H rc m) w2 = (p, w3)"
      by fastforce
    show ?thesis
    proof (cases p)
      case (Inl e')
      then show ?thesis
        using hoare_Inl [OF x, of w2] p w2 calculation assms(3) q Inr by (simp add: run_message_steps bindS_def)
    next
      case (Inr res)
      then have "W (opened w1 v) w3" using hoare_Inr [OF x, of w2] p w2 calculation by simp
      from finish_ok [OF this, of "settle_result res"] show ?thesis
        using p w2 assms(3) q Inr \<open>q = Inr m\<close> by (auto simp: run_message_steps bindS_def)
    qed
  qed
qed

lemma message_runner: "runner_ok (run_message n H rc)"
  unfolding runner_ok_def
proof (intro allI impI)
  fix msg and w :: "('m, 'w) world" and r w' v
  assume w: "W v w" "mg_depth msg \<noteq> 0" "0 \<le> mg_value msg" "run_message n H rc msg w = (r, w')"
  note b = begin_reads [OF w(2), where pay = True and v = v and R = "\<lambda>q. q = scur (jn_sm (wd_journal w))"]
  show "case r of Inr res \<Rightarrow> W v w' \<and> (er_exceptionError (ev_exec res) \<noteq> None \<longrightarrow>
          scur (jn_sm (wd_journal w')) = scur (jn_sm (wd_journal w)))
      | Inl e \<Rightarrow> payable w msg \<longrightarrow> thrown e"
  proof (cases r)
    case (Inr res)
    with message_ok [OF w(1,3) _ w(4) [unfolded Inr]] w(2) obtain m w1 where
      m: "begin_call H msg w = (Inr m, w1)" "W v w'"
        "failed H res \<Longrightarrow> jn_cur scur (wd_journal w') = jn_cur scur (wd_journal w1)" by auto
    have "scur (jn_sm (wd_journal w1)) = scur (jn_sm (wd_journal w))"
      using hoare_Inr [OF b _ m(1)] w(1) by simp
    then show ?thesis using m(2,3) Inr later by (auto simp: failed_def jn_cur_def)
  next
    case (Inl e)
    then show ?thesis using message_error [OF w(1,2)] w(3,4) by simp
  qed
qed

end

section \<open>All calls\<close>

context evm_state begin

lemma calls_of: "runner_ok rc \<Longrightarrow> evm_calls SI scur ssaved M saact L H bal rc"
  by (intro evm_calls.intro evm_state_axioms evm_calls_axioms.intro)

lemma runCall_runner: "runner_ok (runCall n H)"
proof (induction n)
  case 0
  then show ?case by (auto simp: runner_ok_def failS_def)
next
  case (Suc n)
  have "runCall (Suc n) H = run_message (n + 2) H (runCall n H)" by (simp add: fun_eq_iff)
  with evm_calls.message_runner [OF calls_of [OF Suc]] show ?case by simp
qed

end

sublocale evm_state \<subseteq> calls: evm_calls SI scur ssaved M saact L H bal "runCall n H" for n
  by (rule calls_of [OF runCall_runner])

context evm_state begin

lemma runCall_ok:
  assumes "W v w" "0 \<le> mg_value message"
    and "mg_depth message = 0 \<longrightarrow> ts_journal (wd_transient w) = [] \<and> ts_storage (wd_transient w) = (\<lambda>_. None)"
    and "runCall n H message w = (Inr res, w')"
  shows "\<exists>m w1. begin_call H message w = (Inr m, w1) \<and> W v w' \<and> (er_exceptionError (ev_exec res) \<noteq> None \<longrightarrow>
      jn_cur scur (wd_journal w') = jn_cur scur (wd_journal w1)
      \<and> (ho_eip H 1153 \<longrightarrow> ts_look (wd_transient w') = ts_look (wd_transient w1)))"
proof (cases n)
  case 0
  then show ?thesis using assms(4) by (simp add: failS_def)
next
  case (Suc k)
  from calls.message_ok [OF assms(1-3)] assms(4) Suc
  obtain m w1 where "begin_call H message w = (Inr m, w1)" "W v w'" "failed H res \<longrightarrow>
      jn_cur scur (wd_journal w') = jn_cur scur (wd_journal w1)
      \<and> (ho_eip H 1153 \<longrightarrow> ts_look (wd_transient w') = ts_look (wd_transient w1))"
    by fastforce
  then show ?thesis using later by (auto simp: failed_def)
qed

text \<open>An error that leaves an inner call is not the virtual machine's own.\<close>

lemma runCall_error:
  assumes "W v w" "mg_depth message \<noteq> 0" "0 \<le> mg_value message" "payable w message" "runCall n H message w = (Inl e, w')"
  shows "thrown e"
  using runCall_runner [of n, unfolded runner_ok_def, rule_format, OF assms(1-3,5)] assms(4) by simp

end

section \<open>Over the simple state manager\<close>

text \<open>A virtual machine that runs on the simple state manager; the rest of the host is free.\<close>

definition simple_host :: "lib \<Rightarrow> (simple_state, 'w) host \<Rightarrow> (simple_state, 'w) host" where
  "simple_host L H = H\<lparr>ho_lib := L, ho_smgr := simple_mgr L,
      ho_getCode := (\<lambda>a m. Inr (ss_getCode L a m, m)),
      ho_getStorage := (\<lambda>a k m. Inr (ss_getStorage L a k m, m)),
      ho_putStorage := ss_putStorage L,
      ho_originalStorage := (\<lambda>a k m. Inr (ss_getOriginal L a k m)),
      ho_modifyAccountFields := ss_modifyAccountFields L,
      ho_clearStorage := (\<lambda>_. Inr), ho_putCode := ss_putCode L\<rparr>"

definition ss_bal :: "lib \<Rightarrow> ss_view \<Rightarrow> u8 list \<Rightarrow> int option" where
  "ss_bal L q a = ac_balance (case Option.bind (fst q (bytesToHex L a)) id of None \<Rightarrow> default_account | Some x \<Rightarrow> x)"

lemma simple_act:
  assumes "ss_inv m" "ss_act L x m = Inr m'"
  shows "ss_inv m' \<and> ss_saved m' = ss_saved m"
  using simple.act_law [OF assms(1), of L x] assms(2) by simp

text \<open>What the writes do to the balances.\<close>

lemma simple_view:
  assumes "ss_inv m" "ss_act L x m = Inr m'"
  shows "ss_aact L x (ss_cur m) = Inr (ss_cur m')"
  using simple.act_law [OF assms(1), of L x] assms(2) by simp

lemma modify_balance: "modify_fields f acc = Inr acc' \<Longrightarrow>
    ac_balance acc' = (case af_balance f of None \<Rightarrow> ac_balance acc | Some x \<Rightarrow> Some x)"
  by (auto simp: modify_fields_def new_or_def loaded_def bindE_eq_Inr split: option.splits)

lemma bytesToHex_inj: "lib_ok L \<Longrightarrow> bytesToHex L a = bytesToHex L b \<longleftrightarrow> a = b"
  by (metis bytesToHex_eq lib_okD(2) sum.inject(2) same_append_eq)

lemma ss_bal_put: "lib_ok L \<Longrightarrow> ss_bal L (A(bytesToHex L a := Some (Some acc)), CS) = (ss_bal L (A, CS'))(a := ac_balance acc)"
  by (auto simp: ss_bal_def bytesToHex_inj fun_eq_iff)

lemma simple_balances:
  assumes "ss_inv m" "lib_ok L"
  shows "ss_putStorage L a k v m = Inr m' \<Longrightarrow> ss_bal L (ss_cur m') = ss_bal L (ss_cur m)"
    and "ss_putCode L a c m = Inr m' \<Longrightarrow> ss_bal L (ss_cur m') = ss_bal L (ss_cur m)"
proof -
  obtain A C S where q: "ss_cur m = (A, C, S)" by (cases "ss_cur m") auto
  show "ss_bal L (ss_cur m') = ss_bal L (ss_cur m)" if "ss_putStorage L a k v m = Inr m'"
    using simple_view [OF assms(1), of L "SsStore a k v" m'] that q
    by (auto simp: ss_act_def ss_aact_def ss_bal_def fun_eq_iff dest!: sym [of "(A, C, S(storage_key L a k \<mapsto> v))"])
  show "ss_bal L (ss_cur m') = ss_bal L (ss_cur m)" if "ss_putCode L a c m = Inr m'"
  proof -
    from simple_view [OF assms(1), of L "SsCode a c" m'] that q obtain acc where
      acc: "ss_cur m' = (A(bytesToHex L a := Some (Some acc)), C(bytesToHex L a := Some c), S)"
        "ac_balance acc = ac_balance (case Option.bind (A (bytesToHex L a)) id of None \<Rightarrow> default_account | Some x \<Rightarrow> x)"
      by (auto simp: ss_act_def ss_aact_def bindE_eq_Inr eq_commute [of _ "ss_cur m'"] dest!: modify_balance)
    then have "ss_bal L (ss_cur m') = (ss_bal L (ss_cur m))(a := ac_balance acc)"
      using q by (simp only: ss_bal_put [OF assms(2), where CS' = "(C, S)"])
    moreover have "ss_bal L (ss_cur m) a = ac_balance acc" using acc(2) q by (simp add: ss_bal_def)
    ultimately show ?thesis by (metis fun_upd_triv)
  qed
qed

lemma simple_fields:
  assumes "ss_inv m" "ss_modifyAccountFields L a f m = Inr m'"
  shows "ss_inv m' \<and> ss_saved m' = ss_saved m
    \<and> (lib_ok L \<longrightarrow> ss_bal L (ss_cur m') =
        (ss_bal L (ss_cur m))(a := (case af_balance f of None \<Rightarrow> ss_bal L (ss_cur m) a | Some x \<Rightarrow> Some x)))"
proof -
  from assms(2) obtain acc where acc: "ss_putAccount L a (Some acc) m = Inr m'"
    "modify_fields f (case ss_getAccount L a m of None \<Rightarrow> default_account | Some x \<Rightarrow> x) = Inr acc"
    by (auto simp: ss_modifyAccountFields_def Let_def bindE_eq_Inr)
  obtain A C S where q: "ss_cur m = (A, C, S)" by (cases "ss_cur m") auto
  have "ss_getAccount L a m = Option.bind (A (bytesToHex L a)) id"
    using q by (simp add: ss_getAccount_def ss_cur_def)
  then have "ac_balance acc = (case af_balance f of None \<Rightarrow> ss_bal L (ss_cur m) a | Some x \<Rightarrow> Some x)"
    using modify_balance [OF acc(2)] q unfolding ss_bal_def
    by (cases "af_balance f") simp_all
  moreover have "ss_cur m' = (A(bytesToHex L a := Some (Some acc)), C, S)"
    using simple_view [OF assms(1), of L "SsPut a (Some acc)" m'] acc(1) q by (simp add: ss_act_def ss_aact_def)
  ultimately show ?thesis
    using simple_act [OF assms(1), of L "SsPut a (Some acc)"] acc(1) q
    by (simp add: ss_act_def ss_bal_put [where CS' = "(C, S)"])
qed

lemma simple_original:
  assumes "ss_inv m" "ss_getOriginal L a k m = (c, m')"
  shows "ss_inv m' \<and> ss_cur m' = ss_cur m \<and> ss_saved m' = ss_saved m"
  using assms by (auto simp: ss_getOriginal_def Let_def ss_inv_def ss_cur_def ss_saved_def split: prod.splits)

lemma harmless_simple: "harmless (ss_putAccount L a acc m)" "harmless (ss_putCode L a c m)"
proof -
  have p: "harmless (ss_putAccount L a acc m)" for acc m
    unfolding ss_putAccount_def set_top_def by (intro harmless)
  have "harmless (modify_fields f acc)" for f acc
    unfolding modify_fields_def new_or_def by (intro harmless harmless_loaded)
  then show "harmless (ss_putAccount L a acc m)" "harmless (ss_putCode L a c m)"
    unfolding ss_putCode_def ss_modifyAccountFields_def set_top_def Let_def by (intro harmless p)+
qed

lemma calm_simple: "ss_putAccount L a acc m \<noteq> Inl (EvmTrap x)" "ss_putCode L a c m \<noteq> Inl (EvmTrap x)"
  by (rule harmless_calm, rule harmless_simple)+

lemma simple_host_sel: "ho_hardfork (simple_host L H) = ho_hardfork H" "ho_eip (simple_host L H) = ho_eip H"
  by (simp_all add: simple_host_def)

text \<open>No balance is negative, now or in a saved view.\<close>

definition funded_world :: "lib \<Rightarrow> (simple_state, 'w) world \<Rightarrow> bool" where
  "funded_world L w \<longleftrightarrow> funded (ss_bal L) (ss_cur (jn_sm (wd_journal w)))
     \<and> (\<forall>x \<in> set (jn_saved ss_saved (wd_journal w)). funded (ss_bal L) (snd x))"

locale simple_evm =
  fixes L :: lib and H :: "(simple_state, 'w) host"
  assumes codec: "lib_ok L" and own_errors: "nobleH2B L s \<noteq> Inl (EvmTrap x)"
    and after_frontier: "ho_hardfork H \<noteq> ''chainstart''"

sublocale simple_evm \<subseteq> evm: evm_state ss_inv ss_cur ss_saved "simple_mgr L" "\<lambda>x. ss_aact L (ss_of_sm x)" L
    "simple_host L H" "ss_bal L"
proof (unfold_locales, goal_cases)
  case (3 m a acc m')
  then show ?case
    by (auto simp: simple_mgr_def ss_getAccount_def ss_bal_def ss_cur_def)
next
  case (7 m a k v m')
  then show ?case using simple_act [of m L "SsStore a k v" m'] simple_balances(1) [of m L a k v m'] codec
    by (simp add: simple_host_def ss_act_def)
next
  case (9 m a c m')
  then show ?case using simple_act [of m L "SsCode a c" m'] simple_balances(2) [of m L a c m'] codec
    by (simp add: simple_host_def ss_act_def)
next
  case (11 a con q q' b)
  then show ?case using codec by (cases q) (auto simp: ss_aact_def ss_bal_def bytesToHex_inj)
qed (use codec own_errors after_frontier in \<open>auto simp: simple_host_def simple_mgr_def thrown_def calm_simple
  dest: simple_original simple_fields\<close>)

context simple_evm begin

lemma simple_runCall:
  assumes "evm.W v w" "0 \<le> mg_value message"
  shows "mg_depth message = 0 \<longrightarrow> ts_journal (wd_transient w) = [] \<and> ts_storage (wd_transient w) = (\<lambda>_. None) \<Longrightarrow>
      runCall n (simple_host L H) message w = (Inr res, w') \<Longrightarrow>
      \<exists>m w1. begin_call (simple_host L H) message w = (Inr m, w1) \<and> evm.W v w' \<and> (er_exceptionError (ev_exec res) \<noteq> None \<longrightarrow>
        jn_cur ss_cur (wd_journal w') = jn_cur ss_cur (wd_journal w1)
        \<and> (ho_eip H 1153 \<longrightarrow> ts_look (wd_transient w') = ts_look (wd_transient w1)))"
    and "runCall n (simple_host L H) message w = (Inr res, w') \<Longrightarrow> mg_depth message \<noteq> 0 \<Longrightarrow>
      er_exceptionError (ev_exec res) \<noteq> None \<Longrightarrow> ss_cur (jn_sm (wd_journal w')) = ss_cur (jn_sm (wd_journal w))"
    and "runCall n (simple_host L H) message w = (Inl e, w') \<Longrightarrow> mg_depth message \<noteq> 0 \<Longrightarrow> evm.payable w message \<Longrightarrow>
      thrown e"
  using evm.runCall_ok [OF assms] evm.runCall_error [OF assms(1) _ assms(2)]
    evm.runCall_runner [of n, unfolded evm.runner_ok_def, rule_format, OF assms(1) _ assms(2)]
  by (auto simp: simple_host_sel)

lemma simple_world: "evm.W (world_saved ss_saved w) w \<longleftrightarrow> world_ok ss_inv ss_saved w \<and> funded_world L w"
  by (auto simp: world_at_def funded_world_def world_saved_def)

lemma payable_simple: "evm.payable w message \<longleftrightarrow> (mg_to message = None \<longrightarrow>
    (\<forall>b. ss_bal L (ss_cur (jn_sm (wd_journal w))) (mg_caller message) = Some b \<longrightarrow> mg_value message \<le> b))"
  by (simp add: evm.payable_def)

text \<open>A creation whose sender cannot pay, which \<open>runCall\<close> does not catch.\<close>

lemma simple_unpaid:
  assumes "evm.W v w" "\<not> stateless H" "mg_to message = None"
    and "begin_call (simple_host L H) message w = (Inr m, w1)"
    and "ss_bal L (ss_cur (jn_sm (wd_journal w1))) (mg_caller message) = Some b" "b < mg_value message"
  shows "\<exists>w'. runCall (Suc n) (simple_host L H) message w = (Inl (EvmTrap ''insufficient balance''), w')
    \<and> jn_saved ss_saved (wd_journal w') = jn_cur ss_cur (wd_journal w1) # fst v"
proof -
  have "evm.W v w1" using hoare_Inr [OF evm.calls.begin_settled [unfolded evm.calls.settled_def] assms(1,4)] .
  from evm.calls.open_call_ok [OF this] obtain w2 where
    o: "evm.calls.open_call w1 = (Inr (), w2)" "evm.W (evm.calls.opened w1 v) w2"
      "ss_cur (jn_sm (wd_journal w2)) = ss_cur (jn_sm (wd_journal w1))" by blast
  note m = evm.calls.begin_fields [OF assms(4)]
  obtain acc where acc: "w_account (simple_host L H) (mg_caller m) w2 = (Inr acc, w2)" "ac_balance acc = Some b"
    using assms(5) o(3) m
    by (auto simp: w_account_def w_mgr_def bindS_def retS_def simple_host_def simple_mgr_def ss_bal_def ss_cur_def
        ss_getAccount_def)
  have "executeCreate (n + 2) (simple_host L H) rc m w2 = (Inl (EvmTrap ''insufficient balance''), w2)" for rc
    using acc assms(2,6) m
    by (simp add: executeCreate_def bindS_def whenS_def retS_def Let_def reduceSenderBalance_def loaded_def liftS_def
        failS_def simple_host_def)
  moreover have "jn_saved ss_saved (wd_journal w2) = jn_cur ss_cur (wd_journal w1) # fst v"
    using o(2) by (auto simp: world_at_def world_saved_def evm.calls.opened_def)
  ultimately show ?thesis
    using o assms(3,4) m by (simp add: evm.calls.run_message_steps bindS_def)
qed

end

lemma ref_lib_errors: "nobleH2B ref_lib s \<noteq> Inl (EvmTrap x)"
proof -
  have "harmless (rlp_hex_pairs h)" for h
    by (induction h rule: rlp_hex_pairs.induct) (auto intro!: harmless simp: option.case_eq_if)
  then have "harmless (rlp_hexToBytes s)" unfolding rlp_hexToBytes_def Let_def by (intro harmless)
  then show ?thesis by (auto simp: ref_lib_def harmless_def)
qed

interpretation ref_evm: simple_evm ref_lib ref_host
  by unfold_locales (simp_all add: ref_lib_errors)

section \<open>Properties\<close>

text \<open>C1. Message calls are transactions. Whatever the code does, and however deep its own calls and
  creates nest, a message call that returns has closed exactly the checkpoint it opened: the open
  checkpoints of the journal, of the state and of transient storage are those from before. If its
  result has an exception, the warm and touched addresses, the state and transient storage are those
  after the preparation that precedes its checkpoint (\<open>begin_call\<close>: the nonce of a transaction's
  sender, the warm address of a new contract), and for an inner call the state is that from before.
  No balance becomes negative. The host's rules are free, from Homestead on; the state manager is the
  simple one, with no negative balance before the call. At depth 0 transient storage has to start empty, as it
  does for a new transaction.\<close>

theorem message_calls_atomic:
  assumes "lib_ok L" "\<forall>s x. nobleH2B L s \<noteq> Inl (EvmTrap x)" "ho_hardfork H \<noteq> ''chainstart''"
    and "world_ok ss_inv ss_saved w" "funded_world L w" "0 \<le> mg_value message"
    and "mg_depth message = 0 \<longrightarrow> ts_journal (wd_transient w) = [] \<and> ts_storage (wd_transient w) = (\<lambda>_. None)"
    and "runCall n (simple_host L H) message w = (Inr res, w')"
  shows "world_ok ss_inv ss_saved w' \<and> funded_world L w' \<and> world_saved ss_saved w' = world_saved ss_saved w
    \<and> (er_exceptionError (ev_exec res) \<noteq> None \<longrightarrow>
        (\<exists>m w1. begin_call (simple_host L H) message w = (Inr m, w1)
          \<and> jn_cur ss_cur (wd_journal w') = jn_cur ss_cur (wd_journal w1)
          \<and> (ho_eip H 1153 \<longrightarrow> ts_look (wd_transient w') = ts_look (wd_transient w1)))
        \<and> (mg_depth message \<noteq> 0 \<longrightarrow> ss_cur (jn_sm (wd_journal w')) = ss_cur (jn_sm (wd_journal w))))"
proof -
  have E: "simple_evm L H" using assms(1-3) by (simp add: simple_evm_def)
  note world = simple_evm.simple_world [OF E]
  have W: "world_at ss_inv ss_cur ss_saved (ss_bal L) (world_saved ss_saved w) w" using assms(4,5) by (simp add: world)
  from simple_evm.simple_runCall(1) [OF E W assms(6-8)] obtain m w1 where
    r: "begin_call (simple_host L H) message w = (Inr m, w1)"
      "world_at ss_inv ss_cur ss_saved (ss_bal L) (world_saved ss_saved w) w'"
      "er_exceptionError (ev_exec res) \<noteq> None \<longrightarrow> jn_cur ss_cur (wd_journal w') = jn_cur ss_cur (wd_journal w1)
        \<and> (ho_eip H 1153 \<longrightarrow> ts_look (wd_transient w') = ts_look (wd_transient w1))" by blast
  moreover have "world_saved ss_saved w' = world_saved ss_saved w" using r(2) by (simp add: world_at_def)
  ultimately show ?thesis
    using world [of w'] simple_evm.simple_runCall(2) [OF E W assms(6,8)] by auto
qed

definition atomic_message :: message where
  "atomic_message = default_message\<lparr>mg_to := Some (replicate 20 1), mg_value := 5, mg_depth := 1, mg_code := Some (Bytecode [])\<rparr>"

definition ref_world :: "(simple_state, unit) world" where
  "ref_world = \<lparr>wd_journal = jn_new ss_new, wd_transient = ts_new, wd_witness = ()\<rparr>"

lemma atomic_call: "\<exists>res w'. runCall 1 (simple_host ref_lib ref_host) atomic_message ref_world = (Inr res, w')
    \<and> er_exceptionError (ev_exec res) = Some ''insufficient balance''"
  by (simp add: run_message_def begin_call_def bindS_def retS_def whenS_def atomic_message_def default_message_def
      w_journal_def w_transient_def simple_host_def executeCall_def w_account_def w_mgr_def tryW_def
      reduceSenderBalance_def loaded_def liftS_def failS_def simple_mgr_def ref_world_def Let_def jn_checkpoint_def
      ts_checkpoint_def jn_new_def jn_cleanJournal_def ss_new_def ss_checkpoint_def ss_getAccount_def top_def
      default_account_def error_name_def ref_host_def addToBalance_def MAX_INTEGER_BIGINT_def w_putAccount_def
      jn_putAccount_def jn_touchAddress_def jn_touchAccount_def ss_putAccount_def set_top_def call_code_def loadCode_def
      plain_result_def settle_result_def set_exec_def finish_call_def failed_def jn_revert_def ss_revert_def
      ts_revert_def ts_new_def w_commit_def w_witness_def ref_witness_ops_def split: prod.split)

lemma world_ok_ref: "world_ok ss_inv ss_saved ref_world"
  by (simp add: world_ok_def ref_world_def jn_inv_def jn_new_def jn_cleanJournal_def ss_inv_def ss_new_def
      ss_checkpoint_def ss_saved_def ts_inv_def ts_new_def)

lemma funded_ref: "funded_world ref_lib ref_world"
  by (auto simp: funded_world_def ref_world_def jn_new_def jn_cleanJournal_def ss_new_def ss_checkpoint_def
      ss_saved_def jn_saved_def funded_def ss_bal_def ss_cur_def top_def default_account_def)

theorem message_calls_atomic_witness:
  "\<exists>res w'. runCall 1 (simple_host ref_lib ref_host) atomic_message ref_world = (Inr res, w')
    \<and> er_exceptionError (ev_exec res) = Some ''insufficient balance''
    \<and> world_saved ss_saved w' = world_saved ss_saved ref_world
    \<and> ss_cur (jn_sm (wd_journal w')) = ss_cur (jn_sm (wd_journal ref_world))"
proof -
  from atomic_call obtain res w' where
    r: "runCall 1 (simple_host ref_lib ref_host) atomic_message ref_world = (Inr res, w')"
      "er_exceptionError (ev_exec res) = Some ''insufficient balance''" by blast
  from message_calls_atomic [OF lib_ok_ref _ _ world_ok_ref funded_ref _ _ r(1)] r(2) have
    "world_saved ss_saved w' = world_saved ss_saved ref_world
      \<and> ss_cur (jn_sm (wd_journal w')) = ss_cur (jn_sm (wd_journal ref_world))"
    by (simp add: ref_lib_errors atomic_message_def default_message_def)
  with r show ?thesis by blast
qed

text \<open>C18. Errors of inner calls stay inside. An inner message call, or a create whose sender can pay
  for it, never ends with an error of the virtual machine: those become results with an exception.
  The interpreter of the caller therefore never takes a callee's error for its own.\<close>

theorem inner_errors_contained:
  assumes "lib_ok L" "\<forall>s x. nobleH2B L s \<noteq> Inl (EvmTrap x)" "ho_hardfork H \<noteq> ''chainstart''"
    and "world_ok ss_inv ss_saved w" "funded_world L w" "0 \<le> mg_value message" "mg_depth message \<noteq> 0"
    and "mg_to message = None \<longrightarrow>
      (\<forall>b. ss_bal L (ss_cur (jn_sm (wd_journal w))) (mg_caller message) = Some b \<longrightarrow> mg_value message \<le> b)"
  shows "fst (runCall n (simple_host L H) message w) \<noteq> Inl (EvmTrap err)"
proof
  assume "fst (runCall n (simple_host L H) message w) = Inl (EvmTrap err)"
  then obtain w' where r: "runCall n (simple_host L H) message w = (Inl (EvmTrap err), w')" by (metis prod.collapse)
  have E: "simple_evm L H" using assms(1-3) by (simp add: simple_evm_def)
  have W: "world_at ss_inv ss_cur ss_saved (ss_bal L) (world_saved ss_saved w) w"
    using assms(4,5) by (simp add: simple_evm.simple_world [OF E])
  show False
    using simple_evm.simple_runCall(3) [OF E W assms(6) r assms(7)] assms(8) by (simp add: simple_evm.payable_simple [OF E])
qed

theorem inner_errors_contained_witness:
  "fst (runCall 1 (simple_host ref_lib ref_host) atomic_message ref_world) \<noteq> Inl (EvmTrap ''revert'')"
  by (rule inner_errors_contained) (simp_all add: ref_lib_errors world_ok_ref funded_ref, simp_all add: atomic_message_def default_message_def)

text \<open>C40. The condition on creates is needed. A creation whose sender cannot pay the value does not
  return a result: \<open>runCall\<close> throws the error of the virtual machine, and the checkpoint it opened
  is still open, with the contents from before the creation. A failed transfer of a call, in contrast, is
  caught.\<close>

theorem unpaid_create_escapes:
  assumes "lib_ok L" "\<forall>s x. nobleH2B L s \<noteq> Inl (EvmTrap x)" "ho_hardfork H \<noteq> ''chainstart''"
    and "world_ok ss_inv ss_saved w" "funded_world L w" "\<not> stateless H" "mg_to message = None"
    and "begin_call (simple_host L H) message w = (Inr m, w1)"
    and "ss_bal L (ss_cur (jn_sm (wd_journal w1))) (mg_caller message) = Some b" "b < mg_value message"
  shows "\<exists>w'. runCall (Suc n) (simple_host L H) message w = (Inl (EvmTrap ''insufficient balance''), w')
    \<and> jn_saved ss_saved (wd_journal w') = jn_cur ss_cur (wd_journal w1) # jn_saved ss_saved (wd_journal w)"
proof -
  have E: "simple_evm L H" using assms(1-3) by (simp add: simple_evm_def)
  have W: "world_at ss_inv ss_cur ss_saved (ss_bal L) (world_saved ss_saved w) w"
    using assms(4,5) by (simp add: simple_evm.simple_world [OF E])
  from simple_evm.simple_unpaid [OF E W assms(6-10)] show ?thesis by (simp add: world_saved_def)
qed

definition early_host :: "(simple_state, unit) host" where
  "early_host = ref_host\<lparr>ho_eip := (\<lambda>_. False), ho_hardfork := ''byzantium''\<rparr>"

theorem unpaid_create_escapes_witness:
  "fst (runCall 1 (simple_host ref_lib early_host) (default_message\<lparr>mg_value := 5, mg_depth := 1\<rparr>) ref_world)
    = Inl (EvmTrap ''insufficient balance'')"
proof -
  let ?m = "default_message\<lparr>mg_value := 5, mg_depth := 1\<rparr>"
  have b: "begin_call (simple_host ref_lib early_host) ?m ref_world = (Inr ?m, ref_world)"
    by (simp add: begin_call_def bindS_def whenS_def retS_def simple_host_def early_host_def)
  have "ss_bal ref_lib (ss_cur (jn_sm (wd_journal ref_world))) (mg_caller ?m) = Some 0"
    by (simp add: ss_bal_def ref_world_def jn_new_def jn_cleanJournal_def ss_cur_def ss_new_def ss_checkpoint_def top_def
        default_account_def)
  from unpaid_create_escapes [OF lib_ok_ref _ _ world_ok_ref funded_ref _ _ b this, of 0] obtain w' where
    "runCall (Suc 0) (simple_host ref_lib early_host) ?m ref_world = (Inl (EvmTrap ''insufficient balance''), w')"
    by (auto simp: ref_lib_errors early_host_def default_message_def)
  then show ?thesis by simp
qed

end
