(* ===== verification/MptTree.thy ===== *)
theory MptTree
  imports MptNode
begin

text \<open>
  The trie as a tree: what \<open>Mpt\<close> keeps in a database under hashes. A \<open>ptree\<close> holds values at paths;
  \<open>tree_ins\<close> and \<open>tree_del\<close> are insertion and deletion, \<open>dnode\<close> the item a tree is stored as and \<open>link\<close> the
  reference a parent holds of it, the item itself or its hash. A well-formed tree has no extension
  under an extension and no branch that could be left out. The theorem of this theory is that such a
  tree is determined by its contents, so that its root hash is.
\<close>

section \<open>Trees\<close>

datatype ptree = PLeaf nibbles "u8 list" | PExt nibbles ptree | PBranch "ptree option list" "u8 list option"

fun tree_lookup :: "ptree \<Rightarrow> nibbles \<Rightarrow> u8 list option" where
  "tree_lookup (PLeaf k v) p = (if p = k then Some v else None)"
| "tree_lookup (PExt k t) p = (if take (length k) p = k then tree_lookup t (drop (length k) p) else None)"
| "tree_lookup (PBranch ts v) [] = v"
| "tree_lookup (PBranch ts v) (x # p) = (case ts ! x of None \<Rightarrow> None | Some t \<Rightarrow> tree_lookup t p)"

text \<open>Two paths that part: the old contents under the rest of the one, the new value at the rest of the other.\<close>

fun attach :: "nibbles \<Rightarrow> (nibbles \<Rightarrow> ptree) \<Rightarrow> u8 list option \<Rightarrow> ptree option list \<times> u8 list option
    \<Rightarrow> ptree option list \<times> u8 list option" where
  "attach [] f w (ts, v) = (ts, w)"
| "attach (x # q) f w (ts, v) = (ts[x := Some (f q)], v)"

definition extend :: "nibbles \<Rightarrow> ptree \<Rightarrow> ptree" where
  "extend k t = (if k = [] then t else PExt k t)"

definition fork :: "nibbles \<Rightarrow> (nibbles \<Rightarrow> ptree) \<Rightarrow> u8 list option \<Rightarrow> nibbles \<Rightarrow> u8 list \<Rightarrow> ptree" where
  "fork k f w p v =
     (let m = matchingNibbleLength k p;
          (ts, x) = attach (drop m p) (\<lambda>q. PLeaf q v) (Some v) (attach (drop m k) f w (replicate 16 None, None)) in
      extend (take m k) (PBranch ts x))"

fun tree_ins :: "ptree \<Rightarrow> nibbles \<Rightarrow> u8 list \<Rightarrow> ptree" where
  "tree_ins (PLeaf k w) p v = (if k = p then PLeaf k v else fork k (\<lambda>q. PLeaf q w) (Some w) p v)"
| "tree_ins (PExt k t) p v =
     (if take (length k) p = k then PExt k (tree_ins t (drop (length k) p) v)
      else fork k (\<lambda>q. extend q t) None p v)"
| "tree_ins (PBranch ts w) [] v = PBranch ts (Some v)"
| "tree_ins (PBranch ts w) (x # p) v =
     PBranch (ts[x := Some (case ts ! x of None \<Rightarrow> PLeaf p v | Some t \<Rightarrow> tree_ins t p v)]) w"

text \<open>A tree below a path, with the path joined to the tree's own.\<close>

fun join :: "nibbles \<Rightarrow> ptree \<Rightarrow> ptree" where
  "join k (PLeaf q v) = PLeaf (k @ q) v"
| "join k (PExt q t) = PExt (k @ q) t"
| "join k (PBranch ts v) = PExt k (PBranch ts v)"

definition children :: "ptree option list \<Rightarrow> (nat \<times> ptree) list" where
  "children ts = map (\<lambda>(i, t). (i, the t)) (filter (\<lambda>(i, t). t \<noteq> None) (enumerate 0 ts))"

definition shrink :: "ptree option list \<Rightarrow> u8 list option \<Rightarrow> ptree" where
  "shrink ts v = (case children ts of [(i, t)] \<Rightarrow> join [i] t | _ \<Rightarrow> PBranch ts v)"

fun tree_del :: "ptree \<Rightarrow> nibbles \<Rightarrow> ptree option" where
  "tree_del (PLeaf k w) p = None"
| "tree_del (PExt k t) p = map_option (join k) (tree_del t (drop (length k) p))"
| "tree_del (PBranch ts v) [] = Some (PBranch ts v)"
| "tree_del (PBranch ts v) (x # p) =
     (case ts ! x of None \<Rightarrow> Some (PBranch ts v)
      | Some t \<Rightarrow> (case tree_del t p of
            Some t' \<Rightarrow> Some (PBranch (ts[x := Some t']) v)
          | None \<Rightarrow> Some (shrink (ts[x := None]) v)))"

section \<open>Well-formed trees\<close>

definition is_branch :: "ptree \<Rightarrow> bool" where
  "is_branch t = (case t of PBranch _ _ \<Rightarrow> True | _ \<Rightarrow> False)"

lemma is_branch_simps [simp]: "is_branch (PBranch ts v)" "\<not> is_branch (PLeaf k w)" "\<not> is_branch (PExt k t)"
  by (simp_all add: is_branch_def)

definition weight :: "ptree option list \<Rightarrow> u8 list option \<Rightarrow> nat" where
  "weight ts v = length (filter (\<lambda>x. x \<noteq> None) ts) + (if v = None then 0 else 1)"

text \<open>The bounds keep every encoding below the limit of RLP.\<close>

abbreviation small :: "'a list \<Rightarrow> bool" where
  "small xs \<equiv> length xs < 2 ^ 32"

primrec wf_tree :: "ptree \<Rightarrow> bool" where
  "wf_tree (PLeaf k v) \<longleftrightarrow> nibs k \<and> small k \<and> v \<noteq> [] \<and> small v"
| "wf_tree (PExt k t) \<longleftrightarrow> nibs k \<and> small k \<and> k \<noteq> [] \<and> is_branch t \<and> wf_tree t"
| "wf_tree (PBranch ts v) \<longleftrightarrow> length ts = 16 \<and> list_all (\<lambda>b. b \<noteq> Some False) (map (map_option wf_tree) ts)
     \<and> v \<noteq> Some [] \<and> (\<forall>w. v = Some w \<longrightarrow> small w) \<and> 2 \<le> weight ts v"

lemma wf_branch: "wf_tree (PBranch ts v) \<longleftrightarrow> length ts = 16 \<and> (\<forall>i t. i < 16 \<longrightarrow> ts ! i = Some t \<longrightarrow> wf_tree t)
     \<and> v \<noteq> Some [] \<and> (\<forall>w. v = Some w \<longrightarrow> small w) \<and> 2 \<le> weight ts v"
  by (auto simp: list_all_length map_option_case split: option.splits)

declare wf_tree.simps(3) [simp del] wf_branch [simp]

lemma weight_pos: "0 < length (filter (\<lambda>x. x \<noteq> None) ts) \<longleftrightarrow> (\<exists>i < length ts. ts ! i \<noteq> None)"
  unfolding length_greater_0_conv filter_empty_conv by (auto simp del: not_None_eq simp: in_set_conv_nth Bex_def)

text \<open>Counting through an update of one slot.\<close>

lemma weight_upd: "i < length ts \<Longrightarrow>
    weight (ts[i := x]) v + (if ts ! i = None then 0 else 1) = weight ts v + (if x = None then 0 else 1)"
proof (induction ts arbitrary: i)
  case (Cons t ts)
  show ?case
  proof (cases i)
    case (Suc j)
    with Cons.prems Cons.IH [of j] show ?thesis by (auto simp: weight_def simp del: not_None_eq)
  qed (simp add: weight_def)
qed simp

lemma weight_value: "weight ts (Some v) = weight ts None + 1" "weight ts u \<le> weight ts (Some w)"
  by (simp_all add: weight_def)

lemma weight_empty [simp]: "weight (replicate n None) None = 0"
  by (simp add: weight_def)

lemma weight_two: "2 \<le> weight ts v \<Longrightarrow> \<exists>i < length ts. ts ! i \<noteq> None \<and> (v \<noteq> None \<or> i \<noteq> x)"
proof -
  assume w: "2 \<le> weight ts v"
  show ?thesis
  proof (cases "v = None")
    case False
    with w have "0 < length (filter (\<lambda>x. x \<noteq> None) ts)" by (simp only: weight_def if_False)
    then show ?thesis using False unfolding weight_pos by blast
  next
    case True
    show ?thesis
    proof (cases "x < length ts")
      case False
      have "weight ts v = length (filter (\<lambda>x. x \<noteq> None) ts)" using True by (simp add: weight_def)
      with w have "0 < length (filter (\<lambda>x. x \<noteq> None) ts)" by linarith
      then show ?thesis using False unfolding weight_pos by blast
    next
      case x: True
      have "1 \<le> weight (ts[x := None]) v" using weight_upd [OF x, of None v] w by (simp split: if_splits)
      moreover have "weight (ts[x := None]) v = length (filter (\<lambda>y. y \<noteq> None) (ts[x := None]))"
        using True by (simp add: weight_def)
      ultimately have "0 < length (filter (\<lambda>y. y \<noteq> None) (ts[x := None]))" by linarith
      then obtain i where "i < length ts" "ts[x := None] ! i \<noteq> None" unfolding weight_pos by auto
      then show ?thesis by (cases "i = x") (auto intro!: exI [of _ i])
    qed
  qed
qed

section \<open>Contents\<close>

lemma wf_some: "wf_tree t \<Longrightarrow> \<exists>q v. nibs q \<and> tree_lookup t q = Some v"
proof (induction t)
  case (PExt k t)
  then obtain q v where "nibs q" "tree_lookup t q = Some v" by auto
  with PExt.prems show ?case by (intro exI [of _ "k @ q"] exI [of _ v]) simp
next
  case (PBranch ts v)
  then obtain i where i: "i < 16" "ts ! i \<noteq> None" using weight_two [of ts v 0] unfolding wf_branch by metis
  then obtain t where t: "ts ! i = Some t" by auto
  with i PBranch.prems have "wf_tree t" "Some t \<in> set ts" by (auto simp: in_set_conv_nth)
  with PBranch.IH [of "Some t"] obtain q w where "nibs q" "tree_lookup t q = Some w" by auto
  with i t show ?case by (intro exI [of _ "i # q"] exI [of _ w]) simp
qed auto

text \<open>The keys of a branch do not agree in their first nibble, and one of them has a first nibble.\<close>

lemma branch_keys:
  assumes "wf_tree (PBranch ts v)"
  shows "\<exists>q w. nibs q \<and> tree_lookup (PBranch ts v) q = Some w \<and> (q = [] \<or> hd q \<noteq> x)"
    and "\<exists>q w. nibs q \<and> tree_lookup (PBranch ts v) q = Some w \<and> q \<noteq> []"
proof -
  have child: "\<exists>q w. nibs (i # q) \<and> tree_lookup (PBranch ts v) (i # q) = Some w" if i: "i < 16" "ts ! i \<noteq> None" for i
  proof -
    obtain t where "ts ! i = Some t" using i by auto
    with assms i wf_some [of t] show ?thesis by auto
  qed
  obtain i where i: "i < 16" "ts ! i \<noteq> None" "v \<noteq> None \<or> i \<noteq> x"
    using assms weight_two [of ts v x] by auto
  then show "\<exists>q w. nibs q \<and> tree_lookup (PBranch ts v) q = Some w \<and> q \<noteq> []" using child by blast
  show "\<exists>q w. nibs q \<and> tree_lookup (PBranch ts v) q = Some w \<and> (q = [] \<or> hd q \<noteq> x)"
  proof (cases "v = None")
    case True
    with i child [of i] show ?thesis by (metis list.sel(1))
  next
    case False
    then show ?thesis by (intro exI [of _ "[]"] exI [of _ "the v"]) auto
  qed
qed

lemma ext_keys: "tree_lookup (PExt k t) q = Some w \<Longrightarrow> \<exists>r. q = k @ r \<and> tree_lookup t r = Some w"
  by (metis append_take_drop_id option.discI tree_lookup.simps(2))

text \<open>A tree that is no leaf has two keys.\<close>

lemma two_keys:
  assumes "wf_tree t" "\<And>k v. t \<noteq> PLeaf k v"
  shows "\<exists>q w. nibs q \<and> tree_lookup t q = Some w \<and> q \<noteq> p"
proof -
  have br: "\<exists>q w. nibs q \<and> tree_lookup (PBranch ts v) q = Some w \<and> q \<noteq> p" if "wf_tree (PBranch ts v)" for ts v p
    using branch_keys(1) [OF that, of "hd p"] branch_keys(2) [OF that] by (cases p) fastforce+
  show ?thesis
  proof (cases t)
    case (PExt k s)
    with assms(1) obtain ts v where s: "s = PBranch ts v" "wf_tree s" by (cases s) auto
    from br [of ts v "drop (length k) p"] s obtain q w where
      "nibs q" "tree_lookup s q = Some w" "q \<noteq> drop (length k) p" by blast
    with PExt assms(1) show ?thesis by (intro exI [of _ "k @ q"] exI [of _ w]) auto
  qed (use assms br in auto)
qed

lemma same_ext:
  assumes "wf_tree (PExt k t)" "wf_tree (PExt k' t')"
    and "\<And>q. nibs q \<Longrightarrow> tree_lookup (PExt k t) q = tree_lookup (PExt k' t') q" "length k \<le> length k'"
  shows "k = k'"
proof -
  obtain ts v where t: "t = PBranch ts v" "wf_tree t" using assms(1) by (cases t) auto
  have pre: "take (length k') (k @ q) = k'" if "nibs q" "tree_lookup t q = Some w" for q w
    using assms(1) assms(3) [of "k @ q"] that by (auto split: if_splits)
  have k': "k' = k @ drop (length k) k'"
  proof -
    from branch_keys(1) [of ts v 0] t obtain q w where "nibs q" "tree_lookup t q = Some w" by blast
    from arg_cong [OF pre [OF this], of "take (length k)"] assms(4) have "take (length k) k' = k" by simp
    then show ?thesis by (metis append_take_drop_id)
  qed
  show ?thesis
  proof (cases "drop (length k) k'")
    case Nil
    with k' show ?thesis by simp
  next
    case (Cons x r)
    from branch_keys(1) [of ts v x] t obtain q w where q: "nibs q" "tree_lookup t q = Some w" "q = [] \<or> hd q \<noteq> x" by blast
    have "k' = k @ x # r" using k' Cons by simp
    with pre [OF q(1,2)] have "take (length (x # r)) q = x # r" by simp
    with q(3) show ?thesis by (cases q) auto
  qed
qed

text \<open>A well-formed tree is determined by its contents.\<close>

theorem tree_unique:
  assumes "wf_tree t" "wf_tree t'" "\<And>q. nibs q \<Longrightarrow> tree_lookup t q = tree_lookup t' q"
  shows "t = t'"
  using assms
proof (induction t arbitrary: t')
  case (PLeaf k v)
  show ?case
  proof (cases t')
    case (PLeaf k' v')
    with PLeaf.prems(1) PLeaf.prems(3) [of k] show ?thesis by (simp split: if_splits)
  next
    case (PExt k' s)
    with two_keys [OF PLeaf.prems(2), of k] PLeaf.prems(3) show ?thesis by (metis option.discI ptree.distinct(1) tree_lookup.simps(1))
  next
    case (PBranch ts v)
    with two_keys [OF PLeaf.prems(2), of k] PLeaf.prems(3) show ?thesis by (metis option.discI ptree.distinct(3) tree_lookup.simps(1))
  qed
next
  case (PExt k t)
  show ?case
  proof (cases t')
    case (PLeaf k' v)
    with two_keys [OF PExt.prems(1), of k'] PExt.prems(3) show ?thesis by (metis option.discI ptree.distinct(1) tree_lookup.simps(1))
  next
    case (PExt k' s)
    have "k = k'"
      using same_ext [of k t k' s] same_ext [of k' s k t] PExt.prems PExt by (metis nat_le_linear)
    have "t = s"
    proof (rule PExt.IH)
      fix q assume "nibs q"
      with PExt.prems(1) PExt.prems(3) [of "k @ q"] PExt \<open>k = k'\<close> show "tree_lookup t q = tree_lookup s q" by simp
    qed (use PExt.prems PExt in auto)
    with \<open>k = k'\<close> PExt show ?thesis by simp
  next
    case (PBranch ts v)
    from branch_keys(1) [of ts v "hd k"] PExt.prems(2) PBranch obtain q w where
      q: "nibs q" "tree_lookup t' q = Some w" "q = [] \<or> hd q \<noteq> hd k" by blast
    then have "tree_lookup (PExt k t) q = Some w" using PExt.prems(3) [OF q(1)] by (simp only:)
    from ext_keys [OF this] q(3) PExt.prems(1) show ?thesis by (cases k) auto
  qed
next
  case (PBranch ts v)
  show ?case
  proof (cases t')
    case (PLeaf k' v')
    with two_keys [OF PBranch.prems(1), of k'] PBranch.prems(3) show ?thesis by (metis option.discI ptree.distinct(3) tree_lookup.simps(1))
  next
    case (PExt k s)
    from branch_keys(1) [OF PBranch.prems(1), of "hd k"] obtain q w where
      q: "nibs q" "tree_lookup (PBranch ts v) q = Some w" "q = [] \<or> hd q \<noteq> hd k" by blast
    then have "tree_lookup (PExt k s) q = Some w" using PBranch.prems(3) [OF q(1)] PExt by (simp only:)
    from ext_keys [OF this] q(3) PBranch.prems(2) PExt show ?thesis by (cases k) auto
  next
    case t': (PBranch ts' v')
    have "ts ! i = ts' ! i" if "i < 16" for i
    proof -
      have look: "tree_lookup (PBranch ts v) (i # q) = tree_lookup (PBranch ts' v') (i # q)" if "nibs q" for q
        using PBranch.prems(3) [of "i # q"] t' that \<open>i < 16\<close> by simp
      have some: "\<exists>q. nibs q \<and> tree_lookup t q \<noteq> None" if "us ! i = Some t" "wf_tree (PBranch us u)" for us u t
        using wf_some [of t] that \<open>i < 16\<close> by auto
      show ?thesis
      proof (cases "ts ! i"; cases "ts' ! i")
        fix s s' assume s: "ts ! i = Some s" "ts' ! i = Some s'"
        have "s = s'"
        proof (rule PBranch.IH [of "Some s"])
          show "Some s \<in> set ts" using s(1) that PBranch.prems(1) by (auto simp: in_set_conv_nth)
        qed (use s that PBranch.prems t' look in auto)
        with s show ?thesis by simp
      qed (use some [of ts _ v] some [of ts' _ v'] PBranch.prems t' look in fastforce)+
    qed
    then have "ts = ts'" using PBranch.prems t' by (intro nth_equalityI) (auto simp: wf_branch)
    moreover have "v = v'" using PBranch.prems(3) [of "[]"] t' by simp
    ultimately show ?thesis using t' by simp
  qed
qed

section \<open>Insertion\<close>

lemma lookup_extend [simp]: "tree_lookup (extend c t) q =
    (if take (length c) q = c then tree_lookup t (drop (length c) q) else None)"
  by (simp add: extend_def)

lemma matching_split:
  obtains c k' p' where "k = c @ k'" "p = c @ p'" "matchingNibbleLength k p = length c"
    "k' = [] \<or> p' = [] \<or> hd k' \<noteq> hd p'"
proof
  let ?m = "matchingNibbleLength k p"
  show "k = take ?m k @ drop ?m k" by simp
  show "p = take ?m k @ drop ?m p" using matching_take [of k p] by simp
  show "?m = length (take ?m k)" using matching_le [of k p] by simp
  show "drop ?m k = [] \<or> drop ?m p = [] \<or> hd (drop ?m k) \<noteq> hd (drop ?m p)"
    using matching_next [of k p] by (auto simp: hd_drop_conv_nth not_le)
qed

definition branch_of :: "ptree option list \<times> u8 list option \<Rightarrow> ptree" where
  "branch_of b = PBranch (fst b) (snd b)"

lemma fork_split:
  assumes "matchingNibbleLength k p = length c" "k = c @ k'" "p = c @ p'"
  shows "fork k f w p v = extend c (branch_of (attach p' (\<lambda>q. PLeaf q v) (Some v) (attach k' f w (replicate 16 None, None))))"
  using assms by (simp add: fork_def branch_of_def Let_def split: prod.split)

lemma lookup_attach:
  assumes "length (fst b) = 16" "nibs q"
  shows "tree_lookup (branch_of (attach q f w b)) r = (case q of
      [] \<Rightarrow> if r = [] then w else tree_lookup (branch_of b) r
    | x # q \<Rightarrow> if r \<noteq> [] \<and> hd r = x then tree_lookup (f q) (tl r) else tree_lookup (branch_of b) r)"
  using assms by (cases b; cases q; cases r) (auto simp: branch_of_def nth_list_update)

lemma length_attach [simp]: "length (fst (attach q f w b)) = length (fst b)"
  by (cases b; cases q) simp_all

lemma lookup_fork:
  assumes "nibs k" "nibs p" "nibs q" "k \<noteq> p"
    and f: "\<And>s r. tree_lookup (f s) r = (if take (length s) r = s then g (drop (length s) r) else None)"
    and w: "\<And>c k'. k = c @ k' \<Longrightarrow> matchingNibbleLength k p = length c \<Longrightarrow> k' = [] \<Longrightarrow> w = g [] \<and> (\<forall>r. r \<noteq> [] \<longrightarrow> g r = None)"
  shows "tree_lookup (fork k f w p v) q = (if q = p then Some v
    else if take (length k) q = k then g (drop (length k) q) else None)"
proof -
  obtain c k' p' where s: "k = c @ k'" "p = c @ p'" "matchingNibbleLength k p = length c"
    "k' = [] \<or> p' = [] \<or> hd k' \<noteq> hd p'" by (rule matching_split)
  have n: "nibs k'" "nibs p'" using assms(1,2) s(1,2) by simp_all
  have b: "tree_lookup (branch_of (replicate 16 None, None)) r = None" if "nibs r" for r
    using that by (cases r) (simp_all add: branch_of_def)
  have B: "tree_lookup (branch_of (attach p' (\<lambda>q. PLeaf q v) (Some v) (attach k' f w (replicate 16 None, None)))) r
    = (if r = p' then Some v else if take (length k') r = k' then g (drop (length k') r) else None)" if "nibs r" for r
    using n s(4) assms(4) s(1,2) w [OF s(1,3)] f b [OF that] that
    by (cases p'; cases k'; cases r) (auto simp: lookup_attach simp del: attach.simps)
  show ?thesis
  proof (cases "take (length c) q = c")
    case True
    then have q: "q = c @ drop (length c) q" by (metis append_take_drop_id)
    with assms(3) have "nibs (drop (length c) q)" by (metis nibs_simps(3))
    note B [OF this]
    moreover have "q = p \<longleftrightarrow> drop (length c) q = p'" using q s(2) by (metis same_append_eq)
    moreover have "take (length k) q = k \<longleftrightarrow> take (length k') (drop (length c) q) = k'"
      using q s(1) by (metis append_eq_conv_conj append_take_drop_id length_append same_append_eq take_add)
    moreover have "drop (length k) q = drop (length k') (drop (length c) q)" using s(1) by (simp add: add.commute)
    ultimately show ?thesis using True by (simp add: fork_split [OF s(3,1,2)])
  next
    case False
    have "take (length c) q = c" if "take (length k) q = k"
      using arg_cong [OF that, of "take (length c)"] s(1) by simp
    with False have "q \<noteq> p" "take (length k) q \<noteq> k" using s(2) by auto
    with False show ?thesis by (simp add: fork_split [OF s(3,1,2)])
  qed
qed

theorem lookup_ins:
  "wf_tree t \<Longrightarrow> nibs p \<Longrightarrow> nibs q \<Longrightarrow> tree_lookup (tree_ins t p v) q = (if q = p then Some v else tree_lookup t q)"
proof (induction t p v arbitrary: q rule: tree_ins.induct)
  case (1 k w p v)
  show ?case
  proof (cases "k = p")
    case False
    then have "tree_lookup (fork k (\<lambda>q. PLeaf q w) (Some w) p v) q = (if q = p then Some v
        else if take (length k) q = k then (if drop (length k) q = [] then Some w else None) else None)"
      using 1 by (intro lookup_fork [where g = "\<lambda>r. if r = [] then Some w else None"]) auto
    with False show ?thesis by (auto dest: arg_cong [of _ _ length])
  qed simp
next
  case (2 k t p v)
  show ?case
  proof (cases "take (length k) p = k")
    case True
    then have p: "p = k @ drop (length k) p" by (metis append_take_drop_id)
    with 2 have n: "nibs (drop (length k) p)" by (metis nibs_simps(3))
    show ?thesis
    proof (cases "take (length k) q = k")
      case q: True
      then have "q = p \<longleftrightarrow> drop (length k) q = drop (length k) p" by (metis append_take_drop_id p)
      moreover have "nibs (drop (length k) q)" using 2 by (simp add: nibs_parts)
      ultimately show ?thesis using True q 2 n by simp
    next
      case q: False
      then have "q \<noteq> p" using True by auto
      with True q show ?thesis by simp
    qed
  next
    case False
    have "tree_lookup (fork k (\<lambda>q. extend q t) None p v) q = (if q = p then Some v
        else if take (length k) q = k then tree_lookup t (drop (length k) q) else None)"
    proof (rule lookup_fork)
      fix c k' assume "k = c @ k'" "matchingNibbleLength k p = length c" "k' = []"
      then have "take (length k) p = k" using matching_full [of k p] by simp
      with False show "None = tree_lookup t [] \<and> (\<forall>r. r \<noteq> [] \<longrightarrow> tree_lookup t r = None)" by simp
    qed (use 2 False in auto)
    with False show ?thesis by simp
  qed
next
  case (3 ts w v)
  then show ?case by (cases q) simp_all
next
  case (4 ts w x p v)
  then show ?case by (cases q; cases "ts ! x") (auto simp: nth_list_update)
qed

lemma weight_attach:
  assumes "nibs q" "length (fst b) = 16" "q = [] \<longrightarrow> w \<noteq> None \<and> snd b = None" "q \<noteq> [] \<longrightarrow> fst b ! hd q = None"
  shows "weight (fst (attach q f w b)) (snd (attach q f w b)) = weight (fst b) (snd b) + 1"
  using assms weight_upd [of "hd q" "fst b" "Some (f (tl q))" "snd b"]
  by (cases b; cases q) (auto simp: weight_def)

lemma wf_fork:
  assumes "nibs k" "small k" "nibs p" "small p" "v \<noteq> []" "small v" "k \<noteq> p"
    and f: "\<And>c x s. k = c @ x # s \<Longrightarrow> wf_tree (f s)"
    and w: "\<And>c. k = c \<Longrightarrow> matchingNibbleLength k p = length c \<Longrightarrow> \<exists>x. w = Some x \<and> x \<noteq> [] \<and> small x"
  shows "wf_tree (fork k f w p v)"
proof -
  obtain c k' p' where s: "k = c @ k'" "p = c @ p'" "matchingNibbleLength k p = length c"
    "k' = [] \<or> p' = [] \<or> hd k' \<noteq> hd p'" by (rule matching_split)
  have n: "nibs k'" "nibs p'" "nibs c" "small c" "small p'" using assms(1-4) s(1,2) by simp_all
  define b0 :: "ptree option list \<times> u8 list option" where "b0 = (replicate 16 None, None)"
  define b1 where "b1 = attach k' f w b0"
  define b2 where "b2 = attach p' (\<lambda>q. PLeaf q v) (Some v) b1"
  have l: "length (fst b0) = 16" "length (fst b1) = 16" "length (fst b2) = 16" by (simp_all add: b0_def b1_def b2_def)
  have w0: "k' = [] \<Longrightarrow> \<exists>x. w = Some x \<and> x \<noteq> [] \<and> small x" using w s by simp
  have f0: "k' = y # r \<Longrightarrow> wf_tree (f r)" for y r using f [of c y r] s(1) by simp
  have "weight (fst b1) (snd b1) = 1"
    using weight_attach [of k' b0 w f] n l w0 by (cases k') (auto simp: b1_def b0_def)
  moreover have "weight (fst b2) (snd b2) = weight (fst b1) (snd b1) + 1"
    using n l s assms(7) unfolding b2_def
    by (intro weight_attach) (auto simp: b1_def b0_def neq_Nil_conv, (cases k'; auto simp: nth_list_update)+)
  moreover have "\<forall>i t. i < 16 \<longrightarrow> fst b1 ! i = Some t \<longrightarrow> wf_tree t" "snd b1 \<noteq> Some []" "\<forall>x. snd b1 = Some x \<longrightarrow> small x"
    using n w0 f0 by (cases k'; auto simp: b1_def b0_def nth_list_update split: if_splits)+
  then have "\<forall>i t. i < 16 \<longrightarrow> fst b2 ! i = Some t \<longrightarrow> wf_tree t" "snd b2 \<noteq> Some []" "\<forall>x. snd b2 = Some x \<longrightarrow> small x"
    using n assms(5,6) l(2) by (cases b1; cases p'; auto simp: b2_def nth_list_update split: if_splits)+
  ultimately have "wf_tree (branch_of b2)" using l by (simp add: branch_of_def)
  moreover have "fork k f w p v = extend c (branch_of b2)" using fork_split [OF s(3,1,2)] by (simp add: b2_def b1_def b0_def)
  ultimately show ?thesis using n by (simp add: extend_def branch_of_def)
qed

lemma wf_ins: "wf_tree t \<Longrightarrow> nibs p \<Longrightarrow> small p \<Longrightarrow> v \<noteq> [] \<Longrightarrow> small v \<Longrightarrow>
    wf_tree (tree_ins t p v) \<and> (is_branch t \<longrightarrow> is_branch (tree_ins t p v))"
proof (induction t p v rule: tree_ins.induct)
  case (1 k w p v)
  show ?case
  proof (cases "k = p")
    case False
    have "wf_tree (fork k (\<lambda>q. PLeaf q w) (Some w) p v)" by (rule wf_fork) (use 1 False in auto)
    with False show ?thesis by simp
  qed (use 1 in simp)
next
  case (2 k t p v)
  show ?case
  proof (cases "take (length k) p = k")
    case True
    then show ?thesis using 2 by (auto simp: nibs_parts)
  next
    case False
    have "wf_tree (fork k (\<lambda>q. extend q t) None p v)"
    proof (rule wf_fork)
      fix c assume "k = c" "matchingNibbleLength k p = length c"
      with False matching_full [of k p] show "\<exists>x. None = Some x \<and> x \<noteq> [] \<and> small x" by simp
    qed (use 2 False in \<open>auto simp: extend_def\<close>)
    with False show ?thesis by simp
  qed
next
  case (3 ts w v)
  then show ?case using weight_value(2) [of ts w v] by (auto intro: le_trans)
next
  case (4 ts w x p v)
  then have x: "x < length ts" by simp
  have "2 \<le> weight ts w" using 4 by simp
  with weight_upd [OF x, of "Some (case ts ! x of None \<Rightarrow> PLeaf p v | Some t \<Rightarrow> tree_ins t p v)" w]
  have "2 \<le> weight (ts[x := Some (case ts ! x of None \<Rightarrow> PLeaf p v | Some t \<Rightarrow> tree_ins t p v)]) w"
    by (simp split: if_splits)
  moreover have "wf_tree (case ts ! x of None \<Rightarrow> PLeaf p v | Some t \<Rightarrow> tree_ins t p v)"
    using 4 by (cases "ts ! x") auto
  ultimately show ?case using 4 x by (auto simp: nth_list_update split: if_splits)
qed

section \<open>Keys of one length\<close>

text \<open>Every key has \<open>d\<close> nibbles, so that no key is a prefix of another and no branch has a value.\<close>

primrec uniform :: "ptree \<Rightarrow> nat \<Rightarrow> bool" where
  "uniform (PLeaf k v) = (\<lambda>d. length k = d)"
| "uniform (PExt k t) = (\<lambda>d. length k \<le> d \<and> uniform t (d - length k))"
| "uniform (PBranch ts v) = (\<lambda>d. 0 < d \<and> v = None \<and>
     list_all (\<lambda>b. case b of None \<Rightarrow> True | Some u \<Rightarrow> u (d - 1)) (map (map_option uniform) ts))"

lemma uniform_branch: "uniform (PBranch ts v) d \<longleftrightarrow> 0 < d \<and> v = None \<and>
    (\<forall>i t. i < length ts \<longrightarrow> ts ! i = Some t \<longrightarrow> uniform t (d - 1))"
  by (auto simp: list_all_length map_option_case split: option.splits)

declare uniform.simps(3) [simp del] uniform_branch [simp]

lemma uniform_key: "uniform t d \<Longrightarrow> wf_tree t \<Longrightarrow> nibs q \<Longrightarrow> tree_lookup t q = Some v \<Longrightarrow> length q = d"
proof (induction t q arbitrary: d v rule: tree_lookup.induct)
  case (2 k t q)
  then have "take (length k) q = k" "length (drop (length k) q) = d - length k" "length k \<le> d"
    by (auto simp: nibs_parts split: if_splits)
  then show ?case by (metis append_take_drop_id le_add_diff_inverse length_append)
next
  case (4 ts v x q)
  then show ?case by (cases "ts ! x") fastforce+
qed (auto split: if_splits)

lemma uniform_fork:
  assumes "nibs k" "nibs p" "length p = d" "k \<noteq> p" "length k \<le> d"
    and k: "length k < d \<Longrightarrow> take (length k) p \<noteq> k"
    and f: "\<And>c x s. k = c @ x # s \<Longrightarrow> uniform (f s) (d - length c - 1)"
  shows "uniform (fork k f w p v) d"
proof -
  obtain c k' p' where s: "k = c @ k'" "p = c @ p'" "matchingNibbleLength k p = length c"
    "k' = [] \<or> p' = [] \<or> hd k' \<noteq> hd p'" by (rule matching_split)
  have "k' \<noteq> []"
  proof
    assume "k' = []"
    then have "take (length k) p = k" using s by simp
    with k assms(3-5) show False by (metis antisym_conv2 take_all_iff order_refl)
  qed
  moreover have "p' \<noteq> []" using assms(3-5) s(1,2) calculation by auto
  ultimately obtain x k1 y p1 where c: "k' = x # k1" "p' = y # p1" "x \<noteq> y" using s(4) by (auto simp: neq_Nil_conv)
  have "x < 16" "y < 16" using assms(1,2) s(1,2) c by simp_all
  with c s(1,2) assms(3) f [of c x k1] show ?thesis
    unfolding fork_split [OF s(3,1,2)] by (auto simp: branch_of_def extend_def nth_list_update)
qed

lemma uniform_ins:
  "uniform t d \<Longrightarrow> wf_tree t \<Longrightarrow> nibs p \<Longrightarrow> length p = d \<Longrightarrow> uniform (tree_ins t p v) d"
proof (induction t p v arbitrary: d rule: tree_ins.induct)
  case (1 k w p v)
  show ?case
  proof (cases "k = p")
    case False
    have "uniform (fork k (\<lambda>q. PLeaf q w) (Some w) p v) d" by (rule uniform_fork) (use 1 False in auto)
    with False show ?thesis by simp
  qed (use 1 in simp)
next
  case (2 k t p v)
  show ?case
  proof (cases "take (length k) p = k")
    case False
    have "uniform (fork k (\<lambda>q. extend q t) None p v) d"
      by (rule uniform_fork) (use 2 False in \<open>auto simp: extend_def\<close>)
    with False show ?thesis by simp
  qed (use 2 in \<open>auto simp: nibs_parts\<close>)
next
  case (4 ts w x p v)
  then show ?case by (cases "ts ! x") (auto simp: nth_list_update)
qed simp

section \<open>Deletion\<close>

lemma lookup_join [simp]: "tree_lookup (join k t) q =
    (if take (length k) q = k then tree_lookup t (drop (length k) q) else None)"
  by (cases t) (auto simp: take_prefix_append take_prefix_append2 take_prefix add.commute)

lemma set_children: "set (children ts) = {(i, t). i < length ts \<and> ts ! i = Some t}"
  by (force simp: children_def in_set_enumerate_eq image_iff)

lemma length_children: "length (children ts) = weight ts None"
proof -
  have "length (filter (\<lambda>(i, t). t \<noteq> None) (enumerate n ts)) = length (filter (\<lambda>t. t \<noteq> None) ts)" for n
    by (induction ts arbitrary: n) auto
  then show ?thesis by (simp add: children_def weight_def)
qed

lemma wf_join:
  assumes "wf_tree t" "uniform t d" "nibs k" "k \<noteq> []" "length k + d < 2 ^ 32"
  shows "wf_tree (join k t)" "uniform (join k t) (length k + d)"
  using assms by (cases t; auto)+

lemma shrink_ok:
  assumes "wf_tree (PBranch ts None)" "uniform (PBranch ts None) d" "d < 2 ^ 32" "ts ! x = Some t" "x < 16"
  shows "wf_tree (shrink (ts[x := None]) None) \<and> uniform (shrink (ts[x := None]) None) d
    \<and> (\<forall>q. nibs q \<longrightarrow> tree_lookup (shrink (ts[x := None]) None) q = tree_lookup (PBranch (ts[x := None]) None) q)"
proof -
  let ?ts = "ts[x := None]"
  have x: "x < length ts" using assms(1,5) by simp
  have w: "weight ?ts None + 1 = weight ts None" using weight_upd [OF x, of None None] assms(4) by simp
  show ?thesis
  proof (cases "\<exists>i u. children ?ts = [(i, u)]")
    case True
    then obtain i u where c: "children ?ts = [(i, u)]" by blast
    then have i: "j < 16 \<Longrightarrow> ?ts ! j = Some s \<longleftrightarrow> j = i \<and> s = u" "i < 16" for j s
      using set_children [of ?ts] assms(1) by (auto simp: set_eq_iff)
    then have u: "wf_tree u" "uniform u (d - 1)"
      using i(1) [OF i(2), of u] i(2) assms(1,2) x by (cases "i = x"; simp)+
    have "tree_lookup (PBranch ?ts None) q = tree_lookup (join [i] u) q" if "nibs q" for q
    proof (cases q)
      case (Cons y r)
      with that have "y < 16" by simp
      moreover have "?ts ! i = Some u" using i(1) [OF i(2), of u] by simp
      ultimately show ?thesis using i(1) [of y] Cons by (cases "y = i"; cases "?ts ! y"; simp; blast?)
    qed (simp add: lookup_join)
    moreover have "wf_tree (join [i] u)" "uniform (join [i] u) d"
      using wf_join [OF u, of "[i]"] i(2) assms(2,3) by simp_all
    ultimately show ?thesis using c by (simp add: shrink_def)
  next
    case False
    then have "shrink ?ts None = PBranch ?ts None" by (simp add: shrink_def split: list.split)
    moreover have "weight ?ts None \<noteq> 1"
    proof
      assume "weight ?ts None = 1"
      then have "length (children ?ts) = 1" by (simp add: length_children)
      with False show False by (auto simp: length_Suc_conv)
    qed
    ultimately show ?thesis using assms w x by (auto simp: nth_list_update split: if_splits)
  qed
qed

theorem tree_del_ok:
  "wf_tree t \<Longrightarrow> uniform t d \<Longrightarrow> d < 2 ^ 32 \<Longrightarrow> nibs p \<Longrightarrow> tree_lookup t p = Some v \<Longrightarrow>
   (case tree_del t p of
      None \<Rightarrow> t = PLeaf p v
    | Some t' \<Rightarrow> wf_tree t' \<and> uniform t' d \<and> (\<forall>q. nibs q \<longrightarrow> tree_lookup t' q = (if q = p then None else tree_lookup t q)))"
proof (induction t p arbitrary: d rule: tree_del.induct)
  case (2 k t p)
  then have k: "take (length k) p = k" "tree_lookup t (drop (length k) p) = Some v" by (auto split: if_splits)
  obtain t' where t': "tree_del t (drop (length k) p) = Some t'" "wf_tree t'" "uniform t' (d - length k)"
    "\<And>q. nibs q \<Longrightarrow> tree_lookup t' q = (if q = drop (length k) p then None else tree_lookup t q)"
    using 2 k by (cases "tree_del t (drop (length k) p)") (auto simp: nibs_parts dest: meta_spec [of _ "d - length k"])
  moreover have "drop (length k) q = drop (length k) p \<longleftrightarrow> q = p" if "take (length k) q = k" for q
    using that k(1) by (metis append_take_drop_id)
  ultimately show ?case using 2 k wf_join [OF t'(2,3), of k] by (auto simp: nibs_parts)
next
  case (4 ts w x p)
  then obtain t where t: "ts ! x = Some t" "tree_lookup t p = Some v" by (auto split: option.splits)
  have x: "x < 16" "x < length ts" "w = None" using 4 by simp_all
  show ?case
  proof (cases "tree_del t p")
    case (Some t')
    with 4 t have t': "wf_tree t'" "uniform t' (d - 1)"
      "\<And>q. nibs q \<Longrightarrow> tree_lookup t' q = (if q = p then None else tree_lookup t q)" by fastforce+
    have "weight (ts[x := Some t']) w = weight ts w" using weight_upd [OF x(2), of "Some t'" w] t by simp
    moreover have "tree_lookup (PBranch (ts[x := Some t']) w) q
        = (if q = x # p then None else tree_lookup (PBranch ts w) q)" if "nibs q" for q
      using that t t'(3) x by (cases q) (auto simp: nth_list_update)
    ultimately show ?thesis using 4 t t' x Some by (auto simp: nth_list_update)
  next
    case None
    with 4 t have "t = PLeaf p v" by fastforce
    then have "tree_lookup (PBranch (ts[x := None]) None) q
        = (if q = x # p then None else tree_lookup (PBranch ts None) q)" if "nibs q" for q
      using that t x by (cases q) (auto simp: nth_list_update)
    with shrink_ok [of ts d x t] 4 t x None show ?thesis by simp
  qed
qed (auto split: if_splits)

end
