(* ===== verification/Mpt.thy ===== *)
theory Mpt
  imports MptNode CheckpointDB Effects
begin

text \<open>
  The Merkle Patricia trie of \<open>packages/merkel-trie/src/mpt.ts\<close> over the checkpoint database. A trie is
  its root and its database; the options do not change. A method answers a value or an error together
  with the trie it leaves. The hash function is the field \<open>mo_hash\<close>. Walking to one key visits one node
  at a time, so that the task queue of \<open>WalkController\<close> never holds more than one task and the walk is a
  recursion, on fuel because a database may hold a cycle. The lock, which orders concurrent callers, and debug
  output are left out.
\<close>

section \<open>State and options\<close>

record 'c mpt =
  mp_root :: "u8 list"
  mp_db :: "'c ckdb"

record 'c mpt_opts =
  mo_lib :: lib
  mo_lru :: "'c lru"
  mo_hash :: "u8 list \<Rightarrow> u8 list"
  mo_useKeyHashing :: bool
  mo_keyPrefix :: "u8 list option"
  mo_useRootPersistence :: bool
  mo_useNodePruning :: bool

definition ROOT_DB_KEY :: "u8 list" where
  "ROOT_DB_KEY = [95, 95, 114, 111, 111, 116, 95, 95]"

definition EMPTY_TRIE_ROOT :: "'c mpt_opts \<Rightarrow> u8 list" where
  "EMPTY_TRIE_ROOT X = mo_hash X [0x80]"

definition hashLen :: "'c mpt_opts \<Rightarrow> nat" where
  "hashLen X = length (EMPTY_TRIE_ROOT X)"

definition appliedKey :: "'c mpt_opts \<Rightarrow> u8 list \<Rightarrow> u8 list" where
  "appliedKey X key = (if mo_useKeyHashing X then mo_hash X key else key)"

definition prefixed :: "'c mpt_opts \<Rightarrow> u8 list \<Rightarrow> u8 list" where
  "prefixed X key = (case mo_keyPrefix X of None \<Rightarrow> key | Some p \<Rightarrow> p @ key)"

definition set_root :: "'c mpt_opts \<Rightarrow> u8 list option \<Rightarrow> ('c mpt, unit) stm" where
  "set_root X r =
     (let v = (case r of None \<Rightarrow> EMPTY_TRIE_ROOT X | Some v \<Rightarrow> v) in
      if length v \<noteq> hashLen X then failS (Throw ''Invalid root length'')
      else modS (\<lambda>s. s\<lparr>mp_root := v\<rparr>))"

text \<open>A trie over a database, at the root the options give or empty.\<close>

definition mpt_new :: "'c mpt_opts \<Rightarrow> 'c ckdb \<Rightarrow> u8 list option \<Rightarrow> 'c mpt res" where
  "mpt_new X d root =
     (let s = \<lparr>mp_root = EMPTY_TRIE_ROOT X, mp_db = d\<rparr> in
      case root of None \<Rightarrow> Inr s
      | Some r \<Rightarrow> (case set_root X (Some r) s of (Inl e, _) \<Rightarrow> Inl e | (Inr _, s) \<Rightarrow> Inr s))"

section \<open>The database\<close>

definition db_get :: "'c mpt_opts \<Rightarrow> u8 list \<Rightarrow> ('c mpt, u8 list option) stm" where
  "db_get X key s = (case ck_get (mo_lib X) (mo_lru X) key (mp_db s) of
     Inl e \<Rightarrow> (Inl e, s) | Inr (v, d) \<Rightarrow> (Inr v, s\<lparr>mp_db := d\<rparr>))"

definition db_put :: "'c mpt_opts \<Rightarrow> u8 list \<Rightarrow> u8 list \<Rightarrow> ('c mpt, unit) stm" where
  "db_put X key v = modS (\<lambda>s. s\<lparr>mp_db := ck_put (mo_lib X) (mo_lru X) key v (mp_db s)\<rparr>)"

definition db_batch :: "'c mpt_opts \<Rightarrow> batch_op list \<Rightarrow> ('c mpt, unit) stm" where
  "db_batch X ops = modS (\<lambda>s. s\<lparr>mp_db := ck_batch (mo_lib X) (mo_lru X) ops (mp_db s)\<rparr>)"

definition persistRoot :: "'c mpt_opts \<Rightarrow> ('c mpt, unit) stm" where
  "persistRoot X =
     whenS (mo_useRootPersistence X)
       (bindS (getS mp_root) (\<lambda>root. db_put X (prefixed X (appliedKey X ROOT_DB_KEY)) root))"

definition MISSING :: js_error where
  "MISSING = Throw ''Missing node in DB''"

definition lookupNode :: "'c mpt_opts \<Rightarrow> rlp_input \<Rightarrow> ('c mpt, mpt_node) stm" where
  "lookupNode X node =
     (case node of
        RArr xs \<Rightarrow> liftS (decodeRawMPTNode xs)
      | RBytes h \<Rightarrow>
          bindS (db_get X (prefixed X h)) (\<lambda>v.
          case v of None \<Rightarrow> failS MISSING | Some e \<Rightarrow> liftS (decodeMPTNode e))
      | _ \<Rightarrow> failS (Throw ''TypeError''))"

section \<open>The path to a key\<close>

text \<open>\<open>a[i] = v\<close>: an array grows when it is written past its end.\<close>

definition js_set :: "'a option list \<Rightarrow> nat \<Rightarrow> 'a \<Rightarrow> 'a option list" where
  "js_set xs i v = (if i < length xs then xs[i := Some v] else xs @ replicate (i - length xs) None @ [Some v])"

record path =
  pa_node :: "mpt_node option"
  pa_remaining :: nibbles
  pa_stack :: "mpt_node option list"

fun walk_path :: "nat \<Rightarrow> 'c mpt_opts \<Rightarrow> bool \<Rightarrow> nibbles \<Rightarrow> rlp_input \<Rightarrow> nat \<Rightarrow> mpt_node option list
    \<Rightarrow> ('c mpt, path) stm" where
  "walk_path 0 X throwIfMissing targetKey ref progress stack = failS OutOfFuel"
| "walk_path (Suc n) X throwIfMissing targetKey ref progress stack = (\<lambda>s.
     case lookupNode X ref s of
       (Inl e, s) \<Rightarrow>
         if e \<noteq> MISSING \<or> throwIfMissing then (Inl e, s)
         else (Inr \<lparr>pa_node = None, pa_remaining = [], pa_stack = stack\<rparr>, s)
     | (Inr node, s) \<Rightarrow>
         let stack = js_set stack progress node;
             found = (Inr \<lparr>pa_node = Some node, pa_remaining = [], pa_stack = stack\<rparr>, s);
             missed = (Inr \<lparr>pa_node = None, pa_remaining = drop progress targetKey, pa_stack = stack\<rparr>, s) in
         case node of
           Branch bs v \<Rightarrow>
             if progress = length targetKey then found
             else
               let b = getBranch bs (targetKey ! progress) in
               if b = RNull then missed else walk_path n X throwIfMissing targetKey b (progress + 1) stack s
         | Leaf k v \<Rightarrow>
             if length k < length targetKey - progress then missed
             else if take (length k) (drop progress targetKey) = k then found else missed
         | Ext k v \<Rightarrow>
             if take (length k) (drop progress targetKey) = k
             then walk_path n X throwIfMissing targetKey v (progress + length k) stack s
             else missed)"

text \<open>At most \<open>n + 1\<close> nodes lie on a path of \<open>n\<close> nibbles: each branch and each extension of a well-formed
  trie takes one nibble at least.\<close>

definition findPath :: "'c mpt_opts \<Rightarrow> u8 list \<Rightarrow> bool \<Rightarrow> ('c mpt, mpt_node option \<times> nibbles \<times> mpt_node list) stm" where
  "findPath X key throwIfMissing =
     (let targetKey = bytesToNibbles key in
      bindS (getS mp_root) (\<lambda>root.
      bindS (walk_path (length targetKey + 2) X throwIfMissing targetKey (RBytes root) 0
               (replicate (length targetKey) None)) (\<lambda>r.
      retS (pa_node r, pa_remaining r, map the (filter (\<lambda>x. x \<noteq> None) (pa_stack r))))))"

definition mpt_get :: "'c mpt_opts \<Rightarrow> u8 list \<Rightarrow> bool \<Rightarrow> ('c mpt, rlp_input) stm" where
  "mpt_get X key throwIfMissing =
     bindS (findPath X (appliedKey X key) throwIfMissing) (\<lambda>(node, remaining, stack).
     retS (case node of Some n \<Rightarrow> if remaining = [] then node_value n else RNull | None \<Rightarrow> RNull))"

definition checkRoot :: "'c mpt_opts \<Rightarrow> u8 list \<Rightarrow> ('c mpt, bool) stm" where
  "checkRoot X root s =
     (case lookupNode X (RBytes root) s of
        (Inr n, s) \<Rightarrow> (Inr True, s)
      | (Inl e, s) \<Rightarrow> if e = MISSING then (Inr (root = EMPTY_TRIE_ROOT X), s) else (Inl e, s))"

section \<open>Saving a path\<close>

text \<open>\<open>key.splice(start)\<close> with \<open>start = key.length - n\<close>, which counts from the end when negative.\<close>

definition splice_end :: "nibbles \<Rightarrow> nat \<Rightarrow> nibbles" where
  "splice_end key n = (if n \<le> length key then take (length key - n) key else take (2 * length key - n) key)"

definition formatNode :: "'c mpt_opts \<Rightarrow> mpt_node \<Rightarrow> bool \<Rightarrow> bool \<Rightarrow> batch_op list \<Rightarrow> (rlp_input \<times> batch_op list) res" where
  "formatNode X node topLevel remove opStack =
     bindE (serialize node) (\<lambda>encoded.
     if 32 \<le> length encoded \<or> topLevel
     then
       let lastRoot = mo_hash X encoded; key = prefixed X lastRoot in
       Inr (RBytes lastRoot,
         if remove then (if mo_useNodePruning X then opStack @ [(key, None)] else opStack)
         else opStack @ [(key, Some encoded)])
     else Inr (RArr (raw node), opStack))"

text \<open>The loop of \<open>saveStack\<close>, on the stack with its top first.\<close>

fun save_loop :: "'c mpt_opts \<Rightarrow> nibbles \<Rightarrow> mpt_node list \<Rightarrow> rlp_input option \<Rightarrow> batch_op list
    \<Rightarrow> (rlp_input option \<times> batch_op list) res" where
  "save_loop X key [] lastRoot opStack = Inr (lastRoot, opStack)"
| "save_loop X key (node # stack) lastRoot opStack =
     (let (key, node) = (case node of
            Branch bs v \<Rightarrow> (case lastRoot of None \<Rightarrow> (key, node)
              | Some r \<Rightarrow> (butlast key, if key = [] then node else set_branch (last key) r node))
          | Leaf k v \<Rightarrow> (splice_end key (length k), node)
          | Ext k v \<Rightarrow> (splice_end key (length k), case lastRoot of None \<Rightarrow> node | Some r \<Rightarrow> set_value r node)) in
      bindE (formatNode X node (stack = []) False opStack) (\<lambda>(r, opStack).
      save_loop X key stack (Some r) opStack))"

definition saveStack :: "'c mpt_opts \<Rightarrow> nibbles \<Rightarrow> mpt_node list \<Rightarrow> batch_op list \<Rightarrow> ('c mpt, unit) stm" where
  "saveStack X key stack opStack =
     bindS (liftS (save_loop X key (rev stack) None opStack)) (\<lambda>(lastRoot, opStack).
     thenS (case lastRoot of None \<Rightarrow> retS ()
            | Some (RBytes r) \<Rightarrow> set_root X (Some r)
            | Some _ \<Rightarrow> failS (Throw ''Invalid root length''))
     (thenS (db_batch X opStack) (persistRoot X)))"

section \<open>Writing a value\<close>

definition createInitialNode :: "'c mpt_opts \<Rightarrow> u8 list \<Rightarrow> u8 list \<Rightarrow> ('c mpt, unit) stm" where
  "createInitialNode X key v =
     bindS (liftS (serialize (Leaf (bytesToNibbles key) (RBytes v)))) (\<lambda>encoded.
     thenS (set_root X (Some (mo_hash X encoded)))
     (bindS (getS mp_root) (\<lambda>rootKey.
     thenS (db_put X (prefixed X rootKey) encoded)
     (persistRoot X))))"

text \<open>How many nibbles the nodes below the top of the stack take.\<close>

fun stack_nibbles :: "mpt_node list \<Rightarrow> nat" where
  "stack_nibbles [] = 0"
| "stack_nibbles (n # ns) = (case n of Branch bs v \<Rightarrow> 1 | _ \<Rightarrow> length (node_key n)) + stack_nibbles ns"

text \<open>The nodes that replace the last one, an extension or a leaf of a different path.\<close>

definition split_node :: "'c mpt_opts \<Rightarrow> mpt_node \<Rightarrow> nibbles \<Rightarrow> u8 list \<Rightarrow> (mpt_node list \<times> batch_op list) res" where
  "split_node X lastNode keyRemainder v =
     (let m = matchingNibbleLength (node_key lastNode) keyRemainder;
          ext = (if m \<noteq> 0 then [Ext (take m (node_key lastNode)) (RBytes v)] else []);
          lastKey = drop m (node_key lastNode); keyRemainder = drop m keyRemainder in
      bindE (case lastKey of
          [] \<Rightarrow> Inr (set_value (node_value lastNode) branch_new, [])
        | branchKey # lastKey \<Rightarrow>
            if lastKey \<noteq> [] \<or> (case lastNode of Leaf _ _ \<Rightarrow> True | _ \<Rightarrow> False)
            then bindE (formatNode X (set_key lastKey lastNode) False False []) (\<lambda>(r, ops).
              Inr (set_branch branchKey r branch_new, ops))
            else bindE (formatNode X lastNode False True []) (\<lambda>(r, ops).
              Inr (set_branch branchKey (node_value lastNode) branch_new, ops))) (\<lambda>(branch, toSave).
      Inr (ext @ (case keyRemainder of
          [] \<Rightarrow> [set_value (RBytes v) branch]
        | _ # keyRemainder \<Rightarrow> [branch, Leaf keyRemainder (RBytes v)]), toSave)))"

definition updateNode :: "'c mpt_opts \<Rightarrow> u8 list \<Rightarrow> u8 list \<Rightarrow> nibbles \<Rightarrow> mpt_node list \<Rightarrow> ('c mpt, unit) stm" where
  "updateNode X k v keyRemainder stack =
     (if stack = [] then failS (Throw ''Stack underflow'')
      else
        let lastNode = last stack; stack = butlast stack; key = bytesToNibbles k;
            matchLeaf = (case lastNode of
                Leaf lk _ \<Rightarrow> keyRemainder = [] \<and> matchingNibbleLength lk (drop (stack_nibbles stack) key) = length lk
              | _ \<Rightarrow> False) in
        if matchLeaf then saveStack X key (stack @ [set_value (RBytes v) lastNode]) []
        else
          case lastNode of
            Branch bs x \<Rightarrow>
              saveStack X key
                (case keyRemainder of
                   [] \<Rightarrow> stack @ [set_value (RBytes v) lastNode]
                 | _ # keyRemainder \<Rightarrow> stack @ [lastNode, Leaf keyRemainder (RBytes v)]) []
          | _ \<Rightarrow>
              bindS (liftS (split_node X lastNode keyRemainder v)) (\<lambda>(nodes, toSave).
              saveStack X key (stack @ nodes) toSave))"

text \<open>The deletions of the nodes on a path, for pruning.\<close>

definition prune_ops :: "'c mpt_opts \<Rightarrow> mpt_node list \<Rightarrow> batch_op list res" where
  "prune_ops X stack = mapE (\<lambda>e. bindE (serialize e) (\<lambda>s. Inr (prefixed X (mo_hash X s), None))) stack"

section \<open>Deleting a value\<close>

text \<open>The last child of a branch takes the place of the branch, merged with the parent.\<close>

definition processBranchMPTNode :: "nibbles \<Rightarrow> nat \<Rightarrow> mpt_node \<Rightarrow> mpt_node option \<Rightarrow> mpt_node list
    \<Rightarrow> nibbles \<times> mpt_node list" where
  "processBranchMPTNode key branchKey branchNode parentNode stack =
     (let merged = (\<lambda>stack. case branchNode of
            Branch _ _ \<Rightarrow> (key @ [branchKey], stack @ [Ext [branchKey] (RBytes []), branchNode])
          | _ \<Rightarrow> (key @ branchKey # node_key branchNode,
                  stack @ [set_key (branchKey # node_key branchNode) branchNode])) in
      case parentNode of
        None \<Rightarrow> merged stack
      | Some (Branch bs v) \<Rightarrow> merged (stack @ [Branch bs v])
      | Some parent \<Rightarrow>
          (case branchNode of
             Branch _ _ \<Rightarrow> (key @ [branchKey], stack @ [set_key (node_key parent @ [branchKey]) parent, branchNode])
           | _ \<Rightarrow> (key @ branchKey # node_key branchNode,
                   stack @ [set_key (node_key parent @ branchKey # node_key branchNode) branchNode])))"

text \<open>From the branch that lost a child or its value on.\<close>

definition collapse :: "'c mpt_opts \<Rightarrow> nibbles \<Rightarrow> mpt_node \<Rightarrow> mpt_node option \<Rightarrow> mpt_node list \<Rightarrow> batch_op list
    \<Rightarrow> ('c mpt, unit) stm" where
  "collapse X key lastNode parentNode stack opStack =
     (case lastNode of
        Branch bs v \<Rightarrow>
          (case getChildren bs of
             [(branchKey, branchNode)] \<Rightarrow>
               bindS (if mo_useNodePruning X
                      then (case branchNode of
                          RArr xs \<Rightarrow> bindS (liftS (rlp_encode branchNode)) (\<lambda>e. retS (opStack @ [(appliedKey X e, None)]))
                        | RBytes h \<Rightarrow> retS (opStack @ [(h, None)])
                        | _ \<Rightarrow> failS (Throw ''TypeError''))
                      else retS opStack) (\<lambda>opStack.
               bindS (lookupNode X branchNode) (\<lambda>foundNode.
               let (key, stack) = processBranchMPTNode key branchKey foundNode parentNode stack in
               saveStack X key stack opStack))
           | _ \<Rightarrow> saveStack X key (stack @ (case parentNode of None \<Rightarrow> [] | Some p \<Rightarrow> [p]) @ [lastNode]) opStack)
      | _ \<Rightarrow> failS (Throw ''TypeError''))"

definition deleteNode :: "'c mpt_opts \<Rightarrow> u8 list \<Rightarrow> mpt_node list \<Rightarrow> ('c mpt, unit) stm" where
  "deleteNode X k stack =
     (if stack = [] then failS (Throw ''missing last node'')
      else
        let lastNode = last stack; stack = butlast stack; key = bytesToNibbles k in
        if stack = [] then set_root X (Some (EMPTY_TRIE_ROOT X))
        else
          let parentNode = last stack; stack = butlast stack in
          case lastNode of
            Branch bs v \<Rightarrow> collapse X key (set_value RNull lastNode) (Some parentNode) stack []
          | _ \<Rightarrow>
              (case parentNode of
                 Branch bs v \<Rightarrow>
                   let key = splice_end key (length (node_key lastNode)) in
                   bindS (liftS (formatNode X lastNode False True [])) (\<lambda>(_, opStack).
                   collapse X (butlast key)
                     (if key = [] then parentNode else set_branch (last key) RNull parentNode)
                     (if stack = [] then None else Some (last stack)) (butlast stack) opStack)
               | _ \<Rightarrow> failS (Throw ''Expected branch node'')))"

section \<open>The interface\<close>

definition mpt_del :: "'c mpt_opts \<Rightarrow> u8 list \<Rightarrow> bool \<Rightarrow> ('c mpt, unit) stm" where
  "mpt_del X key skipKeyTransform =
     (let appliedKey = (if skipKeyTransform then key else appliedKey X key) in
      bindS (findPath X appliedKey False) (\<lambda>(node, remaining, stack).
      bindS (if mo_useNodePruning X \<and> node \<noteq> None then liftS (prune_ops X stack) else retS []) (\<lambda>ops.
      thenS (whenS (node \<noteq> None) (deleteNode X appliedKey stack))
      (thenS (whenS (mo_useNodePruning X) (db_batch X ops))
      (persistRoot X)))))"

definition mpt_put :: "'c mpt_opts \<Rightarrow> u8 list \<Rightarrow> u8 list option \<Rightarrow> bool \<Rightarrow> ('c mpt, unit) stm" where
  "mpt_put X key val skipKeyTransform =
     (if mo_useRootPersistence X \<and> key = ROOT_DB_KEY
      then failS (Throw ''Attempted to set __root__ key but it is not allowed.'')
      else
        case val of
          None \<Rightarrow> mpt_del X key False
        | Some v \<Rightarrow>
          if v = [] then mpt_del X key False
          else
            let applied = (if skipKeyTransform then key else appliedKey X key) in
            bindS (getS mp_root) (\<lambda>root.
            thenS
              (if root = EMPTY_TRIE_ROOT X then createInitialNode X applied v
               else
                 bindS (findPath X applied False) (\<lambda>(node, remaining, stack).
                 bindS (if mo_useNodePruning X
                        then bindS (mpt_get X key False) (\<lambda>val.
                          if val = RNull \<or> val \<noteq> RBytes v then liftS (prune_ops X stack) else retS [])
                        else retS []) (\<lambda>ops.
                 thenS (updateNode X applied v remaining stack)
                 (whenS (mo_useNodePruning X) (db_batch X ops)))))
              (persistRoot X)))"

datatype trie_op = TPut "u8 list" "u8 list option" | TDel "u8 list"

fun batch_loop :: "'c mpt_opts \<Rightarrow> trie_op list \<Rightarrow> bool \<Rightarrow> ('c mpt, unit) stm" where
  "batch_loop X [] skip = retS ()"
| "batch_loop X (TPut k v # ops) skip =
     (if v = None then failS (Throw ''Invalid batch db operation'')
      else thenS (mpt_put X k v skip) (batch_loop X ops skip))"
| "batch_loop X (TDel k # ops) skip = thenS (mpt_del X k skip) (batch_loop X ops skip)"

definition mpt_batch :: "'c mpt_opts \<Rightarrow> trie_op list \<Rightarrow> bool \<Rightarrow> ('c mpt, unit) stm" where
  "mpt_batch X ops skipKeyTransform = thenS (batch_loop X ops skipKeyTransform) (persistRoot X)"

section \<open>Checkpoints\<close>

definition mpt_hasCheckpoints :: "'c mpt \<Rightarrow> bool" where
  "mpt_hasCheckpoints s \<longleftrightarrow> ck_hasCheckpoints (mp_db s)"

definition mpt_checkpoint :: "'c mpt \<Rightarrow> 'c mpt" where
  "mpt_checkpoint s = s\<lparr>mp_db := ck_checkpoint (mp_root s) (mp_db s)\<rparr>"

definition mpt_commit :: "'c mpt_opts \<Rightarrow> ('c mpt, unit) stm" where
  "mpt_commit X =
     bindS (getS mpt_hasCheckpoints) (\<lambda>b.
     if \<not> b then failS (Throw ''trying to commit when not checkpointed'')
     else thenS (\<lambda>s. case ck_commit (mo_lib X) (mo_lru X) (mp_db s) of
            Inl e \<Rightarrow> (Inl e, s) | Inr d \<Rightarrow> (Inr (), s\<lparr>mp_db := d\<rparr>))
          (persistRoot X))"

definition mpt_revert :: "'c mpt_opts \<Rightarrow> ('c mpt, unit) stm" where
  "mpt_revert X =
     bindS (getS mpt_hasCheckpoints) (\<lambda>b.
     if \<not> b then failS (Throw ''trying to revert when not checkpointed'')
     else bindS (\<lambda>s. case ck_revert (mp_db s) of
            Inl e \<Rightarrow> (Inl e, s) | Inr (root, d) \<Rightarrow> (Inr root, s\<lparr>mp_db := d\<rparr>)) (\<lambda>root.
          thenS (set_root X (Some root)) (persistRoot X)))"

definition flushCheckpoints :: "'c mpt \<Rightarrow> 'c mpt" where
  "flushCheckpoints s = s\<lparr>mp_db := (mp_db s)\<lparr>ck_checkpoints := []\<rparr>\<rparr>"

end
