(* ===== verification/MptPath.thy ===== *)
theory MptPath
  imports MptTree
begin

text \<open>
  How a tree is written down and how a walk sees it. \<open>dnode\<close> is the item a tree is serialized as, \<open>ref\<close>
  the reference a parent holds of it: the item when its encoding is shorter than 32 bytes, else the hash
  of the encoding. \<open>reps\<close> relates a node in memory to a tree. A walk from the root is a list of
  \<open>frame\<close>s, one for each node above the last; \<open>plug\<close> puts a tree below them.
\<close>

section \<open>Trees as items\<close>

definition link :: "(u8 list \<Rightarrow> u8 list) \<Rightarrow> rlp_data list \<Rightarrow> rlp_data" where
  "link h ds = (let e = enc (DList ds) in if 32 \<le> length e then DBytes (h e) else DList ds)"

definition dval :: "u8 list option \<Rightarrow> rlp_data" where
  "dval v = DBytes (case v of None \<Rightarrow> [] | Some v \<Rightarrow> v)"

primrec dnode :: "(u8 list \<Rightarrow> u8 list) \<Rightarrow> ptree \<Rightarrow> rlp_data list" where
  "dnode h (PLeaf k v) = [DBytes (packed k True), DBytes v]"
| "dnode h (PExt k t) = [DBytes (packed k False), link h (dnode h t)]"
| "dnode h (PBranch ts v) =
     map (\<lambda>x. case x of None \<Rightarrow> DBytes [] | Some ds \<Rightarrow> link h ds) (map (map_option (dnode h)) ts) @ [dval v]"

definition encoding :: "(u8 list \<Rightarrow> u8 list) \<Rightarrow> ptree \<Rightarrow> u8 list" where
  "encoding h t = enc (DList (dnode h t))"

definition ref :: "(u8 list \<Rightarrow> u8 list) \<Rightarrow> ptree \<Rightarrow> rlp_data" where
  "ref h t = link h (dnode h t)"

definition dslot :: "(u8 list \<Rightarrow> u8 list) \<Rightarrow> ptree option \<Rightarrow> rlp_data" where
  "dslot h x = (case x of None \<Rightarrow> DBytes [] | Some t \<Rightarrow> ref h t)"

lemma dnode_branch: "dnode h (PBranch ts v) = map (dslot h) ts @ [dval v]"
  by (auto simp: dslot_def ref_def split: option.split)

lemma ref_eq: "ref h t = (if 32 \<le> length (encoding h t) then DBytes (h (encoding h t)) else DList (dnode h t))"
  by (simp add: ref_def link_def encoding_def Let_def)

primrec parts :: "ptree \<Rightarrow> ptree set" where
  "parts (PLeaf k v) = {PLeaf k v}"
| "parts (PExt k t) = insert (PExt k t) (parts t)"
| "parts (PBranch ts v) = insert (PBranch ts v)
     (\<Union>x \<in> set (map (map_option parts) ts). case x of None \<Rightarrow> {} | Some s \<Rightarrow> s)"

lemma parts_branch: "parts (PBranch ts v) = insert (PBranch ts v) (\<Union>t \<in> {t. Some t \<in> set ts}. parts t)"
  by (force split: option.splits)

declare parts.simps(3) [simp del] parts_branch [simp] dnode.simps(3) [simp del] dnode_branch [simp]

lemma parts_refl [simp]: "t \<in> parts t"
  by (cases t) simp_all

abbreviation encs :: "(u8 list \<Rightarrow> u8 list) \<Rightarrow> ptree \<Rightarrow> u8 list set" where
  "encs h t \<equiv> encoding h ` parts t"

text \<open>Trees whose encodings RLP can write.\<close>

lemma length_len_prefix_le: "n < 256 ^ 8 \<Longrightarrow> length (len_prefix n off) \<le> 9"
  using length_be_bytes_le [of n 8] by (simp add: len_prefix_def)

lemma length_enc_bytes_le: "length b < 256 ^ 8 \<Longrightarrow> length (enc (DBytes b)) \<le> length b + 9"
  using length_len_prefix_le [of "length b" 128] by auto

lemma length_enc_list:
  assumes "\<forall>d \<in> set ds. length (enc d) \<le> n" "length ds * n < 256 ^ 8"
  shows "length (enc (DList ds)) \<le> length ds * n + 9"
proof -
  have "length (concat (map enc ds)) \<le> length ds * n"
    using assms(1) by (induction ds) auto
  then show ?thesis using length_len_prefix_le [of "length (concat (map enc ds))" 192] assms(2) by (simp add: Let_def)
qed

lemma length_link: "length (enc (link h ds)) \<le> length (h (enc (DList ds))) + 41" if "length (h (enc (DList ds))) < 2 ^ 32"
  using length_enc_bytes_le [of "h (enc (DList ds))"] that by (simp add: link_def Let_def del: enc.simps)

lemma length_packed: "length (packed k t) \<le> length k + 1"
  by (simp add: packed_def addHexPrefix_def Let_def)

lemma encoding_bound:
  assumes "wf_tree t" "\<And>x. length (h x) < 2 ^ 32"
  shows "length (encoding h t) < 256 ^ 8"
proof -
  have p: "length (enc (DBytes (packed k b))) \<le> 2 ^ 33" if "small k" for k b
    using length_enc_bytes_le [of "packed k b"] length_packed [of k b] that by (simp del: enc.simps)
  have v: "length (enc (DBytes v)) \<le> 2 ^ 33" if "small v" for v
    using length_enc_bytes_le [of v] that by (simp del: enc.simps)
  have r: "length (enc (link h ds)) \<le> 2 ^ 33" for ds
  proof -
    have "length (enc (link h ds)) \<le> length (h (enc (DList ds))) + 41" by (rule length_link) (rule assms(2))
    moreover have "length (h (enc (DList ds))) < 2 ^ 32" by (rule assms(2))
    ultimately show ?thesis by (simp del: enc.simps)
  qed
  have "\<forall>d \<in> set (dnode h t). length (enc d) \<le> 2 ^ 33" "length (dnode h t) \<le> 17"
    using assms(1) p v r v [of "[]"]
    by (cases t; auto simp: dslot_def ref_def dval_def simp del: enc.simps split: option.splits)+
  then show ?thesis
    using length_enc_list [of "dnode h t" "2 ^ 33"] mult_le_mono1 [of "length (dnode h t)" 17 "2 ^ 33"]
    by (simp add: encoding_def del: enc.simps)
qed

section \<open>Nodes in memory\<close>

text \<open>A node that stands for a tree, with references to the children, and one on the path to a change,
  whose reference to the next is stale.\<close>

definition slot_ok :: "(u8 list \<Rightarrow> u8 list) \<Rightarrow> rlp_input \<Rightarrow> ptree option \<Rightarrow> bool" where
  "slot_ok h b x \<longleftrightarrow> plain b \<and> dat b = dslot h x"

fun reps :: "(u8 list \<Rightarrow> u8 list) \<Rightarrow> mpt_node \<Rightarrow> ptree \<Rightarrow> bool" where
  "reps h (Leaf k x) (PLeaf k' v) \<longleftrightarrow> k = k' \<and> x = RBytes v"
| "reps h (Ext k x) (PExt k' t) \<longleftrightarrow> k = k' \<and> plain x \<and> dat x = ref h t"
| "reps h (Branch bs x) (PBranch ts v) \<longleftrightarrow> length bs = 16 \<and> length ts = 16
     \<and> (\<forall>i < 16. slot_ok h (bs ! i) (ts ! i)) \<and> plain x \<and> dat x = dval v"
| "reps h _ _ \<longleftrightarrow> False"

fun_cases reps_LeafE: "reps h n (PLeaf k v)" and reps_ExtE: "reps h n (PExt k t)"
  and reps_BranchE: "reps h n (PBranch ts v)"

lemma plain_bytes: "plain x \<Longrightarrow> dat x = DBytes b \<Longrightarrow> b \<noteq> [] \<Longrightarrow> x = RBytes b"
  by (cases x) simp_all

lemma plain_list: "plain x \<Longrightarrow> dat x = DList ds \<Longrightarrow> \<exists>xs. x = RArr xs \<and> map dat xs = ds \<and> list_all plain xs"
  by (cases x) simp_all

lemma filled_dat: "plain x \<Longrightarrow> filled x \<longleftrightarrow> dat x \<noteq> DBytes [] \<and> dat x \<noteq> DList []"
  by (cases x) (auto simp: filled_def)

lemma slots_map: "length bs = 16 \<Longrightarrow> length ts = 16 \<Longrightarrow>
    (\<forall>i < 16. slot_ok h (bs ! i) (ts ! i)) \<longleftrightarrow> map dat bs = map (dslot h) ts \<and> list_all plain bs"
  by (auto simp: slot_ok_def list_all_length list_eq_iff_nth_eq)

lemma reps_raw: "reps h n t \<Longrightarrow> map dat (raw n) = dnode h t \<and> list_all plain (raw n)"
  by (cases n; cases t) (auto simp: packed_def slots_map ref_def)

lemma raw_reps:
  assumes "map dat xs = dnode h t" "list_all plain xs" "wf_tree t"
  shows "\<exists>n. decodeRawMPTNode xs = Inr n \<and> reps h n t"
proof -
  have key: "x = RBytes (packed k b)" if "plain x" "dat x = DBytes (packed k b)" for x k b
  proof (rule plain_bytes [OF that])
    have "length (packed k b) \<noteq> 0" by (simp add: packed_def addHexPrefix_def Let_def)
    then show "packed k b \<noteq> []" by auto
  qed
  show ?thesis
  proof (cases t)
    case (PLeaf k v)
    with assms obtain x y where "xs = [x, y]" "dat x = DBytes (packed k True)" "dat y = DBytes v" "plain x" "plain y"
      by (auto simp: map_eq_Cons_conv)
    with PLeaf assms(3) key [of x k True] plain_bytes [of y v] show ?thesis
      by (simp add: decodeRawMPTNode_def unpacked hex_prefix)
  next
    case (PExt k u)
    with assms obtain x y where "xs = [x, y]" "dat x = DBytes (packed k False)" "dat y = ref h u" "plain x" "plain y"
      by (auto simp: map_eq_Cons_conv ref_def)
    with PExt assms(3) key [of x k False] show ?thesis
      by (simp add: decodeRawMPTNode_def unpacked hex_prefix)
  next
    case (PBranch ts v)
    have xs: "length xs = 17" using arg_cong [OF assms(1), of length] PBranch assms(3) by simp
    then have split: "xs = take 16 xs @ [xs ! 16]" using take_Suc_conv_app_nth [of 16 xs] by simp
    have "map dat (take 16 xs) @ [dat (xs ! 16)] = map (dslot h) ts @ [dval v]"
      using assms(1) PBranch by (subst (asm) split) simp
    moreover have "list_all plain (take 16 xs)" "plain (xs ! 16)"
      using assms(2) by (subst (asm) split, simp)+
    ultimately show ?thesis
      using xs PBranch assms(3) slots_map [of "take 16 xs" ts h] by (simp add: decodeRawMPTNode_def)
  qed
qed

text \<open>A node on the path.\<close>

datatype frame = FExt nibbles | FBranch "ptree option list" "u8 list option" nat

fun plug :: "frame list \<Rightarrow> ptree \<Rightarrow> ptree" where
  "plug [] t = t"
| "plug (FExt k # fs) t = PExt k (plug fs t)"
| "plug (FBranch ts v i # fs) t = PBranch (ts[i := Some (plug fs t)]) v"

fun fpath :: "frame list \<Rightarrow> nibbles" where
  "fpath [] = []"
| "fpath (FExt k # fs) = k @ fpath fs"
| "fpath (FBranch ts v i # fs) = i # fpath fs"

fun freps :: "(u8 list \<Rightarrow> u8 list) \<Rightarrow> mpt_node \<Rightarrow> frame \<Rightarrow> bool" where
  "freps h (Ext k x) (FExt k') \<longleftrightarrow> k = k' \<and> plain x"
| "freps h (Branch bs x) (FBranch ts v i) \<longleftrightarrow> length bs = 16 \<and> length ts = 16 \<and> i < 16
     \<and> (\<forall>j < 16. j \<noteq> i \<longrightarrow> slot_ok h (bs ! j) (ts ! j)) \<and> plain x \<and> dat x = dval v"
| "freps h _ _ \<longleftrightarrow> False"

fun_cases freps_ExtE: "freps h n (FExt k)" and freps_BranchE: "freps h n (FBranch ts v i)"

text \<open>The nodes on the path as trees, the root first, and nodes in memory that stand for them.\<close>

fun spine :: "frame list \<Rightarrow> ptree \<Rightarrow> ptree list" where
  "spine [] u = [u]"
| "spine (f # fs) u = plug (f # fs) u # spine fs u"

fun preps :: "(u8 list \<Rightarrow> u8 list) \<Rightarrow> mpt_node list \<Rightarrow> frame list \<Rightarrow> ptree \<Rightarrow> bool" where
  "preps h [] [] u \<longleftrightarrow> True"
| "preps h (n # ns) (f # fs) u \<longleftrightarrow> freps h n f \<and> reps h n (plug (f # fs) u) \<and> preps h ns fs u"
| "preps h _ _ u \<longleftrightarrow> False"

lemma preps_frames: "preps h ns fs u \<Longrightarrow> list_all2 (freps h) ns fs"
  by (induction h ns fs u rule: preps.induct) simp_all

lemma plug_append: "plug (fs @ gs) t = plug fs (plug gs t)"
  by (induction fs t rule: plug.induct) simp_all

lemma fpath_append: "fpath (fs @ gs) = fpath fs @ fpath gs"
  by (induction fs rule: fpath.induct) simp_all

text \<open>The trees beside the path.\<close>

fun beside :: "frame list \<Rightarrow> ptree set" where
  "beside [] = {}"
| "beside (FExt k # fs) = beside fs"
| "beside (FBranch ts v i # fs) = {t. \<exists>j < length ts. j \<noteq> i \<and> ts ! j = Some t} \<union> beside fs"

lemma beside_append: "beside (fs @ gs) = beside fs \<union> beside gs"
  by (induction fs rule: beside.induct) auto

section \<open>The path to a key\<close>

text \<open>The frames above the node where the walk stops, that node, what is left of the path there, and whether
  the key is found.\<close>

fun descend :: "ptree \<Rightarrow> nibbles \<Rightarrow> frame list \<times> ptree \<times> nibbles \<times> bool" where
  "descend (PLeaf k v) p = ([], PLeaf k v, p, k = p)"
| "descend (PExt k t) p =
     (if take (length k) p = k
      then (case descend t (drop (length k) p) of (fs, r) \<Rightarrow> (FExt k # fs, r)) else ([], PExt k t, p, False))"
| "descend (PBranch ts v) [] = ([], PBranch ts v, [], True)"
| "descend (PBranch ts v) (x # p) =
     (case ts ! x of None \<Rightarrow> ([], PBranch ts v, x # p, False)
      | Some t \<Rightarrow> (case descend t p of (fs, r) \<Rightarrow> (FBranch ts v x # fs, r)))"

lemma descend_plug:
  "descend t p = (fs, u, r, b) \<Longrightarrow> t = plug fs u \<and> p = fpath fs @ r"
proof (induction t p arbitrary: fs rule: descend.induct)
  case (2 k t p)
  then show ?case
    by (cases "descend t (drop (length k) p)") (auto split: if_splits, metis append_take_drop_id)
next
  case (4 ts v x p)
  then show ?case by (cases "ts ! x") (auto split: prod.splits, metis list_update_id)
qed auto

definition on_path :: "ptree \<Rightarrow> nibbles \<Rightarrow> ptree list" where
  "on_path t p = (case descend t p of (fs, u, _) \<Rightarrow> spine fs u)"

lemma on_path_simps:
  "take (length k) p = k \<Longrightarrow> on_path (PExt k t) p = PExt k t # on_path t (drop (length k) p)"
  "ts ! x = Some t \<Longrightarrow> on_path (PBranch ts v) (x # p) = PBranch ts v # on_path t p"
proof -
  obtain fs u q b where d: "descend t (drop (length k) p) = (fs, u, q, b)" by (metis prod_cases4)
  with descend_plug [OF d] show "take (length k) p = k \<Longrightarrow> on_path (PExt k t) p = PExt k t # on_path t (drop (length k) p)"
    by (simp add: on_path_def)
next
  assume t: "ts ! x = Some t"
  obtain fs u q b where d: "descend t p = (fs, u, q, b)" by (metis prod_cases4)
  with descend_plug [OF d] t list_update_id [of ts x] show "on_path (PBranch ts v) (x # p) = PBranch ts v # on_path t p"
    by (simp add: on_path_def)
qed

lemma on_path_hd: "\<exists>ts. on_path t p = t # ts"
proof -
  obtain fs u q b where "descend t p = (fs, u, q, b)" by (metis prod_cases4)
  with descend_plug [OF this] show ?thesis by (cases fs) (auto simp: on_path_def)
qed

lemma descend_wf: "descend t p = (fs, u, r, b) \<Longrightarrow> wf_tree t \<Longrightarrow> nibs p \<Longrightarrow> wf_tree u \<and> nibs r"
proof (induction t p arbitrary: fs rule: descend.induct)
  case (2 k t p)
  then show ?case by (cases "descend t (drop (length k) p)") (auto split: if_splits simp: nibs_parts)
next
  case (4 ts v x p)
  then show ?case by (cases "ts ! x") (auto split: prod.splits)
qed auto

lemma descend_ins:
  "descend t p = (fs, u, r, b) \<Longrightarrow> tree_ins t p v = plug fs (tree_ins u r v)"
proof (induction t p arbitrary: fs rule: descend.induct)
  case (2 k t p)
  then show ?case by (cases "descend t (drop (length k) p)") (auto split: if_splits)
next
  case (4 ts w x p)
  then show ?case by (cases "ts ! x") (auto split: prod.splits)
qed auto

lemma descend_lookup:
  "descend t p = (fs, u, r, b) \<Longrightarrow> tree_lookup t p = (if b then
     (case u of PLeaf k v \<Rightarrow> Some v | PExt k t \<Rightarrow> None | PBranch ts v \<Rightarrow> v) else None)"
proof (induction t p arbitrary: fs rule: descend.induct)
  case (2 k t p)
  then show ?case by (cases "descend t (drop (length k) p)") (auto split: if_splits)
next
  case (4 ts w x p)
  then show ?case by (cases "ts ! x") (auto split: prod.splits)
qed auto

end
