(* ===== verification/MptSound.thy ===== *)
theory MptSound
  imports Mpt MptPath
begin

text \<open>
  The trie in the database is the tree. \<open>mpt_holds X s c\<close> says that the trie \<open>s\<close> holds the tree \<open>c\<close>, or
  nothing: its root is the hash of the tree's encoding and every part that is referred to by hash is in
  the database. The locale \<open>mpt_store\<close> has what is needed of the options; in it \<open>findPath\<close> is shown to
  follow the walk in the tree and \<open>get\<close> to find what the tree has at the key.
\<close>

section \<open>The database under the trie\<close>

lemma cps_set_roots: "cs \<noteq> [] \<Longrightarrow> map cp_root (cps_set k v cs) = map cp_root cs"
  by (cases cs rule: rev_exhaust) (simp_all add: cps_set_def)

lemma ck_put_roots: "map cp_root (ck_checkpoints (ck_put L C k v s)) = map cp_root (ck_checkpoints s)"
  by (auto simp: ck_put_def ck_hasCheckpoints_def cps_set_roots Let_def split: option.split)

lemma ck_del_roots: "map cp_root (ck_checkpoints (ck_del L C k s)) = map cp_root (ck_checkpoints s)"
  by (auto simp: ck_del_def ck_hasCheckpoints_def cps_set_roots Let_def split: option.split)

lemma ck_batch_roots: "map cp_root (ck_checkpoints (ck_batch L C ops s)) = map cp_root (ck_checkpoints s)"
proof -
  have "map cp_root (ck_checkpoints (fold (\<lambda>(key, val) s. case val of Some v \<Rightarrow> ck_put L C key v s
      | None \<Rightarrow> ck_del L C key s) ops s)) = map cp_root (ck_checkpoints s)"
    by (induction ops arbitrary: s) (auto simp: ck_put_roots ck_del_roots split: option.split prod.split)
  then show ?thesis by (simp add: ck_batch_def Let_def)
qed

lemma ck_get_roots: "ck_inv s \<Longrightarrow> ck_get L C k s = Inr (v, s') \<Longrightarrow> map cp_root (ck_checkpoints s') = map cp_root (ck_checkpoints s)"
  by (auto simp: ck_get_def ck_get_below_def ck_inv_def Let_def bindE_eq_Inr ck_hasCheckpoints_def cps_set_roots
      split: option.splits if_splits)

text \<open>What is in the database under a hash, and what a method that only reads leaves as it is: the contents and the
  open checkpoints.\<close>

definition mpt_look :: "'c mpt_opts \<Rightarrow> 'c mpt \<Rightarrow> u8 list \<Rightarrow> u8 list option" where
  "mpt_look X s k = ck_look (mo_lib X) (mp_db s) (bytesToUnprefixedHex (mo_lib X) (prefixed X k))"

definition mpt_saved :: "'c mpt_opts \<Rightarrow> 'c mpt \<Rightarrow> u8 list list \<times> kv_view list" where
  "mpt_saved X s = (map cp_root (ck_checkpoints (mp_db s)), ck_saved (mo_lib X) (mp_db s))"

definition mpt_good :: "'c mpt \<Rightarrow> bool" where
  "mpt_good s \<longleftrightarrow> ck_inv (mp_db s)"

definition mpt_same :: "'c mpt_opts \<Rightarrow> 'c mpt \<Rightarrow> 'c mpt \<Rightarrow> bool" where
  "mpt_same X s s' \<longleftrightarrow> mpt_good s' \<and> mp_root s' = mp_root s
     \<and> ck_look (mo_lib X) (mp_db s') = ck_look (mo_lib X) (mp_db s) \<and> mpt_saved X s' = mpt_saved X s"

text \<open>The parts of a tree that are referred to by hash are in the database.\<close>

definition mpt_stored :: "'c mpt_opts \<Rightarrow> 'c mpt \<Rightarrow> ptree \<Rightarrow> bool" where
  "mpt_stored X s t \<longleftrightarrow> (\<forall>u \<in> parts t. 32 \<le> length (encoding (mo_hash X) u) \<longrightarrow>
     mpt_look X s (mo_hash X (encoding (mo_hash X) u)) = Some (encoding (mo_hash X) u))"

text \<open>The trie holds a tree, or nothing.\<close>

definition mpt_holds :: "'c mpt_opts \<Rightarrow> 'c mpt \<Rightarrow> ptree option \<Rightarrow> bool" where
  "mpt_holds X s c \<longleftrightarrow> mpt_good s \<and> mpt_look X s (EMPTY_TRIE_ROOT X) = None \<and>
     (case c of None \<Rightarrow> mp_root s = EMPTY_TRIE_ROOT X
      | Some t \<Rightarrow> wf_tree t \<and> mpt_stored X s t \<and> mp_root s = mo_hash X (encoding (mo_hash X) t)
          \<and> mpt_look X s (mp_root s) = Some (encoding (mo_hash X) t))"

definition mpt_opts_ok :: "'c mpt_opts \<Rightarrow> bool" where
  "mpt_opts_ok X \<longleftrightarrow> lib_ok (mo_lib X) \<and> (\<forall>b. length (mo_hash X b) = hashLen X) \<and> 0 < hashLen X
     \<and> hashLen X < 2 ^ 32 \<and> \<not> mo_useNodePruning X"

locale mpt_store =
  fixes X :: "'c mpt_opts"
  assumes options: "mpt_opts_ok X"
begin

lemmas opts = options [unfolded mpt_opts_ok_def]

lemma codec: "lib_ok (mo_lib X)" and hash_length: "length (mo_hash X b) = hashLen X"
    and hash_pos: "0 < hashLen X" and hash_bound: "hashLen X < 2 ^ 32" and keeps_nodes: "\<not> mo_useNodePruning X"
  using opts by blast+

abbreviation "h \<equiv> mo_hash X"

abbreviation "look_all s \<equiv> ck_look (mo_lib X) (mp_db s)"

abbreviation "look \<equiv> mpt_look X"
abbreviation "saved \<equiv> mpt_saved X"
abbreviation "same \<equiv> mpt_same X"
abbreviation "stored \<equiv> mpt_stored X"
abbreviation "holds \<equiv> mpt_holds X"

lemma same_refl [simp]: "same s s \<longleftrightarrow> mpt_good s"
  by (simp add: mpt_same_def mpt_good_def)

lemma same_good [simp]: "same s s' \<Longrightarrow> mpt_good s'"
  by (simp add: mpt_same_def mpt_good_def)

lemma same_trans: "same s s' \<Longrightarrow> same s' s'' \<Longrightarrow> same s s''"
  by (simp add: mpt_same_def)

lemma same_look: "same s s' \<Longrightarrow> look s' = look s"
  by (simp add: mpt_same_def mpt_look_def fun_eq_iff)

lemma key_inj: "bytesToUnprefixedHex (mo_lib X) (prefixed X k) = bytesToUnprefixedHex (mo_lib X) (prefixed X k') \<longleftrightarrow> k = k'"
proof
  assume "bytesToUnprefixedHex (mo_lib X) (prefixed X k) = bytesToUnprefixedHex (mo_lib X) (prefixed X k')"
  then have "bytesToHex (mo_lib X) (prefixed X k) = bytesToHex (mo_lib X) (prefixed X k')" by (simp add: bytesToHex_def)
  then have "prefixed X k = prefixed X k'"
    using codec by (metis bytesToHex_eq lib_okD(2) sum.inject(2) same_append_eq)
  then show "k = k'" by (simp add: prefixed_def split: option.splits)
qed simp

lemma db_get_ok:
  assumes "mpt_good s"
  shows "\<exists>s'. db_get X (prefixed X k) s = (Inr (look s k), s') \<and> same s s'"
proof -
  obtain d where d: "ck_get (mo_lib X) (mo_lru X) (prefixed X k) (mp_db s)
      = Inr (look_all s (bytesToUnprefixedHex (mo_lib X) (prefixed X k)), d)"
    "ck_inv d" "ck_look (mo_lib X) d = look_all s" "ck_saved (mo_lib X) d = ck_saved (mo_lib X) (mp_db s)"
    using ck_get_ok [OF codec, of "mp_db s" "mo_lru X" "prefixed X k"] assms by (auto simp: mpt_good_def)
  with ck_get_roots [OF _ d(1)] assms show ?thesis
    by (auto simp: db_get_def mpt_look_def mpt_same_def mpt_saved_def mpt_good_def)
qed

lemma same_stored: "same s s' \<Longrightarrow> stored s' t = stored s t"
  by (simp add: mpt_stored_def same_look)

lemma stored_ext: "stored s (PExt k t) \<Longrightarrow> stored s t"
  by (simp add: mpt_stored_def)

lemma stored_branch: "stored s (PBranch ts v) \<Longrightarrow> i < length ts \<Longrightarrow> ts ! i = Some t \<Longrightarrow> stored s t"
  by (auto simp: mpt_stored_def in_set_conv_nth)

text \<open>A reference that leads to a node of a tree.\<close>

definition resolves :: "'c mpt \<Rightarrow> rlp_input \<Rightarrow> ptree \<Rightarrow> bool" where
  "resolves s r t \<longleftrightarrow> (\<forall>s0. same s s0 \<longrightarrow> (\<exists>n s'. lookupNode X r s0 = (Inr n, s') \<and> reps h n t \<and> same s0 s'))"

lemma same_resolves: "same s s' \<Longrightarrow> resolves s r t \<Longrightarrow> resolves s' r t"
  unfolding resolves_def using same_trans by blast

lemma encoding_small: "wf_tree t \<Longrightarrow> length (encoding h t) < 256 ^ 8"
  using hash_length hash_bound by (intro encoding_bound) simp_all

lemma resolves_hash:
  assumes "look s k = Some (encoding h t)" "wf_tree t"
  shows "resolves s (RBytes k) t"
  unfolding resolves_def
proof (intro allI impI)
  fix s0 assume s0: "same s s0"
  obtain s' where s': "db_get X (prefixed X k) s0 = (Inr (look s0 k), s')" "same s0 s'"
    using db_get_ok [of s0 k] same_good [OF s0] by blast
  have "rlp_decode (RBytes (encoding h t)) False = Inr (Data (DList (dnode h t)))"
    using rlp_decode_enc [of "DList (dnode h t)"] encoding_small [OF assms(2)] by (simp add: encoding_def del: enc.simps)
  moreover obtain n where "decodeRawMPTNode (map input_of (dnode h t)) = Inr n" "reps h n t"
    using raw_reps [of "map input_of (dnode h t)" h t] assms(2) by (auto simp: list_all_iff comp_def)
  ultimately have "decodeMPTNode (encoding h t) = Inr n" "reps h n t" by (simp_all add: decodeMPTNode_def)
  with s' assms(1) same_look [OF s0] show "\<exists>n s'. lookupNode X (RBytes k) s0 = (Inr n, s') \<and> reps h n t \<and> same s0 s'"
    by (simp add: lookupNode_def bindS_def liftS_def)
qed

lemma resolves_ref:
  assumes "stored s t" "wf_tree t" "plain r" "dat r = ref h t"
  shows "resolves s r t"
proof (cases "32 \<le> length (encoding h t)")
  case True
  then have "look s (h (encoding h t)) = Some (encoding h t)" using assms(1) by (simp add: mpt_stored_def)
  moreover have "h (encoding h t) \<noteq> []" using hash_length [of "encoding h t"] hash_pos by auto
  then have "r = RBytes (h (encoding h t))" using plain_bytes [OF assms(3)] assms(4) True by (simp add: ref_eq)
  ultimately show ?thesis using resolves_hash assms(2) by simp
next
  case False
  with assms(3,4) obtain xs where xs: "r = RArr xs" "map dat xs = dnode h t" "list_all plain xs"
    using plain_list [of r "dnode h t"] by (auto simp: ref_eq)
  from raw_reps [OF xs(2,3) assms(2)] obtain n where "decodeRawMPTNode xs = Inr n" "reps h n t" by blast
  with xs(1) show ?thesis by (auto simp: resolves_def lookupNode_def liftS_def intro: same_good)
qed

lemma ref_filled: "plain r \<Longrightarrow> dat r = ref h t \<Longrightarrow> filled r"
  using hash_length [of "encoding h t"] hash_pos
  by (cases t) (auto simp: filled_dat ref_eq)

section \<open>Walking to a key\<close>

abbreviation live :: "'a option list \<Rightarrow> 'a list" where
  "live xs \<equiv> map the (filter (\<lambda>x. x \<noteq> None) xs)"

lemma js_set_next: "js_set (pre @ replicate k None) (length pre) n = (pre @ [Some n]) @ replicate (k - 1) None"
  by (cases k) (simp_all add: js_set_def)

lemma js_set_end [simp]: "js_set pre (length pre) n = pre @ [Some n]"
  using js_set_next [of pre 0 n] by simp

lemma js_set_cons [simp]: "js_set (pre @ None # r) (length pre) n = pre @ Some n # r"
  by (simp add: js_set_def)

lemma live_none [simp]: "filter (\<lambda>x. x \<noteq> None) (replicate k None) = []"
  by (induction k) simp_all

lemma freps_of:
  "reps h n (PExt k t) \<Longrightarrow> freps h n (FExt k)"
  "reps h n (PBranch ts v) \<Longrightarrow> i < 16 \<Longrightarrow> freps h n (FBranch ts v i)"
  by (cases n; simp)+

text \<open>What a walk from a node on answers: the nodes it adds to the stack stand for the frames above the last.\<close>

definition walked :: "'c mpt \<Rightarrow> mpt_node list \<Rightarrow> frame list \<times> ptree \<times> nibbles \<times> bool
    \<Rightarrow> (js_error + path) \<times> 'c mpt \<Rightarrow> bool" where
  "walked s tops d r \<longleftrightarrow> (case d of (fs, u, q, b) \<Rightarrow> \<exists>ns m s' pa. r = (Inr pa, s') \<and> same s s'
    \<and> pa_node pa = (if b then Some m else None) \<and> pa_remaining pa = (if b then [] else q)
    \<and> live (pa_stack pa) = tops @ ns @ [m] \<and> preps h ns fs u \<and> reps h m u)"

lemma walked_here: "same s s' \<Longrightarrow> reps h m u \<Longrightarrow> pa_node pa = (if b then Some m else None)
    \<Longrightarrow> pa_remaining pa = (if b then [] else q) \<Longrightarrow> live (pa_stack pa) = tops @ [m]
    \<Longrightarrow> walked s tops ([], u, q, b) (Inr pa, s')"
  unfolding walked_def by force

lemma walked_below:
  assumes "walked s' (tops @ [m]) (fs, u, r) x" "same s s'" "freps h m f" "reps h m (plug (f # fs) u)"
  shows "walked s tops (f # fs, u, r) x"
proof -
  obtain q b where r: "r = (q, b)" by (cases r)
  from assms(1) obtain ns n s'' pa where "x = (Inr pa, s'')" "same s' s''"
    "pa_node pa = (if b then Some n else None)" "pa_remaining pa = (if b then [] else q)"
    "live (pa_stack pa) = (tops @ [m]) @ ns @ [n]" "preps h ns fs u" "reps h n u"
    unfolding walked_def r by auto
  moreover from this have "same s s''" using same_trans assms(2) by blast
  moreover have "preps h (m # ns) (f # fs) u" using assms(3,4) \<open>preps h ns fs u\<close> by simp
  ultimately show ?thesis unfolding walked_def r by force
qed

lemma resolves_node: "resolves s r t \<Longrightarrow> mpt_good s \<Longrightarrow> \<exists>m s'. lookupNode X r s = (Inr m, s') \<and> reps h m t \<and> same s s'"
  unfolding resolves_def by simp

lemma slot_empty: "slot_ok h b None \<Longrightarrow> getBranch bs i = RNull" if "bs ! i = b"
  using that by (auto simp: slot_ok_def dslot_def getBranch_def filled_dat)

lemma slot_full: "slot_ok h b (Some t) \<Longrightarrow> getBranch bs i = b \<and> b \<noteq> RNull" if "bs ! i = b"
  using that ref_filled [of b t] by (auto simp: slot_ok_def dslot_def getBranch_def filled_def)

text \<open>A node the database may lack. A walk that meets a missing one fails, when it is asked to.\<close>

definition known :: "'c mpt \<Rightarrow> ptree \<Rightarrow> bool" where
  "known s w \<longleftrightarrow> (32 \<le> length (encoding h w) \<longrightarrow>
     look s (h (encoding h w)) = None \<or> look s (h (encoding h w)) = Some (encoding h w))"

definition lost :: "'c mpt \<Rightarrow> ptree \<Rightarrow> bool" where
  "lost s w \<longleftrightarrow> 32 \<le> length (encoding h w) \<and> look s (h (encoding h w)) = None"

lemma same_known: "same s s' \<Longrightarrow> known s' = known s" "same s s' \<Longrightarrow> lost s' = lost s"
  by (simp_all add: fun_eq_iff known_def lost_def same_look)

lemma resolves_known:
  assumes "known s t" "\<not> lost s t" "wf_tree t" "plain r" "dat r = ref h t"
  shows "resolves s r t"
proof (cases "32 \<le> length (encoding h t)")
  case True
  then have "look s (h (encoding h t)) = Some (encoding h t)" using assms(1,2) by (auto simp: known_def lost_def)
  moreover have "h (encoding h t) \<noteq> []" using hash_length [of "encoding h t"] hash_pos by auto
  then have "r = RBytes (h (encoding h t))" using plain_bytes [OF assms(4)] assms(5) True by (simp add: ref_eq)
  ultimately show ?thesis using resolves_hash assms(3) by simp
next
  case False
  with assms(4,5) obtain xs where xs: "r = RArr xs" "map dat xs = dnode h t" "list_all plain xs"
    using plain_list [of r "dnode h t"] by (auto simp: ref_eq)
  from raw_reps [OF xs(2,3) assms(3)] obtain n where "decodeRawMPTNode xs = Inr n" "reps h n t" by blast
  with xs(1) show ?thesis by (auto simp: resolves_def lookupNode_def liftS_def intro: same_good)
qed

lemma lookup_missing:
  assumes "look s k = None" "mpt_good s"
  shows "\<exists>s'. lookupNode X (RBytes k) s = (Inl MISSING, s') \<and> same s s'"
  using db_get_ok [OF assms(2), of k] assms(1) by (auto simp: lookupNode_def bindS_def failS_def)

lemma lookup_lost:
  assumes "lost s t" "mpt_good s" "plain r" "dat r = ref h t"
  shows "\<exists>s'. lookupNode X r s = (Inl MISSING, s')"
proof -
  have "h (encoding h t) \<noteq> []" using hash_length [of "encoding h t"] hash_pos by auto
  then have "r = RBytes (h (encoding h t))" using plain_bytes [OF assms(3)] assms(1,4) by (simp add: ref_eq lost_def)
  with lookup_missing [OF _ assms(2)] assms(1) show ?thesis by (auto simp: lost_def)
qed

definition walk_done :: "'c mpt \<Rightarrow> bool \<Rightarrow> mpt_node list \<Rightarrow> ptree \<Rightarrow> nibbles \<Rightarrow> (js_error + path) \<times> 'c mpt \<Rightarrow> bool" where
  "walk_done s miss tops t p r \<longleftrightarrow> walked s tops (descend t p) r
     \<or> (\<exists>w \<in> set (on_path t p). lost s w) \<and> (miss \<longrightarrow> fst r = Inl MISSING)"

text \<open>The same for the rest of the walk, at the child of a node.\<close>

lemma walk_child:
  assumes child: "\<not> lost s' t \<Longrightarrow> walk_done s' miss (tops @ [m]) t p (walk_path n X miss target y i st s')"
    and "same s s'" "plain y" "dat y = ref h t" "0 < n" "on_path u q = u # on_path t p"
    and "descend u q = (case descend t p of (fs, r) \<Rightarrow> (f # fs, r))" "freps h m f" "reps h m u"
  shows "walk_done s miss tops u q (walk_path n X miss target y i st s')"
proof (cases "lost s' t")
  case True
  have "mpt_good s'" using assms(2) by simp
  from lookup_lost [OF True this assms(3,4)] obtain s'' where "lookupNode X y s' = (Inl MISSING, s'')" by blast
  with assms(5) have "miss \<longrightarrow> fst (walk_path n X miss target y i st s') = Inl MISSING" by (cases n) simp_all
  moreover have "t \<in> set (on_path t p)" using on_path_hd [of t p] by auto
  ultimately show ?thesis using True assms(2,6) by (auto simp: walk_done_def same_known)
next
  case False
  obtain fs v r where d: "descend t p = (fs, v, r)" by (metis prod_cases3)
  obtain r1 r2 where r: "r = (r1, r2)" by (cases r)
  have u: "plug (f # fs) v = u" using descend_plug [of u q "f # fs" v r1 r2] assms(7) d r by simp
  let ?w = "walk_path n X miss target y i st s'"
  from child [OF False] consider "walked s' (tops @ [m]) (fs, v, r1, r2) ?w"
    | "\<exists>w \<in> set (on_path t p). lost s' w" "miss \<longrightarrow> fst ?w = Inl MISSING"
    unfolding walk_done_def d r by blast
  then show ?thesis
  proof cases
    case 1
    from walked_below [OF this assms(2,8)] assms(9) u have "walked s tops (f # fs, v, r1, r2) ?w" by simp
    then show ?thesis unfolding walk_done_def assms(7) d r by simp
  next
    case 2
    then have "\<exists>w \<in> set (on_path u q). lost s w" using assms(2,6) by (auto simp: same_known)
    with 2(2) show ?thesis unfolding walk_done_def by blast
  qed
qed

lemma walk_ok:
  assumes "wf_tree t" "nibs p" "\<forall>w \<in> set (on_path t p). known s w" "resolves s r t" "mpt_good s" "p = drop (length pre) target"
    and "length pre \<le> length target" "length p < n"
  shows "walk_done s miss (live pre) t p (walk_path n X miss target r (length pre) (pre @ replicate (length p) None) s)"
  using assms
proof (induction t p arbitrary: n r s pre rule: descend.induct)
  case (1 k v p)
  obtain n' where n: "n = Suc n'" using "1.prems" by (cases n) auto
  obtain m s' where m: "lookupNode X r s = (Inr m, s')" "reps h m (PLeaf k v)" "same s s'"
    using resolves_node [OF "1.prems"(4,5)] by blast
  then have "m = Leaf k (RBytes v)" by (auto elim: reps_LeafE)
  with 1 n m show ?case
    by (auto simp: js_set_next Let_def walk_done_def intro!: walked_here)
next
  case (2 k t p)
  obtain n' where n: "n = Suc n'" using "2.prems" by (cases n) auto
  obtain m s' where m: "lookupNode X r s = (Inr m, s')" "reps h m (PExt k t)" "same s s'"
    using resolves_node [OF "2.prems"(4,5)] by blast
  then obtain y where y: "m = Ext k y" "plain y" "dat y = ref h t" by (auto elim: reps_ExtE)
  show ?case
  proof (cases "take (length k) p = k")
    case False
    with 2 n m y show ?thesis by (auto simp: js_set_next Let_def walk_done_def intro!: walked_here)
  next
    case True
    define pre' where "pre' = pre @ [Some m] @ replicate (length k - 1) None"
    have k: "0 < length k" "length k \<le> length p" using "2.prems"(1) arg_cong [OF True, of length] by auto
    then have l: "length pre' = length pre + length k" "live pre' = live pre @ [m]" by (simp_all add: pre'_def)
    have n': "length (drop (length k) p) < n'" using k "2.prems"(8) n unfolding length_drop by linarith
    have kn: "\<forall>w \<in> set (on_path t (drop (length k) p)). known s' w"
      using "2.prems"(3) on_path_simps(1) [OF True] m(3) by (simp add: same_known)
    have step: "walk_done s' miss (live pre') t (drop (length k) p)
        (walk_path n' X miss target y (length pre') (pre' @ replicate (length (drop (length k) p)) None) s')" if "\<not> lost s' t"
    proof (rule "2.IH" [OF True])
      have "known s' t" using kn on_path_hd [of t "drop (length k) p"] by auto
      then show "resolves s' y t" using y that "2.prems"(1) by (simp add: resolves_known)
      show "nibs (drop (length k) p)" by (rule nibs_parts) (rule "2.prems"(2))
      show "length pre' \<le> length target" using k l "2.prems"(6,7) by auto
    qed (use "2.prems" l m same_good kn n' in \<open>auto simp: add.commute\<close>)
    have "walk_done s miss (live pre) (PExt k t) p
        (walk_path n' X miss target y (length pre') (pre' @ replicate (length (drop (length k) p)) None) s')"
    proof (rule walk_child [OF step [unfolded l(2)] m(3) y(2,3) _ on_path_simps(1) [OF True] _ freps_of(1) [OF m(2)] m(2)])
      show "0 < n'" using n' by linarith
    qed (use True in simp_all)
    moreover have "pre' @ replicate (length (drop (length k) p)) None = (pre @ [Some m]) @ replicate (length p - 1) None"
    proof -
      have "length k - 1 + (length p - length k) = length p - 1" using k by linarith
      then show ?thesis by (simp add: pre'_def flip: replicate_add)
    qed
    ultimately show ?thesis using n m y True l "2.prems"(6) by (simp add: js_set_next Let_def)
  qed
next
  case (3 ts v)
  obtain n' where n: "n = Suc n'" using "3.prems" by (cases n) auto
  obtain m s' where m: "lookupNode X r s = (Inr m, s')" "reps h m (PBranch ts v)" "same s s'"
    using resolves_node [OF "3.prems"(4,5)] by blast
  moreover obtain bs y where "m = Branch bs y" using m(2) by (cases m) simp_all
  ultimately show ?case using 3 n by (auto simp: js_set_next Let_def walk_done_def intro!: walked_here)
next
  case (4 ts v x p)
  obtain n' where n: "n = Suc n'" using "4.prems" by (cases n) auto
  obtain m s' where m: "lookupNode X r s = (Inr m, s')" "reps h m (PBranch ts v)" "same s s'"
    using resolves_node [OF "4.prems"(4,5)] by blast
  then obtain bs y where y: "m = Branch bs y" "length bs = 16" "length ts = 16" "\<forall>i < 16. slot_ok h (bs ! i) (ts ! i)"
    by (auto elim: reps_BranchE)
  have x: "x < 16" "target ! length pre = x" "length pre < length target"
    using "4.prems"(2) nth_via_drop [OF "4.prems"(6) [symmetric]] arg_cong [OF "4.prems"(6), of length] by simp_all
  show ?case
  proof (cases "ts ! x")
    case None
    then have "getBranch bs x = RNull" using slot_empty y(4) x(1) by metis
    with None m(1-3) y(1) x n "4.prems"(6) [symmetric] show ?thesis
      by (auto simp: js_set_next Let_def walk_done_def intro!: walked_here)
  next
    case (Some t)
    then have b: "getBranch bs x = bs ! x" "bs ! x \<noteq> RNull" using slot_full y(4) x(1) by metis+
    have b': "plain (bs ! x)" "dat (bs ! x) = ref h t" using y(4) x(1) Some by (auto simp: slot_ok_def dslot_def)
    have kn: "\<forall>w \<in> set (on_path t p). known s' w"
      using "4.prems"(3) on_path_simps(2) [OF Some] m(3) by (simp add: same_known)
    have n': "length p < n'" using "4.prems"(8) n by simp
    have step: "walk_done s' miss (live (pre @ [Some m])) t p
        (walk_path n' X miss target (bs ! x) (length (pre @ [Some m])) ((pre @ [Some m]) @ replicate (length p) None) s')"
      if "\<not> lost s' t"
    proof (rule "4.IH" [OF Some])
      have "known s' t" using kn on_path_hd [of t p] by auto
      then show "resolves s' (bs ! x) t" using b' that Some x "4.prems"(1) by (intro resolves_known) auto
      show "p = drop (length (pre @ [Some m])) target" using "4.prems"(6) by (metis drop_Suc drop_tl length_append_singleton list.sel(3))
      show "nibs p" using "4.prems"(2) by simp
    qed (use "4.prems"(1) x m same_good Some kn n' in auto)
    have l: "live (pre @ [Some m]) = live pre @ [m]" by simp
    have "walk_done s miss (live pre) (PBranch ts v) (x # p)
        (walk_path n' X miss target (bs ! x) (length (pre @ [Some m])) ((pre @ [Some m]) @ replicate (length p) None) s')"
    proof (rule walk_child [OF step [unfolded l] m(3) b' _ on_path_simps(2) [OF Some] _ freps_of(2) [OF m(2) x(1)] m(2)])
      show "0 < n'" using n' by linarith
    qed (use Some in simp_all)
    then show ?thesis using n m y x b by (simp add: js_set_next Let_def del: replicate_Suc)
  qed
qed

text \<open>What \<open>findPath\<close> answers in a database that has the root, if nothing on the path is missing.\<close>

definition path_found :: "'c mpt \<Rightarrow> ptree \<Rightarrow> nibbles \<Rightarrow> (js_error + mpt_node option \<times> nibbles \<times> mpt_node list) \<times> 'c mpt \<Rightarrow> bool" where
  "path_found s t p r \<longleftrightarrow> (case descend t p of (fs, u, q, b) \<Rightarrow> \<exists>ns m s'.
     r = (Inr (if b then Some m else None, if b then [] else q, ns @ [m]), s') \<and> same s s' \<and> preps h ns fs u \<and> reps h m u)"

lemma findPath_walk:
  assumes "wf_tree t" "mpt_good s" "look s (mp_root s) = Some (encoding h t)" "\<forall>w \<in> set (on_path t (bytesToNibbles key)). known s w"
  shows "path_found s t (bytesToNibbles key) (findPath X key miss s)
    \<or> (\<exists>w \<in> set (on_path t (bytesToNibbles key)). lost s w) \<and> (miss \<longrightarrow> fst (findPath X key miss s) = Inl MISSING)"
proof -
  let ?p = "bytesToNibbles key"
  let ?w = "walk_path (length ?p + 2) X miss ?p (RBytes (mp_root s)) 0 (replicate (length ?p) None) s"
  have run: "findPath X key miss s = (case ?w of (Inl e, s') \<Rightarrow> (Inl e, s')
      | (Inr pa, s') \<Rightarrow> (Inr (pa_node pa, pa_remaining pa, live (pa_stack pa)), s'))"
    by (simp add: findPath_def Let_def bindS_def getS_def retS_def del: walk_path.simps length_bytesToNibbles split: prod.split sum.split)
  have "resolves s (RBytes (mp_root s)) t" using assms(1,3) by (rule resolves_hash [rotated])
  from walk_ok [where pre = "[]" and target = ?p and n = "length ?p + 2" and miss = miss, OF assms(1) nibs_bytes [of key] assms(4) this assms(2)]
  have "walk_done s miss [] t ?p ?w" by (simp del: walk_path.simps length_bytesToNibbles)
  then show ?thesis
  proof (unfold walk_done_def, elim disjE)
    assume "walked s [] (descend t ?p) ?w"
    then have "path_found s t ?p (findPath X key miss s)"
      unfolding run walked_def path_found_def by (auto split: prod.splits simp del: walk_path.simps length_bytesToNibbles)
    then show ?thesis by blast
  next
    assume "(\<exists>w \<in> set (on_path t ?p). lost s w) \<and> (miss \<longrightarrow> fst ?w = Inl MISSING)"
    then show ?thesis unfolding run by (auto split: prod.split sum.split simp del: walk_path.simps length_bytesToNibbles)
  qed
qed

lemma spine_parts: "list_all2 (freps h) ns fs \<Longrightarrow> w \<in> set (spine fs u) \<Longrightarrow> w \<in> parts (plug fs u)"
proof (induction ns fs rule: list_all2_induct)
  case (Cons n ns f fs)
  then show ?case by (cases f; cases n) (auto simp: set_update_memI)
qed simp

lemma on_path_parts: "wf_tree t \<Longrightarrow> nibs p \<Longrightarrow> w \<in> set (on_path t p) \<Longrightarrow> w \<in> parts t"
proof (induction t p rule: descend.induct)
  case (2 k t p)
  show ?case
  proof (cases "take (length k) p = k")
    case True
    with 2 show ?thesis by (auto simp: on_path_simps nibs_parts)
  qed (use "2.prems"(3) in \<open>simp add: on_path_def\<close>)
next
  case (4 ts v x p)
  show ?case
  proof (cases "ts ! x")
    case (Some t)
    then have t: "wf_tree t" "Some t \<in> set ts" using "4.prems"(1,2) by (auto simp: in_set_conv_nth)
    have "w = PBranch ts v \<or> w \<in> set (on_path t p)" using "4.prems"(3) by (simp add: on_path_simps(2) [OF Some])
    then show ?thesis using "4.IH" [OF Some t(1)] t(2) "4.prems"(2) by auto
  qed (use "4.prems"(3) in \<open>simp add: on_path_def\<close>)
qed (simp_all add: on_path_def)

lemma findPath_ok:
  assumes "holds s (Some t)" "descend t (bytesToNibbles key) = (fs, u, q, b)"
  shows "\<exists>ns m s'. findPath X key miss s = (Inr (if b then Some m else None, if b then [] else q, ns @ [m]), s')
    \<and> same s s' \<and> preps h ns fs u \<and> reps h m u"
proof -
  have t: "wf_tree t" "mpt_good s" "look s (mp_root s) = Some (encoding h t)" "stored s t"
    using assms(1) unfolding mpt_holds_def option.case by blast+
  then have "known s w \<and> \<not> lost s w" if "w \<in> set (on_path t (bytesToNibbles key))" for w
    using on_path_parts [OF t(1) nibs_bytes that] by (auto simp: mpt_stored_def known_def lost_def)
  with findPath_walk [OF t(1-3), of key miss] assms(2) show ?thesis by (auto simp: path_found_def)
qed

lemma findPath_empty:
  assumes "holds s None"
  shows "\<exists>s'. findPath X key False s = (Inr (None, [], []), s') \<and> same s s'"
proof -
  obtain s' where "db_get X (prefixed X (mp_root s)) s = (Inr None, s')" "same s s'"
    using db_get_ok [of s "mp_root s"] assms by (auto simp: mpt_holds_def)
  then show ?thesis
    by (simp add: findPath_def Let_def bindS_def getS_def retS_def lookupNode_def failS_def)
qed

lemma same_holds: "same s s' \<Longrightarrow> holds s c \<Longrightarrow> holds s' c"
  by (cases c) (simp_all add: mpt_holds_def same_look same_stored, auto simp: mpt_same_def)

lemma node_value_ok:
  "reps h m u \<Longrightarrow> wf_tree u \<Longrightarrow> (\<And>k t. u \<noteq> PExt k t) \<Longrightarrow> node_value m = 
    (case (case u of PLeaf k v \<Rightarrow> Some v | PExt k t \<Rightarrow> None | PBranch ts v \<Rightarrow> v) of None \<Rightarrow> RNull | Some v \<Rightarrow> RBytes v)"
  by (cases m; cases u) (auto simp: filled_dat dval_def dest: plain_bytes split: option.splits)

lemma descend_found: "descend t p = (fs, u, q, True) \<Longrightarrow> u \<noteq> PExt k t'"
  by (induction t p arbitrary: fs rule: descend.induct) (auto split: if_splits prod.splits option.splits)

lemma get_ok:
  assumes "holds s c" "c = None \<Longrightarrow> \<not> miss"
  shows "\<exists>s'. mpt_get X key miss s = (Inr (case Option.bind c (\<lambda>t. tree_lookup t (bytesToNibbles (appliedKey X key)))
    of None \<Rightarrow> RNull | Some v \<Rightarrow> RBytes v), s') \<and> same s s'"
proof (cases c)
  case None
  with assms findPath_empty [of s "appliedKey X key"] show ?thesis
    by (auto simp: mpt_get_def bindS_def retS_def)
next
  case (Some t)
  obtain fs u q b where d: "descend t (bytesToNibbles (appliedKey X key)) = (fs, u, q, b)" by (metis prod_cases4)
  from findPath_ok [OF _ d, of s miss] assms(1) Some obtain ns m s' where
    p: "findPath X (appliedKey X key) miss s = (Inr (if b then Some m else None, if b then [] else q, ns @ [m]), s')"
    "same s s'" "reps h m u" by blast
  have u: "wf_tree u" using descend_wf [OF d] assms(1) Some by (simp add: mpt_holds_def)
  show ?thesis
  proof (cases b)
    case True
    then have "node_value m = (case tree_lookup t (bytesToNibbles (appliedKey X key)) of None \<Rightarrow> RNull | Some v \<Rightarrow> RBytes v)"
      using node_value_ok [OF p(3) u] descend_lookup [OF d] d descend_found by simp
    with True p Some show ?thesis by (simp add: mpt_get_def bindS_def retS_def)
  next
    case False
    with p Some descend_lookup [OF d] show ?thesis by (simp add: mpt_get_def bindS_def retS_def)
  qed
qed

end

end
