(* ===== verification/MptWrite.thy ===== *)
theory MptWrite
  imports MptSound
begin

text \<open>
  Writing to the trie. A change rebuilds the nodes from the place where it is made up to the root, and
  writes each whose encoding is long enough to be referred to by hash. \<open>mpt_apart\<close> is what this needs of
  the hash function: no two of the encodings of the new tree, and not that of the empty trie, share a hash.
\<close>

section \<open>Rebuilding the path\<close>

definition own_key :: "ptree \<Rightarrow> nibbles" where
  "own_key u = (case u of PLeaf k v \<Rightarrow> k | PExt k t \<Rightarrow> k | PBranch ts v \<Rightarrow> [])"

text \<open>The parts below a node that are not it.\<close>

fun below :: "ptree \<Rightarrow> ptree set" where
  "below (PLeaf k v) = {}"
| "below (PExt k t) = parts t"
| "below (PBranch ts v) = (\<Union>t \<in> {t. Some t \<in> set ts}. parts t)"

lemma parts_below: "parts u = insert u (below u)"
  by (cases u) simp_all

lemma wf_plug: "list_all2 (freps h) ns fs \<Longrightarrow> wf_tree (plug fs u) \<Longrightarrow> wf_tree u"
proof (induction ns fs rule: list_all2_induct)
  case (Cons n ns f fs)
  then show ?case by (cases f; cases n) auto
qed simp

text \<open>What changes in the set of parts when one goes up a level.\<close>

lemma parts_frame: "parts (plug [f] u) \<subseteq> insert (plug [f] u) (parts u \<union> (\<Union>t \<in> beside [f]. parts t))"
proof (cases f)
  case (FBranch ts v i)
  have "w = u \<or> (\<exists>j < length ts. j \<noteq> i \<and> ts ! j = Some w)" if "Some w \<in> set (ts[i := Some u])" for w
  proof -
    from that obtain j where "j < length ts" "ts[i := Some u] ! j = Some w" by (auto simp: in_set_conv_nth)
    then show ?thesis by (cases "j = i") auto
  qed
  with FBranch show ?thesis by auto
qed auto

lemma parts_plug: "list_all2 (freps h) ns fs \<Longrightarrow> parts u \<subseteq> parts (plug fs u)"
proof (induction ns fs rule: list_all2_induct)
  case (Cons n ns f fs)
  then show ?case by (cases f; cases n) (auto simp: set_update_memI)
qed simp

text \<open>What insertion and deletion make of the contents.\<close>

definition put_tree :: "ptree option \<Rightarrow> nibbles \<Rightarrow> u8 list \<Rightarrow> ptree" where
  "put_tree c p v = (case c of None \<Rightarrow> PLeaf p v | Some t \<Rightarrow> tree_ins t p v)"

definition del_tree :: "ptree option \<Rightarrow> nibbles \<Rightarrow> ptree option" where
  "del_tree c p = (case c of None \<Rightarrow> None | Some t \<Rightarrow> if tree_lookup t p = None then Some t else tree_del t p)"

text \<open>No two of the encodings share a hash, the empty trie's included, and no hash is the key under which the root is kept.\<close>

definition mpt_apart :: "'c mpt_opts \<Rightarrow> ptree \<Rightarrow> bool" where
  "mpt_apart X t \<longleftrightarrow> inj_on (mo_hash X) (insert [0x80] (encs (mo_hash X) t)) \<and>
     (mo_useRootPersistence X \<longrightarrow> appliedKey X ROOT_DB_KEY \<notin> mo_hash X ` insert [0x80] (encs (mo_hash X) t))"

lemma encoding_not_empty: "encoding h t \<noteq> [0x80]" if "length (encoding h t) < 256 ^ 8"
proof
  assume "encoding h t = [0x80]"
  moreover have "rlp_decode (RBytes [0x80]) False = Inr (Data (DBytes []))"
    using rlp_decode_enc [of "DBytes []"] by (simp add: len_prefix_def)
  ultimately show False using that rlp_decode_enc [of "DList (dnode h t)"] by (simp add: encoding_def del: enc.simps(2))
qed

lemma parts_wf: "wf_tree t \<Longrightarrow> w \<in> parts t \<Longrightarrow> wf_tree w"
proof (induction t)
  case (PBranch ts v)
  then show ?case by (cases "w = PBranch ts v") (fastforce simp: in_set_conv_nth)+
qed auto

definition mpt_apart_trie :: "'c mpt_opts \<Rightarrow> ptree option \<Rightarrow> bool" where
  "mpt_apart_trie X c = (case c of
     None \<Rightarrow> mo_useRootPersistence X \<longrightarrow> appliedKey X ROOT_DB_KEY \<noteq> EMPTY_TRIE_ROOT X | Some t \<Rightarrow> mpt_apart X t)"

context mpt_store
begin

definition put_enc :: "u8 list \<Rightarrow> batch_op" where
  "put_enc e = (prefixed X (h e), Some e)"

abbreviation put_of :: "ptree \<Rightarrow> batch_op" where
  "put_of t \<equiv> put_enc (encoding h t)"

lemma serialize_ok: "reps h n t \<Longrightarrow> wf_tree t \<Longrightarrow> serialize n = Inr (encoding h t)"
  using plain_encode [of "RArr (raw n)"] reps_raw [of h n t] encoding_small [of t]
  by (simp add: serialize_def encoding_def del: enc.simps)

lemma format_ok:
  assumes "reps h n t" "wf_tree t"
  shows "formatNode X n False remove ops = Inr (if 32 \<le> length (encoding h t) then RBytes (h (encoding h t)) else RArr (raw n),
      if 32 \<le> length (encoding h t) \<and> \<not> remove then ops @ [put_of t] else ops)"
    and "formatNode X n True False ops = Inr (RBytes (h (encoding h t)), ops @ [put_of t])"
  using assms keeps_nodes by (simp_all add: formatNode_def serialize_ok put_enc_def Let_def)

lemma format_ref:
  assumes "reps h n t" "wf_tree t"
  shows "\<exists>r us. formatNode X n False remove ops = Inr (r, ops @ map put_of us) \<and> plain r \<and> dat r = ref h t
    \<and> set us \<subseteq> {t} \<and> (\<not> remove \<longrightarrow> 32 \<le> length (encoding h t) \<longrightarrow> t \<in> set us)"
  using format_ok(1) [OF assms, of remove ops] reps_raw [OF assms(1)]
  by (cases "32 \<le> length (encoding h t) \<and> \<not> remove")
    (auto simp: ref_eq intro: exI [of _ "[t]"] exI [of _ "[]"])

text \<open>The node of a frame, with the new reference in place.\<close>

lemma frame_step:
  assumes "freps h n f" "plain r" "dat r = ref h u"
  shows "\<exists>n'. reps h n' (plug [f] u) \<and> save_loop X (fpath (fs @ [f])) (n # rest) (Some r) ops =
    bindE (formatNode X n' (rest = []) False ops) (\<lambda>(r, ops). save_loop X (fpath fs) rest (Some r) ops)"
proof (cases f)
  case (FExt k)
  with assms(1) obtain x where "n = Ext k x" by (cases n) auto
  with FExt assms show ?thesis
    by (intro exI [of _ "Ext k r"]) (simp add: fpath_append splice_end_def)
next
  case (FBranch ts v i)
  with assms(1) obtain bs x where n: "n = Branch bs x" by (cases n) auto
  with FBranch assms show ?thesis
    by (intro exI [of _ "Branch (bs[i := r]) x"]) (auto simp: fpath_append slot_ok_def dslot_def nth_list_update)
qed

lemma save_up:
  assumes "list_all2 (freps h) ns fs" "wf_tree (plug fs u)" "fs \<noteq> []" "plain r" "dat r = ref h u"
  shows "\<exists>us. save_loop X (fpath fs) (rev ns) (Some r) ops
      = Inr (Some (RBytes (h (encoding h (plug fs u)))), ops @ map put_of us)
    \<and> set us \<subseteq> parts (plug fs u) \<and> plug fs u \<in> set us
    \<and> (\<forall>w \<in> parts (plug fs u). 32 \<le> length (encoding h w) \<longrightarrow>
        w \<in> set us \<or> w \<in> parts u \<or> (\<exists>t \<in> beside fs. w \<in> parts t))"
  using assms
proof (induction fs arbitrary: ns u r ops rule: rev_induct)
  case (snoc f fs)
  obtain ns' n where ns: "ns = ns' @ [n]" "list_all2 (freps h) ns' fs" "freps h n f"
    using snoc.prems(1) by (auto simp: list_all2_append2 list_all2_Cons2)
  define w where "w = plug [f] u"
  have p: "plug (fs @ [f]) u = plug fs w" by (simp add: w_def plug_append)
  have w: "wf_tree w" using wf_plug [OF ns(2)] snoc.prems(2) p by simp
  from frame_step [OF ns(3) snoc.prems(4,5), of fs "rev ns'" ops] obtain n' where
    n': "reps h n' w" "save_loop X (fpath (fs @ [f])) (rev ns) (Some r) ops =
      bindE (formatNode X n' (ns' = []) False ops) (\<lambda>(r, ops). save_loop X (fpath fs) (rev ns') (Some r) ops)"
    using ns(1) by (auto simp: w_def)
  show ?case
  proof (cases "fs = []")
    case True
    with ns(2) n' w have "save_loop X (fpath (fs @ [f])) (rev ns) (Some r) ops = Inr (Some (RBytes (h (encoding h w))), ops @ map put_of [w])"
      by (simp add: format_ok)
    with True parts_frame [of f u] show ?thesis
      unfolding p by (intro exI [of _ "[w]"]) (auto simp: w_def)
  next
    case False
    then have "ns' \<noteq> []" using ns(2) by auto
    obtain r' us0 where r': "formatNode X n' False False ops = Inr (r', ops @ map put_of us0)" "plain r'" "dat r' = ref h w"
      "set us0 \<subseteq> {w}" "32 \<le> length (encoding h w) \<longrightarrow> w \<in> set us0"
      using format_ref [OF n'(1) w, of False ops] by blast
    from snoc.IH [OF ns(2) _ False r'(2,3), of "ops @ map put_of us0"] snoc.prems(2) p obtain us where
      us: "save_loop X (fpath fs) (rev ns') (Some r') (ops @ map put_of us0)
        = Inr (Some (RBytes (h (encoding h (plug fs w)))), (ops @ map put_of us0) @ map put_of us)"
      "set us \<subseteq> parts (plug fs w)" "plug fs w \<in> set us"
      "\<And>y. y \<in> parts (plug fs w) \<Longrightarrow> 32 \<le> length (encoding h y) \<Longrightarrow> y \<in> set us \<or> y \<in> parts w \<or> (\<exists>t \<in> beside fs. y \<in> parts t)"
      by auto
    have sub: "set us0 \<subseteq> parts (plug fs w)" using r'(4) parts_plug [OF ns(2), of w] parts_refl [of w] by blast
    have cover: "y \<in> set (us0 @ us) \<or> y \<in> parts u \<or> (\<exists>t \<in> beside (fs @ [f]). y \<in> parts t)"
      if "y \<in> parts (plug fs w)" "32 \<le> length (encoding h y)" for y
      using us(4) [OF that] parts_frame [of f u] r'(5) that(2) unfolding beside_append w_def by auto
    show ?thesis
      unfolding p using n'(2) r'(1) us sub cover \<open>ns' \<noteq> []\<close>
      by (intro exI [of _ "us0 @ us"]) auto
  qed
qed simp

text \<open>The same from the last node on the stack.\<close>

lemma save_path:
  assumes "list_all2 (freps h) ns fs" "reps h m u" "wf_tree (plug fs u)" "\<And>k t. u = PExt k t \<Longrightarrow> True"
  shows "\<exists>us. save_loop X (fpath fs @ own_key u) (rev (ns @ [m])) None ops
      = Inr (Some (RBytes (h (encoding h (plug fs u)))), ops @ map put_of us)
    \<and> set us \<subseteq> parts (plug fs u) \<and> plug fs u \<in> set us
    \<and> (\<forall>w \<in> parts (plug fs u). 32 \<le> length (encoding h w) \<longrightarrow>
        w \<in> set us \<or> w \<in> below u \<or> (\<exists>t \<in> beside fs. w \<in> parts t))"
proof -
  have u: "wf_tree u" using wf_plug assms by blast
  have key: "save_loop X (fpath fs @ own_key u) (rev (ns @ [m])) None ops =
      bindE (formatNode X m (ns = []) False ops) (\<lambda>(r, ops). save_loop X (fpath fs) (rev ns) (Some r) ops)"
    using assms(2) by (cases m; cases u) (simp_all add: own_key_def splice_end_def)
  show ?thesis
  proof (cases "fs = []")
    case True
    with assms(1) key assms(2) u show ?thesis
      by (intro exI [of _ "[u]"]) (auto simp: format_ok parts_below)
  next
    case False
    then have "ns \<noteq> []" using assms(1) by auto
    obtain r us0 where r: "formatNode X m False False ops = Inr (r, ops @ map put_of us0)" "plain r" "dat r = ref h u"
      "set us0 \<subseteq> {u}" "32 \<le> length (encoding h u) \<longrightarrow> u \<in> set us0"
      using format_ref [OF assms(2) u, of False ops] by blast
    from save_up [OF assms(1,3) False r(2,3), of "ops @ map put_of us0"] obtain us where
      us: "save_loop X (fpath fs) (rev ns) (Some r) (ops @ map put_of us0)
        = Inr (Some (RBytes (h (encoding h (plug fs u)))), (ops @ map put_of us0) @ map put_of us)"
      "set us \<subseteq> parts (plug fs u)" "plug fs u \<in> set us"
      "\<And>w. w \<in> parts (plug fs u) \<Longrightarrow> 32 \<le> length (encoding h w) \<Longrightarrow> w \<in> set us \<or> w \<in> parts u \<or> (\<exists>t \<in> beside fs. w \<in> parts t)"
      by blast
    have "set us0 \<subseteq> parts (plug fs u)" using r(4) parts_plug [OF assms(1), of u] parts_refl [of u] by blast
    moreover have "w \<in> set (us0 @ us) \<or> w \<in> below u \<or> (\<exists>t \<in> beside fs. w \<in> parts t)"
      if "w \<in> parts (plug fs u)" "32 \<le> length (encoding h w)" for w
      using us(4) [OF that] r(5) that(2) parts_below [of u] by auto
    ultimately show ?thesis
      using key r(1) us \<open>ns \<noteq> []\<close> by (intro exI [of _ "us0 @ us"]) auto
  qed
qed

section \<open>The state afterwards\<close>

abbreviation written :: "u8 list list \<Rightarrow> (u8 list \<Rightarrow> u8 list option) \<Rightarrow> u8 list \<Rightarrow> u8 list option" where
  "written es f \<equiv> fold (\<lambda>e f. f(h e := Some e)) es f"

lemma upds_puts:
  "upds (map (\<lambda>(k, v). (bytesToUnprefixedHex (mo_lib X) k, v)) (map put_enc es)) f (bytesToUnprefixedHex (mo_lib X) (prefixed X k))
    = written es (\<lambda>k. f (bytesToUnprefixedHex (mo_lib X) (prefixed X k))) k"
proof (induction es arbitrary: f)
  case (Cons e es)
  let ?f = "f(bytesToUnprefixedHex (mo_lib X) (prefixed X (h e)) := Some e)"
  have "(\<lambda>k. ?f (bytesToUnprefixedHex (mo_lib X) (prefixed X k)))
      = (\<lambda>k. f (bytesToUnprefixedHex (mo_lib X) (prefixed X k)))(h e := Some e)"
    by (simp add: fun_eq_iff key_inj)
  with Cons.IH [of ?f] have "upds (map (\<lambda>(k, v). (bytesToUnprefixedHex (mo_lib X) k, v)) (map put_enc es)) ?f
      (bytesToUnprefixedHex (mo_lib X) (prefixed X k)) = written (e # es) (\<lambda>k. f (bytesToUnprefixedHex (mo_lib X) (prefixed X k))) k"
    by (simp only: fold.simps comp_apply)
  then show ?case by (simp only: upds_def list.map fold.simps comp_apply put_enc_def [of e] prod.case)
qed (simp add: upds_def)

lemma written_other: "k \<notin> h ` set es \<Longrightarrow> written es f k = f k"
  by (induction es arbitrary: f) auto

lemma written_part:
  assumes "inj_on h E" "set es \<subseteq> E" "e \<in> set es"
  shows "written es f (h e) = Some e"
  using assms(2,3)
proof (induction es rule: rev_induct)
  case (snoc x es)
  then have "h e = h x \<Longrightarrow> e = x" using assms(1) by (auto dest: inj_onD)
  with snoc show ?case by auto
qed simp

lemma db_batch_ok:
  assumes "mpt_good s"
  shows "\<exists>s'. db_batch X (map put_enc es) s = (Inr (), s') \<and> mpt_good s' \<and> mp_root s' = mp_root s
    \<and> look s' = written es (look s) \<and> saved s' = saved s"
proof -
  have "ck_inv (ck_batch (mo_lib X) (mo_lru X) (map put_enc es) (mp_db s))"
    "ck_look (mo_lib X) (ck_batch (mo_lib X) (mo_lru X) (map put_enc es) (mp_db s)) =
      upds (map (\<lambda>(k, v). (bytesToUnprefixedHex (mo_lib X) k, v)) (map put_enc es)) (ck_look (mo_lib X) (mp_db s))"
    "ck_saved (mo_lib X) (ck_batch (mo_lib X) (mo_lru X) (map put_enc es) (mp_db s)) = ck_saved (mo_lib X) (mp_db s)"
    using ck_batch_ok [OF codec, of "mp_db s" "mo_lru X" "map put_enc es"] assms by (simp_all add: mpt_good_def)
  then show ?thesis
    by (simp add: db_batch_def modS_def mpt_good_def mpt_saved_def ck_batch_roots mpt_look_def [abs_def] upds_puts del: map_map)
qed

lemma db_put_ok:
  assumes "mpt_good s"
  shows "\<exists>s'. db_put X (prefixed X k) v s = (Inr (), s') \<and> mpt_good s' \<and> mp_root s' = mp_root s
    \<and> look s' = (look s)(k := Some v) \<and> saved s' = saved s"
proof -
  have "ck_inv (ck_put (mo_lib X) (mo_lru X) (prefixed X k) v (mp_db s))"
    "ck_look (mo_lib X) (ck_put (mo_lib X) (mo_lru X) (prefixed X k) v (mp_db s)) =
      (ck_look (mo_lib X) (mp_db s))(bytesToUnprefixedHex (mo_lib X) (prefixed X k) := Some v)"
    "ck_saved (mo_lib X) (ck_put (mo_lib X) (mo_lru X) (prefixed X k) v (mp_db s)) = ck_saved (mo_lib X) (mp_db s)"
    using ck_put_ok [OF codec, of "mp_db s" "mo_lru X" "prefixed X k" v] assms by (simp_all add: mpt_good_def)
  then show ?thesis
    by (simp add: db_put_def modS_def mpt_good_def mpt_saved_def ck_put_roots fun_eq_iff mpt_look_def key_inj)
qed

text \<open>Keeping the root leaves what is stored under the hashes of a tree as it is.\<close>

definition safe :: "u8 list set \<Rightarrow> bool" where
  "safe K \<longleftrightarrow> (mo_useRootPersistence X \<longrightarrow> appliedKey X ROOT_DB_KEY \<notin> K)"

lemma persist_ok:
  assumes "mpt_good s" "safe K"
  shows "\<exists>s'. persistRoot X s = (Inr (), s') \<and> mpt_good s' \<and> mp_root s' = mp_root s \<and> saved s' = saved s
    \<and> (\<forall>k \<in> K. look s' k = look s k)"
proof (cases "mo_useRootPersistence X")
  case True
  with assms db_put_ok [OF assms(1), of "appliedKey X ROOT_DB_KEY" "mp_root s"] show ?thesis
    by (auto simp: persistRoot_def whenS_def bindS_def getS_def safe_def)
qed (use assms in \<open>simp add: persistRoot_def whenS_def retS_def\<close>)

lemma set_root_ok: "set_root X (Some (h e)) s = (Inr (), s\<lparr>mp_root := h e\<rparr>)"
  by (simp add: set_root_def modS_def hash_length)

lemma root_only [simp]: "mpt_good (s\<lparr>mp_root := r\<rparr>) = mpt_good s" "look (s\<lparr>mp_root := r\<rparr>) = look s" "saved (s\<lparr>mp_root := r\<rparr>) = saved s"
  by (simp_all add: mpt_good_def mpt_look_def mpt_saved_def fun_eq_iff)

lemma holds_after:
  assumes "wf_tree t" "mpt_apart X t" "mpt_good s" "mp_root s = h (encoding h t)"
    and "look s (EMPTY_TRIE_ROOT X) = None" "look s (h (encoding h t)) = Some (encoding h t)"
    and "\<And>w. w \<in> parts t \<Longrightarrow> 32 \<le> length (encoding h w) \<Longrightarrow> look s (h (encoding h w)) = Some (encoding h w)"
  shows "\<exists>s'. persistRoot X s = (Inr (), s') \<and> holds s' (Some t) \<and> saved s' = saved s"
proof -
  have "safe (h ` insert [0x80] (encs h t))" using assms(2) by (simp add: safe_def mpt_apart_def)
  from persist_ok [OF assms(3) this] obtain s' where s': "persistRoot X s = (Inr (), s')" "mpt_good s'"
    "mp_root s' = mp_root s" "saved s' = saved s" "\<forall>k \<in> h ` insert [0x80] (encs h t). look s' k = look s k" by blast
  then have "look s' (h [0x80]) = None" "\<And>w. w \<in> parts t \<Longrightarrow> look s' (h (encoding h w)) = look s (h (encoding h w))"
    using assms(5) by (simp_all add: EMPTY_TRIE_ROOT_def)
  with s' assms show ?thesis by (simp add: mpt_holds_def mpt_stored_def EMPTY_TRIE_ROOT_def)
qed

lemma persist_holds: "holds s (Some t) \<Longrightarrow> mpt_apart X t \<Longrightarrow> \<exists>s'. persistRoot X s = (Inr (), s') \<and> holds s' (Some t) \<and> saved s' = saved s"
  by (rule holds_after) (auto simp: mpt_holds_def mpt_stored_def)

lemma saveStack_ok:
  assumes "mpt_good s" "look s (EMPTY_TRIE_ROOT X) = None" "mpt_apart X (plug fs u)"
    and "list_all2 (freps h) ns fs" "reps h m u" "wf_tree (plug fs u)" "key = fpath fs @ own_key u"
    and "set vs \<subseteq> parts (plug fs u)"
    and old: "\<And>w. w \<in> below u \<or> (\<exists>t \<in> beside fs. w \<in> parts t) \<Longrightarrow> 32 \<le> length (encoding h w)
      \<Longrightarrow> w \<in> set vs \<or> look s (h (encoding h w)) = Some (encoding h w)"
  shows "\<exists>s'. saveStack X key (ns @ [m]) (map put_of vs) s = (Inr (), s') \<and> holds s' (Some (plug fs u)) \<and> saved s' = saved s"
proof -
  let ?t = "plug fs u"
  obtain us where us: "save_loop X (fpath fs @ own_key u) (rev (ns @ [m])) None (map put_of vs)
      = Inr (Some (RBytes (h (encoding h ?t))), map put_of vs @ map put_of us)"
    "set us \<subseteq> parts ?t" "?t \<in> set us"
    "\<And>w. w \<in> parts ?t \<Longrightarrow> 32 \<le> length (encoding h w) \<Longrightarrow> w \<in> set us \<or> w \<in> below u \<or> (\<exists>t \<in> beside fs. w \<in> parts t)"
    using save_path [OF assms(4-6), of "map put_of vs"] by blast
  define s1 where "s1 = s\<lparr>mp_root := h (encoding h ?t)\<rparr>"
  have "mpt_good s1" using assms(1) by (simp add: s1_def)
  let ?es = "map (encoding h) (vs @ us)"
  from db_batch_ok [OF \<open>mpt_good s1\<close>, of ?es] obtain s2 where s2: "db_batch X (map put_of (vs @ us)) s1 = (Inr (), s2)"
    "mpt_good s2" "mp_root s2 = h (encoding h ?t)" "look s2 = written ?es (look s)" "saved s2 = saved s"
    by (auto simp: s1_def comp_def)
  have inj: "inj_on h (insert [0x80] (encs h ?t))" using assms(3) by (simp add: mpt_apart_def)
  have sub: "set ?es \<subseteq> encs h ?t" using us(2) assms(8) by auto
  have w: "look s2 (h e) = Some e" if "e \<in> set ?es" for e
    unfolding s2(4) by (rule written_part [OF inj _ that]) (use sub in auto)
  have "encoding h w \<noteq> [0x80]" if "w \<in> parts ?t" for w
    by (rule encoding_not_empty, rule encoding_small, rule parts_wf [OF assms(6) that])
  then have "[0x80] \<notin> encs h ?t" by (metis imageE)
  then have "h [0x80] \<noteq> h e" if "e \<in> set ?es" for e
    using inj_onD [OF inj, of "[0x80]" e] sub that by auto
  then have "h [0x80] \<notin> h ` set ?es" by blast
  from written_other [OF this] assms(2) have e: "look s2 (h [0x80]) = None"
    unfolding s2(4) EMPTY_TRIE_ROOT_def by simp
  have o: "look s2 (h (encoding h w)) = Some (encoding h w)" if p: "w \<in> parts ?t" "32 \<le> length (encoding h w)" for w
  proof (cases "h (encoding h w) \<in> h ` set ?es")
    case True
    then obtain e where "h (encoding h w) = h e" "e \<in> set ?es" by blast
    moreover have "encoding h w = e"
      by (rule inj_onD [OF inj calculation(1)]) (use p(1) sub calculation(2) in auto)
    ultimately show ?thesis using w by simp
  next
    case False
    then have "w \<notin> set (vs @ us)" by auto
    then have "look s (h (encoding h w)) = Some (encoding h w)" using us(4) [OF p] old [OF _ p(2)] by auto
    then show ?thesis unfolding s2(4) written_other [OF False] .
  qed
  have "look s2 (h (encoding h ?t)) = Some (encoding h ?t)" using w us(3) by simp
  from holds_after [OF assms(6,3) s2(2,3) _ this o] e obtain s' where
    "persistRoot X s2 = (Inr (), s')" "holds s' (Some ?t)" "saved s' = saved s2" by (auto simp: EMPTY_TRIE_ROOT_def)
  with us(1) s2 set_root_ok [of "encoding h ?t" s] assms(7) show ?thesis
    by (simp add: saveStack_def bindS_lift bindS_def liftS_def s1_def flip: map_append)
qed

section \<open>Splitting a node\<close>

text \<open>What is left of a leaf or an extension below a shorter path, and the branch that holds it.\<close>

definition stump :: "ptree \<Rightarrow> (nibbles \<Rightarrow> ptree) \<times> u8 list option" where
  "stump u = (case u of PLeaf k w \<Rightarrow> (\<lambda>q. PLeaf q w, Some w) | PExt k t \<Rightarrow> (\<lambda>q. extend q t, None)
     | PBranch ts v \<Rightarrow> (\<lambda>q. u, None))"

definition stump_branch :: "ptree \<Rightarrow> nibbles \<Rightarrow> ptree option list \<times> u8 list option" where
  "stump_branch u k = attach k (fst (stump u)) (snd (stump u)) (replicate 16 None, None)"

lemma new_slot [simp]: "slot_ok h RNull None"
  by (simp add: slot_ok_def dslot_def)

lemma stump_slots: "x < 16 \<Longrightarrow> below (branch_of (stump_branch u (x # l))) = parts (fst (stump u) l)"
  by (auto simp: stump_branch_def branch_of_def in_set_conv_nth nth_list_update split: if_splits)

lemma cut_node:
  assumes "reps h m u" "wf_tree u" "\<not> is_branch u" "own_key u = c @ k" "k = [] \<Longrightarrow> \<exists>q w. u = PLeaf q w"
  shows "\<exists>bs y us. (case k of
      [] \<Rightarrow> Inr (set_value (node_value m) branch_new, [])
    | x # k \<Rightarrow>
        if k \<noteq> [] \<or> (case m of Leaf _ _ \<Rightarrow> True | _ \<Rightarrow> False)
        then bindE (formatNode X (set_key k m) False False []) (\<lambda>(r, ops). Inr (set_branch x r branch_new, ops))
        else bindE (formatNode X m False True []) (\<lambda>(r, ops). Inr (set_branch x (node_value m) branch_new, ops)))
    = Inr (Branch bs y, map put_of us) \<and> reps h (Branch bs y) (branch_of (stump_branch u k))
    \<and> set us \<subseteq> below (branch_of (stump_branch u k)) \<and> (k = [] \<longrightarrow> us = [])
    \<and> (\<forall>w \<in> below (branch_of (stump_branch u k)). 32 \<le> length (encoding h w) \<longrightarrow> w \<in> set us \<or> w \<in> below u)"
proof (cases k)
  case Nil
  then obtain q w where "u = PLeaf q w" using assms(5) by blast
  with Nil assms(1,2) show ?thesis
    by (cases m) (auto simp: branch_new_def stump_branch_def stump_def branch_of_def dval_def intro!: exI [of _ "[]"])
next
  case (Cons x l)
  have x: "x < 16" "nibs l" "small l" using assms(2,4) Cons by (cases u; auto simp: own_key_def)+
  have b: "fst (stump_branch u k) = (replicate 16 None)[x := Some (fst (stump u) l)]" "snd (stump_branch u k) = None"
    by (simp_all add: stump_branch_def Cons)
  have slots: "below (branch_of (stump_branch u k)) = parts (fst (stump u) l)"
    using stump_slots x(1) Cons by simp
  have node: "reps h (Branch ((replicate 16 RNull)[x := r]) RNull) (branch_of (stump_branch u k))"
    if "plain r" "dat r = ref h (fst (stump u) l)" for r
    using x(1) that unfolding branch_of_def b by (auto simp: nth_list_update slot_ok_def dslot_def dval_def)
  show ?thesis
  proof (cases "l \<noteq> [] \<or> (case m of Leaf _ _ \<Rightarrow> True | _ \<Rightarrow> False)")
    case True
    then have "reps h (set_key l m) (fst (stump u) l)" "wf_tree (fst (stump u) l)" and u: "parts (fst (stump u) l) = insert (fst (stump u) l) (below u)"
      using assms(1-3) x by (cases u; cases m; auto simp: stump_def extend_def; fail)+
    from format_ref [OF this(1,2), of False "[]"] obtain r us where
      "formatNode X (set_key l m) False False [] = Inr (r, map put_of us)" "plain r" "dat r = ref h (fst (stump u) l)"
      "set us \<subseteq> {fst (stump u) l}" "32 \<le> length (encoding h (fst (stump u) l)) \<longrightarrow> fst (stump u) l \<in> set us" by auto
    with True Cons node [of r] show ?thesis
      unfolding slots by (intro exI [of _ "(replicate 16 RNull)[x := r]"] exI [of _ RNull] exI [of _ us])
        (auto simp: branch_new_def u)
  next
    case False
    then obtain k' t y where u: "u = PExt k' t" "m = Ext k' y" "l = []" "plain y" "dat y = ref h t"
      using assms(1,3) by (cases u; cases m) auto
    from format_ref [OF assms(1,2), of True "[]"] format_ok(1) [OF assms(1,2), of True "[]"] obtain r where
      "formatNode X m False True [] = Inr (r, [])" by auto
    with False Cons node [of y] u show ?thesis
      unfolding slots by (intro exI [of _ "(replicate 16 RNull)[x := y]"] exI [of _ RNull] exI [of _ "[]"])
        (auto simp: branch_new_def stump_def extend_def)
  qed
qed

lemma split_ok:
  assumes "reps h m u" "wf_tree u" "\<not> is_branch u" "nibs q"
    and other: "own_key u \<noteq> q" "case u of PExt k t \<Rightarrow> take (length k) q \<noteq> k | _ \<Rightarrow> True"
  shows "\<exists>ns' m' fs' u' us. split_node X m q v = Inr (ns' @ [m'], map put_of us)
    \<and> list_all2 (freps h) ns' fs' \<and> reps h m' u' \<and> plug fs' u' = tree_ins u q v \<and> fpath fs' @ own_key u' = q
    \<and> set us \<subseteq> parts (tree_ins u q v)
    \<and> (\<forall>w. w \<in> below u' \<or> (\<exists>t \<in> beside fs'. w \<in> parts t) \<longrightarrow> 32 \<le> length (encoding h w) \<longrightarrow> w \<in> set us \<or> w \<in> below u)"
proof -
  obtain c k p where s: "own_key u = c @ k" "q = c @ p" "matchingNibbleLength (own_key u) q = length c"
    "k = [] \<or> p = [] \<or> hd k \<noteq> hd p" by (rule matching_split)
  have key: "node_key m = own_key u" using assms(1,3) by (cases u; cases m) (auto simp: own_key_def)
  have leaf: "\<exists>r w. u = PLeaf r w" if "k = []"
    using that s other(2) assms(3) by (cases u) (auto simp: own_key_def)
  obtain bs y us where b: "(case k of
      [] \<Rightarrow> Inr (set_value (node_value m) branch_new, [])
    | x # k \<Rightarrow>
        if k \<noteq> [] \<or> (case m of Leaf _ _ \<Rightarrow> True | _ \<Rightarrow> False)
        then bindE (formatNode X (set_key k m) False False []) (\<lambda>(r, ops). Inr (set_branch x r branch_new, ops))
        else bindE (formatNode X m False True []) (\<lambda>(r, ops). Inr (set_branch x (node_value m) branch_new, ops)))
    = Inr (Branch bs y, map put_of us)" "reps h (Branch bs y) (branch_of (stump_branch u k))"
    "set us \<subseteq> below (branch_of (stump_branch u k))" "k = [] \<longrightarrow> us = []"
    "\<forall>w \<in> below (branch_of (stump_branch u k)). 32 \<le> length (encoding h w) \<longrightarrow> w \<in> set us \<or> w \<in> below u"
    using cut_node [OF assms(1-3) s(1) leaf] by blast
  define pre where "pre = (if c = [] then [] else [Ext c (RBytes v)])"
  define fpre where "fpre = (if c = [] then [] else [FExt c])"
  have pre: "list_all2 (freps h) pre fpre" "\<And>t. plug fpre t = extend c t" "fpath fpre = c" "beside fpre = {}"
    by (simp_all add: pre_def fpre_def extend_def)
  have run: "split_node X m q v = Inr (pre @ (case p of
        [] \<Rightarrow> [set_value (RBytes v) (Branch bs y)] | _ # p \<Rightarrow> [Branch bs y, Leaf p (RBytes v)]), map put_of us)"
    using b(1) s unfolding split_node_def key s(3) Let_def by (simp add: pre_def)
  have ins: "tree_ins u q v = extend c (branch_of (attach p (\<lambda>q. PLeaf q v) (Some v) (stump_branch u k)))"
    using fork_split [OF s(3,1,2)] other assms(3) by (cases u) (simp_all add: own_key_def stump_branch_def stump_def)
  show ?thesis
  proof (cases p)
    case Nil
    have "reps h (Branch bs (RBytes v)) (PBranch (fst (stump_branch u k)) (Some v))" using b(2) by (simp add: branch_of_def dval_def)
    moreover have "tree_ins u q v = plug fpre (PBranch (fst (stump_branch u k)) (Some v))"
      using ins Nil pre(2) by (cases "stump_branch u k") (simp add: branch_of_def)
    moreover have "set us \<subseteq> parts (plug fpre (PBranch (fst (stump_branch u k)) (Some v)))"
      using parts_plug [OF pre(1), of "PBranch (fst (stump_branch u k)) (Some v)"] b(3) by (auto simp: branch_of_def)
    ultimately show ?thesis using run b(5) pre Nil s(2)
      by (intro exI [of _ pre] exI [of _ "Branch bs (RBytes v)"] exI [of _ fpre]
          exI [of _ "PBranch (fst (stump_branch u k)) (Some v)"] exI [of _ us]) (simp add: own_key_def branch_of_def, blast)
  next
    case (Cons z r)
    let ?ts = "fst (stump_branch u k)" and ?x = "snd (stump_branch u k)"
    have z: "z < 16" using assms(4) s(2) Cons by simp
    have l: "length ?ts = 16" by (simp add: stump_branch_def)
    have "freps h (Branch bs y) (FBranch ?ts ?x z)" using b(2) z by (auto simp: branch_of_def)
    then have fr: "list_all2 (freps h) (pre @ [Branch bs y]) (fpre @ [FBranch ?ts ?x z])"
      using pre(1) by (simp add: list_all2_appendI)
    have eq: "tree_ins u q v = plug (fpre @ [FBranch ?ts ?x z]) (PLeaf r v)"
      unfolding ins plug_append pre(2) using Cons by (cases "stump_branch u k") (simp add: branch_of_def)
    have "set us \<subseteq> parts (plug [FBranch ?ts ?x z] (PLeaf r v))"
    proof (cases k)
      case Nil
      with b(4) show ?thesis by simp
    next
      case (Cons a k')
      have "z \<noteq> a" using s(4) Cons \<open>p = z # r\<close> by auto
      have a: "a < 16" using assms(2,3) s(1) Cons by (cases u) (auto simp: own_key_def)
      then have "set us \<subseteq> parts (fst (stump u) k')" using b(3) stump_slots Cons by simp
      moreover have "Some (fst (stump u) k') \<in> set (?ts[z := Some (PLeaf r v)])"
        unfolding in_set_conv_nth using a \<open>z \<noteq> a\<close> l Cons by (intro exI [of _ a]) (simp add: stump_branch_def)
      ultimately show ?thesis by auto
    qed
    then have "set us \<subseteq> parts (tree_ins u q v)"
      unfolding eq plug_append using parts_plug [OF pre(1), of "plug [FBranch ?ts ?x z] (PLeaf r v)"] by blast
    moreover have "w \<in> below (branch_of (stump_branch u k))" if "t \<in> beside (fpre @ [FBranch ?ts ?x z])" "w \<in> parts t" for w t
      using that pre(4) unfolding beside_append by (auto simp: branch_of_def in_set_conv_nth)
    ultimately show ?thesis using run b(5) fr eq Cons s(2) pre(3)
      by (intro exI [of _ "pre @ [Branch bs y]"] exI [of _ "Leaf r (RBytes v)"] exI [of _ "fpre @ [FBranch ?ts ?x z]"]
          exI [of _ "PLeaf r v"] exI [of _ us]) (auto simp: own_key_def fpath_append)
  qed
qed

section \<open>Insertion\<close>

lemma descend_end: "descend t p = (fs, u, q, b) \<Longrightarrow> (case u of
     PLeaf k v \<Rightarrow> b = (k = q)
   | PExt k t \<Rightarrow> \<not> b \<and> take (length k) q \<noteq> k
   | PBranch ts v \<Rightarrow> (case q of [] \<Rightarrow> b | x # r \<Rightarrow> \<not> b \<and> ts ! x = None))"
  by (induction t p arbitrary: fs rule: descend.induct) (auto split: if_splits prod.splits option.splits)

lemma beside_parts: "list_all2 (freps h) ns fs \<Longrightarrow> t \<in> beside fs \<Longrightarrow> parts t \<subseteq> parts (plug fs u)"
proof (induction ns fs rule: list_all2_induct)
  case (Cons n ns f fs)
  show ?case
  proof (cases f)
    case (FExt k)
    with Cons show ?thesis by auto
  next
    case (FBranch ts v i)
    with Cons.hyps(1) have i: "i < length ts" by (cases n) auto
    from Cons.prems FBranch consider (here) j where "j < length ts" "j \<noteq> i" "ts ! j = Some t" | (deep) "t \<in> beside fs" by auto
    then show ?thesis
    proof cases
      case here
      then have "Some t \<in> set (ts[i := Some (plug fs u)])" unfolding in_set_conv_nth by (intro exI [of _ j]) simp
      with FBranch show ?thesis by auto
    next
      case deep
      with Cons.IH have "parts t \<subseteq> parts (plug fs u)" by blast
      moreover have "Some (plug fs u) \<in> set (ts[i := Some (plug fs u)])" using i by (rule set_update_memI)
      ultimately show ?thesis using FBranch by auto
    qed
  qed
qed simp

lemma old_parts:
  assumes "holds s (Some (plug fs u))" "list_all2 (freps h) ns fs" "w \<in> below u \<or> (\<exists>t \<in> beside fs. w \<in> parts t)"
    and "32 \<le> length (encoding h w)"
  shows "look s (h (encoding h w)) = Some (encoding h w)"
proof -
  have "w \<in> parts (plug fs u)"
    using assms(3) parts_plug [OF assms(2), of u] beside_parts [OF assms(2)] parts_below [of u] by blast
  with assms(1,4) show ?thesis by (simp add: mpt_holds_def mpt_stored_def)
qed

text \<open>A new end of the path, with what it needs of the old one in the database.\<close>

lemma rebuild_ok:
  assumes "holds s (Some (plug fs u))" "list_all2 (freps h) ns fs" "list_all2 (freps h) ns' fs'" "reps h m u'"
    and "wf_tree (plug fs (plug fs' u'))" "mpt_apart X (plug fs (plug fs' u'))" "key = fpath fs @ fpath fs' @ own_key u'"
    and "set us \<subseteq> parts (plug fs' u')"
    and "\<And>w. w \<in> below u' \<or> (\<exists>t \<in> beside fs'. w \<in> parts t) \<Longrightarrow> 32 \<le> length (encoding h w) \<Longrightarrow> w \<in> set us \<or> w \<in> below u"
  shows "\<exists>s'. saveStack X key (ns @ ns' @ [m]) (map put_of us) s = (Inr (), s') \<and> holds s' (Some (plug fs (plug fs' u')))
    \<and> saved s' = saved s"
proof -
  have "\<exists>s'. saveStack X key ((ns @ ns') @ [m]) (map put_of us) s = (Inr (), s') \<and> holds s' (Some (plug (fs @ fs') u'))
      \<and> saved s' = saved s"
  proof (rule saveStack_ok)
    show "set us \<subseteq> parts (plug (fs @ fs') u')" using assms(8) parts_plug [OF assms(2), of "plug fs' u'"] by (auto simp: plug_append)
    fix w assume "w \<in> below u' \<or> (\<exists>t \<in> beside (fs @ fs'). w \<in> parts t)" "32 \<le> length (encoding h w)"
    then show "w \<in> set us \<or> look s (h (encoding h w)) = Some (encoding h w)"
      using assms(9) [of w] old_parts [OF assms(1,2), of w] unfolding beside_append by blast
  qed (use assms in \<open>auto simp: mpt_holds_def plug_append fpath_append list_all2_appendI\<close>)
  then show ?thesis by (simp add: plug_append)
qed

lemma stack_nibbles_ok: "list_all2 (freps h) ns fs \<Longrightarrow> stack_nibbles ns = length (fpath fs)"
proof (induction ns fs rule: list_all2_induct)
  case (Cons n ns f fs)
  then show ?case by (cases f; cases n) auto
qed simp

lemma updateNode_ok:
  assumes "holds s (Some t)" "descend t (bytesToNibbles k) = (fs, u, q, b)" "list_all2 (freps h) ns fs" "reps h m u"
    and "v \<noteq> []" "small v" "small (bytesToNibbles k)" "mpt_apart X (tree_ins t (bytesToNibbles k) v)"
  shows "\<exists>s'. updateNode X k v (if b then [] else q) (ns @ [m]) s = (Inr (), s')
    \<and> holds s' (Some (tree_ins t (bytesToNibbles k) v)) \<and> saved s' = saved s"
proof -
  let ?t = "tree_ins t (bytesToNibbles k) v"
  have t: "t = plug fs u" "bytesToNibbles k = fpath fs @ q" "?t = plug fs (tree_ins u q v)"
    using descend_plug [OF assms(2)] descend_ins [OF assms(2)] by auto
  have w: "wf_tree t" using assms(1) by (simp add: mpt_holds_def)
  then have u: "wf_tree u" "nibs q" using descend_wf [OF assms(2)] by auto
  have wf: "wf_tree (plug fs (tree_ins u q v))" using wf_ins [OF w nibs_bytes assms(7,5,6)] t(3) by simp
  have apart: "mpt_apart X (plug fs (tree_ins u q v))" using assms(8) t(3) by simp
  note holds = assms(1) [unfolded t(1)]
  have save: "\<exists>s'. saveStack X (bytesToNibbles k) (ns @ ns' @ [m']) (map put_of us) s = (Inr (), s') \<and> holds s' (Some ?t) \<and> saved s' = saved s"
    if "list_all2 (freps h) ns' fs'" "reps h m' u'" "plug fs' u' = tree_ins u q v" "q = fpath fs' @ own_key u'"
      "set us \<subseteq> parts (tree_ins u q v)"
      "\<And>w. w \<in> below u' \<or> (\<exists>t \<in> beside fs'. w \<in> parts t) \<Longrightarrow> 32 \<le> length (encoding h w) \<Longrightarrow> w \<in> set us \<or> w \<in> below u"
    for ns' fs' m' u' us
    using rebuild_ok [OF holds assms(3) that(1,2), of "bytesToNibbles k" us] that(3-6) wf apart t(2,3) by simp
  note e = descend_end [OF assms(2)]
  show ?thesis
  proof (cases "is_branch u")
    case False
    show ?thesis
    proof (cases b)
      case True
      with e False obtain w where "u = PLeaf q w" by (cases u) auto
      with True assms(4) save [of "[]" "[]" "Leaf q (RBytes v)" "PLeaf q v" "[]"] stack_nibbles_ok [OF assms(3)] t(2)
      show ?thesis by (cases m) (auto simp: updateNode_def own_key_def Let_def matching_full)
    next
      case b: False
      with e False have "own_key u \<noteq> q" "case u of PExt k t \<Rightarrow> take (length k) q \<noteq> k | _ \<Rightarrow> True"
        by (cases u; auto simp: own_key_def)+
      from split_ok [where v = v, OF assms(4) u(1) False u(2) this] obtain ns' m' fs' u' us where
        s: "split_node X m q v = Inr (ns' @ [m'], map put_of us)" "list_all2 (freps h) ns' fs'" "reps h m' u'"
          "plug fs' u' = tree_ins u q v" "fpath fs' @ own_key u' = q" "set us \<subseteq> parts (tree_ins u q v)"
        and cover: "\<forall>w. w \<in> below u' \<or> (\<exists>t \<in> beside fs'. w \<in> parts t) \<longrightarrow> 32 \<le> length (encoding h w)
            \<longrightarrow> w \<in> set us \<or> w \<in> below u"
        by (elim exE conjE)
      have "\<not> (q = [] \<and> matchingNibbleLength (own_key u) q = length (own_key u))"
        using \<open>own_key u \<noteq> q\<close> by (cases "own_key u") auto
      then have "updateNode X k v q (ns @ [m]) s = saveStack X (bytesToNibbles k) (ns @ ns' @ [m']) (map put_of us) s"
        using False assms(4) s(1) stack_nibbles_ok [OF assms(3)] t(2)
        by (cases u; cases m) (auto simp: updateNode_def Let_def bindS_lift own_key_def)
      with save [OF s(2-4) s(5) [symmetric] s(6)] cover b show ?thesis by simp
    qed
  next
    case True
    then obtain ts x where ux: "u = PBranch ts x" by (cases u) auto
    with assms(4) obtain bs y where m: "m = Branch bs y" "length bs = 16" "length ts = 16"
      "\<forall>i < 16. slot_ok h (bs ! i) (ts ! i)" "plain y" "dat y = dval x" by (auto elim: reps_BranchE)
    show ?thesis
    proof (cases q)
      case Nil
      with e ux m save [of "[]" "[]" "Branch bs (RBytes v)" "PBranch ts (Some v)" "[]"] show ?thesis
        by (auto simp: updateNode_def Let_def own_key_def dval_def)
    next
      case (Cons z r)
      with e ux have z: "\<not> b" "ts ! z = None" "z < 16" using u(2) by auto
      have "\<exists>s'. saveStack X (bytesToNibbles k) (ns @ [m] @ [Leaf r (RBytes v)]) (map put_of []) s = (Inr (), s')
          \<and> holds s' (Some ?t) \<and> saved s' = saved s"
        by (rule save [of "[m]" "[FBranch ts x z]" "Leaf r (RBytes v)" "PLeaf r v" "[]"])
          (use ux m z Cons in \<open>auto simp: own_key_def in_set_conv_nth\<close>)
      with m z Cons show ?thesis by (auto simp: updateNode_def Let_def)
    qed
  qed
qed

lemma createInitialNode_ok:
  assumes "holds s None" "v \<noteq> []" "small v" "small (bytesToNibbles k)" "mpt_apart X (PLeaf (bytesToNibbles k) v)"
  shows "\<exists>s'. createInitialNode X k v s = (Inr (), s') \<and> holds s' (Some (PLeaf (bytesToNibbles k) v)) \<and> saved s' = saved s"
proof -
  let ?t = "PLeaf (bytesToNibbles k) v" and ?n = "Leaf (bytesToNibbles k) (RBytes v)"
  have t: "wf_tree ?t" using assms by simp
  then have n: "serialize ?n = Inr (encoding h ?t)" by (intro serialize_ok) simp_all
  let ?s = "s\<lparr>mp_root := h (encoding h ?t)\<rparr>"
  have "mpt_good ?s" using assms(1) by (simp add: mpt_holds_def)
  from db_put_ok [OF this, of "h (encoding h ?t)" "encoding h ?t"] obtain s1 where s1:
    "db_put X (prefixed X (h (encoding h ?t))) (encoding h ?t) ?s = (Inr (), s1)" "mpt_good s1"
    "mp_root s1 = h (encoding h ?t)" "look s1 = (look s)(h (encoding h ?t) := Some (encoding h ?t))" "saved s1 = saved s" by auto
  have "encoding h ?t \<noteq> [0x80]" using encoding_not_empty encoding_small [OF t] by blast
  then have "look s1 (EMPTY_TRIE_ROOT X) = None"
    using assms(1,5) inj_onD [of h "insert [0x80] (encs h ?t)" "[0x80]" "encoding h ?t"] s1(4)
    by (auto simp: EMPTY_TRIE_ROOT_def mpt_holds_def mpt_apart_def)
  from holds_after [OF t assms(5) s1(2,3) this] obtain s' where
    "persistRoot X s1 = (Inr (), s')" "holds s' (Some ?t)" "saved s' = saved s1" using s1(4) by auto
  with n s1 set_root_ok show ?thesis
    by (simp add: createInitialNode_def bindS_lift bindS_def getS_def)
qed

lemma holds_root: "holds s (Some t) \<Longrightarrow> mp_root s \<noteq> EMPTY_TRIE_ROOT X"
  by (auto simp: mpt_holds_def)

lemma put_ok:
  assumes "holds s c" "\<not> (mo_useRootPersistence X \<and> key = ROOT_DB_KEY)" "v \<noteq> []" "small v"
    and k: "k = (if skip then key else appliedKey X key)" and "small (bytesToNibbles k)"
    and "mpt_apart X (put_tree c (bytesToNibbles k) v)"
  shows "\<exists>s'. mpt_put X key (Some v) skip s = (Inr (), s') \<and> holds s' (Some (put_tree c (bytesToNibbles k) v)) \<and> saved s' = saved s"
proof -
  let ?t = "put_tree c (bytesToNibbles k) v"
  have "\<exists>s1. mpt_put X key (Some v) skip s = persistRoot X s1 \<and> holds s1 (Some ?t) \<and> saved s1 = saved s"
  proof (cases c)
    case None
    then have "mp_root s = EMPTY_TRIE_ROOT X" using assms(1) by (simp add: mpt_holds_def)
    moreover obtain s1 where "createInitialNode X k v s = (Inr (), s1)" "holds s1 (Some ?t)" "saved s1 = saved s"
      using createInitialNode_ok [of s v k] assms(1,3,4,6,7) None by (auto simp: put_tree_def)
    ultimately show ?thesis using assms(2,3) unfolding mpt_put_def Let_def k [symmetric]
      by (auto simp: bindS_def getS_def)
  next
    case (Some t)
    obtain fs u q b where d: "descend t (bytesToNibbles k) = (fs, u, q, b)" by (metis prod_cases4)
    from findPath_ok [OF _ d, of s False] assms(1) Some obtain ns m s1 where
      p: "findPath X k False s = (Inr (if b then Some m else None, if b then [] else q, ns @ [m]), s1)"
      "same s s1" "list_all2 (freps h) ns fs" "reps h m u" using preps_frames by blast
    have "holds s1 (Some t)" using same_holds p(2) assms(1) Some by blast
    from updateNode_ok [OF this d p(3,4) assms(3,4,6)] assms(7) Some obtain s2 where
      "updateNode X k v (if b then [] else q) (ns @ [m]) s1 = (Inr (), s2)" "holds s2 (Some ?t)" "saved s2 = saved s1"
      by (auto simp: put_tree_def)
    moreover have "mp_root s \<noteq> EMPTY_TRIE_ROOT X" using holds_root assms(1) Some by simp
    moreover have "saved s1 = saved s" using p(2) by (simp add: mpt_same_def)
    ultimately show ?thesis using p(1) assms(2,3) keeps_nodes unfolding mpt_put_def Let_def k [symmetric]
      by (auto simp: bindS_def getS_def whenS_def retS_def)
  qed
  then obtain s1 where s1: "mpt_put X key (Some v) skip s = persistRoot X s1" "holds s1 (Some ?t)" "saved s1 = saved s" by blast
  from persist_holds [OF s1(2) assms(7)] show ?thesis unfolding s1(1,3) .
qed

section \<open>Deletion\<close>

fun rejoin :: "frame list \<Rightarrow> ptree \<Rightarrow> ptree" where
  "rejoin [] t = t"
| "rejoin (FExt k # fs) t = join k (rejoin fs t)"
| "rejoin (FBranch ts v i # fs) t = PBranch (ts[i := Some (rejoin fs t)]) v"

lemma rejoin_append: "rejoin (fs @ gs) t = rejoin fs (rejoin gs t)"
  by (induction fs t rule: rejoin.induct) simp_all

lemma tree_del_plug:
  "list_all2 (freps h) ns fs \<Longrightarrow> i < length ts \<Longrightarrow>
   tree_del (plug fs (PBranch (ts[i := Some (PLeaf k w)]) v)) (fpath fs @ i # k) = Some (rejoin fs (shrink (ts[i := None]) v))"
proof (induction ns fs rule: list_all2_induct)
  case (Cons n ns f fs)
  then show ?case by (cases f; cases n) auto
qed simp

text \<open>Joining changes nothing above a branch.\<close>

lemma rejoin_branch:
  "list_all2 (freps h) ns fs \<Longrightarrow> wf_tree (plug fs u) \<Longrightarrow> is_branch t \<Longrightarrow> rejoin fs t = plug fs t"
proof (induction ns fs rule: list_all2_induct)
  case (Cons n ns f fs)
  show ?case
  proof (cases f)
    case (FExt k)
    with Cons.prems have "is_branch (plug fs u)" "wf_tree (plug fs u)" by simp_all
    moreover have "is_branch (plug fs t)"
      using calculation(1) Cons.prems(2) by (cases fs; cases "hd fs") auto
    ultimately show ?thesis using Cons FExt by (cases "plug fs t") auto
  next
    case (FBranch ts v i)
    with Cons.hyps(1) Cons.prems(1) have "wf_tree (plug fs u)" by (cases n) auto
    with Cons FBranch show ?thesis by simp
  qed
qed simp

lemma join_join [simp]: "join k (join q t) = join (k @ q) t"
  by (cases t) simp_all

lemma getChildren_ok:
  assumes "length bs = 16" "length ts = 16" "\<forall>i < 16. slot_ok h (bs ! i) (ts ! i)"
  shows "getChildren bs = map (\<lambda>(i, t). (i, bs ! i)) (children ts)"
proof -
  have e: "enumerate 0 xs = map (\<lambda>i. (i, xs ! i)) [0..<16]" if "length xs = 16" for xs :: "'x list"
    using that by (simp add: enumerate_eq_zip list_eq_iff_nth_eq)
  have "filled (bs ! i) \<longleftrightarrow> ts ! i \<noteq> None" if "i < 16" for i
    using assms(3) that ref_filled [of "bs ! i"] by (cases "ts ! i") (auto simp: slot_ok_def dslot_def filled_dat)
  then have "filter (\<lambda>i. filled (bs ! i)) [0..<16] = filter (\<lambda>i. ts ! i \<noteq> None) [0..<16]"
    by (intro filter_cong) auto
  then show ?thesis
    unfolding getChildren_def children_def e [OF assms(1)] e [OF assms(2)]
    by (simp add: filter_map comp_def del: not_None_eq upt_Suc)
qed

lemma join_node:
  assumes "reps h n c" "wf_tree c" "plain x"
  shows "\<exists>ns' m' fs' u'. (case n of Branch _ _ \<Rightarrow> [Ext q x, n] | _ \<Rightarrow> [set_key (q @ node_key n) n]) = ns' @ [m']
    \<and> list_all2 (freps h) ns' fs' \<and> reps h m' u' \<and> plug fs' u' = join q c \<and> fpath fs' @ own_key u' = q @ node_key n
    \<and> below u' = below c \<and> beside fs' = {}"
proof (cases c)
  case (PBranch ts v)
  with assms(1) obtain bs y where "n = Branch bs y" by (cases n) auto
  with PBranch assms show ?thesis
    by (intro exI [of _ "[Ext q x]"] exI [of _ n] exI [of _ "[FExt q]"] exI [of _ c]) (simp add: own_key_def)
next
  case (PLeaf k v)
  with assms(1) have "n = Leaf k (RBytes v)" by (cases n) auto
  with PLeaf show ?thesis
    by (intro exI [of _ "[]"] exI [of _ "Leaf (q @ k) (RBytes v)"] exI [of _ "[]"] exI [of _ "join q c"]) (simp add: own_key_def)
next
  case (PExt k t)
  with assms(1) obtain y where "n = Ext k y" "plain y" "dat y = ref h t" by (cases n) auto
  with PExt show ?thesis
    by (intro exI [of _ "[]"] exI [of _ "Ext (q @ k) y"] exI [of _ "[]"] exI [of _ "join q c"]) (simp add: own_key_def)
qed

text \<open>The node of a branch with one child goes; what is below its parent is a branch or the whole tree.\<close>

lemma rejoin_end:
  assumes "list_all2 (freps h) ns fs" "wf_tree (plug fs (PBranch ts v))"
  obtains "fs = []"
    | n ns' gs us w i where "ns = ns' @ [n]" "list_all2 (freps h) ns' gs" "fs = gs @ [FBranch us w i]"
      "freps h n (FBranch us w i)" "\<And>t. rejoin fs t = plug fs t"
    | n ns' gs k where "ns = ns' @ [n]" "list_all2 (freps h) ns' gs" "fs = gs @ [FExt k]"
      "freps h n (FExt k)" "\<And>t. rejoin fs t = plug gs (join k t)"
proof (cases fs rule: rev_cases)
  case (snoc gs f)
  then obtain ns' n where n: "ns = ns' @ [n]" "list_all2 (freps h) ns' gs" "freps h n f"
    using assms(1) by (auto simp: list_all2_append2 list_all2_Cons2)
  show ?thesis
  proof (cases f)
    case (FBranch us w i)
    have "rejoin fs t = plug fs t" for t
      using rejoin_branch [OF n(2), of "PBranch (us[i := Some (PBranch ts v)]) w"] assms(2) snoc FBranch
      by (simp add: rejoin_append plug_append rejoin_branch [OF n(2)])
    with n snoc FBranch show ?thesis by (intro that(2)) auto
  next
    case (FExt k)
    have "rejoin gs t = plug gs t" for t
    proof (cases gs rule: rev_cases)
      case Nil
      then show ?thesis by simp
    next
      case (snoc hs g)
      then obtain ms m where m: "ns' = ms @ [m]" "list_all2 (freps h) ms hs" "freps h m g"
        using n(2) by (auto simp: list_all2_append2 list_all2_Cons2)
      have wf: "wf_tree (plug hs (plug [g] (PExt k (PBranch ts v))))"
        using assms(2) \<open>fs = gs @ [f]\<close> snoc FExt by (cases g) (simp_all add: plug_append)
      show ?thesis
      proof (cases g)
        case (FExt k')
        with wf_plug [OF m(2) wf] show ?thesis by simp
      next
        case (FBranch us w i)
        with snoc show ?thesis by (simp add: rejoin_append plug_append rejoin_branch [OF m(2) wf])
      qed
    qed
    with n snoc FExt show ?thesis by (intro that(3)) (auto simp: rejoin_append)
  qed
qed (use that(1) in blast)

lemma collapse_ok:
  assumes "holds s (Some (plug fs (PBranch ts0 v0)))" "list_all2 (freps h) ns fs" "reps h (Branch bs y) (PBranch ts v)"
    and sub: "\<And>j t. j < 16 \<Longrightarrow> ts ! j = Some t \<Longrightarrow> ts0 ! j = Some t" and wf: "wf_tree (rejoin fs (shrink ts v))"
    and apart: "mpt_apart X (rejoin fs (shrink ts v))" and "wf_tree (PBranch ts0 v0)"
  shows "\<exists>s'. collapse X (fpath fs) (Branch bs y) (if ns = [] then None else Some (last ns)) (butlast ns) [] s = (Inr (), s')
    \<and> holds s' (Some (rejoin fs (shrink ts v))) \<and> saved s' = saved s"
proof -
  have bs: "length bs = 16" "length ts = 16" "\<forall>i < 16. slot_ok h (bs ! i) (ts ! i)" using assms(3) by auto
  have parts_in: "parts t \<subseteq> below (PBranch ts0 v0)" if "Some t \<in> set ts" for t
    using that sub assms(7) bs(2) by (auto simp: in_set_conv_nth)
  have wf0: "wf_tree (plug fs (PBranch ts0 v0))" using assms(1) by (simp add: mpt_holds_def)
  show ?thesis
  proof (cases "\<exists>j c. children ts = [(j, c)]")
    case False
    then have "shrink ts v = PBranch ts v" by (auto simp: shrink_def split: list.split)
    moreover have "rejoin fs (PBranch ts v) = plug fs (PBranch ts v)" by (rule rejoin_branch [OF assms(2) wf0]) simp
    moreover have "collapse X (fpath fs) (Branch bs y) (if ns = [] then None else Some (last ns)) (butlast ns) [] s
        = saveStack X (fpath fs) (ns @ [Branch bs y]) [] s"
    proof -
      have e: "ns \<noteq> [] \<Longrightarrow> butlast ns @ [last ns, Branch bs y] = ns @ [Branch bs y]"
        by (metis append_butlast_last_id append.assoc append_Cons append_Nil)
      show ?thesis using False by (cases "children ts" rule: list.exhaust; cases "tl (children ts)")
        (auto simp: collapse_def getChildren_ok [OF bs] e split: prod.split)
    qed
    moreover have "w \<in> set [] \<or> w \<in> below (PBranch ts0 v0)" if "w \<in> below (PBranch ts v) \<or> (\<exists>t \<in> beside []. w \<in> parts t)" for w
      using that parts_in by auto
    then have "\<exists>s'. saveStack X (fpath fs) (ns @ [] @ [Branch bs y]) (map put_of []) s = (Inr (), s')
        \<and> holds s' (Some (plug fs (plug [] (PBranch ts v)))) \<and> saved s' = saved s"
      using assms calculation by (intro rebuild_ok [of s fs "PBranch ts0 v0"]) (simp_all add: own_key_def)
    ultimately show ?thesis by simp
  next
    case True
    then obtain j c where c: "children ts = [(j, c)]" by blast
    then have j: "j < 16" "ts ! j = Some c" "shrink ts v = join [j] c" using set_children [of ts] bs(2) by (auto simp: shrink_def)
    then have wc: "wf_tree c" "Some c \<in> set ts" using sub [of j c] assms(7) bs(2) by (auto simp: in_set_conv_nth)
    have "stored s c" using assms(1) parts_plug [OF assms(2), of "PBranch ts0 v0"] parts_in [OF wc(2)] parts_below [of "PBranch ts0 v0"]
      by (auto simp: mpt_holds_def mpt_stored_def)
    then have "resolves s (bs ! j) c" using resolves_ref wc(1) bs(3) j by (auto simp: slot_ok_def dslot_def)
    moreover have "mpt_good s" using assms(1) by (simp add: mpt_holds_def)
    ultimately obtain n s1 where n: "lookupNode X (bs ! j) s = (Inr n, s1)" "reps h n c" "same s s1"
      using resolves_node by blast
    have run: "collapse X key (Branch bs y) p st [] s =
        (let (key, stack) = processBranchMPTNode key j n p st in saveStack X key stack []) s1" for key p st
      using n(1) c keeps_nodes by (simp add: collapse_def getChildren_ok [OF bs] bindS_def retS_def)
    note holds1 = same_holds [OF n(3) assms(1)]
    have cover: "w \<in> set [] \<or> w \<in> below (PBranch ts0 v0)" if "w \<in> below c" for w
      using that parts_in [OF wc(2)] parts_below [of c] by auto
    have finish: "\<exists>s'. saveStack X (fpath gs @ q @ node_key n)
          (ms @ (case n of Branch _ _ \<Rightarrow> [Ext q x, n] | _ \<Rightarrow> [set_key (q @ node_key n) n])) [] s1 = (Inr (), s')
        \<and> holds s' (Some (plug gs (join q c))) \<and> saved s' = saved s"
      if f: "list_all2 (freps h) ms gs" "plug gs u = plug fs (PBranch ts0 v0)" "below (PBranch ts0 v0) \<subseteq> below u"
        "plain x" "rejoin fs (shrink ts v) = plug gs (join q c)" for gs ms u q x
    proof -
      obtain ns' m' fs' u' where e: "(case n of Branch _ _ \<Rightarrow> [Ext q x, n] | _ \<Rightarrow> [set_key (q @ node_key n) n]) = ns' @ [m']"
        "list_all2 (freps h) ns' fs'" "reps h m' u'" "plug fs' u' = join q c" "fpath fs' @ own_key u' = q @ node_key n"
        "below u' = below c" "beside fs' = {}"
        using join_node [OF n(2) wc(1) f(4), of q] by blast
      have low: "w \<in> below u" if "w \<in> below c" for w using cover [OF that] f(3) by auto
      have "holds s1 (Some (plug gs u))" using holds1 f(2) by simp
      from rebuild_ok [OF this f(1) e(2,3), of "fpath gs @ q @ node_key n" "[]"] e wf apart f(5) low n(3)
      show ?thesis by (simp add: mpt_same_def)
    qed
    from rejoin_end [OF assms(2) wf0] show ?thesis
    proof cases
      case 1
      with assms(2) j(3) finish [of "[]" "[]" "PBranch ts0 v0" "RBytes []" "[j]"] show ?thesis
        by (cases n) (auto simp: run processBranchMPTNode_def)
    next
      case (2 m ns' gs us w i)
      then obtain bs' y' where m: "m = Branch bs' y'" by (cases m) auto
      with 2 j(3) assms(2) finish [of ns fs "PBranch ts0 v0" "RBytes []" "[j]"] show ?thesis
        by (cases n) (auto simp: run processBranchMPTNode_def)
    next
      case (3 m ns' gs k)
      then obtain x where m: "m = Ext k x" "plain x" by (cases m) auto
      with 3 j(3) finish [of ns' gs "PExt k (PBranch ts0 v0)" x "k @ [j]"] show ?thesis
        by (cases n) (auto simp: run processBranchMPTNode_def plug_append fpath_append)
    qed
  qed
qed

lemma uniform_descend:
  "descend t p = (fs, u, q, True) \<Longrightarrow> uniform t (length p) \<Longrightarrow> wf_tree t \<Longrightarrow> nibs p \<Longrightarrow> \<exists>w. u = PLeaf q w"
proof (induction t p arbitrary: fs rule: descend.induct)
  case (2 k t p)
  then show ?case by (auto split: if_splits prod.splits simp: nibs_parts)
next
  case (4 ts v x p)
  then show ?case by (auto split: option.splits prod.splits)
qed (auto split: if_splits)

lemma deleteNode_ok:
  assumes "holds s (Some (plug fs (PLeaf q w)))" "list_all2 (freps h) ns fs" "bytesToNibbles k = fpath fs @ q"
    and d: "tree_del (plug fs (PLeaf q w)) (bytesToNibbles k) = c" and wf: "\<And>t. c = Some t \<Longrightarrow> wf_tree t \<and> mpt_apart X t"
  shows "\<exists>s'. deleteNode X k (ns @ [Leaf q (RBytes w)]) s = (Inr (), s') \<and> holds s' c \<and> saved s' = saved s"
proof (cases fs rule: rev_cases)
  case Nil
  with assms(1,2) d set_root_ok [of "[0x80]" s] show ?thesis
    by (auto simp: deleteNode_def EMPTY_TRIE_ROOT_def mpt_holds_def)
next
  case (snoc gs f)
  then obtain ns' n where n: "ns = ns' @ [n]" "list_all2 (freps h) ns' gs" "freps h n f"
    using assms(2) by (auto simp: list_all2_append2 list_all2_Cons2)
  have t: "wf_tree (plug fs (PLeaf q w))" using assms(1) by (simp add: mpt_holds_def)
  then have q: "wf_tree (PLeaf q w)" by (rule wf_plug [OF assms(2)])
  have wf1: "wf_tree (plug [f] (PLeaf q w))" by (rule wf_plug [OF n(2)]) (use t snoc in \<open>simp add: plug_append\<close>)
  show ?thesis
  proof (cases f)
    case (FBranch ts v i)
    with n(3) obtain bs y where m: "n = Branch bs y" by (cases n) auto
    let ?b = "Branch (bs[i := RNull]) y"
    have b: "reps h ?b (PBranch (ts[i := None]) v)" "i < length ts"
      using n(3) FBranch m by (auto simp: nth_list_update)
    have c: "c = Some (rejoin gs (shrink (ts[i := None]) v))"
      using tree_del_plug [OF n(2) b(2), of q w v] d assms(3) snoc FBranch by (simp add: plug_append fpath_append)
    have "deleteNode X k (ns @ [Leaf q (RBytes w)]) s
        = collapse X (fpath gs) ?b (if ns' = [] then None else Some (last ns')) (butlast ns') [] s"
      using n(1) m assms(3) snoc FBranch format_ok(1) [OF _ q, of "Leaf q (RBytes w)" True "[]"]
      by (simp add: deleteNode_def Let_def splice_end_def fpath_append bindS_lift butlast_append)
    moreover have "holds s (Some (plug gs (PBranch (ts[i := Some (PLeaf q w)]) v)))"
      using assms(1) snoc FBranch by (simp add: plug_append)
    then have "\<exists>s'. collapse X (fpath gs) ?b (if ns' = [] then None else Some (last ns')) (butlast ns') [] s = (Inr (), s')
        \<and> holds s' (Some (rejoin gs (shrink (ts[i := None]) v))) \<and> saved s' = saved s"
    proof (rule collapse_ok [OF _ n(2) b(1)])
      show "ts[i := Some (PLeaf q w)] ! j = Some t" if "ts[i := None] ! j = Some t" "j < 16" for j t
        using that b(2) by (cases "j = i") simp_all
    qed (use wf c wf1 FBranch in simp_all)
    ultimately show ?thesis using c by simp
  qed (use wf1 in simp)
qed

lemma persist_opt:
  assumes "holds s c" "mpt_apart_trie X c"
  shows "\<exists>s'. persistRoot X s = (Inr (), s') \<and> holds s' c \<and> saved s' = saved s"
proof (cases c)
  case None
  with assms have "mpt_good s" "safe {h [0x80]}" by (simp_all add: mpt_holds_def mpt_apart_trie_def safe_def EMPTY_TRIE_ROOT_def)
  from persist_ok [OF this] assms(1) None show ?thesis by (auto simp: mpt_holds_def EMPTY_TRIE_ROOT_def)
qed (use persist_holds assms in \<open>auto simp: mpt_apart_trie_def\<close>)

lemma del_ok:
  assumes "holds s c" and k: "k = (if skip then key else appliedKey X key)"
    and "\<And>t. c = Some t \<Longrightarrow> uniform t (length (bytesToNibbles k))" "small (bytesToNibbles k)"
    and apart: "mpt_apart_trie X (del_tree c (bytesToNibbles k))"
  shows "\<exists>s'. mpt_del X key skip s = (Inr (), s') \<and> holds s' (del_tree c (bytesToNibbles k)) \<and> saved s' = saved s"
proof -
  let ?p = "bytesToNibbles k"
  have "\<exists>s2. mpt_del X key skip s = persistRoot X s2 \<and> holds s2 (del_tree c ?p) \<and> saved s2 = saved s"
  proof (cases c)
    case None
    obtain s1 where "findPath X k False s = (Inr (None, [], []), s1)" "same s s1"
      using findPath_empty assms(1) None by blast
    moreover from this have "holds s1 None" "saved s1 = saved s" using same_holds assms(1) None by (auto simp: mpt_same_def)
    ultimately show ?thesis using keeps_nodes None
      unfolding mpt_del_def Let_def k [symmetric] by (auto simp: bindS_def whenS_def retS_def del_tree_def)
  next
    case (Some t)
    have t: "wf_tree t" using assms(1) Some by (simp add: mpt_holds_def)
    obtain fs u q b where d: "descend t ?p = (fs, u, q, b)" by (metis prod_cases4)
    from findPath_ok [OF _ d, of s False] assms(1) Some obtain ns m s1 where
      p: "findPath X k False s = (Inr (if b then Some m else None, if b then [] else q, ns @ [m]), s1)"
      "same s s1" "list_all2 (freps h) ns fs" "reps h m u" using preps_frames by blast
    have s1: "holds s1 (Some t)" "saved s1 = saved s" using same_holds [OF p(2)] assms(1) Some p(2) by (simp_all add: mpt_same_def)
    show ?thesis
    proof (cases b)
      case False
      then have "del_tree c ?p = Some t" using descend_lookup [OF d] Some by (simp add: del_tree_def)
      with False p(1) s1 keeps_nodes show ?thesis
        unfolding mpt_del_def Let_def k [symmetric] by (auto simp: bindS_def whenS_def retS_def)
    next
      case True
      with uniform_descend d assms(3) [OF Some] t obtain w where u: "u = PLeaf q w" by fastforce
      with p(4) have m: "m = Leaf q (RBytes w)" by (cases m) auto
      have l: "tree_lookup t ?p = Some w" using descend_lookup [OF d] u True by simp
      then have c: "del_tree c ?p = tree_del t ?p" by (simp add: del_tree_def Some)
      have t': "t = plug fs (PLeaf q w)" "?p = fpath fs @ q" using descend_plug [OF d] u by auto
      have W: "wf_tree t' \<and> mpt_apart X t'" if "del_tree c ?p = Some t'" for t'
        using tree_del_ok [OF t assms(3) [OF Some] assms(4) nibs_bytes l] that c apart by (simp add: mpt_apart_trie_def)
      have D: "tree_del (plug fs (PLeaf q w)) ?p = del_tree c ?p" using c t' by simp
      have H: "holds s1 (Some (plug fs (PLeaf q w)))" using s1(1) t'(1) by simp
      obtain s2 where "deleteNode X k (ns @ [m]) s1 = (Inr (), s2)" "holds s2 (del_tree c ?p)" "saved s2 = saved s1"
        using deleteNode_ok [OF H p(3) t'(2) D W] m by blast
      with True p(1) s1(2) keeps_nodes show ?thesis
        unfolding mpt_del_def Let_def k [symmetric] by (auto simp: bindS_def whenS_def retS_def)
    qed
  qed
  then obtain s2 where s2: "mpt_del X key skip s = persistRoot X s2" "holds s2 (del_tree c ?p)" "saved s2 = saved s" by blast
  from persist_opt [OF s2(2) apart] show ?thesis unfolding s2(1,3) .
qed

end

end
