(* ===== verification/MptProof.thy ===== *)
theory MptProof
  imports MptWrite
begin

text \<open>
  Merkle proofs: \<open>packages/merkel-trie/src/proof/proof.ts\<close> and \<open>createMPTFromProof\<close> of
  \<open>constructors.ts\<close>. A proof for a key is the list of the encodings of the nodes on its path. It is verified
  by putting them into an empty database under their hashes and looking the key up from the claimed
  root. The lemmas show that the proof of a trie is accepted and gives what the trie holds at the key, and that whatever
  list is offered as a proof, a value it makes the verifier answer is the one in the tree with that root.
\<close>

section \<open>Making and checking a proof\<close>

definition createMerkleProof :: "'c mpt_opts \<Rightarrow> u8 list \<Rightarrow> ('c mpt, u8 list list) stm" where
  "createMerkleProof X key =
     bindS (findPath X (appliedKey X key) False) (\<lambda>(node, remaining, stack). liftS (mapE serialize stack))"

definition updateMPTFromMerkleProof :: "'c mpt_opts \<Rightarrow> u8 list list \<Rightarrow> bool \<Rightarrow> ('c mpt, u8 list option) stm" where
  "updateMPTFromMerkleProof X proof shouldVerifyRoot =
     (let opStack = map (\<lambda>nodeValue. (prefixed X (mo_hash X nodeValue), Some nodeValue)) proof in
      bindS (getS mp_root) (\<lambda>root.
      if shouldVerifyRoot \<and> opStack \<noteq> [] \<and> root \<noteq> fst (hd opStack)
      then failS (Throw ''The provided proof does not have the expected trie root'')
      else thenS (db_batch X opStack) (retS (if opStack = [] then None else Some (fst (hd opStack))))))"

text \<open>The trie a proof is verified in has the options of the constructor, except for the hash function.\<close>

definition proof_opts :: "'c mpt_opts \<Rightarrow> 'c mpt_opts" where
  "proof_opts X = X\<lparr>mo_useKeyHashing := False, mo_keyPrefix := None, mo_useRootPersistence := False, mo_useNodePruning := False\<rparr>"

definition verifyMPTWithMerkleProof :: "'c mpt_opts \<Rightarrow> u8 list \<Rightarrow> u8 list \<Rightarrow> u8 list list \<Rightarrow> rlp_input res" where
  "verifyMPTWithMerkleProof X rootHash key proof =
     bindE (mpt_new (proof_opts X) (ck_new [] True None) (Some rootHash)) (\<lambda>s.
     case updateMPTFromMerkleProof (proof_opts X) proof True s of
       (Inl _, s) \<Rightarrow> throw ''Invalid proof nodes given''
     | (Inr _, s) \<Rightarrow>
        (case mpt_get (proof_opts X) (appliedKey X key) True s of
           (Inr v, s) \<Rightarrow> Inr v
         | (Inl e, s) \<Rightarrow> if e = MISSING then throw ''Invalid proof provided'' else Inl e))"

definition createMPTFromProof :: "'c mpt_opts \<Rightarrow> 'c ckdb \<Rightarrow> u8 list option \<Rightarrow> u8 list list \<Rightarrow> 'c mpt res" where
  "createMPTFromProof X d root proof =
     bindE (mpt_new X d root) (\<lambda>s.
     case bindS (updateMPTFromMerkleProof X proof (root \<noteq> None)) (\<lambda>r.
          thenS (case r of None \<Rightarrow> retS () | Some r \<Rightarrow> set_root X (Some r)) (persistRoot X)) s of
       (Inl e, s) \<Rightarrow> Inl e
     | (Inr _, s) \<Rightarrow> Inr s)"

definition verifyMerkleProof :: "'c mpt_opts \<Rightarrow> 'c ckdb \<Rightarrow> u8 list option \<Rightarrow> u8 list \<Rightarrow> u8 list list \<Rightarrow> rlp_input res" where
  "verifyMerkleProof X d root key proof =
     (case bindE (createMPTFromProof X d root proof) (\<lambda>s. fst (mpt_get X key True s)) of
        Inr v \<Rightarrow> Inr v
      | Inl _ \<Rightarrow> throw ''Invalid proof provided'')"

section \<open>The lookup in the trie of a proof\<close>

text \<open>What a lookup answers for what is found.\<close>

definition found_item :: "u8 list option \<Rightarrow> rlp_input" where
  "found_item v = (case v of None \<Rightarrow> RNull | Some v \<Rightarrow> RBytes v)"

lemma nodes_serialize:
  "preps h ns fs u \<Longrightarrow> reps h m u \<Longrightarrow> (\<And>n t. reps h n t \<Longrightarrow> t \<in> set (spine fs u) \<Longrightarrow> serialize n = Inr (encoding h t))
    \<Longrightarrow> mapE serialize (ns @ [m]) = Inr (map (encoding h) (spine fs u))"
  by (induction h ns fs u rule: preps.induct) (auto simp: Let_def)

context mpt_store
begin

lemma get_walk:
  assumes "wf_tree t" "mpt_good s" "look s (mp_root s) = Some (encoding h t)"
    and "\<forall>w \<in> set (on_path t (bytesToNibbles (appliedKey X key))). known s w"
  shows "(\<exists>s'. mpt_get X key miss s = (Inr (found_item (tree_lookup t (bytesToNibbles (appliedKey X key)))), s') \<and> same s s')
    \<or> (\<exists>w \<in> set (on_path t (bytesToNibbles (appliedKey X key))). lost s w)
      \<and> (miss \<longrightarrow> fst (mpt_get X key miss s) = Inl MISSING)"
  using findPath_walk [OF assms, of miss]
proof (elim disjE)
  let ?p = "bytesToNibbles (appliedKey X key)"
  assume f: "path_found s t ?p (findPath X (appliedKey X key) miss s)"
  obtain fs u q b where d: "descend t ?p = (fs, u, q, b)" by (metis prod_cases4)
  with f obtain ns m s' where
    p: "findPath X (appliedKey X key) miss s = (Inr (if b then Some m else None, if b then [] else q, ns @ [m]), s')"
    "same s s'" "reps h m u" by (auto simp: path_found_def)
  have u: "wf_tree u" using descend_wf [OF d assms(1)] by simp
  show ?thesis
  proof (cases b)
    case True
    then have "node_value m = found_item (tree_lookup t ?p)"
      using node_value_ok [OF p(3) u] descend_lookup [OF d] d descend_found by (simp add: found_item_def)
    with True p show ?thesis by (simp add: mpt_get_def bindS_def retS_def)
  next
    case False
    with p descend_lookup [OF d] show ?thesis by (simp add: mpt_get_def bindS_def retS_def found_item_def)
  qed
next
  assume "(\<exists>w \<in> set (on_path t (bytesToNibbles (appliedKey X key))). lost s w)
    \<and> (miss \<longrightarrow> fst (findPath X (appliedKey X key) miss s) = Inl MISSING)"
  then show ?thesis by (auto simp: mpt_get_def bindS_def split: prod.split sum.split)
qed

text \<open>The database of a proof.\<close>

lemma update_proof:
  assumes "mpt_good s" "look s = (\<lambda>_. None)" "mo_keyPrefix X = None"
  shows "updateMPTFromMerkleProof X es True s = (r, s') \<Longrightarrow> r = Inr x
    \<Longrightarrow> mpt_good s' \<and> mp_root s' = mp_root s \<and> look s' = written es (\<lambda>_. None) \<and> (es \<noteq> [] \<longrightarrow> mp_root s = h (hd es))"
    and "es \<noteq> [] \<Longrightarrow> mp_root s = h (hd es) \<Longrightarrow> \<exists>x s'. updateMPTFromMerkleProof X es True s = (Inr x, s')"
proof -
  obtain s1 where s1: "db_batch X (map put_enc es) s = (Inr (), s1)" "mpt_good s1" "mp_root s1 = mp_root s"
    "look s1 = written es (\<lambda>_. None)" using db_batch_ok [OF assms(1), of es] assms(2) by auto
  have o: "map (\<lambda>v. (prefixed X (h v), Some v)) es = map put_enc es" by (simp add: put_enc_def)
  have f: "fst (hd (map put_enc es)) = h (hd es)" if "es \<noteq> []" using that assms(3) by (cases es) (simp_all add: put_enc_def prefixed_def)
  show "updateMPTFromMerkleProof X es True s = (r, s') \<Longrightarrow> r = Inr x
    \<Longrightarrow> mpt_good s' \<and> mp_root s' = mp_root s \<and> look s' = written es (\<lambda>_. None) \<and> (es \<noteq> [] \<longrightarrow> mp_root s = h (hd es))"
    using s1 f unfolding updateMPTFromMerkleProof_def o Let_def
    by (auto simp: bindS_def getS_def failS_def retS_def split: if_splits)
  show "es \<noteq> [] \<Longrightarrow> mp_root s = h (hd es) \<Longrightarrow> \<exists>x s'. updateMPTFromMerkleProof X es True s = (Inr x, s')"
    using s1 f unfolding updateMPTFromMerkleProof_def o Let_def
    by (auto simp: bindS_def getS_def failS_def retS_def)
qed

lemma proof_known:
  assumes "look s = written es (\<lambda>_. None)" "inj_on h (set es \<union> encs h t)" "w \<in> parts t"
  shows "look s (h (encoding h w)) = None \<or> look s (h (encoding h w)) = Some (encoding h w)"
    and "encoding h w \<in> set es \<Longrightarrow> look s (h (encoding h w)) = Some (encoding h w)"
proof -
  have k: "look s (h e) = Some e" if "e \<in> set es" for e
    unfolding assms(1) by (rule written_part [OF assms(2) _ that]) simp
  then show "encoding h w \<in> set es \<Longrightarrow> look s (h (encoding h w)) = Some (encoding h w)" .
  show "look s (h (encoding h w)) = None \<or> look s (h (encoding h w)) = Some (encoding h w)"
  proof (cases "h (encoding h w) \<in> h ` set es")
    case True
    then obtain e where e: "h (encoding h w) = h e" "e \<in> set es" by blast
    have "encoding h w = e" by (rule inj_onD [OF assms(2) e(1)]) (use assms(3) e(2) in auto)
    with k e show ?thesis by simp
  next
    case False
    then show ?thesis unfolding assms(1) by (simp add: written_other)
  qed
qed

lemma proof_sound:
  assumes "mpt_good s" "look s = (\<lambda>_. None)" "mo_keyPrefix X = None" "wf_tree t" "mp_root s = h (encoding h t)"
    and "inj_on h (set es \<union> encs h t)" "updateMPTFromMerkleProof X es True s = (Inr x, s1)"
    and "mpt_get X key True s1 = (Inr v, s2)"
  shows "v = found_item (tree_lookup t (bytesToNibbles (appliedKey X key)))"
proof -
  have s1: "mpt_good s1" "mp_root s1 = h (encoding h t)" "look s1 = written es (\<lambda>_. None)"
    "es \<noteq> [] \<longrightarrow> h (encoding h t) = h (hd es)"
    using update_proof(1) [OF assms(1-3,7) refl] assms(5) by auto
  have "es \<noteq> []"
  proof
    assume "es = []"
    with s1(2,3) have "look s1 (mp_root s1) = None" by simp
    from lookup_missing [OF this s1(1)] have "\<exists>s'. lookupNode X (RBytes (mp_root s1)) s1 = (Inl MISSING, s')" by blast
    with assms(8) show False
      by (auto simp: mpt_get_def findPath_def Let_def bindS_def getS_def split: prod.splits sum.splits)
  qed
  then have "encoding h t = hd es" "hd es \<in> set es"
    using inj_onD [OF assms(6), of "encoding h t" "hd es"] s1(4) by auto
  then have root: "look s1 (mp_root s1) = Some (encoding h t)"
    using proof_known(2) [OF s1(3) assms(6) parts_refl] s1(2) by simp
  have "\<forall>w \<in> set (on_path t (bytesToNibbles (appliedKey X key))). known s1 w"
    using proof_known(1) [OF s1(3) assms(6)] on_path_parts [OF assms(4) nibs_bytes] by (auto simp: known_def)
  from get_walk [OF assms(4) s1(1) root this, of True] assms(8) show ?thesis by auto
qed

lemma proof_complete:
  assumes "mpt_good s" "look s = (\<lambda>_. None)" "mo_keyPrefix X = None" "wf_tree t" "mp_root s = h (encoding h t)"
    and "inj_on h (encs h t)" and "appliedKey X key = k"
  shows "\<exists>x s1 s2. updateMPTFromMerkleProof X (map (encoding h) (on_path t (bytesToNibbles k))) True s = (Inr x, s1)
    \<and> mpt_get X key True s1 = (Inr (found_item (tree_lookup t (bytesToNibbles k))), s2)"
proof -
  let ?es = "map (encoding h) (on_path t (bytesToNibbles k))"
  have es: "?es \<noteq> []" "hd ?es = encoding h t" using on_path_hd [of t "bytesToNibbles k"] by auto
  with update_proof(2) [OF assms(1-3), of ?es] assms(5) obtain x s1 where u: "updateMPTFromMerkleProof X ?es True s = (Inr x, s1)" by auto
  have s1: "mpt_good s1" "mp_root s1 = h (encoding h t)" "look s1 = written ?es (\<lambda>_. None)"
    using update_proof(1) [OF assms(1-3) u refl] assms(5) by auto
  have "set ?es \<subseteq> encs h t" using on_path_parts [OF assms(4) nibs_bytes] by auto
  then have inj: "inj_on h (set ?es \<union> encs h t)" using assms(6) by (simp add: Un_absorb1)
  have path: "look s1 (h (encoding h w)) = Some (encoding h w)" if "w \<in> set (on_path t (bytesToNibbles k))" for w
    using proof_known(2) [OF s1(3) inj on_path_parts [OF assms(4) nibs_bytes that]] that by simp
  then have "look s1 (mp_root s1) = Some (encoding h t)" using s1(2) on_path_hd [of t "bytesToNibbles k"] by auto
  from get_walk [OF assms(4) s1(1) this, of key True] path u show ?thesis
    unfolding assms(7) by (auto simp: known_def lost_def)
qed

end

end
