(* ===== verification/MptTrie.thy ===== *)
theory MptTrie
  imports MptProof
begin

text \<open>
  The trie as its callers see it. A trie is a map from paths to values: \<open>contents\<close>. A batch of insertions and
  deletions changes the map and nothing else, the root is a function of the map, checkpoints bring a map
  back, and proofs speak about the map. The statements are for tries whose keys have one length after
  hashing, as those of the state have; deletion is not right otherwise. They need of the hash function that
  it does not collide on the encodings at hand (\<open>mpt_apart_trie\<close>).
\<close>

section \<open>The map\<close>

definition contents :: "ptree option \<Rightarrow> nibbles \<Rightarrow> u8 list option" where
  "contents c p = (case c of None \<Rightarrow> None | Some t \<Rightarrow> tree_lookup t p)"

definition key_path :: "'c mpt_opts \<Rightarrow> u8 list \<Rightarrow> nibbles" where
  "key_path X key = bytesToNibbles (appliedKey X key)"

lemma nibs_key_path [simp]: "nibs (key_path X key)"
  by (simp add: key_path_def)

text \<open>One change of a batch, to the map and to the tree.\<close>

definition op_map :: "'c mpt_opts \<Rightarrow> trie_op \<Rightarrow> (nibbles \<Rightarrow> u8 list option) \<Rightarrow> nibbles \<Rightarrow> u8 list option" where
  "op_map X x m = (case x of
     TPut k (Some v) \<Rightarrow> m(key_path X k := if v = [] then None else Some v)
   | TPut k None \<Rightarrow> m
   | TDel k \<Rightarrow> m(key_path X k := None))"

definition op_tree :: "'c mpt_opts \<Rightarrow> trie_op \<Rightarrow> ptree option \<Rightarrow> ptree option" where
  "op_tree X x c = (case x of
     TPut k (Some v) \<Rightarrow> if v = [] then del_tree c (key_path X k) else Some (put_tree c (key_path X k) v)
   | TPut k None \<Rightarrow> c
   | TDel k \<Rightarrow> del_tree c (key_path X k))"

text \<open>The trees a batch goes through.\<close>

fun op_trees :: "'c mpt_opts \<Rightarrow> trie_op list \<Rightarrow> ptree option \<Rightarrow> ptree option list" where
  "op_trees X [] c = [c]"
| "op_trees X (x # ops) c = c # op_trees X ops (op_tree X x c)"

text \<open>A change the trie accepts, with a key of \<open>n\<close> bytes after hashing.\<close>

definition op_ok :: "'c mpt_opts \<Rightarrow> nat \<Rightarrow> trie_op \<Rightarrow> bool" where
  "op_ok X n x = (case x of
     TPut k (Some v) \<Rightarrow> small v \<and> length (appliedKey X k) = n \<and> \<not> (mo_useRootPersistence X \<and> k = ROOT_DB_KEY)
   | TPut k None \<Rightarrow> False
   | TDel k \<Rightarrow> length (appliedKey X k) = n)"

definition keys_of :: "nat \<Rightarrow> ptree option \<Rightarrow> bool" where
  "keys_of n c \<longleftrightarrow> 2 * n < 2 ^ 32 \<and> (\<forall>t. c = Some t \<longrightarrow> uniform t (2 * n))"

definition wf_trie :: "ptree option \<Rightarrow> bool" where
  "wf_trie c \<longleftrightarrow> (\<forall>t. c = Some t \<longrightarrow> wf_tree t)"

lemma del_contents:
  assumes "wf_trie c" "keys_of n c" "nibs p"
  shows "wf_trie (del_tree c p) \<and> keys_of n (del_tree c p) \<and> (\<forall>q. nibs q \<longrightarrow> contents (del_tree c p) q = ((contents c)(p := None)) q)"
proof (cases "contents c p")
  case None
  then have "del_tree c p = c" by (auto simp: contents_def del_tree_def split: option.splits)
  with None assms show ?thesis by auto
next
  case (Some v)
  then obtain t where t: "c = Some t" "tree_lookup t p = Some v" by (auto simp: contents_def split: option.splits)
  have w: "wf_tree t" "uniform t (2 * n)" "2 * n < 2 ^ 32" using assms t by (simp_all add: wf_trie_def keys_of_def)
  show ?thesis
  proof (cases "tree_del t p")
    case None
    with tree_del_ok [OF w assms(3) t(2)] have "t = PLeaf p v" by simp
    with t None w(3) show ?thesis by (auto simp: del_tree_def contents_def wf_trie_def keys_of_def)
  next
    case (Some t')
    with tree_del_ok [OF w assms(3) t(2)] t w(3) show ?thesis
      by (auto simp: del_tree_def contents_def wf_trie_def keys_of_def)
  qed
qed

lemma put_contents:
  assumes "wf_trie c" "keys_of n c" "nibs p" "length p = 2 * n" "v \<noteq> []" "small v"
  shows "wf_trie (Some (put_tree c p v)) \<and> keys_of n (Some (put_tree c p v))
    \<and> (\<forall>q. nibs q \<longrightarrow> contents (Some (put_tree c p v)) q = ((contents c)(p := Some v)) q)"
proof (cases c)
  case None
  with assms show ?thesis by (auto simp: put_tree_def contents_def wf_trie_def keys_of_def)
next
  case (Some t)
  with assms have t: "wf_tree t" "uniform t (2 * n)" "small p" by (simp_all add: wf_trie_def keys_of_def)
  with wf_ins [OF t(1) assms(3) t(3) assms(5,6)] uniform_ins [OF t(2,1) assms(3,4)] lookup_ins [OF t(1) assms(3)] assms(2) Some
  show ?thesis by (auto simp: put_tree_def contents_def wf_trie_def keys_of_def)
qed

lemma length_key_path: "length (key_path X k) = 2 * length (appliedKey X k)"
  by (simp add: key_path_def)

lemma op_contents:
  assumes "wf_trie c" "keys_of n c" "op_ok X n x"
  shows "wf_trie (op_tree X x c) \<and> keys_of n (op_tree X x c) \<and> (\<forall>q. nibs q \<longrightarrow> contents (op_tree X x c) q = op_map X x (contents c) q)"
proof (cases x)
  case (TPut k w)
  with assms(3) obtain v where v: "w = Some v" "small v" "length (appliedKey X k) = n" by (auto simp: op_ok_def split: option.splits)
  show ?thesis
  proof (cases "v = []")
    case True
    with TPut v del_contents [OF assms(1,2), of "key_path X k"] show ?thesis by (simp add: op_tree_def op_map_def)
  next
    case False
    with TPut v put_contents [OF assms(1,2), of "key_path X k" v] show ?thesis by (simp add: op_tree_def op_map_def length_key_path)
  qed
next
  case (TDel k)
  with del_contents [OF assms(1,2), of "key_path X k"] show ?thesis by (simp add: op_tree_def op_map_def)
qed

lemma op_map_cong: "(\<And>q. nibs q \<Longrightarrow> f q = g q) \<Longrightarrow> nibs q \<Longrightarrow> op_map X x f q = op_map X x g q"
  by (auto simp: op_map_def split: trie_op.split option.split)

lemma fold_map_cong: "(\<And>q. nibs q \<Longrightarrow> f q = g q) \<Longrightarrow> nibs q \<Longrightarrow> fold (op_map X) ops f q = fold (op_map X) ops g q"
proof (induction ops arbitrary: f g)
  case (Cons x ops)
  show ?case using Cons.IH [of "op_map X x f" "op_map X x g"] op_map_cong Cons.prems by (metis fold_Cons comp_apply)
qed simp

lemma ops_contents:
  "wf_trie c \<Longrightarrow> keys_of n c \<Longrightarrow> \<forall>x \<in> set ops. op_ok X n x \<Longrightarrow>
   wf_trie (last (op_trees X ops c)) \<and> keys_of n (last (op_trees X ops c))
   \<and> (\<forall>q. nibs q \<longrightarrow> contents (last (op_trees X ops c)) q = fold (op_map X) ops (contents c) q)"
proof (induction ops arbitrary: c)
  case (Cons x ops)
  have c: "wf_trie (op_tree X x c)" "keys_of n (op_tree X x c)" "\<And>q. nibs q \<Longrightarrow> contents (op_tree X x c) q = op_map X x (contents c) q"
    using op_contents [OF Cons.prems(1,2), of X x] Cons.prems(3) by auto
  have "op_trees X ops (op_tree X x c) \<noteq> []" by (cases ops) simp_all
  with Cons.IH [OF c(1,2)] Cons.prems(3) fold_map_cong [where X = X and ops = ops, OF c(3)] show ?case by simp
qed simp

text \<open>Two well-formed tries with the same map are the same.\<close>

lemma trie_unique:
  assumes "wf_trie c" "wf_trie d" "\<And>q. nibs q \<Longrightarrow> contents c q = contents d q"
  shows "c = d"
proof -
  have none: "e = None" if "wf_trie e" "\<And>q. nibs q \<Longrightarrow> contents e q = None" for e
    using that wf_some [of "the e"] by (cases e) (auto simp: contents_def wf_trie_def)
  show ?thesis
  proof (cases "c = None \<or> d = None")
    case True
    then show ?thesis using none [of c] none [of d] assms by (auto simp: contents_def)
  next
    case False
    then show ?thesis using assms tree_unique by (auto simp: contents_def wf_trie_def)
  qed
qed

section \<open>Popping a checkpoint\<close>

lemma ck_saved_pop: "ck_checkpoints d \<noteq> [] \<Longrightarrow>
    ck_saved L d = ck_look L (d\<lparr>ck_checkpoints := butlast (ck_checkpoints d)\<rparr>) # ck_saved L (d\<lparr>ck_checkpoints := butlast (ck_checkpoints d)\<rparr>)"
  by (cases "ck_checkpoints d" rule: rev_exhaust) (simp_all add: ck_saved_def ck_look_def)

lemma fold_cps_roots: "cs \<noteq> [] \<Longrightarrow> map cp_root (fold (\<lambda>(k, v). cps_set k v) kv cs) = map cp_root cs"
  by (induction kv arbitrary: cs) (auto simp: cps_set_roots)

lemma ck_batch_none: "ck_checkpoints (ck_batch L C ops d) = [] \<longleftrightarrow> ck_checkpoints d = []"
  using ck_batch_roots [of L C ops d] by (metis map_is_Nil_conv)

lemma ck_commit_roots: "ck_commit L C d = Inr d' \<Longrightarrow> map cp_root (ck_checkpoints d') = butlast (map cp_root (ck_checkpoints d))"
  by (auto simp: ck_commit_def Let_def ck_hasCheckpoints_def bindE_eq_Inr ck_batch_roots ck_batch_none fold_cps_roots map_butlast [symmetric] split: if_splits)

context mpt_store
begin

lemma op_run:
  assumes "holds s c" "keys_of n c" "op_ok X n x" "mpt_apart_trie X (op_tree X x c)"
  shows "\<exists>s'. batch_loop X (x # ops) False s = batch_loop X ops False s' \<and> holds s' (op_tree X x c) \<and> saved s' = saved s"
proof -
  have del: "\<exists>s'. mpt_del X k False s = (Inr (), s') \<and> holds s' (del_tree c (key_path X k)) \<and> saved s' = saved s"
    if "length (appliedKey X k) = n" "mpt_apart_trie X (del_tree c (key_path X k))" for k
    using del_ok [of s c "appliedKey X k" False k] assms(1,2) that by (auto simp: key_path_def keys_of_def)
  show ?thesis
  proof (cases x)
    case (TPut k w)
    with assms(3) obtain v where v: "w = Some v" "small v" "length (appliedKey X k) = n" "\<not> (mo_useRootPersistence X \<and> k = ROOT_DB_KEY)"
      by (auto simp: op_ok_def split: option.splits)
    show ?thesis
    proof (cases "v = []")
      case True
      with TPut v del [of k] assms(4) show ?thesis by (auto simp: op_tree_def mpt_put_def bindS_def)
    next
      case False
      have "small (bytesToNibbles (appliedKey X k))" using v(3) assms(2) by (simp add: keys_of_def)
      with False TPut v put_ok [of s c k v "appliedKey X k" False] assms(1,4) obtain s' where
        "mpt_put X k (Some v) False s = (Inr (), s')" "holds s' (op_tree X x c)" "saved s' = saved s"
        by (auto simp: op_tree_def key_path_def mpt_apart_trie_def)
      with TPut v show ?thesis by (auto simp: bindS_def)
    qed
  next
    case (TDel k)
    with del [of k] assms(3,4) show ?thesis by (auto simp: op_tree_def op_ok_def bindS_def)
  qed
qed

lemma batch_ok:
  assumes "holds s c" "keys_of n c" "\<forall>x \<in> set ops. op_ok X n x" "\<forall>d \<in> set (op_trees X ops c). mpt_apart_trie X d"
  shows "\<exists>s'. mpt_batch X ops False s = (Inr (), s') \<and> holds s' (last (op_trees X ops c)) \<and> saved s' = saved s"
proof -
  have "\<exists>s'. batch_loop X ops False s = (Inr (), s') \<and> holds s' (last (op_trees X ops c)) \<and> saved s' = saved s"
    using assms
  proof (induction ops arbitrary: s c)
    case Nil
    then show ?case by (simp add: retS_def)
  next
    case (Cons x ops)
    have ne: "\<exists>ts. op_trees X ops (op_tree X x c) = op_tree X x c # ts" by (cases ops) simp_all
    then have "mpt_apart_trie X (op_tree X x c)" using Cons.prems(4) by auto
    with op_run [of s c n x ops] Cons.prems obtain s1 where s1: "batch_loop X (x # ops) False s = batch_loop X ops False s1"
      "holds s1 (op_tree X x c)" "saved s1 = saved s" by auto
    have "wf_trie c" using Cons.prems(1) by (auto simp: wf_trie_def mpt_holds_def)
    then have "keys_of n (op_tree X x c)" using op_contents [of c n X x] Cons.prems by auto
    with Cons.IH [OF s1(2)] Cons.prems s1 ne show ?case by auto
  qed
  then obtain s1 where s1: "batch_loop X ops False s = (Inr (), s1)" "holds s1 (last (op_trees X ops c))" "saved s1 = saved s" by blast
  have "mpt_apart_trie X (last (op_trees X ops c))" using assms(4) by (cases ops) auto
  from persist_opt [OF s1(2) this] s1 show ?thesis by (auto simp: mpt_batch_def bindS_def)
qed

section \<open>Checkpoints\<close>

lemma checkpoint_ok: "holds s c \<Longrightarrow> holds (mpt_checkpoint s) c
    \<and> mpt_saved X (mpt_checkpoint s) = (fst (saved s) @ [mp_root s], look_all s # snd (saved s))"
  by (cases c) (auto simp: mpt_checkpoint_def ck_checkpoint_def mpt_holds_def mpt_good_def mpt_look_def mpt_stored_def mpt_saved_def
      ck_look_def ck_saved_def ck_inv_def good_map_def fun_eq_iff)

lemma holds_cong:
  "holds s c \<Longrightarrow> mpt_good s' \<Longrightarrow> mp_root s' = mp_root s \<Longrightarrow> look s' = look s \<Longrightarrow> holds s' c"
  by (cases c) (auto simp: mpt_holds_def mpt_stored_def)

lemma revert_ok:
  assumes "holds s c" "mpt_apart_trie X c" "mpt_good s2" "saved s2 = saved (mpt_checkpoint s)"
  shows "\<exists>s3. mpt_revert X s2 = (Inr (), s3) \<and> holds s3 c \<and> saved s3 = saved s"
proof -
  let ?d = "(mp_db s2)\<lparr>ck_checkpoints := butlast (ck_checkpoints (mp_db s2))\<rparr>"
  have roots: "map cp_root (ck_checkpoints (mp_db s2)) = fst (saved s) @ [mp_root s]"
    and all: "ck_saved (mo_lib X) (mp_db s2) = look_all s # snd (saved s)"
    using checkpoint_ok [OF assms(1)] assms(4) by (simp_all add: mpt_saved_def)
  then have ne: "ck_checkpoints (mp_db s2) \<noteq> []" by auto
  have last: "cp_root (last (ck_checkpoints (mp_db s2))) = mp_root s"
    using arg_cong [OF roots, of last] ne by (simp add: last_map)
  have pop: "ck_look (mo_lib X) ?d = look_all s" "ck_saved (mo_lib X) ?d = snd (saved s)" using ck_saved_pop [OF ne, of "mo_lib X"] all by simp_all
  have "map cp_root (ck_checkpoints ?d) = fst (saved s)" using arg_cong [OF roots, of butlast] by (simp add: map_butlast)
  with pop have sv: "saved (s2\<lparr>mp_root := mp_root s, mp_db := ?d\<rparr>) = saved s" by (simp add: mpt_saved_def)
  have "ck_inv ?d" using assms(3) by (auto simp: mpt_good_def ck_inv_def dest: in_set_butlastD)
  with assms(1) pop(1) have "holds (s2\<lparr>mp_root := mp_root s, mp_db := ?d\<rparr>) c"
    by (intro holds_cong [OF assms(1)]) (simp_all add: mpt_good_def mpt_look_def [abs_def])
  from persist_opt [OF this assms(2)] sv obtain s3 where s3:
    "persistRoot X (s2\<lparr>mp_root := mp_root s, mp_db := ?d\<rparr>) = (Inr (), s3)" "holds s3 c" "saved s3 = saved s" by auto
  have "\<exists>e. mp_root s = h e" using assms(1) by (cases c) (auto simp: mpt_holds_def EMPTY_TRIE_ROOT_def)
  then have "set_root X (Some (mp_root s)) (s2\<lparr>mp_db := ?d\<rparr>) = (Inr (), s2\<lparr>mp_root := mp_root s, mp_db := ?d\<rparr>)"
    using set_root_ok by auto
  with s3 ne last show ?thesis
    by (simp add: mpt_revert_def bindS_def getS_def mpt_hasCheckpoints_def ck_hasCheckpoints_def ck_revert_def)
qed

lemma commit_ok:
  assumes "holds s2 d" "mpt_apart_trie X d" "holds s c" "saved s2 = saved (mpt_checkpoint s)"
  shows "\<exists>s3. mpt_commit X s2 = (Inr (), s3) \<and> holds s3 d \<and> saved s3 = saved s"
proof -
  have roots: "map cp_root (ck_checkpoints (mp_db s2)) = fst (saved s) @ [mp_root s]"
    and all: "ck_saved (mo_lib X) (mp_db s2) = look_all s # snd (saved s)"
    using checkpoint_ok [OF assms(3)] assms(4) by (simp_all add: mpt_saved_def)
  then have ne: "ck_checkpoints (mp_db s2) \<noteq> []" by auto
  have "mpt_good s2" using assms(1) by (simp add: mpt_holds_def)
  with ck_commit_ok [OF codec _ ne, of "mo_lru X"] obtain b where b: "ck_commit (mo_lib X) (mo_lru X) (mp_db s2) = Inr b"
    "ck_inv b" "ck_look (mo_lib X) b = look_all s2" "ck_saved (mo_lib X) b = tl (ck_saved (mo_lib X) (mp_db s2))"
    by (cases "ck_commit (mo_lib X) (mo_lru X) (mp_db s2)") (auto simp: mpt_good_def)
  have "holds (s2\<lparr>mp_db := b\<rparr>) d"
    by (rule holds_cong [OF assms(1)]) (use b in \<open>simp_all add: mpt_good_def mpt_look_def [abs_def]\<close>)
  from persist_opt [OF this assms(2)] obtain s3 where
    "persistRoot X (s2\<lparr>mp_db := b\<rparr>) = (Inr (), s3)" "holds s3 d" "saved s3 = saved (s2\<lparr>mp_db := b\<rparr>)" by blast
  moreover have "saved (s2\<lparr>mp_db := b\<rparr>) = saved s" using b(4) all ck_commit_roots [OF b(1)] roots by (simp add: mpt_saved_def)
  ultimately show ?thesis using ne b(1)
    by (simp add: mpt_commit_def bindS_def getS_def mpt_hasCheckpoints_def ck_hasCheckpoints_def)
qed

end

section \<open>Reference options\<close>

text \<open>A hash function for the examples, with no collision among short encodings.\<close>

definition ref_hash :: "u8 list \<Rightarrow> u8 list" where
  "ref_hash b = take 40 (b @ replicate 40 0)"

definition ref_trie_opts :: "(jsstr \<Rightarrow> u8 list option) mpt_opts" where
  "ref_trie_opts = \<lparr>mo_lib = ref_lib, mo_lru = map_lru, mo_hash = ref_hash, mo_useKeyHashing = False, mo_keyPrefix = None,
     mo_useRootPersistence = True, mo_useNodePruning = False\<rparr>"

definition ref_ops :: "trie_op list" where
  "ref_ops = [TPut [0x12] (Some [7]), TPut [0x13] (Some [8]), TDel [0x12]]"

definition ref_tree :: ptree where
  "ref_tree = PExt [1] (PBranch ([None, None, Some (PLeaf [] [7]), Some (PLeaf [] [8])] @ replicate 12 None) None)"

definition empty_mpt :: "'c mpt_opts \<Rightarrow> 'c mpt" where
  "empty_mpt X = \<lparr>mp_root = EMPTY_TRIE_ROOT X, mp_db = ck_new [] True None\<rparr>"

lemma ref_opts_ok: "mpt_opts_ok ref_trie_opts"
proof -
  have "length (ref_hash b) = 40" for b by (simp add: ref_hash_def)
  then show ?thesis by (simp add: mpt_opts_ok_def ref_trie_opts_def hashLen_def EMPTY_TRIE_ROOT_def)
qed

interpretation ref_trie: mpt_store ref_trie_opts
  by unfold_locales (rule ref_opts_ok)

lemma empty_holds: "mpt_holds X (empty_mpt X) None"
  by (simp add: mpt_holds_def empty_mpt_def mpt_good_def mpt_look_def ck_new_def ck_inv_def ck_look_def disk_def db_decode_def)

lemma ref_trees: "op_trees ref_trie_opts ref_ops None = [None, Some (PLeaf [1, 2] [7]), Some ref_tree, Some (PLeaf [1, 3] [8])]"
  by code_simp

lemma ref_apart: "mpt_apart_trie ref_trie_opts None" "mpt_apart ref_trie_opts (PLeaf [1, 2] [7])"
  "mpt_apart ref_trie_opts (PLeaf [1, 3] [8])" "mpt_apart ref_trie_opts ref_tree"
proof -
  show "mpt_apart_trie ref_trie_opts None" unfolding mpt_apart_trie_def by code_simp
qed (unfold mpt_apart_def inj_on_def, code_simp+)

lemma ref_run:
  "keys_of 1 None" "\<forall>x \<in> set ref_ops. op_ok ref_trie_opts 1 x"
  "\<forall>d \<in> set (op_trees ref_trie_opts ref_ops None). mpt_apart_trie ref_trie_opts d"
  using ref_apart unfolding ref_trees
  by (simp_all add: keys_of_def mpt_apart_trie_def ref_ops_def op_ok_def appliedKey_def ref_trie_opts_def ROOT_DB_KEY_def)

lemma ref_holds: "\<exists>s. mpt_holds ref_trie_opts s (Some ref_tree)"
proof -
  have t: "op_trees ref_trie_opts (take 2 ref_ops) None = [None, Some (PLeaf [1, 2] [7]), Some ref_tree]" by code_simp
  have o: "\<forall>x \<in> set (take 2 ref_ops). op_ok ref_trie_opts 1 x" using ref_run(2) by (blast dest: in_set_takeD)
  have "\<forall>d \<in> set (op_trees ref_trie_opts (take 2 ref_ops) None). mpt_apart_trie ref_trie_opts d"
    using ref_apart unfolding t by (simp add: mpt_apart_trie_def)
  from ref_trie.batch_ok [OF empty_holds ref_run(1) o this] show ?thesis unfolding t by auto
qed

section \<open>Theorems\<close>

text \<open>A lookup in a trie that holds a tree finds what the tree has at the path of the key, or \<open>null\<close> when it has
  nothing there, and changes nothing: neither the root, nor the contents of the database, nor the checkpoints.\<close>

theorem mpt_get_finds:
  assumes "mpt_opts_ok X" and "mpt_holds X s c" and "c = None \<Longrightarrow> \<not> throwIfMissing"
  shows "\<exists>s'. mpt_get X key throwIfMissing s = (Inr (found_item (contents c (key_path X key))), s') \<and> mpt_same X s s'"
proof -
  have "Option.bind c (\<lambda>t. tree_lookup t (bytesToNibbles (appliedKey X key))) = contents c (key_path X key)"
    by (cases c) (simp_all add: contents_def key_path_def)
  with mpt_store.get_ok [OF mpt_store.intro [OF assms(1)] assms(2), of throwIfMissing key] assms(3)
  show ?thesis by (simp add: found_item_def)
qed

theorem mpt_get_finds_witness:
  "\<exists>s s'. mpt_holds ref_trie_opts s (Some ref_tree) \<and> mpt_get ref_trie_opts [0x13] True s = (Inr (RBytes [8]), s')"
proof -
  obtain s where s: "mpt_holds ref_trie_opts s (Some ref_tree)" using ref_holds by blast
  have "found_item (contents (Some ref_tree) (key_path ref_trie_opts [0x13])) = RBytes [8]" by code_simp
  with mpt_get_finds [OF ref_opts_ok s, of True "[0x13]"] s show ?thesis by auto
qed

text \<open>C6. A batch of insertions and deletions on a trie whose keys have one length succeeds, a value of length zero
  counting as a deletion, and the trie it leaves holds the map with these changes and no others: a lookup of any key finds
  the last value written to it, nothing once it is deleted, and what was there before if the batch does not name
  it. The open checkpoints stay as they are.\<close>

theorem mpt_batch_map:
  assumes "mpt_opts_ok X" and "mpt_holds X s c" and "keys_of n c" and "\<forall>x \<in> set ops. op_ok X n x"
    and "\<forall>d \<in> set (op_trees X ops c). mpt_apart_trie X d"
  shows "\<exists>s' d. mpt_batch X ops False s = (Inr (), s') \<and> mpt_holds X s' d \<and> keys_of n d \<and> mpt_saved X s' = mpt_saved X s
    \<and> (\<forall>q. nibs q \<longrightarrow> contents d q = fold (op_map X) ops (contents c) q)
    \<and> (\<forall>key. \<exists>s''. mpt_get X key False s' = (Inr (found_item (fold (op_map X) ops (contents c) (key_path X key))), s''))"
proof -
  have st: "mpt_store X" by (rule mpt_store.intro) (rule assms(1))
  let ?d = "last (op_trees X ops c)"
  obtain s' where s': "mpt_batch X ops False s = (Inr (), s')" "mpt_holds X s' ?d" "mpt_saved X s' = mpt_saved X s"
    using mpt_store.batch_ok [OF st assms(2-5)] by blast
  have "wf_trie c" using assms(2) by (auto simp: mpt_holds_def wf_trie_def)
  with ops_contents assms(3,4) have d: "keys_of n ?d" "\<And>q. nibs q \<Longrightarrow> contents ?d q = fold (op_map X) ops (contents c) q" by blast+
  have "\<exists>s''. mpt_get X key False s' = (Inr (found_item (contents ?d (key_path X key))), s'')" for key
  proof -
    have "Option.bind ?d (\<lambda>t. tree_lookup t (bytesToNibbles (appliedKey X key))) = contents ?d (key_path X key)"
      by (cases ?d) (simp_all add: contents_def key_path_def)
    with mpt_store.get_ok [OF st s'(2), of False key] show ?thesis by (auto simp: found_item_def)
  qed
  with s' d show ?thesis by (intro exI [of _ s'] exI [of _ ?d]) simp
qed

theorem mpt_batch_map_witness:
  "\<exists>s s' s''. mpt_batch ref_trie_opts ref_ops False (empty_mpt ref_trie_opts) = (Inr (), s)
    \<and> mpt_get ref_trie_opts [0x13] False s = (Inr (RBytes [8]), s') \<and> mpt_get ref_trie_opts [0x12] False s = (Inr RNull, s'')"
proof -
  have "found_item (fold (op_map ref_trie_opts) ref_ops (contents None) (key_path ref_trie_opts [0x13])) = RBytes [8]"
    "found_item (fold (op_map ref_trie_opts) ref_ops (contents None) (key_path ref_trie_opts [0x12])) = RNull" by code_simp+
  with mpt_batch_map [OF ref_opts_ok empty_holds ref_run] show ?thesis by metis
qed

text \<open>C7. The root of a trie is determined by its map: two batches that make the same map of an empty trie end with the same
  root, whatever the order of their changes and whatever they insert on the way and delete again, and in whatever
  databases they run.\<close>

theorem mpt_root_of_map:
  assumes "mpt_opts_ok X" and "mpt_holds X s None" and "mpt_holds X s' None" and "2 * n < 2 ^ 32"
    and "\<forall>x \<in> set ops \<union> set ops'. op_ok X n x"
    and "\<forall>d \<in> set (op_trees X ops None) \<union> set (op_trees X ops' None). mpt_apart_trie X d"
    and "fold (op_map X) ops Map.empty = fold (op_map X) ops' Map.empty"
  shows "\<exists>t t'. mpt_batch X ops False s = (Inr (), t) \<and> mpt_batch X ops' False s' = (Inr (), t') \<and> mp_root t = mp_root t'"
proof -
  have st: "mpt_store X" by (rule mpt_store.intro) (rule assms(1))
  have n: "keys_of n None" "wf_trie None" "contents None = Map.empty"
    using assms(4) by (simp_all add: keys_of_def wf_trie_def contents_def fun_eq_iff)
  let ?c = "last (op_trees X ops None)" and ?d = "last (op_trees X ops' None)"
  obtain t t' where t: "mpt_batch X ops False s = (Inr (), t)" "mpt_holds X t ?c"
    "mpt_batch X ops' False s' = (Inr (), t')" "mpt_holds X t' ?d"
    using mpt_store.batch_ok [OF st assms(2) n(1), of ops] mpt_store.batch_ok [OF st assms(3) n(1), of ops'] assms(5,6) by auto
  have "?c = ?d"
    by (rule trie_unique) (use ops_contents [OF n(2,1), of ops X] ops_contents [OF n(2,1), of ops' X] assms(5,7) n(3) in auto)
  with t have "mp_root t = mp_root t'" by (auto simp: mpt_holds_def split: option.splits)
  with t show ?thesis by blast
qed

theorem mpt_root_of_map_witness:
  "\<exists>t t'. mpt_batch ref_trie_opts ref_ops False (empty_mpt ref_trie_opts) = (Inr (), t)
    \<and> mpt_batch ref_trie_opts [TPut [0x13] (Some [8])] False (empty_mpt ref_trie_opts) = (Inr (), t') \<and> mp_root t = mp_root t'"
proof (rule mpt_root_of_map [OF ref_opts_ok empty_holds empty_holds, of 1])
  have "op_trees ref_trie_opts [TPut [0x13] (Some [8])] None = [None, Some (PLeaf [1, 3] [8])]" by code_simp
  then show "\<forall>d \<in> set (op_trees ref_trie_opts ref_ops None) \<union> set (op_trees ref_trie_opts [TPut [0x13] (Some [8])] None).
      mpt_apart_trie ref_trie_opts d"
    using ref_apart unfolding ref_trees by (simp add: mpt_apart_trie_def)
  show "\<forall>x \<in> set ref_ops \<union> set [TPut [0x13] (Some [8])]. op_ok ref_trie_opts 1 x"
    using ref_run(2) by (auto simp: op_ok_def appliedKey_def ref_trie_opts_def ROOT_DB_KEY_def)
  have p: "key_path ref_trie_opts [0x12] = [1, 2]" "key_path ref_trie_opts [0x13] = [1, 3]" by code_simp+
  show "fold (op_map ref_trie_opts) ref_ops Map.empty = fold (op_map ref_trie_opts) [TPut [0x13] (Some [8])] Map.empty"
    by (simp add: ref_ops_def op_map_def p fun_eq_iff)
qed simp

text \<open>C21. After a checkpoint and a batch of changes, \<open>revert\<close> brings back the root, the map and the checkpoints of before, and
  \<open>commit\<close> keeps the changed map and drops the checkpoint.\<close>

theorem mpt_checkpoint_ends:
  assumes "mpt_opts_ok X" and "mpt_holds X s c" and "keys_of n c" and "\<forall>x \<in> set ops. op_ok X n x"
    and "\<forall>d \<in> set (op_trees X ops c). mpt_apart_trie X d"
  shows "\<exists>s1 s2 s3 d. mpt_batch X ops False (mpt_checkpoint s) = (Inr (), s1)
    \<and> mpt_revert X s1 = (Inr (), s2) \<and> mpt_holds X s2 c \<and> mp_root s2 = mp_root s \<and> mpt_saved X s2 = mpt_saved X s
    \<and> mpt_commit X s1 = (Inr (), s3) \<and> mpt_holds X s3 d \<and> mp_root s3 = mp_root s1 \<and> mpt_saved X s3 = mpt_saved X s
    \<and> (\<forall>q. nibs q \<longrightarrow> contents d q = fold (op_map X) ops (contents c) q)"
proof -
  have st: "mpt_store X" by (rule mpt_store.intro) (rule assms(1))
  let ?d = "last (op_trees X ops c)"
  have "mpt_holds X (mpt_checkpoint s) c" using mpt_store.checkpoint_ok [OF st assms(2)] by blast
  from mpt_store.batch_ok [OF st this assms(3-5)] obtain s1 where
    s1: "mpt_batch X ops False (mpt_checkpoint s) = (Inr (), s1)" "mpt_holds X s1 ?d" "mpt_saved X s1 = mpt_saved X (mpt_checkpoint s)"
    by blast
  have "\<exists>ts. op_trees X ops c = c # ts" by (cases ops) simp_all
  then have a: "mpt_apart_trie X c" "mpt_apart_trie X ?d" using assms(5) last_in_set [of "op_trees X ops c"] by auto
  have "mpt_good s1" using s1(2) by (simp add: mpt_holds_def)
  from mpt_store.revert_ok [OF st assms(2) a(1) this s1(3)] obtain s2 where
    s2: "mpt_revert X s1 = (Inr (), s2)" "mpt_holds X s2 c" "mpt_saved X s2 = mpt_saved X s" by blast
  from mpt_store.commit_ok [OF st s1(2) a(2) assms(2) s1(3)] obtain s3 where
    s3: "mpt_commit X s1 = (Inr (), s3)" "mpt_holds X s3 ?d" "mpt_saved X s3 = mpt_saved X s" by blast
  have root: "mp_root x = mp_root y" if "mpt_holds X x e" "mpt_holds X y e" for x y e
    using that by (auto simp: mpt_holds_def split: option.splits)
  have "wf_trie c" using assms(2) by (auto simp: mpt_holds_def wf_trie_def)
  with ops_contents assms(3,4) have "\<And>q. nibs q \<Longrightarrow> contents ?d q = fold (op_map X) ops (contents c) q" by blast
  with s1 s2 s3 root [OF s2(2) assms(2)] root [OF s3(2) s1(2)] show ?thesis
    by (intro exI [of _ s1] exI [of _ s2] exI [of _ s3] exI [of _ ?d]) simp
qed

theorem mpt_checkpoint_ends_witness:
  "\<exists>s1 s2. mpt_batch ref_trie_opts ref_ops False (mpt_checkpoint (empty_mpt ref_trie_opts)) = (Inr (), s1)
    \<and> mpt_revert ref_trie_opts s1 = (Inr (), s2) \<and> mp_root s2 = ref_hash [0x80]"
proof -
  have "mp_root (empty_mpt ref_trie_opts) = ref_hash [0x80]" by (simp add: empty_mpt_def EMPTY_TRIE_ROOT_def ref_trie_opts_def)
  with mpt_checkpoint_ends [OF ref_opts_ok empty_holds ref_run] show ?thesis by metis
qed

lemma proof_opts_ok: "mpt_opts_ok X \<Longrightarrow> mpt_opts_ok (proof_opts X)" and proof_opts_simps [simp]:
  "mo_hash (proof_opts X) = mo_hash X" "mo_keyPrefix (proof_opts X) = None" "appliedKey (proof_opts X) k = k"
  by (simp_all add: mpt_opts_ok_def proof_opts_def hashLen_def EMPTY_TRIE_ROOT_def appliedKey_def)

lemma proof_trie:
  assumes "mpt_opts_ok X" "r = mo_hash X e"
  shows "mpt_new X (ck_new [] True None) (Some r) = Inr \<lparr>mp_root = r, mp_db = ck_new [] True None\<rparr>"
    "mpt_good \<lparr>mp_root = r, mp_db = ck_new [] True None\<rparr>" "mpt_look X \<lparr>mp_root = r, mp_db = ck_new [] True None\<rparr> = (\<lambda>_. None)"
  using assms by (simp_all add: mpt_new_def Let_def set_root_def modS_def mpt_opts_ok_def mpt_good_def ck_new_def ck_inv_def
      mpt_look_def fun_eq_iff ck_look_def disk_def db_decode_def)

text \<open>C20. The proof that a trie makes for a key is accepted against the root of the trie, and the verifier answers what the
  trie holds at the key, \<open>null\<close> for a key it does not have.\<close>

theorem merkle_proof_complete:
  assumes "mpt_opts_ok X" and "mpt_holds X s (Some t)" and "mpt_apart X t"
  shows "\<exists>proof s'. createMerkleProof X key s = (Inr proof, s') \<and> mpt_same X s s'
    \<and> verifyMPTWithMerkleProof X (mp_root s) key proof = Inr (found_item (contents (Some t) (key_path X key)))"
proof -
  have st: "mpt_store X" "mpt_store (proof_opts X)" using assms(1) proof_opts_ok by (auto intro: mpt_store.intro)
  let ?es = "map (encoding (mo_hash X)) (on_path t (key_path X key))"
  have t: "wf_tree t" "mp_root s = mo_hash X (encoding (mo_hash X) t)" using assms(2) by (auto simp: mpt_holds_def)
  obtain fs u q b where d: "descend t (key_path X key) = (fs, u, q, b)" by (metis prod_cases4)
  from mpt_store.findPath_ok [OF st(1) assms(2) d [unfolded key_path_def], of False] obtain ns m s' where
    p: "findPath X (appliedKey X key) False s = (Inr (if b then Some m else None, if b then [] else q, ns @ [m]), s')"
    "mpt_same X s s'" "preps (mo_hash X) ns fs u" "reps (mo_hash X) m u" by blast
  have es: "?es = map (encoding (mo_hash X)) (spine fs u)" using d by (simp add: on_path_def)
  have "mapE serialize (ns @ [m]) = Inr ?es"
    unfolding es
  proof (rule nodes_serialize [OF p(3,4)])
    fix n w assume "reps (mo_hash X) n w" "w \<in> set (spine fs u)"
    moreover from this have "w \<in> parts t"
      using mpt_store.on_path_parts [OF st(1) t(1) nibs_key_path, of w X key] d by (simp add: on_path_def)
    ultimately show "serialize n = Inr (encoding (mo_hash X) w)"
      using mpt_store.serialize_ok [OF st(1)] parts_wf [OF t(1)] by blast
  qed
  then have c: "createMerkleProof X key s = (Inr ?es, s')"
    using p(1) by (simp add: createMerkleProof_def bindS_def liftS_def del: mapE.simps)
  have i: "inj_on (mo_hash X) (encs (mo_hash X) t)" using assms(3) by (auto simp: mpt_apart_def intro: inj_on_subset)
  note n = proof_trie [OF proof_opts_ok [OF assms(1)], of "mp_root s" "encoding (mo_hash X) t"]
  have n: "mpt_new (proof_opts X) (ck_new [] True None) (Some (mp_root s)) = Inr \<lparr>mp_root = mp_root s, mp_db = ck_new [] True None\<rparr>"
    "mpt_good \<lparr>mp_root = mp_root s, mp_db = ck_new [] True None\<rparr>"
    "mpt_look (proof_opts X) \<lparr>mp_root = mp_root s, mp_db = ck_new [] True None\<rparr> = (\<lambda>_. None)"
    using n t(2) by simp_all
  from mpt_store.proof_complete [OF st(2) n(2,3), of t "appliedKey X key" "appliedKey X key"] t i obtain x s1 s2 where
    "updateMPTFromMerkleProof (proof_opts X) ?es True \<lparr>mp_root = mp_root s, mp_db = ck_new [] True None\<rparr> = (Inr x, s1)"
    "mpt_get (proof_opts X) (appliedKey X key) True s1 = (Inr (found_item (tree_lookup t (key_path X key))), s2)"
    by (auto simp: key_path_def)
  with n(1) have "verifyMPTWithMerkleProof X (mp_root s) key ?es = Inr (found_item (contents (Some t) (key_path X key)))"
    by (simp add: verifyMPTWithMerkleProof_def contents_def)
  with c p(2) show ?thesis by blast
qed

theorem merkle_proof_complete_witness:
  "\<exists>s proof s'. createMerkleProof ref_trie_opts [0x12] s = (Inr proof, s')
    \<and> verifyMPTWithMerkleProof ref_trie_opts (mp_root s) [0x12] proof = Inr (RBytes [7])"
proof -
  obtain s where s: "mpt_holds ref_trie_opts s (Some ref_tree)" using ref_holds by blast
  have "found_item (contents (Some ref_tree) (key_path ref_trie_opts [0x12])) = RBytes [7]" by code_simp
  with merkle_proof_complete [OF ref_opts_ok s ref_apart(4), of "[0x12]"] show ?thesis by auto
qed

text \<open>C13. No proof convinces the verifier of a wrong value: if it accepts any list of byte strings against the root of a
  tree, the value it answers, or \<open>null\<close>, is what the tree has at the key, provided the hash function does not
  collide on the strings of the list and the encodings of the tree.\<close>

theorem merkle_proof_sound:
  assumes "mpt_opts_ok X" and "wf_tree t" and "inj_on (mo_hash X) (set proof \<union> encs (mo_hash X) t)"
    and "verifyMPTWithMerkleProof X (mo_hash X (encoding (mo_hash X) t)) key proof = Inr v"
  shows "v = found_item (contents (Some t) (key_path X key))"
proof -
  let ?r = "mo_hash X (encoding (mo_hash X) t)"
  let ?s = "\<lparr>mp_root = ?r, mp_db = ck_new [] True None\<rparr>"
  have st: "mpt_store (proof_opts X)" using assms(1) proof_opts_ok by (auto intro: mpt_store.intro)
  have n: "mpt_new (proof_opts X) (ck_new [] True None) (Some ?r) = Inr ?s" "mpt_good ?s" "mpt_look (proof_opts X) ?s = (\<lambda>_. None)"
    using proof_trie [OF proof_opts_ok [OF assms(1)], of ?r "encoding (mo_hash X) t"] by simp_all
  from assms(4) n(1) obtain x s1 s2 where
    "updateMPTFromMerkleProof (proof_opts X) proof True ?s = (Inr x, s1)"
    "mpt_get (proof_opts X) (appliedKey X key) True s1 = (Inr v, s2)"
    by (auto simp: verifyMPTWithMerkleProof_def split: prod.splits sum.splits if_splits)
  from mpt_store.proof_sound [OF st n(2,3) _ assms(2) _ _ this] assms(3) show ?thesis
    by (simp add: contents_def key_path_def)
qed

theorem merkle_proof_sound_witness:
  "verifyMPTWithMerkleProof ref_trie_opts (ref_hash (encoding ref_hash ref_tree)) [0x14] [encoding ref_hash ref_tree]
    = Inr RNull \<and> RNull = found_item (contents (Some ref_tree) (key_path ref_trie_opts [0x14]))"
proof -
  have v: "verifyMPTWithMerkleProof ref_trie_opts (mo_hash ref_trie_opts (encoding (mo_hash ref_trie_opts) ref_tree)) [0x14]
      [encoding ref_hash ref_tree] = Inr RNull" by code_simp
  have h: "mo_hash ref_trie_opts = ref_hash" by (simp add: ref_trie_opts_def)
  have "inj_on (mo_hash ref_trie_opts) (set [encoding ref_hash ref_tree] \<union> encs (mo_hash ref_trie_opts) ref_tree)"
    using ref_apart(4) unfolding mpt_apart_def h by (auto intro: inj_on_subset)
  moreover have "wf_tree ref_tree" using ref_holds by (auto simp: mpt_holds_def)
  ultimately show ?thesis using merkle_proof_sound [OF ref_opts_ok _ _ v] v unfolding h by blast
qed

text \<open>Why the keys have to be of one length: when a deletion leaves a branch one child, the branch is merged into that child
  whatever value it has itself. With a key that is a prefix of two others, the deletion of one of these loses the value
  of the prefix.\<close>

theorem collapse_forgets_value:
  "getChildren bs = [child] \<Longrightarrow> collapse X key (Branch bs v) parent stack ops s = collapse X key (Branch bs w) parent stack ops s"
  by (cases child) (simp add: collapse_def)

end
