(* ===== verification/Doubles.thy ===== *)
theory Doubles
  imports Prelude
begin

text \<open>
  Sums of non-negative integers in double precision, for the code that adds with JavaScript
  numbers past \<open>2 ^ 53\<close>. \<open>round53\<close> rounds to 53 significant bits, ties to even; \<open>dbl\<close> is
  infinity where that leaves the range of a double. The lemmas show that rounding is
  monotone, and that a rounded number absorbs what is below half its last place.
\<close>

section \<open>Numbers\<close>

text \<open>The non-negative doubles a distance can be: a sum that leaves the range is infinity.\<close>

datatype dnum = Number nat | Infinity

instantiation dnum :: linorder
begin

fun less_eq_dnum :: "dnum \<Rightarrow> dnum \<Rightarrow> bool" where
  "less_eq_dnum (Number a) (Number b) = (a \<le> b)"
| "less_eq_dnum Infinity (Number b) = False"
| "less_eq_dnum a Infinity = True"

definition less_dnum :: "dnum \<Rightarrow> dnum \<Rightarrow> bool" where
  "less_dnum a b = (a \<le> b \<and> \<not> b \<le> a)"

instance
proof
  fix a b c :: dnum
  show "(a < b) = (a \<le> b \<and> \<not> b \<le> a)" by (rule less_dnum_def)
  show "a \<le> a" by (cases a) auto
  show "a \<le> b \<Longrightarrow> b \<le> c \<Longrightarrow> a \<le> c" by (cases a; cases b; cases c) auto
  show "a \<le> b \<Longrightarrow> b \<le> a \<Longrightarrow> a = b" by (cases a; cases b) auto
  show "a \<le> b \<or> b \<le> a" by (cases a; cases b) auto
qed

end

lemma Number_less [simp]: "Number a < Number b \<longleftrightarrow> a < b"
  by (auto simp: less_dnum_def)

section \<open>Rounding\<close>

fun nbits :: "nat \<Rightarrow> nat" where
  "nbits n = (if n = 0 then 0 else Suc (nbits (n div 2)))"

declare nbits.simps [simp del]

definition round53 :: "nat \<Rightarrow> nat" where
  "round53 n = (if n < 2 ^ 53 then n else
     let e = nbits n - 53; q = n div 2 ^ e; r = n mod 2 ^ e; half = 2 ^ (e - 1) in
     (if r > half \<or> (r = half \<and> odd q) then q + 1 else q) * 2 ^ e)"

definition dbl :: "nat \<Rightarrow> dnum" where
  "dbl n = (if round53 n < 2 ^ 1024 then Number (round53 n) else Infinity)"


lemma nbits_0 [simp]: "nbits 0 = 0"
  by (subst nbits.simps) simp

lemma nbits_pos: "0 < n \<Longrightarrow> nbits n = Suc (nbits (n div 2))"
  by (subst nbits.simps) simp

lemma nbits_less: "n < 2 ^ nbits n"
proof (induction n rule: nbits.induct)
  case (1 n)
  show ?case
  proof (cases "n = 0")
    case False
    then have "n div 2 < 2 ^ nbits (n div 2)" by (rule 1)
    then have "n < 2 * 2 ^ nbits (n div 2)" by linarith
    then show ?thesis using False by (simp add: nbits_pos)
  qed simp
qed

lemma nbits_le: "2 ^ k \<le> n \<Longrightarrow> k < nbits n"
proof (induction n arbitrary: k rule: nbits.induct)
  case (1 n)
  then have n: "n \<noteq> 0" by (metis le_zero_eq power_eq_0_iff zero_neq_numeral)
  show ?case
  proof (cases k)
    case 0
    then show ?thesis using n by (simp add: nbits_pos)
  next
    case (Suc k')
    then have "2 ^ k' \<le> n div 2" using 1(2) by simp
    then have "k' < nbits (n div 2)" by (rule 1(1) [OF n])
    then show ?thesis using Suc n by (simp add: nbits_pos)
  qed
qed

lemma nbits_ge: "0 < n \<Longrightarrow> 2 ^ (nbits n - 1) \<le> n"
proof (rule ccontr)
  assume "0 < n" "\<not> 2 ^ (nbits n - 1) \<le> n"
  moreover have "n < 2 ^ k \<Longrightarrow> nbits n \<le> k" for k
  proof (induction n arbitrary: k rule: nbits.induct)
    case (1 n)
    show ?case
    proof (cases "n = 0")
      case False
      then obtain k' where k: "k = Suc k'" using 1(2) by (cases k) auto
      then have "n div 2 < 2 ^ k'" using 1(2) by auto
      then show ?thesis using 1(1) [OF False] False k by (simp add: nbits_pos)
    qed simp
  qed
  ultimately have "nbits n \<le> nbits n - 1" by simp
  then show False using \<open>0 < n\<close> by (simp add: nbits_pos)
qed

lemma nbits_mono: "m \<le> n \<Longrightarrow> nbits m \<le> nbits n"
proof (cases "m = 0")
  case False
  assume "m \<le> n"
  then have "2 ^ (nbits m - 1) \<le> n" using nbits_ge [of m] False by simp
  then have "nbits m - 1 < nbits n" by (rule nbits_le)
  then show ?thesis by simp
qed simp

lemma nbits_eqI: "2 ^ k \<le> n \<Longrightarrow> n < 2 ^ Suc k \<Longrightarrow> nbits n = Suc k"
proof -
  assume a: "2 ^ k \<le> n" "n < 2 ^ Suc k"
  have "0 < n" using a(1) by (metis gr0I le_zero_eq power_eq_0_iff zero_neq_numeral)
  have "2 ^ (nbits n - 1) < (2::nat) ^ Suc k" using nbits_ge [OF \<open>0 < n\<close>] a(2) by linarith
  then have "nbits n - 1 < Suc k" by (rule power_less_imp_less_exp [rotated]) simp
  then show ?thesis using nbits_le [OF a(1)] by simp
qed

text \<open>A number past \<open>2 ^ 53\<close> by its exponent, its 53 leading bits and the rest.\<close>

lemma big_split:
  assumes "2 ^ 53 \<le> (n :: nat)"
  obtains e q r where "nbits n = e + 53" "0 < e" "n = q * 2 ^ e + r" "r < 2 ^ e"
    "2 ^ 52 \<le> q" "q < 2 ^ 53"
    "round53 n = (if r > 2 ^ (e - 1) \<or> (r = 2 ^ (e - 1) \<and> odd q) then q + 1 else q) * 2 ^ e"
proof -
  define e where "e = nbits n - 53"
  have b: "53 < nbits n" using nbits_le [OF assms] .
  then have e: "nbits n = e + 53" "0 < e" by (auto simp: e_def)
  have "0 < n" using assms by (metis gr0I le_zero_eq power_eq_0_iff zero_neq_numeral)
  then have lo: "2 ^ (e + 52) \<le> n" using nbits_ge [of n] e by (simp add: add.commute)
  have hi: "n < 2 ^ (e + 53)" using nbits_less [of n] e by simp
  have "2 ^ 52 \<le> n div 2 ^ e"
    using lo div_le_mono [OF lo, of "2 ^ e"] by (simp add: power_add)
  moreover have "n div 2 ^ e < 2 ^ 53"
    using hi by (intro less_mult_imp_div_less) (simp add: power_add mult.commute)
  moreover have "n = n div 2 ^ e * 2 ^ e + n mod 2 ^ e" "n mod 2 ^ e < 2 ^ e" by (simp_all only: div_mult_mod_eq) simp
  moreover have "round53 n = (if n mod 2 ^ e > 2 ^ (e - 1) \<or> (n mod 2 ^ e = 2 ^ (e - 1) \<and> odd (n div 2 ^ e))
      then n div 2 ^ e + 1 else n div 2 ^ e) * 2 ^ e"
    using assms by (simp add: round53_def Let_def e_def)
  ultimately show thesis using that [OF e] by blast
qed

lemma round53_small: "n < 2 ^ 53 \<Longrightarrow> round53 n = n"
  by (simp add: round53_def)

lemma round53_range:
  assumes "2 ^ 53 \<le> n"
  shows "2 ^ (nbits n - 1) \<le> round53 n \<and> round53 n \<le> 2 ^ nbits n"
proof -
  from assms obtain e q r where s: "nbits n = e + 53" "0 < e" "n = q * 2 ^ e + r" "r < 2 ^ e"
    "2 ^ 52 \<le> q" "q < 2 ^ 53"
    "round53 n = (if r > 2 ^ (e - 1) \<or> (r = 2 ^ (e - 1) \<and> odd q) then q + 1 else q) * 2 ^ e"
    by (rule big_split)
  have "q * 2 ^ e \<le> round53 n" "round53 n \<le> (q + 1) * 2 ^ e" by (simp_all add: s(7))
  moreover have "2 ^ 52 * 2 ^ e \<le> q * 2 ^ e" "(q + 1) * 2 ^ e \<le> 2 ^ 53 * 2 ^ e"
    using s(5,6) by (intro mult_right_mono; simp)+
  moreover have "(2::nat) ^ (nbits n - 1) = 2 ^ 52 * 2 ^ e" "(2::nat) ^ nbits n = 2 ^ 53 * 2 ^ e"
    using s(1) by (simp_all add: power_add)
  ultimately show ?thesis by linarith
qed

lemma round53_mono: "m \<le> n \<Longrightarrow> round53 m \<le> round53 n"
proof -
  assume le: "m \<le> n"
  consider (small) "n < 2 ^ 53" | (cross) "m < 2 ^ 53" "2 ^ 53 \<le> n"
    | (step) "2 ^ 53 \<le> m" "nbits m < nbits n" | (same) "2 ^ 53 \<le> m" "nbits m = nbits n"
    using nbits_mono [OF le] by linarith
  then show ?thesis
  proof cases
    case small
    then show ?thesis using le by (simp add: round53_small)
  next
    case cross
    have "53 < nbits n" using nbits_le [OF cross(2)] .
    then have "(2::nat) ^ 53 \<le> 2 ^ (nbits n - 1)" by (intro power_increasing) auto
    then show ?thesis using cross round53_range [OF cross(2)] by (simp add: round53_small)
  next
    case step
    have n: "2 ^ 53 \<le> n" using step(1) le by linarith
    have "(2::nat) ^ nbits m \<le> 2 ^ (nbits n - 1)" using step(2) by (intro power_increasing) auto
    then show ?thesis using round53_range [OF step(1)] round53_range [OF n] by linarith
  next
    case same
    have n: "2 ^ 53 \<le> n" using same(1) le by linarith
    from same(1) obtain e q r where s: "nbits m = e + 53" "0 < e" "m = q * 2 ^ e + r" "r < 2 ^ e"
      "2 ^ 52 \<le> q" "q < 2 ^ 53"
      "round53 m = (if r > 2 ^ (e - 1) \<or> (r = 2 ^ (e - 1) \<and> odd q) then q + 1 else q) * 2 ^ e"
      by (rule big_split)
    from n obtain f p t where u: "nbits n = f + 53" "0 < f" "n = p * 2 ^ f + t" "t < 2 ^ f"
      "2 ^ 52 \<le> p" "p < 2 ^ 53"
      "round53 n = (if t > 2 ^ (f - 1) \<or> (t = 2 ^ (f - 1) \<and> odd p) then p + 1 else p) * 2 ^ f"
      by (rule big_split)
    have f: "f = e" using same(2) s(1) u(1) by simp
    have "m div 2 ^ e = q" "n div 2 ^ e = p" using s(3,4) u(3,4) f by simp_all
    then have qp: "q \<le> p" using div_le_mono [OF le, of "2 ^ e"] by simp
    have "(if r > 2 ^ (e - 1) \<or> (r = 2 ^ (e - 1) \<and> odd q) then q + 1 else q) \<le>
        (if t > 2 ^ (e - 1) \<or> (t = 2 ^ (e - 1) \<and> odd p) then p + 1 else p)"
    proof (cases "q = p")
      case True
      then have "r \<le> t" using le s(3) u(3) f by simp
      then show ?thesis using True by auto
    next
      case False
      then show ?thesis using qp by auto
    qed
    then show ?thesis unfolding s(7) u(7) f by (rule mult_right_mono) simp
  qed
qed

text \<open>A number that is a double already keeps its value when it is scaled by 256 and a byte
  is added, once it is past \<open>2 ^ 53\<close>.\<close>

lemma round53_absorb:
  assumes big: "2 ^ 53 \<le> n" and rep: "round53 n = n" and x: "x < 256"
  shows "round53 (n * 256 + x) = n * 256"
proof -
  from big obtain e q r where s: "nbits n = e + 53" "0 < e" "n = q * 2 ^ e + r" "r < 2 ^ e"
    "2 ^ 52 \<le> q" "q < 2 ^ 53"
    "round53 n = (if r > 2 ^ (e - 1) \<or> (r = 2 ^ (e - 1) \<and> odd q) then q + 1 else q) * 2 ^ e"
    by (rule big_split)
  have "2 ^ e dvd n" using rep s(7) by (metis dvd_triv_right)
  then have r: "r = 0" using s(3,4) by (metis dvd_add_right_iff dvd_triv_right nat_dvd_not_less neq0_conv)
  let ?m = "n * 256 + x"
  have m: "2 ^ 53 \<le> ?m" using big by linarith
  have lo: "2 ^ (e + 60) \<le> ?m"
  proof -
    have "2 ^ 52 * (2 ^ e * 256) \<le> q * (2 ^ e * 256)" using s(5) by (rule mult_right_mono) simp
    then have "2 ^ (e + 60) \<le> q * 2 ^ e * 256" by (simp add: power_add)
    then show ?thesis using s(3) r by simp
  qed
  have big8: "(256::nat) \<le> 2 ^ (e + 7)"
    using s(2) power_increasing [of 8 "e + 7" "2::nat"] by simp
  have hi: "?m < 2 ^ Suc (e + 60)"
  proof -
    have "x < 2 ^ e * 256" using x by (simp add: less_le_trans)
    then have "?m < (q + 1) * (2 ^ e * 256)" using s(3) r by (simp add: algebra_simps)
    also have "\<dots> \<le> 2 ^ 53 * (2 ^ e * 256)" using s(6) by (intro mult_right_mono) auto
    finally show ?thesis by (simp add: power_add)
  qed
  have nb: "nbits ?m = Suc (e + 60)" by (rule nbits_eqI [OF lo hi])
  have e8: "nbits ?m - 53 = e + 8" using nb by simp
  have "x < 2 ^ (e + 8)" using x big8 by (simp add: power_add)
  moreover have "?m = q * 2 ^ (e + 8) + x" using s(3) r by (simp add: power_add)
  ultimately have dm: "?m div 2 ^ (e + 8) = q" "?m mod 2 ^ (e + 8) = x" by simp_all
  have "x < 2 ^ (e + 8 - 1)" using x big8 by (simp add: add.commute)
  then have "round53 ?m = q * 2 ^ (e + 8)"
    using m unfolding round53_def e8 Let_def dm by simp
  then show ?thesis using s(3) r by (simp add: power_add)
qed


text \<open>Scaling by 256 is exact.\<close>

lemma round53_shift:
  assumes "n < 2 ^ 53"
  shows "round53 (n * 256) = n * 256"
proof (cases "n * 256 < 2 ^ 53")
  case False
  then have "2 ^ 53 \<le> n * 256" by simp
  then obtain e q r where s: "nbits (n * 256) = e + 53" "0 < e" "n * 256 = q * 2 ^ e + r" "r < 2 ^ e"
    "2 ^ 52 \<le> q" "q < 2 ^ 53"
    "round53 (n * 256) = (if r > 2 ^ (e - 1) \<or> (r = 2 ^ (e - 1) \<and> odd q) then q + 1 else q) * 2 ^ e"
    by (rule big_split)
  have "2 ^ (e + 52) \<le> n * 256" using mult_right_mono [OF s(5), of "2 ^ e"] s(3)
    by (simp only: power_add) (simp add: mult.commute trans_le_add1)
  also have "n * 256 < 2 ^ 61" using assms by simp
  finally have "e + 52 < 61" by (rule power_less_imp_less_exp [rotated]) simp
  then have "(2::nat) ^ e dvd 2 ^ 8" by (intro le_imp_power_dvd) simp
  then have "2 ^ e dvd n * 256" by (simp add: dvd_mult)
  then have "r = 0" using s(3,4) by (metis dvd_add_right_iff dvd_triv_right nat_dvd_not_less neq0_conv)
  then show ?thesis using s by simp
qed (simp add: round53_small)

lemma round53_scaled: "round53 n = n \<Longrightarrow> round53 (n * 256) = n * 256"
  using round53_absorb [of n 0] by (cases "n < 2 ^ 53") (auto simp: not_less round53_shift)

text \<open>What rounding produces is a double: rounding again changes nothing.\<close>

lemma round53_exact:
  assumes q: "q \<le> 2 ^ 53"
  shows "round53 (q * 2 ^ k) = q * 2 ^ k"
proof (cases "q * 2 ^ k < 2 ^ 53")
  case False
  then have "2 ^ 53 \<le> q * 2 ^ k" by simp
  then obtain e p r where s: "nbits (q * 2 ^ k) = e + 53" "0 < e" "q * 2 ^ k = p * 2 ^ e + r" "r < 2 ^ e"
    "2 ^ 52 \<le> p" "p < 2 ^ 53"
    "round53 (q * 2 ^ k) = (if r > 2 ^ (e - 1) \<or> (r = 2 ^ (e - 1) \<and> odd p) then p + 1 else p) * 2 ^ e"
    by (rule big_split)
  have lo: "2 ^ (e + 52) \<le> q * 2 ^ k" using mult_right_mono [OF s(5), of "2 ^ e"] s(3)
    by (simp only: power_add) (simp add: mult.commute trans_le_add1)
  have "2 ^ e dvd q * 2 ^ k"
  proof (cases "q = 2 ^ 53")
    case True
    have "q * 2 ^ k = 2 ^ (53 + k)" using True by (simp add: power_add)
    moreover have "e + 52 \<le> 53 + k" using lo unfolding calculation by (rule power_le_imp_le_exp [rotated]) simp
    ultimately show ?thesis by (simp add: le_imp_power_dvd)
  next
    case False
    then have "q * 2 ^ k < 2 ^ 53 * 2 ^ k" using q by (intro mult_strict_right_mono) auto
    then have "q * 2 ^ k < 2 ^ (53 + k)" by (simp add: power_add)
    with lo have "2 ^ (e + 52) < (2::nat) ^ (53 + k)" by linarith
    then have "e + 52 < 53 + k" by (rule power_less_imp_less_exp [rotated]) simp
    then show ?thesis by (intro dvd_mult le_imp_power_dvd) simp
  qed
  then have "r = 0" using s(3,4) by (metis dvd_add_right_iff dvd_triv_right nat_dvd_not_less neq0_conv)
  then show ?thesis using s by simp
qed (simp add: round53_small)

lemma round53_idem [simp]: "round53 (round53 n) = round53 n"
proof (cases "n < 2 ^ 53")
  case False
  then have "2 ^ 53 \<le> n" by simp
  then obtain e q r where s: "nbits n = e + 53" "0 < e" "n = q * 2 ^ e + r" "r < 2 ^ e"
    "2 ^ 52 \<le> q" "q < 2 ^ 53"
    "round53 n = (if r > 2 ^ (e - 1) \<or> (r = 2 ^ (e - 1) \<and> odd q) then q + 1 else q) * 2 ^ e"
    by (rule big_split)
  have "(if r > 2 ^ (e - 1) \<or> (r = 2 ^ (e - 1) \<and> odd q) then q + 1 else q) \<le> 2 ^ 53"
    using s(6) by auto
  then show ?thesis unfolding s(7) by (rule round53_exact)
qed (simp add: round53_small)

lemma round53_big: "2 ^ 53 \<le> n \<Longrightarrow> 2 ^ 53 \<le> round53 n"
  using round53_mono [of "2 ^ 53" n] round53_exact [of 1 53] by simp

lemma dbl_mono: "m \<le> n \<Longrightarrow> dbl m \<le> dbl n"
  using round53_mono [of m n] by (auto simp: dbl_def)

text \<open>The values a sum can have.\<close>

definition double_ok :: "dnum \<Rightarrow> bool" where
  "double_ok d = (case d of Infinity \<Rightarrow> True | Number n \<Rightarrow> round53 n = n \<and> n < 2 ^ 1024)"

lemma double_ok_dbl [simp]: "double_ok (dbl n)"
  by (simp add: double_ok_def dbl_def)

end
