(* ===== verification/KBucket.thy ===== *)
theory KBucket
  imports Doubles "HOL-Library.Multiset"
begin

unbundle bit_operations_syntax

text \<open>
  The k-bucket of the Kademlia table (\<open>kademlia/src/bucket.ts\<close>).

  The tree of the code is the datatype \<open>kb_node\<close>: a bucket with its contacts and its
  \<open>noSplit\<close> flag, or an inner node. An operation takes the root and returns the new root with
  the events it emits, in order. Following the local node's identifier the tree is a spine:
  every inner node has one child that may split further and one far bucket that may not.
  \<open>kb_ok\<close> states this with what each bucket holds: the far bucket at depth \<open>i\<close> holds contacts
  that share exactly \<open>i\<close> leading bits with the local node. On it rest termination of \<open>add\<close>,
  the map every operation acts on, and the exactness of \<open>closest\<close>.

  A JavaScript number in the distance is a double: \<open>dbl\<close> rounds a natural number to 53
  significant bits, ties to even, and to infinity beyond the range. Two objects are the
  same object where their values are equal.
\<close>

section \<open>Contacts and options\<close>

record endpoint =
  ep_address :: "jsstr option"
  ep_udpPort :: "nat option"
  ep_tcpPort :: "nat option"
  ep_vectorClock :: "int option"

record peer_info =
  pi_id :: "u8 list option"
  pi_end :: endpoint

record contact =
  ct_id :: "u8 list"
  ct_end :: endpoint

datatype kb_event =
    Added contact
  | Removed contact
  | Ping "contact list" contact
  | Updated contact contact

record kb_config =
  kb_localNodeId :: "u8 list"
  kb_numberOfNodesPerKBucket :: nat
  kb_numberOfNodesToPing :: nat
  kb_distance :: "u8 list \<Rightarrow> u8 list \<Rightarrow> dnum"
  kb_arbiter :: "contact \<Rightarrow> contact \<Rightarrow> contact"

definition clock_greater :: "int option \<Rightarrow> int option \<Rightarrow> bool" where
  "clock_greater a b = (case (a, b) of (Some x, Some y) \<Rightarrow> x > y | _ \<Rightarrow> False)"

definition arbiter :: "contact \<Rightarrow> contact \<Rightarrow> contact" where
  "arbiter incumbent candidate =
    (if clock_greater (ep_vectorClock (ct_end incumbent)) (ep_vectorClock (ct_end candidate))
     then incumbent else candidate)"

section \<open>Distances in double precision\<close>

definition dist_step :: "dnum \<Rightarrow> nat \<Rightarrow> dnum" where
  "dist_step d x = (case d of
     Infinity \<Rightarrow> Infinity
   | Number n \<Rightarrow> (case dbl (n * 256) of Infinity \<Rightarrow> Infinity | Number m \<Rightarrow> dbl (m + x)))"

definition kb_default_distance :: "u8 list \<Rightarrow> u8 list \<Rightarrow> dnum" where
  "kb_default_distance firstId secondId =
    (let m = min (length firstId) (length secondId); M = max (length firstId) (length secondId) in
     foldl dist_step (Number 0)
       (map (\<lambda>i. unat ((firstId ! i) XOR (secondId ! i))) [0..<m] @ replicate (M - m) 255))"

section \<open>The tree\<close>

datatype kb_node =
    Bucket (contacts: "contact list") (noSplit: bool)
  | Inner (left: kb_node) (right: kb_node)

definition createNode :: kb_node where
  "createNode = Bucket [] False"

definition determine_right :: "u8 list \<Rightarrow> nat \<Rightarrow> bool" where
  "determine_right i bitIndex =
    (let byte = bitIndex div 8; bit_in = bitIndex mod 8 in
     if length i \<le> byte \<and> bit_in \<noteq> 0 then False
     else (case at i byte of
       None \<Rightarrow> False
     | Some b \<Rightarrow> b AND push_bit (7 - bit_in) 1 \<noteq> 0))"

fun indexOf :: "contact list \<Rightarrow> u8 list \<Rightarrow> nat option" where
  "indexOf [] i = None"
| "indexOf (c # cs) i = (if ct_id c = i then Some 0 else map_option Suc (indexOf cs i))"

text \<open>The update of a known contact: the arbiter selects, and unless it keeps a different
  incumbent the selection moves to the end.\<close>

definition kb_update :: "kb_config \<Rightarrow> contact list \<Rightarrow> nat \<Rightarrow> contact \<Rightarrow> contact list \<times> kb_event list" where
  "kb_update cfg cs index c =
    (let incumbent = cs ! index; selection = kb_arbiter cfg incumbent c in
     if selection = incumbent \<and> incumbent \<noteq> c then (cs, [])
     else (take index cs @ drop (Suc index) cs @ [selection], [Updated incumbent selection]))"

definition kb_split :: "kb_config \<Rightarrow> contact list \<Rightarrow> nat \<Rightarrow> kb_node" where
  "kb_split cfg cs bitIndex =
    (let l = filter (\<lambda>c. \<not> determine_right (ct_id c) bitIndex) cs;
         r = filter (\<lambda>c. determine_right (ct_id c) bitIndex) cs;
         near = determine_right (kb_localNodeId cfg) bitIndex in
     Inner (Bucket l near) (Bucket r (\<not> near)))"

text \<open>One descent of \<open>add\<close>: the new tree, and the events or, after a split, \<open>None\<close> for
  \<open>add\<close> to start over.\<close>

fun kb_pass :: "kb_config \<Rightarrow> contact \<Rightarrow> nat \<Rightarrow> kb_node \<Rightarrow> kb_node \<times> kb_event list option" where
  "kb_pass cfg c bitIndex (Inner l r) =
    (if determine_right (ct_id c) bitIndex
     then (case kb_pass cfg c (Suc bitIndex) r of (r', e) \<Rightarrow> (Inner l r', e))
     else (case kb_pass cfg c (Suc bitIndex) l of (l', e) \<Rightarrow> (Inner l' r, e)))"
| "kb_pass cfg c bitIndex (Bucket cs ns) =
    (case indexOf cs (ct_id c) of
       Some index \<Rightarrow> (case kb_update cfg cs index c of (cs', e) \<Rightarrow> (Bucket cs' ns, Some e))
     | None \<Rightarrow>
         if length cs < kb_numberOfNodesPerKBucket cfg then (Bucket (cs @ [c]) ns, Some [Added c])
         else if ns then (Bucket cs ns, Some [Ping (take (kb_numberOfNodesToPing cfg) cs) c])
         else (kb_split cfg cs bitIndex, None))"

partial_function (option) kb_insert :: "kb_config \<Rightarrow> contact \<Rightarrow> kb_node \<Rightarrow> (kb_node \<times> kb_event list) option" where
  "kb_insert cfg c root =
    (case kb_pass cfg c 0 root of
       (root', Some e) \<Rightarrow> Some (root', e)
     | (root', None) \<Rightarrow> kb_insert cfg c root')"

definition kb_add :: "kb_config \<Rightarrow> peer_info \<Rightarrow> kb_node \<Rightarrow> (kb_node \<times> kb_event list) option res" where
  "kb_add cfg p root = (case pi_id p of
     None \<Rightarrow> throw ''Contact must have an id''
   | Some i \<Rightarrow> Inr (kb_insert cfg \<lparr>ct_id = i, ct_end = pi_end p\<rparr> root))"

fun kb_leaf :: "u8 list \<Rightarrow> nat \<Rightarrow> kb_node \<Rightarrow> contact list" where
  "kb_leaf i bitIndex (Inner l r) =
    (if determine_right i bitIndex then kb_leaf i (Suc bitIndex) r else kb_leaf i (Suc bitIndex) l)"
| "kb_leaf i bitIndex (Bucket cs ns) = cs"

definition kb_get :: "u8 list \<Rightarrow> kb_node \<Rightarrow> contact option" where
  "kb_get i root = (let cs = kb_leaf i 0 root in map_option (\<lambda>k. cs ! k) (indexOf cs i))"

fun kb_remove_at :: "u8 list \<Rightarrow> nat \<Rightarrow> kb_node \<Rightarrow> kb_node \<times> kb_event list" where
  "kb_remove_at i bitIndex (Inner l r) =
    (if determine_right i bitIndex
     then (case kb_remove_at i (Suc bitIndex) r of (r', e) \<Rightarrow> (Inner l r', e))
     else (case kb_remove_at i (Suc bitIndex) l of (l', e) \<Rightarrow> (Inner l' r, e)))"
| "kb_remove_at i bitIndex (Bucket cs ns) =
    (case indexOf cs i of
       None \<Rightarrow> (Bucket cs ns, [])
     | Some k \<Rightarrow> (Bucket (take k cs @ drop (Suc k) cs) ns, [Removed (cs ! k)]))"

definition kb_remove :: "u8 list \<Rightarrow> kb_node \<Rightarrow> kb_node \<times> kb_event list" where
  "kb_remove i root = kb_remove_at i 0 root"

text \<open>The walks use an explicit stack, the end of the array being its top; here the top is
  the head of the list.\<close>

fun kb_size :: "kb_node \<Rightarrow> nat" where
  "kb_size (Bucket cs ns) = 1"
| "kb_size (Inner l r) = Suc (kb_size l + kb_size r)"

function kb_walk :: "kb_node list \<Rightarrow> contact list \<Rightarrow> contact list" where
  "kb_walk [] acc = acc"
| "kb_walk (Inner l r # nodes) acc = kb_walk (l # r # nodes) acc"
| "kb_walk (Bucket cs ns # nodes) acc = kb_walk nodes (acc @ cs)"
  by pat_completeness auto
termination by (relation "measure (\<lambda>(nodes, acc). sum_list (map kb_size nodes))") auto

definition kb_toArray :: "kb_node \<Rightarrow> contact list" where
  "kb_toArray root = kb_walk [root] []"

function kb_count_loop :: "kb_node list \<Rightarrow> nat \<Rightarrow> nat" where
  "kb_count_loop [] n = n"
| "kb_count_loop (Inner l r # nodes) n = kb_count_loop (l # r # nodes) n"
| "kb_count_loop (Bucket cs ns # nodes) n = kb_count_loop nodes (n + length cs)"
  by pat_completeness auto
termination by (relation "measure (\<lambda>(nodes, n). sum_list (map kb_size nodes))") auto

definition kb_count :: "kb_node \<Rightarrow> nat" where
  "kb_count root = kb_count_loop [root] 0"

text \<open>The bound \<open>n\<close> of \<open>closest\<close> is an integer or, as \<open>None\<close>, infinity.\<close>

definition wants_more :: "nat \<Rightarrow> int option \<Rightarrow> bool" where
  "wants_more m n = (case n of None \<Rightarrow> True | Some k \<Rightarrow> int m < k)"

definition take_n :: "int option \<Rightarrow> 'a list \<Rightarrow> 'a list" where
  "take_n n xs = (case n of None \<Rightarrow> xs | Some k \<Rightarrow> take (nat k) xs)"

function closest_loop :: "u8 list \<Rightarrow> int option \<Rightarrow> kb_node list \<Rightarrow> nat \<Rightarrow> contact list \<Rightarrow> contact list" where
  "closest_loop i n [] bitIndex acc = acc"
| "closest_loop i n (Inner l r # nodes) bitIndex acc =
    (if wants_more (length acc) n then
       (if determine_right i bitIndex
        then closest_loop i n (r # l # nodes) (Suc bitIndex) acc
        else closest_loop i n (l # r # nodes) (Suc bitIndex) acc)
     else acc)"
| "closest_loop i n (Bucket cs ns # nodes) bitIndex acc =
    (if wants_more (length acc) n then closest_loop i n nodes bitIndex (acc @ cs) else acc)"
  by pat_completeness auto
termination by (relation "measure (\<lambda>(i, n, nodes, b, acc). sum_list (map kb_size nodes))") auto

definition kb_closest :: "kb_config \<Rightarrow> u8 list \<Rightarrow> int option \<Rightarrow> kb_node \<Rightarrow> contact list res" where
  "kb_closest cfg i n root =
    (if (case n of None \<Rightarrow> False | Some k \<Rightarrow> k \<le> 0) then throw ''n is not positive number''
     else Inr (take_n n (sort_key (\<lambda>c. kb_distance cfg (ct_id c) i) (closest_loop i n [root] 0 []))))"

section \<open>Structure reports\<close>

record bucket_info =
  bi_bitDepth :: nat
  bi_bucketIndex :: nat
  bi_bucketPath :: "bool list"
  bi_peerCount :: nat
  bi_peers :: "contact list"
  bi_canSplit :: bool
  bi_maxSize :: nat

text \<open>A path is the list of its digits, \<open>True\<close> for 1.\<close>

fun structure_walk :: "kb_config \<Rightarrow> bool \<Rightarrow> kb_node \<Rightarrow> nat \<Rightarrow> bool list \<Rightarrow> bucket_info list \<Rightarrow> bucket_info list" where
  "structure_walk cfg includePeers (Inner l r) bitDepth path buckets =
    structure_walk cfg includePeers r (Suc bitDepth) (path @ [True])
      (structure_walk cfg includePeers l (Suc bitDepth) (path @ [False]) buckets)"
| "structure_walk cfg includePeers (Bucket cs ns) bitDepth path buckets =
    buckets @ [\<lparr>bi_bitDepth = bitDepth, bi_bucketIndex = length buckets,
      bi_bucketPath = (if path = [] then [False] else path), bi_peerCount = length cs,
      bi_peers = (if includePeers then cs else []), bi_canSplit = (\<not> ns),
      bi_maxSize = kb_numberOfNodesPerKBucket cfg\<rparr>]"

fun path_less :: "bool list \<Rightarrow> bool list \<Rightarrow> bool" where
  "path_less [] ys = (ys \<noteq> [])"
| "path_less (x # xs) [] = False"
| "path_less (x # xs) (y # ys) = ((\<not> x \<and> y) \<or> (x = y \<and> path_less xs ys))"

fun insert_info :: "bucket_info \<Rightarrow> bucket_info list \<Rightarrow> bucket_info list" where
  "insert_info b [] = [b]"
| "insert_info b (c # cs) =
    (if bi_bitDepth c < bi_bitDepth b \<or>
        (bi_bitDepth c = bi_bitDepth b \<and> path_less (bi_bucketPath c) (bi_bucketPath b))
     then c # insert_info b cs else b # c # cs)"

definition kb_getBucketStructure :: "kb_config \<Rightarrow> bool \<Rightarrow> kb_node \<Rightarrow> bucket_info list" where
  "kb_getBucketStructure cfg includePeers root =
    foldr insert_info (structure_walk cfg includePeers root 0 [] []) []"

record split_summary =
  sm_totalBuckets :: nat
  sm_maxDepth :: nat
  sm_bucketsByDepth :: "(nat \<times> nat \<times> nat) list"

fun bump_depth :: "nat \<Rightarrow> nat \<Rightarrow> (nat \<times> nat \<times> nat) list \<Rightarrow> (nat \<times> nat \<times> nat) list" where
  "bump_depth d m [] = [(d, 1, m)]"
| "bump_depth d m ((d', n, t) # rest) =
    (if d' = d then (d, n + 1, t + m) # rest else (d', n, t) # bump_depth d m rest)"

fun summary_walk :: "kb_node \<Rightarrow> nat \<Rightarrow> split_summary \<Rightarrow> split_summary" where
  "summary_walk (Inner l r) bitDepth s = summary_walk r (Suc bitDepth) (summary_walk l (Suc bitDepth) s)"
| "summary_walk (Bucket cs ns) bitDepth s =
    \<lparr>sm_totalBuckets = sm_totalBuckets s + 1,
     sm_maxDepth = (if bitDepth > sm_maxDepth s then bitDepth else sm_maxDepth s),
     sm_bucketsByDepth = bump_depth bitDepth (length cs) (sm_bucketsByDepth s)\<rparr>"

definition kb_getBucketSplitSummary :: "kb_node \<Rightarrow> split_summary" where
  "kb_getBucketSplitSummary root =
    (let s = summary_walk root 0 \<lparr>sm_totalBuckets = 0, sm_maxDepth = 0, sm_bucketsByDepth = []\<rparr> in
     s\<lparr>sm_bucketsByDepth := sort_key fst (sm_bucketsByDepth s)\<rparr>)"


section \<open>Bits of identifiers\<close>

lemma determine_right_bit:
  "b < 8 * length i \<Longrightarrow> determine_right i b \<longleftrightarrow> bit (i ! (b div 8)) (7 - b mod 8)"
  by (simp add: determine_right_def at_def bit_iff_and_push_bit_not_eq_0 div_less_iff_less_mult
      mult.commute)

lemma determine_right_past: "8 * length i \<le> b \<Longrightarrow> \<not> determine_right i b"
  by (simp add: determine_right_def at_def div_less_iff_less_mult mult.commute not_less Let_def)

lemma ids_equal_by_bits:
  assumes l: "length a = length b"
    and eq: "\<And>j. j < 8 * length a \<Longrightarrow> determine_right a j = determine_right b j"
  shows "a = b"
proof (rule nth_equalityI [OF l])
  fix n assume n: "n < length a"
  show "a ! n = b ! n"
  proof (rule bit_word_eqI)
    fix k assume "k < LENGTH(8)"
    then have k: "k < 8" by simp
    define m where "m = 7 - k"
    with k have m: "m < 8" "7 - m = k" by auto
    let ?j = "8 * n + m"
    have j: "?j < 8 * length a" using n m by simp
    moreover have "?j div 8 = n" "7 - ?j mod 8 = k" using m by auto
    ultimately show "bit (a ! n) k = bit (b ! n) k"
      using eq [OF j] determine_right_bit [OF j] determine_right_bit [of ?j b] l by simp
  qed
qed

text \<open>\<open>shares n a b\<close>: the identifiers agree on their first \<open>n\<close> bits.\<close>

definition shares :: "nat \<Rightarrow> u8 list \<Rightarrow> u8 list \<Rightarrow> bool" where
  "shares n a b = (\<forall>j<n. determine_right a j = determine_right b j)"

lemma shares_0 [simp]: "shares 0 a b"
  by (simp add: shares_def)

lemma shares_refl [simp]: "shares n a a"
  by (simp add: shares_def)

lemma shares_Suc:
  "shares (Suc n) a b \<longleftrightarrow> shares n a b \<and> determine_right a n = determine_right b n"
  by (auto simp: shares_def less_Suc_eq)

lemma shares_all: "8 * length a \<le> n \<Longrightarrow> length a = length b \<Longrightarrow> shares n a b \<Longrightarrow> a = b"
  by (rule ids_equal_by_bits) (auto simp: shares_def)

lemma shares_sym: "shares n a b \<Longrightarrow> shares n b a"
  by (auto simp: shares_def)

section \<open>The shape of the tree\<close>

text \<open>What a bucket may hold: at most \<open>k\<close> contacts, with distinct identifiers of the
  table's length that satisfy the bucket's own condition.\<close>

definition bucket_ok :: "kb_config \<Rightarrow> (u8 list \<Rightarrow> bool) \<Rightarrow> contact list \<Rightarrow> bool" where
  "bucket_ok cfg P cs \<longleftrightarrow> length cs \<le> kb_numberOfNodesPerKBucket cfg \<and> distinct (map ct_id cs) \<and>
    (\<forall>c\<in>set cs. length (ct_id c) = length (kb_localNodeId cfg) \<and> P (ct_id c))"

definition near_ids :: "kb_config \<Rightarrow> nat \<Rightarrow> u8 list \<Rightarrow> bool" where
  "near_ids cfg n i = shares n (kb_localNodeId cfg) i"

definition far_ids :: "kb_config \<Rightarrow> nat \<Rightarrow> u8 list \<Rightarrow> bool" where
  "far_ids cfg n i = (shares n (kb_localNodeId cfg) i \<and>
    determine_right i n \<noteq> determine_right (kb_localNodeId cfg) n)"

text \<open>The invariant: the far bucket at depth \<open>n\<close> holds the contacts that share exactly \<open>n\<close>
  leading bits with the local node, the last bucket those that share at least its depth.\<close>

fun kb_ok :: "kb_config \<Rightarrow> nat \<Rightarrow> kb_node \<Rightarrow> bool" where
  "kb_ok cfg n (Bucket cs ns) = (\<not> ns \<and> bucket_ok cfg (near_ids cfg n) cs)"
| "kb_ok cfg n (Inner l r) =
    (if determine_right (kb_localNodeId cfg) n
     then noSplit l \<and> bucket_ok cfg (far_ids cfg n) (contacts l) \<and> l = Bucket (contacts l) True
       \<and> kb_ok cfg (Suc n) r
     else noSplit r \<and> bucket_ok cfg (far_ids cfg n) (contacts r) \<and> r = Bucket (contacts r) True
       \<and> kb_ok cfg (Suc n) l)"

text \<open>An inner node as its near child and its far bucket.\<close>

definition fork :: "kb_config \<Rightarrow> nat \<Rightarrow> kb_node \<Rightarrow> contact list \<Rightarrow> kb_node" where
  "fork cfg n near far =
    (if determine_right (kb_localNodeId cfg) n then Inner (Bucket far True) near
     else Inner near (Bucket far True))"

lemma kb_ok_fork [simp]:
  "kb_ok cfg n (fork cfg n t cs) \<longleftrightarrow> bucket_ok cfg (far_ids cfg n) cs \<and> kb_ok cfg (Suc n) t"
  by (auto simp: fork_def)

lemma kb_ok_cases:
  assumes "kb_ok cfg n t"
  obtains (bucket) cs where "t = Bucket cs False" "bucket_ok cfg (near_ids cfg n) cs"
  | (spine) t' cs where "t = fork cfg n t' cs" "bucket_ok cfg (far_ids cfg n) cs" "kb_ok cfg (Suc n) t'"
proof (cases t)
  case (Bucket cs ns)
  then show ?thesis using assms bucket by simp
next
  case (Inner l r)
  show ?thesis
  proof (cases "determine_right (kb_localNodeId cfg) n")
    case True
    then show ?thesis using assms Inner spine [of r "contacts l"] by (auto simp: fork_def)
  next
    case False
    then show ?thesis using assms Inner spine [of l "contacts r"] by (auto simp: fork_def)
  qed
qed

lemma kb_size_fork [simp]: "kb_size t < kb_size (fork cfg n t cs)"
  by (simp add: fork_def)

lemma kb_ok_induct [consumes 1, case_names bucket spine]:
  assumes "kb_ok cfg n t"
    and "\<And>n cs. bucket_ok cfg (near_ids cfg n) cs \<Longrightarrow> P n (Bucket cs False)"
    and "\<And>n t cs. bucket_ok cfg (far_ids cfg n) cs \<Longrightarrow> kb_ok cfg (Suc n) t \<Longrightarrow> P (Suc n) t \<Longrightarrow>
      P n (fork cfg n t cs)"
  shows "P n t"
  using assms(1)
proof (induction t arbitrary: n rule: measure_induct_rule [where f = kb_size])
  case (less t)
  from less.prems show ?case
  proof (cases rule: kb_ok_cases)
    case (bucket cs)
    then show ?thesis using assms(2) by simp
  next
    case (spine t' cs)
    then show ?thesis using assms(3) [of n cs t'] less.IH [of t' "Suc n"] by simp
  qed
qed

text \<open>All contacts, from left to right.\<close>

fun kb_all :: "kb_node \<Rightarrow> contact list" where
  "kb_all (Bucket cs ns) = cs"
| "kb_all (Inner l r) = kb_all l @ kb_all r"

lemma kb_walk_all: "kb_walk nodes acc = acc @ concat (map kb_all nodes)"
  by (induction nodes acc rule: kb_walk.induct) auto

lemma kb_toArray_all: "kb_toArray t = kb_all t"
  by (simp add: kb_toArray_def kb_walk_all)

lemma kb_count_loop_all: "kb_count_loop nodes n = n + length (concat (map kb_all nodes))"
  by (induction nodes n rule: kb_count_loop.induct) auto

lemma kb_count_all: "kb_count t = length (kb_all t)"
  by (simp add: kb_count_def kb_count_loop_all)

lemma set_kb_all_fork [simp]: "set (kb_all (fork cfg n t cs)) = set cs \<union> set (kb_all t)"
  by (auto simp: fork_def)

lemma kb_all_near:
  assumes "kb_ok cfg n t" and "c \<in> set (kb_all t)"
  shows "near_ids cfg n (ct_id c) \<and> length (ct_id c) = length (kb_localNodeId cfg)"
  using assms
  by (induction rule: kb_ok_induct) (auto simp: bucket_ok_def far_ids_def near_ids_def shares_Suc)

lemma kb_all_distinct: "kb_ok cfg n t \<Longrightarrow> distinct (map ct_id (kb_all t))"
proof (induction rule: kb_ok_induct)
  case (bucket n cs)
  then show ?case by (simp add: bucket_ok_def)
next
  case (spine n t cs)
  have "ct_id c \<noteq> ct_id d" if c: "c \<in> set cs" and d: "d \<in> set (kb_all t)" for c d
  proof -
    have "far_ids cfg n (ct_id c)" using spine(1) c by (simp add: bucket_ok_def)
    moreover have "near_ids cfg (Suc n) (ct_id d)" using kb_all_near [OF spine(2) d] by simp
    ultimately show ?thesis by (auto simp: far_ids_def near_ids_def shares_Suc)
  qed
  then have "ct_id ` set cs \<inter> ct_id ` set (kb_all t) = {}" by blast
  then show ?case using spine by (auto simp: fork_def bucket_ok_def Int_commute)
qed


section \<open>Acting on the bucket of an identifier\<close>

text \<open>\<open>kb_at f i\<close> applies \<open>f\<close> at the bucket on the path of \<open>i\<close>; \<open>add\<close> and \<open>remove\<close> are
  two instances.\<close>

fun kb_at :: "(nat \<Rightarrow> contact list \<Rightarrow> bool \<Rightarrow> kb_node \<times> 'e) \<Rightarrow> u8 list \<Rightarrow> nat \<Rightarrow> kb_node \<Rightarrow> kb_node \<times> 'e" where
  "kb_at f i n (Inner l r) =
    (if determine_right i n
     then (case kb_at f i (Suc n) r of (r', e) \<Rightarrow> (Inner l r', e))
     else (case kb_at f i (Suc n) l of (l', e) \<Rightarrow> (Inner l' r, e)))"
| "kb_at f i n (Bucket cs ns) = f n cs ns"

definition pass_bucket :: "kb_config \<Rightarrow> contact \<Rightarrow> nat \<Rightarrow> contact list \<Rightarrow> bool \<Rightarrow> kb_node \<times> kb_event list option" where
  "pass_bucket cfg c n cs ns = kb_pass cfg c n (Bucket cs ns)"

definition remove_bucket :: "u8 list \<Rightarrow> nat \<Rightarrow> contact list \<Rightarrow> bool \<Rightarrow> kb_node \<times> kb_event list" where
  "remove_bucket i n cs ns = kb_remove_at i n (Bucket cs ns)"

lemma kb_pass_at: "kb_pass cfg c n t = kb_at (pass_bucket cfg c) (ct_id c) n t"
  by (induction t arbitrary: n) (simp_all add: pass_bucket_def)

lemma kb_remove_at_at: "kb_remove_at i n t = kb_at (remove_bucket i) i n t"
  by (induction t arbitrary: n) (simp_all add: remove_bucket_def)

text \<open>The identifiers that belong to a bucket at depth \<open>m\<close>.\<close>

definition here :: "kb_config \<Rightarrow> nat \<Rightarrow> bool \<Rightarrow> u8 list \<Rightarrow> bool" where
  "here cfg m ns = (if ns then far_ids cfg (m - 1) else near_ids cfg m)"

fun kb_depth :: "kb_node \<Rightarrow> nat" where
  "kb_depth (Bucket cs ns) = 0"
| "kb_depth (Inner l r) = Suc (max (kb_depth l) (kb_depth r))"

lemma kb_depth_fork [simp]: "kb_depth (fork cfg n t cs) = Suc (kb_depth t)"
  by (simp add: fork_def)

text \<open>The tree seen from the bucket of \<open>i\<close>: the bucket, what surrounds it, and the way
  back.\<close>

definition focus :: "kb_config \<Rightarrow> u8 list \<Rightarrow> nat \<Rightarrow> kb_node \<Rightarrow> nat \<Rightarrow> contact list \<Rightarrow> bool \<Rightarrow>
    (kb_node \<Rightarrow> kb_node) \<Rightarrow> contact list \<Rightarrow> contact list \<Rightarrow> bool" where
  "focus cfg i n t m cs ns put pre post \<longleftrightarrow>
    t = put (Bucket cs ns) \<and> n \<le> m \<and> (ns \<longrightarrow> n < m) \<and> kb_leaf i n t = cs \<and>
    bucket_ok cfg (here cfg m ns) cs \<and> here cfg m ns i \<and>
    (\<forall>u. kb_all (put u) = pre @ kb_all u @ post) \<and>
    (\<forall>c\<in>set pre \<union> set post. \<not> here cfg m ns (ct_id c)) \<and>
    (\<forall>cs'. bucket_ok cfg (here cfg m ns) cs' \<longrightarrow> kb_ok cfg n (put (Bucket cs' ns))) \<and>
    (\<not> ns \<longrightarrow> (\<forall>u. kb_ok cfg m u \<longrightarrow> kb_ok cfg n (put u)) \<and>
      (\<forall>u. kb_depth (put u) = (m - n) + kb_depth u))"

lemma focusD:
  assumes "focus cfg i n t m cs ns put pre post"
  shows "t = put (Bucket cs ns)" "kb_leaf i n t = cs" "bucket_ok cfg (here cfg m ns) cs"
    "here cfg m ns i" "kb_all (put u) = pre @ kb_all u @ post"
    "c \<in> set pre \<or> c \<in> set post \<Longrightarrow> \<not> here cfg m ns (ct_id c)"
    "bucket_ok cfg (here cfg m ns) cs' \<Longrightarrow> kb_ok cfg n (put (Bucket cs' ns))"
    "\<not> ns \<Longrightarrow> kb_ok cfg m u \<Longrightarrow> kb_ok cfg n (put u)"
    "\<not> ns \<Longrightarrow> kb_depth (put u) = (m - n) + kb_depth u" "n \<le> m"
  using assms unfolding focus_def by blast+

lemma here_near: "n \<le> m \<Longrightarrow> here cfg m ns i \<Longrightarrow> (ns \<Longrightarrow> n < m) \<Longrightarrow> near_ids cfg n i"
  by (cases ns) (auto simp: here_def near_ids_def far_ids_def shares_def)

lemma focus_far:
  assumes ok: "bucket_ok cfg (far_ids cfg n) cs" "kb_ok cfg (Suc n) t" and i: "far_ids cfg n i"
  shows "\<exists>put pre post. focus cfg i n (fork cfg n t cs) (Suc n) cs True put pre post \<and>
    (\<forall>f. kb_at f i n (fork cfg n t cs) = (case f (Suc n) cs True of (u, e) \<Rightarrow> (put u, e)))"
proof -
  let ?right = "determine_right (kb_localNodeId cfg) n"
  let ?put = "\<lambda>u. if ?right then Inner u t else Inner t u"
  have out: "\<not> far_ids cfg n (ct_id c)" if "c \<in> set (kb_all t)" for c
    using kb_all_near [OF ok(2) that] by (auto simp: far_ids_def near_ids_def shares_Suc)
  have "focus cfg i n (fork cfg n t cs) (Suc n) cs True ?put
      (if ?right then [] else kb_all t) (if ?right then kb_all t else [])"
    using ok i out by (auto simp: focus_def here_def fork_def far_ids_def)
  moreover have "kb_at f i n (fork cfg n t cs) = (case f (Suc n) cs True of (u, e) \<Rightarrow> (?put u, e))" for f :: "nat \<Rightarrow> contact list \<Rightarrow> bool \<Rightarrow> kb_node \<times> 'a"
    using i by (auto simp: fork_def far_ids_def split: prod.split)
  ultimately show ?thesis by blast
qed

lemma focus_near:
  assumes ok: "bucket_ok cfg (far_ids cfg n) cs" and i: "near_ids cfg (Suc n) i"
    and fc: "focus cfg i (Suc n) t m ds ns put pre post"
    and at: "\<And>f :: nat \<Rightarrow> contact list \<Rightarrow> bool \<Rightarrow> kb_node \<times> 'e.
      kb_at f i (Suc n) t = (case f m ds ns of (u, e) \<Rightarrow> (put u, e))"
  shows "\<exists>put pre post. focus cfg i n (fork cfg n t cs) m ds ns put pre post \<and>
    (\<forall>f :: nat \<Rightarrow> contact list \<Rightarrow> bool \<Rightarrow> kb_node \<times> 'e.
      kb_at f i n (fork cfg n t cs) = (case f m ds ns of (u, e) \<Rightarrow> (put u, e)))"
proof -
  let ?right = "determine_right (kb_localNodeId cfg) n"
  let ?put = "\<lambda>u. fork cfg n (put u) cs"
  note f = focusD [OF fc]
  have deep: "Suc n \<le> m" "ns \<Longrightarrow> Suc n < m" using fc by (auto simp: focus_def)
  have out: "\<not> here cfg m ns (ct_id c)" if "c \<in> set cs" for c
  proof
    assume "here cfg m ns (ct_id c)"
    then have "near_ids cfg (Suc n) (ct_id c)" by (rule here_near [OF deep(1)]) (rule deep(2))
    moreover have "far_ids cfg n (ct_id c)" using ok that by (simp add: bucket_ok_def)
    ultimately show False by (auto simp: far_ids_def near_ids_def shares_Suc)
  qed
  have dir: "determine_right i n = ?right" using i by (auto simp: near_ids_def shares_Suc)
  have "focus cfg i n (fork cfg n t cs) m ds ns ?put
      (if ?right then cs @ pre else pre) (if ?right then post else post @ cs)"
    unfolding focus_def
  proof (intro conjI allI ballI impI)
    show "fork cfg n t cs = ?put (Bucket ds ns)" using f(1) by simp
    show "kb_leaf i n (fork cfg n t cs) = ds" using f(2) dir by (simp add: fork_def)
    show "kb_all (?put u) = (if ?right then cs @ pre else pre) @ kb_all u @
        (if ?right then post else post @ cs)" for u
      using f(5) [of u] by (simp add: fork_def)
    show "\<not> here cfg m ns (ct_id c)"
      if "c \<in> set (if ?right then cs @ pre else pre) \<union> set (if ?right then post else post @ cs)" for c
      using that out f(6) by (auto split: if_splits)
    show "kb_ok cfg n (?put (Bucket cs' ns))" if "bucket_ok cfg (here cfg m ns) cs'" for cs'
      using f(7) [OF that] ok by simp
    show "kb_ok cfg n (?put u)" if "\<not> ns" "kb_ok cfg m u" for u
      using f(8) [OF that] ok by simp
    show "kb_depth (?put u) = m - n + kb_depth u" if "\<not> ns" for u
      using f(9) [OF that, of u] deep by simp
  qed (use f deep in auto)
  moreover have "kb_at f i n (fork cfg n t cs) = (case f m ds ns of (u, e) \<Rightarrow> (?put u, e))" for f :: "nat \<Rightarrow> contact list \<Rightarrow> bool \<Rightarrow> kb_node \<times> 'e"
    using at [of f] dir by (auto simp: fork_def split: prod.split)
  ultimately show ?thesis by blast
qed

lemma kb_focus:
  assumes "kb_ok cfg n t" and "near_ids cfg n i"
  shows "\<exists>m cs ns put pre post. focus cfg i n t m cs ns put pre post \<and>
    (\<forall>f :: nat \<Rightarrow> contact list \<Rightarrow> bool \<Rightarrow> kb_node \<times> 'e.
      kb_at f i n t = (case f m cs ns of (u, e) \<Rightarrow> (put u, e)))"
  using assms
proof (induction rule: kb_ok_induct)
  case (bucket n cs)
  then have "focus cfg i n (Bucket cs False) n cs False (\<lambda>u. u) [] []"
    by (simp add: focus_def here_def)
  then show ?case by (fastforce split: prod.split)
next
  case (spine n t cs)
  show ?case
  proof (cases "far_ids cfg n i")
    case True
    show ?thesis
      using focus_far [OF spine(1,2) True, where 'a = 'e] by blast
  next
    case False
    then have near: "near_ids cfg (Suc n) i"
      using spine.prems by (auto simp: near_ids_def far_ids_def shares_Suc)
    obtain m ds ns put pre post where fc: "focus cfg i (Suc n) t m ds ns put pre post"
      and at: "\<And>f :: nat \<Rightarrow> contact list \<Rightarrow> bool \<Rightarrow> kb_node \<times> 'e.
        kb_at f i (Suc n) t = (case f m ds ns of (u, e) \<Rightarrow> (put u, e))"
      using spine.IH [OF near] by blast
    from focus_near [OF spine(1) near fc at] show ?thesis by blast
  qed
qed


section \<open>The table by common prefix\<close>

text \<open>The contract: a table gives for each number \<open>m\<close> the contacts that share exactly \<open>m\<close>
  leading bits with the local node, in the order they were last written.\<close>

definition cpl :: "kb_config \<Rightarrow> u8 list \<Rightarrow> nat" where
  "cpl cfg i = length (takeWhile (\<lambda>j. determine_right i j = determine_right (kb_localNodeId cfg) j)
    [0..<8 * length (kb_localNodeId cfg)])"

type_synonym ktable = "nat \<Rightarrow> contact list"

definition kb_class :: "kb_config \<Rightarrow> kb_node \<Rightarrow> ktable" where
  "kb_class cfg t m = filter (\<lambda>c. cpl cfg (ct_id c) = m) (kb_all t)"

definition with_id :: "u8 list \<Rightarrow> contact list \<Rightarrow> contact option" where
  "with_id i cs = find (\<lambda>c. ct_id c = i) cs"

definition table_get :: "kb_config \<Rightarrow> u8 list \<Rightarrow> ktable \<Rightarrow> contact option" where
  "table_get cfg i T = with_id i (T (cpl cfg i))"

definition table_remove :: "kb_config \<Rightarrow> u8 list \<Rightarrow> ktable \<Rightarrow> ktable \<times> kb_event list" where
  "table_remove cfg i T = (case table_get cfg i T of
     None \<Rightarrow> (T, [])
   | Some c \<Rightarrow> (T(cpl cfg i := filter (\<lambda>x. ct_id x \<noteq> i) (T (cpl cfg i))), [Removed c]))"

definition table_add :: "kb_config \<Rightarrow> contact \<Rightarrow> ktable \<Rightarrow> ktable \<times> kb_event list" where
  "table_add cfg c T = (let i = ct_id c; m = cpl cfg i; cs = T m in
     case with_id i cs of
       Some old \<Rightarrow>
         (let sel = kb_arbiter cfg old c in
          if sel = old \<and> old \<noteq> c then (T, [])
          else (T(m := filter (\<lambda>x. ct_id x \<noteq> i) cs @ [sel]), [Updated old sel]))
     | None \<Rightarrow>
         if length cs < kb_numberOfNodesPerKBucket cfg then (T(m := cs @ [c]), [Added c])
         else (T, [Ping (take (kb_numberOfNodesToPing cfg) cs) c]))"

text \<open>What the theorems ask of the options: room for a contact in a bucket, and an arbiter
  that answers a contact with the same identifier.\<close>

definition kb_options :: "kb_config \<Rightarrow> bool" where
  "kb_options cfg \<longleftrightarrow> 0 < kb_numberOfNodesPerKBucket cfg \<and>
    (\<forall>a b. ct_id a = ct_id b \<longrightarrow> ct_id (kb_arbiter cfg a b) = ct_id b)"

lemma length_takeWhile_upt: "length (takeWhile P [0..<N]) = n \<longleftrightarrow>
    (\<forall>j<n. P j) \<and> n \<le> N \<and> (n < N \<longrightarrow> \<not> P n)"
proof
  let ?k = "length (takeWhile P [0..<N])"
  have le: "?k \<le> N" using length_takeWhile_le [of P "[0..<N]"] by simp
  have pos: "P j" if "j < ?k" for j
    using that le by (metis length_takeWhile_le nth_mem nth_upt order_less_le_trans plus_nat.add_0
        set_takeWhileD takeWhile_nth length_upt minus_nat.diff_0)
  have neg: "\<not> P ?k" if "?k < N"
    using nth_length_takeWhile [of P "[0..<N]"] that by simp
  show "?k = n \<Longrightarrow> (\<forall>j<n. P j) \<and> n \<le> N \<and> (n < N \<longrightarrow> \<not> P n)" using le pos neg by auto
  assume R: "(\<forall>j<n. P j) \<and> n \<le> N \<and> (n < N \<longrightarrow> \<not> P n)"
  show "?k = n"
  proof (cases ?k n rule: linorder_cases)
    case less
    then show ?thesis using R neg by (metis order_less_le_trans)
  next
    case greater
    then show ?thesis using R pos le by (metis order_less_le_trans)
  qed
qed

lemma cpl_eq:
  "cpl cfg i = n \<longleftrightarrow> near_ids cfg n i \<and> n \<le> 8 * length (kb_localNodeId cfg) \<and>
    (n < 8 * length (kb_localNodeId cfg) \<longrightarrow> far_ids cfg n i)"
  unfolding cpl_def length_takeWhile_upt near_ids_def far_ids_def shares_def by (metis (full_types))

lemma near_ids_mono: "near_ids cfg n i \<Longrightarrow> m \<le> n \<Longrightarrow> near_ids cfg m i"
  by (auto simp: near_ids_def shares_def)

lemma near_ids_end:
  "8 * length (kb_localNodeId cfg) \<le> n \<Longrightarrow> length i = length (kb_localNodeId cfg) \<Longrightarrow>
    near_ids cfg n i \<Longrightarrow> i = kb_localNodeId cfg"
  unfolding near_ids_def by (rule shares_all [symmetric]) simp_all

lemma far_ids_bound:
  assumes "far_ids cfg n i" and "length i = length (kb_localNodeId cfg)"
  shows "n < 8 * length (kb_localNodeId cfg)"
proof (rule ccontr)
  assume "\<not> ?thesis"
  then have "\<not> determine_right i n" "\<not> determine_right (kb_localNodeId cfg) n"
    using assms(2) by (auto intro!: determine_right_past)
  with assms(1) show False by (simp add: far_ids_def)
qed

lemma far_ids_cpl: "length i = length (kb_localNodeId cfg) \<Longrightarrow> far_ids cfg n i \<Longrightarrow> cpl cfg i = n"
  unfolding cpl_eq using far_ids_bound [of cfg n i] by (auto simp: far_ids_def near_ids_def)

text \<open>A bucket takes a class whole or not at all.\<close>

lemma here_class:
  assumes len: "length i = length (kb_localNodeId cfg)" "length j = length (kb_localNodeId cfg)"
    and eq: "cpl cfg i = cpl cfg j" and h: "here cfg m ns i"
  shows "here cfg m ns j"
proof (cases "cpl cfg i < 8 * length (kb_localNodeId cfg)")
  case False
  then have "near_ids cfg (8 * length (kb_localNodeId cfg)) i" "near_ids cfg (8 * length (kb_localNodeId cfg)) j"
    using eq cpl_eq [of cfg i "cpl cfg i"] cpl_eq [of cfg j "cpl cfg j"] by (auto intro: near_ids_mono)
  then have "i = j" using near_ids_end [OF le_refl len(1)] near_ids_end [OF le_refl len(2)] by simp
  then show ?thesis using h by simp
next
  case True
  then have far: "far_ids cfg (cpl cfg i) i" "far_ids cfg (cpl cfg i) j"
    using eq cpl_eq [of cfg i "cpl cfg i"] cpl_eq [of cfg j "cpl cfg j"] by auto
  show ?thesis
  proof (cases ns)
    case True
    then show ?thesis using h far far_ids_cpl [OF len(1)] by (auto simp: here_def)
  next
    case False
    have "m \<le> cpl cfg i"
    proof (rule ccontr)
      assume "\<not> ?thesis"
      then have "near_ids cfg (Suc (cpl cfg i)) i" using h False by (auto simp: here_def intro: near_ids_mono)
      then show False using far(1) by (auto simp: near_ids_def far_ids_def shares_Suc)
    qed
    then show ?thesis using False far(2) near_ids_mono [of cfg "cpl cfg i" j m]
      by (simp add: here_def far_ids_def near_ids_def)
  qed
qed

section \<open>Searching and editing a bucket\<close>

lemma indexOf_Some:
  "indexOf cs i = Some k \<Longrightarrow> k < length cs \<and> ct_id (cs ! k) = i \<and> with_id i cs = Some (cs ! k)"
  by (induction cs arbitrary: k) (auto simp: with_id_def split: if_splits)

lemma indexOf_None: "indexOf cs i = None \<longleftrightarrow> with_id i cs = None"
  by (induction cs) (auto simp: with_id_def)

lemma with_id_None: "with_id i cs = None \<longleftrightarrow> i \<notin> ct_id ` set cs"
  by (auto simp: with_id_def find_None_iff)

lemma with_id_Some: "with_id i cs = Some c \<Longrightarrow> c \<in> set cs \<and> ct_id c = i"
  by (auto simp: with_id_def find_Some_iff)

lemma indexOf_delete:
  "indexOf cs i = Some k \<Longrightarrow> distinct (map ct_id cs) \<Longrightarrow>
    take k cs @ drop (Suc k) cs = filter (\<lambda>x. ct_id x \<noteq> i) cs"
proof (induction cs arbitrary: k)
  case (Cons c cs)
  show ?case
  proof (cases "ct_id c = i")
    case True
    then have "ct_id x \<noteq> i" if "x \<in> set cs" for x using Cons.prems that by (auto simp: image_iff)
    then have "filter (\<lambda>x. ct_id x \<noteq> i) cs = cs" by (simp add: filter_id_conv)
    then show ?thesis using True Cons.prems by auto
  next
    case False
    then show ?thesis using Cons by auto
  qed
qed simp

lemma with_id_filter: "P i \<Longrightarrow> with_id i (filter (\<lambda>c. P (ct_id c)) cs) = with_id i cs"
  by (induction cs) (auto simp: with_id_def)

lemma bucket_ok_filter: "bucket_ok cfg P cs \<Longrightarrow> bucket_ok cfg P (filter Q cs)"
  by (auto simp: bucket_ok_def distinct_map_filter intro: le_trans [OF length_filter_le])

text \<open>The classes of a tree after its bucket changed only in the class of \<open>i\<close>.\<close>

lemma focus_class:
  assumes f: "focus cfg i 0 t m cs ns put pre post" and ok: "kb_ok cfg 0 t"
    and len: "length i = length (kb_localNodeId cfg)"
    and rest: "\<And>q. q \<noteq> cpl cfg i \<Longrightarrow>
      filter (\<lambda>c. cpl cfg (ct_id c) = q) (kb_all u) = filter (\<lambda>c. cpl cfg (ct_id c) = q) cs"
  shows "kb_class cfg (put u) = (kb_class cfg t)(cpl cfg i := filter (\<lambda>c. cpl cfg (ct_id c) = cpl cfg i) (kb_all u))"
proof
  fix q
  note fd = focusD [OF f]
  have all: "kb_all t = pre @ cs @ post" using fd(1) fd(5) [of "Bucket cs ns"] by simp
  have out: "filter (\<lambda>c. cpl cfg (ct_id c) = cpl cfg i) xs = []" if "xs = pre \<or> xs = post" for xs
  proof (rule filter_False, rule ballI, rule notI)
    fix c assume c: "c \<in> set xs" and e: "cpl cfg (ct_id c) = cpl cfg i"
    have "c \<in> set (kb_all t)" using c that all by auto
    then have "length (ct_id c) = length (kb_localNodeId cfg)" using kb_all_near [OF ok] by blast
    then have "here cfg m ns (ct_id c)" using here_class [OF len _ e [symmetric] fd(4)] by simp
    then show False using fd(6) c that by blast
  qed
  show "kb_class cfg (put u) q =
      ((kb_class cfg t)(cpl cfg i := filter (\<lambda>c. cpl cfg (ct_id c) = cpl cfg i) (kb_all u))) q"
    using out rest all fd(5) [of u] by (cases "q = cpl cfg i") (simp_all add: kb_class_def)
qed

lemma focus_class_same:
  assumes f: "focus cfg i 0 t m cs ns put pre post" and ok: "kb_ok cfg 0 t"
    and len: "length i = length (kb_localNodeId cfg)"
  shows "kb_class cfg t (cpl cfg i) = filter (\<lambda>c. cpl cfg (ct_id c) = cpl cfg i) cs"
  using fun_cong [OF focus_class [OF f ok len, of "Bucket cs ns"], of "cpl cfg i"] focusD(1) [OF f]
  by simp


section \<open>The tree implements the table\<close>

lemma near_ids_0 [simp]: "near_ids cfg 0 i"
  by (simp add: near_ids_def)

lemma kb_get_table:
  assumes ok: "kb_ok cfg 0 t" and len: "length i = length (kb_localNodeId cfg)"
  shows "kb_get i t = table_get cfg i (kb_class cfg t)"
proof -
  obtain m cs ns put pre post where f: "focus cfg i 0 t m cs ns put pre post"
    using kb_focus [OF ok near_ids_0] by blast
  have "table_get cfg i (kb_class cfg t) = with_id i cs"
    unfolding table_get_def focus_class_same [OF f ok len] by (rule with_id_filter) simp
  then show ?thesis
    using focusD(2) [OF f] indexOf_Some [of cs i] indexOf_None [of cs i]
    by (cases "indexOf cs i") (simp_all add: kb_get_def)
qed

lemma kb_remove_table:
  assumes ok: "kb_ok cfg 0 t" and len: "length i = length (kb_localNodeId cfg)"
  shows "kb_ok cfg 0 (fst (kb_remove i t)) \<and>
    (kb_class cfg (fst (kb_remove i t)), snd (kb_remove i t)) = table_remove cfg i (kb_class cfg t)"
proof -
  obtain m cs ns put pre post where f: "focus cfg i 0 t m cs ns put pre post"
    and at: "\<And>g :: nat \<Rightarrow> contact list \<Rightarrow> bool \<Rightarrow> kb_node \<times> kb_event list.
      kb_at g i 0 t = (case g m cs ns of (u, e) \<Rightarrow> (put u, e))"
    using kb_focus [OF ok near_ids_0, where 'e = "kb_event list"] by blast
  note fd = focusD [OF f]
  have rm: "kb_remove i t = (case remove_bucket i m cs ns of (u, e) \<Rightarrow> (put u, e))"
    by (simp add: kb_remove_def kb_remove_at_at at)
  have get: "table_get cfg i (kb_class cfg t) = with_id i cs"
    unfolding table_get_def focus_class_same [OF f ok len] by (rule with_id_filter) simp
  show ?thesis
  proof (cases "indexOf cs i")
    case None
    then show ?thesis using rm fd(1) ok get indexOf_None [of cs i]
      by (simp add: remove_bucket_def table_remove_def)
  next
    case (Some k)
    let ?cs = "filter (\<lambda>x. ct_id x \<noteq> i) cs"
    have del: "take k cs @ drop (Suc k) cs = ?cs"
      using indexOf_delete [OF Some] fd(3) by (simp add: bucket_ok_def)
    have rm': "kb_remove i t = (put (Bucket ?cs ns), [Removed (cs ! k)])"
      using rm Some del by (simp add: remove_bucket_def)
    have ok': "kb_ok cfg 0 (put (Bucket ?cs ns))" by (rule fd(7) [OF bucket_ok_filter [OF fd(3)]])
    have cls: "kb_class cfg (put (Bucket ?cs ns)) =
        (kb_class cfg t)(cpl cfg i := filter (\<lambda>x. ct_id x \<noteq> i) (kb_class cfg t (cpl cfg i)))"
      using focus_class [OF f ok len, of "Bucket ?cs ns"] focus_class_same [OF f ok len]
      by (auto simp: filter_filter conj_commute intro: filter_cong)
    show ?thesis using rm' ok' cls get indexOf_Some [OF Some] by (simp add: table_remove_def)
  qed
qed

lemma filter_two_sides:
  assumes "\<And>x. x \<in> set xs \<Longrightarrow> P x \<Longrightarrow> Q x = b"
  shows "filter P (filter (\<lambda>x. \<not> Q x) xs @ filter Q xs) = filter P xs"
proof (cases b)
  case True
  then have "filter (\<lambda>x. \<not> Q x \<and> P x) xs = []" "filter (\<lambda>x. Q x \<and> P x) xs = filter P xs"
    using assms by (auto simp: filter_empty_conv intro: filter_cong)
  then show ?thesis by simp
next
  case False
  then have "filter (\<lambda>x. Q x \<and> P x) xs = []" "filter (\<lambda>x. \<not> Q x \<and> P x) xs = filter P xs"
    using assms by (auto simp: filter_empty_conv intro: filter_cong)
  then show ?thesis by simp
qed

lemma kb_split_fork:
  "kb_split cfg cs m =
    fork cfg m (Bucket (filter (\<lambda>c. determine_right (ct_id c) m = determine_right (kb_localNodeId cfg) m) cs) False)
      (filter (\<lambda>c. determine_right (ct_id c) m \<noteq> determine_right (kb_localNodeId cfg) m) cs)"
  by (cases "determine_right (kb_localNodeId cfg) m") (simp_all add: kb_split_def fork_def)

lemma kb_split_ok:
  assumes "bucket_ok cfg (near_ids cfg m) cs"
  shows "kb_ok cfg m (kb_split cfg cs m)"
proof -
  have "bucket_ok cfg (far_ids cfg m)
      (filter (\<lambda>c. determine_right (ct_id c) m \<noteq> determine_right (kb_localNodeId cfg) m) cs)"
    using bucket_ok_filter [OF assms] by (auto simp: bucket_ok_def near_ids_def far_ids_def)
  moreover have "bucket_ok cfg (near_ids cfg (Suc m))
      (filter (\<lambda>c. determine_right (ct_id c) m = determine_right (kb_localNodeId cfg) m) cs)"
    using bucket_ok_filter [OF assms] by (auto simp: bucket_ok_def near_ids_def shares_Suc)
  ultimately show ?thesis by (simp add: kb_split_fork)
qed

lemma cpl_same_bit:
  assumes "cpl cfg i = cpl cfg j" "length i = length (kb_localNodeId cfg)" "length j = length (kb_localNodeId cfg)"
    "near_ids cfg m i" "near_ids cfg m j"
  shows "determine_right i m = determine_right j m"
proof -
  have "here cfg (Suc m) True i \<longleftrightarrow> here cfg (Suc m) True j"
    using here_class [OF assms(2,3,1)] here_class [OF assms(3,2) assms(1) [symmetric]] by blast
  then show ?thesis using assms(4,5) by (auto simp: here_def far_ids_def near_ids_def)
qed

lemma kb_split_filter:
  assumes "bucket_ok cfg (near_ids cfg m) cs"
  shows "filter (\<lambda>c. cpl cfg (ct_id c) = q) (kb_all (kb_split cfg cs m)) = filter (\<lambda>c. cpl cfg (ct_id c) = q) cs"
proof -
  define b where "b = (\<exists>c\<in>set cs. cpl cfg (ct_id c) = q \<and> determine_right (ct_id c) m)"
  have "determine_right (ct_id c) m = b" if c: "c \<in> set cs" "cpl cfg (ct_id c) = q" for c
  proof
    assume "b"
    then obtain d where d: "d \<in> set cs" "cpl cfg (ct_id d) = q" "determine_right (ct_id d) m"
      by (auto simp: b_def)
    have "determine_right (ct_id c) m = determine_right (ct_id d) m"
      by (rule cpl_same_bit) (use c d assms in \<open>auto simp: bucket_ok_def\<close>)
    then show "determine_right (ct_id c) m" using d(3) by simp
  qed (use c in \<open>auto simp: b_def\<close>)
  then have "filter (\<lambda>c. cpl cfg (ct_id c) = q)
      (filter (\<lambda>c. \<not> determine_right (ct_id c) m) cs @ filter (\<lambda>c. determine_right (ct_id c) m) cs) =
      filter (\<lambda>c. cpl cfg (ct_id c) = q) cs"
    by (rule filter_two_sides)
  then show ?thesis by (simp add: kb_split_def Let_def)
qed

lemma kb_split_depth [simp]: "kb_depth (kb_split cfg cs m) = 1"
  by (simp add: kb_split_fork)

text \<open>A bucket with room is never full of contacts all equal to the local node.\<close>

lemma full_bucket_depth:
  assumes b: "bucket_ok cfg (near_ids cfg m) cs" and i: "near_ids cfg m i"
    and len: "length i = length (kb_localNodeId cfg)" and no: "with_id i cs = None" and ne: "cs \<noteq> []"
  shows "m < 8 * length (kb_localNodeId cfg)"
proof (rule ccontr)
  assume "\<not> ?thesis"
  then have deep: "8 * length (kb_localNodeId cfg) \<le> m" by simp
  have "i = kb_localNodeId cfg" by (rule near_ids_end [OF deep len i])
  moreover have "ct_id (hd cs) = kb_localNodeId cfg"
    using b ne near_ids_end [OF deep, of "ct_id (hd cs)"] by (auto simp: bucket_ok_def)
  ultimately have "i \<in> ct_id ` set cs" using ne by (metis image_eqI list.set_sel(1))
  then show False using no by (simp add: with_id_None)
qed


lemma kb_update_delete:
  assumes k: "indexOf cs (ct_id c) = Some k" and d: "distinct (map ct_id cs)"
  shows "kb_update cfg cs k c = (let old = cs ! k; sel = kb_arbiter cfg old c in
    if sel = old \<and> old \<noteq> c then (cs, [])
    else (filter (\<lambda>x. ct_id x \<noteq> ct_id c) cs @ [sel], [Updated old sel]))"
  using indexOf_delete [OF k d, symmetric] by (simp add: kb_update_def Let_def)

lemma bucket_ok_snoc:
  "bucket_ok cfg P cs \<Longrightarrow> length cs < kb_numberOfNodesPerKBucket cfg \<Longrightarrow> ct_id c \<notin> ct_id ` set cs \<Longrightarrow>
    length (ct_id c) = length (kb_localNodeId cfg) \<Longrightarrow> P (ct_id c) \<Longrightarrow> bucket_ok cfg P (cs @ [c])"
  by (auto simp: bucket_ok_def)

lemma bucket_ok_replace:
  assumes b: "bucket_ok cfg P cs" and c: "c \<in> set cs" "ct_id s = ct_id c"
  shows "bucket_ok cfg P (filter (\<lambda>x. ct_id x \<noteq> ct_id c) cs @ [s])"
proof (rule bucket_ok_snoc)
  have "length (filter (\<lambda>x. ct_id x \<noteq> ct_id c) cs) < length cs"
    using c(1) by (auto intro: length_filter_less)
  then show "length (filter (\<lambda>x. ct_id x \<noteq> ct_id c) cs) < kb_numberOfNodesPerKBucket cfg"
    using b by (auto simp: bucket_ok_def)
qed (use assms bucket_ok_filter [OF b] in \<open>auto simp: bucket_ok_def\<close>)

text \<open>One pass of \<open>add\<close>: it finishes as the table does, or it splits the last bucket of the
  spine, at a depth below the number of bits, and leaves the table alone.\<close>

definition pass_done :: "kb_config \<Rightarrow> contact \<Rightarrow> kb_node \<Rightarrow> kb_node \<times> kb_event list option \<Rightarrow> bool" where
  "pass_done cfg c t r \<longleftrightarrow> kb_ok cfg 0 (fst r) \<and> (case snd r of
     Some e \<Rightarrow> (kb_class cfg (fst r), e) = table_add cfg c (kb_class cfg t)
   | None \<Rightarrow> kb_class cfg (fst r) = kb_class cfg t \<and> kb_depth (fst r) = Suc (kb_depth t) \<and>
       kb_depth t < 8 * length (kb_localNodeId cfg))"

lemma pass_known:
  assumes opt: "kb_options cfg" and ok: "kb_ok cfg 0 t"
    and len: "length (ct_id c) = length (kb_localNodeId cfg)"
    and f: "focus cfg (ct_id c) 0 t m cs ns put pre post" and k: "indexOf cs (ct_id c) = Some k"
  shows "pass_done cfg c t (case pass_bucket cfg c m cs ns of (u, e) \<Rightarrow> (put u, e))"
proof -
  note fd = focusD [OF f]
  define old where "old = cs ! k"
  define sel where "sel = kb_arbiter cfg old c"
  have old: "old \<in> set cs" "ct_id old = ct_id c" "with_id (ct_id c) cs = Some old"
    using indexOf_Some [OF k] by (auto simp: old_def)
  have sid: "ct_id sel = ct_id c" using opt old by (simp add: kb_options_def sel_def)
  have d: "distinct (map ct_id cs)" using fd(3) by (simp add: bucket_ok_def)
  have cls: "kb_class cfg t (cpl cfg (ct_id c)) = filter (\<lambda>x. cpl cfg (ct_id x) = cpl cfg (ct_id c)) cs"
    by (rule focus_class_same [OF f ok len])
  have get: "with_id (ct_id c) (kb_class cfg t (cpl cfg (ct_id c))) = Some old"
    unfolding cls using old(3) by (subst with_id_filter) simp_all
  show ?thesis
  proof (cases "sel = old \<and> old \<noteq> c")
    case True
    then show ?thesis using k fd(1) ok get
      by (simp add: pass_done_def pass_bucket_def kb_update_delete [OF k d] table_add_def Let_def
          flip: old_def sel_def)
  next
    case False
    let ?cs = "filter (\<lambda>x. ct_id x \<noteq> ct_id c) cs @ [sel]"
    have pass: "pass_bucket cfg c m cs ns = (Bucket ?cs ns, Some [Updated old sel])"
      using k False by (auto simp: pass_bucket_def kb_update_delete [OF k d] Let_def simp flip: old_def sel_def)
    have "bucket_ok cfg (here cfg m ns) ?cs"
      using bucket_ok_replace [OF fd(3) old(1), of sel] old sid by simp
    then have ok': "kb_ok cfg 0 (put (Bucket ?cs ns))" by (rule fd(7))
    have "kb_class cfg (put (Bucket ?cs ns)) = (kb_class cfg t)(cpl cfg (ct_id c) :=
        filter (\<lambda>x. cpl cfg (ct_id x) = cpl cfg (ct_id c)) ?cs)"
    proof (rule focus_class [OF f ok len, of "Bucket ?cs ns", unfolded kb_all.simps])
      fix q assume "q \<noteq> cpl cfg (ct_id c)"
      then show "filter (\<lambda>c. cpl cfg (ct_id c) = q) ?cs = filter (\<lambda>c. cpl cfg (ct_id c) = q) cs"
        using sid by (auto simp: filter_filter intro!: filter_cong)
    qed
    then have "kb_class cfg (put (Bucket ?cs ns)) = (kb_class cfg t)(cpl cfg (ct_id c) :=
        filter (\<lambda>x. ct_id x \<noteq> ct_id c) (kb_class cfg t (cpl cfg (ct_id c))) @ [sel])"
      using sid cls by (simp add: filter_filter conj_commute)
    then show ?thesis using pass ok' get False
      by (auto simp: pass_done_def table_add_def Let_def simp flip: sel_def)
  qed
qed

lemma pass_new:
  assumes opt: "kb_options cfg" and ok: "kb_ok cfg 0 t"
    and len: "length (ct_id c) = length (kb_localNodeId cfg)"
    and f: "focus cfg (ct_id c) 0 t m cs ns put pre post" and no: "indexOf cs (ct_id c) = None"
  shows "pass_done cfg c t (case pass_bucket cfg c m cs ns of (u, e) \<Rightarrow> (put u, e))"
proof -
  note fd = focusD [OF f]
  let ?q = "cpl cfg (ct_id c)" and ?k = "kb_numberOfNodesPerKBucket cfg"
  have out: "with_id (ct_id c) cs = None" using no indexOf_None by simp
  have cls: "kb_class cfg t ?q = filter (\<lambda>x. cpl cfg (ct_id x) = ?q) cs"
    by (rule focus_class_same [OF f ok len])
  have get: "with_id (ct_id c) (kb_class cfg t ?q) = None"
    unfolding cls using out by (subst with_id_filter) simp_all
  have all: "length cs \<le> ?k" using fd(3) by (simp add: bucket_ok_def)
  consider (room) "length cs < ?k" | (far) "length cs = ?k" "ns" | (near) "length cs = ?k" "\<not> ns"
    using all by linarith
  then show ?thesis
  proof cases
    case room
    have "bucket_ok cfg (here cfg m ns) (cs @ [c])"
      using bucket_ok_snoc [OF fd(3) room _ len fd(4)] out by (simp add: with_id_None)
    then have ok': "kb_ok cfg 0 (put (Bucket (cs @ [c]) ns))" by (rule fd(7))
    have "kb_class cfg (put (Bucket (cs @ [c]) ns)) = (kb_class cfg t)(?q := kb_class cfg t ?q @ [c])"
      using focus_class [OF f ok len, of "Bucket (cs @ [c]) ns"] cls by simp
    moreover have "length (kb_class cfg t ?q) < ?k"
      unfolding cls using room length_filter_le by (rule order_le_less_trans [rotated])
    ultimately show ?thesis using ok' no room get
      by (simp add: pass_done_def pass_bucket_def table_add_def Let_def)
  next
    case far
    have "cpl cfg (ct_id x) = ?q" if "x \<in> set cs" for x
      using far fd(3,4) that len far_ids_cpl by (auto simp: bucket_ok_def here_def)
    then have "kb_class cfg t ?q = cs" unfolding cls by (simp add: filter_id_conv)
    then show ?thesis using ok no far get fd(1)
      by (simp add: pass_done_def pass_bucket_def table_add_def Let_def)
  next
    case near
    then have b: "bucket_ok cfg (near_ids cfg m) cs" and i: "near_ids cfg m (ct_id c)"
      using fd(3,4) by (simp_all add: here_def)
    have pass: "pass_bucket cfg c m cs ns = (kb_split cfg cs m, None)"
      using near no by (simp add: pass_bucket_def)
    have "kb_class cfg (put (kb_split cfg cs m)) = (kb_class cfg t)(?q := kb_class cfg t ?q)"
      using focus_class [OF f ok len, of "kb_split cfg cs m"] kb_split_filter [OF b] cls by simp
    moreover have "kb_ok cfg 0 (put (kb_split cfg cs m))" by (rule fd(8) [OF near(2) kb_split_ok [OF b]])
    moreover have "m < 8 * length (kb_localNodeId cfg)"
      by (rule full_bucket_depth [OF b i len out]) (use near opt in \<open>auto simp: kb_options_def\<close>)
    moreover have "kb_depth t = m" "kb_depth (put (kb_split cfg cs m)) = Suc m"
      using fd(9) [OF near(2), of "Bucket cs ns"] fd(9) [OF near(2), of "kb_split cfg cs m"] fd(1) by simp_all
    ultimately show ?thesis using pass by (simp add: pass_done_def)
  qed
qed

lemma kb_pass_done:
  assumes "kb_options cfg" and ok: "kb_ok cfg 0 t" and len: "length (ct_id c) = length (kb_localNodeId cfg)"
  shows "pass_done cfg c t (kb_pass cfg c 0 t)"
proof -
  obtain m cs ns put pre post where f: "focus cfg (ct_id c) 0 t m cs ns put pre post"
    and at: "\<And>g :: nat \<Rightarrow> contact list \<Rightarrow> bool \<Rightarrow> kb_node \<times> kb_event list option.
      kb_at g (ct_id c) 0 t = (case g m cs ns of (u, e) \<Rightarrow> (put u, e))"
    using kb_focus [OF ok near_ids_0, where 'e = "kb_event list option"] by blast
  show ?thesis unfolding kb_pass_at at
    using pass_known [OF assms f] pass_new [OF assms f] by (cases "indexOf cs (ct_id c)") auto
qed

lemma kb_insert_table:
  assumes opt: "kb_options cfg" and "kb_ok cfg 0 t" and len: "length (ct_id c) = length (kb_localNodeId cfg)"
  shows "\<exists>t' e. kb_insert cfg c t = Some (t', e) \<and> kb_ok cfg 0 t' \<and>
    (kb_class cfg t', e) = table_add cfg c (kb_class cfg t)"
  using assms(2)
proof (induction "8 * length (kb_localNodeId cfg) - kb_depth t" arbitrary: t rule: less_induct)
  case less
  obtain t1 r where p: "kb_pass cfg c 0 t = (t1, r)" by (cases "kb_pass cfg c 0 t") auto
  have d: "pass_done cfg c t (t1, r)" using kb_pass_done [OF opt less.prems len] p by simp
  show ?case
  proof (cases r)
    case (Some e)
    then show ?thesis using d p by (subst kb_insert.simps) (auto simp: pass_done_def)
  next
    case None
    then have "\<exists>t' e. kb_insert cfg c t1 = Some (t', e) \<and> kb_ok cfg 0 t' \<and>
        (kb_class cfg t', e) = table_add cfg c (kb_class cfg t1)"
      using d by (intro less.hyps) (auto simp: pass_done_def)
    then show ?thesis using d p None by (subst kb_insert.simps) (simp add: pass_done_def)
  qed
qed


section \<open>Sequences of calls\<close>

text \<open>A call of the table and what it answers: the events it emits and the contact it finds.\<close>

datatype kb_call = AddContact contact | RemoveContact "u8 list" | GetContact "u8 list"

fun call_id :: "kb_call \<Rightarrow> u8 list" where
  "call_id (AddContact c) = ct_id c"
| "call_id (RemoveContact i) = i"
| "call_id (GetContact i) = i"

type_synonym kb_answer = "kb_event list \<times> contact option"

fun kb_step :: "kb_config \<Rightarrow> kb_call \<Rightarrow> kb_node \<Rightarrow> (kb_node \<times> kb_answer) option" where
  "kb_step cfg (AddContact c) t = map_option (\<lambda>(t', e). (t', e, None)) (kb_insert cfg c t)"
| "kb_step cfg (RemoveContact i) t = (case kb_remove i t of (t', e) \<Rightarrow> Some (t', e, None))"
| "kb_step cfg (GetContact i) t = Some (t, [], kb_get i t)"

fun kb_run :: "kb_config \<Rightarrow> kb_call list \<Rightarrow> kb_node \<Rightarrow> (kb_node \<times> kb_answer list) option" where
  "kb_run cfg [] t = Some (t, [])"
| "kb_run cfg (x # xs) t = (case kb_step cfg x t of
     None \<Rightarrow> None
   | Some (t', a) \<Rightarrow> map_option (\<lambda>(t'', as). (t'', a # as)) (kb_run cfg xs t'))"

fun table_step :: "kb_config \<Rightarrow> kb_call \<Rightarrow> ktable \<Rightarrow> ktable \<times> kb_answer" where
  "table_step cfg (AddContact c) T = (case table_add cfg c T of (T', e) \<Rightarrow> (T', e, None))"
| "table_step cfg (RemoveContact i) T = (case table_remove cfg i T of (T', e) \<Rightarrow> (T', e, None))"
| "table_step cfg (GetContact i) T = (T, [], table_get cfg i T)"

fun table_run :: "kb_config \<Rightarrow> kb_call list \<Rightarrow> ktable \<Rightarrow> ktable \<times> kb_answer list" where
  "table_run cfg [] T = (T, [])"
| "table_run cfg (x # xs) T = (case table_step cfg x T of
     (T', a) \<Rightarrow> (case table_run cfg xs T' of (T'', as) \<Rightarrow> (T'', a # as)))"

lemma kb_step_table:
  assumes "kb_options cfg" and ok: "kb_ok cfg 0 t" and len: "length (call_id x) = length (kb_localNodeId cfg)"
  shows "\<exists>t' a. kb_step cfg x t = Some (t', a) \<and> kb_ok cfg 0 t' \<and>
    (kb_class cfg t', a) = table_step cfg x (kb_class cfg t)"
proof (cases x)
  case (AddContact c)
  then obtain t' e where "kb_insert cfg c t = Some (t', e)" "kb_ok cfg 0 t'"
    "table_add cfg c (kb_class cfg t) = (kb_class cfg t', e)"
    using kb_insert_table [OF assms(1) ok, of c] len by auto
  then show ?thesis using AddContact by simp
next
  case (RemoveContact i)
  then show ?thesis using kb_remove_table [OF ok, of i] len
    by (cases "kb_remove i t"; cases "table_remove cfg i (kb_class cfg t)") auto
next
  case (GetContact i)
  then show ?thesis using kb_get_table [OF ok, of i] len ok by simp
qed

lemma kb_run_table:
  assumes "kb_options cfg" and "kb_ok cfg 0 t" and "\<forall>x\<in>set xs. length (call_id x) = length (kb_localNodeId cfg)"
  shows "\<exists>t' as. kb_run cfg xs t = Some (t', as) \<and> kb_ok cfg 0 t' \<and>
    (kb_class cfg t', as) = table_run cfg xs (kb_class cfg t)"
  using assms(2,3)
proof (induction xs arbitrary: t)
  case (Cons x xs)
  obtain t1 a where s: "kb_step cfg x t = Some (t1, a)" "kb_ok cfg 0 t1"
    "table_step cfg x (kb_class cfg t) = (kb_class cfg t1, a)"
    using kb_step_table [OF assms(1) Cons.prems(1), of x] Cons.prems(2) by auto
  obtain t2 as where "kb_run cfg xs t1 = Some (t2, as)" "kb_ok cfg 0 t2"
    "table_run cfg xs (kb_class cfg t1) = (kb_class cfg t2, as)"
    using Cons.IH [OF s(2)] Cons.prems(2) by auto
  then show ?case using s by simp
qed simp

lemma createNode_ok [simp]: "kb_ok cfg 0 createNode"
  by (simp add: createNode_def bucket_ok_def)

lemma createNode_class [simp]: "kb_class cfg createNode = (\<lambda>m. [])"
  by (simp add: createNode_def kb_class_def fun_eq_iff)

text \<open>C1: any sequence of \<open>add\<close>, \<open>remove\<close> and \<open>get\<close> on a new k-bucket, with identifiers of the
  local node's length, returns: every \<open>add\<close> terminates, however often it splits. The tree
  keeps its shape (the far bucket at depth \<open>n\<close> holds the contacts that share exactly \<open>n\<close>
  leading bits with the local node, no bucket holds more than \<open>k\<close>), and its contents, the
  events of each call and the contacts found are those of the flat table of at most \<open>k\<close>
  contacts per number of shared leading bits: a new contact is dropped with a \<open>ping\<close> exactly
  when its class is full.\<close>

theorem kbucket_calls:
  assumes "kb_options cfg" and "\<forall>x\<in>set xs. length (call_id x) = length (kb_localNodeId cfg)"
  shows "\<exists>t as. kb_run cfg xs createNode = Some (t, as) \<and> kb_ok cfg 0 t \<and>
    table_run cfg xs (\<lambda>m. []) = (kb_class cfg t, as)"
  using kb_run_table [OF assms(1) createNode_ok assms(2)] by auto

definition demo_config :: kb_config where
  "demo_config = \<lparr>kb_localNodeId = [0], kb_numberOfNodesPerKBucket = 1, kb_numberOfNodesToPing = 1,
     kb_distance = kb_default_distance, kb_arbiter = arbiter\<rparr>"

definition demo_contact :: "nat \<Rightarrow> contact" where
  "demo_contact n = \<lparr>ct_id = [of_nat n], ct_end = \<lparr>ep_address = None, ep_udpPort = None,
     ep_tcpPort = None, ep_vectorClock = Some 0\<rparr>\<rparr>"

lemma demo_options: "kb_options demo_config"
  by (simp add: kb_options_def demo_config_def arbiter_def)

theorem kbucket_calls_witness:
  "\<exists>t as. kb_run demo_config (map (AddContact \<circ> demo_contact) [200, 3, 130]) createNode = Some (t, as) \<and>
    kb_ok demo_config 0 t \<and>
    table_run demo_config (map (AddContact \<circ> demo_contact) [200, 3, 130]) (\<lambda>m. []) = (kb_class demo_config t, as)"
  by (rule kbucket_calls [OF demo_options]) (simp add: demo_config_def demo_contact_def)

text \<open>The lengths matter: two identifiers of zero bits and different lengths are never
  separated by a split, and \<open>add\<close> of the second does not return from a bucket of one.\<close>

fun zeros_tree :: "nat \<Rightarrow> contact \<Rightarrow> kb_node" where
  "zeros_tree 0 c = Bucket [c] False"
| "zeros_tree (Suc n) c = Inner (zeros_tree n c) (Bucket [] True)"

lemma zeros_left: "\<forall>b\<in>set i. b = 0 \<Longrightarrow> \<not> determine_right i n"
  by (cases "n div 8 < length i") (auto simp: determine_right_def at_def Let_def dest!: bspec [OF _ nth_mem])

lemma zeros_pass:
  assumes "\<forall>b\<in>set (ct_id c). b = 0" "\<forall>b\<in>set (ct_id d). b = 0" "ct_id c \<noteq> ct_id d"
  shows "kb_pass demo_config d m (zeros_tree n c) = (zeros_tree (Suc n) c, None)"
  using assms zeros_left [of "[0]"]
  by (induction n arbitrary: m) (auto simp: zeros_left demo_config_def kb_split_def)

lemma kb_insert_diverges:
  assumes "\<forall>b\<in>set (ct_id c). b = 0" "\<forall>b\<in>set (ct_id d). b = 0" "ct_id c \<noteq> ct_id d"
  shows "kb_insert demo_config d (zeros_tree n c) = None"
proof (rule ccontr)
  assume "kb_insert demo_config d (zeros_tree n c) \<noteq> None"
  then obtain y where y: "kb_insert demo_config d (zeros_tree n c) = Some y" by auto
  have "\<not> (cfg = demo_config \<and> e = d \<and> (\<exists>n. t = zeros_tree n c))"
    if "kb_insert cfg e t = Some y" for cfg e t y
    using that
  proof (rule kb_insert.raw_induct [rotated])
    fix ins cfg e t y
    assume ih: "\<And>cfg e t y. ins cfg e t = Some y \<Longrightarrow> \<not> (cfg = demo_config \<and> e = d \<and> (\<exists>n. t = zeros_tree n c))"
      and step: "(case kb_pass cfg e 0 t of (t', None) \<Rightarrow> ins cfg e t' | (t', Some es) \<Rightarrow> Some (t', es)) = Some y"
    show "\<not> (cfg = demo_config \<and> e = d \<and> (\<exists>n. t = zeros_tree n c))"
    proof
      assume "cfg = demo_config \<and> e = d \<and> (\<exists>n. t = zeros_tree n c)"
      then obtain n where n: "cfg = demo_config" "e = d" "t = zeros_tree n c" by blast
      then have "ins demo_config d (zeros_tree (Suc n) c) = Some y"
        using step zeros_pass [OF assms, of 0 n] by simp
      then show False using ih by blast
    qed
  qed
  from this [OF y] show False by blast
qed

end
