(* ===== verification/KClosest.thy ===== *)
theory KClosest
  imports KBucket
begin

text \<open>
  \<open>closest\<close> of the Kademlia tree returns the nearest contacts (\<open>kademlia/src/bucket.ts\<close>).

  The loop visits the buckets from the near end of the path of the target and stops once it
  has enough contacts. With the tree's invariant each bucket visited earlier is at most as
  far as each visited later, for any distance that ranks identifiers by the first bit in
  which they differ from the target. The default distance does, for identifiers of every
  length, although it rounds to doubles: past 53 bits it ties, and never inverts.
\<close>

section \<open>The default distance ranks by the first differing bit\<close>

definition ranks :: "kb_config \<Rightarrow> bool" where
  "ranks cfg \<longleftrightarrow> (\<forall>a b i n. length a = length (kb_localNodeId cfg) \<longrightarrow>
    length b = length (kb_localNodeId cfg) \<longrightarrow> length i = length (kb_localNodeId cfg) \<longrightarrow>
    n < 8 * length (kb_localNodeId cfg) \<longrightarrow>
    shares n a b \<longrightarrow> determine_right a n = determine_right i n \<longrightarrow>
    determine_right b n \<noteq> determine_right i n \<longrightarrow> kb_distance cfg a i \<le> kb_distance cfg b i)"

text \<open>The relation two running sums keep once they have parted: below \<open>2 ^ 53\<close>, where sums are
  exact, they stay strictly apart.\<close>

definition parted :: "dnum \<Rightarrow> dnum \<Rightarrow> bool" where
  "parted a b \<longleftrightarrow> double_ok a \<and> double_ok b \<and> a \<le> b \<and> (\<forall>n. a = Number n \<longrightarrow> n < 2 ^ 53 \<longrightarrow> a < b)"

lemma dist_step_ok [simp]: "double_ok (dist_step a x)"
  by (auto simp: dist_step_def double_ok_def [of Infinity] split: dnum.split)

lemma Number_less_Infinity [simp]: "Number n < Infinity"
  by (simp add: less_dnum_def)

lemma dist_step_Number:
  assumes ok: "double_ok (Number n)" and x: "x < 256"
  shows "dist_step (Number n) x = (if n * 256 < 2 ^ 1024 then
    (if n < 2 ^ 53 then dbl (n * 256 + x) else Number (n * 256)) else Infinity)"
proof -
  have r: "round53 n = n" using ok by (simp add: double_ok_def)
  have "dbl (n * 256) = (if n * 256 < 2 ^ 1024 then Number (n * 256) else Infinity)"
    by (simp add: dbl_def round53_scaled [OF r])
  moreover have "dbl (n * 256 + x) = Number (n * 256)" if "2 ^ 53 \<le> n" "n * 256 < 2 ^ 1024"
    using round53_absorb [OF that(1) r x] that(2) by (simp add: dbl_def)
  ultimately show ?thesis by (simp add: dist_step_def)
qed

lemma parted_dbl: "m < n \<Longrightarrow> parted (dbl m) (dbl n)"
proof -
  assume lt: "m < n"
  have "dbl m < dbl n" if "dbl m = Number k" "k < 2 ^ 53" for k
  proof -
    have k: "round53 m = k" using that(1) by (auto simp: dbl_def split: if_splits)
    have m: "m < 2 ^ 53" using round53_big [of m] that(2) k by linarith
    then have "m = k" using k by (simp add: round53_small)
    moreover have "k < round53 n"
      using round53_big [of n] round53_small [of n] that(2) lt \<open>m = k\<close> by (cases "n < 2 ^ 53") auto
    ultimately show ?thesis using that(1) by (auto simp: dbl_def)
  qed
  then show ?thesis using dbl_mono [of m n] lt by (auto simp: parted_def)
qed

lemma parted_step:
  assumes p: "parted a b" and x: "x < 256" and y: "y < 256"
  shows "parted (dist_step a x) (dist_step b y)"
proof (cases b)
  case Infinity
  then have "dist_step b y = Infinity" by (simp add: dist_step_def)
  then show ?thesis by (auto simp: parted_def double_ok_def [of Infinity])
next
  case (Number m)
  with p obtain n where a: "a = Number n" by (cases a) (auto simp: parted_def)
  have le: "n \<le> m" using p a Number by (simp add: parted_def)
  have ok: "double_ok (Number n)" "double_ok (Number m)" using p a Number by (auto simp: parted_def)
  show ?thesis
  proof (cases "m * 256 < 2 ^ 1024")
    case False
    then have "dist_step b y = Infinity" using dist_step_Number [OF ok(2) y] Number by simp
    then show ?thesis by (auto simp: parted_def double_ok_def [of Infinity])
  next
    case fits: True
    then have fits': "n * 256 < 2 ^ 1024" using le by linarith
    show ?thesis
    proof (cases "n < 2 ^ 53")
      case True
      then have lt: "n < m" using p a Number by (simp add: parted_def)
      have "dist_step a x = dbl (n * 256 + x)" using dist_step_Number [OF ok(1) x] a fits' True by simp
      moreover have "dist_step b y = dbl (m * 256 + (if m < 2 ^ 53 then y else 0))"
        using dist_step_Number [OF ok(2) y] dist_step_Number [OF ok(2), of 0] Number fits
          round53_scaled [of m] ok(2)
        by (auto simp: dbl_def double_ok_def)
      ultimately show ?thesis using parted_dbl [of "n * 256 + x"] lt x by (cases "m < 2 ^ 53") auto
    next
      case big: False
      then have "dist_step a x = Number (n * 256)" "dist_step b y = Number (m * 256)"
        using dist_step_Number [OF ok(1) x] dist_step_Number [OF ok(2) y] a Number fits fits' le by auto
      then show ?thesis using le big dist_step_ok [of a x] dist_step_ok [of b y] by (auto simp: parted_def)
    qed
  qed
qed

lemma parted_start:
  assumes d: "double_ok d" and lt: "x < y" and y: "y < 256"
  shows "parted (dist_step d x) (dist_step d y)"
proof (cases d)
  case Infinity
  then show ?thesis by (simp add: dist_step_def parted_def double_ok_def)
next
  case (Number n)
  then have ok: "double_ok (Number n)" using d by simp
  have x: "x < 256" using lt y by linarith
  show ?thesis unfolding Number dist_step_Number [OF ok x] dist_step_Number [OF ok y]
    using parted_dbl [of "n * 256 + x" "n * 256 + y"] lt ok
      dist_step_ok [of "Number n" 0] dist_step_Number [OF ok, of 0]
    by (auto simp: parted_def double_ok_def [of Infinity])
qed

lemma parted_fold:
  "parted a b \<Longrightarrow> length xs = length ys \<Longrightarrow> (\<forall>x\<in>set xs. x < 256) \<Longrightarrow> (\<forall>y\<in>set ys. y < 256) \<Longrightarrow>
    parted (foldl dist_step a xs) (foldl dist_step b ys)"
  by (induction xs ys arbitrary: a b rule: list_induct2') (auto intro: parted_step)

lemma dist_fold_ok: "double_ok d \<Longrightarrow> double_ok (foldl dist_step d xs)"
  by (induction xs arbitrary: d) auto

lemma dist_fold_mono:
  assumes "x < y" "y < 256" "length xs = length ys" "\<forall>x\<in>set xs. x < 256" "\<forall>y\<in>set ys. y < 256"
  shows "foldl dist_step (Number 0) (ps @ x # xs) \<le> foldl dist_step (Number 0) (ps @ y # ys)"
proof -
  have "double_ok (Number 0)" by (simp add: double_ok_def round53_def)
  then have "parted (dist_step (foldl dist_step (Number 0) ps) x) (dist_step (foldl dist_step (Number 0) ps) y)"
    by (intro parted_start dist_fold_ok assms)
  then have "parted (foldl dist_step (Number 0) (ps @ x # xs)) (foldl dist_step (Number 0) (ps @ y # ys))"
    using parted_fold [OF _ assms(3-5)] by simp
  then show ?thesis by (simp add: parted_def)
qed

text \<open>Bytes that agree above bit \<open>m\<close> compare by bit \<open>m\<close>.\<close>

lemma unat_bit_split: "unat (w :: u8) div 2 ^ m = 2 * (unat w div 2 ^ Suc m) + of_bool (bit w m)"
proof -
  have "bit w m = bit (unat w) m" by (simp add: bit_unsigned_iff)
  then have "bit w m = odd (unat w div 2 ^ m)" by (simp add: bit_iff_odd [of "unat w"])
  moreover have "unat w div 2 ^ Suc m = unat w div 2 ^ m div 2"
    by (simp only: power_Suc mult.commute [of 2] div_mult2_eq)
  ultimately show ?thesis by (simp add: odd_two_times_div_two_succ)
qed

lemma drop_bits_eq: "(\<And>k. Suc m \<le> k \<Longrightarrow> bit (v :: u8) k = bit (w :: u8) k) \<Longrightarrow>
    unat v div 2 ^ Suc m = unat w div 2 ^ Suc m"
proof -
  assume eq: "\<And>k. Suc m \<le> k \<Longrightarrow> bit v k = bit w k"
  have "drop_bit (Suc m) v = drop_bit (Suc m) w"
    by (rule bit_eqI) (use eq in \<open>simp add: bit_drop_bit_eq\<close>)
  then have "unat (drop_bit (Suc m) v) = unat (drop_bit (Suc m) w)" by simp
  then have "drop_bit (Suc m) (unat v) = drop_bit (Suc m) (unat w)" by (simp only: unat_drop_bit_eq)
  then show ?thesis by (simp only: drop_bit_eq_div)
qed

lemma byte_less:
  assumes "\<And>k. Suc m \<le> k \<Longrightarrow> bit (v :: u8) k = bit (w :: u8) k" and "\<not> bit v m" and "bit w m"
  shows "unat v < unat w"
proof -
  have "unat v div 2 ^ m < unat w div 2 ^ m"
    using unat_bit_split [of v m] unat_bit_split [of w m] drop_bits_eq [of m v w] assms by simp
  then show ?thesis by (meson div_le_mono leD leI)
qed

lemma shares_bytes:
  assumes l: "length a = length b" and s: "shares n a b" and j: "j < n div 8" "j < length a"
  shows "a ! j = b ! j"
proof (rule bit_word_eqI)
  fix k assume "k < LENGTH(8)"
  define m where "m = 7 - k"
  with \<open>k < LENGTH(8)\<close> have m: "m < 8" "7 - m = k" by auto
  have "8 * j + m < n" using j m by linarith
  then have "determine_right a (8 * j + m) = determine_right b (8 * j + m)" using s by (simp add: shares_def)
  then show "bit (a ! j) k = bit (b ! j) k"
    using determine_right_bit [of "8 * j + m" a] determine_right_bit [of "8 * j + m" b] l j m by simp
qed

lemma shares_high_bits:
  assumes l: "length a = length b" and s: "shares n a b" and n: "n < 8 * length a"
    and k: "7 - n mod 8 < k"
  shows "bit (a ! (n div 8)) k = bit (b ! (n div 8)) k"
proof (cases "k < 8")
  case True
  define m where "m = 7 - k"
  with True have m: "m < 8" "7 - m = k" by auto
  have "m < n mod 8" using m k by arith
  then have lt: "8 * (n div 8) + m < n" using mult_div_mod_eq [of 8 n] by linarith
  then have "determine_right a (8 * (n div 8) + m) = determine_right b (8 * (n div 8) + m)"
    using s by (simp add: shares_def)
  moreover have "8 * (n div 8) + m < 8 * length a" using lt n by linarith
  ultimately show ?thesis
    using determine_right_bit [of "8 * (n div 8) + m" a] determine_right_bit [of "8 * (n div 8) + m" b] l m
    by simp
next
  case False
  then show ?thesis by (simp add: bit_word.rep_eq bit_take_bit_iff)
qed

lemma xor_byte_less:
  assumes len: "length a = length i" "length b = length i" and n: "n < 8 * length i"
    and s: "shares n a b" and a: "determine_right a n = determine_right i n"
    and b: "determine_right b n \<noteq> determine_right i n"
  shows "unat (a ! (n div 8) XOR i ! (n div 8)) < unat (b ! (n div 8) XOR i ! (n div 8))"
proof (rule byte_less [where m = "7 - n mod 8"])
  note d = determine_right_bit [of n a] determine_right_bit [of n b] determine_right_bit [of n i]
  show "\<not> bit (a ! (n div 8) XOR i ! (n div 8)) (7 - n mod 8)"
    "bit (b ! (n div 8) XOR i ! (n div 8)) (7 - n mod 8)"
    using d a b n len by (auto simp: bit_xor_iff)
  show "bit (a ! (n div 8) XOR i ! (n div 8)) k = bit (b ! (n div 8) XOR i ! (n div 8)) k"
    if "Suc (7 - n mod 8) \<le> k" for k
    using shares_high_bits [OF _ s, of k] that len n by (simp add: bit_xor_iff)
qed

lemma default_distance_ranks:
  assumes "kb_distance cfg = kb_default_distance"
  shows "ranks cfg"
  unfolding ranks_def assms
proof (intro allI impI)
  fix a b i :: "u8 list" and n :: nat
  let ?L = "length (kb_localNodeId cfg)" and ?p = "n div 8"
  assume len: "length a = ?L" "length b = ?L" "length i = ?L" and n: "n < 8 * ?L"
    and s: "shares n a b" and d: "determine_right a n = determine_right i n"
      "determine_right b n \<noteq> determine_right i n"
  let ?x = "\<lambda>u j. unat (u ! j XOR i ! j)"
  have p: "?p < ?L" using n by (simp add: div_less_iff_less_mult mult.commute)
  then have upt: "[0..<?L] = [0..<?p] @ ?p # [Suc ?p..<?L]"
    by (metis le_add_diff_inverse less_imp_le_nat upt_add_eq_append upt_conv_Cons zero_le)
  have dist: "kb_default_distance u i = foldl dist_step (Number 0)
      (map (?x u) [0..<?p] @ ?x u ?p # map (?x u) [Suc ?p..<?L])" if "length u = ?L" for u
    using that len by (simp add: kb_default_distance_def upt)
  have same: "map (?x a) [0..<?p] = map (?x b) [0..<?p]"
    using shares_bytes [OF _ s] len p by auto
  have "?x a ?p < ?x b ?p" by (rule xor_byte_less) (use len n s d in auto)
  then show "kb_default_distance a i \<le> kb_default_distance b i"
    unfolding dist [OF len(1)] dist [OF len(2)] same
    by (rule dist_fold_mono) (simp_all add: unat_u8_less)
qed

section \<open>The order of the visit\<close>

text \<open>The buckets in the order the loop reaches them, and what it gathers of them.\<close>

fun visit :: "u8 list \<Rightarrow> nat \<Rightarrow> kb_node \<Rightarrow> contact list list" where
  "visit i n (Bucket cs ns) = [cs]"
| "visit i n (Inner l r) =
    (if determine_right i n then visit i (Suc n) r @ visit i (Suc n) l
     else visit i (Suc n) l @ visit i (Suc n) r)"

fun gather :: "int option \<Rightarrow> contact list \<Rightarrow> contact list list \<Rightarrow> contact list" where
  "gather k acc [] = acc"
| "gather k acc (cs # css) = (if wants_more (length acc) k then gather k (acc @ cs) css else acc)"

lemma gather_enough: "\<not> wants_more (length acc) k \<Longrightarrow> gather k acc css = acc"
  by (cases css) auto

lemma closest_loop_buckets:
  "(\<forall>b\<in>set bs. \<exists>cs ns. b = Bucket cs ns) \<Longrightarrow>
    closest_loop i k bs n acc = gather k acc (map contacts bs)"
  by (induction bs arbitrary: acc) (auto simp: gather_enough)

lemma visit_fork:
  "visit i n (fork cfg n t cs) = (if determine_right i n = determine_right (kb_localNodeId cfg) n
    then visit i (Suc n) t @ [cs] else cs # visit i (Suc n) t)"
  by (auto simp: fork_def)

lemma closest_loop_fork:
  "wants_more (length acc) k \<Longrightarrow> closest_loop i k (fork cfg n t cs # bs) n acc =
    (if determine_right i n = determine_right (kb_localNodeId cfg) n
     then closest_loop i k (t # Bucket cs True # bs) (Suc n) acc
     else closest_loop i k (Bucket cs True # t # bs) (Suc n) acc)"
  by (auto simp: fork_def)

lemma closest_loop_visit:
  assumes "kb_ok cfg n t" and "\<forall>b\<in>set bs. \<exists>cs ns. b = Bucket cs ns"
  shows "closest_loop i k (t # bs) n acc = gather k acc (visit i n t @ map contacts bs)"
  using assms
proof (induction arbitrary: bs acc rule: kb_ok_induct)
  case (bucket n cs)
  then show ?case using closest_loop_buckets [OF bucket(2)] by simp
next
  case (spine n t cs)
  show ?case
  proof (cases "wants_more (length acc) k")
    case more: True
    show ?thesis
    proof (cases "determine_right i n = determine_right (kb_localNodeId cfg) n")
      case True
      have "\<forall>b\<in>set (Bucket cs True # bs). \<exists>cs ns. b = Bucket cs ns"
        using spine.prems by (auto intro: exI [of _ True])
      from spine.IH [OF this] show ?thesis using True more
        by (simp add: closest_loop_fork visit_fork)
    next
      case False
      show ?thesis
      proof (cases "wants_more (length (acc @ cs)) k")
        case True
        then show ?thesis using False spine.IH [OF spine.prems] more
          by (simp add: closest_loop_fork visit_fork)
      next
        case full: False
        have "closest_loop i k (t # bs) (Suc n) (acc @ cs) = acc @ cs"
          using full by (cases t) auto
        then show ?thesis using False full more gather_enough [OF full]
          by (simp add: closest_loop_fork visit_fork)
      qed
    qed
  next
    case False
    then show ?thesis by (cases "fork cfg n t cs") (auto simp: gather_enough)
  qed
qed

lemma set_visit: "set (concat (visit i n t)) = set (kb_all t)"
  by (induction t arbitrary: n) auto

lemma mset_visit: "mset (concat (visit i n t)) = mset (kb_all t)"
  by (induction t arbitrary: n) auto

text \<open>Contacts on the target's side of an inner node are at most as far as those on the
  other side, so the visit goes outwards.\<close>

abbreviation dist_to :: "kb_config \<Rightarrow> u8 list \<Rightarrow> contact \<Rightarrow> dnum" where
  "dist_to cfg i c \<equiv> kb_distance cfg (ct_id c) i"

lemma sides_ranked:
  assumes r: "ranks cfg" and len: "length i = length (kb_localNodeId cfg)"
    and a: "near_ids cfg n (ct_id a)" "length (ct_id a) = length (kb_localNodeId cfg)"
    and b: "near_ids cfg n (ct_id b)" "length (ct_id b) = length (kb_localNodeId cfg)"
    and d: "determine_right (ct_id a) n = determine_right i n" "determine_right (ct_id b) n \<noteq> determine_right i n"
  shows "dist_to cfg i a \<le> dist_to cfg i b"
proof -
  have n: "n < 8 * length (kb_localNodeId cfg)"
  proof (rule ccontr)
    assume "\<not> ?thesis"
    then have "\<not> determine_right (ct_id b) n" "\<not> determine_right i n"
      using b(2) len by (auto intro!: determine_right_past)
    then show False using d(2) by simp
  qed
  have "shares n (ct_id a) (ct_id b)" using a(1) b(1) by (auto simp: near_ids_def shares_def)
  then show ?thesis using r n len a(2) b(2) d unfolding ranks_def by blast
qed

lemma visit_outwards:
  assumes r: "ranks cfg" and len: "length i = length (kb_localNodeId cfg)" and ok: "kb_ok cfg n t"
  shows "sorted_wrt (\<lambda>xs ys. \<forall>x\<in>set xs. \<forall>y\<in>set ys. dist_to cfg i x \<le> dist_to cfg i y) (visit i n t)"
  using ok
proof (induction rule: kb_ok_induct)
  case (spine n t cs)
  let ?b = "determine_right (kb_localNodeId cfg) n"
  have far: "near_ids cfg n (ct_id c) \<and> length (ct_id c) = length (kb_localNodeId cfg) \<and>
      determine_right (ct_id c) n \<noteq> ?b" if "c \<in> set cs" for c
    using spine(1) that by (auto simp: bucket_ok_def far_ids_def near_ids_def)
  have near: "near_ids cfg n (ct_id c) \<and> length (ct_id c) = length (kb_localNodeId cfg) \<and>
      determine_right (ct_id c) n = ?b" if "c \<in> set xs" "xs \<in> set (visit i (Suc n) t)" for c xs
  proof -
    have "c \<in> set (kb_all t)" using that set_visit [of i "Suc n" t] by auto
    then show ?thesis using kb_all_near [OF spine(2)] by (auto simp: near_ids_def shares_Suc)
  qed
  show ?case
  proof (cases "determine_right i n = ?b")
    case True
    have "dist_to cfg i x \<le> dist_to cfg i y" if "x \<in> set xs" "xs \<in> set (visit i (Suc n) t)" "y \<in> set cs" for x y xs
      by (rule sides_ranked [OF r len]) (use near [OF that(1,2)] far [OF that(3)] True in auto)
    then show ?thesis using spine.IH True by (auto simp: visit_fork sorted_wrt_append)
  next
    case False
    have "dist_to cfg i x \<le> dist_to cfg i y" if "y \<in> set xs" "xs \<in> set (visit i (Suc n) t)" "x \<in> set cs" for x y xs
      by (rule sides_ranked [OF r len]) (use near [OF that(1,2)] far [OF that(3)] False in auto)
    then show ?thesis using spine.IH False by (auto simp: visit_fork)
  qed
qed simp

lemma gather_prefix:
  "\<exists>m. gather k acc css = acc @ concat (take m css) \<and>
    (drop m css = [] \<or> \<not> wants_more (length (gather k acc css)) k)"
proof (induction css arbitrary: acc)
  case Nil
  then show ?case by simp
next
  case (Cons cs css)
  show ?case
  proof (cases "wants_more (length acc) k")
    case True
    obtain m where "gather k (acc @ cs) css = (acc @ cs) @ concat (take m css)"
      "drop m css = [] \<or> \<not> wants_more (length (gather k (acc @ cs) css)) k"
      using Cons [of "acc @ cs"] by blast
    then show ?thesis using True by (intro exI [of _ "Suc m"]) simp
  next
    case False
    then show ?thesis by (intro exI [of _ "0::nat"]) simp
  qed
qed

lemma sorted_append_key:
  "(\<forall>x\<in>set xs. \<forall>y\<in>set ys. f x \<le> f y) \<Longrightarrow> map f (sort_key f (xs @ ys)) = map f (sort_key f xs) @ map f (sort_key f ys)"
proof -
  assume le: "\<forall>x\<in>set xs. \<forall>y\<in>set ys. f x \<le> f y"
  have "sorted (map f (sort_key f xs) @ map f (sort_key f ys))"
    using le by (auto simp: sorted_append)
  moreover have "sorted (map f (sort_key f (xs @ ys)))" by simp
  moreover have "mset (map f (sort_key f (xs @ ys))) = mset (map f (sort_key f xs) @ map f (sort_key f ys))"
    by simp
  ultimately show ?thesis by (metis properties_for_sort)
qed

lemma take_n_append: "\<not> wants_more (length xs) k \<Longrightarrow> take_n k (xs @ ys) = take_n k xs"
  by (auto simp: wants_more_def take_n_def split: option.splits)

lemma map_take_n: "map f (take_n k xs) = take_n k (map f xs)"
  by (auto simp: take_n_def take_map split: option.split)

lemma closest_distances:
  assumes r: "ranks cfg" and len: "length i = length (kb_localNodeId cfg)" and ok: "kb_ok cfg 0 t"
  shows "map (dist_to cfg i) (take_n k (sort_key (dist_to cfg i) (closest_loop i k [t] 0 []))) =
    take_n k (sort (map (dist_to cfg i) (kb_toArray t)))"
proof -
  let ?d = "dist_to cfg i"
  let ?v = "visit i 0 t"
  have "closest_loop i k [t] 0 [] = gather k [] ?v"
    using closest_loop_visit [OF ok, of "[]" i k "[]"] by simp
  moreover obtain m where m: "gather k [] ?v = concat (take m ?v)"
    "drop m ?v = [] \<or> \<not> wants_more (length (gather k [] ?v)) k"
    using gather_prefix [of k "[]" ?v] by auto
  ultimately have loop: "closest_loop i k [t] 0 [] = concat (take m ?v)" by simp
  let ?xs = "concat (take m ?v)" and ?ys = "concat (drop m ?v)"
  have all: "mset (?xs @ ?ys) = mset (kb_all t)"
    using mset_visit [of i 0 t] by (metis append_take_drop_id concat_append)
  have "sorted_wrt (\<lambda>xs ys. \<forall>x\<in>set xs. \<forall>y\<in>set ys. ?d x \<le> ?d y) (take m ?v @ drop m ?v)"
    using visit_outwards [OF r len ok] by simp
  then have le: "\<forall>x\<in>set ?xs. \<forall>y\<in>set ?ys. ?d x \<le> ?d y"
    unfolding sorted_wrt_append by auto
  have "sort (map ?d (kb_toArray t)) = map ?d (sort_key ?d (?xs @ ?ys))"
  proof (rule properties_for_sort)
    show "mset (map ?d (sort_key ?d (?xs @ ?ys))) = mset (map ?d (kb_toArray t))"
      using arg_cong [OF all, of "image_mset ?d"] by (simp add: kb_toArray_all)
  qed simp
  also have "\<dots> = map ?d (sort_key ?d ?xs) @ map ?d (sort_key ?d ?ys)"
    by (rule sorted_append_key [OF le])
  finally have "take_n k (sort (map ?d (kb_toArray t))) = take_n k (map ?d (sort_key ?d ?xs))"
    using m take_n_append [of "map ?d (sort_key ?d ?xs)" k "map ?d (sort_key ?d ?ys)"] by auto
  then show ?thesis by (simp add: loop map_take_n)
qed

lemma closest_loop_sub:
  assumes "kb_ok cfg 0 t"
  shows "mset (closest_loop i k [t] 0 []) \<subseteq># mset (kb_toArray t)"
proof -
  obtain m where m: "gather k [] (visit i 0 t) = concat (take m (visit i 0 t))"
    using gather_prefix [of k "[]" "visit i 0 t"] by auto
  have "mset (concat (take m (visit i 0 t))) \<subseteq># mset (concat (visit i 0 t))"
    by (metis append_take_drop_id concat_append mset_append mset_subset_eq_add_left)
  then show ?thesis using closest_loop_visit [OF assms, of "[]" i k "[]"] m
    by (simp add: kb_toArray_all mset_visit)
qed

text \<open>C2: \<open>closest\<close> stops its walk early and still returns the nearest contacts. On a
  well-formed table with the default distance it returns, for every \<open>n\<close> and every target of
  the table's length, contacts of the table, each once, whose distances are the \<open>n\<close> smallest
  distances of all contacts in order; it throws exactly when \<open>n\<close> is not positive. This holds
  for identifiers of every length, although the distance is rounded to a double.\<close>

theorem kbucket_closest:
  assumes "kb_distance cfg = kb_default_distance" and "kb_ok cfg 0 t"
    and "length i = length (kb_localNodeId cfg)"
  shows "if \<exists>k. n = Some k \<and> k \<le> 0 then kb_closest cfg i n t = throw ''n is not positive number''
    else \<exists>cs. kb_closest cfg i n t = Inr cs \<and> mset cs \<subseteq># mset (kb_toArray t) \<and>
      map (\<lambda>c. kb_default_distance (ct_id c) i) cs =
      take_n n (sort (map (\<lambda>c. kb_default_distance (ct_id c) i) (kb_toArray t)))"
proof (cases "\<exists>k. n = Some k \<and> k \<le> 0")
  case True
  then show ?thesis by (auto simp: kb_closest_def)
next
  case False
  let ?cs = "take_n n (sort_key (dist_to cfg i) (closest_loop i n [t] 0 []))"
  have "mset (take_n n xs) \<subseteq># mset xs" for xs :: "contact list"
    by (auto simp: take_n_def split: option.split) (metis append_take_drop_id mset_append mset_subset_eq_add_left)
  then have "mset ?cs \<subseteq># mset (kb_toArray t)"
    using closest_loop_sub [OF assms(2), of i n] by (metis mset_sort subset_mset.trans)
  moreover have "kb_closest cfg i n t = Inr ?cs" using False by (auto simp: kb_closest_def split: option.splits)
  ultimately show ?thesis
    using False closest_distances [OF default_distance_ranks [OF assms(1)] assms(3,2), of n]
    unfolding assms(1) by auto
qed

theorem kbucket_closest_witness:
  "\<exists>cs. kb_closest demo_config [7] (Some 2) (Inner (Bucket [demo_contact 3] False) (Bucket [demo_contact 200] True)) = Inr cs \<and>
    map (\<lambda>c. kb_default_distance (ct_id c) [7]) cs = [Number 4, Number 207]"
proof -
  let ?t = "Inner (Bucket [demo_contact 3] False) (Bucket [demo_contact 200] True)"
  have ok: "kb_ok demo_config 0 ?t" by code_simp
  have "take_n (Some 2) (sort (map (\<lambda>c. kb_default_distance (ct_id c) [7]) (kb_toArray ?t))) = [Number 4, Number 207]"
    by (simp add: kb_default_distance_def dist_step_def dbl_def round53_def kb_toArray_def
        demo_contact_def take_n_def)
  moreover have "kb_distance demo_config = kb_default_distance" "length [7::u8] = length (kb_localNodeId demo_config)"
    by (simp_all add: demo_config_def)
  ultimately show ?thesis using kbucket_closest [of demo_config ?t "[7]" "Some 2", OF _ ok] by auto
qed

end
