(* ===== verification/RoutingTable.thy ===== *)
theory RoutingTable
  imports KClosest Bytes "HOL-Library.AList"
begin

text \<open>
  The routing table over the k-bucket (\<open>kademlia/src/routing-table.ts\<close>).

  The table keeps a map from lookup keys (the hexadecimal identifier, \<open>address:port\<close>) to
  contacts beside the tree, and updates it in its listeners of the tree's events, which run
  before the call that emits them returns. The locale \<open>contact_table\<close> states what it relies
  on from the tree; under it the map and the tree always hold the same contacts
  (\<open>index_ok\<close>). The interpretation \<open>kad\<close> discharges the laws for the model of the k-bucket.
\<close>

section \<open>Lookup keys\<close>

datatype peer_ref = RefId "u8 list" | RefKey jsstr | RefPeer peer_info

text \<open>A number in a template string.\<close>

fun show_dec :: "nat \<Rightarrow> jsstr" where
  "show_dec n = (if n < 10 then [48 + n] else show_dec (n div 10) @ [48 + n mod 10])"

declare show_dec.simps [simp del]

definition end_key :: "endpoint \<Rightarrow> jsstr list" where
  "end_key e = (case (ep_address e, ep_tcpPort e) of
     (Some a, Some p) \<Rightarrow> [a @ 58 # show_dec p] | _ \<Rightarrow> [])"

definition getKeys :: "lib \<Rightarrow> peer_ref \<Rightarrow> jsstr list" where
  "getKeys L obj = (case obj of
     RefId i \<Rightarrow> [bytesToUnprefixedHex L i]
   | RefKey k \<Rightarrow> [k]
   | RefPeer p \<Rightarrow> (case pi_id p of None \<Rightarrow> [] | Some i \<Rightarrow> [bytesToUnprefixedHex L i]) @ end_key (pi_end p))"

definition peer_of :: "contact \<Rightarrow> peer_info" where
  "peer_of c = \<lparr>pi_id = Some (ct_id c), pi_end = ct_end c\<rparr>"

abbreviation contact_keys :: "lib \<Rightarrow> contact \<Rightarrow> jsstr list" where
  "contact_keys L c \<equiv> getKeys L (RefPeer (peer_of c))"

section \<open>The table\<close>

record routing_table =
  rt_peers :: "(jsstr \<times> contact) list"
  rt_kbucket :: kb_node

definition routing_config :: "u8 list \<Rightarrow> nat option \<Rightarrow> nat option \<Rightarrow> kb_config" where
  "routing_config localNodeId k concurrency = \<lparr>kb_localNodeId = localNodeId,
     kb_numberOfNodesPerKBucket = (case k of None \<Rightarrow> 16 | Some n \<Rightarrow> n),
     kb_numberOfNodesToPing = (case concurrency of None \<Rightarrow> 3 | Some n \<Rightarrow> n),
     kb_distance = kb_default_distance, kb_arbiter = arbiter\<rparr>"

definition new_table :: routing_table where
  "new_table = \<lparr>rt_peers = [], rt_kbucket = createNode\<rparr>"

text \<open>The listeners of the tree's events.\<close>

definition on_event :: "lib \<Rightarrow> kb_event \<Rightarrow> (jsstr \<times> contact) list \<Rightarrow> (jsstr \<times> contact) list" where
  "on_event L e peers = (case e of
     Added c \<Rightarrow> fold (\<lambda>k. AList.update k c) (contact_keys L c) peers
   | Removed c \<Rightarrow> fold AList.delete (contact_keys L c) peers
   | _ \<Rightarrow> peers)"

definition rt_add :: "lib \<Rightarrow> kb_config \<Rightarrow> peer_info \<Rightarrow> routing_table \<Rightarrow> (routing_table \<times> kb_event list) option res" where
  "rt_add L cfg p s =
    (if list_ex (\<lambda>k. map_of (rt_peers s) k \<noteq> None) (getKeys L (RefPeer p)) then Inr (Some (s, []))
     else bindE (kb_add cfg p (rt_kbucket s)) (\<lambda>r. Inr (case r of
       None \<Rightarrow> None
     | Some (t, es) \<Rightarrow>
         Some (\<lparr>rt_peers = fold (on_event L) es (rt_peers s), rt_kbucket = t\<rparr>, es))))"

fun first_peer :: "(jsstr \<times> contact) list \<Rightarrow> jsstr list \<Rightarrow> contact option" where
  "first_peer peers [] = None"
| "first_peer peers (k # ks) = (case map_of peers k of Some c \<Rightarrow> Some c | None \<Rightarrow> first_peer peers ks)"

definition rt_get :: "lib \<Rightarrow> peer_ref \<Rightarrow> routing_table \<Rightarrow> contact option" where
  "rt_get L obj s = first_peer (rt_peers s) (getKeys L obj)"

definition rt_remove :: "lib \<Rightarrow> peer_ref \<Rightarrow> routing_table \<Rightarrow> routing_table \<times> kb_event list" where
  "rt_remove L obj s = (case rt_get L obj s of
     None \<Rightarrow> (s, [])
   | Some c \<Rightarrow> (case kb_remove (ct_id c) (rt_kbucket s) of
       (t, es) \<Rightarrow> (\<lparr>rt_peers = fold (on_event L) es (rt_peers s), rt_kbucket = t\<rparr>, es)))"

definition rt_getAll :: "routing_table \<Rightarrow> contact list" where
  "rt_getAll s = kb_toArray (rt_kbucket s)"

definition rt_closest :: "kb_config \<Rightarrow> u8 list \<Rightarrow> int option option \<Rightarrow> routing_table \<Rightarrow> contact list res" where
  "rt_closest cfg i n s = kb_closest cfg i (case n of None \<Rightarrow> Some 16 | Some m \<Rightarrow> m) (rt_kbucket s)"

definition rt_has :: "lib \<Rightarrow> peer_ref \<Rightarrow> routing_table \<Rightarrow> bool" where
  "rt_has L obj s = (rt_get L obj s \<noteq> None)"

definition rt_count :: "routing_table \<Rightarrow> nat" where
  "rt_count s = kb_count (rt_kbucket s)"

definition rt_dump :: "lib \<Rightarrow> kb_config \<Rightarrow> routing_table \<Rightarrow> jsstr \<times> nat \<times> nat" where
  "rt_dump L cfg s = (bytesToUnprefixedHex L (kb_localNodeId cfg), kb_count (rt_kbucket s), length (rt_peers s))"

definition rt_getNonEmptyBucketCount :: "routing_table \<Rightarrow> nat" where
  "rt_getNonEmptyBucketCount s = (if rt_count s > 0 then 1 else 0)"

text \<open>The reported peers are copies without the clock.\<close>

definition rt_getBucketStructure :: "kb_config \<Rightarrow> bool \<Rightarrow> routing_table \<Rightarrow> bucket_info list" where
  "rt_getBucketStructure cfg includePeers s =
    map (\<lambda>b. b\<lparr>bi_peers := if includePeers
        then map (\<lambda>c. c\<lparr>ct_end := (ct_end c)\<lparr>ep_vectorClock := None\<rparr>\<rparr>) (bi_peers b) else []\<rparr>)
      (kb_getBucketStructure cfg includePeers (rt_kbucket s))"

section \<open>What the table relies on\<close>

text \<open>The key map lists exactly the contacts of the tree under exactly their keys. In
  particular no two contacts share a key.\<close>

definition index_ok :: "lib \<Rightarrow> (jsstr \<times> contact) list \<Rightarrow> contact set \<Rightarrow> bool" where
  "index_ok L peers M \<longleftrightarrow> distinct (map fst peers) \<and>
    (\<forall>k c. map_of peers k = Some c \<longleftrightarrow> c \<in> M \<and> k \<in> set (contact_keys L c))"

locale contact_table =
  fixes ok :: "'s \<Rightarrow> bool"
    and fits :: "u8 list \<Rightarrow> bool"
    and members :: "'s \<Rightarrow> contact set"
    and insert_contact :: "contact \<Rightarrow> 's \<Rightarrow> ('s \<times> kb_event list) option"
    and remove_contact :: "u8 list \<Rightarrow> 's \<Rightarrow> 's \<times> kb_event list"
  assumes insert_new: "ok s \<Longrightarrow> fits (ct_id c) \<Longrightarrow> ct_id c \<notin> ct_id ` members s \<Longrightarrow>
      \<exists>s' es. insert_contact c s = Some (s', es) \<and> ok s' \<and>
        (es = [Added c] \<and> members s' = insert c (members s) \<or>
         (\<exists>old. es = [Ping old c] \<and> set old \<subseteq> members s) \<and> members s' = members s)"
    and remove_member: "ok s \<Longrightarrow> c \<in> members s \<Longrightarrow>
      \<exists>s'. remove_contact (ct_id c) s = (s', [Removed c]) \<and> ok s' \<and> members s' = members s - {c}"
begin

lemma id_key: "bytesToUnprefixedHex L (ct_id c) \<in> set (contact_keys L c)"
  by (simp add: getKeys_def peer_of_def)

lemma update_keys:
  "map_of (fold (\<lambda>k. AList.update k c) ks peers) k = (if k \<in> set ks then Some c else map_of peers k)"
  by (induction ks arbitrary: peers) (auto simp: update_conv')

lemma delete_keys:
  "map_of (fold AList.delete ks peers) k = (if k \<in> set ks then None else map_of peers k)"
  by (induction ks arbitrary: peers) (auto simp: delete_conv')

lemma distinct_update_keys:
  "distinct (map fst peers) \<Longrightarrow> distinct (map fst (fold (\<lambda>k. AList.update k c) ks peers))"
  by (induction ks arbitrary: peers) (auto simp: distinct_update)

lemma distinct_delete_keys:
  "distinct (map fst peers) \<Longrightarrow> distinct (map fst (fold AList.delete ks peers))"
  by (induction ks arbitrary: peers) (auto simp: distinct_delete)

text \<open>A contact none of whose keys is taken can be added, and the index follows.\<close>

lemma add_follows:
  assumes ok: "ok s" and ix: "index_ok L peers (members s)" and fits: "fits (ct_id c)"
    and free: "\<forall>k\<in>set (contact_keys L c). map_of peers k = None"
  shows "\<exists>s' es. insert_contact c s = Some (s', es) \<and> ok s' \<and>
    index_ok L (fold (on_event L) es peers) (members s') \<and>
    (es = [Added c] \<and> members s' = insert c (members s) \<or>
     (\<exists>old. es = [Ping old c] \<and> set old \<subseteq> members s) \<and> members s' = members s)"
proof -
  have new: "ct_id c \<notin> ct_id ` members s"
  proof
    assume "ct_id c \<in> ct_id ` members s"
    then obtain d where d: "d \<in> members s" "ct_id d = ct_id c" by auto
    let ?k = "bytesToUnprefixedHex L (ct_id c)"
    have "?k \<in> set (contact_keys L d)" using id_key [of L d] d(2) by simp
    then have "map_of peers ?k = Some d" using ix d(1) by (simp add: index_ok_def)
    then show False using free id_key by fastforce
  qed
  have "index_ok L (on_event L (Added c) peers) (insert c (members s))"
    using ix free unfolding index_ok_def
    by (simp add: on_event_def update_keys distinct_update_keys) (metis option.distinct(1))
  then show ?thesis using insert_new [OF ok fits new] ix by (fastforce simp: on_event_def)
qed

lemma remove_follows:
  assumes ok: "ok s" and ix: "index_ok L peers (members s)" and c: "c \<in> members s"
  shows "\<exists>s'. remove_contact (ct_id c) s = (s', [Removed c]) \<and> ok s' \<and>
    index_ok L (fold (on_event L) [Removed c] peers) (members s') \<and> members s' = members s - {c}"
proof -
  have "index_ok L (on_event L (Removed c) peers) (members s - {c})"
    using ix c unfolding index_ok_def
    by (simp add: on_event_def delete_keys distinct_delete_keys) (metis option.inject option.distinct(1))
  then show ?thesis using remove_member [OF ok c] by auto
qed

lemma lookup_member:
  "index_ok L peers (members s) \<Longrightarrow> first_peer peers ks = Some c \<Longrightarrow>
    c \<in> members s \<and> (\<exists>k\<in>set ks. k \<in> set (contact_keys L c))"
  by (induction ks) (auto simp: index_ok_def split: option.splits)

lemma lookup_none:
  "index_ok L peers (members s) \<Longrightarrow> first_peer peers ks = None \<Longrightarrow>
    c \<in> members s \<Longrightarrow> set ks \<inter> set (contact_keys L c) = {}"
  by (induction ks) (fastforce simp: index_ok_def split: option.splits)+

end

section \<open>The k-bucket is such a table\<close>

definition kb_members :: "kb_node \<Rightarrow> contact set" where
  "kb_members t = set (kb_all t)"

lemma members_classes: "kb_members t = (\<Union>m. set (kb_class cfg t m))"
  by (auto simp: kb_members_def kb_class_def)

lemma members_fun_upd: "(\<Union>m. set ((T(q := xs)) m)) = set xs \<union> (\<Union>m\<in>- {q}. set (T m))"
  by (auto split: if_splits)

lemma with_id_member:
  assumes ok: "kb_ok cfg 0 t"
  shows "with_id i (kb_class cfg t (cpl cfg i)) = Some c \<longleftrightarrow> c \<in> kb_members t \<and> ct_id c = i"
proof
  show "with_id i (kb_class cfg t (cpl cfg i)) = Some c \<Longrightarrow> c \<in> kb_members t \<and> ct_id c = i"
    using with_id_Some by (fastforce simp: kb_class_def kb_members_def)
  assume c: "c \<in> kb_members t \<and> ct_id c = i"
  then have in_class: "c \<in> set (kb_class cfg t (cpl cfg i))" by (simp add: kb_class_def kb_members_def)
  then obtain d where d: "with_id i (kb_class cfg t (cpl cfg i)) = Some d"
    using c with_id_None [of i "kb_class cfg t (cpl cfg i)"] by fastforce
  then have "d \<in> kb_members t" "ct_id d = i" using with_id_Some by (fastforce simp: kb_class_def kb_members_def)+
  then have "d = c" using c kb_all_distinct [OF ok] by (auto simp: kb_members_def distinct_map inj_on_def)
  then show "with_id i (kb_class cfg t (cpl cfg i)) = Some c" using d by simp
qed

lemma kb_insert_new:
  assumes "kb_options cfg" and ok: "kb_ok cfg 0 t" and len: "length (ct_id c) = length (kb_localNodeId cfg)"
    and new: "ct_id c \<notin> ct_id ` kb_members t"
  shows "\<exists>t' es. kb_insert cfg c t = Some (t', es) \<and> kb_ok cfg 0 t' \<and>
    (es = [Added c] \<and> kb_members t' = insert c (kb_members t) \<or>
     (\<exists>old. es = [Ping old c] \<and> set old \<subseteq> kb_members t) \<and> kb_members t' = kb_members t)"
proof -
  obtain t' es where i: "kb_insert cfg c t = Some (t', es)" "kb_ok cfg 0 t'"
    "(kb_class cfg t', es) = table_add cfg c (kb_class cfg t)"
    using kb_insert_table [OF assms(1) ok len] by blast
  let ?q = "cpl cfg (ct_id c)"
  have none: "with_id (ct_id c) (kb_class cfg t ?q) = None"
    using with_id_member [OF ok, of "ct_id c"] new by (metis imageI option.exhaust)
  show ?thesis
  proof (cases "length (kb_class cfg t ?q) < kb_numberOfNodesPerKBucket cfg")
    case True
    then have e: "es = [Added c]" "kb_class cfg t' = (kb_class cfg t)(?q := kb_class cfg t ?q @ [c])"
      using i(3) none by (simp_all add: table_add_def Let_def)
    have "kb_members t' = insert c (kb_members t)"
      unfolding members_classes [of t' cfg] members_classes [of t cfg] e(2) by (auto split: if_splits)
    then show ?thesis using i e by blast
  next
    case False
    then have e: "es = [Ping (take (kb_numberOfNodesToPing cfg) (kb_class cfg t ?q)) c]"
      "kb_class cfg t' = kb_class cfg t"
      using i(3) none by (simp_all add: table_add_def Let_def)
    have "kb_members t' = kb_members t"
      unfolding members_classes [of t' cfg] members_classes [of t cfg] e(2) ..
    moreover have "set (take (kb_numberOfNodesToPing cfg) (kb_class cfg t ?q)) \<subseteq> kb_members t"
      using set_take_subset by (fastforce simp: kb_class_def kb_members_def)
    ultimately show ?thesis using i(1,2) e(1) by blast
  qed
qed

lemma kb_remove_member:
  assumes ok: "kb_ok cfg 0 t" and c: "c \<in> kb_members t"
  shows "\<exists>t'. kb_remove (ct_id c) t = (t', [Removed c]) \<and> kb_ok cfg 0 t' \<and> kb_members t' = kb_members t - {c}"
proof -
  have len: "length (ct_id c) = length (kb_localNodeId cfg)"
    using kb_all_near [OF ok] c by (auto simp: kb_members_def)
  let ?q = "cpl cfg (ct_id c)"
  obtain t' es where r: "kb_remove (ct_id c) t = (t', es)" by (cases "kb_remove (ct_id c) t")
  have t: "kb_ok cfg 0 t'" "(kb_class cfg t', es) = table_remove cfg (ct_id c) (kb_class cfg t)"
    using kb_remove_table [OF ok len] r by simp_all
  have "table_get cfg (ct_id c) (kb_class cfg t) = Some c"
    using with_id_member [OF ok, of "ct_id c" c] c by (simp add: table_get_def)
  then have e: "es = [Removed c]"
    "kb_class cfg t' = (kb_class cfg t)(?q := filter (\<lambda>x. ct_id x \<noteq> ct_id c) (kb_class cfg t ?q))"
    using t(2) by (simp_all add: table_remove_def)
  have same: "ct_id x = ct_id c \<longleftrightarrow> x = c" if "x \<in> kb_members t" for x
    using kb_all_distinct [OF ok] c that by (auto simp: kb_members_def distinct_map inj_on_def)
  have "kb_members t' = kb_members t - {c}"
  proof (rule set_eqI)
    fix x
    have "x \<in> kb_members t' \<longleftrightarrow> x \<in> kb_members t \<and> ct_id x \<noteq> ct_id c"
      unfolding members_classes [of t' cfg] e(2) by (auto simp: kb_class_def kb_members_def split: if_splits)
    then show "x \<in> kb_members t' \<longleftrightarrow> x \<in> kb_members t - {c}" using same by auto
  qed
  then show ?thesis using r t(1) e(1) by blast
qed

text \<open>A configuration the routing table makes has the default distance and arbiter.\<close>

definition kad_config :: "u8 list \<Rightarrow> nat \<Rightarrow> nat option \<Rightarrow> kb_config" where
  "kad_config i k a = routing_config i (Some (Suc k)) a"

lemma kad_options: "kb_options (kad_config i k a)"
  by (simp add: kb_options_def kad_config_def routing_config_def arbiter_def)

interpretation kad: contact_table "kb_ok (kad_config i k a) 0" "\<lambda>j. length j = length i" kb_members
  "kb_insert (kad_config i k a)" kb_remove
proof
  fix t and c :: contact
  assume "kb_ok (kad_config i k a) 0 t" "length (ct_id c) = length i" "ct_id c \<notin> ct_id ` kb_members t"
  then show "\<exists>t' es. kb_insert (kad_config i k a) c t = Some (t', es) \<and> kb_ok (kad_config i k a) 0 t' \<and>
      (es = [Added c] \<and> kb_members t' = insert c (kb_members t) \<or>
       (\<exists>old. es = [Ping old c] \<and> set old \<subseteq> kb_members t) \<and> kb_members t' = kb_members t)"
    using kb_insert_new [OF kad_options] by (simp add: kad_config_def routing_config_def)
next
  fix t and c :: contact
  assume "kb_ok (kad_config i k a) 0 t" "c \<in> kb_members t"
  then show "\<exists>t'. kb_remove (ct_id c) t = (t', [Removed c]) \<and> kb_ok (kad_config i k a) 0 t' \<and>
      kb_members t' = kb_members t - {c}"
    by (rule kb_remove_member)
qed

section \<open>Sequences of calls\<close>

datatype rt_call = RtAdd peer_info | RtRemove peer_ref

text \<open>An \<open>add\<close> that throws leaves the table as it is; \<open>None\<close> is a call that does not return.\<close>

fun rt_step :: "lib \<Rightarrow> kb_config \<Rightarrow> rt_call \<Rightarrow> routing_table \<Rightarrow> (routing_table \<times> kb_event list res) option" where
  "rt_step L cfg (RtAdd p) s = (case rt_add L cfg p s of
     Inl e \<Rightarrow> Some (s, Inl e)
   | Inr None \<Rightarrow> None
   | Inr (Some (s', es)) \<Rightarrow> Some (s', Inr es))"
| "rt_step L cfg (RtRemove obj) s = (case rt_remove L obj s of (s', es) \<Rightarrow> Some (s', Inr es))"

fun rt_run :: "lib \<Rightarrow> kb_config \<Rightarrow> rt_call list \<Rightarrow> routing_table \<Rightarrow> routing_table option" where
  "rt_run L cfg [] s = Some s"
| "rt_run L cfg (x # xs) s = (case rt_step L cfg x s of None \<Rightarrow> None | Some (s', r) \<Rightarrow> rt_run L cfg xs s')"

definition rt_ok :: "lib \<Rightarrow> kb_config \<Rightarrow> routing_table \<Rightarrow> bool" where
  "rt_ok L cfg s \<longleftrightarrow> kb_ok cfg 0 (rt_kbucket s) \<and> index_ok L (rt_peers s) (kb_members (rt_kbucket s))"

definition call_fits :: "nat \<Rightarrow> rt_call \<Rightarrow> bool" where
  "call_fits n x = (case x of RtAdd p \<Rightarrow> (\<forall>i. pi_id p = Some i \<longrightarrow> length i = n) | RtRemove obj \<Rightarrow> True)"

lemma rt_add_ok:
  assumes ok: "rt_ok L (kad_config i k a) s" and fits: "\<forall>j. pi_id p = Some j \<longrightarrow> length j = length i"
  shows "rt_add L (kad_config i k a) p s = throw ''Contact must have an id'' \<and> pi_id p = None \<or>
    (\<exists>s' es. rt_add L (kad_config i k a) p s = Inr (Some (s', es)) \<and> rt_ok L (kad_config i k a) s')"
proof (cases "list_ex (\<lambda>k. map_of (rt_peers s) k \<noteq> None) (getKeys L (RefPeer p))")
  case True
  then show ?thesis using ok by (simp add: rt_add_def)
next
  case False
  show ?thesis
  proof (cases "pi_id p")
    case None
    then show ?thesis using False by (simp add: rt_add_def kb_add_def)
  next
    case (Some j)
    let ?c = "\<lparr>ct_id = j, ct_end = pi_end p\<rparr>"
    have keys: "contact_keys L ?c = getKeys L (RefPeer p)" using Some by (simp add: getKeys_def peer_of_def)
    have "\<exists>t es. kb_insert (kad_config i k a) ?c (rt_kbucket s) = Some (t, es) \<and> kb_ok (kad_config i k a) 0 t \<and>
      index_ok L (fold (on_event L) es (rt_peers s)) (kb_members t) \<and>
      (es = [Added ?c] \<and> kb_members t = insert ?c (kb_members (rt_kbucket s)) \<or>
       (\<exists>old. es = [Ping old ?c] \<and> set old \<subseteq> kb_members (rt_kbucket s)) \<and>
       kb_members t = kb_members (rt_kbucket s))"
    proof (rule kad.add_follows)
      show "kb_ok (kad_config i k a) 0 (rt_kbucket s)" "index_ok L (rt_peers s) (kb_members (rt_kbucket s))"
        using ok by (simp_all add: rt_ok_def)
      show "length (ct_id ?c) = length i" using fits Some by simp
      show "\<forall>k\<in>set (contact_keys L ?c). map_of (rt_peers s) k = None"
        using False unfolding keys by (auto simp: list_ex_iff)
    qed
    then show ?thesis using False Some by (auto simp: rt_add_def kb_add_def rt_ok_def)
  qed
qed

lemma rt_remove_ok:
  assumes ok: "rt_ok L (kad_config i k a) s"
  shows "rt_ok L (kad_config i k a) (fst (rt_remove L obj s))"
proof (cases "rt_get L obj s")
  case None
  then show ?thesis using ok by (simp add: rt_remove_def)
next
  case (Some c)
  have o: "kb_ok (kad_config i k a) 0 (rt_kbucket s)" "index_ok L (rt_peers s) (kb_members (rt_kbucket s))"
    using ok by (simp_all add: rt_ok_def)
  have "c \<in> kb_members (rt_kbucket s)" using kad.lookup_member [OF o(2)] Some by (simp add: rt_get_def)
  then obtain t where t: "kb_remove (ct_id c) (rt_kbucket s) = (t, [Removed c])"
    "kb_ok (kad_config i k a) 0 t" "index_ok L (fold (on_event L) [Removed c] (rt_peers s)) (kb_members t)"
    using kad.remove_follows [OF o] by blast
  then show ?thesis by (simp add: rt_remove_def Some rt_ok_def)
qed

lemma new_table_ok: "rt_ok L cfg new_table"
  by (simp add: rt_ok_def new_table_def createNode_def index_ok_def kb_members_def bucket_ok_def)

lemma rt_run_ok:
  "rt_ok L (kad_config i k a) s \<Longrightarrow> \<forall>x\<in>set xs. call_fits (length i) x \<Longrightarrow>
    \<exists>s'. rt_run L (kad_config i k a) xs s = Some s' \<and> rt_ok L (kad_config i k a) s'"
proof (induction xs arbitrary: s)
  case (Cons x xs)
  have "\<exists>s1 r. rt_step L (kad_config i k a) x s = Some (s1, r) \<and> rt_ok L (kad_config i k a) s1"
  proof (cases x)
    case (RtAdd p)
    then have "\<forall>j. pi_id p = Some j \<longrightarrow> length j = length i" using Cons.prems(2) by (simp add: call_fits_def)
    from rt_add_ok [OF Cons.prems(1) this] show ?thesis using RtAdd Cons.prems(1) by auto
  next
    case (RtRemove obj)
    then show ?thesis using rt_remove_ok [OF Cons.prems(1), of obj] by (cases "rt_remove L obj s") auto
  qed
  then show ?case using Cons.IH Cons.prems(2) by auto
qed simp

text \<open>C3: after any sequence of \<open>add\<close> and \<open>remove\<close> calls on a new routing table, of peers with
  or without identifiers and of any references, the key map and the tree agree: a key finds a
  contact exactly when the tree holds that contact and the key is one of its own. So
  \<open>get\<close> answers a contact of the table, \<open>has\<close> is true exactly for references that share a key
  with a contact, no two contacts of the table share a key, and no call diverges.\<close>

theorem routing_table_index:
  assumes "\<forall>x\<in>set xs. call_fits (length i) x"
  shows "\<exists>s. rt_run L (kad_config i k a) xs new_table = Some s \<and> kb_ok (kad_config i k a) 0 (rt_kbucket s) \<and>
    (\<forall>key c. map_of (rt_peers s) key = Some c \<longleftrightarrow> c \<in> set (rt_getAll s) \<and> key \<in> set (contact_keys L c)) \<and>
    (\<forall>obj. rt_has L obj s = (\<exists>c\<in>set (rt_getAll s). set (getKeys L obj) \<inter> set (contact_keys L c) \<noteq> {}))"
proof -
  obtain s where s: "rt_run L (kad_config i k a) xs new_table = Some s" "rt_ok L (kad_config i k a) s"
    using rt_run_ok [OF new_table_ok assms] by blast
  have ix: "index_ok L (rt_peers s) (kb_members (rt_kbucket s))" using s(2) by (simp add: rt_ok_def)
  have all: "set (rt_getAll s) = kb_members (rt_kbucket s)"
    by (simp add: rt_getAll_def kb_toArray_all kb_members_def)
  have "rt_has L obj s = (\<exists>c\<in>set (rt_getAll s). set (getKeys L obj) \<inter> set (contact_keys L c) \<noteq> {})" for obj
    using kad.lookup_none [OF ix, of "getKeys L obj"] kad.lookup_member [OF ix, of "getKeys L obj"]
    unfolding rt_has_def rt_get_def all by (cases "first_peer (rt_peers s) (getKeys L obj)") fastforce+
  then show ?thesis using s ix by (auto simp: rt_ok_def index_ok_def all)
qed

definition demo_peer :: "u8 list \<Rightarrow> nat option \<Rightarrow> peer_info" where
  "demo_peer i p = \<lparr>pi_id = (if i = [] then None else Some i), pi_end = \<lparr>ep_address = Some [49],
     ep_udpPort = None, ep_tcpPort = p, ep_vectorClock = None\<rparr>\<rparr>"

theorem routing_table_index_witness:
  "\<exists>s. rt_run ref_lib (kad_config [0] 0 None) [RtAdd (demo_peer [3] (Some 30)), RtAdd (demo_peer [200] (Some 30)),
      RtAdd (demo_peer [] None), RtRemove (RefKey [49, 58, 51, 48])] new_table = Some s \<and>
    (\<forall>key c. map_of (rt_peers s) key = Some c \<longleftrightarrow> c \<in> set (rt_getAll s) \<and> key \<in> set (contact_keys ref_lib c))"
  using routing_table_index [of "[RtAdd (demo_peer [3] (Some 30)), RtAdd (demo_peer [200] (Some 30)),
      RtAdd (demo_peer [] None), RtRemove (RefKey [49, 58, 51, 48])]" "[0]" ref_lib 0 None]
  by (auto simp: call_fits_def demo_peer_def)

end
