(* ===== verification/Kademlia.thy ===== *)
theory Kademlia
  imports RoutingTable
begin

text \<open>
  The Kademlia node over its routing table (\<open>kademlia/src/kademlia.ts\<close>, \<open>ban-list.ts\<close>).

  The ban list wraps a third-party LRU cache, the parameter \<open>ban_ops\<close>. What waits for the
  network is split where the code awaits: \<open>addPeer\<close> into the part before and the part after
  the ping, and the check of a full bucket into one step per answer, so that the answers can
  arrive in any order. The last part shows what those checks do to the table: a candidate is
  never added, whichever of the old peers is dead.
\<close>

section \<open>The ban list\<close>

record 'b ban_ops =
  bl_set :: "jsstr \<Rightarrow> int option \<Rightarrow> 'b \<Rightarrow> 'b"
  bl_get :: "jsstr \<Rightarrow> 'b \<Rightarrow> bool \<times> 'b"
  bl_delete :: "jsstr \<Rightarrow> 'b \<Rightarrow> 'b"

definition ban_add :: "lib \<Rightarrow> 'b ban_ops \<Rightarrow> peer_ref \<Rightarrow> int option \<Rightarrow> 'b \<Rightarrow> 'b" where
  "ban_add L B obj maxAge b = fold (\<lambda>k. bl_set B k maxAge) (getKeys L obj) b"

fun ban_some :: "'b ban_ops \<Rightarrow> jsstr list \<Rightarrow> 'b \<Rightarrow> bool \<times> 'b" where
  "ban_some B [] b = (False, b)"
| "ban_some B (k # ks) b = (case bl_get B k b of (True, b') \<Rightarrow> (True, b') | (False, b') \<Rightarrow> ban_some B ks b')"

definition ban_has :: "lib \<Rightarrow> 'b ban_ops \<Rightarrow> peer_ref \<Rightarrow> 'b \<Rightarrow> bool \<times> 'b" where
  "ban_has L B obj b = ban_some B (getKeys L obj) b"

definition ban_remove :: "lib \<Rightarrow> 'b ban_ops \<Rightarrow> peer_ref \<Rightarrow> 'b \<Rightarrow> 'b" where
  "ban_remove L B obj b = fold (bl_delete B) (getKeys L obj) b"

section \<open>The node\<close>

text \<open>One check of a full bucket: the old peers that were pinged, the candidate, the number of
  answers so far and whether a ping failed.\<close>

record ping_round =
  pr_old :: "contact list"
  pr_new :: contact
  pr_count :: nat
  pr_err :: bool

record 'b kad_node =
  kn_banlist :: 'b
  kn_kbucket :: routing_table
  kn_confirmed :: "jsstr list"
  kn_rounds :: "ping_round list"

record kad_options =
  ko_kbucket :: kb_config
  ko_onlyConfirmed :: bool

text \<open>The listener of the table's \<open>ping\<close> event, up to the pings it sends.\<close>

definition onKBucketPing :: "lib \<Rightarrow> 'b ban_ops \<Rightarrow> contact list \<Rightarrow> contact \<Rightarrow> 'b kad_node \<Rightarrow> 'b kad_node" where
  "onKBucketPing L B old new s = (case ban_has L B (RefPeer (peer_of new)) (kn_banlist s) of
     (banned, b) \<Rightarrow>
       if banned then s\<lparr>kn_banlist := b\<rparr>
       else s\<lparr>kn_banlist := b, kn_rounds := kn_rounds s @
         [\<lparr>pr_old = old, pr_new = new, pr_count = 0, pr_err = False\<rparr>]\<rparr>)"

definition table_events :: "lib \<Rightarrow> 'b ban_ops \<Rightarrow> kb_event list \<Rightarrow> 'b kad_node \<Rightarrow> 'b kad_node" where
  "table_events L B es s = fold (\<lambda>e s. case e of Ping old new \<Rightarrow> onKBucketPing L B old new s | _ \<Rightarrow> s) es s"

definition kad_table_add :: "lib \<Rightarrow> 'b ban_ops \<Rightarrow> kad_options \<Rightarrow> peer_info \<Rightarrow> 'b kad_node \<Rightarrow> 'b kad_node option res" where
  "kad_table_add L B opts p s =
    bindE (rt_add L (ko_kbucket opts) p (kn_kbucket s)) (\<lambda>r. Inr (case r of
      None \<Rightarrow> None
    | Some (t, es) \<Rightarrow> Some (table_events L B es (s\<lparr>kn_kbucket := t\<rparr>))))"

definition kad_table_remove :: "lib \<Rightarrow> peer_ref \<Rightarrow> 'b kad_node \<Rightarrow> 'b kad_node" where
  "kad_table_remove L obj s = s\<lparr>kn_kbucket := fst (rt_remove L obj (kn_kbucket s))\<rparr>"

definition five_minutes :: "int option" where
  "five_minutes = Some 300000"

text \<open>An answered ping of a round counts; the last one decides. A failed ping bans and removes
  its peer and is remembered, but does not count.\<close>

definition ping_answered :: "lib \<Rightarrow> 'b ban_ops \<Rightarrow> kad_options \<Rightarrow> ping_round \<Rightarrow> 'b kad_node \<Rightarrow>
    (ping_round \<times> 'b kad_node option) res" where
  "ping_answered L B opts r s = (let r' = r\<lparr>pr_count := pr_count r + 1\<rparr> in
     if pr_count r' < length (pr_old r) then Inr (r', Some s)
     else if \<not> pr_err r then
       Inr (r', Some (s\<lparr>kn_banlist := ban_add L B (RefPeer (peer_of (pr_new r))) five_minutes (kn_banlist s)\<rparr>))
     else bindE (kad_table_add L B opts (peer_of (pr_new r)) s) (\<lambda>s'. Inr (r', s')))"

definition ping_failed :: "lib \<Rightarrow> 'b ban_ops \<Rightarrow> contact \<Rightarrow> ping_round \<Rightarrow> 'b kad_node \<Rightarrow> ping_round \<times> 'b kad_node" where
  "ping_failed L B peer r s =
    (r\<lparr>pr_err := True\<rparr>,
     kad_table_remove L (RefPeer (peer_of peer))
       (s\<lparr>kn_banlist := ban_add L B (RefPeer (peer_of peer)) five_minutes (kn_banlist s)\<rparr>))"

text \<open>\<open>addPeer\<close> up to its ping: banned, known, or to be pinged.\<close>

datatype add_start = Known contact | Pinging

definition addPeer_start :: "lib \<Rightarrow> 'b ban_ops \<Rightarrow> peer_info \<Rightarrow> 'b kad_node \<Rightarrow> add_start res \<times> 'b kad_node" where
  "addPeer_start L B obj s = (case ban_has L B (RefPeer obj) (kn_banlist s) of (banned, b) \<Rightarrow>
     let s' = s\<lparr>kn_banlist := b\<rparr> in
     if banned then (throw ''Peer is banned'', s')
     else (case rt_get L (RefPeer obj) (kn_kbucket s') of
       Some c \<Rightarrow> (Inr (Known c), s')
     | None \<Rightarrow> (Inr Pinging, s')))"

text \<open>\<open>addPeer\<close> after its ping. The \<open>try\<close> block also holds the call of the table, so an error
  it throws bans the peer too.\<close>

definition addPeer_done :: "lib \<Rightarrow> 'b ban_ops \<Rightarrow> kad_options \<Rightarrow> peer_info \<Rightarrow> peer_info res \<Rightarrow> 'b kad_node \<Rightarrow>
    peer_info res \<times> 'b kad_node option" where
  "addPeer_done L B opts obj answer s =
    (case bindE answer (\<lambda>peer. bindE (kad_table_add L B opts peer s) (\<lambda>s'. Inr (peer, s'))) of
       Inr (peer, s') \<Rightarrow> (Inr peer, s')
     | Inl e \<Rightarrow> (Inl e, Some (s\<lparr>kn_banlist := ban_add L B (RefPeer obj) five_minutes (kn_banlist s)\<rparr>)))"

definition confirmPeer :: "jsstr \<Rightarrow> 'b kad_node \<Rightarrow> 'b kad_node" where
  "confirmPeer i s = (if length (kn_confirmed s) < 5000 then s\<lparr>kn_confirmed := List.insert i (kn_confirmed s)\<rparr> else s)"

definition getPeer :: "lib \<Rightarrow> peer_ref \<Rightarrow> 'b kad_node \<Rightarrow> contact option" where
  "getPeer L obj s = rt_get L obj (kn_kbucket s)"

definition getPeers :: "'b kad_node \<Rightarrow> contact list" where
  "getPeers s = rt_getAll (kn_kbucket s)"

definition numPeers :: "'b kad_node \<Rightarrow> nat" where
  "numPeers s = rt_count (kn_kbucket s)"

definition getClosestPeers :: "lib \<Rightarrow> kad_options \<Rightarrow> u8 list \<Rightarrow> 'b kad_node \<Rightarrow> contact list res" where
  "getClosestPeers L opts i s = bindE (rt_closest (ko_kbucket opts) i None (kn_kbucket s)) (\<lambda>peers.
     Inr (if ko_onlyConfirmed opts \<and> kn_confirmed s \<noteq> []
       then filter (\<lambda>p. bytesToUnprefixedHex L (ct_id p) \<in> set (kn_confirmed s)) peers else peers))"

definition removePeer :: "lib \<Rightarrow> peer_ref \<Rightarrow> 'b kad_node \<Rightarrow> 'b kad_node" where
  "removePeer L obj s =
    (let s' = (case rt_get L obj (kn_kbucket s) of
         None \<Rightarrow> s
       | Some c \<Rightarrow> s\<lparr>kn_confirmed := removeAll (bytesToUnprefixedHex L (ct_id c)) (kn_confirmed s)\<rparr>) in
     kad_table_remove L obj s')"

definition banPeer :: "lib \<Rightarrow> 'b ban_ops \<Rightarrow> peer_ref \<Rightarrow> int option \<Rightarrow> 'b kad_node \<Rightarrow> 'b kad_node" where
  "banPeer L B obj maxAge s =
    kad_table_remove L obj (s\<lparr>kn_banlist := ban_add L B obj maxAge (kn_banlist s)\<rparr>)"

definition isBanned :: "lib \<Rightarrow> 'b ban_ops \<Rightarrow> peer_ref \<Rightarrow> 'b kad_node \<Rightarrow> bool \<times> 'b kad_node" where
  "isBanned L B obj s = (case ban_has L B obj (kn_banlist s) of (r, b) \<Rightarrow> (r, s\<lparr>kn_banlist := b\<rparr>))"

text \<open>The peers one tick of \<open>refresh\<close> queries, and the advanced counter.\<close>

definition refresh_targets :: "lib \<Rightarrow> kad_options \<Rightarrow> nat \<Rightarrow> 'b kad_node \<Rightarrow> nat \<times> contact list" where
  "refresh_targets L opts counter s = (let counter' = (counter + 1) mod 10 in
     (counter', filter (\<lambda>p.
        (\<not> (ko_onlyConfirmed opts \<and> kn_confirmed s \<noteq> []) \<or> bytesToUnprefixedHex L (ct_id p) \<in> set (kn_confirmed s)) \<and>
        be_val (take 1 (ct_id p)) mod 10 = counter') (getPeers s)))"

section \<open>The check of a full bucket\<close>

text \<open>The answers of a round in the order they arrive: each old peer with whether it answered.\<close>

fun ping_outcomes :: "lib \<Rightarrow> 'b ban_ops \<Rightarrow> kad_options \<Rightarrow> (contact \<times> bool) list \<Rightarrow> ping_round \<Rightarrow> 'b kad_node \<Rightarrow>
    'b kad_node option res" where
  "ping_outcomes L B opts [] r s = Inr (Some s)"
| "ping_outcomes L B opts ((peer, True) # outs) r s =
    bindE (ping_answered L B opts r s) (\<lambda>(r', s'). case s' of
      None \<Rightarrow> Inr None
    | Some s'' \<Rightarrow> ping_outcomes L B opts outs r' s'')"
| "ping_outcomes L B opts ((peer, False) # outs) r s =
    (case ping_failed L B peer r s of (r', s') \<Rightarrow> ping_outcomes L B opts outs r' s')"

definition drop_dead :: "lib \<Rightarrow> 'b ban_ops \<Rightarrow> contact \<Rightarrow> 'b kad_node \<Rightarrow> 'b kad_node" where
  "drop_dead L B peer s = kad_table_remove L (RefPeer (peer_of peer))
    (s\<lparr>kn_banlist := ban_add L B (RefPeer (peer_of peer)) five_minutes (kn_banlist s)\<rparr>)"

definition answered :: "(contact \<times> bool) list \<Rightarrow> nat" where
  "answered outs = length (filter snd outs)"

lemma ping_outcomes_short:
  "pr_count r + answered outs < length (pr_old r) \<Longrightarrow>
    ping_outcomes L B opts outs r s = Inr (Some (fold (drop_dead L B) (map fst (filter (Not \<circ> snd) outs)) s))"
proof (induction L B opts outs r s rule: ping_outcomes.induct)
  case (2 L B opts peer outs r s)
  then show ?case by (simp add: ping_answered_def Let_def answered_def)
next
  case (3 L B opts peer outs r s)
  then show ?case by (simp add: ping_failed_def drop_dead_def answered_def)
qed simp

lemma ping_outcomes_all:
  "\<forall>(p, a)\<in>set outs. a \<Longrightarrow> \<not> pr_err r \<Longrightarrow> pr_count r + length outs = length (pr_old r) \<Longrightarrow> outs \<noteq> [] \<Longrightarrow>
    ping_outcomes L B opts outs r s =
      Inr (Some (s\<lparr>kn_banlist := ban_add L B (RefPeer (peer_of (pr_new r))) five_minutes (kn_banlist s)\<rparr>))"
proof (induction L B opts outs r s rule: ping_outcomes.induct)
  case (2 L B opts peer outs r s)
  then show ?case
    by (cases outs) (simp_all add: ping_answered_def Let_def)
qed auto

lemma drop_dead_ok:
  assumes "rt_ok L (kad_config i k a) (kn_kbucket s)"
  shows "rt_ok L (kad_config i k a) (kn_kbucket (drop_dead L B c s)) \<and>
    set (getPeers (drop_dead L B c s)) \<subseteq> set (getPeers s)"
proof -
  have ix: "kb_ok (kad_config i k a) 0 (rt_kbucket (kn_kbucket s))"
    "index_ok L (rt_peers (kn_kbucket s)) (kb_members (rt_kbucket (kn_kbucket s)))"
    using assms by (simp_all add: rt_ok_def)
  have "set (rt_getAll (fst (rt_remove L obj (kn_kbucket s)))) \<subseteq> set (rt_getAll (kn_kbucket s))" for obj
  proof (cases "rt_get L obj (kn_kbucket s)")
    case None
    then show ?thesis by (simp add: rt_remove_def)
  next
    case (Some d)
    then have d: "d \<in> kb_members (rt_kbucket (kn_kbucket s))"
      using kad.lookup_member [OF ix(2)] by (simp add: rt_get_def)
    obtain t where "kb_remove (ct_id d) (rt_kbucket (kn_kbucket s)) = (t, [Removed d])"
      "kb_members t = kb_members (rt_kbucket (kn_kbucket s)) - {d}"
      using kb_remove_member [OF ix(1) d] by blast
    then show ?thesis using Some
      by (auto simp: rt_remove_def rt_getAll_def kb_toArray_all kb_members_def)
  qed
  then show ?thesis using rt_remove_ok [OF assms]
    by (simp add: drop_dead_def kad_table_remove_def getPeers_def)
qed

lemma drop_all_ok:
  "rt_ok L (kad_config i k a) (kn_kbucket s) \<Longrightarrow>
    rt_ok L (kad_config i k a) (kn_kbucket (fold (drop_dead L B) cs s)) \<and>
    set (getPeers (fold (drop_dead L B) cs s)) \<subseteq> set (getPeers s)"
proof (induction cs arbitrary: s)
  case (Cons c cs)
  then show ?case using drop_dead_ok [OF Cons.prems, of B c] Cons.IH [of "drop_dead L B c s"] by auto
qed simp

text \<open>C4: the check of a full bucket, for its answers in any order: every old peer answers or
  fails once. If all answer, the table is unchanged and the candidate is banned. If some fail,
  the dead peers are banned and removed, and the table otherwise stays as it is: the candidate
  never enters the table, although the code means to add it then. The table stays well formed
  and only loses contacts.\<close>

theorem full_bucket_check:
  assumes "rt_ok L (kad_config i k a) (kn_kbucket s)" and "old \<noteq> []"
    and "mset (map fst outs) = mset old" and "ko_kbucket opts = kad_config i k a"
  shows "\<exists>s'. ping_outcomes L B opts outs \<lparr>pr_old = old, pr_new = new, pr_count = 0, pr_err = False\<rparr> s = Inr (Some s') \<and>
    (if \<forall>(p, a)\<in>set outs. a
     then s' = s\<lparr>kn_banlist := ban_add L B (RefPeer (peer_of new)) five_minutes (kn_banlist s)\<rparr>
     else s' = fold (drop_dead L B) (map fst (filter (Not \<circ> snd) outs)) s) \<and>
    rt_ok L (kad_config i k a) (kn_kbucket s') \<and> set (getPeers s') \<subseteq> set (getPeers s)"
proof -
  let ?r = "\<lparr>pr_old = old, pr_new = new, pr_count = 0, pr_err = False\<rparr>"
  have len: "length outs = length old" using assms(3) by (metis length_map size_mset)
  then have ne: "outs \<noteq> []" using assms(2) by auto
  show ?thesis
  proof (cases "\<forall>(p, a)\<in>set outs. a")
    case True
    then show ?thesis
      using ping_outcomes_all [of outs ?r L B opts s] len ne assms(1) by (simp add: getPeers_def)
  next
    case False
    then have "answered outs < length old"
      unfolding answered_def len [symmetric] by (auto intro: length_filter_less)
    then show ?thesis
      using ping_outcomes_short [of ?r outs L B opts s] False drop_all_ok [OF assms(1)] by auto
  qed
qed

definition demo_bans :: "(jsstr list) ban_ops" where
  "demo_bans = \<lparr>bl_set = \<lambda>k t b. k # b, bl_get = \<lambda>k b. (k \<in> set b, b), bl_delete = removeAll\<rparr>"

definition demo_node :: "jsstr list kad_node" where
  "demo_node = \<lparr>kn_banlist = [], kn_kbucket = new_table, kn_confirmed = [], kn_rounds = []\<rparr>"

theorem full_bucket_check_witness:
  "\<exists>s'. ping_outcomes ref_lib demo_bans \<lparr>ko_kbucket = kad_config [0] 0 None, ko_onlyConfirmed = False\<rparr>
      [(demo_contact 200, False)]
      \<lparr>pr_old = [demo_contact 200], pr_new = demo_contact 130, pr_count = 0, pr_err = False\<rparr>
      demo_node = Inr (Some s') \<and> getPeers s' = []"
proof -
  let ?o = "\<lparr>ko_kbucket = kad_config [0] 0 None, ko_onlyConfirmed = False\<rparr>"
  have empty: "getPeers demo_node = []"
    by (simp add: getPeers_def rt_getAll_def kb_toArray_all new_table_def createNode_def demo_node_def)
  have ok: "rt_ok ref_lib (kad_config [0] 0 None) (kn_kbucket demo_node)"
    using new_table_ok by (simp add: demo_node_def)
  have outs: "mset (map fst [(demo_contact 200, False)]) = mset [demo_contact 200]" by simp
  have opts: "ko_kbucket ?o = kad_config [0] 0 None" by simp
  show ?thesis
    using full_bucket_check [OF ok not_Cons_self2 outs opts, of demo_bans "demo_contact 130"]
    unfolding empty by fastforce
qed

end
