(* ===== verification/QHeap.thy ===== *)
theory QHeap
  imports Prelude "HOL-Library.Multiset"
begin

text \<open>
  The binary heap of the client (\<open>execution-client/src/ext/qheap.ts\<close>).

  The array is a list whose slot 0 is unused; a slot the code has not written, or has
  overwritten with 0, is \<open>None\<close>. The loops move a hole: \<open>bubble_up\<close> and \<open>bubble_down\<close> return
  the array and the slot for the item. The locale \<open>heap_order\<close> states what a comparison must
  satisfy (a strict weak order); under it the heap is a multiset of which \<open>peek\<close> and \<open>remove\<close>
  return an element that no other comes before.
\<close>

section \<open>The operations\<close>

record 'a heap =
  hp_list :: "'a option list"
  hp_length :: nat

record 'a heap_opts =
  q_before :: "'a \<Rightarrow> 'a \<Rightarrow> bool"
  q_trim :: bool

text \<open>An assignment beyond the end of an array extends it.\<close>

definition js_put :: "'a option list \<Rightarrow> nat \<Rightarrow> 'a option \<Rightarrow> 'a option list" where
  "js_put xs i v = (if i < length xs then xs[i := v] else xs @ replicate (i - length xs) None @ [v])"

definition new_heap :: "nat option \<Rightarrow> 'a heap" where
  "new_heap size_opt = \<lparr>hp_list = replicate (case size_opt of None \<Rightarrow> 20 | Some n \<Rightarrow> n) None, hp_length = 0\<rparr>"

function bubble_up :: "('a \<Rightarrow> 'a \<Rightarrow> bool) \<Rightarrow> 'a \<Rightarrow> nat \<Rightarrow> 'a option list \<Rightarrow> 'a option list \<times> nat" where
  "bubble_up before item idx xs =
    (if idx > 1 then
       (let pp = idx div 2 in
        if before item (the (xs ! pp)) then bubble_up before item pp (xs[idx := xs ! pp]) else (xs, idx))
     else (xs, idx))"
  by pat_completeness auto
termination by (relation "measure (\<lambda>(b, item, idx, xs). idx)") auto

declare bubble_up.simps [simp del]

definition heap_insert :: "'a heap_opts \<Rightarrow> 'a \<Rightarrow> 'a heap \<Rightarrow> 'a heap" where
  "heap_insert H item h =
    (let idx = Suc (hp_length h); xs = js_put (hp_list h) idx (Some item) in
     \<lparr>hp_list = (if idx \<le> 1 then xs
        else (case bubble_up (q_before H) item idx xs of (ys, k) \<Rightarrow> ys[k := Some item])),
      hp_length = idx\<rparr>)"

definition heap_peek :: "'a heap \<Rightarrow> 'a option" where
  "heap_peek h = (if hp_length h > 0 then hp_list h ! 1 else None)"

function bubble_down :: "('a \<Rightarrow> 'a \<Rightarrow> bool) \<Rightarrow> 'a \<Rightarrow> nat \<Rightarrow> nat \<Rightarrow> 'a option list \<Rightarrow> 'a option list \<times> nat" where
  "bubble_down before itm r len xs =
    (if 2 * r < len \<and> 0 < r then
       (let c = (if before (the (xs ! (2 * r + 1))) (the (xs ! (2 * r))) then 2 * r + 1 else 2 * r);
            cv = the (xs ! c) in
        if \<not> before cv itm then (xs, r) else bubble_down before itm c len (xs[r := Some cv]))
     else (xs, r))"
  by pat_completeness auto
termination by (relation "measure (\<lambda>(b, itm, r, len, xs). len - r)") (auto split: if_splits)

declare bubble_down.simps [simp del]

definition trim_array :: "'a option list \<Rightarrow> nat \<Rightarrow> 'a option list" where
  "trim_array xs len = (if len > 10000 \<and> length xs > 4 * len then take (len + 1) xs else xs)"

definition heap_remove :: "'a heap_opts \<Rightarrow> 'a heap \<Rightarrow> 'a option \<times> 'a heap" where
  "heap_remove H h = (let len = hp_length h; xs = hp_list h in
     if len < 1 then (None, h)
     else (case bubble_down (q_before H) (the (xs ! len)) 1 len xs of (ys, r) \<Rightarrow>
       let zs = (ys[r := xs ! len])[len := None] in
       (xs ! 1, \<lparr>hp_list = (if q_trim H then trim_array zs (len - 1) else zs), hp_length = len - 1\<rparr>)))"

definition heap_size :: "'a heap \<Rightarrow> nat" where
  "heap_size h = hp_length h"

text \<open>\<open>fromArray\<close> with neither base nor bound.\<close>

definition heap_fromArray :: "'a heap_opts \<Rightarrow> 'a list \<Rightarrow> 'a heap \<Rightarrow> 'a heap" where
  "heap_fromArray H arr h = fold (heap_insert H) arr h"

definition heap_toArray :: "nat option \<Rightarrow> 'a heap \<Rightarrow> 'a option list" where
  "heap_toArray limit h = slice 1 (case limit of Some n \<Rightarrow> n + 1 | None \<Rightarrow> hp_length h + 1) (hp_list h)"

definition heap_gc :: "nat \<Rightarrow> 'a heap \<Rightarrow> 'a heap" where
  "heap_gc minLength h =
    (if length (hp_list h) \<ge> minLength \<and> hp_length h < length (hp_list h)
     then h\<lparr>hp_list := take (hp_length h + 1) (hp_list h)\<rparr> else h)"

text \<open>The default \<open>_sortBefore\<close> of a heap built from \<open>comparBefore\<close> is -1 or 1; a tie fails
  neither test of \<open>_check\<close> below.\<close>

definition heap_check :: "'a heap_opts \<Rightarrow> 'a heap \<Rightarrow> bool" where
  "heap_check H h = (let cmp = (\<lambda>a b. if q_before H a b then -1 else 1 :: int);
     xs = hp_list h in
     \<not> list_ex (\<lambda>i. cmp (the (xs ! (i div 2))) (the (xs ! i)) > 0 \<and> cmp (the (xs ! i)) (the (xs ! (i div 2))) < 0)
       [2..<hp_length h + 1])"

section \<open>Contents\<close>

definition slots :: "nat \<Rightarrow> 'a option list \<Rightarrow> 'a multiset" where
  "slots n xs = image_mset (\<lambda>i. the (xs ! i)) (mset_set {1..n})"

definition heap_items :: "'a heap \<Rightarrow> 'a multiset" where
  "heap_items h = slots (hp_length h) (hp_list h)"

text \<open>The array is long enough and its first \<open>n\<close> slots are written.\<close>

definition filled :: "nat \<Rightarrow> 'a option list \<Rightarrow> bool" where
  "filled n xs \<longleftrightarrow> (n = 0 \<or> n < length xs) \<and> (\<forall>i. 1 \<le> i \<longrightarrow> i \<le> n \<longrightarrow> xs ! i \<noteq> None)"

text \<open>No element comes before its parent.\<close>

definition ordered :: "('a \<Rightarrow> 'a \<Rightarrow> bool) \<Rightarrow> nat \<Rightarrow> 'a option list \<Rightarrow> bool" where
  "ordered before n xs \<longleftrightarrow> (\<forall>i. 2 \<le> i \<longrightarrow> i \<le> n \<longrightarrow> \<not> before (the (xs ! i)) (the (xs ! (i div 2))))"

definition heap_ok :: "('a \<Rightarrow> 'a \<Rightarrow> bool) \<Rightarrow> 'a heap \<Rightarrow> bool" where
  "heap_ok before h \<longleftrightarrow> filled (hp_length h) (hp_list h) \<and> ordered before (hp_length h) (hp_list h)"

lemma slots_0 [simp]: "slots 0 xs = {#}"
  by (simp add: slots_def)

lemma slots_Suc: "slots (Suc n) xs = add_mset (the (xs ! Suc n)) (slots n xs)"
  by (simp add: slots_def atLeastAtMostSuc_conv)

lemma slots_cong: "(\<And>i. 1 \<le> i \<Longrightarrow> i \<le> n \<Longrightarrow> xs ! i = ys ! i) \<Longrightarrow> slots n xs = slots n ys"
  unfolding slots_def by (rule image_mset_cong) auto

lemma size_slots [simp]: "size (slots n xs) = n"
  by (simp add: slots_def)

lemma slots_member: "x \<in># slots n xs \<longleftrightarrow> (\<exists>i. 1 \<le> i \<and> i \<le> n \<and> x = the (xs ! i))"
  by (auto simp: slots_def)

lemma slots_split:
  assumes "1 \<le> i" "i \<le> n"
  shows "slots n xs = add_mset (the (xs ! i)) (image_mset (\<lambda>i. the (xs ! i)) (mset_set ({1..n} - {i})))"
proof -
  have "mset_set {1..n} = add_mset i (mset_set ({1..n} - {i}))"
    using assms by (simp add: mset_set.remove)
  then show ?thesis by (simp add: slots_def)
qed

lemma slots_update:
  assumes "1 \<le> i" "i \<le> n" "i < length xs"
  shows "add_mset (the (xs ! i)) (slots n (xs[i := Some v])) = add_mset v (slots n xs)"
proof -
  have "image_mset (\<lambda>j. the (xs[i := Some v] ! j)) (mset_set ({1..n} - {i})) =
      image_mset (\<lambda>j. the (xs ! j)) (mset_set ({1..n} - {i}))"
    by (rule image_mset_cong) auto
  then show ?thesis
    using slots_split [OF assms(1,2), of xs] slots_split [OF assms(1,2), of "xs[i := Some v]"] assms(3) by simp
qed

lemma slots_swap:
  assumes i: "1 \<le> i" "i \<le> n" and j: "1 \<le> j" "j \<le> n" and ne: "i \<noteq> j" and n: "n < length xs"
    and f: "xs ! j \<noteq> None"
  shows "slots n (xs[i := xs ! j, j := Some v]) = slots n (xs[i := Some v])"
proof -
  from f obtain w where w: "xs ! j = Some w" by auto
  let ?ys = "xs[i := Some w]"
  have "add_mset (the (?ys ! j)) (slots n (?ys[j := Some v])) = add_mset v (slots n ?ys)"
    by (rule slots_update [OF j]) (use j n in simp)
  moreover have "add_mset (the (xs ! i)) (slots n ?ys) = add_mset w (slots n xs)"
    "add_mset (the (xs ! i)) (slots n (xs[i := Some v])) = add_mset v (slots n xs)"
    by (rule slots_update [OF i]; use i n in simp)+
  moreover have "?ys ! j = Some w" using ne w by simp
  ultimately have "add_mset w (add_mset (the (xs ! i)) (slots n (?ys[j := Some v]))) =
      add_mset w (add_mset (the (xs ! i)) (slots n (xs[i := Some v])))"
    by (metis add_mset_commute option.sel)
  then show ?thesis using w by simp
qed

lemma size_heap_items [simp]: "size (heap_items h) = hp_length h"
  by (simp add: heap_items_def)

section \<open>The loops keep the order\<close>

lemma filled_put: "filled n xs \<Longrightarrow> i < length xs \<Longrightarrow> v \<noteq> None \<Longrightarrow> filled n (xs[i := v])"
  by (auto simp: filled_def nth_list_update)

text \<open>With the item at the hole: only the pair of the hole and its parent may be out of order,
  and the hole's children are in order with its parent.\<close>

definition up_ok :: "('a \<Rightarrow> 'a \<Rightarrow> bool) \<Rightarrow> nat \<Rightarrow> nat \<Rightarrow> 'a option list \<Rightarrow> bool" where
  "up_ok before n k ys \<longleftrightarrow> filled n ys \<and> 1 \<le> k \<and> k \<le> n \<and>
    (\<forall>i. 2 \<le> i \<longrightarrow> i \<le> n \<longrightarrow> i \<noteq> k \<longrightarrow> \<not> before (the (ys ! i)) (the (ys ! (i div 2)))) \<and>
    (\<forall>i. 2 \<le> k \<longrightarrow> i \<le> n \<longrightarrow> i div 2 = k \<longrightarrow> \<not> before (the (ys ! i)) (the (ys ! (k div 2))))"

text \<open>Going down, only the pairs of the hole and its children may be out of order.\<close>

definition down_ok :: "('a \<Rightarrow> 'a \<Rightarrow> bool) \<Rightarrow> nat \<Rightarrow> nat \<Rightarrow> 'a option list \<Rightarrow> bool" where
  "down_ok before n k ys \<longleftrightarrow> filled n ys \<and> 1 \<le> k \<and> k \<le> n \<and>
    (\<forall>i. 2 \<le> i \<longrightarrow> i \<le> n \<longrightarrow> i div 2 \<noteq> k \<longrightarrow> \<not> before (the (ys ! i)) (the (ys ! (i div 2)))) \<and>
    (\<forall>i. 2 \<le> k \<longrightarrow> i \<le> n \<longrightarrow> i div 2 = k \<longrightarrow> \<not> before (the (ys ! i)) (the (ys ! (k div 2))))"

locale heap_order =
  fixes before :: "'a \<Rightarrow> 'a \<Rightarrow> bool"
  assumes asym: "before x y \<Longrightarrow> \<not> before y x"
    and negtrans: "\<not> before x y \<Longrightarrow> \<not> before y z \<Longrightarrow> \<not> before x z"
begin

lemma irrefl: "\<not> before x x"
  using asym by blast

lemma transitive: "before x y \<Longrightarrow> before y z \<Longrightarrow> before x z"
  using asym negtrans by blast

lemma up_step:
  assumes up: "up_ok before n k ys" and k: "1 < k" and lt: "before (the (ys ! k)) (the (ys ! (k div 2)))"
  shows "up_ok before n (k div 2) (ys[k := ys ! (k div 2), k div 2 := ys ! k])"
proof -
  let ?p = "k div 2"
  let ?zs = "ys[k := ys ! ?p, ?p := ys ! k]"
  have fl: "filled n ys" and kn: "k \<le> n" using up by (simp_all add: up_ok_def)
  have len: "n < length ys" using fl kn k by (auto simp: filled_def)
  have p: "1 \<le> ?p" "?p < k" using k by auto
  have a: "\<not> before (the (ys ! i)) (the (ys ! (i div 2)))" if "2 \<le> i" "i \<le> n" "i \<noteq> k" for i
    using up that by (simp add: up_ok_def)
  have b: "\<not> before (the (ys ! i)) (the (ys ! ?p))" if "i \<le> n" "i div 2 = k" for i
    using up that k by (simp add: up_ok_def)
  have z: "?zs ! i = (if i = ?p then ys ! k else if i = k then ys ! ?p else ys ! i)" for i
    using len kn p by (simp add: nth_list_update)
  have one: "\<not> before (the (?zs ! i)) (the (?zs ! (i div 2)))" if i: "2 \<le> i" "i \<le> n" "i \<noteq> ?p" for i
  proof -
    consider (hole) "i = k" | (child) "i div 2 = k" "i \<noteq> k" | (sib) "i div 2 = ?p" "i \<noteq> k"
      | (other) "i \<noteq> k" "i div 2 \<noteq> k" "i div 2 \<noteq> ?p" by blast
    then show ?thesis
    proof cases
      case hole
      moreover have "k \<noteq> ?p" using p by simp
      ultimately show ?thesis using asym [OF lt] by (simp add: z)
    next
      case child
      moreover have "k \<noteq> ?p" using p by simp
      ultimately show ?thesis using b [of i] i by (simp add: z)
    next
      case sib
      then show ?thesis using a [of i] i transitive [OF _ lt] by (auto simp: z)
    next
      case other
      then show ?thesis using a [of i] i by (simp add: z)
    qed
  qed
  have two: "\<not> before (the (?zs ! i)) (the (?zs ! (?p div 2)))" if i: "2 \<le> ?p" "i \<le> n" "i div 2 = ?p" for i
  proof -
    have q: "?p div 2 \<noteq> ?p" "?p div 2 \<noteq> k" "i \<noteq> ?p" using p i by auto
    have par: "\<not> before (the (ys ! ?p)) (the (ys ! (?p div 2)))" using a [of ?p] i(1) p kn by simp
    show ?thesis
    proof (cases "i = k")
      case True
      then show ?thesis using par q by (simp add: z)
    next
      case False
      have "2 \<le> i" using i by linarith
      then have "\<not> before (the (ys ! i)) (the (ys ! ?p))" using a [of i] i False by simp
      then show ?thesis using negtrans [OF _ par] q False by (simp add: z)
    qed
  qed
  have "filled n ?zs" using fl p kn len by (simp add: filled_def z)
  then show ?thesis using one two p kn by (simp add: up_ok_def)
qed

lemma bubble_up_ok:
  assumes "up_ok before n k (xs[k := Some item])" and "k < length xs"
  shows "case bubble_up before item k xs of (ys, j) \<Rightarrow>
    filled n (ys[j := Some item]) \<and> ordered before n (ys[j := Some item]) \<and>
    slots n (ys[j := Some item]) = slots n (xs[k := Some item]) \<and> length ys = length xs"
  using assms
proof (induction k arbitrary: xs rule: less_induct)
  case (less k)
  let ?p = "k div 2"
  have up: "up_ok before n k (xs[k := Some item])" and len: "k < length xs" by fact+
  have fl: "filled n (xs[k := Some item])" and kn: "1 \<le> k" "k \<le> n" using up by (simp_all add: up_ok_def)
  have nl: "n < length xs" using fl kn by (auto simp: filled_def)
  show ?case
  proof (cases "1 < k \<and> before item (the (xs ! ?p))")
    case True
    have p: "1 \<le> ?p" "?p < k" using True by auto
    have w: "xs ! ?p \<noteq> None" using fl p kn by (auto simp: filled_def nth_list_update dest!: spec [of _ ?p])
    have swap: "(xs[k := Some item])[k := (xs[k := Some item]) ! ?p, ?p := (xs[k := Some item]) ! k] =
        (xs[k := xs ! ?p])[?p := Some item]"
      using p len by simp
    have "up_ok before n ?p ((xs[k := xs ! ?p])[?p := Some item])"
      using up_step [OF up] True p len unfolding swap by simp
    moreover have "bubble_up before item k xs = bubble_up before item ?p (xs[k := xs ! ?p])"
      using True by (subst bubble_up.simps) (simp add: Let_def)
    moreover have "slots n (xs[k := xs ! ?p, ?p := Some item]) = slots n (xs[k := Some item])"
      by (rule slots_swap [OF kn p(1) _ _ nl w]) (use p kn in auto)
    ultimately show ?thesis using less.IH [OF p(2), of "xs[k := xs ! ?p]"] len p(2)
      by (cases "bubble_up before item ?p (xs[k := xs ! ?p])") simp
  next
    case False
    then have "bubble_up before item k xs = (xs, k)" by (subst bubble_up.simps) (auto simp: Let_def)
    moreover have "ordered before n (xs[k := Some item])"
      unfolding ordered_def
    proof (intro allI impI)
      fix i assume i: "2 \<le> i" "i \<le> n"
      show "\<not> before (the (xs[k := Some item] ! i)) (the (xs[k := Some item] ! (i div 2)))"
      proof (cases "i = k")
        case True
        then show ?thesis using False i len by auto
      next
        case ne: False
        then show ?thesis using up i by (simp add: up_ok_def)
      qed
    qed
    ultimately show ?thesis using fl by simp
  qed
qed

lemma down_step:
  assumes down: "down_ok before n k ys" and c: "c div 2 = k" "c \<le> n"
    and lt: "before (the (ys ! c)) (the (ys ! k))"
    and best: "\<And>d. d div 2 = k \<Longrightarrow> d \<le> n \<Longrightarrow> \<not> before (the (ys ! d)) (the (ys ! c))"
  shows "down_ok before n c (ys[k := ys ! c, c := ys ! k])"
proof -
  let ?zs = "ys[k := ys ! c, c := ys ! k]"
  have fl: "filled n ys" and k: "1 \<le> k" "k \<le> n" using down by (simp_all add: down_ok_def)
  have len: "n < length ys" using fl k by (auto simp: filled_def)
  have kc: "k < c" "c \<noteq> k" using c k by auto
  have a: "\<not> before (the (ys ! i)) (the (ys ! (i div 2)))" if "2 \<le> i" "i \<le> n" "i div 2 \<noteq> k" for i
    using down that by (simp add: down_ok_def)
  have b: "\<not> before (the (ys ! c)) (the (ys ! (k div 2)))" if "2 \<le> k"
    using down that c by (simp add: down_ok_def)
  have z: "?zs ! i = (if i = c then ys ! k else if i = k then ys ! c else ys ! i)" for i
    using len k c by (simp add: nth_list_update)
  have one: "\<not> before (the (?zs ! i)) (the (?zs ! (i div 2)))" if i: "2 \<le> i" "i \<le> n" "i div 2 \<noteq> c" for i
  proof -
    consider (new) "i = c" | (sib) "i div 2 = k" "i \<noteq> c" | (top) "i = k" | (other) "i \<noteq> c" "i \<noteq> k" "i div 2 \<noteq> k"
      by blast
    then show ?thesis
    proof cases
      case new
      then show ?thesis using asym [OF lt] c kc by (simp add: z)
    next
      case sib
      moreover have "i \<noteq> k" using sib k by auto
      ultimately show ?thesis using best [of i] i kc by (simp add: z)
    next
      case top
      moreover have "k div 2 \<noteq> k" "k div 2 \<noteq> c" using k kc by auto
      ultimately show ?thesis using b i kc by (simp add: z)
    next
      case other
      then show ?thesis using a [of i] i by (simp add: z)
    qed
  qed
  have two: "\<not> before (the (?zs ! i)) (the (?zs ! (c div 2)))" if i: "i \<le> n" "i div 2 = c" for i
  proof -
    have "2 \<le> i" "i \<noteq> c" "i \<noteq> k" using i kc k by auto
    then show ?thesis using a [of i] i kc c(1) by (simp add: z)
  qed
  have "filled n ?zs" using fl k c len by (simp add: filled_def z)
  then show ?thesis using one two c kc by (simp add: down_ok_def)
qed

lemma down_done:
  assumes down: "down_ok before n k ys" and "\<And>d. d div 2 = k \<Longrightarrow> d \<le> n \<Longrightarrow> \<not> before (the (ys ! d)) (the (ys ! k))"
  shows "ordered before n ys"
  using assms by (auto simp: down_ok_def ordered_def)

lemma child_cases: "d div 2 = k \<Longrightarrow> d = 2 * k \<or> d = 2 * k + (1::nat)"
  by linarith

lemma bubble_down_ok:
  assumes "down_ok before n k (xs[k := Some itm])" and "xs ! Suc n = Some itm" and "Suc n < length xs"
  shows "case bubble_down before itm k (Suc n) xs of (ys, j) \<Rightarrow>
    filled n (ys[j := Some itm]) \<and> ordered before n (ys[j := Some itm]) \<and>
    slots n (ys[j := Some itm]) = slots n (xs[k := Some itm]) \<and> length ys = length xs \<and> j \<le> n"
  using assms
proof (induction "Suc n - k" arbitrary: k xs rule: less_induct)
  case less
  let ?ys = "xs[k := Some itm]"
  have down: "down_ok before n k ?ys" and last: "xs ! Suc n = Some itm" and len: "Suc n < length xs" by fact+
  have fl: "filled n ?ys" and k: "1 \<le> k" "k \<le> n" using down by (simp_all add: down_ok_def)
  define c where "c = (if before (the (xs ! (2 * k + 1))) (the (xs ! (2 * k))) then 2 * k + 1 else 2 * k)"
  have cv: "c div 2 = k" "c \<noteq> k" using k by (auto simp: c_def)
  have unfold: "bubble_down before itm k (Suc n) xs = (if 2 * k < Suc n then
      (if \<not> before (the (xs ! c)) itm then (xs, k)
       else bubble_down before itm c (Suc n) (xs[k := Some (the (xs ! c))])) else (xs, k))"
    using k by (subst bubble_down.simps) (simp add: c_def Let_def)
  have best: "\<not> before (the (?ys ! d)) (the (?ys ! c))" if "d div 2 = k" "d \<le> n" for d
    using child_cases [OF that(1)] k asym irrefl by (auto simp: c_def)
  show ?case
  proof (cases "2 * k < Suc n \<and> before (the (xs ! c)) itm")
    case True
    have cn: "c \<le> n"
    proof (rule ccontr)
      assume "\<not> c \<le> n"
      then have "c = Suc n" using True by (auto simp: c_def split: if_splits)
      then show False using True last irrefl by simp
    qed
    have w: "xs ! c \<noteq> None" using fl cv cn k by (auto simp: filled_def dest!: spec [of _ c])
    have swap: "?ys[k := ?ys ! c, c := ?ys ! k] = (xs[k := Some (the (xs ! c))])[c := Some itm]"
      using cv w k len by auto
    have d': "down_ok before n c ((xs[k := Some (the (xs ! c))])[c := Some itm])"
      using down_step [OF down cv(1) cn _ best] True cv k len unfolding swap by simp
    have sl: "slots n (xs[k := Some (the (xs ! c)), c := Some itm]) = slots n ?ys"
      using slots_swap [of k n c xs itm] w cv cn k len by simp
    have ih: "case bubble_down before itm c (Suc n) (xs[k := Some (the (xs ! c))]) of (ys, j) \<Rightarrow>
      filled n (ys[j := Some itm]) \<and> ordered before n (ys[j := Some itm]) \<and>
      slots n (ys[j := Some itm]) = slots n ((xs[k := Some (the (xs ! c))])[c := Some itm]) \<and>
      length ys = length (xs[k := Some (the (xs ! c))]) \<and> j \<le> n"
      by (rule less.hyps) (use d' last len k cv cn in auto)
    then show ?thesis using True sl unfolding unfold
      by (cases "bubble_down before itm c (Suc n) (xs[k := Some (the (xs ! c))])") simp
  next
    case False
    then have stop: "bubble_down before itm k (Suc n) xs = (xs, k)" unfolding unfold by auto
    have "\<not> before (the (?ys ! d)) (the (?ys ! k))" if d: "d div 2 = k" "d \<le> n" for d
    proof -
      have "2 * k < Suc n" using d by linarith
      then have "\<not> before (the (xs ! c)) itm" using False by simp
      moreover have "d \<noteq> k" using d k by auto
      ultimately show ?thesis using negtrans [of "the (xs ! d)" "the (xs ! c)" itm] best [OF d] k len cv
        by simp
    qed
    then have "ordered before n ?ys" by (rule down_done [OF down])
    then show ?thesis using stop fl k by simp
  qed
qed

lemma root_first:
  "ordered before n xs \<Longrightarrow> 1 \<le> i \<Longrightarrow> i \<le> n \<Longrightarrow> \<not> before (the (xs ! i)) (the (xs ! 1))"
proof (induction i rule: less_induct)
  case (less i)
  show ?case
  proof (cases "i = 1")
    case False
    then have "\<not> before (the (xs ! i)) (the (xs ! (i div 2)))" using less.prems by (simp add: ordered_def)
    moreover have "\<not> before (the (xs ! (i div 2))) (the (xs ! 1))" using less.prems False by (intro less.IH) auto
    ultimately show ?thesis by (rule negtrans)
  qed (simp add: irrefl)
qed

section \<open>The heap as a multiset\<close>

lemma new_heap_ok: "heap_ok before (new_heap n) \<and> heap_items (new_heap n :: 'a heap) = {#}"
  by (simp add: heap_ok_def new_heap_def heap_items_def filled_def ordered_def)

lemma insert_ok:
  assumes H: "q_before H = before" and ok: "heap_ok before h"
  shows "heap_ok before (heap_insert H x h) \<and> heap_items (heap_insert H x h) = add_mset x (heap_items h)"
proof -
  let ?n = "hp_length h" and ?xs = "js_put (hp_list h) (Suc (hp_length h)) (Some x)"
  have fl: "filled ?n (hp_list h)" and ord: "ordered before ?n (hp_list h)" using ok by (simp_all add: heap_ok_def)
  have len: "Suc ?n < length ?xs" using fl by (auto simp: js_put_def filled_def)
  have old: "?xs ! i = hp_list h ! i" if "i \<le> ?n" "1 \<le> i" for i
    using fl that by (auto simp: js_put_def filled_def nth_append)
  have new: "?xs ! Suc ?n = Some x" by (simp add: js_put_def nth_append)
  have same: "?xs[Suc ?n := Some x] = ?xs" using new len by (metis list_update_id)
  have fl': "filled (Suc ?n) ?xs"
    using fl len old new unfolding filled_def by (metis le_Suc_eq option.distinct(1))
  have sl: "slots (Suc ?n) ?xs = add_mset x (heap_items h)"
    using slots_cong [of ?n ?xs "hp_list h"] old new by (simp add: slots_Suc heap_items_def)
  show ?thesis
  proof (cases "?n = 0")
    case True
    then show ?thesis using fl' sl by (simp add: heap_insert_def Let_def heap_ok_def heap_items_def ordered_def)
  next
    case False
    have "up_ok before (Suc ?n) (Suc ?n) (?xs[Suc ?n := Some x])"
      unfolding up_ok_def same
    proof (intro conjI allI impI)
      fix i assume i: "2 \<le> i" "i \<le> Suc ?n" "i \<noteq> Suc ?n"
      then show "\<not> before (the (?xs ! i)) (the (?xs ! (i div 2)))"
        using ord old [of i] old [of "i div 2"] by (simp add: ordered_def)
    qed (use fl' in auto)
    from bubble_up_ok [OF this len] show ?thesis
      using False H sl same
      by (cases "bubble_up before x (Suc ?n) ?xs")
        (simp add: heap_insert_def Let_def heap_ok_def heap_items_def)
  qed
qed

lemma peek_ok:
  assumes ok: "heap_ok before h"
  shows "heap_peek h = None \<and> heap_items h = {#} \<or>
    (\<exists>m. heap_peek h = Some m \<and> m \<in># heap_items h \<and> (\<forall>y\<in>#heap_items h. \<not> before y m))"
proof (cases "hp_length h = 0")
  case False
  then obtain m where m: "hp_list h ! 1 = Some m" using ok by (fastforce simp: heap_ok_def filled_def)
  have "\<not> before y m" if "y \<in># heap_items h" for y
    using that root_first [of "hp_length h" "hp_list h"] ok m
    by (auto simp: heap_items_def slots_member heap_ok_def)
  moreover have "m \<in># heap_items h"
    using False m by (auto simp: heap_items_def slots_member intro!: exI [of _ 1])
  ultimately show ?thesis using False m by (simp add: heap_peek_def)
qed (simp add: heap_peek_def heap_items_def)

lemma remove_ok:
  assumes H: "q_before H = before" and ok: "heap_ok before h"
  shows "fst (heap_remove H h) = heap_peek h \<and> heap_ok before (snd (heap_remove H h)) \<and>
    heap_items (snd (heap_remove H h)) = (case heap_peek h of None \<Rightarrow> {#} | Some m \<Rightarrow> heap_items h - {#m#})"
proof (cases "hp_length h")
  case 0
  then show ?thesis using ok by (simp add: heap_remove_def heap_peek_def heap_items_def Let_def)
next
  case (Suc n)
  let ?xs = "hp_list h"
  have fl: "filled (Suc n) ?xs" and ord: "ordered before (Suc n) ?xs" using ok Suc by (simp_all add: heap_ok_def)
  have len: "Suc n < length ?xs" using fl by (simp add: filled_def)
  obtain m itm where m: "?xs ! 1 = Some m" and itm: "?xs ! Suc n = Some itm"
    using fl by (fastforce simp: filled_def)
  obtain ys r where b: "bubble_down before itm 1 (Suc n) ?xs = (ys, r)" by fastforce
  have core: "filled n (ys[r := Some itm, Suc n := None]) \<and> ordered before n (ys[r := Some itm, Suc n := None]) \<and>
      slots n (ys[r := Some itm, Suc n := None]) = slots (Suc n) ?xs - {#m#} \<and> length ys = length ?xs"
  proof (cases "n = 0")
    case True
    then have "ys = ?xs" using b by (subst (asm) bubble_down.simps) simp
    then show ?thesis using True m by (simp add: filled_def ordered_def slots_Suc)
  next
    case False
    have "down_ok before n 1 (?xs[1 := Some itm])"
      unfolding down_ok_def
    proof (intro conjI allI impI)
      show "filled n (?xs[1 := Some itm])" using fl len by (auto simp: filled_def nth_list_update)
      fix i assume i: "2 \<le> i" "i \<le> n" "i div 2 \<noteq> (1::nat)"
      then show "\<not> before (the (?xs[1 := Some itm] ! i)) (the (?xs[1 := Some itm] ! (i div 2)))"
        using ord by (simp add: ordered_def)
    qed (use False in auto)
    from bubble_down_ok [OF this itm len] have r: "filled n (ys[r := Some itm])" "ordered before n (ys[r := Some itm])"
      "slots n (ys[r := Some itm]) = slots n (?xs[1 := Some itm])" "length ys = length ?xs" "r \<le> n"
      unfolding b by auto
    have far: "(ys[r := Some itm, Suc n := None]) ! i = (ys[r := Some itm]) ! i" if "i \<le> n" for i
      using that by simp
    have "slots n (ys[r := Some itm, Suc n := None]) = slots n (?xs[1 := Some itm])"
      using slots_cong [of n "ys[r := Some itm, Suc n := None]" "ys[r := Some itm]"] far r(3) by simp
    moreover have "add_mset m (slots n (?xs[1 := Some itm])) = slots (Suc n) ?xs"
      using slots_update [of 1 n ?xs itm] False len m itm by (simp add: slots_Suc)
    ultimately have "slots n (ys[r := Some itm, Suc n := None]) = slots (Suc n) ?xs - {#m#}"
      by (metis add_mset_remove_trivial)
    moreover have "filled n (ys[r := Some itm, Suc n := None])" using r(1) far by (auto simp: filled_def)
    moreover have "ordered before n (ys[r := Some itm, Suc n := None])"
      using r(2) far unfolding ordered_def by (metis div_le_dividend le_trans)
    ultimately show ?thesis using r(4) by simp
  qed
  let ?zs = "ys[r := Some itm, Suc n := None]"
  have trim: "filled n (trim_array ?zs n) \<and> ordered before n (trim_array ?zs n) \<and> slots n (trim_array ?zs n) = slots n ?zs"
    using core slots_cong [of n "take (Suc n) ?zs" ?zs]
    by (auto simp: trim_array_def filled_def ordered_def min_def)
  have "heap_remove H h = (Some m, \<lparr>hp_list = (if q_trim H then trim_array ?zs n else ?zs), hp_length = n\<rparr>)"
    using Suc m itm H b by (simp add: heap_remove_def Let_def)
  then show ?thesis using core trim Suc m
    by (simp add: heap_peek_def heap_ok_def heap_items_def)
qed

end

section \<open>Sequences of calls\<close>

datatype 'a heap_call = HInsert 'a | HRemove | HPeek

fun heap_step :: "'a heap_opts \<Rightarrow> 'a heap_call \<Rightarrow> 'a heap \<Rightarrow> 'a option \<times> 'a heap" where
  "heap_step H (HInsert x) h = (None, heap_insert H x h)"
| "heap_step H HRemove h = heap_remove H h"
| "heap_step H HPeek h = (heap_peek h, h)"

fun heap_run :: "'a heap_opts \<Rightarrow> 'a heap_call list \<Rightarrow> 'a heap \<Rightarrow> 'a option list \<times> 'a heap" where
  "heap_run H [] h = ([], h)"
| "heap_run H (c # cs) h = (case heap_step H c h of (a, h') \<Rightarrow>
     (case heap_run H cs h' of (as, h'') \<Rightarrow> (a # as, h'')))"

text \<open>What a priority queue may answer: some element no other comes before, or nothing when
  it is empty. Which of several first elements it answers is left open.\<close>

definition first_of :: "('a \<Rightarrow> 'a \<Rightarrow> bool) \<Rightarrow> 'a multiset \<Rightarrow> 'a option \<Rightarrow> bool" where
  "first_of before M r = (case r of None \<Rightarrow> M = {#} | Some m \<Rightarrow> m \<in># M \<and> (\<forall>y\<in>#M. \<not> before y m))"

fun queue_answers :: "('a \<Rightarrow> 'a \<Rightarrow> bool) \<Rightarrow> 'a multiset \<Rightarrow> 'a heap_call list \<Rightarrow> 'a option list \<Rightarrow> 'a multiset \<Rightarrow> bool" where
  "queue_answers before M [] as M' = (as = [] \<and> M' = M)"
| "queue_answers before M (c # cs) [] M' = False"
| "queue_answers before M (HInsert x # cs) (a # as) M' =
    (a = None \<and> queue_answers before (add_mset x M) cs as M')"
| "queue_answers before M (HPeek # cs) (a # as) M' =
    (first_of before M a \<and> queue_answers before M cs as M')"
| "queue_answers before M (HRemove # cs) (a # as) M' =
    (first_of before M a \<and>
     queue_answers before (case a of None \<Rightarrow> M | Some m \<Rightarrow> M - {#m#}) cs as M')"

context heap_order
begin

lemma peek_first: "heap_ok before h \<Longrightarrow> first_of before (heap_items h) (heap_peek h)"
  using peek_ok [of h] by (auto simp: first_of_def)

lemma run_answers:
  "q_before H = before \<Longrightarrow> heap_ok before h \<Longrightarrow>
    heap_ok before (snd (heap_run H cs h)) \<and>
    queue_answers before (heap_items h) cs (fst (heap_run H cs h)) (heap_items (snd (heap_run H cs h)))"
proof (induction cs arbitrary: h)
  case (Cons c cs)
  show ?case
  proof (cases c)
    case (HInsert x)
    then show ?thesis using Cons.IH [OF Cons.prems(1), of "heap_insert H x h"] insert_ok [OF Cons.prems, of x]
      by (cases "heap_run H cs (heap_insert H x h)") simp
  next
    case HRemove
    obtain a h' where r: "heap_remove H h = (a, h')" by (cases "heap_remove H h")
    then have h': "a = heap_peek h" "heap_ok before h'"
      "heap_items h' = (case a of None \<Rightarrow> {#} | Some m \<Rightarrow> heap_items h - {#m#})"
      using remove_ok [OF Cons.prems] by simp_all
    have f: "first_of before (heap_items h) a" using peek_first [OF Cons.prems(2)] h'(1) by simp
    then have "heap_items h' = (case a of None \<Rightarrow> heap_items h | Some m \<Rightarrow> heap_items h - {#m#})"
      using h'(3) by (auto simp: first_of_def split: option.splits)
    then show ?thesis using HRemove r f Cons.IH [OF Cons.prems(1) h'(2)]
      by (cases "heap_run H cs h'") simp
  next
    case HPeek
    then show ?thesis using Cons.IH [OF Cons.prems] peek_first [OF Cons.prems(2)]
      by (cases "heap_run H cs h") simp
  qed
qed simp

end

text \<open>C1: any sequence of \<open>insert\<close>, \<open>remove\<close> and \<open>peek\<close> on a new heap answers as a priority
  queue over the multiset of its elements, for every comparison that is a strict weak order:
  \<open>peek\<close> and \<open>remove\<close> answer an element no other comes before, and \<open>undefined\<close> exactly when the
  heap is empty. The array stays a heap throughout, shrinking included.\<close>

theorem qheap_calls:
  assumes "heap_order (q_before H)"
  shows "heap_ok (q_before H) (snd (heap_run H cs (new_heap n))) \<and>
    queue_answers (q_before H) {#} cs (fst (heap_run H cs (new_heap n)))
      (heap_items (snd (heap_run H cs (new_heap n))))"
  using heap_order.run_answers [OF assms refl, of "new_heap n" cs] heap_order.new_heap_ok [OF assms, of n] by simp

lemma less_heap_order: "heap_order ((<) :: nat \<Rightarrow> nat \<Rightarrow> bool)"
  by unfold_locales auto

theorem qheap_calls_witness:
  "queue_answers (<) {#} [HInsert 5, HInsert 2, HPeek, HInsert 3, HRemove, HRemove]
    (fst (heap_run \<lparr>q_before = (<), q_trim = True\<rparr> [HInsert (5::nat), HInsert 2, HPeek, HInsert 3, HRemove, HRemove] (new_heap None)))
    (heap_items (snd (heap_run \<lparr>q_before = (<), q_trim = True\<rparr> [HInsert 5, HInsert 2, HPeek, HInsert 3, HRemove, HRemove] (new_heap None))))"
  using qheap_calls [of "\<lparr>q_before = (<), q_trim = True\<rparr>"
      "[HInsert (5::nat), HInsert 2, HPeek, HInsert 3, HRemove, HRemove]" None] less_heap_order
  by (simp del: heap_run.simps queue_answers.simps)

end
