(* ===== verification/Ordering.thy ===== *)
theory Ordering
  imports QHeap "HOL-Library.AList"
begin

text \<open>
  The set of transactions a miner takes from (\<open>execution-client/src/miner/ordering.ts\<close>).

  One heap holds the next transaction of each account, a map the rest of each account in
  nonce order. A transaction is what its pool object says of it; the price function is an
  argument as in the code. The lemmas relate the two structures to one queue per account.
\<close>

section \<open>Transactions in the pool\<close>

record pool_tx =
  ptx_id :: nat
  ptx_nonce :: int
  ptx_gasPrice :: int
  ptx_gasLimit :: int
  ptx_value :: int
  ptx_dataLength :: int
  ptx_signed :: bool
  ptx_legacy :: bool
  ptx_sender :: jsstr
  ptx_hash :: jsstr

text \<open>\<open>ptx_id\<close> stands for the remaining fields of a transaction.\<close>

record pool_obj =
  po_tx :: pool_tx
  po_hash :: jsstr
  po_added :: int

record miner_tx =
  mt_obj :: pool_obj
  mt_from :: jsstr
  mt_fees :: int

section \<open>The operations\<close>

definition heads_before :: "miner_tx \<Rightarrow> miner_tx \<Rightarrow> bool" where
  "heads_before a b =
    (if mt_fees a > mt_fees b then False
     else if mt_fees a < mt_fees b then True
     else po_added (mt_obj a) > po_added (mt_obj b))"

definition heads_opts :: "miner_tx heap_opts" where
  "heads_opts = \<lparr>q_before = heads_before, q_trim = True\<rparr>"

record tx_set =
  ts_txs :: "(jsstr \<times> pool_obj list) list"
  ts_heads :: "miner_tx heap"

definition head_of :: "(pool_tx \<Rightarrow> int) \<Rightarrow> jsstr \<Rightarrow> pool_obj \<Rightarrow> miner_tx" where
  "head_of gp a x = \<lparr>mt_obj = x, mt_from = a, mt_fees = gp (po_tx x)\<rparr>"

text \<open>The loop of the constructor: the remaining transactions of each account and the list of
  heads.\<close>

fun split_heads :: "(pool_tx \<Rightarrow> int) \<Rightarrow> int \<Rightarrow> (jsstr \<times> pool_obj list) list \<Rightarrow>
    (jsstr \<times> pool_obj list) list \<Rightarrow> miner_tx list \<Rightarrow> (jsstr \<times> pool_obj list) list \<times> miner_tx list" where
  "split_heads gp minPrice [] txs heads = (txs, heads)"
| "split_heads gp minPrice ((a, objs) # rest) txs heads =
    (case filter (\<lambda>x. gp (po_tx x) \<ge> minPrice) objs of
       [] \<Rightarrow> split_heads gp minPrice rest txs heads
     | x # xs \<Rightarrow> split_heads gp minPrice rest (AList.update a xs txs) (heads @ [head_of gp a x]))"

definition new_tx_set :: "(pool_tx \<Rightarrow> int) \<Rightarrow> int \<Rightarrow> (jsstr \<times> pool_obj list) list \<Rightarrow> tx_set" where
  "new_tx_set gp minPrice byAccount = (case split_heads gp minPrice byAccount [] [] of (txs, heads) \<Rightarrow>
     \<lparr>ts_txs = txs, ts_heads = fold (heap_insert heads_opts) heads (new_heap None)\<rparr>)"

definition ts_peek :: "tx_set \<Rightarrow> (pool_tx \<times> int) option" where
  "ts_peek s = map_option (\<lambda>w. (po_tx (mt_obj w), mt_fees w)) (heap_peek (ts_heads s))"

definition ts_shift :: "(pool_tx \<Rightarrow> int) \<Rightarrow> tx_set \<Rightarrow> tx_set" where
  "ts_shift gp s = (case heap_peek (ts_heads s) of
     None \<Rightarrow> s
   | Some w \<Rightarrow> (case map_of (ts_txs s) (mt_from w) of
       Some (x # xs) \<Rightarrow>
         \<lparr>ts_txs = AList.update (mt_from w) xs (ts_txs s),
          ts_heads = heap_insert heads_opts (head_of gp (mt_from w) x) (snd (heap_remove heads_opts (ts_heads s)))\<rparr>
     | _ \<Rightarrow>
         \<lparr>ts_txs = AList.delete (mt_from w) (ts_txs s),
          ts_heads = snd (heap_remove heads_opts (ts_heads s))\<rparr>))"

definition ts_pop :: "tx_set \<Rightarrow> tx_set" where
  "ts_pop s = (case heap_remove heads_opts (ts_heads s) of
     (None, h) \<Rightarrow> s\<lparr>ts_heads := h\<rparr>
   | (Some w, h) \<Rightarrow> \<lparr>ts_txs = AList.delete (mt_from w) (ts_txs s), ts_heads = h\<rparr>)"

definition ts_empty :: "tx_set \<Rightarrow> bool" where
  "ts_empty s = (hp_length (ts_heads s) = 0)"

definition ts_clear :: "tx_set \<Rightarrow> tx_set" where
  "ts_clear s = \<lparr>ts_txs = [], ts_heads = new_heap None\<rparr>"

section \<open>One queue per account\<close>

interpretation heads: heap_order heads_before
  by unfold_locales (auto simp: heads_before_def split: if_splits)

type_synonym queues = "jsstr \<Rightarrow> pool_obj list"

definition queued_heads :: "(pool_tx \<Rightarrow> int) \<Rightarrow> queues \<Rightarrow> miner_tx multiset" where
  "queued_heads gp Q = image_mset (\<lambda>a. head_of gp a (hd (Q a))) (mset_set {a. Q a \<noteq> []})"

text \<open>The state holds the queues \<open>Q\<close>: the heap their heads, the map their tails.\<close>

definition holds_queues :: "(pool_tx \<Rightarrow> int) \<Rightarrow> queues \<Rightarrow> tx_set \<Rightarrow> bool" where
  "holds_queues gp Q s \<longleftrightarrow> finite {a. Q a \<noteq> []} \<and> heap_ok heads_before (ts_heads s) \<and>
    heap_items (ts_heads s) = queued_heads gp Q \<and>
    (\<forall>a. Q a \<noteq> [] \<longrightarrow> map_of (ts_txs s) a = Some (tl (Q a)))"

lemma queued_heads_member:
  "finite {a. Q a \<noteq> []} \<Longrightarrow> w \<in># queued_heads gp Q \<longleftrightarrow> Q (mt_from w) \<noteq> [] \<and> w = head_of gp (mt_from w) (hd (Q (mt_from w)))"
  by (auto simp: queued_heads_def head_of_def)

lemma queued_heads_drop:
  assumes f: "finite {a. Q a \<noteq> []}" and a: "Q a \<noteq> []"
  shows "queued_heads gp (Q(a := [])) = queued_heads gp Q - {#head_of gp a (hd (Q a))#}"
proof -
  have "{b. (Q(a := [])) b \<noteq> []} = {b. Q b \<noteq> []} - {a}" by auto
  moreover have "mset_set {b. Q b \<noteq> []} = add_mset a (mset_set ({b. Q b \<noteq> []} - {a}))"
    using f a by (simp add: mset_set.remove)
  moreover have "image_mset (\<lambda>b. head_of gp b (hd ((Q(a := [])) b))) (mset_set ({b. Q b \<noteq> []} - {a})) =
      image_mset (\<lambda>b. head_of gp b (hd (Q b))) (mset_set ({b. Q b \<noteq> []} - {a}))"
    by (rule image_mset_cong) (use f in auto)
  ultimately show ?thesis by (simp add: queued_heads_def)
qed

lemma queued_heads_add:
  assumes f: "finite {a. Q a \<noteq> []}" and a: "Q a = []" and xs: "xs \<noteq> []"
  shows "queued_heads gp (Q(a := xs)) = add_mset (head_of gp a (hd xs)) (queued_heads gp Q)"
proof -
  have "{b. (Q(a := xs)) b \<noteq> []} = insert a {b. Q b \<noteq> []}" using xs by auto
  moreover have "image_mset (\<lambda>b. head_of gp b (hd ((Q(a := xs)) b))) (mset_set {b. Q b \<noteq> []}) =
      image_mset (\<lambda>b. head_of gp b (hd (Q b))) (mset_set {b. Q b \<noteq> []})"
    by (rule image_mset_cong) (use f a in auto)
  ultimately show ?thesis using f a by (simp add: queued_heads_def)
qed

text \<open>What a step may choose: the head of a queue that no other head undercuts; of equal prices
  the one added last.\<close>

definition cheapest :: "(pool_tx \<Rightarrow> int) \<Rightarrow> queues \<Rightarrow> miner_tx option \<Rightarrow> bool" where
  "cheapest gp Q r = (case r of
     None \<Rightarrow> (\<forall>a. Q a = [])
   | Some w \<Rightarrow> Q (mt_from w) \<noteq> [] \<and> w = head_of gp (mt_from w) (hd (Q (mt_from w))) \<and>
       (\<forall>a. Q a \<noteq> [] \<longrightarrow> mt_fees w \<le> gp (po_tx (hd (Q a))) \<and>
         (mt_fees w = gp (po_tx (hd (Q a))) \<longrightarrow> po_added (hd (Q a)) \<le> po_added (mt_obj w))))"

lemma peek_cheapest:
  assumes h: "holds_queues gp Q s"
  shows "cheapest gp Q (heap_peek (ts_heads s))"
proof -
  have f: "finite {a. Q a \<noteq> []}" and it: "heap_items (ts_heads s) = queued_heads gp Q"
    using h by (simp_all add: holds_queues_def)
  have first: "first_of heads_before (queued_heads gp Q) (heap_peek (ts_heads s))"
    using heads.peek_first [of "ts_heads s"] h by (simp add: holds_queues_def)
  show ?thesis
  proof (cases "heap_peek (ts_heads s)")
    case None
    then show ?thesis using first f by (auto simp: first_of_def cheapest_def queued_heads_def mset_set_empty_iff)
  next
    case (Some w)
    then have w: "w \<in># queued_heads gp Q" "\<And>y. y \<in># queued_heads gp Q \<Longrightarrow> \<not> heads_before y w"
      using first by (auto simp: first_of_def)
    have "\<not> heads_before (head_of gp a (hd (Q a))) w" if "Q a \<noteq> []" for a
      using w(2) [of "head_of gp a (hd (Q a))"] that queued_heads_member [OF f] by (simp add: head_of_def)
    then show ?thesis using Some w(1) queued_heads_member [OF f]
      by (fastforce simp: cheapest_def heads_before_def head_of_def split: if_splits)
  qed
qed

text \<open>The queues after a step on the account of the chosen head.\<close>

datatype set_call = SPeek | SShift | SPop

fun set_step :: "(pool_tx \<Rightarrow> int) \<Rightarrow> set_call \<Rightarrow> tx_set \<Rightarrow> tx_set" where
  "set_step gp SPeek s = s"
| "set_step gp SShift s = ts_shift gp s"
| "set_step gp SPop s = ts_pop s"

fun queues_step :: "set_call \<Rightarrow> miner_tx option \<Rightarrow> queues \<Rightarrow> queues" where
  "queues_step SPeek r Q = Q"
| "queues_step SShift r Q = (case r of None \<Rightarrow> Q | Some w \<Rightarrow> Q(mt_from w := tl (Q (mt_from w))))"
| "queues_step SPop r Q = (case r of None \<Rightarrow> Q | Some w \<Rightarrow> Q(mt_from w := []))"

lemma remove_head:
  assumes h: "holds_queues gp Q s" and w: "heap_peek (ts_heads s) = Some w"
  shows "fst (heap_remove heads_opts (ts_heads s)) = Some w \<and>
    heap_ok heads_before (snd (heap_remove heads_opts (ts_heads s))) \<and>
    heap_items (snd (heap_remove heads_opts (ts_heads s))) = queued_heads gp (Q(mt_from w := []))"
proof -
  have f: "finite {a. Q a \<noteq> []}" using h by (simp add: holds_queues_def)
  have c: "Q (mt_from w) \<noteq> []" "w = head_of gp (mt_from w) (hd (Q (mt_from w)))"
    using peek_cheapest [OF h] w by (auto simp: cheapest_def)
  show ?thesis
    using heads.remove_ok [of heads_opts "ts_heads s"] h w queued_heads_drop [OF f c(1), of gp] c(2)
    by (simp add: holds_queues_def heads_opts_def)
qed

lemma set_step_holds:
  assumes h: "holds_queues gp Q s"
  shows "holds_queues gp (queues_step c (heap_peek (ts_heads s)) Q) (set_step gp c s)"
proof (cases "heap_peek (ts_heads s)")
  case None
  have "heap_items (ts_heads s) = {#}" using heads.peek_ok [of "ts_heads s"] h None by (simp add: holds_queues_def)
  then have "hp_length (ts_heads s) = 0" by (metis size_empty size_heap_items)
  then have "heap_remove heads_opts (ts_heads s) = (None, ts_heads s)" by (simp add: heap_remove_def)
  then show ?thesis using h None by (cases c) (simp_all add: ts_shift_def ts_pop_def)
next
  case (Some w)
  let ?a = "mt_from w" and ?h = "snd (heap_remove heads_opts (ts_heads s))"
  have f: "finite {a. Q a \<noteq> []}" using h by (simp add: holds_queues_def)
  have f': "finite {a. (Q(?a := xs)) a \<noteq> []}" for xs
    by (rule finite_subset [of _ "insert ?a {a. Q a \<noteq> []}"]) (use f in auto)
  have r: "fst (heap_remove heads_opts (ts_heads s)) = Some w" "heap_ok heads_before ?h"
    "heap_items ?h = queued_heads gp (Q(?a := []))"
    using remove_head [OF h Some] by auto
  have q: "Q ?a \<noteq> []" using peek_cheapest [OF h] Some by (simp add: cheapest_def)
  have rest: "map_of (ts_txs s) ?a = Some (tl (Q ?a))" "\<And>b. Q b \<noteq> [] \<Longrightarrow> map_of (ts_txs s) b = Some (tl (Q b))"
    using h q by (simp_all add: holds_queues_def)
  have gone: "holds_queues gp (Q(?a := [])) \<lparr>ts_txs = AList.delete ?a (ts_txs s), ts_heads = ?h\<rparr>"
    using r rest(2) f' [of "[]"] by (auto simp: holds_queues_def delete_conv')
  show ?thesis
  proof (cases c)
    case SPeek
    then show ?thesis using h by simp
  next
    case SPop
    then show ?thesis using gone Some r(1)
      by (cases "heap_remove heads_opts (ts_heads s)") (simp add: ts_pop_def)
  next
    case SShift
    show ?thesis
    proof (cases "tl (Q ?a)")
      case Nil
      then show ?thesis using SShift Some gone rest(1) by (simp add: ts_shift_def)
    next
      case (Cons x xs)
      let ?Q = "Q(?a := x # xs)"
      have "queued_heads gp ?Q = add_mset (head_of gp ?a x) (heap_items ?h)"
        using queued_heads_add [of "Q(?a := [])" ?a "x # xs" gp] f' [of "[]"] r(3) by simp
      then have "holds_queues gp ?Q \<lparr>ts_txs = AList.update ?a xs (ts_txs s),
          ts_heads = heap_insert heads_opts (head_of gp ?a x) ?h\<rparr>"
        using heads.insert_ok [of heads_opts ?h "head_of gp ?a x"] r(2) rest(2) f' [of "x # xs"]
        by (auto simp: holds_queues_def heads_opts_def update_conv')
      then show ?thesis using SShift Some rest(1) Cons by (simp add: ts_shift_def)
    qed
  qed
qed

section \<open>The constructor\<close>

definition eligible :: "(pool_tx \<Rightarrow> int) \<Rightarrow> int \<Rightarrow> (jsstr \<times> pool_obj list) list \<Rightarrow> queues" where
  "eligible gp minPrice byAccount a = (case map_of byAccount a of
     None \<Rightarrow> [] | Some xs \<Rightarrow> filter (\<lambda>x. gp (po_tx x) \<ge> minPrice) xs)"

lemma fold_insert_ok:
  "heap_ok heads_before h \<Longrightarrow> heap_ok heads_before (fold (heap_insert heads_opts) xs h) \<and>
    heap_items (fold (heap_insert heads_opts) xs h) = heap_items h + mset xs"
proof (induction xs arbitrary: h)
  case (Cons x xs)
  have "heap_ok heads_before (heap_insert heads_opts x h)" "heap_items (heap_insert heads_opts x h) = add_mset x (heap_items h)"
    using heads.insert_ok [of heads_opts h x] Cons.prems by (simp_all add: heads_opts_def)
  then show ?case using Cons.IH by simp
qed simp

lemma eligible_finite: "finite {a. eligible gp m xs a \<noteq> []}"
  by (rule finite_subset [OF _ finite_dom_map_of [of xs]]) (auto simp: eligible_def split: option.splits)

lemma split_heads_queues:
  assumes "distinct (map fst xs)" and "\<forall>a\<in>fst ` set xs. Q a = []" and "finite {a. Q a \<noteq> []}"
    and "mset heads = queued_heads gp Q" and "\<forall>a. Q a \<noteq> [] \<longrightarrow> map_of txs a = Some (tl (Q a))"
  shows "case split_heads gp m xs txs heads of (txs', heads') \<Rightarrow>
    (let Q' = (\<lambda>a. if a \<in> fst ` set xs then eligible gp m xs a else Q a) in
     mset heads' = queued_heads gp Q' \<and> (\<forall>a. Q' a \<noteq> [] \<longrightarrow> map_of txs' a = Some (tl (Q' a))))"
  using assms
proof (induction xs arbitrary: Q txs heads)
  case Nil
  then show ?case by simp
next
  case (Cons p xs)
  obtain a objs where p: "p = (a, objs)" by (cases p)
  let ?f = "filter (\<lambda>x. gp (po_tx x) \<ge> m) objs"
  let ?Q = "Q(a := ?f)"
  have a: "a \<notin> fst ` set xs" "Q a = []" using Cons.prems p by auto
  have f: "finite {b. ?Q b \<noteq> []}"
    by (rule finite_subset [of _ "insert a {b. Q b \<noteq> []}"]) (use Cons.prems(3) in auto)
  have Q': "(\<lambda>b. if b \<in> fst ` set (p # xs) then eligible gp m (p # xs) b else Q b) =
      (\<lambda>b. if b \<in> fst ` set xs then eligible gp m xs b else ?Q b)"
    using a p by (fastforce simp: eligible_def fun_eq_iff)
  have z: "\<forall>b\<in>fst ` set xs. ?Q b = []" using Cons.prems(2) a by auto
  have d: "distinct (map fst xs)" using Cons.prems(1) by simp
  show ?case
  proof (cases ?f)
    case Nil
    then have "?Q = Q" using a by auto
    then show ?thesis using Cons.IH [OF d z f] Cons.prems(4,5) Nil unfolding Q' by (simp add: p)
  next
    case (Cons x ys)
    have mh: "mset (heads @ [head_of gp a x]) = queued_heads gp ?Q"
      using queued_heads_add [OF Cons.prems(3) a(2), of ?f gp] Cons Cons.prems(4) by simp
    have mt: "\<forall>b. ?Q b \<noteq> [] \<longrightarrow> map_of (AList.update a ys txs) b = Some (tl (?Q b))"
      using Cons.prems(5) Cons by (simp add: update_conv')
    show ?thesis using Cons.IH [OF d z f mh mt] Cons unfolding Q' by (simp add: p)
  qed
qed

lemma new_tx_set_holds:
  assumes "distinct (map fst xs)"
  shows "holds_queues gp (eligible gp m xs) (new_tx_set gp m xs)"
proof -
  obtain txs heads where s: "split_heads gp m xs [] [] = (txs, heads)" by fastforce
  have out: "eligible gp m xs a = []" if "a \<notin> fst ` set xs" for a
    using that map_of_eq_None_iff [of xs a] by (simp add: eligible_def)
  have "(\<lambda>a. if a \<in> fst ` set xs then eligible gp m xs a else []) = eligible gp m xs"
    using out by (auto simp: fun_eq_iff)
  then have "mset heads = queued_heads gp (eligible gp m xs)"
    "\<forall>a. eligible gp m xs a \<noteq> [] \<longrightarrow> map_of txs a = Some (tl (eligible gp m xs a))"
    using split_heads_queues [OF assms, of "\<lambda>a. []" "[]" gp "[]" m] s
    by (simp_all add: queued_heads_def Let_def)
  then show ?thesis
    using fold_insert_ok [of "new_heap None" heads] heads.new_heap_ok [of None] eligible_finite [of gp m xs] s
    by (simp add: holds_queues_def new_tx_set_def)
qed

section \<open>Sequences of calls\<close>

fun set_run :: "(pool_tx \<Rightarrow> int) \<Rightarrow> set_call list \<Rightarrow> tx_set \<Rightarrow> miner_tx option list \<times> tx_set" where
  "set_run gp [] s = ([], s)"
| "set_run gp (c # cs) s = (case set_run gp cs (set_step gp c s) of
     (rs, s') \<Rightarrow> (heap_peek (ts_heads s) # rs, s'))"

fun set_answers :: "(pool_tx \<Rightarrow> int) \<Rightarrow> queues \<Rightarrow> set_call list \<Rightarrow> miner_tx option list \<Rightarrow> queues \<Rightarrow> bool" where
  "set_answers gp Q [] rs Q' = (rs = [] \<and> Q' = Q)"
| "set_answers gp Q (c # cs) [] Q' = False"
| "set_answers gp Q (c # cs) (r # rs) Q' = (cheapest gp Q r \<and> set_answers gp (queues_step c r Q) cs rs Q')"

lemma set_run_answers:
  "holds_queues gp Q s \<Longrightarrow> \<exists>Q'. set_answers gp Q cs (fst (set_run gp cs s)) Q' \<and>
    holds_queues gp Q' (snd (set_run gp cs s))"
proof (induction cs arbitrary: Q s)
  case (Cons c cs)
  have "holds_queues gp (queues_step c (heap_peek (ts_heads s)) Q) (set_step gp c s)"
    by (rule set_step_holds [OF Cons.prems])
  from Cons.IH [OF this] show ?case using peek_cheapest [OF Cons.prems]
    by (cases "set_run gp cs (set_step gp c s)") auto
qed simp

lemma empty_iff: "holds_queues gp Q s \<Longrightarrow> ts_empty s \<longleftrightarrow> (\<forall>a. Q a = [])"
proof -
  assume h: "holds_queues gp Q s"
  have "ts_empty s \<longleftrightarrow> size (queued_heads gp Q) = 0"
    using h size_heap_items [of "ts_heads s"] by (simp add: ts_empty_def holds_queues_def del: size_heap_items)
  then show ?thesis using h by (auto simp: queued_heads_def holds_queues_def mset_set_empty_iff)
qed

text \<open>C2: the transaction set is one queue per account: of each account the transactions of at
  least the minimum price, in the order given. For any sequence of \<open>peek\<close>, \<open>shift\<close> and \<open>pop\<close>,
  each answers the head of a queue; \<open>shift\<close> takes it from its queue and \<open>pop\<close> drops the
  account, so that nonces are never reordered within an account; \<open>empty\<close> is true exactly when
  all queues are. The head answered is one of the LOWEST price, the one added last on a tie:
  the comparison, written for a heap with the greatest element on top, is given to a heap with
  the least on top.\<close>

theorem tx_set_calls:
  assumes "distinct (map fst xs)"
  shows "\<exists>Q. set_answers gp (eligible gp m xs) cs (fst (set_run gp cs (new_tx_set gp m xs))) Q \<and>
    (ts_empty (snd (set_run gp cs (new_tx_set gp m xs))) \<longleftrightarrow> (\<forall>a. Q a = []))"
  using set_run_answers [OF new_tx_set_holds [OF assms, of gp m], of cs] empty_iff by blast

definition demo_tx :: "nat \<Rightarrow> int \<Rightarrow> int \<Rightarrow> pool_obj" where
  "demo_tx i n p = \<lparr>po_tx = \<lparr>ptx_id = i, ptx_nonce = n, ptx_gasPrice = p, ptx_gasLimit = 21000, ptx_value = 0,
     ptx_dataLength = 0, ptx_signed = True, ptx_legacy = True, ptx_sender = [i], ptx_hash = [i, 48]\<rparr>,
     po_hash = [i, 48], po_added = 0\<rparr>"

theorem tx_set_calls_witness:
  "\<exists>Q. set_answers ptx_gasPrice (eligible ptx_gasPrice 0 [([97], [demo_tx 1 0 10]), ([98], [demo_tx 2 0 30])])
      [SShift, SPeek] (fst (set_run ptx_gasPrice [SShift, SPeek]
        (new_tx_set ptx_gasPrice 0 [([97], [demo_tx 1 0 10]), ([98], [demo_tx 2 0 30])]))) Q"
  using tx_set_calls [of "[([97], [demo_tx 1 0 10]), ([98], [demo_tx 2 0 30])]" ptx_gasPrice 0 "[SShift, SPeek]"]
  by (auto simp del: set_run.simps set_answers.simps)

end
