(* ===== verification/TxPool.thy ===== *)
theory TxPool
  imports Ordering
begin

text \<open>
  The transaction pool (\<open>execution-client/src/service/txpool.ts\<close>).

  Two maps from senders to their transactions (executable and future ones), a heap of all of
  them by price, and indexes by hash. Each handler of the code is one function of the state;
  what a handler awaits (the head block and the accounts at its state root) is the argument
  \<open>pool_env\<close>, and the time is an argument too. A loop that might not end is a partial function
  whose value is then \<open>None\<close>. Networking (broadcasts, the record of what peers know) and the
  logger are left out.
\<close>

section \<open>State\<close>

datatype pool_kind = Pending | Queued

record handled =
  hd_address :: jsstr
  hd_added :: int
  hd_error :: bool

record txpool =
  tp_pending :: "(jsstr \<times> pool_obj list) list"
  tp_queued :: "(jsstr \<times> pool_obj list) list"
  tp_nonces :: "(jsstr \<times> int) list"
  tp_locals :: "jsstr list"
  tp_priced :: "pool_obj heap"
  tp_handled :: "(jsstr \<times> handled) list"
  tp_index :: "(jsstr \<times> (jsstr \<times> pool_kind)) list"
  tp_pendingCount :: int
  tp_queuedCount :: int
  tp_running :: bool

record pool_env =
  pe_nonce :: "jsstr \<Rightarrow> int"
  pe_balance :: "jsstr \<Rightarrow> int"
  pe_gasLimit :: int
  pe_rootOk :: bool

definition TX_MAX_DATA_SIZE :: int where "TX_MAX_DATA_SIZE = 131072"
definition MAX_TXS_PER_ACCOUNT :: nat where "MAX_TXS_PER_ACCOUNT = 100"
definition GLOBAL_SLOTS :: int where "GLOBAL_SLOTS = 4096"
definition GLOBAL_QUEUE :: int where "GLOBAL_QUEUE = 1024"
definition ACCOUNT_SLOTS :: nat where "ACCOUNT_SLOTS = 16"
definition ACCOUNT_QUEUE :: nat where "ACCOUNT_QUEUE = 64"

definition priced_before :: "pool_obj \<Rightarrow> pool_obj \<Rightarrow> bool" where
  "priced_before a b = (ptx_gasPrice (po_tx a) < ptx_gasPrice (po_tx b))"

definition priced_opts :: "pool_obj heap_opts" where
  "priced_opts = \<lparr>q_before = priced_before, q_trim = True\<rparr>"

definition new_pool :: txpool where
  "new_pool = \<lparr>tp_pending = [], tp_queued = [], tp_nonces = [], tp_locals = [], tp_priced = new_heap None,
     tp_handled = [], tp_index = [], tp_pendingCount = 0, tp_queuedCount = 0, tp_running = False\<rparr>"

definition txs_of :: "(jsstr \<times> pool_obj list) list \<Rightarrow> jsstr \<Rightarrow> pool_obj list" where
  "txs_of m a = (case map_of m a of None \<Rightarrow> [] | Some xs \<Rightarrow> xs)"

definition pool_txs :: "pool_kind \<Rightarrow> txpool \<Rightarrow> (jsstr \<times> pool_obj list) list" where
  "pool_txs k s = (case k of Pending \<Rightarrow> tp_pending s | Queued \<Rightarrow> tp_queued s)"

definition set_pool_txs :: "pool_kind \<Rightarrow> (jsstr \<times> pool_obj list) list \<Rightarrow> txpool \<Rightarrow> txpool" where
  "set_pool_txs k m s = (case k of Pending \<Rightarrow> s\<lparr>tp_pending := m\<rparr> | Queued \<Rightarrow> s\<lparr>tp_queued := m\<rparr>)"

definition bump_count :: "pool_kind \<Rightarrow> int \<Rightarrow> txpool \<Rightarrow> txpool" where
  "bump_count k d s = (case k of
     Pending \<Rightarrow> s\<lparr>tp_pendingCount := tp_pendingCount s + d\<rparr>
   | Queued \<Rightarrow> s\<lparr>tp_queuedCount := tp_queuedCount s + d\<rparr>)"

definition by_nonce :: "pool_obj list \<Rightarrow> pool_obj list" where
  "by_nonce xs = sort_key (\<lambda>x. ptx_nonce (po_tx x)) xs"

text \<open>A map entry that would become empty is deleted.\<close>

definition put_txs :: "jsstr \<Rightarrow> pool_obj list \<Rightarrow> (jsstr \<times> pool_obj list) list \<Rightarrow> (jsstr \<times> pool_obj list) list" where
  "put_txs a xs m = (if xs = [] then AList.delete a m else AList.update a xs m)"

section \<open>Prices\<close>

text \<open>The tip and the maximal fee.\<close>

definition txGasPrice :: "pool_tx \<Rightarrow> (int \<times> int) res" where
  "txGasPrice t = (if ptx_legacy t then Inr (ptx_gasPrice t, ptx_gasPrice t) else throw ''tx of type unknown'')"

lemma remove_shorter: "hp_length h > 0 \<Longrightarrow> hp_length (snd (heap_remove H h)) < hp_length h"
  by (simp add: heap_remove_def Let_def split: prod.split)

function reprice :: "jsstr \<Rightarrow> pool_obj heap \<Rightarrow> pool_obj heap \<Rightarrow> pool_obj heap" where
  "reprice hash h new =
    (if hp_length h > 0 then
       (case heap_remove priced_opts h of (item, h') \<Rightarrow>
          reprice hash (snd (heap_remove priced_opts h))
            (case item of
               Some x \<Rightarrow> if po_hash x \<noteq> hash then heap_insert priced_opts x new else new
             | None \<Rightarrow> new))
     else new)"
  by pat_completeness auto
termination
  by (relation "measure (\<lambda>(hash, h, new). hp_length h)") (simp_all add: remove_shorter)

declare reprice.simps [simp del]

definition removeFromPriced :: "pool_obj \<Rightarrow> txpool \<Rightarrow> txpool" where
  "removeFromPriced x s = s\<lparr>tp_priced := reprice (po_hash x) (tp_priced s) (new_heap None)\<rparr>"

definition getMinPrice :: "txpool \<Rightarrow> int" where
  "getMinPrice s = (case heap_peek (tp_priced s) of None \<Rightarrow> 0 | Some x \<Rightarrow> ptx_gasPrice (po_tx x))"

definition clearNonceCache :: "jsstr option \<Rightarrow> txpool \<Rightarrow> txpool" where
  "clearNonceCache address s = (case address of
     Some a \<Rightarrow> s\<lparr>tp_nonces := AList.delete a (tp_nonces s)\<rparr> | None \<Rightarrow> s\<lparr>tp_nonces := []\<rparr>)"

definition validateTxGasBump :: "pool_tx \<Rightarrow> pool_tx \<Rightarrow> unit res" where
  "validateTxGasBump existing added =
    bindE (txGasPrice existing) (\<lambda>(tip, maxFee). bindE (txGasPrice added) (\<lambda>(tip', maxFee').
      let minTipCap = tip + (tip * 10) div 100; minFeeCap = maxFee + (maxFee * 10) div 100 in
      if tip' < minTipCap \<or> maxFee' < minFeeCap then throw ''replacement gas too low'' else Inr ()))"

section \<open>Validation\<close>

definition validate :: "pool_env \<Rightarrow> pool_tx \<Rightarrow> bool \<Rightarrow> txpool \<Rightarrow> unit res" where
  "validate E t isLocal s =
    (if \<not> ptx_signed t then throw ''Attempting to add tx to txpool which is not signed''
     else if ptx_dataLength t > TX_MAX_DATA_SIZE then throw ''Tx is too large''
     else bindE (txGasPrice t) (\<lambda>(tip, maxFee).
       if \<not> isLocal \<and> tp_pendingCount s + tp_queuedCount s \<ge> 4608 \<and> tip \<le> getMinPrice s
       then throw ''Transaction underpriced''
       else
         (let txs = txs_of (tp_pending s) (ptx_sender t) @ txs_of (tp_queued s) (ptx_sender t) in
          bindE
            (if txs \<noteq> [] \<and> \<not> isLocal \<and> length txs \<ge> MAX_TXS_PER_ACCOUNT
             then throw ''already have max amount of txs for this account''
             else (case find (\<lambda>x. ptx_nonce (po_tx x) = ptx_nonce t) txs of
                 None \<Rightarrow> Inr ()
               | Some x \<Rightarrow>
                   if ptx_hash (po_tx x) = ptx_hash t then throw ''this transaction is already in the TxPool''
                   else validateTxGasBump (po_tx x) t))
            (\<lambda>_.
              if ptx_gasLimit t > pe_gasLimit E then throw ''exceeds last block gas limit''
              else if pe_nonce E (ptx_sender t) > ptx_nonce t then throw ''tx nonce too low''
              else if pe_balance E (ptx_sender t) < ptx_value t + maxFee * ptx_gasLimit t
              then throw ''insufficient balance''
              else Inr ()))))"

text \<open>The cached nonce of an account, fetched once.\<close>

definition account_nonce :: "pool_env \<Rightarrow> jsstr \<Rightarrow> txpool \<Rightarrow> int \<times> txpool" where
  "account_nonce E a s = (case map_of (tp_nonces s) a of
     Some n \<Rightarrow> (n, s)
   | None \<Rightarrow> (pe_nonce E a, s\<lparr>tp_nonces := AList.update a (pe_nonce E a) (tp_nonces s)\<rparr>))"

definition max_nonce :: "pool_obj list \<Rightarrow> int" where
  "max_nonce xs = fold (\<lambda>x m. if ptx_nonce (po_tx x) > m then ptx_nonce (po_tx x) else m) xs
    (ptx_nonce (po_tx (hd xs)))"

definition classifyTransaction :: "pool_env \<Rightarrow> pool_tx \<Rightarrow> jsstr \<Rightarrow> txpool \<Rightarrow> pool_kind \<times> txpool" where
  "classifyTransaction E t a s = (case account_nonce E a s of (n, s') \<Rightarrow>
     let pend = txs_of (tp_pending s') a in
     if pend \<noteq> [] \<and> ptx_nonce t = max_nonce pend + 1 then (Pending, s')
     else if ptx_nonce t = n then (Pending, s')
     else (Queued, s'))"

section \<open>Removal and eviction\<close>

definition removeByHash :: "jsstr \<Rightarrow> txpool \<Rightarrow> txpool" where
  "removeByHash hash s = (case map_of (tp_handled s) hash of
     None \<Rightarrow> s
   | Some h \<Rightarrow>
       (let a = hd_address h;
            k = (if list_ex (\<lambda>x. po_hash x = hash) (txs_of (tp_pending s) a) then Pending else Queued) in
        (case find (\<lambda>x. po_hash x = hash) (txs_of (pool_txs k s) a) of
           None \<Rightarrow> s
         | Some x \<Rightarrow>
             (let s1 = set_pool_txs k (put_txs a (filter (\<lambda>x. po_hash x \<noteq> hash) (txs_of (pool_txs k s) a))
                         (pool_txs k s)) s;
                  s2 = removeFromPriced x (bump_count k (- 1) s1) in
              s2\<lparr>tp_index := AList.delete hash (tp_index s2), tp_locals := removeAll hash (tp_locals s2)\<rparr>))))"

text \<open>The search starts from \<open>Number.MAX_SAFE_INTEGER\<close> and takes a strictly lower price.\<close>

fun lowest_of :: "jsstr list \<Rightarrow> pool_obj list \<Rightarrow> int \<times> pool_obj option \<Rightarrow> int \<times> pool_obj option" where
  "lowest_of locals [] r = r"
| "lowest_of locals (x # xs) (p, r) = lowest_of locals xs
    (if po_hash x \<in> set locals then (p, r)
     else if ptx_gasPrice (po_tx x) < p then (ptx_gasPrice (po_tx x), Some x) else (p, r))"

definition evictLowestPriced :: "pool_kind \<Rightarrow> txpool \<Rightarrow> bool \<times> txpool" where
  "evictLowestPriced k s =
    (case lowest_of (tp_locals s) (concat (map snd (pool_txs k s))) (9007199254740991, None) of
       (_, None) \<Rightarrow> (False, s)
     | (_, Some x) \<Rightarrow> (True, removeByHash (po_hash x) s))"

definition count_of :: "pool_kind \<Rightarrow> txpool \<Rightarrow> int" where
  "count_of k s = (case k of Pending \<Rightarrow> tp_pendingCount s | Queued \<Rightarrow> tp_queuedCount s)"

partial_function (option) enforce :: "pool_kind \<Rightarrow> int \<Rightarrow> txpool \<Rightarrow> txpool option" where
  "enforce k limit s =
    (if count_of k s > limit then
       (case evictLowestPriced k s of (evicted, s') \<Rightarrow> if evicted then enforce k limit s' else Some s')
     else Some s)"

declare enforce.simps [code]

definition enforcePoolLimits :: "txpool \<Rightarrow> txpool option" where
  "enforcePoolLimits s = Option.bind (enforce Pending GLOBAL_SLOTS s) (enforce Queued GLOBAL_QUEUE)"

section \<open>Promotion and demotion\<close>

text \<open>The pass over the queued transactions of an account: those to promote, those to keep,
  those that are stale.\<close>

fun promote_split :: "int \<Rightarrow> int \<Rightarrow> pool_obj list \<Rightarrow> pool_obj list \<times> pool_obj list \<times> pool_obj list" where
  "promote_split acct next [] = ([], [], [])"
| "promote_split acct next (x # xs) =
    (if ptx_nonce (po_tx x) = next then
       (case promote_split acct (ptx_nonce (po_tx x) + 1) xs of (p, r, d) \<Rightarrow> (x # p, r, d))
     else if ptx_nonce (po_tx x) < acct then
       (case promote_split acct next xs of (p, r, d) \<Rightarrow> (p, r, x # d))
     else (case promote_split acct next xs of (p, r, d) \<Rightarrow> (p, x # r, d)))"

definition drop_stale :: "pool_obj \<Rightarrow> txpool \<Rightarrow> txpool" where
  "drop_stale x s = (let s1 = removeFromPriced x (bump_count Queued (- 1) s) in
     s1\<lparr>tp_handled := AList.delete (po_hash x) (tp_handled s1), tp_index := AList.delete (po_hash x) (tp_index s1)\<rparr>)"

definition promote_address :: "pool_env \<Rightarrow> jsstr \<Rightarrow> txpool \<Rightarrow> txpool" where
  "promote_address E a s =
    (if txs_of (tp_queued s) a = [] then s
     else (case account_nonce E a s of (n, s1) \<Rightarrow>
       (let pend = txs_of (tp_pending s1) a;
            next = (if pend \<noteq> [] then max_nonce pend + 1 else n) in
        (case promote_split n next (by_nonce (txs_of (tp_queued s1) a)) of (p, r, d) \<Rightarrow>
          (let s2 = fold drop_stale d s1;
               s3 = (if p = [] then s2 else
                 s2\<lparr>tp_pending := AList.update a (by_nonce (pend @ p)) (tp_pending s2),
                    tp_pendingCount := tp_pendingCount s2 + int (length p),
                    tp_queuedCount := tp_queuedCount s2 - int (length p),
                    tp_index := fold (\<lambda>x. AList.update (po_hash x) (a, Pending)) p (tp_index s2)\<rparr>) in
           s3\<lparr>tp_queued := put_txs a r (tp_queued s3)\<rparr>)))))"

definition promoteExecutables :: "pool_env \<Rightarrow> jsstr option \<Rightarrow> txpool \<Rightarrow> txpool" where
  "promoteExecutables E address s =
    fold (promote_address E) (case address of Some a \<Rightarrow> [a] | None \<Rightarrow> map fst (tp_queued s)) s"

text \<open>The pass over the pending transactions of an account: those that stay, those to demote,
  those to remove.\<close>

fun demote_split :: "int \<Rightarrow> int \<Rightarrow> int \<Rightarrow> pool_obj list \<Rightarrow> pool_obj list \<times> pool_obj list \<times> pool_obj list" where
  "demote_split acct bal lastn [] = ([], [], [])"
| "demote_split acct bal lastn (x # xs) = (let t = po_tx x in
    if ptx_nonce t < acct then
      (case demote_split acct bal lastn xs of (k, d, r) \<Rightarrow> (k, d, x # r))
    else if bal < ptx_value t + ptx_gasPrice t * ptx_gasLimit t \<or> ptx_nonce t \<noteq> lastn + 1 then
      (case demote_split acct bal lastn xs of (k, d, r) \<Rightarrow> (k, x # d, r))
    else (case demote_split acct bal (ptx_nonce t) xs of (k, d, r) \<Rightarrow> (x # k, d, r)))"

definition drop_mined :: "pool_obj \<Rightarrow> txpool \<Rightarrow> txpool" where
  "drop_mined x s = (let s1 = removeFromPriced x (bump_count Pending (- 1) s) in
     s1\<lparr>tp_handled := AList.delete (po_hash x) (tp_handled s1), tp_locals := removeAll (po_hash x) (tp_locals s1)\<rparr>)"

definition demote_address :: "pool_env \<Rightarrow> jsstr \<times> pool_obj list \<Rightarrow> txpool \<Rightarrow> txpool" where
  "demote_address E entry s = (case entry of (a, txs) \<Rightarrow>
     (let s1 = s\<lparr>tp_nonces := AList.update a (pe_nonce E a) (tp_nonces s)\<rparr> in
      (case demote_split (pe_nonce E a) (pe_balance E a) (pe_nonce E a - 1) (by_nonce txs) of (k, d, r) \<Rightarrow>
        (let s2 = fold drop_mined r s1;
             s3 = (if d = [] then s2 else
               s2\<lparr>tp_queued := AList.update a (by_nonce (txs_of (tp_queued s2) a @ d)) (tp_queued s2),
                  tp_pendingCount := tp_pendingCount s2 - int (length d),
                  tp_queuedCount := tp_queuedCount s2 + int (length d)\<rparr>) in
         s3\<lparr>tp_pending := put_txs a k (tp_pending s3)\<rparr>))))"

definition demoteUnexecutables :: "pool_env \<Rightarrow> txpool \<Rightarrow> txpool" where
  "demoteUnexecutables E s = (if pe_rootOk E then fold (demote_address E) (tp_pending s) s else s)"

section \<open>Adding\<close>

definition index_by_nonce :: "int \<Rightarrow> pool_obj list \<Rightarrow> pool_obj option" where
  "index_by_nonce n xs = find (\<lambda>x. ptx_nonce (po_tx x) = n) xs"

definition add_to :: "pool_env \<Rightarrow> int \<Rightarrow> pool_tx \<Rightarrow> bool \<Rightarrow> pool_kind \<Rightarrow> txpool \<Rightarrow> (unit res \<times> txpool) option" where
  "add_to E now t isLocal k s =
    (let a = ptx_sender t; hash = ptx_hash t; existing = txs_of (pool_txs k s) a;
         replaced = index_by_nonce (ptx_nonce t) existing;
         s1 = (case replaced of None \<Rightarrow> s | Some old \<Rightarrow>
           bump_count k (- 1) ((removeFromPriced old s)\<lparr>tp_index := AList.delete (po_hash old) (tp_index s)\<rparr>));
         kept = (case replaced of None \<Rightarrow> existing | Some old \<Rightarrow> remove1 old existing) in
     if \<not> isLocal \<and> length kept \<ge> (case k of Pending \<Rightarrow> ACCOUNT_SLOTS | Queued \<Rightarrow> ACCOUNT_QUEUE)
     then Some (throw ''Cannot add tx: account exceeds limit'', s1)
     else
       (let x = \<lparr>po_tx = t, po_hash = hash, po_added = now\<rparr>;
            s2 = set_pool_txs k (AList.update a (by_nonce (kept @ [x])) (pool_txs k s1)) s1;
            s3 = s2\<lparr>tp_priced := heap_insert priced_opts x (tp_priced s2),
              tp_locals := (if isLocal then List.insert hash (tp_locals s2) else tp_locals s2)\<rparr>;
            s4 = bump_count k 1 s3;
            s5 = s4\<lparr>tp_handled := AList.update hash \<lparr>hd_address = a, hd_added = now, hd_error = False\<rparr> (tp_handled s4),
              tp_index := AList.update hash (a, k) (tp_index s4)\<rparr>;
            s6 = (if k = Pending then promoteExecutables E (Some a) s5 else s5) in
        map_option (\<lambda>s'. (Inr (), s')) (enforcePoolLimits s6)))"

text \<open>The hash of an unsigned transaction throws before the pool is touched. Every later error
  is recorded for the hash.\<close>

definition pool_add :: "pool_env \<Rightarrow> int \<Rightarrow> pool_tx \<Rightarrow> bool \<Rightarrow> txpool \<Rightarrow> (unit res \<times> txpool) option" where
  "pool_add E now t isLocal s =
    (if \<not> ptx_signed t then Some (throw ''Cannot call hash method if transaction is not signed'', s)
     else map_option
       (\<lambda>(r, s'). (case r of
          Inr _ \<Rightarrow> (r, s')
        | Inl e \<Rightarrow> (r, s'\<lparr>tp_handled := AList.update (ptx_hash t)
            \<lparr>hd_address = ptx_sender t, hd_added = now, hd_error = True\<rparr> (tp_handled s')\<rparr>)))
       (case validate E t isLocal s of
          Inl e \<Rightarrow> Some (Inl e, s)
        | Inr _ \<Rightarrow> (case classifyTransaction E t (ptx_sender t) s of (k, s1) \<Rightarrow> add_to E now t isLocal k s1)))"

section \<open>Queries and maintenance\<close>

definition hasHandled :: "jsstr \<Rightarrow> txpool \<Rightarrow> bool" where
  "hasHandled hash s = (map_of (tp_handled s) hash \<noteq> None)"

definition getByHash1 :: "txpool \<Rightarrow> jsstr \<Rightarrow> pool_tx option" where
  "getByHash1 s hash = (case map_of (tp_handled s) hash of
     None \<Rightarrow> None
   | Some h \<Rightarrow> if hd_error h then None else
       (case map_of (tp_index s) hash of
          None \<Rightarrow> None
        | Some (a, k) \<Rightarrow> map_option po_tx (find (\<lambda>x. po_hash x = hash) (txs_of (pool_txs k s) a))))"

definition getByHash :: "jsstr list \<Rightarrow> txpool \<Rightarrow> pool_tx list" where
  "getByHash hashes s = List.map_filter (getByHash1 s) hashes"

definition removeNewBlockTxs :: "pool_tx list list \<Rightarrow> txpool \<Rightarrow> txpool" where
  "removeNewBlockTxs newBlocks s =
    (if \<not> tp_running s then s else fold (\<lambda>t. removeByHash (ptx_hash t)) (concat newBlocks) s)"

definition drop_old :: "pool_obj \<Rightarrow> txpool \<Rightarrow> txpool" where
  "drop_old x s = (let s1 = removeFromPriced x s in
     s1\<lparr>tp_handled := AList.delete (po_hash x) (tp_handled s1), tp_index := AList.delete (po_hash x) (tp_index s1),
        tp_locals := removeAll (po_hash x) (tp_locals s1)\<rparr>)"

definition cleanup_address :: "int \<Rightarrow> pool_kind \<Rightarrow> jsstr \<times> pool_obj list \<Rightarrow> txpool \<Rightarrow> txpool" where
  "cleanup_address compDate k entry s = (case entry of (a, txs) \<Rightarrow>
     (let keep = filter (\<lambda>x. po_added x \<ge> compDate) txs; removed = length txs - length keep in
      if removed > 0 then
        (let s1 = fold drop_old (filter (\<lambda>x. po_added x < compDate) txs) (bump_count k (- int removed) s) in
         set_pool_txs k (put_txs a keep (pool_txs k s1)) s1)
      else s))"

text \<open>Twenty minutes for pooled transactions, sixty for the record of handled ones.\<close>

definition pool_cleanup :: "int \<Rightarrow> txpool \<Rightarrow> txpool" where
  "pool_cleanup now s = (let compDate = now - 1200000;
     s1 = fold (cleanup_address compDate Pending) (tp_pending s) s;
     s2 = fold (cleanup_address compDate Queued) (tp_queued s1) s1 in
     s2\<lparr>tp_handled := filter (\<lambda>(hash, h). \<not> hd_added h < now - 3600000) (tp_handled s2)\<rparr>)"

text \<open>A failed re-injection is logged and skipped. Errors of the caches do not escape.\<close>

fun reinject :: "pool_env \<Rightarrow> int \<Rightarrow> jsstr list \<Rightarrow> pool_tx list \<Rightarrow> txpool \<Rightarrow> txpool option" where
  "reinject E now mined [] s = Some s"
| "reinject E now mined (t # ts) s =
    (if ptx_hash t \<in> set mined \<or> hasHandled (ptx_hash t) s then reinject E now mined ts s
     else Option.bind (pool_add E now t True s) (\<lambda>(r, s'). reinject E now mined ts s'))"

definition handleReorg :: "pool_env \<Rightarrow> int \<Rightarrow> pool_tx list list \<Rightarrow> pool_tx list list \<Rightarrow> txpool \<Rightarrow> txpool option" where
  "handleReorg E now oldBlocks newBlocks s =
    map_option (\<lambda>s1. promoteExecutables E None (demoteUnexecutables E
        (removeNewBlockTxs newBlocks (s1\<lparr>tp_nonces := []\<rparr>))))
      (reinject E now (map ptx_hash (concat newBlocks)) (concat oldBlocks) s)"

text \<open>The accounts of the priority addresses come first in the map.\<close>

fun split_priority :: "pool_env \<Rightarrow> jsstr list \<Rightarrow> (jsstr \<times> pool_obj list) list \<Rightarrow>
    ((jsstr \<times> pool_obj list) list \<times> (jsstr \<times> pool_obj list) list) res" where
  "split_priority E prio [] = Inr ([], [])"
| "split_priority E prio ((a, txs) # rest) = (case by_nonce txs of
     [] \<Rightarrow> throw ''TypeError: Cannot read properties of undefined''
   | x # xs \<Rightarrow> bindE (split_priority E prio rest) (\<lambda>(p, n). Inr
       (if ptx_nonce (po_tx x) \<noteq> pe_nonce E a then (p, n)
        else if a \<in> set prio then ((a, x # xs) # p, n) else (p, (a, x # xs) # n))))"

definition txsByPriceAndNonce :: "pool_env \<Rightarrow> int option \<Rightarrow> jsstr list \<Rightarrow> txpool \<Rightarrow> tx_set res" where
  "txsByPriceAndNonce E minGasPrice prio s =
    bindE (split_priority E prio (tp_pending s)) (\<lambda>(p, n).
      Inr (new_tx_set ptx_gasPrice (case minGasPrice of None \<Rightarrow> 0 | Some g \<Rightarrow> g) (p @ n)))"

definition pool_start :: "txpool \<Rightarrow> bool \<times> txpool" where
  "pool_start s = (if tp_running s then (False, s) else (True, s\<lparr>tp_running := True\<rparr>))"

definition pool_stop :: "txpool \<Rightarrow> bool \<times> txpool" where
  "pool_stop s = (if \<not> tp_running s then (False, s) else (True, s\<lparr>tp_running := False\<rparr>))"

definition pool_close :: "txpool \<Rightarrow> txpool" where
  "pool_close s = s\<lparr>tp_pending := [], tp_queued := [], tp_handled := [], tp_nonces := [], tp_locals := [],
     tp_pendingCount := 0, tp_queuedCount := 0, tp_priced := new_heap None\<rparr>"

end
