(* ===== verification/PoolInvariant.thy ===== *)
theory PoolInvariant
  imports TxPool
begin

text \<open>
  What the transaction pool keeps true: the counters count the two maps, the heap holds exactly
  the pooled transactions, each stands under its own sender and is known to the handled record,
  and neither a hash nor a nonce of a sender is pooled twice (\<open>pool_rep\<close>). Every handler changes the two lists of one sender
  at a time; \<open>rep_step\<close> is the one lemma all of them rest on. The last part shows where the
  code breaks its own books.
\<close>

section \<open>The heap of prices\<close>

interpretation priced: heap_order priced_before
  by unfold_locales (auto simp: priced_before_def)

lemma priced_opts_before [simp]: "q_before priced_opts = priced_before"
  by (simp add: priced_opts_def)

lemma reprice_ok:
  "heap_ok priced_before h \<Longrightarrow> heap_ok priced_before new \<Longrightarrow>
    heap_ok priced_before (reprice hash h new) \<and>
    heap_items (reprice hash h new) = heap_items new + filter_mset (\<lambda>x. po_hash x \<noteq> hash) (heap_items h)"
proof (induction "hp_length h" arbitrary: h new rule: less_induct)
  case less
  show ?case
  proof (cases "hp_length h > 0")
    case False
    then have "heap_items h = {#}" by (metis neq0_conv size_eq_0_iff_empty size_heap_items)
    then show ?thesis using False less.prems by (subst (1 2) reprice.simps) simp
  next
    case True
    obtain r h' where r: "heap_remove priced_opts h = (r, h')" by fastforce
    have "heap_items h \<noteq> {#}" using True by (metis size_empty size_heap_items less_irrefl)
    then obtain m where m: "heap_peek h = Some m" "m \<in># heap_items h"
      using priced.peek_ok [OF less.prems(1)] by auto
    have rm: "r = Some m" "heap_ok priced_before h'" "heap_items h' = heap_items h - {#m#}"
      using priced.remove_ok [OF priced_opts_before less.prems(1)] r m(1) by simp_all
    let ?new = "if po_hash m \<noteq> hash then heap_insert priced_opts m new else new"
    have new: "heap_ok priced_before ?new"
      "heap_items ?new = heap_items new + (if po_hash m \<noteq> hash then {#m#} else {#})"
      using priced.insert_ok [OF priced_opts_before less.prems(2), of m] less.prems(2) by simp_all
    have lt: "hp_length h' < hp_length h" using remove_shorter [OF True, of priced_opts] r by simp
    have "heap_items h = add_mset m (heap_items h')" using rm(3) m(2) by simp
    then show ?thesis using less.hyps [OF lt rm(2) new(1)] new(2) True r rm(1)
      by (subst (1 2) reprice.simps) simp
  qed
qed

definition unprice :: "pool_obj list \<Rightarrow> pool_obj heap \<Rightarrow> pool_obj heap" where
  "unprice xs h = fold (\<lambda>x h. reprice (po_hash x) h (new_heap None)) xs h"

lemma unprice_ok:
  "heap_ok priced_before h \<Longrightarrow> heap_ok priced_before (unprice xs h) \<and>
    heap_items (unprice xs h) = filter_mset (\<lambda>y. po_hash y \<notin> po_hash ` set xs) (heap_items h)"
proof (induction xs arbitrary: h)
  case (Cons x xs)
  have r: "heap_ok priced_before (reprice (po_hash x) h (new_heap None))"
    "heap_items (reprice (po_hash x) h (new_heap None)) = filter_mset (\<lambda>y. po_hash y \<noteq> po_hash x) (heap_items h)"
    using reprice_ok [OF Cons.prems, of "new_heap None" "po_hash x"] priced.new_heap_ok [of None] by simp_all
  show ?case using Cons.IH [OF r(1)] r(2)
    by (simp add: unprice_def filter_filter_mset conj_commute)
qed (simp add: unprice_def)

section \<open>The lists of a sender\<close>

lemma put_txs_keys: "distinct (map fst m) \<Longrightarrow> distinct (map fst (put_txs a xs m))"
  by (simp add: put_txs_def distinct_update distinct_delete)

lemma put_txs_lookup: "txs_of (put_txs a xs m) b = (if b = a then xs else txs_of m b)"
  by (auto simp: txs_of_def put_txs_def update_conv' delete_conv')

lemma txs_of_entry: "distinct (map fst m) \<Longrightarrow> (a, xs) \<in> set m \<Longrightarrow> txs_of m a = xs"
  by (simp add: txs_of_def)

lemma mset_update:
  "distinct (map fst m) \<Longrightarrow>
    mset (concat (map snd (AList.update a xs m))) + mset (txs_of m a) = mset (concat (map snd m)) + mset xs"
proof (induction m)
  case (Cons p m)
  show ?case
  proof (cases "fst p = a")
    case True
    then show ?thesis using Cons.prems by (cases p) (simp add: txs_of_def)
  next
    case False
    then show ?thesis using Cons by (cases p) (simp add: txs_of_def)
  qed
qed (simp add: txs_of_def)

lemma mset_delete:
  "distinct (map fst m) \<Longrightarrow>
    mset (concat (map snd (AList.delete a m))) + mset (txs_of m a) = mset (concat (map snd m))"
proof (induction m)
  case (Cons p m)
  show ?case
  proof (cases "fst p = a")
    case True
    then have "AList.delete a m = m" using Cons.prems by (cases p) (auto simp: delete_id)
    then show ?thesis using True by (cases p) (simp add: txs_of_def)
  next
    case False
    then show ?thesis using Cons by (cases p) (simp add: txs_of_def)
  qed
qed (simp add: txs_of_def)

lemma mset_put:
  "distinct (map fst m) \<Longrightarrow>
    mset (concat (map snd (put_txs a xs m))) + mset (txs_of m a) = mset (concat (map snd m)) + mset xs"
  by (simp add: put_txs_def mset_update mset_delete)

lemma put_txs_entries:
  assumes "distinct (map fst m)" and "(b, ys) \<in> set (put_txs a xs m)"
  shows "b = a \<and> ys = xs \<and> xs \<noteq> [] \<or> b \<noteq> a \<and> (b, ys) \<in> set m"
proof -
  have d: "distinct (map fst (put_txs a xs m))" by (rule put_txs_keys [OF assms(1)])
  have "map_of (put_txs a xs m) b = Some ys" using d assms(2) by simp
  then show ?thesis by (auto simp: put_txs_def update_conv' delete_conv' split: if_splits dest: map_of_SomeD)
qed

lemma update_put: "xs \<noteq> [] \<Longrightarrow> AList.update a xs m = put_txs a xs m"
  by (simp add: put_txs_def)

section \<open>The invariant\<close>

definition slot_of :: "pool_obj \<Rightarrow> jsstr \<times> int" where
  "slot_of x = (ptx_sender (po_tx x), ptx_nonce (po_tx x))"

text \<open>What the handled record knows of a pooled transaction; \<open>f\<close> reads the sender and the nonce off
  a hash.\<close>

definition known :: "(jsstr \<Rightarrow> jsstr \<times> int) \<Rightarrow> (jsstr \<times> handled) list \<Rightarrow> pool_obj \<Rightarrow> bool" where
  "known f kn x \<longleftrightarrow> po_hash x = ptx_hash (po_tx x) \<and>
    slot_of x = f (po_hash x) \<and>
    (\<exists>h. map_of kn (po_hash x) = Some h \<and> hd_address h = ptx_sender (po_tx x) \<and> po_added x \<le> hd_added h)"

definition owned :: "(jsstr \<times> pool_obj list) list \<Rightarrow> bool" where
  "owned m \<longleftrightarrow> distinct (map fst m) \<and>
    (\<forall>(a, xs)\<in>set m. xs \<noteq> [] \<and> (\<forall>x\<in>set xs. ptx_sender (po_tx x) = a))"

text \<open>No hash twice, and no two transactions of one sender with one nonce.\<close>

definition one_each :: "pool_obj multiset \<Rightarrow> bool" where
  "one_each M \<longleftrightarrow> (\<forall>h. size (filter_mset (\<lambda>x. po_hash x = h) M) \<le> 1) \<and>
    (\<forall>p. size (filter_mset (\<lambda>x. slot_of x = p) M) \<le> 1)"

definition pool_rep :: "(jsstr \<Rightarrow> jsstr \<times> int) \<Rightarrow> (jsstr \<times> pool_obj list) list \<Rightarrow> (jsstr \<times> pool_obj list) list \<Rightarrow> pool_obj multiset \<Rightarrow>
    (jsstr \<times> handled) list \<Rightarrow> int \<Rightarrow> int \<Rightarrow> bool" where
  "pool_rep f P Q items kn pc qc \<longleftrightarrow> owned P \<and> owned Q \<and>
    items = mset (concat (map snd P)) + mset (concat (map snd Q)) \<and>
    pc = int (length (concat (map snd P))) \<and> qc = int (length (concat (map snd Q))) \<and>
    one_each items \<and> (\<forall>x\<in>#items. known f kn x)"

definition pool_ok :: "(jsstr \<Rightarrow> jsstr \<times> int) \<Rightarrow> txpool \<Rightarrow> bool" where
  "pool_ok f s \<longleftrightarrow> heap_ok priced_before (tp_priced s) \<and>
    pool_rep f (tp_pending s) (tp_queued s) (heap_items (tp_priced s)) (tp_handled s)
      (tp_pendingCount s) (tp_queuedCount s)"

lemma owned_put:
  assumes "owned m" and "\<forall>x\<in>set xs. ptx_sender (po_tx x) = a"
  shows "owned (put_txs a xs m)"
  using assms put_txs_entries [of m] put_txs_keys [of m a xs] by (fastforce simp: owned_def)

lemma owned_sender: "owned m \<Longrightarrow> x \<in> set (txs_of m a) \<Longrightarrow> ptx_sender (po_tx x) = a"
  by (auto simp: owned_def txs_of_def split: option.splits dest!: map_of_SomeD)

lemma txs_of_subset: "x \<in> set (txs_of m a) \<Longrightarrow> x \<in> set (concat (map snd m))"
proof (cases "map_of m a")
  case (Some ys)
  moreover have "ys \<in> set (map snd m)" using map_of_SomeD [OF Some] by (metis image_eqI set_map snd_conv)
  moreover assume "x \<in> set (txs_of m a)"
  ultimately show ?thesis by (auto simp: txs_of_def)
qed (simp add: txs_of_def)

lemma owned_member:
  assumes o: "owned m"
  shows "x \<in> set (concat (map snd m)) \<longleftrightarrow> x \<in> set (txs_of m (ptx_sender (po_tx x)))"
proof
  assume "x \<in> set (concat (map snd m))"
  then obtain b ys where b: "(b, ys) \<in> set m" "x \<in> set ys" by auto
  then have "txs_of m b = ys" using o txs_of_entry by (simp add: owned_def)
  moreover have "ptx_sender (po_tx x) = b" using o b by (auto simp: owned_def)
  ultimately show "x \<in> set (txs_of m (ptx_sender (po_tx x)))" using b(2) by simp
next
  show "x \<in> set (txs_of m (ptx_sender (po_tx x))) \<Longrightarrow> x \<in> set (concat (map snd m))"
    by (rule txs_of_subset)
qed

lemma length_put:
  "distinct (map fst m) \<Longrightarrow> int (length (concat (map snd (put_txs a xs m)))) =
    int (length (concat (map snd m))) + int (length xs) - int (length (txs_of m a))"
proof -
  assume "distinct (map fst m)"
  from arg_cong [OF mset_put [OF this, of a xs], of size] show ?thesis
    by (simp only: size_union size_mset)
qed

text \<open>One step: the lists of sender \<open>a\<close> change, \<open>D\<close> leaves the pool and \<open>A\<close> enters it.\<close>

lemma rep_step:
  assumes rep: "pool_rep f P Q items kn pc qc"
    and bal: "mset xs + mset ys + D = mset (txs_of P a) + mset (txs_of Q a) + A"
    and sub: "D \<subseteq># mset (txs_of P a) + mset (txs_of Q a)"
    and A: "\<forall>x\<in>#A. ptx_sender (po_tx x) = a"
    and uniq: "one_each (items - D + A)"
    and kn': "\<forall>x\<in>#items - D + A. known f kn' x"
  shows "pool_rep f (put_txs a xs P) (put_txs a ys Q) (items - D + A) kn'
    (pc + int (length xs) - int (length (txs_of P a))) (qc + int (length ys) - int (length (txs_of Q a)))"
proof -
  have o: "owned P" "owned Q" and it: "items = mset (concat (map snd P)) + mset (concat (map snd Q))"
    using rep by (simp_all add: pool_rep_def)
  have d: "distinct (map fst P)" "distinct (map fst Q)" using o by (simp_all add: owned_def)
  have "set_mset (mset xs + mset ys) \<subseteq> set_mset (mset (txs_of P a) + mset (txs_of Q a) + A)"
    unfolding bal [symmetric] by auto
  then have send: "\<forall>x\<in>set xs \<union> set ys. ptx_sender (po_tx x) = a"
    using owned_sender [OF o(1)] owned_sender [OF o(2)] A by auto
  let ?P = "put_txs a xs P" and ?Q = "put_txs a ys Q"
  have "(mset (concat (map snd ?P)) + mset (concat (map snd ?Q)) + D) + (mset (txs_of P a) + mset (txs_of Q a)) =
      items + (mset xs + mset ys + D)"
    using mset_put [OF d(1), of a xs] mset_put [OF d(2), of a ys] unfolding it by (simp add: ac_simps)
  also have "\<dots> = (items + A) + (mset (txs_of P a) + mset (txs_of Q a))" unfolding bal by (simp add: ac_simps)
  finally have "mset (concat (map snd ?P)) + mset (concat (map snd ?Q)) + D = items + A"
    by (rule add_right_imp_eq)
  moreover have "D \<subseteq># items"
  proof -
    have "mset (txs_of P a) \<subseteq># mset (concat (map snd P))" "mset (txs_of Q a) \<subseteq># mset (concat (map snd Q))"
      using mset_delete [OF d(1), of a] mset_delete [OF d(2), of a] by (metis mset_subset_eq_add_right)+
    then show ?thesis using sub unfolding it by (meson subset_mset.add_mono subset_mset.order_trans)
  qed
  ultimately have items': "items - D + A = mset (concat (map snd ?P)) + mset (concat (map snd ?Q))"
    by (metis add_diff_cancel_right' subset_mset.add_diff_assoc2)
  have "owned ?P" "owned ?Q" using owned_put [OF o(1)] owned_put [OF o(2)] send by auto
  then show ?thesis
    using rep uniq kn' length_put [OF d(1), of a xs] length_put [OF d(2), of a ys]
    by (simp add: pool_rep_def flip: items')
qed

text \<open>With no hash twice in the pool, removing by hash removes exactly the given objects.\<close>

lemma one_each_sub: "one_each M \<Longrightarrow> N \<subseteq># M \<Longrightarrow> one_each N"
  unfolding one_each_def by (meson le_trans multiset_filter_mono size_mset_mono)

lemma pair_differs:
  assumes "\<forall>h. size (filter_mset (\<lambda>z. g z = h) (M + N)) \<le> 1" and "x \<in># M" and "y \<in># N"
  shows "g x \<noteq> g y"
proof
  assume eq: "g x = g y"
  have "{#x#} + {#y#} \<subseteq># M + N" using assms(2,3) by (intro subset_mset.add_mono) simp_all
  then have "filter_mset (\<lambda>z. g z = g y) ({#x#} + {#y#}) \<subseteq># filter_mset (\<lambda>z. g z = g y) (M + N)"
    by (rule multiset_filter_mono)
  then have "size (filter_mset (\<lambda>z. g z = g y) ({#x#} + {#y#})) \<le> 1"
    using assms(1) le_trans size_mset_mono by blast
  then show False using eq by simp
qed

lemma one_each_apart: "one_each (M + N) \<Longrightarrow> x \<in># M \<Longrightarrow> y \<in># N \<Longrightarrow> po_hash x \<noteq> po_hash y"
  unfolding one_each_def by (rule pair_differs [of po_hash M N]) blast+

lemma one_each_slots: "one_each (M + N) \<Longrightarrow> x \<in># M \<Longrightarrow> y \<in># N \<Longrightarrow> slot_of x \<noteq> slot_of y"
  unfolding one_each_def by (rule pair_differs [of slot_of M N]) blast+

lemma one_each_same:
  assumes "one_each M" and "x \<in># M" and "y \<in># M" and "slot_of x = slot_of y"
  shows "x = y"
proof (rule ccontr)
  assume n: "x \<noteq> y"
  have "M = {#x#} + (M - {#x#})" using assms(2) by simp
  then have "one_each ({#x#} + (M - {#x#}))" using assms(1) by metis
  moreover have "y \<in># M - {#x#}" using assms(3) n by (simp add: in_diff_count)
  ultimately show False using one_each_slots assms(4) by (metis union_single_eq_member)
qed

lemma drop_hashes:
  assumes u: "one_each M" and d: "mset d \<subseteq># M"
  shows "filter_mset (\<lambda>y. po_hash y \<notin> po_hash ` set d) M = M - mset d"
proof -
  from d obtain R where M: "M = mset d + R" by (metis subset_mset.add_diff_inverse)
  have "filter_mset (\<lambda>y. po_hash y \<notin> po_hash ` set d) (mset d) = {#}"
    by (simp add: filter_mset_eq_mempty_iff)
  moreover have "filter_mset (\<lambda>y. po_hash y \<notin> po_hash ` set d) R = R"
  proof -
    have "po_hash x \<noteq> po_hash y" if "y \<in># R" "x \<in> set d" for x y
      by (rule one_each_apart [of "mset d" R]) (use u that in \<open>simp_all add: M\<close>)
    then have "po_hash y \<notin> po_hash ` set d" if "y \<in># R" for y using that by (metis imageE)
    then show ?thesis by (simp add: filter_mset_eq_conv)
  qed
  ultimately show ?thesis by (simp add: M)
qed

lemma pool_rep_one: "pool_rep f P Q items kn pc qc \<Longrightarrow> one_each items"
  unfolding pool_rep_def by blast

lemma sub_items:
  assumes "pool_rep f P Q items kn pc qc"
  shows "mset (txs_of P a) + mset (txs_of Q a) \<subseteq># items"
proof -
  have o: "distinct (map fst P)" "distinct (map fst Q)" "items = mset (concat (map snd P)) + mset (concat (map snd Q))"
    using assms by (simp_all add: pool_rep_def owned_def)
  have "mset (txs_of P a) \<subseteq># mset (concat (map snd P))" "mset (txs_of Q a) \<subseteq># mset (concat (map snd Q))"
    using mset_delete [OF o(1), of a] mset_delete [OF o(2), of a] by (metis mset_subset_eq_add_right)+
  then show ?thesis unfolding o(3) by (rule subset_mset.add_mono)
qed

lemma rep_drop:
  assumes rep: "pool_rep f P Q items kn pc qc"
    and bal: "mset xs + mset ys + mset d = mset (txs_of P a) + mset (txs_of Q a)"
    and kn': "\<And>h. h \<notin> po_hash ` set d \<Longrightarrow> map_of kn' h = map_of kn h"
    and pc': "pc' = pc + int (length xs) - int (length (txs_of P a))"
    and qc': "qc' = qc + int (length ys) - int (length (txs_of Q a))"
  shows "pool_rep f (put_txs a xs P) (put_txs a ys Q)
    (filter_mset (\<lambda>y. po_hash y \<notin> po_hash ` set d) items) kn' pc' qc'"
proof -
  have sub: "mset d \<subseteq># mset (txs_of P a) + mset (txs_of Q a)"
    unfolding bal [symmetric] by simp
  then have sub': "mset d \<subseteq># items" using sub_items [OF rep] by (rule subset_mset.order_trans)
  have u: "one_each items" by (rule pool_rep_one [OF rep])
  have f: "filter_mset (\<lambda>y. po_hash y \<notin> po_hash ` set d) items = items - mset d" by (rule drop_hashes [OF u sub'])
  have "known f kn' x" if "x \<in># items - mset d" for x
  proof -
    have x: "x \<in># items" "po_hash x \<notin> po_hash ` set d" using that unfolding f [symmetric] by auto
    then have "known f kn x" using rep unfolding pool_rep_def by blast
    then show ?thesis unfolding known_def kn' [OF x(2)] .
  qed
  moreover have "one_each (items - mset d)" by (rule one_each_sub [OF u]) simp
  ultimately show ?thesis
    using rep_step [OF rep, of xs ys "mset d" a "{#}" kn'] bal sub pc' qc' unfolding f by simp
qed

lemma put_same: "owned m \<Longrightarrow> put_txs a (txs_of m a) m = m"
proof (cases "map_of m a")
  case None
  then have "a \<notin> fst ` set m" by (simp add: map_of_eq_None_iff)
  then show ?thesis using None by (simp add: put_txs_def txs_of_def delete_id)
next
  case (Some xs)
  assume "owned m"
  then have "xs \<noteq> []" using map_of_SomeD [OF Some] by (auto simp: owned_def)
  then show ?thesis using Some by (simp add: put_txs_def txs_of_def update_triv)
qed

text \<open>The same at the level of states.\<close>

lemma pool_okD:
  assumes "pool_ok f s"
  shows "heap_ok priced_before (tp_priced s)" "owned (tp_pending s)" "owned (tp_queued s)"
    "pool_rep f (tp_pending s) (tp_queued s) (heap_items (tp_priced s)) (tp_handled s) (tp_pendingCount s) (tp_queuedCount s)"
proof -
  show "heap_ok priced_before (tp_priced s)" and r: "pool_rep f (tp_pending s) (tp_queued s)
      (heap_items (tp_priced s)) (tp_handled s) (tp_pendingCount s) (tp_queuedCount s)"
    using assms unfolding pool_ok_def by blast+
  then show "owned (tp_pending s)" "owned (tp_queued s)" unfolding pool_rep_def by blast+
qed

lemma pool_drop:
  assumes ok: "pool_ok f s"
    and bal: "mset xs + mset ys + mset d = mset (txs_of (tp_pending s) a) + mset (txs_of (tp_queued s) a)"
    and s': "tp_pending s' = put_txs a xs (tp_pending s)" "tp_queued s' = put_txs a ys (tp_queued s)"
      "tp_priced s' = unprice d (tp_priced s)"
      "\<And>h. h \<notin> po_hash ` set d \<Longrightarrow> map_of (tp_handled s') h = map_of (tp_handled s) h"
      "tp_pendingCount s' = tp_pendingCount s + int (length xs) - int (length (txs_of (tp_pending s) a))"
      "tp_queuedCount s' = tp_queuedCount s + int (length ys) - int (length (txs_of (tp_queued s) a))"
  shows "pool_ok f s'"
  unfolding pool_ok_def s'(1-3)
  using unprice_ok [OF pool_okD(1) [OF ok], of d] rep_drop [OF pool_okD(4) [OF ok] bal s'(4-6)] by simp

text \<open>How many of a pool there are.\<close>

lemma count_of_length: "pool_ok f s \<Longrightarrow> count_of k s = int (length (concat (map snd (pool_txs k s))))"
  by (cases k) (simp_all add: pool_ok_def pool_rep_def count_of_def pool_txs_def)

section \<open>Removal and eviction\<close>

lemma find_hash: "find (\<lambda>x. po_hash x = h) xs = Some x \<Longrightarrow> x \<in> set xs \<and> po_hash x = h"
  by (auto simp: find_Some_iff)

lemma filter_hash:
  assumes "one_each (mset xs)" and "x \<in> set xs"
  shows "mset (filter (\<lambda>y. po_hash y \<noteq> po_hash x) xs) + {#x#} = mset xs"
  using drop_hashes [OF assms(1), of "[x]"] assms(2) by simp

text \<open>What \<open>removeByHash\<close> does to a pooled transaction.\<close>

lemma remove_from:
  assumes ok: "pool_ok f s" and x: "x \<in> set (txs_of (pool_txs k s) a)" and hash: "po_hash x = h"
    and s': "s' = (let s1 = set_pool_txs k (put_txs a (filter (\<lambda>x. po_hash x \<noteq> h) (txs_of (pool_txs k s) a)) (pool_txs k s)) s;
                  s2 = removeFromPriced x (bump_count k (- 1) s1) in
              s2\<lparr>tp_index := ix (tp_index s2), tp_locals := removeAll h (tp_locals s2)\<rparr>)"
  shows "pool_ok f s' \<and> count_of k s' = count_of k s - 1"
proof -
  have u: "one_each (mset (txs_of (tp_pending s) a) + mset (txs_of (tp_queued s) a))"
    by (rule one_each_sub [OF pool_rep_one sub_items]) (rule pool_okD(4) [OF ok])+
  let ?xs = "filter (\<lambda>x. po_hash x \<noteq> h) (txs_of (pool_txs k s) a)"
  have "one_each (mset (txs_of (pool_txs k s) a))"
    by (rule one_each_sub [OF u]) (cases k; simp add: pool_txs_def)
  then have f: "mset ?xs + {#x#} = mset (txs_of (pool_txs k s) a)"
    using filter_hash [OF _ x] hash by simp
  then have "length ?xs + 1 = length (txs_of (pool_txs k s) a)" by (metis size_mset size_single size_union)
  then have "pool_ok f s'"
  proof (cases k)
    case Pending
    show ?thesis
      by (rule pool_drop [OF ok, of ?xs "txs_of (tp_queued s) a" "[x]" a])
        (use Pending f \<open>length ?xs + 1 = _\<close> put_same [OF pool_okD(3) [OF ok], of a] in
          \<open>simp_all add: s' Let_def pool_txs_def set_pool_txs_def bump_count_def removeFromPriced_def unprice_def\<close>)
  next
    case Queued
    show ?thesis
      by (rule pool_drop [OF ok, of "txs_of (tp_pending s) a" ?xs "[x]" a])
        (use Queued f \<open>length ?xs + 1 = _\<close> put_same [OF pool_okD(2) [OF ok], of a] in
          \<open>simp_all add: s' Let_def pool_txs_def set_pool_txs_def bump_count_def removeFromPriced_def unprice_def\<close>)
  qed
  then show ?thesis by (cases k) (simp_all add: s' Let_def count_of_def bump_count_def set_pool_txs_def removeFromPriced_def)
qed

lemma removeByHash_ok:
  assumes ok: "pool_ok f s"
  shows "pool_ok f (removeByHash h s)"
proof (cases "map_of (tp_handled s) h")
  case (Some hd)
  let ?a = "hd_address hd"
  let ?k = "if list_ex (\<lambda>x. po_hash x = h) (txs_of (tp_pending s) ?a) then Pending else Queued"
  show ?thesis
  proof (cases "find (\<lambda>x. po_hash x = h) (txs_of (pool_txs ?k s) ?a)")
    case None
    then show ?thesis using Some ok by (simp add: removeByHash_def Let_def)
  next
    case (Some x)
    have "pool_ok f (removeByHash h s) \<and> count_of ?k (removeByHash h s) = count_of ?k s - 1"
      by (rule remove_from [OF ok, of x ?k ?a h _ "AList.delete h"])
        (use find_hash [OF Some] Some \<open>map_of (tp_handled s) h = Some hd\<close> in \<open>simp_all add: removeByHash_def Let_def\<close>)
    then show ?thesis by simp
  qed
qed (use ok in \<open>simp add: removeByHash_def\<close>)

lemma lowest_member:
  "lowest_of ls xs (p, r) = (q, Some x) \<Longrightarrow> x \<in> set xs \<or> r = Some x"
  by (induction ls xs "(p, r)" arbitrary: p r rule: lowest_of.induct) (auto split: if_splits)

lemma pool_member: "x \<in> set (concat (map snd (pool_txs k s))) \<Longrightarrow> pool_ok f s \<Longrightarrow>
    x \<in> set (txs_of (pool_txs k s) (ptx_sender (po_tx x))) \<and> x \<in># heap_items (tp_priced s)"
proof -
  assume x: "x \<in> set (concat (map snd (pool_txs k s)))" and ok: "pool_ok f s"
  have "owned (pool_txs k s)" using pool_okD(2,3) [OF ok] by (cases k) (simp_all add: pool_txs_def)
  then have "x \<in> set (txs_of (pool_txs k s) (ptx_sender (po_tx x)))" using x owned_member by blast
  moreover have "heap_items (tp_priced s) = mset (concat (map snd (tp_pending s))) + mset (concat (map snd (tp_queued s)))"
    using pool_okD(4) [OF ok] unfolding pool_rep_def by blast
  ultimately show ?thesis using x by (cases k) (auto simp: pool_txs_def)
qed

lemma both_pools_apart:
  assumes ok: "pool_ok f s" and x: "x \<in> set (txs_of (tp_pending s) a)" and y: "y \<in> set (txs_of (tp_queued s) b)"
  shows "po_hash x \<noteq> po_hash y"
proof -
  have "one_each (mset (concat (map snd (tp_pending s))) + mset (concat (map snd (tp_queued s))))"
    using pool_okD(4) [OF ok] unfolding pool_rep_def by metis
  then show ?thesis by (rule one_each_apart) (use txs_of_subset [OF x] txs_of_subset [OF y] in simp_all)
qed

lemma find_unique:
  assumes "one_each (mset xs)" and "x \<in> set xs"
  shows "find (\<lambda>y. po_hash y = po_hash x) xs = Some x"
proof -
  obtain y where y: "find (\<lambda>y. po_hash y = po_hash x) xs = Some y"
    using assms(2) by (cases "find (\<lambda>y. po_hash y = po_hash x) xs") (auto simp: find_None_iff)
  then have m: "y \<in> set xs" "po_hash y = po_hash x" using find_hash by blast+
  have "y = x"
  proof (rule ccontr)
    assume "y \<noteq> x"
    obtain N where N: "mset xs = add_mset x N" using assms(2) by (metis mset_add set_mset_mset)
    have "y \<in># add_mset x N" using m(1) unfolding N [symmetric] by simp
    then have "y \<in># N" using \<open>y \<noteq> x\<close> by simp
    moreover have "one_each ({#x#} + N)" using assms(1) unfolding N by simp
    ultimately have "po_hash x \<noteq> po_hash y" by (intro one_each_apart [of "{#x#}" N]) simp_all
    then show False using m(2) by metis
  qed
  then show ?thesis using y by simp
qed

lemma evict_ok:
  assumes ok: "pool_ok f s"
  shows "pool_ok f (snd (evictLowestPriced k s)) \<and>
    (fst (evictLowestPriced k s) \<longrightarrow> count_of k (snd (evictLowestPriced k s)) = count_of k s - 1)"
proof (cases "snd (lowest_of (tp_locals s) (concat (map snd (pool_txs k s))) (9007199254740991, None))")
  case None
  then show ?thesis using ok
    by (cases "lowest_of (tp_locals s) (concat (map snd (pool_txs k s))) (9007199254740991, None)")
      (simp add: evictLowestPriced_def)
next
  case (Some x)
  then have e: "evictLowestPriced k s = (True, removeByHash (po_hash x) s)"
    by (cases "lowest_of (tp_locals s) (concat (map snd (pool_txs k s))) (9007199254740991, None)")
      (simp add: evictLowestPriced_def)
  let ?a = "ptx_sender (po_tx x)"
  have "x \<in> set (concat (map snd (pool_txs k s)))"
    using Some lowest_member by (metis option.distinct(1) prod.collapse)
  then have x: "x \<in> set (txs_of (pool_txs k s) ?a)" "x \<in># heap_items (tp_priced s)"
    using pool_member ok by blast+
  have "known f (tp_handled s) x" using pool_okD(4) [OF ok] x(2) unfolding pool_rep_def by blast
  then obtain h where h: "map_of (tp_handled s) (po_hash x) = Some h" "hd_address h = ?a" by (auto simp: known_def)
  have kind: "(if list_ex (\<lambda>y. po_hash y = po_hash x) (txs_of (tp_pending s) ?a) then Pending else Queued) = k"
  proof (cases k)
    case Pending
    then show ?thesis using x(1) by (auto simp: pool_txs_def list_ex_iff)
  next
    case Queued
    then show ?thesis using x(1) both_pools_apart [OF ok, of _ ?a x ?a] by (auto simp: pool_txs_def list_ex_iff)
  qed
  have "mset (txs_of (pool_txs k s) ?a) \<subseteq># mset (txs_of (tp_pending s) ?a) + mset (txs_of (tp_queued s) ?a)"
    by (cases k) (simp_all add: pool_txs_def)
  then have "one_each (mset (txs_of (pool_txs k s) ?a))"
    using one_each_sub [OF pool_rep_one sub_items] pool_okD(4) [OF ok] one_each_sub by blast
  then have "find (\<lambda>y. po_hash y = po_hash x) (txs_of (pool_txs k s) ?a) = Some x" using find_unique x(1) by blast
  then have "pool_ok f (removeByHash (po_hash x) s) \<and> count_of k (removeByHash (po_hash x) s) = count_of k s - 1"
    by (intro remove_from [OF ok x(1) refl, of _ "AList.delete (po_hash x)"])
      (simp add: removeByHash_def h kind Let_def)
  then show ?thesis by (simp add: e)
qed

lemma removeByHash_handled [simp]: "tp_handled (removeByHash h s) = tp_handled s"
  by (auto simp: removeByHash_def Let_def removeFromPriced_def bump_count_def set_pool_txs_def
      split: option.splits pool_kind.splits)

lemma evict_handled [simp]: "tp_handled (snd (evictLowestPriced k s)) = tp_handled s"
  by (simp add: evictLowestPriced_def split: prod.split option.split)

lemma enforce_ok:
  assumes "0 \<le> limit"
  shows "pool_ok f s \<Longrightarrow> \<exists>s'. enforce k limit s = Some s' \<and> pool_ok f s' \<and> tp_handled s' = tp_handled s"
proof (induction "nat (count_of k s)" arbitrary: s rule: less_induct)
  case less
  show ?case
  proof (cases "count_of k s > limit \<and> fst (evictLowestPriced k s)")
    case True
    let ?s = "snd (evictLowestPriced k s)"
    have e: "pool_ok f ?s" "count_of k ?s = count_of k s - 1" using evict_ok [OF less.prems, of k] True by simp_all
    then have "\<exists>s'. enforce k limit ?s = Some s' \<and> pool_ok f s' \<and> tp_handled s' = tp_handled ?s"
      using True assms by (intro less.hyps) auto
    then show ?thesis using True by (subst enforce.simps) (simp add: split_beta)
  next
    case False
    then show ?thesis using evict_ok [OF less.prems, of k] less.prems
      by (subst enforce.simps) (auto simp: split_beta)
  qed
qed

lemma enforcePoolLimits_ok:
  "pool_ok f s \<Longrightarrow> \<exists>s'. enforcePoolLimits s = Some s' \<and> pool_ok f s' \<and> tp_handled s' = tp_handled s"
  using enforce_ok [of GLOBAL_SLOTS f s Pending] enforce_ok [of GLOBAL_QUEUE f _ Queued]
  by (fastforce simp: enforcePoolLimits_def GLOBAL_SLOTS_def GLOBAL_QUEUE_def)

section \<open>Promotion\<close>

lemma account_nonce_ok: "account_nonce E a s = (n, s') \<Longrightarrow> s' = s\<lparr>tp_nonces := tp_nonces s'\<rparr>"
  by (auto simp: account_nonce_def split: option.splits)

lemma pool_ok_nonces [simp]: "pool_ok f (s\<lparr>tp_nonces := x\<rparr>) = pool_ok f s"
  by (simp add: pool_ok_def)

lemma delete_hashes: "h \<notin> po_hash ` set d \<Longrightarrow>
    map_of (fold (\<lambda>x. AList.delete (po_hash x)) d m) h = map_of m h"
  by (induction d arbitrary: m) (auto simp: delete_conv')

lemma fold_drop_stale:
  "fold drop_stale d s = s\<lparr>tp_queuedCount := tp_queuedCount s - int (length d), tp_priced := unprice d (tp_priced s),
    tp_handled := fold (\<lambda>x. AList.delete (po_hash x)) d (tp_handled s),
    tp_index := fold (\<lambda>x. AList.delete (po_hash x)) d (tp_index s)\<rparr>"
  by (induction d arbitrary: s) (simp_all add: drop_stale_def bump_count_def removeFromPriced_def unprice_def)

lemma promote_split_mset:
  "promote_split n m xs = (p, r, d) \<Longrightarrow> mset p + mset r + mset d = mset xs"
  by (induction n m xs arbitrary: p r d rule: promote_split.induct) (auto split: if_splits prod.splits)

lemma by_nonce_mset [simp]: "mset (by_nonce xs) = mset xs"
  by (simp add: by_nonce_def)

lemma by_nonce_empty [simp]: "by_nonce xs = [] \<longleftrightarrow> xs = []"
  by (metis by_nonce_mset mset_zero_iff)

lemma length_by_nonce [simp]: "length (by_nonce xs) = length xs"
  by (metis by_nonce_mset size_mset)

lemma promote_address_ok:
  assumes ok: "pool_ok f s"
  shows "pool_ok f (promote_address E a s)"
proof (cases "txs_of (tp_queued s) a = []")
  case False
  obtain n s1 where n: "account_nonce E a s = (n, s1)" by fastforce
  have s1: "s1 = s\<lparr>tp_nonces := tp_nonces s1\<rparr>" by (rule account_nonce_ok [OF n])
  then have ok1: "pool_ok f s1" using ok by (metis pool_ok_nonces)
  have same: "txs_of (tp_pending s1) a = txs_of (tp_pending s) a" "txs_of (tp_queued s1) a = txs_of (tp_queued s) a"
    by (subst s1; simp)+
  let ?pend = "txs_of (tp_pending s1) a"
  obtain p r d where sp: "promote_split n (if ?pend \<noteq> [] then max_nonce ?pend + 1 else n)
      (by_nonce (txs_of (tp_queued s1) a)) = (p, r, d)"
    by (metis prod_cases3)
  have bal: "mset p + mset r + mset d = mset (txs_of (tp_queued s1) a)" using promote_split_mset [OF sp] by simp
  then have "length p + length r + length d = length (txs_of (tp_queued s1) a)"
    by (metis size_mset size_union)
  then have len: "int (length (txs_of (tp_queued s1) a)) = int (length p) + int (length r) + int (length d)"
    by linarith
  let ?s = "promote_address E a s"
  have st: "?s = (let s2 = fold drop_stale d s1;
      s3 = (if p = [] then s2 else s2\<lparr>tp_pending := AList.update a (by_nonce (?pend @ p)) (tp_pending s2),
            tp_pendingCount := tp_pendingCount s2 + int (length p), tp_queuedCount := tp_queuedCount s2 - int (length p),
            tp_index := fold (\<lambda>x. AList.update (po_hash x) (a, Pending)) p (tp_index s2)\<rparr>) in
      s3\<lparr>tp_queued := put_txs a r (tp_queued s3)\<rparr>)"
    using False n sp by (simp add: promote_address_def Let_def)
  show ?thesis
  proof (rule pool_drop [OF ok1, of "if p = [] then ?pend else by_nonce (?pend @ p)" r d a])
    show "mset (if p = [] then ?pend else by_nonce (?pend @ p)) + mset r + mset d =
        mset ?pend + mset (txs_of (tp_queued s1) a)"
      using bal by (auto simp: ac_simps)
    show "tp_pending ?s = put_txs a (if p = [] then ?pend else by_nonce (?pend @ p)) (tp_pending s1)"
      unfolding st fold_drop_stale Let_def using put_same [OF pool_okD(2) [OF ok1], of a]
      by (simp add: update_put)
    show "map_of (tp_handled ?s) h = map_of (tp_handled s1) h" if "h \<notin> po_hash ` set d" for h
      unfolding st fold_drop_stale Let_def using delete_hashes [OF that] by simp
  qed (use len in \<open>simp_all add: st fold_drop_stale Let_def\<close>)
qed (use ok in \<open>simp add: promote_address_def\<close>)

lemma promoteExecutables_ok: "pool_ok f s \<Longrightarrow> pool_ok f (promoteExecutables E a s)"
proof -
  have "pool_ok f s \<Longrightarrow> pool_ok f (fold (promote_address E) as s)" for as
    by (induction as arbitrary: s) (simp_all add: promote_address_ok)
  then show "pool_ok f s \<Longrightarrow> ?thesis" by (simp add: promoteExecutables_def)
qed

section \<open>Demotion and cleanup\<close>

lemma fold_drop_mined:
  "fold drop_mined d s = s\<lparr>tp_pendingCount := tp_pendingCount s - int (length d), tp_priced := unprice d (tp_priced s),
    tp_handled := fold (\<lambda>x. AList.delete (po_hash x)) d (tp_handled s),
    tp_locals := fold (\<lambda>x. removeAll (po_hash x)) d (tp_locals s)\<rparr>"
  by (induction d arbitrary: s) (simp_all add: drop_mined_def bump_count_def removeFromPriced_def unprice_def)

lemma demote_split_mset:
  "demote_split n b l xs = (k, d, r) \<Longrightarrow> mset k + mset d + mset r = mset xs"
  by (induction n b l xs arbitrary: k d r rule: demote_split.induct)
    (auto simp: Let_def split: if_splits prod.splits)

lemma demote_address_ok:
  assumes ok: "pool_ok f s" and txs: "txs_of (tp_pending s) a = txs"
  shows "pool_ok f (demote_address E (a, txs) s) \<and>
    tp_pending (demote_address E (a, txs) s) = put_txs a (fst (demote_split (pe_nonce E a) (pe_balance E a)
      (pe_nonce E a - 1) (by_nonce txs))) (tp_pending s)"
proof -
  let ?s1 = "s\<lparr>tp_nonces := AList.update a (pe_nonce E a) (tp_nonces s)\<rparr>"
  have ok1: "pool_ok f ?s1" using ok by simp
  obtain k d r where sp: "demote_split (pe_nonce E a) (pe_balance E a) (pe_nonce E a - 1) (by_nonce txs) = (k, d, r)"
    by (metis prod_cases3)
  have bal: "mset k + mset d + mset r = mset txs" using demote_split_mset [OF sp] by simp
  then have "length k + length d + length r = length txs" by (metis size_mset size_union)
  then have len: "int (length txs) = int (length k) + int (length d) + int (length r)" by linarith
  let ?q = "txs_of (tp_queued s) a"
  let ?s = "demote_address E (a, txs) s"
  have st: "?s = (let s2 = fold drop_mined r ?s1;
      s3 = (if d = [] then s2 else s2\<lparr>tp_queued := AList.update a (by_nonce (txs_of (tp_queued s2) a @ d)) (tp_queued s2),
              tp_pendingCount := tp_pendingCount s2 - int (length d),
              tp_queuedCount := tp_queuedCount s2 + int (length d)\<rparr>) in
      s3\<lparr>tp_pending := put_txs a k (tp_pending s3)\<rparr>)"
    using sp by (simp add: demote_address_def Let_def)
  have "pool_ok f ?s"
  proof (rule pool_drop [OF ok1, of k "if d = [] then ?q else by_nonce (?q @ d)" r a])
    show "mset k + mset (if d = [] then ?q else by_nonce (?q @ d)) + mset r =
        mset (txs_of (tp_pending ?s1) a) + mset (txs_of (tp_queued ?s1) a)"
      using bal txs by (auto simp: ac_simps)
    show "tp_queued ?s = put_txs a (if d = [] then ?q else by_nonce (?q @ d)) (tp_queued ?s1)"
      unfolding st fold_drop_mined Let_def using put_same [OF pool_okD(3) [OF ok], of a] by (simp add: update_put)
    show "map_of (tp_handled ?s) h = map_of (tp_handled ?s1) h" if "h \<notin> po_hash ` set r" for h
      unfolding st fold_drop_mined Let_def using delete_hashes [OF that] by simp
  qed (use len txs in \<open>simp_all add: st fold_drop_mined Let_def\<close>)
  moreover have "tp_pending ?s = put_txs a k (tp_pending s)" by (simp add: st fold_drop_mined Let_def)
  ultimately show ?thesis using sp by simp
qed

lemma demote_fold_ok:
  "pool_ok f s \<Longrightarrow> distinct (map fst es) \<Longrightarrow> \<forall>(a, txs)\<in>set es. txs_of (tp_pending s) a = txs \<Longrightarrow>
    pool_ok f (fold (demote_address E) es s)"
proof (induction es arbitrary: s)
  case (Cons e es)
  obtain a txs where e: "e = (a, txs)" by (cases e)
  then have d: "pool_ok f (demote_address E (a, txs) s)"
    "tp_pending (demote_address E (a, txs) s) = put_txs a (fst (demote_split (pe_nonce E a) (pe_balance E a)
      (pe_nonce E a - 1) (by_nonce txs))) (tp_pending s)"
    using demote_address_ok [OF Cons.prems(1), of a txs] Cons.prems(3) by auto
  have "\<forall>(b, ys)\<in>set es. txs_of (tp_pending (demote_address E (a, txs) s)) b = ys"
    using Cons.prems(2,3) unfolding d(2) put_txs_lookup e by (auto simp: rev_image_eqI)
  then show ?case using Cons.IH [OF d(1)] Cons.prems(2) e by simp
qed simp

lemma demoteUnexecutables_ok: "pool_ok f s \<Longrightarrow> pool_ok f (demoteUnexecutables E s)"
proof -
  assume ok: "pool_ok f s"
  have d: "distinct (map fst (tp_pending s))" using pool_okD(2) [OF ok] by (simp add: owned_def)
  show ?thesis unfolding demoteUnexecutables_def
    using demote_fold_ok [OF ok d] txs_of_entry [OF d] ok by auto
qed

lemma fold_drop_old:
  "fold drop_old d s = s\<lparr>tp_priced := unprice d (tp_priced s),
    tp_handled := fold (\<lambda>x. AList.delete (po_hash x)) d (tp_handled s),
    tp_index := fold (\<lambda>x. AList.delete (po_hash x)) d (tp_index s),
    tp_locals := fold (\<lambda>x. removeAll (po_hash x)) d (tp_locals s)\<rparr>"
  by (induction d arbitrary: s) (simp_all add: drop_old_def removeFromPriced_def unprice_def)

lemma cleanup_address_ok:
  assumes ok: "pool_ok f s" and txs: "txs_of (pool_txs k s) a = txs"
  shows "pool_ok f (cleanup_address c k (a, txs) s) \<and>
    pool_txs k (cleanup_address c k (a, txs) s) = put_txs a (filter (\<lambda>x. po_added x \<ge> c) txs) (pool_txs k s)"
proof -
  let ?keep = "filter (\<lambda>x. po_added x \<ge> c) txs" and ?old = "filter (\<lambda>x. po_added x < c) txs"
  have own: "owned (pool_txs k s)" using pool_okD(2,3) [OF ok] by (cases k) (simp_all add: pool_txs_def)
  have bal: "mset ?keep + mset ?old = mset txs"
    by (induction txs) auto
  then have len: "length ?keep + length ?old = length txs" by (metis size_mset size_union)
  show ?thesis
  proof (cases "length txs - length ?keep > 0")
    case False
    then have "?keep = txs" using length_filter_le [of "\<lambda>x. po_added x \<ge> c" txs]
      by (metis filter_id_conv length_filter_less not_gr0 le_neq_implies_less zero_less_diff)
    then show ?thesis using False ok put_same [OF own, of a] txs by (simp add: cleanup_address_def)
  next
    case True
    let ?s = "cleanup_address c k (a, txs) s"
    have st: "?s = (let s1 = fold drop_old ?old (bump_count k (- int (length txs - length ?keep)) s) in
        set_pool_txs k (put_txs a ?keep (pool_txs k s1)) s1)"
      using True by (simp add: cleanup_address_def Let_def)
    have cnt: "int (length txs - length ?keep) = int (length ?old)" "int (length txs) = int (length ?keep) + int (length ?old)"
      using len by linarith+
    have "pool_ok f ?s"
    proof (cases k)
      case Pending
      show ?thesis
      proof (rule pool_drop [OF ok, of ?keep "txs_of (tp_queued s) a" ?old a])
        show "map_of (tp_handled ?s) h = map_of (tp_handled s) h" if "h \<notin> po_hash ` set ?old" for h
          unfolding st fold_drop_old Let_def using delete_hashes [OF that] Pending
          by (simp add: bump_count_def set_pool_txs_def)
        show "mset ?keep + mset (txs_of (tp_queued s) a) + mset ?old =
            mset (txs_of (tp_pending s) a) + mset (txs_of (tp_queued s) a)"
          using bal txs Pending by (simp add: pool_txs_def ac_simps)
      qed (unfold st fold_drop_old Let_def, use Pending txs cnt put_same [OF pool_okD(3) [OF ok], of a] in
        \<open>simp_all add: bump_count_def set_pool_txs_def pool_txs_def\<close>)
    next
      case Queued
      show ?thesis
      proof (rule pool_drop [OF ok, of "txs_of (tp_pending s) a" ?keep ?old a])
        show "map_of (tp_handled ?s) h = map_of (tp_handled s) h" if "h \<notin> po_hash ` set ?old" for h
          unfolding st fold_drop_old Let_def using delete_hashes [OF that] Queued
          by (simp add: bump_count_def set_pool_txs_def)
        show "mset (txs_of (tp_pending s) a) + mset ?keep + mset ?old =
            mset (txs_of (tp_pending s) a) + mset (txs_of (tp_queued s) a)"
          using bal txs Queued by (simp add: pool_txs_def ac_simps)
      qed (unfold st fold_drop_old Let_def, use Queued txs cnt put_same [OF pool_okD(2) [OF ok], of a] in
        \<open>simp_all add: bump_count_def set_pool_txs_def pool_txs_def\<close>)
    qed
    moreover have "pool_txs k ?s = put_txs a ?keep (pool_txs k s)"
      unfolding st fold_drop_old Let_def by (cases k) (simp_all add: bump_count_def set_pool_txs_def pool_txs_def)
    ultimately show ?thesis by simp
  qed
qed

lemma cleanup_fold_ok:
  "pool_ok f s \<Longrightarrow> distinct (map fst es) \<Longrightarrow> \<forall>(a, txs)\<in>set es. txs_of (pool_txs k s) a = txs \<Longrightarrow>
    pool_ok f (fold (cleanup_address c k) es s)"
proof (induction es arbitrary: s)
  case (Cons e es)
  obtain a txs where e: "e = (a, txs)" by (cases e)
  then have d: "pool_ok f (cleanup_address c k (a, txs) s)"
    "pool_txs k (cleanup_address c k (a, txs) s) = put_txs a (filter (\<lambda>x. po_added x \<ge> c) txs) (pool_txs k s)"
    using cleanup_address_ok [OF Cons.prems(1), of k a txs c] Cons.prems(3) by auto
  have "\<forall>(b, ys)\<in>set es. txs_of (pool_txs k (cleanup_address c k (a, txs) s)) b = ys"
    using Cons.prems(2,3) unfolding d(2) put_txs_lookup e by (auto simp: rev_image_eqI)
  then show ?case using Cons.IH [OF d(1)] Cons.prems(2) e by simp
qed simp


lemma cleanup_all_ok:
  assumes ok: "pool_ok f s"
  shows "pool_ok f (fold (cleanup_address c k) (pool_txs k s) s)"
proof -
  have "owned (pool_txs k s)" using pool_okD(2,3) [OF ok] by (cases k) (simp_all add: pool_txs_def)
  then have d: "distinct (map fst (pool_txs k s))" by (simp add: owned_def)
  show ?thesis using cleanup_fold_ok [OF ok d] txs_of_entry [OF d] by auto
qed

text \<open>After the pass no old transaction is left in the map.\<close>

lemma cleanup_fold_txs:
  "distinct (map fst es) \<Longrightarrow> pool_ok f s \<Longrightarrow> \<forall>(a, txs)\<in>set es. txs_of (pool_txs k s) a = txs \<Longrightarrow>
    txs_of (pool_txs k (fold (cleanup_address c k) es s)) b =
      (if b \<in> fst ` set es then filter (\<lambda>x. po_added x \<ge> c) (txs_of (pool_txs k s) b) else txs_of (pool_txs k s) b)"
proof (induction es arbitrary: s)
  case (Cons e es)
  obtain a txs where e: "e = (a, txs)" by (cases e)
  then have d: "pool_ok f (cleanup_address c k (a, txs) s)"
    "pool_txs k (cleanup_address c k (a, txs) s) = put_txs a (filter (\<lambda>x. po_added x \<ge> c) txs) (pool_txs k s)"
    and txs: "txs_of (pool_txs k s) a = txs"
    using cleanup_address_ok [OF Cons.prems(2), of k a txs c] Cons.prems(3) by auto
  have "\<forall>(b, ys)\<in>set es. txs_of (pool_txs k (cleanup_address c k (a, txs) s)) b = ys"
    using Cons.prems(1,3) unfolding d(2) put_txs_lookup e by (auto simp: rev_image_eqI)
  then show ?case using Cons.IH [OF _ d(1)] Cons.prems(1) txs unfolding d(2) put_txs_lookup e by auto
qed simp

lemma txs_of_none: "b \<notin> fst ` set m \<Longrightarrow> txs_of m b = []"
  by (metis map_of_eq_None_iff option.simps(4) txs_of_def)

lemma cleanup_all_txs:
  assumes ok: "pool_ok f s"
  shows "txs_of (pool_txs k (fold (cleanup_address c k) (pool_txs k s) s)) b =
    filter (\<lambda>x. po_added x \<ge> c) (txs_of (pool_txs k s) b)"
proof -
  have "owned (pool_txs k s)" using pool_okD(2,3) [OF ok] by (cases k) (simp_all add: pool_txs_def)
  then have d: "distinct (map fst (pool_txs k s))" by (simp add: owned_def)
  have es: "\<forall>(a, txs)\<in>set (pool_txs k s). txs_of (pool_txs k s) a = txs" using txs_of_entry [OF d] by auto
  show ?thesis using cleanup_fold_txs [OF d ok es, of c b] txs_of_none [of b "pool_txs k s"]
    by (cases "b \<in> fst ` set (pool_txs k s)") simp_all
qed

lemma cleanup_pending: "tp_pending (fold (cleanup_address c Queued) es s) = tp_pending s"
proof (induction es arbitrary: s)
  case (Cons e es)
  have "tp_pending (cleanup_address c Queued e s) = tp_pending s" unfolding cleanup_address_def
    by (cases e) (simp add: Let_def fold_drop_old bump_count_def set_pool_txs_def)
  then show ?case using Cons.IH by simp
qed simp

lemma pool_ok_items:
  "pool_ok f s \<Longrightarrow> x \<in># heap_items (tp_priced s) \<Longrightarrow> \<exists>k. x \<in> set (txs_of (pool_txs k s) (ptx_sender (po_tx x)))"
proof -
  assume ok: "pool_ok f s" and x: "x \<in># heap_items (tp_priced s)"
  have "heap_items (tp_priced s) = mset (concat (map snd (tp_pending s))) + mset (concat (map snd (tp_queued s)))"
    using pool_okD(4) [OF ok] unfolding pool_rep_def by blast
  then have "x \<in> set (concat (map snd (tp_pending s))) \<or> x \<in> set (concat (map snd (tp_queued s)))"
    using x by simp
  then have "x \<in> set (concat (map snd (pool_txs Pending s))) \<or> x \<in> set (concat (map snd (pool_txs Queued s)))"
    by (simp add: pool_txs_def)
  then show ?thesis using pool_member [OF _ ok] by blast
qed

lemma pool_rep_known:
  "pool_rep f P Q items kn pc qc \<Longrightarrow> \<forall>x\<in>#items. known f kn' x \<Longrightarrow> pool_rep f P Q items kn' pc qc"
  unfolding pool_rep_def by blast

lemma pool_ok_handled:
  assumes ok: "pool_ok f s" and same: "\<And>x. x \<in># heap_items (tp_priced s) \<Longrightarrow> known f kn x"
  shows "pool_ok f (s\<lparr>tp_handled := kn\<rparr>)"
  using pool_okD(1) [OF ok] pool_rep_known [OF pool_okD(4) [OF ok], of kn] same by (simp add: pool_ok_def)

lemma pool_cleanup_ok:
  assumes ok: "pool_ok f s"
  shows "pool_ok f (pool_cleanup now s) \<and>
    txs_of (pool_txs k (pool_cleanup now s)) a = filter (\<lambda>x. po_added x \<ge> now - 1200000) (txs_of (pool_txs k s) a)"
proof -
  let ?c = "now - 1200000"
  let ?s1 = "fold (cleanup_address ?c Pending) (tp_pending s) s"
  let ?s2 = "fold (cleanup_address ?c Queued) (tp_queued ?s1) ?s1"
  have s1: "pool_ok f ?s1" using cleanup_all_ok [OF ok, of ?c Pending] by (simp add: pool_txs_def)
  have s2: "pool_ok f ?s2" using cleanup_all_ok [OF s1, of ?c Queued] by (simp add: pool_txs_def)
  have q1: "tp_queued (fold (cleanup_address ?c Pending) es t) = tp_queued t" for es t
  proof (induction es arbitrary: t)
    case (Cons e es)
    have "tp_queued (cleanup_address ?c Pending e t) = tp_queued t" unfolding cleanup_address_def
      by (cases e) (simp add: Let_def fold_drop_old bump_count_def set_pool_txs_def)
    then show ?case using Cons.IH by simp
  qed simp
  have txs: "txs_of (pool_txs k ?s2) b = filter (\<lambda>x. po_added x \<ge> ?c) (txs_of (pool_txs k s) b)" for k b
    using cleanup_all_txs [OF ok, of Pending ?c b] cleanup_all_txs [OF s1, of Queued ?c b] cleanup_pending q1
    by (cases k) (simp_all add: pool_txs_def)
  let ?kn = "filter (\<lambda>(hash, h). \<not> hd_added h < now - 3600000) (tp_handled ?s2)"
  have st: "pool_cleanup now s = ?s2\<lparr>tp_handled := ?kn\<rparr>" by (simp add: pool_cleanup_def Let_def)
  have "known f ?kn x" if x: "x \<in># heap_items (tp_priced ?s2)" for x
  proof -
    obtain k where "x \<in> set (txs_of (pool_txs k ?s2) (ptx_sender (po_tx x)))" using pool_ok_items [OF s2 x] by blast
    then have young: "po_added x \<ge> ?c" unfolding txs by simp
    have "known f (tp_handled ?s2) x" using pool_okD(4) [OF s2] x unfolding pool_rep_def by blast
    then show ?thesis using young map_of_filter_in [of "tp_handled ?s2"] by (fastforce simp: known_def)
  qed
  then have "pool_ok f (pool_cleanup now s)" unfolding st by (rule pool_ok_handled [OF s2])
  moreover have "pool_txs k (pool_cleanup now s) = pool_txs k ?s2" unfolding st by (cases k) (simp_all add: pool_txs_def)
  ultimately show ?thesis using txs by simp
qed

section \<open>Addition\<close>

definition pooled :: "jsstr \<Rightarrow> txpool \<Rightarrow> bool" where
  "pooled h s = list_ex (\<lambda>x. po_hash x = h) (concat (map snd (tp_pending s)) @ concat (map snd (tp_queued s)))"

lemma pooled_iff: "pool_ok f s \<Longrightarrow> pooled h s \<longleftrightarrow> h \<in> po_hash ` set_mset (heap_items (tp_priced s))"
proof -
  assume "pool_ok f s"
  then have "heap_items (tp_priced s) = mset (concat (map snd (tp_pending s))) + mset (concat (map snd (tp_queued s)))"
    using pool_okD(4) unfolding pool_rep_def by blast
  then show ?thesis by (auto simp: pooled_def list_ex_iff)
qed

lemma at_most_add:
  assumes "\<forall>h. size (filter_mset (\<lambda>z. g z = h) M) \<le> 1" and "\<And>y. y \<in># M \<Longrightarrow> g y \<noteq> g x"
  shows "\<forall>h. size (filter_mset (\<lambda>z. g z = h) (M + {#x#})) \<le> 1"
proof
  fix h
  have "filter_mset (\<lambda>y. g y = h) M = {#}" if "g x = h"
    using assms(2) that by (auto simp: filter_mset_eq_mempty_iff)
  then show "size (filter_mset (\<lambda>y. g y = h) (M + {#x#})) \<le> 1"
    using assms(1) by auto
qed

lemma one_each_add:
  assumes "one_each M" and "\<And>y. y \<in># M \<Longrightarrow> po_hash y \<noteq> po_hash x \<and> slot_of y \<noteq> slot_of x"
  shows "one_each (M + {#x#})"
  unfolding one_each_def
  by (intro conjI; rule at_most_add) (use assms in \<open>simp_all add: one_each_def\<close>)

text \<open>An object enters one of the two lists of its sender, replacing at most one other.\<close>

lemma rep_enter:
  assumes ok: "pool_ok f s"
    and new: "\<And>y. y \<in># heap_items (tp_priced s) - mset (case r of None \<Rightarrow> [] | Some y \<Rightarrow> [y]) \<Longrightarrow> slot_of y \<noteq> slot_of x"
    and old: "case r of None \<Rightarrow> xs = txs_of (pool_txs k s) a
      | Some y \<Rightarrow> y \<in> set (txs_of (pool_txs k s) a) \<and> xs = remove1 y (txs_of (pool_txs k s) a)"
    and x: "ptx_sender (po_tx x) = a" "po_hash x = ptx_hash (po_tx x)" "hd_address h = a" "po_added x \<le> hd_added h"
      "slot_of x = f (po_hash x)"
    and s': "pool_txs k s' = put_txs a (by_nonce (xs @ [x])) (pool_txs k s)"
      "\<And>j. j \<noteq> k \<Longrightarrow> pool_txs j s' = pool_txs j s \<and> count_of j s' = count_of j s"
      "count_of k s' = count_of k s + (if r = None then 1 else 0)"
      "tp_priced s' = heap_insert priced_opts x (unprice (case r of None \<Rightarrow> [] | Some y \<Rightarrow> [y]) (tp_priced s))"
      "tp_handled s' = AList.update (po_hash x) h (tp_handled s)"
  shows "pool_ok f s'"
proof -
  let ?d = "case r of None \<Rightarrow> [] | Some y \<Rightarrow> [y]"
  have rep: "pool_rep f (tp_pending s) (tp_queued s) (heap_items (tp_priced s)) (tp_handled s) (tp_pendingCount s) (tp_queuedCount s)"
    by (rule pool_okD(4) [OF ok])
  have d: "mset xs + mset ?d = mset (txs_of (pool_txs k s) a)" using old by (cases r) simp_all
  have sub: "mset ?d \<subseteq># mset (txs_of (tp_pending s) a) + mset (txs_of (tp_queued s) a)"
    using d by (cases k) (simp_all add: pool_txs_def, (metis mset_subset_eq_add_right subset_mset.order_trans mset_subset_eq_add_left)+)
  have sub': "mset ?d \<subseteq># heap_items (tp_priced s)" by (rule subset_mset.order_trans [OF sub sub_items [OF rep]])
  have items: "heap_ok priced_before (tp_priced s')"
    "heap_items (tp_priced s') = heap_items (tp_priced s) - mset ?d + {#x#}"
    using unprice_ok [OF pool_okD(1) [OF ok], of ?d] drop_hashes [OF pool_rep_one [OF rep] sub']
      priced.insert_ok [OF priced_opts_before, of "unprice ?d (tp_priced s)" x] unfolding s'(4) by simp_all
  have new': "po_hash y \<noteq> po_hash x" if "y \<in># heap_items (tp_priced s) - mset ?d" for y
  proof
    assume eq: "po_hash y = po_hash x"
    have "known f (tp_handled s) y" using rep in_diffD [OF that] unfolding pool_rep_def by blast
    then have "slot_of y = f (po_hash y)" by (simp add: known_def)
    then show False using new [OF that] x(5) eq by simp
  qed
  have one: "one_each (heap_items (tp_priced s) - mset ?d + {#x#})"
    by (rule one_each_add) (use new new' one_each_sub [OF pool_rep_one [OF rep]] in simp_all)
  have kn: "\<forall>y\<in>#heap_items (tp_priced s) - mset ?d + {#x#}. known f (tp_handled s') y"
  proof
    fix y assume y: "y \<in># heap_items (tp_priced s) - mset ?d + {#x#}"
    show "known f (tp_handled s') y"
    proof (cases "y \<in># heap_items (tp_priced s) - mset ?d")
      case True
      then have "known f (tp_handled s) y" using rep in_diffD unfolding pool_rep_def by metis
      moreover have "map_of (tp_handled s') (po_hash y) = map_of (tp_handled s) (po_hash y)"
        using new' [OF True] unfolding s'(5) update_conv' by (rule fun_upd_other)
      ultimately show ?thesis unfolding known_def by metis
    next
      case False
      then have "y = x" using y by simp
      then show ?thesis using x by (simp add: known_def s'(5) update_conv')
    qed
  qed
  let ?l = "\<lambda>j. if j = k then by_nonce (xs @ [x]) else txs_of (pool_txs j s) a"
  have put: "pool_txs j s' = put_txs a (?l j) (pool_txs j s)" for j
  proof -
    have "owned (pool_txs j s)" using pool_okD(2,3) [OF ok] by (cases j) (simp_all add: pool_txs_def)
    from put_same [OF this, of a] show ?thesis using s'(1,2) by (cases "j = k") simp_all
  qed
  have "length xs + length ?d = length (txs_of (pool_txs k s) a)" using d by (metis size_mset size_union)
  then have len: "int (length (txs_of (pool_txs k s) a)) = int (length xs) + (if r = None then 0 else 1)"
    by (cases r) auto
  have cnt: "count_of j s' = count_of j s + int (length (?l j)) - int (length (txs_of (pool_txs j s) a))" for j
    using s'(2,3) len by (cases "j = k") simp_all
  have bal: "mset (?l Pending) + mset (?l Queued) + mset ?d = mset (txs_of (tp_pending s) a) + mset (txs_of (tp_queued s) a) + {#x#}"
    using d by (cases k) (simp_all add: pool_txs_def ac_simps)
  show ?thesis unfolding pool_ok_def
    using items rep_step [OF rep bal sub _ one kn] put [of Pending] put [of Queued] cnt [of Pending] cnt [of Queued] x(1)
    by (simp add: pool_txs_def count_of_def)
qed


lemma removeFromPriced_unprice: "removeFromPriced x s = s\<lparr>tp_priced := unprice [x] (tp_priced s)\<rparr>"
  by (simp add: removeFromPriced_def unprice_def)

lemma unprice_nil: "unprice [] h = h"
  by (simp add: unprice_def)

text \<open>Two clashes the code mishandles. The account is over its slots and a transaction is replaced:
  the old one leaves the heap and the counter before the limit is checked and stays in its list.\<close>

definition slot_clash :: "pool_tx \<Rightarrow> bool \<Rightarrow> pool_kind \<Rightarrow> txpool \<Rightarrow> bool" where
  "slot_clash t isLocal k s \<longleftrightarrow> \<not> isLocal \<and>
    (case index_by_nonce (ptx_nonce t) (txs_of (pool_txs k s) (ptx_sender t)) of
       None \<Rightarrow> False
     | Some old \<Rightarrow> length (txs_of (pool_txs k s) (ptx_sender t)) >
         (case k of Pending \<Rightarrow> ACCOUNT_SLOTS | Queued \<Rightarrow> ACCOUNT_QUEUE))"

text \<open>The transaction it replaces stands in the other list: it is looked for only in the list the new
  one is classified into.\<close>

fun other_kind :: "pool_kind \<Rightarrow> pool_kind" where
  "other_kind Pending = Queued"
| "other_kind Queued = Pending"

definition twin :: "pool_tx \<Rightarrow> pool_kind \<Rightarrow> txpool \<Rightarrow> bool" where
  "twin t k s = list_ex (\<lambda>x. ptx_nonce (po_tx x) = ptx_nonce t) (txs_of (pool_txs (other_kind k) s) (ptx_sender t))"

lemma other_kind_neq: "j \<noteq> k \<Longrightarrow> j = other_kind k"
  by (cases j; cases k) simp_all

text \<open>Without them nothing that stays has the sender and the nonce of what enters.\<close>

lemma slot_free:
  assumes ok: "pool_ok f s" and tw: "\<not> twin t k s"
    and y: "y \<in># heap_items (tp_priced s) -
      mset (case index_by_nonce (ptx_nonce t) (txs_of (pool_txs k s) (ptx_sender t)) of None \<Rightarrow> [] | Some z \<Rightarrow> [z])"
  shows "slot_of y \<noteq> (ptx_sender t, ptx_nonce t)"
proof
  assume eq: "slot_of y = (ptx_sender t, ptx_nonce t)"
  let ?l = "txs_of (pool_txs k s) (ptx_sender t)"
  obtain j where j: "y \<in> set (txs_of (pool_txs j s) (ptx_sender t))"
    using pool_ok_items [OF ok in_diffD [OF y]] eq by (auto simp: slot_of_def)
  have "j = k"
  proof (rule ccontr)
    assume "j \<noteq> k"
    then show False using j eq tw other_kind_neq by (auto simp: twin_def list_ex_iff slot_of_def)
  qed
  then have "index_by_nonce (ptx_nonce t) ?l \<noteq> None" using j eq
    by (auto simp: index_by_nonce_def find_None_iff slot_of_def)
  then obtain old where old: "index_by_nonce (ptx_nonce t) ?l = Some old" by blast
  then have mem: "old \<in> set ?l" "ptx_nonce (po_tx old) = ptx_nonce t"
    by (auto simp: index_by_nonce_def find_Some_iff)
  have own: "owned (pool_txs k s)" using pool_okD(2,3) [OF ok] by (cases k) (simp_all add: pool_txs_def)
  have so: "slot_of old = slot_of y" using eq mem(2) owned_sender [OF own mem(1)] by (simp add: slot_of_def)
  have "old \<in># heap_items (tp_priced s)" using pool_member [OF txs_of_subset [OF mem(1)] ok] by blast
  then have "{#old#} + (heap_items (tp_priced s) - {#old#}) = heap_items (tp_priced s)" by simp
  then have "one_each ({#old#} + (heap_items (tp_priced s) - {#old#}))"
    using pool_rep_one [OF pool_okD(4) [OF ok]] by metis
  then have "slot_of old \<noteq> slot_of y" by (rule one_each_slots) (use y old in simp_all)
  then show False using so by blast
qed

definition handled_ok :: "(jsstr \<Rightarrow> jsstr \<times> int) \<Rightarrow> int \<Rightarrow> txpool \<Rightarrow> bool" where
  "handled_ok f now s \<longleftrightarrow> (\<forall>(h, e)\<in>set (tp_handled s). hd_address e = fst (f h) \<and> hd_added e \<le> now)"

lemma handled_less: "set (tp_handled s') \<subseteq> set (tp_handled s) \<Longrightarrow> handled_ok f now s \<Longrightarrow> handled_ok f now s'"
  by (auto simp: handled_ok_def)

lemma set_update: "set (AList.update k v m) \<subseteq> insert (k, v) (set m)"
  by (induction m) auto

lemma set_delete: "set (AList.delete k m) \<subseteq> set m"
  by (auto simp: AList.delete_eq)

lemma set_delete_hashes: "set (fold (\<lambda>x. AList.delete (po_hash x)) d m) \<subseteq> set m"
proof (induction d arbitrary: m)
  case (Cons x d)
  show ?case using Cons [of "AList.delete (po_hash x) m"] set_delete by fastforce
qed simp

lemma promote_address_handled: "set (tp_handled (promote_address E a s)) \<subseteq> set (tp_handled s)"
proof -
  obtain n s1 where n: "account_nonce E a s = (n, s1)" by fastforce
  have s1: "s1 = s\<lparr>tp_nonces := tp_nonces s1\<rparr>" by (rule account_nonce_ok [OF n])
  have "tp_handled s1 = tp_handled s" by (subst s1) simp
  then show ?thesis using set_delete_hashes [THEN subsetD]
    by (auto simp: promote_address_def n Let_def fold_drop_stale split: prod.splits if_splits)
qed

lemma promote_handled: "set (tp_handled (promoteExecutables E a s)) \<subseteq> set (tp_handled s)"
proof -
  have "set (tp_handled (fold (promote_address E) as s)) \<subseteq> set (tp_handled s)" for as
  proof (induction as arbitrary: s)
    case (Cons b as)
    show ?case using Cons [of "promote_address E b s"] promote_address_handled [of E b s] by fastforce
  qed simp
  then show ?thesis by (simp add: promoteExecutables_def)
qed

lemma classify_ok: "classifyTransaction E t a s = (k, s') \<Longrightarrow> s' = s\<lparr>tp_nonces := tp_nonces s'\<rparr>"
  using account_nonce_ok [of E a s] by (auto simp: classifyTransaction_def Let_def split: prod.splits if_splits)

lemma add_to_ok:
  assumes ok: "pool_ok f s" and new: "\<not> twin t k s" and slot: "\<not> slot_clash t isLocal k s"
    and hd: "handled_ok f now s" and t: "(ptx_sender t, ptx_nonce t) = f (ptx_hash t)"
  shows "\<exists>r s'. add_to E now t isLocal k s = Some (r, s') \<and> pool_ok f s' \<and> handled_ok f now s'"
proof -
  let ?a = "ptx_sender t" and ?h = "ptx_hash t"
  let ?r = "index_by_nonce (ptx_nonce t) (txs_of (pool_txs k s) ?a)"
  let ?kept = "case ?r of None \<Rightarrow> txs_of (pool_txs k s) ?a | Some old \<Rightarrow> remove1 old (txs_of (pool_txs k s) ?a)"
  let ?s1 = "case ?r of None \<Rightarrow> s | Some old \<Rightarrow>
           bump_count k (- 1) ((removeFromPriced old s)\<lparr>tp_index := AList.delete (po_hash old) (tp_index s)\<rparr>)"
  let ?lim = "case k of Pending \<Rightarrow> ACCOUNT_SLOTS | Queued \<Rightarrow> ACCOUNT_QUEUE"
  have mem: "old \<in> set (txs_of (pool_txs k s) ?a)" if "?r = Some old" for old
    using that by (auto simp: index_by_nonce_def find_Some_iff)
  show ?thesis
  proof (cases "\<not> isLocal \<and> length ?kept \<ge> ?lim")
    case True
    have "?r = None"
    proof (rule ccontr)
      assume "?r \<noteq> None"
      then obtain old where old: "?r = Some old" by blast
      have "length (txs_of (pool_txs k s) ?a) > 0" using mem [OF old] by (cases "txs_of (pool_txs k s) ?a") auto
      moreover have "length (txs_of (pool_txs k s) ?a) - 1 \<ge> ?lim" using True old mem [OF old]
        by (simp add: length_remove1)
      ultimately have "length (txs_of (pool_txs k s) ?a) > ?lim" by linarith
      then have "slot_clash t isLocal k s" using True old by (simp add: slot_clash_def)
      then show False using slot by blast
    qed
    then have "add_to E now t isLocal k s = Some (throw ''Cannot add tx: account exceeds limit'', s)"
      using True by (simp add: add_to_def Let_def)
    then show ?thesis using ok hd by blast
  next
    case False
    let ?x = "\<lparr>po_tx = t, po_hash = ?h, po_added = now\<rparr>"
    let ?e = "\<lparr>hd_address = ?a, hd_added = now, hd_error = False\<rparr>"
    let ?s2 = "set_pool_txs k (AList.update ?a (by_nonce (?kept @ [?x])) (pool_txs k ?s1)) ?s1"
    let ?s3 = "?s2\<lparr>tp_priced := heap_insert priced_opts ?x (tp_priced ?s2),
              tp_locals := (if isLocal then List.insert ?h (tp_locals ?s2) else tp_locals ?s2)\<rparr>"
    let ?s4 = "bump_count k 1 ?s3"
    let ?s5 = "?s4\<lparr>tp_handled := AList.update ?h ?e (tp_handled ?s4), tp_index := AList.update ?h (?a, k) (tp_index ?s4)\<rparr>"
    let ?s6 = "if k = Pending then promoteExecutables E (Some ?a) ?s5 else ?s5"
    have add: "add_to E now t isLocal k s = map_option (\<lambda>s'. (Inr (), s')) (enforcePoolLimits ?s6)"
      unfolding add_to_def Let_def by (rule if_not_P [OF False])
    have s5: "pool_txs k ?s5 = put_txs ?a (by_nonce (?kept @ [?x])) (pool_txs k s)"
      "\<And>j. j \<noteq> k \<Longrightarrow> pool_txs j ?s5 = pool_txs j s \<and> count_of j ?s5 = count_of j s"
      "count_of k ?s5 = count_of k s + (if ?r = None then 1 else 0)"
      "tp_priced ?s5 = heap_insert priced_opts ?x (unprice (case ?r of None \<Rightarrow> [] | Some y \<Rightarrow> [y]) (tp_priced s))"
      "tp_handled ?s5 = AList.update ?h ?e (tp_handled s)"
      by (cases ?r; cases k; auto simp: pool_txs_def count_of_def bump_count_def set_pool_txs_def
          removeFromPriced_unprice unprice_nil update_put split: pool_kind.split)+
    have "pool_ok f ?s5"
    proof (rule rep_enter [OF ok, where x = ?x and r = ?r and xs = ?kept and k = k and a = ?a and h = ?e])
      show "case ?r of None \<Rightarrow> ?kept = txs_of (pool_txs k s) ?a
        | Some y \<Rightarrow> y \<in> set (txs_of (pool_txs k s) ?a) \<and> ?kept = remove1 y (txs_of (pool_txs k s) ?a)"
        using mem by (cases ?r) auto
      show "slot_of y \<noteq> slot_of ?x" if "y \<in># heap_items (tp_priced s) - mset (case ?r of None \<Rightarrow> [] | Some y \<Rightarrow> [y])" for y
        using slot_free [OF ok new that] by (simp add: slot_of_def)
      show "slot_of ?x = f (po_hash ?x)" using t by (simp add: slot_of_def)
    qed (use s5 in \<open>simp_all\<close>)
    then have "pool_ok f ?s6" using promoteExecutables_ok by (cases "k = Pending") simp_all
    then obtain s' where s': "enforcePoolLimits ?s6 = Some s'" "pool_ok f s'" "tp_handled s' = tp_handled ?s6"
      using enforcePoolLimits_ok by blast
    have "fst (f ?h) = ?a" using t by (metis fst_conv)
    then have "handled_ok f now ?s5" unfolding handled_ok_def s5(5)
      using hd set_update [of ?h ?e "tp_handled s"] by (fastforce simp: handled_ok_def)
    then have "handled_ok f now ?s6" using handled_less [OF promote_handled] by (cases "k = Pending") simp_all
    then have "handled_ok f now s'" using s'(3) by (simp add: handled_ok_def)
    then show ?thesis using add s'(1,2) by simp
  qed
qed

end
