(* ===== verification/PoolCalls.thy ===== *)
theory PoolCalls
  imports PoolInvariant
begin

text \<open>
  Runs of the transaction pool: every call of its interface as one step, the conditions under
  which the code keeps its books, and what then holds after any sequence of calls; a
  section before the claim shows what happens outside these conditions.
\<close>

section \<open>Calls\<close>

datatype pool_call =
    Add pool_env int pool_tx bool
  | Mined "pool_tx list list"
  | Reorg pool_env int "pool_tx list list" "pool_tx list list"
  | Promote pool_env "jsstr option"
  | Demote pool_env
  | Cleanup int
  | ClearNonces "jsstr option"
  | Start
  | Stop

fun pool_step :: "pool_call \<Rightarrow> txpool \<Rightarrow> txpool option" where
  "pool_step (Add E now t isLocal) s = map_option snd (pool_add E now t isLocal s)"
| "pool_step (Mined blocks) s = Some (removeNewBlockTxs blocks s)"
| "pool_step (Reorg E now oldBlocks newBlocks) s = handleReorg E now oldBlocks newBlocks s"
| "pool_step (Promote E a) s = Some (promoteExecutables E a s)"
| "pool_step (Demote E) s = Some (demoteUnexecutables E s)"
| "pool_step (Cleanup now) s = Some (pool_cleanup now s)"
| "pool_step (ClearNonces a) s = Some (clearNonceCache a s)"
| "pool_step Start s = Some (snd (pool_start s))"
| "pool_step Stop s = Some (snd (pool_stop s))"

fun pool_steps :: "pool_call list \<Rightarrow> txpool \<Rightarrow> txpool option" where
  "pool_steps [] s = Some s"
| "pool_steps (c # cs) s = Option.bind (pool_step c s) (pool_steps cs)"

text \<open>What a call must respect: the clock does not go back, a hash determines the sender and the
  nonce, and no addition that passes validation meets one of the two clashes the code mishandles.\<close>

definition own_hash :: "(jsstr \<Rightarrow> jsstr \<times> int) \<Rightarrow> pool_tx \<Rightarrow> bool" where
  "own_hash f t \<longleftrightarrow> (ptx_sender t, ptx_nonce t) = f (ptx_hash t)"

definition clashes :: "pool_env \<Rightarrow> pool_tx \<Rightarrow> bool \<Rightarrow> txpool \<Rightarrow> bool" where
  "clashes E t isLocal s \<longleftrightarrow> validate E t isLocal s = Inr () \<and>
    (let k = fst (classifyTransaction E t (ptx_sender t) s) in slot_clash t isLocal k s \<or> twin t k s)"

text \<open>The same for the transactions a reorganisation puts back, each in the state it meets.\<close>

fun safe_reinject :: "pool_env \<Rightarrow> int \<Rightarrow> jsstr list \<Rightarrow> pool_tx list \<Rightarrow> txpool \<Rightarrow> bool" where
  "safe_reinject E now mined [] s \<longleftrightarrow> True"
| "safe_reinject E now mined (t # ts) s \<longleftrightarrow>
    (if ptx_hash t \<in> set mined \<or> hasHandled (ptx_hash t) s then safe_reinject E now mined ts s
     else \<not> clashes E t True s \<and>
       (case pool_add E now t True s of None \<Rightarrow> True | Some (r, s') \<Rightarrow> safe_reinject E now mined ts s'))"

fun safe_call :: "(jsstr \<Rightarrow> jsstr \<times> int) \<Rightarrow> int \<Rightarrow> pool_call \<Rightarrow> txpool \<Rightarrow> bool" where
  "safe_call f clock (Add E now t isLocal) s \<longleftrightarrow> clock \<le> now \<and> own_hash f t \<and> \<not> clashes E t isLocal s"
| "safe_call f clock (Reorg E now oldBlocks newBlocks) s \<longleftrightarrow> clock \<le> now \<and>
    list_all (own_hash f) (concat oldBlocks) \<and>
    safe_reinject E now (map ptx_hash (concat newBlocks)) (concat oldBlocks) s"
| "safe_call f clock _ s \<longleftrightarrow> True"

fun clock_after :: "int \<Rightarrow> pool_call \<Rightarrow> int" where
  "clock_after clock (Add E now t isLocal) = now"
| "clock_after clock (Reorg E now oldBlocks newBlocks) = now"
| "clock_after clock _ = clock"

fun safe_calls :: "(jsstr \<Rightarrow> jsstr \<times> int) \<Rightarrow> int \<Rightarrow> pool_call list \<Rightarrow> txpool \<Rightarrow> bool" where
  "safe_calls f clock [] s \<longleftrightarrow> True"
| "safe_calls f clock (c # cs) s \<longleftrightarrow> safe_call f clock c s \<and>
    (case pool_step c s of None \<Rightarrow> True | Some s' \<Rightarrow> safe_calls f (clock_after clock c) cs s')"

section \<open>Every call keeps the books\<close>

lemma handled_later: "handled_ok f clock s \<Longrightarrow> clock \<le> now \<Longrightarrow> handled_ok f now s"
  by (fastforce simp: handled_ok_def)

lemma known_record:
  assumes ok: "pool_ok f s" and hd: "handled_ok f now s" and h: "hd_address e = fst (f h)" "hd_added e = now"
  shows "pool_ok f (s\<lparr>tp_handled := AList.update h e (tp_handled s)\<rparr>)"
proof (rule pool_ok_handled [OF ok])
  fix x assume x: "x \<in># heap_items (tp_priced s)"
  have "known f (tp_handled s) x" using pool_okD(4) [OF ok] x unfolding pool_rep_def by blast
  then obtain g where g: "po_hash x = ptx_hash (po_tx x)" "slot_of x = f (po_hash x)" "map_of (tp_handled s) (po_hash x) = Some g"
    "hd_address g = ptx_sender (po_tx x)" "po_added x \<le> hd_added g"
    by (auto simp: known_def)
  have "hd_address g = fst (f (po_hash x))" "hd_added g \<le> now"
    using hd map_of_SomeD [OF g(3)] by (auto simp: handled_ok_def)
  note gf = this
  have m: "map_of (AList.update h e (tp_handled s)) (po_hash x) = Some (if po_hash x = h then e else g)"
    by (simp add: update_conv' g(3))
  have "hd_address (if po_hash x = h then e else g) = ptx_sender (po_tx x)" using g(4) gf(1) h(1) by auto
  moreover have "po_added x \<le> hd_added (if po_hash x = h then e else g)" using g(5) gf(2) h(2) by auto
  ultimately show "known f (AList.update h e (tp_handled s)) x" unfolding known_def using g(1,2) m by blast
qed

lemma handled_record:
  "handled_ok f now s \<Longrightarrow> hd_address e = fst (f h) \<Longrightarrow> hd_added e = now \<Longrightarrow>
    handled_ok f now (s\<lparr>tp_handled := AList.update h e (tp_handled s)\<rparr>)"
  using set_update [of h e "tp_handled s"] by (fastforce simp: handled_ok_def)

lemma pool_ok_fields [simp]:
  "pool_ok f (s\<lparr>tp_running := b\<rparr>) = pool_ok f s"
  by (simp add: pool_ok_def)

lemma handled_ok_fields [simp]:
  "handled_ok f now (s\<lparr>tp_running := b\<rparr>) = handled_ok f now s"
  "handled_ok f now (s\<lparr>tp_nonces := ns\<rparr>) = handled_ok f now s"
  by (simp_all add: handled_ok_def)

lemma nonces_apart [simp]:
  "pool_txs k (s\<lparr>tp_nonces := ns\<rparr>) = pool_txs k s"
  "pooled h (s\<lparr>tp_nonces := ns\<rparr>) = pooled h s"
  by (cases k) (simp_all add: pooled_def pool_txs_def)

lemma slot_clash_nonces [simp]: "slot_clash t isLocal k (s\<lparr>tp_nonces := ns\<rparr>) = slot_clash t isLocal k s"
  by (simp only: slot_clash_def nonces_apart)

lemma twin_nonces [simp]: "twin t k (s\<lparr>tp_nonces := ns\<rparr>) = twin t k s"
  by (simp only: twin_def nonces_apart)

lemma pool_add_ok:
  assumes ok: "pool_ok f s" and hd: "handled_ok f now s" and safe: "safe_call f now (Add E now t isLocal) s"
  shows "\<exists>r s'. pool_add E now t isLocal s = Some (r, s') \<and> pool_ok f s' \<and> handled_ok f now s'"
proof (cases "ptx_signed t")
  case True
  let ?rec = "\<lambda>s. s\<lparr>tp_handled := AList.update (ptx_hash t)
            \<lparr>hd_address = ptx_sender t, hd_added = now, hd_error = True\<rparr> (tp_handled s)\<rparr>"
  have own: "(ptx_sender t, ptx_nonce t) = f (ptx_hash t)" using safe by (simp add: own_hash_def)
  then have own1: "ptx_sender t = fst (f (ptx_hash t))" by (metis fst_conv)
  have rec: "pool_ok f (?rec s') \<and> handled_ok f now (?rec s')" if "pool_ok f s'" "handled_ok f now s'" for s'
    using known_record [OF that] handled_record [OF that(2)] own1 by simp
  show ?thesis
  proof (cases "validate E t isLocal s")
    case (Inl e)
    then show ?thesis using True rec [OF ok hd] by (simp add: pool_add_def)
  next
    case (Inr u)
    obtain k s1 where c: "classifyTransaction E t (ptx_sender t) s = (k, s1)" by fastforce
    have s1: "s1 = s\<lparr>tp_nonces := tp_nonces s1\<rparr>" by (rule classify_ok [OF c])
    have "pool_ok f s1" "handled_ok f now s1" using ok hd by (subst s1, simp)+
    moreover have "\<not> twin t k s" "\<not> slot_clash t isLocal k s" using safe Inr c by (simp_all add: clashes_def Let_def)
    then have "\<not> twin t k s1" "\<not> slot_clash t isLocal k s1" by (subst s1, simp)+
    ultimately obtain r s' where a: "add_to E now t isLocal k s1 = Some (r, s')" "pool_ok f s'" "handled_ok f now s'"
      using add_to_ok own by blast
    then show ?thesis using True Inr c rec by (cases r) (simp_all add: pool_add_def)
  qed
qed (use ok hd in \<open>simp add: pool_add_def\<close>)

lemma reinject_ok:
  "pool_ok f s \<Longrightarrow> handled_ok f now s \<Longrightarrow> list_all (own_hash f) ts \<Longrightarrow> safe_reinject E now mined ts s \<Longrightarrow>
    \<exists>s'. reinject E now mined ts s = Some s' \<and> pool_ok f s' \<and> handled_ok f now s'"
proof (induction ts arbitrary: s)
  case (Cons t ts)
  show ?case
  proof (cases "ptx_hash t \<in> set mined \<or> hasHandled (ptx_hash t) s")
    case False
    then have "safe_call f now (Add E now t True) s" using Cons.prems(3,4) by simp
    from pool_add_ok [OF Cons.prems(1,2) this] obtain r s' where
      "pool_add E now t True s = Some (r, s')" "pool_ok f s'" "handled_ok f now s'"
      by blast
    then show ?thesis using Cons.IH [of s'] Cons.prems(3,4) False by simp
  qed (use Cons in simp)
qed simp

lemma removeNewBlockTxs_ok:
  "pool_ok f s \<Longrightarrow> pool_ok f (removeNewBlockTxs blocks s) \<and> tp_handled (removeNewBlockTxs blocks s) = tp_handled s"
proof -
  have "pool_ok f s \<Longrightarrow> pool_ok f (fold (\<lambda>t. removeByHash (ptx_hash t)) ts s) \<and>
      tp_handled (fold (\<lambda>t. removeByHash (ptx_hash t)) ts s) = tp_handled s" for ts :: "pool_tx list"
    by (induction ts arbitrary: s) (simp_all add: removeByHash_ok)
  then show "pool_ok f s \<Longrightarrow> ?thesis" by (simp add: removeNewBlockTxs_def)
qed

lemma demote_handled: "set (tp_handled (demoteUnexecutables E s)) \<subseteq> set (tp_handled s)"
proof -
  have one: "set (tp_handled (demote_address E e s)) \<subseteq> set (tp_handled s)" for e s
    by (cases e) (auto simp: demote_address_def Let_def fold_drop_mined split: prod.splits if_splits
        dest!: set_delete_hashes [THEN subsetD])
  have "set (tp_handled (fold (demote_address E) es s)) \<subseteq> set (tp_handled s)" for es
  proof (induction es arbitrary: s)
    case (Cons e es)
    show ?case using Cons [of "demote_address E e s"] one [of e s] by fastforce
  qed simp
  then show ?thesis by (simp add: demoteUnexecutables_def)
qed

lemma cleanup_handled: "set (tp_handled (pool_cleanup now s)) \<subseteq> set (tp_handled s)"
proof -
  have one: "set (tp_handled (cleanup_address c k e s)) \<subseteq> set (tp_handled s)" for c k e s
    by (cases e; cases k) (auto simp: cleanup_address_def Let_def fold_drop_old set_pool_txs_def bump_count_def
        dest!: set_delete_hashes [THEN subsetD])
  have "set (tp_handled (fold (cleanup_address c k) es s)) \<subseteq> set (tp_handled s)" for c k es s
  proof (induction es arbitrary: s)
    case (Cons e es)
    show ?case using Cons [of "cleanup_address c k e s"] one [of c k e s] by fastforce
  qed simp
  note all = this
  let ?s1 = "fold (cleanup_address (now - 1200000) Pending) (tp_pending s) s"
  have "set (tp_handled (pool_cleanup now s)) \<subseteq>
      set (tp_handled (fold (cleanup_address (now - 1200000) Queued) (tp_queued ?s1) ?s1))"
    by (auto simp: pool_cleanup_def Let_def)
  also have "\<dots> \<subseteq> set (tp_handled ?s1)" by (rule all)
  also have "\<dots> \<subseteq> set (tp_handled s)" by (rule all)
  finally show ?thesis .
qed

lemma handleReorg_ok:
  assumes ok: "pool_ok f s" and hd: "handled_ok f now s" and own: "list_all (own_hash f) (concat oldBlocks)"
    and safe: "safe_reinject E now (map ptx_hash (concat newBlocks)) (concat oldBlocks) s"
  shows "\<exists>s'. handleReorg E now oldBlocks newBlocks s = Some s' \<and> pool_ok f s' \<and> handled_ok f now s'"
proof -
  obtain s1 where s1: "reinject E now (map ptx_hash (concat newBlocks)) (concat oldBlocks) s = Some s1"
    "pool_ok f s1" "handled_ok f now s1"
    using reinject_ok [OF ok hd own safe] by blast
  let ?s2 = "removeNewBlockTxs newBlocks (s1\<lparr>tp_nonces := []\<rparr>)"
  have s2: "pool_ok f ?s2" "handled_ok f now ?s2"
    using removeNewBlockTxs_ok [of f "s1\<lparr>tp_nonces := []\<rparr>" newBlocks] s1(2,3) by (simp_all add: handled_ok_def)
  have "pool_ok f (promoteExecutables E None (demoteUnexecutables E ?s2))"
    by (rule promoteExecutables_ok [OF demoteUnexecutables_ok [OF s2(1)]])
  moreover have "handled_ok f now (promoteExecutables E None (demoteUnexecutables E ?s2))"
    by (rule handled_less [OF promote_handled handled_less [OF demote_handled s2(2)]])
  ultimately show ?thesis using s1(1) by (simp add: handleReorg_def)
qed

lemma pool_step_ok:
  assumes ok: "pool_ok f s" and hd: "handled_ok f clock s" and safe: "safe_call f clock c s"
  shows "\<exists>s'. pool_step c s = Some s' \<and> pool_ok f s' \<and> handled_ok f (clock_after clock c) s'"
proof (cases c)
  case (Add E now t isLocal)
  have hd': "handled_ok f now s" by (rule handled_later [OF hd]) (use safe Add in simp)
  have "safe_call f now (Add E now t isLocal) s" using safe Add by simp
  from pool_add_ok [OF ok hd' this] show ?thesis using Add by auto
next
  case (Reorg E now oldBlocks newBlocks)
  have hd': "handled_ok f now s" by (rule handled_later [OF hd]) (use safe Reorg in simp)
  show ?thesis using handleReorg_ok [OF ok hd'] safe Reorg by simp
next
  case (Mined blocks)
  then show ?thesis using removeNewBlockTxs_ok [OF ok] hd by (simp add: handled_ok_def)
next
  case (Promote E a)
  then show ?thesis using promoteExecutables_ok [OF ok] handled_less [OF promote_handled hd] by simp
next
  case (Demote E)
  then show ?thesis using demoteUnexecutables_ok [OF ok] handled_less [OF demote_handled hd] by simp
next
  case (Cleanup now)
  then show ?thesis using pool_cleanup_ok [OF ok] handled_less [OF cleanup_handled hd] by simp
qed (use ok hd in \<open>simp_all add: clearNonceCache_def pool_start_def pool_stop_def split: option.split\<close>)

lemma pool_steps_ok:
  "pool_ok f s \<Longrightarrow> handled_ok f clock s \<Longrightarrow> safe_calls f clock cs s \<Longrightarrow> \<exists>s'. pool_steps cs s = Some s' \<and> pool_ok f s'"
proof (induction cs arbitrary: s clock)
  case (Cons c cs)
  obtain s' where s': "pool_step c s = Some s'" "pool_ok f s'" "handled_ok f (clock_after clock c) s'"
    using pool_step_ok [OF Cons.prems(1,2)] Cons.prems(3) by auto
  then show ?case using Cons.IH [OF s'(2,3)] Cons.prems(3) by simp
qed simp

lemma new_pool_ok: "pool_ok f new_pool"
  using priced.new_heap_ok [of None]
  by (simp add: pool_ok_def pool_rep_def new_pool_def owned_def one_each_def)

lemma new_pool_handled: "handled_ok f clock new_pool"
  by (simp add: handled_ok_def new_pool_def)

section \<open>What holds after any run\<close>

definition pool_members :: "txpool \<Rightarrow> pool_obj list" where
  "pool_members s = concat (map snd (tp_pending s)) @ concat (map snd (tp_queued s))"

lemma pool_ok_books:
  assumes "pool_ok f s"
  shows "tp_pendingCount s = int (length (concat (map snd (tp_pending s))))"
    "tp_queuedCount s = int (length (concat (map snd (tp_queued s))))"
    "heap_items (tp_priced s) = mset (pool_members s)"
    "\<forall>x\<in>set (pool_members s). hasHandled (po_hash x) s"
    "distinct (map po_hash (pool_members s))" "distinct (map slot_of (pool_members s))"
proof -
  have rep: "pool_rep f (tp_pending s) (tp_queued s) (heap_items (tp_priced s)) (tp_handled s)
    (tp_pendingCount s) (tp_queuedCount s)"
    by (rule pool_okD(4) [OF assms])
  then show "tp_pendingCount s = int (length (concat (map snd (tp_pending s))))"
    "tp_queuedCount s = int (length (concat (map snd (tp_queued s))))"
    unfolding pool_rep_def by blast+
  have "heap_items (tp_priced s) = mset (concat (map snd (tp_pending s))) + mset (concat (map snd (tp_queued s)))"
    using rep unfolding pool_rep_def by blast
  then show items: "heap_items (tp_priced s) = mset (pool_members s)" by (simp add: pool_members_def)
  have "\<forall>x\<in>#heap_items (tp_priced s). known f (tp_handled s) x" using rep unfolding pool_rep_def by blast
  then show "\<forall>x\<in>set (pool_members s). hasHandled (po_hash x) s"
    unfolding items by (auto simp: known_def hasHandled_def)
  have "one_each (mset xs) \<Longrightarrow> distinct (map po_hash xs) \<and> distinct (map slot_of xs)" for xs
  proof (induction xs)
    case (Cons x xs)
    have "one_each (mset xs)" by (rule one_each_sub [OF Cons.prems]) simp
    moreover have "po_hash x \<noteq> po_hash y" "slot_of x \<noteq> slot_of y" if "y \<in> set xs" for y
      by (rule one_each_apart [of "{#x#}" "mset xs"] one_each_slots [of "{#x#}" "mset xs"],
          use Cons.prems that in simp_all)+
    ultimately show ?case using Cons.IH by force
  qed simp
  then show "distinct (map po_hash (pool_members s))" "distinct (map slot_of (pool_members s))"
    using pool_rep_one [OF rep] unfolding items by blast+
qed

lemma find_only:
  assumes "x \<in> set xs" and "p x" and "\<And>y. y \<in> set xs \<Longrightarrow> p y \<Longrightarrow> y = x"
  shows "find p xs = Some x"
proof (cases "find p xs")
  case None
  then show ?thesis using assms(1,2) unfolding find_None_iff by blast
next
  case (Some y)
  then have "y \<in> set xs" "p y" unfolding find_Some_iff by auto
  then show ?thesis using Some assms(3) by metis
qed

lemma validate_new:
  assumes "validate E t isLocal s = Inr ()"
    and "find (\<lambda>x. ptx_nonce (po_tx x) = ptx_nonce t)
      (txs_of (tp_pending s) (ptx_sender t) @ txs_of (tp_queued s) (ptx_sender t)) = Some x"
  shows "ptx_hash (po_tx x) \<noteq> ptx_hash t"
proof
  assume "ptx_hash (po_tx x) = ptx_hash t"
  then show False using assms(1) unfolding validate_def Let_def assms(2) txGasPrice_def
    by (simp split: if_split_asm)
qed

text \<open>The duplicate guard of \<open>validate\<close>: nothing that is pooled is accepted again.\<close>

lemma accepted_is_new:
  assumes ok: "pool_ok f s" and own: "own_hash f t" and acc: "validate E t isLocal s = Inr ()"
  shows "\<not> pooled (ptx_hash t) s"
proof
  assume "pooled (ptx_hash t) s"
  then obtain x where x: "x \<in># heap_items (tp_priced s)" "po_hash x = ptx_hash t"
    unfolding pooled_iff [OF ok] by (metis imageE)
  have "known f (tp_handled s) x" using pool_okD(4) [OF ok] x(1) unfolding pool_rep_def by blast
  then have xt: "slot_of x = (ptx_sender t, ptx_nonce t)" "ptx_hash (po_tx x) = ptx_hash t"
    using x(2) own by (simp_all add: known_def own_hash_def)
  let ?l = "txs_of (tp_pending s) (ptx_sender t) @ txs_of (tp_queued s) (ptx_sender t)"
  obtain k where "x \<in> set (txs_of (pool_txs k s) (ptx_sender t))"
    using pool_ok_items [OF ok x(1)] xt(1) by (auto simp: slot_of_def)
  then have "x \<in> set ?l" by (cases k) (simp_all add: pool_txs_def)
  note x_in = this
  have same: "y = x" if y: "y \<in> set ?l" "ptx_nonce (po_tx y) = ptx_nonce t" for y
  proof (rule one_each_same [OF pool_rep_one [OF pool_okD(4) [OF ok]] _ x(1)])
    have "y \<in> set (txs_of (pool_txs Pending s) (ptx_sender t)) \<or> y \<in> set (txs_of (pool_txs Queued s) (ptx_sender t))"
      using y(1) by (simp add: pool_txs_def)
    then show "y \<in># heap_items (tp_priced s)" using pool_member [OF txs_of_subset ok] by blast
    have "ptx_sender (po_tx y) = ptx_sender t" using y(1) owned_sender pool_okD(2,3) [OF ok] by auto
    then show "slot_of y = slot_of x" using y(2) xt(1) by (simp add: slot_of_def)
  qed
  have "ptx_nonce (po_tx x) = ptx_nonce t" using xt(1) by (simp add: slot_of_def)
  from find_only [of x ?l "\<lambda>y. ptx_nonce (po_tx y) = ptx_nonce t", OF x_in this same]
  have "find (\<lambda>y. ptx_nonce (po_tx y) = ptx_nonce t) ?l = Some x" .
  then show False using validate_new [OF acc] xt(2) by blast
qed

lemma minimal_price:
  assumes "pool_ok f s" and "x \<in> set (pool_members s)"
  shows "getMinPrice s \<le> ptx_gasPrice (po_tx x)"
proof -
  have x: "x \<in># heap_items (tp_priced s)" using pool_ok_books(3) [OF assms(1)] assms(2) by simp
  then obtain m where m: "heap_peek (tp_priced s) = Some m" "\<not> priced_before x m"
    using priced.peek_ok [OF pool_okD(1) [OF assms(1)]] by (auto split: option.splits)
  then show ?thesis by (simp add: getMinPrice_def priced_before_def)
qed

section \<open>Outside these conditions\<close>

text \<open>An addition that meets \<open>slot_clash\<close> is refused, but the transaction it would have replaced has
  already left the heap, the counter and the index, and stays in its list.\<close>

lemma slot_clash_breaks:
  assumes ok: "pool_ok f s" and clash: "slot_clash t False k s"
  shows "\<exists>old s'. add_to E now t False k s = Some (throw ''Cannot add tx: account exceeds limit'', s') \<and>
    old \<in> set (txs_of (pool_txs k s') (ptx_sender t)) \<and> old \<notin># heap_items (tp_priced s') \<and>
    pool_members s' = pool_members s \<and> count_of k s' = count_of k s - 1"
proof -
  let ?l = "txs_of (pool_txs k s) (ptx_sender t)"
  obtain old where old: "index_by_nonce (ptx_nonce t) ?l = Some old"
    "length ?l > (case k of Pending \<Rightarrow> ACCOUNT_SLOTS | Queued \<Rightarrow> ACCOUNT_QUEUE)"
    using clash by (auto simp: slot_clash_def split: option.splits)
  have mem: "old \<in> set ?l" using old(1) by (auto simp: index_by_nonce_def find_Some_iff)
  let ?s = "bump_count k (- 1) ((removeFromPriced old s)\<lparr>tp_index := AList.delete (po_hash old) (tp_index s)\<rparr>)"
  have "length (remove1 old ?l) \<ge> (case k of Pending \<Rightarrow> ACCOUNT_SLOTS | Queued \<Rightarrow> ACCOUNT_QUEUE)"
    using old(2) mem by (simp add: length_remove1)
  then have "add_to E now t False k s = Some (throw ''Cannot add tx: account exceeds limit'', ?s)"
    using old(1) by (simp add: add_to_def Let_def)
  moreover have "pool_txs k ?s = pool_txs k s" "pool_members ?s = pool_members s" "count_of k ?s = count_of k s - 1"
    by (cases k; simp add: pool_txs_def pool_members_def bump_count_def removeFromPriced_def count_of_def)+
  moreover have "tp_priced ?s = unprice [old] (tp_priced s)"
    by (cases k) (simp_all add: bump_count_def removeFromPriced_unprice)
  then have "old \<notin># heap_items (tp_priced ?s)" using unprice_ok [OF pool_okD(1) [OF ok], of "[old]"] by simp
  ultimately show ?thesis using mem by metis
qed

text \<open>A replacement of a pending transaction whose nonce is not the one of the account is classified
  into the queue, beside the one it replaces. When the account has come to that nonce, the same
  transaction is accepted a second time and replaces the pending one: its hash is pooled twice.\<close>

definition demo_env :: pool_env where
  "demo_env = \<lparr>pe_nonce = (\<lambda>_. 0), pe_balance = (\<lambda>_. 1000000), pe_gasLimit = 1000, pe_rootOk = True\<rparr>"

definition demo_ptx :: "nat \<Rightarrow> int \<Rightarrow> int \<Rightarrow> pool_tx" where
  "demo_ptx i n p = \<lparr>ptx_id = i, ptx_nonce = n, ptx_gasPrice = p, ptx_gasLimit = 10, ptx_value = 0, ptx_dataLength = 0,
     ptx_signed = True, ptx_legacy = True, ptx_sender = [7], ptx_hash = [i]\<rparr>"

definition twin_calls :: "pool_call list" where
  "twin_calls = [Add demo_env 5 (demo_ptx 1 0 10) False, Add demo_env 6 (demo_ptx 2 1 10) False,
     Add demo_env 7 (demo_ptx 3 1 20) False, ClearNonces None,
     Add (demo_env\<lparr>pe_nonce := \<lambda>_. 1\<rparr>) 8 (demo_ptx 3 1 20) False]"

lemma twin_breaks: "map_option (\<lambda>s. map po_hash (pool_members s)) (pool_steps (take 3 twin_calls) new_pool) = Some [[1], [2], [3]]"
    "map_option (\<lambda>s. map po_hash (pool_members s)) (pool_steps twin_calls new_pool) = Some [[1], [3], [3]]"
  by code_simp+

section \<open>The books\<close>

text \<open>C8. The transaction pool (\<open>txpool.ts\<close>) returns from every call and keeps its books. After any
  sequence of calls of its interface - \<open>add\<close>, \<open>removeNewBlockTxs\<close>, \<open>handleReorg\<close>,
  \<open>promoteExecutables\<close>, \<open>demoteUnexecutables\<close>, \<open>cleanup\<close>, \<open>clearNonceCache\<close>, start and stop, in
  which the clock does not go back and a hash determines its sender and nonce - all eviction loops
  have ended, \<open>pendingCount\<close> and \<open>queuedCount\<close> count the two maps, the heap of prices holds exactly
  the pooled transactions, no hash and no nonce of a sender is pooled twice, each pooled
  transaction is recorded as handled, every list belongs to one sender, \<open>getMinPrice\<close> is a lower
  bound of the pooled prices, and \<open>validate\<close> refuses whatever is pooled already. Two situations
  are excluded, in which the code is wrong (\<open>clashes\<close>): an accepted transaction replaces one of an
  account that is over its slots (\<open>slot_clash\<close>, see \<open>slot_clash_breaks\<close>), or the one it replaces
  stands in the other of the two maps (\<open>twin\<close>, see \<open>twin_breaks\<close>).\<close>

theorem pool_calls:
  assumes "safe_calls f clock cs new_pool"
  shows "\<exists>s. pool_steps cs new_pool = Some s \<and>
    tp_pendingCount s = int (length (concat (map snd (tp_pending s)))) \<and>
    tp_queuedCount s = int (length (concat (map snd (tp_queued s)))) \<and>
    heap_items (tp_priced s) = mset (pool_members s) \<and>
    distinct (map po_hash (pool_members s)) \<and> distinct (map slot_of (pool_members s)) \<and>
    owned (tp_pending s) \<and> owned (tp_queued s) \<and>
    (\<forall>x\<in>set (pool_members s). hasHandled (po_hash x) s \<and> getMinPrice s \<le> ptx_gasPrice (po_tx x)) \<and>
    (\<forall>E t isLocal. own_hash f t \<longrightarrow> pooled (ptx_hash t) s \<longrightarrow> (\<exists>e. validate E t isLocal s = Inl e))"
proof -
  obtain s where s: "pool_steps cs new_pool = Some s" "pool_ok f s"
    using pool_steps_ok [OF new_pool_ok new_pool_handled assms] by blast
  have "\<exists>e. validate E t isLocal s = Inl e" if "own_hash f t" "pooled (ptx_hash t) s" for E t isLocal
    using accepted_is_new [OF s(2) that(1)] that(2) by (cases "validate E t isLocal s") auto
  then show ?thesis using s pool_ok_books [OF s(2)] pool_okD(2,3) [OF s(2)] minimal_price [OF s(2)]
    by (intro exI [of _ s] conjI) simp_all
qed

definition demo_calls :: "pool_call list" where
  "demo_calls = [Start, Add demo_env 5 (demo_ptx 1 0 10) False, Add demo_env 6 (demo_ptx 2 2 20) False,
     Add demo_env 6 (demo_ptx 3 0 40) False, Add demo_env 7 (demo_ptx 4 1 30) False,
     Add demo_env 7 (demo_ptx 4 1 30) False, Cleanup 1200006]"

definition demo_slot :: "jsstr \<Rightarrow> jsstr \<times> int" where
  "demo_slot h = ([7], if h = [2] then 2 else if h = [4] then 1 else 0)"

lemma demo_safe: "safe_calls demo_slot 0 demo_calls new_pool"
  by code_simp

lemma demo_run: "map_option (\<lambda>s. (map (\<lambda>(a, xs). (a, map po_hash xs)) (tp_pending s), tp_queued s, getMinPrice s))
    (pool_steps demo_calls new_pool) = Some ([([7], [[3], [4], [2]])], [], 20)"
  by code_simp

theorem pool_calls_witness:
  "\<exists>s. pool_steps demo_calls new_pool = Some s \<and> distinct (map po_hash (pool_members s)) \<and>
    distinct (map slot_of (pool_members s)) \<and>
    (\<forall>x\<in>set (pool_members s). getMinPrice s \<le> ptx_gasPrice (po_tx x))"
  using pool_calls [OF demo_safe] by blast

end
