(* ===== verification/Tx.thy ===== *)
theory Tx
  imports EvmCalls Doubles
begin

text \<open>
  Transactions: \<open>tx/src\<close>. One record holds the fields of all five types, a constructor per type
  builds it from loosely typed data with the checks of the code, in their order. The functions of
  \<open>capabilities/*.ts\<close> follow: data gas, intrinsic gas, costs, messages to sign, hashes, signatures and
  validation, then the readers of network encodings. Signing and key recovery are third-party code
  (\<open>crypto\<close>), the chain rules are an argument (\<open>common\<close>). The network wrapper of blob transactions
  (blobs, commitments and proofs), JSON forms and error texts are left out.
\<close>

section \<open>Data\<close>

record common =
  cm_param :: "string \<Rightarrow> int"
  cm_eip :: "nat \<Rightarrow> bool"
  cm_gteHardfork :: "string \<Rightarrow> bool"
  cm_chainId :: int
  cm_hasKzg :: bool

datatype tx_kind = Legacy | AccessListEIP2930 | FeeMarketEIP1559 | BlobEIP4844 | EOACodeEIP7702

fun kind_id :: "tx_kind \<Rightarrow> u8" where
  "kind_id Legacy = 0"
| "kind_id AccessListEIP2930 = 1"
| "kind_id FeeMarketEIP1559 = 2"
| "kind_id BlobEIP4844 = 3"
| "kind_id EOACodeEIP7702 = 4"

definition EIP155ReplayProtection :: nat where "EIP155ReplayProtection = 155"
definition EIP1559FeeMarket :: nat where "EIP1559FeeMarket = 1559"
definition EIP2718TypedTransaction :: nat where "EIP2718TypedTransaction = 2718"
definition EIP2930AccessLists :: nat where "EIP2930AccessLists = 2930"
definition EIP7702EOACode :: nat where "EIP7702EOACode = 7702"

text \<open>Access and authorization lists stay as they came, and are read through the checks below.\<close>

record tx =
  tx_kind :: tx_kind
  tx_chainId :: int
  tx_nonce :: int
  tx_gasPrice :: int
  tx_maxPriorityFeePerGas :: int
  tx_maxFeePerGas :: int
  tx_gasLimit :: int
  tx_to :: "u8 list option"
  tx_value :: int
  tx_data :: "u8 list"
  tx_accessList :: rlp_data
  tx_maxFeePerBlobGas :: int
  tx_blobVersionedHashes :: "jsstr list"
  tx_authorizationList :: rlp_data
  tx_v :: "int option"
  tx_r :: "int option"
  tx_s :: "int option"
  tx_capabilities :: "nat list"

record txdata =
  td_chainId :: js_like
  td_nonce :: js_like
  td_gasPrice :: js_like
  td_maxPriorityFeePerGas :: js_like
  td_maxFeePerGas :: js_like
  td_gasLimit :: js_like
  td_to :: js_like
  td_value :: js_like
  td_data :: js_like
  td_accessList :: rlp_data
  td_maxFeePerBlobGas :: js_like
  td_blobVersionedHashes :: rlp_data
  td_authorizationList :: rlp_data
  td_v :: js_like
  td_r :: js_like
  td_s :: js_like

definition empty_txdata :: txdata where
  "empty_txdata = \<lparr>td_chainId = LUndef, td_nonce = LUndef, td_gasPrice = LUndef, td_maxPriorityFeePerGas = LUndef,
     td_maxFeePerGas = LUndef, td_gasLimit = LUndef, td_to = LUndef, td_value = LUndef, td_data = LUndef,
     td_accessList = DList [], td_maxFeePerBlobGas = LUndef, td_blobVersionedHashes = DList [],
     td_authorizationList = DList [], td_v = LUndef, td_r = LUndef, td_s = LUndef\<rparr>"

definition supports :: "tx \<Rightarrow> nat \<Rightarrow> bool" where
  "supports t capability \<longleftrightarrow> capability \<in> set (tx_capabilities t)"

definition isSigned :: "tx \<Rightarrow> bool" where
  "isSigned t = (if tx_v t = None \<or> tx_r t = None \<or> tx_s t = None then False else True)"

section \<open>Checks of the constructors\<close>

fun valueOverflowCheck :: "int option list \<Rightarrow> nat \<Rightarrow> bool \<Rightarrow> unit res" where
  "valueOverflowCheck [] bits cannotEqual = Inr ()"
| "valueOverflowCheck (v # vs) bits cannotEqual =
    (if bits = 64 then
       (if cannotEqual then
          (if v \<noteq> None \<and> the v \<ge> MAX_UINT64 then throw ''cannot equal or exceed MAX_UINT64 (2^64-1)''
           else valueOverflowCheck vs bits cannotEqual)
        else if v \<noteq> None \<and> the v > MAX_UINT64 then throw ''cannot exceed MAX_UINT64 (2^64-1)''
        else valueOverflowCheck vs bits cannotEqual)
     else if bits = 256 then
       (if cannotEqual then
          (if v \<noteq> None \<and> the v \<ge> MAX_INTEGER_BIGINT then throw ''cannot equal or exceed MAX_INTEGER (2^256-1)''
           else valueOverflowCheck vs bits cannotEqual)
        else if v \<noteq> None \<and> the v > MAX_INTEGER_BIGINT then throw ''cannot exceed MAX_INTEGER (2^256-1)''
        else valueOverflowCheck vs bits cannotEqual)
     else throw ''unimplemented bits value'')"

definition num_of :: "lib \<Rightarrow> js_like \<Rightarrow> int res" where
  "num_of L v = bindE (toBytes L v) (bytesToBigInt L)"

text \<open>A signature value is absent when its bytes are empty.\<close>

definition opt_num :: "lib \<Rightarrow> u8 list \<Rightarrow> int option res" where
  "opt_num L b = (if length b > 0 then bindE (bytesToBigInt L b) (\<lambda>n. Inr (Some n)) else Inr None)"

definition checkMaxInitCodeSize :: "common \<Rightarrow> nat \<Rightarrow> unit res" where
  "checkMaxInitCodeSize C len =
    (if cm_param C ''maxInitCodeSize'' \<noteq> 0 \<and> int len > cm_param C ''maxInitCodeSize''
     then throw ''the initcode size of this transaction is too large'' else Inr ())"

definition empty_string_as_0x :: "js_like \<Rightarrow> js_like" where
  "empty_string_as_0x v = (if v = LStr [] then LStr [48, 120] else v)"

definition shared_checks :: "common \<Rightarrow> bool \<Rightarrow> tx_kind \<Rightarrow> int \<Rightarrow> int \<Rightarrow> u8 list option \<Rightarrow> int \<Rightarrow> u8 list \<Rightarrow>
    int option \<Rightarrow> int option \<Rightarrow> int option \<Rightarrow> tx res" where
  "shared_checks C allowUnlimitedInitCodeSize k nonce gasLimit to val data v r s =
    bindE (valueOverflowCheck [Some val, r, s] 256 False) (\<lambda>_.
    bindE (valueOverflowCheck [Some gasLimit] 64 False) (\<lambda>_.
    bindE (valueOverflowCheck [Some nonce] 64 True) (\<lambda>_.
    bindE (if cm_eip C 7825 \<and> gasLimit > cm_param C ''maxTransactionGasLimit''
           then throw ''Transaction gas limit exceeds the maximum allowed by EIP-7825'' else Inr ()) (\<lambda>_.
    bindE (if to = None \<and> cm_eip C 3860 \<and> \<not> allowUnlimitedInitCodeSize
           then checkMaxInitCodeSize C (length data) else Inr ()) (\<lambda>_.
    Inr \<lparr>tx_kind = k, tx_chainId = 0, tx_nonce = nonce, tx_gasPrice = 0, tx_maxPriorityFeePerGas = 0,
      tx_maxFeePerGas = 0, tx_gasLimit = gasLimit, tx_to = to, tx_value = val, tx_data = data,
      tx_accessList = DList [], tx_maxFeePerBlobGas = 0, tx_blobVersionedHashes = [],
      tx_authorizationList = DList [], tx_v = v, tx_r = r, tx_s = s, tx_capabilities = []\<rparr>)))))"

definition sharedConstructor :: "lib \<Rightarrow> common \<Rightarrow> bool \<Rightarrow> tx_kind \<Rightarrow> txdata \<Rightarrow> tx res" where
  "sharedConstructor L C allowUnlimitedInitCodeSize k d =
    bindE (toBytes L (empty_string_as_0x (td_to d))) (\<lambda>toB.
    bindE (if length toB > 0 then bindE (address_new toB) (\<lambda>a. Inr (Some a)) else Inr None) (\<lambda>to.
    bindE (toBytes L (td_v d)) (\<lambda>vB.
    bindE (toBytes L (td_r d)) (\<lambda>rB.
    bindE (toBytes L (td_s d)) (\<lambda>sB.
    bindE (num_of L (td_nonce d)) (\<lambda>nonce.
    bindE (num_of L (td_gasLimit d)) (\<lambda>gasLimit.
    bindE (num_of L (td_value d)) (\<lambda>val.
    bindE (toBytes L (empty_string_as_0x (td_data d))) (\<lambda>data.
    bindE (opt_num L vB) (\<lambda>v.
    bindE (opt_num L rB) (\<lambda>r.
    bindE (opt_num L sB) (\<lambda>s.
    shared_checks C allowUnlimitedInitCodeSize k nonce gasLimit to val data v r s))))))))))))"

text \<open>\<open>Number(x)\<close> of a non-negative bigint: the nearest double.\<close>

definition Number_of :: "int \<Rightarrow> int" where
  "Number_of x = int (round53 (nat x))"

definition meetsEIP155 :: "int \<Rightarrow> int \<Rightarrow> bool" where
  "meetsEIP155 v chainId =
    (let v = Number_of v; chainIdDoubled = Number_of chainId * 2 in
     v = Number_of (chainIdDoubled + 35) \<or> v = Number_of (chainIdDoubled + 36))"

definition validateVAndExtractChainID :: "common \<Rightarrow> int option \<Rightarrow> int option res" where
  "validateVAndExtractChainID C v0 = (case v0 of
     None \<Rightarrow> Inr None
   | Some b \<Rightarrow>
      (let v = Number_of b in
       if v < 37 \<and> v \<noteq> 27 \<and> v \<noteq> 28 then throw ''Legacy txs need either v = 27/28 or v >= 37 (EIP-155 replay protection)''
       else if v \<noteq> 0 \<and> cm_gteHardfork C ''spuriousDragon'' \<and> v \<noteq> 27 \<and> v \<noteq> 28 then
         (if \<not> meetsEIP155 v (cm_chainId C) then throw ''Incompatible EIP155-based V''
          else (let numSub = (if Number_of (v - 35) mod 2 = 0 then 35 else 36) in
            Inr (Some (Number_of (v - numSub) div 2))))
       else Inr None))"

definition secp256k1_order_div_2 :: int where
  "secp256k1_order_div_2 = 57896044618658097711785492504343953926418782139537452191302581570759080747168"

definition validateHighS :: "common \<Rightarrow> tx \<Rightarrow> unit res" where
  "validateHighS C t =
    (if cm_gteHardfork C ''homestead'' \<and> tx_s t \<noteq> None \<and> the (tx_s t) > secp256k1_order_div_2
     then throw ''Invalid Signature: s-values greater than secp256k1n/2 are considered invalid'' else Inr ())"

definition validateYParity :: "tx \<Rightarrow> unit res" where
  "validateYParity t =
    (if tx_v t \<noteq> None \<and> the (tx_v t) \<noteq> 0 \<and> the (tx_v t) \<noteq> 1
     then throw ''The y-parity of the transaction should either be 0 or 1'' else Inr ())"

fun dlen :: "rlp_data \<Rightarrow> nat" where
  "dlen (DBytes b) = length b"
| "dlen (DList ds) = length ds"

text \<open>An access list that is a byte array is taken for the JSON form, and refused, unless it is
  empty. The elements of a byte array are numbers, without a length.\<close>

fun verify_access_item :: "rlp_data \<Rightarrow> unit res" where
  "verify_access_item (DList [a, slots]) =
    (if dlen a \<noteq> 20 then throw ''Invalid EIP-2930 transaction: address length should be 20 bytes''
     else (case slots of
         DBytes b \<Rightarrow> if b = [] then Inr () else throw ''Invalid EIP-2930 transaction: storage slot length should be 32 bytes''
       | DList ss \<Rightarrow> if list_all (\<lambda>x. dlen x = 32) ss then Inr ()
           else throw ''Invalid EIP-2930 transaction: storage slot length should be 32 bytes''))"
| "verify_access_item (DBytes [a, b]) = throw ''Invalid EIP-2930 transaction: address length should be 20 bytes''"
| "verify_access_item _ = throw ''Invalid EIP-2930 transaction: access list item should have 2 elements''"

fun verifyAccessList :: "rlp_data \<Rightarrow> unit res" where
  "verifyAccessList (DBytes b) = (if b = [] then Inr () else throw ''TypeError'')"
| "verifyAccessList (DList items) = bindE (mapE verify_access_item items) (\<lambda>_. Inr ())"

fun verify_authorization :: "lib \<Rightarrow> rlp_data \<Rightarrow> unit res" where
  "verify_authorization L (DList [DBytes chainId, DBytes address, DBytes nonce, DBytes yParity, DBytes r, DBytes s]) =
    bindE (validateNoLeadingZeroes [Some yParity, Some r, Some s, Some nonce, Some chainId]) (\<lambda>_.
    if length address \<noteq> 20 then throw ''Invalid EIP-7702 transaction: address length should be 20 bytes''
    else bindE (bytesToBigInt L chainId) (\<lambda>c.
    if c > MAX_INTEGER_BIGINT then throw ''Invalid EIP-7702 transaction: chainId exceeds 2^256 - 1''
    else bindE (bytesToBigInt L nonce) (\<lambda>n.
    if n > MAX_UINT64 then throw ''Invalid EIP-7702 transaction: nonce exceeds 2^64 - 1''
    else bindE (bytesToBigInt L yParity) (\<lambda>y.
    if y \<ge> 2 ^ 8 then throw ''Invalid EIP-7702 transaction: yParity should be fit within 1 byte (0 - 255)''
    else bindE (bytesToBigInt L r) (\<lambda>r.
    if r > MAX_INTEGER_BIGINT then throw ''Invalid EIP-7702 transaction: r exceeds 2^256 - 1''
    else bindE (bytesToBigInt L s) (\<lambda>s.
    if s > MAX_INTEGER_BIGINT then throw ''Invalid EIP-7702 transaction: s exceeds 2^256 - 1''
    else Inr ()))))))"
| "verify_authorization L (DList items) =
    (if length items \<noteq> 6 then throw ''Invalid EIP-7702 transaction: authorization list item should have 6 elements''
     else throw ''Invalid EIP-7702 transaction: authority list element is a list, not bytes'')"
| "verify_authorization L (DBytes b) = throw ''TypeError''"

definition verifyAuthorizationList :: "lib \<Rightarrow> rlp_data \<Rightarrow> unit res" where
  "verifyAuthorizationList L l =
    (if dlen l = 0 then throw ''Invalid EIP-7702 transaction: authorization list is empty''
     else (case l of
         DBytes _ \<Rightarrow> throw ''TypeError''
       | DList items \<Rightarrow> bindE (mapE (verify_authorization L) items) (\<lambda>_. Inr ())))"

section \<open>Constructors\<close>

definition legacy_new :: "lib \<Rightarrow> common \<Rightarrow> bool \<Rightarrow> txdata \<Rightarrow> tx res" where
  "legacy_new L C allow d =
    bindE (sharedConstructor L C allow Legacy d) (\<lambda>t.
    bindE (num_of L (td_gasPrice d)) (\<lambda>gasPrice.
    bindE (valueOverflowCheck [Some gasPrice] 256 False) (\<lambda>_.
    bindE (validateVAndExtractChainID C (tx_v t)) (\<lambda>chainId.
    if chainId \<noteq> None \<and> the chainId \<noteq> cm_chainId C then throw ''GlobalConfig chain ID not matching the derived chain ID''
    else if gasPrice * tx_gasLimit t > MAX_INTEGER_BIGINT then throw ''gas limit * gasPrice cannot exceed MAX_INTEGER (2^256-1)''
    else Inr (t\<lparr>tx_gasPrice := gasPrice,
      tx_capabilities :=
        (if cm_gteHardfork C ''spuriousDragon'' \<and> (\<not> isSigned t \<or> meetsEIP155 (the (tx_v t)) (cm_chainId C))
         then [EIP155ReplayProtection] else [])\<rparr>)))))"

definition check_chain :: "lib \<Rightarrow> common \<Rightarrow> js_like \<Rightarrow> unit res" where
  "check_chain L C c =
    (if c = LUndef then Inr ()
     else bindE (num_of L c) (\<lambda>n. if n \<noteq> cm_chainId C
       then throw ''GlobalConfig chain ID not matching the derived chain ID'' else Inr ()))"

definition accessList_new :: "lib \<Rightarrow> common \<Rightarrow> bool \<Rightarrow> txdata \<Rightarrow> tx res" where
  "accessList_new L C allow d =
    bindE (sharedConstructor L C allow AccessListEIP2930 d) (\<lambda>t.
    bindE (check_chain L C (td_chainId d)) (\<lambda>_.
    if \<not> cm_eip C 2930 then throw ''EIP-2930 not enabled on GlobalConfig''
    else bindE (verifyAccessList (td_accessList d)) (\<lambda>_.
    bindE (num_of L (td_gasPrice d)) (\<lambda>gasPrice.
    bindE (valueOverflowCheck [Some gasPrice] 256 False) (\<lambda>_.
    if gasPrice * tx_gasLimit t > MAX_INTEGER_BIGINT then throw ''gasLimit * gasPrice cannot exceed MAX_INTEGER''
    else bindE (validateYParity t) (\<lambda>_.
    bindE (validateHighS C t) (\<lambda>_.
    Inr (t\<lparr>tx_chainId := cm_chainId C, tx_accessList := td_accessList d, tx_gasPrice := gasPrice,
      tx_capabilities := [EIP2718TypedTransaction, EIP2930AccessLists]\<rparr>))))))))"

text \<open>The fees of the types from EIP-1559 on.\<close>

definition set_fees :: "lib \<Rightarrow> txdata \<Rightarrow> tx \<Rightarrow> tx res" where
  "set_fees L d t =
    bindE (num_of L (td_maxFeePerGas d)) (\<lambda>maxFee.
    bindE (num_of L (td_maxPriorityFeePerGas d)) (\<lambda>maxPriority.
    bindE (valueOverflowCheck [Some maxFee, Some maxPriority] 256 False) (\<lambda>_.
    if tx_gasLimit t * maxFee > MAX_INTEGER_BIGINT
    then throw ''gasLimit * maxFeePerGas cannot exceed MAX_INTEGER (2^256-1)''
    else if maxFee < maxPriority then throw ''maxFeePerGas cannot be less than maxPriorityFeePerGas''
    else Inr (t\<lparr>tx_maxFeePerGas := maxFee, tx_maxPriorityFeePerGas := maxPriority\<rparr>))))"

definition feeMarket_new :: "lib \<Rightarrow> common \<Rightarrow> bool \<Rightarrow> txdata \<Rightarrow> tx res" where
  "feeMarket_new L C allow d =
    bindE (sharedConstructor L C allow FeeMarketEIP1559 d) (\<lambda>t.
    bindE (check_chain L C (td_chainId d)) (\<lambda>_.
    if \<not> cm_eip C 1559 then throw ''EIP-1559 not enabled on GlobalConfig''
    else bindE (verifyAccessList (td_accessList d)) (\<lambda>_.
    bindE (set_fees L d (t\<lparr>tx_chainId := cm_chainId C, tx_accessList := td_accessList d,
      tx_capabilities := [EIP1559FeeMarket, EIP2718TypedTransaction, EIP2930AccessLists]\<rparr>)) (\<lambda>t.
    bindE (validateYParity t) (\<lambda>_.
    bindE (validateHighS C t) (\<lambda>_. Inr t))))))"

text \<open>\<open>BigInt(Number.parseInt(hash.slice(2, 4)))\<close>: the leading decimal digits.\<close>

definition dec_digit :: "nat \<Rightarrow> int option" where
  "dec_digit c = (if 48 \<le> c \<and> c \<le> 57 then Some (int c - 48) else None)"

definition hash_version :: "jsstr \<Rightarrow> int res" where
  "hash_version h = (case dec_digit (h ! 2) of
     None \<Rightarrow> throw ''RangeError: The number NaN cannot be converted to a BigInt''
   | Some a \<Rightarrow> (case dec_digit (h ! 3) of None \<Rightarrow> Inr a | Some b \<Rightarrow> Inr (a * 10 + b)))"

fun check_blob_hashes :: "common \<Rightarrow> jsstr list \<Rightarrow> unit res" where
  "check_blob_hashes C [] = Inr ()"
| "check_blob_hashes C (h # hs) =
    (if length h \<noteq> 66 then throw ''versioned hash is invalid length''
     else bindE (hash_version h) (\<lambda>v.
       if v \<noteq> cm_param C ''blobCommitmentVersionKzg'' then throw ''versioned hash does not start with KZG commitment version''
       else check_blob_hashes C hs))"

definition blob_new :: "lib \<Rightarrow> common \<Rightarrow> bool \<Rightarrow> txdata \<Rightarrow> tx res" where
  "blob_new L C allow d =
    bindE (sharedConstructor L C allow BlobEIP4844 d) (\<lambda>t.
    bindE (check_chain L C (td_chainId d)) (\<lambda>_.
    if \<not> cm_eip C 1559 then throw ''EIP-1559 not enabled on GlobalConfig''
    else if \<not> cm_eip C 4844 then throw ''EIP-4844 not enabled on GlobalConfig''
    else bindE (verifyAccessList (td_accessList d)) (\<lambda>_.
    bindE (set_fees L d (t\<lparr>tx_chainId := cm_chainId C, tx_accessList := td_accessList d,
      tx_capabilities := [EIP1559FeeMarket, EIP2718TypedTransaction, EIP2930AccessLists]\<rparr>)) (\<lambda>t.
    bindE (num_of L (empty_string_as_0x (td_maxFeePerBlobGas d))) (\<lambda>maxBlobFee.
    bindE (case td_blobVersionedHashes d of DBytes _ \<Rightarrow> throw ''versioned hash is invalid length''
           | DList hs \<Rightarrow> bindE (mapE as_bytes hs) (\<lambda>bs. Inr (map (bytesToHex L) bs))) (\<lambda>hashes.
    bindE (validateYParity t) (\<lambda>_.
    bindE (validateHighS C t) (\<lambda>_.
    bindE (check_blob_hashes C hashes) (\<lambda>_.
    if cm_eip C 7594 \<and> int (length hashes) > cm_param C ''maxBlobsPerTx'' then throw ''tx can contain at most maxBlobsPerTx blobs (EIP-7594)''
    else if cm_param C ''blobGasPerBlob'' = 0 then throw ''RangeError: Division by zero''
    else if int (length hashes) > cm_param C ''maxBlobGasPerBlock'' div cm_param C ''blobGasPerBlob''
    then throw ''tx can contain at most limitBlobsPerTx blobs''
    else if hashes = [] then throw ''tx should contain at least one blob''
    else if tx_to t = None then throw ''tx should have a to field and cannot be used to create contracts''
    else Inr (t\<lparr>tx_maxFeePerBlobGas := maxBlobFee, tx_blobVersionedHashes := hashes\<rparr>))))))))))"

definition eoaCode_new :: "lib \<Rightarrow> common \<Rightarrow> bool \<Rightarrow> txdata \<Rightarrow> tx res" where
  "eoaCode_new L C allow d =
    bindE (sharedConstructor L C allow EOACodeEIP7702 d) (\<lambda>t.
    bindE (check_chain L C (td_chainId d)) (\<lambda>_.
    if \<not> cm_eip C 7702 then throw ''EIP-7702 not enabled on GlobalConfig''
    else bindE (verifyAccessList (td_accessList d)) (\<lambda>_.
    bindE (verifyAuthorizationList L (td_authorizationList d)) (\<lambda>_.
    bindE (set_fees L d (t\<lparr>tx_chainId := cm_chainId C, tx_accessList := td_accessList d,
      tx_authorizationList := td_authorizationList d,
      tx_capabilities := [EIP1559FeeMarket, EIP2718TypedTransaction, EIP2930AccessLists, EIP7702EOACode]\<rparr>)) (\<lambda>t.
    bindE (validateYParity t) (\<lambda>_.
    bindE (validateHighS C t) (\<lambda>_.
    if tx_to t = None then throw ''tx should have a to field and cannot be used to create contracts'' else Inr t)))))))"

section \<open>Gas and costs\<close>

definition sum_data :: "int \<Rightarrow> int \<Rightarrow> u8 list \<Rightarrow> int" where
  "sum_data zero nonZero xs = foldl (\<lambda>cost b. cost + (if b = 0 then zero else nonZero)) 0 xs"

text \<open>The cache of the data fee holds the value of the same rules.\<close>

definition legacy_getDataGas :: "common \<Rightarrow> tx \<Rightarrow> int" where
  "legacy_getDataGas C t =
    (let cost = sum_data (cm_param C ''txDataZeroGas'') (cm_param C ''txDataNonZeroGas'') (tx_data t) in
     if tx_to t = None \<and> cm_eip C 3860
     then cost + cm_param C ''initCodeWordGas'' * int ((length (tx_data t) + 31) div 32) else cost)"

fun item_slots :: "rlp_data \<Rightarrow> nat" where
  "item_slots (DList [a, slots]) = dlen slots"
| "item_slots _ = 0"

fun access_items :: "rlp_data \<Rightarrow> rlp_data list" where
  "access_items (DBytes b) = []"
| "access_items (DList ds) = ds"

definition getAccessListDataGas :: "common \<Rightarrow> tx \<Rightarrow> int" where
  "getAccessListDataGas C t =
    int (dlen (tx_accessList t)) * cm_param C ''accessListAddressGas'' +
    int (sum_list (map item_slots (access_items (tx_accessList t)))) * cm_param C ''accessListStorageKeyGas''"

definition getDataGas :: "common \<Rightarrow> tx \<Rightarrow> int" where
  "getDataGas C t = (case tx_kind t of
     Legacy \<Rightarrow> legacy_getDataGas C t
   | EOACodeEIP7702 \<Rightarrow> legacy_getDataGas C t + getAccessListDataGas C t +
       int (dlen (tx_authorizationList t)) * cm_param C ''perEmptyAccountCost''
   | _ \<Rightarrow> legacy_getDataGas C t + getAccessListDataGas C t)"

definition toCreationAddress :: "tx \<Rightarrow> bool res" where
  "toCreationAddress t = (case tx_kind t of
     BlobEIP4844 \<Rightarrow> throw ''Blob4844Tx cannot create contracts''
   | EOACodeEIP7702 \<Rightarrow> throw ''EOACode7702Tx cannot create contracts''
   | _ \<Rightarrow> Inr (tx_to t = None \<or> tx_to t = Some []))"

definition getIntrinsicGas :: "common \<Rightarrow> tx \<Rightarrow> int" where
  "getIntrinsicGas C t =
    (let fee = getDataGas C t + cm_param C ''txGas'';
         isContractCreation = (case toCreationAddress t of Inr b \<Rightarrow> b | Inl _ \<Rightarrow> False) in
     if cm_gteHardfork C ''homestead'' \<and> isContractCreation then fee + cm_param C ''txCreationGas'' else fee)"

definition floor_cost :: "common \<Rightarrow> tx \<Rightarrow> int" where
  "floor_cost C t = cm_param C ''txGas'' + cm_param C ''totalCostFloorPerToken'' * sum_data 1 4 (tx_data t)"

definition fee_getUpfrontCost :: "tx \<Rightarrow> int \<Rightarrow> int" where
  "fee_getUpfrontCost t baseFee =
    (let prio = tx_maxPriorityFeePerGas t; maxBase = tx_maxFeePerGas t - baseFee;
         inclusionFeePerGas = (if prio < maxBase then prio else maxBase); gasPrice = inclusionFeePerGas + baseFee in
     tx_gasLimit t * gasPrice + tx_value t)"

definition getUpfrontCost :: "tx \<Rightarrow> int option \<Rightarrow> int" where
  "getUpfrontCost t baseFee =
    (if tx_kind t = Legacy \<or> tx_kind t = AccessListEIP2930 then tx_gasLimit t * tx_gasPrice t + tx_value t
     else fee_getUpfrontCost t (case baseFee of None \<Rightarrow> 0 | Some b \<Rightarrow> b))"

definition legacy_getEffectivePriorityFee :: "int \<Rightarrow> int option \<Rightarrow> int res" where
  "legacy_getEffectivePriorityFee gasPrice baseFee =
    (if baseFee \<noteq> None \<and> the baseFee > gasPrice then throw ''Tx cannot pay baseFee''
     else if baseFee = None then Inr gasPrice else Inr (gasPrice - the baseFee))"

definition fee_getEffectivePriorityFee :: "tx \<Rightarrow> int option \<Rightarrow> int res" where
  "fee_getEffectivePriorityFee t baseFee =
    (if baseFee = None \<or> the baseFee > tx_maxFeePerGas t then throw ''Tx cannot pay baseFee''
     else (let remainingFee = tx_maxFeePerGas t - the baseFee in
       Inr (if tx_maxPriorityFeePerGas t < remainingFee then tx_maxPriorityFeePerGas t else remainingFee)))"

definition getEffectivePriorityFee :: "tx \<Rightarrow> int option \<Rightarrow> int res" where
  "getEffectivePriorityFee t baseFee =
    (if tx_kind t = Legacy \<or> tx_kind t = AccessListEIP2930 then legacy_getEffectivePriorityFee (tx_gasPrice t) baseFee
     else fee_getEffectivePriorityFee t baseFee)"

definition numBlobs :: "tx \<Rightarrow> nat" where
  "numBlobs t = length (tx_blobVersionedHashes t)"

section \<open>Encodings\<close>

definition opt_raw :: "lib \<Rightarrow> int option \<Rightarrow> u8 list res" where
  "opt_raw L x = (case x of None \<Rightarrow> Inr [] | Some v \<Rightarrow> bigIntToUnpaddedBytes L v)"

definition to_raw :: "tx \<Rightarrow> u8 list" where
  "to_raw t = (case tx_to t of None \<Rightarrow> [] | Some a \<Rightarrow> a)"

text \<open>The fields in network order: numbers, then what each type has.\<close>

definition nums_raw :: "lib \<Rightarrow> int list \<Rightarrow> rlp_data list res" where
  "nums_raw L ns = bindE (mapE (bigIntToUnpaddedBytes L) ns) (\<lambda>bs. Inr (map DBytes bs))"

definition unsigned_raw :: "lib \<Rightarrow> tx \<Rightarrow> rlp_data list res" where
  "unsigned_raw L t =
    (let fees = (case tx_kind t of
           Legacy \<Rightarrow> [tx_nonce t, tx_gasPrice t, tx_gasLimit t]
         | AccessListEIP2930 \<Rightarrow> [tx_chainId t, tx_nonce t, tx_gasPrice t, tx_gasLimit t]
         | _ \<Rightarrow> [tx_chainId t, tx_nonce t, tx_maxPriorityFeePerGas t, tx_maxFeePerGas t, tx_gasLimit t]) in
     bindE (nums_raw L fees) (\<lambda>fs.
     bindE (bigIntToUnpaddedBytes L (tx_value t)) (\<lambda>val.
     let common = fs @ [DBytes (to_raw t), DBytes val, DBytes (tx_data t)] in
     (case tx_kind t of
        Legacy \<Rightarrow> Inr common
      | BlobEIP4844 \<Rightarrow>
          bindE (bigIntToUnpaddedBytes L (tx_maxFeePerBlobGas t)) (\<lambda>bf.
          bindE (mapE (hexToBytes L) (tx_blobVersionedHashes t)) (\<lambda>hs.
          Inr (common @ [tx_accessList t, DBytes bf, DList (map DBytes hs)])))
      | EOACodeEIP7702 \<Rightarrow> Inr (common @ [tx_accessList t, tx_authorizationList t])
      | _ \<Rightarrow> Inr (common @ [tx_accessList t])))))"

definition tx_raw :: "lib \<Rightarrow> tx \<Rightarrow> rlp_data list res" where
  "tx_raw L t =
    bindE (unsigned_raw L t) (\<lambda>u.
    bindE (opt_raw L (tx_v t)) (\<lambda>v.
    bindE (opt_raw L (tx_r t)) (\<lambda>r.
    bindE (opt_raw L (tx_s t)) (\<lambda>s. Inr (u @ [DBytes v, DBytes r, DBytes s])))))"

definition encode_list :: "rlp_data list \<Rightarrow> u8 list res" where
  "encode_list ds = rlp_encode (input_of (DList ds))"

definition eip2718_serialize :: "tx \<Rightarrow> rlp_data list \<Rightarrow> u8 list res" where
  "eip2718_serialize t base = bindE (encode_list base) (\<lambda>b. Inr (kind_id (tx_kind t) # b))"

definition tx_serialize :: "lib \<Rightarrow> tx \<Rightarrow> u8 list res" where
  "tx_serialize L t = bindE (tx_raw L t) (\<lambda>raw.
     if tx_kind t = Legacy then encode_list raw else eip2718_serialize t raw)"

definition legacy_getMessageToSign :: "lib \<Rightarrow> common \<Rightarrow> tx \<Rightarrow> rlp_data list res" where
  "legacy_getMessageToSign L C t =
    bindE (unsigned_raw L t) (\<lambda>message.
    if supports t EIP155ReplayProtection
    then bindE (bigIntToUnpaddedBytes L (cm_chainId C)) (\<lambda>c. Inr (message @ [DBytes c, DBytes [], DBytes []]))
    else Inr message)"

definition getHashedMessageToSign :: "lib \<Rightarrow> common \<Rightarrow> tx \<Rightarrow> u8 list res" where
  "getHashedMessageToSign L C t =
    (if tx_kind t = Legacy
     then bindE (legacy_getMessageToSign L C t) (\<lambda>m. bindE (encode_list m) (\<lambda>b. Inr (keccak_256 L b)))
     else bindE (unsigned_raw L t) (\<lambda>m. bindE (eip2718_serialize t m) (\<lambda>b. Inr (keccak_256 L b))))"

definition tx_hash :: "lib \<Rightarrow> tx \<Rightarrow> u8 list res" where
  "tx_hash L t =
    (if \<not> isSigned t then throw ''Cannot call hash method if transaction is not signed''
     else bindE (tx_serialize L t) (\<lambda>b. Inr (keccak_256 L b)))"

section \<open>Signatures\<close>

record crypto =
  cr_ecrecover :: "u8 list \<Rightarrow> int \<Rightarrow> u8 list \<Rightarrow> u8 list \<Rightarrow> int option \<Rightarrow> u8 list res"
  cr_publicToAddress :: "u8 list \<Rightarrow> u8 list"
  cr_sign :: "u8 list \<Rightarrow> u8 list \<Rightarrow> int \<times> int \<times> int"

definition is_eip155_v :: "int \<Rightarrow> bool" where
  "is_eip155_v v = (Number_of v \<noteq> 27 \<and> Number_of v \<noteq> 28)"

definition legacy_verify_message :: "lib \<Rightarrow> common \<Rightarrow> tx \<Rightarrow> rlp_data list res" where
  "legacy_verify_message L C t =
    (if is_eip155_v (the (tx_v t))
     then bindE (legacy_getMessageToSign L C t) (\<lambda>m.
       bindE (bigIntToUnpaddedBytes L (cm_chainId C)) (\<lambda>c. Inr (m @ [DBytes c, DBytes [], DBytes []])))
     else legacy_getMessageToSign L C t)"

definition getMessageToVerifySignature :: "lib \<Rightarrow> common \<Rightarrow> tx \<Rightarrow> u8 list res" where
  "getMessageToVerifySignature L C t =
    (if tx_kind t = Legacy
     then (if \<not> isSigned t then throw ''This transaction is not signed''
       else bindE (legacy_verify_message L C t) (\<lambda>m. bindE (encode_list m) (\<lambda>b. Inr (keccak_256 L b))))
     else getHashedMessageToSign L C t)"

text \<open>The cached key of a frozen transaction is the same.\<close>

definition getSenderPublicKey :: "lib \<Rightarrow> crypto \<Rightarrow> common \<Rightarrow> tx \<Rightarrow> u8 list res" where
  "getSenderPublicKey L cr C t =
    bindE (getMessageToVerifySignature L C t) (\<lambda>msgHash.
    bindE (validateHighS C t) (\<lambda>_.
    if \<not> isSigned t then throw ''TypeError'' else
    let v = the (tx_v t); chainId = (if is_eip155_v v then Some (cm_chainId C) else None) in
    (case bindE (bigIntToUnpaddedBytes L (the (tx_r t))) (\<lambda>r.
          bindE (bigIntToUnpaddedBytes L (the (tx_s t))) (\<lambda>s.
          cr_ecrecover cr msgHash v r s chainId)) of
       Inr key \<Rightarrow> Inr key | Inl _ \<Rightarrow> throw ''Invalid Signature'')))"

definition getSenderAddress :: "lib \<Rightarrow> crypto \<Rightarrow> common \<Rightarrow> tx \<Rightarrow> u8 list res" where
  "getSenderAddress L cr C t =
    bindE (getSenderPublicKey L cr C t) (\<lambda>key. address_new (cr_publicToAddress cr key))"

definition verifySignature :: "lib \<Rightarrow> crypto \<Rightarrow> common \<Rightarrow> tx \<Rightarrow> bool" where
  "verifySignature L cr C t =
    (case getSenderPublicKey L cr C t of Inr key \<Rightarrow> length (unpadBytes key) \<noteq> 0 | Inl _ \<Rightarrow> False)"

definition getValidationErrors :: "lib \<Rightarrow> crypto \<Rightarrow> common \<Rightarrow> tx \<Rightarrow> string list" where
  "getValidationErrors L cr C t =
    (let intrinsicGas = getIntrinsicGas C t;
         intrinsicGas = (if cm_eip C 7623 then max intrinsicGas (floor_cost C t) else intrinsicGas) in
     (if isSigned t \<and> \<not> verifySignature L cr C t then [''Invalid Signature''] else []) @
     (if intrinsicGas > tx_gasLimit t then [''gasLimit is too low''] else []))"

definition isValid :: "lib \<Rightarrow> crypto \<Rightarrow> common \<Rightarrow> tx \<Rightarrow> bool" where
  "isValid L cr C t \<longleftrightarrow> length (getValidationErrors L cr C t) = 0"

text \<open>The data of a transaction, as \<open>addSignature\<close> hands it to the constructor.\<close>

definition data_again :: "tx \<Rightarrow> int \<Rightarrow> int \<Rightarrow> int \<Rightarrow> txdata" where
  "data_again t v r s = \<lparr>td_chainId = (if tx_kind t = Legacy then LUndef else LBig (tx_chainId t)),
     td_nonce = LBig (tx_nonce t), td_gasPrice = LBig (tx_gasPrice t),
     td_maxPriorityFeePerGas = LBig (tx_maxPriorityFeePerGas t), td_maxFeePerGas = LBig (tx_maxFeePerGas t),
     td_gasLimit = LBig (tx_gasLimit t), td_to = (case tx_to t of None \<Rightarrow> LUndef | Some a \<Rightarrow> LBytes a),
     td_value = LBig (tx_value t), td_data = LBytes (tx_data t), td_accessList = tx_accessList t,
     td_maxFeePerBlobGas = LBig (tx_maxFeePerBlobGas t), td_blobVersionedHashes = DList [],
     td_authorizationList = tx_authorizationList t, td_v = LBig v, td_r = LBig r, td_s = LBig s\<rparr>"

definition legacy_addSignature :: "lib \<Rightarrow> common \<Rightarrow> bool \<Rightarrow> tx \<Rightarrow> int \<Rightarrow> int \<Rightarrow> int \<Rightarrow> bool \<Rightarrow> tx res" where
  "legacy_addSignature L C allow t v r s convertV =
    (let v' = (if convertV \<and> supports t EIP155ReplayProtection then v + 35 + cm_chainId C * 2
               else if convertV then v + 27 else v) in
     legacy_new L C allow (data_again t v' r s))"

definition addSignature :: "lib \<Rightarrow> common \<Rightarrow> bool \<Rightarrow> tx \<Rightarrow> int \<Rightarrow> int \<Rightarrow> int \<Rightarrow> tx res" where
  "addSignature L C allow t v r s = (case tx_kind t of
     Legacy \<Rightarrow> legacy_addSignature L C allow t v r s True
   | AccessListEIP2930 \<Rightarrow> accessList_new L C allow (data_again t v r s)
   | FeeMarketEIP1559 \<Rightarrow> feeMarket_new L C allow (data_again t v r s)
   | BlobEIP4844 \<Rightarrow> bindE (mapE (hexToBytes L) (tx_blobVersionedHashes t)) (\<lambda>hs.
       blob_new L C allow ((data_again t v r s)\<lparr>td_blobVersionedHashes := DList (map DBytes hs)\<rparr>))
   | EOACodeEIP7702 \<Rightarrow> eoaCode_new L C allow (data_again t v r s))"

text \<open>For a legacy transaction the replay protection is switched on while it is being signed.\<close>

definition sign_base :: "common \<Rightarrow> tx \<Rightarrow> tx" where
  "sign_base C t =
    (if tx_kind t = Legacy \<and> cm_gteHardfork C ''spuriousDragon'' \<and> \<not> supports t EIP155ReplayProtection
     then t\<lparr>tx_capabilities := tx_capabilities t @ [EIP155ReplayProtection]\<rparr> else t)"

definition tx_sign :: "lib \<Rightarrow> crypto \<Rightarrow> common \<Rightarrow> bool \<Rightarrow> u8 list \<Rightarrow> tx \<Rightarrow> tx res" where
  "tx_sign L cr C allow privateKey t =
    (if length privateKey \<noteq> 32 then throw ''Private key must be 32 bytes in length.''
     else (let t' = sign_base C t in
       bindE (getHashedMessageToSign L C t') (\<lambda>msgHash.
       (case cr_sign cr msgHash privateKey of (recovery, r, s) \<Rightarrow> addSignature L C allow t' recovery r s))))"

section \<open>Reading network encodings\<close>

definition arr_field :: "rlp_data list \<Rightarrow> nat \<Rightarrow> js_like res" where
  "arr_field vs i = (case at vs i of
     None \<Rightarrow> Inr LUndef
   | Some (DBytes b) \<Rightarrow> Inr (LBytes b)
   | Some (DList _) \<Rightarrow> throw ''cannot be an array'')"

definition arr_big :: "lib \<Rightarrow> rlp_data list \<Rightarrow> nat \<Rightarrow> js_like res" where
  "arr_big L vs i = bindE (arr_field vs i) (\<lambda>x. case x of
     LBytes b \<Rightarrow> bindE (bytesToBigInt L b) (\<lambda>n. Inr (LBig n)) | y \<Rightarrow> Inr y)"

definition no_leading_zeroes :: "rlp_data list \<Rightarrow> nat list \<Rightarrow> unit res" where
  "no_leading_zeroes vs is =
    validateNoLeadingZeroes (map (\<lambda>i. case at vs i of Some (DBytes b) \<Rightarrow> Some b | _ \<Rightarrow> None) is)"

definition arr_list :: "rlp_data list \<Rightarrow> nat \<Rightarrow> rlp_data" where
  "arr_list vs i = (case at vs i of None \<Rightarrow> DList [] | Some d \<Rightarrow> d)"

definition createLegacyTxFromBytesArray :: "lib \<Rightarrow> common \<Rightarrow> bool \<Rightarrow> rlp_data list \<Rightarrow> tx res" where
  "createLegacyTxFromBytesArray L C allow vs =
    (if length vs \<noteq> 6 \<and> length vs \<noteq> 9 then throw ''Invalid transaction. Only expecting 6 values (for unsigned tx) or 9 values (for signed tx).''
     else
       bindE (no_leading_zeroes vs [0, 1, 2, 4, 6, 7, 8]) (\<lambda>_.
       bindE (mapE (arr_field vs) [0, 1, 2, 3, 4, 5, 6, 7, 8]) (\<lambda>fs.
       legacy_new L C allow (empty_txdata\<lparr>td_nonce := fs ! 0, td_gasPrice := fs ! 1, td_gasLimit := fs ! 2,
         td_to := fs ! 3, td_value := fs ! 4, td_data := fs ! 5, td_v := fs ! 6, td_r := fs ! 7, td_s := fs ! 8\<rparr>))))"

definition createAccessList2930TxFromBytesArray :: "lib \<Rightarrow> common \<Rightarrow> bool \<Rightarrow> rlp_data list \<Rightarrow> tx res" where
  "createAccessList2930TxFromBytesArray L C allow vs =
    (if length vs \<noteq> 8 \<and> length vs \<noteq> 11 then throw ''Invalid EIP-2930 transaction. Only expecting 8 values (for unsigned tx) or 11 values (for signed tx).''
     else
       bindE (mapE (arr_big L vs) [0, 8]) (\<lambda>cv.
       bindE (no_leading_zeroes vs [1, 2, 3, 5, 8, 9, 10]) (\<lambda>_.
       bindE (mapE (arr_field vs) [1, 2, 3, 4, 5, 6, 9, 10]) (\<lambda>fs.
       accessList_new L C allow (empty_txdata\<lparr>td_chainId := cv ! 0, td_nonce := fs ! 0, td_gasPrice := fs ! 1,
         td_gasLimit := fs ! 2, td_to := fs ! 3, td_value := fs ! 4, td_data := fs ! 5,
         td_accessList := arr_list vs 7, td_v := cv ! 1, td_r := fs ! 6, td_s := fs ! 7\<rparr>)))))"

text \<open>The first eight fields of the types from EIP-1559 on.\<close>

definition fee_fields :: "js_like list \<Rightarrow> js_like list \<Rightarrow> rlp_data list \<Rightarrow> txdata" where
  "fee_fields cv fs vs = empty_txdata\<lparr>td_chainId := cv ! 0, td_nonce := fs ! 0, td_maxPriorityFeePerGas := fs ! 1,
     td_maxFeePerGas := fs ! 2, td_gasLimit := fs ! 3, td_to := fs ! 4, td_value := fs ! 5, td_data := fs ! 6,
     td_accessList := arr_list vs 8, td_v := cv ! 1, td_r := fs ! 7, td_s := fs ! 8\<rparr>"

definition create1559FeeMarketTxFromBytesArray :: "lib \<Rightarrow> common \<Rightarrow> bool \<Rightarrow> rlp_data list \<Rightarrow> tx res" where
  "create1559FeeMarketTxFromBytesArray L C allow vs =
    (if length vs \<noteq> 9 \<and> length vs \<noteq> 12 then throw ''Invalid EIP-1559 transaction. Only expecting 9 values (for unsigned tx) or 12 values (for signed tx).''
     else
       bindE (mapE (arr_big L vs) [0, 9]) (\<lambda>cv.
       bindE (no_leading_zeroes vs [1, 2, 3, 4, 6, 9, 10, 11]) (\<lambda>_.
       bindE (mapE (arr_field vs) [1, 2, 3, 4, 5, 6, 7, 10, 11]) (\<lambda>fs.
       feeMarket_new L C allow (fee_fields cv fs vs)))))"

definition createBlob4844TxFromBytesArray :: "lib \<Rightarrow> common \<Rightarrow> bool \<Rightarrow> rlp_data list \<Rightarrow> tx res" where
  "createBlob4844TxFromBytesArray L C allow vs =
    (if \<not> cm_hasKzg C then throw ''A common object with customCrypto.kzg initialized required to instantiate a 4844 blob tx''
     else if length vs \<noteq> 11 \<and> length vs \<noteq> 14 then throw ''Invalid EIP-4844 transaction. Only expecting 11 values (for unsigned tx) or 14 values (for signed tx).''
     else
       bindE (mapE (arr_big L vs) [0, 11]) (\<lambda>cv.
       bindE (no_leading_zeroes vs [1, 2, 3, 4, 6, 9, 11, 12, 13]) (\<lambda>_.
       bindE (mapE (arr_field vs) [1, 2, 3, 4, 5, 6, 7, 12, 13]) (\<lambda>fs.
       bindE (arr_field vs 9) (\<lambda>bf.
       blob_new L C allow ((fee_fields cv fs vs)\<lparr>td_maxFeePerBlobGas := bf, td_blobVersionedHashes := arr_list vs 10\<rparr>))))))"

definition createEOACode7702TxFromBytesArray :: "lib \<Rightarrow> common \<Rightarrow> bool \<Rightarrow> rlp_data list \<Rightarrow> tx res" where
  "createEOACode7702TxFromBytesArray L C allow vs =
    (if length vs \<noteq> 10 \<and> length vs \<noteq> 13 then throw ''Invalid EIP-7702 transaction. Only expecting 10 values (for unsigned tx) or 13 values (for signed tx).''
     else
       bindE (mapE (arr_big L vs) [0, 10]) (\<lambda>cv.
       bindE (no_leading_zeroes vs [1, 2, 3, 4, 6, 10, 11, 12]) (\<lambda>_.
       bindE (mapE (arr_field vs) [1, 2, 3, 4, 5, 6, 7, 11, 12]) (\<lambda>fs.
       eoaCode_new L C allow ((fee_fields cv fs vs)\<lparr>td_authorizationList := arr_list vs 9\<rparr>)))))"

definition createTxFromBytesArray :: "lib \<Rightarrow> common \<Rightarrow> bool \<Rightarrow> tx_kind \<Rightarrow> rlp_data list \<Rightarrow> tx res" where
  "createTxFromBytesArray L C allow k vs = (case k of
     Legacy \<Rightarrow> createLegacyTxFromBytesArray L C allow vs
   | AccessListEIP2930 \<Rightarrow> createAccessList2930TxFromBytesArray L C allow vs
   | FeeMarketEIP1559 \<Rightarrow> create1559FeeMarketTxFromBytesArray L C allow vs
   | BlobEIP4844 \<Rightarrow> createBlob4844TxFromBytesArray L C allow vs
   | EOACodeEIP7702 \<Rightarrow> createEOACode7702TxFromBytesArray L C allow vs)"

definition decode_list :: "u8 list \<Rightarrow> (rlp_data list \<Rightarrow> tx res) \<Rightarrow> tx res" where
  "decode_list b k = bindE (rlp_decode (RBytes b) False) (\<lambda>r. case r of
     Data (DList vs) \<Rightarrow> k vs | _ \<Rightarrow> throw ''Invalid serialized tx input: must be array'')"

text \<open>\<open>createTxFromRLP\<close> has looked at the first byte, so that the test of the type passes.\<close>

definition createTypedTxFromRLP :: "lib \<Rightarrow> common \<Rightarrow> bool \<Rightarrow> tx_kind \<Rightarrow> u8 list \<Rightarrow> tx res" where
  "createTypedTxFromRLP L C allow k serialized =
    (if k = BlobEIP4844 \<and> \<not> cm_hasKzg C then throw ''A common object with customCrypto.kzg initialized required to instantiate a 4844 blob tx''
     else if slice 0 1 serialized \<noteq> [kind_id k] then throw ''Invalid serialized tx input: wrong tx type''
     else decode_list (drop 1 serialized) (createTxFromBytesArray L C allow k))"

definition createTxFromRLP :: "lib \<Rightarrow> common \<Rightarrow> bool \<Rightarrow> u8 list \<Rightarrow> tx res" where
  "createTxFromRLP L C allow data = (case at data 0 of
     None \<Rightarrow> decode_list data (createLegacyTxFromBytesArray L C allow)
   | Some b \<Rightarrow>
      if unat b \<le> 127 then
        (if b = 1 then createTypedTxFromRLP L C allow AccessListEIP2930 data
         else if b = 2 then createTypedTxFromRLP L C allow FeeMarketEIP1559 data
         else if b = 3 then createTypedTxFromRLP L C allow BlobEIP4844 data
         else if b = 4 then createTypedTxFromRLP L C allow EOACodeEIP7702 data
         else throw ''TypedTransaction with ID unknown'')
      else decode_list data (createLegacyTxFromBytesArray L C allow))"

definition createTxFromBlockBodyData :: "lib \<Rightarrow> common \<Rightarrow> bool \<Rightarrow> rlp_data \<Rightarrow> tx res" where
  "createTxFromBlockBodyData L C allow d = (case d of
     DBytes b \<Rightarrow> createTxFromRLP L C allow b
   | DList vs \<Rightarrow> createLegacyTxFromBytesArray L C allow vs)"

end
