(* ===== verification/TxCodec.thy ===== *)
theory TxCodec
  imports Tx
begin

text \<open>
  Encodings and signatures of transactions: whatever a constructor accepts comes back from its
  network encoding, and where the code hashes another message for verification than it signed.
\<close>

section \<open>What a constructor reads\<close>

text \<open>The conversions of \<open>d\<close> give the fields of \<open>t\<close>.\<close>

definition reads :: "lib \<Rightarrow> txdata \<Rightarrow> tx \<Rightarrow> bool" where
  "reads L d t \<longleftrightarrow> toBytes L (empty_string_as_0x (td_to d)) = Inr (to_raw t) \<and>
    toBytes L (empty_string_as_0x (td_data d)) = Inr (tx_data t) \<and>
    num_of L (td_nonce d) = Inr (tx_nonce t) \<and> num_of L (td_gasLimit d) = Inr (tx_gasLimit t) \<and>
    num_of L (td_value d) = Inr (tx_value t) \<and>
    bindE (toBytes L (td_v d)) (opt_num L) = Inr (tx_v t) \<and>
    bindE (toBytes L (td_r d)) (opt_num L) = Inr (tx_r t) \<and>
    bindE (toBytes L (td_s d)) (opt_num L) = Inr (tx_s t)"

definition proper_fields :: "tx \<Rightarrow> bool" where
  "proper_fields t \<longleftrightarrow> 0 \<le> tx_nonce t \<and> 0 \<le> tx_gasLimit t \<and> 0 \<le> tx_value t \<and>
    (\<forall>a. tx_to t = Some a \<longrightarrow> length a = 20) \<and>
    (\<forall>x\<in>{tx_v t, tx_r t, tx_s t}. case x of None \<Rightarrow> True | Some n \<Rightarrow> 0 \<le> n)"

definition checked :: "common \<Rightarrow> bool \<Rightarrow> tx_kind \<Rightarrow> tx \<Rightarrow> tx res" where
  "checked C allow k t = shared_checks C allow k (tx_nonce t) (tx_gasLimit t) (tx_to t) (tx_value t) (tx_data t)
    (tx_v t) (tx_r t) (tx_s t)"

lemma shared_checks_fields:
  assumes "shared_checks C allow k n g to val data v r s = Inr t"
  shows "t = \<lparr>tx_kind = k, tx_chainId = 0, tx_nonce = n, tx_gasPrice = 0, tx_maxPriorityFeePerGas = 0,
      tx_maxFeePerGas = 0, tx_gasLimit = g, tx_to = to, tx_value = val, tx_data = data,
      tx_accessList = DList [], tx_maxFeePerBlobGas = 0, tx_blobVersionedHashes = [],
      tx_authorizationList = DList [], tx_v = v, tx_r = r, tx_s = s, tx_capabilities = []\<rparr>"
  using assms by (auto simp: shared_checks_def bindE_eq_Inr)

lemma opt_num_nonneg: "lib_ok L \<Longrightarrow> opt_num L b = Inr x \<Longrightarrow> case x of None \<Rightarrow> True | Some n \<Rightarrow> 0 \<le> n"
  by (auto simp: opt_num_def split: if_splits)

lemma num_of_nonneg: "lib_ok L \<Longrightarrow> num_of L v = Inr n \<Longrightarrow> 0 \<le> n"
  by (auto simp: num_of_def bindE_eq_Inr)

lemma shared_split:
  assumes L: "lib_ok L" and t: "sharedConstructor L C allow k d = Inr t"
  shows "checked C allow k t = Inr t \<and> proper_fields t"
proof -
  obtain toB to vB rB sB n g val data v r s where
    c: "(if length toB > 0 then bindE (address_new toB) (\<lambda>a. Inr (Some a)) else Inr None) = Inr to"
      "num_of L (td_nonce d) = Inr n" "num_of L (td_gasLimit d) = Inr g" "num_of L (td_value d) = Inr val"
      "opt_num L vB = Inr v" "opt_num L rB = Inr r" "opt_num L sB = Inr s"
      "shared_checks C allow k n g to val data v r s = Inr t"
    using t unfolding sharedConstructor_def bindE_eq_Inr by blast
  have to: "\<forall>a. to = Some a \<longrightarrow> length a = 20"
    using c(1) by (auto simp: address_new_def bindE_eq_Inr split: if_splits)
  show ?thesis
    using c(8) shared_checks_fields [OF c(8)] to num_of_nonneg [OF L] c(2-4) opt_num_nonneg [OF L] c(5-7)
    by (simp add: checked_def proper_fields_def)
qed

lemma shared_join:
  assumes "checked C allow k t = Inr t0" and "reads L d t" and "proper_fields t"
  shows "sharedConstructor L C allow k d = Inr t0"
proof -
  obtain vB rB sB where b: "toBytes L (td_v d) = Inr vB" "toBytes L (td_r d) = Inr rB" "toBytes L (td_s d) = Inr sB"
    "opt_num L vB = Inr (tx_v t)" "opt_num L rB = Inr (tx_r t)" "opt_num L sB = Inr (tx_s t)"
    using assms(2) by (auto simp: reads_def bindE_eq_Inr)
  have to: "(if length (to_raw t) > 0 then bindE (address_new (to_raw t)) (\<lambda>a. Inr (Some a)) else Inr None) = Inr (tx_to t)"
    using assms(3) by (auto simp: to_raw_def proper_fields_def address_new_def split: option.split)
  show ?thesis using assms(1,2) b to by (simp add: sharedConstructor_def reads_def checked_def)
qed

section \<open>Numbers on the wire\<close>

lemma be_bytes_no_zero: "be_bytes n \<noteq> [] \<Longrightarrow> be_bytes n ! 0 \<noteq> 0"
  using hd_be_bytes [of n] by (cases "n = 0") (simp_all add: hd_conv_nth)

definition wire :: "int \<Rightarrow> u8 list" where "wire n = be_bytes (nat n)"

lemma wire_raw: "lib_ok L \<Longrightarrow> 0 \<le> n \<Longrightarrow> bigIntToUnpaddedBytes L n = Inr (wire n)"
  using bigIntToUnpaddedBytes_eq [of L "nat n"] by (simp add: wire_def)

lemma wire_num: "lib_ok L \<Longrightarrow> 0 \<le> n \<Longrightarrow> num_of L (LBytes (wire n)) = Inr n"
  by (simp add: num_of_def toBytes_def wire_def)

lemma wire_opt: "lib_ok L \<Longrightarrow> 0 < n \<Longrightarrow> opt_num L (wire n) = Inr (Some n)"
  by (simp add: opt_num_def wire_def)

lemma wire_lead: "wire n \<noteq> [] \<Longrightarrow> wire n ! 0 \<noteq> 0"
  by (simp add: wire_def be_bytes_no_zero)

lemma wire_value: "lib_ok L \<Longrightarrow> 0 \<le> n \<Longrightarrow> bytesToBigInt L (wire n) = Inr n"
  by (simp add: wire_def)

lemma big_toBytes:
  assumes L: "lib_ok L" and n: "0 \<le> n"
  shows "toBytes L (LBig n) = Inr (if n = 0 then [0] else wire n)"
proof -
  let ?h = "to_hex (nat n)"
  have pe: "padToEven s = pad_even s" for s by (simp add: padToEven_def pad_even_def)
  have ev: "pad_even (pad_even ?h) = pad_even ?h"
    by (simp add: pad_even_def [of "pad_even ?h"]) (simp add: pad_even_def)
  have "hexdig_val c \<noteq> None" if "c \<in> set (pad_even ?h)" for c
    using pad_even_digits [of ?h c] to_hex_digits that by blast
  moreover have "hexdig_val 120 = None" by code_simp
  ultimately have "120 \<notin> set (pad_even ?h)" by metis
  then have "take 2 (pad_even ?h) \<noteq> [48, 120]" by (metis in_set_takeD list.set_intros(1,2))
  then have "unprefixedHexToBytes L (pad_even ?h) = Inr (if nat n = 0 then [0] else be_bytes (nat n))"
    using lib_okD(3) [OF L] by (simp add: unprefixedHexToBytes_def pe ev)
  moreover have "toBytes L (LBig n) = unprefixedHexToBytes L (pad_even ?h)"
    using n by (simp add: toBytes_def Let_def int_to_hex_def pad_even_def)
  ultimately show ?thesis using n by (simp add: wire_def)
qed

lemma big_bytes: "lib_ok L \<Longrightarrow> 0 \<le> n \<Longrightarrow> bindE (toBytes L (LBig n)) (opt_num L) = Inr (Some n)"
  by (simp add: big_toBytes opt_num_def wire_def)

lemma big_num: "lib_ok L \<Longrightarrow> 0 \<le> n \<Longrightarrow> num_of L (LBig n) = Inr n"
  by (simp add: big_toBytes num_of_def wire_def)

lemma length_wire: "0 \<le> n \<Longrightarrow> n < 2 ^ 256 \<Longrightarrow> length (wire n) \<le> 32"
  using length_be_256 [of "nat n"] by (simp add: wire_def nat_less_iff)

section \<open>Reading back\<close>

lemma data_of_input_of [simp]: "data_of (input_of d) = Inr d"
  by (induction d rule: input_of.induct) (simp_all add: mapE_eq_Inr list_all2_map1 list_all2_same bindE_eq_Inr)

lemma decode_encode_list:
  assumes "encode_list ds = Inr bs" and "length bs < 256 ^ 8"
  shows "decode_list bs k = k ds"
proof -
  have "bs = enc (DList ds)" using rlp_encode_enc [of "input_of (DList ds)" bs] assms
    by (auto simp: encode_list_def simp del: input_of.simps enc.simps)
  with assms(2) show ?thesis by (simp add: decode_list_def rlp_decode_enc del: enc.simps)
qed

lemma encode_list_first:
  assumes "encode_list ds = Inr bs" and "length bs < 256 ^ 8"
  shows "\<exists>b. at bs 0 = Some b \<and> 128 \<le> unat b"
proof -
  let ?p = "concat (map enc ds)"
  have e: "bs = enc (DList ds)" using rlp_encode_enc [of "input_of (DList ds)" bs] assms
    by (auto simp: encode_list_def simp del: input_of.simps enc.simps)
  then have l: "length ?p < 256 ^ 8" using assms(2) by (simp add: Let_def)
  show ?thesis
  proof (cases "length ?p < 56")
    case True
    then show ?thesis using e by (simp add: at_def len_prefix_def Let_def unat_word_ariths unat_of_nat)
  next
    case False
    have "length (be_bytes (length ?p)) \<le> 8" using l length_be_bytes_le by blast
    then show ?thesis using e False by (simp add: at_def len_prefix_def Let_def unat_word_ariths unat_of_nat)
  qed
qed

text \<open>Data with the fields of \<open>t\<close> in network form.\<close>

definition wired :: "txdata \<Rightarrow> tx \<Rightarrow> bool" where
  "wired d t \<longleftrightarrow> td_to d = LBytes (to_raw t) \<and> td_data d = LBytes (tx_data t) \<and>
    td_nonce d = LBytes (wire (tx_nonce t)) \<and> td_gasLimit d = LBytes (wire (tx_gasLimit t)) \<and>
    td_value d = LBytes (wire (tx_value t)) \<and> td_r d = LBytes (wire (the (tx_r t))) \<and>
    td_s d = LBytes (wire (the (tx_s t))) \<and>
    (td_v d = LBig (the (tx_v t)) \<or> td_v d = LBytes (wire (the (tx_v t))) \<and> tx_v t \<noteq> Some 0)"

definition sealed :: "tx \<Rightarrow> bool" where
  "sealed t \<longleftrightarrow> isSigned t \<and> tx_r t \<noteq> Some 0 \<and> tx_s t \<noteq> Some 0"

lemma wired_reads:
  assumes L: "lib_ok L" and w: "wired d t" and p: "proper_fields t" and s: "sealed t"
  shows "reads L d t"
proof -
  obtain v r u where o: "tx_v t = Some v" "tx_r t = Some r" "tx_s t = Some u"
    using s by (auto simp: sealed_def isSigned_def split: if_splits)
  have b: "0 \<le> v" "0 < r" "0 < u" using p s o by (auto simp: proper_fields_def sealed_def)
  have "bindE (toBytes L (td_v d)) (opt_num L) = Inr (tx_v t)"
    using w o b big_bytes [OF L] wire_opt [OF L, of v] by (auto simp: wired_def toBytes_def)
  with w o b p show ?thesis
    using wire_num [OF L] wire_opt [OF L] by (simp add: reads_def wired_def proper_fields_def empty_string_as_0x_def toBytes_def)
qed

lemma shared_again:
  assumes L: "lib_ok L" and t: "sharedConstructor L C allow k d = Inr t" and "wired d' t" and "sealed t"
  shows "sharedConstructor L C allow k d' = Inr t"
  using shared_split [OF L t] wired_reads [OF L assms(3) _ assms(4)] shared_join by blast

lemma wired_upd [simp]:
  "wired d (t\<lparr>tx_gasPrice := g\<rparr>) = wired d t" "wired d (t\<lparr>tx_capabilities := c\<rparr>) = wired d t"
  "wired d (t\<lparr>tx_chainId := i\<rparr>) = wired d t" "wired d (t\<lparr>tx_accessList := al\<rparr>) = wired d t"
  "wired d (t\<lparr>tx_maxFeePerGas := g\<rparr>) = wired d t" "wired d (t\<lparr>tx_maxPriorityFeePerGas := g\<rparr>) = wired d t"
  "wired d (t\<lparr>tx_maxFeePerBlobGas := g\<rparr>) = wired d t" "wired d (t\<lparr>tx_blobVersionedHashes := hs\<rparr>) = wired d t"
  "wired d (t\<lparr>tx_authorizationList := l\<rparr>) = wired d t"
  by (simp_all add: wired_def to_raw_def)

lemma sealed_upd [simp]:
  "sealed (t\<lparr>tx_gasPrice := g\<rparr>) = sealed t" "sealed (t\<lparr>tx_capabilities := c\<rparr>) = sealed t"
  "sealed (t\<lparr>tx_chainId := i\<rparr>) = sealed t" "sealed (t\<lparr>tx_accessList := al\<rparr>) = sealed t"
  "sealed (t\<lparr>tx_maxFeePerGas := g\<rparr>) = sealed t" "sealed (t\<lparr>tx_maxPriorityFeePerGas := g\<rparr>) = sealed t"
  "sealed (t\<lparr>tx_maxFeePerBlobGas := g\<rparr>) = sealed t" "sealed (t\<lparr>tx_blobVersionedHashes := hs\<rparr>) = sealed t"
  "sealed (t\<lparr>tx_authorizationList := l\<rparr>) = sealed t"
  by (simp_all add: sealed_def isSigned_def)

lemma proper_upd [simp]:
  "proper_fields (t\<lparr>tx_gasPrice := g\<rparr>) = proper_fields t" "proper_fields (t\<lparr>tx_capabilities := c\<rparr>) = proper_fields t"
  "proper_fields (t\<lparr>tx_chainId := i\<rparr>) = proper_fields t" "proper_fields (t\<lparr>tx_accessList := al\<rparr>) = proper_fields t"
  "proper_fields (t\<lparr>tx_maxFeePerGas := g\<rparr>) = proper_fields t"
  "proper_fields (t\<lparr>tx_maxPriorityFeePerGas := g\<rparr>) = proper_fields t"
  "proper_fields (t\<lparr>tx_maxFeePerBlobGas := g\<rparr>) = proper_fields t"
  "proper_fields (t\<lparr>tx_blobVersionedHashes := hs\<rparr>) = proper_fields t"
  "proper_fields (t\<lparr>tx_authorizationList := l\<rparr>) = proper_fields t"
  by (simp_all add: proper_fields_def)

lemma base_facts:
  assumes "lib_ok L" and "sharedConstructor L C allow k d = Inr t"
  shows "proper_fields t" and "tx_kind t = k"
  using shared_split [OF assms] shared_checks_fields unfolding checked_def by (blast, metis tx.select_convs(1))

lemma legacy_fields:
  assumes t: "legacy_new L C allow d = Inr t"
  obtains t0 g cs where "sharedConstructor L C allow Legacy d = Inr t0" "num_of L (td_gasPrice d) = Inr g"
    "t = t0\<lparr>tx_gasPrice := g, tx_capabilities := cs\<rparr>" "tx_v t0 \<noteq> Some 0"
proof -
  obtain t0 g i where c: "sharedConstructor L C allow Legacy d = Inr t0" "num_of L (td_gasPrice d) = Inr g"
    "validateVAndExtractChainID C (tx_v t0) = Inr i" "\<exists>cs. t = t0\<lparr>tx_gasPrice := g, tx_capabilities := cs\<rparr>"
    using t unfolding legacy_new_def bindE_eq_Inr by (auto split: if_splits)
  have "Number_of 0 = 0" by (simp add: Number_of_def round53_small)
  then have "tx_v t0 \<noteq> Some 0" using c(3) by (auto simp: validateVAndExtractChainID_def)
  with c that show ?thesis by blast
qed

lemma legacy_again:
  assumes L: "lib_ok L" and t: "legacy_new L C allow d = Inr t" and "wired d' t" and "sealed t"
    and g': "td_gasPrice d' = LBytes (wire (tx_gasPrice t))"
  shows "legacy_new L C allow d' = Inr t"
  using t
proof (rule legacy_fields)
  fix t0 g cs
  assume c: "sharedConstructor L C allow Legacy d = Inr t0" "num_of L (td_gasPrice d) = Inr g"
    "t = t0\<lparr>tx_gasPrice := g, tx_capabilities := cs\<rparr>"
  have "sharedConstructor L C allow Legacy d' = Inr t0"
    using shared_again [OF L c(1)] assms(3,4) c(3) by simp
  moreover have "num_of L (td_gasPrice d') = Inr g"
    using g' c(3) wire_num [OF L num_of_nonneg [OF L c(2)]] by simp
  ultimately show ?thesis using t c by (simp add: legacy_new_def)
qed

lemma sealed_values:
  assumes "sealed t" "proper_fields t"
  obtains v r s where "tx_v t = Some v" "tx_r t = Some r" "tx_s t = Some s" "0 \<le> v" "0 < r" "0 < s"
proof -
  obtain v r s where o: "tx_v t = Some v" "tx_r t = Some r" "tx_s t = Some s"
    using assms(1) by (auto simp: sealed_def isSigned_def split: if_splits)
  moreover from this have "0 \<le> v" "0 < r" "0 < s" using assms by (auto simp: proper_fields_def sealed_def)
  ultimately show ?thesis using that by blast
qed

lemma legacy_raw:
  assumes L: "lib_ok L" and "tx_kind t = Legacy" and p: "proper_fields t" and s: "sealed t" and "0 \<le> tx_gasPrice t"
  shows "tx_raw L t = Inr (map DBytes [wire (tx_nonce t), wire (tx_gasPrice t), wire (tx_gasLimit t), to_raw t,
    wire (tx_value t), tx_data t, wire (the (tx_v t)), wire (the (tx_r t)), wire (the (tx_s t))])"
proof -
  obtain v r s where "tx_v t = Some v" "tx_r t = Some r" "tx_s t = Some s" "0 \<le> v" "0 < r" "0 < s"
    using sealed_values [OF s p] .
  then show ?thesis using assms by (simp add: tx_raw_def unsigned_raw_def nums_raw_def opt_raw_def wire_raw proper_fields_def)
qed

lemma no_lead:
  assumes "list_all (\<lambda>i. case at vs i of Some (DBytes b) \<Rightarrow> b \<in> range wire | _ \<Rightarrow> True) is"
  shows "no_leading_zeroes vs is = Inr ()"
proof -
  have "\<not> (case (case at vs i of Some (DBytes b) \<Rightarrow> Some b | _ \<Rightarrow> None) of None \<Rightarrow> False | Some b \<Rightarrow> 0 < length b \<and> b ! 0 = 0)"
    if "i \<in> set is" for i
    using assms that wire_lead by (fastforce simp: list_all_iff split: option.splits rlp_data.splits)
  then show ?thesis by (simp add: no_leading_zeroes_def validateNoLeadingZeroes_def)
qed

lemma legacy_roundtrip_aux:
  assumes L: "lib_ok L" and t: "legacy_new L C allow d = Inr t" and s: "sealed t"
    and bs: "tx_serialize L t = Inr bs" and len: "length bs < 256 ^ 8"
  shows "createTxFromRLP L C allow bs = Inr t"
  using t
proof (rule legacy_fields)
  fix t0 g cs
  assume c: "sharedConstructor L C allow Legacy d = Inr t0" "num_of L (td_gasPrice d) = Inr g"
    "t = t0\<lparr>tx_gasPrice := g, tx_capabilities := cs\<rparr>" and v: "tx_v t0 \<noteq> Some 0"
  let ?fs = "[wire (tx_nonce t), wire (tx_gasPrice t), wire (tx_gasLimit t), to_raw t,
    wire (tx_value t), tx_data t, wire (the (tx_v t)), wire (the (tx_r t)), wire (the (tx_s t))]"
  have f: "proper_fields t" "tx_kind t = Legacy" "0 \<le> tx_gasPrice t"
    using base_facts [OF L c(1)] num_of_nonneg [OF L c(2)] c(3) by simp_all
  have "encode_list (map DBytes ?fs) = Inr bs"
    using legacy_raw [OF L f(2,1) s f(3)] bs f(2) by (simp add: tx_serialize_def)
  note e = decode_encode_list [OF this len] encode_list_first [OF this len]
  let ?d = "empty_txdata\<lparr>td_nonce := LBytes (?fs ! 0), td_gasPrice := LBytes (?fs ! 1), td_gasLimit := LBytes (?fs ! 2),
         td_to := LBytes (?fs ! 3), td_value := LBytes (?fs ! 4), td_data := LBytes (?fs ! 5),
         td_v := LBytes (?fs ! 6), td_r := LBytes (?fs ! 7), td_s := LBytes (?fs ! 8)\<rparr>"
  have "createLegacyTxFromBytesArray L C allow (map DBytes ?fs) = legacy_new L C allow ?d"
    by (simp add: createLegacyTxFromBytesArray_def no_lead arr_field_def at_def)
  also have "\<dots> = Inr t"
    by (rule legacy_again [OF L t _ s]) (use v c(3) in \<open>simp_all add: wired_def\<close>)
  finally show ?thesis using e by (auto simp: createTxFromRLP_def)
qed

section \<open>The typed transactions\<close>

lemma check_chain_own: "lib_ok L \<Longrightarrow> 0 \<le> cm_chainId C \<Longrightarrow> check_chain L C (LBig (cm_chainId C)) = Inr ()"
  by (simp add: check_chain_def big_num)

definition fee_wired :: "txdata \<Rightarrow> common \<Rightarrow> tx \<Rightarrow> bool" where
  "fee_wired d C t \<longleftrightarrow> wired d t \<and> td_chainId d = LBig (cm_chainId C) \<and> td_accessList d = tx_accessList t \<and>
     td_maxFeePerGas d = LBytes (wire (tx_maxFeePerGas t)) \<and>
     td_maxPriorityFeePerGas d = LBytes (wire (tx_maxPriorityFeePerGas t))"

lemma set_fees_fields:
  assumes "lib_ok L" and "set_fees L d t = Inr t'"
  obtains mf mp where "num_of L (td_maxFeePerGas d) = Inr mf" "num_of L (td_maxPriorityFeePerGas d) = Inr mp"
    "t' = t\<lparr>tx_maxFeePerGas := mf, tx_maxPriorityFeePerGas := mp\<rparr>" "0 \<le> mf" "0 \<le> mp"
  using assms num_of_nonneg [OF assms(1)] by (auto simp: set_fees_def bindE_eq_Inr split: if_splits)

lemma set_fees_again:
  assumes L: "lib_ok L" and t: "set_fees L d t = Inr t'"
    and "td_maxFeePerGas d' = LBytes (wire (tx_maxFeePerGas t'))"
    and "td_maxPriorityFeePerGas d' = LBytes (wire (tx_maxPriorityFeePerGas t'))"
  shows "set_fees L d' t = Inr t'"
  using set_fees_fields [OF L t]
proof -
  obtain mf mp where c: "num_of L (td_maxFeePerGas d) = Inr mf" "num_of L (td_maxPriorityFeePerGas d) = Inr mp"
    "t' = t\<lparr>tx_maxFeePerGas := mf, tx_maxPriorityFeePerGas := mp\<rparr>" "0 \<le> mf" "0 \<le> mp"
    using set_fees_fields [OF L t] .
  then have "num_of L (td_maxFeePerGas d') = Inr mf" "num_of L (td_maxPriorityFeePerGas d') = Inr mp"
    using assms(3,4) wire_num [OF L] by simp_all
  with t c(1,2) show ?thesis by (simp add: set_fees_def)
qed

lemma feeMarket_fields:
  assumes L: "lib_ok L" and t: "feeMarket_new L C allow d = Inr t"
    and cs: "cs = [EIP1559FeeMarket, EIP2718TypedTransaction, EIP2930AccessLists]"
  obtains t0 mf mp where "sharedConstructor L C allow FeeMarketEIP1559 d = Inr t0" "check_chain L C (td_chainId d) = Inr ()"
    "set_fees L d (t0\<lparr>tx_chainId := cm_chainId C, tx_accessList := td_accessList d, tx_capabilities := cs\<rparr>) = Inr t"
    "t = t0\<lparr>tx_chainId := cm_chainId C, tx_accessList := td_accessList d, tx_capabilities := cs,
      tx_maxFeePerGas := mf, tx_maxPriorityFeePerGas := mp\<rparr>" "0 \<le> mf" "0 \<le> mp"
proof -
  obtain t0 where c: "sharedConstructor L C allow FeeMarketEIP1559 d = Inr t0" "check_chain L C (td_chainId d) = Inr ()"
    "set_fees L d (t0\<lparr>tx_chainId := cm_chainId C, tx_accessList := td_accessList d, tx_capabilities := cs\<rparr>) = Inr t"
    using t unfolding feeMarket_new_def bindE_eq_Inr cs by (auto split: if_splits simp: bindE_eq_Inr)
  show ?thesis using set_fees_fields [OF L c(3)] that [OF c] by metis
qed

lemma feeMarket_again:
  assumes L: "lib_ok L" and t: "feeMarket_new L C allow d = Inr t" and w: "fee_wired d' C t" and "sealed t"
    and "0 \<le> cm_chainId C"
  shows "feeMarket_new L C allow d' = Inr t"
  using L t refl
proof (rule feeMarket_fields)
  fix t0 :: tx and mf mp
  let ?cs = "[EIP1559FeeMarket, EIP2718TypedTransaction, EIP2930AccessLists]"
  let ?t = "t0\<lparr>tx_chainId := cm_chainId C, tx_accessList := td_accessList d, tx_capabilities := ?cs\<rparr>"
  assume c: "sharedConstructor L C allow FeeMarketEIP1559 d = Inr t0" "check_chain L C (td_chainId d) = Inr ()"
    "set_fees L d ?t = Inr t" "t = ?t\<lparr>tx_maxFeePerGas := mf, tx_maxPriorityFeePerGas := mp\<rparr>"
  have "sharedConstructor L C allow FeeMarketEIP1559 d' = Inr t0"
    using shared_again [OF L c(1)] assms(3,4) c(4) by (simp add: fee_wired_def)
  moreover have "td_accessList d' = td_accessList d" using w c(4) by (simp add: fee_wired_def)
  moreover have "check_chain L C (td_chainId d') = Inr ()"
    using w check_chain_own [OF L assms(5)] by (simp add: fee_wired_def)
  moreover have "set_fees L d' ?t = Inr t"
    using set_fees_again [OF L c(3)] w by (simp add: fee_wired_def)
  ultimately show ?thesis using t c(1-3) by (simp add: feeMarket_new_def split: if_splits)
qed

lemma fee_wire_raw:
  assumes L: "lib_ok L" and p: "proper_fields t" and s: "sealed t" and "0 \<le> tx_chainId t"
    and "0 \<le> tx_maxFeePerGas t" and "0 \<le> tx_maxPriorityFeePerGas t" and "tx_kind t = FeeMarketEIP1559"
  shows "tx_raw L t = Inr (map DBytes [wire (tx_chainId t), wire (tx_nonce t), wire (tx_maxPriorityFeePerGas t),
    wire (tx_maxFeePerGas t), wire (tx_gasLimit t), to_raw t, wire (tx_value t), tx_data t] @
    [tx_accessList t] @ map DBytes [wire (the (tx_v t)), wire (the (tx_r t)), wire (the (tx_s t))])"
proof -
  obtain v r s where "tx_v t = Some v" "tx_r t = Some r" "tx_s t = Some s" "0 \<le> v" "0 < r" "0 < s"
    using sealed_values [OF s p] .
  then show ?thesis using assms by (simp add: tx_raw_def unsigned_raw_def nums_raw_def opt_raw_def wire_raw proper_fields_def)
qed

lemma typed_from_rlp:
  assumes "tx_serialize L t = Inr bs" and "tx_raw L t = Inr raw" and "tx_kind t \<noteq> Legacy" and "length bs < 256 ^ 8"
    and "tx_kind t = BlobEIP4844 \<longrightarrow> cm_hasKzg C"
  shows "createTxFromRLP L C allow bs = createTxFromBytesArray L C allow (tx_kind t) raw"
proof -
  obtain b where b: "encode_list raw = Inr b" "bs = kind_id (tx_kind t) # b"
    using assms(1-3) by (auto simp: tx_serialize_def eip2718_serialize_def bindE_eq_Inr)
  have "decode_list b k = k raw" for k using decode_encode_list [OF b(1)] assms(4) b(2) by simp
  then show ?thesis using b(2) assms(3,5)
    by (cases "tx_kind t") (simp_all add: createTxFromRLP_def createTypedTxFromRLP_def at_def slice_def)
qed

lemma feeMarket_roundtrip_aux:
  assumes L: "lib_ok L" and t: "feeMarket_new L C allow d = Inr t" and s: "sealed t"
    and bs: "tx_serialize L t = Inr bs" and len: "length bs < 256 ^ 8" and chain: "0 \<le> cm_chainId C"
  shows "createTxFromRLP L C allow bs = Inr t"
  using L t refl
proof (rule feeMarket_fields)
  fix t0 :: tx and mf mp
  let ?cs = "[EIP1559FeeMarket, EIP2718TypedTransaction, EIP2930AccessLists]"
  assume c: "sharedConstructor L C allow FeeMarketEIP1559 d = Inr t0"
    "t = t0\<lparr>tx_chainId := cm_chainId C, tx_accessList := td_accessList d, tx_capabilities := ?cs,
      tx_maxFeePerGas := mf, tx_maxPriorityFeePerGas := mp\<rparr>" "0 \<le> mf" "0 \<le> mp"
  have f: "proper_fields t" "tx_kind t = FeeMarketEIP1559" "tx_chainId t = cm_chainId C"
    using base_facts [OF L c(1)] c(2) by simp_all
  let ?fs = "[wire (tx_chainId t), wire (tx_nonce t), wire (tx_maxPriorityFeePerGas t),
    wire (tx_maxFeePerGas t), wire (tx_gasLimit t), to_raw t, wire (tx_value t), tx_data t]"
  let ?raw = "map DBytes ?fs @ [tx_accessList t] @ map DBytes [wire (the (tx_v t)), wire (the (tx_r t)), wire (the (tx_s t))]"
  have raw: "tx_raw L t = Inr ?raw" using fee_wire_raw [OF L f(1) s] c f chain by simp
  let ?d = "fee_fields [LBig (cm_chainId C), LBig (the (tx_v t))] (map LBytes (tl ?fs @
     [wire (the (tx_r t)), wire (the (tx_s t))])) ?raw"
  have "createTxFromRLP L C allow bs = create1559FeeMarketTxFromBytesArray L C allow ?raw"
    using typed_from_rlp [OF bs raw _ len] f(2) by (simp add: createTxFromBytesArray_def)
  also have "\<dots> = feeMarket_new L C allow ?d"
  proof -
    have "0 \<le> the (tx_v t)" using sealed_values [OF s f(1)] by fastforce
    then have "mapE (arr_big L ?raw) [0, 9] = Inr [LBig (cm_chainId C), LBig (the (tx_v t))]"
      using chain f(3) by (simp add: arr_big_def arr_field_def at_def wire_value [OF L])
    moreover have "mapE (arr_field ?raw) [1, 2, 3, 4, 5, 6, 7, 10, 11] = Inr (map LBytes (tl ?fs @
     [wire (the (tx_r t)), wire (the (tx_s t))]))" by (simp add: arr_field_def at_def)
    moreover have "no_leading_zeroes ?raw [1, 2, 3, 4, 6, 9, 10, 11] = Inr ()" by (rule no_lead) (simp add: at_def)
    ultimately show ?thesis by (simp add: create1559FeeMarketTxFromBytesArray_def del: mapE.simps)
  qed
  also have "\<dots> = Inr t"
    by (rule feeMarket_again [OF L t _ s chain])
       (simp add: fee_wired_def wired_def fee_fields_def arr_list_def at_def)
  finally show ?thesis .
qed

section \<open>Properties\<close>

lemma encode_list_enc: "length (enc (DList ds)) < 256 ^ 8 \<Longrightarrow> encode_list ds = Inr (enc (DList ds))"
  using rlp_encode_input_of [of "DList ds"] by (simp add: encode_list_def del: enc.simps)

text \<open>C10. Round trip. A signed legacy or fee-market transaction that its constructor accepts, with
  non-zero signature values, has raw fields; when their encoding stays below \<open>2 ^ 64\<close> bytes it serialises,
  and \<open>createTxFromRLP\<close> on the bytes dispatches on the first one and rebuilds the same transaction,
  every check of the constructor included.\<close>

theorem tx_rlp_roundtrip:
  assumes "lib_ok L" and "0 \<le> cm_chainId C"
    and "legacy_new L C allow d = Inr t \<or> feeMarket_new L C allow d = Inr t"
    and "isSigned t" and "tx_r t \<noteq> Some 0" and "tx_s t \<noteq> Some 0"
  shows "\<exists>raw. tx_raw L t = Inr raw \<and> (Suc (length (enc (DList raw))) < 256 ^ 8 \<longrightarrow>
    (\<exists>bs. tx_serialize L t = Inr bs \<and> createTxFromRLP L C allow bs = Inr t))"
proof -
  have s: "sealed t" using assms(4-6) by (simp add: sealed_def)
  have ser: "\<exists>bs. tx_serialize L t = Inr bs \<and> length bs < 256 ^ 8"
    if "tx_raw L t = Inr raw" "Suc (length (enc (DList raw))) < 256 ^ 8" for raw
    using that encode_list_enc [of raw] by (simp add: tx_serialize_def eip2718_serialize_def del: enc.simps)
  from assms(3) show ?thesis
  proof
    assume t: "legacy_new L C allow d = Inr t"
    obtain t0 g cs where c: "sharedConstructor L C allow Legacy d = Inr t0" "num_of L (td_gasPrice d) = Inr g"
      "t = t0\<lparr>tx_gasPrice := g, tx_capabilities := cs\<rparr>" using legacy_fields [OF t] by metis
    then have "proper_fields t" "tx_kind t = Legacy" "0 \<le> tx_gasPrice t"
      using base_facts [OF assms(1) c(1)] num_of_nonneg [OF assms(1) c(2)] by simp_all
    then show ?thesis
      using legacy_raw [OF assms(1) _ _ s] ser legacy_roundtrip_aux [OF assms(1) t s] by blast
  next
    assume t: "feeMarket_new L C allow d = Inr t"
    obtain t0 cs mf mp where c: "sharedConstructor L C allow FeeMarketEIP1559 d = Inr t0"
      "t = t0\<lparr>tx_chainId := cm_chainId C, tx_accessList := td_accessList d, tx_capabilities := cs,
        tx_maxFeePerGas := mf, tx_maxPriorityFeePerGas := mp\<rparr>" "0 \<le> mf" "0 \<le> mp"
      using feeMarket_fields [OF assms(1) t refl] by metis
    then have "proper_fields t" "tx_kind t = FeeMarketEIP1559" "0 \<le> tx_chainId t" "0 \<le> tx_maxFeePerGas t"
      "0 \<le> tx_maxPriorityFeePerGas t"
      using base_facts [OF assms(1) c(1)] assms(2) by simp_all
    then show ?thesis
      using fee_wire_raw [OF assms(1) _ s] ser feeMarket_roundtrip_aux [OF assms(1) t s _ _ assms(2)] by blast
  qed
qed

text \<open>A chain without upgrades, and a signed transaction on it.\<close>

definition plain_chain :: common where
  "plain_chain = \<lparr>cm_param = (\<lambda>_. 0), cm_eip = (\<lambda>_. False), cm_gteHardfork = (\<lambda>_. False), cm_chainId = 1,
     cm_hasKzg = False\<rparr>"

definition plain_data :: txdata where
  "plain_data = empty_txdata\<lparr>td_nonce := LBytes [1], td_gasPrice := LBytes [10], td_gasLimit := LBytes [82, 8],
     td_value := LBytes [3], td_data := LBytes [7, 0], td_v := LBytes [27], td_r := LBytes [5], td_s := LBytes [6]\<rparr>"

definition plain_tx :: tx where
  "plain_tx = \<lparr>tx_kind = Legacy, tx_chainId = 0, tx_nonce = 1, tx_gasPrice = 10, tx_maxPriorityFeePerGas = 0,
     tx_maxFeePerGas = 0, tx_gasLimit = 21000, tx_to = None, tx_value = 3, tx_data = [7, 0],
     tx_accessList = DList [], tx_maxFeePerBlobGas = 0, tx_blobVersionedHashes = [],
     tx_authorizationList = DList [], tx_v = Some 27, tx_r = Some 5, tx_s = Some 6, tx_capabilities = []\<rparr>"

lemma plain_shared:
  "sharedConstructor ref_lib plain_chain False Legacy plain_data = Inr (plain_tx\<lparr>tx_gasPrice := 0\<rparr>)"
  unfolding sharedConstructor_def plain_data_def
  by (simp add: shared_checks_def plain_chain_def plain_tx_def
      empty_txdata_def empty_string_as_0x_def num_of_def opt_num_def toBytes_def be_val_Cons MAX_UINT64_def
      MAX_INTEGER_BIGINT_def)

lemma plain_new: "legacy_new ref_lib plain_chain False plain_data = Inr plain_tx"
proof -
  have g: "num_of ref_lib (td_gasPrice plain_data) = Inr 10"
    by (simp add: plain_data_def num_of_def toBytes_def be_val_Cons)
  have v: "validateVAndExtractChainID plain_chain (Some 27) = Inr None"
    by (simp add: validateVAndExtractChainID_def Number_of_def round53_small)
  show ?thesis
    unfolding legacy_new_def plain_shared
    using g v by (simp add: plain_tx_def plain_chain_def MAX_INTEGER_BIGINT_def)
qed

theorem tx_rlp_roundtrip_witness:
  "\<exists>raw. tx_raw ref_lib plain_tx = Inr raw \<and> (Suc (length (enc (DList raw))) < 256 ^ 8 \<longrightarrow>
    (\<exists>bs. tx_serialize ref_lib plain_tx = Inr bs \<and> createTxFromRLP ref_lib plain_chain False bs = Inr plain_tx))"
  by (rule tx_rlp_roundtrip [where d = plain_data])
     (simp_all add: plain_new, simp_all add: plain_chain_def plain_tx_def isSigned_def)

lemma legacy_protected:
  assumes t: "legacy_new L C allow d = Inr t" and "isSigned t" and hf: "cm_gteHardfork C ''spuriousDragon''"
    and v: "is_eip155_v (the (tx_v t))"
  shows "supports t EIP155ReplayProtection"
proof -
  obtain i where caps: "tx_capabilities t = (if meetsEIP155 (the (tx_v t)) (cm_chainId C) then [EIP155ReplayProtection] else [])"
    and i: "validateVAndExtractChainID C (tx_v t) = Inr i"
  proof -
    have u: "(if a then throw x else y) = Inr (z :: tx) \<longleftrightarrow> \<not> a \<and> y = Inr z" for a x y z by simp
    obtain t0 g i where i: "validateVAndExtractChainID C (tx_v t0) = Inr i"
      "t = t0\<lparr>tx_gasPrice := g, tx_capabilities := (if cm_gteHardfork C ''spuriousDragon'' \<and>
        (\<not> isSigned t0 \<or> meetsEIP155 (the (tx_v t0)) (cm_chainId C)) then [EIP155ReplayProtection] else [])\<rparr>"
      using t unfolding legacy_new_def bindE_eq_Inr u sum.inject by (elim exE conjE) (erule that, erule sym)
    have "isSigned t0" using assms(2) unfolding i(2) by (simp add: isSigned_def)
    then have "tx_capabilities t = (if meetsEIP155 (the (tx_v t0)) (cm_chainId C) then [EIP155ReplayProtection] else [])"
      "tx_v t = tx_v t0" unfolding i(2) using hf by simp_all
    with i(1) show ?thesis using that by metis
  qed
  obtain v0 where v0: "tx_v t = Some v0" using assms(2) by (auto simp: isSigned_def split: if_splits)
  have "Number_of v0 \<noteq> 27" "Number_of v0 \<noteq> 28" using v v0 by (simp_all add: is_eip155_v_def)
  then have "meetsEIP155 (Number_of v0) (cm_chainId C)"
    using i v0 hf by (auto simp: validateVAndExtractChainID_def Let_def split: if_splits)
  then show ?thesis using caps v0 by (simp add: supports_def meetsEIP155_def Number_of_def)
qed

text \<open>C11. Error. After Spurious Dragon, a legacy transaction with an EIP-155 signature is not verified
  against what was signed: the message to sign ends with the chain id and two empty fields, and the
  message whose hash the sender is recovered from repeats those three; the two encodings differ.\<close>

theorem eip155_verifies_another_message:
  assumes "lib_ok L" and "0 \<le> cm_chainId C" and "legacy_new L C allow d = Inr t" and "isSigned t"
    and "cm_gteHardfork C ''spuriousDragon''" and "is_eip155_v (the (tx_v t))"
  shows "\<exists>m. legacy_getMessageToSign L C t = Inr m \<and> length m = 9 \<and>
    legacy_verify_message L C t = Inr (m @ drop 6 m) \<and>
    (length (enc (DList (m @ drop 6 m))) < 256 ^ 8 \<longrightarrow> length (enc (DList m)) < 256 ^ 8 \<longrightarrow>
      (\<exists>b b'. getHashedMessageToSign L C t = Inr (keccak_256 L b) \<and>
        getMessageToVerifySignature L C t = Inr (keccak_256 L b') \<and> b \<noteq> b'))"
proof -
  obtain t0 g cs where c: "sharedConstructor L C allow Legacy d = Inr t0" "num_of L (td_gasPrice d) = Inr g"
    "t = t0\<lparr>tx_gasPrice := g, tx_capabilities := cs\<rparr>" using legacy_fields [OF assms(3)] by metis
  have p: "proper_fields t" "tx_kind t = Legacy" "0 \<le> tx_gasPrice t"
    using base_facts [OF assms(1) c(1)] num_of_nonneg [OF assms(1) c(2)] c(3) by simp_all
  have sup: "supports t EIP155ReplayProtection" by (rule legacy_protected [OF assms(3-6)])
  let ?u = "map DBytes [wire (tx_nonce t), wire (tx_gasPrice t), wire (tx_gasLimit t), to_raw t,
    wire (tx_value t), tx_data t]"
  let ?x = "[DBytes (wire (cm_chainId C)), DBytes [], DBytes []]"
  have "unsigned_raw L t = Inr ?u"
    using p assms(1) by (simp add: unsigned_raw_def nums_raw_def wire_raw proper_fields_def)
  then have m: "legacy_getMessageToSign L C t = Inr (?u @ ?x)" "legacy_verify_message L C t = Inr ((?u @ ?x) @ ?x)"
    using sup assms(1,2,6) by (simp_all add: legacy_getMessageToSign_def legacy_verify_message_def wire_raw)
  have "enc (DList (?u @ ?x)) \<noteq> enc (DList ((?u @ ?x) @ ?x))"
    if "length (enc (DList ((?u @ ?x) @ ?x))) < 256 ^ 8" "length (enc (DList (?u @ ?x))) < 256 ^ 8"
    using rlp_decode_enc [OF that(1)] rlp_decode_enc [OF that(2)] by (auto simp del: enc.simps)
  then show ?thesis
    using m p(2) assms(4) encode_list_enc
    by (simp add: getHashedMessageToSign_def getMessageToVerifySignature_def del: enc.simps) metis
qed

definition dragon_chain :: common where
  "dragon_chain = plain_chain\<lparr>cm_gteHardfork := \<lambda>_. True\<rparr>"

definition dragon_tx :: tx where
  "dragon_tx = plain_tx\<lparr>tx_v := Some 37, tx_capabilities := [EIP155ReplayProtection]\<rparr>"

lemma dragon_new:
  "legacy_new ref_lib dragon_chain False (plain_data\<lparr>td_v := LBytes [37]\<rparr>) = Inr dragon_tx"
proof -
  have s: "sharedConstructor ref_lib dragon_chain False Legacy (plain_data\<lparr>td_v := LBytes [37]\<rparr>) =
    Inr (plain_tx\<lparr>tx_gasPrice := 0, tx_v := Some 37\<rparr>)"
    unfolding sharedConstructor_def plain_data_def
    by (simp add: shared_checks_def plain_chain_def dragon_chain_def plain_tx_def
        empty_txdata_def empty_string_as_0x_def num_of_def opt_num_def toBytes_def be_val_Cons MAX_UINT64_def
        MAX_INTEGER_BIGINT_def)
  have g: "num_of ref_lib (td_gasPrice plain_data) = Inr 10"
    by (simp add: plain_data_def num_of_def toBytes_def be_val_Cons)
  have m: "meetsEIP155 37 1" by (simp add: meetsEIP155_def Number_of_def round53_small)
  have v: "validateVAndExtractChainID dragon_chain (Some 37) = Inr (Some 1)"
    using m by (simp add: validateVAndExtractChainID_def Number_of_def round53_small dragon_chain_def plain_chain_def)
  show ?thesis
    unfolding legacy_new_def s
    using g v m by (simp add: plain_tx_def plain_chain_def dragon_chain_def dragon_tx_def MAX_INTEGER_BIGINT_def isSigned_def)
qed

theorem eip155_verifies_another_message_witness:
  "\<exists>m. legacy_getMessageToSign ref_lib dragon_chain dragon_tx = Inr m \<and> length m = 9 \<and>
    legacy_verify_message ref_lib dragon_chain dragon_tx = Inr (m @ drop 6 m) \<and>
    (length (enc (DList (m @ drop 6 m))) < 256 ^ 8 \<longrightarrow> length (enc (DList m)) < 256 ^ 8 \<longrightarrow>
      (\<exists>b b'. getHashedMessageToSign ref_lib dragon_chain dragon_tx = Inr (keccak_256 ref_lib b) \<and>
        getMessageToVerifySignature ref_lib dragon_chain dragon_tx = Inr (keccak_256 ref_lib b') \<and> b \<noteq> b'))"
  by (rule eip155_verifies_another_message [OF _ _ dragon_new])
     (simp_all add: dragon_chain_def dragon_tx_def plain_chain_def plain_tx_def isSigned_def is_eip155_v_def
       Number_of_def round53_small)

end
