(* ===== verification/Bloom.thy ===== *)
theory Bloom
  imports EvmState
begin

unbundle bit_operations_syntax

text \<open>
  The bloom filter over logs: \<open>packages/vm/src/bloom/index.ts\<close> and \<open>txLogsBloom\<close> of \<open>runTx.ts\<close>. A
  filter is its 256 bytes; the hash is the one of the library argument. The last round of the loop in
  \<open>or\<close> writes past the end, which a typed array ignores, as \<open>list_update\<close> does.
\<close>

section \<open>The filter\<close>

definition bloom_size :: nat where "bloom_size = 256"

definition bloom_new :: "u8 list option \<Rightarrow> u8 list res" where
  "bloom_new bitvector = (case bitvector of
     None \<Rightarrow> Inr (replicate bloom_size 0)
   | Some b \<Rightarrow> if length b \<noteq> bloom_size then throw ''bitvectors must be 2048 bits long'' else Inr b)"

definition getUint16 :: "u8 list \<Rightarrow> nat \<Rightarrow> nat res" where
  "getUint16 e off = (if off + 2 > length e then throw ''RangeError: Offset is outside the bounds of the DataView''
     else Inr (unat (e ! off) * 256 + unat (e ! (off + 1))))"

definition bloom_byte :: "nat \<Rightarrow> nat" where
  "bloom_byte w = bloom_size - (w mod 2048) div 8 - 1"

definition bloom_bit :: "nat \<Rightarrow> u8" where
  "bloom_bit w = push_bit ((w mod 2048) mod 8) 1"

fun bloom_add_from :: "u8 list \<Rightarrow> nat list \<Rightarrow> u8 list \<Rightarrow> u8 list res" where
  "bloom_add_from e [] bv = Inr bv"
| "bloom_add_from e (i # is) bv =
    bindE (getUint16 e (i * 2)) (\<lambda>w. bloom_add_from e is (bv[bloom_byte w := (bv ! bloom_byte w) OR bloom_bit w]))"

definition bloom_add :: "lib \<Rightarrow> u8 list \<Rightarrow> u8 list \<Rightarrow> u8 list res" where
  "bloom_add L e bv = bloom_add_from (keccak_256 L e) [0, 1, 2] bv"

fun bloom_check_from :: "u8 list \<Rightarrow> nat list \<Rightarrow> u8 list \<Rightarrow> bool res" where
  "bloom_check_from e [] bv = Inr True"
| "bloom_check_from e (i # is) bv =
    bindE (getUint16 e (i * 2)) (\<lambda>w.
    if (bv ! bloom_byte w) AND bloom_bit w \<noteq> 0 then bloom_check_from e is bv else Inr False)"

definition bloom_check :: "lib \<Rightarrow> u8 list \<Rightarrow> u8 list \<Rightarrow> bool res" where
  "bloom_check L e bv = bloom_check_from (keccak_256 L e) [0, 1, 2] bv"

fun bloom_multiCheck :: "lib \<Rightarrow> u8 list list \<Rightarrow> u8 list \<Rightarrow> bool res" where
  "bloom_multiCheck L [] bv = Inr True"
| "bloom_multiCheck L (t # ts) bv =
    bindE (bloom_check L t bv) (\<lambda>ok. if ok then bloom_multiCheck L ts bv else Inr False)"

definition bloom_or :: "u8 list \<Rightarrow> u8 list \<Rightarrow> u8 list" where
  "bloom_or b bv = foldl (\<lambda>bv i. bv[i := (bv ! i) OR (b ! i)]) bv [0..<bloom_size + 1]"

fun bloom_addAll :: "lib \<Rightarrow> u8 list list \<Rightarrow> u8 list \<Rightarrow> u8 list res" where
  "bloom_addAll L [] bv = Inr bv"
| "bloom_addAll L (e # es) bv = bindE (bloom_add L e bv) (bloom_addAll L es)"

fun bloom_logs :: "lib \<Rightarrow> log_entry list \<Rightarrow> u8 list \<Rightarrow> u8 list res" where
  "bloom_logs L [] bv = Inr bv"
| "bloom_logs L (l # ls) bv =
    bindE (bloom_add L (lg_address l) bv) (\<lambda>bv. bindE (bloom_addAll L (lg_topics l) bv) (bloom_logs L ls))"

definition txLogsBloom :: "lib \<Rightarrow> log_entry list option \<Rightarrow> u8 list res" where
  "txLogsBloom L logs = bindE (bloom_new None) (\<lambda>bv. case logs of None \<Rightarrow> Inr bv | Some ls \<Rightarrow> bloom_logs L ls bv)"

section \<open>The bits of an element\<close>

text \<open>The words of an element, and the filter that has exactly their bits.\<close>

definition bloom_word :: "lib \<Rightarrow> u8 list \<Rightarrow> nat \<Rightarrow> nat" where
  "bloom_word L e i = unat (keccak_256 L e ! (2 * i)) * 256 + unat (keccak_256 L e ! (2 * i + 1))"

definition has_bit :: "u8 list \<Rightarrow> nat \<Rightarrow> bool" where
  "has_bit bv n \<longleftrightarrow> bit (bv ! (bloom_size - n div 8 - 1)) (n mod 8)"

definition bits_of :: "lib \<Rightarrow> u8 list \<Rightarrow> nat set" where
  "bits_of L e = (\<lambda>i. bloom_word L e i mod 2048) ` {0, 1, 2}"

definition bloom_set :: "u8 list \<Rightarrow> nat set" where
  "bloom_set bv = {n. n < 2048 \<and> has_bit bv n}"

lemma words_of:
  assumes "lib_ok L" and "i < 3"
  shows "getUint16 (keccak_256 L e) (i * 2) = Inr (bloom_word L e i)"
  using assms by (simp add: getUint16_def bloom_word_def lib_ok_def mult.commute)

lemma bit_bloom_bit: "bit (bloom_bit w) k \<longleftrightarrow> k = (w mod 2048) mod 8"
proof -
  have "(w mod 2048) mod 8 < 8" by simp
  then show ?thesis by (auto simp: bloom_bit_def bit_simps)
qed

lemma and_bloom_bit: "x AND bloom_bit w \<noteq> 0 \<longleftrightarrow> bit x ((w mod 2048) mod 8)"
  by (metis (no_types, lifting) bit_and_iff bit_bloom_bit bit_eq_iff bit_0_eq bot_apply bot_bool_def)

lemma has_bit_set:
  assumes "length bv = bloom_size" and "n < 2048"
  shows "has_bit (bv[bloom_byte w := (bv ! bloom_byte w) OR bloom_bit w]) n \<longleftrightarrow> has_bit bv n \<or> n = w mod 2048"
proof -
  have lt: "bloom_byte w < length bv" using assms(1) by (simp add: bloom_byte_def bloom_size_def)
  have eq: "bloom_size - n div 8 - 1 = bloom_byte w \<longleftrightarrow> n div 8 = (w mod 2048) div 8"
    using assms(2) by (auto simp: bloom_byte_def bloom_size_def)
  have "n = w mod 2048 \<longleftrightarrow> n div 8 = (w mod 2048) div 8 \<and> n mod 8 = (w mod 2048) mod 8"
    by (metis div_mult_mod_eq)
  then show ?thesis
    using lt eq by (auto simp: has_bit_def nth_list_update bit_or_iff bit_bloom_bit)
qed

lemma set_word:
  assumes "length bv = bloom_size"
  shows "bloom_set (bv[bloom_byte w := (bv ! bloom_byte w) OR bloom_bit w]) = insert (w mod 2048) (bloom_set bv)"
  using has_bit_set [OF assms] by (auto simp: bloom_set_def)

lemma bloom_add_set:
  assumes "lib_ok L" and "length bv = bloom_size"
  shows "\<exists>bv'. bloom_add L e bv = Inr bv' \<and> length bv' = bloom_size \<and> bloom_set bv' = bits_of L e \<union> bloom_set bv"
  using assms words_of [OF assms(1), of 0 e] words_of [OF assms(1), of 1 e] words_of [OF assms(1), of 2 e]
  by (auto simp: bloom_add_def set_word bits_of_def)

lemma bloom_check_set:
  assumes "lib_ok L"
  shows "bloom_check L e bv = Inr (bits_of L e \<subseteq> bloom_set bv)"
proof -
  have "((bv ! bloom_byte w) AND bloom_bit w \<noteq> 0) = (w mod 2048 \<in> bloom_set bv)" for w
    by (simp add: and_bloom_bit bloom_set_def has_bit_def bloom_byte_def)
  then show ?thesis
    using words_of [OF assms(1), of 0 e] words_of [OF assms(1), of 1 e] words_of [OF assms(1), of 2 e]
    by (auto simp: bloom_check_def bits_of_def)
qed

lemma bloom_multiCheck_set:
  assumes "lib_ok L"
  shows "bloom_multiCheck L es bv = Inr (\<forall>e\<in>set es. bits_of L e \<subseteq> bloom_set bv)"
  by (induction es) (auto simp: bloom_check_set [OF assms])

lemma bloom_addAll_set:
  assumes "lib_ok L" and "length bv = bloom_size"
  shows "\<exists>bv'. bloom_addAll L es bv = Inr bv' \<and> length bv' = bloom_size \<and>
    bloom_set bv' = (\<Union>e\<in>set es. bits_of L e) \<union> bloom_set bv"
  using assms(2)
proof (induction es arbitrary: bv)
  case (Cons e es)
  from bloom_add_set [OF assms(1) Cons.prems, of e] obtain b1 where
    b1: "bloom_add L e bv = Inr b1" "length b1 = bloom_size" "bloom_set b1 = bits_of L e \<union> bloom_set bv" by blast
  with Cons.IH [OF b1(2)] show ?case by auto
qed simp

definition log_elements :: "log_entry \<Rightarrow> u8 list list" where
  "log_elements l = lg_address l # lg_topics l"

lemma bloom_logs_set:
  assumes "lib_ok L" and "length bv = bloom_size"
  shows "\<exists>bv'. bloom_logs L ls bv = Inr bv' \<and> length bv' = bloom_size \<and>
    bloom_set bv' = (\<Union>l\<in>set ls. \<Union>e\<in>set (log_elements l). bits_of L e) \<union> bloom_set bv"
  using assms(2)
proof (induction ls arbitrary: bv)
  case (Cons l ls)
  from bloom_add_set [OF assms(1) Cons.prems, of "lg_address l"] obtain b1 where
    b1: "bloom_add L (lg_address l) bv = Inr b1" "length b1 = bloom_size"
      "bloom_set b1 = bits_of L (lg_address l) \<union> bloom_set bv" by blast
  from bloom_addAll_set [OF assms(1) b1(2), of "lg_topics l"] obtain b2 where
    b2: "bloom_addAll L (lg_topics l) b1 = Inr b2" "length b2 = bloom_size"
      "bloom_set b2 = (\<Union>e\<in>set (lg_topics l). bits_of L e) \<union> bloom_set b1" by blast
  from Cons.IH [OF b2(2)] b1 b2 show ?case by (auto simp: log_elements_def)
qed simp

lemma bloom_or_nth:
  assumes "n \<le> length bv"
  shows "foldl (\<lambda>bv i. bv[i := (bv ! i) OR (b ! i)]) bv [0..<n] =
    map (\<lambda>i. if i < n then (bv ! i) OR (b ! i) else bv ! i) [0..<length bv]"
  using assms
proof (induction n)
  case 0
  then show ?case by (simp add: map_nth)
next
  case (Suc n)
  then show ?case by (auto intro!: nth_equalityI simp: nth_list_update less_Suc_eq)
qed

lemma bloom_or_set:
  assumes "length bv = bloom_size"
  shows "length (bloom_or b bv) = bloom_size \<and> bloom_set (bloom_or b bv) = bloom_set b \<union> bloom_set bv"
proof -
  let ?m = "map (\<lambda>i. if i < bloom_size then (bv ! i) OR (b ! i) else bv ! i) [0..<length bv]"
  have "bloom_or b bv = ?m[bloom_size := (?m ! bloom_size) OR (b ! bloom_size)]"
    using bloom_or_nth [of bloom_size bv b] assms by (simp add: bloom_or_def)
  then have e: "bloom_or b bv = map (\<lambda>i. (bv ! i) OR (b ! i)) [0..<bloom_size]"
    using assms by (auto intro!: nth_equalityI)
  have "bloom_size - n div 8 - 1 < bloom_size" for n by (simp add: bloom_size_def)
  then show ?thesis using assms by (auto simp: e bloom_set_def has_bit_def bit_or_iff)
qed

lemma bloom_set_new: "bloom_set (replicate bloom_size 0) = {}"
  by (auto simp: bloom_set_def has_bit_def bloom_size_def)

section \<open>Properties\<close>

text \<open>C12. No false negatives. The bloom of a transaction's logs exists, has 2048 bits, and answers yes for
  the address and every topic of every log; it still does after another filter is or-ed into it, and
  a check answers yes exactly when the bits of the element are among those of the filter, which are
  those of the logged elements and no others.\<close>

theorem bloom_no_false_negatives:
  assumes "lib_ok L"
  shows "\<exists>bv. txLogsBloom L (Some ls) = Inr bv \<and> length bv = 256
    \<and> (\<forall>l\<in>set ls. \<forall>b. length (b :: u8 list) = 256 \<longrightarrow> bloom_multiCheck L (lg_address l # lg_topics l) bv = Inr True
        \<and> bloom_multiCheck L (lg_address l # lg_topics l) (bloom_or b bv) = Inr True
        \<and> bloom_multiCheck L (lg_address l # lg_topics l) (bloom_or bv b) = Inr True)
    \<and> (\<forall>e. bloom_check L e bv = Inr (bits_of L e \<subseteq> (\<Union>l\<in>set ls. \<Union>e\<in>set (lg_address l # lg_topics l). bits_of L e)))"
proof -
  from bloom_logs_set [OF assms, of "replicate bloom_size 0" ls] obtain bv where
    bv: "txLogsBloom L (Some ls) = Inr bv" "length bv = bloom_size"
      "bloom_set bv = (\<Union>l\<in>set ls. \<Union>e\<in>set (log_elements l). bits_of L e)"
    by (auto simp: txLogsBloom_def bloom_new_def bloom_set_new)
  have "\<forall>e\<in>set (lg_address l # lg_topics l). bits_of L e \<subseteq> bloom_set bv" if "l \<in> set ls" for l
    using that unfolding bv(3) log_elements_def by blast
  moreover have "bloom_set (bloom_or b bv) = bloom_set b \<union> bloom_set bv" for b
    using bloom_or_set [OF bv(2)] by blast
  moreover have "bloom_set (bloom_or bv b) = bloom_set bv \<union> bloom_set b" if "length b = 256" for b
    using bloom_or_set [of b bv] that by (simp add: bloom_size_def)
  ultimately show ?thesis
    using bv by (intro exI [of _ bv]) (auto simp: bloom_multiCheck_set [OF assms] bloom_check_set [OF assms]
        bloom_size_def log_elements_def simp del: bloom_multiCheck.simps)
qed

theorem bloom_no_false_negatives_witness:
  "\<exists>bv. txLogsBloom ref_lib (Some [\<lparr>lg_address = [1], lg_topics = [[2], [3]], lg_data = []\<rparr>]) = Inr bv \<and>
    bloom_multiCheck ref_lib [[1], [2], [3]] bv = Inr True"
proof -
  let ?l = "\<lparr>lg_address = [1], lg_topics = [[2], [3]], lg_data = []\<rparr> :: log_entry"
  from bloom_no_false_negatives [OF lib_ok_ref, of "[?l]"] obtain bv where
    bv: "txLogsBloom ref_lib (Some [?l]) = Inr bv"
      "\<forall>l\<in>set [?l]. \<forall>b. length (b :: u8 list) = 256 \<longrightarrow> bloom_multiCheck ref_lib (lg_address l # lg_topics l) bv = Inr True" by blast
  have "bloom_multiCheck ref_lib (lg_address ?l # lg_topics ?l) bv = Inr True"
    using bv(2) [rule_format, of ?l "replicate 256 (0 :: u8)"] by simp
  then show ?thesis using bv(1) by (intro exI [of _ bv]) simp
qed

end
