(* ===== verification/RunTx.thy ===== *)
theory RunTx
  imports EvmRun Bloom Tx
begin

text \<open>
  Running a transaction: \<open>packages/vm/src/runTx.ts\<close>. The computations work on the world of the virtual
  machine; \<open>tv_host\<close> is the machine with its chain rules, \<open>ro_common\<close> the rules of the transaction at a
  hardfork. Events, profiling, debug output and the texts around error messages are left out, as are
  the reported access list and preimages beyond their switches.
\<close>

section \<open>Blocks, options, results\<close>

record tx_block =
  tb_env :: block_env
  tb_gasUsed :: int
  tb_hardfork :: string

record ('m, 'w) txvm =
  tv_host :: "('m, 'w) host"
  tv_precompiles :: "jsstr list"
  tv_default :: tx_block
  tv_setOrder :: "jsstr set \<Rightarrow> jsstr list"
  tv_crypto :: crypto
  tv_hasWitness :: bool
  tv_binaryState :: bool
  tv_newWitness :: "'w \<Rightarrow> 'w"
  tv_mergeWitness :: "'w \<Rightarrow> 'w \<Rightarrow> 'w"
  tv_clearOriginal :: "'m \<Rightarrow> 'm"
  tv_getStateRoot :: "'m \<Rightarrow> (u8 list \<times> 'm) res"

record runtx_opts =
  ro_tx :: tx
  ro_txHardfork :: string
  ro_common :: "string \<Rightarrow> common"
  ro_block :: "tx_block option"
  ro_blockGasUsed :: "int option"
  ro_skipNonce :: bool
  ro_skipBalance :: bool
  ro_skipBlockGasLimitValidation :: bool
  ro_skipHardForkValidation :: bool
  ro_reportAccessList :: bool
  ro_reportPreimages :: bool

record tx_receipt =
  rc_status :: "int option"
  rc_stateRoot :: "u8 list option"
  rc_cumulativeBlockGasUsed :: int
  rc_bitvector :: "u8 list"
  rc_logs :: "log_entry list"
  rc_blobGasUsed :: "int option"
  rc_blobGasPrice :: "int option"

record runtx_result =
  rr_evm :: evm_result
  rr_bloom :: "u8 list"
  rr_totalGasSpent :: int
  rr_gasRefund :: int
  rr_amountSpent :: int
  rr_minerValue :: int
  rr_blobGasUsed :: "int option"
  rr_receipt :: tx_receipt

text \<open>The header of the block, or of the default block.\<close>

definition header_env :: "('m, 'w) txvm \<Rightarrow> runtx_opts \<Rightarrow> block_env" where
  "header_env V opts = tb_env (case ro_block opts of None \<Rightarrow> tv_default V | Some b \<Rightarrow> b)"

definition header_baseFee :: "('m, 'w) txvm \<Rightarrow> runtx_opts \<Rightarrow> int option" where
  "header_baseFee V opts =
    (case Option.bind (ro_block opts) (bl_baseFeePerGas \<circ> tb_env) of
       None \<Rightarrow> bl_baseFeePerGas (tb_env (tv_default V)) | Some b \<Rightarrow> Some b)"

text \<open>The rules of the transaction: it is put on the hardfork of its block first.\<close>

definition tx_rules :: "runtx_opts \<Rightarrow> common" where
  "tx_rules opts = ro_common opts
    (case ro_block opts of None \<Rightarrow> ro_txHardfork opts
     | Some b \<Rightarrow> if ro_skipHardForkValidation opts then ro_txHardfork opts else tb_hardfork b)"

definition w_jmod :: "('m journal \<Rightarrow> 'm journal) \<Rightarrow> ('m, 'w, unit) wev" where
  "w_jmod f = w_journal (\<lambda>j. Inr (f j))"

section \<open>Before the message\<close>

definition addressString :: "lib \<Rightarrow> u8 list \<Rightarrow> jsstr" where
  "addressString L a = bytesToHex L a"

text \<open>The warm addresses of EIP-2929 and EIP-3651.\<close>

definition warm_addresses :: "('m, 'w) txvm \<Rightarrow> runtx_opts \<Rightarrow> u8 list \<Rightarrow> ('m, 'w, unit) wev" where
  "warm_addresses V opts caller =
    (let H = tv_host V; L = ho_lib H; warm = (\<lambda>a. jn_addAlwaysWarmAddress a False) in
     whenS (ho_eip H 2929)
       (thenS (w_jmod (\<lambda>j. foldl (\<lambda>j a. warm a j) j (tv_precompiles V)))
       (thenS (w_jmod (warm (addressString L caller)))
       (thenS (case tx_to (ro_tx opts) of None \<Rightarrow> retS () | Some to \<Rightarrow> w_jmod (warm (bytesToUnprefixedHex L to)))
       (whenS (ho_eip H 3651)
         (w_jmod (warm (bytesToUnprefixedHex L (bl_coinbase (header_env V opts))))))))))"

definition minimum_cost :: "('m, 'w) txvm \<Rightarrow> runtx_opts \<Rightarrow> int" where
  "minimum_cost V opts = (if ho_eip (tv_host V) 7623 then floor_cost (tx_rules opts) (ro_tx opts) else 0)"

definition check_gas :: "('m, 'w) txvm \<Rightarrow> runtx_opts \<Rightarrow> int res" where
  "check_gas V opts =
    (let t = ro_tx opts; intrinsicGas = getIntrinsicGas (tx_rules opts) t;
         minGasLimit = max intrinsicGas (minimum_cost V opts) in
     if tx_gasLimit t < minGasLimit then throw ''tx gas limit is lower than the minimum gas limit''
     else Inr (tx_gasLimit t - intrinsicGas))"

definition has_maxFee :: "tx \<Rightarrow> bool" where
  "has_maxFee t \<longleftrightarrow> tx_kind t \<noteq> Legacy \<and> tx_kind t \<noteq> AccessListEIP2930"

text \<open>Comparing with an absent base fee is comparing with \<open>undefined\<close>, which is false.\<close>

definition check_baseFee :: "('m, 'w) txvm \<Rightarrow> runtx_opts \<Rightarrow> unit res" where
  "check_baseFee V opts =
    (let t = ro_tx opts; maxFeePerGas = (if has_maxFee t then tx_maxFeePerGas t else tx_gasPrice t) in
     if ho_eip (tv_host V) 1559 \<and> (case header_baseFee V opts of None \<Rightarrow> False | Some f \<Rightarrow> maxFeePerGas < f)
     then throw ''Transaction's fee is less than the block's baseFeePerGas'' else Inr ())"

text \<open>EIP-3607. With EIP-7702 both outcomes of the test of the code leave the \<open>switch\<close>.\<close>

definition check_eoa :: "('m, 'w) txvm \<Rightarrow> u8 list \<Rightarrow> account \<Rightarrow> ('m, 'w, unit) wev" where
  "check_eoa V caller from =
    (let H = tv_host V in
     bindS (liftS (loaded ''codeHash'' (ac_codeHash from))) (\<lambda>codeHash.
     if codeHash \<noteq> KECCAK256_NULL
     then (if ho_eip H 7702 then bindS (w_mgr (ho_getCode H caller)) (\<lambda>_. retS ())
       else failS (Throw ''invalid sender address, address is not EOA (EIP-3607)''))
     else retS ()))"

definition set_balance :: "int \<Rightarrow> account \<Rightarrow> account" where
  "set_balance b a = a\<lparr>ac_balance := Some b\<rparr>"

text \<open>The upfront cost against the balance read at the start.\<close>

definition check_upfront :: "('m, 'w) txvm \<Rightarrow> runtx_opts \<Rightarrow> u8 list \<Rightarrow> account \<Rightarrow> int \<Rightarrow> ('m, 'w, account) wev" where
  "check_upfront V opts caller from bal =
    (let t = ro_tx opts; upFrontCost = getUpfrontCost t (header_baseFee V opts) in
     if bal < upFrontCost
     then
       (if ro_skipBalance opts
        then (if \<not> supports t EIP1559FeeMarket
          then thenS (w_putAccount (tv_host V) caller (set_balance upFrontCost from)) (retS (set_balance upFrontCost from))
          else retS from)
        else failS (Throw ''sender doesn't have enough funds to send tx. The upfront cost''))
     else retS from)"

text \<open>Blob gas and its price; 0 for other types.\<close>

definition blob_terms :: "('m, 'w) txvm \<Rightarrow> runtx_opts \<Rightarrow> (int \<times> int) res" where
  "blob_terms V opts =
    (let t = ro_tx opts; H = tv_host V in
     if tx_kind t = BlobEIP4844
     then
       (if \<not> ho_eip H 4844 then throw ''blob transactions are only valid with EIP4844 active''
        else
          (case bl_blobGasPrice (header_env V opts) of
             None \<Rightarrow> throw ''header must have excessBlobGas field populated''
           | Some price \<Rightarrow>
               if tx_maxFeePerBlobGas t < price then throw ''Transaction's maxFeePerBlobGas is less than block blobGasPrice''
               else Inr (ho_param H ''blobGasPerBlob'' * int (numBlobs t), price)))
     else Inr (0, 0))"

definition max_cost :: "tx \<Rightarrow> int \<Rightarrow> int" where
  "max_cost t totalblobGas = tx_value t
     + (if supports t EIP1559FeeMarket then tx_gasLimit t * tx_maxFeePerGas t else 0)
     + (if tx_kind t = BlobEIP4844 then totalblobGas * tx_maxFeePerBlobGas t else 0)"

definition check_maxCost :: "('m, 'w) txvm \<Rightarrow> runtx_opts \<Rightarrow> u8 list \<Rightarrow> account \<Rightarrow> int \<Rightarrow> ('m, 'w, account) wev" where
  "check_maxCost V opts caller from maxCost =
    bindS (liftS (loaded ''balance'' (ac_balance from))) (\<lambda>b.
    if b < maxCost
    then
      (if ro_skipBalance opts
       then thenS (w_putAccount (tv_host V) caller (set_balance maxCost from)) (retS (set_balance maxCost from))
       else failS (Throw ''sender doesn't have enough funds to send tx. The max cost''))
    else retS from)"

text \<open>The price of gas, and the part of it that goes to the miner, when it is known. The subtraction
  of an absent base fee throws.\<close>

definition gas_price :: "('m, 'w) txvm \<Rightarrow> runtx_opts \<Rightarrow> (int \<times> int option) res" where
  "gas_price V opts =
    (let t = ro_tx opts; baseFee = header_baseFee V opts in
     if supports t EIP1559FeeMarket
     then bindE (getEffectivePriorityFee t baseFee) (\<lambda>incl.
       case baseFee of None \<Rightarrow> throw ''TypeError'' | Some f \<Rightarrow> Inr (incl + f, Some incl))
     else if ho_eip (tv_host V) 1559
     then (case baseFee of None \<Rightarrow> throw ''TypeError'' | Some f \<Rightarrow> Inr (tx_gasPrice t, Some (tx_gasPrice t - f)))
     else Inr (tx_gasPrice t, None))"

record gas_deal =
  gd_gasLimit :: int
  gd_gasPrice :: int
  gd_inclusion :: "int option"
  gd_txCost :: int
  gd_blobGas :: int
  gd_blobPrice :: int

text \<open>From reading the sender to the purchase of the gas.\<close>

definition buy_gas :: "('m, 'w) txvm \<Rightarrow> runtx_opts \<Rightarrow> u8 list \<Rightarrow> int \<Rightarrow> ('m, 'w, gas_deal) wev" where
  "buy_gas V opts caller gasLimit =
    (let H = tv_host V; t = ro_tx opts in
     bindS (w_account H caller) (\<lambda>from.
     bindS (liftS (loaded ''nonce'' (ac_nonce from))) (\<lambda>nonce.
     bindS (liftS (loaded ''balance'' (ac_balance from))) (\<lambda>bal.
     thenS (check_eoa V caller from)
     (bindS (check_upfront V opts caller from bal) (\<lambda>from.
     bindS (liftS (blob_terms V opts)) (\<lambda>(blobGas, blobPrice).
     bindS (check_maxCost V opts caller from (max_cost t blobGas)) (\<lambda>from.
     if \<not> ro_skipNonce opts \<and> nonce \<noteq> tx_nonce t then failS (Throw ''the tx doesn't have the correct nonce'')
     else
       bindS (liftS (gas_price V opts)) (\<lambda>(gasPrice, incl).
       let txCost = tx_gasLimit t * gasPrice; blobGasCost = blobGas * blobPrice in
       bindS (liftS (loaded ''balance'' (ac_balance from))) (\<lambda>b.
       let b = b - txCost - blobGasCost; b = (if ro_skipBalance opts \<and> b < 0 then 0 else b) in
       thenS (w_putAccount H caller (set_balance b from))
       (retS \<lparr>gd_gasLimit = gasLimit, gd_gasPrice = gasPrice, gd_inclusion = incl, gd_txCost = txCost,
          gd_blobGas = blobGas, gd_blobPrice = blobPrice\<rparr>)))))))))))"

section \<open>Authorizations\<close>

definition EOA_CODE_7702_AUTHORITY_SIGNING_MAGIC :: "u8 list" where
  "EOA_CODE_7702_AUTHORITY_SIGNING_MAGIC = [5]"

definition eoaCode7702RecoverAuthority ::
  "lib \<Rightarrow> crypto \<Rightarrow> u8 list \<Rightarrow> u8 list \<Rightarrow> u8 list \<Rightarrow> u8 list \<Rightarrow> u8 list \<Rightarrow> u8 list \<Rightarrow> u8 list res" where
  "eoaCode7702RecoverAuthority L cr chainId address nonce yParity r s =
    (if length address \<noteq> 20 then throw ''Cannot sign authority: address length should be 20 bytes''
     else
       bindE (encode_list [DBytes (unpadBytes chainId), DBytes address, DBytes (unpadBytes nonce)]) (\<lambda>m.
       bindE (bytesToBigInt L yParity) (\<lambda>y.
       bindE (cr_ecrecover cr (keccak_256 L (EOA_CODE_7702_AUTHORITY_SIGNING_MAGIC @ m)) y r s None) (\<lambda>pubKey.
       address_new (cr_publicToAddress cr pubKey)))))"

text \<open>What is checked before the authority is known; \<open>None\<close> skips the entry.\<close>

definition recover_authority :: "('m, 'w) txvm \<Rightarrow> u8 list \<Rightarrow> u8 list \<Rightarrow> u8 list \<Rightarrow> u8 list \<Rightarrow> u8 list \<Rightarrow> u8 list
    \<Rightarrow> u8 list option res" where
  "recover_authority V chainId address nonce yParity r s =
    (let H = tv_host V; L = ho_lib H in
     bindE (bytesToBigInt L chainId) (\<lambda>c.
     if c \<noteq> 0 \<and> c \<noteq> ho_chainId H then Inr None
     else bindE (bytesToBigInt L nonce) (\<lambda>n.
     if n \<ge> MAX_UINT64 then Inr None
     else bindE (bytesToBigInt L s) (\<lambda>sv.
     if sv > secp256k1_order_div_2 then Inr None
     else bindE (bytesToBigInt L yParity) (\<lambda>y.
     if y > 1 then Inr None
     else (case eoaCode7702RecoverAuthority L (tv_crypto V) chainId address nonce yParity r s of
         Inl _ \<Rightarrow> Inr None | Inr a \<Rightarrow> Inr (Some a)))))))"

text \<open>One entry with its authority; the answer is the refund it gives.\<close>

definition delegate :: "('m, 'w) txvm \<Rightarrow> runtx_opts \<Rightarrow> u8 list \<Rightarrow> u8 list \<Rightarrow> u8 list \<Rightarrow> u8 list \<Rightarrow> ('m, 'w, int) wev" where
  "delegate V opts caller authority address nonce =
    (let H = tv_host V; L = ho_lib H; C = tx_rules opts in
     bindS (w_mgr (sm_getAccount (ho_smgr H) authority)) (\<lambda>acc.
     let account = (case acc of None \<Rightarrow> default_account | Some a \<Rightarrow> a) in
     thenS (w_jmod (jn_addAlwaysWarmAddress (addressString L authority) False))
     (bindS (liftS (account_isContract account)) (\<lambda>contract.
     bindS (if contract then bindS (w_mgr (ho_getCode H authority)) (\<lambda>code. retS (slice 0 3 code \<noteq> DELEGATION_7702_FLAG))
            else retS False) (\<lambda>normal.
     if normal then retS 0
     else
       bindS (liftS (bytesToBigInt L nonce)) (\<lambda>n.
       bindS (liftS (loaded ''nonce'' (ac_nonce account))) (\<lambda>an.
       if (if addressString L caller = addressString L authority then an + 1 else an) \<noteq> n then retS 0
       else
         thenS (w_putAccount H authority (account\<lparr>ac_nonce := Some (an + 1)\<rparr>))
         (thenS (w_mgr_u (ho_putCode H authority (if address = replicate 20 0 then [] else DELEGATION_7702_FLAG @ address)))
         (retS (if acc \<noteq> None then cm_param C ''perEmptyAccountCost'' - cm_param C ''perAuthBaseGas'' else 0))))))))))"

fun run_authorizations :: "('m, 'w) txvm \<Rightarrow> runtx_opts \<Rightarrow> u8 list \<Rightarrow> rlp_data list \<Rightarrow> int \<Rightarrow> ('m, 'w, int) wev" where
  "run_authorizations V opts caller [] refund = retS refund"
| "run_authorizations V opts caller (DList [DBytes c, DBytes a, DBytes n, DBytes y, DBytes r, DBytes s] # ds) refund =
    bindS (liftS (recover_authority V c a n y r s)) (\<lambda>authority.
    bindS (case authority of None \<Rightarrow> retS 0 | Some au \<Rightarrow> delegate V opts caller au a n) (\<lambda>x.
    run_authorizations V opts caller ds (refund + x)))"
| "run_authorizations V opts caller (d # ds) refund = failS (Throw ''TypeError'')"

definition authorizations :: "('m, 'w) txvm \<Rightarrow> runtx_opts \<Rightarrow> u8 list \<Rightarrow> ('m, 'w, int) wev" where
  "authorizations V opts caller =
    (if supports (ro_tx opts) EIP7702EOACode
     then run_authorizations V opts caller (access_items (tx_authorizationList (ro_tx opts))) 0 else retS 0)"

section \<open>The message\<close>

definition tx_message :: "runtx_opts \<Rightarrow> u8 list \<Rightarrow> int \<Rightarrow> message" where
  "tx_message opts caller gasLimit =
    (let t = ro_tx opts in
     default_message\<lparr>mg_caller := caller, mg_gasLimit := gasLimit, mg_to := tx_to t, mg_value := tx_value t,
       mg_data := tx_data t, mg_blobVersionedHashes := (if tx_kind t = BlobEIP4844 then tx_blobVersionedHashes t else [])\<rparr>)"

text \<open>\<open>runCall\<close> takes the block, the price and the origin of the transaction into the machine.\<close>

definition tx_host :: "('m, 'w) txvm \<Rightarrow> runtx_opts \<Rightarrow> u8 list \<Rightarrow> int \<Rightarrow> ('m, 'w) host" where
  "tx_host V opts caller gasPrice = (tv_host V)\<lparr>ho_txGasPrice := gasPrice, ho_txOrigin := caller,
     ho_block := (case ro_block opts of None \<Rightarrow> ho_block (tv_host V) | Some b \<Rightarrow> tb_env b)\<rparr>"

definition start_message :: "nat \<Rightarrow> ('m, 'w) txvm \<Rightarrow> runtx_opts \<Rightarrow> u8 list \<Rightarrow> gas_deal \<Rightarrow> ('m, 'w, evm_result) wev" where
  "start_message n V opts caller deal =
    bindS (liftS (message_new (tx_message opts caller (gd_gasLimit deal)))) (\<lambda>m.
    runCall n (tx_host V opts caller (gd_gasPrice deal)) m)"

definition run_message_of :: "nat \<Rightarrow> ('m, 'w) txvm \<Rightarrow> runtx_opts \<Rightarrow> u8 list \<Rightarrow> gas_deal \<Rightarrow> ('m, 'w, evm_result) wev" where
  "run_message_of n V opts caller deal =
    (if ho_eip (tv_host V) 7864
     then
       bindS (getS wd_witness) (\<lambda>stateAccesses.
       thenS (modS (\<lambda>w. w\<lparr>wd_witness := tv_newWitness V stateAccesses\<rparr>))
       (bindS (start_message n V opts caller deal) (\<lambda>r.
       thenS (modS (\<lambda>w. w\<lparr>wd_witness := tv_mergeWitness V stateAccesses (wd_witness w)\<rparr>)) (retS r))))
     else start_message n V opts caller deal)"

section \<open>After the message\<close>

text \<open>The gas that is paid for and the refund that is reported.\<close>

definition settle_gas :: "('m, 'w) txvm \<Rightarrow> runtx_opts \<Rightarrow> int \<Rightarrow> exec_result \<Rightarrow> (int \<times> int) res" where
  "settle_gas V opts authRefund r =
    (let spent = er_executionGasUsed r + getIntrinsicGas (tx_rules opts) (ro_tx opts);
         gasRefund = authRefund + (case er_gasRefund r of None \<Rightarrow> 0 | Some g \<Rightarrow> g);
         quotient = ho_param (tv_host V) ''maxRefundQuotient'' in
     bindE (if gasRefund = 0 then Inr spent
            else if quotient = 0 then throw ''RangeError: Division by zero''
            else (let maxRefund = spent sdiv quotient in Inr (spent - (if gasRefund < maxRefund then gasRefund else maxRefund)))) (\<lambda>spent.
     if ho_eip (tv_host V) 7623 \<and> spent < minimum_cost V opts then Inr (minimum_cost V opts, 0)
     else Inr (spent, gasRefund)))"

definition miner_of :: "('m, 'w) txvm \<Rightarrow> runtx_opts \<Rightarrow> u8 list" where
  "miner_of V opts =
    (if ho_isClique (tv_host V) then ho_cliqueSigner (tv_host V) (header_env V opts) else bl_coinbase (header_env V opts))"

definition pay :: "('m, 'w) txvm \<Rightarrow> u8 list \<Rightarrow> int res \<Rightarrow> ('m, 'w, unit) wev" where
  "pay V a x =
    bindS (w_account (tv_host V) a) (\<lambda>acc.
    bindS (liftS x) (\<lambda>x.
    bindS (liftS (loaded ''balance'' (ac_balance acc))) (\<lambda>b.
    w_putAccount (tv_host V) a (set_balance (b + x) acc))))"

text \<open>The share of the miner; without an inclusion fee under EIP-1559 the product throws.\<close>

definition miner_value :: "('m, 'w) txvm \<Rightarrow> gas_deal \<Rightarrow> int \<Rightarrow> int res" where
  "miner_value V deal spent =
    (if ho_eip (tv_host V) 1559
     then (case gd_inclusion deal of None \<Rightarrow> throw ''TypeError'' | Some f \<Rightarrow> Inr (spent * f))
     else Inr (spent * gd_gasPrice deal))"

text \<open>The list holds the members of the \<open>Set\<close> of self-destructed addresses in its order
  (\<open>tv_setOrder\<close>).\<close>

fun delete_destroyed :: "('m, 'w) txvm \<Rightarrow> jsstr set \<Rightarrow> jsstr list \<Rightarrow> ('m, 'w, unit) wev" where
  "delete_destroyed V created [] = retS ()"
| "delete_destroyed V created (a # as) =
    bindS (liftS (bindE (hexToBytes (ho_lib (tv_host V)) a) address_new)) (\<lambda>address.
    thenS (if ho_eip (tv_host V) 6780 \<and> addressString (ho_lib (tv_host V)) address \<notin> created then retS ()
           else w_journal (jn_deleteAccount (ho_lib (tv_host V)) (ho_smgr (tv_host V)) address))
    (delete_destroyed V created as))"

definition generateTxReceipt :: "('m, 'w) txvm \<Rightarrow> tx \<Rightarrow> exec_result \<Rightarrow> u8 list \<Rightarrow> int \<Rightarrow> int \<Rightarrow> int \<Rightarrow> ('m, 'w, tx_receipt) wev" where
  "generateTxReceipt V t r bloom cumulativeGasUsed blobGasUsed blobGasPrice =
    (let base = \<lparr>rc_status = None, rc_stateRoot = None, rc_cumulativeBlockGasUsed = cumulativeGasUsed,
           rc_bitvector = bloom, rc_logs = (case er_logs r of None \<Rightarrow> [] | Some ls \<Rightarrow> ls),
           rc_blobGasUsed = None, rc_blobGasPrice = None\<rparr>;
         status = Some (if er_exceptionError r \<noteq> None then 0 else 1) in
     if \<not> supports t EIP2718TypedTransaction
     then
       (if ho_gteHardfork (tv_host V) ''byzantium'' then retS (base\<lparr>rc_status := status\<rparr>)
        else bindS (w_mgr (tv_getStateRoot V)) (\<lambda>root. retS (base\<lparr>rc_stateRoot := Some root\<rparr>)))
     else if tx_kind t = BlobEIP4844
     then retS (base\<lparr>rc_status := status, rc_blobGasUsed := Some blobGasUsed, rc_blobGasPrice := Some blobGasPrice\<rparr>)
     else retS (base\<lparr>rc_status := status\<rparr>))"

definition cumulative_gas :: "('m, 'w) txvm \<Rightarrow> runtx_opts \<Rightarrow> int \<Rightarrow> int" where
  "cumulative_gas V opts spent =
    (case ro_blockGasUsed opts of Some g \<Rightarrow> g
     | None \<Rightarrow> tb_gasUsed (case ro_block opts of None \<Rightarrow> tv_default V | Some b \<Rightarrow> b)) + spent"

definition w_cleanup :: "('m, 'w) txvm \<Rightarrow> ('m, 'w, unit) wev" where
  "w_cleanup V = w_journal (jn_cleanup (ho_lib (tv_host V)) (ho_smgr (tv_host V)) (ho_gteHardfork (tv_host V) ''spuriousDragon''))"

definition settle_tx :: "('m, 'w) txvm \<Rightarrow> runtx_opts \<Rightarrow> u8 list \<Rightarrow> gas_deal \<Rightarrow> int \<Rightarrow> evm_result
    \<Rightarrow> ('m, 'w, runtx_result) wev" where
  "settle_tx V opts caller deal authRefund result =
    (let H = tv_host V; r = ev_exec result in
     bindS (liftS (txLogsBloom (ho_lib H) (er_logs r))) (\<lambda>bloom.
     bindS (liftS (settle_gas V opts authRefund r)) (\<lambda>(spent, refund).
     thenS (pay V caller (Inr (gd_txCost deal - spent * gd_gasPrice deal)))
     (thenS (pay V (miner_of V opts) (miner_value V deal spent))
     (thenS (delete_destroyed V (er_createdAddresses r) (tv_setOrder V (er_selfdestruct r)))
     (thenS (w_cleanup V)
     (thenS (w_mgr_u (\<lambda>m. Inr (tv_clearOriginal V m)))
     (bindS (generateTxReceipt V (ro_tx opts) r bloom (cumulative_gas V opts spent) (gd_blobGas deal) (gd_blobPrice deal))
       (\<lambda>receipt.
     retS \<lparr>rr_evm = result, rr_bloom = bloom, rr_totalGasSpent = spent, rr_gasRefund = refund,
       rr_amountSpent = spent * gd_gasPrice deal,
       rr_minerValue = (case miner_value V deal spent of Inr v \<Rightarrow> v | Inl _ \<Rightarrow> 0),
       rr_blobGasUsed = (if tx_kind (ro_tx opts) = BlobEIP4844 then Some (gd_blobGas deal) else None),
       rr_receipt = receipt\<rparr>)))))))))"

section \<open>The whole transaction\<close>

definition prepare_tx :: "('m, 'w) txvm \<Rightarrow> runtx_opts \<Rightarrow> ('m, 'w, u8 list \<times> gas_deal \<times> int) wev" where
  "prepare_tx V opts =
    (let H = tv_host V in
     thenS (if ho_eip H 7864
       then (if \<not> tv_hasWitness V then failS (Throw ''Binary tree access witness needed for execution of binary tree blocks'')
         else if \<not> tv_binaryState V then failS (Throw ''Binary tree State Manager needed for execution of binary tree blocks'')
         else retS ())
       else retS ())
     (bindS (liftS (getSenderAddress (ho_lib H) (tv_crypto V) (tx_rules opts) (ro_tx opts))) (\<lambda>caller.
     thenS (warm_addresses V opts caller)
     (bindS (liftS (check_gas V opts)) (\<lambda>gasLimit.
     thenS (liftS (check_baseFee V opts))
     (bindS (buy_gas V opts caller gasLimit) (\<lambda>deal.
     bindS (authorizations V opts caller) (\<lambda>refund.
     retS (caller, deal, refund)))))))))"

definition runTx_inner :: "nat \<Rightarrow> ('m, 'w) txvm \<Rightarrow> runtx_opts \<Rightarrow> ('m, 'w, runtx_result) wev" where
  "runTx_inner n V opts =
    bindS (prepare_tx V opts) (\<lambda>(caller, deal, refund).
    bindS (run_message_of n V opts caller deal) (\<lambda>result.
    settle_tx V opts caller deal refund result))"

text \<open>The entries of the access list become warm; an entry is an address and its slots.\<close>

fun item_parts :: "rlp_data \<Rightarrow> (u8 list \<times> u8 list list) res" where
  "item_parts (DList [DBytes a, DList slots]) = bindE (mapE as_bytes slots) (\<lambda>ss. Inr (a, ss))"
| "item_parts (DList [DBytes a, DBytes []]) = Inr (a, [])"
| "item_parts _ = throw ''TypeError''"

fun warm_access_list :: "lib \<Rightarrow> rlp_data list \<Rightarrow> ('m, 'w, unit) wev" where
  "warm_access_list L [] = retS ()"
| "warm_access_list L (d # ds) =
    bindS (liftS (item_parts d)) (\<lambda>(a, slots).
    let address = bytesToUnprefixedHex L a in
    thenS (w_jmod (jn_addAlwaysWarmAddress address True))
    (thenS (w_jmod (\<lambda>j. foldl (\<lambda>j k. jn_addAlwaysWarmSlot address (bytesToUnprefixedHex L k) True j) j slots))
    (warm_access_list L ds)))"

definition typed_setup :: "('m, 'w) txvm \<Rightarrow> runtx_opts \<Rightarrow> ('m, 'w, unit) wev" where
  "typed_setup V opts =
    (let H = tv_host V; t = ro_tx opts; refuse = (\<lambda>msg. thenS (w_journal (jn_revert (ho_smgr H))) (failS (Throw msg))) in
     if supports t EIP2718TypedTransaction \<and> ho_eip H 2718
     then
       (if \<not> ho_eip H 2930 then refuse ''Cannot run transaction: EIP 2930 is not activated.''
        else if supports t EIP1559FeeMarket \<and> \<not> ho_eip H 1559
        then refuse ''Cannot run transaction: EIP 1559 is not activated.''
        else warm_access_list (ho_lib H) (access_items (tx_accessList t)))
     else retS ())"

text \<open>The checks before anything changes.\<close>

definition admit_tx :: "('m, 'w) txvm \<Rightarrow> runtx_opts \<Rightarrow> unit res" where
  "admit_tx V opts =
    bindE (case ro_block opts of None \<Rightarrow> Inr ()
       | Some b \<Rightarrow> if \<not> ro_skipHardForkValidation opts \<and> tb_hardfork b \<noteq> ho_hardfork (tv_host V)
           then throw ''block has a different hardfork than the vm'' else Inr ()) (\<lambda>_.
    if \<not> ro_skipBlockGasLimitValidation opts \<and> bl_gasLimit (header_env V opts) < tx_gasLimit (ro_tx opts)
    then throw ''tx has a higher gas limit than the block'' else Inr ())"

text \<open>The \<open>finally\<close> clause, whatever the outcome. Clearing the cache of original storage values is
  \<open>tv_clearOriginal\<close>.\<close>

definition finally_tx :: "('m, 'w) txvm \<Rightarrow> ('m, 'w) world \<Rightarrow> ('m, 'w) world" where
  "finally_tx V w =
    (let w = (if ho_eip (tv_host V) 2929 then w\<lparr>wd_journal := jn_cleanJournal (wd_journal w)\<rparr> else w) in
     w\<lparr>wd_journal := (wd_journal w)\<lparr>jn_sm := tv_clearOriginal V (jn_sm (wd_journal w))\<rparr>\<rparr>)"

definition close_tx :: "('m, 'w) txvm \<Rightarrow> ('m, 'w, 'a) wev \<Rightarrow> ('m, 'w, 'a) wev" where
  "close_tx V m w =
    (case m w of
       (Inr a, w') \<Rightarrow> (case w_journal (jn_commit (ho_smgr (tv_host V))) w' of
           (Inr _, w'') \<Rightarrow> (Inr a, finally_tx V w'')
         | (Inl e, w'') \<Rightarrow> (case w_journal (jn_revert (ho_smgr (tv_host V))) w'' of
               (Inr _, w3) \<Rightarrow> (Inl e, finally_tx V w3) | (Inl e', w3) \<Rightarrow> (Inl e', finally_tx V w3)))
     | (Inl e, w') \<Rightarrow> (case w_journal (jn_revert (ho_smgr (tv_host V))) w' of
           (Inr _, w'') \<Rightarrow> (Inl e, finally_tx V w'') | (Inl e', w'') \<Rightarrow> (Inl e', finally_tx V w'')))"

text \<open>Up to the \<open>try\<close>: the journal is cleaned and the checkpoint of the transaction opened.\<close>

definition open_tx :: "('m, 'w) txvm \<Rightarrow> runtx_opts \<Rightarrow> ('m, 'w, unit) wev" where
  "open_tx V opts =
     thenS (liftS (admit_tx V opts))
     (thenS (w_cleanup V)
     (thenS (whenS (ro_reportAccessList opts) (w_jmod jn_startReportingAccessList))
     (thenS (whenS (ro_reportPreimages opts) (w_jmod jn_startReportingPreimages))
     (thenS (w_jmod (jn_checkpoint (ho_smgr (tv_host V))))
     (typed_setup V opts)))))"

definition runTx :: "nat \<Rightarrow> ('m, 'w) txvm \<Rightarrow> runtx_opts \<Rightarrow> ('m, 'w, runtx_result) wev" where
  "runTx n V opts = thenS (open_tx V opts) (close_tx V (runTx_inner n V opts))"

end
