(* ===== verification/RunTxLaws.thy ===== *)
theory RunTxLaws
  imports RunTx EvmAtomic TxCodec
begin

text \<open>
  Transactions are atomic and settle their fees. A transaction runs inside checkpoints that may
  already be open, those of its block: the contract of the virtual machine's state is carried over
  to the checkpoints above a base, so that the laws of message calls apply inside.
\<close>

section \<open>Above open checkpoints\<close>

definition on_base :: "('m \<Rightarrow> bool) \<Rightarrow> ('m \<Rightarrow> 'v list) \<Rightarrow> 'v list \<Rightarrow> 'm \<Rightarrow> bool" where
  "on_base SI ssaved base m \<longleftrightarrow> SI m \<and> (\<exists>xs. ssaved m = xs @ base)"

definition above_base :: "('m \<Rightarrow> 'v list) \<Rightarrow> 'v list \<Rightarrow> 'm \<Rightarrow> 'v list" where
  "above_base ssaved base m = take (length (ssaved m) - length base) (ssaved m)"

lemma on_baseI: "SI m \<Longrightarrow> ssaved m = xs @ base \<Longrightarrow> on_base SI ssaved base m"
  by (auto simp: on_base_def)

lemma above_append: "ssaved m = xs @ base \<Longrightarrow> above_base ssaved base m = xs"
  by (simp add: above_base_def)

lemma on_baseD: "on_base SI ssaved base m \<Longrightarrow> SI m \<and> ssaved m = above_base ssaved base m @ base"
  by (auto simp: on_base_def above_base_def)

lemma same_base:
  assumes "on_base SI ssaved base m" and "SI m'" and "ssaved m' = ssaved m"
  shows "on_base SI ssaved base m' \<and> above_base ssaved base m' = above_base ssaved base m"
  using assms by (auto simp: on_base_def above_base_def)

lemma checkpointed_base:
  assumes "checkpointed SI cur ssaved chk com rvt act aact"
  shows "checkpointed (on_base SI ssaved base) cur (above_base ssaved base) chk com rvt act aact"
proof (rule checkpointed.intro)
  fix s assume s: "on_base SI ssaved base s"
  have d: "SI s" "ssaved s = above_base ssaved base s @ base" using on_baseD [OF s] by blast+
  have l: "SI (chk s)" "cur (chk s) = cur s" "ssaved (chk s) = cur s # ssaved s"
    using checkpointed.chk_law [OF assms d(1)] by blast+
  have e: "ssaved (chk s) = (cur s # above_base ssaved base s) @ base" unfolding l(3) append_Cons d(2) [symmetric] ..
  show "on_base SI ssaved base (chk s) \<and> cur (chk s) = cur s \<and> above_base ssaved base (chk s) = cur s # above_base ssaved base s"
    using on_baseI [of SI "chk s" ssaved "cur s # above_base ssaved base s" base, OF l(1) e]
      above_append [of ssaved "chk s" "cur s # above_base ssaved base s" base, OF e] l(2) by blast
  show "refines (on_base SI ssaved base) cur (above_base ssaved base) (act x s) (aact x (cur s)) (above_base ssaved base s)" for x
    using checkpointed.act_law [OF assms d(1), of x] same_base [OF s] by (cases "act x s") auto
next
  fix s v vs assume s: "on_base SI ssaved base s" "above_base ssaved base s = v # vs"
  have e: "ssaved s = v # (vs @ base)" "SI s" using on_baseD [OF s(1)] s(2) by simp_all
  show "\<exists>s'. com s = Inr s' \<and> on_base SI ssaved base s' \<and> cur s' = cur s \<and> above_base ssaved base s' = vs"
    using checkpointed.com_law [OF assms e(2,1)] by (metis above_append on_baseI)
  show "\<exists>s'. rvt s = Inr s' \<and> on_base SI ssaved base s' \<and> cur s' = v \<and> above_base ssaved base s' = vs"
    using checkpointed.rvt_law [OF assms e(2,1)] by (metis above_append on_baseI)
qed

lemma evm_state_base:
  assumes E: "evm_state SI scur ssaved M saact L H bal"
  shows "evm_state (on_base SI ssaved base) scur (above_base ssaved base) M saact L H bal"
proof (rule evm_state.intro)
  have "checkpointed SI scur ssaved (sm_checkpoint M) (sm_commit M) (sm_revert M) (sm_act M) saact"
    using evm_state.axioms(1) [OF E] by (simp add: managed_state_def)
  then show "managed_state (on_base SI ssaved base) scur (above_base ssaved base) M saact"
    unfolding managed_state_def by (rule checkpointed_base)
  show "evm_state_axioms (on_base SI ssaved base) scur (above_base ssaved base) M saact L H bal"
  proof (rule evm_state_axioms.intro, goal_cases)
    case (3 m a acc m')
    have b: "SI m" using on_baseD [of SI ssaved base m] 3(1) by blast
    have l: "SI m'" "scur m' = scur m" "ssaved m' = ssaved m" "ac_balance (case acc of None \<Rightarrow> default_account | Some x \<Rightarrow> x) = bal (scur m) a"
      using evm_state.account_law [OF E b 3(2)] by blast+
    show ?case using same_base [of SI ssaved base m m'] 3(1) l by blast
  next
    case (4 m a c m')
    have b: "SI m" using on_baseD [of SI ssaved base m] 4(1) by blast
    have l: "SI m'" "scur m' = scur m" "ssaved m' = ssaved m"
      using evm_state.code_law [OF E b 4(2)] by blast+
    show ?case using same_base [of SI ssaved base m m'] 4(1) l by blast
  next
    case (5 m a k c m')
    have b: "SI m" using on_baseD [of SI ssaved base m] 5(1) by blast
    have l: "SI m'" "scur m' = scur m" "ssaved m' = ssaved m"
      using evm_state.storage_law [OF E b 5(2)] by blast+
    show ?case using same_base [of SI ssaved base m m'] 5(1) l by blast
  next
    case (6 m a k c m')
    have b: "SI m" using on_baseD [of SI ssaved base m] 6(1) by blast
    have l: "SI m'" "scur m' = scur m" "ssaved m' = ssaved m"
      using evm_state.original_law [OF E b 6(2)] by blast+
    show ?case using same_base [of SI ssaved base m m'] 6(1) l by blast
  next
    case (7 m a k v m')
    have b: "SI m" using on_baseD [of SI ssaved base m] 7(1) by blast
    have l: "SI m'" "ssaved m' = ssaved m" "bal (scur m') = bal (scur m)"
      using evm_state.put_storage_law [OF E b 7(2)] by blast+
    show ?case using same_base [of SI ssaved base m m'] 7(1) l by blast
  next
    case (8 m a fs m')
    have b: "SI m" using on_baseD [of SI ssaved base m] 8(1) by blast
    have l: "SI m'" "ssaved m' = ssaved m" "bal (scur m') = (bal (scur m))(a := (case af_balance fs of None \<Rightarrow> bal (scur m) a | Some x \<Rightarrow> Some x))"
      using evm_state.fields_law [OF E b 8(2)] by blast+
    show ?case using same_base [of SI ssaved base m m'] 8(1) l by blast
  next
    case (9 m a c m')
    have b: "SI m" using on_baseD [of SI ssaved base m] 9(1) by blast
    have l: "SI m'" "ssaved m' = ssaved m" "bal (scur m') = bal (scur m)"
      using evm_state.put_code_law [OF E b 9(2)] by blast+
    show ?case using same_base [of SI ssaved base m m'] 9(1) l by blast
  next
    case (10 m a m')
    have b: "SI m" using on_baseD [of SI ssaved base m] 10(1) by blast
    have l: "SI m'" "ssaved m' = ssaved m" "bal (scur m') = bal (scur m)"
      using evm_state.clear_law [OF E b 10(2)] by blast+
    show ?case using same_base [of SI ssaved base m m'] 10(1) l by blast
  next
    case (11 a con q q' b)
    then show ?case by (rule evm_state.put_law [OF E])
  qed (rule evm_state.host_mgr [OF E] evm_state.host_lib [OF E] evm_state.calm [OF E] evm_state.lib_fine [OF E]
      evm_state.later [OF E])+
qed

section \<open>The first message of a transaction\<close>

text \<open>At depth 0 a call begins by raising the nonce of its caller: no balance changes before the
  checkpoint, so what can be paid then can be paid after it. An error that leaves the call is then
  not the virtual machine's own.\<close>

context evm_calls begin

abbreviation "balances \<beta> \<equiv> (\<lambda>w :: ('m, 'w) world. bal (scur (jn_sm (wd_journal w))) = \<beta>)"

lemma put_same_balance:
  assumes "ac_balance acc = \<beta> a"
  shows "hoare (out ok) (\<lambda>w. W v w \<and> balances \<beta> w) (w_putAccount H a acc) (\<lambda>_ w. W v w \<and> balances \<beta> w)"
proof (rule hoareI)
  fix w :: "('m, 'w) world" and u w'
  assume w: "W v w \<and> balances \<beta> w" "w_putAccount H a acc w = (Inr u, w')"
  then have s: "solvent_account acc" using world_solvent [of v w acc a] assms by simp
  from w(2) obtain j where j: "jn_putAccount L M a (Some acc) (wd_journal w) = Inr j" "w' = w\<lparr>wd_journal := j\<rparr>"
    by (auto simp: w_putAccount_def w_journal_def host_mgr host_lib split: sum.splits)
  have Wv: "W v w" and same: "bal (scur (jn_sm (wd_journal w))) = \<beta>" using w(1) by blast+
  have "bal (scur (jn_sm j)) b = \<beta> b" for b
    using put_journal(2) [OF Wv j(1) s, of b] assms same by auto
  then show "W v w' \<and> balances \<beta> w'"
    using put_journal(1) [OF Wv j(1) s] j(2) by (simp add: fun_eq_iff)
next
  fix w :: "('m, 'w) world" and e w'
  assume w: "W v w \<and> balances \<beta> w" "w_putAccount H a acc w = (Inl e, w')"
  then have "solvent_account acc" using world_solvent [of v w acc a] assms by simp
  from hoare_Inl [OF out_put [OF this], of v w a e w' ok] w show "out ok e w'" by simp
qed

lemma begin_balances:
  "hoare (out ok) (\<lambda>w. W v w \<and> balances \<beta> w) (begin_call H msg) (\<lambda>_ w. W v w \<and> balances \<beta> w)" (is "hoare _ ?P _ _")
proof -
  have acc: "hoare (out ok) ?P (w_account H a) (\<lambda>_. ?P)" for a
    by (rule hoare_post [OF out_read [where R = "\<lambda>q. bal q = \<beta>"]]) simp
  have raise: "hoare (out ok) ?P (bindS (w_account H a) (\<lambda>acc. bindS (liftS (loaded f (ac_nonce acc)))
      (\<lambda>nonce. w_putAccount H a (acc\<lparr>ac_nonce := Some (nonce + 1)\<rparr>)))) (\<lambda>_. ?P)" for a f
  proof (rule hoare_bind [OF out_read [where R = "\<lambda>q. bal q = \<beta>"]])
    fix acc :: account
    let ?Q = "\<lambda>w. W v w \<and> balances \<beta> w \<and> ac_balance acc = bal (scur (jn_sm (wd_journal w))) a"
    show "hoare (out ok) ?Q (bindS (liftS (loaded f (ac_nonce acc)))
        (\<lambda>nonce. w_putAccount H a (acc\<lparr>ac_nonce := Some (nonce + 1)\<rparr>))) (\<lambda>_. ?P)"
    proof (cases "ac_balance acc = \<beta> a")
      case True
      have put: "hoare (out ok) ?Q (w_putAccount H a (acc\<lparr>ac_nonce := Some (n + 1)\<rparr>)) (\<lambda>_. ?P)" for n
      proof (rule hoare_pre)
        show "hoare (out ok) ?P (w_putAccount H a (acc\<lparr>ac_nonce := Some (n + 1)\<rparr>)) (\<lambda>_. ?P)"
          by (rule put_same_balance) (simp add: True)
      qed blast
      show ?thesis by (rule hoare_bind [OF out_lift [OF harmless_loaded]], rule put)
    next
      case False
      then have none: "\<not> ?Q w" for w by auto
      show ?thesis unfolding hoare_def using none by blast
    qed
  qed
  have warm: "hoare (out ok) ?P (w_journal (\<lambda>j. Inr (jn_addWarmedAddress (ho_lib H) a j))) (\<lambda>_. ?P)" for a
    by (auto simp: hoare_def w_journal_def host_lib warm_journal(2) intro: warm_journal(1))
  have bnd: "hoare (out ok) ?P m (\<lambda>_. ?P) \<Longrightarrow> (\<And>a. hoare (out ok) ?P (f a) (\<lambda>_. ?P)) \<Longrightarrow>
      hoare (out ok) ?P (bindS m f) (\<lambda>_. ?P)" for m :: "('m, 'w, 'x) wev" and f :: "'x \<Rightarrow> ('m, 'w, 'y) wev"
    by (rule hoare_bind)
  have gen: "hoare (out ok) ?P (generateMessageAddress H m) (\<lambda>_. ?P)" for m
    unfolding generateMessageAddress_def host_lib
    by (cases "mg_salt m"; cases "mg_code m")
      (auto simp: Let_def split: mcode.splits
        intro!: bnd acc out_lift out_base(2) harmless_loaded harmless_address harmless_create)
  have top: "hoare (out ok) ?P (if d then bindS (w_account H (mg_caller msg)) (\<lambda>acc. bindS (liftS (loaded f (ac_nonce acc)))
      (\<lambda>nonce. w_putAccount H (mg_caller msg) (acc\<lparr>ac_nonce := Some (nonce + 1)\<rparr>))) else retS ()) (\<lambda>_. ?P)" for d f
    by (cases d) (simp_all only: if_True if_False raise out_base(1))
  have "hoare (out ok) ?P (if d then bindS (generateMessageAddress H m) (\<lambda>a.
      bindS (w_journal (\<lambda>j. Inr (jn_addWarmedAddress (ho_lib H) a j))) (\<lambda>_. retS m)) else retS msg) (\<lambda>_. ?P)" for d m
    by (cases d) (simp_all only: if_True if_False bnd [OF gen bnd [OF warm out_base(1)]] out_base(1))
  then show ?thesis
    unfolding begin_call_def whenS_def Let_def by (intro bnd [OF top])
qed

lemma first_message_error:
  assumes w: "W v w" and fresh: "ts_journal (wd_transient w) = []" "ts_storage (wd_transient w) = (\<lambda>_. None)"
    and r: "run_message n H rc msg w = (Inl e, w')" and pay: "payable w msg" "0 \<le> mg_value msg"
  shows "thrown e"
proof -
  note b = begin_balances [where ok = True and v = v and \<beta> = "bal (scur (jn_sm (wd_journal w)))"]
  obtain q w1 where q: "begin_call H msg w = (q, w1)" by fastforce
  show ?thesis
  proof (cases q)
    case (Inl e')
    then show ?thesis using hoare_Inl [OF b, of w] q w r by (simp add: run_message_steps bindS_def)
  next
    case (Inr m)
    note q = q [unfolded Inr]
    have w1: "W v w1" "bal (scur (jn_sm (wd_journal w1))) = bal (scur (jn_sm (wd_journal w)))"
      using hoare_Inr [OF b, of w] q w by simp_all
    from open_call_ok [OF w1(1)] w1(2) obtain w2 where w2: "open_call w1 = (Inr (), w2)" "W (opened w1 v) w2"
      "bal (scur (jn_sm (wd_journal w2))) = bal (scur (jn_sm (wd_journal w)))" by auto
    note m = begin_fields [OF q]
    have p2: "payable w2 m" using pay(1) m w2(3) by (simp add: payable_def)
    have "wd_transient w1 = wd_transient w" using preserves_Inr [OF begin_transient refl q] .
    then have bl: "mg_depth m = 0 \<longrightarrow> blank (opened w1 v)" using blank_opened [OF w1(1)] fresh by simp
    have "0 \<le> mg_value m" using m pay(2) by simp
    note x = exec_ok [where pay = True, OF bl this, of n]
    obtain p w3 where p: "(case mg_to m of Some to \<Rightarrow> executeCall n H rc to m | None \<Rightarrow> executeCreate n H rc m) w2 = (p, w3)"
      by fastforce
    show ?thesis
    proof (cases p)
      case (Inl e')
      then show ?thesis
        using hoare_Inl [OF x, of w2] p w2 p2 r q by (simp add: run_message_steps bindS_def)
    next
      case (Inr res)
      then have "W (opened w1 v) w3" using hoare_Inr [OF x, of w2] p w2 p2 by simp
      from finish_ok [OF this, of "settle_result res"] show ?thesis
        using p w2 r q Inr by (auto simp: run_message_steps bindS_def)
    qed
  qed
qed

end

context evm_state begin

lemma first_call_error:
  assumes "W v w" "ts_journal (wd_transient w) = []" "ts_storage (wd_transient w) = (\<lambda>_. None)"
    and "runCall n H msg w = (Inl e, w')" "payable w msg" "0 \<le> mg_value msg"
  shows "thrown e"
proof (cases n)
  case 0
  then show ?thesis using assms(4) by (auto simp: failS_def)
next
  case (Suc k)
  then have "run_message (k + 2) H (runCall k H) msg w = (Inl e, w')" using assms(4) by simp
  from calls.first_message_error [OF assms(1-3) this assms(5,6)] show ?thesis .
qed

end

section \<open>Transactions on the simple state manager\<close>

definition simple_vm :: "lib \<Rightarrow> (simple_state, 'w) txvm \<Rightarrow> (simple_state, 'w) txvm" where
  "simple_vm L V = V\<lparr>tv_host := simple_host L (tv_host V),
     tv_clearOriginal := (\<lambda>m. m\<lparr>ss_original := os_clear (ss_original m)\<rparr>),
     tv_getStateRoot := (\<lambda>_. throw ''Method not implemented.'')\<rparr>"

text \<open>The state manager of a world: its invariant with given contents of the open checkpoints.\<close>

abbreviation state_of :: "('m, 'w) world \<Rightarrow> 'm" where
  "state_of w \<equiv> jn_sm (wd_journal w)"

definition at_state :: "ss_view list \<Rightarrow> (simple_state, 'w) world \<Rightarrow> bool" where
  "at_state S w \<longleftrightarrow> ss_inv (state_of w) \<and> ss_saved (state_of w) = S"

abbreviation kept :: "ss_view list \<Rightarrow> ((simple_state, 'w) world, 'a) stm \<Rightarrow> bool" where
  "kept S m \<equiv> preserves (\<lambda>_ _. False) (at_state S) m"

locale simple_tx =
  fixes L :: lib and V0 :: "(simple_state, 'w) txvm" and base :: "ss_view list"
  assumes tx_codec: "lib_ok L" and tx_own_errors: "nobleH2B L s \<noteq> Inl (EvmTrap x)"
    and tx_later: "ho_hardfork (tv_host V0) \<noteq> ''chainstart''"

sublocale simple_tx \<subseteq> machine: simple_evm L "tv_host V0"
  by unfold_locales (rule tx_codec tx_own_errors tx_later)+

sublocale simple_tx \<subseteq> outer: evm_state "on_base ss_inv ss_saved base" ss_cur "above_base ss_saved base" "simple_mgr L"
    "\<lambda>x. ss_aact L (ss_of_sm x)" L "simple_host L (tv_host V0)" "ss_bal L"
  by (rule evm_state_base, rule machine.evm.evm_state_axioms)

lemma simple_vm_sel [simp]:
  "tv_host (simple_vm L V) = simple_host L (tv_host V)" "ho_lib (simple_host L H) = L"
  "ho_smgr (simple_host L H) = simple_mgr L" "tv_crypto (simple_vm L V) = tv_crypto V"
  "ho_eip (simple_host L H) = ho_eip H" "ho_param (simple_host L H) = ho_param H"
  "ho_chainId (simple_host L H) = ho_chainId H" "tv_default (simple_vm L V) = tv_default V"
  by (simp_all add: simple_vm_def simple_host_def)

text \<open>Reading.\<close>

definition account_at :: "lib \<Rightarrow> (simple_state, 'w) world \<Rightarrow> u8 list \<Rightarrow> account" where
  "account_at L w a = (case ss_getAccount L a (state_of w) of None \<Rightarrow> default_account | Some x \<Rightarrow> x)"

lemma at_kept:
  assumes "kept S m" and "m w = (r, w')" and "at_state S w"
  shows "at_state S w'"
  using preserves_Inr [OF assms(1,3)] preserves_Inl [OF assms(1,3)] assms(2) by (cases r) auto

lemma find_read: "w_mgr (sm_getAccount (simple_mgr L) a) w = (Inr (ss_getAccount L a (state_of w)), w)"
  by (simp add: w_mgr_def simple_mgr_def)

lemma account_read: "w_account (simple_host L H) a w = (Inr (account_at L w a), w)"
  by (simp add: w_account_def find_read bindS_def retS_def account_at_def)

lemma code_read: "w_mgr (ho_getCode (simple_host L H) a) w = (Inr (ss_getCode L a (state_of w)), w)"
  by (simp add: w_mgr_def simple_host_def)

lemma account_at_balance: "ac_balance (account_at L w a) = ss_bal L (ss_cur (state_of w)) a"
  by (simp add: account_at_def ss_bal_def ss_getAccount_def ss_cur_def)

lemma kept_reads [pres]:
  "kept S (w_account (simple_host L H) a)" "kept S (w_mgr (sm_getAccount (simple_mgr L) a))"
  "kept S (w_mgr (ho_getCode (simple_host L H) a))"
  by (auto intro!: preservesI simp: account_read find_read code_read)

text \<open>Writing.\<close>

lemma touch_state: "jn_touchAddress L M a j = Inr j' \<Longrightarrow> jn_sm j' = jn_sm j"
  by (auto simp: jn_touchAddress_def jn_touchAccount_def bindE_eq_Inr split: option.splits if_splits)

lemma put_state:
  assumes "jn_putAccount L (simple_mgr L) a acc j = Inr j'"
  shows "ss_act L (SsPut a acc) (jn_sm j) = Inr (jn_sm j')"
  using assms by (auto simp: jn_putAccount_def bindE_eq_Inr simple_mgr_def ss_act_def dest!: touch_state)

lemma delete_state:
  assumes "jn_deleteAccount L (simple_mgr L) a j = Inr j'"
  shows "ss_act L (SsDel a) (jn_sm j) = Inr (jn_sm j')"
  using assms by (auto simp: jn_deleteAccount_def bindE_eq_Inr simple_mgr_def ss_act_def dest!: touch_state)

lemma kept_journal:
  assumes "\<And>j j'. f j = Inr j' \<Longrightarrow> ss_inv (jn_sm j) \<Longrightarrow> ss_inv (jn_sm j') \<and> ss_saved (jn_sm j') = ss_saved (jn_sm j)"
  shows "kept S (w_journal f)"
  using assms by (auto intro!: preservesI simp: w_journal_def at_state_def split: sum.splits)

lemma kept_mgr:
  assumes "\<And>m a m'. f m = Inr (a, m') \<Longrightarrow> ss_inv m \<Longrightarrow> ss_inv m' \<and> ss_saved m' = ss_saved m"
  shows "kept S (w_mgr f)"
  using assms by (auto intro!: preservesI simp: w_mgr_def at_state_def split: sum.splits)

lemma kept_put [pres]: "kept S (w_putAccount (simple_host L H) a acc)"
  unfolding w_putAccount_def simple_vm_sel by (rule kept_journal) (metis put_state simple_act)

lemma kept_delete [pres]: "kept S (w_journal (jn_deleteAccount L (simple_mgr L) a))"
  by (rule kept_journal) (metis delete_state simple_act)

lemma kept_code [pres]: "kept S (w_mgr_u (ho_putCode (simple_host L H) a c))"
  unfolding w_mgr_u_def
proof (rule kept_mgr)
  fix m u m' assume "bindE (ho_putCode (simple_host L H) a c m) (\<lambda>m'. Inr ((), m')) = Inr (u, m')" and i: "ss_inv m"
  then have "ss_act L (SsCode a c) m = Inr m'" by (auto simp: bindE_eq_Inr simple_host_def ss_act_def)
  then show "ss_inv m' \<and> ss_saved m' = ss_saved m" by (rule simple_act [OF i])
qed

lemma kept_jmod: "(\<And>j. jn_sm (f j) = jn_sm j) \<Longrightarrow> kept S (w_jmod f)"
  unfolding w_jmod_def by (rule kept_journal) auto

lemma warm_state [simp]: "jn_sm (jn_addAlwaysWarmAddress a f j) = jn_sm j"
  by (simp add: jn_addAlwaysWarmAddress_def Let_def)

lemma warm_slot_state [simp]: "jn_sm (jn_addAlwaysWarmSlot a k f j) = jn_sm j"
  by (simp add: jn_addAlwaysWarmSlot_def Let_def)

lemma warm_fold_state [simp]:
  "jn_sm (foldl (\<lambda>j a. jn_addAlwaysWarmAddress a f j) j as) = jn_sm j"
  "jn_sm (foldl (\<lambda>j k. jn_addAlwaysWarmSlot a (g k) f j) j ks) = jn_sm j"
  by (induction as arbitrary: j, simp_all) (induction ks arbitrary: j, simp_all)

lemmas kept_warm [pres] = kept_jmod [OF warm_state] kept_jmod [OF warm_fold_state(1)] kept_jmod [OF warm_fold_state(2)]

section \<open>Every step keeps the open checkpoints\<close>

lemma kept_authorizations [pres]: "kept S (run_authorizations (simple_vm L V) opts caller ds refund)"
proof (induction "simple_vm L V" opts caller ds refund rule: run_authorizations.induct)
  case (2 opts caller c a n y r s ds refund)
  then show ?case unfolding run_authorizations.simps delegate_def simple_vm_sel Let_def
    by (intro pres) 
qed (simp_all add: pres)

lemma kept_prepare: "kept S (prepare_tx (simple_vm L V) opts)"
  unfolding prepare_tx_def warm_addresses_def buy_gas_def check_eoa_def check_upfront_def check_maxCost_def
    authorizations_def simple_vm_sel Let_def
  by (intro pres)

lemma simple_get [simp]: "sm_getAccount (simple_mgr L) a m = Inr (ss_getAccount L a m, m)"
  by (simp add: simple_mgr_def)

lemma cleanup_step:
  assumes "jn_cleanup_loop L (simple_mgr L) (a # as) j = Inr j'"
  obtains addr e j1 where
    "(case ss_getAccount L addr (jn_sm j) of None \<Rightarrow> Inr True | Some x \<Rightarrow> account_isEmpty x) = Inr e"
    "(if e then jn_deleteAccount L (simple_mgr L) addr j else Inr j) = Inr j1"
    "jn_cleanup_loop L (simple_mgr L) as j1 = Inr j'"
  using assms by (auto simp: bindE_eq_Inr)

lemma kept_cleanup_loop:
  assumes "jn_cleanup_loop L (simple_mgr L) as j = Inr j'" and "ss_inv (jn_sm j)"
  shows "ss_inv (jn_sm j') \<and> ss_saved (jn_sm j') = ss_saved (jn_sm j)"
  using assms
proof (induction as arbitrary: j)
  case (Cons a as)
  from Cons.prems(1) obtain addr e j1 where
    j1: "(if e then jn_deleteAccount L (simple_mgr L) addr j else Inr j) = Inr j1"
    "jn_cleanup_loop L (simple_mgr L) as j1 = Inr j'" by (rule cleanup_step)
  have "ss_inv (jn_sm j1) \<and> ss_saved (jn_sm j1) = ss_saved (jn_sm j)"
    using j1(1) Cons.prems(2) simple_act [OF Cons.prems(2) delete_state, of L addr j1] by (cases e) simp_all
  with Cons.IH [OF j1(2)] show ?case by simp
qed simp

lemma kept_cleanup [pres]: "kept S (w_cleanup (simple_vm L V))"
  unfolding w_cleanup_def simple_vm_sel
proof (rule kept_journal)
  fix j j' assume "jn_cleanup L (simple_mgr L) (ho_gteHardfork (simple_host L (tv_host V)) ''spuriousDragon'') j = Inr j'"
    and "ss_inv (jn_sm j)"
  then show "ss_inv (jn_sm j') \<and> ss_saved (jn_sm j') = ss_saved (jn_sm j)"
    using kept_cleanup_loop by (auto simp: jn_cleanup_def bindE_eq_Inr jn_cleanJournal_def split: if_splits)
qed

lemma kept_destroyed [pres]: "kept S (delete_destroyed (simple_vm L V) created as)"
  by (induction as) (auto intro!: pres)

lemma kept_settle: "kept S (settle_tx (simple_vm L V) opts caller deal refund result)"
proof -
  have "kept S (w_mgr_u (\<lambda>m. Inr (tv_clearOriginal (simple_vm L V) m)))" unfolding w_mgr_u_def
    by (rule kept_mgr) (auto simp: simple_vm_def ss_inv_def ss_saved_def)
  moreover have "kept S (w_mgr (tv_getStateRoot (simple_vm L V)))" by (rule kept_mgr) (simp add: simple_vm_def)
  ultimately show ?thesis
    unfolding settle_tx_def pay_def generateTxReceipt_def simple_vm_sel Let_def by (intro pres)
qed

section \<open>Changes of what is always warm\<close>

definition same_core :: "'m journal \<Rightarrow> 'm journal \<Rightarrow> bool" where
  "same_core j j' \<longleftrightarrow> jn_sm j' = jn_sm j \<and> jn_journal j' = jn_journal j \<and> jn_touched j' = jn_touched j \<and>
     jn_diff j' = jn_diff j \<and> jn_height j' = jn_height j \<and> jn_preimages j' = jn_preimages j \<and>
     (jn_accessList j = None \<longrightarrow> jn_accessList j' = None)"

lemma same_core_refl: "same_core j j"
  by (simp add: same_core_def)

lemma same_core_trans: "same_core i j \<Longrightarrow> same_core j k \<Longrightarrow> same_core i k"
  by (simp add: same_core_def)

lemma same_core_warm: "same_core j (jn_addAlwaysWarmAddress a f j)" "same_core j (jn_addAlwaysWarmSlot a k f j)"
  by (auto simp: same_core_def jn_addAlwaysWarmSlot_def jn_addAlwaysWarmAddress_def Let_def)

lemma same_core_fold: "(\<And>j a. same_core j (g j a)) \<Longrightarrow> same_core j (foldl g j as)"
proof (induction as arbitrary: j)
  case Nil
  then show ?case by (simp add: same_core_refl)
next
  case (Cons a as)
  have "same_core (g j a) (foldl g (g j a) as)" using Cons.IH Cons.prems by blast
  then show ?case using Cons.prems [of j a] same_core_trans by auto
qed

lemma same_core_world:
  assumes "world_at SI scur ssaved bal v w" and "same_core (wd_journal w) j"
  shows "world_at SI scur ssaved bal v (w\<lparr>wd_journal := j\<rparr>)"
proof -
  have n: "jn_accessList (wd_journal w) = None" using assms(1) by (simp add: world_at_def world_ok_def jn_inv_def)
  have "jn_inv SI ssaved j \<longleftrightarrow> jn_inv SI ssaved (wd_journal w)"
    using assms(2) n unfolding jn_inv_def same_core_def by auto
  moreover have "jn_saved ssaved j = jn_saved ssaved (wd_journal w)"
    using assms(2) unfolding jn_saved_def same_core_def by auto
  ultimately show ?thesis using assms by (simp add: same_core_def world_at_def world_ok_def world_saved_def)
qed

text \<open>Computations that do no more.\<close>

definition warming :: "('m, 'w, unit) wev \<Rightarrow> bool" where
  "warming m \<longleftrightarrow> (\<forall>w r w'. m w = (r, w') \<longrightarrow> (\<exists>j. same_core (wd_journal w) j \<and> w' = w\<lparr>wd_journal := j\<rparr>))"

lemma warming_base: "warming (retS ())" "warming (failS e)" "(\<And>j. same_core j (f j)) \<Longrightarrow> warming (w_jmod f)"
proof -
  have "w = w\<lparr>wd_journal := wd_journal w\<rparr>" for w :: "('m, 'w) world" by simp
  then show "warming (retS ())" "warming (failS e)"
    unfolding warming_def retS_def failS_def using same_core_refl by fastforce+
  show "(\<And>j. same_core j (f j)) \<Longrightarrow> warming (w_jmod f)" by (auto simp: warming_def w_jmod_def w_journal_def)
qed

lemma warming_bind:
  assumes "warming m" and "warming n"
  shows "warming (thenS m n)"
  unfolding warming_def
proof (intro allI impI)
  fix w r w' assume r: "thenS m n w = (r, w')"
  obtain r1 w1 where m: "m w = (r1, w1)" by fastforce
  from assms(1) m obtain j where j: "same_core (wd_journal w) j" "w1 = w\<lparr>wd_journal := j\<rparr>" unfolding warming_def by blast
  show "\<exists>j. same_core (wd_journal w) j \<and> w' = w\<lparr>wd_journal := j\<rparr>"
  proof (cases r1)
    case (Inl e)
    then show ?thesis using r m j by (auto simp: bindS_def)
  next
    case (Inr a)
    then have "n w1 = (r, w')" using r m by (simp add: bindS_def)
    with assms(2) obtain j' where "same_core (wd_journal w1) j'" "w' = w1\<lparr>wd_journal := j'\<rparr>" unfolding warming_def by blast
    with j same_core_trans show ?thesis by fastforce
  qed
qed

lemma warming_lift: "(\<And>a. warming (f a)) \<Longrightarrow> warming (bindS (liftS r) f)"
  by (cases r) (simp_all add: bindS_lift warming_base)

lemma warming_cases:
  "(b \<Longrightarrow> warming m) \<Longrightarrow> (\<not> b \<Longrightarrow> warming n) \<Longrightarrow> warming (if b then m else n)"
  "warming m \<Longrightarrow> (\<And>a. warming (f a)) \<Longrightarrow> warming (case x of None \<Rightarrow> m | Some a \<Rightarrow> f a)"
  "(\<And>a b. warming (g a b)) \<Longrightarrow> warming (case y of (a, b) \<Rightarrow> g a b)"
  by (simp_all split: option.split prod.split)

lemmas warmth = warming_base warming_bind warming_lift warming_cases same_core_warm same_core_fold

lemma warming_addresses: "warming (warm_addresses V opts caller)"
  unfolding warm_addresses_def Let_def whenS_def by (intro warmth)

lemma warming_list: "warming (warm_access_list L ds)"
proof (induction ds)
  case (Cons d ds)
  show ?case unfolding warm_access_list.simps Let_def by (intro warmth Cons.IH)
qed (simp add: warming_base)

section \<open>Paying for the gas\<close>

text \<open>What the constructors establish of a transaction, and what a header has.\<close>

definition tx_fine :: "tx \<Rightarrow> bool" where
  "tx_fine t \<longleftrightarrow> 0 \<le> tx_gasLimit t \<and> 0 \<le> tx_value t \<and> 0 \<le> tx_gasPrice t \<and> 0 \<le> tx_maxFeePerGas t
     \<and> 0 \<le> tx_maxPriorityFeePerGas t \<and> (supports t EIP1559FeeMarket \<longleftrightarrow> has_maxFee t)"

definition market_fine :: "('m, 'w) txvm \<Rightarrow> runtx_opts \<Rightarrow> bool" where
  "market_fine V opts \<longleftrightarrow> (\<forall>f. header_baseFee V opts = Some f \<longrightarrow> 0 \<le> f) \<and> 0 \<le> ho_param (tv_host V) ''blobGasPerBlob''"

lemma upfront_nonneg:
  assumes "tx_fine t" and "\<forall>f. baseFee = Some f \<longrightarrow> 0 \<le> f"
  shows "0 \<le> getUpfrontCost t baseFee"
  using assms by (cases baseFee) (auto simp: getUpfrontCost_def fee_getUpfrontCost_def tx_fine_def Let_def)

text \<open>The cost of the gas and of the blobs is covered by what is checked.\<close>

lemma cost_covered:
  assumes t: "tx_fine t" and m: "market_fine V opts" and tx: "ro_tx opts = t"
    and p: "gas_price V opts = Inr (gasPrice, incl)" and b: "blob_terms V opts = Inr (blobGas, blobPrice)"
    and up: "getUpfrontCost t (header_baseFee V opts) \<le> bal" and mx: "max_cost t blobGas \<le> bal"
  shows "tx_value t \<le> bal - tx_gasLimit t * gasPrice - blobGas * blobPrice"
proof (cases "has_maxFee t")
  case True
  then have s: "supports t EIP1559FeeMarket" "tx_kind t \<noteq> Legacy" "tx_kind t \<noteq> AccessListEIP2930"
    using t by (auto simp: tx_fine_def has_maxFee_def)
  then obtain f where f: "header_baseFee V opts = Some f" "gasPrice \<le> tx_maxFeePerGas t"
    using p tx by (auto simp: gas_price_def bindE_eq_Inr getEffectivePriorityFee_def fee_getEffectivePriorityFee_def Let_def
        split: if_splits option.splits)
  have c: "tx_gasLimit t * gasPrice \<le> tx_gasLimit t * tx_maxFeePerGas t"
    using t f(2) by (simp add: tx_fine_def mult_left_mono)
  show ?thesis
  proof (cases "tx_kind t = BlobEIP4844")
    case True
    then have bp: "blobPrice \<le> tx_maxFeePerBlobGas t" "0 \<le> blobGas"
      using b tx m by (auto simp: blob_terms_def market_fine_def Let_def split: if_splits option.splits)
    have "blobGas * blobPrice \<le> blobGas * tx_maxFeePerBlobGas t" using bp by (rule mult_left_mono)
    then show ?thesis using c mx s True by (simp add: max_cost_def)
  next
    case False
    then have "blobGas = 0" using b tx by (simp add: blob_terms_def)
    then show ?thesis using c mx s False by (simp add: max_cost_def)
  qed
next
  case False
  then have s: "\<not> supports t EIP1559FeeMarket" "tx_kind t = Legacy \<or> tx_kind t = AccessListEIP2930"
    using t by (auto simp: tx_fine_def has_maxFee_def)
  then have "gasPrice = tx_gasPrice t" "blobGas = 0"
    using p b tx by (auto simp: gas_price_def blob_terms_def Let_def split: if_splits option.splits)
  then show ?thesis using up s by (simp add: getUpfrontCost_def)
qed

definition fresh_transient :: "('m, 'w) world \<Rightarrow> bool" where
  "fresh_transient w \<longleftrightarrow> ts_inv (wd_transient w) \<and> ts_journal (wd_transient w) = [] \<and> ts_storage (wd_transient w) = (\<lambda>_. None)"

text \<open>The sender after the purchase: in a run without \<open>skipBalance\<close> the cost is taken from its balance,
  and the value of the transaction is still there.\<close>

definition bought :: "runtx_opts \<Rightarrow> u8 list \<Rightarrow> gas_deal \<Rightarrow> (u8 list \<Rightarrow> int option) \<Rightarrow> (u8 list \<Rightarrow> int option) \<Rightarrow> bool" where
  "bought opts caller deal old new \<longleftrightarrow> (\<exists>b. old caller = Some b \<and>
     new = old(caller := Some (b - gd_txCost deal - gd_blobGas deal * gd_blobPrice deal)) \<and>
     tx_value (ro_tx opts) \<le> b - gd_txCost deal - gd_blobGas deal * gd_blobPrice deal)"

context simple_tx begin

abbreviation "V \<equiv> simple_vm L V0"
abbreviation "H \<equiv> simple_host L (tv_host V0)"
abbreviation "bal_of w \<equiv> ss_bal L (ss_cur (state_of w))"

lemma put_ok:
  assumes "outer.W v w" and "solvent_account acc" and "w_putAccount H a acc w = (Inr u, w')"
  shows "outer.W v w'" and "bal_of w' = (bal_of w)(a := ac_balance acc)" and "wd_transient w' = wd_transient w"
proof -
  obtain j where j: "jn_putAccount L (simple_mgr L) a (Some acc) (wd_journal w) = Inr j" "w' = w\<lparr>wd_journal := j\<rparr>"
    using assms(3) by (auto simp: w_putAccount_def w_journal_def split: sum.splits)
  show "outer.W v w'" using outer.put_journal(1) [OF assms(1) j(1) assms(2)] j(2) by simp
  show "bal_of w' = (bal_of w)(a := ac_balance acc)"
    using outer.put_journal(2) [OF assms(1) j(1) assms(2)] j(2) by (auto simp: fun_eq_iff)
  show "wd_transient w' = wd_transient w" using j(2) by simp
qed

lemma account_solvent: "outer.W v w \<Longrightarrow> solvent_account (account_at L w a)"
  by (rule outer.calls.world_solvent) (simp_all add: account_at_balance)

lemma check_eoa_read: "check_eoa V caller acc w = (r, w') \<Longrightarrow> w' = w"
  by (auto simp: check_eoa_def Let_def bindS_def liftS_def retS_def failS_def code_read loaded_def split: if_splits option.splits)

lemma solvent_set [simp]: "solvent_account (set_balance b acc) \<longleftrightarrow> 0 \<le> b" "ac_balance (set_balance b acc) = Some b"
  by (simp_all add: set_balance_def)

lemma check_upfront_ok:
  assumes "outer.W v w" and "solvent_account from" and "check_upfront V opts caller from b w = (Inr from', w')"
    and "0 \<le> getUpfrontCost (ro_tx opts) (header_baseFee V opts)"
  shows "outer.W v w' \<and> solvent_account from' \<and> wd_transient w' = wd_transient w \<and>
    (\<not> ro_skipBalance opts \<longrightarrow> w' = w \<and> from' = from \<and> getUpfrontCost (ro_tx opts) (header_baseFee V opts) \<le> b)"
  using assms put_ok [OF assms(1), of "set_balance (getUpfrontCost (ro_tx opts) (header_baseFee V opts)) from"]
  by (auto simp: check_upfront_def Let_def bindS_Inr split: if_splits)

lemma check_maxCost_ok:
  assumes "outer.W v w" and "solvent_account from" and "check_maxCost V opts caller from x w = (Inr from', w')"
  shows "outer.W v w' \<and> solvent_account from' \<and> wd_transient w' = wd_transient w \<and>
    (\<not> ro_skipBalance opts \<longrightarrow> w' = w \<and> from' = from \<and> (\<forall>b. ac_balance from = Some b \<longrightarrow> x \<le> b))"
proof -
  obtain b where b: "ac_balance from = Some b"
    using assms(3) by (cases "ac_balance from") (auto simp: check_maxCost_def loaded_def bindS_lift)
  then have "0 \<le> b" using assms(2) by (simp add: solvent_account_def)
  with b show ?thesis using assms put_ok [OF assms(1), of "set_balance x from"]
    by (auto simp: check_maxCost_def loaded_def bindS_lift bindS_Inr split: if_splits)
qed

lemma buy_gas_ok:
  assumes w: "outer.W v w" and t: "tx_fine (ro_tx opts)" and m: "market_fine V opts"
    and r: "buy_gas V opts caller g w = (Inr deal, w')"
  shows "outer.W v w'" and "wd_transient w' = wd_transient w"
    and "\<not> ro_skipBalance opts \<Longrightarrow> bought opts caller deal (bal_of w) (bal_of w')"
    and "gd_gasLimit deal = g \<and> gd_txCost deal = tx_gasLimit (ro_tx opts) * gd_gasPrice deal \<and>
      gas_price V opts = Inr (gd_gasPrice deal, gd_inclusion deal) \<and>
      blob_terms V opts = Inr (gd_blobGas deal, gd_blobPrice deal)"
proof -
  let ?a = "account_at L w caller" and ?t = "ro_tx opts"
  from r obtain b from1 w1 from2 w2 blobGas blobPrice gasPrice incl b2 where
    b: "ac_balance ?a = Some b" and
    e: "check_upfront V opts caller ?a b w = (Inr from1, w1)"
      "check_maxCost V opts caller from1 (max_cost ?t blobGas) w1 = (Inr from2, w2)"
      "blob_terms V opts = Inr (blobGas, blobPrice)" "gas_price V opts = Inr (gasPrice, incl)"
      "ac_balance from2 = Some b2" and
    p: "\<exists>u. w_putAccount H caller (set_balance (let b = b2 - tx_gasLimit ?t * gasPrice - blobGas * blobPrice in
        if ro_skipBalance opts \<and> b < 0 then 0 else b) from2) w2 = (Inr u, w')" and
    d: "deal = \<lparr>gd_gasLimit = g, gd_gasPrice = gasPrice, gd_inclusion = incl, gd_txCost = tx_gasLimit ?t * gasPrice,
          gd_blobGas = blobGas, gd_blobPrice = blobPrice\<rparr>"
    by (auto simp: buy_gas_def Let_def bindS_Inr account_read liftS_def loaded_def split: option.splits if_splits
        dest!: check_eoa_read)
  let ?b = "let b = b2 - tx_gasLimit ?t * gasPrice - blobGas * blobPrice in if ro_skipBalance opts \<and> b < 0 then 0 else b"
  have up: "0 \<le> getUpfrontCost ?t (header_baseFee V opts)" using upfront_nonneg [OF t] m by (simp add: market_fine_def)
  note u = check_upfront_ok [OF w account_solvent [OF w] e(1) up]
  then have "outer.W v w1" "solvent_account from1" by blast+
  note x = check_maxCost_ok [OF this e(2)]
  have cov: "ro_skipBalance opts \<or> tx_value ?t \<le> b - tx_gasLimit ?t * gasPrice - blobGas * blobPrice \<and> b2 = b \<and> w2 = w"
  proof (cases "ro_skipBalance opts")
    case False
    then have "getUpfrontCost ?t (header_baseFee V opts) \<le> b" "from1 = ?a" "w1 = w" "from2 = ?a" "w2 = w"
      "max_cost ?t blobGas \<le> b" using u x b by auto
    with cost_covered [OF t m refl e(4,3)] b e(5) show ?thesis by simp
  qed simp
  have "0 \<le> ?b" using cov t by (auto simp: tx_fine_def Let_def)
  with put_ok [of v w2 "set_balance ?b from2" caller _ w'] x p
  have q: "outer.W v w'" "bal_of w' = (bal_of w2)(caller := Some ?b)" "wd_transient w' = wd_transient w2" by auto
  show "outer.W v w'" by (rule q(1))
  show "wd_transient w' = wd_transient w" using q(3) u x by simp
  show "bought opts caller deal (bal_of w) (bal_of w')" if "\<not> ro_skipBalance opts"
    using that cov q(2) b account_at_balance [of L w caller] by (simp add: bought_def d)
  show "gd_gasLimit deal = g \<and> gd_txCost deal = tx_gasLimit ?t * gd_gasPrice deal \<and>
      gas_price V opts = Inr (gd_gasPrice deal, gd_inclusion deal) \<and>
      blob_terms V opts = Inr (gd_blobGas deal, gd_blobPrice deal)" using e d by simp
qed

lemma delegate_ok:
  assumes w: "outer.W v w" and r: "delegate V opts caller authority address nonce w = (Inr x, w')"
  shows "outer.W v w' \<and> bal_of w' = bal_of w \<and> wd_transient w' = wd_transient w"
proof -
  let ?w = "w\<lparr>wd_journal := jn_addAlwaysWarmAddress (addressString L authority) False (wd_journal w)\<rparr>"
  have w1: "outer.W v ?w" by (rule outer.calls.always_warm [OF w])
  let ?a = "case ss_getAccount L authority (state_of w) of None \<Rightarrow> default_account | Some a \<Rightarrow> a"
  have bal: "ac_balance ?a = bal_of ?w authority" using account_at_balance [of L w authority] by (simp add: account_at_def)
  have same: "?w = w' \<Longrightarrow> ?thesis" using w1 by auto
  consider "?w = w'" | n w2 u u2 c where
      "w_putAccount H authority (?a\<lparr>ac_nonce := n\<rparr>) ?w = (Inr u, w2)" "w_mgr_u (ho_putCode H authority c) w2 = (Inr u2, w')"
    using r unfolding delegate_def simple_vm_sel Let_def bindS_Inr find_read
    by (auto simp: w_jmod_def w_journal_def bindS_Inr code_read liftS_def loaded_def split: option.splits if_splits)
  then show ?thesis
  proof cases
    case 2
    have s: "solvent_account (?a\<lparr>ac_nonce := n\<rparr>)" using account_solvent [OF w, of authority] by (simp add: account_at_def)
    note p = put_ok [OF w1 s 2(1)]
    have b2: "bal_of w2 = bal_of w" using p(2) bal by (auto simp: fun_eq_iff)
    obtain m' where m': "ss_putCode L authority c (state_of w2) = Inr m'" "w' = w2\<lparr>wd_journal := (wd_journal w2)\<lparr>jn_sm := m'\<rparr>\<rparr>"
      using 2(2) by (auto simp: w_mgr_u_def w_mgr_def simple_host_def bindE_eq_Inr split: sum.splits prod.splits)
    have "outer.W v w'"
      using hoare_Inr [OF outer.calls.out_state(2) p(1) 2(2)] .
    moreover have "ss_bal L (ss_cur m') = bal_of w2"
      using simple_balances(2) [OF _ tx_codec m'(1)] outer.world_SI [OF p(1)] by (simp add: on_base_def)
    ultimately show ?thesis using b2 p(3) m'(2) by simp
  qed (rule same)
qed

lemma authorizations_ok:
  assumes "run_authorizations V opts caller ds refund w = (Inr x, w')" and "outer.W v w"
  shows "outer.W v w' \<and> bal_of w' = bal_of w \<and> wd_transient w' = wd_transient w"
  using assms
proof (induction ds arbitrary: w refund)
  case Nil
  then show ?case by simp
next
  case (Cons d ds)
  show ?case
  proof (cases "(V, opts, caller, d # ds, refund)" rule: run_authorizations.cases)
    case (2 V1 opts1 caller1 c a n y r s ds1 refund1)
    then obtain au x1 w1 where step: "(case au of None \<Rightarrow> retS 0 | Some au \<Rightarrow> delegate V opts caller au a n) w = (Inr x1, w1)"
      "run_authorizations V opts caller ds (refund + x1) w1 = (Inr x, w')"
      using Cons.prems(1) by (auto simp: bindS_Inr liftS_def)
    have "outer.W v w1 \<and> bal_of w1 = bal_of w \<and> wd_transient w1 = wd_transient w"
      using step(1) Cons.prems(2) delegate_ok by (cases au) auto
    with Cons.IH [OF step(2)] show ?thesis by simp
  qed (use Cons.prems(1) in simp_all)
qed

lemma prepare_ok:
  assumes w: "outer.W v w" and t: "tx_fine (ro_tx opts)" and m: "market_fine V opts"
    and r: "prepare_tx V opts w = (Inr (caller, deal, refund), w')"
  shows "outer.W v w'" and "wd_transient w' = wd_transient w"
    and "\<not> ro_skipBalance opts \<Longrightarrow> bought opts caller deal (bal_of w) (bal_of w')"
    and "check_gas V opts = Inr (gd_gasLimit deal) \<and> gd_txCost deal = tx_gasLimit (ro_tx opts) * gd_gasPrice deal \<and>
      gas_price V opts = Inr (gd_gasPrice deal, gd_inclusion deal) \<and>
      blob_terms V opts = Inr (gd_blobGas deal, gd_blobPrice deal)"
    and "getSenderAddress L (tv_crypto V0) (tx_rules opts) (ro_tx opts) = Inr caller"
proof -
  have warm: "outer.W v w1 \<Longrightarrow> warm_addresses V opts caller w1 = (Inr u, w2) \<Longrightarrow>
      outer.W v w2 \<and> state_of w2 = state_of w1 \<and> wd_transient w2 = wd_transient w1" for w1 w2 u
    using warming_addresses [of V opts caller] same_core_world unfolding warming_def
    by (fastforce simp: same_core_def)
  from r obtain u w1 g w2 where c: "getSenderAddress L (tv_crypto V0) (tx_rules opts) (ro_tx opts) = Inr caller"
    "warm_addresses V opts caller w = (Inr u, w1)" "check_gas V opts = Inr g" "buy_gas V opts caller g w1 = (Inr deal, w2)"
    "authorizations V opts caller w2 = (Inr refund, w')"
    by (auto simp: prepare_tx_def Let_def bindS_Inr liftS_def split: if_splits)
  note w1 = warm [OF w c(2)]
  then have W1: "outer.W v w1" by blast
  note b = buy_gas_ok [OF W1 t m c(4)]
  have a: "outer.W v w' \<and> bal_of w' = bal_of w2 \<and> wd_transient w' = wd_transient w2"
    using c(5) authorizations_ok b(1) by (auto simp: authorizations_def split: if_splits)
  show "outer.W v w'" "wd_transient w' = wd_transient w" using a b(2) w1 by auto
  show "\<not> ro_skipBalance opts \<Longrightarrow> bought opts caller deal (bal_of w) (bal_of w')" using a b(3) w1 by simp
  show "check_gas V opts = Inr (gd_gasLimit deal) \<and> gd_txCost deal = tx_gasLimit (ro_tx opts) * gd_gasPrice deal \<and>
      gas_price V opts = Inr (gd_gasPrice deal, gd_inclusion deal) \<and>
      blob_terms V opts = Inr (gd_blobGas deal, gd_blobPrice deal)" using b(4) c(3) by simp
  show "getSenderAddress L (tv_crypto V0) (tx_rules opts) (ro_tx opts) = Inr caller" by (rule c(1))
qed

section \<open>The message\<close>

lemma outer_call:
  assumes "outer.W v w" and "0 \<le> mg_value message" and "fresh_transient w" and "runCall n H message w = (Inr res, w')"
  shows "outer.W v w'"
  using outer.runCall_ok [OF assms(1,2) _ assms(4)] assms(3) unfolding fresh_transient_def by blast

end

lemma tx_host_simple:
  "\<exists>H'. tx_host (simple_vm L V) opts caller gasPrice = simple_host L H' \<and> ho_hardfork H' = ho_hardfork (tv_host V)"
  by (rule exI [of _ "(tv_host V)\<lparr>ho_txGasPrice := gasPrice, ho_txOrigin := caller,
      ho_block := (case ro_block opts of None \<Rightarrow> ho_block (tv_host V) | Some b \<Rightarrow> tb_env b)\<rparr>"],
      cases "tv_host V") (simp add: tx_host_def simple_host_def split: option.split)

text \<open>The message of a transaction that was admitted runs to a result with the fuel \<open>n\<close>.\<close>

definition message_returns :: "nat \<Rightarrow> ('m, 'w) txvm \<Rightarrow> runtx_opts \<Rightarrow> ('m, 'w) world \<Rightarrow> bool" where
  "message_returns n V opts w \<longleftrightarrow> (\<forall>caller deal refund w1. prepare_tx V opts w = (Inr (caller, deal, refund), w1) \<longrightarrow>
     (\<exists>res w2. run_message_of n V opts caller deal w1 = (Inr res, w2)))"

text \<open>The message of a transaction that was admitted throws \<open>e\<close> instead of giving a result.\<close>

definition message_throws :: "nat \<Rightarrow> ('m, 'w) txvm \<Rightarrow> runtx_opts \<Rightarrow> ('m, 'w) world \<Rightarrow> js_error \<Rightarrow> bool" where
  "message_throws n V opts w e \<longleftrightarrow> (\<exists>w0 caller deal refund w1 w2. open_tx V opts w = (Inr (), w0)
     \<and> prepare_tx V opts w0 = (Inr (caller, deal, refund), w1)
     \<and> run_message_of n V opts caller deal w1 = (Inl e, w2))"

lemma no_throw_returns:
  assumes "\<And>e. \<not> message_throws n V opts w e" and "open_tx V opts w = (Inr (), w0)"
  shows "message_returns n V opts w0"
  unfolding message_returns_def
proof (intro allI impI)
  fix caller deal refund w1 assume p: "prepare_tx V opts w0 = (Inr (caller, deal, refund), w1)"
  show "\<exists>res w2. run_message_of n V opts caller deal w1 = (Inr res, w2)"
  proof (cases "run_message_of n V opts caller deal w1")
    case (Pair x w2)
    then have "x \<noteq> Inl e" for e using assms p unfolding message_throws_def by blast
    then show ?thesis using Pair by (cases x) auto
  qed
qed

text \<open>Between transactions: the journal is clean, transient storage empty, and no balance negative.\<close>

definition idle :: "lib \<Rightarrow> ss_view list \<Rightarrow> (simple_state, 'w) world \<Rightarrow> bool" where
  "idle L base w \<longleftrightarrow> at_state base w \<and> jn_touched (wd_journal w) = [] \<and> funded (ss_bal L) (ss_cur (state_of w)) \<and> fresh_transient w"

definition items_fine :: "runtx_opts \<Rightarrow> bool" where
  "items_fine opts \<longleftrightarrow> (\<forall>d\<in>set (access_items (tx_accessList (ro_tx opts))). \<exists>p. item_parts d = Inr p)"

context simple_tx begin

lemma message_kept:
  assumes "outer.W v w" and "fresh_transient w" and "\<not> ho_eip (tv_host V0) 7864"
    and "run_message_of n V opts caller deal w = (Inr res, w')"
  shows "outer.W v w'"
proof -
  from tx_host_simple [of L V0 opts caller "gd_gasPrice deal"] obtain H' where
    H': "tx_host V opts caller (gd_gasPrice deal) = simple_host L H'" "ho_hardfork H' = ho_hardfork (tv_host V0)" by blast
  have sim: "simple_tx L (V0\<lparr>tv_host := H'\<rparr>)"
    using tx_codec tx_own_errors tx_later H'(2) by (intro simple_tx.intro) simp_all
  from assms(3,4) obtain m where m: "message_new (tx_message opts caller (gd_gasLimit deal)) = Inr m"
    "runCall n (simple_host L H') m w = (Inr res, w')"
    by (auto simp: run_message_of_def start_message_def bindS_Inr liftS_def H'(1))
  have "0 \<le> mg_value m" using m(1) by (auto simp: message_new_def split: if_splits)
  from simple_tx.outer_call [OF sim assms(1) this assms(2)] m(2) show ?thesis by simp
qed

lemma outer_state:
  assumes "outer.W v w"
  shows "at_state (map snd (fst v) @ base) w"
proof -
  let ?j = "wd_journal w"
  have a: "on_base ss_inv ss_saved base (state_of w)" "jn_height ?j = int (length (above_base ss_saved base (state_of w)))"
    "fst v = jn_saved (above_base ss_saved base) ?j"
    using assms by (auto simp: world_at_def world_ok_def jn_inv_def world_saved_def)
  then have "map snd (fst v) = above_base ss_saved base (state_of w)" by (simp add: jn_saved_def)
  moreover have "ss_inv (state_of w)" "ss_saved (state_of w) = above_base ss_saved base (state_of w) @ base"
    using on_baseD [OF a(1)] by blast+
  ultimately show ?thesis by (simp add: at_state_def)
qed

section \<open>From the start to the end\<close>

lemma revert_state:
  assumes "at_state (q # S) w"
  shows "\<exists>w'. w_journal (jn_revert (simple_mgr L)) w = (Inr (), w') \<and> at_state S w' \<and> ss_cur (state_of w') = q
    \<and> wd_transient w' = wd_transient w"
proof -
  from simple.rvt_law [of "state_of w" q S] assms obtain m where
    "ss_revert (state_of w) = Inr m" "ss_inv m" "ss_cur m = q" "ss_saved m = S" by (auto simp: at_state_def)
  then show ?thesis
    by (auto simp: w_journal_def jn_revert_def Let_def simple_mgr_def at_state_def split: prod.split)
qed

lemma commit_state:
  assumes "at_state (q # S) w"
  shows "\<exists>w'. w_journal (jn_commit (simple_mgr L)) w = (Inr (), w') \<and> at_state S w' \<and> ss_cur (state_of w') = ss_cur (state_of w)"
proof -
  from simple.com_law [of "state_of w" q S] assms obtain m where
    "ss_commit (state_of w) = Inr m" "ss_inv m" "ss_cur m = ss_cur (state_of w)" "ss_saved m = S" by (auto simp: at_state_def)
  then show ?thesis by (auto simp: w_journal_def jn_commit_def Let_def simple_mgr_def at_state_def)
qed

lemma finally_state: "at_state S (finally_tx V w) = at_state S w" "ss_cur (state_of (finally_tx V w)) = ss_cur (state_of w)"
  by (auto simp: finally_tx_def at_state_def simple_vm_def Let_def jn_cleanJournal_def ss_inv_def ss_saved_def ss_cur_def)

lemma close_ok:
  assumes "m w = (r, w1)" and "at_state (q # S) w1" and "close_tx V m w = (r', w')"
  shows "r' = r \<and> at_state S w' \<and> ss_cur (state_of w') = (case r of Inl _ \<Rightarrow> q | Inr _ \<Rightarrow> ss_cur (state_of w1))"
  using revert_state [OF assms(2)] commit_state [OF assms(2)] assms(1,3)
  by (cases r) (auto simp: close_tx_def finally_state)

lemma cleanup_idle:
  assumes "idle L base w"
  shows "\<exists>w1. w_cleanup V w = (Inr (), w1) \<and> state_of w1 = state_of w \<and> wd_transient w1 = wd_transient w
    \<and> jn_inv (on_base ss_inv ss_saved base) (above_base ss_saved base) (wd_journal w1)"
proof -
  have "above_base ss_saved base (state_of w) = []" "on_base ss_inv ss_saved base (state_of w)"
    using assms above_append [of ss_saved "state_of w" "[]" base] on_baseI [of ss_inv "state_of w" ss_saved "[]" base]
    by (auto simp: idle_def at_state_def)
  then show ?thesis using assms
    by (auto simp: w_cleanup_def w_journal_def jn_cleanup_def idle_def jn_cleanJournal_def jn_inv_def)
qed

lemma open_ok:
  assumes "idle L base w" and rep: "\<not> ro_reportAccessList opts" "\<not> ro_reportPreimages opts" and items: "items_fine opts"
    and r: "open_tx V opts w = (r, w')"
  shows "case r of Inl e \<Rightarrow> at_state base w' \<and> ss_cur (state_of w') = ss_cur (state_of w)
    | Inr _ \<Rightarrow> state_of w' = ss_checkpoint (state_of w) \<and> fresh_transient w' \<and>
        (\<exists>v. outer.W v w' \<and> map snd (fst v) = [ss_cur (state_of w)])"
proof (cases "admit_tx V opts")
  case (Inl e)
  then have "r = Inl e" "w' = w" using r by (simp_all add: open_tx_def bindS_lift failS_def)
  then show ?thesis using assms(1) by (simp add: idle_def)
next
  case (Inr u)
  from cleanup_idle [OF assms(1)] obtain w1 where w1: "w_cleanup V w = (Inr (), w1)" "state_of w1 = state_of w"
    "wd_transient w1 = wd_transient w" "jn_inv (on_base ss_inv ss_saved base) (above_base ss_saved base) (wd_journal w1)"
    by blast
  let ?w2 = "w1\<lparr>wd_journal := jn_checkpoint (simple_mgr L) (wd_journal w1)\<rparr>"
  have t: "typed_setup V opts ?w2 = (r, w')"
    using r Inr w1(1) rep by (simp add: open_tx_def bindS_lift bindS_def whenS_def retS_def w_jmod_def w_journal_def)
  note c = outer.jn_chk_law [OF w1(4)]
  let ?v = "world_saved (above_base ss_saved base) ?w2"
  have sm: "state_of ?w2 = ss_checkpoint (state_of w)" using w1(2) by (simp add: jn_checkpoint_def Let_def simple_mgr_def)
  have "jn_saved (above_base ss_saved base) (wd_journal w1) = []"
    using w1(2) assms(1) above_append [of ss_saved "state_of w" "[]" base] by (simp add: jn_saved_def idle_def at_state_def)
  then have v: "fst ?v = [jn_cur ss_cur (wd_journal w1)]" using c by (simp add: world_saved_def)
  have q: "snd (jn_cur ss_cur (wd_journal w1)) = ss_cur (state_of w)" using w1(2) by (simp add: jn_cur_def)
  have cur: "ss_cur (state_of ?w2) = ss_cur (state_of w)" using c w1(2) by (simp add: jn_cur_def)
  have W2: "outer.W ?v ?w2"
    using c assms(1) w1(3) v q cur by (auto simp: world_at_def world_ok_def idle_def fresh_transient_def)
  have fr: "fresh_transient ?w2" using assms(1) w1(3) by (simp add: idle_def fresh_transient_def)
  have at: "at_state (ss_cur (state_of w) # base) ?w2" using outer_state [OF W2] v q by simp
  consider msg where "typed_setup V opts = thenS (w_journal (jn_revert (simple_mgr L))) (failS (Throw msg))"
    | "typed_setup V opts = retS ()" | "typed_setup V opts = warm_access_list L (access_items (tx_accessList (ro_tx opts)))"
    unfolding typed_setup_def simple_vm_sel Let_def by metis
  then show ?thesis
  proof cases
    case 1
    from revert_state [OF at] obtain w3 where "w_journal (jn_revert (simple_mgr L)) ?w2 = (Inr (), w3)" "at_state base w3"
      "ss_cur (state_of w3) = ss_cur (state_of w)" by blast
    then show ?thesis using t 1 by (auto simp: bindS_def failS_def)
  next
    case 2
    then have "r = Inr ()" "w' = ?w2" using t by (simp_all add: retS_def)
    moreover have "\<exists>v. outer.W v ?w2 \<and> map snd (fst v) = [ss_cur (state_of w)]"
      by (rule exI [of _ ?v]) (use W2 v q in simp)
    ultimately show ?thesis using sm fr by simp
  next
    case 3
    have "\<exists>u w3. warm_access_list L ds w = (Inr u, w3)" if "\<forall>d\<in>set ds. \<exists>p. item_parts d = Inr p" for ds and w :: "(simple_state, 'w) world"
      using that by (induction ds arbitrary: w) (auto simp: Let_def bindS_def w_jmod_def w_journal_def retS_def liftS_def)
    then obtain u where ok: "r = Inr u" using t 3 items unfolding items_fine_def by (metis prod.inject)
    from warming_list [of L "access_items (tx_accessList (ro_tx opts))"] t 3 obtain j where
      j: "same_core (wd_journal ?w2) j" "w' = ?w2\<lparr>wd_journal := j\<rparr>" unfolding warming_def by metis
    have "outer.W ?v w'" unfolding j(2) by (rule same_core_world [OF W2 j(1)])
    moreover have "state_of w' = ss_checkpoint (state_of w)" "fresh_transient w'"
      using j sm fr by (simp_all add: same_core_def fresh_transient_def)
    moreover have "\<exists>v. outer.W v w' \<and> map snd (fst v) = [ss_cur (state_of w)]"
      by (rule exI [of _ ?v]) (use calculation v q in simp)
    ultimately show ?thesis using ok by simp
  qed
qed

text \<open>The \<open>try\<close> block leaves the checkpoint of the transaction on top, whatever its outcome.\<close>

lemma inner_ok:
  assumes w: "outer.W v w" "fresh_transient w" and e: "\<not> ho_eip (tv_host V0) 7864"
    and t: "tx_fine (ro_tx opts)" "market_fine V opts" and runs: "message_returns n V opts w"
    and r: "runTx_inner n V opts w = (r, w')"
  shows "at_state (map snd (fst v) @ base) w'"
proof -
  let ?S = "map snd (fst v) @ base"
  obtain p w1 where p: "prepare_tx V opts w = (p, w1)" by fastforce
  show ?thesis
  proof (cases p)
    case (Inl x)
    have "at_state ?S w1"
      by (rule at_kept [OF kept_prepare p outer_state [OF w(1)]])
    then show ?thesis using r p Inl by (simp add: runTx_inner_def bindS_def)
  next
    case (Inr x)
    then obtain caller deal refund where x: "p = Inr (caller, deal, refund)" by (cases x) simp
    with runs p obtain res w2 where m: "run_message_of n V opts caller deal w1 = (Inr res, w2)"
      unfolding message_returns_def by blast
    note q = prepare_ok [OF w(1) t p [unfolded x]]
    have "outer.W v w2" using message_kept [OF q(1) _ e m] q(2) w(2) by (simp add: fresh_transient_def)
    note s = outer_state [OF this]
    have "settle_tx V opts caller deal refund res w2 = (r, w')"
      using r p x m by (simp add: runTx_inner_def bindS_def)
    from at_kept [OF kept_settle this s] show ?thesis .
  qed
qed

lemma runTx_ok:
  assumes i: "idle L base w" and e: "\<not> ho_eip (tv_host V0) 7864" "\<not> ro_reportAccessList opts" "\<not> ro_reportPreimages opts"
    and t: "tx_fine (ro_tx opts)" "market_fine V opts" "items_fine opts"
    and runs: "\<And>w1. open_tx V opts w = (Inr (), w1) \<Longrightarrow> message_returns n V opts w1"
    and r: "runTx n V opts w = (r, w')"
  shows "at_state base w' \<and> (\<forall>x. r = Inl x \<longrightarrow> ss_cur (state_of w') = ss_cur (state_of w))"
proof -
  obtain p w1 where p: "open_tx V opts w = (p, w1)" by fastforce
  note o1 = open_ok [OF i e(2,3) t(3) p]
  show ?thesis
  proof (cases p)
    case (Inl x)
    then show ?thesis using o1 r p by (simp add: runTx_def bindS_def)
  next
    case (Inr u)
    then obtain v where v: "outer.W v w1" "map snd (fst v) = [ss_cur (state_of w)]" "fresh_transient w1" using o1 by auto
    obtain r1 w2 where m: "runTx_inner n V opts w1 = (r1, w2)" by fastforce
    have "at_state (ss_cur (state_of w) # base) w2"
      using inner_ok [OF v(1,3) e(1) t(1,2) runs m] p Inr v(2) by simp
    moreover have "close_tx V (runTx_inner n V opts) w1 = (r, w')" using r p Inr by (simp add: runTx_def bindS_def)
    ultimately show ?thesis using close_ok [of "runTx_inner n V opts" w1 r1 w2 "ss_cur (state_of w)" base r w'] m by auto
  qed
qed

text \<open>A message that throws makes \<open>runTx\<close> throw; where the transaction paid, the error is not the
  virtual machine's own.\<close>

lemma throws_error:
  assumes "message_throws n V opts w e" and "runTx n V opts w = (r, w')"
  shows "\<exists>x. r = Inl x"
proof -
  from assms(1) obtain w0 caller deal refund w1 w2 where o: "open_tx V opts w = (Inr (), w0)"
    "prepare_tx V opts w0 = (Inr (caller, deal, refund), w1)" "run_message_of n V opts caller deal w1 = (Inl e, w2)"
    unfolding message_throws_def by blast
  have "runTx_inner n V opts w0 = (Inl e, w2)" using o(2,3) by (simp add: runTx_inner_def bindS_def)
  then have "\<exists>x. fst (close_tx V (runTx_inner n V opts) w0) = Inl x"
    by (auto simp: close_tx_def split: sum.split prod.split)
  moreover have "runTx n V opts w = close_tx V (runTx_inner n V opts) w0" using o(1) by (simp add: runTx_def bindS_def)
  ultimately show ?thesis using assms(2) by (metis fst_conv)
qed

lemma outer_call_error:
  assumes "outer.W v w" "fresh_transient w" "runCall n H msg w = (Inl e, w')" "0 \<le> mg_value msg"
    and "mg_to msg = None \<Longrightarrow> \<exists>b. bal_of w (mg_caller msg) = Some b \<and> mg_value msg \<le> b"
  shows "thrown e"
  by (rule outer.first_call_error [OF assms(1) _ _ assms(3) _ assms(4)])
    (use assms(2,5) in \<open>auto simp: fresh_transient_def outer.payable_def\<close>)

lemma message_thrown:
  assumes w: "outer.W v w" "fresh_transient w" and e: "\<not> ho_eip (tv_host V0) 7864"
    and b: "bought opts caller deal old (bal_of w)"
    and r: "run_message_of n V opts caller deal w = (Inl x, w')"
  shows "thrown x"
proof -
  from tx_host_simple [of L V0 opts caller "gd_gasPrice deal"] obtain H' where
    H': "tx_host V opts caller (gd_gasPrice deal) = simple_host L H'" "ho_hardfork H' = ho_hardfork (tv_host V0)" by blast
  have sim: "simple_tx L (V0\<lparr>tv_host := H'\<rparr>)"
    using tx_codec tx_own_errors tx_later H'(2) by (intro simple_tx.intro) simp_all
  let ?m = "tx_message opts caller (gd_gasLimit deal)"
  show ?thesis
  proof (cases "mg_value ?m < 0")
    case True
    then have "x = Throw ''value field cannot be negative''" using r e
      by (simp add: run_message_of_def start_message_def message_new_def bindS_def liftS_def)
    then show ?thesis by simp
  next
    case False
    then have c: "runCall n (simple_host L H') ?m w = (Inl x, w')" using r e
      by (simp add: run_message_of_def start_message_def message_new_def bindS_def liftS_def H'(1))
    have "mg_caller ?m = caller" "mg_value ?m = tx_value (ro_tx opts)" by (simp_all add: tx_message_def Let_def)
    then have "\<exists>b. bal_of w (mg_caller ?m) = Some b \<and> mg_value ?m \<le> b" using b by (auto simp: bought_def)
    with simple_tx.outer_call_error [OF sim w(1,2), of n ?m x w'] c False show ?thesis by simp
  qed
qed

lemma throws_thrown:
  assumes i: "idle L base w" and e: "\<not> ho_eip (tv_host V0) 7864" "\<not> ro_reportAccessList opts" "\<not> ro_reportPreimages opts"
    and t: "tx_fine (ro_tx opts)" "market_fine V opts" "items_fine opts"
    and s: "\<not> ro_skipBalance opts" and x: "message_throws n V opts w x"
  shows "thrown x"
proof -
  from x obtain w0 caller deal refund w1 w2 where o: "open_tx V opts w = (Inr (), w0)"
    "prepare_tx V opts w0 = (Inr (caller, deal, refund), w1)" "run_message_of n V opts caller deal w1 = (Inl x, w2)"
    unfolding message_throws_def by blast
  from open_ok [OF i e(2,3) t(3) o(1)] obtain v where v: "outer.W v w0" "fresh_transient w0" by auto
  note q = prepare_ok [OF v(1) t(1,2) o(2)]
  have "fresh_transient w1" using q(2) v(2) by (simp add: fresh_transient_def)
  from message_thrown [OF q(1) this e(1) q(3) [OF s] o(3)] show ?thesis .
qed

end

end
