(* ===== verification/RunTxFees.thy ===== *)
theory RunTxFees
  imports RunTxLaws
begin

text \<open>
  What a transaction costs: the gas that is paid for, the balances of the sender and of the miner, and
  the claims on \<open>runTx\<close>.
\<close>

section \<open>Balances\<close>

definition add_bal :: "u8 list \<Rightarrow> int \<Rightarrow> (u8 list \<Rightarrow> int option) \<Rightarrow> u8 list \<Rightarrow> int option" where
  "add_bal a x bal = bal(a := map_option (\<lambda>b. b + x) (bal a))"

text \<open>The accounts that the transaction destroyed.\<close>

definition destroyed :: "('m, 'w) txvm \<Rightarrow> exec_result \<Rightarrow> u8 list set" where
  "destroyed V r = {a. \<exists>s\<in>set (tv_setOrder V (er_selfdestruct r)). bindE (hexToBytes (ho_lib (tv_host V)) s) address_new = Inr a}"

lemma ss_bal_write:
  assumes "lib_ok L" and "ss_inv m"
  shows "ss_act L (SsPut a acc) m = Inr m' \<Longrightarrow>
      ss_bal L (ss_cur m') = (ss_bal L (ss_cur m))(a := ac_balance (case acc of None \<Rightarrow> default_account | Some x \<Rightarrow> x))"
    and "ss_act L (SsDel a) m = Inr m' \<Longrightarrow> ss_bal L (ss_cur m') = (ss_bal L (ss_cur m))(a := Some 0)"
proof -
  obtain A CS where q: "ss_cur m = (A, CS)" by (rule prod.exhaust)
  have key: "bytesToHex L b = bytesToHex L a \<longleftrightarrow> b = a" for b by (rule bytesToHex_inj [OF assms(1)])
  show "ss_bal L (ss_cur m') = (ss_bal L (ss_cur m))(a := ac_balance (case acc of None \<Rightarrow> default_account | Some x \<Rightarrow> x))"
    if "ss_act L (SsPut a acc) m = Inr m'"
  proof -
    have "ss_cur m' = (A(bytesToHex L a := Some acc), CS)"
      using simple_view [OF assms(2) that] q by (cases CS) (simp add: ss_aact_def)
    then show ?thesis by (simp add: q ss_bal_def fun_eq_iff key)
  qed
  show "ss_bal L (ss_cur m') = (ss_bal L (ss_cur m))(a := Some 0)" if "ss_act L (SsDel a) m = Inr m'"
  proof -
    have "ss_cur m' = (A(bytesToHex L a := Some None), CS)"
      using simple_view [OF assms(2) that] q by (cases CS) (simp add: ss_aact_def)
    then show ?thesis by (simp add: q ss_bal_def fun_eq_iff key default_account_def)
  qed
qed

lemma isEmpty_balance: "account_isEmpty x = Inr True \<Longrightarrow> ac_balance x = Some 0"
  by (auto simp: account_isEmpty_def bindE_eq_Inr loaded_def split: if_splits option.splits)

context simple_tx begin

lemma pay_balance:
  assumes "at_state S w" and "pay V a x w = (Inr u, w')"
  shows "at_state S w' \<and> (\<exists>y. x = Inr y \<and> bal_of w' = add_bal a y (bal_of w))"
proof -
  from assms(2) obtain y b where
    b: "x = Inr y" "ac_balance (account_at L w a) = Some b" and
    p: "w_putAccount H a (set_balance (b + y) (account_at L w a)) w = (Inr u, w')"
    by (auto simp: pay_def bindS_Inr account_read liftS_def loaded_def split: option.splits)
  from p obtain j where
    j: "jn_putAccount L (simple_mgr L) a (Some (set_balance (b + y) (account_at L w a))) (wd_journal w) = Inr j"
      "w' = w\<lparr>wd_journal := j\<rparr>"
    by (auto simp: w_putAccount_def w_journal_def split: sum.splits)
  note act = put_state [OF j(1)]
  have i: "ss_inv (state_of w)" using assms(1) by (simp add: at_state_def)
  show ?thesis
    using simple_act [OF i act] ss_bal_write(1) [OF tx_codec i act] assms(1) b account_at_balance [of L w a]
    by (auto simp: at_state_def j(2) add_bal_def)
qed

lemma delete_balance:
  assumes "ss_inv (jn_sm j)" and "jn_deleteAccount L (simple_mgr L) a j = Inr j'"
  shows "ss_inv (jn_sm j')" and "ss_bal L (ss_cur (jn_sm j')) = (ss_bal L (ss_cur (jn_sm j)))(a := Some 0)"
  using simple_act [OF assms(1) delete_state [OF assms(2)]] ss_bal_write(2) [OF tx_codec assms(1) delete_state [OF assms(2)]]
  by blast+

text \<open>An account that is cleaned away was empty: its balance was 0 before.\<close>

lemma cleanup_balance:
  assumes "jn_cleanup_loop L (simple_mgr L) as j = Inr j'" and "ss_inv (jn_sm j)"
  shows "ss_bal L (ss_cur (jn_sm j')) = ss_bal L (ss_cur (jn_sm j))"
  using assms
proof (induction as arbitrary: j)
  case (Cons a as)
  from Cons.prems(1) obtain addr e j1 where
    e: "(case ss_getAccount L addr (jn_sm j) of None \<Rightarrow> Inr True | Some x \<Rightarrow> account_isEmpty x) = Inr e" and
    j1: "(if e then jn_deleteAccount L (simple_mgr L) addr j else Inr j) = Inr j1"
    "jn_cleanup_loop L (simple_mgr L) as j1 = Inr j'" by (rule cleanup_step)
  have b: "ss_bal L (ss_cur (jn_sm j)) addr =
      ac_balance (case ss_getAccount L addr (jn_sm j) of None \<Rightarrow> default_account | Some x \<Rightarrow> x)"
    by (simp add: ss_bal_def ss_getAccount_def ss_cur_def)
  have "ss_inv (jn_sm j1) \<and> ss_bal L (ss_cur (jn_sm j1)) = ss_bal L (ss_cur (jn_sm j))"
  proof (cases e)
    case True
    then have "ss_bal L (ss_cur (jn_sm j)) addr = Some 0"
      using e b isEmpty_balance by (auto simp: default_account_def split: option.splits)
    then show ?thesis using delete_balance [OF Cons.prems(2), of addr j1] j1(1) True by (auto simp: fun_eq_iff)
  qed (use j1(1) Cons.prems(2) in simp)
  with Cons.IH [OF j1(2)] show ?case by simp
qed simp

lemma w_cleanup_balance:
  assumes "at_state S w" and "w_cleanup V w = (Inr u, w')"
  shows "bal_of w' = bal_of w"
  using assms cleanup_balance [of "jn_touched (wd_journal w)" "wd_journal w"]
  by (auto simp: w_cleanup_def w_journal_def jn_cleanup_def bindE_eq_Inr jn_cleanJournal_def at_state_def
      split: sum.splits if_splits)

lemma destroyed_balance:
  assumes "at_state S w" and "delete_destroyed V created as w = (Inr u, w')"
    and "\<forall>s\<in>set as. bindE (hexToBytes L s) address_new \<noteq> Inr a"
  shows "bal_of w' a = bal_of w a"
  using assms
proof (induction as arbitrary: w)
  case (Cons s as)
  from Cons.prems(2) obtain b w1 where
    b: "bindE (hexToBytes L s) address_new = Inr b" "delete_destroyed V created as w1 = (Inr u, w')" and
    w1: "w1 = w \<or> (\<exists>x. w_journal (jn_deleteAccount L (simple_mgr L) b) w = (Inr x, w1))"
    by (auto simp: bindS_Inr liftS_def split: if_splits)
  have "at_state S w1 \<and> bal_of w1 a = bal_of w a"
  proof (cases "w1 = w")
    case False
    with w1 obtain x where x: "w_journal (jn_deleteAccount L (simple_mgr L) b) w = (Inr x, w1)" by blast
    then obtain j where j: "jn_deleteAccount L (simple_mgr L) b (wd_journal w) = Inr j" "w1 = w\<lparr>wd_journal := j\<rparr>"
      by (auto simp: w_journal_def split: sum.splits)
    have "a \<noteq> b" using b(1) Cons.prems(3) by auto
    then show ?thesis
      using at_kept [OF kept_delete x Cons.prems(1)] delete_balance(2) [OF _ j(1)] Cons.prems(1) j(2)
      by (simp add: at_state_def)
  qed (use Cons.prems(1) in simp)
  with Cons.IH [OF _ b(2)] Cons.prems(3) show ?case by simp
qed simp

lemma settle_ok:
  assumes w: "at_state S w" and r: "settle_tx V opts caller deal refund result w = (Inr res, w')"
  shows "at_state S w'" and "rr_evm res = result"
    and "settle_gas V opts refund (ev_exec result) = Inr (rr_totalGasSpent res, rr_gasRefund res)"
    and "rr_amountSpent res = rr_totalGasSpent res * gd_gasPrice deal"
    and "miner_value V deal (rr_totalGasSpent res) = Inr (rr_minerValue res)"
    and "a \<notin> destroyed V (ev_exec result) \<Longrightarrow> bal_of w' a =
      add_bal (miner_of V opts) (rr_minerValue res) (add_bal caller (gd_txCost deal - rr_amountSpent res) (bal_of w)) a"
proof -
  let ?r = "ev_exec result"
  from r obtain bloom spent ref u1 w1 u2 w2 u3 w3 u4 w4 u5 w5 receipt where
    c: "settle_gas V opts refund ?r = Inr (spent, ref)"
      "pay V caller (Inr (gd_txCost deal - spent * gd_gasPrice deal)) w = (Inr u1, w1)"
      "pay V (miner_of V opts) (miner_value V deal spent) w1 = (Inr u2, w2)"
      "delete_destroyed V (er_createdAddresses ?r) (tv_setOrder V (er_selfdestruct ?r)) w2 = (Inr u3, w3)"
      "w_cleanup V w3 = (Inr u4, w4)" "w_mgr_u (\<lambda>m. Inr (tv_clearOriginal V m)) w4 = (Inr u5, w5)"
      "generateTxReceipt V (ro_tx opts) ?r bloom (cumulative_gas V opts spent) (gd_blobGas deal) (gd_blobPrice deal) w5 = (Inr receipt, w')" and
    d: "res = \<lparr>rr_evm = result, rr_bloom = bloom, rr_totalGasSpent = spent, rr_gasRefund = ref,
       rr_amountSpent = spent * gd_gasPrice deal,
       rr_minerValue = (case miner_value V deal spent of Inr v \<Rightarrow> v | Inl _ \<Rightarrow> 0),
       rr_blobGasUsed = (if tx_kind (ro_tx opts) = BlobEIP4844 then Some (gd_blobGas deal) else None),
       rr_receipt = receipt\<rparr>"
    unfolding settle_tx_def Let_def bindS_Inr liftS_def split_beta by auto
  note p1 = pay_balance [OF w c(2)]
  then have s1: "at_state S w1" by blast
  note p2 = pay_balance [OF s1 c(3)]
  then have s2: "at_state S w2" by blast
  have s3: "at_state S w3" by (rule at_kept [OF kept_destroyed c(4) s2])
  have b4: "bal_of w4 = bal_of w3" by (rule w_cleanup_balance [OF s3 c(5)])
  have b5: "bal_of w5 = bal_of w4"
    using c(6) by (auto simp: w_mgr_u_def w_mgr_def simple_vm_def ss_cur_def)
  have b6: "bal_of w' = bal_of w5"
    using c(7) by (auto simp: generateTxReceipt_def Let_def bindS_Inr w_mgr_def simple_vm_def split: if_splits)
  show "at_state S w'" by (rule at_kept [OF kept_settle r w])
  show "rr_evm res = result" "rr_amountSpent res = rr_totalGasSpent res * gd_gasPrice deal"
    "settle_gas V opts refund ?r = Inr (rr_totalGasSpent res, rr_gasRefund res)"
    "miner_value V deal (rr_totalGasSpent res) = Inr (rr_minerValue res)" using c(1) d p2 by auto
  show "bal_of w' a = add_bal (miner_of V opts) (rr_minerValue res) (add_bal caller (gd_txCost deal - rr_amountSpent res) (bal_of w)) a"
    if "a \<notin> destroyed V ?r"
  proof -
    have "bal_of w3 a = bal_of w2 a" by (rule destroyed_balance [OF s2 c(4)]) (use that in \<open>auto simp: destroyed_def\<close>)
    with b4 b5 b6 p1 p2 d show ?thesis by auto
  qed
qed

lemma succeeds:
  assumes i: "idle L base w" and e: "\<not> ho_eip (tv_host V0) 7864" "\<not> ro_reportAccessList opts" "\<not> ro_reportPreimages opts"
    and t: "tx_fine (ro_tx opts)" "market_fine V opts" "items_fine opts"
    and o: "open_tx V opts w = (Inr (), w0)"
  shows "runTx n V opts w = (Inr res, w') \<Longrightarrow> \<exists>w3. runTx_inner n V opts w0 = (Inr res, w3) \<and> ss_cur (state_of w') = ss_cur (state_of w3)"
    and "runTx_inner n V opts w0 = (Inr res, w3) \<Longrightarrow> \<exists>w'. runTx n V opts w = (Inr res, w')"
proof -
  from open_ok [OF i e(2,3) t(3) o] obtain v where
    v: "outer.W v w0" "map snd (fst v) = [ss_cur (state_of w)]" "fresh_transient w0" by auto
  have top: "at_state (ss_cur (state_of w) # base) w3"
    if r: "runTx_inner n V opts w0 = (Inr res, w3)" for w3
  proof (rule inner_ok [OF v(1,3) e(1) t(1,2) _ r, unfolded v(2) append_Cons append_Nil])
    from r show "message_returns n V opts w0"
      by (auto simp: message_returns_def runTx_inner_def bindS_Inr)
  qed
  have run: "runTx n V opts w = close_tx V (runTx_inner n V opts) w0" using o by (simp add: runTx_def bindS_def)
  { assume "runTx n V opts w = (Inr res, w')"
    then have c: "close_tx V (runTx_inner n V opts) w0 = (Inr res, w')" using run by simp
    obtain r3 w3 where m: "runTx_inner n V opts w0 = (r3, w3)" by fastforce
    then have "r3 = Inr res" using c by (auto simp: close_tx_def split: sum.splits prod.splits)
    with m have m: "runTx_inner n V opts w0 = (Inr res, w3)" by simp
    from close_ok [of "runTx_inner n V opts", OF m top [OF m] c] m
    show "\<exists>w3. runTx_inner n V opts w0 = (Inr res, w3) \<and> ss_cur (state_of w') = ss_cur (state_of w3)" by auto }
  { assume m: "runTx_inner n V opts w0 = (Inr res, w3)"
    obtain r w' where c: "close_tx V (runTx_inner n V opts) w0 = (r, w')" by fastforce
    from close_ok [of "runTx_inner n V opts", OF m top [OF m] c] c run
    show "\<exists>w'. runTx n V opts w = (Inr res, w')" by auto }
qed

lemma fees:
  assumes i: "idle L base w" and e: "\<not> ho_eip (tv_host V0) 7864" "\<not> ro_reportAccessList opts" "\<not> ro_reportPreimages opts"
    and t: "tx_fine (ro_tx opts)" "market_fine V opts" "items_fine opts" and skip: "\<not> ro_skipBalance opts"
    and r: "runTx n V opts w = (Inr res, w')"
  shows "\<exists>w0 caller deal refund w1 w2. open_tx V opts w = (Inr (), w0)
    \<and> prepare_tx V opts w0 = (Inr (caller, deal, refund), w1) \<and> bought opts caller deal (bal_of w) (bal_of w1)
    \<and> run_message_of n V opts caller deal w1 = (Inr (rr_evm res), w2)
    \<and> (\<forall>a. a \<notin> destroyed V (ev_exec (rr_evm res)) \<longrightarrow> bal_of w' a =
        add_bal (miner_of V opts) (rr_minerValue res) (add_bal caller (gd_txCost deal - rr_amountSpent res) (bal_of w2)) a)
    \<and> gd_txCost deal = tx_gasLimit (ro_tx opts) * gd_gasPrice deal
    \<and> rr_amountSpent res = rr_totalGasSpent res * gd_gasPrice deal
    \<and> (\<forall>f. ho_eip (tv_host V0) 1559 \<and> header_baseFee V opts = Some f \<longrightarrow>
        rr_amountSpent res = rr_minerValue res + rr_totalGasSpent res * f)"
proof -
  from r obtain w0 where o: "open_tx V opts w = (Inr (), w0)" by (auto simp: runTx_def bindS_Inr)
  from open_ok [OF i e(2,3) t(3) o] obtain v where
    v: "outer.W v w0" "state_of w0 = ss_checkpoint (state_of w)" "fresh_transient w0" by auto
  have b0: "bal_of w0 = bal_of w"
    using v(2) simple.chk_law [of "state_of w"] i by (simp add: idle_def at_state_def)
  from succeeds(1) [OF i e t o r] obtain w3 where
    m: "runTx_inner n V opts w0 = (Inr res, w3)" "ss_cur (state_of w') = ss_cur (state_of w3)" by blast
  from m(1) obtain caller deal refund w1 result w2 where
    p: "prepare_tx V opts w0 = (Inr (caller, deal, refund), w1)" and
    x: "run_message_of n V opts caller deal w1 = (Inr result, w2)" and
    s: "settle_tx V opts caller deal refund result w2 = (Inr res, w3)"
    by (auto simp: runTx_inner_def bindS_Inr)
  note q = prepare_ok [OF v(1) t(1,2) p]
  have "outer.W v w2" using message_kept [OF q(1) _ e(1) x] q(2) v(3) by (simp add: fresh_transient_def)
  note z = settle_ok [OF outer_state [OF this] s]
  have "rr_amountSpent res = rr_minerValue res + rr_totalGasSpent res * f"
    if eip: "ho_eip (tv_host V0) 1559" and base: "header_baseFee V opts = Some f" for f
  proof -
    obtain g where g: "gd_inclusion deal = Some g" "rr_minerValue res = rr_totalGasSpent res * g"
      using z(5) eip by (auto simp: miner_value_def split: option.splits)
    have "gd_gasPrice deal = g + f"
      using q(4) g(1) eip base by (auto simp: gas_price_def Let_def bindE_eq_Inr split: if_splits)
    then show ?thesis using z(4) g(2) by (simp add: distrib_left)
  qed
  then show ?thesis using o p x q(3) [OF skip] q(4) z(2,4,6) m(2) b0 by auto
qed

end

section \<open>The gas that is paid for\<close>

lemma settle_gas_paid:
  assumes "0 \<le> used" and "0 < ho_param (tv_host V) ''maxRefundQuotient''"
    and "used = er_executionGasUsed r + getIntrinsicGas (tx_rules opts) (ro_tx opts)"
    and "ref = authRefund + (case er_gasRefund r of None \<Rightarrow> 0 | Some x \<Rightarrow> x)"
    and "paid = (if ref = 0 then used else used - min ref (used div ho_param (tv_host V) ''maxRefundQuotient''))"
  shows "settle_gas V opts authRefund r =
      Inr (if ho_eip (tv_host V) 7623 \<and> paid < minimum_cost V opts then (minimum_cost V opts, 0) else (paid, ref))"
proof -
  have m: "(if x < y then x else y) = min x y" for x y :: int by simp
  show ?thesis
    using assms(1,2) unfolding settle_gas_def Let_def assms(3) [symmetric] assms(4) [symmetric] m
    by (simp add: sdiv_nonneg assms(5))
qed

text \<open>C29. The gas that is paid for is bounded. When the message used no more gas than it was given, the
  total lies between EIP-7623's floor and the gas limit of the transaction, so that the sender gets a
  non-negative part of its prepayment back; and the refund is at most the configured fraction of what
  was used.\<close>

theorem settle_gas_bounds:
  assumes "check_gas V opts = Inr g" and "0 \<le> er_executionGasUsed r" and "er_executionGasUsed r \<le> g"
    and "0 \<le> getIntrinsicGas (tx_rules opts) (ro_tx opts)" and "0 < ho_param (tv_host V) ''maxRefundQuotient''"
    and "0 \<le> authRefund" and "\<forall>x. er_gasRefund r = Some x \<longrightarrow> 0 \<le> x"
  shows "let used = er_executionGasUsed r + getIntrinsicGas (tx_rules opts) (ro_tx opts) in
    \<exists>spent refund. settle_gas V opts authRefund r = Inr (spent, refund) \<and> minimum_cost V opts \<le> spent
    \<and> 0 \<le> spent \<and> spent \<le> tx_gasLimit (ro_tx opts) \<and> 0 \<le> refund
    \<and> used - used div ho_param (tv_host V) ''maxRefundQuotient'' \<le> spent"
proof -
  let ?q = "ho_param (tv_host V) ''maxRefundQuotient''"
  define used where "used = er_executionGasUsed r + getIntrinsicGas (tx_rules opts) (ro_tx opts)"
  define ref where "ref = authRefund + (case er_gasRefund r of None \<Rightarrow> 0 | Some x \<Rightarrow> x)"
  define paid where "paid = (if ref = 0 then used else used - min ref (used div ?q))"
  have u: "0 \<le> used" "used \<le> tx_gasLimit (ro_tx opts)" "minimum_cost V opts \<le> tx_gasLimit (ro_tx opts)"
    "ho_eip (tv_host V) 7623 \<or> minimum_cost V opts = 0"
    using assms(1-4) by (auto simp: used_def check_gas_def Let_def minimum_cost_def split: if_splits)
  have r: "0 \<le> ref" using assms(6,7) by (auto simp: ref_def split: option.splits)
  have d: "0 \<le> used div ?q" "used div ?q \<le> used"
    using u(1) assms(5) zdiv_mono2 [of used 1 ?q] by (simp_all add: pos_imp_zdiv_nonneg_iff)
  have "0 \<le> paid" "paid \<le> used" "used - used div ?q \<le> paid" using d r by (auto simp: paid_def)
  then show ?thesis
    using u r settle_gas_paid [OF u(1) assms(5) used_def ref_def paid_def] by (auto simp: Let_def used_def [symmetric])
qed

section \<open>A transfer\<close>

text \<open>The sender, with 100 wei, sends 3 wei at a price of 2 for each of 10 gas; the rules charge 5.\<close>

definition demo_sender :: "u8 list" where "demo_sender = replicate 20 9"
definition demo_miner :: "u8 list" where "demo_miner = replicate 20 8"

definition demo_to :: "u8 list" where "demo_to = replicate 20 7"

definition demo_tx :: tx where
  "demo_tx = \<lparr>tx_kind = Legacy, tx_chainId = 1, tx_nonce = 0, tx_gasPrice = 2, tx_maxPriorityFeePerGas = 0, tx_maxFeePerGas = 0,
     tx_gasLimit = 10, tx_to = Some demo_to, tx_value = 3, tx_data = [], tx_accessList = DList [],
     tx_maxFeePerBlobGas = 0, tx_blobVersionedHashes = [], tx_authorizationList = DList [], tx_v = Some 27, tx_r = Some 1,
     tx_s = Some 1, tx_capabilities = []\<rparr>"

definition demo_common :: common where
  "demo_common = \<lparr>cm_param = (\<lambda>_. 5), cm_eip = (\<lambda>_. False), cm_gteHardfork = (\<lambda>_. True),
     cm_chainId = 1, cm_hasKzg = False\<rparr>"

definition demo_block :: tx_block where
  "demo_block = \<lparr>tb_env = ref_block\<lparr>bl_coinbase := demo_miner\<rparr>, tb_gasUsed = 0, tb_hardfork = ''byzantium''\<rparr>"

definition demo_opts :: runtx_opts where
  "demo_opts = \<lparr>ro_tx = demo_tx, ro_txHardfork = ''byzantium'', ro_common = (\<lambda>_. demo_common), ro_block = Some demo_block,
     ro_blockGasUsed = None, ro_skipNonce = False, ro_skipBalance = False, ro_skipBlockGasLimitValidation = False,
     ro_skipHardForkValidation = False, ro_reportAccessList = False, ro_reportPreimages = False\<rparr>"

definition demo_host :: "bool \<Rightarrow> (simple_state, unit) host" where
  "demo_host b = early_host\<lparr>ho_gteHardfork := (\<lambda>h. b \<and> h = ''byzantium'')\<rparr>"

definition demo_vm :: "bool \<Rightarrow> (simple_state, unit) txvm" where
  "demo_vm b = \<lparr>tv_host = demo_host b, tv_precompiles = [], tv_default = demo_block, tv_setOrder = (\<lambda>_. []),
     tv_crypto = \<lparr>cr_ecrecover = (\<lambda>_ _ _ _ _. Inr []), cr_publicToAddress = (\<lambda>_. demo_sender), cr_sign = (\<lambda>_ _. (0, 0, 0))\<rparr>,
     tv_hasWitness = False, tv_binaryState = False, tv_newWitness = id, tv_mergeWitness = (\<lambda>_ w. w),
     tv_clearOriginal = id, tv_getStateRoot = (\<lambda>_. throw ''root'')\<rparr>"

definition demo_world :: "(simple_state, unit) world" where
  "demo_world = \<lparr>wd_journal = jn_new (ss_new\<lparr>ss_accounts :=
      [\<lambda>a. if a = bytesToHex ref_lib demo_sender then Some (Some (default_account\<lparr>ac_balance := Some 100\<rparr>)) else None]\<rparr>),
     wd_transient = ts_new, wd_witness = ()\<rparr>"

lemma demo_tx_sel [simp]:
  "tx_kind demo_tx = Legacy" "tx_nonce demo_tx = 0" "tx_gasPrice demo_tx = 2" "tx_gasLimit demo_tx = 10"
  "tx_to demo_tx = Some demo_to" "tx_value demo_tx = 3" "tx_data demo_tx = []" "tx_v demo_tx = Some 27"
  "tx_r demo_tx = Some 1" "tx_s demo_tx = Some 1" "tx_capabilities demo_tx = []" "tx_accessList demo_tx = DList []"
  "tx_maxFeePerGas demo_tx = 0" "tx_maxPriorityFeePerGas demo_tx = 0"
  by (simp_all add: demo_tx_def)

lemma demo_sender: "getSenderAddress ref_lib (tv_crypto (demo_vm b)) demo_common demo_tx = Inr demo_sender"
proof -
  let ?u = "map DBytes [wire 0, wire 2, wire 10, demo_to, wire 3, []]"
  have u: "unsigned_raw ref_lib demo_tx = Inr ?u"
    by (simp add: unsigned_raw_def nums_raw_def wire_raw to_raw_def demo_to_def del: replicate.simps)
  have e: "encode_list ?u = Inr (enc (DList ?u))"
    by (rule encode_list_enc) (simp add: wire_def demo_to_def be_bytes_pos len_prefix_def)
  have n: "\<not> is_eip155_v 27" by (simp add: is_eip155_v_def Number_of_def round53_small)
  have m: "getMessageToVerifySignature ref_lib demo_common demo_tx = Inr (keccak_256 ref_lib (enc (DList ?u)))"
    using u e n by (simp add: getMessageToVerifySignature_def isSigned_def legacy_verify_message_def
        legacy_getMessageToSign_def supports_def del: enc.simps replicate.simps list.map)
  show ?thesis
    unfolding getSenderAddress_def getSenderPublicKey_def m
    by (simp add: validateHighS_def isSigned_def demo_common_def demo_vm_def
        address_new_def demo_sender_def wire_raw secp256k1_order_div_2_def del: enc.simps replicate.simps list.map)
qed

lemma demo_addresses [simp]: "demo_sender \<noteq> demo_to" "demo_to \<noteq> demo_sender" "demo_miner \<noteq> demo_sender" "demo_miner \<noteq> demo_to"
  "demo_sender \<noteq> demo_miner" "demo_to \<noteq> demo_miner"
  by (simp_all add: demo_sender_def demo_to_def demo_miner_def)

lemma demo_to [simp]: "demo_to \<noteq> []" "length demo_to = 20"
  by (simp_all add: demo_to_def)

lemmas demo_keys [simp] = bytesToHex_inj [OF lib_ok_ref]

lemma demo_touched [simp]: "drop 2 (bytesToHex ref_lib a) = drop 2 (bytesToHex ref_lib b) \<longleftrightarrow> a = b"
  using bytesToHex_inj [OF lib_ok_ref, of a b] by (auto simp: bytesToHex_eq)

lemma demo_rules [simp]: "tx_rules demo_opts = demo_common" "ro_tx demo_opts = demo_tx" "ro_block demo_opts = Some demo_block"
  "\<not> ro_skipBalance demo_opts" "\<not> ro_skipNonce demo_opts" "\<not> ro_skipHardForkValidation demo_opts"
  "\<not> ro_skipBlockGasLimitValidation demo_opts" "\<not> ro_reportAccessList demo_opts" "\<not> ro_reportPreimages demo_opts"
  by (simp_all add: tx_rules_def demo_opts_def)

lemma demo_host [simp]: "\<not> ho_eip (demo_host b) n" "\<not> ho_gteHardfork (demo_host b) ''spuriousDragon''" "ho_gteHardfork (demo_host b) ''byzantium'' = b"
  "ho_hardfork (demo_host b) = ''byzantium''" "\<not> ho_isClique (demo_host b)" "\<not> ho_isPrecompile (demo_host b) a"
  by (simp_all add: demo_host_def early_host_def ref_host_def)

lemma demo_vm [simp]: "tv_host (demo_vm b) = demo_host b" "tv_setOrder (demo_vm b) x = []"
  by (simp_all add: demo_vm_def)

definition demo_stack :: "(jsstr \<Rightarrow> account option option) list \<Rightarrow> nat \<Rightarrow> simple_state" where
  "demo_stack as n = \<lparr>ss_accounts = as, ss_codes = replicate n (\<lambda>_. None), ss_storages = replicate n (\<lambda>_. None), ss_original = (\<lambda>_. None)\<rparr>"

lemma demo_fork [simp]: "ho_hardfork (simple_host L H') = ho_hardfork H'" "ho_gteHardfork (simple_host L H') = ho_gteHardfork H'"
  "ho_isClique (simple_host L H') = ho_isClique H'"
  by (simp_all add: simple_host_def)

definition demo_accounts :: "jsstr \<Rightarrow> account option option" where
  "demo_accounts = (\<lambda>a. if a = bytesToHex ref_lib demo_sender then Some (Some (default_account\<lparr>ac_balance := Some 100\<rparr>)) else None)"

definition demo_journal :: "simple_state journal" where
  "demo_journal = jn_checkpoint (simple_mgr ref_lib) (jn_new (demo_stack [demo_accounts] 1))"

definition demo_open_world :: "(simple_state, unit) world" where
  "demo_open_world = \<lparr>wd_journal = demo_journal, wd_transient = ts_new, wd_witness = ()\<rparr>"

lemma demo_open: "open_tx (simple_vm ref_lib (demo_vm b)) demo_opts demo_world = (Inr (), demo_open_world)"
  by (simp add: open_tx_def bindS_def liftS_def admit_tx_def header_env_def demo_block_def ref_block_def whenS_def
    w_cleanup_def w_journal_def jn_cleanup_def demo_world_def jn_new_def jn_cleanJournal_def w_jmod_def retS_def
    typed_setup_def Let_def supports_def demo_open_world_def demo_journal_def ss_new_def ss_checkpoint_def demo_stack_def
    demo_accounts_def top_def)

lemma demo_terms [simp]:
  "check_gas (simple_vm ref_lib (demo_vm b)) demo_opts = Inr 5" "check_baseFee (simple_vm ref_lib (demo_vm b)) demo_opts = Inr ()"
  "gas_price (simple_vm ref_lib (demo_vm b)) demo_opts = Inr (2, None)" "blob_terms (simple_vm ref_lib (demo_vm b)) demo_opts = Inr (0, 0)"
  "getUpfrontCost demo_tx f = 23" "max_cost demo_tx g = 3" "\<not> supports demo_tx c" "getIntrinsicGas demo_common demo_tx = 5"
  by (simp_all add: check_gas_def minimum_cost_def getIntrinsicGas_def getDataGas_def legacy_getDataGas_def demo_common_def
    check_baseFee_def gas_price_def blob_terms_def getUpfrontCost_def max_cost_def supports_def Let_def toCreationAddress_def
    sum_data_def)

definition demo_deal :: gas_deal where
  "demo_deal = \<lparr>gd_gasLimit = 5, gd_gasPrice = 2, gd_inclusion = None, gd_txCost = 20, gd_blobGas = 0, gd_blobPrice = 0\<rparr>"

definition demo_bought :: "(simple_state, unit) world" where
  "demo_bought = \<lparr>wd_journal =
        \<lparr>jn_sm = \<lparr>ss_accounts = [demo_accounts, demo_accounts(bytesToHex ref_lib demo_sender \<mapsto>
              Some (default_account\<lparr>ac_balance := Some 80\<rparr>))],
            ss_codes = [\<lambda>_. None, \<lambda>_. None], ss_storages = [\<lambda>_. None, \<lambda>_. None], ss_original = \<lambda>_. None\<rparr>,
         jn_journal = \<lambda>_. None, jn_always = \<lambda>_. None, jn_touched = [drop 2 (bytesToHex ref_lib demo_sender)],
         jn_diff = upd_last (\<lambda>d. d\<lparr>jd_touched := insert (drop 2 (bytesToHex ref_lib demo_sender)) (jd_touched d)\<rparr>)
            [(0, empty_diff), (1, empty_diff)],
         jn_height = 1, jn_accessList = None, jn_preimages = None\<rparr>,
     wd_transient = ts_new, wd_witness = ()\<rparr>"

lemma demo_prepare: "prepare_tx (simple_vm ref_lib (demo_vm b)) demo_opts demo_open_world = (Inr (demo_sender, demo_deal, 0), demo_bought)"
  by (simp add: demo_bought_def prepare_tx_def bindS_def liftS_def demo_sender warm_addresses_def whenS_def retS_def 
    authorizations_def buy_gas_def account_read check_eoa_def check_upfront_def check_maxCost_def
    loaded_def account_at_def ss_getAccount_def demo_open_world_def demo_journal_def jn_checkpoint_def jn_new_def
    jn_cleanJournal_def simple_mgr_def ss_checkpoint_def demo_stack_def top_def demo_accounts_def default_account_def
    w_putAccount_def w_journal_def jn_putAccount_def demo_deal_def
    jn_touchAddress_def jn_touchAccount_def ss_putAccount_def set_top_def Let_def set_balance_def)

lemmas demo_defs = bindS_def liftS_def whenS_def retS_def loaded_def account_at_def ss_getAccount_def jn_checkpoint_def simple_mgr_def ss_checkpoint_def top_def demo_accounts_def default_account_def w_putAccount_def w_journal_def jn_putAccount_def demo_deal_def jn_touchAddress_def jn_touchAccount_def ss_putAccount_def set_top_def Let_def run_message_of_def start_message_def tx_message_def message_new_def default_message_def tx_host_def run_message_def begin_call_def w_transient_def simple_host_def executeCall_def w_account_def w_mgr_def tryW_def reduceSenderBalance_def failS_def ts_checkpoint_def error_name_def addToBalance_def MAX_INTEGER_BIGINT_def call_code_def loadCode_def plain_result_def settle_result_def set_exec_def finish_call_def failed_def jn_revert_def ss_revert_def ts_revert_def ts_new_def w_commit_def codeAddress_def ss_getCode_def jn_commit_def ss_commit_def splice_m2_def ts_commit_def w_witness_def ref_witness_ops_def settle_tx_def txLogsBloom_def bloom_new_def settle_gas_def pay_def miner_of_def header_env_def demo_block_def miner_value_def set_balance_def w_cleanup_def jn_cleanup_def w_mgr_u_def generateTxReceipt_def cumulative_gas_def simple_vm_def demo_vm_def

lemma demo_settle: "\<exists>res w'. bindS (run_message_of 1 (simple_vm ref_lib (demo_vm True)) demo_opts demo_sender demo_deal)
     (settle_tx (simple_vm ref_lib (demo_vm True)) demo_opts demo_sender demo_deal 0) demo_bought = (Inr res, w')
    \<and> rr_amountSpent res = 10 \<and> rr_minerValue res = 10"
  unfolding bindS_def demo_bought_def by (simp add: demo_defs split: prod.split)

lemma demo_message: "\<exists>res w'. run_message_of 1 (simple_vm ref_lib (demo_vm b)) demo_opts demo_sender demo_deal demo_bought = (Inr res, w')"
  unfolding demo_bought_def by (simp add: demo_defs split: prod.split)

lemma demo_late_error: "\<exists>x w'. bindS (run_message_of 1 (simple_vm ref_lib (demo_vm False)) demo_opts demo_sender demo_deal)
     (settle_tx (simple_vm ref_lib (demo_vm False)) demo_opts demo_sender demo_deal 0) demo_bought = (Inl x, w')"
  unfolding bindS_def demo_bought_def by (simp add: demo_defs split: prod.split)


lemma demo_idle: "idle ref_lib [] demo_world"
  by (simp add: idle_def at_state_def demo_world_def jn_new_def jn_cleanJournal_def ss_inv_def ss_saved_def ss_new_def
      ss_checkpoint_def funded_def ss_bal_def ss_cur_def top_def default_account_def fresh_transient_def ts_inv_def ts_new_def)

lemma demo_fine: "tx_fine (ro_tx demo_opts)" "market_fine (simple_vm ref_lib (demo_vm b)) demo_opts" "items_fine demo_opts"
proof -
  show "tx_fine (ro_tx demo_opts)" by (simp add: tx_fine_def has_maxFee_def)
  have "0 \<le> ho_param (demo_host b) ''blobGasPerBlob''"
    by (simp add: demo_host_def early_host_def ref_param_def ref_params_def)
  then show "market_fine (simple_vm ref_lib (demo_vm b)) demo_opts"
    by (auto simp: market_fine_def header_baseFee_def demo_block_def ref_block_def)
  show "items_fine demo_opts" by (simp add: items_fine_def)
qed

lemma demo_inner: "runTx_inner n (simple_vm ref_lib (demo_vm b)) demo_opts demo_open_world =
    bindS (run_message_of n (simple_vm ref_lib (demo_vm b)) demo_opts demo_sender demo_deal)
     (settle_tx (simple_vm ref_lib (demo_vm b)) demo_opts demo_sender demo_deal 0) demo_bought"
  unfolding runTx_inner_def bindS_def [of "prepare_tx _ _"] demo_prepare by simp

interpretation demo: simple_tx ref_lib "demo_vm True" "[]"
  by unfold_locales (simp_all add: ref_lib_errors)

section \<open>The claims\<close>

text \<open>C2. Transactions are atomic, unless their message throws. A transaction that is refused before its
  message, or whose message gives a result - with an exception of the virtual machine or without - and
  that fails after it, leaves accounts, code and storage as they were when \<open>runTx\<close> was called; and
  unless the message throws the checkpoints that were open, those of the block, are open again with
  the same contents, whether \<open>runTx\<close> fails or succeeds. When the message throws, its own checkpoint
  stays open and the \<open>catch\<close> clause of \<open>runTx\<close> reverts only one, so nothing is claimed of the state:
  \<open>runTx\<close> then throws too, and without \<open>skipBalance\<close> what was thrown is never an exception of the
  virtual machine but a JavaScript error (or, in the model, exhausted fuel). The state manager is the
  simple one, with any open checkpoints, a clean journal, empty transient storage and no negative
  balance, and the transaction is as its constructor leaves it.\<close>

theorem runtx_atomic:
  assumes "lib_ok L" "\<forall>s x. nobleH2B L s \<noteq> Inl (EvmTrap x)" "ho_hardfork (tv_host V) \<noteq> ''chainstart''"
    and "\<not> ho_eip (tv_host V) 7864" "\<not> ro_reportAccessList opts" "\<not> ro_reportPreimages opts"
    and "idle L base w" "tx_fine (ro_tx opts)" "market_fine (simple_vm L V) opts" "items_fine opts"
    and "runTx n (simple_vm L V) opts w = (r, w')"
  shows "((\<nexists>x. message_throws n (simple_vm L V) opts w x) \<longrightarrow>
      at_state base w' \<and> (\<forall>e. r = Inl e \<longrightarrow> ss_cur (state_of w') = ss_cur (state_of w))) \<and>
    (\<forall>x. message_throws n (simple_vm L V) opts w x \<longrightarrow>
      (\<exists>e. r = Inl e) \<and> (\<not> ro_skipBalance opts \<longrightarrow> thrown x))"
proof (rule conjI)
  have tx: "simple_tx L V" using assms(1-3) by (simp add: simple_tx_def)
  show "(\<nexists>x. message_throws n (simple_vm L V) opts w x) \<longrightarrow>
      at_state base w' \<and> (\<forall>e. r = Inl e \<longrightarrow> ss_cur (state_of w') = ss_cur (state_of w))"
    using simple_tx.runTx_ok [OF tx assms(7,4-6,8-10) _ assms(11)] no_throw_returns by blast
  show "\<forall>x. message_throws n (simple_vm L V) opts w x \<longrightarrow>
      (\<exists>e. r = Inl e) \<and> (\<not> ro_skipBalance opts \<longrightarrow> thrown x)"
    by (intro allI impI conjI, erule simple_tx.throws_error [OF tx _ assms(11)],
        erule (1) simple_tx.throws_thrown [OF tx assms(7,4-6,8-10)])
qed

text \<open>A transfer whose receipt cannot be made, after the payments.\<close>

theorem runtx_atomic_witness:
  "\<exists>e w'. runTx 1 (simple_vm ref_lib (demo_vm False)) demo_opts demo_world = (Inl e, w')
    \<and> ss_cur (state_of w') = ss_cur (state_of demo_world)"
proof -
  obtain e w' where r: "runTx 1 (simple_vm ref_lib (demo_vm False)) demo_opts demo_world = (Inl e, w')"
  proof -
    obtain r w' where r: "runTx 1 (simple_vm ref_lib (demo_vm False)) demo_opts demo_world = (r, w')" by fastforce
    moreover have "\<exists>e. r = Inl e"
      using r demo_late_error by (auto simp: runTx_def bindS_def [of "open_tx _ _"] demo_open close_tx_def demo_inner
          split: sum.splits prod.splits)
    ultimately show ?thesis using that by blast
  qed
  have "\<not> message_throws 1 (simple_vm ref_lib (demo_vm False)) demo_opts demo_world x" for x
    using demo_message [of False] by (auto simp: message_throws_def demo_open demo_prepare)
  with runtx_atomic [OF lib_ok_ref _ _ _ _ _ demo_idle demo_fine r] r show ?thesis
    by (auto simp: ref_lib_errors)
qed

text \<open>C3. What a transaction costs. A transaction that succeeds, without \<open>skipBalance\<close>, takes the price of
  its whole gas limit and its blobs from the sender, who then still has its value; nothing else changes
  before the message. After the message the price of the unused gas goes back to the sender and the
  miner is paid; the balances of all other accounts that the transaction did not destroy are those the
  message left. Under EIP-1559 the amount spent is the share of the miner plus the burnt base fee of
  the gas.\<close>

theorem runtx_fees:
  assumes "lib_ok L" "\<forall>s x. nobleH2B L s \<noteq> Inl (EvmTrap x)" "ho_hardfork (tv_host V) \<noteq> ''chainstart''"
    and "\<not> ho_eip (tv_host V) 7864" "\<not> ro_reportAccessList opts" "\<not> ro_reportPreimages opts"
    and "idle L base w" "tx_fine (ro_tx opts)" "market_fine (simple_vm L V) opts" "items_fine opts"
    and "\<not> ro_skipBalance opts" "runTx n (simple_vm L V) opts w = (Inr res, w')"
  shows "\<exists>w0 caller deal refund w1 w2. open_tx (simple_vm L V) opts w = (Inr (), w0)
    \<and> prepare_tx (simple_vm L V) opts w0 = (Inr (caller, deal, refund), w1)
    \<and> bought opts caller deal (ss_bal L (ss_cur (state_of w))) (ss_bal L (ss_cur (state_of w1)))
    \<and> run_message_of n (simple_vm L V) opts caller deal w1 = (Inr (rr_evm res), w2)
    \<and> (\<forall>a. a \<notin> destroyed (simple_vm L V) (ev_exec (rr_evm res)) \<longrightarrow> ss_bal L (ss_cur (state_of w')) a =
        add_bal (miner_of (simple_vm L V) opts) (rr_minerValue res)
          (add_bal caller (gd_txCost deal - rr_amountSpent res) (ss_bal L (ss_cur (state_of w2)))) a)
    \<and> gd_txCost deal = tx_gasLimit (ro_tx opts) * gd_gasPrice deal
    \<and> rr_amountSpent res = rr_totalGasSpent res * gd_gasPrice deal
    \<and> (\<forall>f. ho_eip (tv_host V) 1559 \<and> header_baseFee (simple_vm L V) opts = Some f \<longrightarrow>
        rr_amountSpent res = rr_minerValue res + rr_totalGasSpent res * f)"
proof -
  have "simple_tx L V" using assms(1-3) by (simp add: simple_tx_def)
  from simple_tx.fees [OF this assms(7,4-6,8-12)] show ?thesis .
qed

theorem runtx_fees_witness:
  "\<exists>res w' w1 w2 caller deal. runTx 1 (simple_vm ref_lib (demo_vm True)) demo_opts demo_world = (Inr res, w')
    \<and> bought demo_opts caller deal (ss_bal ref_lib (ss_cur (state_of demo_world))) (ss_bal ref_lib (ss_cur (state_of w1)))
    \<and> run_message_of 1 (simple_vm ref_lib (demo_vm True)) demo_opts caller deal w1 = (Inr (rr_evm res), w2)
    \<and> rr_amountSpent res = rr_totalGasSpent res * gd_gasPrice deal"
proof -
  let ?V = "simple_vm ref_lib (demo_vm True)"
  from demo_settle obtain res w3 where "runTx_inner 1 ?V demo_opts demo_open_world = (Inr res, w3)"
    unfolding demo_inner by blast
  then obtain w' where r: "runTx 1 ?V demo_opts demo_world = (Inr res, w')"
    using demo.succeeds(2) [OF demo_idle _ _ _ demo_fine demo_open] by fastforce
  from runtx_fees [OF lib_ok_ref _ _ _ _ _ demo_idle demo_fine _ r] r show ?thesis
    by (simp add: ref_lib_errors) blast
qed

definition demo_exec :: exec_result where
  "demo_exec = \<lparr>er_returnValue = [], er_executionGasUsed = 3, er_exceptionError = None, er_gasRefund = Some 4,
     er_logs = None, er_selfdestruct = {}, er_createdAddresses = {}\<rparr>"

theorem settle_gas_bounds_witness:
  "\<exists>spent refund. settle_gas (demo_vm True\<lparr>tv_host := (demo_host True)\<lparr>ho_param := \<lambda>_. 5\<rparr>\<rparr>) demo_opts 0 demo_exec = Inr (spent, refund)
    \<and> 7 \<le> spent \<and> spent \<le> 10"
proof -
  let ?V = "demo_vm True\<lparr>tv_host := (demo_host True)\<lparr>ho_param := \<lambda>_. 5\<rparr>\<rparr>"
  have g: "check_gas ?V demo_opts = Inr 5" by (simp add: check_gas_def minimum_cost_def)
  show ?thesis using settle_gas_bounds [OF g, of demo_exec 0] by (auto simp: demo_exec_def)
qed

end
