(* ===== verification/Spec2Isabelle.thy ===== *)
theory Spec2Isabelle
  imports Prelude Hex Rlp Bytes EvmStack EvmMemory EvmUtil EvmAlu Checkpoints TransientStorage CheckpointDB Account
    SimpleState Journal EvmState EvmGas EvmRef Preserve GasLaws GasFrame EvmOps EvmCalls EvmLoop EvmRun EvmFrame
    EvmJumps EvmInvariant EvmAtomic MptNode MptTree Mpt MptPath MptSound MptWrite MptProof MptTrie
    Doubles KBucket KClosest RoutingTable Kademlia QHeap Ordering TxPool PoolInvariant PoolCalls
    Tx TxCodec Bloom RunTx RunTxLaws RunTxFees
begin

text \<open>
  A verification of the protocol core of the node: the RLP codec, accounts and addresses, the
  checkpointing databases and state, the Merkle Patricia trie, the virtual machine from its stack to nested message calls, peer discovery and the
  transaction pool.
  Paths below are relative to \<open>src/packages\<close>.

  \<^bold>\<open>How code is modelled.\<close> An exception is the left side of a sum (\<open>'a res\<close>): \<open>Throw\<close> for a
  JavaScript error, \<open>EvmTrap\<close> for an error of the virtual machine (\<open>EVMError\<close>), \<open>OutOfFuel\<close> only where a
  recursion is cut off by fuel. Unbounded \<open>bigint\<close>s are \<open>int\<close>, bytes are \<open>8 word\<close>, strings that the code
  computes with are lists of UTF-16 units, \<open>Map\<close> and object dictionaries are functions to \<open>option\<close>.
  Classes are records and their methods state-passing functions; a computation of the virtual
  machine is a function from a run state to an outcome and a state, so that the state at the time of
  an error is known too (\<open>stm\<close>, \<open>bindS\<close>). Third-party code is an argument: the byte library
  (\<open>lib\<close>, assumed to be a hex codec with a 32-byte hash by \<open>lib_ok\<close>), the LRU cache, and in \<open>host\<close> the
  chain rules and parameters by name, the precompiles, the EOF parser, block hashes, the access witness
  and the state manager.

  \<^bold>\<open>Bytes and codecs.\<close> \<open>Prelude\<close> and \<open>Hex\<close> hold results, list slices and big-endian numbers. \<open>Rlp\<close> is
  \<open>rlp/src\<close>: encoder, strict and stream decoder; the decoder's fuel is twice the input's length plus
  one, which \<open>rlp_decode_terminates\<close> shows to be enough, and decoding and encoding are inverse both
  ways. \<open>Bytes\<close> and \<open>Account\<close> are \<open>utils/src/bytes.ts\<close>, \<open>account.ts\<close> and \<open>address.ts\<close> with their
  round trips and the checksum form of addresses.

  \<^bold>\<open>State with checkpoints.\<close> \<open>Checkpoints\<close> states once, as the locale \<open>checkpointed\<close>, what a store
  with nested checkpoints promises, and proves that any tree of nested calls runs as if reverted calls
  had not happened. Interpretations: \<open>CheckpointDB\<close> (\<open>merkel-trie/src/db/checkpointDB.ts\<close>),
  \<open>TransientStorage\<close> (\<open>evm/src/transientStorage.ts\<close>), \<open>SimpleState\<close>
  (\<open>state-manager/src/simpleStateManager.ts\<close>) and, over any state manager with that contract,
  \<open>Journal\<close> (\<open>evm/src/journal.ts\<close>).

  \<^bold>\<open>The virtual machine.\<close> \<open>EvmStack\<close>, \<open>EvmMemory\<close>, \<open>EvmUtil\<close> and \<open>EvmAlu\<close> are \<open>stack.ts\<close>, \<open>memory.ts\<close>, the
  helpers of \<open>opcodes/util.ts\<close> and opcodes 0x01 to 0x1e of \<open>opcodes/functions.ts\<close>, proved to compute the
  256-bit operations. \<open>EvmState\<close> is the run state and the methods of \<open>interpreter.ts\<close> over it, \<open>EvmGas\<close>
  all of \<open>opcodes/gas.ts\<close> with the storage rules of EIP-1283, 2200 and 2929, \<open>EvmOps\<close> and \<open>EvmCalls\<close> the
  remaining handlers of \<open>functions.ts\<close> and the call methods of the interpreter, \<open>EvmLoop\<close> the opcode
  tables of \<open>codes.ts\<close>, jump analysis and the loop, \<open>EvmRun\<close> the message calls of \<open>evm.ts\<close>. A handler
  that makes a call takes \<open>runCall\<close> as an argument, and \<open>EvmRun\<close> ties the knot with fuel: a call with
  fuel \<open>n + 1\<close> runs its loop for at most \<open>n + 2\<close> rounds and its own calls with fuel \<open>n\<close>.

  \<^bold>\<open>What is shown of it.\<close> \<open>Preserve\<close> is the calculus of invariants and triples of computations. \<open>GasLaws\<close> and
  \<open>GasFrame\<close> show the laws of memory and storage pricing, of warm and cold access and of call gas, and that
  pricing an opcode does not execute it. \<open>EvmFrame\<close> states, as locales, what an observation of the run
  state may ignore, and proves for each what all handlers of the table keep. \<open>EvmJumps\<close> shows that jump
  analysis is exact, that legacy code never leaves its instructions and that the cache of push values is
  transparent. \<open>EvmInvariant\<close> states in the locale \<open>evm_state\<close> what the virtual machine relies on in a state
  manager and proves the invariant of a run; \<open>EvmAtomic\<close> concludes by induction on the fuel that message
  calls are transactions, and interprets the locale on the simple state manager.

  \<^bold>\<open>The trie.\<close> \<open>MptNode\<close> is \<open>util/nibbles.ts\<close>, \<open>util/hex.ts\<close> and \<open>node/*.ts\<close> of \<open>merkel-trie/src\<close>, \<open>Mpt\<close> is
  \<open>mpt.ts\<close> over the checkpointing database, \<open>MptProof\<close> is \<open>proof/proof.ts\<close>. \<open>MptTree\<close> is the specification: a trie as a
  tree, with insertion and deletion, where equal contents mean equal trees. \<open>MptPath\<close> says how a tree is written down
  and walked, and \<open>MptSound\<close> and \<open>MptWrite\<close>, in the locale \<open>mpt_store\<close> on the options, that what \<open>findPath\<close>, \<open>put\<close>
  and \<open>del\<close> do in the database is what walking, insertion and deletion do to the tree; \<open>MptTrie\<close> concludes for
  batches, roots, checkpoints and proofs. A walk has fuel for two nodes more than the path has nibbles, which is
  enough because every node above the last takes a nibble. The hash function is an option, assumed to answer
  strings of one length and not to collide on the encodings in play; node pruning is modelled but left out of
  the theorems, since it deletes nodes that other paths share.

  \<^bold>\<open>Peer discovery.\<close> \<open>KBucket\<close> is the splitting bucket tree of \<open>kademlia/src/bucket.ts\<close>, shown to be one bucket
  per length of the common prefix with the local id; \<open>add\<close> is a partial function, since it does not end for ids
  of different lengths. \<open>KClosest\<close> shows that the early stop of \<open>closest\<close> loses nothing, although distances are
  JavaScript numbers: \<open>Doubles\<close> models their rounding. \<open>RoutingTable\<close> is \<open>routing-table.ts\<close> with its index of peers
  (the tree is reached through the locale \<open>contact_table\<close>), \<open>Kademlia\<close> the ban list and the node's handling of
  peers; the answers to pings arrive as steps in any order.

  \<^bold>\<open>Transaction pool.\<close> \<open>QHeap\<close> is \<open>execution-client/src/ext/qheap.ts\<close>, in the locale \<open>heap_order\<close> a priority queue;
  \<open>Ordering\<close> is \<open>miner/ordering.ts\<close>, one queue per account; \<open>TxPool\<close> is \<open>service/txpool.ts\<close>, where the head block and
  the accounts a handler asks for are an argument. \<open>PoolInvariant\<close> shows what each handler keeps true and \<open>PoolCalls\<close>
  what then holds after any sequence of calls, the end of the eviction loops included, unless an addition meets one of two
  situations the code mishandles (\<open>slot_clash\<close>, \<open>twin\<close>), whose effects are shown too.

  \<^bold>\<open>Transactions.\<close> \<open>Tx\<close> is \<open>tx/src\<close>: one record for the five types, a constructor each with its checks, gas and
  costs, encodings, signing and validation (key recovery and signing are arguments), and the readers of network
  bytes; \<open>TxCodec\<close> shows that the readers undo the encodings and where verification goes wrong.

  \<^bold>\<open>Running a transaction.\<close> \<open>Bloom\<close> is \<open>vm/src/bloom/index.ts\<close>; \<open>RunTx\<close> is \<open>vm/src/runTx.ts\<close>: the checks before a
  transaction changes anything, its checkpoint, the purchase of gas, EIP-7702 authorizations, the message call of
  \<open>EvmRun\<close>, the settlement of gas and fees, self-destructs and the receipt. \<open>RunTxLaws\<close> carries the contract of the
  machine's state over to open checkpoints (\<open>evm_state_base\<close>) and follows a transaction on the simple state manager
  in the locale \<open>simple_tx\<close>; \<open>RunTxFees\<close> concludes that transactions are atomic, what they cost and how their gas is
  bounded. A message that throws (\<open>message_throws\<close>, exhausted fuel included) leaves its checkpoint open, so atomicity is
  stated for the transactions whose message gives a result, and of the others what is thrown.

  \<^bold>\<open>Not modelled.\<close> Debug output, profiling, step and message events; precompiled contracts, EOF
  parsing and the access witness (arguments here); the trie's lock, range proofs and walks of whole tries; the Merkle state manager, blocks,
  blockchain, consensus, the network wrapper of blob transactions and the execution of blocks, which are planned; sockets, encryption, RPC, command line and metrics, which are input and
  output around third-party code.
\<close>

end
